(* ===== verification/Prelude.thy ===== *)
theory Prelude
  imports Main "HOL-Library.Word" "HOL-Library.Multiset"
begin

unbundle bit_operations_syntax

text \<open>
  Shared vocabulary of the development: the machine integer types of the C sources, the ways a
  C function can fail to return normally, the error monad the models are written in, bounds
  checked array accesses, and the generic lemmas on them. A C \<open>__u32\<close> is a \<open>32 word\<close>
  (arithmetic wraps as in C); a C \<open>int\<close> or \<open>__s32\<close> that is only stored, compared or
  negated is an \<open>int\<close>, and it is turned into a \<open>32 word\<close> where the source converts it to
  an unsigned type.
\<close>

section \<open>Machine integers\<close>

type_synonym u8 = "8 word"
type_synonym u16 = "16 word"
type_synonym u32 = "32 word"
type_synonym u64 = "64 word"

section \<open>Errors, faults and the error monad\<close>

text \<open>Kernel error numbers the modelled functions return.\<close>

datatype errno = EINVAL | ENOMEM | ENOENT | EEXIST | EIO | ERANGE

text \<open>
  Behaviour that C leaves undefined or that stops the kernel: an access outside an object, a
  dereference of a null pointer, an object read through the wrong struct type, a \<open>BUG_ON\<close>
  that fires, a shift by at least the width of the operand, a division by zero; or a task that waits for a lock it holds itself.
\<close>

datatype fault = OutOfBounds | NullDeref | TypeConfusion | BugOn | BadShift | DivZero | Deadlock

text \<open>
  How a function ends when it does not return normally. \<open>Err0\<close> is an error exit whose error
  variable is still 0, which a caller cannot tell from success. \<open>NoFuel\<close> is not an outcome of
  the C code: it says that the bound given to a loop of the model was too small.
\<close>

datatype stop = Err errno | Err0 | Fault fault | NoFuel

type_synonym 'a res = "stop + 'a"

definition bindE :: "'a res \<Rightarrow> ('a \<Rightarrow> 'b res) \<Rightarrow> 'b res" where
  "bindE m f = (case m of Inl e \<Rightarrow> Inl e | Inr x \<Rightarrow> f x)"

definition guardE :: "bool \<Rightarrow> stop \<Rightarrow> unit res" where
  "guardE b e = (if b then Inr () else Inl e)"

named_theorems res_simps \<open>rewriting the error monad\<close>

lemma bindE_simps [simp, res_simps]:
  "bindE (Inl e) f = Inl e"
  "bindE (Inr x) f = f x"
  by (simp_all add: bindE_def)

lemma bindE_Inr_iff [res_simps]:
  "bindE m f = Inr y \<longleftrightarrow> (\<exists>x. m = Inr x \<and> f x = Inr y)"
  by (cases m) auto

lemma bindE_Inl_iff [res_simps]:
  "bindE m f = Inl e \<longleftrightarrow> m = Inl e \<or> (\<exists>x. m = Inr x \<and> f x = Inl e)"
  by (cases m) auto

lemma bindE_cong [fundef_cong]:
  "m = m' \<Longrightarrow> (\<And>x. m' = Inr x \<Longrightarrow> f x = f' x) \<Longrightarrow> bindE m f = bindE m' f'"
  by (cases m') auto

lemma bindE_InrE [elim!]:
  assumes "bindE m f = Inr y"
  obtains x where "m = Inr x" and "f x = Inr y"
  using assms by (auto simp: bindE_Inr_iff)

lemma guardE_simps [simp, res_simps]:
  "guardE True e = Inr ()"
  "guardE False e = Inl e"
  by (simp_all add: guardE_def)

lemma guardE_Inr_iff [simp]: "guardE b e = Inr u \<longleftrightarrow> b"
  by (simp add: guardE_def)

lemma guardE_Inl_iff [simp]: "guardE b e = Inl e' \<longleftrightarrow> \<not> b \<and> e' = e"
  by (auto simp: guardE_def)

section \<open>Array accesses\<close>

text \<open>Reading and writing element \<open>i\<close> of an array object with \<open>length xs\<close> elements.\<close>

definition rd :: "'a list \<Rightarrow> nat \<Rightarrow> 'a res" where
  "rd xs i = (if i < length xs then Inr (xs ! i) else Inl (Fault OutOfBounds))"

definition wr :: "'a list \<Rightarrow> nat \<Rightarrow> 'a \<Rightarrow> 'a list res" where
  "wr xs i v = (if i < length xs then Inr (xs[i := v]) else Inl (Fault OutOfBounds))"

text \<open>The same with a signed index, as a C \<open>int\<close> subscript.\<close>

definition rdi :: "'a list \<Rightarrow> int \<Rightarrow> 'a res" where
  "rdi xs i = (if 0 \<le> i then rd xs (nat i) else Inl (Fault OutOfBounds))"

text \<open>Dereferencing a pointer that may be null.\<close>

definition deref :: "'a option \<Rightarrow> 'a res" where
  "deref p = (case p of None \<Rightarrow> Inl (Fault NullDeref) | Some x \<Rightarrow> Inr x)"

lemma rd_in [simp]: "i < length xs \<Longrightarrow> rd xs i = Inr (xs ! i)"
  by (simp add: rd_def)

lemma rd_Inr_iff: "rd xs i = Inr v \<longleftrightarrow> i < length xs \<and> xs ! i = v"
  by (auto simp: rd_def)

lemma wr_in [simp]: "i < length xs \<Longrightarrow> wr xs i v = Inr (xs[i := v])"
  by (simp add: wr_def)

lemma wr_Inr_iff: "wr xs i v = Inr ys \<longleftrightarrow> i < length xs \<and> ys = xs[i := v]"
  by (auto simp: wr_def)

lemma rdi_in [simp]: "0 \<le> i \<Longrightarrow> nat i < length xs \<Longrightarrow> rdi xs i = Inr (xs ! nat i)"
  by (simp add: rdi_def)

lemma rdi_Inr_iff: "rdi xs i = Inr v \<longleftrightarrow> 0 \<le> i \<and> nat i < length xs \<and> xs ! nat i = v"
  by (auto simp: rdi_def rd_def)

lemma deref_simps [simp]:
  "deref None = Inl (Fault NullDeref)"
  "deref (Some x) = Inr x"
  by (simp_all add: deref_def)

lemma deref_Inr_iff [simp]: "deref p = Inr x \<longleftrightarrow> p = Some x"
  by (cases p) auto

lemmas access_iffs = rd_Inr_iff wr_Inr_iff rdi_Inr_iff

section \<open>Loops over a list of values\<close>

text \<open>A counting loop whose body may fail: the first failure ends the loop.\<close>

fun foldE :: "('a \<Rightarrow> 's \<Rightarrow> 's res) \<Rightarrow> 'a list \<Rightarrow> 's \<Rightarrow> 's res" where
  "foldE f [] s = Inr s"
| "foldE f (x # xs) s = bindE (f x s) (foldE f xs)"

lemma foldE_append: "foldE f (xs @ ys) s = bindE (foldE f xs s) (foldE f ys)"
  by (induction xs arbitrary: s) (auto simp: bindE_def split: sum.splits)

text \<open>The loop rule: \<open>P k\<close> holds before iteration \<open>k\<close>.\<close>

lemma foldE_upt_rule:
  assumes "i \<le> j" and "P i s"
    and "\<And>k t. i \<le> k \<Longrightarrow> k < j \<Longrightarrow> P k t \<Longrightarrow> \<exists>t'. f k t = Inr t' \<and> P (Suc k) t'"
  shows "\<exists>t. foldE f [i..<j] s = Inr t \<and> P j t"
  using assms
proof (induction "j - i" arbitrary: i s)
  case 0
  then show ?case by simp
next
  case (Suc n)
  then have "i < j" by simp
  with Suc.prems obtain t' where "f i s = Inr t'" "P (Suc i) t'" by blast
  moreover from Suc.hyps(1)[of "Suc i" t'] Suc.hyps(2) Suc.prems \<open>i < j\<close> \<open>P (Suc i) t'\<close>
  have "\<exists>t. foldE f [Suc i..<j] t' = Inr t \<and> P j t" by simp
  ultimately show ?case using \<open>i < j\<close> by (simp add: upt_conv_Cons)
qed

section \<open>Specifications of results\<close>

text \<open>
  \<open>returns P m\<close>: \<open>m\<close> returns normally (no fault, no error, enough fuel) with a value that
  satisfies \<open>P\<close>. \<open>relE R m m'\<close>: both stop in the same way or return related values.
\<close>

definition returns :: "('a \<Rightarrow> bool) \<Rightarrow> 'a res \<Rightarrow> bool" where
  "returns P m = (case m of Inl e \<Rightarrow> False | Inr y \<Rightarrow> P y)"

definition relE :: "('a \<Rightarrow> 'b \<Rightarrow> bool) \<Rightarrow> 'a res \<Rightarrow> 'b res \<Rightarrow> bool" where
  "relE R m m' =
    (case m of Inl e \<Rightarrow> m' = Inl e | Inr y \<Rightarrow> (case m' of Inl e \<Rightarrow> False | Inr y' \<Rightarrow> R y y'))"

lemma returns_simps [simp]:
  "returns P (Inr y) = P y"
  "\<not> returns P (Inl e)"
  by (simp_all add: returns_def)

lemma returns_iff: "returns P m \<longleftrightarrow> (\<exists>y. m = Inr y \<and> P y)"
  by (cases m) auto

lemma returns_bind:
  "returns Q m \<Longrightarrow> (\<And>x. Q x \<Longrightarrow> returns P (f x)) \<Longrightarrow> returns P (bindE m f)"
  by (cases m) auto

lemma returns_mono: "returns Q m \<Longrightarrow> (\<And>x. Q x \<Longrightarrow> P x) \<Longrightarrow> returns P m"
  by (cases m) auto

lemma returns_foldE_upt:
  assumes "i \<le> j" and "P i s"
    and "\<And>k t. i \<le> k \<Longrightarrow> k < j \<Longrightarrow> P k t \<Longrightarrow> returns (P (Suc k)) (f k t)"
  shows "returns (P j) (foldE f [i..<j] s)"
  using foldE_upt_rule[of i j P s f] assms by (auto simp: returns_iff)

lemma relE_simps [simp]:
  "relE R (Inr y) (Inr y') = R y y'"
  "relE R (Inl e) (Inl e') = (e' = e)"
  "\<not> relE R (Inl e) (Inr y')"
  "\<not> relE R (Inr y) (Inl e)"
  by (auto simp: relE_def)

lemma relE_refl: "(\<And>y. m = Inr y \<Longrightarrow> R y y) \<Longrightarrow> relE R m m"
  by (cases m) auto

lemma relE_bind:
  "relE Q m m' \<Longrightarrow> (\<And>x x'. Q x x' \<Longrightarrow> relE R (f x) (f' x')) \<Longrightarrow> relE R (bindE m f) (bindE m' f')"
  by (cases m; cases m') auto

lemma relE_foldE:
  assumes "R s s'" and "\<And>x t t'. x \<in> set xs \<Longrightarrow> R t t' \<Longrightarrow> relE R (f x t) (f' x t')"
  shows "relE R (foldE f xs s) (foldE f' xs s')"
  using assms by (induction xs arbitrary: s s') (auto intro!: relE_bind[where Q = R])

text \<open>
  \<open>safe A P m\<close>: \<open>m\<close> returns a value that satisfies \<open>P\<close> or stops in a way that \<open>A\<close> allows;
  with \<open>A = is_error\<close> it does not fault.
\<close>

definition is_error :: "stop \<Rightarrow> bool" where
  "is_error e \<longleftrightarrow> (case e of Err n \<Rightarrow> True | Err0 \<Rightarrow> True | _ \<Rightarrow> False)"

definition safe :: "(stop \<Rightarrow> bool) \<Rightarrow> ('a \<Rightarrow> bool) \<Rightarrow> 'a res \<Rightarrow> bool" where
  "safe A P m = (case m of Inl e \<Rightarrow> A e | Inr y \<Rightarrow> P y)"

lemma is_error_simps [simp]:
  "is_error (Err n)" "is_error Err0" "\<not> is_error (Fault f)" "\<not> is_error NoFuel"
  by (simp_all add: is_error_def)

lemma safe_simps [simp]:
  "safe A P (Inr y) = P y"
  "safe A P (Inl e) = A e"
  by (simp_all add: safe_def)

lemma safe_bind: "safe A Q m \<Longrightarrow> (\<And>x. Q x \<Longrightarrow> safe A P (f x)) \<Longrightarrow> safe A P (bindE m f)"
  by (cases m) auto

lemma safe_mono: "safe A Q m \<Longrightarrow> (\<And>x. Q x \<Longrightarrow> P x) \<Longrightarrow> safe A P m"
  by (cases m) auto

section \<open>Generic lemmas\<close>

lemma unat_mod_less: "b \<noteq> 0 \<Longrightarrow> unat (a mod b) < unat (b :: 'a :: len word)"
  by (simp add: unat_mod word_unat_eq_iff)

lemma find_SomeD: "find P xs = Some x \<Longrightarrow> x \<in> set xs \<and> P x"
  by (induction xs) (auto split: if_splits)

lemma set_list_update_subset: "set (xs[i := v]) \<subseteq> insert v (set xs)"
  by (rule set_update_subset_insert)

lemma unat_less_2p: "unat (w :: 'a :: len word) < 2 ^ LENGTH('a)"
  by (rule unsigned_less)

lemma unat_word_of_nat_small: "n < 2 ^ LENGTH('a) \<Longrightarrow> unat (word_of_nat n :: 'a :: len word) = n"
  by (simp add: unat_of_nat take_bit_eq_mod)

lemma unat_ucast_32_64 [simp]: "unat (ucast (w :: u32) :: u64) = unat w"
proof -
  have "unat w < 2 ^ 64" using unat_less_2p[of w] by simp
  then show ?thesis by (simp add: unsigned_ucast_eq take_bit_eq_mod)
qed

lemma unat_word_of_nat_Suc:
  assumes "Suc n < 2 ^ LENGTH('a)"
  shows "unat (word_of_nat n + 1 :: 'a :: len word) = Suc n"
proof -
  have "word_of_nat n + 1 = (word_of_nat (Suc n) :: 'a word)" by simp
  then show ?thesis using unat_word_of_nat_small[OF assms] by metis
qed

end
