(* ===== verification/Hash.thy ===== *)
theory Hash
  imports Prelude
begin

text \<open>
  The hash functions: Robert Jenkins' 32 bit mixing function and the CRUSH hashes built on it
  (\<open>net/ceph/crush/hash.c\<close>), and the string hashes used for object names and directory
  fragments (\<open>net/ceph/ceph_hash.c\<close>).
\<close>

section \<open>CRUSH hashes\<close>

definition crush_hashmix :: "u32 \<Rightarrow> u32 \<Rightarrow> u32 \<Rightarrow> u32 \<times> u32 \<times> u32" where
  "crush_hashmix a b c =
    (let a = a - b; a = a - c; a = a XOR drop_bit 13 c;
         b = b - c; b = b - a; b = b XOR push_bit 8 a;
         c = c - a; c = c - b; c = c XOR drop_bit 13 b;
         a = a - b; a = a - c; a = a XOR drop_bit 12 c;
         b = b - c; b = b - a; b = b XOR push_bit 16 a;
         c = c - a; c = c - b; c = c XOR drop_bit 5 b;
         a = a - b; a = a - c; a = a XOR drop_bit 3 c;
         b = b - c; b = b - a; b = b XOR push_bit 10 a;
         c = c - a; c = c - b; c = c XOR drop_bit 15 b
     in (a, b, c))"

definition crush_hash_seed :: u32 where
  "crush_hash_seed = 1315423911"

definition crush_hash32_rjenkins1 :: "u32 \<Rightarrow> u32" where
  "crush_hash32_rjenkins1 a =
    (let hash = crush_hash_seed XOR a; b = a; x = 231232; y = 1232;
         (b, x, hash) = crush_hashmix b x hash;
         (y, a, hash) = crush_hashmix y a hash
     in hash)"

definition crush_hash32_rjenkins1_2 :: "u32 \<Rightarrow> u32 \<Rightarrow> u32" where
  "crush_hash32_rjenkins1_2 a b =
    (let hash = crush_hash_seed XOR a XOR b; x = 231232; y = 1232;
         (a, b, hash) = crush_hashmix a b hash;
         (x, a, hash) = crush_hashmix x a hash;
         (b, y, hash) = crush_hashmix b y hash
     in hash)"

definition crush_hash32_rjenkins1_3 :: "u32 \<Rightarrow> u32 \<Rightarrow> u32 \<Rightarrow> u32" where
  "crush_hash32_rjenkins1_3 a b c =
    (let hash = crush_hash_seed XOR a XOR b XOR c; x = 231232; y = 1232;
         (a, b, hash) = crush_hashmix a b hash;
         (c, x, hash) = crush_hashmix c x hash;
         (y, a, hash) = crush_hashmix y a hash;
         (b, x, hash) = crush_hashmix b x hash;
         (y, c, hash) = crush_hashmix y c hash
     in hash)"

definition crush_hash32_rjenkins1_4 :: "u32 \<Rightarrow> u32 \<Rightarrow> u32 \<Rightarrow> u32 \<Rightarrow> u32" where
  "crush_hash32_rjenkins1_4 a b c d =
    (let hash = crush_hash_seed XOR a XOR b XOR c XOR d; x = 231232; y = 1232;
         (a, b, hash) = crush_hashmix a b hash;
         (c, d, hash) = crush_hashmix c d hash;
         (a, x, hash) = crush_hashmix a x hash;
         (y, b, hash) = crush_hashmix y b hash;
         (c, x, hash) = crush_hashmix c x hash;
         (y, d, hash) = crush_hashmix y d hash
     in hash)"

definition crush_hash32_rjenkins1_5 :: "u32 \<Rightarrow> u32 \<Rightarrow> u32 \<Rightarrow> u32 \<Rightarrow> u32 \<Rightarrow> u32" where
  "crush_hash32_rjenkins1_5 a b c d e =
    (let hash = crush_hash_seed XOR a XOR b XOR c XOR d XOR e; x = 231232; y = 1232;
         (a, b, hash) = crush_hashmix a b hash;
         (c, d, hash) = crush_hashmix c d hash;
         (e, x, hash) = crush_hashmix e x hash;
         (y, a, hash) = crush_hashmix y a hash;
         (b, x, hash) = crush_hashmix b x hash;
         (y, c, hash) = crush_hashmix y c hash;
         (d, x, hash) = crush_hashmix d x hash;
         (y, e, hash) = crush_hashmix y e hash
     in hash)"

text \<open>The hash type selector: \<open>CRUSH_HASH_RJENKINS1\<close> is 0; other types hash to 0.\<close>

definition CRUSH_HASH_RJENKINS1 :: int where
  "CRUSH_HASH_RJENKINS1 = 0"

definition crush_hash32 :: "int \<Rightarrow> u32 \<Rightarrow> u32" where
  "crush_hash32 type a =
    (if type = CRUSH_HASH_RJENKINS1 then crush_hash32_rjenkins1 a else 0)"

definition crush_hash32_2 :: "int \<Rightarrow> u32 \<Rightarrow> u32 \<Rightarrow> u32" where
  "crush_hash32_2 type a b =
    (if type = CRUSH_HASH_RJENKINS1 then crush_hash32_rjenkins1_2 a b else 0)"

definition crush_hash32_3 :: "int \<Rightarrow> u32 \<Rightarrow> u32 \<Rightarrow> u32 \<Rightarrow> u32" where
  "crush_hash32_3 type a b c =
    (if type = CRUSH_HASH_RJENKINS1 then crush_hash32_rjenkins1_3 a b c else 0)"

definition crush_hash32_4 :: "int \<Rightarrow> u32 \<Rightarrow> u32 \<Rightarrow> u32 \<Rightarrow> u32 \<Rightarrow> u32" where
  "crush_hash32_4 type a b c d =
    (if type = CRUSH_HASH_RJENKINS1 then crush_hash32_rjenkins1_4 a b c d else 0)"

definition crush_hash32_5 :: "int \<Rightarrow> u32 \<Rightarrow> u32 \<Rightarrow> u32 \<Rightarrow> u32 \<Rightarrow> u32 \<Rightarrow> u32" where
  "crush_hash32_5 type a b c d e =
    (if type = CRUSH_HASH_RJENKINS1 then crush_hash32_rjenkins1_5 a b c d e else 0)"

definition crush_hash_name :: "int \<Rightarrow> string" where
  "crush_hash_name type = (if type = CRUSH_HASH_RJENKINS1 then ''rjenkins1'' else ''unknown'')"

section \<open>String hashes\<close>

text \<open>Four bytes of the key as a little endian word; \<open>k\<close> are the key bytes from the cursor on.\<close>

definition byte_at :: "u8 list \<Rightarrow> nat \<Rightarrow> u32" where
  "byte_at k i = ucast (k ! i)"

definition rjenkins_word :: "u8 list \<Rightarrow> nat \<Rightarrow> u32" where
  "rjenkins_word k i =
     byte_at k i + push_bit 8 (byte_at k (i + 1)) + push_bit 16 (byte_at k (i + 2)) +
     push_bit 24 (byte_at k (i + 3))"

text \<open>The main loop; \<open>len = length k\<close> counts the bytes that still need mixing.\<close>

fun rjenkins_loop :: "u32 \<times> u32 \<times> u32 \<Rightarrow> u8 list \<Rightarrow> (u32 \<times> u32 \<times> u32) \<times> u8 list" where
  "rjenkins_loop (a, b, c) k =
    (if 12 \<le> length k
     then rjenkins_loop
            (crush_hashmix (a + rjenkins_word k 0) (b + rjenkins_word k 4) (c + rjenkins_word k 8))
            (drop 12 k)
     else ((a, b, c), k))"

declare rjenkins_loop.simps [simp del]

text \<open>The \<open>switch\<close> on the remaining bytes: every case falls through to the next.\<close>

definition rjenkins_tail :: "u32 \<times> u32 \<times> u32 \<Rightarrow> u8 list \<Rightarrow> u32 \<times> u32 \<times> u32" where
  "rjenkins_tail s k =
    (let (a, b, c) = s; len = length k;
         c = (if 11 \<le> len then c + push_bit 24 (byte_at k 10) else c);
         c = (if 10 \<le> len then c + push_bit 16 (byte_at k 9) else c);
         c = (if 9 \<le> len then c + push_bit 8 (byte_at k 8) else c);
         b = (if 8 \<le> len then b + push_bit 24 (byte_at k 7) else b);
         b = (if 7 \<le> len then b + push_bit 16 (byte_at k 6) else b);
         b = (if 6 \<le> len then b + push_bit 8 (byte_at k 5) else b);
         b = (if 5 \<le> len then b + byte_at k 4 else b);
         a = (if 4 \<le> len then a + push_bit 24 (byte_at k 3) else a);
         a = (if 3 \<le> len then a + push_bit 16 (byte_at k 2) else a);
         a = (if 2 \<le> len then a + push_bit 8 (byte_at k 1) else a);
         a = (if 1 \<le> len then a + byte_at k 0 else a)
     in (a, b, c))"

definition ceph_str_hash_rjenkins :: "u8 list \<Rightarrow> u32" where
  "ceph_str_hash_rjenkins str =
    (let ((a, b, c), k) = rjenkins_loop (0x9e3779b9, 0x9e3779b9, 0) str;
         c = c + word_of_nat (length str);
         (a, b, c) = rjenkins_tail (a, b, c) k;
         (a, b, c) = crush_hashmix a b c
     in c)"

text \<open>The dcache hash: \<open>unsigned long\<close> accumulator, truncated to \<open>unsigned int\<close> on return.\<close>

definition linux_hash_step :: "u64 \<Rightarrow> u8 \<Rightarrow> u64" where
  "linux_hash_step hash c = (hash + push_bit 4 (ucast c) + drop_bit 4 (ucast c)) * 11"

definition ceph_str_hash_linux :: "u8 list \<Rightarrow> u32" where
  "ceph_str_hash_linux str = ucast (fold (\<lambda>c h. linux_hash_step h c) str 0)"

definition CEPH_STR_HASH_LINUX :: int where
  "CEPH_STR_HASH_LINUX = 1"

definition CEPH_STR_HASH_RJENKINS :: int where
  "CEPH_STR_HASH_RJENKINS = 2"

definition ceph_str_hash :: "int \<Rightarrow> u8 list \<Rightarrow> u32" where
  "ceph_str_hash type s =
    (if type = CEPH_STR_HASH_LINUX then ceph_str_hash_linux s
     else if type = CEPH_STR_HASH_RJENKINS then ceph_str_hash_rjenkins s
     else - 1)"

definition ceph_str_hash_name :: "int \<Rightarrow> string" where
  "ceph_str_hash_name type =
    (if type = CEPH_STR_HASH_LINUX then ''linux''
     else if type = CEPH_STR_HASH_RJENKINS then ''rjenkins''
     else ''unknown'')"

end
