(* ===== verification/Crush_Map.thy ===== *)
theory Crush_Map
  imports Hash
begin

text \<open>
  The CRUSH map (\<open>include/linux/crush/crush.h\<close>, \<open>net/ceph/crush/crush.c\<close>): rules, the four
  kinds of buckets, the map itself, and the accessors of \<open>crush.c\<close>. A bucket struct of the C
  code is a header \<open>crush_bucket\<close> followed by the fields of its kind; the code selects the
  kind by \<open>alg\<close> and casts the pointer, so the model keeps the allocated kind in the field
  \<open>b_ext\<close>, and reading another kind than the allocated one is the fault \<open>TypeConfusion\<close>.
  The theory ends with the well-formedness predicates the mapping algorithm relies on.
\<close>

section \<open>Rules\<close>

record crush_rule_step =
  op :: u32
  arg1 :: int
  arg2 :: int

definition CRUSH_ITEM_UNDEF :: int where "CRUSH_ITEM_UNDEF = 0x7ffffffe"
definition CRUSH_ITEM_NONE :: int where "CRUSH_ITEM_NONE = 0x7fffffff"

definition CRUSH_RULE_NOOP :: u32 where "CRUSH_RULE_NOOP = 0"
definition CRUSH_RULE_TAKE :: u32 where "CRUSH_RULE_TAKE = 1"
definition CRUSH_RULE_CHOOSE_FIRSTN :: u32 where "CRUSH_RULE_CHOOSE_FIRSTN = 2"
definition CRUSH_RULE_CHOOSE_INDEP :: u32 where "CRUSH_RULE_CHOOSE_INDEP = 3"
definition CRUSH_RULE_EMIT :: u32 where "CRUSH_RULE_EMIT = 4"
definition CRUSH_RULE_CHOOSELEAF_FIRSTN :: u32 where "CRUSH_RULE_CHOOSELEAF_FIRSTN = 6"
definition CRUSH_RULE_CHOOSELEAF_INDEP :: u32 where "CRUSH_RULE_CHOOSELEAF_INDEP = 7"
definition CRUSH_RULE_SET_CHOOSE_TRIES :: u32 where "CRUSH_RULE_SET_CHOOSE_TRIES = 8"
definition CRUSH_RULE_SET_CHOOSELEAF_TRIES :: u32 where "CRUSH_RULE_SET_CHOOSELEAF_TRIES = 9"
definition CRUSH_RULE_SET_CHOOSE_LOCAL_TRIES :: u32 where "CRUSH_RULE_SET_CHOOSE_LOCAL_TRIES = 10"
definition CRUSH_RULE_SET_CHOOSE_LOCAL_FALLBACK_TRIES :: u32 where
  "CRUSH_RULE_SET_CHOOSE_LOCAL_FALLBACK_TRIES = 11"
definition CRUSH_RULE_SET_CHOOSELEAF_VARY_R :: u32 where "CRUSH_RULE_SET_CHOOSELEAF_VARY_R = 12"

lemmas crush_rule_ops =
  CRUSH_RULE_NOOP_def CRUSH_RULE_TAKE_def CRUSH_RULE_CHOOSE_FIRSTN_def
  CRUSH_RULE_CHOOSE_INDEP_def CRUSH_RULE_EMIT_def CRUSH_RULE_CHOOSELEAF_FIRSTN_def
  CRUSH_RULE_CHOOSELEAF_INDEP_def CRUSH_RULE_SET_CHOOSE_TRIES_def
  CRUSH_RULE_SET_CHOOSELEAF_TRIES_def CRUSH_RULE_SET_CHOOSE_LOCAL_TRIES_def
  CRUSH_RULE_SET_CHOOSE_LOCAL_FALLBACK_TRIES_def CRUSH_RULE_SET_CHOOSELEAF_VARY_R_def

record crush_rule_mask =
  ruleset :: u8
  mask_type :: u8
  min_size :: u8
  max_size :: u8

text \<open>The field \<open>len\<close> of the C struct is \<open>length (steps r)\<close>.\<close>

record crush_rule =
  r_mask :: crush_rule_mask
  steps :: "crush_rule_step list"

section \<open>Buckets\<close>

definition CRUSH_BUCKET_UNIFORM :: u8 where "CRUSH_BUCKET_UNIFORM = 1"
definition CRUSH_BUCKET_LIST :: u8 where "CRUSH_BUCKET_LIST = 2"
definition CRUSH_BUCKET_TREE :: u8 where "CRUSH_BUCKET_TREE = 3"
definition CRUSH_BUCKET_STRAW :: u8 where "CRUSH_BUCKET_STRAW = 4"

lemmas crush_algs =
  CRUSH_BUCKET_UNIFORM_def CRUSH_BUCKET_LIST_def CRUSH_BUCKET_TREE_def CRUSH_BUCKET_STRAW_def

text \<open>
  The fields that follow the header: \<open>item_weight\<close>; \<open>item_weights\<close>, \<open>sum_weights\<close>;
  \<open>num_nodes\<close>, \<open>node_weights\<close>; \<open>item_weights\<close>, \<open>straws\<close>.
\<close>

datatype bucket_ext =
    Uniform_ext u32
  | List_ext "u32 list" "u32 list"
  | Tree_ext u8 "u32 list"
  | Straw_ext "u32 list" "u32 list"

record crush_bucket =
  b_id :: int
  b_type :: u16
  b_alg :: u8
  b_hash :: u8
  b_weight :: u32
  b_size :: u32
  b_items :: "int list"
  b_perm_x :: u32
  b_perm_n :: u32
  b_perm :: "u32 list"
  b_ext :: bucket_ext

definition crush_bucket_alg_name :: "int \<Rightarrow> string" where
  "crush_bucket_alg_name alg =
    (if alg = 1 then ''uniform'' else if alg = 2 then ''list''
     else if alg = 3 then ''tree'' else if alg = 4 then ''straw'' else ''unknown'')"

definition as_uniform :: "crush_bucket \<Rightarrow> u32 res" where
  "as_uniform b = (case b_ext b of Uniform_ext w \<Rightarrow> Inr w | _ \<Rightarrow> Inl (Fault TypeConfusion))"

definition as_list :: "crush_bucket \<Rightarrow> (u32 list \<times> u32 list) res" where
  "as_list b = (case b_ext b of List_ext ws sums \<Rightarrow> Inr (ws, sums) | _ \<Rightarrow> Inl (Fault TypeConfusion))"

definition as_tree :: "crush_bucket \<Rightarrow> (u8 \<times> u32 list) res" where
  "as_tree b = (case b_ext b of Tree_ext n ws \<Rightarrow> Inr (n, ws) | _ \<Rightarrow> Inl (Fault TypeConfusion))"

definition as_straw :: "crush_bucket \<Rightarrow> (u32 list \<times> u32 list) res" where
  "as_straw b = (case b_ext b of Straw_ext ws ss \<Rightarrow> Inr (ws, ss) | _ \<Rightarrow> Inl (Fault TypeConfusion))"

definition crush_calc_tree_node :: "nat \<Rightarrow> nat" where
  "crush_calc_tree_node i = push_bit 1 (i + 1) - 1"

definition crush_get_bucket_item_weight :: "crush_bucket \<Rightarrow> int \<Rightarrow> u32 res" where
  "crush_get_bucket_item_weight b p =
    (if b_size b \<le> word_of_int p then Inr 0
     else let i = unat (word_of_int p :: u32) in
       if b_alg b = CRUSH_BUCKET_UNIFORM then as_uniform b
       else if b_alg b = CRUSH_BUCKET_LIST then bindE (as_list b) (\<lambda>(ws, sums). rd ws i)
       else if b_alg b = CRUSH_BUCKET_TREE then
         bindE (as_tree b) (\<lambda>(n, ws). rd ws (crush_calc_tree_node i))
       else if b_alg b = CRUSH_BUCKET_STRAW then bindE (as_straw b) (\<lambda>(ws, ss). rd ws i)
       else Inr 0)"

section \<open>The map\<close>

record crush_map =
  buckets :: "crush_bucket option list"
  rules :: "crush_rule option list"
  max_buckets :: int
  max_rules :: u32
  max_devices :: int
  choose_local_tries :: u32
  choose_local_fallback_tries :: u32
  choose_total_tries :: u32
  chooseleaf_descend_once :: u32
  chooseleaf_vary_r :: u8

text \<open>
  The expression \<open>map->buckets[i]\<close> followed by a dereference. Bucket pointers of the mapping
  code always come from this array, so the model passes the index.
\<close>

definition bucket_at :: "crush_map \<Rightarrow> int \<Rightarrow> crush_bucket res" where
  "bucket_at m i = bindE (rdi (buckets m) i) deref"

definition set_bucket :: "crush_map \<Rightarrow> int \<Rightarrow> crush_bucket \<Rightarrow> crush_map" where
  "set_bucket m i b = m\<lparr>buckets := (buckets m)[nat i := Some b]\<rparr>"

section \<open>Well-formedness\<close>

text \<open>The arrays of a bucket have the lengths its counters promise, and it is not empty.\<close>

definition wf_ext :: "crush_bucket \<Rightarrow> bool" where
  "wf_ext b \<longleftrightarrow>
    (case b_ext b of
       Uniform_ext w \<Rightarrow> b_alg b = CRUSH_BUCKET_UNIFORM
     | List_ext ws sums \<Rightarrow>
         b_alg b = CRUSH_BUCKET_LIST \<and> length ws = unat (b_size b) \<and> length sums = unat (b_size b)
     | Tree_ext n ws \<Rightarrow> b_alg b = CRUSH_BUCKET_TREE \<and> length ws = unat n
     | Straw_ext ws ss \<Rightarrow>
         b_alg b = CRUSH_BUCKET_STRAW \<and> length ws = unat (b_size b) \<and> length ss = unat (b_size b))"

definition wf_bucket :: "crush_bucket \<Rightarrow> bool" where
  "wf_bucket b \<longleftrightarrow>
     length (b_items b) = unat (b_size b) \<and> length (b_perm b) = unat (b_size b) \<and> wf_ext b"

lemma bucket_at_Inr_iff:
  "bucket_at m i = Inr b \<longleftrightarrow>
     0 \<le> i \<and> nat i < length (buckets m) \<and> buckets m ! nat i = Some b"
  by (auto simp: bucket_at_def bindE_Inr_iff rdi_Inr_iff)

lemma bucket_at_set_bucket:
  assumes "bucket_at m i = Inr b"
  shows "bucket_at (set_bucket m i b') j = (if j = i then Inr b' else bucket_at m j)"
  using assms
  by (auto simp: bucket_at_def set_bucket_def rdi_def rd_def nth_list_update deref_def bindE_def
      split: option.splits sum.splits if_splits)

lemma set_bucket_frame [simp]:
  "rules (set_bucket m i b) = rules m"
  "max_buckets (set_bucket m i b) = max_buckets m"
  "max_rules (set_bucket m i b) = max_rules m"
  "max_devices (set_bucket m i b) = max_devices m"
  "choose_local_tries (set_bucket m i b) = choose_local_tries m"
  "choose_local_fallback_tries (set_bucket m i b) = choose_local_fallback_tries m"
  "choose_total_tries (set_bucket m i b) = choose_total_tries m"
  "chooseleaf_descend_once (set_bucket m i b) = chooseleaf_descend_once m"
  "chooseleaf_vary_r (set_bucket m i b) = chooseleaf_vary_r m"
  "length (buckets (set_bucket m i b)) = length (buckets m)"
  by (simp_all add: set_bucket_def)

lemma crush_calc_tree_node_eq: "crush_calc_tree_node i = 2 * i + 1"
  by (simp add: crush_calc_tree_node_def push_bit_eq_mult)

end
