(* ===== verification/Crush_Bucket.thy ===== *)
theory Crush_Bucket
  imports Crush_Map
begin

text \<open>
  The bucket choose methods of \<open>net/ceph/crush/mapper.c\<close>: given a CRUSH input \<open>x\<close> and a
  replica position \<open>r\<close> they pick an item of the bucket. \<open>bucket_perm_choose\<close> keeps a
  partially computed random permutation in the bucket, so it returns the updated bucket; the
  theory gives it a cache free reference definition (\<open>perm_ref\<close>) and shows that the two agree
  on every cache the code can leave behind.
\<close>

section \<open>Permutation choice\<close>

definition bucket_hash3 :: "crush_bucket \<Rightarrow> u32 \<Rightarrow> u32 \<Rightarrow> u32" where
  "bucket_hash3 b x p = crush_hash32_3 (uint (b_hash b)) x (word_of_int (b_id b)) p"

definition perm_fill :: "nat \<Rightarrow> nat \<Rightarrow> u32 list \<Rightarrow> u32 list res" where
  "perm_fill k n perm = foldE (\<lambda>i perm. wr perm i (word_of_nat i)) [k..<n] perm"

text \<open>One round of \<open>while (bucket->perm_n <= pr)\<close>, with \<open>p = bucket->perm_n\<close>.\<close>

definition perm_round :: "u32 \<Rightarrow> nat \<Rightarrow> crush_bucket \<Rightarrow> crush_bucket res" where
  "perm_round x p b =
    (let perm = b_perm b in
     bindE
       (if p < unat (b_size b) - 1 then
          let i = unat (bucket_hash3 b x (word_of_nat p) mod (b_size b - word_of_nat p)) in
          if i \<noteq> 0 then
            bindE (rd perm (p + i)) (\<lambda>t.
            bindE (rd perm p) (\<lambda>u.
            bindE (wr perm (p + i) u) (\<lambda>perm. wr perm p t)))
          else Inr perm
        else Inr perm)
       (\<lambda>perm. Inr (b\<lparr>b_perm := perm, b_perm_n := word_of_nat p + 1\<rparr>)))"

definition perm_out :: "crush_bucket \<Rightarrow> u32 \<Rightarrow> (int \<times> crush_bucket) res" where
  "perm_out b s = bindE (rd (b_items b) (unat s)) (\<lambda>item. Inr (item, b))"

definition perm_finish :: "crush_bucket \<Rightarrow> u32 \<Rightarrow> u32 \<Rightarrow> (int \<times> crush_bucket) res" where
  "perm_finish b x pr =
    bindE (foldE (perm_round x) [unat (b_perm_n b)..<Suc (unat pr)] b) (\<lambda>b.
    bindE (rd (b_perm b) (unat pr)) (perm_out b))"

definition bucket_perm_choose :: "crush_bucket \<Rightarrow> u32 \<Rightarrow> u32 \<Rightarrow> (int \<times> crush_bucket) res" where
  "bucket_perm_choose b x r =
    (if b_size b = 0 then Inl (Fault DivZero)
     else let pr = r mod b_size b in
       if b_perm_x b \<noteq> x \<or> b_perm_n b = 0 then
         let b = b\<lparr>b_perm_x := x\<rparr> in
         if pr = 0 then
           let s = bucket_hash3 b x 0 mod b_size b in
           bindE (wr (b_perm b) 0 s) (\<lambda>perm.
           perm_out (b\<lparr>b_perm := perm, b_perm_n := 0xffff\<rparr>) s)
         else
           bindE (perm_fill 0 (unat (b_size b)) (b_perm b)) (\<lambda>perm.
           perm_finish (b\<lparr>b_perm := perm, b_perm_n := 0\<rparr>) x pr)
       else if b_perm_n b = 0xffff then
         bindE (perm_fill 1 (unat (b_size b)) (b_perm b)) (\<lambda>perm.
         bindE (rd perm 0) (\<lambda>s.
         bindE (wr perm (unat s) 0) (\<lambda>perm.
         perm_finish (b\<lparr>b_perm := perm, b_perm_n := 1\<rparr>) x pr)))
       else perm_finish b x pr)"

definition bucket_uniform_choose :: "crush_bucket \<Rightarrow> u32 \<Rightarrow> u32 \<Rightarrow> (int \<times> crush_bucket) res" where
  "bucket_uniform_choose b x r = bucket_perm_choose b x r"

section \<open>List buckets\<close>

definition list_draw :: "crush_bucket \<Rightarrow> u32 \<Rightarrow> u32 \<Rightarrow> int \<Rightarrow> u32 \<Rightarrow> u64" where
  "list_draw b x r item sm =
    (let w = ucast (crush_hash32_4 (uint (b_hash b)) x (word_of_int item) r (word_of_int (b_id b)));
         w = w AND 0xffff;
         w = w * ucast sm
     in drop_bit 16 w)"

text \<open>The loop \<open>for (i = size-1; i >= 0; i--)\<close>; \<open>n = i + 1\<close>.\<close>

fun list_choose_loop ::
  "crush_bucket \<Rightarrow> u32 list \<Rightarrow> u32 list \<Rightarrow> u32 \<Rightarrow> u32 \<Rightarrow> nat \<Rightarrow> int res" where
  "list_choose_loop b ws sums x r 0 = rd (b_items b) 0"
| "list_choose_loop b ws sums x r (Suc i) =
    bindE (rd (b_items b) i) (\<lambda>item.
    bindE (rd sums i) (\<lambda>sm.
    bindE (rd ws i) (\<lambda>weight.
    if list_draw b x r item sm < ucast weight then Inr item
    else list_choose_loop b ws sums x r i)))"

definition bucket_list_choose :: "crush_bucket \<Rightarrow> u32 \<Rightarrow> u32 \<Rightarrow> int res" where
  "bucket_list_choose b x r =
    bindE (as_list b) (\<lambda>(ws, sums).
    list_choose_loop b ws sums x r (nat (sint (b_size b - 1) + 1)))"

section \<open>Tree buckets\<close>

text \<open>\<open>height\<close> counts the trailing zero bits; its loop does not end for 0.\<close>

fun height :: "nat \<Rightarrow> nat res" where
  "height n =
    (if n = 0 then Inl NoFuel
     else if odd n then Inr 0
     else bindE (height (n div 2)) (\<lambda>h. Inr (Suc h)))"

declare height.simps [simp del]

definition left :: "nat \<Rightarrow> nat res" where
  "left x = bindE (height x) (\<lambda>h. Inr (x - push_bit (h - 1) 1))"

definition right :: "nat \<Rightarrow> nat res" where
  "right x = bindE (height x) (\<lambda>h. Inr (x + push_bit (h - 1) 1))"

definition terminal :: "nat \<Rightarrow> bool" where
  "terminal x \<longleftrightarrow> odd x"

definition tree_draw :: "crush_bucket \<Rightarrow> u32 \<Rightarrow> u32 \<Rightarrow> nat \<Rightarrow> u32 \<Rightarrow> u64" where
  "tree_draw b x r n w =
    drop_bit 32
      (ucast (crush_hash32_4 (uint (b_hash b)) x (word_of_nat n) r (word_of_int (b_id b))) * ucast w)"

text \<open>One round of the descent: the child of the inner node \<open>n\<close> that the draw selects.\<close>

definition tree_child :: "crush_bucket \<Rightarrow> u32 list \<Rightarrow> u32 \<Rightarrow> u32 \<Rightarrow> nat \<Rightarrow> nat res" where
  "tree_child b ws x r n =
    bindE (rd ws n) (\<lambda>w.
    bindE (left n) (\<lambda>l.
    bindE (rd ws l) (\<lambda>wl.
    if tree_draw b x r n w < ucast wl then Inr l else right n)))"

lemma height_0 [simp]: "height 0 = Inl NoFuel"
  by (simp add: height.simps)

lemma height_Inr_iff: "height n = Inr h \<longleftrightarrow> (\<exists>m. n = 2 ^ h * m \<and> odd m)"
proof (induction n arbitrary: h rule: height.induct)
  case (1 n)
  consider "n = 0" | "odd n" | "n \<noteq> 0" "even n" by blast
  then show ?case
  proof cases
    case 1
    then show ?thesis by auto
  next
    case 2
    then show ?thesis
      by (cases h) (auto simp: height.simps[of n] elim: oddE)
  next
    case 3
    then obtain k where n: "n = 2 * k" by (auto elim: evenE)
    from 3 n have IH: "height k = Inr h' \<longleftrightarrow> (\<exists>m. k = 2 ^ h' * m \<and> odd m)" for h'
      using "1.IH"[of h'] by simp
    show ?thesis
    proof (cases h)
      case 0
      with 3 show ?thesis by (auto simp: height.simps[of n] bindE_Inr_iff)
    next
      case (Suc h')
      then have "height n = Inr h \<longleftrightarrow> height k = Inr h'"
        using 3 n by (simp add: height.simps[of "2 * k"] bindE_Inr_iff)
      with Suc n IH[of h'] show ?thesis by auto
    qed
  qed
qed

lemma tree_child_height:
  assumes "tree_child b ws x r n = Inr n'" and "\<not> terminal n"
  shows "\<exists>h. height n = Inr (Suc h) \<and> height n' = Inr h"
proof -
  from assms(1) obtain h where h: "height n = Inr h"
    and n': "n' = n - 2 ^ (h - 1) \<or> n' = n + 2 ^ (h - 1)"
    by (auto simp: tree_child_def left_def right_def push_bit_eq_mult bindE_Inr_iff split: if_splits)
  from h obtain m where m: "n = 2 ^ h * m" "odd m" by (auto simp: height_Inr_iff)
  from m assms(2) obtain g where g: "h = Suc g" by (cases h) (auto simp: terminal_def)
  from m(2) obtain k where k: "m = 2 * k + 1" by (auto elim: oddE)
  have "n - 2 ^ g = 2 ^ g * (4 * k + 1)" and "n + 2 ^ g = 2 ^ g * (4 * k + 3)"
    using m g k by (simp_all add: algebra_simps)
  with n' g have "\<exists>m'. n' = 2 ^ g * m' \<and> odd m'"
    by (metis diff_Suc_1 even_add even_mult_iff even_numeral odd_one odd_numeral)
  with h g show ?thesis by (auto simp: height_Inr_iff)
qed

function tree_loop :: "crush_bucket \<Rightarrow> u32 list \<Rightarrow> u32 \<Rightarrow> u32 \<Rightarrow> nat \<Rightarrow> nat res" where
  "tree_loop b ws x r n =
    (if terminal n then Inr n
     else bindE (tree_child b ws x r n) (tree_loop b ws x r))"
  by pat_completeness auto
termination
proof (relation "measure (\<lambda>(b, ws, x, r, n). case height n of Inl e \<Rightarrow> 0 | Inr h \<Rightarrow> h)")
  fix b ws x r n n'
  assume "\<not> terminal n" and "tree_child b ws x r n = Inr n'"
  then show "((b, ws, x, r, n'), (b, ws, x, r, n))
      \<in> measure (\<lambda>(b, ws, x, r, n). case height n of Inl e \<Rightarrow> 0 | Inr h \<Rightarrow> h)"
    by (auto dest: tree_child_height)
qed simp

declare tree_loop.simps [simp del]

definition bucket_tree_choose :: "crush_bucket \<Rightarrow> u32 \<Rightarrow> u32 \<Rightarrow> int res" where
  "bucket_tree_choose b x r =
    bindE (as_tree b) (\<lambda>(num_nodes, ws).
    bindE (tree_loop b ws x r (unat num_nodes div 2)) (\<lambda>n.
    rd (b_items b) (n div 2)))"

section \<open>Straw buckets\<close>

definition straw_draw :: "crush_bucket \<Rightarrow> u32 \<Rightarrow> u32 \<Rightarrow> int \<Rightarrow> u32 \<Rightarrow> u64" where
  "straw_draw b x r item straw =
    (let draw = ucast (crush_hash32_3 (uint (b_hash b)) x (word_of_int item) r);
         draw = draw AND 0xffff
     in draw * ucast straw)"

text \<open>The loop state is \<open>(high, high_draw)\<close>.\<close>

definition straw_round ::
  "crush_bucket \<Rightarrow> u32 list \<Rightarrow> u32 \<Rightarrow> u32 \<Rightarrow> nat \<Rightarrow> nat \<times> u64 \<Rightarrow> (nat \<times> u64) res" where
  "straw_round b straws x r i s =
    (case s of (high, high_draw) \<Rightarrow>
      bindE (rd (b_items b) i) (\<lambda>item.
      bindE (rd straws i) (\<lambda>straw.
      let draw = straw_draw b x r item straw in
      Inr (if i = 0 \<or> high_draw < draw then (i, draw) else (high, high_draw)))))"

definition bucket_straw_choose :: "crush_bucket \<Rightarrow> u32 \<Rightarrow> u32 \<Rightarrow> int res" where
  "bucket_straw_choose b x r =
    bindE (as_straw b) (\<lambda>(ws, straws).
    bindE (foldE (straw_round b straws x r) [0..<unat (b_size b)] (0, 0)) (\<lambda>(high, high_draw).
    rd (b_items b) high))"

section \<open>Dispatch and the out test\<close>

definition keep_bucket :: "crush_bucket \<Rightarrow> int res \<Rightarrow> (int \<times> crush_bucket) res" where
  "keep_bucket b m = bindE m (\<lambda>item. Inr (item, b))"

definition crush_bucket_choose :: "crush_bucket \<Rightarrow> u32 \<Rightarrow> u32 \<Rightarrow> (int \<times> crush_bucket) res" where
  "crush_bucket_choose b x r =
    (if b_size b = 0 then Inl (Fault BugOn)
     else if b_alg b = CRUSH_BUCKET_UNIFORM then bucket_uniform_choose b x r
     else if b_alg b = CRUSH_BUCKET_LIST then keep_bucket b (bucket_list_choose b x r)
     else if b_alg b = CRUSH_BUCKET_TREE then keep_bucket b (bucket_tree_choose b x r)
     else if b_alg b = CRUSH_BUCKET_STRAW then keep_bucket b (bucket_straw_choose b x r)
     else keep_bucket b (rd (b_items b) 0))"

definition is_out :: "u32 list \<Rightarrow> int \<Rightarrow> int \<Rightarrow> u32 \<Rightarrow> bool res" where
  "is_out weight weight_max item x =
    (if weight_max \<le> item then Inr True
     else bindE (rdi weight item) (\<lambda>w.
       Inr (if 0x10000 \<le> w then False
            else if w = 0 then True
            else if (crush_hash32_2 CRUSH_HASH_RJENKINS1 x (word_of_int item) AND 0xffff) < w
            then False
            else True)))"

section \<open>The permutation cache\<close>

text \<open>The bucket without its cache: what the mapping may depend on.\<close>

definition strip_bucket :: "crush_bucket \<Rightarrow> crush_bucket" where
  "strip_bucket b = b\<lparr>b_perm_x := 0, b_perm_n := 0, b_perm := []\<rparr>"

definition swap_list :: "'a list \<Rightarrow> nat \<Rightarrow> nat \<Rightarrow> 'a list" where
  "swap_list xs i j = xs[i := xs ! j, j := xs ! i]"

definition perm_idx :: "crush_bucket \<Rightarrow> u32 \<Rightarrow> nat \<Rightarrow> nat" where
  "perm_idx b x p =
    (if p < unat (b_size b) - 1
     then unat (bucket_hash3 b x (word_of_nat p) mod (b_size b - word_of_nat p)) else 0)"

text \<open>The reference: the item positions after \<open>k\<close> swaps of the Fisher-Yates shuffle.\<close>

fun perm_ref :: "crush_bucket \<Rightarrow> u32 \<Rightarrow> nat \<Rightarrow> nat list" where
  "perm_ref b x 0 = [0..<unat (b_size b)]"
| "perm_ref b x (Suc p) = swap_list (perm_ref b x p) p (p + perm_idx b x p)"

definition perm_item :: "crush_bucket \<Rightarrow> u32 \<Rightarrow> u32 \<Rightarrow> int" where
  "perm_item b x r = b_items b ! (perm_ref b x (unat (b_size b)) ! unat (r mod b_size b))"

text \<open>
  The caches the code leaves behind: none (\<open>perm_n = 0\<close>), only the first position (the magic
  value \<open>0xffff\<close>), or the first \<open>perm_n\<close> swaps done.
\<close>

definition perm_ok :: "crush_bucket \<Rightarrow> bool" where
  "perm_ok b \<longleftrightarrow>
     b_perm_n b = 0 \<or>
     (if b_perm_n b = 0xffff
      then 0 < unat (b_size b) \<longrightarrow> unat (b_perm b ! 0) = perm_ref b (b_perm_x b) 1 ! 0
      else unat (b_perm_n b) \<le> unat (b_size b) \<and>
           map unat (b_perm b) = perm_ref b (b_perm_x b) (unat (b_perm_n b)))"

lemma length_swap_list [simp]: "length (swap_list xs i j) = length xs"
  by (simp add: swap_list_def)

lemma mset_swap_list: "i < length xs \<Longrightarrow> j < length xs \<Longrightarrow> mset (swap_list xs i j) = mset xs"
  by (simp add: swap_list_def mset_swap)

lemma swap_list_other: "k \<noteq> i \<Longrightarrow> k \<noteq> j \<Longrightarrow> swap_list xs i j ! k = xs ! k"
  by (simp add: swap_list_def)

lemma swap_list_same [simp]: "swap_list xs i i = xs"
  by (simp add: swap_list_def)

lemma swap_list_first: "i < length xs \<Longrightarrow> swap_list xs i j ! i = xs ! j"
  by (cases "i = j") (simp_all add: swap_list_def)

lemma perm_idx_less: "p < unat (b_size b) \<Longrightarrow> p + perm_idx b x p < unat (b_size b)"
proof (cases "p < unat (b_size b) - 1")
  case True
  let ?p = "word_of_nat p :: u32"
  have p: "unat ?p = p" using True unat_less_2p[of "b_size b"]
    by (intro unat_word_of_nat_small) auto
  then have le: "?p \<le> b_size b" using True by (simp add: word_le_nat_alt)
  then have u: "unat (b_size b - ?p) = unat (b_size b) - p" using p by (simp add: unat_sub)
  then have "b_size b - ?p \<noteq> 0" using True by (metis unat_0 diff_is_0_eq less_diff_conv not_less add_lessD1)
  then have "unat (bucket_hash3 b x ?p mod (b_size b - ?p)) < unat (b_size b) - p"
    using u by (metis unat_mod_less)
  then show ?thesis using True by (simp add: perm_idx_def)
qed (simp add: perm_idx_def)

lemma length_perm_ref [simp]: "length (perm_ref b x k) = unat (b_size b)"
  by (induction k) auto

lemma mset_perm_ref: "k \<le> unat (b_size b) \<Longrightarrow> mset (perm_ref b x k) = mset [0..<unat (b_size b)]"
  by (induction k) (auto simp: mset_swap_list perm_idx_less simp del: mset_upt)

lemma set_perm_ref: "k \<le> unat (b_size b) \<Longrightarrow> set (perm_ref b x k) = {0..<unat (b_size b)}"
  using mset_eq_setD[OF mset_perm_ref] by simp

lemma distinct_perm_ref: "k \<le> unat (b_size b) \<Longrightarrow> distinct (perm_ref b x k)"
  by (metis distinct_upt mset_perm_ref mset_eq_imp_distinct_iff)

lemma perm_ref_nth_less: "k \<le> unat (b_size b) \<Longrightarrow> p < unat (b_size b) \<Longrightarrow> perm_ref b x k ! p < unat (b_size b)"
  using set_perm_ref[of k b x] nth_mem[of p "perm_ref b x k"] by simp

text \<open>A position is final once its own swap is done.\<close>

lemma perm_ref_final: "p < k \<Longrightarrow> k \<le> k' \<Longrightarrow> perm_ref b x k' ! p = perm_ref b x k ! p"
proof (induction "k' - k" arbitrary: k')
  case (Suc d)
  then obtain n where "k' = Suc n" "k \<le> n" "d = n - k" by (cases k') auto
  with Suc show ?case by (simp add: swap_list_other)
qed simp

lemma strip_bucket_sel:
  assumes "strip_bucket b' = strip_bucket b"
  shows "b_id b' = b_id b" "b_type b' = b_type b" "b_alg b' = b_alg b" "b_hash b' = b_hash b"
    "b_size b' = b_size b" "b_items b' = b_items b" "b_ext b' = b_ext b" "b_weight b' = b_weight b"
  using assms by (cases b; cases b'; simp add: strip_bucket_def)+

lemma perm_ref_strip:
  assumes "strip_bucket b' = strip_bucket b"
  shows "perm_ref b' x k = perm_ref b x k"
  using strip_bucket_sel[OF assms] by (induction k) (simp_all add: perm_idx_def bucket_hash3_def)

text \<open>The cache fields do not matter for the reference; updating them commutes with stripping.\<close>

lemma strip_bucket_upd [simp]:
  "strip_bucket (b\<lparr>b_perm := ps\<rparr>) = strip_bucket b"
  "strip_bucket (b\<lparr>b_perm_n := n\<rparr>) = strip_bucket b"
  "strip_bucket (b\<lparr>b_perm_x := x\<rparr>) = strip_bucket b"
  by (simp_all add: strip_bucket_def)

lemma perm_ref_upd [simp]:
  "perm_ref (b\<lparr>b_perm := ps\<rparr>) y k = perm_ref b y k"
  "perm_ref (b\<lparr>b_perm_n := n\<rparr>) y k = perm_ref b y k"
  "perm_ref (b\<lparr>b_perm_x := x\<rparr>) y k = perm_ref b y k"
  by (rule perm_ref_strip, simp)+

text \<open>\<open>perm_at b x p b'\<close>: \<open>b'\<close> is \<open>b\<close> with a cache holding the first \<open>p\<close> swaps for \<open>x\<close>.\<close>

definition perm_at :: "crush_bucket \<Rightarrow> u32 \<Rightarrow> nat \<Rightarrow> crush_bucket \<Rightarrow> bool" where
  "perm_at b x p b' \<longleftrightarrow>
     strip_bucket b' = strip_bucket b \<and> b_perm_x b' = x \<and> unat (b_perm_n b') = p \<and>
     map unat (b_perm b') = perm_ref b x p"

lemma perm_at_length: "perm_at b x p b' \<Longrightarrow> length (b_perm b') = unat (b_size b)"
  unfolding perm_at_def by (metis length_map length_perm_ref)

lemma map_swap_list:
  "i < length xs \<Longrightarrow> j < length xs \<Longrightarrow> map f (swap_list xs i j) = swap_list (map f xs) i j"
  by (simp add: swap_list_def map_update)

lemma perm_round_at:
  assumes "perm_at b x p b'" and "p < unat (b_size b)"
  shows "\<exists>b''. perm_round x p b' = Inr b'' \<and> perm_at b x (Suc p) b''"
proof -
  let ?i = "perm_idx b x p" and ?perm = "b_perm b'"
  note st = strip_bucket_sel[of b' b]
  from assms have sz: "b_size b' = b_size b" and len: "length ?perm = unat (b_size b)"
    and idx: "perm_idx b' x p = ?i"
    by (auto simp: perm_at_def st perm_at_length perm_idx_def bucket_hash3_def)
  have i: "p + ?i < unat (b_size b)" using perm_idx_less[OF assms(2)] .
  let ?new = "swap_list ?perm p (p + ?i)"
  have "perm_round x p b' = Inr (b'\<lparr>b_perm := ?new, b_perm_n := word_of_nat p + 1\<rparr>)"
    using i assms(2) len sz idx
    by (auto simp: perm_round_def perm_idx_def Let_def swap_list_def bindE_Inr_iff list_update_swap
        split: if_splits)
  moreover have "unat (word_of_nat p + 1 :: u32) = Suc p"
    using assms(2) unat_less_2p[of "b_size b"] by (intro unat_word_of_nat_Suc) simp
  moreover have "map unat ?new = perm_ref b x (Suc p)"
    using assms i len by (simp add: map_swap_list perm_at_def)
  ultimately show ?thesis using assms(1) by (auto simp: perm_at_def)
qed

lemma perm_finish_at:
  assumes "perm_at b x p b'" and "unat pr < unat (b_size b)" and "p \<le> unat (b_size b)"
    and items: "length (b_items b) = unat (b_size b)"
  shows "\<exists>b''. perm_finish b' x pr = Inr (b_items b ! (perm_ref b x (unat (b_size b)) ! unat pr), b'')
           \<and> perm_at b x (max p (Suc (unat pr))) b''"
proof -
  let ?q = "max p (Suc (unat pr))"
  have "\<exists>b''. foldE (perm_round x) [p..<?q] b' = Inr b'' \<and> perm_at b x ?q b''"
    by (rule foldE_upt_rule) (use assms in \<open>auto intro: perm_round_at\<close>)
  moreover have "[p..<?q] = [p..<Suc (unat pr)]" by (auto simp: max_def)
  ultimately obtain b'' where b'': "foldE (perm_round x) [p..<Suc (unat pr)] b' = Inr b''"
    and at: "perm_at b x ?q b''" by auto
  have len: "length (b_perm b'') = unat (b_size b)" using perm_at_length[OF at] .
  have "unat (b_perm b'' ! unat pr) = map unat (b_perm b'') ! unat pr"
    using len assms(2) by simp
  also have "\<dots> = perm_ref b x ?q ! unat pr" using at by (simp add: perm_at_def)
  also have "\<dots> = perm_ref b x (unat (b_size b)) ! unat pr"
    by (rule perm_ref_final[symmetric]) (use assms in auto)
  finally have pos: "unat (b_perm b'' ! unat pr) = perm_ref b x (unat (b_size b)) ! unat pr" .
  have "b_items b'' = b_items b" using at strip_bucket_sel[of b'' b] by (simp add: perm_at_def)
  with pos len assms b'' at show ?thesis
    by (auto simp: perm_finish_def perm_out_def perm_at_def perm_ref_nth_less simp del: upt_Suc)
qed

lemma perm_fill_nth:
  assumes "k \<le> n" and "length perm = n"
  shows "perm_fill k n perm = Inr (take k perm @ map word_of_nat [k..<n])"
proof -
  let ?P = "\<lambda>j t. length t = n \<and> t = take k perm @ map word_of_nat [k..<j] @ drop j perm"
  have "\<exists>t. foldE (\<lambda>i perm. wr perm i (word_of_nat i)) [k..<n] perm = Inr t \<and> ?P n t"
  proof (rule foldE_upt_rule[where P = ?P])
    fix j t
    assume j: "k \<le> j" "j < n" and t: "?P j t"
    have "drop j perm = perm ! j # drop (Suc j) perm"
      using j assms(2) by (simp add: Cons_nth_drop_Suc)
    with j t assms(2) show "\<exists>t'. wr t j (word_of_nat j) = Inr t' \<and> ?P (Suc j) t'"
      by (auto simp: list_update_append min_def)
  qed (use assms in auto)
  then show ?thesis using assms by (auto simp: perm_fill_def)
qed

lemma map_unat_upt: "n \<le> 2 ^ 32 \<Longrightarrow> map unat (map word_of_nat [k..<n] :: u32 list) = [k..<n]"
  by (auto simp: unat_word_of_nat_small intro!: map_idI)

lemma perm_idx_0:
  assumes "b_size b \<noteq> 0"
  shows "perm_idx b x 0 = unat (bucket_hash3 b x 0 mod b_size b)"
proof (cases "unat (b_size b) = 1")
  case True
  then show ?thesis by (simp add: perm_idx_def unat_mod)
next
  case False
  with assms have "0 < unat (b_size b) - 1" by (metis One_nat_def less_one nat_neq_iff unat_gt_0 zero_less_diff word_neq_0_conv)
  then show ?thesis by (simp add: perm_idx_def)
qed

lemma perm_ref_1: "b_size b \<noteq> 0 \<Longrightarrow> perm_ref b x 1 ! 0 = perm_idx b x 0"
  using perm_idx_less[of 0 b x] by (simp add: swap_list_first unat_gt_0)

lemma perm_cleanup:
  assumes "b_size b \<noteq> 0" and "unat (s :: u32) = perm_idx b x 0"
  shows "map unat ((s # map word_of_nat [1..<unat (b_size b)])[unat s := 0]) = perm_ref b x 1"
    (is "map unat (?l[_ := 0]) = _")
proof -
  have n: "0 < unat (b_size b)" using assms(1) by (simp add: unat_gt_0)
  have i: "unat s < unat (b_size b)" using perm_idx_less[OF n] assms(2) by simp
  have "map unat ?l = unat s # [1..<unat (b_size b)]"
    using map_unat_upt[of "unat (b_size b)" 1] unat_less_2p[of "b_size b"] by simp
  also have "\<dots> = [0..<unat (b_size b)][0 := unat s]" using n by (simp add: upt_conv_Cons)
  finally have "map unat (?l[unat s := 0]) = [0..<unat (b_size b)][0 := unat s, unat s := 0]"
    by (simp only: map_update unsigned_0)
  also have "\<dots> = perm_ref b x 1" using i n by (simp add: swap_list_def flip: assms(2))
  finally show ?thesis .
qed

lemma wf_bucket_strip:
  assumes "strip_bucket b' = strip_bucket b" and "wf_bucket b"
    and "length (b_perm b') = unat (b_size b)"
  shows "wf_bucket b'"
  using assms(2,3) strip_bucket_sel[OF assms(1)]
  by (auto simp: wf_bucket_def wf_ext_def split: bucket_ext.splits)

lemma perm_at_ok:
  assumes "perm_at b x p b'" and "wf_bucket b" and "p \<le> unat (b_size b)" and "0 < p"
  shows "strip_bucket b' = strip_bucket b \<and> wf_bucket b' \<and> perm_ok b'"
proof -
  have st: "strip_bucket b' = strip_bucket b" using assms(1) by (simp add: perm_at_def)
  note sel = strip_bucket_sel[OF st]
  have wf: "wf_bucket b'" by (rule wf_bucket_strip[OF st assms(2) perm_at_length[OF assms(1)]])
  have "unat (b_perm b' ! 0) = perm_ref b x 1 ! 0" if "0 < unat (b_size b)"
  proof -
    have "unat (b_perm b' ! 0) = perm_ref b x p ! 0"
      using assms(1) that perm_at_length[OF assms(1)] by (metis nth_map perm_at_def)
    also have "\<dots> = perm_ref b x 1 ! 0" by (rule perm_ref_final) (use assms(4) in auto)
    finally show ?thesis .
  qed
  then have "perm_ok b'" using assms(1,3) perm_ref_strip[OF st]
    by (auto simp: perm_ok_def perm_at_def sel simp del: perm_ref.simps)
  with st wf show ?thesis by simp
qed

lemma perm_finish_ok:
  assumes "perm_at b x p b'" and "wf_bucket b" and "b_size b \<noteq> 0" and "p \<le> unat (b_size b)"
  shows "\<exists>b''. perm_finish b' x (r mod b_size b) = Inr (perm_item b x r, b'') \<and>
           strip_bucket b'' = strip_bucket b \<and> wf_bucket b'' \<and> perm_ok b''"
proof -
  have pr: "unat (r mod b_size b) < unat (b_size b)" using assms(3) by (rule unat_mod_less)
  from perm_finish_at[OF assms(1) pr assms(4)] assms(2)
  obtain b'' where b'': "perm_finish b' x (r mod b_size b) = Inr (perm_item b x r, b'')"
    and at: "perm_at b x (max p (Suc (unat (r mod b_size b)))) b''"
    by (auto simp: wf_bucket_def perm_item_def)
  from perm_at_ok[OF at assms(2)] pr assms(4) b'' show ?thesis by auto
qed

lemma bucket_perm_choose_ok:
  assumes wf: "wf_bucket b" and ok: "perm_ok b" and ne: "b_size b \<noteq> 0"
  shows "\<exists>b'. bucket_perm_choose b x r = Inr (perm_item b x r, b') \<and>
           strip_bucket b' = strip_bucket b \<and> wf_bucket b' \<and> perm_ok b'"
proof -
  let ?n = "unat (b_size b)" and ?pr = "r mod b_size b"
  have n: "0 < ?n" using ne by (simp add: unat_gt_0)
  have len: "length (b_perm b) = ?n" and items: "length (b_items b) = ?n"
    using wf by (simp_all add: wf_bucket_def)
  consider (first) "b_perm_x b \<noteq> x \<or> b_perm_n b = 0" "?pr = 0"
    | (fresh) "b_perm_x b \<noteq> x \<or> b_perm_n b = 0" "?pr \<noteq> 0"
    | (clean) "b_perm_x b = x" "b_perm_n b = 0xffff"
    | (cont) "b_perm_x b = x" "b_perm_n b \<noteq> 0" "b_perm_n b \<noteq> 0xffff" by fastforce
  then show ?thesis
  proof cases
    case first
    let ?s = "bucket_hash3 b x 0 mod b_size b"
    let ?b = "b\<lparr>b_perm_x := x, b_perm := (b_perm b)[0 := ?s], b_perm_n := 0xffff\<rparr>"
    have s: "unat ?s < ?n" using ne by (rule unat_mod_less)
    have "perm_item b x r = b_items b ! unat ?s"
      using first(2) n perm_ref_final[of 0 1 ?n b x] perm_ref_1[OF ne] perm_idx_0[OF ne]
      by (simp add: perm_item_def Suc_leI)
    moreover have "wf_bucket ?b" by (rule wf_bucket_strip[OF _ wf]) (simp_all add: len)
    moreover have "perm_ok ?b" using len n perm_ref_1[OF ne] perm_idx_0[OF ne]
      by (simp add: perm_ok_def del: perm_ref.simps)
    ultimately show ?thesis using first ne len n s items
      by (simp add: bucket_perm_choose_def bucket_hash3_def Let_def perm_out_def)
  next
    case fresh
    let ?b = "b\<lparr>b_perm_x := x, b_perm := map word_of_nat [0..<?n], b_perm_n := 0\<rparr>"
    have "perm_at b x 0 ?b" using map_unat_upt[of ?n 0] unat_less_2p[of "b_size b"]
      by (simp add: perm_at_def)
    from perm_finish_ok[OF this wf ne] show ?thesis using fresh ne len
      by (simp add: bucket_perm_choose_def Let_def perm_fill_nth)
  next
    case clean
    let ?s = "b_perm b ! 0"
    let ?l = "(?s # map word_of_nat [1..<?n])[unat ?s := 0]"
    let ?b = "b\<lparr>b_perm := ?l, b_perm_n := 1\<rparr>"
    have s: "unat ?s = perm_idx b x 0" using ok clean n perm_ref_1[OF ne, of x]
      by (simp add: perm_ok_def)
    then have lt: "unat ?s < ?n" using perm_idx_less[OF n] by simp
    have "take 1 (b_perm b) = [?s]" using len n by (cases "b_perm b") auto
    then have fill: "perm_fill 1 ?n (b_perm b) = Inr (?s # map word_of_nat [1..<?n])"
      using perm_fill_nth[of 1 ?n "b_perm b"] len n by simp
    have "perm_at b x 1 ?b" using clean(1) perm_cleanup[OF ne s] by (simp add: perm_at_def)
    from perm_finish_ok[OF this wf ne] n show ?thesis using clean ne fill lt
      by (simp add: bucket_perm_choose_def Let_def)
  next
    case cont
    with ok have "perm_at b x (unat (b_perm_n b)) b" "unat (b_perm_n b) \<le> ?n"
      by (auto simp: perm_at_def perm_ok_def)
    from perm_finish_ok[OF this(1) wf ne this(2)] show ?thesis using cont ne
      by (simp add: bucket_perm_choose_def Let_def)
  qed
qed

text \<open>Different positions modulo the size give different items, when the items differ.\<close>

lemma perm_item_inj:
  assumes "wf_bucket b" and "distinct (b_items b)" and "b_size b \<noteq> 0"
  shows "perm_item b x r = perm_item b x r' \<longleftrightarrow> r mod b_size b = r' mod b_size b"
proof -
  let ?n = "unat (b_size b)" and ?p = "perm_ref b x (unat (b_size b))"
  have r: "unat (q mod b_size b) < ?n" for q using assms(3) by (rule unat_mod_less)
  have "?p ! unat (q mod b_size b) < ?n" for q using r by (simp add: perm_ref_nth_less)
  then have "perm_item b x r = perm_item b x r' \<longleftrightarrow>
      ?p ! unat (r mod b_size b) = ?p ! unat (r' mod b_size b)"
    using assms by (auto simp: perm_item_def wf_bucket_def nth_eq_iff_index_eq)
  also have "\<dots> \<longleftrightarrow> unat (r mod b_size b) = unat (r' mod b_size b)"
    using distinct_perm_ref[of ?n b x] r by (simp add: nth_eq_iff_index_eq)
  finally show ?thesis by (simp add: word_unat_eq_iff)
qed

lemma perm_item_in: "wf_bucket b \<Longrightarrow> b_size b \<noteq> 0 \<Longrightarrow> perm_item b x r \<in> set (b_items b)"
  unfolding perm_item_def wf_bucket_def
  by (intro nth_mem) (simp add: perm_ref_nth_less unat_mod_less)

section \<open>List, straw and tree buckets against their references\<close>

definition list_hit :: "crush_bucket \<Rightarrow> u32 list \<Rightarrow> u32 list \<Rightarrow> u32 \<Rightarrow> u32 \<Rightarrow> nat \<Rightarrow> bool" where
  "list_hit b ws sums x r i \<longleftrightarrow> list_draw b x r (b_items b ! i) (sums ! i) < ucast (ws ! i)"

text \<open>The loop finds the last position whose scaled draw is below its weight, else position 0.\<close>

lemma list_choose_loop_find:
  assumes "n \<le> length (b_items b)" "n \<le> length ws" "n \<le> length sums" "0 < length (b_items b)"
  shows "list_choose_loop b ws sums x r n =
    Inr (b_items b ! (case find (list_hit b ws sums x r) (rev [0..<n]) of None \<Rightarrow> 0 | Some i \<Rightarrow> i))"
  using assms by (induction n) (auto simp: list_hit_def)

lemma bucket_list_choose_in:
  assumes "wf_bucket b" and "b_ext b = List_ext ws sums" and "b_size b \<noteq> 0"
  shows "\<exists>i \<in> set (b_items b). bucket_list_choose b x r = Inr i"
proof -
  let ?n = "nat (sint (b_size b - 1) + 1)" and ?hit = "list_hit b ws sums x r"
  have len: "length (b_items b) = unat (b_size b)" "length ws = unat (b_size b)"
    "length sums = unat (b_size b)"
    using assms(1,2) by (auto simp: wf_bucket_def wf_ext_def)
  have pos: "0 < unat (b_size b)" using assms(3) by (simp add: unat_gt_0)
  have "take_bit 32 (uint (b_size b - 1)) \<le> uint (b_size b - 1)"
    by (rule take_bit_int_less_eq_self_iff[THEN iffD2]) simp
  then have "sint (b_size b - 1) \<le> uint (b_size b - 1)"
    by (simp only: sint_uint signed_take_bit_eq_take_bit_minus) (auto simp: of_bool_def)
  also have "\<dots> = int (unat (b_size b)) - 1"
    using pos uint_minus_simple_alt[of 1 "b_size b"] by (simp add: word_le_nat_alt)
  finally have n: "?n \<le> unat (b_size b)" by (simp add: nat_le_iff)
  let ?i = "case find ?hit (rev [0..<?n]) of None \<Rightarrow> 0 | Some i \<Rightarrow> i"
  have "?i < unat (b_size b)"
    using n pos by (auto dest!: find_SomeD split: option.splits)
  then show ?thesis using assms(2) len pos n
    by (intro bexI[of _ "b_items b ! ?i"])
      (auto simp: bucket_list_choose_def as_list_def list_choose_loop_find)
qed

definition straw_at :: "crush_bucket \<Rightarrow> u32 list \<Rightarrow> u32 \<Rightarrow> u32 \<Rightarrow> nat \<Rightarrow> u64" where
  "straw_at b straws x r i = straw_draw b x r (b_items b ! i) (straws ! i)"

lemma bucket_straw_choose_max:
  assumes "wf_bucket b" and ext: "b_ext b = Straw_ext ws straws" and "b_size b \<noteq> 0"
  shows "\<exists>h < unat (b_size b). bucket_straw_choose b x r = Inr (b_items b ! h) \<and>
     (\<forall>i < unat (b_size b). straw_at b straws x r i \<le> straw_at b straws x r h) \<and>
     (\<forall>i < h. straw_at b straws x r i < straw_at b straws x r h)"
proof -
  let ?n = "unat (b_size b)" and ?d = "straw_at b straws x r"
  let ?P = "\<lambda>k (h, hd). 0 < k \<longrightarrow> h < k \<and> hd = ?d h \<and> (\<forall>i<k. ?d i \<le> ?d h) \<and> (\<forall>i<h. ?d i < ?d h)"
  have len: "length (b_items b) = ?n" "length straws = ?n"
    using assms(1,2) by (auto simp: wf_bucket_def wf_ext_def)
  have "\<exists>t. foldE (straw_round b straws x r) [0..<?n] (0, 0) = Inr t \<and> ?P ?n t"
  proof (rule foldE_upt_rule[where P = ?P])
    fix k t
    assume "k < ?n" and "?P k t"
    then show "\<exists>t'. straw_round b straws x r k t = Inr t' \<and> ?P (Suc k) t'"
      using len
      by (cases t; cases "k = 0")
        (auto simp: straw_round_def Let_def less_Suc_eq not_less simp flip: straw_at_def
          intro: order.strict_implies_order order.strict_trans1)
  qed auto
  with assms(3) len ext show ?thesis
    by (auto simp: bucket_straw_choose_def as_straw_def unat_gt_0)
qed

text \<open>
  A tree bucket stores a complete binary tree in an array of \<open>num_nodes = 2^d\<close> weights: leaf
  \<open>2 i + 1\<close> belongs to item \<open>i\<close>, an inner node weighs what its two children weigh, leaves
  without an item weigh nothing, and some item has a weight unless every leaf has an item.
\<close>

definition tree_sums :: "nat \<Rightarrow> u32 list \<Rightarrow> bool" where
  "tree_sums num ws \<longleftrightarrow>
    list_all (\<lambda>k. case height k of
        Inr (Suc h) \<Rightarrow> unat (ws ! k) = unat (ws ! (k - 2 ^ h)) + unat (ws ! (k + 2 ^ h))
      | _ \<Rightarrow> True) [1..<num]"

definition tree_padding :: "nat \<Rightarrow> nat \<Rightarrow> u32 list \<Rightarrow> bool" where
  "tree_padding sz num ws \<longleftrightarrow> list_all (\<lambda>i. ws ! (2 * i + 1) = 0) [sz..<num div 2]"

definition wf_tree :: "crush_bucket \<Rightarrow> bool" where
  "wf_tree b \<longleftrightarrow>
    (case b_ext b of
       Tree_ext num ws \<Rightarrow>
         list_ex (\<lambda>d. unat num = 2 ^ d) [1..<8] \<and>
         tree_sums (unat num) ws \<and> tree_padding (unat (b_size b)) (unat num) ws \<and>
         (unat num div 2 \<le> unat (b_size b) \<or> ws ! (unat num div 2) \<noteq> 0)
     | _ \<Rightarrow> True)"

lemma unat_tree_draw:
  "unat (tree_draw b x r n w) =
     unat (crush_hash32_4 (uint (b_hash b)) x (word_of_nat n) r (word_of_int (b_id b))) * unat w div 2 ^ 32"
    (is "_ = unat ?h * _ div _")
proof -
  have "unat ?h * unat w \<le> (2 ^ 32 - 1) * (2 ^ 32 - 1)"
    using unat_less_2p[of ?h] unat_less_2p[of w] by (intro mult_le_mono) simp_all
  then have "unat ?h * unat w < 2 ^ 64" by (rule order.strict_trans1) simp
  then have "unat (ucast ?h * ucast w :: u64) = unat ?h * unat w"
    by (simp add: unat_word_ariths)
  then show ?thesis
    by (simp only: tree_draw_def unat_drop_bit_eq) (simp add: drop_bit_eq_div)
qed

lemma tree_draw_less: "w \<noteq> 0 \<Longrightarrow> unat (tree_draw b x r n w) < unat w"
proof -
  assume "w \<noteq> 0"
  let ?h = "crush_hash32_4 (uint (b_hash b)) x (word_of_nat n) r (word_of_int (b_id b))"
  have "unat ?h * unat w < 2 ^ 32 * unat w"
    using unat_less_2p[of ?h] \<open>w \<noteq> 0\<close> by (simp add: unat_gt_0)
  then show ?thesis by (simp add: unat_tree_draw less_mult_imp_div_less mult.commute)
qed

lemma height_exists: "0 < n \<Longrightarrow> \<exists>h. height n = Inr h"
proof (induction n rule: height.induct)
  case (1 n)
  show ?case
  proof (cases "odd n")
    case True
    then show ?thesis by (subst height.simps) (auto dest: odd_pos)
  next
    case False
    with "1.prems" have "n \<noteq> 0" "0 < n div 2" by auto
    with "1.IH" False obtain h where "height (n div 2) = Inr h" by auto
    with False \<open>n \<noteq> 0\<close> show ?thesis by (subst height.simps) simp
  qed
qed

lemma inner_node_below:
  assumes "(2::nat) ^ Suc g * (2 * k + 1) < 2 ^ d"
  shows "2 ^ Suc g * (2 * k + 1) + 2 ^ g < (2::nat) ^ d"
proof -
  have "(2::nat) ^ Suc g \<le> 2 ^ Suc g * (2 * k + 1)" by simp
  then have "(2::nat) ^ Suc g < 2 ^ d" using assms by (rule order.strict_trans1)
  then have "Suc g < d" by (rule power_less_imp_less_exp[rotated]) simp
  then obtain e where "d = Suc (Suc g + e)" using less_imp_Suc_add by blast
  then have d: "(2::nat) ^ d = 2 ^ Suc g * (2 * 2 ^ e)" by (simp add: power_add)
  with assms have "2 * k + 1 < 2 * 2 ^ e" by (metis mult_less_cancel1)
  then have "2 * k + 2 \<le> 2 * 2 ^ e" by simp
  then have "2 ^ Suc g * (2 * k + 2) \<le> 2 ^ d" unfolding d by (rule mult_le_mono2)
  moreover have "2 ^ Suc g * (2 * k + 2) = 2 ^ Suc g * (2 * k + 1) + (2::nat) ^ Suc g"
    by (simp add: algebra_simps)
  moreover have "(2::nat) ^ g < 2 ^ Suc g" by simp
  ultimately show ?thesis by linarith
qed

text \<open>A descent step from an inner node stays in the tree and keeps to weighted nodes.\<close>

lemma tree_child_ok:
  assumes num: "num = 2 ^ d" and len: "length ws = num" and sums: "tree_sums num ws"
    and n: "0 < n" "n < num" "\<not> terminal n"
  shows "\<exists>n'. tree_child b ws x r n = Inr n' \<and> 0 < n' \<and> n' < num \<and> (ws ! n \<noteq> 0 \<longrightarrow> ws ! n' \<noteq> 0)"
proof -
  obtain h m where h: "height n = Inr h" and m: "n = 2 ^ h * m" "odd m"
    using height_exists[OF n(1)] height_Inr_iff by blast
  from m n(3) obtain g where g: "h = Suc g" by (cases h) (auto simp: terminal_def)
  from m(2) obtain k where k: "m = 2 * k + 1" by (auto elim: oddE)
  have up: "n + 2 ^ g < num" using inner_node_below[of g k d] n(2) num m g k by simp
  have lo: "2 ^ g < n" using m g k by simp
  have sum: "unat (ws ! n) = unat (ws ! (n - 2 ^ g)) + unat (ws ! (n + 2 ^ g))"
    using sums n h g unfolding tree_sums_def list_all_iff by (auto dest!: bspec[of _ _ n])
  let ?n' = "if tree_draw b x r n (ws ! n) < ucast (ws ! (n - 2 ^ g)) then n - 2 ^ g else n + 2 ^ g"
  have "tree_child b ws x r n = Inr ?n'"
    using h g n len by (simp add: tree_child_def left_def right_def push_bit_eq_mult)
  moreover have "ws ! ?n' \<noteq> 0" if "ws ! n \<noteq> 0"
  proof -
    have "unat (tree_draw b x r n (ws ! n)) < unat (ws ! n)" by (rule tree_draw_less[OF that])
    with sum show ?thesis
      by (auto simp: word_less_nat_alt not_less)
  qed
  ultimately show ?thesis using up lo by auto
qed

lemma tree_loop_leaf:
  assumes "num = 2 ^ d" and "length ws = num" and "tree_sums num ws"
    and "0 < n" and "n < num"
  shows "\<exists>l. tree_loop b ws x r n = Inr l \<and> odd l \<and> l < num \<and> (ws ! n \<noteq> 0 \<longrightarrow> ws ! l \<noteq> 0)"
  using assms(2-5)
proof (induction b ws x r n rule: tree_loop.induct)
  case (1 b ws x r n)
  show ?case
  proof (cases "terminal n")
    case True
    with "1.prems" show ?thesis by (subst tree_loop.simps) (simp add: terminal_def)
  next
    case False
    from tree_child_ok[OF assms(1) "1.prems" this] obtain n' where n':
      "tree_child b ws x r n = Inr n'" "0 < n'" "n' < num" "ws ! n \<noteq> 0 \<longrightarrow> ws ! n' \<noteq> 0" by blast
    from "1.IH"[OF False n'(1) "1.prems"(1,2) n'(2,3)] n' False show ?thesis
      by (subst tree_loop.simps) auto
  qed
qed

lemma bucket_tree_choose_weighted:
  assumes wf: "wf_bucket b" "wf_tree b" and ext: "b_ext b = Tree_ext num ws"
  shows "\<exists>i < unat (b_size b). bucket_tree_choose b x r = Inr (b_items b ! i) \<and>
     (ws ! (unat num div 2) \<noteq> 0 \<longrightarrow> ws ! crush_calc_tree_node i \<noteq> 0)"
proof -
  let ?n = "unat num"
  obtain d where d: "?n = 2 ^ d" "0 < d"
    using wf(2) ext by (auto simp: wf_tree_def list_ex_iff)
  have len: "length (b_items b) = unat (b_size b)" "length ws = ?n"
    using wf(1) ext by (auto simp: wf_bucket_def wf_ext_def)
  have root: "0 < ?n div 2" "?n div 2 < ?n" using d by (cases d; simp)+
  have sums: "tree_sums ?n ws" using wf(2) ext by (simp add: wf_tree_def)
  from tree_loop_leaf[OF d(1) len(2) sums root] obtain l
    where l: "tree_loop b ws x r (?n div 2) = Inr l" "odd l" "l < ?n"
      "ws ! (?n div 2) \<noteq> 0 \<longrightarrow> ws ! l \<noteq> 0" by blast
  have l2: "l = 2 * (l div 2) + 1" using l(2) by presburger
  have half: "l div 2 < ?n div 2" using l(2,3) d by (cases d) (auto elim!: oddE)
  have "l div 2 < unat (b_size b)"
  proof (rule ccontr)
    assume out: "\<not> l div 2 < unat (b_size b)"
    with half have "l div 2 \<in> set [unat (b_size b)..<?n div 2]" by simp
    then have "ws ! (2 * (l div 2) + 1) = 0" using wf(2) ext
      unfolding wf_tree_def tree_padding_def list_all_iff by simp
    with l2 have "ws ! l = 0" by metis
    with out half l(4) wf(2) ext show False by (auto simp: wf_tree_def)
  qed
  with l l2 len ext show ?thesis
    by (intro exI[of _ "l div 2"]) (simp add: bucket_tree_choose_def as_tree_def crush_calc_tree_node_eq)
qed

section \<open>The contract of a choose method\<close>

text \<open>
  What the mapping code relies on: on a bucket in a good state a choose method returns a
  member of the bucket that depends on the stored bucket, \<open>x\<close> and \<open>r\<close> only, and changes
  nothing but the cache, which stays good.
\<close>

locale bucket_chooser =
  fixes draw :: "crush_bucket \<Rightarrow> u32 \<Rightarrow> u32 \<Rightarrow> (int \<times> crush_bucket) res"
    and pick :: "crush_bucket \<Rightarrow> u32 \<Rightarrow> u32 \<Rightarrow> int"
    and good :: "crush_bucket \<Rightarrow> bool"
  assumes draw_pick: "good b \<Longrightarrow> b_size b \<noteq> 0 \<Longrightarrow>
      \<exists>b'. draw b x r = Inr (pick b x r, b') \<and> strip_bucket b' = strip_bucket b \<and> good b'"
    and pick_member: "good b \<Longrightarrow> b_size b \<noteq> 0 \<Longrightarrow> pick b x r \<in> set (b_items b)"
    and pick_static: "strip_bucket b' = strip_bucket b \<Longrightarrow> pick b' x r = pick b x r"
begin

text \<open>Earlier queries, whatever their inputs, do not change a later answer.\<close>

lemma history_independent:
  assumes "good b" and "b_size b \<noteq> 0"
  shows "\<exists>b'. foldE (\<lambda>(x, r) b. bindE (draw b x r) (\<lambda>(i, b'). Inr b')) qs b = Inr b' \<and>
           good b' \<and> strip_bucket b' = strip_bucket b \<and>
           (\<exists>b''. draw b' x r = Inr (pick b x r, b''))"
  using assms
proof (induction qs arbitrary: b)
  case Nil
  with draw_pick[of b x r] show ?case by auto
next
  case (Cons q qs)
  obtain y s where q: "q = (y, s)" by (cases q)
  from draw_pick[OF Cons.prems, of y s] obtain b1 where b1: "draw b y s = Inr (pick b y s, b1)"
    "strip_bucket b1 = strip_bucket b" "good b1" by blast
  then have "b_size b1 \<noteq> 0" using strip_bucket_sel(5)[OF b1(2)] Cons.prems by simp
  from Cons.IH[OF b1(3) this] q b1 show ?case by (auto simp: pick_static[OF b1(2)])
qed

end

definition cache_good :: "crush_bucket \<Rightarrow> bool" where
  "cache_good b \<longleftrightarrow> wf_bucket b \<and> perm_ok b \<and> wf_tree b"

lemma wf_tree_strip:
  assumes "strip_bucket b' = strip_bucket b"
  shows "wf_tree b' = wf_tree b"
  using strip_bucket_sel[OF assms] by (simp add: wf_tree_def split: bucket_ext.split)

lemma perm_item_strip:
  assumes "strip_bucket b' = strip_bucket b"
  shows "perm_item b' x r = perm_item b x r"
  using strip_bucket_sel[OF assms] perm_ref_strip[OF assms] by (simp add: perm_item_def)

interpretation perm: bucket_chooser bucket_perm_choose perm_item cache_good
proof
  fix b x r
  assume g: "cache_good b" and n: "b_size b \<noteq> 0"
  then obtain b' where b': "bucket_perm_choose b x r = Inr (perm_item b x r, b')"
      "strip_bucket b' = strip_bucket b" "wf_bucket b'" "perm_ok b'"
    using bucket_perm_choose_ok[of b x r] by (auto simp: cache_good_def)
  with g wf_tree_strip[OF b'(2)] show "\<exists>b'. bucket_perm_choose b x r = Inr (perm_item b x r, b') \<and>
      strip_bucket b' = strip_bucket b \<and> cache_good b'"
    by (auto simp: cache_good_def)
  from g n show "perm_item b x r \<in> set (b_items b)" by (simp add: cache_good_def perm_item_in)
qed (rule perm_item_strip)

text \<open>The cache free reference of the dispatcher.\<close>

definition bucket_pick :: "crush_bucket \<Rightarrow> u32 \<Rightarrow> u32 \<Rightarrow> int" where
  "bucket_pick b x r =
    (if b_alg b = CRUSH_BUCKET_UNIFORM then perm_item b x r
     else case (if b_alg b = CRUSH_BUCKET_LIST then bucket_list_choose (strip_bucket b) x r
                else if b_alg b = CRUSH_BUCKET_TREE then bucket_tree_choose (strip_bucket b) x r
                else bucket_straw_choose (strip_bucket b) x r)
          of Inl e \<Rightarrow> 0 | Inr i \<Rightarrow> i)"

lemma strip_sel [simp]:
  "b_id (strip_bucket b) = b_id b" "b_hash (strip_bucket b) = b_hash b"
  "b_size (strip_bucket b) = b_size b" "b_items (strip_bucket b) = b_items b"
  "b_ext (strip_bucket b) = b_ext b"
  by (simp_all add: strip_bucket_def)

lemma list_choose_strip: "bucket_list_choose (strip_bucket b) x r = bucket_list_choose b x r"
proof -
  have "list_choose_loop (strip_bucket b) ws sums x r n = list_choose_loop b ws sums x r n"
    for ws sums n by (induction n) (simp_all add: list_draw_def cong: if_cong)
  then show ?thesis by (simp add: bucket_list_choose_def as_list_def)
qed

lemma tree_choose_strip: "bucket_tree_choose (strip_bucket b) x r = bucket_tree_choose b x r"
proof -
  have "tree_loop (strip_bucket b) ws x r n = tree_loop b ws x r n" for ws n
  proof (induction b ws x r n rule: tree_loop.induct)
    case (1 b ws x r n)
    have "tree_child (strip_bucket b) ws x r n = tree_child b ws x r n"
      by (simp add: tree_child_def tree_draw_def)
    with 1 show ?case
      by (subst (1 2) tree_loop.simps) (auto intro!: bindE_cong)
  qed
  then show ?thesis by (simp add: bucket_tree_choose_def as_tree_def)
qed

lemma straw_choose_strip: "bucket_straw_choose (strip_bucket b) x r = bucket_straw_choose b x r"
proof -
  have "straw_round (strip_bucket b) ss x r = straw_round b ss x r" for ss
    by (intro ext) (simp add: straw_round_def straw_draw_def)
  then show ?thesis by (simp add: bucket_straw_choose_def as_straw_def)
qed

lemma wf_ext_alg:
  "wf_ext b \<Longrightarrow>
   (b_alg b = CRUSH_BUCKET_UNIFORM) = (\<exists>w. b_ext b = Uniform_ext w) \<and>
   (b_alg b = CRUSH_BUCKET_LIST) = (\<exists>ws sums. b_ext b = List_ext ws sums) \<and>
   (b_alg b = CRUSH_BUCKET_TREE) = (\<exists>n ws. b_ext b = Tree_ext n ws) \<and>
   (b_alg b = CRUSH_BUCKET_STRAW) = (\<exists>ws ss. b_ext b = Straw_ext ws ss)"
  by (cases "b_ext b") (auto simp: wf_ext_def crush_algs)

lemma crush_bucket_choose_pick:
  assumes "cache_good b" and "b_size b \<noteq> 0"
  shows "\<exists>b'. crush_bucket_choose b x r = Inr (bucket_pick b x r, b') \<and>
     strip_bucket b' = strip_bucket b \<and> cache_good b' \<and> bucket_pick b x r \<in> set (b_items b)"
proof (cases "b_ext b")
  case (Uniform_ext w)
  then have "b_alg b = CRUSH_BUCKET_UNIFORM" using assms by (simp add: cache_good_def wf_bucket_def wf_ext_def)
  then show ?thesis using assms perm.draw_pick[OF assms, of x r] perm.pick_member[OF assms, of x r]
    by (auto simp: crush_bucket_choose_def bucket_uniform_choose_def bucket_pick_def)
next
  case (List_ext ws sums)
  then have "b_alg b = CRUSH_BUCKET_LIST" using assms by (simp add: cache_good_def wf_bucket_def wf_ext_def)
  moreover from assms obtain i where "i \<in> set (b_items b)" "bucket_list_choose b x r = Inr i"
    using bucket_list_choose_in[OF _ List_ext, of x r] by (auto simp: cache_good_def)
  ultimately show ?thesis using assms
    by (auto simp: crush_bucket_choose_def bucket_pick_def keep_bucket_def crush_algs list_choose_strip)
next
  case (Tree_ext num ws)
  then have "b_alg b = CRUSH_BUCKET_TREE" using assms by (simp add: cache_good_def wf_bucket_def wf_ext_def)
  moreover from assms obtain i where "i < unat (b_size b)" "bucket_tree_choose b x r = Inr (b_items b ! i)"
    using bucket_tree_choose_weighted[OF _ _ Tree_ext, of x r] by (auto simp: cache_good_def)
  ultimately show ?thesis using assms
    by (auto simp: crush_bucket_choose_def bucket_pick_def keep_bucket_def crush_algs tree_choose_strip
        cache_good_def wf_bucket_def)
next
  case (Straw_ext ws ss)
  then have "b_alg b = CRUSH_BUCKET_STRAW" using assms by (simp add: cache_good_def wf_bucket_def wf_ext_def)
  moreover from assms obtain i where "i < unat (b_size b)" "bucket_straw_choose b x r = Inr (b_items b ! i)"
    using bucket_straw_choose_max[OF _ Straw_ext, of x r] by (auto simp: cache_good_def)
  ultimately show ?thesis using assms
    by (auto simp: crush_bucket_choose_def bucket_pick_def keep_bucket_def crush_algs straw_choose_strip
        cache_good_def wf_bucket_def)
qed

interpretation dispatch: bucket_chooser crush_bucket_choose bucket_pick cache_good
proof
  fix b b' x r
  assume st: "strip_bucket b' = strip_bucket b"
  then have "b_alg b' = b_alg b" by (rule strip_bucket_sel)
  then show "bucket_pick b' x r = bucket_pick b x r"
    by (simp add: bucket_pick_def st perm_item_strip[OF st])
qed (use crush_bucket_choose_pick in blast)+

end
