(* ===== verification/Crush_Choose.thy ===== *)
theory Crush_Choose
  imports Crush_Bucket
begin

text \<open>
  Choosing several items below a bucket: \<open>crush_choose_firstn\<close> and \<open>crush_choose_indep\<close> of
  \<open>net/ceph/crush/mapper.c\<close>. Both write into caller supplied arrays that are parts of one
  scratch vector, so the model has one memory \<open>mem\<close> and the pointers \<open>out\<close> and \<open>out2\<close> are
  offsets into it; a write past the vector is a fault, a write past the part that was meant is
  not, as in C. The map is threaded through because the bucket choose methods update the
  permutation caches of its buckets. The retry loops are bounded by fuel.
\<close>

section \<open>Shared pieces\<close>

text \<open>The arguments that every call of one mapping shares.\<close>

record crush_input =
  weight :: "u32 list"
  weight_max :: int
  input_x :: u32

text \<open>\<open>if (item < 0) itemtype = map->buckets[-1-item]->type; else itemtype = 0;\<close>\<close>

definition item_type :: "crush_map \<Rightarrow> int \<Rightarrow> int res" where
  "item_type m item =
    (if item < 0 then bindE (bucket_at m (-1 - item)) (\<lambda>b. Inr (uint (b_type b))) else Inr 0)"

text \<open>The collision loop over the offsets \<open>is\<close>; it stops at the first equal entry.\<close>

fun collides :: "int list \<Rightarrow> int \<Rightarrow> nat list \<Rightarrow> bool res" where
  "collides mem item [] = Inr False"
| "collides mem item (i # is) =
    bindE (rd mem i) (\<lambda>v. if v = item then Inr True else collides mem item is)"

section \<open>First-n choice\<close>

record firstn_args =
  fa_bucket :: int
  fa_numrep :: nat
  fa_type :: int
  fa_out :: nat
  fa_tries :: u32
  fa_recurse_tries :: u32
  fa_local_retries :: u32
  fa_local_fallback_retries :: u32
  fa_recurse_to_leaf :: bool
  fa_vary_r :: u32
  fa_out2 :: "nat option"
  fa_parent_r :: u32

text \<open>How one round of the retry loops ends.\<close>

datatype outcome = Descend int | RetryBucket | RetryDescent | SkipRep | Placed int

text \<open>The code at label \<open>reject\<close> for a rejected or colliding item.\<close>

definition firstn_retry :: "firstn_args \<Rightarrow> u32 \<Rightarrow> bool \<Rightarrow> u32 \<Rightarrow> u32 \<Rightarrow> outcome" where
  "firstn_retry a in_size collide ftotal flocal =
    (let ftotal = ftotal + 1; flocal = flocal + 1 in
     if collide \<and> flocal \<le> fa_local_retries a then RetryBucket
     else if 0 < fa_local_fallback_retries a \<and> flocal \<le> in_size + fa_local_fallback_retries a
     then RetryBucket
     else if ftotal < fa_tries a then RetryDescent
     else SkipRep)"

type_synonym firstn_rec =
  "firstn_args \<Rightarrow> nat \<Rightarrow> crush_map \<Rightarrow> int list \<Rightarrow> (nat \<times> crush_map \<times> int list) res"

definition firstn_sub_r :: "u32 \<Rightarrow> u32 \<Rightarrow> u32 res" where
  "firstn_sub_r vary_r r =
    (if vary_r \<noteq> 0 then
       if vary_r - 1 < 32 then Inr (signed_drop_bit (unat (vary_r - 1)) r)
       else Inl (Fault BadShift)
     else Inr 0)"

text \<open>The arguments of the recursive call that looks for one device below \<open>item\<close>.\<close>

definition leaf_args :: "firstn_args \<Rightarrow> int \<Rightarrow> nat \<Rightarrow> nat \<Rightarrow> u32 \<Rightarrow> firstn_args" where
  "leaf_args a item out2 outpos sub_r =
    \<lparr>fa_bucket = -1 - item, fa_numrep = outpos + 1, fa_type = 0, fa_out = out2,
     fa_tries = fa_recurse_tries a, fa_recurse_tries = 0,
     fa_local_retries = fa_local_retries a,
     fa_local_fallback_retries = fa_local_fallback_retries a,
     fa_recurse_to_leaf = False, fa_vary_r = fa_vary_r a, fa_out2 = None,
     fa_parent_r = sub_r\<rparr>"

text \<open>\<open>if (!collide && recurse_to_leaf)\<close>: the new value of \<open>reject\<close>.\<close>

definition firstn_leaf ::
  "firstn_rec \<Rightarrow> firstn_args \<Rightarrow> crush_map \<Rightarrow> int list \<Rightarrow> int \<Rightarrow> bool \<Rightarrow> nat \<Rightarrow> u32 \<Rightarrow>
   (bool \<times> crush_map \<times> int list) res" where
  "firstn_leaf rec a m mem item collide outpos r =
    (if \<not> collide \<and> fa_recurse_to_leaf a then
       bindE (deref (fa_out2 a)) (\<lambda>out2.
       if item < 0 then
         bindE (firstn_sub_r (fa_vary_r a) r) (\<lambda>sub_r.
         bindE (rec (leaf_args a item out2 outpos sub_r) outpos m mem) (\<lambda>(n, m, mem).
         Inr (n \<le> outpos, m, mem)))
       else
         bindE (wr mem (out2 + outpos) item) (\<lambda>mem. Inr (False, m, mem)))
     else Inr (False, m, mem))"

definition firstn_bucket_item ::
  "firstn_args \<Rightarrow> crush_input \<Rightarrow> crush_bucket \<Rightarrow> u32 \<Rightarrow> u32 \<Rightarrow> (int \<times> crush_bucket) res" where
  "firstn_bucket_item a ci b r flocal =
    (if 0 < fa_local_fallback_retries a \<and> drop_bit 1 (b_size b) \<le> flocal \<and>
        fa_local_fallback_retries a < flocal
     then bucket_perm_choose b (input_x ci) r
     else crush_bucket_choose b (input_x ci) r)"

text \<open>The part of a round after the collision test: leaf search, out test, label \<open>reject\<close>.\<close>

definition firstn_finish ::
  "firstn_rec \<Rightarrow> crush_input \<Rightarrow> firstn_args \<Rightarrow> nat \<Rightarrow> crush_map \<Rightarrow> int list \<Rightarrow> int \<Rightarrow> bool \<Rightarrow> u32 \<Rightarrow>
   int \<Rightarrow> u32 \<Rightarrow> u32 \<Rightarrow> u32 \<Rightarrow> (crush_map \<times> int list \<times> outcome) res" where
  "firstn_finish rec ci a outpos m mem item collide r itemtype in_size ftotal flocal =
    bindE (firstn_leaf rec a m mem item collide outpos r) (\<lambda>(reject, m, mem).
    bindE (if \<not> reject \<and> itemtype = 0
           then is_out (weight ci) (weight_max ci) item (input_x ci)
           else Inr reject) (\<lambda>reject.
    if reject \<or> collide
    then Inr (m, mem, firstn_retry a in_size collide ftotal flocal)
    else Inr (m, mem, Placed item)))"

text \<open>One round of the inner \<open>do ... while (retry_bucket)\<close> loop.\<close>

definition firstn_step ::
  "firstn_rec \<Rightarrow> crush_input \<Rightarrow> firstn_args \<Rightarrow> nat \<Rightarrow> nat \<Rightarrow> crush_map \<Rightarrow> int list \<Rightarrow> int \<Rightarrow>
   u32 \<Rightarrow> u32 \<Rightarrow> (crush_map \<times> int list \<times> outcome) res" where
  "firstn_step rec ci a rep outpos m mem inb ftotal flocal =
    (let r = word_of_nat rep + fa_parent_r a + ftotal in
     bindE (bucket_at m inb) (\<lambda>b.
     if b_size b = 0 then Inr (m, mem, firstn_retry a (b_size b) False ftotal flocal)
     else
       bindE (firstn_bucket_item a ci b r flocal) (\<lambda>(item, b').
       let m = set_bucket m inb b' in
       if max_devices m \<le> item then Inr (m, mem, SkipRep)
       else
         bindE (item_type m item) (\<lambda>itemtype.
         if itemtype \<noteq> fa_type a then
           if 0 \<le> item \<or> max_buckets m \<le> -1 - item then Inr (m, mem, SkipRep)
           else Inr (m, mem, Descend (-1 - item))
         else
           bindE (collides mem item [fa_out a..<fa_out a + outpos]) (\<lambda>collide.
           firstn_finish rec ci a outpos m mem item collide r itemtype (b_size b) ftotal flocal)))))"

text \<open>Both retry loops of one replica; \<open>None\<close> is \<open>skip_rep\<close>.\<close>

fun firstn_try ::
  "firstn_rec \<Rightarrow> crush_input \<Rightarrow> firstn_args \<Rightarrow> nat \<Rightarrow> nat \<Rightarrow> nat \<Rightarrow> crush_map \<Rightarrow> int list \<Rightarrow> int \<Rightarrow>
   u32 \<Rightarrow> u32 \<Rightarrow> (int option \<times> crush_map \<times> int list) res" where
  "firstn_try rec ci a rep outpos 0 m mem inb ftotal flocal = Inl NoFuel"
| "firstn_try rec ci a rep outpos (Suc n) m mem inb ftotal flocal =
    bindE (firstn_step rec ci a rep outpos m mem inb ftotal flocal) (\<lambda>(m, mem, oc).
    case oc of
      Descend i \<Rightarrow> firstn_try rec ci a rep outpos n m mem i ftotal flocal
    | RetryBucket \<Rightarrow> firstn_try rec ci a rep outpos n m mem inb (ftotal + 1) (flocal + 1)
    | RetryDescent \<Rightarrow> firstn_try rec ci a rep outpos n m mem (fa_bucket a) (ftotal + 1) 0
    | SkipRep \<Rightarrow> Inr (None, m, mem)
    | Placed item \<Rightarrow> Inr (Some item, m, mem))"

text \<open>The body of the loop over \<open>rep\<close>.\<close>

definition firstn_rep ::
  "firstn_rec \<Rightarrow> crush_input \<Rightarrow> nat \<Rightarrow> firstn_args \<Rightarrow> nat \<Rightarrow> nat \<times> crush_map \<times> int list \<Rightarrow>
   (nat \<times> crush_map \<times> int list) res" where
  "firstn_rep rec ci fuel a rep s =
    (case s of (outpos, m, mem) \<Rightarrow>
      bindE (firstn_try rec ci a rep outpos fuel m mem (fa_bucket a) 0 0) (\<lambda>(oi, m, mem).
      case oi of
        None \<Rightarrow> Inr (outpos, m, mem)
      | Some item \<Rightarrow>
          bindE (wr mem (fa_out a + outpos) item) (\<lambda>mem. Inr (outpos + 1, m, mem))))"

text \<open>
  The first argument bounds the depth of the recursion: the recursive call is made with
  \<open>recurse_to_leaf = 0\<close> and does not recurse again, so 2 is enough.
\<close>

fun crush_choose_firstn :: "nat \<Rightarrow> nat \<Rightarrow> crush_input \<Rightarrow> firstn_rec" where
  "crush_choose_firstn 0 fuel ci a outpos m mem = Inl NoFuel"
| "crush_choose_firstn (Suc d) fuel ci a outpos m mem =
    foldE (firstn_rep (crush_choose_firstn d fuel ci) ci fuel a) [outpos..<fa_numrep a]
      (outpos, m, mem)"

section \<open>Positionally stable choice\<close>

record indep_args =
  ia_bucket :: int
  ia_numrep :: nat
  ia_type :: int
  ia_out :: nat
  ia_tries :: u32
  ia_recurse_tries :: u32
  ia_recurse_to_leaf :: bool
  ia_out2 :: "nat option"
  ia_parent_r :: u32

type_synonym indep_rec =
  "indep_args \<Rightarrow> int \<Rightarrow> nat \<Rightarrow> crush_map \<Rightarrow> int list \<Rightarrow> (crush_map \<times> int list) res"

text \<open>\<open>if (out2) out2[rep] = v;\<close>\<close>

definition wr_opt :: "int list \<Rightarrow> nat option \<Rightarrow> nat \<Rightarrow> int \<Rightarrow> int list res" where
  "wr_opt mem p i v = (case p of None \<Rightarrow> Inr mem | Some out2 \<Rightarrow> wr mem (out2 + i) v)"

definition indep_set :: "indep_args \<Rightarrow> nat \<Rightarrow> int \<Rightarrow> int list \<Rightarrow> int list res" where
  "indep_set a rep v mem =
    bindE (wr mem (ia_out a + rep) v) (\<lambda>mem. wr_opt mem (ia_out2 a) rep v)"

definition indep_r :: "indep_args \<Rightarrow> crush_bucket \<Rightarrow> nat \<Rightarrow> u32 \<Rightarrow> u32 res" where
  "indep_r a b rep ftotal =
    (let r = word_of_nat rep + ia_parent_r a; numrep = word_of_nat (ia_numrep a) :: u32 in
     if b_alg b = CRUSH_BUCKET_UNIFORM then
       if numrep = 0 then Inl (Fault DivZero)
       else if b_size b mod numrep = 0 then Inr (r + (numrep + 1) * ftotal)
       else Inr (r + numrep * ftotal)
     else Inr (r + numrep * ftotal))"

definition indep_leaf_args :: "indep_args \<Rightarrow> int \<Rightarrow> nat \<Rightarrow> u32 \<Rightarrow> indep_args" where
  "indep_leaf_args a item out2 r =
    \<lparr>ia_bucket = -1 - item, ia_numrep = ia_numrep a, ia_type = 0, ia_out = out2,
     ia_tries = ia_recurse_tries a, ia_recurse_tries = 0, ia_recurse_to_leaf = False,
     ia_out2 = None, ia_parent_r = r\<rparr>"

text \<open>\<open>if (recurse_to_leaf)\<close>: \<open>False\<close> when no leaf was placed.\<close>

definition indep_leaf ::
  "indep_rec \<Rightarrow> indep_args \<Rightarrow> nat \<Rightarrow> crush_map \<Rightarrow> int list \<Rightarrow> int \<Rightarrow> u32 \<Rightarrow>
   (bool \<times> crush_map \<times> int list) res" where
  "indep_leaf rec a rep m mem item r =
    (if ia_recurse_to_leaf a then
       bindE (deref (ia_out2 a)) (\<lambda>out2.
       if item < 0 then
         bindE (rec (indep_leaf_args a item out2 r) 1 rep m mem) (\<lambda>(m, mem).
         bindE (rd mem (out2 + rep)) (\<lambda>v.
         Inr (v \<noteq> CRUSH_ITEM_NONE, m, mem)))
       else
         bindE (wr mem (out2 + rep) item) (\<lambda>mem. Inr (True, m, mem)))
     else Inr (True, m, mem))"

text \<open>
  The descent loop \<open>for (;;)\<close> of one position; the result is the number to subtract from
  \<open>left\<close> (1 when the position was settled).
\<close>

fun indep_descend ::
  "indep_rec \<Rightarrow> crush_input \<Rightarrow> indep_args \<Rightarrow> nat \<Rightarrow> nat \<Rightarrow> nat \<Rightarrow> u32 \<Rightarrow> nat \<Rightarrow> crush_map \<Rightarrow>
   int list \<Rightarrow> int \<Rightarrow> (int \<times> crush_map \<times> int list) res" where
  "indep_descend rec ci a outpos endpos rep ftotal 0 m mem inb = Inl NoFuel"
| "indep_descend rec ci a outpos endpos rep ftotal (Suc n) m mem inb =
    bindE (bucket_at m inb) (\<lambda>b.
    bindE (indep_r a b rep ftotal) (\<lambda>r.
    if b_size b = 0 then Inr (0, m, mem)
    else
      bindE (crush_bucket_choose b (input_x ci) r) (\<lambda>(item, b').
      let m = set_bucket m inb b' in
      if max_devices m \<le> item then
        bindE (indep_set a rep CRUSH_ITEM_NONE mem) (\<lambda>mem. Inr (1, m, mem))
      else
        bindE (item_type m item) (\<lambda>itemtype.
        if itemtype \<noteq> ia_type a then
          if 0 \<le> item \<or> max_buckets m \<le> -1 - item then
            bindE (indep_set a rep CRUSH_ITEM_NONE mem) (\<lambda>mem. Inr (1, m, mem))
          else indep_descend rec ci a outpos endpos rep ftotal n m mem (-1 - item)
        else
          bindE (collides mem item [ia_out a + outpos..<ia_out a + endpos]) (\<lambda>collide.
          if collide then Inr (0, m, mem)
          else
            bindE (indep_leaf rec a rep m mem item r) (\<lambda>(leaf, m, mem).
            if \<not> leaf then Inr (0, m, mem)
            else
              bindE (if itemtype = 0
                     then is_out (weight ci) (weight_max ci) item (input_x ci)
                     else Inr False) (\<lambda>out.
              if out then Inr (0, m, mem)
              else bindE (wr mem (ia_out a + rep) item) (\<lambda>mem. Inr (1, m, mem)))))))))"

text \<open>One position of one pass: skipped when it is already settled.\<close>

definition indep_position ::
  "indep_rec \<Rightarrow> crush_input \<Rightarrow> nat \<Rightarrow> indep_args \<Rightarrow> nat \<Rightarrow> nat \<Rightarrow> u32 \<Rightarrow> nat \<Rightarrow>
   int \<times> crush_map \<times> int list \<Rightarrow> (int \<times> crush_map \<times> int list) res" where
  "indep_position rec ci fuel a outpos endpos ftotal rep s =
    (case s of (lft, m, mem) \<Rightarrow>
      bindE (rd mem (ia_out a + rep)) (\<lambda>v.
      if v \<noteq> CRUSH_ITEM_UNDEF then Inr (lft, m, mem)
      else
        bindE (indep_descend rec ci a outpos endpos rep ftotal fuel m mem (ia_bucket a))
          (\<lambda>(placed, m, mem). Inr (lft - placed, m, mem))))"

text \<open>The passes \<open>for (ftotal = 0; left > 0 && ftotal < tries; ftotal++)\<close>; \<open>n = tries - ftotal\<close>.\<close>

fun indep_passes ::
  "indep_rec \<Rightarrow> crush_input \<Rightarrow> nat \<Rightarrow> indep_args \<Rightarrow> nat \<Rightarrow> nat \<Rightarrow> nat \<Rightarrow> u32 \<Rightarrow>
   int \<times> crush_map \<times> int list \<Rightarrow> (int \<times> crush_map \<times> int list) res" where
  "indep_passes rec ci fuel a outpos endpos 0 ftotal s = Inr s"
| "indep_passes rec ci fuel a outpos endpos (Suc n) ftotal s =
    (if 0 < fst s then
       bindE (foldE (indep_position rec ci fuel a outpos endpos ftotal) [outpos..<endpos] s)
         (indep_passes rec ci fuel a outpos endpos n (ftotal + 1))
     else Inr s)"

text \<open>The final loop replaces what is still undefined by \<open>CRUSH_ITEM_NONE\<close>.\<close>

definition indep_undef_to_none :: "int list \<Rightarrow> nat \<Rightarrow> int list res" where
  "indep_undef_to_none mem i =
    bindE (rd mem i) (\<lambda>v. if v = CRUSH_ITEM_UNDEF then wr mem i CRUSH_ITEM_NONE else Inr mem)"

definition indep_final :: "indep_args \<Rightarrow> nat \<Rightarrow> int list \<Rightarrow> int list res" where
  "indep_final a rep mem =
    bindE (indep_undef_to_none mem (ia_out a + rep)) (\<lambda>mem.
    case ia_out2 a of None \<Rightarrow> Inr mem | Some out2 \<Rightarrow> indep_undef_to_none mem (out2 + rep))"

fun crush_choose_indep :: "nat \<Rightarrow> nat \<Rightarrow> crush_input \<Rightarrow> indep_rec" where
  "crush_choose_indep 0 fuel ci a lft outpos m mem = Inl NoFuel"
| "crush_choose_indep (Suc d) fuel ci a lft outpos m mem =
    (let endpos = nat (int outpos + lft) in
     bindE (foldE (\<lambda>rep. indep_set a rep CRUSH_ITEM_UNDEF) [outpos..<endpos] mem) (\<lambda>mem.
     bindE (indep_passes (crush_choose_indep d fuel ci) ci fuel a outpos endpos
              (unat (ia_tries a)) 0 (lft, m, mem)) (\<lambda>(lft, m, mem).
     bindE (foldE (indep_final a) [outpos..<endpos] mem) (\<lambda>mem.
     Inr (m, mem)))))"

section \<open>The map up to its caches\<close>

definition strip_map :: "crush_map \<Rightarrow> crush_map" where
  "strip_map m = m\<lparr>buckets := map (map_option strip_bucket) (buckets m)\<rparr>"

definition map_good :: "crush_map \<Rightarrow> bool" where
  "map_good m \<longleftrightarrow> list_all (\<lambda>ob. case ob of None \<Rightarrow> True | Some b \<Rightarrow> cache_good b) (buckets m)"

text \<open>\<open>agree m0 m\<close>: \<open>m\<close> is \<open>m0\<close> with other, good caches.\<close>

definition agree :: "crush_map \<Rightarrow> crush_map \<Rightarrow> bool" where
  "agree m0 m \<longleftrightarrow> strip_map m = strip_map m0 \<and> map_good m"

lemma agree_fields:
  assumes "agree m0 m"
  shows "max_devices m = max_devices m0" "max_buckets m = max_buckets m0"
    "length (buckets m) = length (buckets m0)"
  using assms by (cases m; cases m0; auto simp: agree_def strip_map_def dest: map_eq_imp_length_eq)+

lemma agree_nth:
  assumes "agree m0 m" and "i < length (buckets m0)"
  shows "map_option strip_bucket (buckets m ! i) = map_option strip_bucket (buckets m0 ! i)"
proof -
  from assms(1) have "map (map_option strip_bucket) (buckets m) = map (map_option strip_bucket) (buckets m0)"
    by (cases m; cases m0; simp add: agree_def strip_map_def)
  then show ?thesis using assms(2) agree_fields(3)[OF assms(1)] by (metis nth_map)
qed

lemma agree_bucket:
  assumes "agree m0 m" and "bucket_at m0 i = Inr b0"
  obtains b where "bucket_at m i = Inr b" "strip_bucket b = strip_bucket b0" "cache_good b"
proof -
  from assms(2) have i: "0 \<le> i" "nat i < length (buckets m0)" "buckets m0 ! nat i = Some b0"
    by (auto simp: bucket_at_Inr_iff)
  from agree_nth[OF assms(1) i(2)] i(3) obtain b where
    b: "buckets m ! nat i = Some b" "strip_bucket b = strip_bucket b0" by auto
  moreover have "cache_good b" using assms(1) b(1) i(2) agree_fields(3)[OF assms(1)]
    by (auto simp: agree_def map_good_def list_all_length dest!: spec[of _ "nat i"])
  ultimately show ?thesis using that i agree_fields(3)[OF assms(1)]
    by (auto simp: bucket_at_Inr_iff)
qed

lemma agree_sym_bucket:
  assumes "agree m0 m" and "bucket_at m i = Inr b"
  shows "cache_good b \<and> (\<exists>b0. bucket_at m0 i = Inr b0 \<and> strip_bucket b = strip_bucket b0)"
proof -
  from assms(2) have i: "0 \<le> i" "nat i < length (buckets m)" "buckets m ! nat i = Some b"
    by (auto simp: bucket_at_Inr_iff)
  with agree_nth[OF assms(1), of "nat i"] agree_fields(3)[OF assms(1)]
  obtain b0 where "buckets m0 ! nat i = Some b0" "strip_bucket b = strip_bucket b0"
    by (cases "buckets m0 ! nat i") auto
  moreover have "cache_good b" using assms(1) i
    by (auto simp: agree_def map_good_def list_all_length dest!: spec[of _ "nat i"])
  ultimately show ?thesis using i agree_fields(3)[OF assms(1)] by (auto simp: bucket_at_Inr_iff)
qed

lemma agree_bucket_Inl:
  assumes "agree m0 m" and "bucket_at m0 i = Inl e"
  shows "bucket_at m i = Inl e"
proof (cases "0 \<le> i \<and> nat i < length (buckets m0)")
  case True
  with assms(2) have "buckets m0 ! nat i = None" "e = Fault NullDeref"
    by (cases "buckets m0 ! nat i"; simp add: bucket_at_def)+
  with agree_nth[OF assms(1), of "nat i"] True have "buckets m ! nat i = None" by simp
  with True \<open>e = _\<close> agree_fields(3)[OF assms(1)] show ?thesis by (simp add: bucket_at_def)
next
  case False
  with assms(2) agree_fields(3)[OF assms(1)] show ?thesis
    by (auto simp: bucket_at_def rdi_def rd_def split: if_splits)
qed

lemma agree_set_bucket:
  assumes "agree m0 m" and "bucket_at m i = Inr b"
    and "strip_bucket b' = strip_bucket b" and "cache_good b'"
  shows "agree m0 (set_bucket m i b')"
proof -
  have i: "0 \<le> i" "nat i < length (buckets m)" "buckets m ! nat i = Some b"
    using assms(2) by (auto simp: bucket_at_Inr_iff)
  have "map (map_option strip_bucket) ((buckets m)[nat i := Some b'])
      = map (map_option strip_bucket) (buckets m)"
    using i assms(3) by (intro nth_equalityI) (auto simp: nth_list_update)
  then have "strip_map (set_bucket m i b') = strip_map m"
    by (simp add: strip_map_def set_bucket_def)
  moreover have "map_good (set_bucket m i b')" using assms(1,4)
    by (auto simp: map_good_def agree_def set_bucket_def list_all_iff
        dest!: set_update_subset_insert[THEN subsetD])
  ultimately show ?thesis using assms(1) by (simp add: agree_def)
qed

lemma agree_item_type:
  assumes "agree m0 m"
  shows "item_type m item = item_type m0 item"
proof (cases "bucket_at m0 (-1 - item)")
  case (Inl e)
  then show ?thesis using agree_bucket_Inl[OF assms Inl] by (simp add: item_type_def)
next
  case (Inr b0)
  from agree_bucket[OF assms Inr] obtain b where "bucket_at m (-1 - item) = Inr b"
    "strip_bucket b = strip_bucket b0" .
  then show ?thesis using Inr strip_bucket_sel(2)[of b b0] by (simp add: item_type_def)
qed

text \<open>Both ways of choosing in \<open>crush_choose_firstn\<close> obey the chooser contract.\<close>

definition firstn_pick :: "firstn_args \<Rightarrow> crush_input \<Rightarrow> u32 \<Rightarrow> crush_bucket \<Rightarrow> u32 \<Rightarrow> int" where
  "firstn_pick a ci flocal b r =
    (if 0 < fa_local_fallback_retries a \<and> drop_bit 1 (b_size b) \<le> flocal \<and>
        fa_local_fallback_retries a < flocal
     then perm_item b (input_x ci) r else bucket_pick b (input_x ci) r)"

lemma firstn_bucket_item_pick:
  assumes "cache_good b" and "b_size b \<noteq> 0"
  shows "\<exists>b'. firstn_bucket_item a ci b r flocal = Inr (firstn_pick a ci flocal b r, b') \<and>
     strip_bucket b' = strip_bucket b \<and> cache_good b' \<and> firstn_pick a ci flocal b r \<in> set (b_items b)"
  using perm.draw_pick[OF assms, of "input_x ci" r] dispatch.draw_pick[OF assms, of "input_x ci" r]
    perm.pick_member[OF assms, of "input_x ci" r] dispatch.pick_member[OF assms, of "input_x ci" r]
  by (auto simp: firstn_bucket_item_def firstn_pick_def)

lemma firstn_pick_static:
  assumes "strip_bucket b' = strip_bucket b"
  shows "firstn_pick a ci flocal b' r = firstn_pick a ci flocal b r"
  using strip_bucket_sel(5)[OF assms] perm.pick_static[OF assms] dispatch.pick_static[OF assms]
  by (simp add: firstn_pick_def)

section \<open>Well-formed hierarchies\<close>

text \<open>
  The map a mapping may run on: the bucket array has \<open>max_buckets\<close> entries, buckets are
  well-formed with good caches and a non-zero type, and bucket items name buckets that exist.
\<close>

definition wf_map :: "crush_map \<Rightarrow> bool" where
  "wf_map m \<longleftrightarrow>
     max_buckets m = int (length (buckets m)) \<and>
     list_all (\<lambda>ob. case ob of None \<Rightarrow> True
       | Some b \<Rightarrow> cache_good b \<and> b_type b \<noteq> 0 \<and>
           list_all (\<lambda>item. item < 0 \<longrightarrow>
             nat (-1 - item) < length (buckets m) \<and> buckets m ! nat (-1 - item) \<noteq> None) (b_items b))
       (buckets m)"

text \<open>The buckets form no cycle: \<open>rank\<close> decreases from a bucket to its items.\<close>

definition hierarchy :: "crush_map \<Rightarrow> (int \<Rightarrow> nat) \<Rightarrow> nat \<Rightarrow> bool" where
  "hierarchy m rank D \<longleftrightarrow>
     list_all (\<lambda>i. case buckets m ! i of None \<Rightarrow> True
       | Some b \<Rightarrow> rank (int i) \<le> D \<and>
           list_all (\<lambda>item. item < 0 \<longrightarrow> rank (-1 - item) < rank (int i)) (b_items b))
       [0..<length (buckets m)]"

lemma wf_map_bucket:
  assumes "wf_map m" and "bucket_at m i = Inr b"
  shows "cache_good b" "b_type b \<noteq> 0"
    "item \<in> set (b_items b) \<Longrightarrow> item < 0 \<Longrightarrow> \<exists>c. bucket_at m (-1 - item) = Inr c"
    "i < max_buckets m"
proof -
  from assms(2) have i: "0 \<le> i" "nat i < length (buckets m)" "buckets m ! nat i = Some b"
    by (auto simp: bucket_at_Inr_iff)
  then have "Some b \<in> set (buckets m)" by (metis nth_mem)
  with assms(1) have b: "cache_good b \<and> b_type b \<noteq> 0 \<and>
      list_all (\<lambda>item. item < 0 \<longrightarrow> nat (-1 - item) < length (buckets m) \<and>
        buckets m ! nat (-1 - item) \<noteq> None) (b_items b)"
    by (auto simp: wf_map_def list_all_iff)
  then show "cache_good b" "b_type b \<noteq> 0" by auto
  show "\<exists>c. bucket_at m (-1 - item) = Inr c" if "item \<in> set (b_items b)" "item < 0"
    using b that by (auto simp: list_all_iff bucket_at_Inr_iff)
  show "i < max_buckets m" using i assms(1) by (simp add: wf_map_def)
qed

lemma hierarchy_bucket:
  assumes "hierarchy m rank D" and "bucket_at m i = Inr b"
  shows "rank i \<le> D" "item \<in> set (b_items b) \<Longrightarrow> item < 0 \<Longrightarrow> rank (-1 - item) < rank i"
proof -
  from assms(2) have i: "0 \<le> i" "nat i < length (buckets m)" "buckets m ! nat i = Some b"
    by (auto simp: bucket_at_Inr_iff)
  with assms(1) have "rank i \<le> D \<and>
      list_all (\<lambda>item. item < 0 \<longrightarrow> rank (-1 - item) < rank i) (b_items b)"
    by (auto simp: hierarchy_def list_all_iff dest!: bspec[of _ _ "nat i"])
  then show "rank i \<le> D" "item \<in> set (b_items b) \<Longrightarrow> item < 0 \<Longrightarrow> rank (-1 - item) < rank i"
    by (auto simp: list_all_iff)
qed

lemma wf_map_agree: "wf_map m \<Longrightarrow> agree m m"
  by (auto simp: wf_map_def agree_def map_good_def list_all_iff split: option.splits)

lemma collides_eq:
  "\<forall>i \<in> set is. i < length mem \<Longrightarrow> collides mem item is = Inr (\<exists>i \<in> set is. mem ! i = item)"
  by (induction "is") auto

lemma is_out_returns:
  "0 \<le> item \<Longrightarrow> wmax \<le> int (length w) \<Longrightarrow> \<exists>out. is_out w wmax item x = Inr out"
  by (auto simp: is_out_def)

section \<open>First-n choice is correct\<close>

text \<open>An item that may be placed: a known device or bucket of the right type, not marked out.\<close>

definition good_item :: "crush_map \<Rightarrow> crush_input \<Rightarrow> int \<Rightarrow> int \<Rightarrow> bool" where
  "good_item m ci type item \<longleftrightarrow>
     item < max_devices m \<and> item_type m item = Inr type \<and>
     (type = 0 \<longrightarrow> 0 \<le> item \<and> is_out (weight ci) (weight_max ci) item (input_x ci) = Inr False)"

text \<open>What a call needs: a bucket, room in both output vectors, a valid shift, weights.\<close>

definition firstn_ready :: "crush_map \<Rightarrow> crush_input \<Rightarrow> firstn_args \<Rightarrow> nat \<Rightarrow> bool" where
  "firstn_ready m ci a len \<longleftrightarrow>
     (\<exists>b. bucket_at m (fa_bucket a) = Inr b) \<and> weight_max ci \<le> int (length (weight ci)) \<and>
     fa_out a + fa_numrep a \<le> len \<and> fa_vary_r a \<le> 32 \<and>
     (fa_recurse_to_leaf a \<longrightarrow>
       (\<exists>o2. fa_out2 a = Some o2 \<and> o2 + fa_numrep a \<le> len \<and>
         (fa_out a + fa_numrep a \<le> o2 \<or> o2 + fa_numrep a \<le> fa_out a)))"

text \<open>
  Bounds on the retry counters under which they do not wrap around: \<open>F\<close> bounds the failures
  in one descent.
\<close>

definition firstn_bounded :: "crush_map \<Rightarrow> firstn_args \<Rightarrow> nat \<Rightarrow> bool" where
  "firstn_bounded m a F \<longleftrightarrow>
     unat (fa_local_retries a) \<le> F \<and>
     list_all (\<lambda>ob. case ob of None \<Rightarrow> True
       | Some b \<Rightarrow> unat (b_size b) + unat (fa_local_fallback_retries a) \<le> F) (buckets m) \<and>
     unat (fa_tries a) + F + 1 < 2 ^ 32 \<and> unat (fa_recurse_tries a) + F + 1 < 2 ^ 32"

text \<open>Enough rounds for one replica.\<close>

definition firstn_fuel :: "firstn_args \<Rightarrow> nat \<Rightarrow> nat \<Rightarrow> nat" where
  "firstn_fuel a F D = (max (unat (fa_tries a)) (unat (fa_recurse_tries a)) + F + 2) * (D + 1)"

text \<open>Memory cells a replica search may use besides the slot of its item.\<close>

definition leaf_slot :: "firstn_args \<Rightarrow> nat \<Rightarrow> nat \<Rightarrow> bool" where
  "leaf_slot a outpos i \<longleftrightarrow>
     fa_recurse_to_leaf a \<and> (\<exists>o2. fa_out2 a = Some o2 \<and> i = o2 + outpos)"

definition leaf_placed :: "crush_map \<Rightarrow> crush_input \<Rightarrow> firstn_args \<Rightarrow> nat \<Rightarrow> int list \<Rightarrow> int \<Rightarrow> bool" where
  "leaf_placed m ci a outpos mem item \<longleftrightarrow>
     (fa_recurse_to_leaf a \<longrightarrow>
       (\<exists>o2. fa_out2 a = Some o2 \<and> good_item m ci 0 (mem ! (o2 + outpos)) \<and>
         (if fa_type a = 0 then mem ! (o2 + outpos) = item
          else \<forall>j<outpos. mem ! (o2 + j) \<noteq> mem ! (o2 + outpos))))"

definition try_post ::
  "crush_map \<Rightarrow> crush_input \<Rightarrow> firstn_args \<Rightarrow> nat \<Rightarrow> int list \<Rightarrow> crush_map \<Rightarrow> int list \<Rightarrow> int option \<Rightarrow> bool" where
  "try_post m0 ci a outpos mem m' mem' oi \<longleftrightarrow>
     agree m0 m' \<and> length mem' = length mem \<and>
     (\<forall>i. \<not> leaf_slot a outpos i \<longrightarrow> mem' ! i = mem ! i) \<and>
     (\<forall>item. oi = Some item \<longrightarrow>
        good_item m0 ci (fa_type a) item \<and> (\<forall>j<outpos. mem' ! (fa_out a + j) \<noteq> item) \<and>
        leaf_placed m0 ci a outpos mem' item)"

definition firstn_post ::
  "crush_map \<Rightarrow> crush_input \<Rightarrow> firstn_args \<Rightarrow> nat \<Rightarrow> int list \<Rightarrow> nat \<times> crush_map \<times> int list \<Rightarrow> bool" where
  "firstn_post m0 ci a outpos mem s \<longleftrightarrow>
     (case s of (n, m', mem') \<Rightarrow>
       agree m0 m' \<and> length mem' = length mem \<and> outpos \<le> n \<and>
       n \<le> max outpos (fa_numrep a) \<and>
       (\<forall>i. \<not> (fa_out a + outpos \<le> i \<and> i < fa_out a + n) \<longrightarrow>
            (\<forall>k. outpos \<le> k \<and> k < fa_numrep a \<longrightarrow> \<not> leaf_slot a k i) \<longrightarrow> mem' ! i = mem ! i) \<and>
       (\<forall>i. outpos \<le> i \<longrightarrow> i < n \<longrightarrow>
          good_item m0 ci (fa_type a) (mem' ! (fa_out a + i)) \<and>
          (\<forall>j<i. mem' ! (fa_out a + j) \<noteq> mem' ! (fa_out a + i)) \<and>
          leaf_placed m0 ci a i mem' (mem' ! (fa_out a + i))))"

text \<open>The leaf search of one round: what holds when it did not reject.\<close>

definition leaf_found :: "crush_map \<Rightarrow> crush_input \<Rightarrow> firstn_args \<Rightarrow> nat \<Rightarrow> int list \<Rightarrow> int \<Rightarrow> bool" where
  "leaf_found m ci a outpos mem item \<longleftrightarrow>
     (fa_recurse_to_leaf a \<longrightarrow>
       (\<exists>o2. fa_out2 a = Some o2 \<and>
         (if 0 \<le> item then mem ! (o2 + outpos) = item
          else good_item m ci 0 (mem ! (o2 + outpos)) \<and>
               (\<forall>j<outpos. mem ! (o2 + j) \<noteq> mem ! (o2 + outpos)))))"

definition leaf_rec_ok :: "crush_map \<Rightarrow> crush_input \<Rightarrow> firstn_args \<Rightarrow> nat \<Rightarrow> nat \<Rightarrow> firstn_rec \<Rightarrow> bool" where
  "leaf_rec_ok m0 ci a outpos len rec \<longleftrightarrow>
     (\<forall>item sub_r o2 m mem c. fa_recurse_to_leaf a \<longrightarrow> fa_out2 a = Some o2 \<longrightarrow> agree m0 m \<longrightarrow>
        length mem = len \<longrightarrow> bucket_at m0 (-1 - item) = Inr c \<longrightarrow>
        returns (firstn_post m0 ci (leaf_args a item o2 outpos sub_r) outpos mem)
          (rec (leaf_args a item o2 outpos sub_r) outpos m mem))"

lemma firstn_sub_r_returns: "vary_r \<le> 32 \<Longrightarrow> \<exists>s. firstn_sub_r vary_r r = Inr s"
  by (auto simp: firstn_sub_r_def word_less_nat_alt word_le_nat_alt unat_minus_one)

lemma firstn_leaf_returns:
  assumes ready: "firstn_ready m0 ci a (length mem)" and ag: "agree m0 m"
    and rec: "leaf_rec_ok m0 ci a outpos (length mem) rec"
    and item: "item < 0 \<Longrightarrow> \<exists>c. bucket_at m0 (-1 - item) = Inr c"
    and pos: "outpos < fa_numrep a"
  shows "returns (\<lambda>(reject, m', mem').
      agree m0 m' \<and> length mem' = length mem \<and>
      (\<forall>i. \<not> leaf_slot a outpos i \<longrightarrow> mem' ! i = mem ! i) \<and>
      (\<not> reject \<longrightarrow> \<not> collide \<longrightarrow> leaf_found m0 ci a outpos mem' item))
    (firstn_leaf rec a m mem item collide outpos r)"
proof (cases "\<not> collide \<and> fa_recurse_to_leaf a")
  case False
  then show ?thesis using ag by (auto simp: firstn_leaf_def leaf_found_def)
next
  case True
  with ready obtain o2 where o2: "fa_out2 a = Some o2" "o2 + fa_numrep a \<le> length mem"
    by (auto simp: firstn_ready_def)
  show ?thesis
  proof (cases "item < 0")
    case False
    with True o2 pos ag show ?thesis
      by (auto simp: firstn_leaf_def leaf_found_def leaf_slot_def)
  next
    case neg: True
    from ready have "fa_vary_r a \<le> 32" by (simp add: firstn_ready_def)
    then obtain s where s: "firstn_sub_r (fa_vary_r a) r = Inr s" using firstn_sub_r_returns by blast
    let ?la = "leaf_args a item o2 outpos s"
    from item[OF neg] rec True o2 ag
    have "returns (firstn_post m0 ci ?la outpos mem) (rec ?la outpos m mem)"
      by (auto simp: leaf_rec_ok_def)
    then obtain n m' mem' where eq: "rec ?la outpos m mem = Inr (n, m', mem')"
      and post: "firstn_post m0 ci ?la outpos mem (n, m', mem')" by (auto simp: returns_iff)
    have la: "fa_out ?la = o2" "fa_type ?la = 0" "\<not> fa_recurse_to_leaf ?la"
      by (simp_all add: leaf_args_def)
    have frame: "mem' ! i = mem ! i" if "i \<noteq> o2 + outpos" for i
    proof -
      have "n \<le> outpos + 1" using post by (auto simp: firstn_post_def leaf_args_def)
      with that have "\<not> (fa_out ?la + outpos \<le> i \<and> i < fa_out ?la + n)" by (auto simp: la)
      with post show ?thesis by (auto simp: firstn_post_def leaf_slot_def la)
    qed
    have "leaf_found m0 ci a outpos mem' item" if "\<not> n \<le> outpos"
      using post that neg o2 by (auto simp: firstn_post_def leaf_found_def la)
    moreover have "agree m0 m'" "length mem' = length mem" using post by (auto simp: firstn_post_def)
    ultimately show ?thesis using True neg o2 s eq frame
      by (auto simp: firstn_leaf_def leaf_slot_def)
  qed
qed

text \<open>What one round leaves behind, by its outcome.\<close>

definition step_post ::
  "crush_map \<Rightarrow> (int \<Rightarrow> nat) \<Rightarrow> crush_input \<Rightarrow> firstn_args \<Rightarrow> nat \<Rightarrow> int list \<Rightarrow> int \<Rightarrow> u32 \<Rightarrow> u32 \<Rightarrow>
   crush_map \<times> int list \<times> outcome \<Rightarrow> bool" where
  "step_post m0 rank ci a outpos mem inb ftotal flocal s \<longleftrightarrow>
     (case s of (m', mem', oc) \<Rightarrow>
       (case oc of
          Placed item \<Rightarrow> try_post m0 ci a outpos mem m' mem' (Some item)
        | Descend i \<Rightarrow> try_post m0 ci a outpos mem m' mem' None \<and>
            (\<exists>b. bucket_at m0 i = Inr b) \<and> rank i < rank inb
        | _ \<Rightarrow> try_post m0 ci a outpos mem m' mem' None \<and>
            (oc \<noteq> SkipRep \<longrightarrow>
              (\<exists>b collide. bucket_at m0 inb = Inr b \<and>
                 oc = firstn_retry a (b_size b) collide ftotal flocal))))"

lemma step_post_retry:
  assumes "try_post m0 ci a outpos mem m' mem' None" and "bucket_at m0 inb = Inr b0"
  shows "step_post m0 rank ci a outpos mem inb ftotal flocal
     (m', mem', firstn_retry a (b_size b0) collide ftotal flocal)"
proof -
  let ?oc = "firstn_retry a (b_size b0) collide ftotal flocal"
  have oc: "?oc = RetryBucket \<or> ?oc = RetryDescent \<or> ?oc = SkipRep"
    by (auto simp: firstn_retry_def Let_def)
  have "\<exists>b c. bucket_at m0 inb = Inr b \<and> ?oc = firstn_retry a (b_size b) c ftotal flocal"
    using assms(2) by blast
  with oc assms(1) show ?thesis by (elim disjE) (simp_all add: step_post_def)
qed

lemma firstn_finish_returns:
  assumes ready: "firstn_ready m0 ci a (length mem)" and ag: "agree m0 m"
    and rec: "leaf_rec_ok m0 ci a outpos (length mem) rec"
    and item: "item < 0 \<Longrightarrow> \<exists>c. bucket_at m0 (-1 - item) = Inr c"
    and pos: "outpos < fa_numrep a"
    and dev: "item < max_devices m0" and ty: "item_type m0 item = Inr (fa_type a)"
    and ty0: "fa_type a = 0 \<longleftrightarrow> 0 \<le> item" and b0: "bucket_at m0 inb = Inr b0"
    and coll: "collide = (\<exists>j<outpos. mem ! (fa_out a + j) = item)"
  shows "returns (step_post m0 rank ci a outpos mem inb ftotal flocal)
     (firstn_finish rec ci a outpos m mem item collide r (fa_type a) (b_size b0) ftotal flocal)"
proof -
  from firstn_leaf_returns[OF ready ag rec item pos, of collide r] obtain rej m' mem' where
    leaf: "firstn_leaf rec a m mem item collide outpos r = Inr (rej, m', mem')"
    and ag': "agree m0 m'" and len: "length mem' = length mem"
    and frame: "\<forall>i. \<not> leaf_slot a outpos i \<longrightarrow> mem' ! i = mem ! i"
    and found: "\<not> rej \<longrightarrow> \<not> collide \<longrightarrow> leaf_found m0 ci a outpos mem' item"
    by (auto simp: returns_iff)
  let ?out = "is_out (weight ci) (weight_max ci) item (input_x ci)"
  obtain rej' where rej': "(if \<not> rej \<and> fa_type a = 0 then ?out else Inr rej) = Inr rej'"
    using is_out_returns[of item "weight_max ci" "weight ci" "input_x ci"] ready ty0
    by (cases "\<not> rej \<and> fa_type a = 0") (auto simp: firstn_ready_def)
  have tp: "try_post m0 ci a outpos mem m' mem' None"
    using ag' len frame by (simp add: try_post_def)
  show ?thesis
  proof (cases "rej' \<or> collide")
    case True
    then show ?thesis using leaf rej' step_post_retry[OF tp b0] by (simp add: firstn_finish_def)
  next
    case False
    then have rej: "\<not> rej" using rej' by (auto split: if_splits)
    have good: "good_item m0 ci (fa_type a) item"
      using dev ty ty0 rej' rej False by (auto simp: good_item_def)
    have "\<not> leaf_slot a outpos (fa_out a + j)" if "j < outpos" for j
      using that ready pos by (auto simp: leaf_slot_def firstn_ready_def)
    with frame coll False have "\<forall>j<outpos. mem' ! (fa_out a + j) \<noteq> item" by auto
    moreover have "leaf_placed m0 ci a outpos mem' item"
      using found rej False good ty0 by (auto simp: leaf_found_def leaf_placed_def split: if_splits)
    ultimately show ?thesis using leaf rej' False tp good
      by (auto simp: firstn_finish_def step_post_def try_post_def)
  qed
qed

lemma firstn_step_returns:
  assumes wf: "wf_map m0" and hier: "hierarchy m0 rank D"
    and ready: "firstn_ready m0 ci a (length mem)" and ag: "agree m0 m"
    and b0: "bucket_at m0 inb = Inr b0" and pos: "outpos < fa_numrep a"
    and rec: "leaf_rec_ok m0 ci a outpos (length mem) rec"
  shows "returns (step_post m0 rank ci a outpos mem inb ftotal flocal)
     (firstn_step rec ci a rep outpos m mem inb ftotal flocal)"
proof -
  let ?r = "word_of_nat rep + fa_parent_r a + ftotal"
  obtain b where b: "bucket_at m inb = Inr b" "strip_bucket b = strip_bucket b0" "cache_good b"
    using agree_bucket[OF ag b0] .
  note sel = strip_bucket_sel[OF b(2)]
  have tp: "try_post m0 ci a outpos mem m1 mem None" if "agree m0 m1" for m1
    using that by (simp add: try_post_def)
  show ?thesis
  proof (cases "b_size b = 0")
    case True
    then show ?thesis using b sel(5) step_post_retry[OF tp[OF ag] b0, of rank ftotal flocal False]
      by (simp add: firstn_step_def Let_def)
  next
    case False
    let ?item = "firstn_pick a ci flocal b ?r"
    obtain b' where b': "firstn_bucket_item a ci b ?r flocal = Inr (?item, b')"
      "strip_bucket b' = strip_bucket b" "cache_good b'" and mem0: "?item \<in> set (b_items b0)"
      using firstn_bucket_item_pick[OF b(3) False, of a ci ?r flocal] sel(6) by auto
    let ?m = "set_bucket m inb b'"
    have ag': "agree m0 ?m" by (rule agree_set_bucket[OF ag b(1) b'(2,3)])
    note md = agree_fields[OF ag']
    have skip: "step_post m0 rank ci a outpos mem inb ftotal flocal (?m, mem, SkipRep)"
      using tp[OF ag'] by (simp add: step_post_def)
    have child: "\<exists>c. bucket_at m0 (-1 - ?item) = Inr c" if "?item < 0"
      using wf_map_bucket(3)[OF wf b0 mem0 that] .
    then obtain ty where ty: "item_type m0 ?item = Inr ty"
      by (cases "?item < 0") (auto simp: item_type_def)
    have ty0: "ty = 0 \<longleftrightarrow> 0 \<le> ?item"
      using ty wf_map_bucket(2)[OF wf] by (auto simp: item_type_def uint_0_iff split: if_splits)
    let ?collide = "\<exists>j<outpos. mem ! (fa_out a + j) = ?item"
    have "fa_out a + outpos \<le> length mem" using ready pos by (simp add: firstn_ready_def)
    then have "collides mem ?item [fa_out a..<fa_out a + outpos]
        = Inr (\<exists>i \<in> set [fa_out a..<fa_out a + outpos]. mem ! i = ?item)"
      by (intro collides_eq) auto
    also have "(\<exists>i \<in> set [fa_out a..<fa_out a + outpos]. mem ! i = ?item) = ?collide"
      by (auto intro!: bexI[of _ "fa_out a + _"]) (metis add_less_cancel_left le_add_diff_inverse)
    finally have coll: "collides mem ?item [fa_out a..<fa_out a + outpos] = Inr ?collide" .
    have eq: "firstn_step rec ci a rep outpos m mem inb ftotal flocal =
        (if max_devices m0 \<le> ?item then Inr (?m, mem, SkipRep)
         else if ty \<noteq> fa_type a then
           if 0 \<le> ?item \<or> max_buckets m0 \<le> -1 - ?item then Inr (?m, mem, SkipRep)
           else Inr (?m, mem, Descend (-1 - ?item))
         else firstn_finish rec ci a outpos ?m mem ?item ?collide ?r ty (b_size b0) ftotal flocal)"
      using b(1) b'(1) False md ty coll sel(5) agree_item_type[OF ag']
      by (simp add: firstn_step_def Let_def)
    show ?thesis
    proof (cases "max_devices m0 \<le> ?item \<or> ty \<noteq> fa_type a")
      case True
      have "step_post m0 rank ci a outpos mem inb ftotal flocal (?m, mem, Descend (-1 - ?item))"
        if "?item < 0"
        using child[OF that] hierarchy_bucket(2)[OF hier b0 mem0 that] tp[OF ag']
        by (simp add: step_post_def)
      with True skip show ?thesis unfolding eq by auto
    next
      case False
      have "returns (step_post m0 rank ci a outpos mem inb ftotal flocal)
          (firstn_finish rec ci a outpos ?m mem ?item ?collide ?r (fa_type a) (b_size b0) ftotal flocal)"
        by (rule firstn_finish_returns[OF ready ag' rec child pos _ _ _ b0]) (use False ty ty0 in auto)
      with False show ?thesis unfolding eq by auto
    qed
  qed
qed

text \<open>The retry loops end: every failure raises \<open>ftotal\<close>, every descent lowers the rank.\<close>

definition try_measure :: "firstn_args \<Rightarrow> nat \<Rightarrow> nat \<Rightarrow> u32 \<Rightarrow> nat \<Rightarrow> nat" where
  "try_measure a F D ftotal rk = (unat (fa_tries a) + F + 1 - unat ftotal) * (D + 1) + rk"

lemma firstn_retry_cases:
  assumes "firstn_bounded m0 a F" and "bucket_at m0 inb = Inr b"
    and fl: "unat flocal \<le> F" and ft: "unat ftotal \<le> unat (fa_tries a) + unat flocal"
    and oc: "oc = firstn_retry a (b_size b) collide ftotal flocal"
  shows "unat (ftotal + 1) = unat ftotal + 1"
    "oc = RetryBucket \<Longrightarrow> unat (flocal + 1) \<le> F \<and> unat (flocal + 1) = unat flocal + 1"
    "oc = RetryDescent \<Longrightarrow> unat (ftotal + 1) < unat (fa_tries a)"
proof -
  have "Some b \<in> set (buckets m0)" using assms(2) by (auto simp: bucket_at_Inr_iff in_set_conv_nth)
  with assms(1) have bnd: "unat (b_size b) + unat (fa_local_fallback_retries a) \<le> F"
    "unat (fa_local_retries a) \<le> F" "unat (fa_tries a) + F + 1 < 2 ^ 32"
    by (auto simp: firstn_bounded_def list_all_iff)
  have suc: "unat (w + 1) = unat w + 1" if "unat w + 1 < 2 ^ 32" for w :: u32
    using that by (simp add: unat_word_ariths)
  from ft fl bnd(3) have "unat ftotal + 1 < 2 ^ 32" by linarith
  then show f1: "unat (ftotal + 1) = unat ftotal + 1" by (rule suc)
  from fl bnd(3) have "unat flocal + 1 < 2 ^ 32" by linarith
  then have l1: "unat (flocal + 1) = unat flocal + 1" by (rule suc)
  have sum: "unat (b_size b + fa_local_fallback_retries a)
      = unat (b_size b) + unat (fa_local_fallback_retries a)"
    using bnd by (simp add: unat_word_ariths)
  show "unat (flocal + 1) \<le> F \<and> unat (flocal + 1) = unat flocal + 1" if "oc = RetryBucket"
    using that oc l1 sum bnd by (auto simp: firstn_retry_def Let_def word_le_nat_alt split: if_splits)
  show "unat (ftotal + 1) < unat (fa_tries a)" if "oc = RetryDescent"
    using that oc by (auto simp: firstn_retry_def Let_def word_less_nat_alt split: if_splits)
qed

lemma try_post_trans:
  assumes "try_post m0 ci a outpos mem m1 mem1 None" and "try_post m0 ci a outpos mem1 m2 mem2 oi"
  shows "try_post m0 ci a outpos mem m2 mem2 oi"
  using assms by (simp add: try_post_def)

lemma firstn_try_returns:
  assumes wf: "wf_map m0" and hier: "hierarchy m0 rank D" and pos: "outpos < fa_numrep a"
    and bnd: "firstn_bounded m0 a F" and start: "bucket_at m0 (fa_bucket a) = Inr bs"
  shows "firstn_ready m0 ci a (length mem) \<Longrightarrow> leaf_rec_ok m0 ci a outpos (length mem) rec \<Longrightarrow>
     agree m0 m \<Longrightarrow> bucket_at m0 inb = Inr b0 \<Longrightarrow> unat flocal \<le> F \<Longrightarrow>
     unat ftotal \<le> unat (fa_tries a) + unat flocal \<Longrightarrow>
     try_measure a F D ftotal (rank inb) < fuel \<Longrightarrow>
     returns (\<lambda>(oi, m', mem'). try_post m0 ci a outpos mem m' mem' oi)
       (firstn_try rec ci a rep outpos fuel m mem inb ftotal flocal)"
proof (induction fuel arbitrary: m mem inb b0 ftotal flocal)
  case 0
  then show ?case by simp
next
  case (Suc n)
  from firstn_step_returns[OF wf hier Suc.prems(1,3,4) pos Suc.prems(2), of ftotal flocal rep]
  obtain m1 mem1 oc where st: "firstn_step rec ci a rep outpos m mem inb ftotal flocal = Inr (m1, mem1, oc)"
    and post: "step_post m0 rank ci a outpos mem inb ftotal flocal (m1, mem1, oc)"
    by (auto simp: returns_iff)
  have rk: "rank inb \<le> D" "rank (fa_bucket a) \<le> D"
    using hierarchy_bucket(1)[OF hier] Suc.prems(4) start by auto
  have next_try: "returns (\<lambda>(oi, m', mem'). try_post m0 ci a outpos mem m' mem' oi)
      (firstn_try rec ci a rep outpos n m1 mem1 i ft fl)"
    if "try_post m0 ci a outpos mem m1 mem1 None" "bucket_at m0 i = Inr c" "unat fl \<le> F"
      "unat ft \<le> unat (fa_tries a) + unat fl" "try_measure a F D ft (rank i) < n" for i c ft fl
  proof -
    have len: "length mem1 = length mem" "agree m0 m1" using that(1) by (auto simp: try_post_def)
    show ?thesis
      by (rule returns_mono[OF Suc.IH[OF _ _ len(2) that(2-5)]])
        (use Suc.prems(1,2) len that(1) in \<open>auto dest: try_post_trans\<close>)
  qed
  have meas: "try_measure a F D (ftotal + 1) rk' < n"
    if "unat (ftotal + 1) = unat ftotal + 1" "rk' \<le> D" for rk'
  proof -
    let ?T = "unat (fa_tries a) + F + 1"
    have "unat ftotal < ?T" using Suc.prems(5,6) by simp
    then have "?T - unat ftotal = Suc (?T - (unat ftotal + 1))" by simp
    then have "try_measure a F D (ftotal + 1) rk' + 1 \<le> try_measure a F D ftotal (rank inb)"
      using that by (simp add: try_measure_def)
    with Suc.prems(7) show ?thesis by simp
  qed
  show ?case
  proof (cases oc)
    case (Placed item)
    with st post show ?thesis by (simp add: step_post_def)
  next
    case SkipRep
    with st post show ?thesis by (simp add: step_post_def)
  next
    case (Descend i)
    with post Suc.prems(7) obtain c where "try_post m0 ci a outpos mem m1 mem1 None"
      "bucket_at m0 i = Inr c" "try_measure a F D ftotal (rank i) < n"
      by (auto simp: step_post_def try_measure_def)
    from next_try[OF this(1,2) Suc.prems(5,6) this(3)] Descend st show ?thesis by simp
  next
    case RetryBucket
    with post obtain b collide where tp: "try_post m0 ci a outpos mem m1 mem1 None"
      and b: "bucket_at m0 inb = Inr b" and oc: "oc = firstn_retry a (b_size b) collide ftotal flocal"
      by (auto simp: step_post_def)
    note rc = firstn_retry_cases[OF bnd b Suc.prems(5,6) oc]
    from rc(2)[OF RetryBucket] rc(1) Suc.prems(6)
      next_try[OF tp b, of "flocal + 1" "ftotal + 1"] meas[OF rc(1) rk(1)] RetryBucket st
    show ?thesis by simp
  next
    case RetryDescent
    with post obtain b collide where tp: "try_post m0 ci a outpos mem m1 mem1 None"
      and b: "bucket_at m0 inb = Inr b" and oc: "oc = firstn_retry a (b_size b) collide ftotal flocal"
      by (auto simp: step_post_def)
    note rc = firstn_retry_cases[OF bnd b Suc.prems(5,6) oc]
    from rc(3)[OF RetryDescent] next_try[OF tp start, of 0 "ftotal + 1"]
      meas[OF rc(1) rk(2)] RetryDescent st
    show ?thesis by simp
  qed
qed

lemma firstn_post_skip:
  assumes "firstn_post m0 ci a outpos mem (n, m1, mem1)" and "try_post m0 ci a n mem1 m2 mem2 None"
    and ready: "firstn_ready m0 ci a (length mem)" and n: "n < fa_numrep a"
  shows "firstn_post m0 ci a outpos mem (n, m2, mem2)"
proof -
  have frame: "mem2 ! i = mem1 ! i" if "\<not> leaf_slot a n i" for i
    using assms(2) that by (simp add: try_post_def)
  have "\<not> leaf_slot a n (fa_out a + j)" if "j < fa_numrep a" for j
    using that ready n by (auto simp: leaf_slot_def firstn_ready_def)
  then have out: "mem2 ! (fa_out a + j) = mem1 ! (fa_out a + j)" if "j < fa_numrep a" for j
    using that frame by blast
  have lp: "leaf_placed m0 ci a i mem2 v" if "leaf_placed m0 ci a i mem1 v" "i < n" for i v
    using that frame by (auto simp: leaf_placed_def leaf_slot_def split: if_splits)
  show ?thesis
    using assms(1,2) n out lp frame by (auto simp: firstn_post_def try_post_def)
qed

lemma firstn_post_place:
  assumes "firstn_post m0 ci a outpos mem (n, m1, mem1)"
    and tp: "try_post m0 ci a n mem1 m2 mem2 (Some item)"
    and ready: "firstn_ready m0 ci a (length mem)" and n: "n < fa_numrep a"
  shows "firstn_post m0 ci a outpos mem (Suc n, m2, mem2[fa_out a + n := item])"
proof -
  let ?o = "fa_out a" and ?mem = "mem2[fa_out a + n := item]"
  have "try_post m0 ci a n mem1 m2 mem2 None" using tp by (simp add: try_post_def)
  from firstn_post_skip[OF assms(1) this ready n] have post: "firstn_post m0 ci a outpos mem (n, m2, mem2)" .
  from tp have item: "good_item m0 ci (fa_type a) item" "\<forall>j<n. mem2 ! (?o + j) \<noteq> item"
    "leaf_placed m0 ci a n mem2 item" by (auto simp: try_post_def)
  have len: "length mem2 = length mem" using post by (simp add: firstn_post_def)
  have room: "?o + n < length mem2" using ready n len by (simp add: firstn_ready_def)
  have lp: "leaf_placed m0 ci a i ?mem v" if "leaf_placed m0 ci a i mem2 v" "i \<le> n" for i v
  proof (cases "fa_recurse_to_leaf a")
    case True
    with ready obtain o2 where o2: "fa_out2 a = Some o2"
      "?o + fa_numrep a \<le> o2 \<or> o2 + fa_numrep a \<le> ?o" by (auto simp: firstn_ready_def)
    then have "?o + n \<noteq> o2 + k" if "k \<le> n" for k using that n by auto
    then have eq: "?mem ! (o2 + k) = mem2 ! (o2 + k)" if "k \<le> n" for k
      using that by (metis nth_list_update_neq)
    show ?thesis using that o2(1) eq by (auto simp: leaf_placed_def)
  qed (simp add: leaf_placed_def)
  have old: "?mem ! (?o + j) = mem2 ! (?o + j)" if "j < n" for j using that by simp
  have new: "?mem ! (?o + n) = item" using room by simp
  have good: "good_item m0 ci (fa_type a) (?mem ! (?o + i)) \<and>
      (\<forall>j<i. ?mem ! (?o + j) \<noteq> ?mem ! (?o + i)) \<and> leaf_placed m0 ci a i ?mem (?mem ! (?o + i))"
    if "outpos \<le> i" "i < Suc n" for i
  proof (cases "i = n")
    case True
    with item lp new old show ?thesis by simp
  next
    case False
    with that have i: "i < n" by simp
    with post that lp old show ?thesis by (auto simp: firstn_post_def)
  qed
  show ?thesis using post good n len
    by (auto simp: firstn_post_def)
qed

lemma firstn_reps_returns:
  assumes wf: "wf_map m0" and hier: "hierarchy m0 rank D" and bnd: "firstn_bounded m0 a F"
    and ready: "firstn_ready m0 ci a (length mem)" and ag: "agree m0 m"
    and fuel: "firstn_fuel a F D \<le> fuel"
    and rec: "\<And>n. n < fa_numrep a \<Longrightarrow> leaf_rec_ok m0 ci a n (length mem) rec"
  shows "returns (firstn_post m0 ci a outpos mem)
     (foldE (firstn_rep rec ci fuel a) [outpos..<fa_numrep a] (outpos, m, mem))"
proof (cases "outpos \<le> fa_numrep a")
  case False
  then show ?thesis using ag by (simp add: firstn_post_def)
next
  case True
  obtain bs where bs: "bucket_at m0 (fa_bucket a) = Inr bs" using ready by (auto simp: firstn_ready_def)
  let ?P = "\<lambda>k s. firstn_post m0 ci a outpos mem s \<and> fst s \<le> k"
  have "returns (?P (fa_numrep a)) (foldE (firstn_rep rec ci fuel a) [outpos..<fa_numrep a] (outpos, m, mem))"
  proof (rule returns_foldE_upt)
    fix k s
    assume k: "k < fa_numrep a" and s: "?P k s"
    obtain n m1 mem1 where s1: "s = (n, m1, mem1)" by (cases s)
    with s have post: "firstn_post m0 ci a outpos mem (n, m1, mem1)" and nk: "n \<le> k" by auto
    have len: "length mem1 = length mem" and ag1: "agree m0 m1" using post by (auto simp: firstn_post_def)
    have "rank (fa_bucket a) \<le> D" by (rule hierarchy_bucket(1)[OF hier bs])
    then have "try_measure a F D 0 (rank (fa_bucket a)) < (unat (fa_tries a) + F + 2) * (D + 1)"
      by (simp add: try_measure_def)
    also have "\<dots> \<le> firstn_fuel a F D" unfolding firstn_fuel_def by (intro mult_le_mono1) simp
    finally have meas: "try_measure a F D 0 (rank (fa_bucket a)) < fuel" using fuel by simp
    have n: "n < fa_numrep a" using nk k by simp
    have "returns (\<lambda>(oi, m', mem'). try_post m0 ci a n mem1 m' mem' oi)
        (firstn_try rec ci a k n fuel m1 mem1 (fa_bucket a) 0 0)"
      by (rule firstn_try_returns[OF wf hier n bnd bs _ _ ag1 bs _ _ meas])
        (use ready rec[OF n] len in auto)
    then obtain oi m2 mem2 where tr: "firstn_try rec ci a k n fuel m1 mem1 (fa_bucket a) 0 0 = Inr (oi, m2, mem2)"
      and tp: "try_post m0 ci a n mem1 m2 mem2 oi" by (auto simp: returns_iff)
    show "returns (?P (Suc k)) (firstn_rep rec ci fuel a k s)"
    proof (cases oi)
      case None
      with tr firstn_post_skip[OF post _ ready n] tp nk s1 show ?thesis by (simp add: firstn_rep_def)
    next
      case (Some item)
      have "length mem2 = length mem" using tp len by (simp add: try_post_def)
      then have "fa_out a + n < length mem2" using ready n by (simp add: firstn_ready_def)
      with Some tr firstn_post_place[OF post _ ready n] tp nk s1 show ?thesis
        by (simp add: firstn_rep_def)
    qed
  qed (use True ag in \<open>auto simp: firstn_post_def\<close>)
  then show ?thesis by (rule returns_mono) simp
qed

lemma firstn_fuel_leaf: "firstn_fuel (leaf_args a item o2 outpos s) F D \<le> firstn_fuel a F D"
  unfolding firstn_fuel_def by (intro mult_le_mono1) (simp add: leaf_args_def)

lemma firstn_bounded_leaf: "firstn_bounded m a F \<Longrightarrow> firstn_bounded m (leaf_args a item o2 outpos s) F"
  by (auto simp: firstn_bounded_def leaf_args_def)

text \<open>
  The choice returns, and what it placed is correct. Depth 2 covers the single recursion into
  the leaves.
\<close>

lemma choose_firstn_returns:
  assumes wf: "wf_map m0" and hier: "hierarchy m0 rank D" and bnd: "firstn_bounded m0 a F"
    and ready: "firstn_ready m0 ci a (length mem)" and ag: "agree m0 m"
    and fuel: "firstn_fuel a F D \<le> fuel"
  shows "returns (firstn_post m0 ci a outpos mem)
     (crush_choose_firstn (Suc (Suc d)) fuel ci a outpos m mem)"
  unfolding crush_choose_firstn.simps(2)[of "Suc d"]
proof (rule firstn_reps_returns[OF wf hier bnd ready ag fuel])
  fix n
  assume n: "n < fa_numrep a"
  show "leaf_rec_ok m0 ci a n (length mem) (crush_choose_firstn (Suc d) fuel ci)"
    unfolding leaf_rec_ok_def
  proof (intro allI impI)
    fix item s o2 m' c and mem' :: "int list"
    assume rl: "fa_recurse_to_leaf a" "fa_out2 a = Some o2" and ag': "agree m0 m'"
      and len: "length mem' = length mem" and c: "bucket_at m0 (-1 - item) = Inr c"
    let ?la = "leaf_args a item o2 n s"
    have "firstn_ready m0 ci ?la (length mem')"
      using ready rl len c n by (auto simp: firstn_ready_def leaf_args_def)
    moreover have "leaf_rec_ok m0 ci ?la k (length mem') (crush_choose_firstn d fuel ci)" for k
      by (simp add: leaf_rec_ok_def leaf_args_def)
    ultimately show "returns (firstn_post m0 ci ?la n mem') (crush_choose_firstn (Suc d) fuel ci ?la n m' mem')"
      unfolding crush_choose_firstn.simps
      using firstn_reps_returns[OF wf hier firstn_bounded_leaf[OF bnd] _ ag' order_trans[OF firstn_fuel_leaf fuel]]
      by blast
  qed
qed

end
