(* ===== verification/Crush_Rule.thy ===== *)
theory Crush_Rule
  imports Crush_Choose
begin

text \<open>
  Selecting and running a CRUSH rule: \<open>crush_find_rule\<close> and \<open>crush_do_rule\<close> of
  \<open>net/ceph/crush/mapper.c\<close>. The caller supplies a scratch vector that \<open>crush_do_rule\<close>
  divides into the parts \<open>a\<close>, \<open>b\<close>, \<open>c\<close> of \<open>result_max\<close> integers each; the working vector
  \<open>w\<close> and the output vector \<open>o\<close> are offsets of that memory and are swapped after a choose step.
  The theory shows that a rule whose steps fit the vectors runs without a fault and emits
  only existing items that are not marked out.
\<close>

section \<open>Finding a rule\<close>

definition rule_matches :: "crush_rule \<Rightarrow> int \<Rightarrow> int \<Rightarrow> int \<Rightarrow> bool" where
  "rule_matches r rs type sz \<longleftrightarrow>
     uint (ruleset (r_mask r)) = rs \<and> uint (mask_type (r_mask r)) = type \<and>
     uint (min_size (r_mask r)) \<le> sz \<and> sz \<le> uint (max_size (r_mask r))"

fun find_rule_loop :: "crush_rule option list \<Rightarrow> int \<Rightarrow> int \<Rightarrow> int \<Rightarrow> nat list \<Rightarrow> int res" where
  "find_rule_loop rls rs type sz [] = Inr (-1)"
| "find_rule_loop rls rs type sz (i # is) =
    bindE (rd rls i) (\<lambda>r.
    if (case r of None \<Rightarrow> False | Some r \<Rightarrow> rule_matches r rs type sz)
    then Inr (sint (word_of_nat i :: u32))
    else find_rule_loop rls rs type sz is)"

definition crush_find_rule :: "crush_map \<Rightarrow> int \<Rightarrow> int \<Rightarrow> int \<Rightarrow> int res" where
  "crush_find_rule m rs type sz =
    find_rule_loop (rules m) rs type sz [0..<unat (max_rules m)]"

section \<open>Running a rule\<close>

record rule_state =
  rs_map :: crush_map
  rs_mem :: "int list"
  rs_w :: nat
  rs_wsize :: nat
  rs_o :: nat
  rs_result :: "int list"
  rs_choose_tries :: u32
  rs_choose_leaf_tries :: u32
  rs_choose_local_retries :: u32
  rs_choose_local_fallback_retries :: u32
  rs_vary_r :: u32

definition rule_init :: "crush_map \<Rightarrow> nat \<Rightarrow> int list \<Rightarrow> rule_state" where
  "rule_init m result_max scratch =
    \<lparr>rs_map = m, rs_mem = scratch, rs_w = 0, rs_wsize = 0, rs_o = result_max, rs_result = [],
     rs_choose_tries = choose_total_tries m + 1, rs_choose_leaf_tries = 0,
     rs_choose_local_retries = choose_local_tries m,
     rs_choose_local_fallback_retries = choose_local_fallback_tries m,
     rs_vary_r = ucast (chooseleaf_vary_r m)\<rparr>"

text \<open>\<open>numrep <= 0\<close> means relative to \<open>result_max\<close>.\<close>

definition rule_numrep :: "crush_rule_step \<Rightarrow> nat \<Rightarrow> int" where
  "rule_numrep st result_max = (if arg1 st \<le> 0 then arg1 st + int result_max else arg1 st)"

definition rule_recurse_tries :: "rule_state \<Rightarrow> u32" where
  "rule_recurse_tries s =
    (if rs_choose_leaf_tries s \<noteq> 0 then rs_choose_leaf_tries s
     else if chooseleaf_descend_once (rs_map s) \<noteq> 0 then 1
     else rs_choose_tries s)"

definition rule_firstn_args ::
  "rule_state \<Rightarrow> crush_rule_step \<Rightarrow> bool \<Rightarrow> nat \<Rightarrow> int \<Rightarrow> nat \<Rightarrow> nat \<Rightarrow> firstn_args" where
  "rule_firstn_args s st leaf result_max item numrep osize =
    \<lparr>fa_bucket = -1 - item, fa_numrep = numrep, fa_type = arg2 st, fa_out = rs_o s + osize,
     fa_tries = rs_choose_tries s, fa_recurse_tries = rule_recurse_tries s,
     fa_local_retries = rs_choose_local_retries s,
     fa_local_fallback_retries = rs_choose_local_fallback_retries s,
     fa_recurse_to_leaf = leaf, fa_vary_r = rs_vary_r s,
     fa_out2 = Some (result_max * 2 + osize), fa_parent_r = 0\<rparr>"

definition rule_indep_args ::
  "rule_state \<Rightarrow> crush_rule_step \<Rightarrow> bool \<Rightarrow> nat \<Rightarrow> int \<Rightarrow> nat \<Rightarrow> nat \<Rightarrow> indep_args" where
  "rule_indep_args s st leaf result_max item numrep osize =
    \<lparr>ia_bucket = -1 - item, ia_numrep = numrep, ia_type = arg2 st, ia_out = rs_o s + osize,
     ia_tries = rs_choose_tries s,
     ia_recurse_tries = (if rs_choose_leaf_tries s \<noteq> 0 then rs_choose_leaf_tries s else 1),
     ia_recurse_to_leaf = leaf, ia_out2 = Some (result_max * 2 + osize), ia_parent_r = 0\<rparr>"

text \<open>
  One round of the loop over the working vector; the loop state is \<open>osize\<close>, the map and the
  memory. The element \<open>map->buckets[-1-w[i]]\<close> is read before the call.
\<close>

definition rule_choose_item ::
  "nat \<Rightarrow> crush_input \<Rightarrow> rule_state \<Rightarrow> crush_rule_step \<Rightarrow> bool \<Rightarrow> bool \<Rightarrow> nat \<Rightarrow> nat \<Rightarrow>
   nat \<times> crush_map \<times> int list \<Rightarrow> (nat \<times> crush_map \<times> int list) res" where
  "rule_choose_item fuel ci s st firstn leaf result_max i acc =
    (case acc of (osize, m, mem) \<Rightarrow>
      let numrep = rule_numrep st result_max in
      if numrep \<le> 0 then Inr acc
      else
        bindE (rd mem (rs_w s + i)) (\<lambda>item.
        bindE (rdi (buckets m) (-1 - item)) (\<lambda>_.
        if firstn then
          bindE (crush_choose_firstn 2 fuel ci
                   (rule_firstn_args s st leaf result_max item (nat numrep) osize) 0 m mem)
            (\<lambda>(n, m, mem). Inr (osize + n, m, mem))
        else
          bindE (crush_choose_indep 2 fuel ci
                   (rule_indep_args s st leaf result_max item (nat numrep) osize) numrep 0 m mem)
            (\<lambda>(m, mem). Inr (osize + nat numrep, m, mem)))))"

text \<open>\<open>memcpy(o, c, osize*sizeof( *o))\<close>\<close>

definition memcpy_ints :: "nat \<Rightarrow> nat \<Rightarrow> nat \<Rightarrow> int list \<Rightarrow> int list res" where
  "memcpy_ints dst src n mem = foldE (\<lambda>i mem. bindE (rd mem (src + i)) (wr mem (dst + i))) [0..<n] mem"

text \<open>The four choose steps.\<close>

definition rule_choose ::
  "nat \<Rightarrow> crush_input \<Rightarrow> crush_rule_step \<Rightarrow> nat \<Rightarrow> rule_state \<Rightarrow> rule_state res" where
  "rule_choose fuel ci st result_max s =
    (if rs_wsize s = 0 then Inr s
     else
       let firstn = (op st = CRUSH_RULE_CHOOSELEAF_FIRSTN \<or> op st = CRUSH_RULE_CHOOSE_FIRSTN);
           leaf = (op st = CRUSH_RULE_CHOOSELEAF_FIRSTN \<or> op st = CRUSH_RULE_CHOOSELEAF_INDEP)
       in bindE (foldE (rule_choose_item fuel ci s st firstn leaf result_max) [0..<rs_wsize s]
                   (0, rs_map s, rs_mem s)) (\<lambda>(osize, m, mem).
          bindE (if leaf then memcpy_ints (rs_o s) (result_max * 2) osize mem else Inr mem) (\<lambda>mem.
          Inr (s\<lparr>rs_map := m, rs_mem := mem, rs_w := rs_o s, rs_o := rs_w s, rs_wsize := osize\<rparr>))))"

definition rule_emit_item :: "nat \<Rightarrow> nat \<Rightarrow> rule_state \<Rightarrow> rule_state res" where
  "rule_emit_item result_max i s =
    (if length (rs_result s) < result_max
     then bindE (rd (rs_mem s) (rs_w s + i)) (\<lambda>v. Inr (s\<lparr>rs_result := rs_result s @ [v]\<rparr>))
     else Inr s)"

text \<open>The body of the switch over \<open>curstep->op\<close>.\<close>

definition rule_step :: "nat \<Rightarrow> crush_input \<Rightarrow> nat \<Rightarrow> crush_rule_step \<Rightarrow> rule_state \<Rightarrow> rule_state res" where
  "rule_step fuel ci result_max st s =
    (if op st = CRUSH_RULE_TAKE then
       bindE (wr (rs_mem s) (rs_w s) (arg1 st)) (\<lambda>mem. Inr (s\<lparr>rs_mem := mem, rs_wsize := 1\<rparr>))
     else if op st = CRUSH_RULE_SET_CHOOSE_TRIES then
       Inr (if 0 < arg1 st then s\<lparr>rs_choose_tries := word_of_int (arg1 st)\<rparr> else s)
     else if op st = CRUSH_RULE_SET_CHOOSELEAF_TRIES then
       Inr (if 0 < arg1 st then s\<lparr>rs_choose_leaf_tries := word_of_int (arg1 st)\<rparr> else s)
     else if op st = CRUSH_RULE_SET_CHOOSE_LOCAL_TRIES then
       Inr (if 0 \<le> arg1 st then s\<lparr>rs_choose_local_retries := word_of_int (arg1 st)\<rparr> else s)
     else if op st = CRUSH_RULE_SET_CHOOSE_LOCAL_FALLBACK_TRIES then
       Inr (if 0 \<le> arg1 st then s\<lparr>rs_choose_local_fallback_retries := word_of_int (arg1 st)\<rparr> else s)
     else if op st = CRUSH_RULE_SET_CHOOSELEAF_VARY_R then
       Inr (if 0 \<le> arg1 st then s\<lparr>rs_vary_r := word_of_int (arg1 st)\<rparr> else s)
     else if op st = CRUSH_RULE_CHOOSELEAF_FIRSTN \<or> op st = CRUSH_RULE_CHOOSE_FIRSTN \<or>
             op st = CRUSH_RULE_CHOOSELEAF_INDEP \<or> op st = CRUSH_RULE_CHOOSE_INDEP then
       rule_choose fuel ci st result_max s
     else if op st = CRUSH_RULE_EMIT then
       bindE (foldE (rule_emit_item result_max) [0..<rs_wsize s] s) (\<lambda>s. Inr (s\<lparr>rs_wsize := 0\<rparr>))
     else Inr s)"

text \<open>The result vector with its length, and the map with the caches the run left in it.\<close>

definition crush_do_rule ::
  "nat \<Rightarrow> crush_map \<Rightarrow> int \<Rightarrow> u32 \<Rightarrow> nat \<Rightarrow> u32 list \<Rightarrow> int \<Rightarrow> int list \<Rightarrow>
   (int list \<times> crush_map) res" where
  "crush_do_rule fuel m ruleno x result_max weights wmax scratch =
    (let i = word_of_int ruleno :: u32 in
     if max_rules m \<le> i then Inr ([], m)
     else
       bindE (rd (rules m) (unat i)) (\<lambda>r.
       bindE (deref r) (\<lambda>rule.
       bindE (foldE (rule_step fuel \<lparr>weight = weights, weight_max = wmax, input_x = x\<rparr> result_max)
                (steps rule) (rule_init m result_max scratch)) (\<lambda>s.
       Inr (rs_result s, rs_map s)))))"

section \<open>Rule lookup\<close>

lemma find_rule_loop_spec:
  assumes "n \<le> length rls" and "n < 2 ^ 31" and "i \<le> n"
  shows "find_rule_loop rls rs type sz [i..<n] =
    Inr (case find (\<lambda>j. case rls ! j of None \<Rightarrow> False | Some r \<Rightarrow> rule_matches r rs type sz) [i..<n]
         of None \<Rightarrow> -1 | Some j \<Rightarrow> int j)"
  using assms
proof (induction "n - i" arbitrary: i)
  case 0
  then show ?case by simp
next
  case (Suc k)
  then have i: "i < n" by simp
  have "sint (word_of_nat i :: u32) = int i"
    using i Suc.prems(2) by (simp add: signed_of_nat signed_take_bit_int_eq_self)
  moreover have "find_rule_loop rls rs type sz [Suc i..<n] =
    Inr (case find (\<lambda>j. case rls ! j of None \<Rightarrow> False | Some r \<Rightarrow> rule_matches r rs type sz) [Suc i..<n]
         of None \<Rightarrow> -1 | Some j \<Rightarrow> int j)"
    using Suc.hyps(2) i by (intro Suc.hyps(1)) (use Suc.prems in auto)
  ultimately show ?case using i Suc.prems(1) by (simp add: upt_conv_Cons split: option.splits)
qed

section \<open>The result never exceeds its bound\<close>

lemma rule_emit_bound:
  assumes "foldE (rule_emit_item result_max) is s = Inr s'" and "length (rs_result s) \<le> result_max"
  shows "length (rs_result s') \<le> result_max"
  using assms by (induction "is" arbitrary: s) (auto simp: rule_emit_item_def split: if_splits)

lemma rule_step_result:
  assumes "rule_step fuel ci result_max st s = Inr s'" and "length (rs_result s) \<le> result_max"
  shows "length (rs_result s') \<le> result_max"
  using assms rule_emit_bound
  by (fastforce simp: rule_step_def rule_choose_def Let_def split: if_splits)

lemma rule_steps_result:
  assumes "foldE (rule_step fuel ci result_max) sts s = Inr s'" and "length (rs_result s) \<le> result_max"
  shows "length (rs_result s') \<le> result_max"
  using assms by (induction sts arbitrary: s) (auto dest: rule_step_result)

section \<open>Rules that fit their vectors\<close>

definition bucket_exists :: "crush_map \<Rightarrow> int \<Rightarrow> bool" where
  "bucket_exists m i \<longleftrightarrow> (case bucket_at m i of Inl _ \<Rightarrow> False | Inr _ \<Rightarrow> True)"

text \<open>What a mapping may return: an existing bucket, or a known device that is not out.\<close>

definition valid_item :: "crush_map \<Rightarrow> crush_input \<Rightarrow> int \<Rightarrow> bool" where
  "valid_item m ci v \<longleftrightarrow> (if v < 0 then bucket_exists m (-1 - v) else good_item m ci 0 v)"

definition retry_room :: "crush_map \<Rightarrow> u32 \<Rightarrow> nat \<Rightarrow> bool" where
  "retry_room m fb F \<longleftrightarrow>
     list_all (\<lambda>ob. case ob of None \<Rightarrow> True | Some b \<Rightarrow> unat (b_size b) + unat fb \<le> F) (buckets m)"

text \<open>
  A static check of the remaining steps, given at most \<open>n\<close> working items that are all buckets
  when \<open>bk\<close> holds: choose steps start from buckets and their output fits \<open>result_max\<close> cells,
  and the counters stay below the bounds \<open>T\<close> (tries) and \<open>F\<close> (failures in one bucket).
\<close>

fun rule_fits :: "crush_map \<Rightarrow> nat \<Rightarrow> nat \<Rightarrow> nat \<Rightarrow> crush_rule_step list \<Rightarrow> nat \<Rightarrow> bool \<Rightarrow> bool" where
  "rule_fits m rmax T F [] n bk \<longleftrightarrow> True"
| "rule_fits m rmax T F (st # sts) n bk \<longleftrightarrow>
    (if op st = CRUSH_RULE_TAKE then
       arg1 st < 0 \<and> bucket_exists m (-1 - arg1 st) \<and> 1 \<le> rmax \<and> rule_fits m rmax T F sts 1 True
     else if op st = CRUSH_RULE_SET_CHOOSE_TRIES \<or> op st = CRUSH_RULE_SET_CHOOSELEAF_TRIES then
       arg1 st \<le> int T \<and> rule_fits m rmax T F sts n bk
     else if op st = CRUSH_RULE_SET_CHOOSE_LOCAL_TRIES then
       arg1 st \<le> int F \<and> rule_fits m rmax T F sts n bk
     else if op st = CRUSH_RULE_SET_CHOOSE_LOCAL_FALLBACK_TRIES then
       (0 \<le> arg1 st \<longrightarrow> retry_room m (word_of_int (arg1 st)) F) \<and> rule_fits m rmax T F sts n bk
     else if op st = CRUSH_RULE_SET_CHOOSELEAF_VARY_R then
       arg1 st \<le> 32 \<and> rule_fits m rmax T F sts n bk
     else if op st = CRUSH_RULE_CHOOSELEAF_FIRSTN \<or> op st = CRUSH_RULE_CHOOSE_FIRSTN then
       n * nat (rule_numrep st rmax) \<le> rmax \<and> bk \<and>
       rule_fits m rmax T F sts (n * nat (rule_numrep st rmax))
         (op st = CRUSH_RULE_CHOOSE_FIRSTN \<and> arg2 st \<noteq> 0)
     else if op st = CRUSH_RULE_CHOOSELEAF_INDEP \<or> op st = CRUSH_RULE_CHOOSE_INDEP then
       n = 0 \<and> rule_fits m rmax T F sts n bk
     else if op st = CRUSH_RULE_EMIT then rule_fits m rmax T F sts 0 True
     else rule_fits m rmax T F sts n bk)"

definition tries_bounded :: "crush_map \<Rightarrow> nat \<Rightarrow> nat \<Rightarrow> rule_state \<Rightarrow> bool" where
  "tries_bounded m T F s \<longleftrightarrow>
     unat (rs_choose_tries s) \<le> T \<and> unat (rs_choose_leaf_tries s) \<le> T \<and> 1 \<le> T \<and>
     unat (rs_choose_local_retries s) \<le> F \<and> retry_room m (rs_choose_local_fallback_retries s) F \<and>
     rs_vary_r s \<le> 32 \<and> T + F + 1 < 2 ^ 32"

definition rule_inv ::
  "crush_map \<Rightarrow> crush_input \<Rightarrow> nat \<Rightarrow> nat \<Rightarrow> nat \<Rightarrow> nat \<Rightarrow> bool \<Rightarrow> rule_state \<Rightarrow> bool" where
  "rule_inv m0 ci rmax T F n bk s \<longleftrightarrow>
     agree m0 (rs_map s) \<and> 3 * rmax \<le> length (rs_mem s) \<and>
     (rs_w s = 0 \<and> rs_o s = rmax \<or> rs_w s = rmax \<and> rs_o s = 0) \<and>
     rs_wsize s \<le> n \<and> n \<le> rmax \<and> tries_bounded m0 T F s \<and>
     (\<forall>i<rs_wsize s. valid_item m0 ci (rs_mem s ! (rs_w s + i)) \<and>
        (bk \<longrightarrow> rs_mem s ! (rs_w s + i) < 0)) \<and>
     (\<forall>v\<in>set (rs_result s). valid_item m0 ci v)"

lemma bucket_exists_iff: "bucket_exists m i \<longleftrightarrow> (\<exists>b. bucket_at m i = Inr b)"
  by (auto simp: bucket_exists_def split: sum.splits)

lemma good_item_valid:
  assumes "good_item m ci type v"
  shows "valid_item m ci v" "type \<noteq> 0 \<Longrightarrow> v < 0"
  using assms
  by (auto simp: good_item_def valid_item_def item_type_def bucket_exists_iff bindE_Inr_iff split: if_splits)

lemma memcpy_ints_returns:
  assumes "dst + n \<le> src \<or> src + n \<le> dst" and "dst + n \<le> length mem" and "src + n \<le> length mem"
  shows "returns (\<lambda>mem'. length mem' = length mem \<and> (\<forall>k<n. mem' ! (dst + k) = mem ! (src + k)) \<and>
      (\<forall>j. \<not> (dst \<le> j \<and> j < dst + n) \<longrightarrow> mem' ! j = mem ! j)) (memcpy_ints dst src n mem)"
proof -
  let ?P = "\<lambda>i mem'. length mem' = length mem \<and> (\<forall>k<i. mem' ! (dst + k) = mem ! (src + k)) \<and>
      (\<forall>j. \<not> (dst \<le> j \<and> j < dst + i) \<longrightarrow> mem' ! j = mem ! j)"
  have "returns (?P n) (foldE (\<lambda>i mem. bindE (rd mem (src + i)) (wr mem (dst + i))) [0..<n] mem)"
  proof (rule returns_foldE_upt)
    fix k t
    assume k: "k < n" and P: "?P k t"
    then have "t ! (src + k) = mem ! (src + k)" using assms(1) by auto
    then show "returns (?P (Suc k)) (bindE (rd t (src + k)) (wr t (dst + k)))"
      using k P assms by (auto simp: less_Suc_eq nth_list_update)
  qed auto
  then show ?thesis by (simp add: memcpy_ints_def)
qed

lemma firstn_bounded_rule:
  assumes "tries_bounded m0 T F s" and "agree m0 (rs_map s)"
  shows "firstn_bounded m0 (rule_firstn_args s st leaf rmax item nr osize) F"
    "firstn_fuel (rule_firstn_args s st leaf rmax item nr osize) F D \<le> (T + F + 2) * (D + 1)"
proof -
  have T: "unat (rule_recurse_tries s) \<le> T"
    using assms(1) by (auto simp: rule_recurse_tries_def tries_bounded_def)
  then show "firstn_bounded m0 (rule_firstn_args s st leaf rmax item nr osize) F"
    using assms(1) by (auto simp: firstn_bounded_def rule_firstn_args_def tries_bounded_def retry_room_def)
  show "firstn_fuel (rule_firstn_args s st leaf rmax item nr osize) F D \<le> (T + F + 2) * (D + 1)"
    unfolding firstn_fuel_def using T assms(1)
    by (intro mult_le_mono1) (simp add: rule_firstn_args_def tries_bounded_def)
qed

text \<open>The loop over the working vector of a first-n step.\<close>

definition choose_inv ::
  "crush_map \<Rightarrow> crush_input \<Rightarrow> rule_state \<Rightarrow> crush_rule_step \<Rightarrow> bool \<Rightarrow> nat \<Rightarrow> nat \<Rightarrow>
   nat \<times> crush_map \<times> int list \<Rightarrow> bool" where
  "choose_inv m0 ci s st leaf rmax i acc \<longleftrightarrow>
     (case acc of (osize, m, mem) \<Rightarrow>
       agree m0 m \<and> 3 * rmax \<le> length mem \<and> osize \<le> i * nat (rule_numrep st rmax) \<and>
       (\<forall>k<rmax. mem ! (rs_w s + k) = rs_mem s ! (rs_w s + k)) \<and>
       (\<forall>k<osize. good_item m0 ci (arg2 st) (mem ! (rs_o s + k)) \<and>
          (leaf \<longrightarrow> good_item m0 ci 0 (mem ! (rmax * 2 + k)))) \<and>
       (i \<le> 1 \<longrightarrow> (\<forall>k<osize. \<forall>j<k. mem ! (rs_o s + j) \<noteq> mem ! (rs_o s + k) \<and>
          (leaf \<longrightarrow> mem ! (rmax * 2 + j) \<noteq> mem ! (rmax * 2 + k)))))"

lemma firstn_post_distinct:
  assumes "firstn_post m0 ci a 0 mem (n, m1, mem1)" and "k < n" and "j < k"
  shows "mem1 ! (fa_out a + j) \<noteq> mem1 ! (fa_out a + k)"
    "fa_recurse_to_leaf a \<Longrightarrow> fa_out2 a = Some o2 \<Longrightarrow> mem1 ! (o2 + j) \<noteq> mem1 ! (o2 + k)"
proof -
  have items: "mem1 ! (fa_out a + j) \<noteq> mem1 ! (fa_out a + k)"
    "leaf_placed m0 ci a k mem1 (mem1 ! (fa_out a + k))" "leaf_placed m0 ci a j mem1 (mem1 ! (fa_out a + j))"
    using assms by (auto simp: firstn_post_def)
  then show "mem1 ! (fa_out a + j) \<noteq> mem1 ! (fa_out a + k)" by simp
  show "mem1 ! (o2 + j) \<noteq> mem1 ! (o2 + k)" if "fa_recurse_to_leaf a" "fa_out2 a = Some o2"
    using that items assms(3) by (auto simp: leaf_placed_def split: if_splits)
qed

lemma rule_choose_item_returns:
  assumes wf: "wf_map m0" and hier: "hierarchy m0 rank D" and wts: "weight_max ci \<le> int (length (weight ci))"
    and fuel: "(T + F + 2) * (D + 1) \<le> fuel"
    and inv: "rule_inv m0 ci rmax T F n True s" and room: "n * nat (rule_numrep st rmax) \<le> rmax"
    and i: "i < rs_wsize s" and ch: "choose_inv m0 ci s st leaf rmax i acc"
  shows "returns (choose_inv m0 ci s st leaf rmax (Suc i))
     (rule_choose_item fuel ci s st True leaf rmax i acc)"
proof (cases "rule_numrep st rmax \<le> 0")
  case True
  with ch show ?thesis by (auto simp: rule_choose_item_def choose_inv_def Let_def)
next
  case False
  let ?nr = "nat (rule_numrep st rmax)"
  obtain osize m mem where acc: "acc = (osize, m, mem)" by (cases acc)
  from inv have ptr: "rs_w s = 0 \<and> rs_o s = rmax \<or> rs_w s = rmax \<and> rs_o s = 0"
    and wn: "rs_wsize s \<le> n" and nr: "n \<le> rmax" by (auto simp: rule_inv_def)
  from ch acc have ag: "agree m0 m" and len: "3 * rmax \<le> length mem" and os: "osize \<le> i * ?nr"
    and wkeep: "\<forall>k<rmax. mem ! (rs_w s + k) = rs_mem s ! (rs_w s + k)"
    and good: "\<forall>k<osize. good_item m0 ci (arg2 st) (mem ! (rs_o s + k)) \<and>
          (leaf \<longrightarrow> good_item m0 ci 0 (mem ! (rmax * 2 + k)))" by (auto simp: choose_inv_def)
  have "Suc i * ?nr \<le> n * ?nr" using i wn by (intro mult_le_mono1) simp
  with os room have fit: "osize + ?nr \<le> rmax" by simp
  have iw: "i < rmax" using i wn nr by simp
  let ?item = "rs_mem s ! (rs_w s + i)"
  have rditem: "rd mem (rs_w s + i) = Inr ?item" using iw wkeep len ptr by auto
  from inv i have "?item < 0" "bucket_exists m0 (-1 - ?item)" by (auto simp: rule_inv_def valid_item_def)
  then obtain b0 where b0: "bucket_at m0 (-1 - ?item) = Inr b0" by (auto simp: bucket_exists_iff)
  from agree_bucket[OF ag b0] obtain b where b: "bucket_at m (-1 - ?item) = Inr b" .
  then have rdb: "rdi (buckets m) (-1 - ?item) = Inr (Some b)"
    by (auto simp: bucket_at_Inr_iff rdi_Inr_iff)
  let ?a = "rule_firstn_args s st leaf rmax ?item ?nr osize"
  have args: "fa_out ?a = rs_o s + osize" "fa_numrep ?a = ?nr" "fa_type ?a = arg2 st"
    "fa_recurse_to_leaf ?a = leaf" "fa_out2 ?a = Some (rmax * 2 + osize)"
    by (simp_all add: rule_firstn_args_def)
  have tb: "tries_bounded m0 T F s" "agree m0 (rs_map s)" using inv by (auto simp: rule_inv_def)
  have "firstn_ready m0 ci ?a (length mem)"
    using b0 wts fit len ptr tb(1)
    by (auto simp: firstn_ready_def rule_firstn_args_def tries_bounded_def)
  from choose_firstn_returns[OF wf hier firstn_bounded_rule(1)[OF tb] this ag
      order_trans[OF firstn_bounded_rule(2)[OF tb] fuel], of 0 0]
  obtain k m1 mem1 where run: "crush_choose_firstn 2 fuel ci ?a 0 m mem = Inr (k, m1, mem1)"
    and post: "firstn_post m0 ci ?a 0 mem (k, m1, mem1)" by (auto simp: returns_iff numeral_2_eq_2)
  from post have k: "k \<le> ?nr" by (simp add: firstn_post_def args)
  have frame: "mem1 ! j = mem ! j"
    if "\<not> (rs_o s + osize \<le> j \<and> j < rs_o s + osize + k)" "j < rmax * 2 + osize" for j
    using post that by (auto simp: firstn_post_def args leaf_slot_def)
  have placed: "good_item m0 ci (arg2 st) (mem1 ! (rs_o s + osize + j))"
      "leaf \<Longrightarrow> good_item m0 ci 0 (mem1 ! (rmax * 2 + osize + j))" if "j < k" for j
    using post that by (auto simp: firstn_post_def rule_firstn_args_def leaf_placed_def)
  have "choose_inv m0 ci s st leaf rmax (Suc i) (osize + k, m1, mem1)"
  proof -
    have dist: "mem1 ! (rs_o s + l) \<noteq> mem1 ! (rs_o s + j) \<and>
        (leaf \<longrightarrow> mem1 ! (rmax * 2 + l) \<noteq> mem1 ! (rmax * 2 + j))" if "osize = 0" "j < k" "l < j" for j l
      using firstn_post_distinct[OF post that(2,3)] that(1) by (simp add: rule_firstn_args_def)
    have "good_item m0 ci (arg2 st) (mem1 ! (rs_o s + j)) \<and>
        (leaf \<longrightarrow> good_item m0 ci 0 (mem1 ! (rmax * 2 + j)))" if j: "j < osize + k" for j
    proof (cases "j < osize")
      case True
      have "mem1 ! (rs_o s + j) = mem ! (rs_o s + j)" using True ptr fit by (intro frame) auto
      moreover have "mem1 ! (rmax * 2 + j) = mem ! (rmax * 2 + j)" using True ptr fit k by (intro frame) auto
      ultimately show ?thesis using good True by simp
    next
      case False
      with j placed[of "j - osize"] show ?thesis by (simp add: add.assoc)
    qed
    moreover have "mem1 ! (rs_w s + j) = rs_mem s ! (rs_w s + j)" if "j < rmax" for j
      using that ptr fit k wkeep frame[of "rs_w s + j"] by auto
    ultimately show ?thesis using post os k len dist by (auto simp: choose_inv_def firstn_post_def)
  qed
  then show ?thesis using False acc rditem rdb run by (simp add: rule_choose_item_def Let_def)
qed

lemma rule_choose_returns:
  assumes wf: "wf_map m0" and hier: "hierarchy m0 rank D" and wts: "weight_max ci \<le> int (length (weight ci))"
    and fuel: "(T + F + 2) * (D + 1) \<le> fuel"
    and inv: "rule_inv m0 ci rmax T F n True s" and room: "n * nat (rule_numrep st rmax) \<le> rmax"
    and op: "op st = CRUSH_RULE_CHOOSELEAF_FIRSTN \<or> op st = CRUSH_RULE_CHOOSE_FIRSTN"
  shows "returns (\<lambda>s'. rule_inv m0 ci rmax T F (n * nat (rule_numrep st rmax))
       (op st = CRUSH_RULE_CHOOSE_FIRSTN \<and> arg2 st \<noteq> 0) s' \<and> rs_result s' = rs_result s \<and>
       (rs_wsize s \<le> 1 \<longrightarrow> (\<forall>k<rs_wsize s'. \<forall>j<k.
          rs_mem s' ! (rs_w s' + j) \<noteq> rs_mem s' ! (rs_w s' + k)))) (rule_choose fuel ci st rmax s)"
proof (cases "rs_wsize s = 0")
  case True
  with inv room show ?thesis by (auto simp: rule_choose_def rule_inv_def)
next
  case False
  let ?leaf = "op st = CRUSH_RULE_CHOOSELEAF_FIRSTN \<or> op st = CRUSH_RULE_CHOOSELEAF_INDEP"
  have leaf: "?leaf \<longleftrightarrow> op st = CRUSH_RULE_CHOOSELEAF_FIRSTN"
    "op st = CRUSH_RULE_CHOOSE_FIRSTN \<longleftrightarrow> \<not> ?leaf"
    using op by (auto simp: crush_rule_ops)
  from inv have ptr: "rs_w s = 0 \<and> rs_o s = rmax \<or> rs_w s = rmax \<and> rs_o s = 0"
    and wn: "rs_wsize s \<le> n" by (auto simp: rule_inv_def)
  have "returns (choose_inv m0 ci s st ?leaf rmax (rs_wsize s))
      (foldE (rule_choose_item fuel ci s st True ?leaf rmax) [0..<rs_wsize s] (0, rs_map s, rs_mem s))"
  proof (rule returns_foldE_upt)
    show "choose_inv m0 ci s st ?leaf rmax 0 (0, rs_map s, rs_mem s)"
      using inv by (auto simp: choose_inv_def rule_inv_def)
    show "returns (choose_inv m0 ci s st ?leaf rmax (Suc k)) (rule_choose_item fuel ci s st True ?leaf rmax k t)"
      if "k < rs_wsize s" "choose_inv m0 ci s st ?leaf rmax k t" for k t
      using rule_choose_item_returns[OF wf hier wts fuel inv room that] .
  qed simp
  then obtain osize m mem where
    loop: "foldE (rule_choose_item fuel ci s st True ?leaf rmax) [0..<rs_wsize s]
        (0, rs_map s, rs_mem s) = Inr (osize, m, mem)"
    and ch: "choose_inv m0 ci s st ?leaf rmax (rs_wsize s) (osize, m, mem)" by (auto simp: returns_iff)
  have "osize \<le> rs_wsize s * nat (rule_numrep st rmax)" using ch by (simp add: choose_inv_def)
  also have "\<dots> \<le> n * nat (rule_numrep st rmax)" using wn by (intro mult_le_mono1)
  finally have os: "osize \<le> n * nat (rule_numrep st rmax)" .
  have cp: "returns (\<lambda>mem'. 3 * rmax \<le> length mem' \<and> (\<forall>k<osize.
        good_item m0 ci (if ?leaf then 0 else arg2 st) (mem' ! (rs_o s + k)) \<and>
        (rs_wsize s \<le> 1 \<longrightarrow> (\<forall>j<k. mem' ! (rs_o s + j) \<noteq> mem' ! (rs_o s + k)))))
      (if ?leaf then memcpy_ints (rs_o s) (rmax * 2) osize mem else Inr mem)"
  proof (cases ?leaf)
    case True
    then show ?thesis
      using memcpy_ints_returns[of "rs_o s" osize "rmax * 2" mem] ch ptr os room
      by (auto simp: choose_inv_def elim!: returns_mono)
  qed (use ch in \<open>auto simp: choose_inv_def\<close>)
  then obtain mem' where mem': "(if ?leaf then memcpy_ints (rs_o s) (rmax * 2) osize mem else Inr mem) = Inr mem'"
    "3 * rmax \<le> length mem'"
    "\<forall>k<osize. good_item m0 ci (if ?leaf then 0 else arg2 st) (mem' ! (rs_o s + k)) \<and>
       (rs_wsize s \<le> 1 \<longrightarrow> (\<forall>j<k. mem' ! (rs_o s + j) \<noteq> mem' ! (rs_o s + k)))"
    by (auto simp: returns_iff)
  let ?s = "s\<lparr>rs_map := m, rs_mem := mem', rs_w := rs_o s, rs_o := rs_w s, rs_wsize := osize\<rparr>"
  have "rule_choose fuel ci st rmax s = Inr ?s"
    using False loop mem'(1) op by (simp add: rule_choose_def Let_def)
  moreover have "rs_wsize s \<le> 1 \<longrightarrow> (\<forall>k<rs_wsize ?s. \<forall>j<k.
      rs_mem ?s ! (rs_w ?s + j) \<noteq> rs_mem ?s ! (rs_w ?s + k))" using mem'(3) by simp
  moreover have "rule_inv m0 ci rmax T F (n * nat (rule_numrep st rmax))
       (op st = CRUSH_RULE_CHOOSE_FIRSTN \<and> arg2 st \<noteq> 0) ?s"
    using inv ch mem'(2,3) os room ptr leaf good_item_valid
    by (auto simp: rule_inv_def choose_inv_def tries_bounded_def split: if_splits)
  ultimately show ?thesis by simp
qed

lemma rule_emit_returns:
  assumes "rule_inv m0 ci rmax T F n bk s" and "\<And>i. i \<in> set is \<Longrightarrow> i < rs_wsize s"
  shows "returns (rule_inv m0 ci rmax T F n bk) (foldE (rule_emit_item rmax) is s)"
  using assms
proof (induction "is" arbitrary: s)
  case (Cons i "is")
  have i: "i < rs_wsize s" using Cons.prems(2) by simp
  have "returns (\<lambda>s'. rule_inv m0 ci rmax T F n bk s' \<and> rs_wsize s' = rs_wsize s) (rule_emit_item rmax i s)"
    using Cons.prems(1) i by (auto simp: rule_emit_item_def rule_inv_def tries_bounded_def)
  then show ?case
    by (auto intro!: returns_bind Cons.IH Cons.prems(2))
qed simp

lemma unat_word_of_int_le:
  assumes "v \<le> int k" and "0 \<le> v" shows "unat (word_of_int v :: u32) \<le> k"
proof -
  have "unat (word_of_int v :: u32) = nat v mod 2 ^ 32"
    using assms(2) by (simp add: unsigned_of_int take_bit_eq_mod nat_mod_distrib)
  then show ?thesis using assms by (metis le_trans mod_less_eq_dividend nat_le_iff)
qed

lemma unat_word_of_int_le_32: "0 \<le> v \<Longrightarrow> v \<le> 32 \<Longrightarrow> (word_of_int v :: u32) \<le> 32"
  using unat_word_of_int_le[of v 32] by (simp add: word_le_nat_alt)

lemma rule_step_set:
  assumes inv: "rule_inv m0 ci rmax T F n bk s" and fits: "rule_fits m0 rmax T F (st # sts) n bk"
    and set: "op st \<in> {CRUSH_RULE_SET_CHOOSE_TRIES, CRUSH_RULE_SET_CHOOSELEAF_TRIES,
        CRUSH_RULE_SET_CHOOSE_LOCAL_TRIES, CRUSH_RULE_SET_CHOOSE_LOCAL_FALLBACK_TRIES,
        CRUSH_RULE_SET_CHOOSELEAF_VARY_R}"
  shows "returns (rule_inv m0 ci rmax T F n bk) (rule_step fuel ci rmax st s)"
    "rule_fits m0 rmax T F sts n bk"
proof -
  let ?s = "case rule_step fuel ci rmax st s of Inl _ \<Rightarrow> s | Inr s \<Rightarrow> s"
  have keep: "rule_step fuel ci rmax st s = Inr ?s" "rs_map ?s = rs_map s" "rs_mem ?s = rs_mem s"
    "rs_w ?s = rs_w s" "rs_o ?s = rs_o s" "rs_wsize ?s = rs_wsize s" "rs_result ?s = rs_result s"
    using set by (auto simp: rule_step_def crush_rule_ops)
  have "tries_bounded m0 T F s" using inv by (simp add: rule_inv_def)
  with set fits have "tries_bounded m0 T F ?s"
    by (elim insertE emptyE)
      (simp_all add: rule_step_def crush_rule_ops tries_bounded_def unat_word_of_int_le
        unat_word_of_int_le_32)
  with inv keep(2-) have "rule_inv m0 ci rmax T F n bk ?s" by (simp add: rule_inv_def)
  with keep(1) show "returns (rule_inv m0 ci rmax T F n bk) (rule_step fuel ci rmax st s)"
    by (metis returns_simps(1))
  show "rule_fits m0 rmax T F sts n bk"
    using set fits by (elim insertE emptyE) (simp_all add: crush_rule_ops)
qed

lemma rule_step_returns:
  assumes wf: "wf_map m0" and hier: "hierarchy m0 rank D" and wts: "weight_max ci \<le> int (length (weight ci))"
    and fuel: "(T + F + 2) * (D + 1) \<le> fuel"
    and inv: "rule_inv m0 ci rmax T F n bk s" and fits: "rule_fits m0 rmax T F (st # sts) n bk"
  shows "\<exists>n' bk'. returns (rule_inv m0 ci rmax T F n' bk') (rule_step fuel ci rmax st s) \<and>
     rule_fits m0 rmax T F sts n' bk'"
proof -
  have same: ?thesis if "returns (rule_inv m0 ci rmax T F n bk) (rule_step fuel ci rmax st s)"
    "rule_fits m0 rmax T F sts n bk" using that by blast
  consider (take) "op st = CRUSH_RULE_TAKE"
    | (set) "op st \<in> {CRUSH_RULE_SET_CHOOSE_TRIES, CRUSH_RULE_SET_CHOOSELEAF_TRIES,
        CRUSH_RULE_SET_CHOOSE_LOCAL_TRIES, CRUSH_RULE_SET_CHOOSE_LOCAL_FALLBACK_TRIES,
        CRUSH_RULE_SET_CHOOSELEAF_VARY_R}"
    | (firstn) "op st = CRUSH_RULE_CHOOSELEAF_FIRSTN \<or> op st = CRUSH_RULE_CHOOSE_FIRSTN"
    | (indep) "op st = CRUSH_RULE_CHOOSELEAF_INDEP \<or> op st = CRUSH_RULE_CHOOSE_INDEP"
    | (emit) "op st = CRUSH_RULE_EMIT"
    | (other) "op st \<notin> {CRUSH_RULE_TAKE, CRUSH_RULE_SET_CHOOSE_TRIES, CRUSH_RULE_SET_CHOOSELEAF_TRIES,
        CRUSH_RULE_SET_CHOOSE_LOCAL_TRIES, CRUSH_RULE_SET_CHOOSE_LOCAL_FALLBACK_TRIES,
        CRUSH_RULE_SET_CHOOSELEAF_VARY_R, CRUSH_RULE_CHOOSELEAF_FIRSTN, CRUSH_RULE_CHOOSE_FIRSTN,
        CRUSH_RULE_CHOOSELEAF_INDEP, CRUSH_RULE_CHOOSE_INDEP, CRUSH_RULE_EMIT}"
    by blast
  then show ?thesis
  proof cases
    case take
    then have "rs_w s < length (rs_mem s)" using fits inv by (auto simp: rule_inv_def)
    then have "returns (rule_inv m0 ci rmax T F 1 True) (rule_step fuel ci rmax st s)"
      using take fits inv by (auto simp: rule_step_def rule_inv_def tries_bounded_def valid_item_def)
    with take fits show ?thesis by auto
  next
    case set
    then show ?thesis using rule_step_set[OF inv fits] by (intro same)
  next
    case firstn
    then have f: "n * nat (rule_numrep st rmax) \<le> rmax" "bk"
      "rule_fits m0 rmax T F sts (n * nat (rule_numrep st rmax))
         (op st = CRUSH_RULE_CHOOSE_FIRSTN \<and> arg2 st \<noteq> 0)"
      using fits by (auto simp: crush_rule_ops)
    have "rule_step fuel ci rmax st s = rule_choose fuel ci st rmax s"
      using firstn by (auto simp: rule_step_def crush_rule_ops)
    then show ?thesis
      using rule_choose_returns[OF wf hier wts fuel _ f(1) firstn, of s] inv f(2,3)
      by (auto elim!: returns_mono intro!: exI)
  next
    case indep
    then have "n = 0" "rule_fits m0 rmax T F sts n bk" using fits by (auto simp: crush_rule_ops)
    moreover have "rule_step fuel ci rmax st s = rule_choose fuel ci st rmax s"
      using indep by (auto simp: rule_step_def crush_rule_ops)
    moreover have "rs_wsize s = 0" using inv \<open>n = 0\<close> by (simp add: rule_inv_def)
    ultimately show ?thesis using inv by (intro same) (auto simp: rule_choose_def)
  next
    case emit
    have "returns (rule_inv m0 ci rmax T F n bk) (foldE (rule_emit_item rmax) [0..<rs_wsize s] s)"
      by (rule rule_emit_returns[OF inv]) simp
    then have "returns (rule_inv m0 ci rmax T F 0 True)
        (bindE (foldE (rule_emit_item rmax) [0..<rs_wsize s] s) (\<lambda>s. Inr (s\<lparr>rs_wsize := 0\<rparr>)))"
      by (rule returns_bind) (auto simp: rule_inv_def tries_bounded_def)
    then show ?thesis using emit fits by (auto simp: rule_step_def crush_rule_ops)
  next
    case other
    then show ?thesis using fits inv by (intro same) (auto simp: rule_step_def)
  qed
qed

lemma rule_steps_returns:
  assumes "wf_map m0" and "hierarchy m0 rank D" and "weight_max ci \<le> int (length (weight ci))"
    and "(T + F + 2) * (D + 1) \<le> fuel"
  shows "rule_inv m0 ci rmax T F n bk s \<Longrightarrow> rule_fits m0 rmax T F sts n bk \<Longrightarrow>
     returns (\<lambda>s. \<exists>n bk. rule_inv m0 ci rmax T F n bk s) (foldE (rule_step fuel ci rmax) sts s)"
proof (induction sts arbitrary: n bk s)
  case Nil
  then show ?case by auto
next
  case (Cons st sts)
  from rule_step_returns[OF assms Cons.prems] Cons.IH show ?case by (auto intro!: returns_bind)
qed

lemma rule_emit_all:
  assumes "k \<le> rmax" and "rs_w s + k \<le> length (rs_mem s)" and "rs_result s = []"
  shows "foldE (rule_emit_item rmax) [0..<k] s =
    Inr (s\<lparr>rs_result := map (\<lambda>i. rs_mem s ! (rs_w s + i)) [0..<k]\<rparr>)"
  using assms(1,2)
proof (induction k)
  case 0
  then show ?case using assms(3) by simp
next
  case (Suc k)
  then show ?case by (simp add: foldE_append rule_emit_item_def)
qed

text \<open>The step that sets a parameter, as a predicate on operations.\<close>

definition is_set_step :: "crush_rule_step \<Rightarrow> bool" where
  "is_set_step st \<longleftrightarrow> op st \<in> {CRUSH_RULE_SET_CHOOSE_TRIES, CRUSH_RULE_SET_CHOOSELEAF_TRIES,
        CRUSH_RULE_SET_CHOOSE_LOCAL_TRIES, CRUSH_RULE_SET_CHOOSE_LOCAL_FALLBACK_TRIES,
        CRUSH_RULE_SET_CHOOSELEAF_VARY_R}"

lemma rule_sets_returns:
  assumes "list_all is_set_step sets"
  shows "rule_inv m0 ci rmax T F n bk s \<Longrightarrow> rule_fits m0 rmax T F (sets @ sts) n bk \<Longrightarrow>
    rule_fits m0 rmax T F sts n bk \<and>
    returns (\<lambda>s'. rule_inv m0 ci rmax T F n bk s' \<and> rs_result s' = rs_result s)
      (foldE (rule_step fuel ci rmax) sets s)"
  using assms
proof (induction sets arbitrary: s)
  case Nil
  then show ?case by simp
next
  case (Cons st sets)
  then have set: "op st \<in> {CRUSH_RULE_SET_CHOOSE_TRIES, CRUSH_RULE_SET_CHOOSELEAF_TRIES,
        CRUSH_RULE_SET_CHOOSE_LOCAL_TRIES, CRUSH_RULE_SET_CHOOSE_LOCAL_FALLBACK_TRIES,
        CRUSH_RULE_SET_CHOOSELEAF_VARY_R}" by (simp add: is_set_step_def)
  have fits: "rule_fits m0 rmax T F (st # sets @ sts) n bk" using Cons.prems(2) by simp
  note ret = rule_step_set[OF Cons.prems(1) fits set]
  then obtain s1 where s1: "rule_step fuel ci rmax st s = Inr s1" "rule_inv m0 ci rmax T F n bk s1"
    by (auto simp: returns_iff)
  have "rs_result s1 = rs_result s" using s1(1) set by (auto simp: rule_step_def crush_rule_ops split: if_splits)
  with Cons.IH[OF s1(2) ret(2)] Cons.prems(3) s1(1) show ?case by simp
qed

lemma rule_init_inv:
  assumes "wf_map m" and "tries_bounded m T F (rule_init m rmax scratch)" and "3 * rmax \<le> length scratch"
  shows "rule_inv m ci rmax T F 0 True (rule_init m rmax scratch)"
  using assms wf_map_agree[OF assms(1)] by (auto simp: rule_inv_def rule_init_def)

text \<open>A rule of the shape the tools generate: set parameters, take a root, choose once, emit.\<close>

lemma single_choose_distinct:
  assumes wf: "wf_map m" and hier: "hierarchy m rank D" and wts: "weight_max ci \<le> int (length (weight ci))"
    and fuel: "(T + F + 2) * (D + 1) \<le> fuel" and scr: "3 * rmax \<le> length scratch"
    and tb: "tries_bounded m T F (rule_init m rmax scratch)"
    and shape: "list_all is_set_step sets" "op tk = CRUSH_RULE_TAKE" "op em = CRUSH_RULE_EMIT"
      "op ch = CRUSH_RULE_CHOOSELEAF_FIRSTN \<or> op ch = CRUSH_RULE_CHOOSE_FIRSTN"
    and fits: "rule_fits m rmax T F (sets @ [tk, ch, em]) 0 True"
  shows "returns (\<lambda>s. distinct (rs_result s))
    (foldE (rule_step fuel ci rmax) (sets @ [tk, ch, em]) (rule_init m rmax scratch))"
proof -
  note inv0 = rule_init_inv[OF wf tb scr, of ci]
  from rule_sets_returns[OF shape(1) inv0 fits, of fuel]
  obtain s1 where s1: "foldE (rule_step fuel ci rmax) sets (rule_init m rmax scratch) = Inr s1"
    "rule_inv m ci rmax T F 0 True s1" "rs_result s1 = []"
    and fits1: "rule_fits m rmax T F [tk, ch, em] 0 True"
    by (auto simp: returns_iff rule_init_def)
  let ?s2 = "s1\<lparr>rs_mem := (rs_mem s1)[rs_w s1 := arg1 tk], rs_wsize := 1\<rparr>"
  have tk: "arg1 tk < 0" "bucket_exists m (-1 - arg1 tk)" "1 \<le> rmax"
    using fits1 shape(2) unfolding rule_fits.simps(2)[of _ _ _ _ tk]
    by (simp_all del: rule_fits.simps)
  then have w1: "rs_w s1 < length (rs_mem s1)" using s1(2) by (auto simp: rule_inv_def)
  then have s2: "rule_step fuel ci rmax tk s1 = Inr ?s2" using shape(2) by (simp add: rule_step_def)
  have inv2: "rule_inv m ci rmax T F 1 True ?s2"
    using s1(2) tk w1 by (auto simp: rule_inv_def tries_bounded_def valid_item_def)
  have "rule_fits m rmax T F [ch, em] 1 True"
    using fits1 shape(2) unfolding rule_fits.simps(2)[of _ _ _ _ tk]
    by (simp del: rule_fits.simps)
  then have room: "1 * nat (rule_numrep ch rmax) \<le> rmax"
    using shape(4) unfolding rule_fits.simps(2)[of _ _ _ _ ch]
    by (auto simp: crush_rule_ops simp del: rule_fits.simps)
  let ?bk = "op ch = CRUSH_RULE_CHOOSE_FIRSTN \<and> arg2 ch \<noteq> 0"
  from rule_choose_returns[OF wf hier wts fuel inv2 room shape(4), unfolded returns_iff]
  obtain s3 where s3: "rule_choose fuel ci ch rmax ?s2 = Inr s3"
    "rule_inv m ci rmax T F (1 * nat (rule_numrep ch rmax)) ?bk s3" "rs_result s3 = rs_result ?s2"
    "rs_wsize ?s2 \<le> 1 \<longrightarrow>
      (\<forall>k<rs_wsize s3. \<forall>j<k. rs_mem s3 ! (rs_w s3 + j) \<noteq> rs_mem s3 ! (rs_w s3 + k))"
    by blast
  have step3: "rule_step fuel ci rmax ch ?s2 = Inr s3"
    using shape(4) s3(1) by (auto simp: rule_step_def crush_rule_ops)
  have "rs_wsize s3 \<le> rmax" "rs_w s3 + rs_wsize s3 \<le> length (rs_mem s3)"
    using s3(2) by (auto simp: rule_inv_def)
  moreover have "rs_result s3 = []" using s3(3) s1(3) by simp
  ultimately have emit: "foldE (rule_emit_item rmax) [0..<rs_wsize s3] s3 =
      Inr (s3\<lparr>rs_result := map (\<lambda>i. rs_mem s3 ! (rs_w s3 + i)) [0..<rs_wsize s3]\<rparr>)"
    by (rule rule_emit_all)
  then have step4: "rule_step fuel ci rmax em s3 = Inr (s3\<lparr>rs_result :=
      map (\<lambda>i. rs_mem s3 ! (rs_w s3 + i)) [0..<rs_wsize s3], rs_wsize := 0\<rparr>)"
    using shape(3) by (simp add: rule_step_def crush_rule_ops)
  have "distinct (map (\<lambda>i. rs_mem s3 ! (rs_w s3 + i)) [0..<rs_wsize s3])"
    using s3(4) by (auto simp: distinct_conv_nth) (metis linorder_neqE_nat)
  then show ?thesis using s1(1) s2 step3 step4 by (simp add: foldE_append)
qed

text \<open>The whole run of a rule that fits.\<close>

lemma crush_do_rule_run:
  assumes "wf_map m" and "hierarchy m rank D" and "wmax \<le> int (length weights)"
    and "3 * result_max \<le> length scratch" and "tries_bounded m T F (rule_init m result_max scratch)"
    and "(T + F + 2) * (D + 1) \<le> fuel"
    and "word_of_int ruleno < max_rules m" and "rd (rules m) (unat (word_of_int ruleno :: u32)) = Inr (Some rule)"
    and "rule_fits m result_max T F (steps rule) 0 True"
  shows "returns (\<lambda>(res, m'). length res \<le> result_max \<and> agree m m' \<and>
      (\<forall>v\<in>set res. valid_item m \<lparr>weight = weights, weight_max = wmax, input_x = x\<rparr> v))
    (crush_do_rule fuel m ruleno x result_max weights wmax scratch)"
proof -
  let ?ci = "\<lparr>weight = weights, weight_max = wmax, input_x = x\<rparr>"
  have "returns (\<lambda>s. \<exists>n bk. rule_inv m ?ci result_max T F n bk s)
      (foldE (rule_step fuel ?ci result_max) (steps rule) (rule_init m result_max scratch))"
    by (rule rule_steps_returns[OF assms(1,2) _ assms(6) rule_init_inv[OF assms(1,5,4)] assms(9)])
      (use assms(3) in simp)
  then obtain s n bk where s: "foldE (rule_step fuel ?ci result_max) (steps rule)
      (rule_init m result_max scratch) = Inr s" "rule_inv m ?ci result_max T F n bk s"
    by (auto simp: returns_iff)
  have "length (rs_result s) \<le> result_max" by (rule rule_steps_result[OF s(1)]) (simp add: rule_init_def)
  then show ?thesis using s assms(7,8) by (auto simp: crush_do_rule_def Let_def rule_inv_def)
qed

section \<open>An example cluster\<close>

text \<open>
  A small cluster for the concrete instances: a root with two hosts of two devices each. The
  hash type 1 is not one the code knows, and its hash value is 0 for every input.
\<close>

definition example_bucket :: "int \<Rightarrow> u16 \<Rightarrow> int list \<Rightarrow> crush_bucket" where
  "example_bucket i type items =
    \<lparr>b_id = i, b_type = type, b_alg = CRUSH_BUCKET_UNIFORM, b_hash = 1, b_weight = 0x20000,
     b_size = 2, b_items = items, b_perm_x = 0, b_perm_n = 0, b_perm = [0, 0],
     b_ext = Uniform_ext 0x10000\<rparr>"

definition example_steps :: "crush_rule_step list" where
  "example_steps =
    [\<lparr>op = CRUSH_RULE_SET_CHOOSELEAF_TRIES, arg1 = 5, arg2 = 0\<rparr>,
     \<lparr>op = CRUSH_RULE_TAKE, arg1 = -1, arg2 = 0\<rparr>,
     \<lparr>op = CRUSH_RULE_CHOOSELEAF_FIRSTN, arg1 = 0, arg2 = 1\<rparr>,
     \<lparr>op = CRUSH_RULE_EMIT, arg1 = 0, arg2 = 0\<rparr>]"

definition example_rule :: crush_rule where
  "example_rule =
    \<lparr>r_mask = \<lparr>ruleset = 0, mask_type = 1, min_size = 1, max_size = 10\<rparr>, steps = example_steps\<rparr>"

definition example_map :: crush_map where
  "example_map =
    \<lparr>buckets = [Some (example_bucket (-1) 2 [-2, -3]), Some (example_bucket (-2) 1 [0, 1]),
                Some (example_bucket (-3) 1 [2, 3])],
     rules = [None, Some example_rule], max_buckets = 3, max_rules = 2, max_devices = 4,
     choose_local_tries = 0, choose_local_fallback_tries = 0, choose_total_tries = 19,
     chooseleaf_descend_once = 0, chooseleaf_vary_r = 0\<rparr>"

definition example_weights :: "u32 list" where
  "example_weights = [0x10000, 0x10000, 0, 0x10000]"

definition example_rank :: "int \<Rightarrow> nat" where
  "example_rank i = (if i = 0 then 1 else 0)"


lemmas example_defs = example_map_def example_bucket_def example_rule_def example_steps_def
  example_weights_def example_rank_def crush_algs crush_rule_ops

lemma example_map_wf: "wf_map example_map"
  by (simp add: wf_map_def example_defs cache_good_def wf_bucket_def wf_ext_def perm_ok_def wf_tree_def)

lemma example_hierarchy: "hierarchy example_map example_rank 1"
  by (simp add: hierarchy_def example_defs numeral_3_eq_3)

lemma example_tries: "tries_bounded example_map 20 10 (rule_init example_map 2 [0, 0, 0, 0, 0, 0])"
  by (simp add: tries_bounded_def rule_init_def retry_room_def example_defs)

lemma example_fits: "rule_fits example_map 2 20 10 (steps example_rule) 0 True"
  by (simp add: example_defs bucket_exists_def bucket_at_def rule_numrep_def)

section \<open>Properties\<close>

text \<open>
  \<open>crush_find_rule\<close> returns the first rule that matches the ruleset, the type and the
  size, and -1 when none does; it reads no rule outside the table.
\<close>

theorem crush_find_rule_first:
  assumes "unat (max_rules m) \<le> length (rules m)" and "unat (max_rules m) < 2 ^ 31"
  shows "crush_find_rule m rs type sz =
    Inr (case find (\<lambda>j. case rules m ! j of None \<Rightarrow> False | Some r \<Rightarrow> rule_matches r rs type sz)
           [0..<unat (max_rules m)]
         of None \<Rightarrow> -1 | Some j \<Rightarrow> int j)"
  using find_rule_loop_spec[of "unat (max_rules m)" "rules m" 0] assms by (simp add: crush_find_rule_def)

theorem crush_find_rule_first_witness:
  "crush_find_rule example_map 0 1 3 = Inr 1 \<and> crush_find_rule example_map 0 1 11 = Inr (-1)"
  using crush_find_rule_first[of example_map 0 1 3] crush_find_rule_first[of example_map 0 1 11]
  by (simp add: example_defs rule_matches_def upt_rec)

text \<open>
  Whatever the map and the rule are, a run of \<open>crush_do_rule\<close> that returns gives at most
  \<open>result_max\<close> items.
\<close>

theorem crush_do_rule_length:
  assumes "crush_do_rule fuel m ruleno x result_max weights wmax scratch = Inr (res, m')"
  shows "length res \<le> result_max"
  using assms rule_steps_result
  by (fastforce simp: crush_do_rule_def rule_init_def Let_def split: if_splits)

theorem crush_do_rule_length_witness:
  "crush_do_rule 5 example_map 7 1 2 example_weights 4 [0, 0, 0, 0, 0, 0] = Inr ([], example_map) \<and>
   length ([] :: int list) \<le> 2"
proof -
  have run: "crush_do_rule 5 example_map 7 1 2 example_weights 4 [0, 0, 0, 0, 0, 0] = Inr ([], example_map)"
    by (simp add: crush_do_rule_def example_map_def)
  with crush_do_rule_length[OF run] show ?thesis by simp
qed

text \<open>
  C2: on a well-formed acyclic map, a first-n rule whose steps fit the scratch vector runs to
  the end without a fault; the result has at most \<open>result_max\<close> entries, each an existing
  bucket or a known device that is not marked out, and the map is changed in its permutation
  caches only.
\<close>

theorem crush_do_rule_returns:
  assumes "wf_map m" and "hierarchy m rank D" and "wmax \<le> int (length weights)"
    and "3 * result_max \<le> length scratch" and "tries_bounded m T F (rule_init m result_max scratch)"
    and "(T + F + 2) * (D + 1) \<le> fuel"
    and "word_of_int ruleno < max_rules m" and "rd (rules m) (unat (word_of_int ruleno :: u32)) = Inr (Some rule)"
    and "rule_fits m result_max T F (steps rule) 0 True"
  shows "returns (\<lambda>(res, m'). length res \<le> result_max \<and> agree m m' \<and>
      (\<forall>v\<in>set res. valid_item m \<lparr>weight = weights, weight_max = wmax, input_x = x\<rparr> v))
    (crush_do_rule fuel m ruleno x result_max weights wmax scratch)"
  by (rule crush_do_rule_run[OF assms])

theorem crush_do_rule_returns_witness:
  "returns (\<lambda>(res, m'). length res \<le> 2 \<and> agree example_map m' \<and>
      (\<forall>v\<in>set res. valid_item example_map \<lparr>weight = example_weights, weight_max = 4, input_x = 7\<rparr> v))
    (crush_do_rule 64 example_map 1 7 2 example_weights 4 [0, 0, 0, 0, 0, 0])"
  by (rule crush_do_rule_returns[OF example_map_wf example_hierarchy _ _ example_tries _ _ _ example_fits])
    (simp_all add: example_map_def example_weights_def)

text \<open>
  C3: a rule that sets parameters, takes a root, does one first-n choose step (of buckets or
  down to the leaves) and emits, returns pairwise distinct items: no device holds two replicas.
\<close>

theorem crush_do_rule_distinct:
  assumes "wf_map m" and "hierarchy m rank D" and "wmax \<le> int (length weights)"
    and "3 * result_max \<le> length scratch" and "tries_bounded m T F (rule_init m result_max scratch)"
    and "(T + F + 2) * (D + 1) \<le> fuel"
    and "word_of_int ruleno < max_rules m" and "rd (rules m) (unat (word_of_int ruleno :: u32)) = Inr (Some rule)"
    and "steps rule = sets @ [tk, ch, em]" and "list_all is_set_step sets"
    and "op tk = CRUSH_RULE_TAKE" and "op em = CRUSH_RULE_EMIT"
    and "op ch = CRUSH_RULE_CHOOSELEAF_FIRSTN \<or> op ch = CRUSH_RULE_CHOOSE_FIRSTN"
    and "rule_fits m result_max T F (steps rule) 0 True"
  shows "returns (\<lambda>(res, m'). distinct res)
    (crush_do_rule fuel m ruleno x result_max weights wmax scratch)"
proof -
  let ?ci = "\<lparr>weight = weights, weight_max = wmax, input_x = x\<rparr>"
  have "returns (\<lambda>s. distinct (rs_result s))
      (foldE (rule_step fuel ?ci result_max) (sets @ [tk, ch, em]) (rule_init m result_max scratch))"
    by (rule single_choose_distinct[OF assms(1,2) _ assms(6,4,5,10,11,12,13)])
      (use assms(3,9,14) in simp_all)
  then show ?thesis using assms(7,8,9) by (auto simp: crush_do_rule_def Let_def returns_iff)
qed

theorem crush_do_rule_distinct_witness:
  "returns (\<lambda>(res, m'). distinct res)
    (crush_do_rule 64 example_map 1 7 2 example_weights 4 [0, 0, 0, 0, 0, 0])"
  by (rule crush_do_rule_distinct[where sets = "[example_steps ! 0]" and tk = "example_steps ! 1"
        and ch = "example_steps ! 2" and em = "example_steps ! 3",
        OF example_map_wf example_hierarchy _ _ example_tries _ _ _ _ _ _ _ _ example_fits])
    (simp_all add: example_map_def example_weights_def example_rule_def example_steps_def is_set_step_def)

end
