(* ===== verification/Crush_Properties.thy ===== *)
theory Crush_Properties
  imports Crush_Rule
begin

text \<open>
  The properties of the CRUSH bucket choose methods and of the two choose functions, stated
  over the model of \<open>net/ceph/crush/mapper.c\<close> and instantiated on the example cluster.
\<close>

section \<open>Buckets\<close>

lemma unat_mod_upt:
  assumes "r < unat (b_size b)"
  shows "unat ((word_of_nat r :: u32) mod b_size b) = r"
proof -
  have "r < 2 ^ 32" using assms unat_less_2p[of "b_size b"] by simp
  then have "unat (word_of_nat r :: u32) = r" by (intro unat_word_of_nat_small) simp
  with assms show ?thesis by (simp add: unat_mod)
qed

text \<open>
  C40: for a fixed input \<open>x\<close> the replica positions \<open>0 .. size - 1\<close> of \<open>bucket_perm_choose\<close> run
  through every item of the bucket exactly once, whatever valid permutation cache the bucket
  carries: the lazily computed cache implements a full Fisher-Yates shuffle.
\<close>

theorem bucket_perm_choose_bijection:
  assumes "wf_bucket b" and "perm_ok b" and "distinct (b_items b)" and "b_size b \<noteq> 0"
  shows "(\<forall>r. \<exists>b'. bucket_perm_choose b x r = Inr (perm_item b x r, b') \<and> perm_ok b') \<and>
    bij_betw (\<lambda>r. perm_item b x (word_of_nat r)) {0..<unat (b_size b)} (set (b_items b))"
proof
  show "\<forall>r. \<exists>b'. bucket_perm_choose b x r = Inr (perm_item b x r, b') \<and> perm_ok b'"
    using bucket_perm_choose_ok[OF assms(1,2,4)] by blast
  let ?f = "\<lambda>r. perm_item b x (word_of_nat r)"
  have inj: "inj_on ?f {0..<unat (b_size b)}"
  proof (rule inj_onI)
    fix r s
    assume r: "r \<in> {0..<unat (b_size b)}" and s: "s \<in> {0..<unat (b_size b)}" and eq: "?f r = ?f s"
    then have "(word_of_nat r :: u32) mod b_size b = word_of_nat s mod b_size b"
      using perm_item_inj[OF assms(1,3,4)] by blast
    moreover have "unat ((word_of_nat r :: u32) mod b_size b) = r" by (rule unat_mod_upt) (use r in simp)
    moreover have "unat ((word_of_nat s :: u32) mod b_size b) = s" by (rule unat_mod_upt) (use s in simp)
    ultimately show "r = s" by metis
  qed
  have "?f ` {0..<unat (b_size b)} \<subseteq> set (b_items b)" using perm_item_in[OF assms(1,4)] by blast
  moreover have "card (set (b_items b)) = unat (b_size b)"
    using assms(1,3) by (simp add: wf_bucket_def distinct_card)
  ultimately show "bij_betw ?f {0..<unat (b_size b)} (set (b_items b))"
    using inj card_image[OF inj] by (simp add: bij_betw_def card_subset_eq)
qed

theorem bucket_perm_choose_bijection_witness:
  "bij_betw (\<lambda>r. perm_item (example_bucket (-1) 2 [-2, -3]) 9 (word_of_nat r)) {0..<2} {-2, -3}"
proof -
  have "wf_bucket (example_bucket (-1) 2 [-2, -3])" "perm_ok (example_bucket (-1) 2 [-2, -3])"
    by (simp_all add: wf_bucket_def wf_ext_def perm_ok_def example_bucket_def crush_algs)
  from bucket_perm_choose_bijection[OF this, of 9] show ?thesis by (simp add: example_bucket_def)
qed

text \<open>
  The answer of \<open>crush_bucket_choose\<close> does not depend on the history of the bucket: after
  any sequence of earlier queries, which leave permutation caches behind, it is the item that
  the cache-free reference picks.
\<close>

theorem crush_bucket_choose_history:
  assumes "cache_good b" and "b_size b \<noteq> 0"
  shows "\<exists>b'. foldE (\<lambda>(x, r) b. bindE (crush_bucket_choose b x r) (\<lambda>(i, b'). Inr b')) qs b = Inr b' \<and>
    (\<exists>b''. crush_bucket_choose b' x r = Inr (bucket_pick b x r, b''))"
  using dispatch.history_independent[OF assms, of qs x r] by blast

theorem crush_bucket_choose_history_witness:
  "\<exists>b'. foldE (\<lambda>(x, r) b. bindE (crush_bucket_choose b x r) (\<lambda>(i, b'). Inr b')) [(1, 0), (2, 1), (1, 1)]
      (example_bucket (-1) 2 [-2, -3]) = Inr b' \<and>
    (\<exists>b''. crush_bucket_choose b' 2 0 = Inr (bucket_pick (example_bucket (-1) 2 [-2, -3]) 2 0, b''))"
  by (rule crush_bucket_choose_history)
    (simp_all add: cache_good_def wf_bucket_def wf_ext_def perm_ok_def wf_tree_def example_bucket_def crush_algs)

text \<open>
  A straw bucket returns the item with the longest straw, the first one among equals.
\<close>

theorem straw_choose_longest:
  assumes "wf_bucket b" and "b_ext b = Straw_ext ws straws" and "b_size b \<noteq> 0"
  shows "\<exists>h < unat (b_size b). bucket_straw_choose b x r = Inr (b_items b ! h) \<and>
     (\<forall>i < unat (b_size b). straw_at b straws x r i \<le> straw_at b straws x r h) \<and>
     (\<forall>i < h. straw_at b straws x r i < straw_at b straws x r h)"
  by (rule bucket_straw_choose_max[OF assms])

theorem straw_choose_longest_witness:
  "\<exists>h < 2. bucket_straw_choose ((example_bucket (-1) 2 [5, 6])\<lparr>b_alg := 4, b_ext := Straw_ext [1, 1] [2, 3]\<rparr>) 1 0
      = Inr ([5, 6] ! h)"
proof -
  let ?b = "(example_bucket (-1) 2 [5, 6])\<lparr>b_alg := 4, b_ext := Straw_ext [1, 1] [2, 3]\<rparr>"
  have "wf_bucket ?b" by (simp add: wf_bucket_def wf_ext_def example_bucket_def crush_algs)
  from straw_choose_longest[OF this, of "[1, 1]" "[2, 3]" 1 0] show ?thesis
    by (auto simp: example_bucket_def)
qed

text \<open>
  In a tree bucket whose node weights are the sums of their children, the descent ends at
  an item of the bucket, and when the root has weight, at an item that has weight.
\<close>

theorem tree_choose_weighted:
  assumes "wf_bucket b" and "wf_tree b" and "b_ext b = Tree_ext num ws"
  shows "\<exists>i < unat (b_size b). bucket_tree_choose b x r = Inr (b_items b ! i) \<and>
     (ws ! (unat num div 2) \<noteq> 0 \<longrightarrow> ws ! crush_calc_tree_node i \<noteq> 0)"
  by (rule bucket_tree_choose_weighted[OF assms])

theorem tree_choose_weighted_witness:
  "\<exists>i < 2. bucket_tree_choose ((example_bucket (-1) 2 [5, 6])\<lparr>b_alg := 3, b_ext := Tree_ext 4 [0, 1, 3, 2]\<rparr>) 1 0
      = Inr ([5, 6] ! i)"
proof -
  let ?b = "(example_bucket (-1) 2 [5, 6])\<lparr>b_alg := 3, b_ext := Tree_ext 4 [0, 1, 3, 2]\<rparr>"
  have "wf_bucket ?b" by (simp add: wf_bucket_def wf_ext_def example_bucket_def crush_algs)
  moreover have "wf_tree ?b" by code_simp
  ultimately have "wf_bucket ?b" "wf_tree ?b" by simp_all
  from tree_choose_weighted[OF this, of 4 "[0, 1, 3, 2]" 1 0] show ?thesis
    by (auto simp: example_bucket_def)
qed

section \<open>First-n choice\<close>

text \<open>
  C1: on a well-formed acyclic map, with room in the output vectors and retry counters that
  do not wrap around, \<open>crush_choose_firstn\<close> returns. It places at most \<open>numrep\<close> items, pairwise
  distinct, each of the requested type and, if it is a device, not marked out; with
  \<open>recurse_to_leaf\<close> the leaf vector holds a device that is not out for each of them. Only
  permutation caches of the map change.
\<close>

theorem crush_choose_firstn_correct:
  assumes "wf_map m" and "hierarchy m rank D" and "firstn_bounded m a F"
    and "firstn_ready m ci a (length mem)" and "firstn_fuel a F D \<le> fuel"
  shows "returns (\<lambda>(n, m', mem'). n \<le> fa_numrep a \<and> agree m m' \<and>
      (\<forall>i<n. good_item m ci (fa_type a) (mem' ! (fa_out a + i)) \<and>
         (\<forall>j<i. mem' ! (fa_out a + j) \<noteq> mem' ! (fa_out a + i)) \<and>
         (\<forall>out2. fa_recurse_to_leaf a \<longrightarrow> fa_out2 a = Some out2 \<longrightarrow> good_item m ci 0 (mem' ! (out2 + i)))))
    (crush_choose_firstn 2 fuel ci a 0 m mem)"
proof -
  have "returns (firstn_post m ci a 0 mem) (crush_choose_firstn (Suc (Suc 0)) fuel ci a 0 m mem)"
    by (rule choose_firstn_returns[OF assms(1-4) wf_map_agree[OF assms(1)] assms(5)])
  then show ?thesis unfolding numeral_2_eq_2
    by (rule returns_mono) (auto simp: firstn_post_def leaf_placed_def)
qed

definition example_args :: firstn_args where
  "example_args =
    \<lparr>fa_bucket = 0, fa_numrep = 2, fa_type = 1, fa_out = 2, fa_tries = 20, fa_recurse_tries = 5,
     fa_local_retries = 0, fa_local_fallback_retries = 0, fa_recurse_to_leaf = True, fa_vary_r = 0,
     fa_out2 = Some 4, fa_parent_r = 0\<rparr>"

theorem crush_choose_firstn_correct_witness:
  "returns (\<lambda>(n, m', mem'). n \<le> 2 \<and> agree example_map m' \<and>
      (\<forall>i<n. good_item example_map \<lparr>weight = example_weights, weight_max = 4, input_x = 7\<rparr> 1 (mem' ! (2 + i)) \<and>
         (\<forall>j<i. mem' ! (2 + j) \<noteq> mem' ! (2 + i))))
    (crush_choose_firstn 2 64 \<lparr>weight = example_weights, weight_max = 4, input_x = 7\<rparr> example_args 0
       example_map [0, 0, 0, 0, 0, 0])"
proof -
  have "firstn_bounded example_map example_args 10"
    by (simp add: firstn_bounded_def example_args_def example_defs)
  moreover have "firstn_ready example_map \<lparr>weight = example_weights, weight_max = 4, input_x = 7\<rparr>
      example_args (length [0, 0, 0, 0, 0, 0 :: int])"
    by (simp add: firstn_ready_def example_args_def example_defs bucket_at_def)
  moreover have "firstn_fuel example_args 10 1 \<le> 64" by (simp add: firstn_fuel_def example_args_def)
  ultimately show ?thesis
    using crush_choose_firstn_correct[OF example_map_wf example_hierarchy, of example_args 10
        "\<lparr>weight = example_weights, weight_max = 4, input_x = 7\<rparr>" "[0, 0, 0, 0, 0, 0]" 64]
    by (auto simp: example_args_def elim!: returns_mono)
qed

end
