(* ===== verification/Wire.thy ===== *)
theory Wire
  imports Prelude
begin

text \<open>
  The wire primitives of \<open>include/linux/ceph/decode.h\<close>. A message buffer is a list of bytes,
  a position \<open>*p\<close> and an end pointer are offsets into it. Positions are integers because the
  decoders do pointer arithmetic that may leave the buffer; a read or a write outside the
  buffer is the fault \<open>OutOfBounds\<close>, whereas the checked accesses fail with the error their
  label \<open>bad\<close> returns. The theory ends with the codec contract (a locale) and its instances.
\<close>

section \<open>Little endian integers\<close>

fun le_bytes :: "nat \<Rightarrow> 'a :: len word \<Rightarrow> u8 list" where
  "le_bytes 0 w = []"
| "le_bytes (Suc n) w = ucast w # le_bytes n (drop_bit 8 w)"

fun le_word :: "u8 list \<Rightarrow> 'a :: len word" where
  "le_word [] = 0"
| "le_word (b # bs) = ucast b OR push_bit 8 (le_word bs)"

lemma length_le_bytes [simp]: "length (le_bytes n w) = n"
  by (induction n arbitrary: w) auto

lemma le_word_bytes: "le_word (le_bytes n w) = take_bit (8 * n) (w :: 'a :: len word)"
proof (induction n arbitrary: w)
  case (Suc n)
  have "ucast (ucast w :: u8) OR push_bit 8 (take_bit (8 * n) (drop_bit 8 w)) = take_bit (8 * Suc n) w"
    by (rule bit_word_eqI) (auto simp: bit_simps)
  with Suc show ?case by simp
qed simp

lemma le_word_bytes_full [simp]:
  "le_word (le_bytes (Suc 0) (v :: u8)) = v"
  "le_word (le_bytes 2 (v16 :: u16)) = v16"
  "le_word (le_bytes 4 (v32 :: u32)) = v32"
  "le_word (le_bytes 8 (v64 :: u64)) = v64"
  by (simp_all add: le_word_bytes take_bit_word_eq_self del: le_bytes.simps)

lemma le_bytes_numeral: "le_bytes (numeral k) w = ucast w # le_bytes (pred_numeral k) (drop_bit 8 w)"
  by (simp add: numeral_eq_Suc)

lemma le_bytes_one: "le_bytes 1 w = [ucast w]"
  by simp

lemma uint_nonneg: "0 \<le> uint (w :: 'a :: len word)"
  by simp

lemma unat_le_uint: "unat w \<le> n \<longleftrightarrow> uint (w :: 'a :: len word) \<le> int n"
  by (metis of_nat_le_iff uint_nat)

lemma unat_less_uint: "unat w < n \<longleftrightarrow> uint (w :: 'a :: len word) < int n"
  by (metis of_nat_less_iff uint_nat)

section \<open>Raw accesses\<close>

definition get_bytes :: "u8 list \<Rightarrow> nat \<Rightarrow> int \<Rightarrow> u8 list res" where
  "get_bytes buf n p =
    (if 0 \<le> p \<and> p + int n \<le> int (length buf) then Inr (take n (drop (nat p) buf))
     else Inl (Fault OutOfBounds))"

definition put_bytes :: "u8 list \<Rightarrow> int \<Rightarrow> u8 list \<Rightarrow> u8 list res" where
  "put_bytes buf p bs =
    (if 0 \<le> p \<and> p + int (length bs) \<le> int (length buf)
     then Inr (take (nat p) buf @ bs @ drop (nat p + length bs) buf)
     else Inl (Fault OutOfBounds))"

text \<open>
  A decoder maps a position to a value and the new position. \<open>bindD\<close> runs two decoders in
  sequence.
\<close>

type_synonym 'a dec = "int \<Rightarrow> ('a \<times> int) res"

definition retD :: "'a \<Rightarrow> 'a dec" where
  "retD v p = Inr (v, p)"

definition bindD :: "'a dec \<Rightarrow> ('a \<Rightarrow> 'b dec) \<Rightarrow> 'b dec" where
  "bindD m f p = bindE (m p) (\<lambda>(v, p). f v p)"

definition failD :: "stop \<Rightarrow> 'a dec" where
  "failD e p = Inl e"

definition posD :: "int dec" where
  "posD p = Inr (p, p)"

definition seekD :: "int \<Rightarrow> unit dec" where
  "seekD q p = Inr ((), q)"

lemma bindD_Inr_iff:
  "bindD m f p = Inr r \<longleftrightarrow> (\<exists>v q. m p = Inr (v, q) \<and> f v q = Inr r)"
  by (auto simp: bindD_def bindE_Inr_iff)

lemma bindD_retD: "bindD d retD = d"
  by (rule ext) (auto simp: bindD_def retD_def bindE_def split: sum.splits)

lemma retD_Inr_iff [simp]: "retD v p = Inr r \<longleftrightarrow> r = (v, p)"
  by (auto simp: retD_def)

lemma failD_simps [simp]: "failD e p = Inl e"
  by (simp add: failD_def)

section \<open>Decoders\<close>

definition ceph_decode_64 :: "u8 list \<Rightarrow> u64 dec" where
  "ceph_decode_64 buf p = bindE (get_bytes buf 8 p) (\<lambda>bs. Inr (le_word bs, p + 8))"

definition ceph_decode_32 :: "u8 list \<Rightarrow> u32 dec" where
  "ceph_decode_32 buf p = bindE (get_bytes buf 4 p) (\<lambda>bs. Inr (le_word bs, p + 4))"

definition ceph_decode_16 :: "u8 list \<Rightarrow> u16 dec" where
  "ceph_decode_16 buf p = bindE (get_bytes buf 2 p) (\<lambda>bs. Inr (le_word bs, p + 2))"

definition ceph_decode_8 :: "u8 list \<Rightarrow> u8 dec" where
  "ceph_decode_8 buf p = bindE (get_bytes buf 1 p) (\<lambda>bs. Inr (le_word bs, p + 1))"

definition ceph_decode_copy :: "u8 list \<Rightarrow> nat \<Rightarrow> u8 list dec" where
  "ceph_decode_copy buf n p = bindE (get_bytes buf n p) (\<lambda>bs. Inr (bs, p + int n))"

definition ceph_has_room :: "int \<Rightarrow> int \<Rightarrow> nat \<Rightarrow> bool" where
  "ceph_has_room p en n \<longleftrightarrow> p \<le> en \<and> int n \<le> en - p"

text \<open>The label \<open>bad\<close> leaves the function; \<open>e\<close> says how.\<close>

definition ceph_decode_need :: "int \<Rightarrow> nat \<Rightarrow> stop \<Rightarrow> unit dec" where
  "ceph_decode_need en n e p = (if ceph_has_room p en n then Inr ((), p) else Inl e)"

definition ceph_decode_64_safe :: "u8 list \<Rightarrow> int \<Rightarrow> stop \<Rightarrow> u64 dec" where
  "ceph_decode_64_safe buf en e = bindD (ceph_decode_need en 8 e) (\<lambda>_. ceph_decode_64 buf)"

definition ceph_decode_32_safe :: "u8 list \<Rightarrow> int \<Rightarrow> stop \<Rightarrow> u32 dec" where
  "ceph_decode_32_safe buf en e = bindD (ceph_decode_need en 4 e) (\<lambda>_. ceph_decode_32 buf)"

definition ceph_decode_16_safe :: "u8 list \<Rightarrow> int \<Rightarrow> stop \<Rightarrow> u16 dec" where
  "ceph_decode_16_safe buf en e = bindD (ceph_decode_need en 2 e) (\<lambda>_. ceph_decode_16 buf)"

definition ceph_decode_8_safe :: "u8 list \<Rightarrow> int \<Rightarrow> stop \<Rightarrow> u8 dec" where
  "ceph_decode_8_safe buf en e = bindD (ceph_decode_need en 1 e) (\<lambda>_. ceph_decode_8 buf)"

definition ceph_decode_copy_safe :: "u8 list \<Rightarrow> int \<Rightarrow> nat \<Rightarrow> stop \<Rightarrow> u8 list dec" where
  "ceph_decode_copy_safe buf en n e =
    bindD (ceph_decode_need en n e) (\<lambda>_. ceph_decode_copy buf n)"

text \<open>
  \<open>alloc n\<close> says whether an allocation of \<open>n\<close> bytes succeeds. The size \<open>len + 1\<close> is computed
  in 32 bits, and the copy writes \<open>len + 1\<close> bytes into the buffer so obtained.
\<close>

definition ceph_extract_encoded_string :: "(nat \<Rightarrow> bool) \<Rightarrow> u8 list \<Rightarrow> int \<Rightarrow> u8 list dec" where
  "ceph_extract_encoded_string alloc buf en p =
    bindE (ceph_decode_32_safe buf en (Err ERANGE) p) (\<lambda>(len, sp).
    if \<not> ceph_has_room sp en (unat len) then Inl (Err ERANGE)
    else if \<not> alloc (unat (len + 1)) then Inl (Err ENOMEM)
    else
      bindE (get_bytes buf (unat len) sp) (\<lambda>s.
      if unat (len + 1) < unat len + 1 then Inl (Fault OutOfBounds)
      else Inr (s, p + 4 + uint len)))"

text \<open>Seconds and nanoseconds of the in-core \<open>struct timespec\<close> are signed longs.\<close>

definition ceph_decode_timespec :: "u32 \<times> u32 \<Rightarrow> int \<times> int" where
  "ceph_decode_timespec tv = (uint (fst tv), uint (snd tv))"

definition ceph_encode_timespec :: "int \<times> int \<Rightarrow> u32 \<times> u32" where
  "ceph_encode_timespec ts = (word_of_int (fst ts), word_of_int (snd ts))"

text \<open>Byte order of the address family: \<open>htons\<close> and \<open>ntohs\<close> on a little endian machine.\<close>

definition bswap16 :: "u16 \<Rightarrow> u16" where
  "bswap16 v = push_bit 8 v OR drop_bit 8 v"

definition ceph_encode_addr :: "u16 \<Rightarrow> u16" where
  "ceph_encode_addr ss_family = bswap16 ss_family"

definition ceph_decode_addr :: "u16 \<Rightarrow> u16" where
  "ceph_decode_addr ss_family = bswap16 ss_family"

section \<open>Encoders\<close>

definition ceph_encode_64 :: "u8 list \<Rightarrow> int \<Rightarrow> u64 \<Rightarrow> (u8 list \<times> int) res" where
  "ceph_encode_64 buf p v = bindE (put_bytes buf p (le_bytes 8 v)) (\<lambda>buf. Inr (buf, p + 8))"

definition ceph_encode_32 :: "u8 list \<Rightarrow> int \<Rightarrow> u32 \<Rightarrow> (u8 list \<times> int) res" where
  "ceph_encode_32 buf p v = bindE (put_bytes buf p (le_bytes 4 v)) (\<lambda>buf. Inr (buf, p + 4))"

definition ceph_encode_16 :: "u8 list \<Rightarrow> int \<Rightarrow> u16 \<Rightarrow> (u8 list \<times> int) res" where
  "ceph_encode_16 buf p v = bindE (put_bytes buf p (le_bytes 2 v)) (\<lambda>buf. Inr (buf, p + 2))"

definition ceph_encode_8 :: "u8 list \<Rightarrow> int \<Rightarrow> u8 \<Rightarrow> (u8 list \<times> int) res" where
  "ceph_encode_8 buf p v = bindE (put_bytes buf p (le_bytes 1 v)) (\<lambda>buf. Inr (buf, p + 1))"

definition ceph_encode_copy :: "u8 list \<Rightarrow> int \<Rightarrow> u8 list \<Rightarrow> (u8 list \<times> int) res" where
  "ceph_encode_copy buf p s = bindE (put_bytes buf p s) (\<lambda>buf. Inr (buf, p + int (length s)))"

text \<open>A path is the string up to its terminating zero, or no string.\<close>

definition ceph_encode_filepath ::
  "u8 list \<Rightarrow> int \<Rightarrow> int \<Rightarrow> u64 \<Rightarrow> u8 list option \<Rightarrow> (u8 list \<times> int) res" where
  "ceph_encode_filepath buf en p ino path =
    (let s = (case path of None \<Rightarrow> [] | Some s \<Rightarrow> s);
         len = word_of_nat (length s) :: u32 in
     bindE (guardE (p + 1 + 8 + 4 + uint len \<le> en) (Fault BugOn)) (\<lambda>_.
     bindE (ceph_encode_8 buf p 1) (\<lambda>(buf, p).
     bindE (ceph_encode_64 buf p ino) (\<lambda>(buf, p).
     bindE (ceph_encode_32 buf p len) (\<lambda>(buf, p).
     ceph_encode_copy buf p (take (unat len) s))))))"

text \<open>The caller passes a string of at least \<open>len\<close> bytes.\<close>

definition ceph_encode_string ::
  "u8 list \<Rightarrow> int \<Rightarrow> int \<Rightarrow> u8 list \<Rightarrow> u32 \<Rightarrow> (u8 list \<times> int) res" where
  "ceph_encode_string buf en p s len =
    bindE (guardE (p + 4 + uint len \<le> en) (Fault BugOn)) (\<lambda>_.
    bindE (ceph_encode_32 buf p len) (\<lambda>(buf, p).
    bindE (get_bytes s (unat len) 0) (\<lambda>s.
    ceph_encode_copy buf p s)))"

definition ceph_encode_need :: "int \<Rightarrow> int \<Rightarrow> nat \<Rightarrow> stop \<Rightarrow> unit res" where
  "ceph_encode_need en p n e = guardE (ceph_has_room p en n) e"

definition ceph_encode_64_safe :: "u8 list \<Rightarrow> int \<Rightarrow> int \<Rightarrow> u64 \<Rightarrow> stop \<Rightarrow> (u8 list \<times> int) res" where
  "ceph_encode_64_safe buf en p v e = bindE (ceph_encode_need en p 8 e) (\<lambda>_. ceph_encode_64 buf p v)"

definition ceph_encode_32_safe :: "u8 list \<Rightarrow> int \<Rightarrow> int \<Rightarrow> u32 \<Rightarrow> stop \<Rightarrow> (u8 list \<times> int) res" where
  "ceph_encode_32_safe buf en p v e = bindE (ceph_encode_need en p 4 e) (\<lambda>_. ceph_encode_32 buf p v)"

definition ceph_encode_16_safe :: "u8 list \<Rightarrow> int \<Rightarrow> int \<Rightarrow> u16 \<Rightarrow> stop \<Rightarrow> (u8 list \<times> int) res" where
  "ceph_encode_16_safe buf en p v e = bindE (ceph_encode_need en p 2 e) (\<lambda>_. ceph_encode_16 buf p v)"

definition ceph_encode_8_safe :: "u8 list \<Rightarrow> int \<Rightarrow> int \<Rightarrow> u8 \<Rightarrow> stop \<Rightarrow> (u8 list \<times> int) res" where
  "ceph_encode_8_safe buf en p v e = bindE (ceph_encode_need en p 1 e) (\<lambda>_. ceph_encode_8 buf p v)"

definition ceph_encode_copy_safe ::
  "u8 list \<Rightarrow> int \<Rightarrow> int \<Rightarrow> u8 list \<Rightarrow> stop \<Rightarrow> (u8 list \<times> int) res" where
  "ceph_encode_copy_safe buf en p s e =
    bindE (ceph_encode_need en p (length s) e) (\<lambda>_. ceph_encode_copy buf p s)"

definition ceph_encode_string_safe ::
  "u8 list \<Rightarrow> int \<Rightarrow> int \<Rightarrow> u8 list \<Rightarrow> u32 \<Rightarrow> stop \<Rightarrow> (u8 list \<times> int) res" where
  "ceph_encode_string_safe buf en p s n e =
    bindE (ceph_encode_need en p (unat n) e) (\<lambda>_. ceph_encode_string buf en p s n)"

section \<open>The accesses obey the array laws\<close>

lemma get_bytes_Inr_iff:
  "get_bytes buf n p = Inr bs \<longleftrightarrow>
     0 \<le> p \<and> p + int n \<le> int (length buf) \<and> bs = take n (drop (nat p) buf)"
  by (auto simp: get_bytes_def)

lemma get_bytes_length: "get_bytes buf n p = Inr bs \<Longrightarrow> length bs = n"
  by (auto simp: get_bytes_Inr_iff)

lemma put_bytes_Inr_iff:
  "put_bytes buf p bs = Inr buf' \<longleftrightarrow>
     0 \<le> p \<and> p + int (length bs) \<le> int (length buf) \<and>
     buf' = take (nat p) buf @ bs @ drop (nat p + length bs) buf"
  by (auto simp: put_bytes_def)

lemma put_bytes_length: "put_bytes buf p bs = Inr buf' \<Longrightarrow> length buf' = length buf"
  by (auto simp: put_bytes_Inr_iff)

text \<open>Storing bytes behind what is already written.\<close>

lemma put_at: "length bs \<le> length junk \<Longrightarrow> put_bytes (pre @ junk) (int (length pre)) bs = Inr (pre @ bs @ drop (length bs) junk)"
  by (simp add: put_bytes_def)

lemma put_at': "p = int (length pre) \<Longrightarrow> length bs \<le> length junk \<Longrightarrow> put_bytes (pre @ junk) p bs = Inr ((pre @ bs) @ drop (length bs) junk)"
  by (simp add: put_at)

lemma get_put_same:
  assumes "put_bytes buf p bs = Inr buf'"
  shows "get_bytes buf' (length bs) p = Inr bs"
  using assms put_bytes_length[OF assms] by (auto simp: put_bytes_Inr_iff get_bytes_Inr_iff)

lemma get_put_other:
  assumes "put_bytes buf q bs = Inr buf'" and "p + int n \<le> q \<or> q + int (length bs) \<le> p"
  shows "get_bytes buf' n p = get_bytes buf n p"
proof (cases "0 \<le> p \<and> p + int n \<le> int (length buf)")
  case True
  from assms(1) have q: "0 \<le> q" "q + int (length bs) \<le> int (length buf)"
    and buf': "buf' = take (nat q) buf @ bs @ drop (nat q + length bs) buf"
    by (auto simp: put_bytes_Inr_iff)
  have "take n (drop (nat p) buf') = take n (drop (nat p) buf)"
  proof (rule nth_equalityI)
    fix i assume "i < length (take n (drop (nat p) buf'))"
    with True put_bytes_length[OF assms(1)] have i: "i < n" "nat p + i < length buf" by auto
    have "buf' ! (nat p + i) = buf ! (nat p + i)"
      using i assms(2) q True unfolding buf' by (auto simp: nth_append)
    with i True put_bytes_length[OF assms(1)]
    show "take n (drop (nat p) buf') ! i = take n (drop (nat p) buf) ! i" by simp
  qed (use put_bytes_length[OF assms(1)] in simp)
  with True put_bytes_length[OF assms(1)] show ?thesis by (simp add: get_bytes_def)
qed (use put_bytes_length[OF assms(1)] in \<open>auto simp: get_bytes_def\<close>)

section \<open>The codec contract\<close>

text \<open>Decoding \<open>n\<close> values in a row.\<close>

fun decode_array :: "'a dec \<Rightarrow> nat \<Rightarrow> 'a list dec" where
  "decode_array d 0 = retD []"
| "decode_array d (Suc n) = bindD d (\<lambda>v. bindD (decode_array d n) (\<lambda>vs. retD (v # vs)))"

lemma decode_array_eval:
  "decode_array d 1 = bindD d (\<lambda>v. retD [v])"
  "decode_array d (numeral k) =
     bindD d (\<lambda>v. bindD (decode_array d (pred_numeral k)) (\<lambda>vs. retD (v # vs)))"
  by (rule ext) (simp_all add: numeral_eq_Suc bindD_def retD_def)

lemma decode_array_length: "decode_array d n p = Inr (vs, q) \<Longrightarrow> length vs = n"
  by (induction n arbitrary: p vs q) (auto simp: bindD_Inr_iff)

lemma decode_array_all:
  assumes "decode_array d n p = Inr (vs, q)" and "\<And>p v q. d p = Inr (v, q) \<Longrightarrow> P v"
  shows "\<forall>v\<in>set vs. P v"
  using assms(1) by (induction n arbitrary: p vs q) (auto simp: bindD_Inr_iff dest: assms(2))

text \<open>
  An encoder and a decoder of a value of fixed width: the encoder stores the representation
  of the value, the decoder recovers the value from it.
\<close>

locale field_codec =
  fixes enc :: "u8 list \<Rightarrow> int \<Rightarrow> 'a \<Rightarrow> (u8 list \<times> int) res"
    and dec :: "u8 list \<Rightarrow> 'a dec"
    and rep :: "'a \<Rightarrow> u8 list"
    and width :: nat
  assumes rep_width: "length (rep v) = width"
    and enc_eq: "enc buf p v = bindE (put_bytes buf p (rep v)) (\<lambda>buf. Inr (buf, p + int width))"
    and dec_rep: "get_bytes buf width p = Inr (rep v) \<Longrightarrow> dec buf p = Inr (v, p + int width)"
begin

lemma enc_total:
  assumes "0 \<le> p" and "p + int width \<le> int (length buf)"
  shows "\<exists>buf'. enc buf p v = Inr (buf', p + int width) \<and> length buf' = length buf"
  using assms rep_width[of v] by (auto simp: enc_eq put_bytes_def)

lemma enc_fault:
  assumes "p < 0 \<or> int (length buf) < p + int width"
  shows "enc buf p v = Inl (Fault OutOfBounds)"
  using assms rep_width[of v] by (auto simp: enc_eq put_bytes_def)

lemma round_trip:
  assumes "enc buf p v = Inr (buf', p')"
  shows "dec buf' p = Inr (v, p')"
  using assms get_put_same[of buf p "rep v" buf'] rep_width[of v] dec_rep by (auto simp: enc_eq)

lemma enc_array_frame:
  assumes "foldE (\<lambda>v (buf, p). enc buf p v) vs (buf, p) = Inr (buf', p')" and "q + int n \<le> p"
  shows "get_bytes buf' n q = get_bytes buf n q"
  using assms
proof (induction vs arbitrary: buf p)
  case (Cons v vs)
  then obtain buf1 where st: "put_bytes buf p (rep v) = Inr buf1"
    "foldE (\<lambda>v (buf, p). enc buf p v) vs (buf1, p + int width) = Inr (buf', p')"
    by (auto simp: enc_eq)
  with Cons.IH[OF st(2)] Cons.prems(2) get_put_other[OF st(1), of q n] show ?case by simp
qed simp

lemma array_round_trip:
  assumes "foldE (\<lambda>v (buf, p). enc buf p v) vs (buf, p) = Inr (buf', p')"
  shows "decode_array (dec buf') (length vs) p = Inr (vs, p')"
  using assms
proof (induction vs arbitrary: buf p)
  case (Cons v vs)
  then obtain buf1 where st: "put_bytes buf p (rep v) = Inr buf1"
    "foldE (\<lambda>v (buf, p). enc buf p v) vs (buf1, p + int width) = Inr (buf', p')"
    by (auto simp: enc_eq)
  from enc_array_frame[OF st(2), of p width] get_put_same[OF st(1)] rep_width[of v]
  have "dec buf' p = Inr (v, p + int width)" by (intro dec_rep) simp
  with Cons.IH[OF st(2)] show ?case by (simp add: bindD_def retD_def)
qed (simp add: retD_def)

end

interpretation w64: field_codec ceph_encode_64 ceph_decode_64 "le_bytes 8" 8
  by unfold_locales (simp_all add: ceph_encode_64_def ceph_decode_64_def del: le_bytes.simps)

interpretation w32: field_codec ceph_encode_32 ceph_decode_32 "le_bytes 4" 4
  by unfold_locales (simp_all add: ceph_encode_32_def ceph_decode_32_def del: le_bytes.simps)

interpretation w16: field_codec ceph_encode_16 ceph_decode_16 "le_bytes 2" 2
  by unfold_locales (simp_all add: ceph_encode_16_def ceph_decode_16_def del: le_bytes.simps)

interpretation w8: field_codec ceph_encode_8 ceph_decode_8 "le_bytes 1" 1
  by unfold_locales (simp_all add: ceph_encode_8_def ceph_decode_8_def del: le_bytes.simps)

section \<open>Decoders that do not fault\<close>

text \<open>
  \<open>stays A d\<close>: started at a position that is not negative, \<open>d\<close> stops only as \<open>A\<close> allows and does
  not move the position backwards.
\<close>

definition stays :: "(stop \<Rightarrow> bool) \<Rightarrow> 'a dec \<Rightarrow> bool" where
  "stays A d \<longleftrightarrow> (\<forall>p\<ge>0. safe A (\<lambda>(v, q). p \<le> q) (d p))"

text \<open>\<open>fixed buf n d\<close>: \<open>d\<close> consumes \<open>n\<close> bytes and does not fault when they are there.\<close>

definition fixed :: "u8 list \<Rightarrow> nat \<Rightarrow> 'a dec \<Rightarrow> bool" where
  "fixed buf n d \<longleftrightarrow>
     (\<forall>p. 0 \<le> p \<and> p + int n \<le> int (length buf) \<longrightarrow> returns (\<lambda>(v, q). q = p + int n) (d p))"

lemma fixed_words:
  "fixed buf 8 (ceph_decode_64 buf)" "fixed buf 4 (ceph_decode_32 buf)"
  "fixed buf 2 (ceph_decode_16 buf)" "fixed buf 1 (ceph_decode_8 buf)"
  "fixed buf n (ceph_decode_copy buf n)"
  by (auto simp: fixed_def ceph_decode_64_def ceph_decode_32_def ceph_decode_16_def ceph_decode_8_def
      ceph_decode_copy_def get_bytes_def)

lemma fixed_bind:
  assumes "fixed buf m d" and "\<And>v. fixed buf n (f v)"
  shows "fixed buf (m + n) (bindD d f)"
  unfolding fixed_def
proof (intro allI impI)
  fix p :: int
  assume p: "0 \<le> p \<and> p + int (m + n) \<le> int (length buf)"
  with assms(1) have d: "returns (\<lambda>(v, q). q = p + int m) (d p)" by (simp add: fixed_def)
  have f: "returns (\<lambda>(v, q). q = p + int m + int n) (f v (p + int m))" for v
    using assms(2)[of v] p by (simp add: fixed_def)
  show "returns (\<lambda>(v, q). q = p + int (m + n)) (bindD d f p)"
    unfolding bindD_def by (rule returns_bind[OF d]) (use f in \<open>auto simp: add.assoc\<close>)
qed

lemma fixed_ret: "fixed buf 0 (retD v)"
  by (simp add: fixed_def retD_def)

lemma fixed_map: "fixed buf n d \<Longrightarrow> fixed buf n (bindD d (\<lambda>v. retD (f v)))"
  using fixed_bind[of buf n d 0 "\<lambda>v. retD (f v)"] by (simp add: fixed_ret)

lemma fixed_array: "fixed buf n d \<Longrightarrow> fixed buf (k * n) (decode_array d k)"
proof (induction k)
  case (Suc k)
  have "fixed buf (n + k * n) (decode_array d (Suc k))"
    unfolding decode_array.simps by (intro fixed_bind fixed_map Suc.prems Suc.IH)
  then show ?case by simp
qed (simp add: fixed_ret)

lemma stays_at:
  assumes "stays A d" and "0 \<le> p" and "p \<le> q"
  shows "safe A (\<lambda>(v, r). p \<le> r) (d q)"
proof -
  have "safe A (\<lambda>(v, r). q \<le> r) (d q)" using assms by (simp add: stays_def)
  then show ?thesis by (rule safe_mono) (use assms(3) in auto)
qed

lemma stays_ret: "stays A (retD v)"
  by (simp add: stays_def retD_def)

lemma stays_fail: "A e \<Longrightarrow> stays A (failD e)"
  by (simp add: stays_def failD_def)

lemma stays_bind_val:
  assumes "stays A d" and "\<And>p v q. d p = Inr (v, q) \<Longrightarrow> stays A (f v)"
  shows "stays A (bindD d f)"
  unfolding stays_def
proof (intro allI impI)
  fix p :: int
  assume p: "0 \<le> p"
  with assms(1) have d: "safe A (\<lambda>(v, q). p \<le> q) (d p)" by (simp add: stays_def)
  show "safe A (\<lambda>(v, q). p \<le> q) (bindD d f p)"
  proof (cases "d p")
    case (Inr vq)
    obtain v q where vq: "vq = (v, q)" by (cases vq)
    then have "p \<le> q" using d Inr by simp
    with stays_at[OF assms(2) p] Inr vq show ?thesis by (simp add: bindD_def)
  qed (use d in \<open>simp add: bindD_def\<close>)
qed

lemma stays_bind: "stays A d \<Longrightarrow> (\<And>v. stays A (f v)) \<Longrightarrow> stays A (bindD d f)"
  by (rule stays_bind_val)

lemma stays_if: "(b \<Longrightarrow> stays A d) \<Longrightarrow> (\<not> b \<Longrightarrow> stays A d') \<Longrightarrow> stays A (if b then d else d')"
  by simp

text \<open>\<open>room buf k A d\<close>: the same when the \<open>k\<close> next bytes are known to be in the buffer.\<close>

definition room :: "u8 list \<Rightarrow> nat \<Rightarrow> (stop \<Rightarrow> bool) \<Rightarrow> 'a dec \<Rightarrow> bool" where
  "room buf k A d \<longleftrightarrow>
     (\<forall>p. 0 \<le> p \<and> p + int k \<le> int (length buf) \<longrightarrow> safe A (\<lambda>(v, q). p \<le> q) (d p))"

lemma room_stays: "stays A d \<Longrightarrow> room buf k A d"
  by (simp add: room_def stays_def)

lemma room_fixed:
  assumes "fixed buf n d" and "n \<le> k"
  shows "room buf k A d"
  unfolding room_def
proof (intro allI impI)
  fix p :: int
  assume "0 \<le> p \<and> p + int k \<le> int (length buf)"
  with assms have "returns (\<lambda>(v, q). q = p + int n) (d p)" by (auto simp: fixed_def)
  then show "safe A (\<lambda>(v, q). p \<le> q) (d p)" by (auto simp: returns_iff)
qed

lemma room_bind:
  assumes "fixed buf n d" and "n \<le> k" and "\<And>v. room buf (k - n) A (f v)"
  shows "room buf k A (bindD d f)"
  unfolding room_def
proof (intro allI impI)
  fix p :: int
  assume p: "0 \<le> p \<and> p + int k \<le> int (length buf)"
  with assms(1,2) have "returns (\<lambda>(v, q). q = p + int n) (d p)" by (auto simp: fixed_def)
  then obtain v where v: "d p = Inr (v, p + int n)" by (auto simp: returns_iff)
  have "safe A (\<lambda>(v, q). p + int n \<le> q) (f v (p + int n))"
    using assms(3)[of v] p assms(2) by (simp add: room_def of_nat_diff)
  then have "safe A (\<lambda>(v, q). p \<le> q) (f v (p + int n))" by (rule safe_mono) auto
  with v show "safe A (\<lambda>(v, q). p \<le> q) (bindD d f p)" by (simp add: bindD_def)
qed

text \<open>A check for \<open>k\<close> bytes licenses a decoder that needs \<open>k\<close> bytes.\<close>

lemma stays_need:
  assumes "en \<le> int (length buf)" and "room buf k A d" and "A e"
  shows "stays A (bindD (ceph_decode_need en k e) (\<lambda>_. d))"
  using assms
  by (auto simp: stays_def room_def bindD_def ceph_decode_need_def ceph_has_room_def)

lemma stays_safe_words:
  assumes "en \<le> int (length buf)" and "A e"
  shows "stays A (ceph_decode_64_safe buf en e)" "stays A (ceph_decode_32_safe buf en e)"
    "stays A (ceph_decode_16_safe buf en e)" "stays A (ceph_decode_8_safe buf en e)"
    "stays A (ceph_decode_copy_safe buf en n e)"
  unfolding ceph_decode_64_safe_def ceph_decode_32_safe_def ceph_decode_16_safe_def
    ceph_decode_8_safe_def ceph_decode_copy_safe_def
  by (rule stays_need[OF assms(1) room_fixed[OF fixed_words(1)]]
      stays_need[OF assms(1) room_fixed[OF fixed_words(2)]]
      stays_need[OF assms(1) room_fixed[OF fixed_words(3)]]
      stays_need[OF assms(1) room_fixed[OF fixed_words(4)]]
      stays_need[OF assms(1) room_fixed[OF fixed_words(5)]];
      (rule order_refl assms(2)))+

lemma stays_array: "stays A d \<Longrightarrow> stays A (decode_array d n)"
  by (induction n) (auto intro!: stays_bind stays_ret)

section \<open>Strings\<close>

lemma decode_need_iff [simp]:
  "ceph_decode_need en n e p = Inr (u, p') \<longleftrightarrow> ceph_has_room p en n \<and> p' = p"
  "ceph_decode_need en n e p = Inl s \<longleftrightarrow> \<not> ceph_has_room p en n \<and> s = e"
  by (auto simp: ceph_decode_need_def)

text \<open>A checked access inside the buffer never faults.\<close>

lemma get_bytes_room:
  assumes "ceph_has_room p en n" and "0 \<le> p" and "en \<le> int (length buf)"
  shows "get_bytes buf n p = Inr (take n (drop (nat p) buf))"
  using assms by (auto simp: ceph_has_room_def get_bytes_def)

lemma decode_32_safe_cases:
  assumes "0 \<le> p" and "en \<le> int (length buf)"
  shows "ceph_decode_32_safe buf en e p =
    (if ceph_has_room p en 4 then Inr (le_word (take 4 (drop (nat p) buf)), p + 4) else Inl e)"
  using assms get_bytes_room[OF _ assms, of 4]
  by (auto simp: ceph_decode_32_safe_def bindD_def ceph_decode_need_def ceph_decode_32_def)

lemma extract_string_cases:
  assumes "0 \<le> p" and "en \<le> int (length buf)" and "int (length buf) < 2 ^ 32"
  shows "ceph_extract_encoded_string alloc buf en p =
    (let len = le_word (take 4 (drop (nat p) buf)) :: u32 in
     if \<not> ceph_has_room p en 4 \<or> \<not> ceph_has_room (p + 4) en (unat len) then Inl (Err ERANGE)
     else if \<not> alloc (unat len + 1) then Inl (Err ENOMEM)
     else Inr (take (unat len) (drop (nat p + 4) buf), p + 4 + uint len))"
proof (cases "ceph_has_room p en 4")
  case True
  let ?len = "le_word (take 4 (drop (nat p) buf)) :: u32"
  show ?thesis
  proof (cases "ceph_has_room (p + 4) en (unat ?len)")
    case room: True
    then have "uint ?len + 1 < 2 ^ 32" using assms by (auto simp: ceph_has_room_def)
    then have "unat ?len + 1 < 2 ^ 32" using unat_less_uint[of ?len "2 ^ 32 - 1"] by simp
    then have "unat (?len + 1) = unat ?len + 1" by (simp add: unat_word_ariths)
    moreover have "nat (p + 4) = nat p + 4" using assms(1) by simp
    ultimately show ?thesis using True room assms get_bytes_room[OF room]
      by (simp add: ceph_extract_encoded_string_def decode_32_safe_cases Let_def)
  qed (use True assms in \<open>simp add: ceph_extract_encoded_string_def decode_32_safe_cases\<close>)
qed (use assms in \<open>simp add: ceph_extract_encoded_string_def decode_32_safe_cases\<close>)

lemma encode_string_Inr:
  assumes "ceph_encode_string buf en p s len = Inr (buf', p')"
  shows "0 \<le> p" "p + 4 + uint len \<le> en" "unat len \<le> length s" "length buf' = length buf"
    "p' = p + 4 + uint len" "get_bytes buf' 4 p = Inr (le_bytes 4 len)"
    "get_bytes buf' (unat len) (p + 4) = Inr (take (unat len) s)"
proof -
  from assms have "get_bytes s (unat len) 0 = Inr (take (unat len) s)" "unat len \<le> length s"
    by (auto simp: ceph_encode_string_def get_bytes_Inr_iff unat_le_uint)
  with assms obtain buf1 where st: "put_bytes buf p (le_bytes 4 len) = Inr buf1"
    "put_bytes buf1 (p + 4) (take (unat len) s) = Inr buf'"
    and r: "p + 4 + uint len \<le> en" "unat len \<le> length s" "p' = p + 4 + uint len"
    by (auto simp: ceph_encode_string_def ceph_encode_32_def ceph_encode_copy_def min_def
        simp del: le_bytes.simps)
  from st(1) show "0 \<le> p" by (simp add: put_bytes_Inr_iff)
  show "p + 4 + uint len \<le> en" "unat len \<le> length s" "p' = p + 4 + uint len" by (fact r)+
  show "length buf' = length buf" using put_bytes_length[OF st(1)] put_bytes_length[OF st(2)] by simp
  show "get_bytes buf' 4 p = Inr (le_bytes 4 len)"
    using get_put_other[OF st(2), of p 4] get_put_same[OF st(1)] by (simp del: le_bytes.simps)
  show "get_bytes buf' (unat len) (p + 4) = Inr (take (unat len) s)"
    using get_put_same[OF st(2)] r(2) by simp
qed

section \<open>Properties\<close>

text \<open>
  An array of 32-bit values that the encoder stored at \<open>p\<close> is decoded from the same
  position as the same values, and both end at the same position.
\<close>

theorem encode_decode_32_array:
  assumes "foldE (\<lambda>v (buf, p). ceph_encode_32 buf p v) vs (buf, p) = Inr (buf', p')"
  shows "decode_array (ceph_decode_32 buf') (length vs) p = Inr (vs, p')"
  using assms by (rule w32.array_round_trip)

theorem encode_decode_32_array_witness:
  "decode_array (ceph_decode_32 [7, 1, 0, 0, 0, 0xff, 0xff, 0xff, 0xff]) 2 1 = Inr ([1, 0xffffffff], 9)"
  using encode_decode_32_array[of "[1, 0xffffffff]" "[7, 0, 0, 0, 0, 0, 0, 0, 0]" 1
      "[7, 1, 0, 0, 0, 0xff, 0xff, 0xff, 0xff]" 9]
  by (simp add: ceph_encode_32_def put_bytes_def le_bytes_numeral numeral_2_eq_2[symmetric]
      del: decode_array.simps)

text \<open>
  Decoding any bytes with \<open>ceph_extract_encoded_string\<close>, inside a buffer of less than
  4 GiB, does not fault: it fails with \<open>ERANGE\<close> exactly when the length word or the string
  does not fit before the end, with \<open>ENOMEM\<close> when it fits and the allocation of the string and
  its terminator fails, and otherwise returns the bytes behind the length word.
\<close>

theorem extract_encoded_string_spec:
  assumes "0 \<le> p" and "en \<le> int (length buf)" and "int (length buf) < 2 ^ 32"
  shows "ceph_extract_encoded_string alloc buf en p =
    (let len = le_word (take 4 (drop (nat p) buf)) :: u32 in
     if en < p + 4 + (if p + 4 \<le> en then uint len else 0) then Inl (Err ERANGE)
     else if \<not> alloc (unat len + 1) then Inl (Err ENOMEM)
     else Inr (take (unat len) (drop (nat p + 4) buf), p + 4 + uint len))"
  using extract_string_cases[OF assms, of alloc] by (auto simp: Let_def ceph_has_room_def)

theorem extract_encoded_string_spec_witness:
  "ceph_extract_encoded_string (\<lambda>n. n < 100) [2, 0, 0, 0, 65, 66, 9] 7 0 = Inr ([65, 66], 6) \<and>
   ceph_extract_encoded_string (\<lambda>n. n < 100) [2, 0, 0, 0, 65, 66, 9] 5 0 = Inl (Err ERANGE)"
  using extract_encoded_string_spec[of 0 7 "[2, 0, 0, 0, 65, 66, 9]" "\<lambda>n. n < 100"]
    extract_encoded_string_spec[of 0 5 "[2, 0, 0, 0, 65, 66, 9]" "\<lambda>n. n < 100"]
  by (simp add: Let_def)

text \<open>
  A string written by \<open>ceph_encode_string\<close> is read back by
  \<open>ceph_extract_encoded_string\<close>, and the reader stops where the writer stopped.
\<close>

theorem encode_extract_string:
  assumes "ceph_encode_string buf en p s len = Inr (buf', p')" and "en \<le> int (length buf)"
    and "int (length buf) < 2 ^ 32" and "alloc (unat len + 1)"
  shows "ceph_extract_encoded_string alloc buf' en p = Inr (take (unat len) s, p')"
proof -
  note e = encode_string_Inr[OF assms(1)]
  from e(6) have len: "le_word (take 4 (drop (nat p) buf')) = len"
    by (simp add: get_bytes_Inr_iff del: le_bytes.simps) (metis le_word_bytes_full(3))
  from e(7) have "take (unat len) (drop (nat p + 4) buf') = take (unat len) s"
    using e(1) by (simp add: get_bytes_Inr_iff nat_add_distrib)
  moreover have "p + 4 \<le> en" using e(2) uint_nonneg[of len] by linarith
  ultimately show ?thesis
    using extract_string_cases[of p en buf' alloc] e len assms
    by (simp add: Let_def ceph_has_room_def)
qed

theorem encode_extract_string_witness:
  "ceph_extract_encoded_string (\<lambda>n. True) [2, 0, 0, 0, 65, 66, 0] 7 0 = Inr ([65, 66], 6)"
  using encode_extract_string[of "[0, 0, 0, 0, 0, 0, 0]" 7 0 "[65, 66]" 2 "[2, 0, 0, 0, 65, 66, 0]" 6 "\<lambda>n. True"]
  by (simp add: ceph_encode_string_def ceph_encode_32_def ceph_encode_copy_def put_bytes_def
      get_bytes_def le_bytes_numeral)

text \<open>
  \<open>ceph_encode_string_safe\<close> is not safe: when the string fits before the end but the
  four bytes of its length do not, the check passes and the \<open>BUG_ON\<close> of the encoder fires.
\<close>

theorem encode_string_safe_bug:
  assumes "p + uint n \<le> en" and "en < p + 4 + uint n"
  shows "ceph_encode_string_safe buf en p s n e = Inl (Fault BugOn)"
proof -
  have "p \<le> en" using assms(1) uint_nonneg[of n] by linarith
  with assms show ?thesis
    by (simp add: ceph_encode_string_safe_def ceph_encode_need_def ceph_has_room_def ceph_encode_string_def)
qed

theorem encode_string_safe_bug_witness:
  "ceph_encode_string_safe [0, 0, 0] 3 0 [65, 66] 2 (Err EINVAL) = Inl (Fault BugOn)"
  by (rule encode_string_safe_bug) simp_all

text \<open>
  Time stamps survive the wire: encoding undoes decoding on every wire value, and
  decoding undoes encoding for seconds and nanoseconds in the range of 32 unsigned bits.
\<close>

theorem timespec_round_trip:
  "ceph_encode_timespec (ceph_decode_timespec tv) = tv \<and>
   ceph_decode_timespec (ceph_encode_timespec ts) = (fst ts mod 2 ^ 32, snd ts mod 2 ^ 32)"
  by (simp add: ceph_encode_timespec_def ceph_decode_timespec_def uint_word_of_int)

text \<open>The address family is restored by decoding after encoding, and the other way round.\<close>

theorem addr_round_trip:
  "ceph_decode_addr (ceph_encode_addr f) = f \<and> ceph_encode_addr (ceph_decode_addr f) = f"
proof -
  have "bswap16 (bswap16 f) = f"
    unfolding bswap16_def by (rule bit_word_eqI) (auto simp: bit_simps)
  then show ?thesis by (simp add: ceph_decode_addr_def ceph_encode_addr_def)
qed

end
