(* ===== verification/Crush_Decode.thy ===== *)
theory Crush_Decode
  imports Crush_Rule Wire
begin

text \<open>
  Decoding a CRUSH map from a message (\<open>crush_decode\<close> and its helpers in
  \<open>net/ceph/osdmap.c\<close>). The bytes come from the network, so every branch of the input checks
  is modelled, with the 32-bit arithmetic of the size computations and the signed length of
  \<open>skip_name_map\<close>. \<open>alloc n\<close> says whether an allocation of \<open>n\<close> bytes succeeds; the sizes of
  the structs are those of a 64-bit machine.
\<close>

section \<open>Helpers\<close>

definition kcalloc :: "(nat \<Rightarrow> bool) \<Rightarrow> nat \<Rightarrow> nat \<Rightarrow> stop \<Rightarrow> unit dec" where
  "kcalloc alloc n sz e p = (if n * sz < 2 ^ 64 \<and> alloc (n * sz) then Inr ((), p) else Inl e)"

definition liftD :: "'a res \<Rightarrow> 'a dec" where
  "liftD r p = bindE r (\<lambda>v. Inr (v, p))"

definition decode_s32 :: "u8 list \<Rightarrow> int dec" where
  "decode_s32 buf = bindD (ceph_decode_32 buf) (\<lambda>v. retD (sint v))"

definition decode_pair_32 :: "u8 list \<Rightarrow> (u32 \<times> u32) dec" where
  "decode_pair_32 buf =
    bindD (ceph_decode_32 buf) (\<lambda>a. bindD (ceph_decode_32 buf) (\<lambda>b. retD (a, b)))"

section \<open>Bucket payloads\<close>

text \<open>
  The payload decoders cast the bucket to the struct of its \<open>alg\<close> byte; the fields they write
  exist only when the bucket was allocated as that struct. The sizes \<open>1 + size\<close> and
  \<open>2 * size\<close> are 32-bit products.
\<close>

definition crush_decode_uniform_bucket :: "u8 list \<Rightarrow> int \<Rightarrow> crush_bucket \<Rightarrow> crush_bucket dec" where
  "crush_decode_uniform_bucket buf en b =
    bindD (liftD (as_uniform b)) (\<lambda>_.
    bindD (ceph_decode_need en (unat (1 + b_size b) * 4) (Err EINVAL)) (\<lambda>_.
    bindD (ceph_decode_32 buf) (\<lambda>w.
    retD (b\<lparr>b_ext := Uniform_ext w\<rparr>))))"

definition crush_decode_list_bucket ::
  "(nat \<Rightarrow> bool) \<Rightarrow> u8 list \<Rightarrow> int \<Rightarrow> crush_bucket \<Rightarrow> crush_bucket dec" where
  "crush_decode_list_bucket alloc buf en b =
    bindD (liftD (as_list b)) (\<lambda>_.
    bindD (kcalloc alloc (unat (b_size b)) 4 (Err ENOMEM)) (\<lambda>_.
    bindD (kcalloc alloc (unat (b_size b)) 4 (Err ENOMEM)) (\<lambda>_.
    bindD (ceph_decode_need en (unat (2 * b_size b) * 4) (Err EINVAL)) (\<lambda>_.
    bindD (decode_array (decode_pair_32 buf) (unat (b_size b))) (\<lambda>ws.
    retD (b\<lparr>b_ext := List_ext (map fst ws) (map snd ws)\<rparr>))))))"

text \<open>\<open>num_nodes\<close> is a byte: the decoded word is truncated.\<close>

definition crush_decode_tree_bucket ::
  "(nat \<Rightarrow> bool) \<Rightarrow> u8 list \<Rightarrow> int \<Rightarrow> crush_bucket \<Rightarrow> crush_bucket dec" where
  "crush_decode_tree_bucket alloc buf en b =
    bindD (liftD (as_tree b)) (\<lambda>_.
    bindD (ceph_decode_32_safe buf en (Err EINVAL)) (\<lambda>v.
    let num_nodes = ucast v :: u8 in
    bindD (kcalloc alloc (unat num_nodes) 4 (Err ENOMEM)) (\<lambda>_.
    bindD (ceph_decode_need en (unat num_nodes * 4) (Err EINVAL)) (\<lambda>_.
    bindD (decode_array (ceph_decode_32 buf) (unat num_nodes)) (\<lambda>ws.
    retD (b\<lparr>b_ext := Tree_ext num_nodes ws\<rparr>))))))"

definition crush_decode_straw_bucket ::
  "(nat \<Rightarrow> bool) \<Rightarrow> u8 list \<Rightarrow> int \<Rightarrow> crush_bucket \<Rightarrow> crush_bucket dec" where
  "crush_decode_straw_bucket alloc buf en b =
    bindD (liftD (as_straw b)) (\<lambda>_.
    bindD (kcalloc alloc (unat (b_size b)) 4 (Err ENOMEM)) (\<lambda>_.
    bindD (kcalloc alloc (unat (b_size b)) 4 (Err ENOMEM)) (\<lambda>_.
    bindD (ceph_decode_need en (unat (2 * b_size b) * 4) (Err EINVAL)) (\<lambda>_.
    bindD (decode_array (decode_pair_32 buf) (unat (b_size b))) (\<lambda>ws.
    retD (b\<lparr>b_ext := Straw_ext (map fst ws) (map snd ws)\<rparr>))))))"

section \<open>Buckets\<close>

text \<open>
  The struct chosen by the word \<open>alg\<close>, as \<open>kzalloc\<close> leaves it, with its size. A null array
  pointer is an array without elements.
\<close>

definition bucket_struct :: "u32 \<Rightarrow> (nat \<times> bucket_ext) option" where
  "bucket_struct alg =
    (if alg = 1 then Some (48, Uniform_ext 0)
     else if alg = 2 then Some (56, List_ext [] [])
     else if alg = 3 then Some (56, Tree_ext 0 [])
     else if alg = 4 then Some (56, Straw_ext [] [])
     else None)"

text \<open>
  The second switch of the loop body, over the decoded \<open>b->alg\<close>. The error variable \<open>err\<close>
  of \<open>crush_decode\<close> is 0 after a payload was decoded.
\<close>

definition decode_payload ::
  "(nat \<Rightarrow> bool) \<Rightarrow> u8 list \<Rightarrow> int \<Rightarrow> stop \<Rightarrow> crush_bucket \<Rightarrow> (crush_bucket \<times> stop) dec" where
  "decode_payload alloc buf en err b =
    (if b_alg b = CRUSH_BUCKET_UNIFORM then
       bindD (crush_decode_uniform_bucket buf en b) (\<lambda>b. retD (b, Err0))
     else if b_alg b = CRUSH_BUCKET_LIST then
       bindD (crush_decode_list_bucket alloc buf en b) (\<lambda>b. retD (b, Err0))
     else if b_alg b = CRUSH_BUCKET_TREE then
       bindD (crush_decode_tree_bucket alloc buf en b) (\<lambda>b. retD (b, Err0))
     else if b_alg b = CRUSH_BUCKET_STRAW then
       bindD (crush_decode_straw_bucket alloc buf en b) (\<lambda>b. retD (b, Err0))
     else retD (b, err))"

definition crush_decode_bucket ::
  "(nat \<Rightarrow> bool) \<Rightarrow> u8 list \<Rightarrow> int \<Rightarrow> stop \<Rightarrow> u32 \<Rightarrow> (crush_bucket \<times> stop) dec" where
  "crush_decode_bucket alloc buf en err alg =
    (case bucket_struct alg of
       None \<Rightarrow> failD (Err EINVAL)
     | Some (sz, ext) \<Rightarrow>
         bindD (kcalloc alloc 1 sz (Err ENOMEM)) (\<lambda>_.
         bindD (ceph_decode_need en 16 err) (\<lambda>_.
         bindD (decode_s32 buf) (\<lambda>i.
         bindD (ceph_decode_16 buf) (\<lambda>type.
         bindD (ceph_decode_8 buf) (\<lambda>alg'.
         bindD (ceph_decode_8 buf) (\<lambda>hash.
         bindD (ceph_decode_32 buf) (\<lambda>weight.
         bindD (ceph_decode_32 buf) (\<lambda>sz.
         bindD (kcalloc alloc (unat sz) 4 (Err ENOMEM)) (\<lambda>_.
         bindD (kcalloc alloc (unat sz) 4 (Err ENOMEM)) (\<lambda>_.
         bindD (ceph_decode_need en (unat sz * 4) err) (\<lambda>_.
         bindD (decode_array (decode_s32 buf) (unat sz)) (\<lambda>items.
         decode_payload alloc buf en err
           \<lparr>b_id = i, b_type = type, b_alg = alg', b_hash = hash, b_weight = weight, b_size = sz,
            b_items = items, b_perm_x = 0, b_perm_n = 0, b_perm = replicate (unat sz) 0,
            b_ext = ext\<rparr>)))))))))))))"

text \<open>The loop over the buckets; \<open>err\<close> is what a jump to \<open>bad\<close> would return.\<close>

fun crush_decode_buckets ::
  "(nat \<Rightarrow> bool) \<Rightarrow> u8 list \<Rightarrow> int \<Rightarrow> nat \<Rightarrow> stop \<Rightarrow> (crush_bucket option list \<times> stop) dec" where
  "crush_decode_buckets alloc buf en 0 err = retD ([], err)"
| "crush_decode_buckets alloc buf en (Suc n) err =
    bindD (ceph_decode_32_safe buf en err) (\<lambda>alg.
    if alg = 0 then
      bindD (crush_decode_buckets alloc buf en n err) (\<lambda>(bs, err). retD (None # bs, err))
    else
      bindD (crush_decode_bucket alloc buf en err alg) (\<lambda>(b, err).
      bindD (crush_decode_buckets alloc buf en n err) (\<lambda>(bs, err). retD (Some b # bs, err))))"

section \<open>Rules\<close>

definition decode_rule_step :: "u8 list \<Rightarrow> crush_rule_step dec" where
  "decode_rule_step buf =
    bindD (ceph_decode_32 buf) (\<lambda>o1.
    bindD (decode_s32 buf) (\<lambda>a1.
    bindD (decode_s32 buf) (\<lambda>a2.
    retD \<lparr>op = o1, arg1 = a1, arg2 = a2\<rparr>)))"

definition decode_rule ::
  "(nat \<Rightarrow> bool) \<Rightarrow> u8 list \<Rightarrow> int \<Rightarrow> stop \<Rightarrow> crush_rule option dec" where
  "decode_rule alloc buf en err =
    bindD (ceph_decode_32_safe buf en err) (\<lambda>yes.
    if yes = 0 then retD None
    else
      bindD (ceph_decode_32_safe buf en err) (\<lambda>len.
      bindD (kcalloc alloc 1 (8 + unat len * 12) (Err ENOMEM)) (\<lambda>_.
      bindD (ceph_decode_copy_safe buf en 4 err) (\<lambda>mk.
      bindD (ceph_decode_need en (unat (len * 3) * 4) err) (\<lambda>_.
      bindD (decode_array (decode_rule_step buf) (unat len)) (\<lambda>sts.
      retD (Some \<lparr>r_mask = \<lparr>ruleset = mk ! 0, mask_type = mk ! 1, min_size = mk ! 2, max_size = mk ! 3\<rparr>,
                  steps = sts\<rparr>)))))))"

section \<open>Name maps and tunables\<close>

text \<open>
  \<open>while (len--)\<close> on an \<open>int\<close>: as many rounds as the word counts. The string length is a
  signed \<open>int\<close>, so the position may move backwards.
\<close>

fun skip_names :: "u8 list \<Rightarrow> int \<Rightarrow> nat \<Rightarrow> unit dec" where
  "skip_names buf en 0 = retD ()"
| "skip_names buf en (Suc n) =
    bindD posD (\<lambda>p.
    bindD (seekD (p + 4)) (\<lambda>_.
    bindD (ceph_decode_32_safe buf en (Err EINVAL)) (\<lambda>strlen.
    bindD posD (\<lambda>p.
    bindD (seekD (p + sint strlen)) (\<lambda>_.
    skip_names buf en n)))))"

definition skip_name_map :: "u8 list \<Rightarrow> int \<Rightarrow> unit dec" where
  "skip_name_map buf en =
    bindD (ceph_decode_32_safe buf en (Err EINVAL)) (\<lambda>len. skip_names buf en (unat len))"

text \<open>The tunables that are present replace the defaults.\<close>

definition crush_decode_tunables :: "u8 list \<Rightarrow> int \<Rightarrow> crush_map \<Rightarrow> int \<Rightarrow> crush_map res" where
  "crush_decode_tunables buf en c p =
    (if \<not> ceph_has_room p en 12 then Inr c
     else
       bindE (ceph_decode_32 buf p) (\<lambda>(t1, p).
       bindE (ceph_decode_32 buf p) (\<lambda>(t2, p).
       bindE (ceph_decode_32 buf p) (\<lambda>(t3, p).
       let c = c\<lparr>choose_local_tries := t1, choose_local_fallback_tries := t2, choose_total_tries := t3\<rparr> in
       if \<not> ceph_has_room p en 4 then Inr c
       else
         bindE (ceph_decode_32 buf p) (\<lambda>(once, p).
         let c = c\<lparr>chooseleaf_descend_once := once\<rparr> in
         if \<not> ceph_has_room p en 1 then Inr c
         else bindE (ceph_decode_8 buf p) (\<lambda>(vary, p). Inr (c\<lparr>chooseleaf_vary_r := vary\<rparr>)))))))"

text \<open>Three name maps are skipped; the first that is malformed ends the decoding with success.\<close>

fun crush_decode_trailer :: "u8 list \<Rightarrow> int \<Rightarrow> nat \<Rightarrow> crush_map \<Rightarrow> int \<Rightarrow> crush_map res" where
  "crush_decode_trailer buf en 0 c p = crush_decode_tunables buf en c p"
| "crush_decode_trailer buf en (Suc n) c p =
    (case skip_name_map buf en p of
       Inl (Err e) \<Rightarrow> Inr c
     | Inl e \<Rightarrow> Inl e
     | Inr (_, p) \<Rightarrow> crush_decode_trailer buf en n c p)"

section \<open>The map\<close>

definition CRUSH_MAGIC :: u32 where "CRUSH_MAGIC = 0x00010000"

definition crush_decode_body :: "(nat \<Rightarrow> bool) \<Rightarrow> u8 list \<Rightarrow> int \<Rightarrow> int \<Rightarrow> crush_map res" where
  "crush_decode_body alloc buf en p =
    bindE (kcalloc alloc 1 48 (Err ENOMEM) p) (\<lambda>(_, p).
    bindE (ceph_decode_need en 16 (Err EINVAL) p) (\<lambda>(_, p).
    bindE (ceph_decode_32 buf p) (\<lambda>(magic, p).
    if magic \<noteq> CRUSH_MAGIC then Inl (Err EINVAL)
    else
      bindE (decode_s32 buf p) (\<lambda>(mb, p).
      bindE (ceph_decode_32 buf p) (\<lambda>(mr, p).
      bindE (decode_s32 buf p) (\<lambda>(md, p).
      bindE (kcalloc alloc (nat (mb mod 2 ^ 64)) 8 (Err ENOMEM) p) (\<lambda>_.
      bindE (kcalloc alloc (unat mr) 8 (Err ENOMEM) p) (\<lambda>_.
      bindE (crush_decode_buckets alloc buf en (nat mb) (Err EINVAL) p) (\<lambda>((bs, err), p).
      bindE (decode_array (decode_rule alloc buf en err) (unat mr) p) (\<lambda>(rs, p).
      crush_decode_trailer buf en 3
        \<lparr>buckets = bs, rules = rs, max_buckets = mb, max_rules = mr, max_devices = md,
         choose_local_tries = 2, choose_local_fallback_tries = 5, choose_total_tries = 19,
         chooseleaf_descend_once = 0, chooseleaf_vary_r = 0\<rparr> p))))))))))"

text \<open>
  \<open>ERR_PTR(0)\<close> is the null pointer, which callers do not take for an error: the outcome
  \<open>Inr None\<close>.
\<close>

definition crush_decode :: "(nat \<Rightarrow> bool) \<Rightarrow> u8 list \<Rightarrow> int \<Rightarrow> int \<Rightarrow> crush_map option res" where
  "crush_decode alloc buf en p =
    (case crush_decode_body alloc buf en p of
       Inl Err0 \<Rightarrow> Inr None
     | Inl e \<Rightarrow> Inl e
     | Inr c \<Rightarrow> Inr (Some c))"

section \<open>What a decoded bucket looks like\<close>

text \<open>
  A decoded bucket has arrays of \<open>size\<close> elements and an empty cache; when its \<open>alg\<close> is one
  the code knows, its payload was decoded into the right struct.
\<close>

definition decoded_bucket :: "crush_bucket \<Rightarrow> bool" where
  "decoded_bucket b \<longleftrightarrow>
     length (b_items b) = unat (b_size b) \<and> length (b_perm b) = unat (b_size b) \<and> b_perm_n b = 0 \<and>
     (b_alg b \<in> {1, 2, 3, 4} \<longrightarrow> wf_ext b)"

lemma liftD_Inr_iff [simp]: "liftD r p = Inr (v, q) \<longleftrightarrow> r = Inr v \<and> q = p"
  by (auto simp: liftD_def bindE_Inr_iff)

lemma kcalloc_Inr_iff [simp]:
  "kcalloc alloc n sz e p = Inr (u, q) \<longleftrightarrow> n * sz < 2 ^ 64 \<and> alloc (n * sz) \<and> q = p"
  by (auto simp: kcalloc_def)

lemmas payload_defs =
  crush_decode_uniform_bucket_def crush_decode_list_bucket_def crush_decode_tree_bucket_def
  crush_decode_straw_bucket_def

lemma decode_payload_wf:
  assumes "decode_payload alloc buf en err b p = Inr ((b', err'), q)"
    and "length (b_items b) = unat (b_size b)" "length (b_perm b) = unat (b_size b)" "b_perm_n b = 0"
  shows "decoded_bucket b'"
  using assms decode_array_length[of "decode_pair_32 buf" "unat (b_size b)"]
  by (fastforce simp: decode_payload_def payload_defs bindD_Inr_iff decoded_bucket_def wf_ext_def
      crush_algs Let_def dest: decode_array_length split: if_splits)

lemma crush_decode_bucket_wf:
  assumes "crush_decode_bucket alloc buf en err alg p = Inr ((b, err'), q)"
  shows "decoded_bucket b"
proof -
  from assms obtain b1 q1 where b1: "decode_payload alloc buf en err b1 q1 = Inr ((b, err'), q)"
    "length (b_items b1) = unat (b_size b1)" "length (b_perm b1) = unat (b_size b1)" "b_perm_n b1 = 0"
    by (auto simp: crush_decode_bucket_def bindD_Inr_iff split: option.splits dest!: decode_array_length)
  then show ?thesis by (rule decode_payload_wf)
qed

lemma crush_decode_buckets_wf:
  assumes "crush_decode_buckets alloc buf en n err p = Inr ((bs, err'), q)"
  shows "length bs = n \<and> (\<forall>b. Some b \<in> set bs \<longrightarrow> decoded_bucket b)"
  using assms
proof (induction n arbitrary: err p bs)
  case (Suc n)
  then show ?case
    by (fastforce simp: bindD_Inr_iff dest: crush_decode_bucket_wf split: if_splits)
qed simp

lemma crush_decode_tunables_keeps:
  assumes "crush_decode_tunables buf en c p = Inr c'"
  shows "buckets c' = buckets c" "rules c' = rules c" "max_buckets c' = max_buckets c"
    "max_rules c' = max_rules c" "max_devices c' = max_devices c"
  using assms by (auto simp: crush_decode_tunables_def Let_def split: if_splits)

lemma crush_decode_trailer_keeps:
  assumes "crush_decode_trailer buf en n c p = Inr c'"
  shows "buckets c' = buckets c \<and> rules c' = rules c \<and> max_buckets c' = max_buckets c \<and>
    max_rules c' = max_rules c \<and> max_devices c' = max_devices c"
  using assms
  by (induction n arbitrary: p)
    (auto dest: crush_decode_tunables_keeps split: sum.splits stop.splits)

section \<open>Decoding buckets and rules stays inside the buffer\<close>

text \<open>
  What may stop the decoder: an error exit, or a bucket whose two algorithm fields differ, which
  makes the payload decoder write through a pointer to the wrong struct.
\<close>

definition error_or_confusion :: "stop \<Rightarrow> bool" where
  "error_or_confusion e \<longleftrightarrow> is_error e \<or> e = Fault TypeConfusion"

lemma error_or_confusion_simps [simp]:
  "is_error e \<Longrightarrow> error_or_confusion e" "error_or_confusion (Fault TypeConfusion)"
  "\<not> error_or_confusion (Fault OutOfBounds)"
  by (simp_all add: error_or_confusion_def)

lemma stays_kcalloc:
  assumes "n * sz < 2 ^ 64 \<Longrightarrow> alloc (n * sz) \<Longrightarrow> stays A (f ())" and "A e"
  shows "stays A (bindD (kcalloc alloc n sz e) f)"
  using assms by (auto simp: stays_def bindD_def kcalloc_def)

lemma room_kcalloc:
  assumes "n * sz < 2 ^ 64 \<Longrightarrow> alloc (n * sz) \<Longrightarrow> room buf k A (f ())" and "A e"
  shows "room buf k A (bindD (kcalloc alloc n sz e) f)"
  using assms by (auto simp: room_def bindD_def kcalloc_def)

lemma stays_lift:
  assumes "\<And>e. r = Inl e \<Longrightarrow> A e" and "stays A d"
  shows "stays A (bindD (liftD r) (\<lambda>_. d))"
  using assms by (cases r) (auto simp: stays_def bindD_def liftD_def)

lemma as_confusion:
  "as_uniform b = Inl e \<Longrightarrow> error_or_confusion e" "as_list b = Inl e \<Longrightarrow> error_or_confusion e"
  "as_tree b = Inl e \<Longrightarrow> error_or_confusion e" "as_straw b = Inl e \<Longrightarrow> error_or_confusion e"
  by (auto simp: as_uniform_def as_list_def as_straw_def as_tree_def split: bucket_ext.splits)

lemma fixed_s32: "fixed buf 4 (decode_s32 buf)"
  unfolding decode_s32_def by (intro fixed_map fixed_words)

lemma fixed_pair_32: "fixed buf 8 (decode_pair_32 buf)"
proof -
  have "fixed buf (4 + 4) (decode_pair_32 buf)"
    unfolding decode_pair_32_def by (intro fixed_bind fixed_map fixed_words)
  then show ?thesis by simp
qed

lemma fixed_rule_step: "fixed buf 12 (decode_rule_step buf)"
proof -
  have "fixed buf (4 + (4 + 4)) (decode_rule_step buf)"
    unfolding decode_rule_step_def by (intro fixed_bind fixed_map fixed_words fixed_s32)
  then show ?thesis by simp
qed

text \<open>An allocation bound keeps the 32-bit size computations from wrapping around.\<close>

lemma unat_times_small:
  assumes "unat (w :: u32) * k < 2 ^ 32" and "0 < k"
  shows "unat (w * word_of_nat k) = unat w * k"
  using assms by (simp add: unat_word_ariths unat_of_nat take_bit_eq_mod mod_mult_right_eq)

lemma decode_payload_stays:
  assumes en: "en \<le> int (length buf)" and lim: "\<And>n. alloc n \<Longrightarrow> n < 2 ^ 32"
    and sz: "unat (b_size b) * 4 < 2 ^ 32"
  shows "stays error_or_confusion (decode_payload alloc buf en err b)"
proof -
  have two: "unat (2 * b_size b) = 2 * unat (b_size b)"
    using unat_times_small[of "b_size b" 2] sz by (simp add: mult.commute)
  have one: "1 \<le> unat (1 + b_size b)"
    using sz by (simp add: unat_word_ariths)
  have pairs: "room buf (unat (2 * b_size b) * 4) error_or_confusion
      (bindD (decode_array (decode_pair_32 buf) (unat (b_size b))) f)"
    if "\<And>v. stays error_or_confusion (f v)" for f :: "(u32 \<times> u32) list \<Rightarrow> crush_bucket dec"
    using that two by (intro room_bind[OF fixed_array[OF fixed_pair_32]] room_stays) auto
  have u: "stays error_or_confusion (crush_decode_uniform_bucket buf en b)"
    unfolding crush_decode_uniform_bucket_def using one
    by (intro stays_lift stays_need[OF en] room_bind[OF fixed_words(2)] room_stays stays_ret)
      (auto dest: as_confusion)
  have l: "stays error_or_confusion (crush_decode_list_bucket alloc buf en b)"
    unfolding crush_decode_list_bucket_def
    by (intro stays_lift stays_kcalloc stays_need[OF en] pairs stays_ret)
      (auto dest: as_confusion)
  have s: "stays error_or_confusion (crush_decode_straw_bucket alloc buf en b)"
    unfolding crush_decode_straw_bucket_def
    by (intro stays_lift stays_kcalloc stays_need[OF en] pairs stays_ret)
      (auto dest: as_confusion)
  have t: "stays error_or_confusion (crush_decode_tree_bucket alloc buf en b)"
    unfolding crush_decode_tree_bucket_def Let_def
    by (intro stays_lift stays_kcalloc stays_bind stays_safe_words[OF en] stays_need[OF en]
        room_bind[OF fixed_array[OF fixed_words(2)]] room_stays stays_ret)
      (auto dest: as_confusion)
  show ?thesis
    unfolding decode_payload_def using u l s t by (auto intro!: stays_bind stays_ret)
qed

lemma crush_decode_bucket_stays:
  assumes en: "en \<le> int (length buf)" and lim: "\<And>n. alloc n \<Longrightarrow> n < 2 ^ 32" and err: "is_error err"
  shows "stays error_or_confusion (crush_decode_bucket alloc buf en err alg)"
proof (cases "bucket_struct alg")
  case None
  then show ?thesis by (simp add: crush_decode_bucket_def stays_fail)
next
  case (Some se)
  obtain sz ext where se: "se = (sz, ext)" by (cases se)
  have tail: "stays error_or_confusion (bindD (ceph_decode_need en (unat sz * 4) err) (\<lambda>_.
         bindD (decode_array (decode_s32 buf) (unat sz)) (\<lambda>items.
         decode_payload alloc buf en err
           \<lparr>b_id = i, b_type = type, b_alg = alg', b_hash = hash, b_weight = weight, b_size = sz,
            b_items = items, b_perm_x = 0, b_perm_n = 0, b_perm = replicate (unat sz) 0,
            b_ext = ext\<rparr>)))"
    if "alloc (unat sz * 4)" for i type alg' hash weight and sz :: u32
    using lim[OF that] err
    by (intro stays_need[OF en] room_bind[OF fixed_array[OF fixed_s32]] room_stays
        decode_payload_stays[OF en lim]) auto
  show ?thesis
    unfolding crush_decode_bucket_def Some se option.case prod.case
    by (intro stays_kcalloc stays_need[OF en] room_bind[OF fixed_s32] room_bind[OF fixed_words(3)]
        room_bind[OF fixed_words(4)] room_bind[OF fixed_words(2)] room_stays tail)
      (use err in auto)
qed

lemma crush_decode_bucket_err:
  assumes "crush_decode_bucket alloc buf en err alg p = Inr ((b, err'), q)" and "is_error err"
  shows "is_error err'"
  using assms
  by (auto simp: crush_decode_bucket_def decode_payload_def bindD_Inr_iff split: option.splits if_splits)

lemma crush_decode_buckets_stays:
  assumes en: "en \<le> int (length buf)" and lim: "\<And>n. alloc n \<Longrightarrow> n < 2 ^ 32"
  shows "is_error err \<Longrightarrow> stays error_or_confusion (crush_decode_buckets alloc buf en n err)"
proof (induction n arbitrary: err)
  case (Suc n)
  note err = Suc.prems
  have some: "stays error_or_confusion
      (case v of (b, err) \<Rightarrow>
        bindD (crush_decode_buckets alloc buf en n err) (\<lambda>(bs, err). retD (Some b # bs, err)))"
    if "crush_decode_bucket alloc buf en err alg p = Inr (v, q)" for alg p v q
  proof -
    obtain b err' where v: "v = (b, err')" by (cases v)
    with that crush_decode_bucket_err err have "is_error err'" by blast
    with v show ?thesis by (auto intro!: stays_bind Suc.IH stays_ret)
  qed
  have none: "stays error_or_confusion
      (bindD (crush_decode_buckets alloc buf en n err) (\<lambda>(bs, err). retD (None # bs, err)))"
    by (auto intro!: stays_bind Suc.IH err stays_ret)
  have word: "stays error_or_confusion (ceph_decode_32_safe buf en err)"
    using err by (intro stays_safe_words[OF en]) simp
  show ?case
    unfolding crush_decode_buckets.simps
    using none some err
    by (auto intro!: stays_bind[OF word] stays_bind_val[OF crush_decode_bucket_stays[OF en lim err]])
qed (simp add: stays_ret)

lemma decode_rule_stays:
  assumes en: "en \<le> int (length buf)" and lim: "\<And>n. alloc n \<Longrightarrow> n < 2 ^ 32" and err: "is_error err"
  shows "stays is_error (decode_rule alloc buf en err)"
proof -
  have tail: "stays is_error (bindD (ceph_decode_need en (unat (len * 3) * 4) err) (\<lambda>_.
      bindD (decode_array (decode_rule_step buf) (unat len)) f))"
    if "alloc (8 + unat len * 12)" "\<And>v. stays is_error (f v)"
    for len :: u32 and f :: "crush_rule_step list \<Rightarrow> crush_rule option dec"
  proof -
    have "unat (len * 3) = unat len * 3" using lim[OF that(1)] unat_times_small[of len 3] by simp
    then show ?thesis using that(2) err
      by (intro stays_need[OF en] room_bind[OF fixed_array[OF fixed_rule_step]] room_stays) auto
  qed
  have word: "stays is_error (ceph_decode_32_safe buf en err)" "stays is_error (ceph_decode_copy_safe buf en 4 err)"
    using err by (intro stays_safe_words[OF en]; simp)+
  have body: "stays is_error (bindD (kcalloc alloc 1 (8 + unat len * 12) (Err ENOMEM)) (\<lambda>_.
      bindD (ceph_decode_copy_safe buf en 4 err) (\<lambda>mk.
      bindD (ceph_decode_need en (unat (len * 3) * 4) err) (\<lambda>_.
      bindD (decode_array (decode_rule_step buf) (unat len)) (f mk)))))"
    if "\<And>mk v. stays is_error (f mk v)"
    for len :: u32 and f :: "u8 list \<Rightarrow> crush_rule_step list \<Rightarrow> crush_rule option dec"
    using that by (intro stays_kcalloc stays_bind[OF word(2)] tail) auto
  show ?thesis
    unfolding decode_rule_def
    by (intro stays_bind[OF word(1)] stays_if body stays_ret)
qed

section \<open>Concrete inputs\<close>

text \<open>The header of a map with \<open>n\<close> buckets, no rules and one device; a uniform bucket of one item.\<close>

definition example_header :: "u8 \<Rightarrow> u8 list" where
  "example_header n = [0, 0, 1, 0, n, 0, 0, 0, 0, 0, 0, 0, 1, 0, 0, 0]"

definition example_uniform :: "u8 list" where
  "example_uniform =
    [1, 0, 0, 0, 0xff, 0xff, 0xff, 0xff, 1, 0, 1, 0, 0, 0, 1, 0, 1, 0, 0, 0, 0, 0, 0, 0, 0, 0, 1, 0]"

lemma decode_buckets_numeral:
  "crush_decode_buckets alloc buf en (numeral k) err =
    bindD (ceph_decode_32_safe buf en err) (\<lambda>alg.
    if alg = 0 then
      bindD (crush_decode_buckets alloc buf en (pred_numeral k) err) (\<lambda>(bs, err). retD (None # bs, err))
    else
      bindD (crush_decode_bucket alloc buf en err alg) (\<lambda>(b, err).
      bindD (crush_decode_buckets alloc buf en (pred_numeral k) err)
        (\<lambda>(bs, err). retD (Some b # bs, err))))"
  by (simp add: numeral_eq_Suc)

lemma decode_trailer_numeral:
  "crush_decode_trailer buf en (numeral k) c p =
    (case skip_name_map buf en p of
       Inl (Err e) \<Rightarrow> Inr c
     | Inl e \<Rightarrow> Inl e
     | Inr (_, p) \<Rightarrow> crush_decode_trailer buf en (pred_numeral k) c p)"
  by (simp add: numeral_eq_Suc split: stop.split)

lemmas decode_eval = decode_buckets_numeral decode_trailer_numeral decode_array_eval
  crush_decode_def crush_decode_body_def crush_decode_bucket_def decode_payload_def payload_defs
  bucket_struct_def kcalloc_def liftD_def bindD_def retD_def decode_s32_def decode_pair_32_def
  ceph_decode_32_safe_def ceph_decode_need_def ceph_has_room_def ceph_decode_32_def
  ceph_decode_16_def ceph_decode_8_def get_bytes_def skip_name_map_def posD_def seekD_def
  as_uniform_def crush_algs CRUSH_MAGIC_def example_header_def example_uniform_def
  crush_decode_tunables_def

definition example_decoded :: crush_map where
  "example_decoded =
    \<lparr>buckets = [Some \<lparr>b_id = -1, b_type = 1, b_alg = 1, b_hash = 0, b_weight = 0x10000, b_size = 1,
        b_items = [0], b_perm_x = 0, b_perm_n = 0, b_perm = [0], b_ext = Uniform_ext 0x10000\<rparr>, None],
     rules = [], max_buckets = 2, max_rules = 0, max_devices = 1,
     choose_local_tries = 2, choose_local_fallback_tries = 5, choose_total_tries = 19,
     chooseleaf_descend_once = 0, chooseleaf_vary_r = 0\<rparr>"

lemma crush_decode_example:
  "crush_decode (\<lambda>n. n < 1000) (example_header 2 @ example_uniform @ [0, 0, 0, 0]) 48 0 =
     Inr (Some example_decoded)"
  by (simp add: decode_eval example_decoded_def)

text \<open>A decoded map: tables of the announced lengths, decoded buckets.\<close>

definition decoded_map :: "crush_map \<Rightarrow> bool" where
  "decoded_map c \<longleftrightarrow> max_buckets c = int (length (buckets c)) \<and> length (rules c) = unat (max_rules c) \<and>
     (\<forall>b. Some b \<in> set (buckets c) \<longrightarrow> decoded_bucket b)"

lemma crush_decode_decoded:
  assumes "crush_decode alloc buf en p = Inr (Some c)"
  shows "decoded_map c"
proof -
  from assms have body: "crush_decode_body alloc buf en p = Inr c"
    by (auto simp: crush_decode_def split: sum.splits stop.splits)
  then obtain mbw :: u32 and mb mr p1 p2 p3 bs err rs c0 where
    al: "nat (mb mod 2 ^ 64) * 8 < 2 ^ 64" and
    bs: "crush_decode_buckets alloc buf en (nat mb) (Err EINVAL) p1 = Inr ((bs, err), p2)" and
    rs: "decode_array (decode_rule alloc buf en err) (unat mr) p2 = Inr (rs, p3)" and
    tr: "crush_decode_trailer buf en 3 c0 p3 = Inr c" and
    c0: "buckets c0 = bs" "rules c0 = rs" "max_buckets c0 = mb" "max_rules c0 = mr" and
    mbw: "mb = sint mbw"
    by (auto simp: crush_decode_body_def decode_s32_def bindD_Inr_iff split: if_splits)
  have mb: "- (2 ^ 31) \<le> mb" using sint_ge[of mbw] mbw by simp
  have "0 \<le> mb"
  proof (rule ccontr)
    assume "\<not> 0 \<le> mb"
    with mb have "(mb + 2 ^ 64) mod 2 ^ 64 = mb + 2 ^ 64" by (intro mod_pos_pos_trivial) auto
    then have "mb mod 2 ^ 64 = mb + 2 ^ 64" by simp
    with al have "nat (mb + 2 ^ 64) * 8 < 2 ^ 64" by simp
    moreover have "2 ^ 63 \<le> nat (mb + 2 ^ 64)" using mb by (simp add: le_nat_iff)
    ultimately show False by simp
  qed
  with crush_decode_trailer_keeps[OF tr] c0 crush_decode_buckets_wf[OF bs] decode_array_length[OF rs]
  show ?thesis by (auto simp: decoded_map_def decoded_bucket_def)
qed

section \<open>Properties\<close>

text \<open>
  C39: in a CRUSH map that \<open>crush_decode\<close> returns, the bucket and rule tables have the
  announced numbers of entries, and every bucket has arrays of \<open>size\<close> elements, an empty
  permutation cache and, when its algorithm is a known one, a payload of that kind with
  arrays of the right lengths.
\<close>

theorem crush_decode_wf:
  assumes "crush_decode alloc buf en p = Inr (Some c)"
  shows "max_buckets c = int (length (buckets c)) \<and> length (rules c) = unat (max_rules c) \<and>
    (\<forall>b. Some b \<in> set (buckets c) \<longrightarrow>
       length (b_items b) = unat (b_size b) \<and> length (b_perm b) = unat (b_size b) \<and> b_perm_n b = 0 \<and>
       (b_alg b \<in> {1, 2, 3, 4} \<longrightarrow> wf_bucket b))"
  using crush_decode_decoded[OF assms] by (auto simp: decoded_map_def decoded_bucket_def wf_bucket_def)

theorem crush_decode_wf_witness:
  "crush_decode (\<lambda>n. n < 1000) (example_header 2 @ example_uniform @ [0, 0, 0, 0]) 48 0 =
     Inr (Some example_decoded) \<and>
   max_buckets example_decoded = int (length (buckets example_decoded)) \<and>
   wf_bucket (the (buckets example_decoded ! 0))"
proof -
  have "Some (the (buckets example_decoded ! 0)) \<in> set (buckets example_decoded)"
    "b_alg (the (buckets example_decoded ! 0)) \<in> {1, 2, 3, 4}"
    by (simp_all add: example_decoded_def)
  with crush_decode_wf[OF crush_decode_example] crush_decode_example show ?thesis by blast
qed

text \<open>
  Decoding the bucket table and the rule table of any byte string stays inside the buffer
  when no allocation of 4 GiB or more succeeds: the decoders stop with an error, with the type
  confusion of a bucket whose two algorithm fields differ (buckets only), or at a later position.
\<close>

theorem crush_decode_tables_safe:
  assumes "en \<le> int (length buf)" and "\<And>n. alloc n \<Longrightarrow> n < 2 ^ 32" and "is_error err" and "0 \<le> p"
  shows "safe (\<lambda>e. is_error e \<or> e = Fault TypeConfusion) (\<lambda>(v, q). p \<le> q)
      (crush_decode_buckets alloc buf en n err p) \<and>
    safe is_error (\<lambda>(v, q). p \<le> q) (decode_array (decode_rule alloc buf en err) k p)"
proof -
  have "stays error_or_confusion (crush_decode_buckets alloc buf en n err)"
    by (rule crush_decode_buckets_stays) (use assms in auto)
  moreover have "stays is_error (decode_array (decode_rule alloc buf en err) k)"
    by (rule stays_array, rule decode_rule_stays) (use assms in auto)
  ultimately show ?thesis using assms(4) by (simp add: stays_def error_or_confusion_def[abs_def])
qed

theorem crush_decode_tables_safe_witness:
  "safe (\<lambda>e. is_error e \<or> e = Fault TypeConfusion) (\<lambda>(v, q). 16 \<le> q)
      (crush_decode_buckets (\<lambda>n. n < 1000) (example_header 2 @ example_uniform) 44 2 (Err EINVAL) 16) \<and>
    safe is_error (\<lambda>(v, q). 16 \<le> q)
      (decode_array (decode_rule (\<lambda>n. n < 1000) (example_header 2 @ example_uniform) 44 (Err EINVAL)) 0 16)"
  by (rule crush_decode_tables_safe) (simp_all add: example_header_def example_uniform_def)

text \<open>
  A map that ends inside the bucket table after a bucket was decoded is not reported as an
  error: the error variable is still 0 from the payload decoder, so \<open>crush_decode\<close> returns
  \<open>ERR_PTR(0)\<close>, a null pointer that callers store as the new map. A map that ends before the
  first bucket is reported as \<open>EINVAL\<close>.
\<close>

theorem crush_decode_truncated:
  "crush_decode (\<lambda>n. n < 1000) (example_header 3 @ example_uniform @ [0, 0, 0, 0]) 48 0 = Inr None \<and>
   crush_decode (\<lambda>n. n < 1000) (example_header 3) 16 0 = Inl (Err EINVAL)"
  by (simp add: decode_eval)

text \<open>
  The string length of a name map is signed, so a crafted map moves the position in front
  of the buffer, and the next read leaves the buffer.
\<close>

theorem skip_name_map_leaves_buffer:
  "skip_name_map [1, 0, 0, 0, 0, 0, 0, 0, 0xf0, 0xff, 0xff, 0xff] 12 0 = Inr ((), -4) \<and>
   skip_name_map [1, 0, 0, 0, 0, 0, 0, 0, 0xf0, 0xff, 0xff, 0xff] 12 (-4) = Inl (Fault OutOfBounds)"
  by (simp add: decode_eval numeral_eq_Suc[of Num.One])

end
