(* ===== verification/Search_Tree.thy ===== *)
theory Search_Tree
  imports Prelude "HOL-Library.Tree"
begin

text \<open>
  The contract of the search trees of the client: the red-black trees of the kernel, which the
  sources descend by hand (\<open>rb_left\<close>, \<open>rb_right\<close>) and change with the library calls
  \<open>rb_link_node\<close>, \<open>rb_insert_color\<close> and \<open>rb_erase\<close>. A tree is a \<open>tree\<close> of HOL-Library;
  \<open>rb_link_node\<close> at the place the descent found is the insertion of a leaf. Rebalancing and
  erasing are code of the kernel, so they are parameters: \<open>color\<close> for \<open>rb_insert_color\<close>,
  which keeps the in-order sequence, and \<open>erase\<close> for \<open>rb_erase\<close>, which removes one node
  from it.
\<close>

definition keeps_inorder :: "('a tree \<Rightarrow> 'a tree) \<Rightarrow> bool" where
  "keeps_inorder color \<longleftrightarrow> (\<forall>t. inorder (color t) = inorder t)"

definition erases_node :: "('a \<Rightarrow> 'a tree \<Rightarrow> 'a tree) \<Rightarrow> bool" where
  "erases_node erase \<longleftrightarrow> (\<forall>x t. x \<in> set_tree t \<longrightarrow> inorder (erase x t) = remove1 x (inorder t))"

text \<open>Strictly increasing keys in the in-order sequence.\<close>

definition ordered :: "('a \<Rightarrow> 'k :: linorder) \<Rightarrow> 'a tree \<Rightarrow> bool" where
  "ordered key t \<longleftrightarrow> sorted_wrt (<) (map key (inorder t))"

lemma ordered_simps [simp]:
  "ordered key Leaf"
  "ordered key (Node l x r) \<longleftrightarrow> ordered key l \<and> ordered key r \<and>
     (\<forall>y\<in>set_tree l. key y < key x) \<and> (\<forall>y\<in>set_tree r. key x < key y)"
  by (auto simp: ordered_def sorted_wrt_append intro: less_trans)

lemma ordered_color: "keeps_inorder color \<Longrightarrow> ordered key (color t) = ordered key t"
  by (simp add: ordered_def keeps_inorder_def)

lemma sorted_wrt_remove1: "sorted_wrt P xs \<Longrightarrow> sorted_wrt P (remove1 x xs)"
  by (induction xs) (auto dest: notin_set_remove1 in_set_remove1[THEN iffD1, rotated] set_remove1_subset[THEN subsetD])

lemma map_key_remove1: "ordered key t \<Longrightarrow> x \<in> set_tree t \<Longrightarrow> erases_node erase \<Longrightarrow> ordered key (erase x t)"
proof -
  assume o: "ordered key t" and x: "x \<in> set_tree t" and e: "erases_node erase"
  from o have "sorted_wrt (\<lambda>a b. key a < key b) (inorder t)" by (simp add: ordered_def sorted_wrt_map)
  then have "sorted_wrt (\<lambda>a b. key a < key b) (remove1 x (inorder t))" by (rule sorted_wrt_remove1)
  with e x show ?thesis by (simp add: ordered_def sorted_wrt_map erases_node_def)
qed

lemma ordered_distinct: "ordered key t \<Longrightarrow> distinct (map key (inorder t))"
  by (simp add: ordered_def strict_sorted_iff)

lemma ordered_key_inj:
  assumes "ordered key t" and "x \<in> set_tree t" and "y \<in> set_tree t" and "key x = key y"
  shows "x = y"
  using ordered_distinct[OF assms(1)] assms(2-4) by (auto simp: distinct_map dest: inj_onD)

text \<open>The in-order search for a key, one node at a time.\<close>

lemma find_append: "find P (xs @ ys) = (case find P xs of None \<Rightarrow> find P ys | Some x \<Rightarrow> Some x)"
  by (induction xs) auto

lemma find_inorder_None:
  "\<forall>x\<in>set_tree t. key x \<noteq> k \<Longrightarrow> find (\<lambda>x. key x = k) (inorder t) = None"
  by (simp add: find_None_iff)

lemma find_inorder_Node:
  assumes "ordered key (Node l y r)"
  shows "find (\<lambda>x. key x = k) (inorder (Node l y r)) =
    (if k < key y then find (\<lambda>x. key x = k) (inorder l)
     else if key y < k then find (\<lambda>x. key x = k) (inorder r) else Some y)"
proof -
  from assms have lt: "\<forall>x\<in>set_tree l. key x < key y" and gt: "\<forall>x\<in>set_tree r. key y < key x" by auto
  have l: "find (\<lambda>x. key x = k) (inorder l) = None" if "\<not> k < key y"
    using that lt by (intro find_inorder_None) auto
  have r: "find (\<lambda>x. key x = k) (inorder r) = None" if "k < key y"
    using that gt by (intro find_inorder_None) auto
  show ?thesis using l r by (auto simp: find_append split: option.splits)
qed

lemma set_tree_color: "keeps_inorder color \<Longrightarrow> set_tree (color t) = set_tree t"
  by (metis keeps_inorder_def set_inorder)

text \<open>
  The contract: \<open>ok\<close> are the keys that may occur, \<open>look\<close>, \<open>ins\<close> and \<open>del\<close> the operations.
\<close>

locale search_tree =
  fixes key :: "'a \<Rightarrow> 'k :: linorder"
    and ok :: "'k \<Rightarrow> bool"
    and look :: "'a tree \<Rightarrow> 'k \<Rightarrow> 'a option"
    and ins :: "('a tree \<Rightarrow> 'a tree) \<Rightarrow> 'a \<Rightarrow> 'a tree \<Rightarrow> 'a tree res"
  assumes look_spec: "ordered key t \<Longrightarrow> \<forall>x\<in>set_tree t. ok (key x) \<Longrightarrow> ok k \<Longrightarrow>
      look t k = find (\<lambda>x. key x = k) (inorder t)"
    and ins_new: "ordered key t \<Longrightarrow> keeps_inorder color \<Longrightarrow> \<forall>y\<in>set_tree t. key y \<noteq> key x \<Longrightarrow>
      \<forall>y\<in>set_tree t. ok (key y) \<Longrightarrow> ok (key x) \<Longrightarrow>
      \<exists>t'. ins color x t = Inr t' \<and> ordered key t' \<and> set_tree t' = insert x (set_tree t)"
    and ins_dup: "ordered key t \<Longrightarrow> y \<in> set_tree t \<Longrightarrow> key y = key x \<Longrightarrow>
      \<forall>y\<in>set_tree t. ok (key y) \<Longrightarrow> ok (key x) \<Longrightarrow>
      ins color x t = Inl (Err EEXIST)"
begin

definition valid :: "'a tree \<Rightarrow> bool" where
  "valid t \<longleftrightarrow> ordered key t \<and> (\<forall>x\<in>set_tree t. ok (key x))"

lemma look_Some_iff:
  assumes "valid t" and "ok k"
  shows "look t k = Some x \<longleftrightarrow> x \<in> set_tree t \<and> key x = k"
proof
  assume "look t k = Some x"
  with assms look_spec have "find (\<lambda>x. key x = k) (inorder t) = Some x" by (simp add: valid_def)
  then show "x \<in> set_tree t \<and> key x = k" using find_SomeD by fastforce
next
  assume x: "x \<in> set_tree t \<and> key x = k"
  then have "find (\<lambda>x. key x = k) (inorder t) \<noteq> None" by (auto simp: find_None_iff)
  then obtain y where y: "find (\<lambda>x. key x = k) (inorder t) = Some y" by blast
  have "y \<in> set_tree t" "key y = k" using find_SomeD[OF y] by auto
  with x ordered_key_inj[of key t x y] assms(1) have "y = x" by (simp add: valid_def)
  with y assms look_spec[of t k] show "look t k = Some x" by (simp add: valid_def)
qed

lemma look_None_iff:
  assumes "valid t" and "ok k"
  shows "look t k = None \<longleftrightarrow> (\<forall>x\<in>set_tree t. key x \<noteq> k)"
  using assms look_spec[of t k] by (auto simp: valid_def find_None_iff)

lemma ins_look:
  assumes t: "valid t" and col: "keeps_inorder color" and x: "ok (key x)" and k: "ok k"
    and new: "look t (key x) = None"
  shows "\<exists>t'. ins color x t = Inr t' \<and> valid t' \<and> look t' k = (if k = key x then Some x else look t k)"
proof -
  from new t x have "\<forall>y\<in>set_tree t. key y \<noteq> key x" by (simp add: look_None_iff)
  with ins_new[of t color x] t col x obtain t' where t': "ins color x t = Inr t'" "ordered key t'"
    "set_tree t' = insert x (set_tree t)" by (auto simp: valid_def)
  then have v: "valid t'" using t x by (auto simp: valid_def)
  have "look t' k = (if k = key x then Some x else look t k)"
  proof (cases "look t' k")
    case None
    with v k t'(3) have "k \<noteq> key x" "\<forall>y\<in>set_tree t. key y \<noteq> k" by (auto simp: look_None_iff)
    with None t k show ?thesis using look_None_iff[OF t k] by simp
  next
    case (Some y)
    with v k t'(3) have y: "y = x \<or> y \<in> set_tree t" "key y = k" by (auto simp: look_Some_iff)
    then show ?thesis using Some look_Some_iff[OF t k, of y] \<open>\<forall>y\<in>set_tree t. key y \<noteq> key x\<close>
      by auto
  qed
  with t' v show ?thesis by blast
qed

lemma ins_exists:
  assumes "valid t" and "ok (key x)" and "look t (key x) = Some y"
  shows "ins color x t = Inl (Err EEXIST)"
  using assms ins_dup[of t y x color] by (simp add: valid_def look_Some_iff[unfolded valid_def])

lemma erase_look:
  assumes t: "valid t" and er: "erases_node erase" and k: "ok k" and x: "x \<in> set_tree t"
  shows "valid (erase x t)" "look (erase x t) k = (if k = key x then None else look t k)"
proof -
  have o: "ordered key t" using t by (simp add: valid_def)
  have set': "set_tree (erase x t) = set_tree t - {x}"
    using er x ordered_distinct[OF o] set_remove1_eq[of "inorder t" x]
    by (metis distinct_map erases_node_def set_inorder)
  show v: "valid (erase x t)" using t map_key_remove1[OF o x er] set' by (auto simp: valid_def)
  show "look (erase x t) k = (if k = key x then None else look t k)"
  proof (cases "look (erase x t) k")
    case None
    with v k set' have "\<forall>y\<in>set_tree t - {x}. key y \<noteq> k" by (auto simp: look_None_iff)
    with None look_None_iff[OF t k] show ?thesis by auto
  next
    case (Some y)
    with v k set' have y: "y \<in> set_tree t" "y \<noteq> x" "key y = k" by (auto simp: look_Some_iff)
    then show ?thesis using Some look_Some_iff[OF t k, of y] ordered_key_inj[OF o y(1) x] by auto
  qed
qed

end

end
