(* ===== verification/Osdmap.thy ===== *)
theory Osdmap
  imports Crush_Decode Search_Tree
begin

text \<open>
  The OSD map (\<open>include/linux/ceph/osdmap.h\<close>, \<open>net/ceph/osdmap.c\<close>): pools, placement
  groups, the search trees of explicit mappings and of pools, the OSD tables, and the queries
  on them. Decoding and incremental updates are in \<open>Osdmap_Decode\<close>, the mapping of a
  placement group to its OSDs in \<open>Osdmap_Mapping\<close>.
\<close>

section \<open>Placement groups and pools\<close>

datatype ceph_pg = Ceph_pg (pg_pool: u64) (pg_seed: u32)

text \<open>\<open>pgid_cmp\<close> compares the pools, then the seeds, both unsigned.\<close>

definition pgid_cmp :: "ceph_pg \<Rightarrow> ceph_pg \<Rightarrow> int" where
  "pgid_cmp l r =
    (if pg_pool l < pg_pool r then -1
     else if pg_pool r < pg_pool l then 1
     else if pg_seed l < pg_seed r then -1
     else if pg_seed r < pg_seed l then 1
     else 0)"

instantiation ceph_pg :: linorder
begin

definition less_ceph_pg :: "ceph_pg \<Rightarrow> ceph_pg \<Rightarrow> bool" where
  "less_ceph_pg l r \<longleftrightarrow> pgid_cmp l r < 0"

definition less_eq_ceph_pg :: "ceph_pg \<Rightarrow> ceph_pg \<Rightarrow> bool" where
  "less_eq_ceph_pg l r \<longleftrightarrow> pgid_cmp l r \<le> 0"

instance
proof
  fix x y z :: ceph_pg
  show "x < y \<longleftrightarrow> x \<le> y \<and> \<not> y \<le> x"
    by (cases x; cases y) (auto simp: less_ceph_pg_def less_eq_ceph_pg_def pgid_cmp_def)
  show "x \<le> x" by (simp add: less_eq_ceph_pg_def pgid_cmp_def)
  show "x \<le> y \<Longrightarrow> y \<le> z \<Longrightarrow> x \<le> z"
    by (cases x; cases y; cases z) (auto simp: less_eq_ceph_pg_def pgid_cmp_def split: if_splits)
  show "x \<le> y \<Longrightarrow> y \<le> x \<Longrightarrow> x = y"
    by (cases x; cases y) (auto simp: less_eq_ceph_pg_def pgid_cmp_def split: if_splits)
  show "x \<le> y \<or> y \<le> x"
    by (cases x; cases y) (auto simp: less_eq_ceph_pg_def pgid_cmp_def)
qed

end

definition CEPH_NOPOOL :: u64 where "CEPH_NOPOOL = -1"
definition CEPH_POOL_TYPE_REP :: u8 where "CEPH_POOL_TYPE_REP = 1"
definition CEPH_POOL_TYPE_EC :: u8 where "CEPH_POOL_TYPE_EC = 3"
definition CEPH_POOL_FLAG_HASHPSPOOL :: u64 where "CEPH_POOL_FLAG_HASHPSPOOL = 1"
definition CEPH_PG_MAX_SIZE :: nat where "CEPH_PG_MAX_SIZE = 16"

record ceph_pg_pool_info =
  pi_id :: int
  pi_type :: u8
  pi_size :: u8
  crush_ruleset :: u8
  object_hash :: u8
  pg_num :: u32
  pgp_num :: u32
  pg_num_mask :: u32
  pgp_num_mask :: u32
  read_tier :: int
  write_tier :: int
  pi_flags :: u64
  pi_name :: "u8 list option"

definition ceph_can_shift_osds :: "ceph_pg_pool_info \<Rightarrow> bool res" where
  "ceph_can_shift_osds pool =
    (if pi_type pool = CEPH_POOL_TYPE_REP then Inr True
     else if pi_type pool = CEPH_POOL_TYPE_EC then Inr False
     else Inl (Fault BugOn))"

text \<open>\<open>while (t) { t = t >> 1; b++; }\<close>\<close>

function calc_bits_of :: "u32 \<Rightarrow> nat" where
  "calc_bits_of t = (if t = 0 then 0 else calc_bits_of (drop_bit 1 t) + 1)"
  by auto
termination
  by (relation "measure unat") (auto simp: unat_drop_bit_eq drop_bit_eq_div word_neq_0_conv word_less_nat_alt unat_div)

declare calc_bits_of.simps [simp del]

text \<open>\<open>(1 << b) - 1\<close> on a 32-bit int.\<close>

definition mask_of :: "u32 \<Rightarrow> u32 res" where
  "mask_of n =
    (let b = calc_bits_of (n - 1) in
     if b < 32 then Inr (push_bit b 1 - 1) else Inl (Fault BadShift))"

definition calc_pg_masks :: "ceph_pg_pool_info \<Rightarrow> ceph_pg_pool_info res" where
  "calc_pg_masks pi =
    bindE (mask_of (pg_num pi)) (\<lambda>m1.
    bindE (mask_of (pgp_num pi)) (\<lambda>m2.
    Inr (pi\<lparr>pg_num_mask := m1, pgp_num_mask := m2\<rparr>)))"

text \<open>On C ints: a signed comparison and an arithmetic shift.\<close>

definition ceph_stable_mod :: "u32 \<Rightarrow> u32 \<Rightarrow> u32 \<Rightarrow> u32" where
  "ceph_stable_mod x b bmask =
    (if sint (x AND bmask) < sint b then x AND bmask
     else x AND signed_drop_bit 1 bmask)"

section \<open>Explicit mappings\<close>

text \<open>The union of \<open>struct ceph_pg_mapping\<close>: a set of OSDs, or a primary.\<close>

datatype temp_target = Pg_temp "int list" | Primary_temp int

record ceph_pg_mapping =
  pm_pgid :: ceph_pg
  pm_target :: temp_target

text \<open>The descent of \<open>__insert_pg_mapping\<close>; \<open>None\<close> when it meets the key.\<close>

fun link_pg_mapping :: "ceph_pg_mapping \<Rightarrow> ceph_pg_mapping tree \<Rightarrow> ceph_pg_mapping tree option" where
  "link_pg_mapping new Leaf = Some (Node Leaf new Leaf)"
| "link_pg_mapping new (Node l pg r) =
    (let c = pgid_cmp (pm_pgid new) (pm_pgid pg) in
     if c < 0 then map_option (\<lambda>l. Node l pg r) (link_pg_mapping new l)
     else if 0 < c then map_option (\<lambda>r. Node l pg r) (link_pg_mapping new r)
     else None)"

definition insert_pg_mapping ::
  "(ceph_pg_mapping tree \<Rightarrow> ceph_pg_mapping tree) \<Rightarrow> ceph_pg_mapping \<Rightarrow> ceph_pg_mapping tree \<Rightarrow>
   ceph_pg_mapping tree res" where
  "insert_pg_mapping color new root =
    (case link_pg_mapping new root of None \<Rightarrow> Inl (Err EEXIST) | Some t \<Rightarrow> Inr (color t))"

fun lookup_pg_mapping :: "ceph_pg_mapping tree \<Rightarrow> ceph_pg \<Rightarrow> ceph_pg_mapping option" where
  "lookup_pg_mapping Leaf pgid = None"
| "lookup_pg_mapping (Node l pg r) pgid =
    (let c = pgid_cmp pgid (pm_pgid pg) in
     if c < 0 then lookup_pg_mapping l pgid
     else if 0 < c then lookup_pg_mapping r pgid
     else Some pg)"

definition remove_pg_mapping ::
  "(ceph_pg_mapping \<Rightarrow> ceph_pg_mapping tree \<Rightarrow> ceph_pg_mapping tree) \<Rightarrow> ceph_pg_mapping tree \<Rightarrow>
   ceph_pg \<Rightarrow> ceph_pg_mapping tree res" where
  "remove_pg_mapping erase root pgid =
    (case lookup_pg_mapping root pgid of None \<Rightarrow> Inl (Err ENOENT) | Some pg \<Rightarrow> Inr (erase pg root))"

section \<open>The tree of pools\<close>

text \<open>Insertion compares the signed ids, lookup compares them as unsigned 64-bit numbers.\<close>

fun link_pg_pool :: "ceph_pg_pool_info \<Rightarrow> ceph_pg_pool_info tree \<Rightarrow> ceph_pg_pool_info tree option" where
  "link_pg_pool new Leaf = Some (Node Leaf new Leaf)"
| "link_pg_pool new (Node l pi r) =
    (if pi_id new < pi_id pi then map_option (\<lambda>l. Node l pi r) (link_pg_pool new l)
     else if pi_id pi < pi_id new then map_option (\<lambda>r. Node l pi r) (link_pg_pool new r)
     else None)"

definition insert_pg_pool ::
  "(ceph_pg_pool_info tree \<Rightarrow> ceph_pg_pool_info tree) \<Rightarrow> ceph_pg_pool_info \<Rightarrow>
   ceph_pg_pool_info tree \<Rightarrow> ceph_pg_pool_info tree res" where
  "insert_pg_pool color new root =
    (case link_pg_pool new root of None \<Rightarrow> Inl (Err EEXIST) | Some t \<Rightarrow> Inr (color t))"

fun lookup_pg_pool :: "ceph_pg_pool_info tree \<Rightarrow> u64 \<Rightarrow> ceph_pg_pool_info option" where
  "lookup_pg_pool Leaf i = None"
| "lookup_pg_pool (Node l pi r) i =
    (if i < word_of_int (pi_id pi) then lookup_pg_pool l i
     else if word_of_int (pi_id pi) < i then lookup_pg_pool r i
     else Some pi)"

text \<open>Writing through a pointer to a node: the pool of the same id is replaced.\<close>

definition set_pg_pool :: "ceph_pg_pool_info \<Rightarrow> ceph_pg_pool_info tree \<Rightarrow> ceph_pg_pool_info tree" where
  "set_pg_pool v t = map_tree (\<lambda>pi. if pi_id pi = pi_id v then v else pi) t"

section \<open>The OSD map\<close>

definition CEPH_OSD_EXISTS :: u8 where "CEPH_OSD_EXISTS = 1"
definition CEPH_OSD_UP :: u8 where "CEPH_OSD_UP = 2"
definition CEPH_OSD_IN :: u32 where "CEPH_OSD_IN = 0x10000"
definition CEPH_OSD_OUT :: u32 where "CEPH_OSD_OUT = 0"
definition CEPH_OSD_MAX_PRIMARY_AFFINITY :: u32 where "CEPH_OSD_MAX_PRIMARY_AFFINITY = 0x10000"
definition CEPH_OSD_DEFAULT_PRIMARY_AFFINITY :: u32 where
  "CEPH_OSD_DEFAULT_PRIMARY_AFFINITY = 0x10000"

text \<open>
  An entity address is its 136 bytes: type, nonce and the socket address. The arrays of the
  map are lists; a null \<open>osd_primary_affinity\<close> is \<open>None\<close>.
\<close>

record ceph_osdmap =
  fsid :: "u8 list"
  epoch :: u32
  created :: "u8 list"
  modified :: "u8 list"
  om_flags :: u32
  max_osd :: u32
  osd_state :: "u8 list"
  osd_weight :: "u32 list"
  osd_addr :: "u8 list list"
  pg_temp :: "ceph_pg_mapping tree"
  primary_temp :: "ceph_pg_mapping tree"
  osd_primary_affinity :: "u32 list option"
  pg_pools :: "ceph_pg_pool_info tree"
  pool_max :: u32
  om_crush :: "crush_map option"

definition ceph_osdmap_state_str :: "u32 \<Rightarrow> string" where
  "ceph_osdmap_state_str state =
    (if state AND 1 \<noteq> 0 \<and> state AND 2 \<noteq> 0 then ''exists, up''
     else if state AND 1 \<noteq> 0 then ''exists''
     else if state AND 2 \<noteq> 0 then ''up''
     else ''doesn'' @ [CHR 0x27] @ ''t exist'')"

definition ceph_osd_exists :: "ceph_osdmap \<Rightarrow> int \<Rightarrow> bool res" where
  "ceph_osd_exists om osd =
    (if 0 \<le> osd \<and> osd < uint (max_osd om)
     then bindE (rdi (osd_state om) osd) (\<lambda>st. Inr (st AND CEPH_OSD_EXISTS \<noteq> 0))
     else Inr False)"

definition ceph_osd_is_up :: "ceph_osdmap \<Rightarrow> int \<Rightarrow> bool res" where
  "ceph_osd_is_up om osd =
    bindE (ceph_osd_exists om osd) (\<lambda>ex.
    if ex then bindE (rdi (osd_state om) osd) (\<lambda>st. Inr (st AND CEPH_OSD_UP \<noteq> 0))
    else Inr False)"

definition ceph_osd_is_down :: "ceph_osdmap \<Rightarrow> int \<Rightarrow> bool res" where
  "ceph_osd_is_down om osd = bindE (ceph_osd_is_up om osd) (\<lambda>up. Inr (\<not> up))"

definition ceph_osdmap_flag :: "ceph_osdmap option \<Rightarrow> u32 \<Rightarrow> bool" where
  "ceph_osdmap_flag om flag =
    (case om of None \<Rightarrow> False | Some m \<Rightarrow> om_flags m AND flag \<noteq> 0)"

text \<open>The comparison with the unsigned \<open>max_osd\<close> makes a negative \<open>osd\<close> a large one.\<close>

definition ceph_osd_addr :: "ceph_osdmap \<Rightarrow> int \<Rightarrow> u8 list option res" where
  "ceph_osd_addr om osd =
    (if max_osd om \<le> word_of_int osd then Inr None
     else bindE (rdi (osd_addr om) osd) (\<lambda>a. Inr (Some a)))"

definition ceph_pg_pool_by_id :: "ceph_osdmap \<Rightarrow> u64 \<Rightarrow> ceph_pg_pool_info option" where
  "ceph_pg_pool_by_id om i = lookup_pg_pool (pg_pools om) i"

definition ceph_pg_pool_name_by_id :: "ceph_osdmap \<Rightarrow> u64 \<Rightarrow> u8 list option" where
  "ceph_pg_pool_name_by_id om i =
    (if i = CEPH_NOPOOL then None
     else if 0x7fffffff < i then None
     else case lookup_pg_pool (pg_pools om) i of None \<Rightarrow> None | Some pi \<Rightarrow> pi_name pi)"

text \<open>The loop over the pools in order; the id is returned as an \<open>int\<close>.\<close>

definition ceph_pg_poolid_by_name :: "ceph_osdmap \<Rightarrow> u8 list \<Rightarrow> int res" where
  "ceph_pg_poolid_by_name om name =
    (case find (\<lambda>pi. pi_name pi = Some name) (inorder (pg_pools om)) of
       None \<Rightarrow> Inl (Err ENOENT)
     | Some pi \<Rightarrow> Inr (sint (word_of_int (pi_id pi) :: u32)))"

definition ceph_get_primary_affinity :: "ceph_osdmap \<Rightarrow> int \<Rightarrow> u32 res" where
  "ceph_get_primary_affinity om osd =
    bindE (guardE (word_of_int osd < max_osd om) (Fault BugOn)) (\<lambda>_.
    case osd_primary_affinity om of
      None \<Rightarrow> Inr CEPH_OSD_DEFAULT_PRIMARY_AFFINITY
    | Some aff \<Rightarrow> rd aff (unat (word_of_int osd :: u32)))"

section \<open>Object names\<close>

record ceph_object_id =
  oid_name :: "u8 list"
  oid_name_len :: nat

text \<open>Names longer than the 100 bytes of the buffer are cut.\<close>

definition ceph_oid_set_name :: "ceph_object_id \<Rightarrow> u8 list \<Rightarrow> ceph_object_id" where
  "ceph_oid_set_name oid name =
    (let len = min (length name) 100 in
     oid\<lparr>oid_name := take len name @ drop len (oid_name oid), oid_name_len := len\<rparr>)"

definition ceph_oid_copy :: "ceph_object_id \<Rightarrow> ceph_object_id \<Rightarrow> ceph_object_id res" where
  "ceph_oid_copy dest src =
    bindE (guardE (oid_name_len src \<le> 100) (Fault BugOn)) (\<lambda>_.
    Inr (dest\<lparr>oid_name := take (oid_name_len src) (oid_name src) @ drop (oid_name_len src) (oid_name dest),
             oid_name_len := oid_name_len src\<rparr>))"

text \<open>Mapping an object to a placement group: the pool of the locator and the hash of the name.\<close>

definition ceph_oloc_oid_to_pg :: "ceph_osdmap \<Rightarrow> int \<Rightarrow> ceph_object_id \<Rightarrow> ceph_pg res" where
  "ceph_oloc_oid_to_pg om pool oid =
    (case lookup_pg_pool (pg_pools om) (word_of_int pool) of
       None \<Rightarrow> Inl (Err EIO)
     | Some pi \<Rightarrow>
         Inr (Ceph_pg (word_of_int pool)
           (ceph_str_hash (uint (object_hash pi)) (take (oid_name_len oid) (oid_name oid)))))"

section \<open>The trees keep the search tree contract\<close>

lemma pgid_cmp_iff: "pgid_cmp l r < 0 \<longleftrightarrow> l < r" "0 < pgid_cmp l r \<longleftrightarrow> r < l"
  by (auto simp: less_ceph_pg_def pgid_cmp_def split: if_splits)

lemma link_pg_mapping_new:
  assumes "ordered pm_pgid t" and "\<forall>y\<in>set_tree t. pm_pgid y \<noteq> pm_pgid x"
  shows "\<exists>t'. link_pg_mapping x t = Some t' \<and> ordered pm_pgid t' \<and> set_tree t' = insert x (set_tree t)"
  using assms
proof (induction t)
  case (Node l y r)
  show ?case
  proof (cases "pm_pgid x < pm_pgid y")
    case True
    with Node.IH(1) Node.prems obtain l' where "link_pg_mapping x l = Some l'" "ordered pm_pgid l'"
      "set_tree l' = insert x (set_tree l)" by auto
    with True Node.prems show ?thesis by (auto simp: pgid_cmp_iff)
  next
    case False
    with Node.prems have gt: "pm_pgid y < pm_pgid x" by force
    with Node.IH(2) Node.prems obtain r' where "link_pg_mapping x r = Some r'" "ordered pm_pgid r'"
      "set_tree r' = insert x (set_tree r)" by auto
    with gt False Node.prems show ?thesis by (auto simp: pgid_cmp_iff)
  qed
qed simp

lemma link_pg_mapping_dup:
  assumes "ordered pm_pgid t" and "y \<in> set_tree t" and "pm_pgid y = pm_pgid x"
  shows "link_pg_mapping x t = None"
  using assms by (induction t) (auto simp: pgid_cmp_iff)

lemma lookup_pg_mapping_find:
  assumes "ordered pm_pgid t"
  shows "lookup_pg_mapping t k = find (\<lambda>x. pm_pgid x = k) (inorder t)"
  using assms
proof (induction t)
  case (Node l y r)
  from find_inorder_Node[OF Node.prems, of k] Node.IH Node.prems show ?case
    by (simp add: pgid_cmp_iff del: inorder.simps)
qed simp

interpretation pgm: search_tree pm_pgid "\<lambda>_. True" lookup_pg_mapping insert_pg_mapping
proof
  show "lookup_pg_mapping t k = find (\<lambda>x. pm_pgid x = k) (inorder t)" if "ordered pm_pgid t" for t k
    using that by (rule lookup_pg_mapping_find)
  show "\<exists>t'. insert_pg_mapping color x t = Inr t' \<and> ordered pm_pgid t' \<and> set_tree t' = insert x (set_tree t)"
    if "ordered pm_pgid t" "keeps_inorder color" "\<forall>y\<in>set_tree t. pm_pgid y \<noteq> pm_pgid x" for t color x
    using link_pg_mapping_new[OF that(1,3)] that(2)
    by (auto simp: insert_pg_mapping_def ordered_color set_tree_color)
  show "insert_pg_mapping color x t = Inl (Err EEXIST)"
    if "ordered pm_pgid t" "y \<in> set_tree t" "pm_pgid y = pm_pgid x" for t color x y
    using link_pg_mapping_dup[OF that] by (simp add: insert_pg_mapping_def)
qed

text \<open>Pool ids that are not negative have the same order as signed and as unsigned numbers.\<close>

definition pool_id_ok :: "int \<Rightarrow> bool" where
  "pool_id_ok i \<longleftrightarrow> 0 \<le> i \<and> i < 2 ^ 63"

lemma pool_id_less:
  assumes "pool_id_ok i" and "pool_id_ok j"
  shows "(word_of_int i :: u64) < word_of_int j \<longleftrightarrow> i < j"
  using assms by (simp add: pool_id_ok_def word_less_def uint_word_of_int take_bit_eq_mod)

lemma link_pg_pool_new:
  assumes "ordered pi_id t" and "\<forall>y\<in>set_tree t. pi_id y \<noteq> pi_id x"
  shows "\<exists>t'. link_pg_pool x t = Some t' \<and> ordered pi_id t' \<and> set_tree t' = insert x (set_tree t)"
  using assms
proof (induction t)
  case (Node l y r)
  show ?case
  proof (cases "pi_id x < pi_id y")
    case True
    with Node.IH(1) Node.prems obtain l' where "link_pg_pool x l = Some l'" "ordered pi_id l'"
      "set_tree l' = insert x (set_tree l)" by auto
    with True Node.prems show ?thesis by auto
  next
    case False
    with Node.prems have gt: "pi_id y < pi_id x" by force
    with Node.IH(2) Node.prems obtain r' where "link_pg_pool x r = Some r'" "ordered pi_id r'"
      "set_tree r' = insert x (set_tree r)" by auto
    with gt False Node.prems show ?thesis by auto
  qed
qed simp

lemma link_pg_pool_dup:
  assumes "ordered pi_id t" and "y \<in> set_tree t" and "pi_id y = pi_id x"
  shows "link_pg_pool x t = None"
  using assms by (induction t) auto

lemma lookup_pg_pool_find:
  assumes "ordered pi_id t" and "\<forall>x\<in>set_tree t. pool_id_ok (pi_id x)" and "pool_id_ok k"
  shows "lookup_pg_pool t (word_of_int k) = find (\<lambda>x. pi_id x = k) (inorder t)"
  using assms(1,2)
proof (induction t)
  case (Node l y r)
  from find_inorder_Node[OF Node.prems(1), of k] Node.IH Node.prems assms(3) show ?case
    by (simp add: pool_id_less del: inorder.simps)
qed simp

interpretation pools: search_tree pi_id pool_id_ok "\<lambda>t i. lookup_pg_pool t (word_of_int i)" insert_pg_pool
proof
  show "lookup_pg_pool t (word_of_int k) = find (\<lambda>x. pi_id x = k) (inorder t)"
    if "ordered pi_id t" "\<forall>x\<in>set_tree t. pool_id_ok (pi_id x)" "pool_id_ok k" for t k
    using that by (rule lookup_pg_pool_find)
  show "\<exists>t'. insert_pg_pool color x t = Inr t' \<and> ordered pi_id t' \<and> set_tree t' = insert x (set_tree t)"
    if "ordered pi_id t" "keeps_inorder color" "\<forall>y\<in>set_tree t. pi_id y \<noteq> pi_id x" for t color x
    using link_pg_pool_new[OF that(1,3)] that(2)
    by (auto simp: insert_pg_pool_def ordered_color set_tree_color)
  show "insert_pg_pool color x t = Inl (Err EEXIST)"
    if "ordered pi_id t" "y \<in> set_tree t" "pi_id y = pi_id x" for t color x y
    using link_pg_pool_dup[OF that] by (simp add: insert_pg_pool_def)
qed

section \<open>Stable modulo\<close>

lemma calc_bits_of_bounds: "unat t < 2 ^ calc_bits_of t \<and> (t \<noteq> 0 \<longrightarrow> 2 ^ (calc_bits_of t - 1) \<le> unat t)"
proof (induction t rule: calc_bits_of.induct)
  case (1 t)
  show ?case
  proof (cases "t = 0")
    case False
    let ?h = "drop_bit 1 t"
    have h: "unat ?h = unat t div 2" by (simp add: drop_bit_eq_div unat_div)
    have bits: "calc_bits_of t = Suc (calc_bits_of ?h)" using False by (subst calc_bits_of.simps) simp
    have "?h = 0 \<longrightarrow> calc_bits_of ?h = 0" by (subst calc_bits_of.simps) simp
    moreover have "0 < calc_bits_of ?h" if "?h \<noteq> 0" using that by (subst calc_bits_of.simps) simp
    moreover have "(2 :: nat) ^ calc_bits_of ?h = 2 * 2 ^ (calc_bits_of ?h - 1)" if "0 < calc_bits_of ?h"
      using that by (metis Suc_diff_1 power_Suc)
    moreover have "0 < unat t" using False by (simp add: unat_gt_0)
    ultimately show ?thesis using 1[OF False] h bits
      by (cases "?h = 0") (auto simp: less_mult_imp_div_less)
  qed (simp add: calc_bits_of.simps)
qed

lemma sint_small: "unat (w :: u32) < 2 ^ 31 \<Longrightarrow> sint w = int (unat w)"
proof -
  assume "unat w < 2 ^ 31"
  then have u: "uint w < 2 ^ 31" by (simp add: unat_less_uint)
  have "- (2 ^ 31) \<le> (0 :: int)" by simp
  with uint_nonneg[of w] have "- (2 ^ 31) \<le> uint w" by (rule order_trans[rotated])
  then have "signed_take_bit 31 (uint w) = uint w" using u by (rule signed_take_bit_int_eq_self)
  then show ?thesis by (simp add: sint_uint)
qed

lemma mask_word: "push_bit n 1 - 1 = (mask n :: u32)"
  by (simp add: mask_eq_exp_minus_1 push_bit_eq_mult)

lemma mask_shift: "n \<le> 31 \<Longrightarrow> signed_drop_bit 1 (mask n :: u32) = mask (n - 1)"
  by (rule bit_word_eqI) (auto simp: bit_simps)

lemma unat_and_mask: "unat (x AND mask n :: u32) = unat x mod 2 ^ n"
  by (simp only: take_bit_eq_mask[symmetric] unsigned_take_bit_eq) (simp add: take_bit_eq_mod)

text \<open>What the mask of a pool is: the least \<open>2 ^ n - 1\<close> that is at least \<open>pg_num - 1\<close>.\<close>

lemma mask_of_spec:
  assumes "0 < unat b" and "unat b \<le> 2 ^ 31"
  shows "\<exists>n\<le>31. mask_of b = Inr (mask n) \<and> unat b \<le> 2 ^ n \<and> (unat b = 1 \<longrightarrow> n = 0) \<and>
     (1 < unat b \<longrightarrow> 0 < n \<and> 2 ^ (n - 1) < unat b)"
proof -
  let ?n = "calc_bits_of (b - 1)"
  have b1: "unat (b - 1) = unat b - 1" using assms(1) by (simp add: unat_minus_one unat_gt_0)
  note bnd = calc_bits_of_bounds[of "b - 1"]
  have "?n \<le> 31"
  proof (cases "b - 1 = 0")
    case True
    then show ?thesis by (simp add: calc_bits_of.simps)
  next
    case False
    with bnd b1 assms have "(2 :: nat) ^ (?n - 1) < 2 ^ 31" by linarith
    then have "?n - 1 < 31" by (rule power_less_imp_less_exp[rotated]) simp
    then show ?thesis by simp
  qed
  moreover from this have "mask_of b = Inr (mask ?n)" by (simp only: mask_of_def Let_def mask_word) simp
  moreover have "unat b \<le> 2 ^ ?n" using bnd b1 by linarith
  moreover have "?n = 0" if "unat b = 1"
  proof -
    have "b - 1 = 0" using that b1 by (simp add: unat_eq_zero[symmetric] del: unat_eq_zero)
    then show ?thesis by (simp add: calc_bits_of.simps)
  qed
  moreover have "0 < ?n \<and> 2 ^ (?n - 1) < unat b" if "1 < unat b"
  proof -
    have nz: "b - 1 \<noteq> 0" using that b1 by (metis less_numeral_extra(3) unat_0 zero_less_diff)
    then have "0 < ?n" by (subst calc_bits_of.simps) simp
    with nz bnd b1 that show ?thesis by linarith
  qed
  ultimately show ?thesis by blast
qed

lemma unat_stable_mod:
  assumes "n \<le> 31" and "unat b < 2 ^ 31"
  shows "unat (ceph_stable_mod x b (mask n)) =
    (if unat x mod 2 ^ n < unat b then unat x mod 2 ^ n else unat x mod 2 ^ (n - 1))"
proof -
  have "unat x mod 2 ^ n < 2 ^ n" by simp
  also have "(2 :: nat) ^ n \<le> 2 ^ 31" using assms(1) by (intro power_increasing) auto
  finally have "unat (x AND mask n) < 2 ^ 31" by (simp add: unat_and_mask)
  then have "sint (x AND mask n) = int (unat x mod 2 ^ n)" by (simp only: sint_small unat_and_mask)
  moreover have "sint b = int (unat b)" using assms(2) by (rule sint_small)
  ultimately show ?thesis
    unfolding ceph_stable_mod_def mask_shift[OF assms(1)]
    by (cases "unat x mod 2 ^ n < unat b") (simp_all only: of_nat_less_iff unat_and_mask if_True if_False)
qed

text \<open>The mask exponent grows by one exactly when the number of groups passes a power of two.\<close>

lemma exponent_step:
  fixes b n n' :: nat
  assumes "b \<le> 2 ^ n" and "b = 1 \<longrightarrow> n = 0" and "1 < b \<longrightarrow> 0 < n \<and> 2 ^ (n - 1) < b"
    and "b + 1 \<le> 2 ^ n'" and "1 < b + 1 \<longrightarrow> 0 < n' \<and> 2 ^ (n' - 1) < b + 1" and "0 < b"
  shows "n' = n \<and> b < 2 ^ n \<or> n' = Suc n \<and> b = 2 ^ n"
proof (cases "b < 2 ^ n")
  case True
  have n': "0 < n'" "2 ^ (n' - 1) < b + 1" using assms(5,6) by auto
  have "(2 :: nat) ^ (n' - 1) < 2 ^ n" using n'(2) True by linarith
  then have "n' - 1 < n" by (rule power_less_imp_less_exp[rotated]) simp
  moreover have "1 < b" using True assms(2,6) by (cases "b = 1") auto
  with assms(3) have lo: "2 ^ (n - 1) < b" "0 < n" by auto
  then have "(2 :: nat) ^ (n - 1) < 2 ^ n'" using assms(4) by linarith
  then have "n - 1 < n'" by (rule power_less_imp_less_exp[rotated]) simp
  ultimately show ?thesis using True n'(1) lo(2) by simp
next
  case False
  with assms(1) have b: "b = 2 ^ n" by simp
  have "(2 :: nat) ^ n < 2 ^ n'" using assms(4) unfolding b by linarith
  then have "n < n'" by (rule power_less_imp_less_exp[rotated]) simp
  moreover have "(2 :: nat) ^ (n' - 1) < 2 ^ Suc n"
  proof -
    have "2 ^ (n' - 1) < (2 :: nat) ^ n + 1" using assms(5,6) b by auto
    also have "\<dots> \<le> 2 ^ Suc n" by simp
    finally show ?thesis .
  qed
  then have "n' - 1 < Suc n" by (rule power_less_imp_less_exp[rotated]) simp
  ultimately show ?thesis using b by simp
qed

lemma mod_split_step:
  fixes v n :: nat
  assumes "v mod 2 ^ Suc n < 2 ^ n"
  shows "v mod 2 ^ n = v mod 2 ^ Suc n"
proof -
  have "v mod 2 ^ n = v mod 2 ^ Suc n mod 2 ^ n" by (simp add: mod_mod_cancel)
  with assms show ?thesis by simp
qed

section \<open>Properties\<close>

text \<open>
  After \<open>__insert_pg_mapping\<close> of a new placement group, \<open>__lookup_pg_mapping\<close> finds it, and
  finds every other group as before; the tree stays ordered. An insertion of a group that is
  present fails with \<open>EEXIST\<close>.
\<close>

theorem pg_mapping_insert_lookup:
  assumes "ordered pm_pgid t" and "keeps_inorder color"
  shows "case lookup_pg_mapping t (pm_pgid new) of
      Some pg \<Rightarrow> insert_pg_mapping color new t = Inl (Err EEXIST)
    | None \<Rightarrow> \<exists>t'. insert_pg_mapping color new t = Inr t' \<and> ordered pm_pgid t' \<and>
        (\<forall>k. lookup_pg_mapping t' k = (if k = pm_pgid new then Some new else lookup_pg_mapping t k))"
proof (cases "lookup_pg_mapping t (pm_pgid new)")
  case None
  have v: "pgm.valid t" using assms(1) by (simp add: pgm.valid_def)
  have step: "\<exists>t'. insert_pg_mapping color new t = Inr t' \<and> pgm.valid t' \<and>
      lookup_pg_mapping t' k = (if k = pm_pgid new then Some new else lookup_pg_mapping t k)" for k
    by (rule pgm.ins_look[OF v assms(2) _ _ None]) auto
  then obtain t' where "insert_pg_mapping color new t = Inr t'" by blast
  with step None show ?thesis by (auto simp: pgm.valid_def)
next
  case (Some pg)
  have "pgm.valid t" using assms(1) by (simp add: pgm.valid_def)
  with Some pgm.ins_exists[of t new pg color] show ?thesis by simp
qed

text \<open>The example trees hold the groups 1.0, 1.5 and 2.0.\<close>

definition example_pgs :: "ceph_pg_mapping tree" where
  "example_pgs =
    Node (Node Leaf \<lparr>pm_pgid = Ceph_pg 1 0, pm_target = Pg_temp [3, 4]\<rparr> Leaf)
      \<lparr>pm_pgid = Ceph_pg 1 5, pm_target = Pg_temp [0]\<rparr>
      (Node Leaf \<lparr>pm_pgid = Ceph_pg 2 0, pm_target = Pg_temp [1]\<rparr> Leaf)"

lemma example_pgs_ordered: "ordered pm_pgid example_pgs"
  by (simp add: example_pgs_def less_ceph_pg_def pgid_cmp_def)

theorem pg_mapping_insert_lookup_witness:
  "insert_pg_mapping (\<lambda>t. t) \<lparr>pm_pgid = Ceph_pg 1 5, pm_target = Pg_temp []\<rparr> example_pgs = Inl (Err EEXIST) \<and>
   (\<exists>t'. insert_pg_mapping (\<lambda>t. t) \<lparr>pm_pgid = Ceph_pg 1 7, pm_target = Pg_temp []\<rparr> example_pgs = Inr t' \<and>
     lookup_pg_mapping t' (Ceph_pg 1 0) = Some \<lparr>pm_pgid = Ceph_pg 1 0, pm_target = Pg_temp [3, 4]\<rparr>)"
proof -
  have k: "keeps_inorder (\<lambda>t :: ceph_pg_mapping tree. t)" by (simp add: keeps_inorder_def)
  from pg_mapping_insert_lookup[OF example_pgs_ordered k, of "\<lparr>pm_pgid = Ceph_pg 1 5, pm_target = Pg_temp []\<rparr>"]
    pg_mapping_insert_lookup[OF example_pgs_ordered k, of "\<lparr>pm_pgid = Ceph_pg 1 7, pm_target = Pg_temp []\<rparr>"]
  show ?thesis by (auto simp: example_pgs_def pgid_cmp_def)
qed

text \<open>
  \<open>__remove_pg_mapping\<close> removes the group it is given and no other, and reports
  \<open>ENOENT\<close> when the group is not in the tree.
\<close>

theorem pg_mapping_remove_lookup:
  assumes "ordered pm_pgid t" and "erases_node erase"
  shows "case lookup_pg_mapping t pgid of
      None \<Rightarrow> remove_pg_mapping erase t pgid = Inl (Err ENOENT)
    | Some pg \<Rightarrow> \<exists>t'. remove_pg_mapping erase t pgid = Inr t' \<and> ordered pm_pgid t' \<and>
        (\<forall>k. lookup_pg_mapping t' k = (if k = pgid then None else lookup_pg_mapping t k))"
proof (cases "lookup_pg_mapping t pgid")
  case (Some pg)
  have v: "pgm.valid t" using assms(1) by (simp add: pgm.valid_def)
  with Some have pg: "pg \<in> set_tree t" "pm_pgid pg = pgid" by (auto simp: pgm.look_Some_iff)
  from pgm.erase_look[OF v assms(2) _ pg(1)] pg(2) Some show ?thesis
    by (simp add: remove_pg_mapping_def pgm.valid_def)
qed (simp add: remove_pg_mapping_def)

theorem pg_mapping_remove_lookup_witness:
  "\<exists>erase :: ceph_pg_mapping \<Rightarrow> ceph_pg_mapping tree \<Rightarrow> ceph_pg_mapping tree. erases_node erase \<and>
     remove_pg_mapping erase example_pgs (Ceph_pg 9 9) = Inl (Err ENOENT) \<and>
     (\<exists>t'. remove_pg_mapping erase example_pgs (Ceph_pg 1 5) = Inr t' \<and>
        lookup_pg_mapping t' (Ceph_pg 1 5) = None)"
proof -
  let ?erase = "\<lambda>x t :: ceph_pg_mapping tree. foldr (\<lambda>y u. Node Leaf y u) (remove1 x (inorder t)) Leaf"
  have io: "inorder (foldr (\<lambda>y u. Node Leaf y u) xs Leaf) = xs" for xs :: "ceph_pg_mapping list"
    by (induction xs) auto
  have e: "erases_node ?erase" by (simp add: erases_node_def io)
  from pg_mapping_remove_lookup[OF example_pgs_ordered e, of "Ceph_pg 9 9"]
    pg_mapping_remove_lookup[OF example_pgs_ordered e, of "Ceph_pg 1 5"] e
  show ?thesis by (intro exI[of _ ?erase]) (auto simp: example_pgs_def pgid_cmp_def)
qed

text \<open>
  Pools whose ids are not negative as signed 64-bit numbers are found after
  \<open>__insert_pg_pool\<close>, and inserting an id twice fails with \<open>EEXIST\<close>.
\<close>

theorem pool_insert_lookup:
  assumes "ordered pi_id t" and "\<forall>x\<in>set_tree t. pool_id_ok (pi_id x)" and "pool_id_ok (pi_id new)"
    and "keeps_inorder color"
  shows "case lookup_pg_pool t (word_of_int (pi_id new)) of
      Some pi \<Rightarrow> insert_pg_pool color new t = Inl (Err EEXIST)
    | None \<Rightarrow> \<exists>t'. insert_pg_pool color new t = Inr t' \<and> ordered pi_id t' \<and>
        (\<forall>k. pool_id_ok k \<longrightarrow> lookup_pg_pool t' (word_of_int k) =
          (if k = pi_id new then Some new else lookup_pg_pool t (word_of_int k)))"
proof (cases "lookup_pg_pool t (word_of_int (pi_id new))")
  case None
  have v: "pools.valid t" using assms(1,2) by (simp add: pools.valid_def)
  have step: "\<exists>t'. insert_pg_pool color new t = Inr t' \<and> pools.valid t' \<and>
      lookup_pg_pool t' (word_of_int k) = (if k = pi_id new then Some new else lookup_pg_pool t (word_of_int k))"
    if "pool_id_ok k" for k
    by (rule pools.ins_look[OF v assms(4,3) that None])
  from step[OF assms(3)] obtain t' where "insert_pg_pool color new t = Inr t'" "pools.valid t'" by blast
  with step None show ?thesis by (auto simp: pools.valid_def)
next
  case (Some pg)
  have "pools.valid t" using assms(1,2) by (simp add: pools.valid_def)
  with Some pools.ins_exists[of t new pg color] assms(3) show ?thesis by simp
qed

definition example_pool :: "int \<Rightarrow> ceph_pg_pool_info" where
  "example_pool i =
    \<lparr>pi_id = i, pi_type = 1, pi_size = 2, crush_ruleset = 0, object_hash = 2, pg_num = 12, pgp_num = 12,
     pg_num_mask = 15, pgp_num_mask = 15, read_tier = -1, write_tier = -1, pi_flags = 0, pi_name = None\<rparr>"

theorem pool_insert_lookup_witness:
  "\<exists>t'. insert_pg_pool (\<lambda>t. t) (example_pool 2) (Node Leaf (example_pool 1) Leaf) = Inr t' \<and>
     lookup_pg_pool t' 2 = Some (example_pool 2) \<and> lookup_pg_pool t' 1 = Some (example_pool 1)"
proof -
  have "keeps_inorder (\<lambda>t :: ceph_pg_pool_info tree. t)" by (simp add: keeps_inorder_def)
  from pool_insert_lookup[OF _ _ _ this, of "Node Leaf (example_pool 1) Leaf" "example_pool 2"]
  obtain t' where "insert_pg_pool (\<lambda>t. t) (example_pool 2) (Node Leaf (example_pool 1) Leaf) = Inr t'"
    and look: "\<forall>k. pool_id_ok k \<longrightarrow> lookup_pg_pool t' (word_of_int k) = (if k = pi_id (example_pool 2)
      then Some (example_pool 2) else lookup_pg_pool (Node Leaf (example_pool 1) Leaf) (word_of_int k))"
    by (auto simp: example_pool_def pool_id_ok_def)
  with spec[OF look, of 1] spec[OF look, of 2] show ?thesis by (simp add: example_pool_def pool_id_ok_def)
qed

text \<open>
  Insertion orders pools by signed id, lookup by unsigned id, so a pool with id
  \<open>2 ^ 64 - 1\<close> is not found after it was inserted next to pool 1.
\<close>

theorem pool_lookup_sign_mismatch:
  "\<exists>t'. insert_pg_pool (\<lambda>t. t) (example_pool (-1)) (Node Leaf (example_pool 1) Leaf) = Inr t' \<and>
     lookup_pg_pool t' 0xffffffffffffffff = None"
  by (simp add: insert_pg_pool_def example_pool_def)

text \<open>
  With the mask that \<open>calc_pg_masks\<close> computes for \<open>b\<close> groups, \<open>ceph_stable_mod\<close> maps
  every seed to a group below \<open>b\<close>.
\<close>

theorem stable_mod_range:
  assumes "0 < unat b" and "unat b < 2 ^ 31" and "mask_of b = Inr m"
  shows "unat (ceph_stable_mod x b m) < unat b"
proof -
  from mask_of_spec[of b] assms obtain n where n: "n \<le> 31" "m = mask n" "unat b = 1 \<longrightarrow> n = 0"
    "1 < unat b \<longrightarrow> 0 < n \<and> 2 ^ (n - 1) < unat b" by auto
  have "unat x mod 2 ^ (n - 1) < unat b" if "\<not> unat x mod 2 ^ n < unat b"
  proof -
    have "1 < unat b" using that n(3) assms(1) by (cases "unat b = 1") auto
    with n(4) have "2 ^ (n - 1) < unat b" by simp
    moreover have "unat x mod 2 ^ (n - 1) < 2 ^ (n - 1)" by simp
    ultimately show ?thesis by (rule less_trans[rotated])
  qed
  then show ?thesis using unat_stable_mod[OF n(1) assms(2), of x] n(2) by simp
qed

theorem stable_mod_range_witness: "unat (ceph_stable_mod 0x1234567d 12 15) < 12"
proof -
  have "calc_bits_of 11 = 4" by (simp add: calc_bits_of.simps)
  then have "mask_of 12 = Inr 15" by (simp add: mask_of_def)
  then show ?thesis using stable_mod_range[of 12 15 "0x1234567d"] by simp
qed

text \<open>
  C15: splitting is stable: when the number of groups grows from \<open>b\<close> to \<open>b + 1\<close>, with the
  masks that belong to these numbers, every seed stays in its group or moves to the new group
  \<open>b\<close>.
\<close>

theorem stable_mod_split:
  assumes "0 < unat b" and "unat b + 1 < 2 ^ 31" and "mask_of b = Inr m" and "mask_of (b + 1) = Inr m'"
  shows "ceph_stable_mod x (b + 1) m' = ceph_stable_mod x b m \<or> ceph_stable_mod x (b + 1) m' = b"
proof -
  have b1: "unat (b + 1) = unat b + 1" using assms(2) by (simp add: unat_word_ariths)
  from mask_of_spec[of b] assms obtain n where n: "n \<le> 31" "m = mask n" "unat b \<le> 2 ^ n"
    "unat b = 1 \<longrightarrow> n = 0" "1 < unat b \<longrightarrow> 0 < n \<and> 2 ^ (n - 1) < unat b" by auto
  from mask_of_spec[of "b + 1"] assms b1 obtain n' where n': "n' \<le> 31" "m' = mask n'"
    "unat b + 1 \<le> 2 ^ n'" "1 < unat b + 1 \<longrightarrow> 0 < n' \<and> 2 ^ (n' - 1) < unat b + 1" by auto
  let ?v = "unat x"
  have s: "unat (ceph_stable_mod x b m) = (if ?v mod 2 ^ n < unat b then ?v mod 2 ^ n else ?v mod 2 ^ (n - 1))"
    using unat_stable_mod[OF n(1), of b x] n(2) assms(2) by simp
  have s': "unat (ceph_stable_mod x (b + 1) m') =
      (if ?v mod 2 ^ n' < unat b + 1 then ?v mod 2 ^ n' else ?v mod 2 ^ (n' - 1))"
    using unat_stable_mod[OF n'(1), of "b + 1" x] n'(2) assms(2) b1 by simp
  have "unat (ceph_stable_mod x (b + 1) m') = unat (ceph_stable_mod x b m) \<or>
      unat (ceph_stable_mod x (b + 1) m') = unat b"
    using exponent_step[OF n(3,4,5) n'(3,4) assms(1)]
  proof
    assume "n' = n \<and> unat b < 2 ^ n"
    then show ?thesis unfolding s s' by auto
  next
    assume e: "n' = Suc n \<and> unat b = 2 ^ n"
    have "?v mod 2 ^ n < 2 ^ n" by simp
    with e mod_split_step[of ?v n] show ?thesis unfolding s s' by auto
  qed
  then show ?thesis by (metis unsigned_word_eqI)
qed

theorem stable_mod_split_witness:
  "ceph_stable_mod 0x1234568 9 15 = ceph_stable_mod 0x1234568 8 7 \<or> ceph_stable_mod 0x1234568 9 15 = 8"
proof -
  have "calc_bits_of 7 = 3" "calc_bits_of 8 = 4" by (simp_all add: calc_bits_of.simps)
  then have "mask_of 8 = Inr 7" "mask_of (8 + 1) = Inr 15" by (simp_all add: mask_of_def)
  then show ?thesis using stable_mod_split[of 8 7 15 "0x1234568"] by simp
qed

end
