(* ===== verification/Osdmap_Mapping.thy ===== *)
theory Osdmap_Mapping
  imports Osdmap
begin

text \<open>
  From a placement group to its acting set of OSDs (\<open>net/ceph/osdmap.c\<close>, from \<open>do_crush\<close> to
  \<open>ceph_calc_pg_primary\<close>): the CRUSH rule gives the raw set, OSDs that are down are dropped or
  marked, primary affinity may choose another primary, and explicit mappings override. The
  functions work in place on the caller's array of \<open>CEPH_PG_MAX_SIZE\<close> integers; the model
  passes the array and the number of valid entries. The theory shows what the in-place loops
  compute and that the acting set never contains an OSD that is down.
\<close>

section \<open>The raw set\<close>

text \<open>
  \<open>fuel\<close> bounds the CRUSH retry loops. The scratch array has \<open>3 * CEPH_PG_MAX_SIZE\<close> entries
  that a run writes before it reads them.
\<close>

definition do_crush ::
  "nat \<Rightarrow> ceph_osdmap \<Rightarrow> int \<Rightarrow> u32 \<Rightarrow> int list \<Rightarrow> nat \<Rightarrow> (int list \<times> nat \<times> ceph_osdmap) res" where
  "do_crush fuel om ruleno x osds result_max =
    bindE (guardE (result_max \<le> CEPH_PG_MAX_SIZE) (Fault BugOn)) (\<lambda>_.
    bindE (deref (om_crush om)) (\<lambda>c.
    bindE (crush_do_rule fuel c ruleno x result_max (osd_weight om) (sint (max_osd om))
             (replicate (CEPH_PG_MAX_SIZE * 3) 0)) (\<lambda>(res, c').
    if length res \<le> length osds
    then Inr (res @ drop (length res) osds, length res, om\<lparr>om_crush := Some c'\<rparr>)
    else Inl (Fault OutOfBounds))))"

definition pg_to_raw_osds ::
  "nat \<Rightarrow> ceph_osdmap \<Rightarrow> ceph_pg_pool_info \<Rightarrow> u32 \<Rightarrow> int list \<Rightarrow> (int list \<times> nat \<times> ceph_osdmap) res" where
  "pg_to_raw_osds fuel om pool pps osds =
    bindE (deref (om_crush om)) (\<lambda>c.
    bindE (crush_find_rule c (uint (crush_ruleset pool)) (uint (pi_type pool)) (uint (pi_size pool)))
      (\<lambda>ruleno.
    if ruleno < 0 then Inl (Err ENOENT)
    else do_crush fuel om ruleno pps osds (min (unat (pi_size pool)) CEPH_PG_MAX_SIZE)))"

section \<open>The up set\<close>

text \<open>The loop that moves the OSDs that are up to the front; \<open>removed\<close> counts the others.\<close>

definition shift_osd :: "ceph_osdmap \<Rightarrow> nat \<Rightarrow> int list \<times> nat \<Rightarrow> (int list \<times> nat) res" where
  "shift_osd om i s =
    (case s of (osds, removed) \<Rightarrow>
      bindE (rd osds i) (\<lambda>v.
      bindE (ceph_osd_is_down om v) (\<lambda>down.
      if down then Inr (osds, removed + 1)
      else if removed \<noteq> 0 then bindE (wr osds (i - removed) v) (\<lambda>osds. Inr (osds, removed))
      else Inr (osds, removed))))"

text \<open>The loop of erasure coded pools, from the last entry to the first.\<close>

definition mark_osd :: "ceph_osdmap \<Rightarrow> nat \<Rightarrow> int list \<times> int \<Rightarrow> (int list \<times> int) res" where
  "mark_osd om i s =
    (case s of (osds, up_primary) \<Rightarrow>
      bindE (rd osds i) (\<lambda>v.
      bindE (ceph_osd_is_down om v) (\<lambda>down.
      if down then bindE (wr osds i CRUSH_ITEM_NONE) (\<lambda>osds. Inr (osds, up_primary))
      else Inr (osds, v))))"

definition raw_to_up_osds ::
  "ceph_osdmap \<Rightarrow> ceph_pg_pool_info \<Rightarrow> int list \<Rightarrow> nat \<Rightarrow> (int list \<times> nat \<times> int) res" where
  "raw_to_up_osds om pool osds len =
    bindE (ceph_can_shift_osds pool) (\<lambda>shift.
    if shift then
      bindE (foldE (shift_osd om) [0..<len] (osds, 0)) (\<lambda>(osds, removed).
      let len = len - removed in
      if 0 < len then bindE (rd osds 0) (\<lambda>v. Inr (osds, len, v)) else Inr (osds, len, -1))
    else
      bindE (foldE (mark_osd om) (rev [0..<len]) (osds, -1)) (\<lambda>(osds, up_primary).
      Inr (osds, len, up_primary)))"

section \<open>Primary affinity\<close>

text \<open>Is there an OSD whose affinity is not the default?\<close>

fun aff_nondefault :: "u32 list \<Rightarrow> int list \<Rightarrow> nat list \<Rightarrow> bool res" where
  "aff_nondefault aff osds [] = Inr False"
| "aff_nondefault aff osds (i # is) =
    bindE (rd osds i) (\<lambda>osd.
    if osd = CRUSH_ITEM_NONE then aff_nondefault aff osds is
    else
      bindE (rdi aff osd) (\<lambda>a.
      if a \<noteq> CEPH_OSD_DEFAULT_PRIMARY_AFFINITY then Inr True
      else aff_nondefault aff osds is))"

text \<open>The loop that picks the position of the primary; \<open>pos\<close> is the fallback seen first.\<close>

fun aff_pick :: "u32 list \<Rightarrow> u32 \<Rightarrow> int list \<Rightarrow> nat list \<Rightarrow> nat option \<Rightarrow> nat option res" where
  "aff_pick aff pps osds [] pos = Inr pos"
| "aff_pick aff pps osds (i # is) pos =
    bindE (rd osds i) (\<lambda>osd.
    if osd = CRUSH_ITEM_NONE then aff_pick aff pps osds is pos
    else
      bindE (rdi aff osd) (\<lambda>a.
      if a < CEPH_OSD_MAX_PRIMARY_AFFINITY \<and>
         a \<le> drop_bit 16 (crush_hash32_2 CRUSH_HASH_RJENKINS1 pps (word_of_int osd))
      then aff_pick aff pps osds is (case pos of None \<Rightarrow> Some i | Some _ \<Rightarrow> pos)
      else Inr (Some i)))"

text \<open>\<open>for (i = pos; i > 0; i--) osds[i] = osds[i - 1]; osds[0] = *primary;\<close>\<close>

definition move_front :: "int list \<Rightarrow> nat \<Rightarrow> int \<Rightarrow> int list res" where
  "move_front osds pos prim =
    bindE (foldE (\<lambda>i osds. bindE (rd osds (i - 1)) (wr osds i)) (rev [1..<Suc pos]) osds)
      (\<lambda>osds. wr osds 0 prim)"

definition apply_primary_affinity ::
  "ceph_osdmap \<Rightarrow> u32 \<Rightarrow> ceph_pg_pool_info \<Rightarrow> int list \<Rightarrow> nat \<Rightarrow> int \<Rightarrow> (int list \<times> int) res" where
  "apply_primary_affinity om pps pool osds len prim =
    (case osd_primary_affinity om of
       None \<Rightarrow> Inr (osds, prim)
     | Some aff \<Rightarrow>
         bindE (aff_nondefault aff osds [0..<len]) (\<lambda>nondef.
         if \<not> nondef then Inr (osds, prim)
         else
           bindE (aff_pick aff pps osds [0..<len] None) (\<lambda>pos.
           case pos of
             None \<Rightarrow> Inr (osds, prim)
           | Some i \<Rightarrow>
               bindE (rd osds i) (\<lambda>prim.
               bindE (ceph_can_shift_osds pool) (\<lambda>shift.
               if shift \<and> 0 < i
               then bindE (move_front osds i prim) (\<lambda>osds. Inr (osds, prim))
               else Inr (osds, prim))))))"

section \<open>Explicit mappings\<close>

text \<open>The loop over the OSDs of a \<open>pg_temp\<close> mapping.\<close>

fun temp_osds ::
  "ceph_osdmap \<Rightarrow> ceph_pg_pool_info \<Rightarrow> int list \<Rightarrow> int list \<Rightarrow> nat \<Rightarrow> (int list \<times> nat) res" where
  "temp_osds om pool [] osds temp_len = Inr (osds, temp_len)"
| "temp_osds om pool (t # ts) osds temp_len =
    bindE (ceph_osd_is_down om t) (\<lambda>down.
    if down then
      bindE (ceph_can_shift_osds pool) (\<lambda>shift.
      if shift then temp_osds om pool ts osds temp_len
      else
        bindE (wr osds temp_len CRUSH_ITEM_NONE) (\<lambda>osds. temp_osds om pool ts osds (temp_len + 1)))
    else bindE (wr osds temp_len t) (\<lambda>osds. temp_osds om pool ts osds (temp_len + 1)))"

text \<open>The first entry that is not \<open>CRUSH_ITEM_NONE\<close>, or -1.\<close>

fun first_osd :: "int list \<Rightarrow> nat list \<Rightarrow> int res" where
  "first_osd osds [] = Inr (-1)"
| "first_osd osds (i # is) =
    bindE (rd osds i) (\<lambda>v. if v \<noteq> CRUSH_ITEM_NONE then Inr v else first_osd osds is)"

definition apply_temps ::
  "ceph_osdmap \<Rightarrow> ceph_pg_pool_info \<Rightarrow> ceph_pg \<Rightarrow> int list \<Rightarrow> nat \<Rightarrow> int \<Rightarrow> (int list \<times> nat \<times> int) res" where
  "apply_temps om pool pgid osds len prim =
    (let pgid = Ceph_pg (pg_pool pgid) (ceph_stable_mod (pg_seed pgid) (pg_num pool) (pg_num_mask pool)) in
     bindE (case lookup_pg_mapping (pg_temp om) pgid of
              None \<Rightarrow> Inr (osds, len, prim)
            | Some pg \<Rightarrow>
                (case pm_target pg of
                   Primary_temp _ \<Rightarrow> Inl (Fault TypeConfusion)
                 | Pg_temp ts \<Rightarrow>
                     bindE (temp_osds om pool ts osds 0) (\<lambda>(osds, temp_len).
                     bindE (first_osd osds [0..<temp_len]) (\<lambda>p. Inr (osds, temp_len, p)))))
       (\<lambda>(osds, temp_len, temp_primary).
     case lookup_pg_mapping (primary_temp om) pgid of
       None \<Rightarrow> Inr (osds, temp_len, temp_primary)
     | Some pg \<Rightarrow>
         (case pm_target pg of
            Pg_temp _ \<Rightarrow> Inl (Fault TypeConfusion)
          | Primary_temp osd \<Rightarrow> Inr (osds, temp_len, osd))))"

section \<open>The acting set\<close>

text \<open>The placement seed that is fed into CRUSH.\<close>

definition pg_pps :: "ceph_pg_pool_info \<Rightarrow> ceph_pg \<Rightarrow> u32" where
  "pg_pps pool pgid =
    (let s = ceph_stable_mod (pg_seed pgid) (pgp_num pool) (pgp_num_mask pool) in
     if pi_flags pool AND CEPH_POOL_FLAG_HASHPSPOOL \<noteq> 0
     then crush_hash32_2 CRUSH_HASH_RJENKINS1 s (ucast (pg_pool pgid))
     else s + ucast (pg_pool pgid))"

text \<open>An error return sets \<open>*primary\<close> to -1.\<close>

definition ceph_calc_pg_acting ::
  "nat \<Rightarrow> ceph_osdmap \<Rightarrow> ceph_pg \<Rightarrow> int list \<Rightarrow> (int list \<times> nat \<times> int \<times> ceph_osdmap) res" where
  "ceph_calc_pg_acting fuel om pgid osds =
    (case lookup_pg_pool (pg_pools om) (pg_pool pgid) of
       None \<Rightarrow> Inl (Err ENOENT)
     | Some pool \<Rightarrow>
         let pps = pg_pps pool pgid in
         bindE (pg_to_raw_osds fuel om pool pps osds) (\<lambda>(osds, len, om).
         bindE (raw_to_up_osds om pool osds len) (\<lambda>(osds, len, prim).
         bindE (apply_primary_affinity om pps pool osds len prim) (\<lambda>(osds, prim).
         bindE (apply_temps om pool pgid osds len prim) (\<lambda>(osds, len, prim).
         Inr (osds, len, prim, om))))))"

definition ceph_calc_pg_primary :: "nat \<Rightarrow> ceph_osdmap \<Rightarrow> ceph_pg \<Rightarrow> int res" where
  "ceph_calc_pg_primary fuel om pgid =
    (case ceph_calc_pg_acting fuel om pgid (replicate CEPH_PG_MAX_SIZE 0) of
       Inl (Err e) \<Rightarrow> Inr (-1)
     | Inl e \<Rightarrow> Inl e
     | Inr (osds, len, prim, om) \<Rightarrow> Inr prim)"

section \<open>What the loops compute\<close>

text \<open>The state table has an entry for every OSD, so the state queries do not fault.\<close>

definition osd_tables :: "ceph_osdmap \<Rightarrow> bool" where
  "osd_tables om \<longleftrightarrow> length (osd_state om) = unat (max_osd om)"

definition osd_up :: "ceph_osdmap \<Rightarrow> int \<Rightarrow> bool" where
  "osd_up om v \<longleftrightarrow> 0 \<le> v \<and> v < uint (max_osd om) \<and>
     osd_state om ! nat v AND CEPH_OSD_EXISTS \<noteq> 0 \<and> osd_state om ! nat v AND CEPH_OSD_UP \<noteq> 0"

lemma is_down_eq:
  assumes "osd_tables om"
  shows "ceph_osd_is_down om v = Inr (\<not> osd_up om v)"
proof (cases "0 \<le> v \<and> v < uint (max_osd om)")
  case True
  then have "nat v < length (osd_state om)" using assms by (simp add: osd_tables_def nat_less_iff)
  with True show ?thesis
    by (simp add: ceph_osd_is_down_def ceph_osd_is_up_def ceph_osd_exists_def osd_up_def)
qed (auto simp: ceph_osd_is_down_def ceph_osd_is_up_def ceph_osd_exists_def osd_up_def)

text \<open>The up set and its primary as functions of the raw set.\<close>

definition up_set :: "ceph_osdmap \<Rightarrow> bool \<Rightarrow> int list \<Rightarrow> int list" where
  "up_set om shift xs =
    (if shift then filter (osd_up om) xs else map (\<lambda>v. if osd_up om v then v else CRUSH_ITEM_NONE) xs)"

definition up_primary :: "ceph_osdmap \<Rightarrow> int list \<Rightarrow> int" where
  "up_primary om xs = (case find (osd_up om) xs of None \<Rightarrow> -1 | Some v \<Rightarrow> v)"

lemma take_Suc_drop_nth:
  "i < length ys \<Longrightarrow> drop i xs = drop i ys \<Longrightarrow> length xs = length ys \<Longrightarrow> xs ! i = ys ! i"
  by (metis Cons_nth_drop_Suc list.inject)

lemma shift_loop:
  assumes tab: "osd_tables om" and len: "len \<le> length osds"
  shows "\<exists>osds' removed. foldE (shift_osd om) [0..<len] (osds, 0) = Inr (osds', removed) \<and>
     length osds' = length osds \<and> removed \<le> len \<and>
     take (len - removed) osds' = filter (osd_up om) (take len osds)"
proof -
  let ?P = "\<lambda>i (xs, r). length xs = length osds \<and> r \<le> i \<and> drop i xs = drop i osds \<and>
      take (i - r) xs = filter (osd_up om) (take i osds)"
  have "\<exists>t. foldE (shift_osd om) [0..<len] (osds, 0) = Inr t \<and> ?P len t"
  proof (rule foldE_upt_rule)
    fix k t
    assume k: "k < len" and "?P k t"
    then obtain xs r where t: "t = (xs, r)" and l: "length xs = length osds" and r: "r \<le> k"
      and d: "drop k xs = drop k osds" and f: "take (k - r) xs = filter (osd_up om) (take k osds)"
      by (cases t) auto
    let ?v = "osds ! k"
    have kl: "k < length osds" using k len by simp
    have v: "xs ! k = ?v" using take_Suc_drop_nth[OF kl d l] .
    have dS: "drop (Suc k) xs = drop (Suc k) osds" using d by (metis drop_Suc tl_drop)
    have tS: "take (Suc k) osds = take k osds @ [?v]" using kl by (rule take_Suc_conv_app_nth)
    show "\<exists>t'. shift_osd om k t = Inr t' \<and> ?P (Suc k) t'"
    proof (cases "osd_up om ?v")
      case False
      then show ?thesis using t kl l v r f dS tS by (simp add: shift_osd_def is_down_eq[OF tab])
    next
      case up: True
      show ?thesis
      proof (cases "r = 0")
        case True
        have "take (Suc k) xs = take k xs @ [?v]" using kl l v by (simp add: take_Suc_conv_app_nth)
        then show ?thesis using True t kl l v f dS tS up by (simp add: shift_osd_def is_down_eq[OF tab])
      next
        case False
        have kr: "k - r < length xs" using kl l by simp
        have "take (Suc k - r) (xs[k - r := ?v]) = take (k - r) xs @ [?v]"
          using kr r by (simp add: Suc_diff_le take_Suc_conv_app_nth)
        moreover have "drop (Suc k) (xs[k - r := ?v]) = drop (Suc k) xs" by simp
        ultimately show ?thesis using False t kl l v f r dS tS up kr
          by (simp add: shift_osd_def is_down_eq[OF tab])
      qed
    qed
  qed auto
  then show ?thesis by auto
qed

lemma mark_loop:
  assumes tab: "osd_tables om"
  shows "n \<le> length osds \<Longrightarrow> foldE (mark_osd om) (rev [0..<n]) (osds, p) =
    Inr (map (\<lambda>v. if osd_up om v then v else CRUSH_ITEM_NONE) (take n osds) @ drop n osds,
         case find (osd_up om) (take n osds) of None \<Rightarrow> p | Some v \<Rightarrow> v)"
proof (induction n arbitrary: osds p)
  case (Suc n)
  let ?v = "osds ! n" and ?m = "\<lambda>v. if osd_up om v then v else CRUSH_ITEM_NONE"
  have n: "n < length osds" using Suc.prems by simp
  have tk: "take (Suc n) osds = take n osds @ [?v]" using n by (rule take_Suc_conv_app_nth)
  have dr: "drop n (osds[n := w]) = w # drop (Suc n) osds" for w
    using n by (simp add: drop_update_swap Cons_nth_drop_Suc[symmetric])
  have d0: "drop n osds = ?v # drop (Suc n) osds" using n by (simp add: Cons_nth_drop_Suc)
  show ?case
  proof (cases "osd_up om ?v")
    case True
    with n Suc.IH[of osds ?v] tk d0 show ?thesis
      by (simp add: mark_osd_def is_down_eq[OF tab] find_append split: option.split)
  next
    case False
    with n Suc.IH[of "osds[n := CRUSH_ITEM_NONE]" p] tk dr[of CRUSH_ITEM_NONE] show ?thesis
      by (simp add: mark_osd_def is_down_eq[OF tab] find_append split: option.split)
  qed
qed simp

lemma raw_to_up_spec:
  assumes tab: "osd_tables om" and len: "len \<le> length osds" and sh: "ceph_can_shift_osds pool = Inr shift"
  shows "\<exists>osds' len'. raw_to_up_osds om pool osds len = Inr (osds', len', up_primary om (take len osds)) \<and>
    length osds' = length osds \<and> len' \<le> len \<and> take len' osds' = up_set om shift (take len osds)"
proof (cases shift)
  case True
  from shift_loop[OF tab len] obtain osds' removed where
    l: "foldE (shift_osd om) [0..<len] (osds, 0) = Inr (osds', removed)" "length osds' = length osds"
      "removed \<le> len" "take (len - removed) osds' = filter (osd_up om) (take len osds)" by blast
  have hd: "find P xs = (case filter P xs of [] \<Rightarrow> None | v # _ \<Rightarrow> Some v)" for P and xs :: "int list"
    by (induction xs) auto
  show ?thesis
  proof (cases "len - removed")
    case 0
    with l(4) have "filter (osd_up om) (take len osds) = []" by simp
    with 0 l True sh show ?thesis
      by (simp add: raw_to_up_osds_def up_set_def up_primary_def hd Let_def)
  next
    case (Suc k)
    then have "0 < length osds'" using l(2) len by linarith
    then obtain v vs where vs: "osds' = v # vs" by (cases osds') auto
    with l(4) Suc have "filter (osd_up om) (take len osds) = v # take k vs" by simp
    moreover have "removed < len" "Suc k \<le> len" "osds \<noteq> []" using Suc vs l(2) by auto
    ultimately show ?thesis using Suc l vs True sh
      by (simp add: raw_to_up_osds_def up_set_def up_primary_def hd Let_def rd_def)
  qed
next
  case False
  with sh mark_loop[OF tab len, of "-1"] len show ?thesis
    by (simp add: raw_to_up_osds_def up_set_def up_primary_def)
qed

text \<open>Shifting the entries before \<open>pos\<close> and putting the primary first is a rotation.\<close>

lemma move_front_loop:
  "pos < length osds \<Longrightarrow>
    foldE (\<lambda>i osds. bindE (rd osds (i - 1)) (wr osds i)) (rev [1..<Suc pos]) osds =
      Inr (take 1 osds @ take pos osds @ drop (Suc pos) osds)"
proof (induction pos arbitrary: osds)
  case 0
  then show ?case by (cases osds) auto
next
  case (Suc pos)
  let ?o = "osds[Suc pos := osds ! pos]"
  have pos: "pos < length osds" using Suc.prems by simp
  have "drop (Suc pos) ?o = osds ! pos # drop (Suc (Suc pos)) osds"
    using Suc.prems by (simp add: drop_update_swap Cons_nth_drop_Suc[symmetric])
  moreover have "take (Suc pos) osds = take pos osds @ [osds ! pos]"
    using pos by (rule take_Suc_conv_app_nth)
  moreover have "take 1 ?o = take 1 osds" "take pos ?o = take pos osds" by simp_all
  moreover have "rev [1..<Suc (Suc pos)] = Suc pos # rev [1..<Suc pos]" by simp
  ultimately show ?case using Suc.IH[of ?o] Suc.prems pos by simp
qed

lemma move_front_eq:
  assumes "pos < length osds"
  shows "move_front osds pos v = Inr (v # take pos osds @ drop (Suc pos) osds)"
proof -
  have "take 1 osds = [hd osds]" using assms by (cases osds) auto
  with move_front_loop[OF assms] show ?thesis by (simp add: move_front_def wr_def del: upt_Suc)
qed

text \<open>An affinity table that covers every OSD is read inside its bounds.\<close>

definition aff_covers :: "ceph_osdmap \<Rightarrow> u32 list \<Rightarrow> bool" where
  "aff_covers om aff \<longleftrightarrow> length aff = unat (max_osd om)"

definition acting_ok :: "ceph_osdmap \<Rightarrow> bool \<Rightarrow> int list \<Rightarrow> bool" where
  "acting_ok om shift xs \<longleftrightarrow> (\<forall>v\<in>set xs. osd_up om v \<or> \<not> shift \<and> v = CRUSH_ITEM_NONE)"

lemma acting_ok_up_set: "acting_ok om shift (up_set om shift xs)"
  by (auto simp: acting_ok_def up_set_def)

lemma aff_rd:
  assumes "aff_covers om aff" and "acting_ok om shift (take len osds)" and "i < len" and "i < length osds"
    and "osds ! i \<noteq> CRUSH_ITEM_NONE"
  shows "rdi aff (osds ! i) = Inr (aff ! nat (osds ! i))"
proof -
  have "osds ! i \<in> set (take len osds)" using assms(3,4) by (auto simp: in_set_conv_nth)
  with assms(2,5) have "osd_up om (osds ! i)" by (auto simp: acting_ok_def)
  then show ?thesis using assms(1) by (simp add: osd_up_def aff_covers_def nat_less_iff)
qed

lemma aff_nondefault_returns:
  assumes "aff_covers om aff" and "acting_ok om shift (take len osds)" and "len \<le> length osds"
  shows "\<forall>i\<in>set is. i < len \<Longrightarrow> \<exists>b. aff_nondefault aff osds is = Inr b"
proof (induction "is")
  case (Cons i "is")
  then have i: "i < len" "i < length osds" using assms(3) by auto
  with Cons aff_rd[OF assms(1,2) i] show ?case by auto
qed auto

lemma aff_pick_returns:
  assumes "aff_covers om aff" and "acting_ok om shift (take len osds)" and "len \<le> length osds"
  shows "\<forall>i\<in>set is. i < len \<Longrightarrow> (\<forall>i. pos = Some i \<longrightarrow> i < len) \<Longrightarrow>
    \<exists>pos'. aff_pick aff pps osds is pos = Inr pos' \<and> (\<forall>i. pos' = Some i \<longrightarrow> i < len)"
proof (induction "is" arbitrary: pos)
  case (Cons i "is")
  then have i: "i < len" "i < length osds" using assms(3) by auto
  let ?pos = "case pos of None \<Rightarrow> Some i | Some _ \<Rightarrow> pos"
  have "\<forall>j. ?pos = Some j \<longrightarrow> j < len" using Cons.prems(2) i by (auto split: option.split)
  with Cons.IH[of ?pos] Cons.IH[of pos] Cons.prems i aff_rd[OF assms(1,2) i] show ?case by auto
qed simp

lemma primary_affinity_returns:
  assumes aff: "\<forall>aff. osd_primary_affinity om = Some aff \<longrightarrow> aff_covers om aff"
    and ok: "acting_ok om shift (take len osds)" and len: "len \<le> length osds"
    and sh: "ceph_can_shift_osds pool = Inr shift"
  shows "\<exists>osds' prim'. apply_primary_affinity om pps pool osds len prim = Inr (osds', prim') \<and>
    length osds' = length osds \<and> mset (take len osds') = mset (take len osds)"
proof (cases "osd_primary_affinity om")
  case None
  then show ?thesis by (simp add: apply_primary_affinity_def)
next
  case (Some a)
  with aff have cov: "aff_covers om a" by simp
  obtain nondef where nd: "aff_nondefault a osds [0..<len] = Inr nondef"
    using aff_nondefault_returns[OF cov ok len, of "[0..<len]"] by auto
  obtain pos where pk: "aff_pick a pps osds [0..<len] None = Inr pos" "\<forall>i. pos = Some i \<longrightarrow> i < len"
    using aff_pick_returns[OF cov ok len, of "[0..<len]" None] by auto
  show ?thesis
  proof (cases pos)
    case None
    with Some nd pk show ?thesis by (auto simp: apply_primary_affinity_def)
  next
    case pos: (Some i)
    with pk have i: "i < len" "i < length osds" using len by auto
    have tk: "take len osds = take i osds @ osds ! i # take (len - Suc i) (drop (Suc i) osds)"
      using i by (metis Cons_nth_drop_Suc append_take_drop_id drop_Suc_Cons take_Suc_Cons take_add take_drop
          Suc_diff_Suc diff_Suc_Suc le_add_diff_inverse less_imp_le_nat)
    have "take len (osds ! i # take i osds @ drop (Suc i) osds)
        = osds ! i # take i osds @ take (len - Suc i) (drop (Suc i) osds)"
      using i by (cases len) (auto simp: less_Suc_eq min_def)
    then have "mset (take len (osds ! i # take i osds @ drop (Suc i) osds)) = mset (take len osds)"
      using tk by simp
    with Some nd pk(1) pos i sh show ?thesis
      by (auto simp: apply_primary_affinity_def move_front_eq)
  qed
qed

text \<open>The OSDs of an explicit mapping are filtered like the raw set.\<close>

lemma temp_osds_spec:
  assumes tab: "osd_tables om" and sh: "ceph_can_shift_osds pool = Inr shift"
  shows "k + length ts \<le> length osds \<Longrightarrow>
    \<exists>osds'. temp_osds om pool ts osds k = Inr (osds', k + length (up_set om shift ts)) \<and>
      length osds' = length osds \<and> take (k + length (up_set om shift ts)) osds' = take k osds @ up_set om shift ts"
proof (induction ts arbitrary: osds k)
  case (Cons t ts)
  have k: "k < length osds" using Cons.prems by simp
  show ?case
  proof (cases "\<not> osd_up om t \<and> shift")
    case True
    with Cons.IH[of k osds] Cons.prems sh show ?thesis by (auto simp: is_down_eq[OF tab] up_set_def)
  next
    case False
    let ?t = "if osd_up om t then t else CRUSH_ITEM_NONE"
    have up: "up_set om shift (t # ts) = ?t # up_set om shift ts" using False by (auto simp: up_set_def)
    have st: "temp_osds om pool (t # ts) osds k = temp_osds om pool ts (osds[k := ?t]) (k + 1)"
      using False sh k by (auto simp: is_down_eq[OF tab])
    have "take (k + 1) (osds[k := ?t]) = take k osds @ [?t]"
      using k by (simp add: take_Suc_conv_app_nth)
    with Cons.IH[of "k + 1" "osds[k := ?t]"] Cons.prems show ?thesis unfolding st up by auto
  qed
qed (simp add: up_set_def)

lemma first_osd_returns:
  "\<forall>i\<in>set is. i < length osds \<Longrightarrow> \<exists>v. first_osd osds is = Inr v"
  by (induction "is") auto

definition temps_fit :: "ceph_osdmap \<Rightarrow> bool" where
  "temps_fit om \<longleftrightarrow>
     (\<forall>pg\<in>set_tree (pg_temp om). \<exists>ts. pm_target pg = Pg_temp ts \<and> length ts \<le> CEPH_PG_MAX_SIZE) \<and>
     (\<forall>pg\<in>set_tree (primary_temp om). \<exists>v. pm_target pg = Primary_temp v)"

lemma lookup_pg_mapping_in: "lookup_pg_mapping t k = Some pg \<Longrightarrow> pg \<in> set_tree t"
  by (induction t) (auto simp: Let_def split: if_splits)

lemma apply_temps_returns:
  assumes tab: "osd_tables om" and sh: "ceph_can_shift_osds pool = Inr shift" and fit: "temps_fit om"
    and osds: "length osds = CEPH_PG_MAX_SIZE" and len: "len \<le> length osds"
    and ok: "acting_ok om shift (take len osds)"
  shows "\<exists>osds' len' prim'. apply_temps om pool pgid osds len prim = Inr (osds', len', prim') \<and>
    len' \<le> length osds' \<and> length osds' = length osds \<and> acting_ok om shift (take len' osds')"
proof -
  let ?pg = "Ceph_pg (pg_pool pgid) (ceph_stable_mod (pg_seed pgid) (pg_num pool) (pg_num_mask pool))"
  let ?first = "case lookup_pg_mapping (pg_temp om) ?pg of
              None \<Rightarrow> Inr (osds, len, prim)
            | Some pg \<Rightarrow>
                (case pm_target pg of
                   Primary_temp _ \<Rightarrow> Inl (Fault TypeConfusion)
                 | Pg_temp ts \<Rightarrow>
                     bindE (temp_osds om pool ts osds 0) (\<lambda>(osds, temp_len).
                     bindE (first_osd osds [0..<temp_len]) (\<lambda>p. Inr (osds, temp_len, p))))"
  have "\<exists>osds' len' prim'. ?first = Inr (osds', len', prim') \<and> len' \<le> length osds' \<and>
      length osds' = length osds \<and> acting_ok om shift (take len' osds')"
  proof (cases "lookup_pg_mapping (pg_temp om) ?pg")
    case None
    with len ok show ?thesis by simp
  next
    case (Some pg)
    with fit lookup_pg_mapping_in obtain ts where ts: "pm_target pg = Pg_temp ts" "length ts \<le> length osds"
      by (metis osds temps_fit_def)
    from temp_osds_spec[OF tab sh, of 0 ts osds] ts(2) obtain osds' where
      t: "temp_osds om pool ts osds 0 = Inr (osds', length (up_set om shift ts))"
      "length osds' = length osds" "take (length (up_set om shift ts)) osds' = up_set om shift ts" by auto
    have l: "length (up_set om shift ts) \<le> length osds'" using t(3) by (metis length_take min.cobounded1)
    with first_osd_returns[of "[0..<length (up_set om shift ts)]" osds'] obtain v where
      "first_osd osds' [0..<length (up_set om shift ts)] = Inr v" by auto
    with Some ts t l acting_ok_up_set show ?thesis by simp
  qed
  then obtain osds' len' prim' where f: "?first = Inr (osds', len', prim')" "len' \<le> length osds'"
    "length osds' = length osds" "acting_ok om shift (take len' osds')" by blast
  show ?thesis
  proof (cases "lookup_pg_mapping (primary_temp om) ?pg")
    case None
    with f show ?thesis unfolding apply_temps_def Let_def by simp
  next
    case (Some pg)
    with fit lookup_pg_mapping_in obtain v where "pm_target pg = Primary_temp v" by (metis temps_fit_def)
    with Some f show ?thesis unfolding apply_temps_def Let_def by simp
  qed
qed

lemma temp_osds_overflow:
  assumes tab: "osd_tables om" and sh: "ceph_can_shift_osds pool = Inr shift"
  shows "k \<le> length osds \<Longrightarrow> length osds < k + length (up_set om shift ts) \<Longrightarrow>
    temp_osds om pool ts osds k = Inl (Fault OutOfBounds)"
proof (induction ts arbitrary: osds k)
  case (Cons t ts)
  show ?case
  proof (cases "k < length osds")
    case False
    with Cons.prems(1) have "\<not> osd_up om t \<and> shift \<longrightarrow> length osds < k + length (up_set om shift ts)"
      using Cons.prems(2) by (auto simp: up_set_def)
    with False Cons sh show ?thesis by (auto simp: is_down_eq[OF tab] wr_def)
  next
    case True
    with Cons sh show ?thesis by (auto simp: is_down_eq[OF tab] up_set_def split: if_splits)
  qed
qed (auto simp: up_set_def split: if_splits)

lemma osd_up_crush [simp]: "osd_up (om\<lparr>om_crush := c\<rparr>) v = osd_up om v"
  by (simp add: osd_up_def)

lemma om_crush_frame [simp]:
  "osd_tables (om\<lparr>om_crush := c\<rparr>) = osd_tables om" "temps_fit (om\<lparr>om_crush := c\<rparr>) = temps_fit om"
  "aff_covers (om\<lparr>om_crush := c\<rparr>) aff = aff_covers om aff"
  "acting_ok (om\<lparr>om_crush := c\<rparr>) shift xs = acting_ok om shift xs"
  by (simp_all add: osd_tables_def temps_fit_def aff_covers_def acting_ok_def)

text \<open>From the raw set on, nothing can fail in a consistent map.\<close>

lemma acting_tail_returns:
  assumes tab: "osd_tables om" and sh: "ceph_can_shift_osds pool = Inr shift"
    and aff: "\<forall>aff. osd_primary_affinity om = Some aff \<longrightarrow> aff_covers om aff" and fit: "temps_fit om"
    and osds: "length osds = CEPH_PG_MAX_SIZE" and len: "len \<le> length osds"
  shows "returns (\<lambda>(osds', len', prim, om'). om' = om \<and> len' \<le> CEPH_PG_MAX_SIZE \<and>
      length osds' = CEPH_PG_MAX_SIZE \<and> acting_ok om shift (take len' osds'))
    (bindE (raw_to_up_osds om pool osds len) (\<lambda>(osds, len, prim).
     bindE (apply_primary_affinity om pps pool osds len prim) (\<lambda>(osds, prim).
     bindE (apply_temps om pool pgid osds len prim) (\<lambda>(osds, len, prim).
     Inr (osds, len, prim, om)))))"
proof -
  from raw_to_up_spec[OF tab len sh] obtain o1 l1 p1 where
    r1: "raw_to_up_osds om pool osds len = Inr (o1, l1, p1)" "length o1 = length osds" "l1 \<le> len"
    "take l1 o1 = up_set om shift (take len osds)" by blast
  have ok1: "acting_ok om shift (take l1 o1)" unfolding r1(4) by (rule acting_ok_up_set)
  have l1: "l1 \<le> length o1" using r1(2,3) len by simp
  from primary_affinity_returns[OF aff ok1 l1 sh, of pps p1] obtain o2 p2 where
    r2: "apply_primary_affinity om pps pool o1 l1 p1 = Inr (o2, p2)" "length o2 = length o1"
    "mset (take l1 o2) = mset (take l1 o1)" by blast
  have ok2: "acting_ok om shift (take l1 o2)" using ok1 mset_eq_setD[OF r2(3)] by (simp add: acting_ok_def)
  from apply_temps_returns[OF tab sh fit, of o2 l1 pgid p2] ok2 osds r1(2) r2(2) l1
  obtain o3 l3 p3 where r3: "apply_temps om pool pgid o2 l1 p2 = Inr (o3, l3, p3)"
    "l3 \<le> length o3" "length o3 = length o2" "acting_ok om shift (take l3 o3)" by auto
  from r1(1,2) r2(1,2) r3 osds show ?thesis by simp
qed

section \<open>Properties\<close>

text \<open>
  C5: the in-place loops of \<open>raw_to_up_osds\<close> compute the up set. In a replicated pool the
  entries that are up are kept in order; in an erasure coded pool the others are replaced by
  \<open>CRUSH_ITEM_NONE\<close> in their positions. The primary is the first OSD that is up, or -1.
\<close>

theorem raw_to_up_osds_refines:
  assumes "osd_tables om" and "len \<le> length osds" and "ceph_can_shift_osds pool = Inr shift"
  shows "\<exists>osds' len'. raw_to_up_osds om pool osds len = Inr (osds', len', up_primary om (take len osds)) \<and>
    len' \<le> len \<and> take len' osds' = up_set om shift (take len osds)"
  using raw_to_up_spec[OF assms] by blast

definition example_osdmap :: ceph_osdmap where
  "example_osdmap =
    \<lparr>fsid = replicate 16 0, epoch = 7, created = replicate 8 0, modified = replicate 8 0, om_flags = 0,
     max_osd = 4, osd_state = [3, 1, 3, 3], osd_weight = example_weights,
     osd_addr = replicate 4 (replicate 136 0), pg_temp = Leaf, primary_temp = Leaf,
     osd_primary_affinity = None, pg_pools = Node Leaf (example_pool 1) Leaf, pool_max = 1,
     om_crush = Some example_map\<rparr>"

theorem raw_to_up_osds_refines_witness:
  "\<exists>osds' len'. raw_to_up_osds example_osdmap (example_pool 1) [1, 3, 0, 9] 3 = Inr (osds', len', 3) \<and>
    take len' osds' = [3, 0]"
proof -
  have "osd_tables example_osdmap" "ceph_can_shift_osds (example_pool 1) = Inr True"
    by (simp_all add: osd_tables_def example_osdmap_def ceph_can_shift_osds_def example_pool_def
        CEPH_POOL_TYPE_REP_def)
  from raw_to_up_osds_refines[OF this(1) _ this(2), of 3 "[1, 3, 0, 9]"] show ?thesis
    by (auto simp: up_set_def up_primary_def osd_up_def example_osdmap_def CEPH_OSD_EXISTS_def CEPH_OSD_UP_def)
qed

text \<open>
  Primary affinity only reorders: the entries of the set before and after
  \<open>apply_primary_affinity\<close> are the same, counted with multiplicity, and no entry is read from
  outside the affinity table when the set holds only OSDs that are up or \<open>CRUSH_ITEM_NONE\<close>.
\<close>

theorem primary_affinity_permutes:
  assumes "\<forall>aff. osd_primary_affinity om = Some aff \<longrightarrow> length aff = unat (max_osd om)"
    and "\<forall>v\<in>set (take len osds). osd_up om v \<or> \<not> shift \<and> v = CRUSH_ITEM_NONE" and "len \<le> length osds"
    and "ceph_can_shift_osds pool = Inr shift"
  shows "\<exists>osds' prim'. apply_primary_affinity om pps pool osds len prim = Inr (osds', prim') \<and>
    mset (take len osds') = mset (take len osds)"
  using primary_affinity_returns[of om shift len osds pool pps prim] assms
  by (auto simp: aff_covers_def acting_ok_def)

theorem primary_affinity_permutes_witness:
  "\<exists>osds' prim'. apply_primary_affinity (example_osdmap\<lparr>osd_primary_affinity := Some [0, 0x10000, 0, 0x10000]\<rparr>)
      5 (example_pool 1) [2, 3, 0] 3 2 = Inr (osds', prim') \<and> mset (take 3 osds') = mset [2, 3, 0]"
  using primary_affinity_permutes[of
      "example_osdmap\<lparr>osd_primary_affinity := Some [0, 0x10000, 0, 0x10000]\<rparr>" 3 "[2, 3, 0]" True "example_pool 1" 5 2]
  by (simp add: osd_up_def example_osdmap_def CEPH_OSD_EXISTS_def CEPH_OSD_UP_def ceph_can_shift_osds_def
      example_pool_def CEPH_POOL_TYPE_REP_def)

text \<open>
  An explicit mapping with more OSDs than the caller's array has entries makes
  \<open>apply_temps\<close> write behind the array: nothing bounds \<open>pg_temp.len\<close>.
\<close>

theorem apply_temps_overflow:
  assumes "osd_tables om" and "ceph_can_shift_osds pool = Inr shift"
    and "lookup_pg_mapping (pg_temp om)
           (Ceph_pg (pg_pool pgid) (ceph_stable_mod (pg_seed pgid) (pg_num pool) (pg_num_mask pool))) = Some pg"
    and "pm_target pg = Pg_temp ts" and "length osds < length (up_set om shift ts)"
  shows "apply_temps om pool pgid osds len prim = Inl (Fault OutOfBounds)"
  using assms temp_osds_overflow[OF assms(1,2), of 0 osds ts] by (simp add: apply_temps_def Let_def)

theorem apply_temps_overflow_witness:
  "apply_temps (example_osdmap\<lparr>pg_temp := Node Leaf \<lparr>pm_pgid = Ceph_pg 1 5, pm_target = Pg_temp (replicate 17 0)\<rparr> Leaf\<rparr>)
     (example_pool 1) (Ceph_pg 1 5) (replicate 16 0) 0 0 = Inl (Fault OutOfBounds)"
proof (rule apply_temps_overflow)
  let ?om = "example_osdmap\<lparr>pg_temp := Node Leaf \<lparr>pm_pgid = Ceph_pg 1 5, pm_target = Pg_temp (replicate 17 0)\<rparr> Leaf\<rparr>"
  show "osd_tables ?om" by (simp add: osd_tables_def example_osdmap_def)
  show "ceph_can_shift_osds (example_pool 1) = Inr True"
    by (simp add: ceph_can_shift_osds_def example_pool_def CEPH_POOL_TYPE_REP_def)
  have "ceph_stable_mod 5 12 15 = 5" by (simp add: ceph_stable_mod_def)
  then show "lookup_pg_mapping (pg_temp ?om) (Ceph_pg (pg_pool (Ceph_pg 1 5))
      (ceph_stable_mod (pg_seed (Ceph_pg 1 5)) (pg_num (example_pool 1)) (pg_num_mask (example_pool 1)))) =
      Some \<lparr>pm_pgid = Ceph_pg 1 5, pm_target = Pg_temp (replicate 17 0)\<rparr>"
    by (simp add: example_pool_def pgid_cmp_def)
  show "length (replicate 16 (0 :: int)) < length (up_set ?om True (replicate 17 0))"
    by (simp add: up_set_def osd_up_def example_osdmap_def CEPH_OSD_EXISTS_def CEPH_OSD_UP_def)
qed simp



end
