(* ===== verification/Osdmap_Decode.thy ===== *)
theory Osdmap_Decode
  imports Osdmap_Mapping
begin

text \<open>
  Decoding full and incremental OSD maps (\<open>net/ceph/osdmap.c\<close>). The decoders change the map
  in place while they advance through the message, and an error leaves the map as far changed
  as it was; so a decoding step maps a map and a position to a result together with the map
  and position it leaves behind. \<open>alloc\<close> says which allocations succeed, and the record
  \<open>rb_ops\<close> holds the rebalancing and erasing of the kernel's trees.
\<close>

section \<open>Steps on a map\<close>

type_synonym 'a om_step = "ceph_osdmap \<Rightarrow> int \<Rightarrow> 'a res \<times> ceph_osdmap \<times> int"

definition bindM :: "'a om_step \<Rightarrow> ('a \<Rightarrow> 'b om_step) \<Rightarrow> 'b om_step" where
  "bindM m f om p =
    (case m om p of (Inl e, om, p) \<Rightarrow> (Inl e, om, p) | (Inr v, om, p) \<Rightarrow> f v om p)"

definition retM :: "'a \<Rightarrow> 'a om_step" where
  "retM v om p = (Inr v, om, p)"

definition failM :: "stop \<Rightarrow> 'a om_step" where
  "failM e om p = (Inl e, om, p)"

definition liftM :: "'a dec \<Rightarrow> 'a om_step" where
  "liftM d om p = (case d p of Inl e \<Rightarrow> (Inl e, om, p) | Inr (v, q) \<Rightarrow> (Inr v, om, q))"

definition resM :: "'a res \<Rightarrow> 'a om_step" where
  "resM r om p = (case r of Inl e \<Rightarrow> (Inl e, om, p) | Inr v \<Rightarrow> (Inr v, om, p))"

definition getM :: "(ceph_osdmap \<Rightarrow> 'a) \<Rightarrow> 'a om_step" where
  "getM f om p = (Inr (f om), om, p)"

definition modM :: "(ceph_osdmap \<Rightarrow> ceph_osdmap) \<Rightarrow> unit om_step" where
  "modM f om p = (Inr (), f om, p)"

definition posM :: "int om_step" where
  "posM om p = (Inr p, om, p)"

definition skipM :: "int \<Rightarrow> unit om_step" where
  "skipM n om p = (Inr (), om, p + n)"

definition seekM :: "int \<Rightarrow> unit om_step" where
  "seekM q om p = (Inr (), om, q)"

text \<open>\<open>while (n--)\<close>\<close>

fun repeatM :: "nat \<Rightarrow> unit om_step \<Rightarrow> unit om_step" where
  "repeatM 0 m = retM ()"
| "repeatM (Suc n) m = bindM m (\<lambda>_. repeatM n m)"

record rb_ops =
  pg_color :: "ceph_pg_mapping tree \<Rightarrow> ceph_pg_mapping tree"
  pg_erase :: "ceph_pg_mapping \<Rightarrow> ceph_pg_mapping tree \<Rightarrow> ceph_pg_mapping tree"
  pool_color :: "ceph_pg_pool_info tree \<Rightarrow> ceph_pg_pool_info tree"
  pool_erase :: "ceph_pg_pool_info \<Rightarrow> ceph_pg_pool_info tree \<Rightarrow> ceph_pg_pool_info tree"
  sizeof_map :: nat

definition kmallocM :: "(nat \<Rightarrow> bool) \<Rightarrow> nat \<Rightarrow> unit om_step" where
  "kmallocM alloc n = (if alloc n then retM () else failM (Err ENOMEM))"

abbreviation (input) dec32 where "dec32 buf \<equiv> liftM (ceph_decode_32 buf)"

abbreviation (input) safe8 where "safe8 buf en \<equiv> liftM (ceph_decode_8_safe buf en (Err EINVAL))"

abbreviation (input) safe32 where "safe32 buf en \<equiv> liftM (ceph_decode_32_safe buf en (Err EINVAL))"

abbreviation (input) safe64 where "safe64 buf en \<equiv> liftM (ceph_decode_64_safe buf en (Err EINVAL))"

abbreviation (input) need where "need en n \<equiv> liftM (ceph_decode_need en n (Err EINVAL))"

section \<open>Pools\<close>

definition skipD :: "int \<Rightarrow> unit dec" where
  "skipD n p = Inr ((), p + n)"

text \<open>\<open>skip snaps\<close>: a length-prefixed entry per snapshot; nothing is checked.\<close>

fun skip_snaps :: "u8 list \<Rightarrow> nat \<Rightarrow> unit dec" where
  "skip_snaps buf 0 = retD ()"
| "skip_snaps buf (Suc n) =
    bindD (skipD 10) (\<lambda>_.
    bindD (ceph_decode_32 buf) (\<lambda>len.
    bindD (skipD (uint len)) (\<lambda>_.
    skip_snaps buf n)))"

text \<open>The fields behind the snapshots, by encoding version: \<open>flags\<close>, \<open>read_tier\<close>, \<open>write_tier\<close>.\<close>

definition decode_pool_rest :: "u8 list \<Rightarrow> u8 \<Rightarrow> (u64 \<times> int \<times> int) dec" where
  "decode_pool_rest buf ev =
    bindD (ceph_decode_32 buf) (\<lambda>num.
    bindD (skipD (uint (num * 16))) (\<lambda>_.
    bindD (skipD 8) (\<lambda>_.
    bindD (ceph_decode_64 buf) (\<lambda>flags.
    bindD (skipD 4) (\<lambda>_.
    bindD (skipD (if 7 \<le> ev then 1 else 0)) (\<lambda>_.
    bindD (skipD (if 8 \<le> ev then 16 else 0)) (\<lambda>_.
    if 9 \<le> ev then
      bindD (ceph_decode_32 buf) (\<lambda>num.
      bindD (skipD (uint (num * 8))) (\<lambda>_.
      bindD (skipD 9) (\<lambda>_.
      bindD (ceph_decode_64 buf) (\<lambda>rt.
      bindD (ceph_decode_64 buf) (\<lambda>wt.
      retD (flags, sint rt, sint wt))))))
    else retD (flags, -1, -1))))))))"

definition decode_pool :: "u8 list \<Rightarrow> int \<Rightarrow> ceph_pg_pool_info \<Rightarrow> ceph_pg_pool_info dec" where
  "decode_pool buf en pi =
    bindD (ceph_decode_need en 6 (Err EINVAL)) (\<lambda>_.
    bindD (ceph_decode_8 buf) (\<lambda>ev.
    bindD (ceph_decode_8 buf) (\<lambda>cv.
    if ev < 5 then failD (Err EINVAL)
    else if 9 < cv then failD (Err EINVAL)
    else
      bindD (ceph_decode_32 buf) (\<lambda>len.
      bindD (ceph_decode_need en (unat len) (Err EINVAL)) (\<lambda>_.
      bindD posD (\<lambda>p0.
      bindD (ceph_decode_8 buf) (\<lambda>type.
      bindD (ceph_decode_8 buf) (\<lambda>sz.
      bindD (ceph_decode_8 buf) (\<lambda>rs.
      bindD (ceph_decode_8 buf) (\<lambda>oh.
      bindD (ceph_decode_32 buf) (\<lambda>pgn.
      bindD (ceph_decode_32 buf) (\<lambda>pgpn.
      bindD (skipD 24) (\<lambda>_.
      bindD (ceph_decode_32 buf) (\<lambda>num.
      bindD (skip_snaps buf (unat num)) (\<lambda>_.
      bindD (decode_pool_rest buf ev) (\<lambda>(flags, rt, wt).
      bindD (seekD (p0 + uint len)) (\<lambda>_.
      liftD (calc_pg_masks
        (pi\<lparr>pi_type := type, pi_size := sz, crush_ruleset := rs, object_hash := oh, pg_num := pgn,
            pgp_num := pgpn, pi_flags := flags, read_tier := rt, write_tier := wt\<rparr>)))))))))))))))))))"

text \<open>A name ends at its first zero byte (\<open>kstrndup\<close>).\<close>

definition decode_pool_name :: "(nat \<Rightarrow> bool) \<Rightarrow> u8 list \<Rightarrow> int \<Rightarrow> unit om_step" where
  "decode_pool_name alloc buf en =
    bindM (safe64 buf en) (\<lambda>pool.
    bindM (safe32 buf en) (\<lambda>len.
    bindM (need en (unat len)) (\<lambda>_.
    bindM posM (\<lambda>p.
    bindM (getM (\<lambda>om. lookup_pg_pool (pg_pools om) pool)) (\<lambda>pi.
    bindM (case pi of
             None \<Rightarrow> retM ()
           | Some pi \<Rightarrow>
               bindM (resM (get_bytes buf (unat len) p)) (\<lambda>bs.
               let name = takeWhile (\<lambda>c. c \<noteq> 0) bs in
               bindM (kmallocM alloc (length name + 1)) (\<lambda>_.
               modM (\<lambda>om. om\<lparr>pg_pools := set_pg_pool (pi\<lparr>pi_name := Some name\<rparr>) (pg_pools om)\<rparr>)))) (\<lambda>_.
    skipM (uint len)))))))"

definition decode_pool_names :: "(nat \<Rightarrow> bool) \<Rightarrow> u8 list \<Rightarrow> int \<Rightarrow> unit om_step" where
  "decode_pool_names alloc buf en =
    bindM (safe32 buf en) (\<lambda>num. repeatM (unat num) (decode_pool_name alloc buf en))"

text \<open>\<open>kzalloc\<close> of a pool.\<close>

definition new_pool :: "u64 \<Rightarrow> ceph_pg_pool_info" where
  "new_pool pool =
    \<lparr>pi_id = sint pool, pi_type = 0, pi_size = 0, crush_ruleset = 0, object_hash = 0, pg_num = 0, pgp_num = 0,
     pg_num_mask = 0, pgp_num_mask = 0, read_tier = 0, write_tier = 0, pi_flags = 0, pi_name = None\<rparr>"

definition decode_one_pool ::
  "(nat \<Rightarrow> bool) \<Rightarrow> rb_ops \<Rightarrow> u8 list \<Rightarrow> int \<Rightarrow> bool \<Rightarrow> unit om_step" where
  "decode_one_pool alloc rb buf en incremental =
    bindM (safe64 buf en) (\<lambda>pool.
    bindM (getM (\<lambda>om. lookup_pg_pool (pg_pools om) pool)) (\<lambda>found.
    bindM (case (if incremental then found else None) of
             Some pi \<Rightarrow> retM pi
           | None \<Rightarrow>
               bindM (kmallocM alloc 88) (\<lambda>_.
               bindM (getM pg_pools) (\<lambda>t.
               bindM (resM (insert_pg_pool (pool_color rb) (new_pool pool) t)) (\<lambda>t.
               bindM (modM (\<lambda>om. om\<lparr>pg_pools := t\<rparr>)) (\<lambda>_.
               retM (new_pool pool)))))) (\<lambda>pi.
    bindM (liftM (decode_pool buf en pi)) (\<lambda>pi.
    modM (\<lambda>om. om\<lparr>pg_pools := set_pg_pool pi (pg_pools om)\<rparr>)))))"

definition decode_pools_gen ::
  "(nat \<Rightarrow> bool) \<Rightarrow> rb_ops \<Rightarrow> u8 list \<Rightarrow> int \<Rightarrow> bool \<Rightarrow> unit om_step" where
  "decode_pools_gen alloc rb buf en incremental =
    bindM (safe32 buf en) (\<lambda>n. repeatM (unat n) (decode_one_pool alloc rb buf en incremental))"

definition decode_pools :: "(nat \<Rightarrow> bool) \<Rightarrow> rb_ops \<Rightarrow> u8 list \<Rightarrow> int \<Rightarrow> unit om_step" where
  "decode_pools alloc rb buf en = decode_pools_gen alloc rb buf en False"

definition decode_new_pools :: "(nat \<Rightarrow> bool) \<Rightarrow> rb_ops \<Rightarrow> u8 list \<Rightarrow> int \<Rightarrow> unit om_step" where
  "decode_new_pools alloc rb buf en = decode_pools_gen alloc rb buf en True"

section \<open>Resizing the OSD tables\<close>

text \<open>
  \<open>krealloc\<close> to \<open>n\<close> elements keeps the old ones; new elements are undefined until the loop from
  the old \<open>max_osd\<close> on initialises them, which \<open>fill_from\<close> does for all of them.
\<close>

definition krealloc_list :: "nat \<Rightarrow> 'a \<Rightarrow> 'a list \<Rightarrow> 'a list" where
  "krealloc_list n junk xs = take n xs @ replicate (n - length xs) junk"

definition fill_from :: "nat \<Rightarrow> 'a \<Rightarrow> 'a list \<Rightarrow> 'a list" where
  "fill_from k d xs = take k xs @ replicate (length xs - k) d"

text \<open>A negative \<open>max\<close> (here \<open>newmax\<close>) asks for more than \<open>2 ^ 63\<close> bytes, which no allocation gives.\<close>

definition osdmap_set_max_osd :: "(nat \<Rightarrow> bool) \<Rightarrow> int \<Rightarrow> unit om_step" where
  "osdmap_set_max_osd alloc newmax =
    (if newmax < 0 then failM (Err ENOMEM)
     else
       let n = nat newmax in
       bindM (getM (\<lambda>om. nat (sint (max_osd om)))) (\<lambda>k.
       bindM (kmallocM alloc n) (\<lambda>_.
       bindM (modM (\<lambda>om. om\<lparr>osd_state := krealloc_list n 0 (osd_state om)\<rparr>)) (\<lambda>_.
       bindM (kmallocM alloc (n * 4)) (\<lambda>_.
       bindM (modM (\<lambda>om. om\<lparr>osd_weight := krealloc_list n 0 (osd_weight om)\<rparr>)) (\<lambda>_.
       bindM (kmallocM alloc (n * 136)) (\<lambda>_.
       bindM (modM (\<lambda>om. om\<lparr>osd_addr := krealloc_list n [] (osd_addr om)\<rparr>)) (\<lambda>_.
       bindM (modM (\<lambda>om. om\<lparr>osd_state := fill_from k 0 (osd_state om),
                           osd_weight := fill_from k CEPH_OSD_OUT (osd_weight om),
                           osd_addr := fill_from k (replicate 136 0) (osd_addr om)\<rparr>)) (\<lambda>_.
       bindM (getM osd_primary_affinity) (\<lambda>aff.
       bindM (case aff of
                None \<Rightarrow> retM ()
              | Some a \<Rightarrow>
                  bindM (kmallocM alloc (n * 4)) (\<lambda>_.
                  modM (\<lambda>om. om\<lparr>osd_primary_affinity :=
                    Some (fill_from k CEPH_OSD_DEFAULT_PRIMARY_AFFINITY (krealloc_list n 0 a))\<rparr>))) (\<lambda>_.
       modM (\<lambda>om. om\<lparr>max_osd := word_of_int newmax\<rparr>))))))))))))"

section \<open>Versions and placement group ids\<close>

text \<open>\<open>struct_v\<close> of the client data section, or 0 for the old encoding.\<close>

definition get_osdmap_client_data_v :: "u8 list \<Rightarrow> int \<Rightarrow> u8 dec" where
  "get_osdmap_client_data_v buf en =
    bindD (ceph_decode_8_safe buf en (Err EINVAL)) (\<lambda>struct_v.
    if 7 \<le> struct_v then
      bindD (ceph_decode_8_safe buf en (Err EINVAL)) (\<lambda>compat.
      if 7 < compat then failD (Err EINVAL)
      else
        bindD (skipD 4) (\<lambda>_.
        bindD (ceph_decode_8_safe buf en (Err EINVAL)) (\<lambda>struct_v.
        bindD (ceph_decode_8_safe buf en (Err EINVAL)) (\<lambda>compat.
        if 1 < compat then failD (Err EINVAL)
        else bindD (skipD 4) (\<lambda>_. retD struct_v)))))
    else
      bindD (skipD (-1)) (\<lambda>_.
      bindD (ceph_decode_16_safe buf en (Err EINVAL)) (\<lambda>version.
      if version < 6 then failD (Err EINVAL) else retD 0)))"

definition ceph_decode_pgid :: "u8 list \<Rightarrow> int \<Rightarrow> ceph_pg dec" where
  "ceph_decode_pgid buf en =
    bindD (ceph_decode_need en 17 (Err EINVAL)) (\<lambda>_.
    bindD (ceph_decode_8 buf) (\<lambda>version.
    if 1 < version then failD (Err EINVAL)
    else
      bindD (ceph_decode_64 buf) (\<lambda>pool.
      bindD (ceph_decode_32 buf) (\<lambda>seed.
      bindD (skipD 4) (\<lambda>_.
      retD (Ceph_pg pool seed))))))"

section \<open>Explicit mappings\<close>

text \<open>The decoder removes the mapping of a group first; in a full map there must be none.\<close>

definition drop_pg_temp :: "rb_ops \<Rightarrow> bool \<Rightarrow> ceph_pg \<Rightarrow> unit om_step" where
  "drop_pg_temp rb incremental pgid =
    bindM (getM pg_temp) (\<lambda>t.
    case remove_pg_mapping (pg_erase rb) t pgid of
      Inr t' \<Rightarrow>
        bindM (modM (\<lambda>om. om\<lparr>pg_temp := t'\<rparr>)) (\<lambda>_.
        if incremental then retM () else failM (Fault BugOn))
    | Inl e \<Rightarrow> retM ())"

definition decode_one_pg_temp :: "(nat \<Rightarrow> bool) \<Rightarrow> rb_ops \<Rightarrow> u8 list \<Rightarrow> int \<Rightarrow> bool \<Rightarrow> unit om_step" where
  "decode_one_pg_temp alloc rb buf en incremental =
    bindM (liftM (ceph_decode_pgid buf en)) (\<lambda>pgid.
    bindM (safe32 buf en) (\<lambda>len.
    bindM (drop_pg_temp rb incremental pgid) (\<lambda>_.
    if incremental \<and> len = 0 then retM ()
    else
      bindM (need en (unat len * 4)) (\<lambda>_.
      if 1073741811 < len then failM (Err EINVAL)
      else
        bindM (kmallocM alloc (48 + unat len * 4)) (\<lambda>_.
        bindM (liftM (decode_array (decode_s32 buf) (unat len))) (\<lambda>osds.
        bindM (getM pg_temp) (\<lambda>t.
        bindM (resM (insert_pg_mapping (pg_color rb) \<lparr>pm_pgid = pgid, pm_target = Pg_temp osds\<rparr> t)) (\<lambda>t.
        modM (\<lambda>om. om\<lparr>pg_temp := t\<rparr>)))))))))"

definition decode_pg_temp_gen :: "(nat \<Rightarrow> bool) \<Rightarrow> rb_ops \<Rightarrow> u8 list \<Rightarrow> int \<Rightarrow> bool \<Rightarrow> unit om_step" where
  "decode_pg_temp_gen alloc rb buf en incremental =
    bindM (safe32 buf en) (\<lambda>n. repeatM (unat n) (decode_one_pg_temp alloc rb buf en incremental))"

definition decode_pg_temp :: "(nat \<Rightarrow> bool) \<Rightarrow> rb_ops \<Rightarrow> u8 list \<Rightarrow> int \<Rightarrow> unit om_step" where
  "decode_pg_temp alloc rb buf en = decode_pg_temp_gen alloc rb buf en False"

definition decode_new_pg_temp :: "(nat \<Rightarrow> bool) \<Rightarrow> rb_ops \<Rightarrow> u8 list \<Rightarrow> int \<Rightarrow> unit om_step" where
  "decode_new_pg_temp alloc rb buf en = decode_pg_temp_gen alloc rb buf en True"

definition drop_primary_temp :: "rb_ops \<Rightarrow> bool \<Rightarrow> ceph_pg \<Rightarrow> unit om_step" where
  "drop_primary_temp rb incremental pgid =
    bindM (getM primary_temp) (\<lambda>t.
    case remove_pg_mapping (pg_erase rb) t pgid of
      Inr t' \<Rightarrow>
        bindM (modM (\<lambda>om. om\<lparr>primary_temp := t'\<rparr>)) (\<lambda>_.
        if incremental then retM () else failM (Fault BugOn))
    | Inl e \<Rightarrow> retM ())"

definition decode_one_primary_temp ::
  "(nat \<Rightarrow> bool) \<Rightarrow> rb_ops \<Rightarrow> u8 list \<Rightarrow> int \<Rightarrow> bool \<Rightarrow> unit om_step" where
  "decode_one_primary_temp alloc rb buf en incremental =
    bindM (liftM (ceph_decode_pgid buf en)) (\<lambda>pgid.
    bindM (safe32 buf en) (\<lambda>osd.
    bindM (drop_primary_temp rb incremental pgid) (\<lambda>_.
    if incremental \<and> osd = 0xffffffff then retM ()
    else
      bindM (kmallocM alloc 48) (\<lambda>_.
      bindM (getM primary_temp) (\<lambda>t.
      bindM (resM (insert_pg_mapping (pg_color rb) \<lparr>pm_pgid = pgid, pm_target = Primary_temp (sint osd)\<rparr> t)) (\<lambda>t.
      modM (\<lambda>om. om\<lparr>primary_temp := t\<rparr>)))))))"

definition decode_primary_temp_gen ::
  "(nat \<Rightarrow> bool) \<Rightarrow> rb_ops \<Rightarrow> u8 list \<Rightarrow> int \<Rightarrow> bool \<Rightarrow> unit om_step" where
  "decode_primary_temp_gen alloc rb buf en incremental =
    bindM (safe32 buf en) (\<lambda>n. repeatM (unat n) (decode_one_primary_temp alloc rb buf en incremental))"

definition decode_primary_temp :: "(nat \<Rightarrow> bool) \<Rightarrow> rb_ops \<Rightarrow> u8 list \<Rightarrow> int \<Rightarrow> unit om_step" where
  "decode_primary_temp alloc rb buf en = decode_primary_temp_gen alloc rb buf en False"

definition decode_new_primary_temp :: "(nat \<Rightarrow> bool) \<Rightarrow> rb_ops \<Rightarrow> u8 list \<Rightarrow> int \<Rightarrow> unit om_step" where
  "decode_new_primary_temp alloc rb buf en = decode_primary_temp_gen alloc rb buf en True"

section \<open>Primary affinity\<close>

definition wrM :: "'a list \<Rightarrow> nat \<Rightarrow> 'a \<Rightarrow> 'a list om_step" where
  "wrM xs i v = resM (wr xs i v)"

text \<open>\<open>osd\<close> is compared as an unsigned number and used as a signed index.\<close>

definition set_primary_affinity :: "(nat \<Rightarrow> bool) \<Rightarrow> u32 \<Rightarrow> u32 \<Rightarrow> unit om_step" where
  "set_primary_affinity alloc osd aff =
    bindM (getM max_osd) (\<lambda>mx.
    if mx \<le> osd then failM (Fault BugOn)
    else
      bindM (getM osd_primary_affinity) (\<lambda>tab.
      bindM (case tab of
               Some t \<Rightarrow> retM t
             | None \<Rightarrow>
                 bindM (kmallocM alloc (unat mx * 4)) (\<lambda>_.
                 retM (replicate (unat mx) CEPH_OSD_DEFAULT_PRIMARY_AFFINITY))) (\<lambda>t.
      bindM (if sint osd < 0 then failM (Fault OutOfBounds) else wrM t (unat osd) aff) (\<lambda>t.
      modM (\<lambda>om. om\<lparr>osd_primary_affinity := Some t\<rparr>)))))"

fun set_affinities :: "(nat \<Rightarrow> bool) \<Rightarrow> u8 list \<Rightarrow> u32 \<Rightarrow> nat \<Rightarrow> unit om_step" where
  "set_affinities alloc buf i 0 = retM ()"
| "set_affinities alloc buf i (Suc n) =
    bindM (dec32 buf) (\<lambda>aff.
    bindM (set_primary_affinity alloc i aff) (\<lambda>_.
    set_affinities alloc buf (i + 1) n))"

definition decode_primary_affinity :: "(nat \<Rightarrow> bool) \<Rightarrow> u8 list \<Rightarrow> int \<Rightarrow> unit om_step" where
  "decode_primary_affinity alloc buf en =
    bindM (safe32 buf en) (\<lambda>len.
    if len = 0 then modM (\<lambda>om. om\<lparr>osd_primary_affinity := None\<rparr>)
    else
      bindM (getM max_osd) (\<lambda>mx.
      if len \<noteq> mx then failM (Err EINVAL)
      else
        bindM (need en (unat mx * 4)) (\<lambda>_.
        set_affinities alloc buf 0 (unat mx))))"

definition decode_new_primary_affinity :: "(nat \<Rightarrow> bool) \<Rightarrow> u8 list \<Rightarrow> int \<Rightarrow> unit om_step" where
  "decode_new_primary_affinity alloc buf en =
    bindM (safe32 buf en) (\<lambda>n.
    repeatM (unat n)
      (bindM (safe32 buf en) (\<lambda>osd.
       bindM (safe32 buf en) (\<lambda>aff.
       set_primary_affinity alloc osd aff))))"

section \<open>Full maps\<close>

text \<open>\<open>ceph_decode_addr\<close> swaps the two bytes of \<open>ss_family\<close>, behind \<open>type\<close> and \<open>nonce\<close>.\<close>

definition decode_entity_addr :: "u8 list \<Rightarrow> u8 list" where
  "decode_entity_addr a =
    (if 10 \<le> length a
     then take 8 a @ le_bytes 2 (ceph_decode_addr (le_word (take 2 (drop 8 a)))) @ drop 10 a
     else a)"

definition osdmap_decode_head :: "u8 list \<Rightarrow> int \<Rightarrow> unit om_step" where
  "osdmap_decode_head buf en =
    bindM (need en 36) (\<lambda>_.
    bindM (liftM (ceph_decode_copy buf 16)) (\<lambda>fs.
    bindM (modM (\<lambda>om. om\<lparr>fsid := fs\<rparr>)) (\<lambda>_.
    bindM (dec32 buf) (\<lambda>ep.
    bindM (modM (\<lambda>om. om\<lparr>epoch := ep\<rparr>)) (\<lambda>_.
    bindM (liftM (ceph_decode_copy buf 8)) (\<lambda>c.
    bindM (modM (\<lambda>om. om\<lparr>created := c\<rparr>)) (\<lambda>_.
    bindM (liftM (ceph_decode_copy buf 8)) (\<lambda>m.
    modM (\<lambda>om. om\<lparr>modified := m\<rparr>)))))))))"

text \<open>Each table is preceded by its length, which has to be \<open>max_osd\<close>.\<close>

definition expect_max_osd :: "u8 list \<Rightarrow> unit om_step" where
  "expect_max_osd buf =
    bindM (dec32 buf) (\<lambda>n.
    bindM (getM max_osd) (\<lambda>mx.
    if n \<noteq> mx then failM (Err EINVAL) else retM ()))"

definition osdmap_decode_tables :: "u8 list \<Rightarrow> int \<Rightarrow> unit om_step" where
  "osdmap_decode_tables buf en =
    bindM (getM (\<lambda>om. unat (max_osd om))) (\<lambda>n.
    bindM (need en (12 + n * 141)) (\<lambda>_.
    bindM (expect_max_osd buf) (\<lambda>_.
    bindM (liftM (ceph_decode_copy buf n)) (\<lambda>st.
    bindM (modM (\<lambda>om. om\<lparr>osd_state := st\<rparr>)) (\<lambda>_.
    bindM (expect_max_osd buf) (\<lambda>_.
    bindM (liftM (decode_array (ceph_decode_32 buf) n)) (\<lambda>ws.
    bindM (modM (\<lambda>om. om\<lparr>osd_weight := ws\<rparr>)) (\<lambda>_.
    bindM (expect_max_osd buf) (\<lambda>_.
    bindM (liftM (decode_array (ceph_decode_copy buf 136) n)) (\<lambda>as.
    modM (\<lambda>om. om\<lparr>osd_addr := map decode_entity_addr as\<rparr>)))))))))))"

definition osdmap_decode_crush :: "(nat \<Rightarrow> bool) \<Rightarrow> u8 list \<Rightarrow> int \<Rightarrow> unit om_step" where
  "osdmap_decode_crush alloc buf en =
    bindM (safe32 buf en) (\<lambda>len.
    bindM posM (\<lambda>p.
    case crush_decode alloc buf (min (p + uint len) en) p of
      Inl e \<Rightarrow> bindM (modM (\<lambda>om. om\<lparr>om_crush := None\<rparr>)) (\<lambda>_. failM e)
    | Inr c \<Rightarrow> bindM (modM (\<lambda>om. om\<lparr>om_crush := c\<rparr>)) (\<lambda>_. seekM en)))"

definition osdmap_decode :: "(nat \<Rightarrow> bool) \<Rightarrow> rb_ops \<Rightarrow> u8 list \<Rightarrow> int \<Rightarrow> unit om_step" where
  "osdmap_decode alloc rb buf en =
    bindM (liftM (get_osdmap_client_data_v buf en)) (\<lambda>struct_v.
    bindM (osdmap_decode_head buf en) (\<lambda>_.
    bindM (decode_pools alloc rb buf en) (\<lambda>_.
    bindM (decode_pool_names alloc buf en) (\<lambda>_.
    bindM (safe32 buf en) (\<lambda>pm.
    bindM (modM (\<lambda>om. om\<lparr>pool_max := pm\<rparr>)) (\<lambda>_.
    bindM (safe32 buf en) (\<lambda>fl.
    bindM (modM (\<lambda>om. om\<lparr>om_flags := fl\<rparr>)) (\<lambda>_.
    bindM (safe32 buf en) (\<lambda>mx.
    bindM (osdmap_set_max_osd alloc (sint mx)) (\<lambda>_.
    bindM (osdmap_decode_tables buf en) (\<lambda>_.
    bindM (decode_pg_temp alloc rb buf en) (\<lambda>_.
    bindM (if 1 \<le> struct_v then decode_primary_temp alloc rb buf en else retM ()) (\<lambda>_.
    bindM (if 2 \<le> struct_v then decode_primary_affinity alloc buf en
           else modM (\<lambda>om. om\<lparr>osd_primary_affinity := None\<rparr>)) (\<lambda>_.
    osdmap_decode_crush alloc buf en))))))))))))))"

definition empty_osdmap :: ceph_osdmap where
  "empty_osdmap =
    \<lparr>fsid = replicate 16 0, epoch = 0, created = replicate 8 0, modified = replicate 8 0, om_flags = 0, max_osd = 0,
     osd_state = [], osd_weight = [], osd_addr = [], pg_temp = Leaf, primary_temp = Leaf,
     osd_primary_affinity = None, pg_pools = Leaf, pool_max = 0, om_crush = None\<rparr>"

text \<open>\<open>sizeof_map\<close> is the size of the map structure, which depends on the kernel's mutex.\<close>

definition ceph_osdmap_decode ::
  "(nat \<Rightarrow> bool) \<Rightarrow> rb_ops \<Rightarrow> u8 list \<Rightarrow> int \<Rightarrow> ceph_osdmap dec" where
  "ceph_osdmap_decode alloc rb buf en p =
    (if \<not> alloc (sizeof_map rb) then Inl (Err ENOMEM)
     else
       case osdmap_decode alloc rb buf en empty_osdmap p of
         (Inl e, om, q) \<Rightarrow> Inl e
       | (Inr u, om, q) \<Rightarrow> Inr (om, q))"

section \<open>Incremental maps\<close>

definition remove_old_pool :: "rb_ops \<Rightarrow> u8 list \<Rightarrow> int \<Rightarrow> unit om_step" where
  "remove_old_pool rb buf en =
    bindM (safe64 buf en) (\<lambda>pool.
    modM (\<lambda>om. case lookup_pg_pool (pg_pools om) pool of
                 None \<Rightarrow> om
               | Some pi \<Rightarrow> om\<lparr>pg_pools := pool_erase rb pi (pg_pools om)\<rparr>))"

definition apply_new_up :: "u8 list \<Rightarrow> int \<Rightarrow> unit om_step" where
  "apply_new_up buf en =
    bindM (safe32 buf en) (\<lambda>osd.
    bindM (liftM (ceph_decode_copy_safe buf en 136 (Err EINVAL))) (\<lambda>addr.
    bindM (getM max_osd) (\<lambda>mx.
    if mx \<le> osd then failM (Fault BugOn)
    else
      bindM (getM osd_state) (\<lambda>st.
      bindM (resM (rd st (unat osd))) (\<lambda>s.
      bindM (wrM st (unat osd) (s OR CEPH_OSD_UP)) (\<lambda>st.
      bindM (modM (\<lambda>om. om\<lparr>osd_state := st\<rparr>)) (\<lambda>_.
      bindM (getM osd_addr) (\<lambda>as.
      bindM (wrM as (unat osd) (decode_entity_addr addr)) (\<lambda>as.
      modM (\<lambda>om. om\<lparr>osd_addr := as\<rparr>))))))))))"

text \<open>The state byte is read without a check.\<close>

definition apply_new_state :: "u8 list \<Rightarrow> int \<Rightarrow> unit om_step" where
  "apply_new_state buf en =
    bindM (safe32 buf en) (\<lambda>osd.
    bindM (liftM (ceph_decode_8 buf)) (\<lambda>x.
    let xorstate = (if x = 0 then CEPH_OSD_UP else x) in
    bindM (getM max_osd) (\<lambda>mx.
    if osd < mx then
      bindM (getM osd_state) (\<lambda>st.
      bindM (resM (rd st (unat osd))) (\<lambda>s.
      bindM (wrM st (unat osd) (s XOR xorstate)) (\<lambda>st.
      modM (\<lambda>om. om\<lparr>osd_state := st\<rparr>))))
    else retM ())))"

definition apply_new_weight :: "u8 list \<Rightarrow> int \<Rightarrow> unit om_step" where
  "apply_new_weight buf en =
    bindM (need en 8) (\<lambda>_.
    bindM (dec32 buf) (\<lambda>osd.
    bindM (dec32 buf) (\<lambda>off.
    bindM (getM max_osd) (\<lambda>mx.
    if osd < mx then
      bindM (getM osd_weight) (\<lambda>ws.
      bindM (wrM ws (unat osd) off) (\<lambda>ws.
      modM (\<lambda>om. om\<lparr>osd_weight := ws\<rparr>)))
    else retM ()))))"

text \<open>\<open>while (len--)\<close> behind a length read from the message; the counter wraps around.\<close>

definition countedM :: "u8 list \<Rightarrow> int \<Rightarrow> unit om_step \<Rightarrow> unit om_step" where
  "countedM buf en m = bindM (safe32 buf en) (\<lambda>len. repeatM (unat len) m)"

text \<open>An incremental map changes the given map, or brings a full map that replaces it.\<close>

datatype inc_result = Same_map | New_map ceph_osdmap

definition inc_new_crush :: "(nat \<Rightarrow> bool) \<Rightarrow> u8 list \<Rightarrow> int \<Rightarrow> crush_map option om_step" where
  "inc_new_crush alloc buf en =
    bindM (safe32 buf en) (\<lambda>len.
    if 0 < sint len then
      bindM posM (\<lambda>p.
      bindM (resM (crush_decode alloc buf (min (p + sint len) en) p)) (\<lambda>c.
      bindM (skipM (sint len)) (\<lambda>_. retM c)))
    else retM None)"

definition inc_settings :: "(nat \<Rightarrow> bool) \<Rightarrow> u8 list \<Rightarrow> int \<Rightarrow> u64 \<Rightarrow> u32 \<Rightarrow> unit om_step" where
  "inc_settings alloc buf en new_pool_max new_flags =
    bindM (if 0 \<le> sint new_flags then modM (\<lambda>om. om\<lparr>om_flags := new_flags\<rparr>) else retM ()) (\<lambda>_.
    bindM (if 0 \<le> sint new_pool_max then modM (\<lambda>om. om\<lparr>pool_max := ucast new_pool_max\<rparr>) else retM ()) (\<lambda>_.
    bindM (safe32 buf en) (\<lambda>mx.
    if 0 \<le> sint mx then osdmap_set_max_osd alloc (sint mx) else retM ())))"

definition inc_tables :: "(nat \<Rightarrow> bool) \<Rightarrow> rb_ops \<Rightarrow> u8 list \<Rightarrow> int \<Rightarrow> u8 \<Rightarrow> unit om_step" where
  "inc_tables alloc rb buf en struct_v =
    bindM (decode_new_pools alloc rb buf en) (\<lambda>_.
    bindM (decode_pool_names alloc buf en) (\<lambda>_.
    bindM (countedM buf en (remove_old_pool rb buf en)) (\<lambda>_.
    bindM (countedM buf en (apply_new_up buf en)) (\<lambda>_.
    bindM (countedM buf en (apply_new_state buf en)) (\<lambda>_.
    bindM (countedM buf en (apply_new_weight buf en)) (\<lambda>_.
    bindM (decode_new_pg_temp alloc rb buf en) (\<lambda>_.
    bindM (if 1 \<le> struct_v then decode_new_primary_temp alloc rb buf en else retM ()) (\<lambda>_.
    if 2 \<le> struct_v then decode_new_primary_affinity alloc buf en else retM ()))))))))"

definition osdmap_apply_incremental ::
  "(nat \<Rightarrow> bool) \<Rightarrow> rb_ops \<Rightarrow> u8 list \<Rightarrow> int \<Rightarrow> inc_result om_step" where
  "osdmap_apply_incremental alloc rb buf en =
    bindM (liftM (get_osdmap_client_data_v buf en)) (\<lambda>struct_v.
    bindM (need en 40) (\<lambda>_.
    bindM (liftM (ceph_decode_copy buf 16)) (\<lambda>fs.
    bindM (dec32 buf) (\<lambda>ep.
    bindM (getM epoch) (\<lambda>cur.
    if ep \<noteq> cur + 1 then failM (Fault BugOn)
    else
      bindM (liftM (ceph_decode_copy buf 8)) (\<lambda>md.
      bindM (liftM (ceph_decode_64 buf)) (\<lambda>new_pool_max.
      bindM (dec32 buf) (\<lambda>new_flags.
      bindM (safe32 buf en) (\<lambda>len.
      if 0 < sint len then
        bindM posM (\<lambda>p.
        bindM (liftM (ceph_osdmap_decode alloc rb buf (min (p + sint len) en))) (\<lambda>om'. retM (New_map om')))
      else
        bindM (inc_new_crush alloc buf en) (\<lambda>newcrush.
        bindM (inc_settings alloc buf en new_pool_max new_flags) (\<lambda>_.
        bindM (modM (\<lambda>om. om\<lparr>epoch := epoch om + 1, modified := md,
                            om_crush := (case newcrush of None \<Rightarrow> om_crush om | Some c \<Rightarrow> Some c)\<rparr>)) (\<lambda>_.
        bindM (inc_tables alloc rb buf en struct_v) (\<lambda>_.
        bindM (seekM en) (\<lambda>_.
        retM Same_map))))))))))))))"

end
