(* ===== verification/Osdmap_Invariant.thy ===== *)
theory Osdmap_Invariant
  imports Osdmap_Decode
begin

text \<open>
  What decoding keeps of an OSD map. \<open>wpM Q m om p\<close> is the weakest precondition of a decoding
  step: if \<open>m\<close> succeeds, its result, the map and the position satisfy \<open>Q\<close>. The rules below
  evaluate it through every step, so that an invariant of the map needs one lemma per decoder.
\<close>

section \<open>Weakest preconditions of decoding steps\<close>

named_theorems om_wp \<open>weakest preconditions of decoding steps\<close>

definition wpM :: "('a \<Rightarrow> ceph_osdmap \<Rightarrow> int \<Rightarrow> bool) \<Rightarrow> 'a om_step \<Rightarrow> ceph_osdmap \<Rightarrow> int \<Rightarrow> bool" where
  "wpM Q m om p = (case m om p of (Inl e, om', q) \<Rightarrow> True | (Inr v, om', q) \<Rightarrow> Q v om' q)"

lemma wp_bind [om_wp]: "wpM Q (bindM m f) om p = wpM (\<lambda>v. wpM Q (f v)) m om p"
  by (simp add: wpM_def bindM_def split: prod.split sum.split)

lemma wp_ret [om_wp]: "wpM Q (retM v) om p = Q v om p"
  by (simp add: wpM_def retM_def)

lemma wp_fail [om_wp]: "wpM Q (failM e) om p"
  by (simp add: wpM_def failM_def)

lemma wp_lift [om_wp]: "wpM Q (liftM d) om p = (\<forall>v q. d p = Inr (v, q) \<longrightarrow> Q v om q)"
  by (simp add: wpM_def liftM_def split: prod.split sum.split)

lemma wp_res [om_wp]: "wpM Q (resM r) om p = (\<forall>v. r = Inr v \<longrightarrow> Q v om p)"
  by (simp add: wpM_def resM_def split: sum.split)

lemma wp_get [om_wp]: "wpM Q (getM f) om p = Q (f om) om p"
  by (simp add: wpM_def getM_def)

lemma wp_mod [om_wp]: "wpM Q (modM f) om p = Q () (f om) p"
  by (simp add: wpM_def modM_def)

lemma wp_pos [om_wp]: "wpM Q posM om p = Q p om p"
  by (simp add: wpM_def posM_def)

lemma wp_skip [om_wp]: "wpM Q (skipM n) om p = Q () om (p + n)"
  by (simp add: wpM_def skipM_def)

lemma wp_seek [om_wp]: "wpM Q (seekM q) om p = Q () om q"
  by (simp add: wpM_def seekM_def)

lemma wp_kmalloc [om_wp]: "wpM Q (kmallocM alloc n) om p = (alloc n \<longrightarrow> Q () om p)"
  by (simp add: kmallocM_def om_wp)

lemma wp_wr [om_wp]: "wpM Q (wrM xs i v) om p = (i < length xs \<longrightarrow> Q (xs[i := v]) om p)"
  by (simp add: wrM_def om_wp wr_def)

lemma wp_if [om_wp]: "wpM Q (if b then m else m') om p = (if b then wpM Q m om p else wpM Q m' om p)"
  by simp

lemma wp_mono: "wpM Q m om p \<Longrightarrow> (\<And>v om' q. Q v om' q \<Longrightarrow> Q' v om' q) \<Longrightarrow> wpM Q' m om p"
  by (auto simp: wpM_def split: prod.splits sum.splits)

text \<open>A step keeps an invariant of the map.\<close>

definition keepsM :: "(ceph_osdmap \<Rightarrow> bool) \<Rightarrow> 'a om_step \<Rightarrow> bool" where
  "keepsM I m \<longleftrightarrow> (\<forall>om p. I om \<longrightarrow> wpM (\<lambda>_ om' _. I om') m om p)"

lemma keepsM_I: "(\<And>om p. I om \<Longrightarrow> wpM (\<lambda>_ om' _. I om') m om p) \<Longrightarrow> keepsM I m"
  by (simp add: keepsM_def)

lemma keepsM_bind: "keepsM I m \<Longrightarrow> (\<And>v. keepsM I (f v)) \<Longrightarrow> keepsM I (bindM m f)"
  unfolding keepsM_def wp_bind by (blast intro: wp_mono)

lemma keepsM_simple [intro]:
  "keepsM I (retM v)" "keepsM I (failM e)" "keepsM I (liftM d)" "keepsM I (resM r)" "keepsM I (getM f)"
  "keepsM I posM" "keepsM I (skipM i)" "keepsM I (seekM q)" "keepsM I (kmallocM alloc n)"
  by (simp_all add: keepsM_def om_wp)

lemma keepsM_mod: "(\<And>om. I om \<Longrightarrow> I (f om)) \<Longrightarrow> keepsM I (modM f)"
  by (simp add: keepsM_def om_wp)

lemma keepsM_if: "(b \<Longrightarrow> keepsM I m) \<Longrightarrow> (\<not> b \<Longrightarrow> keepsM I m') \<Longrightarrow> keepsM I (if b then m else m')"
  by simp

lemma keepsM_repeat: "keepsM I m \<Longrightarrow> keepsM I (repeatM n m)"
  by (induction n) (auto intro: keepsM_bind)

lemma keepsM_counted: "keepsM I m \<Longrightarrow> keepsM I (countedM buf en m)"
  unfolding countedM_def by (intro keepsM_bind keepsM_simple keepsM_repeat)

lemmas keepsM_rules = keepsM_bind keepsM_simple keepsM_if keepsM_repeat keepsM_counted

section \<open>The invariant\<close>

definition tables_ok :: "ceph_osdmap \<Rightarrow> bool" where
  "tables_ok om \<longleftrightarrow> unat (max_osd om) < 2 ^ 31 \<and> length (osd_state om) = unat (max_osd om) \<and>
     length (osd_weight om) = unat (max_osd om) \<and> length (osd_addr om) = unat (max_osd om) \<and>
     (\<forall>aff. osd_primary_affinity om = Some aff \<longrightarrow> length aff = unat (max_osd om))"

definition temps_ok :: "ceph_osdmap \<Rightarrow> bool" where
  "temps_ok om \<longleftrightarrow> ordered pm_pgid (pg_temp om) \<and> ordered pm_pgid (primary_temp om)"

definition crush_ok :: "ceph_osdmap \<Rightarrow> bool" where
  "crush_ok om \<longleftrightarrow> (\<forall>c. om_crush om = Some c \<longrightarrow> decoded_map c)"

definition osdmap_ok :: "ceph_osdmap \<Rightarrow> bool" where
  "osdmap_ok om \<longleftrightarrow> tables_ok om \<and> temps_ok om \<and> crush_ok om"

definition rb_good :: "rb_ops \<Rightarrow> bool" where
  "rb_good rb \<longleftrightarrow> keeps_inorder (pg_color rb) \<and> erases_node (pg_erase rb)"

lemmas osdmap_ok_defs = osdmap_ok_def tables_ok_def temps_ok_def crush_ok_def

lemma osdmap_ok_other [simp]:
  "osdmap_ok (om\<lparr>pg_pools := t\<rparr>) = osdmap_ok om" "osdmap_ok (om\<lparr>fsid := fs\<rparr>) = osdmap_ok om"
  "osdmap_ok (om\<lparr>epoch := ep\<rparr>) = osdmap_ok om" "osdmap_ok (om\<lparr>created := c\<rparr>) = osdmap_ok om"
  "osdmap_ok (om\<lparr>modified := md\<rparr>) = osdmap_ok om" "osdmap_ok (om\<lparr>om_flags := fl\<rparr>) = osdmap_ok om"
  "osdmap_ok (om\<lparr>pool_max := pm\<rparr>) = osdmap_ok om"
  by (simp_all add: osdmap_ok_defs)

lemma osdmap_ok_affinity: "osdmap_ok om \<Longrightarrow> osdmap_ok (om\<lparr>osd_primary_affinity := None\<rparr>)"
  by (simp add: osdmap_ok_defs)

text \<open>Apart from the first fields of a full map and the step of an increment, nothing changes the epoch.\<close>

definition osdmap_at :: "u32 \<Rightarrow> ceph_osdmap \<Rightarrow> bool" where
  "osdmap_at e om \<longleftrightarrow> osdmap_ok om \<and> epoch om = e"

lemmas osdmap_at_defs = osdmap_at_def osdmap_ok_defs

lemma osdmap_at_affinity: "osdmap_at e om \<Longrightarrow> osdmap_at e (om\<lparr>osd_primary_affinity := None\<rparr>)"
  by (simp add: osdmap_at_defs)

lemma keepsM_any: "(\<And>e. keepsM (osdmap_at e) m) \<Longrightarrow> keepsM osdmap_ok m"
  unfolding keepsM_def osdmap_at_def by (blast intro: wp_mono)

section \<open>Pools\<close>

lemma keeps_pool_name: "keepsM (osdmap_at e) (decode_pool_name alloc buf en)"
  by (rule keepsM_I) (simp add: osdmap_at_def decode_pool_name_def om_wp Let_def split: option.split)

lemma keeps_pool_names: "keepsM (osdmap_at e) (decode_pool_names alloc buf en)"
  unfolding decode_pool_names_def by (intro keepsM_rules keeps_pool_name)

lemma keeps_one_pool: "keepsM (osdmap_at e) (decode_one_pool alloc rb buf en inc)"
  by (rule keepsM_I) (simp add: osdmap_at_def decode_one_pool_def om_wp split: option.split)

lemma keeps_pools:
  "keepsM (osdmap_at e) (decode_pools alloc rb buf en)" "keepsM (osdmap_at e) (decode_new_pools alloc rb buf en)"
  unfolding decode_pools_def decode_new_pools_def decode_pools_gen_def
  by (intro keepsM_rules keeps_one_pool)+

lemma keeps_old_pool: "keepsM (osdmap_at e) (remove_old_pool rb buf en)"
  by (rule keepsM_I) (simp add: osdmap_at_def remove_old_pool_def om_wp split: option.split)

section \<open>The OSD tables\<close>

lemma length_realloc [simp]: "length (krealloc_list n junk xs) = n"
  by (simp add: krealloc_list_def)

lemma length_fill [simp]: "length (fill_from k d xs) = length xs"
  by (simp add: fill_from_def)

lemma keeps_set_max_osd:
  assumes "mx < 2 ^ 31"
  shows "keepsM (osdmap_at e) (osdmap_set_max_osd alloc mx)"
proof (rule keepsM_I)
  fix om p
  assume ok: "osdmap_at e om"
  have n: "unat (word_of_int mx :: u32) = nat mx" if "0 \<le> mx"
    using that assms by (simp add: unat_eq_nat_uint uint_word_of_int)
  show "wpM (\<lambda>_ om' _. osdmap_at e om') (osdmap_set_max_osd alloc mx) om p"
  proof (cases "0 \<le> mx")
    case True
    with ok n[OF True] assms show ?thesis
      by (auto simp: osdmap_set_max_osd_def om_wp Let_def osdmap_at_defs split: option.split)
  qed (simp add: osdmap_set_max_osd_def om_wp)
qed

lemma sint_u32_less: "sint (w :: u32) < 2 ^ 31"
  using sint_lt[of w] by simp

lemma decode_array_wp: "decode_array d n p = Inr (xs, q) \<Longrightarrow> length xs = n"
  by (rule decode_array_length)

lemma wp_expect_max_osd [om_wp]:
  "wpM Q (expect_max_osd buf) om p = (\<forall>q. ceph_decode_32 buf p = Inr (max_osd om, q) \<longrightarrow> Q () om q)"
  by (auto simp: expect_max_osd_def om_wp)

lemma copy_length: "ceph_decode_copy buf n p = Inr (bs, q) \<Longrightarrow> length bs = n"
  by (auto simp: ceph_decode_copy_def bindE_Inr_iff get_bytes_def split: if_splits)

lemma keeps_tables: "keepsM (osdmap_at e) (osdmap_decode_tables buf en)"
  by (rule keepsM_I)
    (simp add: osdmap_decode_tables_def om_wp osdmap_at_defs copy_length decode_array_length)

lemma keeps_set_affinity: "keepsM (osdmap_at e) (set_primary_affinity alloc osd aff)"
  by (rule keepsM_I) (auto simp: set_primary_affinity_def om_wp osdmap_at_defs split: option.split)

lemma keeps_set_affinities: "keepsM (osdmap_at e) (set_affinities alloc buf i n)"
  by (induction n arbitrary: i) (auto intro!: keepsM_bind keeps_set_affinity)

lemma keeps_affinity: "keepsM (osdmap_at e) (decode_primary_affinity alloc buf en)"
  unfolding decode_primary_affinity_def
  by (intro keepsM_rules keepsM_mod keeps_set_affinities osdmap_at_affinity)

lemma keeps_new_affinity: "keepsM (osdmap_at e) (decode_new_primary_affinity alloc buf en)"
  unfolding decode_new_primary_affinity_def by (intro keepsM_rules keeps_set_affinity)

lemma keeps_new_tables:
  "keepsM (osdmap_at e) (apply_new_up buf en)" "keepsM (osdmap_at e) (apply_new_state buf en)"
  "keepsM (osdmap_at e) (apply_new_weight buf en)"
  by (rule keepsM_I, simp add: apply_new_up_def apply_new_state_def apply_new_weight_def om_wp osdmap_at_defs Let_def)+

section \<open>Explicit mappings\<close>

lemma remove_pg_mapping_ordered:
  assumes "ordered pm_pgid t" and "erases_node erase" and "remove_pg_mapping erase t pgid = Inr t'"
  shows "ordered pm_pgid t'"
proof -
  from assms(3) obtain pg where pg: "lookup_pg_mapping t pgid = Some pg" "t' = erase pg t"
    by (auto simp: remove_pg_mapping_def split: option.splits)
  have "pg \<in> set_tree t" using pg(1) assms(1) by (simp add: pgm.look_Some_iff pgm.valid_def)
  with map_key_remove1[OF assms(1) _ assms(2)] pg(2) show ?thesis by simp
qed

lemma insert_pg_mapping_ordered:
  assumes "ordered pm_pgid t" and "keeps_inorder color" and "insert_pg_mapping color new t = Inr t'"
  shows "ordered pm_pgid t'"
proof (cases "lookup_pg_mapping t (pm_pgid new)")
  case None
  with pgm.ins_look[of t color new] assms show ?thesis by (auto simp: pgm.valid_def)
next
  case (Some pg)
  with pgm.ins_exists[of t new pg color] assms show ?thesis by (simp add: pgm.valid_def)
qed

lemma keeps_drop:
  assumes "rb_good rb"
  shows "keepsM (osdmap_at e) (drop_pg_temp rb inc pgid)" "keepsM (osdmap_at e) (drop_primary_temp rb inc pgid)"
  using assms
  by (auto intro!: keepsM_I simp: drop_pg_temp_def drop_primary_temp_def om_wp osdmap_at_defs rb_good_def
      split: sum.split intro: remove_pg_mapping_ordered)

lemma drop_pg_temp_spec:
  assumes "rb_good rb" and "ordered pm_pgid (pg_temp om)"
  shows "\<exists>t. drop_pg_temp rb True pgid om p = (Inr (), om\<lparr>pg_temp := t\<rparr>, p) \<and> ordered pm_pgid t \<and>
    (\<forall>k. lookup_pg_mapping t k = (if k = pgid then None else lookup_pg_mapping (pg_temp om) k))"
proof (cases "lookup_pg_mapping (pg_temp om) pgid")
  case None
  then have "drop_pg_temp rb True pgid om p = (Inr (), om\<lparr>pg_temp := pg_temp om\<rparr>, p)"
    by (simp add: drop_pg_temp_def remove_pg_mapping_def bindM_def getM_def retM_def)
  with None assms(2) show ?thesis by (intro exI[of _ "pg_temp om"]) auto
next
  case (Some pg)
  have v: "pgm.valid (pg_temp om)" using assms(2) by (simp add: pgm.valid_def)
  from Some v have pg: "pg \<in> set_tree (pg_temp om)" "pm_pgid pg = pgid" by (simp_all add: pgm.look_Some_iff)
  have e: "erases_node (pg_erase rb)" using assms(1) by (simp add: rb_good_def)
  show ?thesis
    using pgm.erase_look[OF v e _ pg(1)] pg(2) Some
    by (intro exI[of _ "pg_erase rb pg (pg_temp om)"])
      (auto simp: drop_pg_temp_def remove_pg_mapping_def bindM_def getM_def modM_def retM_def pgm.valid_def)
qed

lemma keeps_insert_temp:
  assumes "rb_good rb"
  shows "keepsM (osdmap_at e) (bindM (getM pg_temp) (\<lambda>t. bindM (resM (insert_pg_mapping (pg_color rb) pg t))
      (\<lambda>t. modM (\<lambda>om. om\<lparr>pg_temp := t\<rparr>))))"
    "keepsM (osdmap_at e) (bindM (getM primary_temp) (\<lambda>t. bindM (resM (insert_pg_mapping (pg_color rb) pg t))
      (\<lambda>t. modM (\<lambda>om. om\<lparr>primary_temp := t\<rparr>))))"
  using assms
  by (auto intro!: keepsM_I simp: om_wp osdmap_at_defs rb_good_def intro: insert_pg_mapping_ordered)

lemma keeps_one_temp:
  assumes "rb_good rb"
  shows "keepsM (osdmap_at e) (decode_one_pg_temp alloc rb buf en inc)"
    "keepsM (osdmap_at e) (decode_one_primary_temp alloc rb buf en inc)"
  unfolding decode_one_pg_temp_def decode_one_primary_temp_def
  by (intro keeps_insert_temp keeps_drop keepsM_rules assms)+

lemma keeps_temps:
  assumes "rb_good rb"
  shows "keepsM (osdmap_at e) (decode_pg_temp alloc rb buf en)" "keepsM (osdmap_at e) (decode_new_pg_temp alloc rb buf en)"
    "keepsM (osdmap_at e) (decode_primary_temp alloc rb buf en)"
    "keepsM (osdmap_at e) (decode_new_primary_temp alloc rb buf en)"
  unfolding decode_pg_temp_def decode_new_pg_temp_def decode_primary_temp_def decode_new_primary_temp_def
    decode_pg_temp_gen_def decode_primary_temp_gen_def
  by (intro keepsM_rules keeps_one_temp assms)+

section \<open>Whole maps\<close>

lemma keeps_decode_crush: "keepsM osdmap_ok (osdmap_decode_crush alloc buf en)"
  by (rule keepsM_I)
    (auto simp: osdmap_decode_crush_def om_wp osdmap_ok_defs intro: crush_decode_decoded split: sum.split)

lemma keeps_decode_head: "keepsM osdmap_ok (osdmap_decode_head buf en)"
  by (rule keepsM_I) (simp add: osdmap_decode_head_def om_wp)

lemma keeps_osdmap_decode:
  assumes "rb_good rb"
  shows "keepsM osdmap_ok (osdmap_decode alloc rb buf en)"
  unfolding osdmap_decode_def
  by (intro keepsM_rules keepsM_mod keeps_decode_head keepsM_any[OF keeps_pools(1)]
      keepsM_any[OF keeps_pool_names] keepsM_any[OF keeps_set_max_osd] keepsM_any[OF keeps_tables]
      keepsM_any[OF keeps_temps(1)] keepsM_any[OF keeps_temps(3)] keepsM_any[OF keeps_affinity]
      keeps_decode_crush osdmap_ok_affinity sint_u32_less assms)
    simp_all

lemma empty_osdmap_ok: "osdmap_ok empty_osdmap"
  by (simp add: empty_osdmap_def osdmap_ok_defs)

lemma ceph_osdmap_decode_ok:
  assumes "rb_good rb" and "ceph_osdmap_decode alloc rb buf en p = Inr (om, q)"
  shows "osdmap_ok om"
  using keeps_osdmap_decode[OF assms(1), of alloc buf en] empty_osdmap_ok assms(2)
  by (auto simp: ceph_osdmap_decode_def keepsM_def wpM_def split: if_splits sum.splits prod.splits)

lemma keeps_inc_tables:
  assumes "rb_good rb"
  shows "keepsM (osdmap_at e) (inc_tables alloc rb buf en v)"
  unfolding inc_tables_def
  by (intro keepsM_rules keeps_pools keeps_pool_names keeps_old_pool keeps_new_tables keeps_temps
      keeps_new_affinity assms)

lemma keeps_inc_settings: "keepsM (osdmap_at e) (inc_settings alloc buf en pm fl)"
  unfolding inc_settings_def
  by (intro keepsM_rules keepsM_mod keeps_set_max_osd sint_u32_less) (simp_all add: osdmap_at_def)

lemma keepsM_apply: "keepsM I m \<Longrightarrow> I om \<Longrightarrow> (\<And>v om' q. I om' \<Longrightarrow> Q v om' q) \<Longrightarrow> wpM Q m om p"
  unfolding keepsM_def by (blast intro: wp_mono)

lemma wp_inc_new_crush:
  assumes "\<And>c q. (\<And>c'. c = Some c' \<Longrightarrow> decoded_map c') \<Longrightarrow> Q c om q"
  shows "wpM Q (inc_new_crush alloc buf en) om p"
  by (auto simp: inc_new_crush_def om_wp intro!: assms intro: crush_decode_decoded)

definition inc_post :: "ceph_osdmap \<Rightarrow> int \<Rightarrow> inc_result \<Rightarrow> ceph_osdmap \<Rightarrow> int \<Rightarrow> bool" where
  "inc_post om en r om' q =
    (case r of
       Same_map \<Rightarrow> osdmap_ok om' \<and> epoch om' = epoch om + 1 \<and> q = en
     | New_map m \<Rightarrow> om' = om \<and> osdmap_ok m)"

lemma wp_inc_tail:
  assumes "rb_good rb" and "osdmap_ok om" and "\<And>c. newcrush = Some c \<Longrightarrow> decoded_map c"
  shows "wpM (inc_post om en)
    (bindM (inc_settings alloc buf en new_pool_max new_flags) (\<lambda>_.
     bindM (modM (\<lambda>om. om\<lparr>epoch := epoch om + 1, modified := md,
                         om_crush := (case newcrush of None \<Rightarrow> om_crush om | Some c \<Rightarrow> Some c)\<rparr>)) (\<lambda>_.
     bindM (inc_tables alloc rb buf en v) (\<lambda>_.
     bindM (seekM en) (\<lambda>_.
     retM Same_map))))) om p"
proof -
  have fin: "wpM (inc_post om en) (bindM (inc_tables alloc rb buf en v) (\<lambda>_. bindM (seekM en) (\<lambda>_. retM Same_map))) om' q"
    if "osdmap_at (epoch om + 1) om'" for om' q
    unfolding om_wp
    by (rule keepsM_apply[OF keeps_inc_tables[OF assms(1)] that]) (simp add: inc_post_def osdmap_at_def)
  have mid: "osdmap_at (epoch om + 1) (om'\<lparr>epoch := epoch om' + 1, modified := md,
      om_crush := (case newcrush of None \<Rightarrow> om_crush om' | Some c \<Rightarrow> Some c)\<rparr>)"
    if "osdmap_at (epoch om) om'" for om'
    using that assms(3) by (auto simp: osdmap_at_defs split: option.split)
  have "osdmap_at (epoch om) om" using assms(2) by (simp add: osdmap_at_def)
  then show ?thesis
    unfolding wp_bind wp_mod
    by (rule keepsM_apply[OF keeps_inc_settings]) (rule fin[unfolded wp_bind, OF mid])
qed

lemma apply_incremental_post:
  assumes "rb_good rb" and "osdmap_ok om"
  shows "wpM (inc_post om en) (osdmap_apply_incremental alloc rb buf en) om p"
proof -
  note tail = wp_inc_tail[OF assms]
  have new: "inc_post om en (New_map m) om q" if "ceph_osdmap_decode alloc rb buf en' p' = Inr (m, q)" for m en' p' q
    using ceph_osdmap_decode_ok[OF assms(1) that] by (simp add: inc_post_def)
  show ?thesis
    unfolding osdmap_apply_incremental_def
    by (auto simp del: wp_bind simp add: wp_lift wp_get wp_if wp_fail wp_bind[of _ "liftM _"] wp_bind[of _ "getM _"]
        wp_bind[of _ posM] wp_bind[of _ "inc_new_crush alloc buf en"] wp_ret wp_pos
        intro!: new wp_inc_new_crush tail)
qed

section \<open>Properties\<close>

text \<open>
  The example increment is in the old encoding: epoch 1, two OSDs, OSD 1 comes into existence
  and up, its weight is set, and the group 1.5 is mapped to it.
\<close>

definition example_rb :: rb_ops where
  "example_rb = \<lparr>pg_color = (\<lambda>t. t), pg_erase = (\<lambda>x t. foldr (\<lambda>y u. Node Leaf y u) (remove1 x (inorder t)) Leaf),
     pool_color = (\<lambda>t. t), pool_erase = (\<lambda>x t. t), sizeof_map = 400\<rparr>"

definition example_inc :: "u8 list" where
  "example_inc =
    [6, 0] @ replicate 16 7 @ [1, 0, 0, 0] @ replicate 8 9 @ replicate 8 0xff @ replicate 4 0xff @
    [0, 0, 0, 0] @ [0, 0, 0, 0] @ [2, 0, 0, 0] @
    [0, 0, 0, 0] @ [0, 0, 0, 0] @ [0, 0, 0, 0] @ [0, 0, 0, 0] @
    [1, 0, 0, 0, 1, 0, 0, 0, 3] @ [1, 0, 0, 0, 1, 0, 0, 0, 0, 0, 1, 0] @
    [1, 0, 0, 0, 1, 1, 0, 0, 0, 0, 0, 0, 0, 5, 0, 0, 0, 0xff, 0xff, 0xff, 0xff, 1, 0, 0, 0, 1, 0, 0, 0]"

lemmas om_eval = bindM_def retM_def failM_def liftM_def resM_def getM_def modM_def posM_def skipM_def seekM_def
  kmallocM_def wrM_def countedM_def

lemma example_rb_good: "rb_good example_rb"
proof -
  have io: "inorder (foldr (\<lambda>y u. Node Leaf y u) xs Leaf) = xs" for xs :: "ceph_pg_mapping list"
    by (induction xs) auto
  show ?thesis by (simp add: rb_good_def example_rb_def keeps_inorder_def erases_node_def io)
qed

lemmas inc_eval = osdmap_apply_incremental_def get_osdmap_client_data_v_def inc_settings_def inc_new_crush_def
  inc_tables_def decode_new_pools_def decode_pools_gen_def decode_pool_names_def decode_new_pg_temp_def
  decode_pg_temp_gen_def decode_one_pg_temp_def drop_pg_temp_def apply_new_state_def apply_new_weight_def
  osdmap_set_max_osd_def krealloc_list_def fill_from_def empty_osdmap_def Let_def rd_def wr_def
  ceph_decode_pgid_def remove_pg_mapping_def insert_pg_mapping_def example_rb_def CEPH_OSD_OUT_def
  ceph_decode_16_safe_def ceph_decode_8_safe_def ceph_decode_64_safe_def ceph_decode_64_def
  ceph_decode_copy_def skipD_def failD_def

lemma example_inc_run:
  "\<exists>om'. osdmap_apply_incremental (\<lambda>n. n < 1000) example_rb example_inc 120 empty_osdmap 0 = (Inr Same_map, om', 120) \<and>
     osd_state om' = [0, 3]"
  apply (simp add: om_eval example_inc_def decode_eval inc_eval)
  apply (simp add: numeral_2_eq_2)
  done

text \<open>
  C6: a successful incremental update keeps the map consistent: the OSD tables and the affinity
  table have \<open>max_osd\<close> entries, the trees of explicit mappings stay ordered, the CRUSH map has
  tables of the announced lengths, and the epoch grows by one. An increment that carries a full
  map leaves the old map alone and yields a consistent one. The kernel's tree rebalancing is
  assumed to keep the sequence of nodes, and its erasing to remove one node.
\<close>

theorem apply_incremental_consistent:
  assumes "rb_good rb" and "osdmap_ok om"
    and "osdmap_apply_incremental alloc rb buf en om p = (Inr r, om', q)"
  shows "case r of
      Same_map \<Rightarrow> osdmap_ok om' \<and> epoch om' = epoch om + 1 \<and> q = en
    | New_map m \<Rightarrow> om' = om \<and> osdmap_ok m"
  using apply_incremental_post[OF assms(1,2), of en alloc buf p] assms(3)
  by (simp add: wpM_def inc_post_def)

theorem apply_incremental_consistent_witness:
  "\<exists>om'. osdmap_apply_incremental (\<lambda>n. n < 1000) example_rb example_inc 120 empty_osdmap 0 = (Inr Same_map, om', 120) \<and>
     osdmap_ok om' \<and> epoch om' = 1"
proof -
  obtain om' where r: "osdmap_apply_incremental (\<lambda>n. n < 1000) example_rb example_inc 120 empty_osdmap 0 =
      (Inr Same_map, om', 120)" using example_inc_run by blast
  with apply_incremental_consistent[OF example_rb_good empty_osdmap_ok r] show ?thesis
    by (simp add: empty_osdmap_def)
qed

text \<open>The smallest full map: no pools, no OSDs, no mappings, and the example CRUSH map.\<close>

definition example_full :: "u8 list" where
  "example_full =
    [6, 0] @ replicate 16 7 @ [5, 0, 0, 0] @ replicate 16 9 @ [0, 0, 0, 0] @ [0, 0, 0, 0] @ [1, 0, 0, 0] @
    [0, 0, 0, 0] @ [0, 0, 0, 0] @
    [0, 0, 0, 0] @ [0, 0, 0, 0] @ [0, 0, 0, 0] @ [0, 0, 0, 0] @ [48, 0, 0, 0] @
    example_header 2 @ example_uniform @ [0, 0, 0, 0]"

lemma example_full_run:
  "\<exists>om. ceph_osdmap_decode (\<lambda>n. n < 1000) example_rb example_full 126 0 = Inr (om, 126) \<and>
     om_crush om = Some example_decoded \<and> epoch om = 5"
  by (simp add: om_eval example_full_def decode_eval inc_eval ceph_osdmap_decode_def osdmap_decode_def
      osdmap_decode_head_def decode_pools_def osdmap_decode_tables_def expect_max_osd_def decode_pg_temp_def
      osdmap_decode_crush_def example_decoded_def)

text \<open>
  C7: a full map that \<open>ceph_osdmap_decode\<close> accepts is consistent: the tables of OSD states,
  weights, addresses and affinities have \<open>max_osd\<close> entries, the trees of explicit mappings are
  ordered, and the CRUSH map has tables of the announced lengths.
\<close>

theorem osdmap_decode_consistent:
  assumes "rb_good rb" and "ceph_osdmap_decode alloc rb buf en p = Inr (om, q)"
  shows "tables_ok om \<and> temps_ok om \<and> crush_ok om"
  using ceph_osdmap_decode_ok[OF assms] by (simp add: osdmap_ok_def)

theorem osdmap_decode_consistent_witness:
  "\<exists>om. ceph_osdmap_decode (\<lambda>n. n < 1000) example_rb example_full 126 0 = Inr (om, 126) \<and>
     tables_ok om \<and> temps_ok om \<and> crush_ok om"
  using example_full_run osdmap_decode_consistent[OF example_rb_good] by blast

text \<open>
  An entry of \<open>new_pg_temp\<close> that fits in the message replaces the mapping of its group, or
  removes it when the list of OSDs is empty, and changes no other group. The insertion behind
  the removal cannot fail.
\<close>

theorem new_pg_temp_entry:
  assumes "rb_good rb" and "ordered pm_pgid (pg_temp om)"
    and "ceph_decode_pgid buf en p = Inr (pgid, p1)"
    and "ceph_decode_32_safe buf en (Err EINVAL) p1 = Inr (len, p2)"
    and "ceph_has_room p2 en (unat len * 4)" and "len \<le> 1073741811" and "alloc (48 + unat len * 4)"
    and "decode_array (decode_s32 buf) (unat len) p2 = Inr (osds, p3)"
  shows "\<exists>t. decode_one_pg_temp alloc rb buf en True om p = (Inr (), om\<lparr>pg_temp := t\<rparr>, p3) \<and>
    ordered pm_pgid t \<and>
    (\<forall>k. lookup_pg_mapping t k =
      (if k = pgid then (if osds = [] then None else Some \<lparr>pm_pgid = pgid, pm_target = Pg_temp osds\<rparr>)
       else lookup_pg_mapping (pg_temp om) k))"
proof -
  have rb: "keeps_inorder (pg_color rb)" "erases_node (pg_erase rb)" using assms(1) by (simp_all add: rb_good_def)
  obtain t where drop: "drop_pg_temp rb True pgid om p2 = (Inr (), om\<lparr>pg_temp := t\<rparr>, p2)"
    and t: "ordered pm_pgid t" "\<And>k. lookup_pg_mapping t k = (if k = pgid then None else lookup_pg_mapping (pg_temp om) k)"
    using drop_pg_temp_spec[OF assms(1,2)] by blast
  let ?new = "\<lparr>pm_pgid = pgid, pm_target = Pg_temp osds\<rparr>"
  have ins: "\<exists>t'. insert_pg_mapping (pg_color rb) ?new t = Inr t' \<and> ordered pm_pgid t' \<and>
      lookup_pg_mapping t' k = (if k = pgid then Some ?new else lookup_pg_mapping t k)" for k
    using pgm.ins_look[of t "pg_color rb" ?new k] t rb(1) by (simp add: pgm.valid_def)
  have len: "length osds = unat len" using decode_array_length[OF assms(8)] .
  show ?thesis
  proof (cases "len = 0")
    case True
    with assms(8) len have "osds = []" "p3 = p2" by (simp_all add: retD_def)
    with True assms(3,4) drop have "decode_one_pg_temp alloc rb buf en True om p = (Inr (), om\<lparr>pg_temp := t\<rparr>, p3)"
      by (simp add: decode_one_pg_temp_def om_eval)
    with t \<open>osds = []\<close> show ?thesis by auto
  next
    case False
    with len have ne: "osds \<noteq> []" by (auto simp: unat_eq_zero)
    from ins obtain t' where i: "insert_pg_mapping (pg_color rb) ?new t = Inr t'" by blast
    with ins have t': "ordered pm_pgid t'"
      "\<And>k. lookup_pg_mapping t' k = (if k = pgid then Some ?new else lookup_pg_mapping t k)" by auto
    have "decode_one_pg_temp alloc rb buf en True om p = (Inr (), om\<lparr>pg_temp := t'\<rparr>, p3)"
      using False i assms(3-8) drop by (simp add: decode_one_pg_temp_def om_eval ceph_decode_need_def not_less)
    with t' t(2) ne show ?thesis by auto
  qed
qed

theorem new_pg_temp_entry_witness:
  "\<exists>t. decode_one_pg_temp (\<lambda>n. n < 100) example_rb
       [1, 1, 0, 0, 0, 0, 0, 0, 0, 5, 0, 0, 0, 0, 0, 0, 0, 1, 0, 0, 0, 7, 0, 0, 0] 25 True
       (empty_osdmap\<lparr>pg_temp := example_pgs\<rparr>) 0 = (Inr (), empty_osdmap\<lparr>pg_temp := t\<rparr>, 25) \<and>
     lookup_pg_mapping t (Ceph_pg 1 5) = Some \<lparr>pm_pgid = Ceph_pg 1 5, pm_target = Pg_temp [7]\<rparr>"
proof -
  let ?buf = "[1, 1, 0, 0, 0, 0, 0, 0, 0, 5, 0, 0, 0, 0, 0, 0, 0, 1, 0, 0, 0, 7, 0, 0, 0] :: u8 list"
  have "ceph_decode_pgid ?buf 25 0 = Inr (Ceph_pg 1 5, 17)"
    "ceph_decode_32_safe ?buf 25 (Err EINVAL) 17 = Inr (1, 21)"
    "decode_array (decode_s32 ?buf) (unat (1 :: u32)) 21 = Inr ([7], 25)"
    by (simp_all add: decode_eval inc_eval)
  from new_pg_temp_entry[OF example_rb_good _ this(1,2) _ _ _ this(3), of "empty_osdmap\<lparr>pg_temp := example_pgs\<rparr>"
      "\<lambda>n. n < 100"] example_pgs_ordered
  show ?thesis by (auto simp: ceph_has_room_def)
qed

text \<open>An OSD number of the message that is out of range stops the machine.\<close>

lemma new_up_bug_on:
  assumes "ceph_decode_32_safe buf en (Err EINVAL) p = Inr (osd, p1)"
    and "ceph_decode_copy_safe buf en 136 (Err EINVAL) p1 = Inr (addr, p2)" and "max_osd om \<le> osd"
  shows "apply_new_up buf en om p = (Inl (Fault BugOn), om, p2)"
  using assms by (simp add: apply_new_up_def om_eval)

end
