(* ===== verification/Striping.thy ===== *)
theory Striping
  imports Prelude
begin

text \<open>
  File striping: \<open>ceph_calc_file_object_mapping\<close> (\<open>net/ceph/osdmap.c\<close>) and the layout check
  (\<open>net/ceph/ceph_fs.c\<close>). The block, stripe and object numbers are 32-bit in the source, also
  where the offset has 64 bits; the model keeps these widths.
\<close>

section \<open>Layouts\<close>

record ceph_file_layout =
  fl_stripe_unit :: u32
  fl_stripe_count :: u32
  fl_object_size :: u32
  fl_cas_hash :: u32
  fl_object_stripe_unit :: u32
  fl_unused :: u32
  fl_pg_pool :: u32

definition ceph_file_layout_su :: "ceph_file_layout \<Rightarrow> int" where
  "ceph_file_layout_su l = sint (fl_stripe_unit l)"

definition ceph_file_layout_stripe_count :: "ceph_file_layout \<Rightarrow> int" where
  "ceph_file_layout_stripe_count l = sint (fl_stripe_count l)"

definition ceph_file_layout_object_size :: "ceph_file_layout \<Rightarrow> int" where
  "ceph_file_layout_object_size l = sint (fl_object_size l)"

definition ceph_file_layout_pg_pool :: "ceph_file_layout \<Rightarrow> int" where
  "ceph_file_layout_pg_pool l = sint (fl_pg_pool l)"

definition ceph_file_layout_stripe_width :: "ceph_file_layout \<Rightarrow> u32" where
  "ceph_file_layout_stripe_width l = fl_stripe_unit l * fl_stripe_count l"

definition ceph_file_layout_period :: "ceph_file_layout \<Rightarrow> u32" where
  "ceph_file_layout_period l = fl_object_size l * fl_stripe_count l"

definition CEPH_MIN_STRIPE_UNIT :: u32 where
  "CEPH_MIN_STRIPE_UNIT = 65536"

definition ceph_file_layout_is_valid :: "ceph_file_layout \<Rightarrow> bool" where
  "ceph_file_layout_is_valid l =
    (let su = fl_stripe_unit l; sc = fl_stripe_count l; os = fl_object_size l in
     if su = 0 \<or> su AND (CEPH_MIN_STRIPE_UNIT - 1) \<noteq> 0 then False
     else if os = 0 \<or> os AND (CEPH_MIN_STRIPE_UNIT - 1) \<noteq> 0 then False
     else if os < su \<or> os mod su \<noteq> 0 then False
     else if sc = 0 then False
     else True)"

section \<open>From a file extent to an object extent\<close>

text \<open>\<open>~PAGE_MASK\<close> on a machine with pages of 4096 bytes.\<close>

definition page_offset_mask :: u32 where
  "page_offset_mask = 4095"

definition ceph_calc_file_object_mapping ::
  "ceph_file_layout \<Rightarrow> u64 \<Rightarrow> u64 \<Rightarrow> errno option \<times> u64 \<times> u64 \<times> u64" where
  "ceph_calc_file_object_mapping layout off len =
    (let osize = fl_object_size layout; su = fl_stripe_unit layout; sc = fl_stripe_count layout in
     if su = 0 \<or> sc = 0 then (Some EINVAL, 0, 0, 0)
     else
       let su_per_object = osize div su in
       if su_per_object = 0 then (Some EINVAL, 0, 0, 0)
       else if su AND page_offset_mask \<noteq> 0 then (Some EINVAL, 0, 0, 0)
       else
         let bl = ucast (off div ucast su) :: u32;
             stripeno = bl div sc;
             stripepos = bl mod sc;
             objsetno = stripeno div su_per_object;
             ono = ucast (objsetno * sc + stripepos);
             su_offset = off mod ucast su;
             oxoff = su_offset + ucast ((stripeno mod su_per_object) * su);
             oxlen = min len (ucast su - su_offset)
         in (None, ono, oxoff, oxlen))"

section \<open>The mapping without widths\<close>

text \<open>
  The specification on numbers: stripe units are dealt out round robin to \<open>sc\<close> objects, which
  are filled with \<open>spo\<close> units each before the next set of objects starts. \<open>object_to_file\<close> reads
  the file offset off an object number and an offset in it.
\<close>

definition file_to_object :: "nat \<Rightarrow> nat \<Rightarrow> nat \<Rightarrow> nat \<Rightarrow> nat \<times> nat" where
  "file_to_object su sc spo off =
    (let bl = off div su; sn = bl div sc in
     ((sn div spo) * sc + bl mod sc, off mod su + (sn mod spo) * su))"

definition object_to_file :: "nat \<Rightarrow> nat \<Rightarrow> nat \<Rightarrow> nat \<times> nat \<Rightarrow> nat" where
  "object_to_file su sc spo = (\<lambda>(ono, ox).
    ((ono div sc * spo + ox div su) * sc + ono mod sc) * su + ox mod su)"

lemma object_to_file_inverse:
  assumes "0 < su" and "0 < sc" and "0 < spo"
  shows "object_to_file su sc spo (file_to_object su sc spo off) = off"
proof -
  let ?bl = "off div su"
  let ?sn = "?bl div sc"
  have "((?sn div spo) * sc + ?bl mod sc) div sc = ?sn div spo"
    using assms(2) by simp
  moreover have "((?sn div spo) * sc + ?bl mod sc) mod sc = ?bl mod sc" by simp
  moreover have "(off mod su + (?sn mod spo) * su) div su = ?sn mod spo" using assms(1) by simp
  moreover have "(off mod su + (?sn mod spo) * su) mod su = off mod su" by simp
  moreover have "(?sn div spo * spo + ?sn mod spo) * sc + ?bl mod sc = ?bl"
    by (simp add: div_mult_mod_eq)
  ultimately show ?thesis
    by (simp add: object_to_file_def file_to_object_def Let_def)
qed

lemma file_to_object_inverse:
  assumes "0 < su" and "0 < sc" and "ox < spo * su"
  shows "file_to_object su sc spo (object_to_file su sc spo (ono, ox)) = (ono, ox)"
proof -
  let ?sn = "ono div sc * spo + ox div su"
  let ?bl = "?sn * sc + ono mod sc"
  have spo: "ox div su < spo" using assms(1,3) by (simp add: div_less_iff_less_mult)
  have "(?bl * su + ox mod su) div su = ?bl" "(?bl * su + ox mod su) mod su = ox mod su" using assms(1) by simp_all
  moreover have "?bl div sc = ?sn" "?bl mod sc = ono mod sc" using assms(2) by simp_all
  moreover have "?sn div spo = ono div sc" "?sn mod spo = ox div su" using spo by simp_all
  ultimately show ?thesis
    by (simp add: object_to_file_def file_to_object_def Let_def mult.commute)
qed

text \<open>Inside a stripe unit the mapping advances with the offset.\<close>

lemma file_to_object_step:
  assumes "off mod su + k < su"
  shows "file_to_object su sc spo (off + k) =
    (fst (file_to_object su sc spo off), snd (file_to_object su sc spo off) + k)"
proof -
  have "off + k = (off mod su + k) + off div su * su" by simp
  then have "(off + k) div su = off div su" "(off + k) mod su = off mod su + k"
    using assms by (metis add.commute div_less div_mult_self1 less_nat_zero_code add_0, metis mod_less mod_mult_self1)
  then show ?thesis by (simp add: file_to_object_def Let_def)
qed

section \<open>The code computes the mapping\<close>

definition mappable :: "ceph_file_layout \<Rightarrow> bool" where
  "mappable l \<longleftrightarrow> fl_stripe_unit l \<noteq> 0 \<and> fl_stripe_count l \<noteq> 0 \<and> fl_stripe_unit l \<le> fl_object_size l \<and>
     fl_stripe_unit l AND page_offset_mask = 0"

lemma unat_ucast_up [simp]: "unat (ucast (w :: u32) :: u64) = unat w"
proof -
  have "unat w < 2 ^ 64" using unsigned_less[of w, where 'a = nat] by simp
  then show ?thesis by (simp add: unsigned_ucast_eq take_bit_nat_eq_self_iff)
qed

lemma unat_ucast_down: "unat (x :: u64) < 2 ^ 32 \<Longrightarrow> unat (ucast x :: u32) = unat x"
  by (simp add: unsigned_ucast_eq take_bit_nat_eq_self_iff)

lemma unat_mult_small: "unat a * unat b < 2 ^ 32 \<Longrightarrow> unat (a * b :: u32) = unat a * unat b"
  by (simp add: unat_word_ariths)

lemma unat_add_small: "unat a + unat b < 2 ^ 32 \<Longrightarrow> unat (a + b :: u32) = unat a + unat b"
  by (simp add: unat_word_ariths)

lemma unat_add_small64: "unat a + unat b < 2 ^ 64 \<Longrightarrow> unat (a + b :: u64) = unat a + unat b"
  by (simp add: unat_word_ariths)

lemma object_number_le: "off div su div sc div spo * sc + off div su mod sc \<le> off div (su :: nat)"
proof -
  have "off div su div sc div spo * sc + off div su mod sc \<le> off div su div sc * sc + off div su mod sc"
    by (rule add_mono[OF mult_le_mono1[OF div_le_dividend] order_refl])
  also have "\<dots> = off div su" by (rule div_mult_mod_eq)
  finally show ?thesis .
qed

lemma object_extent_le: "0 < spo \<Longrightarrow> sn mod spo * su + su \<le> spo * (su :: nat)"
proof -
  assume "0 < spo"
  then have "(sn mod spo + 1) * su \<le> spo * su" by (intro mult_le_mono1) (simp add: Suc_leI)
  then show ?thesis by simp
qed

lemma mapping_spec:
  assumes l: "mappable l" and off: "unat off div unat (fl_stripe_unit l) < 2 ^ 32"
  defines "su \<equiv> unat (fl_stripe_unit l)" and "sc \<equiv> unat (fl_stripe_count l)"
    and "spo \<equiv> unat (fl_object_size l) div unat (fl_stripe_unit l)"
  shows "\<exists>ono oxoff. ceph_calc_file_object_mapping l off len =
      (None, ono, oxoff, min len (ucast (fl_stripe_unit l) - off mod ucast (fl_stripe_unit l))) \<and>
    (unat ono, unat oxoff) = file_to_object su sc spo (unat off)"
proof -
  let ?su = "fl_stripe_unit l" and ?sc = "fl_stripe_count l" and ?spo = "fl_object_size l div fl_stripe_unit l"
  let ?bl = "ucast (off div ucast ?su) :: u32"
  let ?sn = "?bl div ?sc" and ?n = "unat off div su div sc"
  have pos: "0 < su" using l by (simp add: mappable_def su_def unat_gt_0)
  have spo: "unat ?spo = spo" by (simp add: unat_div spo_def)
  have spo0: "0 < spo" using l pos by (simp add: mappable_def spo_def div_greater_zero_iff su_def word_le_nat_alt)
  then have nz: "?spo \<noteq> 0" using spo by (metis less_irrefl unsigned_0)
  have bl: "unat ?bl = unat off div su" using off by (simp add: unat_ucast_down unat_div su_def)
  have sn: "unat ?sn = ?n" by (simp add: unat_div bl sc_def)
  have blt: "?n div spo * sc + unat off div su mod sc < 2 ^ 32"
    using object_number_le[of "unat off" su sc spo] off by (simp add: su_def)
  have mul: "unat (?sn div ?spo * ?sc) = ?n div spo * sc"
    using blt by (subst unat_mult_small) (simp_all add: unat_div[of ?sn] sn spo sc_def)
  have ono: "unat (?sn div ?spo * ?sc + ?bl mod ?sc) = ?n div spo * sc + unat off div su mod sc"
    using blt mul by (subst unat_add_small) (simp_all add: unat_mod bl sc_def)
  have "?n mod spo * su + su \<le> unat (fl_object_size l)"
    using object_extent_le[OF spo0, of ?n su] by (simp add: spo_def su_def le_trans)
  then have ob: "?n mod spo * su + su < 2 ^ 32"
    using unsigned_less[of "fl_object_size l", where 'a = nat] by simp
  have um: "unat (?sn mod ?spo * ?su) = ?n mod spo * su"
    using ob by (subst unat_mult_small) (simp_all add: unat_mod sn spo su_def)
  have "unat off mod su < su" using pos by simp
  then have ox: "unat (off mod ucast ?su + ucast (?sn mod ?spo * ?su)) = unat off mod su + ?n mod spo * su"
    using ob um by (subst unat_add_small64) (simp_all add: unat_mod su_def)
  show ?thesis
    using l nz ono ox by (simp add: ceph_calc_file_object_mapping_def Let_def mappable_def file_to_object_def)
qed

lemma valid_mappable: "ceph_file_layout_is_valid l \<Longrightarrow> mappable l"
proof -
  assume v: "ceph_file_layout_is_valid l"
  have "fl_stripe_unit l AND page_offset_mask =
      (fl_stripe_unit l AND (CEPH_MIN_STRIPE_UNIT - 1)) AND page_offset_mask"
    by (simp add: page_offset_mask_def CEPH_MIN_STRIPE_UNIT_def and.assoc)
  with v show ?thesis
    by (simp add: ceph_file_layout_is_valid_def mappable_def Let_def not_less split: if_splits)
qed

section \<open>Properties\<close>

text \<open>
  C16: for a layout that passes \<open>ceph_file_layout_is_valid\<close> and an offset below \<open>2 ^ 32\<close> stripe
  units, \<open>ceph_calc_file_object_mapping\<close> succeeds, the file offset can be read back from the
  object number and the offset in the object, so no two file offsets share a byte of an object,
  and the extent is not longer than asked for and stays inside the object.
\<close>

theorem file_object_mapping_inverse:
  assumes "ceph_file_layout_is_valid l" and "unat off div unat (fl_stripe_unit l) < 2 ^ 32"
  shows "\<exists>ono oxoff oxlen. ceph_calc_file_object_mapping l off len = (None, ono, oxoff, oxlen) \<and>
    object_to_file (unat (fl_stripe_unit l)) (unat (fl_stripe_count l))
      (unat (fl_object_size l) div unat (fl_stripe_unit l)) (unat ono, unat oxoff) = unat off \<and>
    oxlen \<le> len \<and> (len \<noteq> 0 \<longrightarrow> oxlen \<noteq> 0) \<and> unat oxoff + unat oxlen \<le> unat (fl_object_size l)"
proof -
  let ?su = "unat (fl_stripe_unit l)" and ?sc = "unat (fl_stripe_count l)"
  let ?spo = "unat (fl_object_size l) div ?su" and ?w = "ucast (fl_stripe_unit l) :: u64"
  have m: "mappable l" using assms(1) by (rule valid_mappable)
  obtain ono oxoff where r: "ceph_calc_file_object_mapping l off len = (None, ono, oxoff, min len (?w - off mod ?w))"
    and fo: "(unat ono, unat oxoff) = file_to_object ?su ?sc ?spo (unat off)"
    using mapping_spec[OF m assms(2)] by blast
  have pos: "0 < ?su" "0 < ?sc" "0 < ?spo"
    using m by (simp_all add: mappable_def unat_gt_0 div_greater_zero_iff word_le_nat_alt)
  have lt: "unat (off mod ?w) < ?su" using pos by (simp add: unat_mod)
  then have sub: "unat (?w - off mod ?w) = ?su - unat off mod ?su"
    by (simp add: unat_sub_if' unat_mod)
  then have nz: "?w - off mod ?w \<noteq> 0" using lt by (auto simp: unat_mod)
  have "unat oxoff + (?su - unat off mod ?su) = (unat off div ?su div ?sc) mod ?spo * ?su + ?su"
    using fo pos(1) by (simp add: file_to_object_def Let_def)
  also have "\<dots> \<le> ?spo * ?su" by (rule object_extent_le[OF pos(3)])
  also have "\<dots> \<le> unat (fl_object_size l)" by simp
  finally have "unat oxoff + unat (?w - off mod ?w) \<le> unat (fl_object_size l)" by (simp add: sub)
  moreover have "unat (min len (?w - off mod ?w)) \<le> unat (?w - off mod ?w)" by (simp add: word_le_nat_alt[symmetric])
  ultimately have "unat oxoff + unat (min len (?w - off mod ?w)) \<le> unat (fl_object_size l)" by linarith
  with r fo nz object_to_file_inverse[OF pos] show ?thesis by (auto simp: min_def)
qed

definition example_layout :: ceph_file_layout where
  "example_layout = \<lparr>fl_stripe_unit = 65536, fl_stripe_count = 3, fl_object_size = 131072, fl_cas_hash = 0,
     fl_object_stripe_unit = 0, fl_unused = 0, fl_pg_pool = 1\<rparr>"

theorem file_object_mapping_inverse_witness:
  "\<exists>ono oxoff oxlen. ceph_calc_file_object_mapping example_layout 500000 100000 = (None, ono, oxoff, oxlen) \<and>
    object_to_file 65536 3 2 (unat ono, unat oxoff) = 500000 \<and> unat oxoff + unat oxlen \<le> 131072"
  using file_object_mapping_inverse[of example_layout 500000 100000]
  by (auto simp: example_layout_def ceph_file_layout_is_valid_def CEPH_MIN_STRIPE_UNIT_def Let_def)

text \<open>
  The extent that \<open>ceph_calc_file_object_mapping\<close> returns is contiguous: the byte \<open>k\<close>
  positions behind the offset, for \<open>k\<close> below the returned length, is mapped to the same object,
  \<open>k\<close> positions further on.
\<close>

theorem file_object_mapping_contiguous:
  assumes "ceph_file_layout_is_valid l" and "unat (off + k) div unat (fl_stripe_unit l) < 2 ^ 32"
    and "unat off + unat k < 2 ^ 64"
    and "ceph_calc_file_object_mapping l off len = (None, ono, oxoff, oxlen)" and "k < oxlen"
  shows "\<exists>oxlen'. ceph_calc_file_object_mapping l (off + k) len' = (None, ono, oxoff + k, oxlen')"
proof -
  let ?su = "unat (fl_stripe_unit l)" and ?sc = "unat (fl_stripe_count l)"
  let ?spo = "unat (fl_object_size l) div ?su" and ?w = "ucast (fl_stripe_unit l) :: u64"
  have m: "mappable l" using assms(1) by (rule valid_mappable)
  have ok: "unat (off + k) = unat off + unat k" by (rule unat_add_small64[OF assms(3)])
  have "unat off div ?su \<le> unat (off + k) div ?su" unfolding ok by (rule div_le_mono) simp
  with assms(2) have lo: "unat off div ?su < 2 ^ 32" by linarith
  have pos: "0 < ?su" using m by (simp add: mappable_def unat_gt_0)
  from mapping_spec[OF m lo, of len] assms(4)
  have fo: "(unat ono, unat oxoff) = file_to_object ?su ?sc ?spo (unat off)" and "oxlen = min len (?w - off mod ?w)"
    by auto
  with assms(5) have "k < ?w - off mod ?w" by auto
  moreover have "unat (off mod ?w) < ?su" using pos by (simp add: unat_mod)
  then have "unat (?w - off mod ?w) = ?su - unat off mod ?su" by (simp add: unat_sub_if' unat_mod)
  ultimately have "unat off mod ?su + unat k < ?su" by (simp add: word_less_nat_alt)
  note st = file_to_object_step[OF this, of ?sc ?spo]
  obtain ono' oxoff' where r: "ceph_calc_file_object_mapping l (off + k) len' =
      (None, ono', oxoff', min len' (?w - (off + k) mod ?w))"
    and fo': "(unat ono', unat oxoff') = file_to_object ?su ?sc ?spo (unat off + unat k)"
    using mapping_spec[OF m assms(2), of len'] unfolding ok by blast
  from fo fo' st have "unat ono' = unat ono" "unat oxoff' = unat oxoff + unat k" by (metis prod.inject fst_conv snd_conv)+
  moreover from this(2) have "unat (oxoff + k) = unat oxoff + unat k"
    using unsigned_less[of oxoff', where 'a = nat] by (intro unat_add_small64) simp
  ultimately have "ono' = ono" "oxoff' = oxoff + k" by (metis unsigned_word_eqI)+
  with r show ?thesis by blast
qed

theorem file_object_mapping_contiguous_witness:
  "\<exists>oxlen'. ceph_calc_file_object_mapping example_layout 20 7 = (None, 0, 20, oxlen')"
  using file_object_mapping_contiguous[of example_layout 10 10 100 0 10 100 7]
  by (simp add: example_layout_def ceph_file_layout_is_valid_def CEPH_MIN_STRIPE_UNIT_def Let_def
      ceph_calc_file_object_mapping_def page_offset_mask_def)

text \<open>Behind \<open>2 ^ 32\<close> stripe units the block number wraps around and offsets share objects.\<close>

lemma mapping_wraps:
  "ceph_calc_file_object_mapping example_layout 0 1 = ceph_calc_file_object_mapping example_layout 0x1000000000000 1"
  by (simp add: ceph_calc_file_object_mapping_def example_layout_def Let_def page_offset_mask_def)

end
