(* ===== verification/Frag.thy ===== *)
theory Frag
  imports Prelude
begin

text \<open>
  Directory fragments (\<open>include/linux/ceph/ceph_frag.h\<close>, \<open>fs/ceph/ceph_frag.c\<close>): a fragment is a
  32-bit word of a depth (the upper 8 bits) and a prefix (the lower 24 bits, left aligned) that
  describes a part of the 24-bit hash space. A shift by 32 or more has no defined result.
\<close>

section \<open>Operations\<close>

definition shl32 :: "u32 \<Rightarrow> u32 \<Rightarrow> u32 res" where
  "shl32 w n = (if n < 32 then Inr (push_bit (unat n) w) else Inl (Fault BadShift))"

definition shr32 :: "u32 \<Rightarrow> u32 \<Rightarrow> u32 res" where
  "shr32 w n = (if n < 32 then Inr (drop_bit (unat n) w) else Inl (Fault BadShift))"

definition ceph_frag_make :: "u32 \<Rightarrow> u32 \<Rightarrow> u32 res" where
  "ceph_frag_make b v =
    bindE (shl32 0xffffff (24 - b)) (\<lambda>m. Inr (push_bit 24 b OR (v AND m AND 0xffffff)))"

definition ceph_frag_bits :: "u32 \<Rightarrow> u32" where
  "ceph_frag_bits f = drop_bit 24 f"

definition ceph_frag_value :: "u32 \<Rightarrow> u32" where
  "ceph_frag_value f = f AND 0xffffff"

definition ceph_frag_mask :: "u32 \<Rightarrow> u32 res" where
  "ceph_frag_mask f = bindE (shl32 0xffffff (24 - ceph_frag_bits f)) (\<lambda>m. Inr (m AND 0xffffff))"

definition ceph_frag_mask_shift :: "u32 \<Rightarrow> u32" where
  "ceph_frag_mask_shift f = 24 - ceph_frag_bits f"

definition ceph_frag_contains_value :: "u32 \<Rightarrow> u32 \<Rightarrow> bool res" where
  "ceph_frag_contains_value f v =
    bindE (ceph_frag_mask f) (\<lambda>m. Inr (v AND m = ceph_frag_value f))"

definition ceph_frag_contains_frag :: "u32 \<Rightarrow> u32 \<Rightarrow> bool res" where
  "ceph_frag_contains_frag f sub =
    (if ceph_frag_bits f \<le> ceph_frag_bits sub
     then bindE (ceph_frag_mask f) (\<lambda>m. Inr (ceph_frag_value sub AND m = ceph_frag_value f))
     else Inr False)"

definition ceph_frag_parent :: "u32 \<Rightarrow> u32 res" where
  "ceph_frag_parent f =
    bindE (ceph_frag_mask f) (\<lambda>m.
    ceph_frag_make (ceph_frag_bits f - 1) (ceph_frag_value f AND push_bit 1 m))"

definition ceph_frag_is_left_child :: "u32 \<Rightarrow> bool res" where
  "ceph_frag_is_left_child f =
    (if 0 < ceph_frag_bits f
     then bindE (shr32 0x1000000 (ceph_frag_bits f)) (\<lambda>d. Inr (ceph_frag_value f AND d = 0))
     else Inr False)"

definition ceph_frag_is_right_child :: "u32 \<Rightarrow> bool res" where
  "ceph_frag_is_right_child f =
    (if 0 < ceph_frag_bits f
     then bindE (shr32 0x1000000 (ceph_frag_bits f)) (\<lambda>d. Inr (ceph_frag_value f AND d = 1))
     else Inr False)"

definition ceph_frag_sibling :: "u32 \<Rightarrow> u32 res" where
  "ceph_frag_sibling f =
    bindE (shr32 0x1000000 (ceph_frag_bits f)) (\<lambda>d.
    ceph_frag_make (ceph_frag_bits f) (ceph_frag_value f XOR d))"

definition ceph_frag_left_child :: "u32 \<Rightarrow> u32 res" where
  "ceph_frag_left_child f = ceph_frag_make (ceph_frag_bits f + 1) (ceph_frag_value f)"

definition ceph_frag_right_child :: "u32 \<Rightarrow> u32 res" where
  "ceph_frag_right_child f =
    bindE (shr32 0x1000000 (1 + ceph_frag_bits f)) (\<lambda>d.
    ceph_frag_make (ceph_frag_bits f + 1) (ceph_frag_value f OR d))"

definition ceph_frag_make_child :: "u32 \<Rightarrow> u32 \<Rightarrow> u32 \<Rightarrow> u32 res" where
  "ceph_frag_make_child f by_bits i =
    (let newbits = ceph_frag_bits f + by_bits in
     bindE (shl32 i (24 - newbits)) (\<lambda>d.
     ceph_frag_make newbits (ceph_frag_value f OR d)))"

definition ceph_frag_is_leftmost :: "u32 \<Rightarrow> bool" where
  "ceph_frag_is_leftmost f = (ceph_frag_value f = 0)"

definition ceph_frag_is_rightmost :: "u32 \<Rightarrow> bool res" where
  "ceph_frag_is_rightmost f = bindE (ceph_frag_mask f) (\<lambda>m. Inr (ceph_frag_value f = m))"

definition ceph_frag_next :: "u32 \<Rightarrow> u32 res" where
  "ceph_frag_next f =
    bindE (shr32 0x1000000 (ceph_frag_bits f)) (\<lambda>d.
    ceph_frag_make (ceph_frag_bits f) (ceph_frag_value f + d))"

definition ceph_frag_compare :: "u32 \<Rightarrow> u32 \<Rightarrow> int" where
  "ceph_frag_compare a b =
    (if ceph_frag_value a < ceph_frag_value b then -1
     else if ceph_frag_value b < ceph_frag_value a then 1
     else if ceph_frag_bits a < ceph_frag_bits b then -1
     else if ceph_frag_bits b < ceph_frag_bits a then 1
     else 0)"

section \<open>Well-formed fragments\<close>

text \<open>\<open>frag_of k v\<close> is the fragment of depth \<open>k\<close> around the hash value \<open>v\<close>: it keeps the first \<open>k\<close> of 24 bits.\<close>

definition prefix_mask :: "nat \<Rightarrow> u32" where
  "prefix_mask k = push_bit (24 - k) (mask k)"

definition frag_of :: "nat \<Rightarrow> u32 \<Rightarrow> u32" where
  "frag_of k v = push_bit 24 (word_of_nat k) OR (v AND prefix_mask k)"

definition frag_ok :: "u32 \<Rightarrow> bool" where
  "frag_ok f \<longleftrightarrow> (\<exists>k \<le> 24. \<exists>v. f = frag_of k v)"

lemma bit_prefix_mask: "k \<le> 24 \<Longrightarrow> bit (prefix_mask k) j \<longleftrightarrow> 24 - k \<le> j \<and> j < 24"
  by (auto simp: prefix_mask_def bit_simps)

lemma ffffff_mask: "(0xffffff :: u32) = mask 24"
  by (simp add: mask_eq_exp_minus_1)

lemma unat_small: "k \<le> 24 \<Longrightarrow> unat (word_of_nat k :: u32) = k"
  by (simp add: unat_of_nat)

lemma unat_24_minus: "k \<le> 24 \<Longrightarrow> unat (24 - word_of_nat k :: u32) = 24 - k"
  by (simp add: unat_sub_if' unat_small)

lemma shl_mask:
  assumes "k \<le> 24"
  shows "shl32 (mask 24) (24 - word_of_nat k) = Inr (push_bit (24 - k) (mask 24))"
proof -
  have "(24 - word_of_nat k :: u32) < 32" using assms by (simp add: word_less_nat_alt unat_24_minus)
  then show ?thesis using assms by (simp add: shl32_def unat_24_minus)
qed

lemma mask_prefix: "k \<le> 24 \<Longrightarrow> push_bit (24 - k) (mask 24) AND mask 24 = prefix_mask k"
  by (rule bit_word_eqI) (auto simp: bit_prefix_mask bit_simps)

lemma frag_make: "k \<le> 24 \<Longrightarrow> ceph_frag_make (word_of_nat k) v = Inr (frag_of k v)"
  by (simp add: ceph_frag_make_def shl_mask ffffff_mask frag_of_def mask_prefix and.assoc)

lemma bit_depth: "k \<le> 24 \<Longrightarrow> bit (word_of_nat k :: u32) j \<Longrightarrow> j < 8"
proof (rule ccontr)
  assume k: "k \<le> 24" and b: "bit (word_of_nat k :: u32) j" and j: "\<not> j < 8"
  have "(24 :: nat) < 2 ^ 8" by simp
  also have "(2 :: nat) ^ 8 \<le> 2 ^ j" using j by (intro power_increasing) simp_all
  finally have "k < 2 ^ j" using k by simp
  then have "take_bit j k = k" by (simp add: take_bit_nat_eq_self_iff)
  then have "\<not> bit k j" by (metis bit_take_bit_iff less_irrefl)
  with b show False by (simp add: bit_simps)
qed

lemma frag_bits_of: "k \<le> 24 \<Longrightarrow> ceph_frag_bits (frag_of k v) = word_of_nat k"
  unfolding ceph_frag_bits_def frag_of_def
  by (rule bit_word_eqI) (auto simp: bit_simps bit_prefix_mask dest: bit_depth)

lemma frag_value_of: "k \<le> 24 \<Longrightarrow> ceph_frag_value (frag_of k v) = v AND prefix_mask k"
  unfolding ceph_frag_value_def frag_of_def ffffff_mask
  by (rule bit_word_eqI) (auto simp: bit_simps bit_prefix_mask)

lemma frag_mask_of: "k \<le> 24 \<Longrightarrow> ceph_frag_mask (frag_of k v) = Inr (prefix_mask k)"
  by (simp add: ceph_frag_mask_def frag_bits_of ffffff_mask shl_mask mask_prefix)

lemma drop_push_one: "n < 32 \<Longrightarrow> k \<le> n \<Longrightarrow> drop_bit k (push_bit n (1 :: u32)) = push_bit (n - k) 1"
  by (rule bit_word_eqI) (auto simp: bit_simps)

lemma shr_depth: "0 < k \<Longrightarrow> k \<le> 24 \<Longrightarrow> shr32 0x1000000 (word_of_nat k) = Inr (push_bit (24 - k) 1)"
proof -
  assume k: "0 < k" "k \<le> 24"
  have "(word_of_nat k :: u32) < 32" using k by (simp add: word_less_nat_alt unat_small)
  moreover have "drop_bit k (0x1000000 :: u32) = push_bit (24 - k) 1" using drop_push_one[of 24 k] k by simp
  ultimately show ?thesis using k by (simp add: shr32_def unat_small)
qed

lemmas frag_reads = frag_bits_of frag_value_of frag_mask_of

lemma frag_contains_of: "k \<le> 24 \<Longrightarrow>
  ceph_frag_contains_value (frag_of k v) w = Inr (w AND prefix_mask k = v AND prefix_mask k)"
  by (simp add: ceph_frag_contains_value_def frag_reads)

lemma frag_of_cong: "v AND prefix_mask k = w AND prefix_mask k \<Longrightarrow> frag_of k v = frag_of k w"
  by (simp add: frag_of_def)

lemma frag_make_Suc: "k < 24 \<Longrightarrow> ceph_frag_make (word_of_nat k + 1) v = Inr (frag_of (Suc k) v)"
  using frag_make[of "Suc k" v] by (simp add: add.commute)

lemma shr_depth_Suc: "k < 24 \<Longrightarrow> shr32 0x1000000 (1 + word_of_nat k) = Inr (push_bit (23 - k) 1)"
  using shr_depth[of "Suc k"] by simp

lemma left_child_of: "k < 24 \<Longrightarrow> ceph_frag_left_child (frag_of k v) = Inr (frag_of (Suc k) (v AND prefix_mask k))"
  by (simp add: ceph_frag_left_child_def frag_reads frag_make_Suc)

lemma right_child_of:
  "k < 24 \<Longrightarrow> ceph_frag_right_child (frag_of k v) = Inr (frag_of (Suc k) (v AND prefix_mask k OR push_bit (23 - k) 1))"
  by (simp add: ceph_frag_right_child_def frag_reads frag_make_Suc shr_depth_Suc del: push_bit_of_1)

lemma parent_of:
  assumes "k < 24"
  shows "ceph_frag_parent (frag_of (Suc k) v) = Inr (frag_of k v)"
proof -
  have "v AND prefix_mask (Suc k) AND push_bit 1 (prefix_mask (Suc k)) AND prefix_mask k = v AND prefix_mask k"
    by (rule bit_word_eqI) (use assms in \<open>auto simp: bit_prefix_mask bit_simps simp del: push_bit_Suc\<close>)
  then have "frag_of k (v AND prefix_mask (Suc k) AND push_bit 1 (prefix_mask (Suc k))) = frag_of k v"
    by (intro frag_of_cong) (simp add: and.assoc)
  moreover have "ceph_frag_bits (frag_of (Suc k) v) - 1 = word_of_nat k" using assms by (simp add: frag_bits_of)
  ultimately show ?thesis using assms by (simp add: ceph_frag_parent_def frag_reads frag_make and.assoc)
qed

lemma sibling_of:
  assumes "k < 24"
  shows "ceph_frag_sibling (frag_of (Suc k) v) = Inr (frag_of (Suc k) (v XOR push_bit (23 - k) 1))"
proof -
  have "((v AND prefix_mask (Suc k)) XOR push_bit (23 - k) 1) AND prefix_mask (Suc k) =
      (v XOR push_bit (23 - k) 1) AND prefix_mask (Suc k)"
    by (rule bit_word_eqI) (use assms in \<open>auto simp: bit_prefix_mask bit_simps\<close>)
  from frag_of_cong[OF this] show ?thesis
    using assms shr_depth[of "Suc k"] frag_make[of "Suc k"]
    by (simp add: ceph_frag_sibling_def frag_reads del: of_nat_Suc push_bit_of_1)
qed

text \<open>The next bit of a hash value decides between the two children.\<close>

lemma bit_prefix_Suc: "k < 24 \<Longrightarrow> bit (prefix_mask (Suc k)) j \<longleftrightarrow> j = 23 - k \<or> bit (prefix_mask k) j"
  by (auto simp: bit_prefix_mask)

lemma left_prefix:
  assumes "k < 24"
  shows "w AND prefix_mask (Suc k) = (v AND prefix_mask k) AND prefix_mask (Suc k) \<longleftrightarrow>
    w AND prefix_mask k = v AND prefix_mask k \<and> \<not> bit w (23 - k)"
proof -
  have no: "\<not> bit (prefix_mask k) (23 - k)" using assms by (simp add: bit_prefix_mask)
  show ?thesis
    using no assms unfolding bit_eq_iff by (auto simp: bit_and_iff bit_prefix_Suc dest: spec[of _ "23 - k"])
qed

lemma right_prefix:
  assumes "k < 24"
  shows "w AND prefix_mask (Suc k) = (v AND prefix_mask k OR push_bit (23 - k) 1) AND prefix_mask (Suc k) \<longleftrightarrow>
    w AND prefix_mask k = v AND prefix_mask k \<and> bit w (23 - k)"
proof -
  have no: "\<not> bit (prefix_mask k) (23 - k)" using assms by (simp add: bit_prefix_mask)
  have one: "bit (push_bit (23 - k) 1 :: u32) j \<longleftrightarrow> j = 23 - k" for j using assms by (auto simp: bit_simps)
  show ?thesis
    using no assms unfolding bit_eq_iff
    by (auto simp: bit_and_iff bit_or_iff bit_prefix_Suc one simp del: push_bit_of_1 dest: spec[of _ "23 - k"])
qed

section \<open>Properties\<close>

text \<open>
  C38: a well-formed fragment that is not at the full depth of 24 bits is partitioned by its two
  children: a hash value lies in the fragment if and only if it lies in exactly one of them. The
  children have it as their parent and each other as siblings.
\<close>

theorem frag_children:
  assumes "frag_ok f" and "ceph_frag_bits f < 24"
  shows "\<exists>l r. ceph_frag_left_child f = Inr l \<and> ceph_frag_right_child f = Inr r \<and>
    frag_ok l \<and> frag_ok r \<and> ceph_frag_parent l = Inr f \<and> ceph_frag_parent r = Inr f \<and>
    ceph_frag_sibling l = Inr r \<and> ceph_frag_sibling r = Inr l \<and>
    (\<forall>v. \<exists>cl cr. ceph_frag_contains_value l v = Inr cl \<and> ceph_frag_contains_value r v = Inr cr \<and>
       ceph_frag_contains_value f v = Inr (cl \<noteq> cr) \<and> \<not> (cl \<and> cr))"
proof -
  from assms(1) obtain k v where kv: "k \<le> 24" "f = frag_of k v" by (auto simp: frag_ok_def)
  with assms(2) have k: "k < 24" by (simp add: frag_bits_of word_less_nat_alt unat_small)
  let ?l = "v AND prefix_mask k" and ?d = "push_bit (23 - k) 1 :: u32"
  let ?r = "?l OR ?d"
  have bd: "bit ?d j \<longleftrightarrow> j = 23 - k" for j using k by (auto simp: bit_simps)
  have x: "?l XOR ?d = ?r" "?r XOR ?d = ?l"
    by (rule bit_word_eqI, use k bd in \<open>auto simp: bit_xor_iff bit_or_iff bit_and_iff bit_prefix_mask simp del: push_bit_of_1\<close>)+
  have p: "frag_of k ?l = frag_of k v" "frag_of k ?r = frag_of k v"
    by (rule frag_of_cong, rule bit_word_eqI,
        use k bd in \<open>auto simp: bit_or_iff bit_and_iff bit_prefix_mask simp del: push_bit_of_1\<close>)+
  have ok: "frag_ok (frag_of (Suc k) w)" for w using k by (auto simp: frag_ok_def intro!: exI[of _ "Suc k"])
  show ?thesis
    unfolding kv(2)
    using k x p ok left_prefix[OF k, of _ v] right_prefix[OF k, of _ v]
    by (auto simp: left_child_of right_child_of parent_of sibling_of frag_contains_of simp del: push_bit_of_1)
qed

theorem frag_children_witness:
  "\<exists>l r. ceph_frag_left_child 0x01800000 = Inr l \<and> ceph_frag_right_child 0x01800000 = Inr r \<and>
    ceph_frag_parent r = Inr 0x01800000 \<and> ceph_frag_sibling l = Inr r"
proof -
  have f: "frag_of 1 0x800000 = 0x01800000" by (simp add: frag_of_def prefix_mask_def)
  have "frag_ok 0x01800000" unfolding frag_ok_def f[symmetric] by (intro exI[of _ 1]) auto
  moreover have "ceph_frag_bits 0x01800000 < 24" by (simp add: ceph_frag_bits_def)
  ultimately show ?thesis using frag_children by blast
qed

text \<open>
  \<open>ceph_frag_is_right_child\<close> compares the branching bit with 1, not with 0, so it is false
  for every fragment above the full depth of 24 bits: a fragment below the root that is not a
  left child is not a right child either.
\<close>

theorem frag_is_right_child_never:
  assumes "frag_ok f" and "ceph_frag_bits f < 24"
  shows "ceph_frag_is_right_child f = Inr False"
proof -
  from assms(1) obtain k v where kv: "k \<le> 24" "f = frag_of k v" by (auto simp: frag_ok_def)
  with assms(2) have k: "k < 24" by (simp add: frag_bits_of word_less_nat_alt unat_small)
  have "v AND prefix_mask k AND push_bit (24 - k) 1 \<noteq> 1"
  proof
    assume "v AND prefix_mask k AND push_bit (24 - k) 1 = 1"
    then have "bit (v AND prefix_mask k AND push_bit (24 - k) 1) 0" by simp
    with k show False by (simp add: bit_and_iff bit_prefix_mask)
  qed
  with k kv show ?thesis
    using shr_depth[of k] by (auto simp: ceph_frag_is_right_child_def frag_reads and.assoc word_less_nat_alt unat_small simp del: push_bit_of_1)
qed

theorem frag_is_right_child_never_witness: "ceph_frag_is_right_child 0x01800000 = Inr False"
proof (rule frag_is_right_child_never)
  have "frag_of 1 0x800000 = 0x01800000" by (simp add: frag_of_def prefix_mask_def)
  then show "frag_ok 0x01800000" unfolding frag_ok_def by (metis one_le_numeral)
  show "ceph_frag_bits 0x01800000 < 24" by (simp add: ceph_frag_bits_def)
qed

end
