(* ===== verification/Armor.thy ===== *)
theory Armor
  imports Prelude
begin

text \<open>
  The base64 armor of keys (\<open>net/ceph/armor.c\<close>). The destination is written front to back and
  never read, so it is the list of the bytes written; the source is the list of the bytes
  between \<open>src\<close> and \<open>end\<close>.
\<close>

section \<open>Encoding\<close>

definition pem_key :: "u8 list" where
  "pem_key = map word_of_nat ([65..<91] @ [97..<123] @ [48..<58] @ [43, 47])"

definition encode_bits :: "u8 \<Rightarrow> u8" where
  "encode_bits c = pem_key ! unat c"

text \<open>One group: up to three bytes become four characters.\<close>

fun armor_group :: "u8 \<Rightarrow> u8 list \<Rightarrow> u8 list \<times> u8 list" where
  "armor_group a [] = ([encode_bits (drop_bit 2 a), encode_bits (push_bit 4 (a AND 3)), 61, 61], [])"
| "armor_group a [b] =
    ([encode_bits (drop_bit 2 a), encode_bits (push_bit 4 (a AND 3) OR drop_bit 4 b),
      encode_bits (push_bit 2 (b AND 15)), 61], [])"
| "armor_group a (b # c # src) =
    ([encode_bits (drop_bit 2 a), encode_bits (push_bit 4 (a AND 3) OR drop_bit 4 b),
      encode_bits (push_bit 2 (b AND 15) OR drop_bit 6 c), encode_bits (c AND 63)], src)"

lemma armor_group_shorter: "armor_group a src = (out, src') \<Longrightarrow> length src' \<le> length src"
  by (induction a src rule: armor_group.induct) auto

text \<open>The loop: \<open>line\<close> counts the characters of the output line, \<open>olen\<close> all of them.\<close>

function armor_loop :: "u8 list \<Rightarrow> nat \<Rightarrow> nat \<Rightarrow> u8 list \<times> nat" where
  "armor_loop [] line olen = ([], olen)"
| "armor_loop (a # src) line olen =
    (case armor_group a src of (out, src') \<Rightarrow>
       if line + 4 = 64
       then case armor_loop src' 0 (olen + 4 + 1) of (rest, n) \<Rightarrow> (out @ 10 # rest, n)
       else case armor_loop src' (line + 4) (olen + 4) of (rest, n) \<Rightarrow> (out @ rest, n))"
  by pat_completeness auto
termination
  by (relation "measure (\<lambda>(src, line, olen). length src)") (auto dest!: armor_group_shorter[OF sym])

definition ceph_armor :: "u8 list \<Rightarrow> u8 list \<times> nat" where
  "ceph_armor src = armor_loop src 0 0"

section \<open>Decoding\<close>

definition decode_bits :: "u8 \<Rightarrow> u8 option" where
  "decode_bits c =
    (if 65 \<le> c \<and> c \<le> 90 then Some (c - 65)
     else if 97 \<le> c \<and> c \<le> 122 then Some (c - 97 + 26)
     else if 48 \<le> c \<and> c \<le> 57 then Some (c - 48 + 52)
     else if c = 43 then Some 62
     else if c = 47 then Some 63
     else if c = 61 then Some 0
     else None)"

text \<open>The result is the list of the bytes written and the returned length.\<close>

fun unarmor_loop :: "u8 list \<Rightarrow> u8 list \<Rightarrow> nat \<Rightarrow> (u8 list \<times> nat) res" where
  "unarmor_loop [] dst olen = Inr (dst, olen)"
| "unarmor_loop (s0 # src) dst olen =
    (if s0 = 10 then unarmor_loop src dst olen
     else
       case src of
         s1 # s2 # s3 # src' \<Rightarrow>
           (case (decode_bits s0, decode_bits s1, decode_bits s2, decode_bits s3) of
              (Some a, Some b, Some c, Some d) \<Rightarrow>
                (let dst = dst @ [push_bit 2 a OR drop_bit 4 b] in
                 if s2 = 61 then Inr (dst, olen + 1)
                 else
                   let dst = dst @ [push_bit 4 (b AND 15) OR drop_bit 2 c] in
                   if s3 = 61 then Inr (dst, olen + 2)
                   else unarmor_loop src' (dst @ [push_bit 6 (c AND 3) OR d]) (olen + 3))
            | _ \<Rightarrow> Inl (Err EINVAL))
       | _ \<Rightarrow> Inl (Err EINVAL))"

definition ceph_unarmor :: "u8 list \<Rightarrow> (u8 list \<times> nat) res" where
  "ceph_unarmor src = unarmor_loop src [] 0"

section \<open>Single characters\<close>

lemma encode_decode_table: "list_all (\<lambda>n. decode_bits (pem_key ! n) = Some (word_of_nat n) \<and>
    pem_key ! n \<noteq> 61 \<and> pem_key ! n \<noteq> 10) [0..<64]"
  by code_simp

lemma encode_bits_props:
  assumes "unat x < 64"
  shows "decode_bits (encode_bits x) = Some x" "encode_bits x \<noteq> 61" "encode_bits x \<noteq> 10"
  using encode_decode_table assms by (auto simp: list_all_iff encode_bits_def)

lemma sextet:
  assumes "\<And>n. bit (x :: u8) n \<Longrightarrow> n < 6"
  shows "unat x < 64"
proof -
  have "take_bit 6 x = x" by (rule bit_word_eqI) (auto simp: bit_take_bit_iff dest: assms)
  then have "unat x = take_bit 6 (unat x)" by (metis unsigned_take_bit_eq)
  then show ?thesis using take_bit_nat_less_exp[of 6 "unat x"] by simp
qed

text \<open>The four sextets of three bytes, and the three bytes they are joined to.\<close>

definition sextet0 :: "u8 \<Rightarrow> u8" where "sextet0 a = drop_bit 2 a"

definition sextet1 :: "u8 \<Rightarrow> u8 \<Rightarrow> u8" where "sextet1 a b = push_bit 4 (a AND 3) OR drop_bit 4 b"

definition sextet2 :: "u8 \<Rightarrow> u8 \<Rightarrow> u8" where "sextet2 b c = push_bit 2 (b AND 15) OR drop_bit 6 c"

definition sextet3 :: "u8 \<Rightarrow> u8" where "sextet3 c = c AND 63"

definition join0 :: "u8 \<Rightarrow> u8 \<Rightarrow> u8" where "join0 a b = push_bit 2 a OR drop_bit 4 b"

definition join1 :: "u8 \<Rightarrow> u8 \<Rightarrow> u8" where "join1 b c = push_bit 4 (b AND 15) OR drop_bit 2 c"

definition join2 :: "u8 \<Rightarrow> u8 \<Rightarrow> u8" where "join2 c d = push_bit 6 (c AND 3) OR d"

lemma and_small_mask: "(a :: u8) AND 3 = take_bit 2 a" "a AND 15 = take_bit 4 a" "a AND 63 = take_bit 6 a"
  by (simp_all add: take_bit_eq_mask mask_eq_exp_minus_1)

lemma sextets [simp]: "unat (sextet0 a) < 64" "unat (sextet1 a b) < 64" "unat (sextet2 b c) < 64" "unat (sextet3 c) < 64"
  unfolding sextet0_def sextet1_def sextet2_def sextet3_def and_small_mask
  by (rule sextet, auto simp: bit_or_iff bit_push_bit_iff bit_drop_bit_eq bit_take_bit_iff dest: bit_imp_le_length)+

lemma byte_eqI: "(\<And>n. n \<in> {0, 1, 2, 3, 4, 5, 6, 7} \<Longrightarrow> bit x n = bit y n) \<Longrightarrow> x = (y :: u8)"
proof (rule bit_word_eqI)
  fix n
  assume eq: "\<And>n. n \<in> {0, 1, 2, 3, 4, 5, 6, 7} \<Longrightarrow> bit x n = bit y n" and "n < LENGTH(8)"
  then have "n < 8" by simp
  then have "n = 0 \<or> n = 1 \<or> n = 2 \<or> n = 3 \<or> n = 4 \<or> n = 5 \<or> n = 6 \<or> n = 7" by presburger
  then show "bit x n = bit y n" by (intro eq) simp
qed

lemma joins [simp]:
  "join0 (sextet0 a) (sextet1 a b) = a" "join1 (sextet1 a b) (sextet2 b c) = b" "join2 (sextet2 b c) (sextet3 c) = c"
  unfolding sextet0_def sextet1_def sextet2_def sextet3_def join0_def join1_def join2_def and_small_mask
  by (rule byte_eqI, auto simp: numeral_2_eq_2[symmetric] numeral_3_eq_3[symmetric] bit_or_iff bit_push_bit_iff bit_drop_bit_eq bit_take_bit_iff)+

lemma armor_group_sextets:
  "armor_group a [] = (map encode_bits [sextet0 a, sextet1 a 0] @ [61, 61], [])"
  "armor_group a [b] = (map encode_bits [sextet0 a, sextet1 a b, sextet2 b 0] @ [61], [])"
  "armor_group a (b # c # src) = (map encode_bits [sextet0 a, sextet1 a b, sextet2 b c, sextet3 c], src)"
  by (simp_all add: sextet0_def sextet1_def sextet2_def sextet3_def del: push_bit_and)

lemma unarmor_group:
  "s0 \<noteq> 10 \<Longrightarrow> decode_bits s0 = Some a \<Longrightarrow> decode_bits s1 = Some b \<Longrightarrow> decode_bits s2 = Some c \<Longrightarrow>
   decode_bits s3 = Some d \<Longrightarrow>
   unarmor_loop (s0 # s1 # s2 # s3 # src) dst n =
     (if s2 = 61 then Inr (dst @ [join0 a b], n + 1)
      else if s3 = 61 then Inr (dst @ [join0 a b, join1 b c], n + 2)
      else unarmor_loop src (dst @ [join0 a b, join1 b c, join2 c d]) (n + 3))"
  by (simp add: join0_def join1_def join2_def Let_def)

lemma unarmor_newline: "unarmor_loop (10 # src) dst n = unarmor_loop src dst n"
  by simp

lemma decode_padding [simp]: "decode_bits 61 = Some 0"
  by (simp add: decode_bits_def)

lemma armor_round_trip_loop:
  "line < 64 \<Longrightarrow> 4 dvd line \<Longrightarrow> unarmor_loop (fst (armor_loop src line n)) dst m = Inr (dst @ src, m + length src)"
proof (induction src line n arbitrary: dst m rule: armor_loop.induct)
  case (2 a src line olen)
  then have "line = 60 \<or> line < 60" by presburger
  with 2 show ?case
    by (cases "(a, src)" rule: armor_group.cases)
      (auto simp: armor_group_sextets encode_bits_props unarmor_group unarmor_newline
        simp del: armor_group.simps unarmor_loop.simps(2) split: prod.splits)
qed simp

lemma armor_loop_length:
  "snd (armor_loop src line n) = n + length (fst (armor_loop src line n))"
proof (induction src line n rule: armor_loop.induct)
  case (2 a src line olen)
  then show ?case
    by (cases "(a, src)" rule: armor_group.cases) (auto split: prod.splits)
qed simp

section \<open>Properties\<close>

text \<open>
  \<open>ceph_unarmor\<close> undoes \<open>ceph_armor\<close> for every byte string, across the line breaks and the
  padding at the end, and both return the number of bytes they wrote.
\<close>

theorem armor_round_trip:
  "snd (ceph_armor src) = length (fst (ceph_armor src)) \<and>
   ceph_unarmor (fst (ceph_armor src)) = Inr (src, length src)"
  by (simp add: ceph_armor_def ceph_unarmor_def armor_loop_length armor_round_trip_loop)

end
