(* ===== verification/Pagelist.thy ===== *)
theory Pagelist
  imports Wire
begin

text \<open>
  Page lists (\<open>net/ceph/pagelist.c\<close>, \<open>include/linux/ceph/pagelist.h\<close>): a growing buffer of whole
  pages with a reserve of free pages. A page is its address and its bytes. \<open>alloc\<close> is the page
  allocator of the kernel: it may give a page, or none, in any state. A function that can fail
  returns the list it leaves behind together with the error.
\<close>

section \<open>State\<close>

definition PAGE_SIZE :: nat where
  "PAGE_SIZE = 4096"

type_synonym page = "nat \<times> u8 list"

record ceph_pagelist =
  pl_addr :: nat
  pl_head :: "page list"
  mapped_tail :: "nat option"
  pl_length :: nat
  pl_room :: nat
  free_list :: "page list"
  num_pages_free :: nat
  pl_refcnt :: nat

text \<open>\<open>c_page\<close> is the last page when the cursor was set, or none when the list was empty.\<close>

record ceph_pagelist_cursor =
  c_pl :: nat
  c_page :: "nat option"
  c_room :: nat

type_synonym 'a pl_step = "'a res \<times> ceph_pagelist"

definition ceph_pagelist_init :: "nat \<Rightarrow> ceph_pagelist" where
  "ceph_pagelist_init a =
    \<lparr>pl_addr = a, pl_head = [], mapped_tail = None, pl_length = 0, pl_room = 0, free_list = [],
     num_pages_free = 0, pl_refcnt = 1\<rparr>"

section \<open>Operations\<close>

text \<open>\<open>mapped_tail\<close> is the position of the mapped page; mapping and unmapping do not move pages.\<close>

definition ceph_pagelist_unmap_tail :: "ceph_pagelist \<Rightarrow> ceph_pagelist" where
  "ceph_pagelist_unmap_tail pl = pl\<lparr>mapped_tail := None\<rparr>"

fun free_pages :: "nat \<Rightarrow> page list \<Rightarrow> nat" where
  "free_pages n [] = n"
| "free_pages n (p # ps) = free_pages (n - 1) ps"

definition ceph_pagelist_free_reserve :: "ceph_pagelist \<Rightarrow> unit pl_step" where
  "ceph_pagelist_free_reserve pl =
    (let pl' = pl\<lparr>free_list := [], num_pages_free := free_pages (num_pages_free pl) (free_list pl)\<rparr> in
     if num_pages_free pl' \<noteq> 0 then (Inl (Fault BugOn), pl') else (Inr (), pl'))"

text \<open>The result tells whether the list itself was freed.\<close>

definition ceph_pagelist_release :: "ceph_pagelist \<Rightarrow> bool pl_step" where
  "ceph_pagelist_release pl =
    (let pl = pl\<lparr>pl_refcnt := pl_refcnt pl - 1\<rparr> in
     if pl_refcnt pl \<noteq> 0 then (Inr False, pl)
     else
       let pl = (ceph_pagelist_unmap_tail pl)\<lparr>pl_head := []\<rparr> in
       case ceph_pagelist_free_reserve pl of (Inl e, pl) \<Rightarrow> (Inl e, pl) | (Inr u, pl) \<Rightarrow> (Inr True, pl))"

definition ceph_pagelist_addpage :: "(ceph_pagelist \<Rightarrow> page option) \<Rightarrow> ceph_pagelist \<Rightarrow> unit pl_step" where
  "ceph_pagelist_addpage alloc pl =
    (case (if num_pages_free pl = 0 then (case alloc pl of None \<Rightarrow> Inl (Err ENOMEM) | Some p \<Rightarrow> Inr p, pl)
           else case free_list pl of
                  [] \<Rightarrow> (Inl (Fault OutOfBounds), pl)
                | p # ps \<Rightarrow> (Inr p, pl\<lparr>free_list := ps, num_pages_free := num_pages_free pl - 1\<rparr>)) of
       (Inl e, pl) \<Rightarrow> (Inl e, pl)
     | (Inr page, pl) \<Rightarrow>
         let pl = ceph_pagelist_unmap_tail (pl\<lparr>pl_room := pl_room pl + PAGE_SIZE\<rparr>) in
         (Inr (), pl\<lparr>pl_head := pl_head pl @ [page], mapped_tail := Some (length (pl_head pl))\<rparr>))"

text \<open>The copy into the mapped page behind the last byte, and the accounting for it.\<close>

definition pl_copy :: "ceph_pagelist \<Rightarrow> u8 list \<Rightarrow> unit pl_step" where
  "pl_copy pl bs =
    (let off = pl_length pl mod PAGE_SIZE;
         counted = pl\<lparr>pl_length := pl_length pl + length bs, pl_room := pl_room pl - length bs\<rparr> in
     if bs = [] then (Inr (), counted)
     else
       case mapped_tail pl of
         None \<Rightarrow> (Inl (Fault NullDeref), pl)
       | Some i \<Rightarrow>
           if length (pl_head pl) \<le> i \<or> PAGE_SIZE < off + length bs then (Inl (Fault OutOfBounds), pl)
           else
             let (a, old) = pl_head pl ! i in
             (Inr (), counted\<lparr>pl_head :=
               (pl_head pl)[i := (a, take off old @ bs @ drop (off + length bs) old)]\<rparr>))"

lemma addpage_room:
  "ceph_pagelist_addpage alloc pl = (Inr u, pl') \<Longrightarrow> pl_room pl' = pl_room pl + PAGE_SIZE"
  by (auto simp: ceph_pagelist_addpage_def ceph_pagelist_unmap_tail_def Let_def split: if_splits option.splits list.splits)

lemma copy_room: "pl_copy pl bs = (Inr u, pl') \<Longrightarrow> pl_room pl' = pl_room pl - length bs"
  by (auto simp: pl_copy_def Let_def split: if_splits option.splits prod.splits)

function ceph_pagelist_append ::
  "(ceph_pagelist \<Rightarrow> page option) \<Rightarrow> ceph_pagelist \<Rightarrow> u8 list \<Rightarrow> unit pl_step" where
  "ceph_pagelist_append alloc pl buf =
    (if pl_room pl < length buf then
       case pl_copy pl (take (pl_room pl) buf) of
         (Inl e, pl1) \<Rightarrow> (Inl e, pl1)
       | (Inr u1, pl1) \<Rightarrow>
           case ceph_pagelist_addpage alloc pl1 of
             (Inl e, pl2) \<Rightarrow> (Inl e, pl2)
           | (Inr u2, pl2) \<Rightarrow> ceph_pagelist_append alloc pl2 (drop (pl_room pl) buf)
     else pl_copy pl buf)"
  by pat_completeness auto
termination
  by (relation "measure (\<lambda>(alloc, pl, buf). 2 * length buf + (if pl_room pl = 0 then 1 else 0))")
    (auto simp: PAGE_SIZE_def dest!: copy_room[OF sym] addpage_room[OF sym])

function reserve_loop :: "(ceph_pagelist \<Rightarrow> page option) \<Rightarrow> ceph_pagelist \<Rightarrow> nat \<Rightarrow> unit pl_step" where
  "reserve_loop alloc pl space =
    (if num_pages_free pl < space then
       case alloc pl of
         None \<Rightarrow> (Inl (Err ENOMEM), pl)
       | Some page \<Rightarrow>
           reserve_loop alloc (pl\<lparr>free_list := free_list pl @ [page], num_pages_free := num_pages_free pl + 1\<rparr>) space
     else (Inr (), pl))"
  by pat_completeness auto
termination
  by (relation "measure (\<lambda>(alloc, pl, space). space - num_pages_free pl)") auto

definition ceph_pagelist_reserve ::
  "(ceph_pagelist \<Rightarrow> page option) \<Rightarrow> ceph_pagelist \<Rightarrow> nat \<Rightarrow> unit pl_step" where
  "ceph_pagelist_reserve alloc pl space =
    (if space \<le> pl_room pl then (Inr (), pl)
     else reserve_loop alloc pl ((space - pl_room pl + PAGE_SIZE - 1) div PAGE_SIZE))"

definition ceph_pagelist_set_cursor :: "ceph_pagelist \<Rightarrow> ceph_pagelist_cursor" where
  "ceph_pagelist_set_cursor pl =
    \<lparr>c_pl = pl_addr pl, c_page = (if pl_head pl = [] then None else Some (fst (last (pl_head pl)))), c_room = pl_room pl\<rparr>"

text \<open>
  The loop pops the last page until the page of the cursor is last; \<open>ps\<close> is the list backwards.
  A list without that page runs into its own head.
\<close>

fun truncate_loop :: "nat option \<Rightarrow> page list \<Rightarrow> page list \<Rightarrow> (page list \<times> page list) res" where
  "truncate_loop tgt [] free = (if tgt = None then Inr ([], free) else Inl (Fault OutOfBounds))"
| "truncate_loop tgt (p # ps) free =
    (if tgt = Some (fst p) then Inr (p # ps, free) else truncate_loop tgt ps (free @ [p]))"

definition ceph_pagelist_truncate :: "ceph_pagelist \<Rightarrow> ceph_pagelist_cursor \<Rightarrow> unit pl_step" where
  "ceph_pagelist_truncate pl c =
    (if pl_addr pl \<noteq> c_pl c then (Inl (Err EINVAL), pl)
     else
       let pl = ceph_pagelist_unmap_tail pl in
       case truncate_loop (c_page c) (rev (pl_head pl)) [] of
         Inl e \<Rightarrow> (Inl e, pl)
       | Inr (ps, popped) \<Rightarrow>
           (Inr (), pl\<lparr>pl_head := rev ps, free_list := free_list pl @ popped,
                      num_pages_free := num_pages_free pl + length popped, pl_room := c_room c,
                      mapped_tail := (if ps = [] then None else Some (length ps - 1))\<rparr>))"

definition ceph_pagelist_encode_64 :: "(ceph_pagelist \<Rightarrow> page option) \<Rightarrow> ceph_pagelist \<Rightarrow> u64 \<Rightarrow> unit pl_step" where
  "ceph_pagelist_encode_64 alloc pl v = ceph_pagelist_append alloc pl (le_bytes 8 v)"

definition ceph_pagelist_encode_32 :: "(ceph_pagelist \<Rightarrow> page option) \<Rightarrow> ceph_pagelist \<Rightarrow> u32 \<Rightarrow> unit pl_step" where
  "ceph_pagelist_encode_32 alloc pl v = ceph_pagelist_append alloc pl (le_bytes 4 v)"

definition ceph_pagelist_encode_16 :: "(ceph_pagelist \<Rightarrow> page option) \<Rightarrow> ceph_pagelist \<Rightarrow> u16 \<Rightarrow> unit pl_step" where
  "ceph_pagelist_encode_16 alloc pl v = ceph_pagelist_append alloc pl (le_bytes 2 v)"

definition ceph_pagelist_encode_8 :: "(ceph_pagelist \<Rightarrow> page option) \<Rightarrow> ceph_pagelist \<Rightarrow> u8 \<Rightarrow> unit pl_step" where
  "ceph_pagelist_encode_8 alloc pl v = ceph_pagelist_append alloc pl [v]"

text \<open>The length word holds the lower 32 bits of the length.\<close>

definition ceph_pagelist_encode_string ::
  "(ceph_pagelist \<Rightarrow> page option) \<Rightarrow> ceph_pagelist \<Rightarrow> u8 list \<Rightarrow> unit pl_step" where
  "ceph_pagelist_encode_string alloc pl s =
    (case ceph_pagelist_encode_32 alloc pl (word_of_nat (length s)) of
       (Inl e, pl) \<Rightarrow> (Inl e, pl)
     | (Inr u, pl) \<Rightarrow> if s \<noteq> [] then ceph_pagelist_append alloc pl s else (Inr (), pl))"

declare ceph_pagelist_append.simps [simp del] reserve_loop.simps [simp del]

section \<open>The list as a byte string\<close>

definition pl_bytes :: "ceph_pagelist \<Rightarrow> u8 list" where
  "pl_bytes pl = take (pl_length pl) (concat (map snd (pl_head pl)))"

definition page_ok :: "page \<Rightarrow> bool" where
  "page_ok p \<longleftrightarrow> length (snd p) = PAGE_SIZE"

definition pl_ok :: "ceph_pagelist \<Rightarrow> bool" where
  "pl_ok pl \<longleftrightarrow> list_all page_ok (pl_head pl) \<and> list_all page_ok (free_list pl) \<and>
     pl_length pl + pl_room pl = PAGE_SIZE * length (pl_head pl) \<and> pl_room pl \<le> PAGE_SIZE \<and>
     num_pages_free pl = length (free_list pl) \<and>
     mapped_tail pl = (if pl_head pl = [] then None else Some (length (pl_head pl) - 1))"

definition allocs_pages :: "(ceph_pagelist \<Rightarrow> page option) \<Rightarrow> bool" where
  "allocs_pages alloc \<longleftrightarrow> (\<forall>pl p. alloc pl = Some p \<longrightarrow> page_ok p)"

lemma length_concat_pages: "list_all page_ok ps \<Longrightarrow> length (concat (map snd ps)) = PAGE_SIZE * length ps"
  by (induction ps) (auto simp: page_ok_def)

lemma init_ok: "pl_ok (ceph_pagelist_init a)" "pl_bytes (ceph_pagelist_init a) = []"
  by (simp_all add: pl_ok_def ceph_pagelist_init_def pl_bytes_def)

text \<open>A copy that fits in the room appends its bytes.\<close>

lemma pl_copy_ok:
  assumes ok: "pl_ok pl" and fits: "length bs \<le> pl_room pl"
  shows "\<exists>pl'. pl_copy pl bs = (Inr (), pl') \<and> pl_ok pl' \<and> pl_bytes pl' = pl_bytes pl @ bs \<and>
    pl_room pl' = pl_room pl - length bs \<and> num_pages_free pl' = num_pages_free pl \<and> free_list pl' = free_list pl"
proof (cases "bs = []")
  case True
  with ok show ?thesis by (simp add: pl_copy_def Let_def pl_ok_def pl_bytes_def)
next
  case False
  then have room: "0 < pl_room pl" using fits by (cases bs) auto
  with ok obtain ps a old where ps: "pl_head pl = ps @ [(a, old)]"
    by (cases "pl_head pl" rule: rev_cases) (auto simp: pl_ok_def)
  have pages: "list_all page_ok ps" "length old = PAGE_SIZE" and len: "pl_length pl + pl_room pl = PAGE_SIZE * length ps + PAGE_SIZE"
    using ok ps by (auto simp: pl_ok_def page_ok_def)
  define off where "off = pl_length pl mod PAGE_SIZE"
  have r: "pl_room pl \<le> PAGE_SIZE" using ok by (simp add: pl_ok_def)
  have L: "pl_length pl = PAGE_SIZE * length ps + (PAGE_SIZE - pl_room pl)" using len r by simp
  then have off: "off = PAGE_SIZE - pl_room pl" using room by (simp add: off_def PAGE_SIZE_def)
  let ?new = "take off old @ bs @ drop (off + length bs) old"
  let ?pl = "pl\<lparr>pl_length := pl_length pl + length bs, pl_room := pl_room pl - length bs, pl_head := ps @ [(a, ?new)]\<rparr>"
  have m: "mapped_tail pl = Some (length ps)" using ok ps by (simp add: pl_ok_def)
  have ob: "off + length bs \<le> PAGE_SIZE" using off fits r by simp
  have run: "pl_copy pl bs = (Inr (), ?pl)"
    using False m ob unfolding pl_copy_def by (simp add: Let_def ps off_def[symmetric])
  have "length ?new = PAGE_SIZE" using pages(2) ob by simp
  then have ok': "pl_ok ?pl" using ok ps len fits r by (auto simp: pl_ok_def page_ok_def)
  have c: "length (concat (map snd ps)) = PAGE_SIZE * length ps" by (rule length_concat_pages[OF pages(1)])
  have "pl_bytes ?pl = concat (map snd ps) @ take off old @ bs"
    using L off pages(2) ob by (simp add: pl_bytes_def c)
  moreover have "pl_bytes pl = concat (map snd ps) @ take off old"
    using L off by (simp add: pl_bytes_def c ps)
  ultimately show ?thesis using run ok' by simp
qed

lemma addpage_ok:
  assumes ok: "pl_ok pl" and room: "pl_room pl = 0" and al: "allocs_pages alloc"
  shows "case ceph_pagelist_addpage alloc pl of
      (Inr u, pl') \<Rightarrow> pl_ok pl' \<and> pl_bytes pl' = pl_bytes pl \<and> pl_room pl' = PAGE_SIZE \<and>
        num_pages_free pl' = num_pages_free pl - 1
    | (Inl e, pl') \<Rightarrow> e = Err ENOMEM \<and> num_pages_free pl = 0 \<and> pl' = pl"
proof -
  have len: "pl_length pl = PAGE_SIZE * length (pl_head pl)" using ok room by (simp add: pl_ok_def)
  have c: "length (concat (map snd (pl_head pl))) = PAGE_SIZE * length (pl_head pl)"
    using ok by (intro length_concat_pages) (simp add: pl_ok_def)
  show ?thesis
    using ok room al len c
    by (cases "free_list pl")
      (auto simp: ceph_pagelist_addpage_def ceph_pagelist_unmap_tail_def Let_def pl_ok_def pl_bytes_def
        allocs_pages_def split: option.splits)
qed

lemma pl_bytes_length: "pl_ok pl \<Longrightarrow> length (pl_bytes pl) = pl_length pl"
  using length_concat_pages[of "pl_head pl"] by (simp add: pl_bytes_def pl_ok_def)

text \<open>What an append does: all bytes are stored, or memory ran out behind a prefix of them.\<close>

definition append_post :: "ceph_pagelist \<Rightarrow> u8 list \<Rightarrow> unit pl_step \<Rightarrow> bool" where
  "append_post pl buf r =
    (case r of
       (Inr u, pl') \<Rightarrow> pl_ok pl' \<and> pl_bytes pl' = pl_bytes pl @ buf
     | (Inl e, pl') \<Rightarrow> e = Err ENOMEM \<and> pl_room pl + PAGE_SIZE * num_pages_free pl < length buf \<and> pl_ok pl' \<and>
         (\<exists>n < length buf. pl_bytes pl' = pl_bytes pl @ take n buf))"

lemma append_post_step:
  assumes "append_post pl2 (drop k buf) r" and "k = pl_room pl" and "k < length buf"
    and "pl_bytes pl2 = pl_bytes pl @ take k buf" and "pl_room pl2 = PAGE_SIZE"
    and "num_pages_free pl2 = num_pages_free pl - 1"
  shows "append_post pl buf r"
proof -
  obtain res pl' where r: "r = (res, pl')" by force
  show ?thesis
  proof (cases res)
    case (Inr u)
    with assms(1,4) r show ?thesis by (simp add: append_post_def)
  next
    case (Inl e)
    with assms(1) r obtain n where n: "n < length (drop k buf)" "pl_bytes pl' = pl_bytes pl2 @ take n (drop k buf)"
      and e: "e = Err ENOMEM" "pl_ok pl'" "pl_room pl2 + PAGE_SIZE * num_pages_free pl2 < length (drop k buf)"
      by (auto simp: append_post_def)
    have "pl_bytes pl' = pl_bytes pl @ take (k + n) buf" "k + n < length buf"
      using n assms(4) by (simp_all add: take_add)
    moreover have "PAGE_SIZE * num_pages_free pl \<le> pl_room pl2 + PAGE_SIZE * num_pages_free pl2"
      unfolding assms(5,6) by (cases "num_pages_free pl") simp_all
    then have "pl_room pl + PAGE_SIZE * num_pages_free pl < length buf" using e(3) assms(2) by simp
    ultimately show ?thesis using r Inl e(1,2) by (auto simp: append_post_def)
  qed
qed

lemma append_spec:
  assumes "pl_ok pl" and "allocs_pages alloc"
  shows "append_post pl buf (ceph_pagelist_append alloc pl buf)"
  using assms
proof (induction alloc pl buf rule: ceph_pagelist_append.induct)
  case (1 alloc pl buf)
  show ?case
  proof (cases "pl_room pl < length buf")
    case False
    with pl_copy_ok[OF 1(2), of buf] show ?thesis by (auto simp: ceph_pagelist_append.simps append_post_def)
  next
    case True
    let ?bit = "take (pl_room pl) buf"
    obtain pl1 where c: "pl_copy pl ?bit = (Inr (), pl1)" "pl_ok pl1" "pl_bytes pl1 = pl_bytes pl @ ?bit"
      "pl_room pl1 = 0" "num_pages_free pl1 = num_pages_free pl"
      using pl_copy_ok[OF 1(2), of ?bit] True by auto
    note ap = addpage_ok[OF c(2,4) 1(3)]
    obtain r pl2 where r: "ceph_pagelist_addpage alloc pl1 = (r, pl2)" by force
    show ?thesis
    proof (cases r)
      case (Inl e)
      with r ap have "e = Err ENOMEM" "num_pages_free pl1 = 0" "pl2 = pl1" by simp_all
      with r Inl True c show ?thesis by (auto simp: ceph_pagelist_append.simps append_post_def)
    next
      case (Inr u)
      with r ap c have p2: "pl_ok pl2" "pl_bytes pl2 = pl_bytes pl @ ?bit" "pl_room pl2 = PAGE_SIZE"
        "num_pages_free pl2 = num_pages_free pl - 1" by simp_all
      have "ceph_pagelist_append alloc pl buf = ceph_pagelist_append alloc pl2 (drop (pl_room pl) buf)"
        using True c(1) r Inr by (subst ceph_pagelist_append.simps) simp
      with append_post_step[OF 1(1)[OF True c(1)[symmetric] refl r[symmetric] Inr p2(1) 1(3)] refl True p2(2-4)]
      show ?thesis by simp
    qed
  qed
qed

lemma reserve_loop_spec:
  assumes "pl_ok pl" and "allocs_pages alloc" and "reserve_loop alloc pl n = (Inr (), pl')"
  shows "pl_ok pl' \<and> pl_bytes pl' = pl_bytes pl \<and> pl_room pl' = pl_room pl \<and> n \<le> num_pages_free pl'"
  using assms
proof (induction alloc pl n rule: reserve_loop.induct)
  case (1 alloc pl n)
  show ?case
  proof (cases "num_pages_free pl < n")
    case False
    with 1(2-4) show ?thesis by (simp add: reserve_loop.simps[of alloc pl n])
  next
    case True
    with 1(4) obtain p where p: "alloc pl = Some p"
      by (auto simp: reserve_loop.simps[of alloc pl n] split: option.splits)
    let ?pl = "pl\<lparr>free_list := free_list pl @ [p], num_pages_free := num_pages_free pl + 1\<rparr>"
    have "page_ok p" using 1(3) p unfolding allocs_pages_def by blast
    then have "pl_ok ?pl" using 1(2) by (auto simp: pl_ok_def)
    moreover have "reserve_loop alloc ?pl n = (Inr (), pl')" using 1(4) True p by (simp add: reserve_loop.simps[of alloc pl n])
    moreover have "pl_bytes ?pl = pl_bytes pl" by (simp add: pl_bytes_def)
    ultimately show ?thesis using 1(1)[OF True p _ 1(3)] by simp
  qed
qed

section \<open>Properties\<close>

text \<open>
  C37: a page list is a byte string: \<open>ceph_pagelist_append\<close> on a consistent list stores all bytes
  behind the bytes it holds, across page boundaries, or fails with \<open>ENOMEM\<close>, and then leaves a
  consistent list with a proper prefix of them appended. The allocator is only assumed to give
  whole pages.
\<close>

theorem pagelist_append_refines:
  assumes "pl_ok pl" and "allocs_pages alloc"
  shows "case ceph_pagelist_append alloc pl buf of
      (Inr u, pl') \<Rightarrow> pl_ok pl' \<and> pl_bytes pl' = pl_bytes pl @ buf
    | (Inl e, pl') \<Rightarrow> e = Err ENOMEM \<and> pl_ok pl' \<and> (\<exists>n < length buf. pl_bytes pl' = pl_bytes pl @ take n buf)"
  using append_spec[OF assms, of buf] by (auto simp: append_post_def split: prod.splits sum.splits)

definition example_alloc :: "ceph_pagelist \<Rightarrow> page option" where
  "example_alloc pl = (if length (pl_head pl) < 2 then Some (length (pl_head pl), replicate PAGE_SIZE 0) else None)"

lemma example_allocs: "allocs_pages example_alloc"
  by (auto simp: allocs_pages_def example_alloc_def page_ok_def)

theorem pagelist_append_refines_witness:
  "case ceph_pagelist_append example_alloc (ceph_pagelist_init 0) (replicate 5000 7) of
      (Inr u, pl') \<Rightarrow> pl_bytes pl' = replicate 5000 7
    | (Inl e, pl') \<Rightarrow> e = Err ENOMEM \<and> (\<exists>n < 5000. pl_bytes pl' = replicate n 7)"
  using pagelist_append_refines[OF init_ok(1)[of 0] example_allocs, where buf = "replicate 5000 7"]
  by (auto simp: init_ok take_replicate split: prod.splits sum.splits)

text \<open>
  After a successful \<open>ceph_pagelist_reserve\<close> of \<open>space\<close> bytes, appending up to \<open>space\<close> bytes
  succeeds whatever the allocator does then: it is not needed.
\<close>

theorem pagelist_reserve_suffices:
  assumes "pl_ok pl" and "allocs_pages alloc" and "ceph_pagelist_reserve alloc pl space = (Inr (), pl')"
    and "length buf \<le> space"
  shows "\<exists>pl''. ceph_pagelist_append (\<lambda>_. None) pl' buf = (Inr (), pl'') \<and> pl_bytes pl'' = pl_bytes pl @ buf"
proof -
  have r: "pl_ok pl' \<and> pl_bytes pl' = pl_bytes pl \<and> space \<le> pl_room pl' + PAGE_SIZE * num_pages_free pl'"
  proof (cases "space \<le> pl_room pl")
    case True
    with assms(1,3) show ?thesis by (simp add: ceph_pagelist_reserve_def trans_le_add1)
  next
    case False
    let ?n = "(space - pl_room pl + PAGE_SIZE - 1) div PAGE_SIZE"
    from False assms(3) have "reserve_loop alloc pl ?n = (Inr (), pl')" by (simp add: ceph_pagelist_reserve_def)
    from reserve_loop_spec[OF assms(1,2) this]
    have p: "pl_ok pl'" "pl_bytes pl' = pl_bytes pl" "pl_room pl' = pl_room pl" "?n \<le> num_pages_free pl'" by simp_all
    have "space - pl_room pl \<le> PAGE_SIZE * ?n" by (simp add: PAGE_SIZE_def)
    also have "\<dots> \<le> PAGE_SIZE * num_pages_free pl'" using p(4) by simp
    finally show ?thesis using p False by simp
  qed
  have "append_post pl' buf (ceph_pagelist_append (\<lambda>_. None) pl' buf)"
    by (rule append_spec) (use r in \<open>simp_all add: allocs_pages_def\<close>)
  with r assms(4) show ?thesis by (auto simp: append_post_def split: prod.splits sum.splits)
qed

theorem pagelist_reserve_suffices_witness:
  "\<exists>pl' pl''. ceph_pagelist_reserve example_alloc (ceph_pagelist_init 0) 5000 = (Inr (), pl') \<and>
     ceph_pagelist_append (\<lambda>_. None) pl' [1, 2, 3] = (Inr (), pl'') \<and> pl_bytes pl'' = [1, 2, 3]"
proof -
  have "\<exists>pl'. ceph_pagelist_reserve example_alloc (ceph_pagelist_init 0) 5000 = (Inr (), pl')"
    by (simp add: ceph_pagelist_reserve_def ceph_pagelist_init_def PAGE_SIZE_def reserve_loop.simps example_alloc_def)
  then obtain pl' where r: "ceph_pagelist_reserve example_alloc (ceph_pagelist_init 0) 5000 = (Inr (), pl')" ..
  from pagelist_reserve_suffices[OF init_ok(1) example_allocs r, where buf = "[1, 2, 3]"] r show ?thesis
    by (auto simp: init_ok)
qed

text \<open>
  \<open>ceph_pagelist_truncate\<close> does not go back to the cursor: it restores the room the list had
  when the cursor was set, but keeps the length with the bytes appended since, so the offset of
  the next copy is off by the bytes that were to be dropped.
\<close>

theorem pagelist_truncate_keeps_length:
  assumes "pl_ok pl" and "allocs_pages alloc"
    and "ceph_pagelist_append alloc pl buf = (Inr (), pl1)"
    and "ceph_pagelist_truncate pl1 (ceph_pagelist_set_cursor pl) = (Inr (), pl2)"
  shows "pl_room pl2 = pl_room pl \<and> pl_length pl2 = pl_length pl + length buf"
proof -
  have "pl_ok pl1" "pl_bytes pl1 = pl_bytes pl @ buf"
    using append_spec[OF assms(1,2), of buf] assms(3) by (simp_all add: append_post_def)
  then have "pl_length pl1 = pl_length pl + length buf"
    using pl_bytes_length[OF assms(1)] pl_bytes_length[of pl1] by simp
  with assms(4) show ?thesis
    by (auto simp: ceph_pagelist_truncate_def ceph_pagelist_set_cursor_def ceph_pagelist_unmap_tail_def Let_def
        split: if_splits sum.splits)
qed

theorem pagelist_truncate_keeps_length_witness:
  "\<exists>pl1 pl2. ceph_pagelist_append example_alloc (ceph_pagelist_init 0) [1, 2, 3] = (Inr (), pl1) \<and>
     ceph_pagelist_truncate pl1 (ceph_pagelist_set_cursor (ceph_pagelist_init 0)) = (Inr (), pl2) \<and>
     pl_room pl2 = 0 \<and> pl_length pl2 = 3"
proof -
  let ?pl = "ceph_pagelist_init 0"
  have "\<exists>pl1 pl2. ceph_pagelist_append example_alloc ?pl [1, 2, 3] = (Inr (), pl1) \<and>
      ceph_pagelist_truncate pl1 (ceph_pagelist_set_cursor ?pl) = (Inr (), pl2)"
    by (simp add: ceph_pagelist_append.simps pl_copy_def ceph_pagelist_addpage_def example_alloc_def PAGE_SIZE_def
        ceph_pagelist_init_def ceph_pagelist_unmap_tail_def ceph_pagelist_truncate_def ceph_pagelist_set_cursor_def Let_def)
  then obtain pl1 pl2 where r: "ceph_pagelist_append example_alloc ?pl [1, 2, 3] = (Inr (), pl1)"
    "ceph_pagelist_truncate pl1 (ceph_pagelist_set_cursor ?pl) = (Inr (), pl2)" by blast
  from pagelist_truncate_keeps_length[OF init_ok(1) example_allocs this] r show ?thesis
    by (simp add: ceph_pagelist_init_def)
qed

end
