(* ===== verification/Msg_Data.thy ===== *)
theory Msg_Data
  imports Pagelist
begin

text \<open>
  The data payload of a message (\<open>net/ceph/messenger.c\<close>, \<open>include/linux/ceph/messenger.h\<close>): a
  list of data items, each a page array, a page list or a chain of block I/O requests, and the
  cursor that walks it in pieces, each within one page. A pointer into a list (the current data
  item, the current page of a page list, the current request of a chain) is the rest of the list
  from there on; the empty list is the null pointer. \<open>BUG_ON\<close> is the fault \<open>BugOn\<close>.
\<close>

section \<open>Data items\<close>

record bio_vec =
  bv_page :: "u8 list"
  bv_len :: nat
  bv_offset :: nat

type_synonym bio = "bio_vec list"

text \<open>A page array has its pages, the number of bytes and the alignment of the first byte.\<close>

datatype ceph_msg_data =
    Data_none
  | Data_pages "u8 list list" nat nat
  | Data_pagelist ceph_pagelist
  | Data_bio "bio list" nat

record ceph_msg_data_cursor =
  total_resid :: nat
  cur_data :: "ceph_msg_data list"
  resid :: nat
  last_piece :: bool
  need_crc :: bool
  cur_bio :: "bio list"
  vector_index :: nat
  vector_offset :: nat
  page_offset :: nat
  page_index :: nat
  page_count :: nat
  cur_page :: "page list"
  cur_offset :: nat

definition calc_pages_for :: "nat \<Rightarrow> nat \<Rightarrow> nat" where
  "calc_pages_for off len = (off + len + PAGE_SIZE - 1) div PAGE_SIZE - off div PAGE_SIZE"

section \<open>Block I/O chains\<close>

definition ceph_msg_data_bio_cursor_init ::
  "bio list \<Rightarrow> nat \<Rightarrow> ceph_msg_data_cursor \<Rightarrow> nat \<Rightarrow> ceph_msg_data_cursor res" where
  "ceph_msg_data_bio_cursor_init bios bio_length cursor want =
    (case bios of
       [] \<Rightarrow> Inl (Fault BugOn)
     | [] # _ \<Rightarrow> Inl (Fault BugOn)
     | (bv # _) # _ \<Rightarrow>
         Inr (cursor\<lparr>resid := min want bio_length, cur_bio := bios, vector_index := 0, vector_offset := 0,
                     last_piece := want \<le> bv_len bv\<rparr>))"

definition bio_segment :: "ceph_msg_data_cursor \<Rightarrow> bio_vec res" where
  "bio_segment cursor =
    (case cur_bio cursor of
       [] \<Rightarrow> Inl (Fault BugOn)
     | bio # _ \<Rightarrow> if length bio \<le> vector_index cursor then Inl (Fault BugOn) else Inr (bio ! vector_index cursor))"

definition ceph_msg_data_bio_next :: "ceph_msg_data_cursor \<Rightarrow> (u8 list \<times> nat \<times> nat) res" where
  "ceph_msg_data_bio_next cursor =
    bindE (bio_segment cursor) (\<lambda>bv.
    bindE (guardE (vector_offset cursor < bv_len bv) (Fault BugOn)) (\<lambda>_.
    let off = bv_offset bv + vector_offset cursor in
    bindE (guardE (off < PAGE_SIZE) (Fault BugOn)) (\<lambda>_.
    let len = (if last_piece cursor then resid cursor else bv_len bv - vector_offset cursor) in
    bindE (guardE (len \<le> resid cursor) (Fault BugOn)) (\<lambda>_.
    bindE (guardE (off + len \<le> PAGE_SIZE) (Fault BugOn)) (\<lambda>_.
    Inr (bv_page bv, off, len))))))"

text \<open>The next segment, possibly the first one of the next request in the chain.\<close>

definition bio_move_on :: "ceph_msg_data_cursor \<Rightarrow> ceph_msg_data_cursor" where
  "bio_move_on cursor =
    (let bios = cur_bio cursor; index = vector_index cursor + 1 in
     if index = length (hd bios)
     then cursor\<lparr>cur_bio := tl bios, vector_index := 0, vector_offset := 0\<rparr>
     else cursor\<lparr>vector_index := index, vector_offset := 0\<rparr>)"

definition ceph_msg_data_bio_advance :: "ceph_msg_data_cursor \<Rightarrow> nat \<Rightarrow> (bool \<times> ceph_msg_data_cursor) res" where
  "ceph_msg_data_bio_advance cursor bytes =
    bindE (bio_segment cursor) (\<lambda>bv.
    bindE (guardE (bytes \<le> resid cursor) (Fault BugOn)) (\<lambda>_.
    let cursor = cursor\<lparr>resid := resid cursor - bytes, vector_offset := vector_offset cursor + bytes\<rparr> in
    if vector_offset cursor < bv_len bv then Inr (False, cursor)
    else
      bindE (guardE (vector_offset cursor = bv_len bv) (Fault BugOn)) (\<lambda>_.
      let cursor = bio_move_on cursor in
      if last_piece cursor then Inr (True, cursor)
      else
        bindE (guardE (resid cursor \<noteq> 0) (Fault BugOn)) (\<lambda>_.
        bindE (guardE (cur_bio cursor \<noteq> []) (Fault BugOn)) (\<lambda>_.
        bindE (rd (hd (cur_bio cursor)) (vector_index cursor)) (\<lambda>bv.
        Inr (True, cursor\<lparr>last_piece := last_piece cursor \<or> resid cursor \<le> bv_len bv\<rparr>)))))))"

section \<open>Page arrays\<close>

definition ceph_msg_data_pages_cursor_init ::
  "u8 list list \<Rightarrow> nat \<Rightarrow> nat \<Rightarrow> ceph_msg_data_cursor \<Rightarrow> nat \<Rightarrow> ceph_msg_data_cursor res" where
  "ceph_msg_data_pages_cursor_init pages len alignment cursor want =
    bindE (guardE (pages \<noteq> []) (Fault BugOn)) (\<lambda>_.
    bindE (guardE (len \<noteq> 0) (Fault BugOn)) (\<lambda>_.
    let count = calc_pages_for alignment len; off = alignment mod PAGE_SIZE in
    bindE (guardE (count \<le> 65535) (Fault BugOn)) (\<lambda>_.
    bindE (guardE (want + off < 2 ^ 64) (Fault BugOn)) (\<lambda>_.
    Inr (cursor\<lparr>resid := min want len, page_offset := off, page_index := 0, page_count := count,
                last_piece := off + min want len \<le> PAGE_SIZE\<rparr>)))))"

definition ceph_msg_data_pages_next :: "u8 list list \<Rightarrow> ceph_msg_data_cursor \<Rightarrow> (u8 list \<times> nat \<times> nat) res" where
  "ceph_msg_data_pages_next pages cursor =
    bindE (guardE (page_index cursor < page_count cursor) (Fault BugOn)) (\<lambda>_.
    bindE (guardE (page_offset cursor < PAGE_SIZE) (Fault BugOn)) (\<lambda>_.
    bindE (rd pages (page_index cursor)) (\<lambda>page.
    Inr (page, page_offset cursor,
         if last_piece cursor then resid cursor else PAGE_SIZE - page_offset cursor))))"

definition ceph_msg_data_pages_advance :: "ceph_msg_data_cursor \<Rightarrow> nat \<Rightarrow> (bool \<times> ceph_msg_data_cursor) res" where
  "ceph_msg_data_pages_advance cursor bytes =
    bindE (guardE (page_offset cursor + bytes \<le> PAGE_SIZE) (Fault BugOn)) (\<lambda>_.
    let cursor = cursor\<lparr>resid := resid cursor - bytes,
                        page_offset := (page_offset cursor + bytes) mod PAGE_SIZE\<rparr> in
    if bytes = 0 \<or> page_offset cursor \<noteq> 0 then Inr (False, cursor)
    else if resid cursor = 0 then Inr (False, cursor)
    else
      bindE (guardE (page_index cursor < page_count cursor) (Fault BugOn)) (\<lambda>_.
      Inr (True, cursor\<lparr>page_index := page_index cursor + 1, last_piece := resid cursor \<le> PAGE_SIZE\<rparr>)))"

section \<open>Page lists\<close>

definition ceph_msg_data_pagelist_cursor_init ::
  "ceph_pagelist \<Rightarrow> ceph_msg_data_cursor \<Rightarrow> nat \<Rightarrow> ceph_msg_data_cursor res" where
  "ceph_msg_data_pagelist_cursor_init pl cursor want =
    (if want = 0 then Inr cursor
     else
       bindE (guardE (pl_head pl \<noteq> []) (Fault BugOn)) (\<lambda>_.
       let r = min want (pl_length pl) in
       Inr (cursor\<lparr>resid := r, cur_page := pl_head pl, cur_offset := 0, last_piece := r \<le> PAGE_SIZE\<rparr>)))"

definition ceph_msg_data_pagelist_next ::
  "ceph_pagelist \<Rightarrow> ceph_msg_data_cursor \<Rightarrow> (u8 list \<times> nat \<times> nat) res" where
  "ceph_msg_data_pagelist_next pl cursor =
    bindE (guardE (cur_page cursor \<noteq> []) (Fault BugOn)) (\<lambda>_.
    bindE (guardE (cur_offset cursor + resid cursor = pl_length pl) (Fault BugOn)) (\<lambda>_.
    let off = cur_offset cursor mod PAGE_SIZE in
    Inr (snd (hd (cur_page cursor)), off, if last_piece cursor then resid cursor else PAGE_SIZE - off)))"

definition ceph_msg_data_pagelist_advance ::
  "ceph_pagelist \<Rightarrow> ceph_msg_data_cursor \<Rightarrow> nat \<Rightarrow> (bool \<times> ceph_msg_data_cursor) res" where
  "ceph_msg_data_pagelist_advance pl cursor bytes =
    bindE (guardE (cur_offset cursor + resid cursor = pl_length pl) (Fault BugOn)) (\<lambda>_.
    bindE (guardE (cur_offset cursor mod PAGE_SIZE + bytes \<le> PAGE_SIZE) (Fault BugOn)) (\<lambda>_.
    let cursor = cursor\<lparr>resid := resid cursor - bytes, cur_offset := cur_offset cursor + bytes\<rparr> in
    if bytes = 0 \<or> cur_offset cursor mod PAGE_SIZE \<noteq> 0 then Inr (False, cursor)
    else if resid cursor = 0 then Inr (False, cursor)
    else
      bindE (guardE (1 < length (cur_page cursor)) (Fault BugOn)) (\<lambda>_.
      Inr (True, cursor\<lparr>cur_page := tl (cur_page cursor), last_piece := resid cursor \<le> PAGE_SIZE\<rparr>))))"

section \<open>The cursor of a message\<close>

text \<open>\<open>__ceph_msg_data_cursor_init\<close>\<close>

definition data_cursor_init :: "ceph_msg_data_cursor \<Rightarrow> ceph_msg_data_cursor res" where
  "data_cursor_init cursor =
    bindE (case cur_data cursor of
             [] \<Rightarrow> Inl (Fault NullDeref)
           | Data_pagelist pl # _ \<Rightarrow> ceph_msg_data_pagelist_cursor_init pl cursor (total_resid cursor)
           | Data_pages ps len al # _ \<Rightarrow> ceph_msg_data_pages_cursor_init ps len al cursor (total_resid cursor)
           | Data_bio bs n # _ \<Rightarrow> ceph_msg_data_bio_cursor_init bs n cursor (total_resid cursor)
           | Data_none # _ \<Rightarrow> Inr cursor) (\<lambda>cursor.
    Inr (cursor\<lparr>need_crc := True\<rparr>))"

text \<open>The message has \<open>data_length\<close> bytes in the items \<open>items\<close>; \<open>cursor\<close> is its old cursor.\<close>

definition ceph_msg_data_cursor_init ::
  "ceph_msg_data list \<Rightarrow> nat \<Rightarrow> ceph_msg_data_cursor \<Rightarrow> nat \<Rightarrow> ceph_msg_data_cursor res" where
  "ceph_msg_data_cursor_init items data_length cursor want =
    bindE (guardE (want \<noteq> 0) (Fault BugOn)) (\<lambda>_.
    bindE (guardE (want \<le> data_length) (Fault BugOn)) (\<lambda>_.
    bindE (guardE (items \<noteq> []) (Fault BugOn)) (\<lambda>_.
    data_cursor_init (cursor\<lparr>total_resid := want, cur_data := items\<rparr>))))"

definition ceph_msg_data_next :: "ceph_msg_data_cursor \<Rightarrow> (u8 list \<times> nat \<times> nat) res" where
  "ceph_msg_data_next cursor =
    bindE (case cur_data cursor of
             [] \<Rightarrow> Inl (Fault NullDeref)
           | Data_pagelist pl # _ \<Rightarrow> ceph_msg_data_pagelist_next pl cursor
           | Data_pages ps len al # _ \<Rightarrow> ceph_msg_data_pages_next ps cursor
           | Data_bio bs n # _ \<Rightarrow> ceph_msg_data_bio_next cursor
           | Data_none # _ \<Rightarrow> Inl (Fault BugOn)) (\<lambda>(page, off, len).
    bindE (guardE (off + len \<le> PAGE_SIZE) (Fault BugOn)) (\<lambda>_.
    bindE (guardE (len \<noteq> 0) (Fault BugOn)) (\<lambda>_.
    Inr (page, off, len))))"

definition ceph_msg_data_advance :: "ceph_msg_data_cursor \<Rightarrow> nat \<Rightarrow> (bool \<times> ceph_msg_data_cursor) res" where
  "ceph_msg_data_advance cursor bytes =
    bindE (guardE (bytes \<le> resid cursor) (Fault BugOn)) (\<lambda>_.
    bindE (case cur_data cursor of
             [] \<Rightarrow> Inl (Fault NullDeref)
           | Data_pagelist pl # _ \<Rightarrow> ceph_msg_data_pagelist_advance pl cursor bytes
           | Data_pages ps len al # _ \<Rightarrow> ceph_msg_data_pages_advance cursor bytes
           | Data_bio bs n # _ \<Rightarrow> ceph_msg_data_bio_advance cursor bytes
           | Data_none # _ \<Rightarrow> Inl (Fault BugOn)) (\<lambda>(new_piece, cursor).
    let cursor = cursor\<lparr>total_resid := total_resid cursor - bytes\<rparr> in
    if resid cursor = 0 \<and> total_resid cursor \<noteq> 0 then
      bindE (guardE (1 < length (cur_data cursor)) (Fault BugOn)) (\<lambda>_.
      bindE (data_cursor_init (cursor\<lparr>cur_data := tl (cur_data cursor)\<rparr>)) (\<lambda>cursor.
      Inr (True, cursor\<lparr>need_crc := True\<rparr>)))
    else Inr (new_piece, cursor\<lparr>need_crc := new_piece\<rparr>)))"

section \<open>The contract of a source of pieces\<close>

text \<open>
  A client fetches a piece, the network takes some of its bytes, and the client advances by that
  number. \<open>drain\<close> is this loop: \<open>ks\<close> says how many bytes beyond the first one the network takes
  each time.
\<close>

fun drain :: "('c \<Rightarrow> bool) \<Rightarrow> ('c \<Rightarrow> (u8 list \<times> nat \<times> nat) res) \<Rightarrow> ('c \<Rightarrow> nat \<Rightarrow> (bool \<times> 'c) res) \<Rightarrow>
    nat list \<Rightarrow> 'c \<Rightarrow> (u8 list \<times> 'c) res" where
  "drain busy nxt adv [] c = Inr ([], c)"
| "drain busy nxt adv (k # ks) c =
    (if busy c then
       bindE (nxt c) (\<lambda>(page, off, len).
       let n = min (Suc k) len in
       bindE (adv c n) (\<lambda>(b, c').
       bindE (drain busy nxt adv ks c') (\<lambda>(out, c'').
       Inr (take n (drop off page) @ out, c''))))
     else Inr ([], c))"

text \<open>
  \<open>rest c\<close> are the bytes not yet consumed. A piece is a non-empty prefix of them inside one page,
  and advancing by part of a piece drops that part.
\<close>

locale piece_source =
  fixes ok :: "'c \<Rightarrow> bool"
    and rest :: "'c \<Rightarrow> u8 list"
    and busy :: "'c \<Rightarrow> bool"
    and nxt :: "'c \<Rightarrow> (u8 list \<times> nat \<times> nat) res"
    and adv :: "'c \<Rightarrow> nat \<Rightarrow> (bool \<times> 'c) res"
  assumes busy_iff: "ok c \<Longrightarrow> busy c \<longleftrightarrow> rest c \<noteq> []"
    and nxt_piece: "ok c \<Longrightarrow> rest c \<noteq> [] \<Longrightarrow>
      \<exists>page off len. nxt c = Inr (page, off, len) \<and> 0 < len \<and> len \<le> length (rest c) \<and>
        off + len \<le> PAGE_SIZE \<and> take len (drop off page) = take len (rest c)"
    and adv_drop: "ok c \<Longrightarrow> rest c \<noteq> [] \<Longrightarrow> nxt c = Inr (page, off, len) \<Longrightarrow> 0 < n \<Longrightarrow> n \<le> len \<Longrightarrow>
      \<exists>b c'. adv c n = Inr (b, c') \<and> ok c' \<and> rest c' = drop n (rest c)"
begin

lemma drain_spec:
  "ok c \<Longrightarrow> \<exists>out c'. drain busy nxt adv ks c = Inr (out, c') \<and> ok c' \<and> rest c = out @ rest c' \<and>
     (rest c' = [] \<or> length ks \<le> length out)"
proof (induction ks arbitrary: c)
  case (Cons k ks)
  show ?case
  proof (cases "busy c")
    case True
    with Cons.prems have ne: "rest c \<noteq> []" by (simp add: busy_iff)
    obtain page off len where p: "nxt c = Inr (page, off, len)" "0 < len" "len \<le> length (rest c)"
      "take len (drop off page) = take len (rest c)" using nxt_piece[OF Cons.prems ne] by blast
    let ?n = "min (Suc k) len"
    obtain b c1 where a: "adv c ?n = Inr (b, c1)" "ok c1" "rest c1 = drop ?n (rest c)"
      using adv_drop[OF Cons.prems ne p(1), of ?n] p(2) by auto
    obtain out c2 where d: "drain busy nxt adv ks c1 = Inr (out, c2)" "ok c2" "rest c1 = out @ rest c2"
      "rest c2 = [] \<or> length ks \<le> length out" using Cons.IH[OF a(2)] by blast
    have "take ?n (drop off page) = take ?n (take len (drop off page))" by simp
    also have "\<dots> = take ?n (rest c)" unfolding p(4) by simp
    finally have t: "take ?n (drop off page) = take ?n (rest c)" .
    then have "rest c = take ?n (drop off page) @ out @ rest c2"
      using d(3) a(3) by (metis append_take_drop_id append.assoc)
    moreover have "length (take ?n (drop off page)) = ?n" using t p(3) by simp
    ultimately show ?thesis using True p(1,2) a(1) d by (auto simp: Let_def)
  next
    case False
    with Cons.prems show ?thesis by (auto simp: busy_iff)
  qed
qed simp

lemma drain_all:
  assumes "ok c" and "length (rest c) \<le> length ks"
  shows "\<exists>c'. drain busy nxt adv ks c = Inr (rest c, c') \<and> ok c' \<and> rest c' = []"
proof -
  obtain out c' where d: "drain busy nxt adv ks c = Inr (out, c')" "ok c'" "rest c = out @ rest c'"
    "rest c' = [] \<or> length ks \<le> length out" using drain_spec[OF assms(1)] by blast
  then have "length (rest c) = length out + length (rest c')" by simp
  with d(4) assms(2) have "rest c' = []" by (cases "rest c'") auto
  with d show ?thesis by simp
qed

end

section \<open>Page arrays as a source\<close>

lemma drop_concat_pages: "list_all (\<lambda>p. length p = PAGE_SIZE) ps \<Longrightarrow> drop (PAGE_SIZE * i) (concat ps) = concat (drop i ps)"
proof (induction ps arbitrary: i)
  case (Cons p ps)
  then show ?case by (cases i) simp_all
qed simp

lemma page_prefix:
  assumes "list_all (\<lambda>p. length p = PAGE_SIZE) ps" and "i < length ps" and "off + len \<le> PAGE_SIZE"
  shows "take len (drop (PAGE_SIZE * i + off) (concat ps)) = take len (drop off (ps ! i))"
proof -
  have "drop (PAGE_SIZE * i + off) (concat ps) = drop off (concat (drop i ps))"
    using drop_concat_pages[OF assms(1), of i] by (metis add.commute drop_drop)
  moreover have "drop i ps = ps ! i # drop (Suc i) ps" using assms(2) by (simp add: Cons_nth_drop_Suc)
  moreover have "length (ps ! i) = PAGE_SIZE" using assms(1,2) by (simp add: list_all_length)
  ultimately show ?thesis using assms(3) by simp
qed

definition pages_rest :: "u8 list list \<Rightarrow> ceph_msg_data_cursor \<Rightarrow> u8 list" where
  "pages_rest ps c = take (resid c) (drop (PAGE_SIZE * page_index c + page_offset c) (concat ps))"

definition pages_ok :: "u8 list list \<Rightarrow> ceph_msg_data_cursor \<Rightarrow> bool" where
  "pages_ok ps c \<longleftrightarrow> list_all (\<lambda>p. length p = PAGE_SIZE) ps \<and> page_count c \<le> length ps \<and>
     page_offset c < PAGE_SIZE \<and>
     (resid c \<noteq> 0 \<longrightarrow> PAGE_SIZE * page_index c + page_offset c + resid c \<le> PAGE_SIZE * page_count c) \<and>
     last_piece c = (page_offset c + resid c \<le> PAGE_SIZE)"

lemma length_pages: "list_all (\<lambda>p. length p = PAGE_SIZE) ps \<Longrightarrow> length (concat ps) = PAGE_SIZE * length ps"
  by (induction ps) simp_all

lemma pages_rest_length: "pages_ok ps c \<Longrightarrow> length (pages_rest ps c) = resid c"
proof (cases "resid c = 0")
  case False
  assume ok: "pages_ok ps c"
  then have "PAGE_SIZE * page_index c + page_offset c + resid c \<le> PAGE_SIZE * length ps"
    using False by (auto simp: pages_ok_def intro: le_trans[OF _ mult_le_mono2])
  with ok show ?thesis by (simp add: pages_rest_def pages_ok_def length_pages)
qed (simp add: pages_rest_def)

lemma pages_index_less:
  assumes "pages_ok ps c" and "resid c \<noteq> 0"
  shows "page_index c < page_count c"
proof -
  have "PAGE_SIZE * page_index c + page_offset c + resid c \<le> PAGE_SIZE * page_count c" "0 < resid c"
    using assms by (simp_all add: pages_ok_def)
  then have "PAGE_SIZE * page_index c < PAGE_SIZE * page_count c" by linarith
  then show ?thesis by simp
qed

lemma pages_next_ok:
  assumes ok: "pages_ok ps c" and ne: "pages_rest ps c \<noteq> []"
  shows "\<exists>page off len. ceph_msg_data_pages_next ps c = Inr (page, off, len) \<and> 0 < len \<and>
    len \<le> length (pages_rest ps c) \<and> off + len \<le> PAGE_SIZE \<and> take len (drop off page) = take len (pages_rest ps c)"
proof -
  have r: "resid c \<noteq> 0" using ne by (auto simp: pages_rest_def)
  have i: "page_index c < page_count c" by (rule pages_index_less[OF ok r])
  let ?len = "if last_piece c then resid c else PAGE_SIZE - page_offset c"
  have l: "0 < ?len" "?len \<le> resid c" "page_offset c + ?len \<le> PAGE_SIZE" using ok r by (auto simp: pages_ok_def)
  have "take ?len (pages_rest ps c) = take ?len (drop (PAGE_SIZE * page_index c + page_offset c) (concat ps))"
    using l(2) by (simp add: pages_rest_def min_def)
  also have "\<dots> = take ?len (drop (page_offset c) (ps ! page_index c))"
    using ok i l(3) by (intro page_prefix) (auto simp: pages_ok_def)
  finally show ?thesis
    using ok i l pages_rest_length[OF ok]
    by (auto simp: ceph_msg_data_pages_next_def pages_ok_def guardE_def rd_def simp del: take_take)
qed

lemma pages_advance_ok:
  assumes ok: "pages_ok ps c" and ne: "pages_rest ps c \<noteq> []"
    and nx: "ceph_msg_data_pages_next ps c = Inr (page, off, len)" and n: "0 < n" "n \<le> len"
  shows "\<exists>b c'. ceph_msg_data_pages_advance c n = Inr (b, c') \<and> pages_ok ps c' \<and> pages_rest ps c' = drop n (pages_rest ps c)"
proof -
  have r: "resid c \<noteq> 0" using ne by (auto simp: pages_rest_def)
  have i: "page_index c < page_count c" by (rule pages_index_less[OF ok r])
  from nx have len: "len = (if last_piece c then resid c else PAGE_SIZE - page_offset c)"
    by (auto simp: ceph_msg_data_pages_next_def guardE_def bindE_Inr_iff split: if_splits)
  have l: "len \<le> resid c" "page_offset c + len \<le> PAGE_SIZE" using ok len by (auto simp: pages_ok_def)
  have off: "page_offset c < PAGE_SIZE" and b: "PAGE_SIZE * page_index c + page_offset c + resid c \<le> PAGE_SIZE * page_count c"
    using ok r by (simp_all add: pages_ok_def)
  have pos: "0 < PAGE_SIZE" by (simp add: PAGE_SIZE_def)
  have rest: "drop n (pages_rest ps c) =
      take (resid c - n) (drop (PAGE_SIZE * page_index c + page_offset c + n) (concat ps))"
    by (simp add: pages_rest_def drop_take add.commute add.left_commute)
  consider "page_offset c + n < PAGE_SIZE" | "page_offset c + n = PAGE_SIZE" "resid c = n"
    | "page_offset c + n = PAGE_SIZE" "n < resid c" using l n by linarith
  then show ?thesis
  proof cases
    case 1
    with ok n l r rest show ?thesis
      by (auto simp: ceph_msg_data_pages_advance_def guardE_def Let_def pages_ok_def pages_rest_def add.assoc)
  next
    case 2
    with ok n l r rest pos show ?thesis
      by (auto simp: ceph_msg_data_pages_advance_def guardE_def Let_def pages_ok_def pages_rest_def)
  next
    case 3
    then have "PAGE_SIZE * page_index c + page_offset c + n = PAGE_SIZE * Suc (page_index c)" by simp
    with 3 ok n l r rest pos b i show ?thesis
      by (auto simp: ceph_msg_data_pages_advance_def guardE_def Let_def pages_ok_def pages_rest_def)
  qed
qed

interpretation pages: piece_source "pages_ok ps" "pages_rest ps" "\<lambda>c. resid c \<noteq> 0"
  "ceph_msg_data_pages_next ps" ceph_msg_data_pages_advance for ps
proof unfold_locales
  fix c
  assume "pages_ok ps c"
  from pages_rest_length[OF this] show "(resid c \<noteq> 0) = (pages_rest ps c \<noteq> [])" by (metis length_0_conv)
qed (rule pages_next_ok pages_advance_ok; assumption)+

section \<open>Page lists as a source\<close>

definition plist_rest :: "ceph_pagelist \<Rightarrow> ceph_msg_data_cursor \<Rightarrow> u8 list" where
  "plist_rest pl c = take (resid c) (drop (cur_offset c) (concat (map snd (pl_head pl))))"

definition plist_ok :: "ceph_pagelist \<Rightarrow> ceph_msg_data_cursor \<Rightarrow> bool" where
  "plist_ok pl c \<longleftrightarrow> pl_ok pl \<and> cur_offset c + resid c = pl_length pl \<and>
     (resid c \<noteq> 0 \<longrightarrow> cur_page c = drop (cur_offset c div PAGE_SIZE) (pl_head pl)) \<and>
     last_piece c = (cur_offset c mod PAGE_SIZE + resid c \<le> PAGE_SIZE)"

lemma pl_ok_pages: "pl_ok pl \<Longrightarrow> list_all (\<lambda>p. length p = PAGE_SIZE) (map snd (pl_head pl))"
  by (simp add: pl_ok_def page_ok_def list_all_iff)

lemma pl_ok_covers: "pl_ok pl \<Longrightarrow> pl_length pl \<le> PAGE_SIZE * length (pl_head pl)"
  by (simp add: pl_ok_def)

lemma plist_rest_length: "plist_ok pl c \<Longrightarrow> length (plist_rest pl c) = resid c"
  using pl_ok_covers[of pl] length_pages[OF pl_ok_pages, of pl] by (auto simp: plist_rest_def plist_ok_def)

lemma plist_index_less:
  assumes "plist_ok pl c" and "resid c \<noteq> 0"
  shows "cur_offset c div PAGE_SIZE < length (pl_head pl)"
proof -
  have "cur_offset c < PAGE_SIZE * length (pl_head pl)"
    using assms pl_ok_covers[of pl] by (auto simp: plist_ok_def)
  then show ?thesis by (simp add: PAGE_SIZE_def less_mult_imp_div_less mult.commute)
qed

lemma plist_next_ok:
  assumes ok: "plist_ok pl c" and ne: "plist_rest pl c \<noteq> []"
  shows "\<exists>page off len. ceph_msg_data_pagelist_next pl c = Inr (page, off, len) \<and> 0 < len \<and>
    len \<le> length (plist_rest pl c) \<and> off + len \<le> PAGE_SIZE \<and> take len (drop off page) = take len (plist_rest pl c)"
proof -
  have r: "resid c \<noteq> 0" using ne by (auto simp: plist_rest_def)
  let ?i = "cur_offset c div PAGE_SIZE" and ?off = "cur_offset c mod PAGE_SIZE"
  have i: "?i < length (pl_head pl)" by (rule plist_index_less[OF ok r])
  have off: "?off < PAGE_SIZE" by (simp add: PAGE_SIZE_def)
  let ?len = "if last_piece c then resid c else PAGE_SIZE - ?off"
  have l: "0 < ?len" "?len \<le> resid c" "?off + ?len \<le> PAGE_SIZE" using ok r off by (auto simp: plist_ok_def)
  have cp: "cur_page c = drop ?i (pl_head pl)" using ok r by (simp add: plist_ok_def)
  then have hd: "cur_page c \<noteq> []" "snd (hd (cur_page c)) = map snd (pl_head pl) ! ?i"
    using i by (simp_all add: hd_drop_conv_nth)
  have "cur_offset c = PAGE_SIZE * ?i + ?off" by simp
  then have "take ?len (plist_rest pl c) = take ?len (drop (PAGE_SIZE * ?i + ?off) (concat (map snd (pl_head pl))))"
    using l(2) by (simp add: plist_rest_def min_def)
  also have "\<dots> = take ?len (drop ?off (map snd (pl_head pl) ! ?i))"
    using i l(3) ok by (intro page_prefix pl_ok_pages) (auto simp: plist_ok_def)
  finally have t: "take ?len (drop ?off (snd (hd (cur_page c)))) = take ?len (plist_rest pl c)" using hd by simp
  have "ceph_msg_data_pagelist_next pl c = Inr (snd (hd (cur_page c)), ?off, ?len)"
    using ok hd(1) by (simp add: ceph_msg_data_pagelist_next_def plist_ok_def guardE_def Let_def)
  then show ?thesis using l t plist_rest_length[OF ok] by auto
qed

lemma page_split: "b < PAGE_SIZE \<Longrightarrow> (PAGE_SIZE * i + b) div PAGE_SIZE = i" "b < PAGE_SIZE \<Longrightarrow> (PAGE_SIZE * i + b) mod PAGE_SIZE = b"
  by simp_all

lemma plist_advance_ok:
  assumes ok: "plist_ok pl c" and ne: "plist_rest pl c \<noteq> []"
    and nx: "ceph_msg_data_pagelist_next pl c = Inr (page, off, len)" and n: "0 < n" "n \<le> len"
  shows "\<exists>b c'. ceph_msg_data_pagelist_advance pl c n = Inr (b, c') \<and> plist_ok pl c' \<and>
    plist_rest pl c' = drop n (plist_rest pl c)"
proof -
  have r: "resid c \<noteq> 0" using ne by (auto simp: plist_rest_def)
  let ?i = "cur_offset c div PAGE_SIZE" and ?off = "cur_offset c mod PAGE_SIZE"
  have pos: "0 < PAGE_SIZE" by (simp add: PAGE_SIZE_def)
  from nx have len: "len = (if last_piece c then resid c else PAGE_SIZE - ?off)"
    by (auto simp: ceph_msg_data_pagelist_next_def guardE_def bindE_Inr_iff Let_def split: if_splits)
  have off: "?off < PAGE_SIZE" using pos by simp
  have l: "len \<le> resid c" "?off + len \<le> PAGE_SIZE" using ok len off by (auto simp: plist_ok_def)
  have eq: "cur_offset c + n = PAGE_SIZE * ?i + (?off + n)" by simp
  have rest: "drop n (plist_rest pl c) = take (resid c - n) (drop (cur_offset c + n) (concat (map snd (pl_head pl))))"
    by (simp add: plist_rest_def drop_take add.commute)
  consider "?off + n < PAGE_SIZE" | "?off + n = PAGE_SIZE" "resid c = n" | "?off + n = PAGE_SIZE" "n < resid c"
    using l n by linarith
  then show ?thesis
  proof cases
    case 1
    then have m: "(cur_offset c + n) mod PAGE_SIZE = ?off + n" "(cur_offset c + n) div PAGE_SIZE = ?i"
      unfolding eq by (rule page_split)+
    with 1 ok n l r rest show ?thesis
      by (auto simp: ceph_msg_data_pagelist_advance_def guardE_def Let_def plist_ok_def plist_rest_def)
  next
    case 2
    then have m: "(cur_offset c + n) mod PAGE_SIZE = 0" unfolding eq by simp
    with 2 ok n l r rest show ?thesis
      by (auto simp: ceph_msg_data_pagelist_advance_def guardE_def Let_def plist_ok_def plist_rest_def)
  next
    case 3
    then have m: "(cur_offset c + n) mod PAGE_SIZE = 0" "(cur_offset c + n) div PAGE_SIZE = Suc ?i"
      unfolding eq using pos by simp_all
    let ?c = "c\<lparr>resid := resid c - n, cur_offset := cur_offset c + n, cur_page := tl (cur_page c), last_piece := resid c - n \<le> PAGE_SIZE\<rparr>"
    have cp: "cur_page c = drop ?i (pl_head pl)" using ok r by (simp add: plist_ok_def)
    have ok': "plist_ok pl ?c" using ok 3 m cp by (auto simp: plist_ok_def drop_Suc tl_drop)
    have "1 < length (cur_page c)"
      using plist_index_less[OF ok'] 3 m cp by simp
    then have "ceph_msg_data_pagelist_advance pl c n = Inr (True, ?c)"
      using 3 ok n m by (simp add: ceph_msg_data_pagelist_advance_def guardE_def Let_def plist_ok_def)
    moreover have "plist_rest pl ?c = drop n (plist_rest pl c)" using rest by (simp add: plist_rest_def)
    ultimately show ?thesis using ok' by blast
  qed
qed

interpretation plist: piece_source "plist_ok pl" "plist_rest pl" "\<lambda>c. resid c \<noteq> 0"
  "ceph_msg_data_pagelist_next pl" "ceph_msg_data_pagelist_advance pl" for pl
proof unfold_locales
  fix c
  assume "plist_ok pl c"
  from plist_rest_length[OF this] show "(resid c \<noteq> 0) = (plist_rest pl c \<noteq> [])" by (metis length_0_conv)
qed (rule plist_next_ok plist_advance_ok; assumption)+

section \<open>Block I/O chains as a source\<close>

definition segment_bytes :: "bio_vec \<Rightarrow> u8 list" where
  "segment_bytes bv = take (bv_len bv) (drop (bv_offset bv) (bv_page bv))"

definition segment_ok :: "bio_vec \<Rightarrow> bool" where
  "segment_ok bv \<longleftrightarrow> 0 < bv_len bv \<and> bv_offset bv + bv_len bv \<le> PAGE_SIZE \<and> length (bv_page bv) = PAGE_SIZE"

definition chain_ok :: "bio list \<Rightarrow> bool" where
  "chain_ok bios \<longleftrightarrow> list_all (\<lambda>bio. bio \<noteq> [] \<and> list_all segment_ok bio) bios"

definition chain_bytes :: "bio list \<Rightarrow> u8 list" where
  "chain_bytes bios = concat (map segment_bytes (concat bios))"

text \<open>The segments from the cursor on, and the bytes in them behind the cursor.\<close>

definition segments_left :: "ceph_msg_data_cursor \<Rightarrow> bio_vec list" where
  "segments_left c = (case cur_bio c of [] \<Rightarrow> [] | bio # bios \<Rightarrow> drop (vector_index c) bio @ concat bios)"

definition chain_left :: "ceph_msg_data_cursor \<Rightarrow> u8 list" where
  "chain_left c = drop (vector_offset c) (concat (map segment_bytes (segments_left c)))"

definition bio_rest :: "ceph_msg_data_cursor \<Rightarrow> u8 list" where
  "bio_rest c = take (resid c) (chain_left c)"

definition bio_ok :: "ceph_msg_data_cursor \<Rightarrow> bool" where
  "bio_ok c \<longleftrightarrow> chain_ok (cur_bio c) \<and>
     (resid c \<noteq> 0 \<longrightarrow> (\<exists>bio bios. cur_bio c = bio # bios \<and> vector_index c < length bio \<and>
        vector_offset c < bv_len (bio ! vector_index c) \<and> resid c \<le> length (chain_left c) \<and>
        last_piece c = (resid c \<le> bv_len (bio ! vector_index c) - vector_offset c)))"

lemma segments_left_update [simp]:
  "segments_left (c\<lparr>resid := r\<rparr>) = segments_left c" "segments_left (c\<lparr>vector_offset := k\<rparr>) = segments_left c"
  "segments_left (c\<lparr>last_piece := b\<rparr>) = segments_left c" "segments_left (c\<lparr>total_resid := k\<rparr>) = segments_left c"
  "segments_left (c\<lparr>need_crc := b\<rparr>) = segments_left c" "segments_left (c\<lparr>cur_data := ds\<rparr>) = segments_left c"
  by (simp_all add: segments_left_def split: list.split)

lemma segment_length: "segment_ok bv \<Longrightarrow> length (segment_bytes bv) = bv_len bv"
  by (auto simp: segment_ok_def segment_bytes_def)

lemma bio_rest_length: "bio_ok c \<Longrightarrow> length (bio_rest c) = resid c"
  by (cases "resid c = 0") (auto simp: bio_ok_def bio_rest_def)

lemma bio_current:
  assumes "bio_ok c" and "resid c \<noteq> 0"
  obtains bv where "bio_segment c = Inr bv" "segment_ok bv" "vector_offset c < bv_len bv"
    "segments_left c = bv # tl (segments_left c)" "resid c \<le> length (chain_left c)"
    "last_piece c = (resid c \<le> bv_len bv - vector_offset c)"
proof -
  from assms obtain bio bios where c: "cur_bio c = bio # bios" "vector_index c < length bio"
    "vector_offset c < bv_len (bio ! vector_index c)" "resid c \<le> length (chain_left c)"
    "last_piece c = (resid c \<le> bv_len (bio ! vector_index c) - vector_offset c)" "chain_ok (bio # bios)"
    by (auto simp: bio_ok_def)
  show ?thesis
    by (rule that[of "bio ! vector_index c"])
      (use c in \<open>auto simp: bio_segment_def segments_left_def chain_ok_def list_all_length Cons_nth_drop_Suc[symmetric]\<close>)
qed

lemma bio_next_ok:
  assumes ok: "bio_ok c" and ne: "bio_rest c \<noteq> []"
  shows "\<exists>page off len. ceph_msg_data_bio_next c = Inr (page, off, len) \<and> 0 < len \<and>
    len \<le> length (bio_rest c) \<and> off + len \<le> PAGE_SIZE \<and> take len (drop off page) = take len (bio_rest c)"
proof -
  have r: "resid c \<noteq> 0" using ne by (auto simp: bio_rest_def)
  obtain bv where bv: "bio_segment c = Inr bv" "segment_ok bv" "vector_offset c < bv_len bv"
    "segments_left c = bv # tl (segments_left c)" "last_piece c = (resid c \<le> bv_len bv - vector_offset c)"
    using bio_current[OF ok r] by metis
  define len where "len = (if last_piece c then resid c else bv_len bv - vector_offset c)"
  have l: "0 < len" "len \<le> resid c" "vector_offset c + len \<le> bv_len bv"
    "len \<le> bv_len bv - vector_offset c" using bv r by (auto simp: len_def)
  have "chain_left c = drop (vector_offset c) (segment_bytes bv @ concat (map segment_bytes (tl (segments_left c))))"
    unfolding chain_left_def by (subst bv(4)) simp
  then have "take len (bio_rest c) = take len (drop (vector_offset c) (segment_bytes bv))"
    using l segment_length[OF bv(2)] by (simp add: bio_rest_def min_def)
  also have "\<dots> = take len (drop (bv_offset bv + vector_offset c) (bv_page bv))"
    using l by (simp add: segment_bytes_def drop_take min_def add.commute)
  finally have "take len (drop (bv_offset bv + vector_offset c) (bv_page bv)) = take len (bio_rest c)" ..
  moreover have "bv_offset bv + vector_offset c + len \<le> PAGE_SIZE" using l bv(2) by (simp add: segment_ok_def)
  moreover have "ceph_msg_data_bio_next c = Inr (bv_page bv, bv_offset bv + vector_offset c, len)"
    using bv(1,3) calculation(2) l(1,2) by (simp add: ceph_msg_data_bio_next_def guardE_def Let_def flip: len_def)
  ultimately show ?thesis using l bio_rest_length[OF ok] by auto
qed

text \<open>Moving on drops the current segment, and the new place is one again if anything is left.\<close>

lemma bio_move_on_left:
  assumes "chain_ok (cur_bio c)" and "cur_bio c = bio # bios" and "vector_index c < length bio"
  shows "segments_left (bio_move_on c) = tl (segments_left c)" "chain_ok (cur_bio (bio_move_on c))"
    "vector_offset (bio_move_on c) = 0" "resid (bio_move_on c) = resid c" "last_piece (bio_move_on c) = last_piece c"
    "segments_left (bio_move_on c) \<noteq> [] \<Longrightarrow> \<exists>bio' bios'. cur_bio (bio_move_on c) = bio' # bios' \<and>
       vector_index (bio_move_on c) < length bio' \<and> bio' ! vector_index (bio_move_on c) = hd (segments_left (bio_move_on c))"
proof -
  show "segments_left (bio_move_on c) = tl (segments_left c)"
  proof (cases "Suc (vector_index c) = length bio")
    case True
    then show ?thesis using assms
      by (cases bios) (simp_all add: bio_move_on_def segments_left_def Let_def Cons_nth_drop_Suc[symmetric])
  next
    case False
    then show ?thesis using assms
      by (simp add: bio_move_on_def segments_left_def Let_def Cons_nth_drop_Suc[symmetric])
  qed
  show "chain_ok (cur_bio (bio_move_on c))" "vector_offset (bio_move_on c) = 0" "resid (bio_move_on c) = resid c"
    "last_piece (bio_move_on c) = last_piece c"
    using assms by (simp_all add: bio_move_on_def Let_def chain_ok_def)
  assume ne: "segments_left (bio_move_on c) \<noteq> []"
  show "\<exists>bio' bios'. cur_bio (bio_move_on c) = bio' # bios' \<and> vector_index (bio_move_on c) < length bio' \<and>
      bio' ! vector_index (bio_move_on c) = hd (segments_left (bio_move_on c))"
  proof (cases "Suc (vector_index c) = length bio")
    case True
    with assms ne show ?thesis
      by (cases bios) (auto simp: bio_move_on_def segments_left_def Let_def chain_ok_def neq_Nil_conv)
  next
    case False
    with assms show ?thesis
      by (auto simp: bio_move_on_def segments_left_def Let_def hd_append hd_drop_conv_nth)
  qed
qed

lemma advance_left:
  "chain_left (c\<lparr>resid := r, vector_offset := vector_offset c + n\<rparr>) = drop n (chain_left c)"
  by (simp add: chain_left_def add.commute)

lemma bio_advance_over:
  assumes chain: "chain_ok (cur_bio c)" and b: "cur_bio c = bio # bios" "vector_index c < length bio"
    and bv: "bio_segment c = Inr bv" "segment_ok bv" "segments_left c = bv # tl (segments_left c)"
      "resid c \<le> length (chain_left c)" "last_piece c = (resid c \<le> bv_len bv - vector_offset c)"
    and l: "n \<le> resid c" "vector_offset c + n = bv_len bv"
  shows "\<exists>b c'. ceph_msg_data_bio_advance c n = Inr (b, c') \<and> bio_ok c' \<and> bio_rest c' = drop n (bio_rest c)"
proof -
  let ?c = "c\<lparr>resid := resid c - n, vector_offset := vector_offset c + n\<rparr>"
  let ?m = "bio_move_on ?c"
  have "chain_ok (cur_bio ?c)" "cur_bio ?c = bio # bios" "vector_index ?c < length bio" using chain b by simp_all
  note mo = bio_move_on_left[OF this]
  have "chain_left ?c = concat (map segment_bytes (tl (segments_left c)))"
    unfolding chain_left_def using l(2) segment_length[OF bv(2)] by (simp, subst bv(3), simp)
  then have left: "chain_left ?m = drop n (chain_left c)"
    using advance_left[where c = c and n = n and r = "resid c - n"] by (simp add: chain_left_def mo)
  have rest: "bio_rest ?m = drop n (bio_rest c)" by (simp add: bio_rest_def left mo(4) drop_take)
  show ?thesis
  proof (cases "last_piece c")
    case True
    with bv(5) l have "resid c - n = 0" by auto
    then have "bio_ok ?m" using mo by (simp add: bio_ok_def)
    moreover have "ceph_msg_data_bio_advance c n = Inr (True, ?m)"
      using bv(1) l True mo(5) by (simp add: ceph_msg_data_bio_advance_def guardE_def Let_def)
    ultimately show ?thesis using rest by blast
  next
    case False
    with bv(5) l have rn: "resid c - n \<noteq> 0" by auto
    have long: "resid c - n \<le> length (chain_left ?m)" using bv(4) left by simp
    with rn have "segments_left ?m \<noteq> []" by (auto simp: chain_left_def)
    then obtain bio' bios' where b': "cur_bio ?m = bio' # bios'" "vector_index ?m < length bio'" using mo(6) by blast
    let ?d = "?m\<lparr>last_piece := resid c - n \<le> bv_len (bio' ! vector_index ?m)\<rparr>"
    have "segment_ok (bio' ! vector_index ?m)" using mo(2) b' by (auto simp: chain_ok_def list_all_iff)
    then have "bio_ok ?d" using mo b' long by (simp add: bio_ok_def chain_left_def segment_ok_def)
    moreover have "ceph_msg_data_bio_advance c n = Inr (True, ?d)"
      using bv(1) l False mo b' rn by (simp add: ceph_msg_data_bio_advance_def guardE_def Let_def rd_def)
    moreover have "bio_rest ?d = drop n (bio_rest c)" using rest by (simp add: bio_rest_def chain_left_def)
    ultimately show ?thesis by blast
  qed
qed

lemma bio_advance_ok:
  assumes ok: "bio_ok c" and ne: "bio_rest c \<noteq> []"
    and nx: "ceph_msg_data_bio_next c = Inr (page, off, len)" and n: "0 < n" "n \<le> len"
  shows "\<exists>b c'. ceph_msg_data_bio_advance c n = Inr (b, c') \<and> bio_ok c' \<and> bio_rest c' = drop n (bio_rest c)"
proof -
  have r: "resid c \<noteq> 0" using ne by (auto simp: bio_rest_def)
  obtain bv where bv: "bio_segment c = Inr bv" "segment_ok bv" "vector_offset c < bv_len bv"
    "segments_left c = bv # tl (segments_left c)" "resid c \<le> length (chain_left c)"
    "last_piece c = (resid c \<le> bv_len bv - vector_offset c)"
    using bio_current[OF ok r] by metis
  from bv(1) obtain bio bios where b: "cur_bio c = bio # bios" "vector_index c < length bio" "bv = bio ! vector_index c"
    by (auto simp: bio_segment_def split: list.splits if_splits)
  have chain: "chain_ok (cur_bio c)" using ok by (simp add: bio_ok_def)
  from nx bv(1) have len: "len = (if last_piece c then resid c else bv_len bv - vector_offset c)"
    by (auto simp: ceph_msg_data_bio_next_def guardE_def bindE_Inr_iff Let_def split: if_splits)
  have l: "n \<le> resid c" "vector_offset c + n \<le> bv_len bv" using bv(3,6) len n by (auto split: if_splits)
  show ?thesis
  proof (cases "vector_offset c + n < bv_len bv")
    case True
    let ?c = "c\<lparr>resid := resid c - n, vector_offset := vector_offset c + n\<rparr>"
    have "bio_ok ?c" using ok b bv(5,6) True l by (auto simp: bio_ok_def advance_left)
    moreover have "ceph_msg_data_bio_advance c n = Inr (False, ?c)"
      using bv(1) l True by (simp add: ceph_msg_data_bio_advance_def guardE_def Let_def)
    moreover have "bio_rest ?c = drop n (bio_rest c)" by (simp add: bio_rest_def advance_left drop_take)
    ultimately show ?thesis by blast
  next
    case False
    with l show ?thesis by (intro bio_advance_over[OF chain b(1,2) bv(1,2,4,5,6)]) simp_all
  qed
qed

interpretation bio: piece_source bio_ok bio_rest "\<lambda>c. resid c \<noteq> 0" ceph_msg_data_bio_next ceph_msg_data_bio_advance
proof unfold_locales
  fix c
  assume "bio_ok c"
  from bio_rest_length[OF this] show "(resid c \<noteq> 0) = (bio_rest c \<noteq> [])" by (metis length_0_conv)
qed (rule bio_next_ok bio_advance_ok; assumption)+

section \<open>The payload of a message as a source\<close>

fun item_bytes :: "ceph_msg_data \<Rightarrow> u8 list" where
  "item_bytes Data_none = []"
| "item_bytes (Data_pages ps len al) = take len (drop al (concat ps))"
| "item_bytes (Data_pagelist pl) = pl_bytes pl"
| "item_bytes (Data_bio bs n) = take n (chain_bytes bs)"

text \<open>
  \<open>item_ok d n\<close>: item \<open>d\<close> can be walked when \<open>n\<close> bytes of the message are left. A page list must
  be used up to its end, and a chain with more items behind it must be longer than its first
  segment, since its initialisation compares that segment with all the bytes left.
\<close>

fun item_ok :: "ceph_msg_data \<Rightarrow> nat \<Rightarrow> bool" where
  "item_ok Data_none n = False"
| "item_ok (Data_pages ps len al) n = (list_all (\<lambda>p. length p = PAGE_SIZE) ps \<and> 0 < len \<and> al < PAGE_SIZE \<and>
     al + len \<le> PAGE_SIZE * length ps \<and> length ps \<le> 65535 \<and> n + PAGE_SIZE < 2 ^ 64)"
| "item_ok (Data_pagelist pl) n = (pl_ok pl \<and> 0 < pl_length pl \<and> pl_length pl \<le> n)"
| "item_ok (Data_bio bs m) n = (chain_ok bs \<and> bs \<noteq> [] \<and> 0 < m \<and> m \<le> length (chain_bytes bs) \<and>
     (m < n \<longrightarrow> bv_len (hd (hd bs)) < m))"

text \<open>\<open>n\<close> bytes can be walked in the items.\<close>

fun covered :: "ceph_msg_data list \<Rightarrow> nat \<Rightarrow> bool" where
  "covered [] n = (n = 0)"
| "covered (d # ds) n = (n = 0 \<or> item_ok d n \<and> covered ds (n - length (item_bytes d)))"

definition item_rest :: "ceph_msg_data_cursor \<Rightarrow> u8 list" where
  "item_rest c =
    (case cur_data c of
       Data_pages ps len al # _ \<Rightarrow> pages_rest ps c
     | Data_pagelist pl # _ \<Rightarrow> plist_rest pl c
     | Data_bio bs n # _ \<Rightarrow> bio_rest c
     | _ \<Rightarrow> [])"

definition item_walk :: "ceph_msg_data_cursor \<Rightarrow> bool" where
  "item_walk c =
    (case cur_data c of
       Data_pages ps len al # _ \<Rightarrow> pages_ok ps c
     | Data_pagelist pl # _ \<Rightarrow> plist_ok pl c
     | Data_bio bs n # _ \<Rightarrow> bio_ok c
     | _ \<Rightarrow> False)"

definition msg_rest :: "ceph_msg_data_cursor \<Rightarrow> u8 list" where
  "msg_rest c = item_rest c @ take (total_resid c - resid c) (concat (map item_bytes (tl (cur_data c))))"

definition msg_ok :: "ceph_msg_data_cursor \<Rightarrow> bool" where
  "msg_ok c \<longleftrightarrow> item_walk c \<and> resid c \<le> total_resid c \<and> (resid c = 0 \<longrightarrow> total_resid c = 0) \<and>
     covered (tl (cur_data c)) (total_resid c - resid c)"

lemma item_walk_cases:
  assumes "item_walk c"
  obtains (pages) ps len al ds where "cur_data c = Data_pages ps len al # ds" "pages_ok ps c" "item_rest c = pages_rest ps c"
  | (plist) pl ds where "cur_data c = Data_pagelist pl # ds" "plist_ok pl c" "item_rest c = plist_rest pl c"
  | (bio) bs n ds where "cur_data c = Data_bio bs n # ds" "bio_ok c" "item_rest c = bio_rest c"
  using assms by (auto simp: item_walk_def item_rest_def split: list.splits ceph_msg_data.splits)

lemma item_rest_length: "item_walk c \<Longrightarrow> length (item_rest c) = resid c"
  by (erule item_walk_cases) (simp_all add: pages_rest_length plist_rest_length bio_rest_length)

text \<open>Starting an item.\<close>

lemma calc_pages_bound:
  assumes "al < PAGE_SIZE" and "al + len \<le> PAGE_SIZE * k"
  shows "calc_pages_for al len \<le> k" "al + len \<le> PAGE_SIZE * calc_pages_for al len"
proof -
  have "calc_pages_for al len = (al + len + 4095) div 4096" using assms(1) by (simp add: calc_pages_for_def PAGE_SIZE_def)
  then show "calc_pages_for al len \<le> k" "al + len \<le> PAGE_SIZE * calc_pages_for al len"
    using assms(2) by (simp_all add: PAGE_SIZE_def)
qed

lemma pages_init_ok:
  assumes "item_ok (Data_pages ps len al) n" and "0 < n"
  shows "\<exists>c'. ceph_msg_data_pages_cursor_init ps len al c n = Inr c' \<and> pages_ok ps c' \<and> resid c' = min n len \<and>
    pages_rest ps c' = take n (item_bytes (Data_pages ps len al)) \<and> cur_data c' = cur_data c \<and> total_resid c' = total_resid c"
proof -
  have ps: "ps \<noteq> []" using assms by (cases ps) auto
  note cp = calc_pages_bound[of al len "length ps"]
  have b: "al + min n len \<le> PAGE_SIZE * calc_pages_for al len" using cp assms by (auto simp: min_def)
  show ?thesis
    using assms ps cp b
    by (auto simp: ceph_msg_data_pages_cursor_init_def guardE_def Let_def pages_ok_def pages_rest_def min_def)
qed

lemma plist_init_ok:
  assumes "item_ok (Data_pagelist pl) n" and "0 < n"
  shows "\<exists>c'. ceph_msg_data_pagelist_cursor_init pl c n = Inr c' \<and> plist_ok pl c' \<and> resid c' = min n (pl_length pl) \<and>
    plist_rest pl c' = take n (item_bytes (Data_pagelist pl)) \<and> cur_data c' = cur_data c \<and> total_resid c' = total_resid c"
proof -
  have "pl_head pl \<noteq> []" using assms by (auto simp: pl_ok_def)
  then show ?thesis
    using assms
    by (simp add: ceph_msg_data_pagelist_cursor_init_def guardE_def Let_def plist_ok_def plist_rest_def pl_bytes_def min_def)
qed

lemma bio_init_ok:
  assumes "item_ok (Data_bio bs m) n" and "0 < n"
  shows "\<exists>c'. ceph_msg_data_bio_cursor_init bs m c n = Inr c' \<and> bio_ok c' \<and> resid c' = min n m \<and>
    bio_rest c' = take n (item_bytes (Data_bio bs m)) \<and> cur_data c' = cur_data c \<and> total_resid c' = total_resid c"
proof -
  from assms obtain bv bio bios where bs: "bs = (bv # bio) # bios"
    by (cases bs) (auto simp: chain_ok_def neq_Nil_conv)
  let ?c = "c\<lparr>resid := min n m, cur_bio := bs, vector_index := 0, vector_offset := 0, last_piece := n \<le> bv_len bv\<rparr>"
  have "chain_left ?c = chain_bytes bs" by (simp add: chain_left_def segments_left_def chain_bytes_def bs)
  moreover have "bio_ok ?c"
    using assms bs calculation by (auto simp: bio_ok_def chain_ok_def segment_ok_def min_def)
  ultimately show ?thesis
    using bs by (auto simp: ceph_msg_data_bio_cursor_init_def bio_rest_def)
qed

lemma item_bytes_length:
  "item_ok d n \<Longrightarrow> length (item_bytes d) = (case d of Data_pages ps len al \<Rightarrow> len | Data_pagelist pl \<Rightarrow> pl_length pl
     | Data_bio bs m \<Rightarrow> m | Data_none \<Rightarrow> 0)"
  by (cases d) (auto simp: length_pages pl_bytes_length)

lemma item_walk_crc [simp]: "item_walk (c\<lparr>need_crc := b\<rparr>) = item_walk c" "item_rest (c\<lparr>need_crc := b\<rparr>) = item_rest c"
  by (simp_all add: item_walk_def item_rest_def pages_ok_def plist_ok_def bio_ok_def pages_rest_def plist_rest_def
      bio_rest_def chain_left_def split: list.split ceph_msg_data.split)

lemma data_init_ok:
  assumes "covered (cur_data c) (total_resid c)" and "total_resid c \<noteq> 0"
  shows "\<exists>c'. data_cursor_init c = Inr c' \<and> msg_ok c' \<and>
    msg_rest c' = take (total_resid c) (concat (map item_bytes (cur_data c)))"
proof -
  from assms obtain d ds where d: "cur_data c = d # ds" "item_ok d (total_resid c)"
    "covered ds (total_resid c - length (item_bytes d))" by (cases "cur_data c") auto
  let ?n = "total_resid c"
  have n: "0 < ?n" using assms(2) by simp
  have "\<exists>c'. data_cursor_init c = Inr c' \<and> item_walk c' \<and> resid c' = min ?n (length (item_bytes d)) \<and>
      item_rest c' = take ?n (item_bytes d) \<and> cur_data c' = cur_data c \<and> total_resid c' = ?n"
  proof (cases d)
    case (Data_pages ps len al)
    with pages_init_ok[of ps len al ?n c] d n item_bytes_length[OF d(2)] show ?thesis
      by (fastforce simp: data_cursor_init_def item_walk_def item_rest_def pages_ok_def pages_rest_def)
  next
    case (Data_pagelist pl)
    with plist_init_ok[of pl ?n c] d n item_bytes_length[OF d(2)] show ?thesis
      by (fastforce simp: data_cursor_init_def item_walk_def item_rest_def plist_ok_def plist_rest_def)
  next
    case (Data_bio bs m)
    with bio_init_ok[of bs m ?n c] d n item_bytes_length[OF d(2)] show ?thesis
      by (fastforce simp: data_cursor_init_def item_walk_def item_rest_def bio_ok_def bio_rest_def chain_left_def)
  qed (use d in simp)
  then obtain c' where c': "data_cursor_init c = Inr c'" "item_walk c'" "resid c' = min ?n (length (item_bytes d))"
    "item_rest c' = take ?n (item_bytes d)" "cur_data c' = d # ds" "total_resid c' = ?n" using d(1) by auto
  have "0 < length (item_bytes d)" unfolding item_bytes_length[OF d(2)] using d(2) by (cases d) auto
  with c' d(3) n have "msg_ok c'" by (auto simp: msg_ok_def min_def)
  moreover have "msg_rest c' = take ?n (concat (map item_bytes (cur_data c)))"
    using c' d(1) by (simp add: msg_rest_def min_def)
  ultimately show ?thesis using c'(1) by blast
qed

lemma item_next_ok:
  assumes w: "item_walk c" and r: "item_rest c \<noteq> []"
  shows "\<exists>page off len. ceph_msg_data_next c = Inr (page, off, len) \<and> 0 < len \<and> len \<le> length (item_rest c) \<and>
      off + len \<le> PAGE_SIZE \<and> take len (drop off page) = take len (item_rest c)"
  using w
proof (cases rule: item_walk_cases)
  case (pages ps len al ds)
  with pages.nxt_piece[of ps c] r show ?thesis by (fastforce simp: ceph_msg_data_next_def guardE_def)
next
  case (plist pl ds)
  with plist.nxt_piece[of pl c] r show ?thesis by (fastforce simp: ceph_msg_data_next_def guardE_def)
next
  case (bio bs n ds)
  with bio.nxt_piece[of c] r show ?thesis by (fastforce simp: ceph_msg_data_next_def guardE_def)
qed

lemma msg_rest_item: "msg_ok c \<Longrightarrow> msg_rest c \<noteq> [] \<Longrightarrow> item_rest c \<noteq> []"
  using item_rest_length[of c] by (auto simp: msg_ok_def msg_rest_def)

lemma msg_next_ok:
  assumes ok: "msg_ok c" and ne: "msg_rest c \<noteq> []"
  shows "\<exists>page off len. ceph_msg_data_next c = Inr (page, off, len) \<and> 0 < len \<and> len \<le> length (msg_rest c) \<and>
    off + len \<le> PAGE_SIZE \<and> take len (drop off page) = take len (msg_rest c)"
  using item_next_ok[of c] ok msg_rest_item[OF ok ne] by (fastforce simp: msg_rest_def msg_ok_def)


lemma advance_frames:
  "ceph_msg_data_pages_advance c n = Inr (b, c') \<Longrightarrow>
     cur_data c' = cur_data c \<and> total_resid c' = total_resid c \<and> resid c' = resid c - n"
  "ceph_msg_data_pagelist_advance pl c n = Inr (b, c') \<Longrightarrow>
     cur_data c' = cur_data c \<and> total_resid c' = total_resid c \<and> resid c' = resid c - n"
  "ceph_msg_data_bio_advance c n = Inr (b, c') \<Longrightarrow>
     cur_data c' = cur_data c \<and> total_resid c' = total_resid c \<and> resid c' = resid c - n"
  by (auto simp: ceph_msg_data_pages_advance_def ceph_msg_data_pagelist_advance_def ceph_msg_data_bio_advance_def
      bio_move_on_def Let_def guardE_def bindE_Inr_iff split: if_splits)

text \<open>Advancing in the current item, by its kind.\<close>

definition item_advance :: "ceph_msg_data_cursor \<Rightarrow> nat \<Rightarrow> (bool \<times> ceph_msg_data_cursor) res" where
  "item_advance c n =
    (case cur_data c of
       [] \<Rightarrow> Inl (Fault NullDeref)
     | Data_pagelist pl # _ \<Rightarrow> ceph_msg_data_pagelist_advance pl c n
     | Data_pages ps len al # _ \<Rightarrow> ceph_msg_data_pages_advance c n
     | Data_bio bs m # _ \<Rightarrow> ceph_msg_data_bio_advance c n
     | Data_none # _ \<Rightarrow> Inl (Fault BugOn))"

lemma item_advance_ok:
  assumes w: "item_walk c" and r: "item_rest c \<noteq> []" and nx: "ceph_msg_data_next c = Inr (page, off, len)"
    and n: "0 < n" "n \<le> len"
  shows "\<exists>b c'. item_advance c n = Inr (b, c') \<and> item_walk c' \<and> item_rest c' = drop n (item_rest c) \<and>
    cur_data c' = cur_data c \<and> total_resid c' = total_resid c \<and> resid c' = resid c - n"
  using w
proof (cases rule: item_walk_cases)
  case (pages ps len' al ds)
  from nx pages(1) have "ceph_msg_data_pages_next ps c = Inr (page, off, len)"
    by (auto simp: ceph_msg_data_next_def guardE_def bindE_Inr_iff split: if_splits)
  from pages.adv_drop[OF pages(2) _ this n] r pages(3) obtain b c' where
    a: "ceph_msg_data_pages_advance c n = Inr (b, c')" "pages_ok ps c'" "pages_rest ps c' = drop n (pages_rest ps c)" by auto
  with advance_frames(1)[OF a(1)] pages show ?thesis by (auto simp: item_advance_def item_walk_def item_rest_def)
next
  case (plist pl ds)
  from nx plist(1) have "ceph_msg_data_pagelist_next pl c = Inr (page, off, len)"
    by (auto simp: ceph_msg_data_next_def guardE_def bindE_Inr_iff split: if_splits)
  from plist.adv_drop[OF plist(2) _ this n] r plist(3) obtain b c' where
    a: "ceph_msg_data_pagelist_advance pl c n = Inr (b, c')" "plist_ok pl c'" "plist_rest pl c' = drop n (plist_rest pl c)" by auto
  with advance_frames(2)[OF a(1)] plist show ?thesis by (auto simp: item_advance_def item_walk_def item_rest_def)
next
  case (bio bs m ds)
  from nx bio(1) have "ceph_msg_data_bio_next c = Inr (page, off, len)"
    by (auto simp: ceph_msg_data_next_def guardE_def bindE_Inr_iff split: if_splits)
  from bio.adv_drop[OF bio(2) _ this n] r bio(3) obtain b c' where
    a: "ceph_msg_data_bio_advance c n = Inr (b, c')" "bio_ok c'" "bio_rest c' = drop n (bio_rest c)" by auto
  with advance_frames(3)[OF a(1)] bio show ?thesis by (auto simp: item_advance_def item_walk_def item_rest_def)
qed

lemma item_walk_total [simp]:
  "item_walk (c\<lparr>total_resid := k\<rparr>) = item_walk c" "item_rest (c\<lparr>total_resid := k\<rparr>) = item_rest c"
  by (simp_all add: item_walk_def item_rest_def pages_ok_def plist_ok_def bio_ok_def pages_rest_def plist_rest_def
      bio_rest_def chain_left_def split: list.split ceph_msg_data.split)

lemma msg_crc [simp]: "msg_ok (c\<lparr>need_crc := b\<rparr>) = msg_ok c" "msg_rest (c\<lparr>need_crc := b\<rparr>) = msg_rest c"
  by (simp_all add: msg_ok_def msg_rest_def)

lemma msg_advance_ok:
  assumes ok: "msg_ok c" and ne: "msg_rest c \<noteq> []" and nx: "ceph_msg_data_next c = Inr (page, off, len)"
    and n: "0 < n" "n \<le> len"
  shows "\<exists>b c'. ceph_msg_data_advance c n = Inr (b, c') \<and> msg_ok c' \<and> msg_rest c' = drop n (msg_rest c)"
proof -
  have w: "item_walk c" using ok by (simp add: msg_ok_def)
  have r: "item_rest c \<noteq> []" by (rule msg_rest_item[OF ok ne])
  obtain b c1 where a: "item_advance c n = Inr (b, c1)" "item_walk c1" "item_rest c1 = drop n (item_rest c)"
    "cur_data c1 = cur_data c" "total_resid c1 = total_resid c" "resid c1 = resid c - n"
    using item_advance_ok[OF w r nx n] by blast
  have len: "len \<le> resid c" using item_next_ok[OF w r] nx item_rest_length[OF w] by auto
  let ?c = "c1\<lparr>total_resid := total_resid c - n\<rparr>"
  have tl: "total_resid c - n - (resid c - n) = total_resid c - resid c" using len n by simp
  have rest: "item_rest c1 @ take (total_resid c - resid c) (concat (map item_bytes (tl (cur_data c)))) = drop n (msg_rest c)"
    using a(3) len n item_rest_length[OF w] by (simp add: msg_rest_def)
  show ?thesis
  proof (cases "resid c - n = 0 \<and> total_resid c - n \<noteq> 0")
    case True
    let ?d = "?c\<lparr>cur_data := tl (cur_data c)\<rparr>"
    have "resid c = n" using True len n by linarith
    then have t: "total_resid c - resid c = total_resid ?d" by simp
    have cov: "covered (cur_data ?d) (total_resid ?d)" using ok t by (simp add: msg_ok_def)
    obtain c2 where c2: "data_cursor_init ?d = Inr c2" "msg_ok c2"
      "msg_rest c2 = take (total_resid ?d) (concat (map item_bytes (cur_data ?d)))"
      using data_init_ok[OF cov] True by auto
    have "tl (cur_data c) \<noteq> []" using cov True by (cases "tl (cur_data c)") auto
    then have "1 < length (cur_data c)" by (cases "cur_data c") auto
    then have "ceph_msg_data_advance c n = Inr (True, c2\<lparr>need_crc := True\<rparr>)"
      using a True c2(1) len n by (simp add: ceph_msg_data_advance_def guardE_def Let_def flip: item_advance_def)
    moreover have "item_rest c1 = []" using item_rest_length[OF a(2)] a(6) True by auto
    ultimately show ?thesis using c2(2,3) rest t by auto
  next
    case False
    then have "ceph_msg_data_advance c n = Inr (b, ?c\<lparr>need_crc := b\<rparr>)"
      using a len n by (auto simp: ceph_msg_data_advance_def guardE_def Let_def simp flip: item_advance_def)
    moreover have "msg_ok ?c" using ok a False tl by (auto simp: msg_ok_def)
    moreover have "msg_rest ?c = drop n (msg_rest c)" using rest a tl by (simp add: msg_rest_def)
    ultimately show ?thesis by auto
  qed
qed

interpretation msg: piece_source msg_ok msg_rest "\<lambda>c. resid c \<noteq> 0" ceph_msg_data_next ceph_msg_data_advance
proof unfold_locales
  fix c
  assume ok: "msg_ok c"
  then have "length (item_rest c) = resid c" using item_rest_length by (auto simp: msg_ok_def)
  with ok show "(resid c \<noteq> 0) = (msg_rest c \<noteq> [])" by (auto simp: msg_ok_def msg_rest_def)
qed (rule msg_next_ok msg_advance_ok; assumption)+

section \<open>Properties\<close>


definition example_cursor :: ceph_msg_data_cursor where
  "example_cursor = \<lparr>total_resid = 0, cur_data = [], resid = 0, last_piece = False, need_crc = False, cur_bio = [],
     vector_index = 0, vector_offset = 0, page_offset = 0, page_index = 0, page_count = 0, cur_page = [], cur_offset = 0\<rparr>"

definition example_items :: "ceph_msg_data list" where
  "example_items = [Data_pages [replicate PAGE_SIZE 1, replicate PAGE_SIZE 2] 5000 100,
     Data_bio [[\<lparr>bv_page = replicate PAGE_SIZE 3, bv_len = 512, bv_offset = 1024\<rparr>]] 512]"


text \<open>
  A chain of one segment with another item behind it: the initialisation compares the segment
  with all the bytes left in the message, so the segment is not taken for the last piece, and
  finishing it runs into \<open>BUG_ON(!cursor->resid)\<close>.
\<close>

lemma bio_before_item_bug:
  assumes "bv_len bv = n" and "n < msg_left"
    and "ceph_msg_data_bio_cursor_init [[bv]] n cursor msg_left = Inr c"
  shows "ceph_msg_data_bio_advance c n = Inl (Fault BugOn)"
  using assms
  by (auto simp: ceph_msg_data_bio_cursor_init_def ceph_msg_data_bio_advance_def bio_segment_def guardE_def Let_def
      bio_move_on_def)

end
