(* ===== verification/Msg_Crc.thy ===== *)
theory Msg_Crc
  imports Msg_Data
begin

text \<open>
  The mark \<open>need_crc\<close> of the data cursor (\<open>net/ceph/messenger.c\<close>): a piece is added to the checksum
  as a whole the first time some of it is sent, and not again while the rest of it is sent.
  The bytes still to be added are a function of the cursor, which makes the checksum independent
  of how the network cuts the pieces.
\<close>

section \<open>Sources that mark new pieces\<close>

definition piece_len :: "('c \<Rightarrow> (u8 list \<times> nat \<times> nat) res) \<Rightarrow> 'c \<Rightarrow> nat" where
  "piece_len nxt c = (case nxt c of Inr (page, off, len) \<Rightarrow> len | Inl e \<Rightarrow> 0)"

text \<open>The bytes behind the cursor that are not in the checksum yet.\<close>

definition uncounted :: "('c \<Rightarrow> bool) \<Rightarrow> ('c \<Rightarrow> (u8 list \<times> nat \<times> nat) res) \<Rightarrow> ('c \<Rightarrow> u8 list) \<Rightarrow> 'c \<Rightarrow> u8 list" where
  "uncounted need nxt rest c = (if need c then rest c else drop (piece_len nxt c) (rest c))"

locale marked_source = piece_source +
  fixes need :: "'a \<Rightarrow> bool"
  assumes adv_mark: "ok c \<Longrightarrow> rest c \<noteq> [] \<Longrightarrow> nxt c = Inr (page, off, len) \<Longrightarrow> 0 < n \<Longrightarrow> n \<le> len \<Longrightarrow>
    adv c n = Inr (b, c') \<Longrightarrow> rest c' \<noteq> [] \<Longrightarrow>
    (if n < len then \<not> need c' \<and> (\<exists>page' off'. nxt c' = Inr (page', off', len - n)) else need c')"
begin

lemma uncounted_step:
  assumes "ok c" and "rest c \<noteq> []" and "nxt c = Inr (page, off, len)" and "0 < n" and "n \<le> len" and "adv c n = Inr (b, c')"
  shows "uncounted need nxt rest c = (if need c then take len (drop off page) else []) @ uncounted need nxt rest c'"
proof -
  have r': "rest c' = drop n (rest c)" using adv_drop[OF assms(1-5)] assms(6) by auto
  have p: "take len (drop off page) = take len (rest c)" "len \<le> length (rest c)"
    using nxt_piece[OF assms(1,2)] assms(3) by auto
  have "uncounted need nxt rest c' = drop len (rest c)"
  proof (cases "rest c' = []")
    case True
    then have "drop len (rest c) = []" using r' assms(5) by simp
    with True show ?thesis by (simp add: uncounted_def)
  next
    case False
    from adv_mark[OF assms this] assms(5) r' show ?thesis
      by (auto simp: uncounted_def piece_len_def split: if_splits)
  qed
  with p assms(3) show ?thesis by (simp add: uncounted_def piece_len_def)
qed

end

section \<open>The cursor of a message marks new pieces\<close>

lemma pages_mark:
  assumes "pages_ok ps c" and "ceph_msg_data_pages_next ps c = Inr (page, off, len)" and "0 < n" and "n \<le> len"
    and "ceph_msg_data_pages_advance c n = Inr (b, c')"
  shows "n < len \<Longrightarrow> \<not> b \<and> (\<exists>p q. ceph_msg_data_pages_next ps c' = Inr (p, q, len - n))"
    and "n = len \<Longrightarrow> resid c' \<noteq> 0 \<Longrightarrow> b"
  using assms
  by (auto simp: pages_ok_def ceph_msg_data_pages_next_def ceph_msg_data_pages_advance_def guardE_def bindE_Inr_iff Let_def rd_def
      split: if_splits)

lemma plist_mark:
  assumes "plist_ok pl c" and "ceph_msg_data_pagelist_next pl c = Inr (page, off, len)" and "0 < n" and "n \<le> len"
    and "ceph_msg_data_pagelist_advance pl c n = Inr (b, c')"
  shows "n < len \<Longrightarrow> \<not> b \<and> (\<exists>p q. ceph_msg_data_pagelist_next pl c' = Inr (p, q, len - n))"
    and "n = len \<Longrightarrow> resid c' \<noteq> 0 \<Longrightarrow> b"
proof -
  let ?m = "cur_offset c mod PAGE_SIZE"
  have pos: "0 < PAGE_SIZE" "?m < PAGE_SIZE" by (simp_all add: PAGE_SIZE_def)
  have len: "len = (if last_piece c then resid c else PAGE_SIZE - ?m)" and cp: "cur_page c \<noteq> []"
    using assms(2) by (auto simp: ceph_msg_data_pagelist_next_def guardE_def bindE_Inr_iff Let_def split: if_splits)
  have lp: "last_piece c = (?m + resid c \<le> PAGE_SIZE)" and sum: "cur_offset c + resid c = pl_length pl"
    using assms(1) by (simp_all add: plist_ok_def)
  have mod: "(cur_offset c + n) mod PAGE_SIZE = (?m + n) mod PAGE_SIZE" by (simp add: mod_add_left_eq)
  show "\<not> b \<and> (\<exists>p q. ceph_msg_data_pagelist_next pl c' = Inr (p, q, len - n))" if n: "n < len"
  proof -
    have less: "?m + n < PAGE_SIZE" using n len lp by (auto split: if_splits)
    then have m: "(cur_offset c + n) mod PAGE_SIZE = ?m + n" unfolding mod by simp
    have nr: "n < resid c" using n len lp by (auto split: if_splits)
    have c': "b = False" "c' = c\<lparr>resid := resid c - n, cur_offset := cur_offset c + n\<rparr>"
      using assms(3,5) m by (auto simp: ceph_msg_data_pagelist_advance_def guardE_def bindE_Inr_iff Let_def split: if_splits)
    then show ?thesis
      using cp sum nr m len by (auto simp: ceph_msg_data_pagelist_next_def guardE_def Let_def)
  qed
  show b if n: "n = len" and r: "resid c' \<noteq> 0"
  proof -
    have "resid c' = resid c - n" using advance_frames(2)[OF assms(5)] by simp
    then have "\<not> last_piece c" using r n len by auto
    then have "?m + n = PAGE_SIZE" using n len pos by simp
    then have "(cur_offset c + n) mod PAGE_SIZE = 0" unfolding mod by simp
    then show ?thesis
      using assms(3,5) r by (auto simp: ceph_msg_data_pagelist_advance_def guardE_def bindE_Inr_iff Let_def split: if_splits)
  qed
qed

lemma bio_mark:
  assumes ok: "bio_ok c" and r: "resid c \<noteq> 0" and nx: "ceph_msg_data_bio_next c = Inr (page, off, len)" and n: "0 < n" "n \<le> len"
    and adv: "ceph_msg_data_bio_advance c n = Inr (b, c')"
  shows "n < len \<Longrightarrow> \<not> b \<and> (\<exists>p q. ceph_msg_data_bio_next c' = Inr (p, q, len - n))"
    and "n = len \<Longrightarrow> resid c' \<noteq> 0 \<Longrightarrow> b"
proof -
  obtain bv where bv: "bio_segment c = Inr bv" "vector_offset c < bv_len bv" "last_piece c = (resid c \<le> bv_len bv - vector_offset c)"
    using bio_current[OF ok r] by metis
  have len: "len = (if last_piece c then resid c else bv_len bv - vector_offset c)"
    and room: "bv_offset bv + vector_offset c + len \<le> PAGE_SIZE" "len \<le> resid c"
    using nx bv(1) by (auto simp: ceph_msg_data_bio_next_def guardE_def bindE_Inr_iff Let_def split: if_splits)
  show "\<not> b \<and> (\<exists>p q. ceph_msg_data_bio_next c' = Inr (p, q, len - n))" if "n < len"
  proof -
    let ?c = "c\<lparr>resid := resid c - n, vector_offset := vector_offset c + n\<rparr>"
    have less: "vector_offset c + n < bv_len bv" using that len bv(2,3) by (auto split: if_splits)
    then have c': "\<not> b" "c' = ?c"
      using adv bv(1) by (auto simp: ceph_msg_data_bio_advance_def guardE_def bindE_Inr_iff Let_def split: if_splits)
    have "bio_segment ?c = Inr bv" using bv(1) by (auto simp: bio_segment_def split: list.splits if_splits)
    then have "ceph_msg_data_bio_next ?c = Inr (bv_page bv, bv_offset bv + (vector_offset c + n), len - n)"
      using less room that len bv(2) by (cases "last_piece c") (auto simp: ceph_msg_data_bio_next_def guardE_def Let_def)
    with c' show ?thesis by auto
  qed
  show b if "n = len" and "resid c' \<noteq> 0"
  proof -
    have "resid c' = resid c - n" using advance_frames(3)[OF adv] by simp
    then have "\<not> last_piece c" using that len by auto
    then have "vector_offset c + n = bv_len bv" using that(1) len bv(2) by simp
    then show ?thesis
      using adv bv(1) by (auto simp: ceph_msg_data_bio_advance_def guardE_def bindE_Inr_iff Let_def split: if_splits)
  qed
qed

lemma next_kind:
  "ceph_msg_data_next c = Inr (page, off, len) \<Longrightarrow> cur_data c = Data_pages ps l al # ds \<Longrightarrow>
    ceph_msg_data_pages_next ps c = Inr (page, off, len)"
  "ceph_msg_data_next c = Inr (page, off, len) \<Longrightarrow> cur_data c = Data_pagelist pl # ds \<Longrightarrow>
    ceph_msg_data_pagelist_next pl c = Inr (page, off, len)"
  "ceph_msg_data_next c = Inr (page, off, len) \<Longrightarrow> cur_data c = Data_bio bs m # ds \<Longrightarrow>
    ceph_msg_data_bio_next c = Inr (page, off, len)"
  by (auto simp: ceph_msg_data_next_def guardE_def bindE_Inr_iff split: if_splits)

lemma item_mark:
  assumes w: "item_walk c" and r: "item_rest c \<noteq> []" and nx: "ceph_msg_data_next c = Inr (page, off, len)"
    and n: "0 < n" "n \<le> len" and adv: "item_advance c n = Inr (b, c')"
  shows "n < len \<Longrightarrow> \<not> b \<and> (\<exists>p q. ceph_msg_data_next c' = Inr (p, q, len - n))"
    and "n = len \<Longrightarrow> resid c' \<noteq> 0 \<Longrightarrow> b"
proof -
  have res: "resid c \<noteq> 0" using item_rest_length[OF w] r by (metis length_0_conv)
  have len: "len \<le> length (item_rest c)" using item_next_ok[OF w r] nx by auto
  have c': "item_walk c'" "item_rest c' = drop n (item_rest c)" "cur_data c' = cur_data c"
    using item_advance_ok[OF w r nx n] adv by auto
  have nx': "\<exists>p q l. ceph_msg_data_next c' = Inr (p, q, l)" if "n < len"
    using item_next_ok[OF c'(1)] c'(2) that len by fastforce
  have "(n < len \<longrightarrow> \<not> b \<and> (\<exists>p q. ceph_msg_data_next c' = Inr (p, q, len - n))) \<and> (n = len \<longrightarrow> resid c' \<noteq> 0 \<longrightarrow> b)"
    using w
  proof (cases rule: item_walk_cases)
    case (pages ps len' al ds)
    have "ceph_msg_data_pages_advance c n = Inr (b, c')" using adv pages(1) by (simp add: item_advance_def)
    note mark = pages_mark[OF pages(2) next_kind(1)[OF nx pages(1)] n this]
    show ?thesis using mark nx' next_kind(1)[of c'] c'(3) pages(1) by fastforce
  next
    case (plist pl ds)
    have "ceph_msg_data_pagelist_advance pl c n = Inr (b, c')" using adv plist(1) by (simp add: item_advance_def)
    note mark = plist_mark[OF plist(2) next_kind(2)[OF nx plist(1)] n this]
    show ?thesis using mark nx' next_kind(2)[of c'] c'(3) plist(1) by fastforce
  next
    case (bio bs m ds)
    have "ceph_msg_data_bio_advance c n = Inr (b, c')" using adv bio(1) by (simp add: item_advance_def)
    note mark = bio_mark[OF bio(2) res next_kind(3)[OF nx bio(1)] n this]
    show ?thesis using mark nx' next_kind(3)[of c'] c'(3) bio(1) by fastforce
  qed
  then show "n < len \<Longrightarrow> \<not> b \<and> (\<exists>p q. ceph_msg_data_next c' = Inr (p, q, len - n))" "n = len \<Longrightarrow> resid c' \<noteq> 0 \<Longrightarrow> b" by auto
qed

lemma next_marks [simp]:
  "ceph_msg_data_next (c\<lparr>need_crc := b\<rparr>) = ceph_msg_data_next c"
  "ceph_msg_data_next (c\<lparr>total_resid := k\<rparr>) = ceph_msg_data_next c"
  by (simp_all add: ceph_msg_data_next_def ceph_msg_data_pages_next_def ceph_msg_data_pagelist_next_def
      ceph_msg_data_bio_next_def bio_segment_def split: list.split ceph_msg_data.split)

interpretation marked_msg: marked_source msg_ok msg_rest "\<lambda>c. resid c \<noteq> 0" ceph_msg_data_next ceph_msg_data_advance need_crc
proof unfold_locales
  fix c page off len n b c'
  assume ok: "msg_ok c" and ne: "msg_rest c \<noteq> []" and nx: "ceph_msg_data_next c = Inr (page, off, len)"
    and n: "0 < n" "n \<le> len" and adv: "ceph_msg_data_advance c n = Inr (b, c')" and ne': "msg_rest c' \<noteq> []"
  have w: "item_walk c" using ok by (simp add: msg_ok_def)
  have r: "item_rest c \<noteq> []" by (rule msg_rest_item[OF ok ne])
  obtain b1 c1 where a: "item_advance c n = Inr (b1, c1)" "total_resid c1 = total_resid c" "resid c1 = resid c - n"
    using item_advance_ok[OF w r nx n] by blast
  note mark = item_mark[OF w r nx n a(1)]
  have len: "len \<le> resid c" using item_next_ok[OF w r] nx item_rest_length[OF w] by auto
  show "if n < len then \<not> need_crc c' \<and> (\<exists>page' off'. ceph_msg_data_next c' = Inr (page', off', len - n)) else need_crc c'"
  proof (cases "resid c1 = 0 \<and> total_resid c - n \<noteq> 0")
    case True
    then have "n = len" using a(3) len n by simp
    moreover have "need_crc c'"
      using adv a True by (auto simp: ceph_msg_data_advance_def guardE_def bindE_Inr_iff Let_def simp flip: item_advance_def split: if_splits)
    ultimately show ?thesis by simp
  next
    case False
    then have c': "c' = c1\<lparr>total_resid := total_resid c - n, need_crc := b1\<rparr>"
      using adv a by (auto simp: ceph_msg_data_advance_def guardE_def bindE_Inr_iff Let_def simp flip: item_advance_def split: if_splits)
    have "msg_ok c'" using msg_advance_ok[OF ok ne nx n] adv by auto
    then have "resid c' \<noteq> 0" using ne' msg.busy_iff by blast
    then show ?thesis using mark n c' by auto
  qed
qed

end
