(* ===== verification/Messenger.thy ===== *)
theory Messenger
  imports Msg_Data
begin

text \<open>
  The messenger (\<open>net/ceph/messenger.c\<close>, \<open>include/linux/ceph/messenger.h\<close>, \<open>msgr.h\<close>): one
  connection to a peer, its socket state, its session state and its queues of outgoing messages,
  and the operations that send, acknowledge, revoke and recover. Messages are shared between the
  queues, the message being sent and the vectors that point into it, so they live in a store and
  are referred to by their addresses. The connection's mutex makes each operation a step.

  The TCP socket is code of the kernel: a socket carries the results its next send and receive
  calls will give, and the bytes sent so far. \<open>crc32c\<close> and the authorizer callback are parameters.
\<close>

section \<open>Constants and flags\<close>

datatype sock_state = SOCK_NEW | SOCK_CLOSED | SOCK_CONNECTING | SOCK_CONNECTED | SOCK_CLOSING

datatype con_state = CON_CLOSED | CON_PREOPEN | CON_CONNECTING | CON_NEGOTIATING | CON_OPEN | CON_STANDBY

datatype con_flag = LOSSYTX | KEEPALIVE_PENDING | WRITE_PENDING | SOCK_CLOSED_FLAG | BACKOFF

definition TAG_READY :: u8 where "TAG_READY = 1"
definition TAG_RESETSESSION :: u8 where "TAG_RESETSESSION = 2"
definition TAG_WAIT :: u8 where "TAG_WAIT = 3"
definition TAG_RETRY_SESSION :: u8 where "TAG_RETRY_SESSION = 4"
definition TAG_RETRY_GLOBAL :: u8 where "TAG_RETRY_GLOBAL = 5"
definition TAG_CLOSE :: u8 where "TAG_CLOSE = 6"
definition TAG_MSG :: u8 where "TAG_MSG = 7"
definition TAG_ACK :: u8 where "TAG_ACK = 8"
definition TAG_KEEPALIVE :: u8 where "TAG_KEEPALIVE = 9"
definition TAG_BADPROTOVER :: u8 where "TAG_BADPROTOVER = 10"
definition TAG_BADAUTHORIZER :: u8 where "TAG_BADAUTHORIZER = 11"
definition TAG_FEATURES :: u8 where "TAG_FEATURES = 12"
definition TAG_SEQ :: u8 where "TAG_SEQ = 13"

lemmas tag_defs = TAG_READY_def TAG_RESETSESSION_def TAG_WAIT_def TAG_RETRY_SESSION_def TAG_RETRY_GLOBAL_def
  TAG_CLOSE_def TAG_MSG_def TAG_ACK_def TAG_KEEPALIVE_def TAG_BADPROTOVER_def TAG_BADAUTHORIZER_def
  TAG_FEATURES_def TAG_SEQ_def

definition CEPH_BANNER :: "u8 list" where
  "CEPH_BANNER = [99, 101, 112, 104, 32, 118, 48, 50, 55]"

text \<open>Error numbers are returned negated, as the code does.\<close>

definition ENOENT_no :: int where "ENOENT_no = 2"
definition EIO_no :: int where "EIO_no = 5"
definition EAGAIN :: int where "EAGAIN = 11"
definition ENOMEM_no :: int where "ENOMEM_no = 12"
definition EBUSY_no :: int where "EBUSY_no = 16"
definition EINVAL_no :: int where "EINVAL_no = 22"
definition EBADMSG :: int where "EBADMSG = 74"
definition EINPROGRESS :: int where "EINPROGRESS = 115"

lemmas errno_defs = ENOENT_no_def EIO_no_def EAGAIN_def ENOMEM_no_def EBUSY_no_def EINVAL_no_def EBADMSG_def
  EINPROGRESS_def

definition CEPH_ENTITY_TYPE_MON :: u8 where "CEPH_ENTITY_TYPE_MON = 1"
definition CEPH_ENTITY_TYPE_MDS :: u8 where "CEPH_ENTITY_TYPE_MDS = 2"
definition CEPH_ENTITY_TYPE_OSD :: u8 where "CEPH_ENTITY_TYPE_OSD = 4"
definition CEPH_ENTITY_TYPE_CLIENT :: u8 where "CEPH_ENTITY_TYPE_CLIENT = 8"

definition CEPH_OSDC_PROTOCOL :: u32 where "CEPH_OSDC_PROTOCOL = 24"
definition CEPH_MDSC_PROTOCOL :: u32 where "CEPH_MDSC_PROTOCOL = 32"
definition CEPH_MONC_PROTOCOL :: u32 where "CEPH_MONC_PROTOCOL = 15"

definition CEPH_AUTH_UNKNOWN :: u32 where "CEPH_AUTH_UNKNOWN = 0"

definition CEPH_FEATURE_RESERVED :: u64 where "CEPH_FEATURE_RESERVED = push_bit 63 1"

definition ceph_sanitize_features :: "u64 \<Rightarrow> u64" where
  "ceph_sanitize_features features = (if features AND CEPH_FEATURE_RESERVED \<noteq> 0 then 0x1ffffffff else features)"

section \<open>Messages\<close>

record ceph_msg =
  hdr_seq :: u64
  hdr_tid :: u64
  hdr_type :: u16
  hdr_priority :: u16
  hdr_version :: u16
  hdr_front_len :: u32
  hdr_middle_len :: u32
  hdr_data_len :: u32
  hdr_data_off :: u16
  hdr_src :: "u8 \<times> u64"
  hdr_reserved :: u32
  hdr_crc :: u32
  ftr_front_crc :: u32
  ftr_middle_crc :: u32
  ftr_data_crc :: u32
  ftr_flags :: u8
  m_front :: "u8 list"
  front_alloc_len :: nat
  m_middle :: "u8 list option"
  middle_alloc_len :: nat
  m_data_length :: nat
  m_data :: "ceph_msg_data list"
  m_cursor :: ceph_msg_data_cursor
  m_con :: bool
  m_kref :: nat
  more_to_follow :: bool
  needs_out_seq :: bool

text \<open>The wire images of the packed structures, without and with the checksum of the header.\<close>

definition hdr_prefix :: "ceph_msg \<Rightarrow> u8 list" where
  "hdr_prefix m =
    le_bytes 8 (hdr_seq m) @ le_bytes 8 (hdr_tid m) @ le_bytes 2 (hdr_type m) @ le_bytes 2 (hdr_priority m) @
    le_bytes 2 (hdr_version m) @ le_bytes 4 (hdr_front_len m) @ le_bytes 4 (hdr_middle_len m) @
    le_bytes 4 (hdr_data_len m) @ le_bytes 2 (hdr_data_off m) @ [fst (hdr_src m)] @ le_bytes 8 (snd (hdr_src m)) @
    le_bytes 4 (hdr_reserved m)"

definition hdr_bytes :: "ceph_msg \<Rightarrow> u8 list" where
  "hdr_bytes m = hdr_prefix m @ le_bytes 4 (hdr_crc m)"

definition footer_bytes :: "ceph_msg \<Rightarrow> u8 list" where
  "footer_bytes m = le_bytes 4 (ftr_front_crc m) @ le_bytes 4 (ftr_middle_crc m) @ le_bytes 4 (ftr_data_crc m) @ [ftr_flags m]"

definition CEPH_MSG_FOOTER_COMPLETE :: u8 where "CEPH_MSG_FOOTER_COMPLETE = 1"
definition CEPH_MSG_FOOTER_NOCRC :: u8 where "CEPH_MSG_FOOTER_NOCRC = 2"

section \<open>Connections\<close>

text \<open>
  A kernel socket: the results of its next calls (negative: an error number), the bytes it will
  deliver, and the bytes it has sent. Without a result a call would block.
\<close>

record socket =
  sk_tx :: "int list"
  sk_rx :: "(int \<times> u8 list) list"
  sk_out :: "u8 list"

text \<open>What an entry of \<open>out_kvec\<close> points to; the bytes are read when they are sent.\<close>

datatype kvec_base = K_const "u8 list" | K_temp_ack | K_hdr nat | K_front nat | K_middle nat | K_footer nat | K_connect | K_my_addr

type_synonym kvec = "kvec_base \<times> nat \<times> nat"

record ceph_msg_connect =
  oc_features :: u64
  oc_host_type :: u32
  oc_global_seq :: u32
  oc_connect_seq :: u32
  oc_protocol_version :: u32
  oc_authorizer_protocol :: u32
  oc_authorizer_len :: u32
  oc_flags :: u8

definition connect_bytes :: "ceph_msg_connect \<Rightarrow> u8 list" where
  "connect_bytes c =
    le_bytes 8 (oc_features c) @ le_bytes 4 (oc_host_type c) @ le_bytes 4 (oc_global_seq c) @
    le_bytes 4 (oc_connect_seq c) @ le_bytes 4 (oc_protocol_version c) @ le_bytes 4 (oc_authorizer_protocol c) @
    le_bytes 4 (oc_authorizer_len c) @ [oc_flags c]"

text \<open>
  The reply is read into the packed structure byte by byte, so it is kept as its 26 bytes;
  these read its fields.
\<close>

definition reply_tag :: "u8 list \<Rightarrow> u8" where "reply_tag r = le_word (take 1 r)"
definition reply_features :: "u8 list \<Rightarrow> u64" where "reply_features r = le_word (take 8 (drop 1 r))"
definition reply_global_seq :: "u8 list \<Rightarrow> u32" where "reply_global_seq r = le_word (take 4 (drop 9 r))"
definition reply_connect_seq :: "u8 list \<Rightarrow> u32" where "reply_connect_seq r = le_word (take 4 (drop 13 r))"
definition reply_protocol_version :: "u8 list \<Rightarrow> u32" where "reply_protocol_version r = le_word (take 4 (drop 17 r))"
definition reply_authorizer_len :: "u8 list \<Rightarrow> u32" where "reply_authorizer_len r = le_word (take 4 (drop 21 r))"
definition reply_flags :: "u8 list \<Rightarrow> u8" where "reply_flags r = le_word (take 1 (drop 25 r))"

record ceph_messenger =
  my_name :: "u8 \<times> u64"
  my_addr :: "u8 list"
  my_enc_addr :: "u8 list"
  stopping :: bool
  nocrc :: bool
  global_seq :: u32
  supported_features :: u64
  required_features :: u64

text \<open>
  \<open>in_data\<close> holds the payload bytes received so far, in the order in which the cursor of the message
  being read stores them in its pages.
\<close>

record ceph_connection =
  msgr :: ceph_messenger
  store :: "nat \<Rightarrow> ceph_msg"
  sock_state :: sock_state
  sock :: "socket option"
  flags :: "con_flag set"
  state :: con_state
  error_msg :: string
  peer_name :: "u8 \<times> u64"
  peer_addr :: "u8 list"
  peer_features :: u64
  connect_seq :: u32
  peer_global_seq :: u32
  auth_retry :: nat
  out_queue :: "nat list"
  out_sent :: "nat list"
  out_seq :: u64
  in_seq :: u64
  in_seq_acked :: u64
  out_connect :: ceph_msg_connect
  in_reply :: "u8 list"
  out_msg :: "nat option"
  out_msg_done :: bool
  out_kvec :: "kvec list"
  out_kvec_cur :: nat
  out_kvec_left :: nat
  out_kvec_bytes :: nat
  out_skip :: nat
  out_kvec_is_msg :: bool
  out_more :: bool
  out_temp_ack :: u64
  in_banner :: "u8 list"
  actual_peer_addr :: "u8 list"
  peer_addr_for_me :: "u8 list"
  auth_reply_buf :: "u8 list"
  in_hdr :: "u8 list"
  in_data :: "u8 list"
  in_msg :: "nat option"
  in_front_crc :: u32
  in_middle_crc :: u32
  in_data_crc :: u32
  in_tag :: u8
  in_base_pos :: int
  in_temp_ack :: "u8 list"
  con_delay :: nat
  con_ref :: nat
  work :: "nat option"

text \<open>
  What the connection calls outside this file: the network, \<open>crc32c\<close>, the allocator, and the
  callbacks of its owner (\<open>struct ceph_connection_operations\<close>). A callback runs with the mutex
  released, so it returns the connection as it is found when the mutex is taken again.
\<close>

record ceph_auth_handshake =
  authorizer_buf :: "u8 list"
  authorizer_reply_buf :: "u8 list"

record con_env =
  env_HZ :: nat
  crc32c :: "u32 \<Rightarrow> u8 list \<Rightarrow> u32"
  buffer_new :: "nat \<Rightarrow> u8 list option"
  sock_create_kern :: "ceph_connection \<Rightarrow> int \<times> socket"
  sock_connect :: "ceph_connection \<Rightarrow> int"
  get_authorizer :: "(ceph_connection \<Rightarrow> (int + ceph_auth_handshake \<times> u32) \<times> ceph_connection) option"
  peer_reset :: "(ceph_connection \<Rightarrow> ceph_connection) option"
  dispatch :: "ceph_connection \<Rightarrow> nat \<Rightarrow> ceph_connection"
  alloc_msg :: "(ceph_connection \<Rightarrow> (nat option \<times> bool) \<times> ceph_connection) option"
  env_fault :: "(ceph_connection \<Rightarrow> ceph_connection) option"
  invalidate_authorizer :: "(ceph_connection \<Rightarrow> ceph_connection) option"

section \<open>Flags and socket states\<close>

definition con_flag_clear :: "con_flag \<Rightarrow> ceph_connection \<Rightarrow> ceph_connection" where
  "con_flag_clear f con = con\<lparr>flags := flags con - {f}\<rparr>"

definition con_flag_set :: "con_flag \<Rightarrow> ceph_connection \<Rightarrow> ceph_connection" where
  "con_flag_set f con = con\<lparr>flags := insert f (flags con)\<rparr>"

definition con_flag_test :: "con_flag \<Rightarrow> ceph_connection \<Rightarrow> bool" where
  "con_flag_test f con = (f \<in> flags con)"

definition con_flag_test_and_clear :: "con_flag \<Rightarrow> ceph_connection \<Rightarrow> bool \<times> ceph_connection" where
  "con_flag_test_and_clear f con = (con_flag_test f con, con_flag_clear f con)"

definition con_flag_test_and_set :: "con_flag \<Rightarrow> ceph_connection \<Rightarrow> bool \<times> ceph_connection" where
  "con_flag_test_and_set f con = (con_flag_test f con, con_flag_set f con)"

lemmas flag_defs = con_flag_clear_def con_flag_set_def con_flag_test_def con_flag_test_and_clear_def
  con_flag_test_and_set_def

text \<open>The transition functions exchange the state and return whether the old state was unexpected.\<close>

definition con_sock_state_init :: "ceph_connection \<Rightarrow> bool \<times> ceph_connection" where
  "con_sock_state_init con = (sock_state con \<noteq> SOCK_NEW, con\<lparr>sock_state := SOCK_CLOSED\<rparr>)"

definition con_sock_state_connecting :: "ceph_connection \<Rightarrow> bool \<times> ceph_connection" where
  "con_sock_state_connecting con = (sock_state con \<noteq> SOCK_CLOSED, con\<lparr>sock_state := SOCK_CONNECTING\<rparr>)"

definition con_sock_state_connected :: "ceph_connection \<Rightarrow> bool \<times> ceph_connection" where
  "con_sock_state_connected con = (sock_state con \<noteq> SOCK_CONNECTING, con\<lparr>sock_state := SOCK_CONNECTED\<rparr>)"

definition con_sock_state_closing :: "ceph_connection \<Rightarrow> bool \<times> ceph_connection" where
  "con_sock_state_closing con =
    (sock_state con \<notin> {SOCK_CONNECTING, SOCK_CONNECTED, SOCK_CLOSING}, con\<lparr>sock_state := SOCK_CLOSING\<rparr>)"

definition con_sock_state_closed :: "ceph_connection \<Rightarrow> bool \<times> ceph_connection" where
  "con_sock_state_closed con =
    (sock_state con \<notin> {SOCK_CONNECTED, SOCK_CLOSING, SOCK_CONNECTING, SOCK_CLOSED}, con\<lparr>sock_state := SOCK_CLOSED\<rparr>)"

lemmas sock_state_defs = con_sock_state_init_def con_sock_state_connecting_def con_sock_state_connected_def
  con_sock_state_closing_def con_sock_state_closed_def

section \<open>References and work\<close>

text \<open>
  \<open>con_ref\<close> counts the owner's references (\<open>ops->get\<close>, \<open>ops->put\<close>); \<open>get\<close> fails once it is zero.
  Work is queued at most once, with its delay, and holds a reference.
\<close>

definition con_get :: "ceph_connection \<Rightarrow> ceph_connection option" where
  "con_get con = (if con_ref con = 0 then None else Some (con\<lparr>con_ref := con_ref con + 1\<rparr>))"

definition con_put :: "ceph_connection \<Rightarrow> ceph_connection" where
  "con_put con = con\<lparr>con_ref := con_ref con - 1\<rparr>"

definition queue_con_delay :: "nat \<Rightarrow> ceph_connection \<Rightarrow> int \<times> ceph_connection" where
  "queue_con_delay delay con =
    (case con_get con of
       None \<Rightarrow> (- ENOENT_no, con)
     | Some con1 \<Rightarrow> if work con1 \<noteq> None then (- EBUSY_no, con_put con1) else (0, con1\<lparr>work := Some delay\<rparr>))"

definition queue_con :: "ceph_connection \<Rightarrow> ceph_connection" where
  "queue_con con = snd (queue_con_delay 0 con)"

definition cancel_con :: "ceph_connection \<Rightarrow> ceph_connection" where
  "cancel_con con = (if work con \<noteq> None then con_put (con\<lparr>work := None\<rparr>) else con)"

definition upd_msg :: "nat \<Rightarrow> (ceph_msg \<Rightarrow> ceph_msg) \<Rightarrow> ceph_connection \<Rightarrow> ceph_connection" where
  "upd_msg m f con = con\<lparr>store := (store con)(m := f (store con m))\<rparr>"

text \<open>The last reference of a message releases what it holds.\<close>

definition ceph_msg_release :: "ceph_msg \<Rightarrow> ceph_msg" where
  "ceph_msg_release m = m\<lparr>m_middle := None, m_data := [], m_data_length := 0, m_kref := 0\<rparr>"

definition ceph_msg_get :: "nat \<Rightarrow> ceph_connection \<Rightarrow> ceph_connection" where
  "ceph_msg_get m = upd_msg m (\<lambda>x. x\<lparr>m_kref := m_kref x + 1\<rparr>)"

definition ceph_msg_put :: "nat \<Rightarrow> ceph_connection \<Rightarrow> ceph_connection" where
  "ceph_msg_put m = upd_msg m (\<lambda>x. if m_kref x \<le> 1 then ceph_msg_release x else x\<lparr>m_kref := m_kref x - 1\<rparr>)"

lemmas msg_ref_defs = upd_msg_def ceph_msg_release_def ceph_msg_get_def ceph_msg_put_def

section \<open>Socket callbacks and the socket\<close>

datatype tcp_state = TCP_ESTABLISHED | TCP_CLOSE | TCP_CLOSE_WAIT | TCP_other

definition ceph_sock_data_ready :: "tcp_state \<Rightarrow> ceph_connection \<Rightarrow> ceph_connection" where
  "ceph_sock_data_ready sk con =
    (if stopping (msgr con) then con else if sk \<noteq> TCP_CLOSE_WAIT then queue_con con else con)"

definition ceph_sock_write_space :: "nat \<Rightarrow> nat \<Rightarrow> ceph_connection \<Rightarrow> ceph_connection" where
  "ceph_sock_write_space wspace min_wspace con =
    (if con_flag_test WRITE_PENDING con then (if min_wspace \<le> wspace then queue_con con else con) else con)"

definition ceph_sock_state_change :: "tcp_state \<Rightarrow> ceph_connection \<Rightarrow> ceph_connection" where
  "ceph_sock_state_change sk con =
    (case sk of
       TCP_CLOSE \<Rightarrow> queue_con (con_flag_set SOCK_CLOSED_FLAG (snd (con_sock_state_closing con)))
     | TCP_CLOSE_WAIT \<Rightarrow> queue_con (con_flag_set SOCK_CLOSED_FLAG (snd (con_sock_state_closing con)))
     | TCP_ESTABLISHED \<Rightarrow> queue_con (snd (con_sock_state_connected con))
     | TCP_other \<Rightarrow> con)"

definition ceph_tcp_connect :: "con_env \<Rightarrow> ceph_connection \<Rightarrow> (int \<times> ceph_connection) res" where
  "ceph_tcp_connect env con =
    bindE (guardE (sock con = None) (Fault BugOn)) (\<lambda>_.
    let (ret, sk) = sock_create_kern env con in
    if ret \<noteq> 0 then Inr (ret, con)
    else
      let con1 = snd (con_sock_state_connecting con); ret = sock_connect env con1 in
      if ret \<noteq> - EINPROGRESS \<and> ret < 0 then Inr (ret, con1\<lparr>error_msg := ''connect error''\<rparr>)
      else Inr (0, con1\<lparr>sock := Some sk\<rparr>))"

text \<open>
  A send offers some bytes and the network takes as many as its next result says; a receive asks
  for at most \<open>n\<close> bytes. Sending a page is the same on the wire, whether by \<open>sendpage\<close> or by \<open>sendmsg\<close>.
\<close>

definition kernel_sendmsg :: "socket \<Rightarrow> u8 list \<Rightarrow> int \<times> socket" where
  "kernel_sendmsg sk bs =
    (case sk_tx sk of
       [] \<Rightarrow> (- EAGAIN, sk)
     | r # rs \<Rightarrow>
         if r < 0 then (r, sk\<lparr>sk_tx := rs\<rparr>)
         else let n = min (nat r) (length bs) in (int n, sk\<lparr>sk_tx := rs, sk_out := sk_out sk @ take n bs\<rparr>))"

definition kernel_recvmsg :: "socket \<Rightarrow> nat \<Rightarrow> int \<times> u8 list \<times> socket" where
  "kernel_recvmsg sk n =
    (case sk_rx sk of
       [] \<Rightarrow> (- EAGAIN, [], sk)
     | (r, bs) # rs \<Rightarrow>
         if r < 0 then (r, [], sk\<lparr>sk_rx := rs\<rparr>)
         else let k = min n (length bs) in
           (int k, take k bs, sk\<lparr>sk_rx := (if k < length bs then (r, drop k bs) # rs else rs)\<rparr>))"

definition ceph_tcp_sendmsg :: "u8 list \<Rightarrow> ceph_connection \<Rightarrow> (int \<times> ceph_connection) res" where
  "ceph_tcp_sendmsg bs con =
    bindE (deref (sock con)) (\<lambda>sk.
    let (r, sk') = kernel_sendmsg sk bs in
    Inr (if r = - EAGAIN then 0 else r, con\<lparr>sock := Some sk'\<rparr>))"

definition ceph_tcp_sendpage :: "u8 list \<Rightarrow> nat \<Rightarrow> nat \<Rightarrow> ceph_connection \<Rightarrow> (int \<times> ceph_connection) res" where
  "ceph_tcp_sendpage page offset len con = ceph_tcp_sendmsg (take len (drop offset page)) con"

definition ceph_tcp_recvmsg :: "nat \<Rightarrow> ceph_connection \<Rightarrow> (int \<times> u8 list \<times> ceph_connection) res" where
  "ceph_tcp_recvmsg n con =
    bindE (deref (sock con)) (\<lambda>sk.
    let (r, bs, sk') = kernel_recvmsg sk n in
    Inr (if r = - EAGAIN then 0 else r, bs, con\<lparr>sock := Some sk'\<rparr>))"

definition con_close_socket :: "ceph_connection \<Rightarrow> ceph_connection" where
  "con_close_socket con = snd (con_sock_state_closed (con_flag_clear SOCK_CLOSED_FLAG (con\<lparr>sock := None\<rparr>)))"

section \<open>Opening, closing and resetting\<close>

definition unlink :: "nat \<Rightarrow> ceph_connection \<Rightarrow> ceph_connection" where
  "unlink m con = con\<lparr>out_queue := removeAll m (out_queue con), out_sent := removeAll m (out_sent con)\<rparr>"

definition ceph_msg_remove :: "nat \<Rightarrow> ceph_connection \<Rightarrow> ceph_connection res" where
  "ceph_msg_remove m con =
    bindE (guardE (m_con (store con m)) (Fault BugOn)) (\<lambda>_.
    Inr (ceph_msg_put m (upd_msg m (\<lambda>x. x\<lparr>m_con := False\<rparr>) (con_put (unlink m con)))))"

definition ceph_msg_remove_list :: "nat list \<Rightarrow> ceph_connection \<Rightarrow> ceph_connection res" where
  "ceph_msg_remove_list = foldE ceph_msg_remove"

text \<open>Dropping the message that is being received.\<close>

definition drop_in_msg :: "ceph_connection \<Rightarrow> ceph_connection res" where
  "drop_in_msg con =
    (case in_msg con of
       None \<Rightarrow> Inr con
     | Some m \<Rightarrow>
         bindE (guardE (m_con (store con m)) (Fault BugOn)) (\<lambda>_.
         Inr (con_put ((ceph_msg_put m (upd_msg m (\<lambda>x. x\<lparr>m_con := False\<rparr>) con))\<lparr>in_msg := None\<rparr>))))"

definition reset_connection :: "ceph_connection \<Rightarrow> ceph_connection res" where
  "reset_connection con =
    bindE (ceph_msg_remove_list (out_queue con) con) (\<lambda>con.
    bindE (ceph_msg_remove_list (out_sent con) con) (\<lambda>con.
    bindE (drop_in_msg con) (\<lambda>con.
    let con = con\<lparr>connect_seq := 0, out_seq := 0\<rparr>;
        con = (case out_msg con of None \<Rightarrow> con | Some m \<Rightarrow> (ceph_msg_put m con)\<lparr>out_msg := None\<rparr>) in
    Inr (con\<lparr>in_seq := 0, in_seq_acked := 0\<rparr>))))"

definition ceph_con_close :: "ceph_connection \<Rightarrow> ceph_connection res" where
  "ceph_con_close con =
    (let con = con\<lparr>state := CON_CLOSED\<rparr>;
         con = con_flag_clear BACKOFF (con_flag_clear WRITE_PENDING
                 (con_flag_clear KEEPALIVE_PENDING (con_flag_clear LOSSYTX con))) in
     bindE (reset_connection con) (\<lambda>con.
     Inr (con_close_socket (cancel_con (con\<lparr>peer_global_seq := 0\<rparr>)))))"

definition ceph_con_open :: "u8 \<Rightarrow> u64 \<Rightarrow> u8 list \<Rightarrow> ceph_connection \<Rightarrow> ceph_connection" where
  "ceph_con_open entity_type entity_num addr con =
    queue_con (con\<lparr>state := CON_PREOPEN, peer_name := (entity_type, entity_num), peer_addr := addr, con_delay := 0\<rparr>)"

definition ceph_con_opened :: "ceph_connection \<Rightarrow> bool" where
  "ceph_con_opened con = (0 < connect_seq con)"

definition ARRAY_SIZE_out_kvec :: nat where "ARRAY_SIZE_out_kvec = 8"

text \<open>
  Initialisation clears the structure, except what the model adds: the store of messages and the
  reference of the owner.
\<close>

definition ceph_con_init :: "ceph_messenger \<Rightarrow> (nat \<Rightarrow> ceph_msg) \<Rightarrow> nat \<Rightarrow> ceph_connection" where
  "ceph_con_init mr st refs =
    (snd (con_sock_state_init
      \<lparr>msgr = mr, store = st, sock_state = SOCK_NEW, sock = None, flags = {}, state = CON_CLOSED, error_msg = [],
       peer_name = (0, 0), peer_addr = replicate 136 0, peer_features = 0, connect_seq = 0, peer_global_seq = 0,
       auth_retry = 0, out_queue = [], out_sent = [], out_seq = 0, in_seq = 0, in_seq_acked = 0,
       out_connect = \<lparr>oc_features = 0, oc_host_type = 0, oc_global_seq = 0, oc_connect_seq = 0,
         oc_protocol_version = 0, oc_authorizer_protocol = 0, oc_authorizer_len = 0, oc_flags = 0\<rparr>,
       in_reply = replicate 26 0, out_msg = None, out_msg_done = False,
       out_kvec = replicate ARRAY_SIZE_out_kvec (K_const [], 0, 0), out_kvec_cur = 0, out_kvec_left = 0,
       out_kvec_bytes = 0, out_skip = 0, out_kvec_is_msg = False, out_more = False, out_temp_ack = 0,
       in_banner = replicate 30 0, actual_peer_addr = replicate 136 0, peer_addr_for_me = replicate 136 0,
       auth_reply_buf = [], in_hdr = replicate 53 0, in_data = [], in_msg = None, in_front_crc = 0, in_middle_crc = 0,
       in_data_crc = 0, in_tag = 0, in_base_pos = 0, in_temp_ack = replicate 8 0, con_delay = 0, con_ref = refs,
       work = None\<rparr>))"

definition get_global_seq :: "u32 \<Rightarrow> ceph_connection \<Rightarrow> u32 \<times> ceph_connection" where
  "get_global_seq gt con =
    (let g = (if global_seq (msgr con) < gt then gt else global_seq (msgr con)) + 1 in
     (g, con\<lparr>msgr := (msgr con)\<lparr>global_seq := g\<rparr>\<rparr>))"

section \<open>The vectors to send\<close>

definition con_out_kvec_reset :: "ceph_connection \<Rightarrow> ceph_connection" where
  "con_out_kvec_reset con = con\<lparr>out_kvec_left := 0, out_kvec_bytes := 0, out_kvec_cur := 0\<rparr>"

definition con_out_kvec_add :: "nat \<Rightarrow> kvec_base \<Rightarrow> ceph_connection \<Rightarrow> ceph_connection res" where
  "con_out_kvec_add sz data con =
    (let index = out_kvec_left con in
     bindE (guardE (index < ARRAY_SIZE_out_kvec) (Fault BugOn)) (\<lambda>_.
     bindE (wr (out_kvec con) index (data, 0, sz)) (\<lambda>kv.
     Inr (con\<lparr>out_kvec := kv, out_kvec_left := index + 1, out_kvec_bytes := out_kvec_bytes con + sz\<rparr>))))"

definition prepare_message_data :: "nat \<Rightarrow> nat \<Rightarrow> ceph_connection \<Rightarrow> ceph_connection res" where
  "prepare_message_data m data_len con =
    (let x = store con m in
     bindE (guardE (data_len \<noteq> 0) (Fault BugOn)) (\<lambda>_.
     bindE (ceph_msg_data_cursor_init (m_data x) (m_data_length x) (m_cursor x) data_len) (\<lambda>c.
     Inr (upd_msg m (\<lambda>x. x\<lparr>m_cursor := c\<rparr>) con))))"

definition FOOTER_SIZE :: nat where "FOOTER_SIZE = 13"
definition HEADER_SIZE :: nat where "HEADER_SIZE = 53"

definition prepare_write_message_footer :: "ceph_connection \<Rightarrow> ceph_connection res" where
  "prepare_write_message_footer con =
    bindE (deref (out_msg con)) (\<lambda>m.
    let v = out_kvec_left con;
        con = upd_msg m (\<lambda>x. x\<lparr>ftr_flags := ftr_flags x OR CEPH_MSG_FOOTER_COMPLETE\<rparr>) con in
    bindE (wr (out_kvec con) v (K_footer m, 0, FOOTER_SIZE)) (\<lambda>kv.
    Inr (con\<lparr>out_kvec_is_msg := True, out_kvec := kv, out_kvec_bytes := out_kvec_bytes con + FOOTER_SIZE,
             out_kvec_left := v + 1, out_more := more_to_follow (store con m), out_msg_done := True\<rparr>)))"

text \<open>The acknowledgement that may ride in front of a message.\<close>

definition sneak_ack :: "ceph_connection \<Rightarrow> ceph_connection res" where
  "sneak_ack con =
    (if in_seq_acked con < in_seq con then
       let con = con\<lparr>in_seq_acked := in_seq con\<rparr> in
       bindE (con_out_kvec_add 1 (K_const [TAG_ACK]) con) (\<lambda>con.
       con_out_kvec_add 8 K_temp_ack (con\<lparr>out_temp_ack := in_seq_acked con\<rparr>))
     else Inr con)"

text \<open>Only a message that was never sent takes a new sequence number.\<close>

definition assign_seq :: "nat \<Rightarrow> ceph_connection \<Rightarrow> ceph_connection" where
  "assign_seq m con =
    (if needs_out_seq (store con m) then
       let s = out_seq con + 1 in
       upd_msg m (\<lambda>x. x\<lparr>hdr_seq := s, needs_out_seq := False\<rparr>) (con\<lparr>out_seq := s\<rparr>)
     else con)"

definition fill_crcs :: "con_env \<Rightarrow> ceph_msg \<Rightarrow> ceph_msg" where
  "fill_crcs env x =
    x\<lparr>hdr_crc := crc32c env 0 (hdr_prefix x), ftr_flags := 0, ftr_front_crc := crc32c env 0 (m_front x),
      ftr_middle_crc := (case m_middle x of Some b \<Rightarrow> crc32c env 0 b | None \<Rightarrow> 0), ftr_data_crc := 0\<rparr>"

definition prepare_write_message :: "con_env \<Rightarrow> ceph_connection \<Rightarrow> ceph_connection res" where
  "prepare_write_message env con =
    (let con = (con_out_kvec_reset con)\<lparr>out_kvec_is_msg := True, out_msg_done := False\<rparr> in
     bindE (sneak_ack con) (\<lambda>con.
     case out_queue con of
       [] \<Rightarrow> Inl (Fault BugOn)
     | m # queue \<Rightarrow>
         let con = con\<lparr>out_msg := Some m\<rparr> in
         bindE (guardE (m_con (store con m)) (Fault BugOn)) (\<lambda>_.
         let con = (ceph_msg_get m con)\<lparr>out_queue := queue, out_sent := out_sent con @ [m]\<rparr>;
             con = assign_seq m con in
         bindE (guardE (unat (hdr_front_len (store con m)) = length (m_front (store con m))) (Fault BugOn)) (\<lambda>_.
         bindE (con_out_kvec_add 1 (K_const [TAG_MSG]) con) (\<lambda>con.
         bindE (con_out_kvec_add HEADER_SIZE (K_hdr m) con) (\<lambda>con.
         bindE (con_out_kvec_add (length (m_front (store con m))) (K_front m) con) (\<lambda>con.
         bindE (case m_middle (store con m) of
                  None \<Rightarrow> Inr con
                | Some b \<Rightarrow> con_out_kvec_add (length b) (K_middle m) con) (\<lambda>con.
         let con = upd_msg m (fill_crcs env) con in
         bindE (if m_data_length (store con m) \<noteq> 0 then
                  bindE (prepare_message_data m (m_data_length (store con m)) con) (\<lambda>con.
                  Inr (con\<lparr>out_more := True\<rparr>))
                else prepare_write_message_footer con) (\<lambda>con.
         Inr (con_flag_set WRITE_PENDING con))))))))))"

definition prepare_write_ack :: "ceph_connection \<Rightarrow> ceph_connection res" where
  "prepare_write_ack con =
    (let con = con_out_kvec_reset (con\<lparr>in_seq_acked := in_seq con\<rparr>) in
     bindE (con_out_kvec_add 1 (K_const [TAG_ACK]) con) (\<lambda>con.
     bindE (con_out_kvec_add 8 K_temp_ack (con\<lparr>out_temp_ack := in_seq_acked con\<rparr>)) (\<lambda>con.
     Inr (con_flag_set WRITE_PENDING (con\<lparr>out_more := True\<rparr>)))))"

definition prepare_write_seq :: "ceph_connection \<Rightarrow> ceph_connection res" where
  "prepare_write_seq con =
    (let con = con_out_kvec_reset (con\<lparr>in_seq_acked := in_seq con\<rparr>) in
     bindE (con_out_kvec_add 8 K_temp_ack (con\<lparr>out_temp_ack := in_seq_acked con\<rparr>)) (\<lambda>con.
     Inr (con_flag_set WRITE_PENDING con)))"

definition prepare_write_keepalive :: "ceph_connection \<Rightarrow> ceph_connection res" where
  "prepare_write_keepalive con =
    bindE (con_out_kvec_add 1 (K_const [TAG_KEEPALIVE]) (con_out_kvec_reset con)) (\<lambda>con.
    Inr (con_flag_set WRITE_PENDING con))"

definition prepare_write_banner :: "ceph_connection \<Rightarrow> ceph_connection res" where
  "prepare_write_banner con =
    bindE (con_out_kvec_add (length CEPH_BANNER) (K_const CEPH_BANNER) con) (\<lambda>con.
    bindE (con_out_kvec_add 136 K_my_addr con) (\<lambda>con.
    Inr (con_flag_set WRITE_PENDING (con\<lparr>out_more := False\<rparr>))))"

text \<open>The authorizer, or none when the owner has no callback; an error is negative.\<close>

definition get_connect_authorizer ::
  "con_env \<Rightarrow> ceph_connection \<Rightarrow> (int + (ceph_auth_handshake \<times> u32) option) \<times> ceph_connection" where
  "get_connect_authorizer env con =
    (case get_authorizer env of
       None \<Rightarrow>
         (Inr None, con\<lparr>out_connect := (out_connect con)\<lparr>oc_authorizer_protocol := CEPH_AUTH_UNKNOWN, oc_authorizer_len := 0\<rparr>\<rparr>)
     | Some f \<Rightarrow>
         (case f con of
            (Inl e, con1) \<Rightarrow> (Inl e, con1)
          | (Inr (auth, proto), con1) \<Rightarrow>
              if state con1 \<noteq> CON_NEGOTIATING then (Inl (- EAGAIN), con1)
              else (Inr (Some (auth, proto)), con1\<lparr>auth_reply_buf := authorizer_reply_buf auth\<rparr>)))"

definition connect_protocol :: "u8 \<Rightarrow> u32 res" where
  "connect_protocol t =
    (if t = CEPH_ENTITY_TYPE_MON then Inr CEPH_MONC_PROTOCOL
     else if t = CEPH_ENTITY_TYPE_OSD then Inr CEPH_OSDC_PROTOCOL
     else if t = CEPH_ENTITY_TYPE_MDS then Inr CEPH_MDSC_PROTOCOL
     else Inl (Fault BugOn))"

definition prepare_write_connect :: "con_env \<Rightarrow> ceph_connection \<Rightarrow> (int \<times> ceph_connection) res" where
  "prepare_write_connect env con =
    (let (gseq, con) = get_global_seq 0 con in
     bindE (connect_protocol (fst (peer_name con))) (\<lambda>proto.
     let con = con\<lparr>out_connect := (out_connect con)\<lparr>oc_features := supported_features (msgr con),
                 oc_host_type := ucast CEPH_ENTITY_TYPE_CLIENT, oc_connect_seq := connect_seq con,
                 oc_global_seq := gseq, oc_protocol_version := proto, oc_flags := 0\<rparr>\<rparr> in
     case get_connect_authorizer env con of
       (Inl e, con) \<Rightarrow> Inr (e, con)
     | (Inr auth, con) \<Rightarrow>
         let con = con\<lparr>out_connect := (out_connect con)\<lparr>
                 oc_authorizer_protocol := (case auth of None \<Rightarrow> CEPH_AUTH_UNKNOWN | Some (_, p) \<Rightarrow> p),
                 oc_authorizer_len := (case auth of None \<Rightarrow> 0 | Some (a, _) \<Rightarrow> word_of_nat (length (authorizer_buf a)))\<rparr>\<rparr> in
         bindE (con_out_kvec_add 33 K_connect con) (\<lambda>con.
         bindE (case auth of
                  Some (a, _) \<Rightarrow>
                    if authorizer_buf a \<noteq> [] then
                      con_out_kvec_add (length (authorizer_buf a)) (K_const (authorizer_buf a)) con
                    else Inr con
                | None \<Rightarrow> Inr con) (\<lambda>con.
         Inr (0, con_flag_set WRITE_PENDING (con\<lparr>out_more := False\<rparr>))))))"

section \<open>Writing\<close>

fun base_bytes :: "ceph_connection \<Rightarrow> kvec_base \<Rightarrow> u8 list" where
  "base_bytes con (K_const bs) = bs"
| "base_bytes con K_temp_ack = le_bytes 8 (out_temp_ack con)"
| "base_bytes con (K_hdr m) = hdr_bytes (store con m)"
| "base_bytes con (K_front m) = m_front (store con m)"
| "base_bytes con (K_middle m) = (case m_middle (store con m) of Some b \<Rightarrow> b | None \<Rightarrow> [])"
| "base_bytes con (K_footer m) = footer_bytes (store con m)"
| "base_bytes con K_connect = connect_bytes (out_connect con)"
| "base_bytes con K_my_addr = my_enc_addr (msgr con)"

definition kvec_bytes :: "ceph_connection \<Rightarrow> kvec \<Rightarrow> u8 list" where
  "kvec_bytes con kv = (case kv of (b, off, len) \<Rightarrow> take len (drop off (base_bytes con b)))"

text \<open>The bytes the vectors from the current one on hold.\<close>

definition out_bytes :: "ceph_connection \<Rightarrow> u8 list" where
  "out_bytes con = concat (map (kvec_bytes con) (take (out_kvec_left con) (drop (out_kvec_cur con) (out_kvec con))))"

text \<open>Accounting for \<open>ret\<close> bytes sent: whole entries are passed, the next one is cut.\<close>

fun consume_kvecs :: "nat \<Rightarrow> nat \<Rightarrow> nat \<Rightarrow> kvec list \<Rightarrow> (nat \<times> nat \<times> kvec list) res" where
  "consume_kvecs left_n cur ret kv =
    bindE (rd kv cur) (\<lambda>(b, off, len).
    if len \<le> ret then
      (case left_n of
         0 \<Rightarrow> Inl (Fault BugOn)
       | Suc l \<Rightarrow> consume_kvecs l (cur + 1) (ret - len) kv)
    else Inr (left_n, cur, if ret \<noteq> 0 then kv[cur := (b, off + ret, len - ret)] else kv))"

lemma tcp_sendmsg_frame:
  assumes "ceph_tcp_sendmsg bs con = Inr (ret, con')"
  shows "con' = con\<lparr>sock := sock con'\<rparr>"
  using assms by (auto simp: ceph_tcp_sendmsg_def Let_def split: prod.splits)

function write_partial_kvec :: "ceph_connection \<Rightarrow> (int \<times> ceph_connection) res" where
  "write_partial_kvec con =
    (if out_kvec_bytes con = 0 then Inr (1, con\<lparr>out_kvec_left := 0, out_kvec_is_msg := False\<rparr>)
     else
       bindE (ceph_tcp_sendmsg (take (out_kvec_bytes con) (out_bytes con)) con) (\<lambda>(ret, con1).
       if ret \<le> 0 then Inr (ret, con1)
       else
         let left_bytes = out_kvec_bytes con - nat ret; con2 = con1\<lparr>out_kvec_bytes := left_bytes\<rparr> in
         if left_bytes = 0 then Inr (1, con2\<lparr>out_kvec_left := 0, out_kvec_is_msg := False\<rparr>)
         else
           bindE (consume_kvecs (out_kvec_left con2) (out_kvec_cur con2) (nat ret) (out_kvec con2)) (\<lambda>(l, cur, kv).
           write_partial_kvec (con2\<lparr>out_kvec_left := l, out_kvec_cur := cur, out_kvec := kv\<rparr>))))"
  by pat_completeness auto
termination by (relation "measure out_kvec_bytes") auto

definition zero_page :: "u8 list" where
  "zero_page = replicate PAGE_SIZE 0"

function write_partial_skip :: "ceph_connection \<Rightarrow> (int \<times> ceph_connection) res" where
  "write_partial_skip con =
    (if 0 < out_skip con then
       bindE (ceph_tcp_sendpage zero_page 0 (min (out_skip con) PAGE_SIZE) con) (\<lambda>(ret, con1).
       if ret \<le> 0 then Inr (ret, con1)
       else write_partial_skip (con1\<lparr>out_skip := out_skip con - nat ret\<rparr>))
     else Inr (1, con))"
  by pat_completeness auto
termination by (relation "measure out_skip") auto

definition ceph_crc32c_page :: "con_env \<Rightarrow> u32 \<Rightarrow> u8 list \<Rightarrow> nat \<Rightarrow> nat \<Rightarrow> u32" where
  "ceph_crc32c_page env crc page offset len = crc32c env crc (take len (drop offset page))"

text \<open>The loop over the payload ends since every round uses up one result of the network.\<close>

definition tx_left :: "ceph_connection \<Rightarrow> nat" where
  "tx_left con = (case sock con of None \<Rightarrow> 0 | Some sk \<Rightarrow> length (sk_tx sk))"

lemma tx_left_less:
  assumes "ceph_tcp_sendmsg bs con = Inr (ret, con')" and "0 < ret"
  shows "tx_left con' < tx_left con"
  using assms by (auto simp: ceph_tcp_sendmsg_def kernel_sendmsg_def tx_left_def Let_def EAGAIN_def split: list.splits if_splits)

lemma tx_left_simps [simp]:
  "tx_left (con\<lparr>store := st\<rparr>) = tx_left con" "tx_left (upd_msg m f con) = tx_left con"
  by (simp_all add: tx_left_def upd_msg_def)

function data_loop :: "con_env \<Rightarrow> nat \<Rightarrow> u32 \<Rightarrow> ceph_connection \<Rightarrow> (int \<times> u32 \<times> ceph_connection) res" where
  "data_loop env m crc con =
    (let c = m_cursor (store con m) in
     if resid c \<noteq> 0 then
       bindE (ceph_msg_data_next c) (\<lambda>(page, offset, len).
       bindE (ceph_tcp_sendpage page offset len con) (\<lambda>(ret, con1).
       if ret \<le> 0 then Inr (ret, crc, con1)
       else
         let crc1 = (if \<not> nocrc (msgr con) \<and> need_crc c then ceph_crc32c_page env crc page offset len else crc) in
         bindE (ceph_msg_data_advance c (nat ret)) (\<lambda>(new_piece, c').
         data_loop env m crc1 (upd_msg m (\<lambda>x. x\<lparr>m_cursor := c'\<rparr>) con1))))
     else Inr (1, crc, con))"
  by pat_completeness auto
termination
  by (relation "measure (\<lambda>(env, m, crc, con). tx_left con)") (auto simp: ceph_tcp_sendpage_def tx_left_less)

declare write_partial_kvec.simps [simp del] write_partial_skip.simps [simp del] data_loop.simps [simp del]
  consume_kvecs.simps [simp del]

definition write_partial_message_data :: "con_env \<Rightarrow> ceph_connection \<Rightarrow> (int \<times> ceph_connection) res" where
  "write_partial_message_data env con =
    bindE (deref (out_msg con)) (\<lambda>m.
    if m_data (store con m) = [] then Inr (- EINVAL_no, con)
    else
      let do_datacrc = (\<not> nocrc (msgr con)) in
      bindE (data_loop env m (if do_datacrc then ftr_data_crc (store con m) else 0) con) (\<lambda>(ret, crc, con).
      if ret \<le> 0 then Inr (ret, if do_datacrc then upd_msg m (\<lambda>x. x\<lparr>ftr_data_crc := crc\<rparr>) con else con)
      else
        let con = upd_msg m (\<lambda>x. if do_datacrc then x\<lparr>ftr_data_crc := crc\<rparr>
                                 else x\<lparr>ftr_flags := ftr_flags x OR CEPH_MSG_FOOTER_NOCRC\<rparr>) con in
        bindE (prepare_write_message_footer (con_out_kvec_reset con)) (\<lambda>con. Inr (1, con))))"

section \<open>Reading: getting ready\<close>

definition prepare_read_banner :: "ceph_connection \<Rightarrow> ceph_connection" where
  "prepare_read_banner con = con\<lparr>in_base_pos := 0\<rparr>"

definition prepare_read_connect :: "ceph_connection \<Rightarrow> ceph_connection" where
  "prepare_read_connect con = con\<lparr>in_base_pos := 0\<rparr>"

definition prepare_read_ack :: "ceph_connection \<Rightarrow> ceph_connection" where
  "prepare_read_ack con = con\<lparr>in_base_pos := 0\<rparr>"

definition prepare_read_seq :: "ceph_connection \<Rightarrow> ceph_connection" where
  "prepare_read_seq con = con\<lparr>in_base_pos := 0, in_tag := TAG_SEQ\<rparr>"

definition prepare_read_tag :: "ceph_connection \<Rightarrow> ceph_connection" where
  "prepare_read_tag con = con\<lparr>in_base_pos := 0, in_tag := TAG_READY\<rparr>"

definition prepare_read_message :: "ceph_connection \<Rightarrow> ceph_connection res" where
  "prepare_read_message con =
    bindE (guardE (in_msg con = None) (Fault BugOn)) (\<lambda>_.
    Inr (con\<lparr>in_base_pos := 0, in_front_crc := 0, in_middle_crc := 0, in_data_crc := 0\<rparr>))"

section \<open>The write loop\<close>

text \<open>Opening the socket on the way into \<open>try_write\<close>.\<close>

definition try_write_open :: "con_env \<Rightarrow> ceph_connection \<Rightarrow> (int \<times> ceph_connection) res" where
  "try_write_open env con =
    bindE (guardE (sock con = None) (Fault BugOn)) (\<lambda>_.
    bindE (prepare_write_banner (con_out_kvec_reset (con\<lparr>state := CON_CONNECTING\<rparr>))) (\<lambda>con.
    let con = prepare_read_banner con in
    bindE (guardE (in_msg con = None) (Fault BugOn)) (\<lambda>_.
    bindE (ceph_tcp_connect env (con\<lparr>in_tag := TAG_READY\<rparr>)) (\<lambda>(ret, con).
    Inr (ret, if ret < 0 then con\<lparr>error_msg := ''connect error''\<rparr> else con)))))"

text \<open>What \<open>do_next\<close> prepares: \<open>None\<close> when there is nothing else to write.\<close>

definition prepare_next :: "con_env \<Rightarrow> ceph_connection \<Rightarrow> ceph_connection option res" where
  "prepare_next env con =
    (if state con = CON_OPEN then
       if out_queue con \<noteq> [] then bindE (prepare_write_message env con) (\<lambda>con. Inr (Some con))
       else if in_seq_acked con < in_seq con then bindE (prepare_write_ack con) (\<lambda>con. Inr (Some con))
       else
         let (pending, con) = con_flag_test_and_clear KEEPALIVE_PENDING con in
         if pending then bindE (prepare_write_keepalive con) (\<lambda>con. Inr (Some con)) else Inr None
     else Inr None)"

text \<open>
  \<open>try_write\<close>: \<open>from_more\<close> tells the label \<open>more\<close> from \<open>more_kvec\<close>. The fuel bounds the jumps back.
\<close>

fun try_write :: "nat \<Rightarrow> con_env \<Rightarrow> bool \<Rightarrow> ceph_connection \<Rightarrow> (int \<times> ceph_connection) res" where
  "try_write 0 env from_more con = Inl NoFuel"
| "try_write (Suc n) env from_more con =
    bindE (if from_more \<and> state con = CON_PREOPEN then try_write_open env con else Inr (1, con)) (\<lambda>(ret, con).
    if ret < 0 then Inr (ret, con)
    else
      bindE (if out_skip con \<noteq> 0 then write_partial_skip con else Inr (1, con)) (\<lambda>(ret, con).
      if ret \<le> 0 then Inr (ret, con)
      else
        bindE (if out_kvec_left con \<noteq> 0 then write_partial_kvec con else Inr (1, con)) (\<lambda>(ret, con).
        if ret \<le> 0 then Inr (ret, con)
        else
          let do_next = (\<lambda>con. bindE (prepare_next env con) (\<lambda>next.
                case next of
                  Some con \<Rightarrow> try_write n env True con
                | None \<Rightarrow> Inr (0, con_flag_clear WRITE_PENDING con))) in
          case out_msg con of
            None \<Rightarrow> do_next con
          | Some m \<Rightarrow>
              if out_msg_done con then do_next ((ceph_msg_put m con)\<lparr>out_msg := None\<rparr>)
              else
                bindE (write_partial_message_data env con) (\<lambda>(ret, con).
                if ret = 1 then try_write n env False con
                else if ret \<le> 0 then Inr (ret, con)
                else do_next con))))"

section \<open>Reading: handshake replies and acknowledgements\<close>

fun ack_loop :: "u64 \<Rightarrow> nat list \<Rightarrow> ceph_connection \<Rightarrow> ceph_connection res" where
  "ack_loop ack [] con = Inr con"
| "ack_loop ack (m # sent) con =
    (if ack < hdr_seq (store con m) then Inr con
     else bindE (ceph_msg_remove m con) (ack_loop ack sent))"

definition process_ack :: "ceph_connection \<Rightarrow> ceph_connection res" where
  "process_ack con =
    bindE (ack_loop (le_word (in_temp_ack con)) (out_sent con) con) (\<lambda>con. Inr (prepare_read_tag con))"

text \<open>Answering with a new connect message, as four of the replies ask for.\<close>

definition reconnect :: "con_env \<Rightarrow> ceph_connection \<Rightarrow> (int \<times> ceph_connection) res" where
  "reconnect env con =
    bindE (prepare_write_connect env (con_out_kvec_reset con)) (\<lambda>(ret, con).
    if ret < 0 then Inr (ret, con) else Inr (0, prepare_read_connect con))"

definition CEPH_MSG_CONNECT_LOSSY :: u8 where "CEPH_MSG_CONNECT_LOSSY = 1"

text \<open>The session is accepted.\<close>

definition session_ready :: "u64 \<Rightarrow> ceph_connection \<Rightarrow> ceph_connection res" where
  "session_ready server_feat con =
    (let con = con\<lparr>state := CON_OPEN, auth_retry := 0, peer_global_seq := reply_global_seq (in_reply con),
                   connect_seq := connect_seq con + 1, peer_features := server_feat\<rparr>;
         con = (if reply_flags (in_reply con) AND CEPH_MSG_CONNECT_LOSSY \<noteq> 0 then con_flag_set LOSSYTX con else con);
         con = con\<lparr>con_delay := 0\<rparr> in
     if reply_tag (in_reply con) = TAG_SEQ then bindE (prepare_write_seq con) (\<lambda>con. Inr (prepare_read_seq con))
     else Inr (prepare_read_tag con))"

definition process_connect :: "con_env \<Rightarrow> ceph_connection \<Rightarrow> (int \<times> ceph_connection) res" where
  "process_connect env con =
    (let tag = reply_tag (in_reply con);
         server_feat = ceph_sanitize_features (reply_features (in_reply con)) in
     if tag = TAG_FEATURES then
       bindE (reset_connection (con\<lparr>error_msg := ''missing required protocol features''\<rparr>)) (\<lambda>con. Inr (- 1, con))
     else if tag = TAG_BADPROTOVER then
       bindE (reset_connection (con\<lparr>error_msg := ''protocol version mismatch''\<rparr>)) (\<lambda>con. Inr (- 1, con))
     else if tag = TAG_BADAUTHORIZER then
       let con = con\<lparr>auth_retry := auth_retry con + 1\<rparr> in
       if auth_retry con = 2 then Inr (- 1, con\<lparr>error_msg := ''connect authorization failure''\<rparr>)
       else reconnect env con
     else if tag = TAG_RESETSESSION then
       bindE (reset_connection con) (\<lambda>con.
       bindE (reconnect env con) (\<lambda>(ret, con).
       if ret < 0 then Inr (ret, con)
       else
         let con = (case peer_reset env of None \<Rightarrow> con | Some f \<Rightarrow> f con) in
         Inr (if state con \<noteq> CON_NEGOTIATING then - EAGAIN else 0, con)))
     else if tag = TAG_RETRY_SESSION then
       reconnect env (con\<lparr>connect_seq := reply_connect_seq (in_reply con)\<rparr>)
     else if tag = TAG_RETRY_GLOBAL then
       reconnect env (snd (get_global_seq (reply_global_seq (in_reply con)) con))
     else if tag = TAG_SEQ \<or> tag = TAG_READY then
       if required_features (msgr con) AND NOT server_feat \<noteq> 0 then
         bindE (reset_connection (con\<lparr>error_msg := ''missing required protocol features''\<rparr>)) (\<lambda>con. Inr (- 1, con))
       else bindE (session_ready server_feat con) (\<lambda>con. Inr (0, con))
     else if tag = TAG_WAIT then Inr (- 1, con\<lparr>error_msg := ''protocol error, got WAIT as client''\<rparr>)
     else Inr (- 1, con\<lparr>error_msg := ''protocol error, garbage tag during connect''\<rparr>))"

section \<open>Faults\<close>

definition con_state_name :: "con_state \<Rightarrow> string" where
  "con_state_name s =
    (case s of CON_CLOSED \<Rightarrow> ''CLOSED'' | CON_PREOPEN \<Rightarrow> ''PREOPEN'' | CON_CONNECTING \<Rightarrow> ''CONNECTING''
     | CON_NEGOTIATING \<Rightarrow> ''NEGOTIATING'' | CON_OPEN \<Rightarrow> ''OPEN'' | CON_STANDBY \<Rightarrow> ''STANDBY'')"

definition con_sock_closed :: "ceph_connection \<Rightarrow> bool \<times> ceph_connection" where
  "con_sock_closed con =
    (let (was_set, con) = con_flag_test_and_clear SOCK_CLOSED_FLAG con in
     if \<not> was_set then (False, con)
     else (True, con\<lparr>error_msg := ''socket closed (con state '' @ con_state_name (state con) @ '')''\<rparr>))"

text \<open>\<open>round_jiffies_relative\<close> is the timer's rounding.\<close>

definition con_backoff :: "(nat \<Rightarrow> nat) \<Rightarrow> ceph_connection \<Rightarrow> (bool \<times> ceph_connection) res" where
  "con_backoff round_jiffies_relative con =
    (let (was_set, con) = con_flag_test_and_clear BACKOFF con in
     if \<not> was_set then Inr (False, con)
     else
       let (ret, con) = queue_con_delay (round_jiffies_relative (con_delay con)) con in
       if ret \<noteq> 0 then
         bindE (guardE (ret \<noteq> - ENOENT_no) (Fault BugOn)) (\<lambda>_. Inr (True, con_flag_set BACKOFF con))
       else Inr (True, con))"

definition BASE_DELAY_INTERVAL :: "con_env \<Rightarrow> nat" where "BASE_DELAY_INTERVAL env = env_HZ env div 2"
definition MAX_DELAY_INTERVAL :: "con_env \<Rightarrow> nat" where "MAX_DELAY_INTERVAL env = 5 * 60 * env_HZ env"

definition con_fault :: "con_env \<Rightarrow> ceph_connection \<Rightarrow> ceph_connection res" where
  "con_fault env con =
    (let con = con_close_socket con in
     if con_flag_test LOSSYTX con then Inr (con\<lparr>state := CON_CLOSED\<rparr>)
     else
       bindE (drop_in_msg con) (\<lambda>con.
       let con = con\<lparr>out_queue := out_sent con @ out_queue con, out_sent := []\<rparr> in
       if out_queue con = [] \<and> \<not> con_flag_test KEEPALIVE_PENDING con then
         Inr ((con_flag_clear WRITE_PENDING con)\<lparr>state := CON_STANDBY\<rparr>)
       else
         let con = con\<lparr>state := CON_PREOPEN,
                       con_delay := (if con_delay con = 0 then BASE_DELAY_INTERVAL env
                                     else if con_delay con < MAX_DELAY_INTERVAL env then con_delay con * 2
                                     else con_delay con)\<rparr> in
         Inr (queue_con (con_flag_set BACKOFF con))))"

definition con_fault_finish :: "con_env \<Rightarrow> ceph_connection \<Rightarrow> ceph_connection" where
  "con_fault_finish env con =
    (let con = (case invalidate_authorizer env of
                  Some f \<Rightarrow> if auth_retry con \<noteq> 0 then f con else con
                | None \<Rightarrow> con) in
     case env_fault env of Some f \<Rightarrow> f con | None \<Rightarrow> con)"

section \<open>The interface of the owner\<close>

definition clear_standby :: "ceph_connection \<Rightarrow> ceph_connection" where
  "clear_standby con =
    (if state con = CON_STANDBY then con\<lparr>state := CON_PREOPEN, connect_seq := connect_seq con + 1\<rparr> else con)"

definition on_a_queue :: "nat \<Rightarrow> ceph_connection \<Rightarrow> bool" where
  "on_a_queue m con \<longleftrightarrow> m \<in> set (out_queue con) \<or> m \<in> set (out_sent con)"

definition ceph_con_send :: "nat \<Rightarrow> ceph_connection \<Rightarrow> ceph_connection res" where
  "ceph_con_send m con =
    (let con = upd_msg m (\<lambda>x. x\<lparr>hdr_src := my_name (msgr con)\<rparr>) con in
     bindE (guardE (length (m_front (store con m)) = unat (hdr_front_len (store con m))) (Fault BugOn)) (\<lambda>_.
     let con = upd_msg m (\<lambda>x. x\<lparr>needs_out_seq := True\<rparr>) con in
     if state con = CON_CLOSED then Inr (ceph_msg_put m con)
     else
       bindE (guardE (\<not> m_con (store con m)) (Fault BugOn)) (\<lambda>_.
       case con_get con of
         None \<Rightarrow> Inl (Fault BugOn)
       | Some con \<Rightarrow>
           let con = upd_msg m (\<lambda>x. x\<lparr>m_con := True\<rparr>) con in
           bindE (guardE (\<not> on_a_queue m con) (Fault BugOn)) (\<lambda>_.
           let con = clear_standby (con\<lparr>out_queue := out_queue con @ [m]\<rparr>);
               (was_set, con) = con_flag_test_and_set WRITE_PENDING con in
           Inr (if \<not> was_set then queue_con con else con)))))"

text \<open>\<open>msg->con\<close> is this connection or none.\<close>

definition ceph_msg_revoke :: "nat \<Rightarrow> ceph_connection \<Rightarrow> ceph_connection" where
  "ceph_msg_revoke m con =
    (if \<not> m_con (store con m) then con
     else
       let con = (if on_a_queue m con then
                    ceph_msg_put m (upd_msg m (\<lambda>x. x\<lparr>m_con := False, hdr_seq := 0\<rparr>) (con_put (unlink m con)))
                  else con) in
       if out_msg con = Some m then
         let con = con\<lparr>out_msg := None\<rparr>;
             con = (if out_kvec_is_msg con then con\<lparr>out_skip := out_kvec_bytes con, out_kvec_is_msg := False\<rparr> else con) in
         ceph_msg_put m (upd_msg m (\<lambda>x. x\<lparr>hdr_seq := 0\<rparr>) con)
       else con)"

definition hdr_front_len_of :: "u8 list \<Rightarrow> u32" where "hdr_front_len_of h = le_word (take 4 (drop 22 h))"
definition hdr_middle_len_of :: "u8 list \<Rightarrow> u32" where "hdr_middle_len_of h = le_word (take 4 (drop 26 h))"
definition hdr_data_len_of :: "u8 list \<Rightarrow> u32" where "hdr_data_len_of h = le_word (take 4 (drop 30 h))"

definition ceph_msg_revoke_incoming :: "nat \<Rightarrow> ceph_connection \<Rightarrow> ceph_connection" where
  "ceph_msg_revoke_incoming m con =
    (if \<not> m_con (store con m) then con
     else if in_msg con = Some m then
       (ceph_msg_put m con)\<lparr>
         in_base_pos := in_base_pos con - int HEADER_SIZE - uint (hdr_front_len_of (in_hdr con)) -
           uint (hdr_middle_len_of (in_hdr con)) - uint (hdr_data_len_of (in_hdr con)) - int FOOTER_SIZE,
         in_msg := None, in_tag := TAG_READY, in_seq := in_seq con + 1\<rparr>
     else con)"

definition ceph_con_keepalive :: "ceph_connection \<Rightarrow> ceph_connection" where
  "ceph_con_keepalive con =
    (let (k, con) = con_flag_test_and_set KEEPALIVE_PENDING (clear_standby con) in
     if k then con
     else
       let (w, con) = con_flag_test_and_set WRITE_PENDING con in
       if w then con else queue_con con)"

section \<open>Building messages\<close>

definition CEPH_MSG_PRIO_DEFAULT :: u16 where "CEPH_MSG_PRIO_DEFAULT = 127"

definition ceph_msg_data_add_pages :: "u8 list list \<Rightarrow> nat \<Rightarrow> nat \<Rightarrow> ceph_msg \<Rightarrow> ceph_msg res" where
  "ceph_msg_data_add_pages pages len alignment msg =
    bindE (guardE (len \<noteq> 0) (Fault BugOn)) (\<lambda>_.
    Inr (msg\<lparr>m_data := m_data msg @ [Data_pages pages len (alignment mod PAGE_SIZE)],
             m_data_length := m_data_length msg + len\<rparr>))"

definition ceph_msg_data_add_pagelist :: "ceph_pagelist \<Rightarrow> ceph_msg \<Rightarrow> ceph_msg res" where
  "ceph_msg_data_add_pagelist pagelist msg =
    bindE (guardE (pl_length pagelist \<noteq> 0) (Fault BugOn)) (\<lambda>_.
    Inr (msg\<lparr>m_data := m_data msg @ [Data_pagelist pagelist],
             m_data_length := m_data_length msg + pl_length pagelist\<rparr>))"

definition ceph_msg_data_add_bio :: "bio list \<Rightarrow> nat \<Rightarrow> ceph_msg \<Rightarrow> ceph_msg res" where
  "ceph_msg_data_add_bio bio len msg =
    bindE (guardE (bio \<noteq> []) (Fault BugOn)) (\<lambda>_.
    Inr (msg\<lparr>m_data := m_data msg @ [Data_bio bio len], m_data_length := m_data_length msg + len\<rparr>))"

text \<open>
  A new message with one reference: \<open>front\<close> is the memory the allocator gives for the front, and
  \<open>None\<close> when there is none for the message or for its front.
\<close>

definition ceph_msg_new :: "u16 \<Rightarrow> nat \<Rightarrow> ceph_msg_data_cursor \<Rightarrow> u8 list option \<Rightarrow> ceph_msg option" where
  "ceph_msg_new type front_len cursor front =
    (case front of
       None \<Rightarrow> None
     | Some mem \<Rightarrow>
         Some \<lparr>hdr_seq = 0, hdr_tid = 0, hdr_type = type, hdr_priority = CEPH_MSG_PRIO_DEFAULT, hdr_version = 0,
           hdr_front_len = word_of_nat front_len, hdr_middle_len = 0, hdr_data_len = 0, hdr_data_off = 0,
           hdr_src = (0, 0), hdr_reserved = 0, hdr_crc = 0, ftr_front_crc = 0, ftr_middle_crc = 0, ftr_data_crc = 0,
           ftr_flags = 0, m_front = take front_len mem, front_alloc_len = front_len, m_middle = None, middle_alloc_len = 0, m_data_length = 0, m_data = [],
           m_cursor = cursor, m_con = False, m_kref = 1, more_to_follow = False, needs_out_seq = False\<rparr>)"

end
