(* ===== verification/Messenger_Session.thy ===== *)
theory Messenger_Session
  imports Messenger
begin

text \<open>
  The session of a connection: what its operations do to the messages that are queued or sent but
  not acknowledged, to their sequence numbers and to their references.
\<close>

section \<open>The invariant\<close>

definition pending :: "ceph_connection \<Rightarrow> nat list" where
  "pending con = out_sent con @ out_queue con"

text \<open>A message with a number stands behind messages with smaller numbers only.\<close>

definition seq_before :: "(nat \<Rightarrow> ceph_msg) \<Rightarrow> nat \<Rightarrow> nat \<Rightarrow> bool" where
  "seq_before st a b \<longleftrightarrow>
    needs_out_seq (st b) \<or> \<not> needs_out_seq (st a) \<and> hdr_seq (st a) < hdr_seq (st b)"

text \<open>The references the connection holds on a message.\<close>

definition con_refs :: "ceph_connection \<Rightarrow> nat \<Rightarrow> nat" where
  "con_refs con m =
    of_bool (m \<in> set (pending con)) + of_bool (out_msg con = Some m) + of_bool (in_msg con = Some m)"

definition session_ok :: "ceph_connection \<Rightarrow> bool" where
  "session_ok con \<longleftrightarrow>
    distinct (pending con) \<and>
    (\<forall>m\<in>set (pending con). m_con (store con m)) \<and>
    (\<forall>m. in_msg con = Some m \<longrightarrow> m_con (store con m) \<and> m \<notin> set (pending con)) \<and>
    (\<forall>m\<in>set (out_sent con). \<not> needs_out_seq (store con m)) \<and>
    (\<forall>m\<in>set (pending con). \<not> needs_out_seq (store con m) \<longrightarrow> hdr_seq (store con m) \<le> out_seq con) \<and>
    sorted_wrt (seq_before (store con)) (pending con) \<and>
    (\<forall>m. con_refs con m \<le> m_kref (store con m))"

text \<open>
  The part of a connection the invariant reads. An operation that keeps it keeps the invariant
  and the pending messages.
\<close>

definition msg_view :: "ceph_msg \<Rightarrow> bool \<times> nat \<times> bool \<times> u64" where
  "msg_view x = (m_con x, m_kref x, needs_out_seq x, hdr_seq x)"

definition session_view ::
  "ceph_connection \<Rightarrow> nat list \<times> nat list \<times> nat option \<times> nat option \<times> u64 \<times> (nat \<Rightarrow> bool \<times> nat \<times> bool \<times> u64)" where
  "session_view con = (out_sent con, out_queue con, out_msg con, in_msg con, out_seq con, msg_view \<circ> store con)"

lemma session_view_eqD:
  assumes "session_view con' = session_view con"
  shows "out_sent con' = out_sent con" "out_queue con' = out_queue con" "out_msg con' = out_msg con"
    "in_msg con' = in_msg con" "out_seq con' = out_seq con" "pending con' = pending con"
    "m_con (store con' m) = m_con (store con m)" "m_kref (store con' m) = m_kref (store con m)"
    "needs_out_seq (store con' m) = needs_out_seq (store con m)" "hdr_seq (store con' m) = hdr_seq (store con m)"
  using assms by (auto simp: session_view_def msg_view_def pending_def fun_eq_iff)

lemma session_view_ok:
  assumes "session_view con' = session_view con"
  shows "session_ok con' = session_ok con"
proof -
  note eqs = session_view_eqD[OF assms]
  have "seq_before (store con') = seq_before (store con)" by (simp add: fun_eq_iff seq_before_def eqs)
  moreover have "con_refs con' = con_refs con" by (simp add: fun_eq_iff con_refs_def eqs)
  ultimately show ?thesis by (simp add: session_ok_def eqs)
qed

lemma view_upd [simp]:
  "session_view (con\<lparr>msgr := mr\<rparr>) = session_view con"
  "session_view (con\<lparr>sock_state := ss\<rparr>) = session_view con"
  "session_view (con\<lparr>sock := sk\<rparr>) = session_view con"
  "session_view (con\<lparr>flags := fl\<rparr>) = session_view con"
  "session_view (con\<lparr>state := s\<rparr>) = session_view con"
  "session_view (con\<lparr>error_msg := e\<rparr>) = session_view con"
  "session_view (con\<lparr>peer_name := pn\<rparr>) = session_view con"
  "session_view (con\<lparr>peer_addr := pa\<rparr>) = session_view con"
  "session_view (con\<lparr>peer_features := pf\<rparr>) = session_view con"
  "session_view (con\<lparr>connect_seq := cs\<rparr>) = session_view con"
  "session_view (con\<lparr>peer_global_seq := gs\<rparr>) = session_view con"
  "session_view (con\<lparr>auth_retry := k\<rparr>) = session_view con"
  "session_view (con\<lparr>in_seq := i\<rparr>) = session_view con"
  "session_view (con\<lparr>in_seq_acked := i\<rparr>) = session_view con"
  "session_view (con\<lparr>out_connect := oc\<rparr>) = session_view con"
  "session_view (con\<lparr>in_reply := bs\<rparr>) = session_view con"
  "session_view (con\<lparr>out_msg_done := b\<rparr>) = session_view con"
  "session_view (con\<lparr>out_kvec := kv\<rparr>) = session_view con"
  "session_view (con\<lparr>out_kvec_cur := k\<rparr>) = session_view con"
  "session_view (con\<lparr>out_kvec_left := k\<rparr>) = session_view con"
  "session_view (con\<lparr>out_kvec_bytes := k\<rparr>) = session_view con"
  "session_view (con\<lparr>out_skip := k\<rparr>) = session_view con"
  "session_view (con\<lparr>out_kvec_is_msg := b\<rparr>) = session_view con"
  "session_view (con\<lparr>out_more := b\<rparr>) = session_view con"
  "session_view (con\<lparr>out_temp_ack := i\<rparr>) = session_view con"
  "session_view (con\<lparr>in_banner := bs\<rparr>) = session_view con"
  "session_view (con\<lparr>actual_peer_addr := bs\<rparr>) = session_view con"
  "session_view (con\<lparr>peer_addr_for_me := bs\<rparr>) = session_view con"
  "session_view (con\<lparr>auth_reply_buf := bs\<rparr>) = session_view con"
  "session_view (con\<lparr>in_hdr := bs\<rparr>) = session_view con"
  "session_view (con\<lparr>in_data := bs\<rparr>) = session_view con"
  "session_view (con\<lparr>in_front_crc := c\<rparr>) = session_view con"
  "session_view (con\<lparr>in_middle_crc := c\<rparr>) = session_view con"
  "session_view (con\<lparr>in_data_crc := c\<rparr>) = session_view con"
  "session_view (con\<lparr>in_tag := t\<rparr>) = session_view con"
  "session_view (con\<lparr>in_base_pos := p\<rparr>) = session_view con"
  "session_view (con\<lparr>in_temp_ack := bs\<rparr>) = session_view con"
  "session_view (con\<lparr>con_delay := k\<rparr>) = session_view con"
  "session_view (con\<lparr>con_ref := k\<rparr>) = session_view con"
  "session_view (con\<lparr>work := w\<rparr>) = session_view con"
  by (simp_all add: session_view_def)

lemma view_upd_msg [simp]:
  "(\<And>x. msg_view (f x) = msg_view x) \<Longrightarrow> session_view (upd_msg m f con) = session_view con"
  by (auto simp: session_view_def upd_msg_def fun_eq_iff)

lemma msg_view_upd [simp]:
  "msg_view (x\<lparr>m_cursor := c\<rparr>) = msg_view x" "msg_view (x\<lparr>ftr_data_crc := i\<rparr>) = msg_view x"
  "msg_view (x\<lparr>ftr_flags := fl\<rparr>) = msg_view x" "msg_view (x\<lparr>hdr_src := src\<rparr>) = msg_view x"
  "msg_view (fill_crcs env x) = msg_view x"
  by (simp_all add: msg_view_def fill_crcs_def)

section \<open>Operations that keep the session\<close>

lemma view_flags [simp]:
  "session_view (con_flag_clear f con) = session_view con" "session_view (con_flag_set f con) = session_view con"
  by (simp_all add: flag_defs)

lemma view_refs [simp]:
  "session_view (con_put con) = session_view con"
  "con_get con = Some con' \<Longrightarrow> session_view con' = session_view con"
  by (auto simp: con_put_def con_get_def split: if_splits)

lemma view_queue_con [simp]:
  "session_view (snd (queue_con_delay d con)) = session_view con"
  "session_view (queue_con con) = session_view con" "session_view (cancel_con con) = session_view con"
  by (auto simp: queue_con_def queue_con_delay_def cancel_con_def con_get_def split: option.splits)

lemma view_sock_callbacks [simp]:
  "session_view (ceph_sock_data_ready sk con) = session_view con"
  "session_view (ceph_sock_write_space w mw con) = session_view con"
  "session_view (ceph_sock_state_change sk con) = session_view con"
  by (auto simp: ceph_sock_data_ready_def ceph_sock_write_space_def ceph_sock_state_change_def sock_state_defs
      split: tcp_state.splits)

lemma view_close_socket [simp]: "session_view (con_close_socket con) = session_view con"
  by (simp add: con_close_socket_def sock_state_defs)

lemma view_kvec [simp]: "session_view (con_out_kvec_reset con) = session_view con"
  by (simp add: con_out_kvec_reset_def)

lemma kvec_add_view: "con_out_kvec_add n b con = Inr con' \<Longrightarrow> session_view con' = session_view con"
  by (auto simp: con_out_kvec_add_def Let_def)

lemma sendmsg_view: "ceph_tcp_sendmsg bs con = Inr (r, con') \<Longrightarrow> session_view con' = session_view con"
  using tcp_sendmsg_frame[of bs con r con'] by (metis view_upd(3))

lemma footer_view: "prepare_write_message_footer con = Inr con' \<Longrightarrow> session_view con' = session_view con"
  by (auto simp: prepare_write_message_footer_def Let_def)

lemma sneak_ack_view: "sneak_ack con = Inr con' \<Longrightarrow> session_view con' = session_view con"
  by (auto simp: sneak_ack_def Let_def dest!: kvec_add_view split: if_splits)

lemma write_ack_view: "prepare_write_ack con = Inr con' \<Longrightarrow> session_view con' = session_view con"
  by (auto simp: prepare_write_ack_def Let_def dest!: kvec_add_view)

lemma write_seq_view: "prepare_write_seq con = Inr con' \<Longrightarrow> session_view con' = session_view con"
  by (auto simp: prepare_write_seq_def Let_def dest!: kvec_add_view)

lemma write_keepalive_view: "prepare_write_keepalive con = Inr con' \<Longrightarrow> session_view con' = session_view con"
  by (auto simp: prepare_write_keepalive_def Let_def dest!: kvec_add_view)

lemma write_banner_view: "prepare_write_banner con = Inr con' \<Longrightarrow> session_view con' = session_view con"
  by (auto simp: prepare_write_banner_def Let_def dest!: kvec_add_view)

lemma message_data_view: "prepare_message_data m n con = Inr con' \<Longrightarrow> session_view con' = session_view con"
  by (auto simp: prepare_message_data_def Let_def)

lemma tcp_connect_view: "ceph_tcp_connect env con = Inr (r, con') \<Longrightarrow> session_view con' = session_view con"
  by (auto simp: ceph_tcp_connect_def Let_def sock_state_defs split: prod.splits if_splits)

lemma write_open_view: "try_write_open env con = Inr (r, con') \<Longrightarrow> session_view con' = session_view con"
  by (auto simp: try_write_open_def Let_def prepare_read_banner_def dest!: write_banner_view tcp_connect_view)

lemma write_kvec_view: "write_partial_kvec con = Inr (r, con') \<Longrightarrow> session_view con' = session_view con"
proof (induction con arbitrary: r con' rule: write_partial_kvec.induct)
  case (1 con)
  show ?case
  proof (cases "out_kvec_bytes con = 0")
    case True
    with 1(2) show ?thesis by (subst (asm) write_partial_kvec.simps) auto
  next
    case False
    with 1(2) obtain ret con1 where s: "ceph_tcp_sendmsg (take (out_kvec_bytes con) (out_bytes con)) con = Inr (ret, con1)"
      by (subst (asm) write_partial_kvec.simps) auto
    note v = sendmsg_view[OF s]
    show ?thesis
      using 1(2) False s v
      by (subst (asm) write_partial_kvec.simps) (auto simp: Let_def split: if_splits dest!: 1(1)[OF False s refl _ refl refl])
  qed
qed

lemma sendpage_view: "ceph_tcp_sendpage p off n con = Inr (r, con') \<Longrightarrow> session_view con' = session_view con"
  by (simp add: ceph_tcp_sendpage_def sendmsg_view)

lemma write_skip_view: "write_partial_skip con = Inr (r, con') \<Longrightarrow> session_view con' = session_view con"
proof (induction con arbitrary: r con' rule: write_partial_skip.induct)
  case (1 con)
  show ?case
  proof (cases "0 < out_skip con")
    case False
    with 1(2) show ?thesis by (subst (asm) write_partial_skip.simps) auto
  next
    case True
    with 1(2) obtain ret con1 where s: "ceph_tcp_sendpage zero_page 0 (min (out_skip con) PAGE_SIZE) con = Inr (ret, con1)"
      by (subst (asm) write_partial_skip.simps) auto
    show ?thesis
      using 1(2) True s sendpage_view[OF s]
      by (subst (asm) write_partial_skip.simps) (auto split: if_splits dest!: 1(1)[OF True s refl])
  qed
qed

lemma data_loop_view: "data_loop env m crc con = Inr (r, crc', con') \<Longrightarrow> session_view con' = session_view con"
proof (induction env m crc con arbitrary: r crc' con' rule: data_loop.induct)
  case (1 env m crc con)
  let ?c = "m_cursor (store con m)"
  show ?case
  proof (cases "resid ?c \<noteq> 0")
    case False
    with 1(2) show ?thesis by (subst (asm) data_loop.simps) auto
  next
    case True
    with 1(2) obtain page off len where n: "ceph_msg_data_next ?c = Inr (page, off, len)"
      by (subst (asm) data_loop.simps) (auto simp: Let_def)
    with True 1(2) obtain ret con1 where s: "ceph_tcp_sendpage page off len con = Inr (ret, con1)"
      by (subst (asm) data_loop.simps) (auto simp: Let_def)
    show ?thesis
      using 1(2) True n s sendpage_view[OF s]
      by (subst (asm) data_loop.simps)
        (auto simp: Let_def split: if_splits dest!: 1(1)[OF refl True n refl refl s refl, OF _ refl])
  qed
qed

lemma write_data_view:
  assumes "write_partial_message_data env con = Inr (r, con')"
  shows "session_view con' = session_view con"
  using assms
  by (auto simp: write_partial_message_data_def Let_def split: if_splits dest!: data_loop_view footer_view)

lemmas keeps_view = kvec_add_view sneak_ack_view write_ack_view write_seq_view write_keepalive_view write_banner_view
  message_data_view tcp_connect_view write_open_view write_kvec_view write_skip_view write_data_view footer_view

section \<open>Sending a message\<close>

text \<open>The next message moves to the sent list, and gets a number if it has none.\<close>

definition sent_view where
  "sent_view con m queue =
    (let s = (if needs_out_seq (store con m) then out_seq con + 1 else hdr_seq (store con m)) in
     (out_sent con @ [m], queue, Some m, in_msg con, if needs_out_seq (store con m) then s else out_seq con,
      (msg_view \<circ> store con)(m := (True, m_kref (store con m) + 1, False, s))))"

lemma sent_view_cong: "session_view c = session_view d \<Longrightarrow> sent_view c m queue = sent_view d m queue"
  by (auto simp: sent_view_def session_view_def Let_def fun_eq_iff msg_view_def)

lemma move_view:
  assumes "m_con (store con m)"
  shows "session_view (assign_seq m ((ceph_msg_get m (con\<lparr>out_msg := Some m\<rparr>))\<lparr>
      out_queue := queue, out_sent := out_sent con @ [m]\<rparr>)) = sent_view con m queue"
  using assms
  by (auto simp: session_view_def assign_seq_def sent_view_def msg_ref_defs Let_def fun_eq_iff msg_view_def)

lemma prepare_write_message_view:
  assumes "prepare_write_message env con = Inr con'"
  shows "\<exists>m queue. out_queue con = m # queue \<and> session_view con' = sent_view con m queue"
proof -
  let ?c0 = "(con_out_kvec_reset con)\<lparr>out_kvec_is_msg := True, out_msg_done := False\<rparr>"
  obtain c1 where c1: "sneak_ack ?c0 = Inr c1" using assms by (auto simp: prepare_write_message_def Let_def)
  have v1: "session_view c1 = session_view con" using sneak_ack_view[OF c1] by simp
  obtain m queue where q: "out_queue c1 = m # queue" and mc: "m_con (store c1 m)"
    using assms c1 by (auto simp: prepare_write_message_def Let_def split: list.splits)
  let ?c2 = "assign_seq m ((ceph_msg_get m (c1\<lparr>out_msg := Some m\<rparr>))\<lparr>out_queue := queue, out_sent := out_sent c1 @ [m]\<rparr>)"
  have v2: "session_view ?c2 = sent_view c1 m queue"
    by (rule move_view[OF mc])
  have "session_view con' = session_view ?c2"
    using assms c1 q mc
    by (auto simp: prepare_write_message_def Let_def split: option.splits if_splits dest!: keeps_view)
  with v1 v2 q session_view_eqD(2)[OF v1] show ?thesis using sent_view_cong by metis
qed

lemma session_okI:
  assumes "distinct (pending con)"
    and "\<And>m. m \<in> set (pending con) \<Longrightarrow> m_con (store con m)"
    and "\<And>m. in_msg con = Some m \<Longrightarrow> m_con (store con m) \<and> m \<notin> set (pending con)"
    and "\<And>m. m \<in> set (out_sent con) \<Longrightarrow> \<not> needs_out_seq (store con m)"
    and "\<And>m. m \<in> set (pending con) \<Longrightarrow> \<not> needs_out_seq (store con m) \<Longrightarrow> hdr_seq (store con m) \<le> out_seq con"
    and "sorted_wrt (seq_before (store con)) (pending con)"
    and "\<And>m. con_refs con m \<le> m_kref (store con m)"
  shows "session_ok con"
  using assms by (auto simp: session_ok_def)

lemma session_okD:
  assumes "session_ok con"
  shows "distinct (pending con)" "m \<in> set (pending con) \<Longrightarrow> m_con (store con m)"
    "in_msg con = Some m \<Longrightarrow> m_con (store con m)" "in_msg con = Some m \<Longrightarrow> m \<notin> set (pending con)"
    "m \<in> set (out_sent con) \<Longrightarrow> \<not> needs_out_seq (store con m)"
    "m \<in> set (pending con) \<Longrightarrow> \<not> needs_out_seq (store con m) \<Longrightarrow> hdr_seq (store con m) \<le> out_seq con"
    "sorted_wrt (seq_before (store con)) (pending con)" "con_refs con m \<le> m_kref (store con m)"
  using assms by (auto simp: session_ok_def)

text \<open>The order only depends on the numbers of the messages in the list.\<close>

lemma sorted_seq_cong:
  assumes "sorted_wrt (seq_before st) ms"
    and "\<And>m. m \<in> set ms \<Longrightarrow> needs_out_seq (st' m) = needs_out_seq (st m) \<and> hdr_seq (st' m) = hdr_seq (st m)"
  shows "sorted_wrt (seq_before st') ms"
  using assms by (auto intro: sorted_wrt_mono_rel[rotated] simp: seq_before_def)

lemma sent_view_D:
  assumes "session_view con' = sent_view con m queue"
  defines "s \<equiv> if needs_out_seq (store con m) then out_seq con + 1 else hdr_seq (store con m)"
  shows "out_sent con' = out_sent con @ [m]" "out_queue con' = queue" "out_msg con' = Some m" "in_msg con' = in_msg con"
    "out_seq con' = (if needs_out_seq (store con m) then s else out_seq con)"
    "m_con (store con' m')  = (m' = m \<or> m_con (store con m'))"
    "m_kref (store con' m') = (if m' = m then m_kref (store con m) + 1 else m_kref (store con m'))"
    "needs_out_seq (store con' m') = (m' \<noteq> m \<and> needs_out_seq (store con m'))"
    "hdr_seq (store con' m') = (if m' = m then s else hdr_seq (store con m'))"
  using assms by (auto simp: session_view_def sent_view_def Let_def fun_eq_iff msg_view_def split: if_splits)

lemma unat_bump: "s \<noteq> - 1 \<Longrightarrow> unat (s + 1 :: u64) = Suc (unat s)"
  by (metis add.commute add_eq_0_iff unatSuc)

lemma out_seq_bump: "out_seq con \<noteq> - 1 \<Longrightarrow> x \<le> out_seq con \<Longrightarrow> x < out_seq con + 1"
  by (simp add: word_less_nat_alt word_le_nat_alt unat_bump)

text \<open>Giving a reference back lowers the count; nothing else the session reads changes.\<close>

lemma msg_put_simps [simp]:
  "out_sent (ceph_msg_put m con) = out_sent con" "out_queue (ceph_msg_put m con) = out_queue con"
  "out_msg (ceph_msg_put m con) = out_msg con" "in_msg (ceph_msg_put m con) = in_msg con"
  "out_seq (ceph_msg_put m con) = out_seq con" "pending (ceph_msg_put m con) = pending con"
  "m_con (store (ceph_msg_put m con) x) = m_con (store con x)"
  "needs_out_seq (store (ceph_msg_put m con) x) = needs_out_seq (store con x)"
  "hdr_seq (store (ceph_msg_put m con) x) = hdr_seq (store con x)"
  "m_kref (store (ceph_msg_put m con) x) = (if x = m then m_kref (store con x) - 1 else m_kref (store con x))"
  by (auto simp: msg_ref_defs pending_def)

lemma upd_msg_simps [simp]:
  "out_sent (upd_msg m f con) = out_sent con" "out_queue (upd_msg m f con) = out_queue con"
  "out_msg (upd_msg m f con) = out_msg con" "in_msg (upd_msg m f con) = in_msg con"
  "out_seq (upd_msg m f con) = out_seq con" "pending (upd_msg m f con) = pending con"
  "state (upd_msg m f con) = state con" "flags (upd_msg m f con) = flags con"
  "store (upd_msg m f con) x = (if x = m then f (store con m) else store con x)"
  by (auto simp: upd_msg_def pending_def)

lemma pending_upd [simp]:
  "pending (con\<lparr>out_msg := om\<rparr>) = pending con" "pending (con\<lparr>in_msg := im\<rparr>) = pending con"
  "pending (con\<lparr>store := st\<rparr>) = pending con" "pending (con\<lparr>out_seq := i\<rparr>) = pending con"
  by (simp_all add: pending_def)

lemma session_ok_sent:
  assumes ok: "session_ok con" and q: "out_queue con = m # queue" and wrap: "out_seq con \<noteq> - 1"
    and v: "session_view con' = sent_view con m queue"
  shows "session_ok con'" and "pending con' = pending con"
proof -
  note d = sent_view_D[OF v]
  show p: "pending con' = pending con" by (simp add: pending_def d q)
  have m: "m \<in> set (pending con)" "m \<notin> set (out_sent con)" "m \<notin> set queue"
    using session_okD(1)[OF ok] by (auto simp: pending_def q)
  have sorted: "sorted_wrt (seq_before (store con)) (out_sent con @ m # queue)"
    using session_okD(7)[OF ok] by (simp add: pending_def q)
  show "session_ok con'"
  proof (rule session_okI)
    show "sorted_wrt (seq_before (store con')) (pending con')"
    proof (cases "needs_out_seq (store con m)")
      case True
      then have u: "\<forall>x\<in>set queue. needs_out_seq (store con x)" using sorted by (auto simp: sorted_wrt_append seq_before_def)
      have n: "\<forall>x\<in>set (out_sent con). \<not> needs_out_seq (store con x) \<and> hdr_seq (store con x) < out_seq con + 1"
        using session_okD(5,6)[OF ok] out_seq_bump[OF wrap] by (auto simp: pending_def)
      have "sorted_wrt (seq_before (store con')) (out_sent con)" "sorted_wrt (seq_before (store con')) queue"
        using sorted m by (auto simp: sorted_wrt_append d intro!: sorted_seq_cong[of "store con"])
      then show ?thesis using u n True m unfolding p by (auto simp: pending_def q sorted_wrt_append seq_before_def d)
    next
      case False
      then show ?thesis
        unfolding p using session_okD(7)[OF ok] by (elim sorted_seq_cong) (auto simp: d)
    qed
  next
    show "hdr_seq (store con' x) \<le> out_seq con'" if "x \<in> set (pending con')" "\<not> needs_out_seq (store con' x)" for x
    proof (cases "x = m")
      case True
      then show ?thesis using session_okD(6)[OF ok m(1)] by (auto simp: d)
    next
      case False
      then have "hdr_seq (store con x) \<le> out_seq con" using that session_okD(6)[OF ok] by (auto simp: p d)
      then show ?thesis using False out_seq_bump[OF wrap] by (auto simp: d intro: less_imp_le)
    qed
  next
    show "con_refs con' x \<le> m_kref (store con' x)" for x
      using session_okD(8)[OF ok, of x] by (auto simp: con_refs_def p d)
  next
    show "in_msg con' = Some x \<Longrightarrow> m_con (store con' x) \<and> x \<notin> set (pending con')" for x
      using session_okD(3,4)[OF ok] by (auto simp: p d)
  next
    show "x \<in> set (out_sent con') \<Longrightarrow> \<not> needs_out_seq (store con' x)" for x
      using session_okD(5)[OF ok] by (auto simp: d)
  next
    show "x \<in> set (pending con') \<Longrightarrow> m_con (store con' x)" for x
      using session_okD(2)[OF ok] by (auto simp: p d)
  qed (use session_okD(1)[OF ok] p in simp)
qed

text \<open>Being done with the message that was sent gives its reference back.\<close>

lemma session_ok_out_done:
  assumes ok: "session_ok con" and o: "out_msg con = Some m"
  shows "session_ok ((ceph_msg_put m con)\<lparr>out_msg := None\<rparr>)" and
    "pending ((ceph_msg_put m con)\<lparr>out_msg := None\<rparr>) = pending con"
proof -
  let ?c = "(ceph_msg_put m con)\<lparr>out_msg := None\<rparr>"
  show "pending ?c = pending con" by simp
  show "session_ok ?c"
  proof (rule session_okI)
    show "con_refs ?c x \<le> m_kref (store ?c x)" for x
      using session_okD(8)[OF ok, of x] by (auto simp: con_refs_def o)
    show "sorted_wrt (seq_before (store ?c)) (pending ?c)"
      using session_okD(7)[OF ok] by (auto elim: sorted_seq_cong)
  qed (use session_okD[OF ok] in auto)
qed

section \<open>The write loop\<close>

text \<open>The counter of the session does not wrap while the queue is sent.\<close>

definition seq_room :: "ceph_connection \<Rightarrow> bool" where
  "seq_room con \<longleftrightarrow> unat (out_seq con) + length (out_queue con) < 2 ^ 64 - 1"

lemma seq_room_view: "session_view c = session_view d \<Longrightarrow> seq_room c = seq_room d"
  by (simp add: seq_room_def session_view_def)

lemma seq_room_sent:
  assumes "seq_room con" and "out_queue con = m # queue" and "session_view con' = sent_view con m queue"
  shows "seq_room con'" and "out_seq con \<noteq> - 1"
proof -
  show ne: "out_seq con \<noteq> - 1"
    using assms(1,2) by (auto simp: seq_room_def unsigned_minus_1_eq_mask mask_eq_exp_minus_1)
  show "seq_room con'"
    using assms(1,2) by (auto simp: seq_room_def sent_view_D[OF assms(3)] unat_bump[OF ne])
qed

lemma prepare_next_keeps:
  assumes "prepare_next env con = Inr (Some con')" and "session_ok con" and "seq_room con"
  shows "session_ok con' \<and> seq_room con' \<and> pending con' = pending con"
proof -
  have keep: ?thesis if "session_view con' = session_view con"
    using that assms(2,3) session_view_ok[OF that] seq_room_view[OF that] session_view_eqD(6)[OF that] by simp
  consider (msg) "prepare_write_message env con = Inr con'" | (other) "session_view con' = session_view con"
    using assms(1)
    by (auto simp: prepare_next_def Let_def con_flag_test_and_clear_def split: if_splits dest!: write_ack_view write_keepalive_view)
  then show ?thesis
  proof cases
    case msg
    from prepare_write_message_view[OF msg] obtain m queue where
      "out_queue con = m # queue" "session_view con' = sent_view con m queue" by blast
    then show ?thesis using assms(2,3) session_ok_sent seq_room_sent by metis
  qed (rule keep)
qed

text \<open>Partial correctness of a step: what holds if it returns.\<close>

abbreviation if_returns :: "('a \<Rightarrow> bool) \<Rightarrow> 'a res \<Rightarrow> bool" where
  "if_returns \<equiv> safe (\<lambda>_. True)"

lemma if_returnsD: "if_returns P m \<Longrightarrow> m = Inr x \<Longrightarrow> P x"
  by simp

lemma if_returnsI: "(\<And>x. m = Inr x \<Longrightarrow> P x) \<Longrightarrow> if_returns P m"
  by (cases m) auto

lemma if_returns_view:
  assumes "\<And>r c'. f = Inr (r, c') \<Longrightarrow> session_view c' = session_view c"
    and "\<And>c'. session_view c' = session_view c \<Longrightarrow> K c'"
  shows "if_returns (\<lambda>(r, c). K c) f"
  using assms by (auto intro!: if_returnsI)

definition writes_keep :: "nat list \<Rightarrow> ceph_connection \<Rightarrow> bool" where
  "writes_keep p c \<longleftrightarrow> session_ok c \<and> seq_room c \<and> pending c = p"

lemma writes_keep_view: "session_view d = session_view c \<Longrightarrow> writes_keep p c \<Longrightarrow> writes_keep p d"
  unfolding writes_keep_def using session_view_ok seq_room_view session_view_eqD(6) by metis

lemma writes_keep_next: "writes_keep p c \<Longrightarrow> if_returns (pred_option (writes_keep p)) (prepare_next env c)"
  using prepare_next_keeps[of env c] by (auto intro!: if_returnsI simp: writes_keep_def pred_option_def)

lemma writes_keep_done: "writes_keep p c \<Longrightarrow> out_msg c = Some m \<Longrightarrow> writes_keep p ((ceph_msg_put m c)\<lparr>out_msg := None\<rparr>)"
  using session_ok_out_done[of c m] by (simp add: writes_keep_def seq_room_def)

lemma try_write_keep: "writes_keep p con \<Longrightarrow> if_returns (\<lambda>(r, c). writes_keep p c) (try_write n env b con)"
proof (induction n arbitrary: b con)
  case (Suc n)
  note part = if_returns_view[OF _ writes_keep_view]
  have nxt: "if_returns (\<lambda>(r, c). writes_keep p c)
      (bindE (prepare_next env c) (\<lambda>next. case next of Some con \<Rightarrow> try_write n env True con
         | None \<Rightarrow> Inr (0, con_flag_clear WRITE_PENDING c)))" if "writes_keep p c" for c
    using that writes_keep_view[of "con_flag_clear WRITE_PENDING c" c]
    by (intro safe_bind[OF writes_keep_next[OF that]]) (auto split: option.splits intro: Suc.IH)
  show ?case
    unfolding try_write.simps Let_def
    apply (rule safe_bind[where Q = "\<lambda>(r, c). writes_keep p c"])
    subgoal using Suc.prems by (auto intro: part[OF write_open_view])
    apply (clarsimp split del: if_split)
    subgoal for r1 c1
      apply (cases "r1 < 0", simp, simp split del: if_split)
      apply (rule safe_bind[where Q = "\<lambda>(r, c). writes_keep p c"])
      subgoal by (auto intro: part[OF write_skip_view])
      apply (clarsimp split del: if_split)
      subgoal for r2 c2
        apply (cases "r2 \<le> 0", simp, simp split del: if_split)
        apply (rule safe_bind[where Q = "\<lambda>(r, c). writes_keep p c"])
        subgoal by (auto intro: part[OF write_kvec_view])
        apply (clarsimp split del: if_split)
        subgoal for r3 c3
          apply (cases "r3 \<le> 0", simp, simp split del: if_split)
          apply (cases "out_msg c3")
          subgoal by (simp add: nxt)
          apply (cases "out_msg_done c3")
          subgoal using nxt[OF writes_keep_done] by simp
          apply simp
          apply (rule safe_bind[where Q = "\<lambda>(r, c). writes_keep p c"])
          subgoal by (auto intro: part[OF write_data_view])
          apply (auto intro: Suc.IH nxt)
          done
        done
      done
    done
qed simp

section \<open>Taking messages out of the queues\<close>

lemma session_ok_drop:
  assumes ok: "session_ok con"
    and lists: "out_sent con' = removeAll m (out_sent con)" "out_queue con' = removeAll m (out_queue con)"
    and out: "\<And>x. out_msg con' = Some x \<Longrightarrow> out_msg con = Some x"
    and same: "in_msg con' = in_msg con" "out_seq con' = out_seq con"
    and others: "\<And>x. x \<noteq> m \<Longrightarrow> msg_view (store con' x) = msg_view (store con x)"
    and self: "in_msg con = Some m \<Longrightarrow> m_con (store con' m)" "con_refs con' m \<le> m_kref (store con' m)"
  shows "session_ok con'" and "pending con' = removeAll m (pending con)"
proof -
  show p: "pending con' = removeAll m (pending con)" by (simp add: pending_def lists)
  have v: "m_con (store con' x) = m_con (store con x)" "needs_out_seq (store con' x) = needs_out_seq (store con x)"
    "hdr_seq (store con' x) = hdr_seq (store con x)" "m_kref (store con' x) = m_kref (store con x)" if "x \<noteq> m" for x
    using others[OF that] by (auto simp: msg_view_def)
  show "session_ok con'"
  proof (rule session_okI)
    have "sorted_wrt (seq_before (store con)) (pending con')"
      unfolding p removeAll_filter_not_eq using session_okD(7)[OF ok] by (rule sorted_wrt_filter)
    then show "sorted_wrt (seq_before (store con')) (pending con')" by (rule sorted_seq_cong) (auto simp: p v)
    show "con_refs con' x \<le> m_kref (store con' x)" for x
    proof (cases "x = m")
      case False
      have "con_refs con' x \<le> con_refs con x" using out[of x] False by (auto simp: con_refs_def same p)
      then show ?thesis using session_okD(8)[OF ok, of x] v(4)[OF False] by simp
    qed (use self in simp)
    show "in_msg con' = Some x \<Longrightarrow> m_con (store con' x) \<and> x \<notin> set (pending con')" for x
      using session_okD(3,4)[OF ok] self(1) v by (cases "x = m") (auto simp: p same)
  qed (use session_okD[OF ok] in \<open>auto simp: p v lists same distinct_removeAll\<close>)
qed

lemma unlink_simps [simp]:
  "out_sent (unlink m con) = removeAll m (out_sent con)" "out_queue (unlink m con) = removeAll m (out_queue con)"
  "out_msg (unlink m con) = out_msg con" "in_msg (unlink m con) = in_msg con" "out_seq (unlink m con) = out_seq con"
  "store (unlink m con) = store con" "pending (unlink m con) = removeAll m (pending con)"
  "in_temp_ack (unlink m con) = in_temp_ack con"
  by (simp_all add: unlink_def pending_def)

lemma con_put_simps [simp]:
  "out_sent (con_put con) = out_sent con" "out_queue (con_put con) = out_queue con" "out_msg (con_put con) = out_msg con"
  "in_msg (con_put con) = in_msg con" "out_seq (con_put con) = out_seq con" "store (con_put con) = store con"
  "pending (con_put con) = pending con" "state (con_put con) = state con" "flags (con_put con) = flags con"
  by (simp_all add: con_put_def pending_def)

lemma msg_remove_ok:
  assumes ok: "session_ok con" and m: "m \<in> set (pending con)"
  shows "\<exists>con'. ceph_msg_remove m con = Inr con' \<and> session_ok con' \<and> pending con' = removeAll m (pending con) \<and>
    out_sent con' = removeAll m (out_sent con) \<and> out_msg con' = out_msg con \<and> in_msg con' = in_msg con \<and> out_seq con' = out_seq con \<and>
    (\<forall>x. hdr_seq (store con' x) = hdr_seq (store con x))"
proof -
  let ?c = "ceph_msg_put m (upd_msg m (\<lambda>x. x\<lparr>m_con := False\<rparr>) (con_put (unlink m con)))"
  have r: "ceph_msg_remove m con = Inr ?c" using session_okD(2)[OF ok m] by (simp add: ceph_msg_remove_def)
  have "in_msg con \<noteq> Some m" using session_okD(4)[OF ok] m by blast
  moreover have "con_refs ?c m \<le> m_kref (store ?c m)"
    using session_okD(8)[OF ok, of m] m by (simp add: con_refs_def)
  ultimately have "session_ok ?c" "pending ?c = removeAll m (pending con)"
    by (intro session_ok_drop[OF ok, of ?c m]; simp add: msg_view_def)+
  then show ?thesis using r by auto
qed

lemma remove_list_ok:
  assumes "session_ok con" and "set ms \<subseteq> set (pending con)" and "distinct ms"
  shows "\<exists>con'. ceph_msg_remove_list ms con = Inr con' \<and> session_ok con' \<and>
    pending con' = filter (\<lambda>x. x \<notin> set ms) (pending con) \<and> out_sent con' = filter (\<lambda>x. x \<notin> set ms) (out_sent con) \<and>
    out_msg con' = out_msg con \<and> in_msg con' = in_msg con \<and> out_seq con' = out_seq con"
  using assms
proof (induction ms arbitrary: con)
  case (Cons m ms)
  obtain c where c: "ceph_msg_remove m con = Inr c" "session_ok c" "pending c = removeAll m (pending con)"
      "out_sent c = removeAll m (out_sent con)" "out_msg c = out_msg con" "in_msg c = in_msg con" "out_seq c = out_seq con"
    using msg_remove_ok[OF Cons.prems(1), of m] Cons.prems(2) by auto
  have "set ms \<subseteq> set (pending c)" using Cons.prems(2,3) c(3) by auto
  from Cons.IH[OF c(2) this] Cons.prems(3) obtain d where "ceph_msg_remove_list ms c = Inr d" "session_ok d"
      "pending d = filter (\<lambda>x. x \<notin> set ms) (pending c)" "out_sent d = filter (\<lambda>x. x \<notin> set ms) (out_sent c)"
      "out_msg d = out_msg c" "in_msg d = in_msg c" "out_seq d = out_seq c" by auto
  then show ?case using c by (auto simp: ceph_msg_remove_list_def removeAll_filter_not_eq intro!: filter_cong)
qed (simp add: ceph_msg_remove_list_def)

text \<open>The loop of \<open>process_ack\<close> takes the longest prefix the acknowledgement covers.\<close>

lemma ack_loop_eq:
  "distinct sent \<Longrightarrow> ack_loop ack sent con =
    ceph_msg_remove_list (takeWhile (\<lambda>m. hdr_seq (store con m) \<le> ack) sent) con"
proof (induction sent arbitrary: con)
  case (Cons m sent)
  show ?case
  proof (cases "hdr_seq (store con m) \<le> ack")
    case True
    have "takeWhile (\<lambda>m. hdr_seq (store c m) \<le> ack) sent = takeWhile (\<lambda>m. hdr_seq (store con m) \<le> ack) sent"
      if "ceph_msg_remove m con = Inr c" for c
      using that by (intro takeWhile_cong) (auto simp: ceph_msg_remove_def split: if_splits)
    moreover have "\<not> ack < hdr_seq (store con m)" using True by simp
    ultimately show ?thesis
      using Cons True by (cases "ceph_msg_remove m con") (auto simp: ceph_msg_remove_list_def)
  next
    case False
    then show ?thesis by (auto simp: ceph_msg_remove_list_def)
  qed
qed (simp add: ceph_msg_remove_list_def)

text \<open>In a session that is in order, that prefix is all of the sent messages it covers.\<close>

lemma takeWhile_sorted:
  assumes "sorted_wrt (seq_before st) ms" and "\<forall>m\<in>set ms. \<not> needs_out_seq (st m)"
  shows "takeWhile (\<lambda>m. hdr_seq (st m) \<le> a) ms = filter (\<lambda>m. hdr_seq (st m) \<le> a) ms"
  using assms
proof (induction ms)
  case (Cons m ms)
  show ?case
  proof (cases "hdr_seq (st m) \<le> a")
    case False
    then have "filter (\<lambda>m. hdr_seq (st m) \<le> a) ms = []"
      using Cons.prems by (auto simp: filter_empty_conv seq_before_def)
    then show ?thesis using False by simp
  qed (use Cons in simp)
qed simp

lemma process_ack_ok:
  assumes ok: "session_ok con"
  defines "acked \<equiv> filter (\<lambda>m. hdr_seq (store con m) \<le> le_word (in_temp_ack con)) (out_sent con)"
  shows "\<exists>con'. process_ack con = Inr con' \<and> session_ok con' \<and> pending con = acked @ pending con' \<and>
    out_sent con = acked @ out_sent con' \<and> in_tag con' = TAG_READY \<and> in_base_pos con' = 0"
proof -
  have sent: "distinct (out_sent con)" "sorted_wrt (seq_before (store con)) (out_sent con)"
    "\<forall>m\<in>set (out_sent con). \<not> needs_out_seq (store con m)"
    using session_okD(1,5,7)[OF ok] by (auto simp: pending_def sorted_wrt_append)
  let ?P = "\<lambda>m. hdr_seq (store con m) \<le> le_word (in_temp_ack con)"
  have tw: "acked = takeWhile ?P (out_sent con)" unfolding acked_def using takeWhile_sorted[OF sent(2,3)] by simp
  have rest: "filter (\<lambda>x. x \<notin> set acked) (out_sent con) = dropWhile ?P (out_sent con)"
  proof -
    have "out_sent con = acked @ dropWhile ?P (out_sent con)" unfolding tw by simp
    moreover from this have "set acked \<inter> set (dropWhile ?P (out_sent con)) = {}"
      using sent(1) by (metis distinct_append)
    ultimately show ?thesis by (metis (no_types, lifting) append_Nil disjoint_iff filter_False filter_True filter_append)
  qed
  have "set acked \<subseteq> set (pending con)" "distinct acked" unfolding acked_def using sent(1) by (auto simp: pending_def)
  from remove_list_ok[OF ok this] obtain c where c: "ceph_msg_remove_list acked con = Inr c" "session_ok c"
      "pending c = filter (\<lambda>x. x \<notin> set acked) (pending con)" "out_sent c = filter (\<lambda>x. x \<notin> set acked) (out_sent con)"
    by auto
  have "filter (\<lambda>x. x \<notin> set acked) (out_queue con) = out_queue con"
    using session_okD(1)[OF ok] by (auto simp: filter_id_conv pending_def acked_def)
  then have p: "pending con = acked @ pending c" "out_sent con = acked @ out_sent c"
    using c(3,4) rest by (simp_all add: pending_def tw)
  have v: "session_view (prepare_read_tag c) = session_view c" by (simp add: prepare_read_tag_def)
  have "process_ack con = Inr (prepare_read_tag c)"
    unfolding process_ack_def using ack_loop_eq[OF sent(1), of "le_word (in_temp_ack con)" con] c(1) tw by simp
  then show ?thesis using p c(2) session_view_ok[OF v] session_view_eqD(1,6)[OF v] by (auto simp: prepare_read_tag_def)
qed

section \<open>Faults, resets and the interface of the owner\<close>

lemma drop_in_msg_ok:
  assumes ok: "session_ok con"
  shows "\<exists>con'. drop_in_msg con = Inr con' \<and> session_ok con' \<and> pending con' = pending con \<and> in_msg con' = None \<and>
    out_sent con' = out_sent con \<and> out_queue con' = out_queue con \<and> out_msg con' = out_msg con \<and>
    out_seq con' = out_seq con \<and> flags con' = flags con \<and> con_delay con' = con_delay con"
proof (cases "in_msg con")
  case (Some m)
  let ?c = "con_put ((ceph_msg_put m (upd_msg m (\<lambda>x. x\<lparr>m_con := False\<rparr>) con))\<lparr>in_msg := None\<rparr>)"
  have d: "drop_in_msg con = Inr ?c" using session_okD(3)[OF ok] Some by (simp add: drop_in_msg_def)
  have m: "m \<notin> set (pending con)" using session_okD(4)[OF ok] Some by blast
  have "session_ok ?c"
  proof (rule session_okI)
    show "con_refs ?c x \<le> m_kref (store ?c x)" for x
      using session_okD(8)[OF ok, of x] by (auto simp: con_refs_def Some)
    show "sorted_wrt (seq_before (store ?c)) (pending ?c)"
      using session_okD(7)[OF ok] by (simp, elim sorted_seq_cong) simp
  qed (use session_okD[OF ok] m in \<open>auto simp: pending_def\<close>)
  then show ?thesis using d by (auto simp: msg_ref_defs con_put_def pending_def)
qed (use ok in \<open>simp add: drop_in_msg_def\<close>)

lemma requeue_ok:
  assumes "session_ok con"
  shows "session_ok (con\<lparr>out_queue := out_sent con @ out_queue con, out_sent := []\<rparr>)"
    and "pending (con\<lparr>out_queue := out_sent con @ out_queue con, out_sent := []\<rparr>) = pending con"
  using assms by (simp_all add: session_ok_def pending_def con_refs_def)

lemma con_fault_ok:
  assumes ok: "session_ok con"
  shows "\<exists>con'. con_fault env con = Inr con' \<and> session_ok con' \<and> pending con' = pending con"
proof -
  let ?c = "con_close_socket con"
  have v: "session_view ?c = session_view con" by simp
  note c = session_view_ok[OF v] session_view_eqD(6)[OF v]
  obtain d where d: "drop_in_msg ?c = Inr d" "session_ok d" "pending d = pending con"
    using drop_in_msg_ok[of ?c] c ok by auto
  note r = requeue_ok[OF d(2)]
  have fin: "session_ok c' \<and> pending c' = pending con"
    if "session_view c' = session_view (d\<lparr>out_queue := out_sent d @ out_queue d, out_sent := []\<rparr>)" for c'
    using session_view_ok[OF that] session_view_eqD(6)[OF that] r d(3) by simp
  have lossy: "session_ok (?c\<lparr>state := s\<rparr>) \<and> pending (?c\<lparr>state := s\<rparr>) = pending con" for s
    using session_view_ok[of "?c\<lparr>state := s\<rparr>" con] session_view_eqD(6)[of "?c\<lparr>state := s\<rparr>" con] ok by simp
  show ?thesis
    using lossy by (auto simp: con_fault_def Let_def d(1) intro!: fin)
qed

lemma reset_connection_ok:
  assumes ok: "session_ok con"
  shows "\<exists>con'. reset_connection con = Inr con' \<and> session_ok con' \<and> pending con' = [] \<and> out_seq con' = 0 \<and> in_seq con' = 0 \<and>
    connect_seq con' = 0 \<and> out_msg con' = None \<and> in_msg con' = None"
proof -
  have q: "set (out_queue con) \<subseteq> set (pending con)" "distinct (out_queue con)"
    using session_okD(1)[OF ok] by (auto simp: pending_def)
  obtain c1 where c1: "ceph_msg_remove_list (out_queue con) con = Inr c1" "session_ok c1"
      "pending c1 = filter (\<lambda>x. x \<notin> set (out_queue con)) (pending con)" "out_sent c1 = filter (\<lambda>x. x \<notin> set (out_queue con)) (out_sent con)"
    using remove_list_ok[OF ok q] by auto
  have p1: "pending c1 = out_sent c1" using c1(3,4) by (simp add: pending_def)
  obtain c2 where c2: "ceph_msg_remove_list (out_sent c1) c1 = Inr c2" "session_ok c2" "pending c2 = []"
    using remove_list_ok[OF c1(2), of "out_sent c1"] session_okD(1)[OF c1(2)] p1 by auto
  obtain c3 where c3: "drop_in_msg c2 = Inr c3" "session_ok c3" "pending c3 = []" "in_msg c3 = None"
    using drop_in_msg_ok[OF c2(2)] c2(3) by auto
  let ?c4 = "c3\<lparr>connect_seq := 0, out_seq := 0\<rparr>"
  have "session_ok ?c4" using c3 by (simp add: session_ok_def con_refs_def pending_def)
  moreover have "pending ?c4 = []" using c3(3) by (simp add: pending_def)
  ultimately have "session_ok (case out_msg ?c4 of None \<Rightarrow> ?c4 | Some m \<Rightarrow> (ceph_msg_put m ?c4)\<lparr>out_msg := None\<rparr>) \<and>
      pending (case out_msg ?c4 of None \<Rightarrow> ?c4 | Some m \<Rightarrow> (ceph_msg_put m ?c4)\<lparr>out_msg := None\<rparr>) = []"
    using session_ok_out_done[of ?c4] by (auto split: option.splits)
  then show ?thesis
    using c1(1) c2(1) c3(1,4)
    by (auto simp: reset_connection_def Let_def session_ok_def con_refs_def pending_def msg_ref_defs split: option.splits)
qed

lemma con_send_ok:
  assumes ok: "session_ok con" and own: "con_refs con m < m_kref (store con m)" and free: "\<not> on_a_queue m con"
    and send: "ceph_con_send m con = Inr con'"
  shows "session_ok con'" and "pending con' = pending con @ (if state con = CON_CLOSED then [] else [m])"
proof -
  let ?c = "upd_msg m (\<lambda>x. x\<lparr>needs_out_seq := True\<rparr>) (upd_msg m (\<lambda>x. x\<lparr>hdr_src := my_name (msgr con)\<rparr>) con)"
  have fresh: "m \<notin> set (pending con)" using free by (auto simp: on_a_queue_def pending_def)
  have same: "sorted_wrt (seq_before (store ?c)) (pending con)"
    by (rule sorted_seq_cong[OF session_okD(7)[OF ok]]) (use fresh in auto)
  have "session_ok con' \<and> pending con' = pending con @ (if state con = CON_CLOSED then [] else [m])"
  proof (cases "state con = CON_CLOSED")
    case True
    then have c': "con' = ceph_msg_put m ?c" using send by (auto simp: ceph_con_send_def Let_def)
    have "session_ok con'"
    proof (rule session_okI)
      show "con_refs con' x \<le> m_kref (store con' x)" for x
        using session_okD(8)[OF ok, of x] own by (auto simp: con_refs_def c')
      show "sorted_wrt (seq_before (store con')) (pending con')"
        unfolding c' by (simp, rule sorted_seq_cong[OF same]) simp
    qed (use session_okD[OF ok] fresh in \<open>auto simp: c' pending_def\<close>)
    then show ?thesis using True by (simp add: c')
  next
    case False
    have nc: "\<not> m_con (store con m)" and "\<exists>d. con_get ?c = Some d"
      using send False by (auto simp: ceph_con_send_def Let_def split: option.splits)
    then obtain d where d: "con_get ?c = Some d" by blast
    have d': "out_sent d = out_sent con" "out_queue d = out_queue con" "out_msg d = out_msg con" "in_msg d = in_msg con"
        "out_seq d = out_seq con" "store d = store ?c"
      using d by (auto simp: con_get_def split: if_splits)
    let ?e = "(upd_msg m (\<lambda>x. x\<lparr>m_con := True\<rparr>) d)\<lparr>out_queue := out_queue con @ [m]\<rparr>"
    have v: "session_view con' = session_view ?e"
      using send False d d'(2)
      by (auto simp: ceph_con_send_def Let_def clear_standby_def con_flag_test_and_set_def split: if_splits)
    have p: "pending ?e = pending con @ [m]" by (simp add: pending_def d')
    have "session_ok ?e"
    proof (rule session_okI)
      show "con_refs ?e x \<le> m_kref (store ?e x)" for x
        using session_okD(8)[OF ok, of x] own fresh by (auto simp: con_refs_def p d')
      have "sorted_wrt (seq_before (store ?e)) (pending con)"
        by (rule sorted_seq_cong[OF same]) (use fresh d' in auto)
      then show "sorted_wrt (seq_before (store ?e)) (pending ?e)"
        unfolding p by (auto simp: sorted_wrt_append seq_before_def d')
      show "in_msg ?e = Some x \<Longrightarrow> m_con (store ?e x) \<and> x \<notin> set (pending ?e)" for x
        using session_okD(3,4)[OF ok] nc unfolding p by (auto simp: d')
    qed (use session_okD[OF ok] fresh in \<open>auto simp: p d' pending_def\<close>)
    then show ?thesis using session_view_ok[OF v] session_view_eqD(6)[OF v] p False by simp
  qed
  then show "session_ok con'" "pending con' = pending con @ (if state con = CON_CLOSED then [] else [m])" by auto
qed

lemma revoke_out_ok:
  assumes ok: "session_ok c" and out: "out_msg c = Some m" and np: "m \<notin> set (pending c)"
  defines "d \<equiv> ceph_msg_put m (upd_msg m (\<lambda>x. x\<lparr>hdr_seq := 0\<rparr>) (c\<lparr>out_msg := None\<rparr>))"
  shows "session_ok d" and "pending d = pending c"
proof -
  have n: "m \<notin> set (out_sent c)" "m \<notin> set (out_queue c)" using np by (auto simp: pending_def)
  have "con_refs d m \<le> m_kref (store d m)"
    using session_okD(8)[OF ok, of m] out np by (simp add: con_refs_def d_def)
  moreover have "in_msg c = Some m \<Longrightarrow> m_con (store d m)" using session_okD(3)[OF ok] by (simp add: d_def)
  ultimately show "session_ok d"
    by (intro session_ok_drop[OF ok, of d m]) (simp_all add: d_def n msg_view_def)
  show "pending d = pending c" by (simp add: d_def)
qed

lemma msg_revoke_ok:
  assumes ok: "session_ok con"
  shows "session_ok (ceph_msg_revoke m con)" and
    "pending (ceph_msg_revoke m con) = (if m_con (store con m) then removeAll m (pending con) else pending con)"
proof -
  define c1 where "c1 = (if on_a_queue m con then
               ceph_msg_put m (upd_msg m (\<lambda>x. x\<lparr>m_con := False, hdr_seq := 0\<rparr>) (con_put (unlink m con))) else con)"
  have c1: "session_ok c1 \<and> pending c1 = removeAll m (pending con) \<and> out_msg c1 = out_msg con"
  proof (cases "on_a_queue m con")
    case True
    then have m: "m \<in> set (pending con)" by (auto simp: on_a_queue_def pending_def)
    then have "in_msg con \<noteq> Some m" using session_okD(4)[OF ok] by blast
    moreover have "con_refs c1 m \<le> m_kref (store c1 m)"
      using session_okD(8)[OF ok, of m] m True by (simp add: con_refs_def c1_def)
    ultimately show ?thesis
      using session_ok_drop[OF ok, of c1 m] True by (simp add: msg_view_def c1_def)
  next
    case False
    then show ?thesis using ok by (simp add: on_a_queue_def pending_def c1_def)
  qed
  let ?c2 = "\<lambda>c. ceph_msg_put m (upd_msg m (\<lambda>x. x\<lparr>hdr_seq := 0\<rparr>) (c\<lparr>out_msg := None\<rparr>))"
  have c2: "session_ok (?c2 c1) \<and> pending (?c2 c1) = removeAll m (pending con)" if "out_msg con = Some m"
    using revoke_out_ok[of c1 m] c1 that by simp
  have rev: "session_view (ceph_msg_revoke m con) =
      session_view (if \<not> m_con (store con m) then con else if out_msg con = Some m then ?c2 c1 else c1)"
    using c1 unfolding ceph_msg_revoke_def Let_def c1_def[symmetric]
    by (simp add: msg_ref_defs) (auto simp: session_view_def)
  show "session_ok (ceph_msg_revoke m con)"
    using session_view_ok[OF rev] ok c1 c2 by auto
  show "pending (ceph_msg_revoke m con) = (if m_con (store con m) then removeAll m (pending con) else pending con)"
    using session_view_eqD(6)[OF rev] c1 c2 by auto
qed

lemma revoke_incoming_ok:
  assumes ok: "session_ok con"
  shows "session_ok (ceph_msg_revoke_incoming m con)" and "pending (ceph_msg_revoke_incoming m con) = pending con"
proof -
  have "session_ok ((ceph_msg_put m con)\<lparr>in_msg := None\<rparr>)" if i: "in_msg con = Some m"
  proof (rule session_okI)
    show "con_refs ((ceph_msg_put m con)\<lparr>in_msg := None\<rparr>) x \<le> m_kref (store ((ceph_msg_put m con)\<lparr>in_msg := None\<rparr>) x)" for x
      using session_okD(8)[OF ok, of x] by (auto simp: con_refs_def i)
    show "sorted_wrt (seq_before (store ((ceph_msg_put m con)\<lparr>in_msg := None\<rparr>))) (pending ((ceph_msg_put m con)\<lparr>in_msg := None\<rparr>))"
      using session_okD(7)[OF ok] by (auto elim: sorted_seq_cong)
  qed (use session_okD[OF ok] in auto)
  moreover have v: "session_view (ceph_msg_revoke_incoming m con) =
      session_view (if m_con (store con m) \<and> in_msg con = Some m then (ceph_msg_put m con)\<lparr>in_msg := None\<rparr> else con)"
    by (simp add: ceph_msg_revoke_incoming_def session_view_def)
  ultimately show "session_ok (ceph_msg_revoke_incoming m con)" "pending (ceph_msg_revoke_incoming m con) = pending con"
    using session_view_ok[OF v] session_view_eqD(6)[OF v] ok by auto
qed

lemma view_owner [simp]:
  "session_view (ceph_con_keepalive con) = session_view con" "session_view (ceph_con_open t n a con) = session_view con"
  by (auto simp: ceph_con_keepalive_def ceph_con_open_def clear_standby_def con_flag_test_and_set_def Let_def)

lemma reset_state: "reset_connection con = Inr con' \<Longrightarrow> state con' = state con"
proof -
  have rm: "state d = state c" if "ceph_msg_remove_list ms c = Inr d" for ms c d
    using that by (induction ms arbitrary: c) (auto simp: ceph_msg_remove_list_def ceph_msg_remove_def con_put_def unlink_def msg_ref_defs)
  have di: "state d = state c" if "drop_in_msg c = Inr d" for c d
    using that by (auto simp: drop_in_msg_def con_put_def msg_ref_defs split: option.splits)
  show "reset_connection con = Inr con' \<Longrightarrow> state con' = state con"
    by (auto simp: reset_connection_def Let_def msg_ref_defs dest!: rm di split: option.splits)
qed

lemma con_close_ok:
  assumes "session_ok con"
  shows "\<exists>con'. ceph_con_close con = Inr con' \<and> session_ok con' \<and> pending con' = [] \<and> state con' = CON_CLOSED \<and> sock con' = None"
proof -
  let ?c = "con_flag_clear BACKOFF (con_flag_clear WRITE_PENDING
                 (con_flag_clear KEEPALIVE_PENDING (con_flag_clear LOSSYTX (con\<lparr>state := CON_CLOSED\<rparr>))))"
  have "session_ok ?c" using session_view_ok[of ?c con] assms by simp
  from reset_connection_ok[OF this] obtain d where d: "reset_connection ?c = Inr d" "session_ok d" "pending d = []" by blast
  let ?e = "con_close_socket (cancel_con (d\<lparr>peer_global_seq := 0\<rparr>))"
  have v: "session_view ?e = session_view d" by simp
  have "state ?e = CON_CLOSED"
    using reset_state[OF d(1)]
    by (simp add: con_close_socket_def sock_state_defs cancel_con_def con_put_def flag_defs)
  moreover have "sock ?e = None" by (simp add: con_close_socket_def sock_state_defs flag_defs)
  ultimately show ?thesis
    using d session_view_ok[OF v] session_view_eqD(6)[OF v] by (simp add: ceph_con_close_def Let_def)
qed

section \<open>The handshake\<close>

text \<open>
  What the session relies on of the owner's callbacks: getting an authorizer leaves the queues
  alone, and what the owner does on a reset keeps the session in order.
\<close>

definition env_keeps :: "con_env \<Rightarrow> bool" where
  "env_keeps env \<longleftrightarrow>
    (\<forall>f con. get_authorizer env = Some f \<longrightarrow> session_view (snd (f con)) = session_view con) \<and>
    (\<forall>f con. peer_reset env = Some f \<longrightarrow> session_ok con \<longrightarrow> session_ok (f con))"

lemma write_connect_view:
  assumes "env_keeps env" and "prepare_write_connect env con = Inr (r, con')"
  shows "session_view con' = session_view con"
proof -
  have auth: "session_view d = session_view c" if "get_connect_authorizer env c = (x, d)" for c d x
    using assms(1) that
    by (auto simp: get_connect_authorizer_def env_keeps_def split: option.splits prod.splits sum.splits if_splits) (metis snd_conv)+
  show ?thesis
    using assms(2)
    by (auto simp: prepare_write_connect_def Let_def get_global_seq_def split: prod.splits sum.splits option.splits if_splits
        dest!: auth kvec_add_view)
qed

lemma reconnect_view: "env_keeps env \<Longrightarrow> reconnect env con = Inr (r, con') \<Longrightarrow> session_view con' = session_view con"
  by (auto simp: reconnect_def prepare_read_connect_def split: if_splits dest!: write_connect_view)

lemma session_ready_view: "session_ready sf con = Inr con' \<Longrightarrow> session_view con' = session_view con"
  by (auto simp: session_ready_def Let_def prepare_read_seq_def prepare_read_tag_def split: if_splits dest!: write_seq_view)

text \<open>Replies on which the session is kept: the others reset it.\<close>

definition keeps_session :: "u8 list \<Rightarrow> int \<Rightarrow> bool" where
  "keeps_session reply r \<longleftrightarrow>
    reply_tag reply \<notin> {TAG_FEATURES, TAG_BADPROTOVER, TAG_RESETSESSION} \<and>
    (reply_tag reply \<in> {TAG_SEQ, TAG_READY} \<longrightarrow> r = 0)"

lemma process_connect_ok:
  assumes env: "env_keeps env" and ok: "session_ok con" and p: "process_connect env con = Inr (r, con')"
  shows "session_ok con'" and "keeps_session (in_reply con) r \<Longrightarrow> pending con' = pending con"
proof -
  let ?tag = "reply_tag (in_reply con)"
  have keep: "session_ok con' \<and> pending con' = pending con" if "session_view con' = session_view con"
    using session_view_ok[OF that] session_view_eqD(6)[OF that] ok by simp
  have rst: "session_ok d" if "reset_connection c = Inr d" "session_view c = session_view con" for c d
    using reset_connection_ok[of c] session_view_ok[OF that(2)] ok that(1) by auto
  consider (features) "?tag \<in> {TAG_FEATURES, TAG_BADPROTOVER}" | (session) "?tag = TAG_RESETSESSION"
    | (ready) "?tag \<in> {TAG_SEQ, TAG_READY}"
    | (rest) "?tag \<notin> {TAG_FEATURES, TAG_BADPROTOVER, TAG_RESETSESSION, TAG_SEQ, TAG_READY}" by auto
  then have "session_ok con' \<and> (keeps_session (in_reply con) r \<longrightarrow> pending con' = pending con)"
  proof cases
    case features
    then show ?thesis
      using p by (auto simp: process_connect_def Let_def keeps_session_def tag_defs intro: rst)
  next
    case session
    with p obtain c d r' where c: "reset_connection con = Inr c" "reconnect env c = Inr (r', d)"
      and d: "con' = d \<or> con' = (case peer_reset env of None \<Rightarrow> d | Some f \<Rightarrow> f d)"
      by (auto simp: process_connect_def Let_def tag_defs split: if_splits)
    have "session_ok d" using rst[OF c(1)] session_view_ok[OF reconnect_view[OF env c(2)]] by simp
    then have "session_ok con'" using d env by (auto simp: env_keeps_def split: option.splits)
    with session show ?thesis by (simp add: keeps_session_def)
  next
    case ready
    then have "?tag \<notin> {TAG_FEATURES, TAG_BADPROTOVER, TAG_BADAUTHORIZER, TAG_RESETSESSION, TAG_RETRY_SESSION, TAG_RETRY_GLOBAL}"
      by (auto simp: tag_defs)
    then have "(\<exists>c. reset_connection c = Inr con' \<and> session_view c = session_view con \<and> r = - 1) \<or>
        (\<exists>sf. session_ready sf con = Inr con')"
      using ready p by (auto simp: process_connect_def Let_def split: if_splits)
    then show ?thesis
    proof (elim disjE exE conjE)
      fix c
      assume c: "reset_connection c = Inr con'" "session_view c = session_view con" "r = - 1"
      then show ?thesis using ready rst[OF c(1,2)] by (simp add: keeps_session_def)
    next
      fix sf
      assume "session_ready sf con = Inr con'"
      from keep[OF session_ready_view[OF this]] show ?thesis by simp
    qed
  next
    case rest
    then have "session_view con' = session_view con"
      using p
      by (auto simp: process_connect_def Let_def get_global_seq_def split: if_splits dest!: reconnect_view[OF env])
    then show ?thesis using keep by simp
  qed
  then show "session_ok con'" "keeps_session (in_reply con) r \<Longrightarrow> pending con' = pending con" by auto
qed

section \<open>Steps of a connection\<close>

text \<open>
  The operations that touch a session, in any order: those of the owner, those of the worker, the
  events of the socket, and a reply or an acknowledgement of the peer, of any content. A message is
  sent by someone who holds a reference of his own and has not queued it already.
\<close>

datatype con_op = Op_open u8 u64 "u8 list" | Op_close | Op_send nat | Op_revoke nat | Op_revoke_incoming nat | Op_keepalive
  | Op_write nat | Op_ack "u8 list" | Op_connect "u8 list" int | Op_fault
  | Op_data_ready tcp_state | Op_write_space nat nat | Op_state_change tcp_state

inductive con_step :: "con_env \<Rightarrow> ceph_connection \<Rightarrow> con_op \<Rightarrow> ceph_connection \<Rightarrow> bool" for env where
  step_open: "con_step env con (Op_open t n a) (ceph_con_open t n a con)"
| step_close: "ceph_con_close con = Inr con' \<Longrightarrow> con_step env con Op_close con'"
| step_send: "con_refs con m < m_kref (store con m) \<Longrightarrow> \<not> on_a_queue m con \<Longrightarrow> ceph_con_send m con = Inr con' \<Longrightarrow>
    con_step env con (Op_send m) con'"
| step_revoke: "con_step env con (Op_revoke m) (ceph_msg_revoke m con)"
| step_revoke_incoming: "con_step env con (Op_revoke_incoming m) (ceph_msg_revoke_incoming m con)"
| step_keepalive: "con_step env con Op_keepalive (ceph_con_keepalive con)"
| step_write: "seq_room con \<Longrightarrow> try_write n env True con = Inr (r, con') \<Longrightarrow> con_step env con (Op_write n) con'"
| step_ack: "process_ack (con\<lparr>in_temp_ack := bs\<rparr>) = Inr con' \<Longrightarrow> con_step env con (Op_ack bs) con'"
| step_connect: "process_connect env (con\<lparr>in_reply := bs\<rparr>) = Inr (r, con') \<Longrightarrow> con_step env con (Op_connect bs r) con'"
| step_fault: "con_fault env con = Inr con' \<Longrightarrow> con_step env con Op_fault con'"
| step_data_ready: "con_step env con (Op_data_ready sk) (ceph_sock_data_ready sk con)"
| step_write_space: "con_step env con (Op_write_space w mw) (ceph_sock_write_space w mw con)"
| step_state_change: "con_step env con (Op_state_change sk) (ceph_sock_state_change sk con)"

text \<open>What an operation adds to the pending messages, and what an acknowledgement takes from them.\<close>

fun accepted :: "ceph_connection \<Rightarrow> con_op \<Rightarrow> nat list" where
  "accepted con (Op_send m) = (if state con = CON_CLOSED then [] else [m])"
| "accepted con _ = []"

fun acked :: "ceph_connection \<Rightarrow> con_op \<Rightarrow> nat list" where
  "acked con (Op_ack bs) = filter (\<lambda>m. hdr_seq (store con m) \<le> le_word bs) (out_sent con)"
| "acked con _ = []"

text \<open>The operations after which the session goes on with what it had.\<close>

fun goes_on :: "con_op \<Rightarrow> bool" where
  "goes_on Op_close = False"
| "goes_on (Op_revoke m) = False"
| "goes_on (Op_connect bs r) = keeps_session bs r"
| "goes_on _ = True"

lemma view_step: "session_view con' = session_view con \<Longrightarrow> session_ok con \<Longrightarrow> session_ok con' \<and> pending con' = pending con"
  using session_view_ok session_view_eqD(6) by blast

lemma con_step_ok:
  assumes "con_step env con op con'" and env: "env_keeps env" and ok: "session_ok con"
  shows "session_ok con' \<and> (goes_on op \<longrightarrow> pending con @ accepted con op = acked con op @ pending con')"
  using assms(1)
proof cases
  case (step_close)
  then show ?thesis using con_close_ok[OF ok] by auto
next
  case (step_send m)
  then show ?thesis using con_send_ok[OF ok] by auto
next
  case (step_revoke m)
  then show ?thesis using msg_revoke_ok[OF ok] by simp
next
  case (step_revoke_incoming m)
  then show ?thesis using revoke_incoming_ok[OF ok] by simp
next
  case (step_write n r)
  then have "writes_keep (pending con) con" using ok by (simp add: writes_keep_def)
  from try_write_keep[OF this, of n env True] step_write show ?thesis by (auto simp: writes_keep_def)
next
  case (step_ack bs)
  let ?c = "con\<lparr>in_temp_ack := bs\<rparr>"
  have "session_ok ?c" using session_view_ok[of ?c con] ok by simp
  from process_ack_ok[OF this] step_ack show ?thesis by (auto simp: pending_def)
next
  case (step_connect bs r)
  let ?c = "con\<lparr>in_reply := bs\<rparr>"
  have c: "session_ok ?c" "pending ?c = pending con" using view_step[of ?c con] ok by auto
  from process_connect_ok[OF env c(1) step_connect(2)] c(2) step_connect(1) show ?thesis by auto
next
  case step_fault
  then show ?thesis using con_fault_ok[OF ok, of env] by auto
qed (use view_step[of con' con] ok in auto)

text \<open>A run: what was accepted in it, what was acknowledged, and where it ends.\<close>

inductive con_run :: "con_env \<Rightarrow> ceph_connection \<Rightarrow> nat list \<Rightarrow> nat list \<Rightarrow> bool \<Rightarrow> ceph_connection \<Rightarrow> bool" for env con where
  run_refl: "con_run env con [] [] True con"
| run_step: "con_run env con ins outs on c \<Longrightarrow> con_step env c op c' \<Longrightarrow>
    con_run env con (ins @ accepted c op) (outs @ acked c op) (on \<and> goes_on op) c'"

lemma con_run_ok:
  assumes "con_run env con ins outs on con'" and "env_keeps env" and "session_ok con"
  shows "session_ok con' \<and> (on \<longrightarrow> pending con @ ins = outs @ pending con')"
  using assms(1)
proof induction
  case (run_step ins outs on c op c')
  then have "pending c @ accepted c op = acked c op @ pending c'" if "goes_on op" "on"
    using that con_step_ok[OF run_step.hyps(2) assms(2)] by simp
  moreover have "session_ok c'" using run_step con_step_ok[OF run_step.hyps(2) assms(2)] by simp
  ultimately show ?case using run_step.IH by (metis append.assoc)
qed (use assms(3) in simp)

section \<open>Properties\<close>

lemma con_init_ok: "session_ok (ceph_con_init mr st refs)"
  by (simp add: ceph_con_init_def sock_state_defs session_ok_def pending_def con_refs_def)

text \<open>A connection to an OSD with no messages, and an environment that grants nothing.\<close>

definition example_msg :: ceph_msg where
  "example_msg = the (ceph_msg_new 42 0 example_cursor (Some []))"

definition example_messenger :: ceph_messenger where
  "example_messenger = \<lparr>my_name = (CEPH_ENTITY_TYPE_CLIENT, 4711), my_addr = replicate 136 0, my_enc_addr = replicate 136 0,
     stopping = False, nocrc = False, global_seq = 0, supported_features = 0, required_features = 0\<rparr>"

definition example_con :: ceph_connection where
  "example_con = ceph_con_init example_messenger (\<lambda>_. example_msg) 1"

definition example_env :: con_env where
  "example_env = \<lparr>env_HZ = 1000, crc32c = (\<lambda>c bs. c), buffer_new = (\<lambda>n. None),
     sock_create_kern = (\<lambda>con. (0, \<lparr>sk_tx = [], sk_rx = [], sk_out = []\<rparr>)), sock_connect = (\<lambda>con. - EINPROGRESS),
     get_authorizer = None, peer_reset = None, dispatch = (\<lambda>con m. con), alloc_msg = None, env_fault = None,
     invalidate_authorizer = None\<rparr>"

definition example_open :: ceph_connection where
  "example_open = ceph_con_open CEPH_ENTITY_TYPE_OSD 3 (replicate 136 0) example_con"

definition example_sent :: ceph_connection where
  "example_sent = projr (ceph_con_send 7 example_open)"

definition example_faulted :: ceph_connection where
  "example_faulted = projr (con_fault example_env example_sent)"

lemma example_env_keeps: "env_keeps example_env"
  by (simp add: env_keeps_def example_env_def)

lemma example_send: "ceph_con_send 7 example_open = Inr example_sent"
  and example_sent_pending: "pending example_sent = [7]"
  by (simp_all add: example_sent_def example_open_def example_con_def ceph_con_send_def ceph_con_open_def ceph_con_init_def
      sock_state_defs queue_con_def queue_con_delay_def con_get_def example_msg_def ceph_msg_new_def on_a_queue_def
      clear_standby_def flag_defs Let_def upd_msg_def pending_def)

lemma example_run: "con_run example_env example_con [7] [] True example_faulted"
proof -
  have ok: "session_ok example_con" by (simp add: example_con_def con_init_ok)
  have r1: "con_run example_env example_con [] [] True example_open"
    using run_step[OF run_refl step_open] by (simp add: example_open_def)
  have ok1: "session_ok example_open" using con_run_ok[OF r1 example_env_keeps ok] by simp
  have "con_step example_env example_open (Op_send 7) example_sent"
    by (rule step_send[OF _ _ example_send])
      (simp_all add: example_open_def example_con_def ceph_con_open_def ceph_con_init_def queue_con_def queue_con_delay_def
        con_get_def sock_state_defs con_refs_def pending_def example_msg_def ceph_msg_new_def on_a_queue_def)
  moreover have "state example_open \<noteq> CON_CLOSED"
    by (simp add: example_open_def example_con_def ceph_con_open_def ceph_con_init_def queue_con_def queue_con_delay_def
        con_get_def sock_state_defs)
  ultimately have r2: "con_run example_env example_con [7] [] True example_sent"
    using run_step[OF r1, of "Op_send 7" example_sent] by simp
  have "session_ok example_sent" using con_run_ok[OF r2 example_env_keeps ok] by simp
  then have "con_fault example_env example_sent = Inr example_faulted"
    using con_fault_ok[of example_sent example_env] by (auto simp: example_faulted_def)
  from run_step[OF r2 step_fault[OF this]] show ?thesis by simp
qed

text \<open>
  C8: no message of a session is lost, duplicated or reordered. Take any run of operations on a
  connection, sends, writes that stop anywhere, faults and reconnects, keepalives, socket events,
  acknowledgements and handshake replies, that does not close the connection, revoke a message or
  receive a reset: the messages pending at its start followed by those accepted in it are the
  acknowledged ones followed by those pending at its end, in this order.
\<close>

theorem session_in_order:
  assumes "con_run env con ins outs True con'" and "env_keeps env" and "session_ok con"
  shows "pending con @ ins = outs @ pending con'"
  using con_run_ok[OF assms] by simp

theorem session_in_order_witness: "pending example_con @ [7] = [] @ pending example_faulted"
  by (rule session_in_order[OF example_run example_env_keeps]) (simp add: example_con_def con_init_ok)



text \<open>
  An acknowledgement takes exactly the sent messages it covers off the connection, those whose
  sequence number is at most the acknowledged one, and leaves the others, and those not sent yet,
  in place and in order. The connection is then ready to read the next tag.
\<close>

theorem process_ack_exact:
  assumes "session_ok con"
  shows "\<exists>con'. process_ack con = Inr con' \<and> out_queue con' = out_queue con \<and>
    out_sent con' = filter (\<lambda>m. le_word (in_temp_ack con) < hdr_seq (store con m)) (out_sent con) \<and>
    in_tag con' = TAG_READY \<and> in_base_pos con' = 0"
proof -
  let ?P = "\<lambda>m. hdr_seq (store con m) \<le> le_word (in_temp_ack con)"
  obtain c where c: "process_ack con = Inr c" "session_ok c" "pending con = filter ?P (out_sent con) @ pending c"
      "out_sent con = filter ?P (out_sent con) @ out_sent c" "in_tag c = TAG_READY" "in_base_pos c = 0"
    using process_ack_ok[OF assms] by blast
  have q: "out_queue c = out_queue con"
    using c(3,4) unfolding pending_def by (metis append.assoc append_same_eq same_append_eq)
  have "filter (\<lambda>m. \<not> ?P m) (out_sent con) = filter (\<lambda>m. \<not> ?P m) (out_sent c)"
    by (subst c(4)) (simp add: filter_empty_conv)
  also have "\<dots> = out_sent c"
  proof (rule filter_True, rule ballI)
    fix m
    assume m: "m \<in> set (out_sent c)"
    have "distinct (out_sent con)" using session_okD(1)[OF assms] by (simp add: pending_def)
    then have "set (filter ?P (out_sent con)) \<inter> set (out_sent c) = {}" using c(4) by (metis distinct_append)
    moreover have "m \<in> set (out_sent con)" using m c(4) by (metis Un_iff set_append)
    ultimately show "\<not> ?P m" using m by auto
  qed
  finally show ?thesis using c q by (simp add: not_le)
qed

definition example_acking :: ceph_connection where
  "example_acking = example_con\<lparr>out_sent := [7, 8], out_queue := [9], out_seq := 2, in_temp_ack := [1, 0, 0, 0, 0, 0, 0, 0],
     store := (\<lambda>m. example_msg\<lparr>m_con := True, needs_out_seq := (m = 9), hdr_seq := (if m = 7 then 1 else 2)\<rparr>)\<rparr>"

lemma example_acking_ok: "session_ok example_acking"
  by (simp add: session_ok_def example_acking_def example_con_def ceph_con_init_def sock_state_defs pending_def con_refs_def
      seq_before_def example_msg_def ceph_msg_new_def)

theorem process_ack_exact_witness:
  "\<exists>con'. process_ack example_acking = Inr con' \<and> out_queue con' = [9] \<and> out_sent con' = [8] \<and>
    in_tag con' = TAG_READY \<and> in_base_pos con' = 0"
  using process_ack_exact[OF example_acking_ok]
  by (simp add: example_acking_def example_con_def ceph_con_init_def sock_state_defs example_msg_def ceph_msg_new_def)

text \<open>
  C13: a fault on a connection that is not lossy closes the socket, drops the message being read,
  and puts every sent message that is not acknowledged back in front of the queue, in order.
  With nothing to send and no keepalive pending the connection goes to standby and clears
  \<open>WRITE_PENDING\<close>; otherwise it is to be opened again after a delay that doubles with each fault
  and stays below twice the maximum.
\<close>

theorem con_fault_retries:
  assumes "session_ok con" and "LOSSYTX \<notin> flags con" and "con_delay con < 2 * MAX_DELAY_INTERVAL env"
  shows "\<exists>con'. con_fault env con = Inr con' \<and> sock con' = None \<and> sock_state con' = SOCK_CLOSED \<and> in_msg con' = None \<and>
    out_sent con' = [] \<and> out_queue con' = out_sent con @ out_queue con \<and>
    con_delay con' < 2 * MAX_DELAY_INTERVAL env \<and>
    (if out_sent con @ out_queue con = [] \<and> KEEPALIVE_PENDING \<notin> flags con
     then state con' = CON_STANDBY \<and> WRITE_PENDING \<notin> flags con' \<and> con_delay con' = con_delay con
     else state con' = CON_PREOPEN \<and> BACKOFF \<in> flags con' \<and>
       con_delay con' = (if con_delay con = 0 then BASE_DELAY_INTERVAL env
         else if con_delay con < MAX_DELAY_INTERVAL env then 2 * con_delay con else con_delay con))"
proof -
  let ?c = "con_close_socket con"
  have v: "session_view ?c = session_view con" by simp
  obtain d where d: "drop_in_msg ?c = Inr d" "in_msg d = None" "out_sent d = out_sent con" "out_queue d = out_queue con"
      "flags d = flags ?c" "con_delay d = con_delay ?c"
    using drop_in_msg_ok[of ?c] session_view_ok[OF v] session_view_eqD(1,2)[OF v] assms(1) by auto
  have s: "sock d = None \<and> sock_state d = SOCK_CLOSED"
    using d(1) by (auto simp: drop_in_msg_def con_close_socket_def sock_state_defs flag_defs msg_ref_defs con_put_def split: option.splits)
  have f: "flags d = flags con - {SOCK_CLOSED_FLAG}" "con_delay d = con_delay con"
    using d(5,6) by (simp_all add: con_close_socket_def sock_state_defs flag_defs)
  have q: "sock (queue_con e) = sock e" "sock_state (queue_con e) = sock_state e" "in_msg (queue_con e) = in_msg e"
      "out_sent (queue_con e) = out_sent e" "out_queue (queue_con e) = out_queue e" "state (queue_con e) = state e"
      "flags (queue_con e) = flags e" "con_delay (queue_con e) = con_delay e" for e
    by (auto simp: queue_con_def queue_con_delay_def con_get_def con_put_def)
  have nl: "\<not> con_flag_test LOSSYTX ?c"
    using assms(2) by (simp add: con_close_socket_def sock_state_defs flag_defs)
  have cf: "con_fault env con =
      (let con = d\<lparr>out_queue := out_sent d @ out_queue d, out_sent := []\<rparr> in
       if out_queue con = [] \<and> \<not> con_flag_test KEEPALIVE_PENDING con then
         Inr ((con_flag_clear WRITE_PENDING con)\<lparr>state := CON_STANDBY\<rparr>)
       else Inr (queue_con (con_flag_set BACKOFF (con\<lparr>state := CON_PREOPEN,
                       con_delay := (if con_delay con = 0 then BASE_DELAY_INTERVAL env
                                     else if con_delay con < MAX_DELAY_INTERVAL env then con_delay con * 2
                                     else con_delay con)\<rparr>))))"
    unfolding con_fault_def Let_def if_not_P[OF nl] d(1) bindE_simps by (rule refl)
  let ?d = "d\<lparr>out_queue := out_sent d @ out_queue d, out_sent := []\<rparr>"
  have b: "BASE_DELAY_INTERVAL env < 2 * MAX_DELAY_INTERVAL env"
    using assms(3) by (simp add: BASE_DELAY_INTERVAL_def MAX_DELAY_INTERVAL_def)
  show ?thesis
  proof (cases "out_sent con @ out_queue con = [] \<and> KEEPALIVE_PENDING \<notin> flags con")
    case True
    then show ?thesis using assms(3) d(2-4) s f by (simp add: cf Let_def con_flag_test_def con_flag_clear_def)
  next
    case False
    then have nk: "\<not> (out_queue ?d = [] \<and> \<not> con_flag_test KEEPALIVE_PENDING ?d)"
      using d(3,4) f by (auto simp: con_flag_test_def)
    show ?thesis
      unfolding cf[unfolded Let_def, unfolded if_not_P[OF nk]] if_not_P[OF False]
      using assms(3) d(2-4) s f b by (simp add: con_flag_set_def q)
  qed
qed

theorem con_fault_retries_witness:
  "\<exists>con'. con_fault example_env example_acking = Inr con' \<and> out_queue con' = [7, 8, 9] \<and> out_sent con' = [] \<and>
    state con' = CON_PREOPEN \<and> con_delay con' = 500"
proof -
  have "LOSSYTX \<notin> flags example_acking" "con_delay example_acking < 2 * MAX_DELAY_INTERVAL example_env"
    by (simp_all add: example_acking_def example_con_def ceph_con_init_def sock_state_defs MAX_DELAY_INTERVAL_def example_env_def)
  from con_fault_retries[OF example_acking_ok this] show ?thesis
    by (auto simp: example_acking_def example_con_def ceph_con_init_def sock_state_defs BASE_DELAY_INTERVAL_def example_env_def)
qed

text \<open>
  The message being sent survives a fault: \<open>out_msg\<close> and the vectors' bookkeeping are left as they
  are, although the message goes back to the queue.
\<close>

lemma con_fault_keeps_out_msg:
  assumes "con_fault env con = Inr con'"
  shows "out_msg con' = out_msg con" and "out_msg_done con' = out_msg_done con" and "out_skip con' = out_skip con"
proof -
  have "out_msg d = out_msg c \<and> out_msg_done d = out_msg_done c \<and> out_skip d = out_skip c" if "drop_in_msg c = Inr d" for c d
    using that by (auto simp: drop_in_msg_def con_put_def msg_ref_defs split: option.splits)
  note drop = this[of "con_close_socket con"]
  have "out_msg con' = out_msg con \<and> out_msg_done con' = out_msg_done con \<and> out_skip con' = out_skip con"
    using assms drop
    by (auto simp: con_fault_def con_close_socket_def sock_state_defs flag_defs Let_def queue_con_def queue_con_delay_def con_get_def
        con_put_def split: if_splits)
  then show "out_msg con' = out_msg con" "out_msg_done con' = out_msg_done con" "out_skip con' = out_skip con" by auto
qed

text \<open>
  So the next connection starts with the rest of that message: here the peer is sent the banner,
  the address and then the last byte of the old payload before the handshake.
\<close>

definition interrupted_con :: ceph_connection where
  "interrupted_con = example_con\<lparr>state := CON_PREOPEN, out_queue := [7], out_msg := Some 7, out_msg_done := False,
     store := (\<lambda>m. example_msg\<lparr>m_kref := 2, m_con := True, m_data_length := 2,
       m_data := [Data_bio [[\<lparr>bv_page = [5, 6], bv_len = 2, bv_offset = 0\<rparr>]] 2],
       m_cursor := example_cursor\<lparr>total_resid := 1, resid := 1, last_piece := True,
         cur_data := [Data_bio [[\<lparr>bv_page = [5, 6], bv_len = 2, bv_offset = 0\<rparr>]] 2],
         cur_bio := [[\<lparr>bv_page = [5, 6], bv_len = 2, bv_offset = 0\<rparr>]], vector_offset := 1\<rparr>\<rparr>)\<rparr>"

definition open_env :: con_env where
  "open_env = example_env\<lparr>sock_create_kern := (\<lambda>con. (0, \<lparr>sk_tx = [1000, 1000], sk_rx = [], sk_out = []\<rparr>))\<rparr>"

lemma stale_data_after_reconnect:
  "case try_write 3 open_env True interrupted_con of
     Inr (r, con) \<Rightarrow> state con = CON_CONNECTING \<and>
       map_option sk_out (sock con) = Some (CEPH_BANNER @ my_enc_addr example_messenger @ [6])
   | _ \<Rightarrow> False"
  by code_simp

end
