(* ===== verification/Messenger_Write.thy ===== *)
theory Messenger_Write
  imports Msg_Crc Messenger_Session
begin

text \<open>
  What a connection puts on the wire (\<open>write_partial_kvec\<close>, \<open>write_partial_message_data\<close>, \<open>try_write\<close>
  of \<open>net/ceph/messenger.c\<close>): whatever portions the socket takes, the bytes sent and the bytes still
  held are together always the same.
\<close>

section \<open>Vectors\<close>

definition kvec_fits :: "ceph_connection \<Rightarrow> kvec \<Rightarrow> bool" where
  "kvec_fits con kv = (case kv of (b, off, len) \<Rightarrow> off + len \<le> length (base_bytes con b))"

definition kvecs_left :: "ceph_connection \<Rightarrow> kvec list" where
  "kvecs_left con = take (out_kvec_left con) (drop (out_kvec_cur con) (out_kvec con))"

definition kvecs_ok :: "ceph_connection \<Rightarrow> bool" where
  "kvecs_ok con \<longleftrightarrow> out_kvec_cur con + out_kvec_left con \<le> length (out_kvec con) \<and>
    list_all (kvec_fits con) (kvecs_left con) \<and> out_kvec_bytes con = length (out_bytes con)"

lemma out_bytes_left: "out_bytes con = concat (map (kvec_bytes con) (kvecs_left con))"
  by (simp add: out_bytes_def kvecs_left_def)

lemma kvec_bytes_length: "kvec_fits con (b, off, len) \<Longrightarrow> length (kvec_bytes con (b, off, len)) = len"
  by (simp add: kvec_fits_def kvec_bytes_def)

lemma consume_kvecs_ok:
  assumes "cur + n \<le> length kv" and "list_all (kvec_fits con) (take n (drop cur kv))"
    and "ret < length (concat (map (kvec_bytes con) (take n (drop cur kv))))"
  shows "\<exists>l cur' kv'. consume_kvecs n cur ret kv = Inr (l, cur', kv') \<and> cur' + l \<le> length kv' \<and> length kv' = length kv \<and>
    list_all (kvec_fits con) (take l (drop cur' kv')) \<and>
    concat (map (kvec_bytes con) (take l (drop cur' kv'))) = drop ret (concat (map (kvec_bytes con) (take n (drop cur kv))))"
  using assms
proof (induction n arbitrary: cur ret)
  case (Suc n)
  obtain b off len where k: "kv ! cur = (b, off, len)" by (cases "kv ! cur")
  have cur: "cur < length kv" using Suc.prems(1) by simp
  then have t: "take (Suc n) (drop cur kv) = (b, off, len) # take n (drop (Suc cur) kv)"
    by (simp add: k flip: Cons_nth_drop_Suc)
  have fits: "kvec_fits con (b, off, len)" "list_all (kvec_fits con) (take n (drop (Suc cur) kv))"
    using Suc.prems(2) unfolding t by simp_all
  have lb: "length (kvec_bytes con (b, off, len)) = len" by (rule kvec_bytes_length[OF fits(1)])
  show ?case
  proof (cases "len \<le> ret")
    case True
    then have "ret - len < length (concat (map (kvec_bytes con) (take n (drop (Suc cur) kv))))"
      using Suc.prems(3) lb unfolding t by simp
    with Suc.IH[of "Suc cur" "ret - len"] Suc.prems(1) fits(2) show ?thesis
      unfolding t using cur k True lb by (subst consume_kvecs.simps) auto
  next
    case False
    let ?kv = "if ret \<noteq> 0 then kv[cur := (b, off + ret, len - ret)] else kv"
    have "take (Suc n) (drop cur ?kv) = (b, off + ret, len - ret) # take n (drop (Suc cur) kv)"
      using cur t by (simp add: k drop_update_swap flip: Cons_nth_drop_Suc)
    moreover have "kvec_fits con (b, off + ret, len - ret)" using fits(1) False by (simp add: kvec_fits_def)
    moreover have "kvec_bytes con (b, off + ret, len - ret) = drop ret (kvec_bytes con (b, off, len))"
      by (simp add: kvec_bytes_def drop_take add.commute)
    ultimately show ?thesis
      unfolding t using cur k False fits(2) lb Suc.prems(1) by (subst consume_kvecs.simps) auto
  qed
qed simp

text \<open>Sending and bookkeeping do not touch what the vectors point to.\<close>

lemma base_bytes_cong:
  assumes "store con' = store con" and "out_temp_ack con' = out_temp_ack con" and "out_connect con' = out_connect con"
    and "msgr con' = msgr con"
  shows "base_bytes con' = base_bytes con" and "kvec_bytes con' = kvec_bytes con" and "kvec_fits con' = kvec_fits con"
proof -
  show b: "base_bytes con' = base_bytes con"
  proof
    fix k
    show "base_bytes con' k = base_bytes con k" by (cases k) (use assms in simp_all)
  qed
  show "kvec_bytes con' = kvec_bytes con" "kvec_fits con' = kvec_fits con"
    by (simp_all add: kvec_bytes_def[abs_def] kvec_fits_def[abs_def] b)
qed

lemma sendmsg_Some:
  assumes "sock con = Some sk"
  shows "\<exists>r n sk'. ceph_tcp_sendmsg bs con = Inr (r, con\<lparr>sock := Some sk'\<rparr>) \<and> n \<le> length bs \<and>
    sk_out sk' = sk_out sk @ take n bs \<and> (0 < r \<longrightarrow> r = int n) \<and> (r \<le> 0 \<longrightarrow> n = 0)"
proof -
  show ?thesis
  proof (cases "sk_tx sk")
    case Nil
    then show ?thesis using assms by (auto simp: ceph_tcp_sendmsg_def kernel_sendmsg_def intro!: exI[of _ 0])
  next
    case (Cons r rs)
    show ?thesis
    proof (cases "r < 0")
      case True
      then show ?thesis using assms Cons by (auto simp: ceph_tcp_sendmsg_def kernel_sendmsg_def intro!: exI[of _ 0])
    next
      case False
      then show ?thesis
        using assms Cons
        by (auto simp: ceph_tcp_sendmsg_def kernel_sendmsg_def Let_def EAGAIN_def intro!: exI[of _ "min (nat r) (length bs)"])
    qed
  qed
qed

text \<open>Only the socket and the vectors change.\<close>

definition kvec_frame :: "ceph_connection \<Rightarrow> ceph_connection \<Rightarrow> bool" where
  "kvec_frame con con' \<longleftrightarrow> store con' = store con \<and> msgr con' = msgr con \<and> out_msg con' = out_msg con \<and>
    out_msg_done con' = out_msg_done con \<and> state con' = state con \<and> out_skip con' = out_skip con \<and>
    out_queue con' = out_queue con \<and> out_seq con' = out_seq con \<and> in_seq con' = in_seq con \<and>
    in_seq_acked con' = in_seq_acked con \<and> flags con' = flags con \<and> length (out_kvec con') = length (out_kvec con)"

lemma write_partial_kvec_ok:
  assumes "kvecs_ok con" and "sock con = Some sk"
  shows "\<exists>r con' sk'. write_partial_kvec con = Inr (r, con') \<and> sock con' = Some sk' \<and> kvecs_ok con' \<and>
    sk_out sk' @ out_bytes con' = sk_out sk @ out_bytes con \<and> (r = 1 \<and> out_bytes con' = [] \<and> out_kvec_left con' = 0 \<or> r \<le> 0) \<and>
    kvec_frame con con'"
  using assms
proof (induction con arbitrary: sk rule: write_partial_kvec.induct)
  case (1 con)
  show ?case
  proof (cases "out_kvec_bytes con = 0")
    case True
    have "out_bytes con = []" using 1(2) True by (simp add: kvecs_ok_def)
    then show ?thesis
      using True 1(2,3) by (subst write_partial_kvec.simps) (auto simp: kvecs_ok_def out_bytes_def kvecs_left_def kvec_frame_def)
  next
    case False
    let ?bs = "out_bytes con"
    have all: "take (out_kvec_bytes con) ?bs = ?bs" using 1(2) by (simp add: kvecs_ok_def)
    obtain r n sk1 where s: "ceph_tcp_sendmsg ?bs con = Inr (r, con\<lparr>sock := Some sk1\<rparr>)" "n \<le> length ?bs"
        "sk_out sk1 = sk_out sk @ take n ?bs" "0 < r \<Longrightarrow> r = int n" "r \<le> 0 \<Longrightarrow> n = 0"
      using sendmsg_Some[OF 1(3), of ?bs] by blast
    have step: "write_partial_kvec con = (if r \<le> 0 then Inr (r, con\<lparr>sock := Some sk1\<rparr>) else
        (let left_bytes = out_kvec_bytes con - n; con2 = con\<lparr>sock := Some sk1, out_kvec_bytes := left_bytes\<rparr> in
         if left_bytes = 0 then Inr (1, con2\<lparr>out_kvec_left := 0, out_kvec_is_msg := False\<rparr>)
         else bindE (consume_kvecs (out_kvec_left con) (out_kvec_cur con) n (out_kvec con)) (\<lambda>(l, cur, kv).
           write_partial_kvec (con2\<lparr>out_kvec_left := l, out_kvec_cur := cur, out_kvec := kv\<rparr>))))"
      using False all s by (subst write_partial_kvec.simps) (auto simp: Let_def)
    show ?thesis
    proof (cases "r \<le> 0")
      case True
      have "kvecs_ok (con\<lparr>sock := Some sk1\<rparr>)" "out_bytes (con\<lparr>sock := Some sk1\<rparr>) = ?bs"
        using 1(2) base_bytes_cong[of "con\<lparr>sock := Some sk1\<rparr>" con] by (simp_all add: kvecs_ok_def out_bytes_def kvecs_left_def)
      then show ?thesis using True step s(3,5) by (simp add: kvec_frame_def)
    next
      case pos: False
      then have n: "0 < n" "r = int n" using s(4) by auto
      have len: "out_kvec_bytes con = length ?bs" using 1(2) by (simp add: kvecs_ok_def)
      show ?thesis
      proof (cases "n = length ?bs")
        case True
        let ?c = "con\<lparr>sock := Some sk1, out_kvec_bytes := 0, out_kvec_left := 0, out_kvec_is_msg := False\<rparr>"
        have "write_partial_kvec con = Inr (1, ?c)" using step pos True len by (simp add: Let_def)
        moreover have "kvecs_ok ?c" "out_bytes ?c = []" using 1(2) by (simp_all add: kvecs_ok_def out_bytes_def kvecs_left_def)
        ultimately show ?thesis using True s(3) by (auto simp: kvec_frame_def)
      next
        case False
        then have less: "n < length ?bs" using s(2) by simp
        obtain l cur kv where c: "consume_kvecs (out_kvec_left con) (out_kvec_cur con) n (out_kvec con) = Inr (l, cur, kv)"
            "cur + l \<le> length kv" "length kv = length (out_kvec con)" "list_all (kvec_fits con) (take l (drop cur kv))"
            "concat (map (kvec_bytes con) (take l (drop cur kv))) = drop n ?bs"
          using consume_kvecs_ok[of "out_kvec_cur con" "out_kvec_left con" "out_kvec con" con n] 1(2) less
          by (auto simp: kvecs_ok_def kvecs_left_def out_bytes_def)
        let ?c = "con\<lparr>sock := Some sk1, out_kvec_bytes := length ?bs - n, out_kvec_left := l, out_kvec_cur := cur, out_kvec := kv\<rparr>"
        have w: "write_partial_kvec con = write_partial_kvec ?c" using step pos less len c(1) by (simp add: Let_def)
        have b: "kvec_bytes ?c = kvec_bytes con" "kvec_fits ?c = kvec_fits con" by (rule base_bytes_cong; simp)+
        have ob: "out_bytes ?c = drop n ?bs" using c(5) unfolding out_bytes_def[of ?c] b by simp
        have "kvecs_ok ?c" unfolding kvecs_ok_def kvecs_left_def ob b using c(2,4) by simp
        moreover have "sock ?c = Some sk1" by simp
        ultimately have IH: "\<exists>r' con' sk'. write_partial_kvec ?c = Inr (r', con') \<and> sock con' = Some sk' \<and> kvecs_ok con' \<and>
            sk_out sk' @ out_bytes con' = sk_out sk1 @ out_bytes ?c \<and>
            (r' = 1 \<and> out_bytes con' = [] \<and> out_kvec_left con' = 0 \<or> r' \<le> 0) \<and>
            kvec_frame ?c con'"
          using 1(1)[of "(r, con\<lparr>sock := Some sk1\<rparr>)" r "con\<lparr>sock := Some sk1\<rparr>" "length ?bs - n"
              "con\<lparr>sock := Some sk1, out_kvec_bytes := length ?bs - n\<rparr>" "(l, cur, kv)" l "(cur, kv)" cur kv sk1]
            \<open>out_kvec_bytes con \<noteq> 0\<close> all s(1) pos n less len c(1) by simp
        have "sk_out sk1 @ out_bytes ?c = sk_out sk @ ?bs" using s(3) ob by simp
        moreover have "kvec_frame con con'" if "kvec_frame ?c con'" for con' using that c(3) by (auto simp: kvec_frame_def)
        ultimately show ?thesis using IH w by (metis (no_types, lifting))
      qed
    qed
  qed
qed

section \<open>The payload and its checksum\<close>

text \<open>What the code relies on of \<open>crc32c\<close>: it can be computed piece by piece.\<close>

definition crc_incremental :: "con_env \<Rightarrow> bool" where
  "crc_incremental env \<longleftrightarrow>
    (\<forall>c. crc32c env c [] = c) \<and> (\<forall>c a b. crc32c env (crc32c env c a) b = crc32c env c (a @ b))"

definition crc_left :: "ceph_msg_data_cursor \<Rightarrow> u8 list" where
  "crc_left c = uncounted need_crc ceph_msg_data_next msg_rest c"

lemma crc_left_done: "msg_rest c = [] \<Longrightarrow> crc_left c = []"
  by (simp add: crc_left_def uncounted_def)

lemma sendpage_Some:
  assumes "sock con = Some sk"
  shows "\<exists>r n sk'. ceph_tcp_sendpage page off len con = Inr (r, con\<lparr>sock := Some sk'\<rparr>) \<and> n \<le> length (take len (drop off page)) \<and>
    sk_out sk' = sk_out sk @ take n (take len (drop off page)) \<and> (0 < r \<longrightarrow> r = int n) \<and> (r \<le> 0 \<longrightarrow> n = 0)"
  using sendmsg_Some[OF assms, of "take len (drop off page)"] by (simp add: ceph_tcp_sendpage_def)

definition set_cursor :: "nat \<Rightarrow> ceph_msg_data_cursor \<Rightarrow> socket \<Rightarrow> ceph_connection \<Rightarrow> ceph_connection" where
  "set_cursor m c sk con = (upd_msg m (\<lambda>x. x\<lparr>m_cursor := c\<rparr>) con)\<lparr>sock := Some sk\<rparr>"

lemma set_cursor_simps [simp]:
  "m_cursor (store (set_cursor m c sk con) m) = c" "sock (set_cursor m c sk con) = Some sk" "msgr (set_cursor m c sk con) = msgr con"
  "set_cursor m c' sk' (set_cursor m c sk con) = set_cursor m c' sk' con"
  by (simp_all add: set_cursor_def upd_msg_def)

lemma data_loop_ok:
  assumes "msg_ok (m_cursor (store con m))" and "sock con = Some sk" and "crc_incremental env"
  shows "\<exists>r crc' c' sk'. data_loop env m crc con = Inr (r, crc', set_cursor m c' sk' con) \<and> msg_ok c' \<and>
    sk_out sk' @ msg_rest c' = sk_out sk @ msg_rest (m_cursor (store con m)) \<and>
    (\<not> nocrc (msgr con) \<longrightarrow> crc32c env crc' (crc_left c') = crc32c env crc (crc_left (m_cursor (store con m)))) \<and>
    (r = 1 \<and> msg_rest c' = [] \<or> r \<le> 0)"
  using assms
proof (induction env m crc con arbitrary: sk rule: data_loop.induct)
  case (1 env m crc con)
  let ?c = "m_cursor (store con m)"
  have self: "con = set_cursor m ?c sk con" using 1(3) by (simp add: set_cursor_def upd_msg_def)
  show ?case
  proof (cases "resid ?c \<noteq> 0")
    case False
    then have "msg_rest ?c = []" using msg.busy_iff[OF 1(2)] by auto
    moreover have "data_loop env m crc con = Inr (1, crc, set_cursor m ?c sk con)"
      using False self by (subst data_loop.simps) simp
    ultimately show ?thesis using 1(2) by auto
  next
    case True
    then have ne: "msg_rest ?c \<noteq> []" using msg.busy_iff[OF 1(2)] by auto
    obtain page off len where p: "ceph_msg_data_next ?c = Inr (page, off, len)" "0 < len" "len \<le> length (msg_rest ?c)"
        "take len (drop off page) = take len (msg_rest ?c)"
      using msg.nxt_piece[OF 1(2) ne] by blast
    obtain r n sk1 where s: "ceph_tcp_sendpage page off len con = Inr (r, con\<lparr>sock := Some sk1\<rparr>)"
        "n \<le> length (take len (drop off page))" "sk_out sk1 = sk_out sk @ take n (take len (drop off page))"
        "0 < r \<Longrightarrow> r = int n" "r \<le> 0 \<Longrightarrow> n = 0"
      using sendpage_Some[OF 1(3), of page off len] by blast
    have nlen: "n \<le> len" using s(2) by simp
    show ?thesis
    proof (cases "r \<le> 0")
      case neg: True
      have "con\<lparr>sock := Some sk1\<rparr> = set_cursor m ?c sk1 con" by (simp add: set_cursor_def upd_msg_def)
      then have "data_loop env m crc con = Inr (r, crc, set_cursor m ?c sk1 con)"
        using True p(1) s(1) neg by (subst data_loop.simps) (simp add: Let_def)
      then show ?thesis using 1(2) neg s(3,5) by (intro exI[of _ r] exI[of _ crc] exI[of _ ?c] exI[of _ sk1]) simp
    next
      case pos: False
      then have n: "0 < n" "nat r = n" using s(4) by auto
      obtain b c1 where a: "ceph_msg_data_advance ?c n = Inr (b, c1)" "msg_ok c1" "msg_rest c1 = drop n (msg_rest ?c)"
        using msg.adv_drop[OF 1(2) ne p(1) n(1) nlen] by blast
      let ?crc = "if \<not> nocrc (msgr con) \<and> need_crc ?c then ceph_crc32c_page env crc page off len else crc"
      let ?con = "upd_msg m (\<lambda>x. x\<lparr>m_cursor := c1\<rparr>) (con\<lparr>sock := Some sk1\<rparr>)"
      have con: "?con = set_cursor m c1 sk1 con" by (simp add: set_cursor_def upd_msg_def)
      have step: "data_loop env m crc con = data_loop env m ?crc ?con"
        using True p(1) s(1) pos n(2) a(1) by (subst data_loop.simps) (simp add: Let_def)
      have out: "sk_out sk1 @ msg_rest c1 = sk_out sk @ msg_rest ?c"
        using s(3) a(3) p(4) nlen by (simp add: take_take min_def)
      have crc: "crc32c env ?crc (crc_left c1) = crc32c env crc (crc_left ?c)" if "\<not> nocrc (msgr con)"
        using marked_msg.uncounted_step[OF 1(2) ne p(1) n(1) nlen a(1)] 1(4) that
        by (auto simp: crc_left_def crc_incremental_def ceph_crc32c_page_def)
      have IH: "\<exists>r' crc' c' sk'. data_loop env m ?crc ?con = Inr (r', crc', set_cursor m c' sk' ?con) \<and> msg_ok c' \<and>
          sk_out sk' @ msg_rest c' = sk_out sk1 @ msg_rest (m_cursor (store ?con m)) \<and>
          (\<not> nocrc (msgr ?con) \<longrightarrow> crc32c env crc' (crc_left c') = crc32c env ?crc (crc_left (m_cursor (store ?con m)))) \<and>
          (r' = 1 \<and> msg_rest c' = [] \<or> r' \<le> 0)"
        using 1(1)[OF refl True p(1) refl refl s(1) refl pos refl, of "(b, c1)" b c1 sk1] a(1,2) n(2) 1(4) con by simp
      have c1: "m_cursor (store ?con m) = c1" "msgr ?con = msgr con" by (simp_all add: upd_msg_def)
      show ?thesis
        unfolding step using IH out crc unfolding c1 con set_cursor_simps by metis
    qed
  qed
qed

section \<open>The image of a message on the wire\<close>

definition numbered_msg :: "u64 \<Rightarrow> ceph_msg \<Rightarrow> ceph_msg" where
  "numbered_msg s x = (if needs_out_seq x then x\<lparr>hdr_seq := s + 1, needs_out_seq := False\<rparr> else x)"

definition payload :: "ceph_msg \<Rightarrow> u8 list" where
  "payload x = take (m_data_length x) (concat (map item_bytes (m_data x)))"

definition middle_bytes :: "ceph_msg \<Rightarrow> u8 list" where
  "middle_bytes x = (case m_middle x of Some b \<Rightarrow> b | None \<Rightarrow> [])"

text \<open>A message with its checksums, and its bytes.\<close>

definition sealed_msg :: "con_env \<Rightarrow> bool \<Rightarrow> ceph_msg \<Rightarrow> ceph_msg" where
  "sealed_msg env no_crc x = (fill_crcs env x)\<lparr>
     ftr_data_crc := (if no_crc \<or> m_data_length x = 0 then 0 else crc32c env 0 (payload x)),
     ftr_flags := (if no_crc \<and> m_data_length x \<noteq> 0 then CEPH_MSG_FOOTER_NOCRC else 0) OR CEPH_MSG_FOOTER_COMPLETE\<rparr>"

definition message_image :: "con_env \<Rightarrow> bool \<Rightarrow> ceph_msg \<Rightarrow> u8 list" where
  "message_image env no_crc x =
    (let y = sealed_msg env no_crc x in
     [TAG_MSG] @ hdr_bytes y @ m_front y @ middle_bytes y @ payload y @ footer_bytes y)"

definition ack_image :: "ceph_connection \<Rightarrow> u8 list" where
  "ack_image con = (if in_seq_acked con < in_seq con then [TAG_ACK] @ le_bytes 8 (in_seq con) else [])"

text \<open>A message that can be sent: its header fits its parts and its items hold the payload.\<close>

definition sendable :: "ceph_msg \<Rightarrow> bool" where
  "sendable x \<longleftrightarrow> m_con x \<and> unat (hdr_front_len x) = length (m_front x) \<and> covered (m_data x) (m_data_length x)"

text \<open>What the connection will still send of the current message.\<close>

definition finished_msg :: "con_env \<Rightarrow> bool \<Rightarrow> ceph_msg \<Rightarrow> ceph_msg" where
  "finished_msg env no_crc x =
    x\<lparr>ftr_data_crc := (if no_crc then ftr_data_crc x else crc32c env (ftr_data_crc x) (crc_left (m_cursor x))),
      ftr_flags := (if no_crc then ftr_flags x OR CEPH_MSG_FOOTER_NOCRC else ftr_flags x) OR CEPH_MSG_FOOTER_COMPLETE\<rparr>"

definition wire_left :: "con_env \<Rightarrow> ceph_connection \<Rightarrow> u8 list" where
  "wire_left env con = out_bytes con @
    (case out_msg con of
       None \<Rightarrow> []
     | Some m \<Rightarrow> if out_msg_done con then [] else
         msg_rest (m_cursor (store con m)) @ footer_bytes (finished_msg env (nocrc (msgr con)) (store con m)))"

lemma length_hdr_bytes [simp]: "length (hdr_bytes x) = HEADER_SIZE"
  by (simp add: hdr_bytes_def hdr_prefix_def HEADER_SIZE_def)

lemma length_footer_bytes [simp]: "length (footer_bytes x) = FOOTER_SIZE"
  by (simp add: footer_bytes_def FOOTER_SIZE_def)

lemma hdr_prefix_upd [simp]:
  "hdr_prefix (x\<lparr>hdr_crc := i\<rparr>) = hdr_prefix x" "hdr_prefix (x\<lparr>ftr_front_crc := i\<rparr>) = hdr_prefix x"
  "hdr_prefix (x\<lparr>ftr_middle_crc := i\<rparr>) = hdr_prefix x" "hdr_prefix (x\<lparr>ftr_data_crc := i\<rparr>) = hdr_prefix x"
  "hdr_prefix (x\<lparr>ftr_flags := f\<rparr>) = hdr_prefix x" "hdr_prefix (x\<lparr>m_cursor := c\<rparr>) = hdr_prefix x"
  "hdr_prefix (x\<lparr>m_kref := k, hdr_seq := s\<rparr>) = hdr_prefix (x\<lparr>hdr_seq := s\<rparr>)"
  "hdr_prefix (x\<lparr>m_kref := k\<rparr>) = hdr_prefix x" "hdr_prefix (x\<lparr>needs_out_seq := b\<rparr>) = hdr_prefix x"
  by (simp_all add: hdr_prefix_def)

lemma kvecs_8:
  assumes "length (kv :: kvec list) = ARRAY_SIZE_out_kvec"
  obtains k0 k1 k2 k3 k4 k5 k6 k7 where "kv = [k0, k1, k2, k3, k4, k5, k6, k7]"
  using assms by (auto simp: ARRAY_SIZE_out_kvec_def numeral_eq_Suc length_Suc_conv)

lemma data_cursor_ready:
  assumes "covered items n" and "n \<noteq> 0"
  shows "\<exists>c. ceph_msg_data_cursor_init items n cursor n = Inr c \<and> msg_ok c \<and>
    msg_rest c = take n (concat (map item_bytes items)) \<and> crc_left c = msg_rest c"
proof -
  let ?c0 = "cursor\<lparr>total_resid := n, cur_data := items\<rparr>"
  obtain c where c: "data_cursor_init ?c0 = Inr c" "msg_ok c" "msg_rest c = take n (concat (map item_bytes items))"
    using data_init_ok[of ?c0] assms by auto
  have "need_crc c" using c(1) by (auto simp: data_cursor_init_def bindE_Inr_iff)
  then have "crc_left c = msg_rest c" by (simp add: crc_left_def uncounted_def)
  moreover have "items \<noteq> []" using assms by auto
  ultimately show ?thesis using c assms(2) by (simp add: ceph_msg_data_cursor_init_def guardE_def)
qed

text \<open>The parts of a connection that a message's preparation leaves alone.\<close>

definition send_frame :: "ceph_connection \<Rightarrow> ceph_connection \<Rightarrow> bool" where
  "send_frame con con' \<longleftrightarrow> sock con' = sock con \<and> state con' = state con \<and> msgr con' = msgr con \<and> out_skip con' = out_skip con \<and>
    in_seq con' = in_seq con \<and> flags con' - {WRITE_PENDING} = flags con - {WRITE_PENDING}"

lemmas prepare_defs = prepare_write_message_def con_out_kvec_reset_def sneak_ack_def con_out_kvec_add_def ARRAY_SIZE_out_kvec_def
  wr_def assign_seq_def msg_ref_defs Let_def prepare_write_message_footer_def con_flag_set_def prepare_message_data_def

lemmas image_defs = wire_left_def ack_image_def message_image_def sealed_msg_def numbered_msg_def fill_crcs_def middle_bytes_def
  finished_msg_def kvecs_ok_def kvecs_left_def out_bytes_def kvec_fits_def kvec_bytes_def send_frame_def
  hdr_bytes_def footer_bytes_def

lemma prepare_image:
  assumes kv: "length (out_kvec con) = ARRAY_SIZE_out_kvec" and q: "out_queue con = m # queue" and sx: "sendable (store con m)"
  shows "\<exists>con'. prepare_write_message env con = Inr con' \<and> kvecs_ok con' \<and> length (out_kvec con') = ARRAY_SIZE_out_kvec \<and>
    out_msg con' = Some m \<and> out_queue con' = queue \<and> out_seq con' = (if needs_out_seq (store con m) then out_seq con + 1 else out_seq con) \<and>
    wire_left env con' = ack_image con @ message_image env (nocrc (msgr con)) (numbered_msg (out_seq con) (store con m)) \<and>
    (\<not> out_msg_done con' \<longrightarrow> msg_ok (m_cursor (store con' m)) \<and> m_data (store con' m) \<noteq> []) \<and>
    (\<forall>x. x \<noteq> m \<longrightarrow> store con' x = store con x) \<and> in_seq_acked con' = (if in_seq_acked con < in_seq con then in_seq con else in_seq_acked con) \<and> send_frame con con'"
proof -
  obtain k0 k1 k2 k3 k4 k5 k6 k7 where k: "out_kvec con = [k0, k1, k2, k3, k4, k5, k6, k7]" by (rule kvecs_8[OF kv])
  have sx': "m_con (store con m)" "unat (hdr_front_len (store con m)) = length (m_front (store con m))"
    "covered (m_data (store con m)) (m_data_length (store con m))" using sx by (auto simp: sendable_def)
  have len: "length (hdr_prefix x) = 49" for x by (simp add: hdr_prefix_def)
  show ?thesis
  proof (cases "m_data_length (store con m) = 0")
    case True
    have pl: "payload y = []" if "m_data_length y = 0" for y using that by (simp add: payload_def)
    show ?thesis
      using True sx' q
      by (cases "in_seq_acked con < in_seq con"; cases "m_middle (store con m)"; cases "needs_out_seq (store con m)")
        (simp_all add: prepare_defs k image_defs pl len FOOTER_SIZE_def HEADER_SIZE_def)
  next
    case False
    obtain c where c: "ceph_msg_data_cursor_init (m_data (store con m)) (m_data_length (store con m)) (m_cursor (store con m))
        (m_data_length (store con m)) = Inr c" "msg_ok c" "crc_left c = msg_rest c"
        "msg_rest c = take (m_data_length (store con m)) (concat (map item_bytes (m_data (store con m))))"
      using data_cursor_ready[OF sx'(3) False] by metis
    have ne: "m_data (store con m) \<noteq> []" using sx'(3) False by auto
    show ?thesis
      using False sx' q c ne
      by (cases "in_seq_acked con < in_seq con"; cases "m_middle (store con m)"; cases "needs_out_seq (store con m)")
        (simp_all add: prepare_defs k image_defs payload_def len HEADER_SIZE_def)
  qed
qed

section \<open>Writing what is left\<close>

definition sent_bytes :: "ceph_connection \<Rightarrow> u8 list" where
  "sent_bytes con = (case sock con of None \<Rightarrow> [] | Some sk \<Rightarrow> sk_out sk)"

lemma footer_ok:
  assumes "out_msg con = Some m" and "length (out_kvec con) = ARRAY_SIZE_out_kvec"
  defines "y \<equiv> (store con m)\<lparr>ftr_flags := ftr_flags (store con m) OR CEPH_MSG_FOOTER_COMPLETE\<rparr>"
  shows "\<exists>con'. prepare_write_message_footer (con_out_kvec_reset con) = Inr con' \<and> kvecs_ok con' \<and> out_msg_done con' \<and>
    length (out_kvec con') = ARRAY_SIZE_out_kvec \<and> out_bytes con' = footer_bytes y \<and> store con' = (store con)(m := y) \<and>
    out_msg con' = Some m \<and> sock con' = sock con \<and> state con' = state con \<and> out_skip con' = out_skip con \<and> msgr con' = msgr con \<and>
    out_queue con' = out_queue con \<and> out_seq con' = out_seq con \<and> in_seq con' = in_seq con \<and> in_seq_acked con' = in_seq_acked con \<and>
    flags con' = flags con"
proof -
  obtain k0 k1 k2 k3 k4 k5 k6 k7 where k: "out_kvec con = [k0, k1, k2, k3, k4, k5, k6, k7]" by (rule kvecs_8[OF assms(2)])
  show ?thesis
    using assms(1)
    by (simp add: prepare_write_message_footer_def con_out_kvec_reset_def k wr_def Let_def upd_msg_def kvecs_ok_def kvecs_left_def
        out_bytes_def kvec_fits_def kvec_bytes_def ARRAY_SIZE_out_kvec_def y_def)
qed

text \<open>The parts that writing leaves alone, \<open>out_msg\<close> apart.\<close>

definition write_frame :: "nat \<Rightarrow> ceph_connection \<Rightarrow> ceph_connection \<Rightarrow> bool" where
  "write_frame m con con' \<longleftrightarrow> state con' = state con \<and> out_skip con' = out_skip con \<and> msgr con' = msgr con \<and>
    out_queue con' = out_queue con \<and> out_seq con' = out_seq con \<and> in_seq con' = in_seq con \<and> in_seq_acked con' = in_seq_acked con \<and>
    flags con' = flags con \<and> length (out_kvec con') = length (out_kvec con) \<and> out_msg con' = out_msg con \<and>
    (\<forall>x. x \<noteq> m \<longrightarrow> store con' x = store con x)"

lemma write_data_ok:
  assumes o: "out_msg con = Some m" "\<not> out_msg_done con" and c: "msg_ok (m_cursor (store con m))" "m_data (store con m) \<noteq> []"
    and sk: "sock con = Some sk" and crc: "crc_incremental env" and kv: "length (out_kvec con) = ARRAY_SIZE_out_kvec"
    and empty: "kvecs_ok con" "out_kvec_left con = 0"
  shows "\<exists>r con'. write_partial_message_data env con = Inr (r, con') \<and> sock con' \<noteq> None \<and> kvecs_ok con' \<and> write_frame m con con' \<and>
    sent_bytes con' @ wire_left env con' = sent_bytes con @ wire_left env con \<and>
    (r = 1 \<and> out_msg_done con' \<or> r \<le> 0 \<and> \<not> out_msg_done con' \<and> msg_ok (m_cursor (store con' m)) \<and> m_data (store con' m) \<noteq> [])"
proof -
  let ?no = "nocrc (msgr con)" and ?x = "store con m"
  let ?crc0 = "if \<not> ?no then ftr_data_crc ?x else 0"
  obtain r crc' c' sk' where l: "data_loop env m ?crc0 con = Inr (r, crc', set_cursor m c' sk' con)" "msg_ok c'"
      "sk_out sk' @ msg_rest c' = sk_out sk @ msg_rest (m_cursor ?x)"
      "\<not> ?no \<Longrightarrow> crc32c env crc' (crc_left c') = crc32c env ?crc0 (crc_left (m_cursor ?x))"
      "r = 1 \<and> msg_rest c' = [] \<or> r \<le> 0"
    using data_loop_ok[OF c(1) sk crc, of ?crc0] by blast
  have left: "wire_left env con = msg_rest (m_cursor ?x) @ footer_bytes (finished_msg env ?no ?x)"
    using o empty by (simp add: wire_left_def out_bytes_def)
  show ?thesis
  proof (cases "r \<le> 0")
    case True
    define d where "d = (if \<not> ?no then upd_msg m (\<lambda>x. x\<lparr>ftr_data_crc := crc'\<rparr>) (set_cursor m c' sk' con) else set_cursor m c' sk' con)"
    have w: "write_partial_message_data env con = Inr (r, d)"
      using o(1) c(2) l(1) True by (simp add: write_partial_message_data_def Let_def d_def)
    have st: "store d = (store con)(m := ?x\<lparr>m_cursor := c', ftr_data_crc := if \<not> ?no then crc' else ftr_data_crc ?x\<rparr>)"
      by (auto simp: set_cursor_def upd_msg_def fun_eq_iff d_def)
    have frame: "write_frame m con d" by (auto simp: write_frame_def set_cursor_def upd_msg_def d_def)
    have same: "sock d = Some sk'" "out_msg_done d = out_msg_done con" "out_kvec_left d = out_kvec_left con"
        "out_kvec_cur d = out_kvec_cur con" "out_kvec d = out_kvec con" "out_kvec_bytes d = out_kvec_bytes con" "out_msg d = Some m"
        "msgr d = msgr con"
      using o(1) by (simp_all add: set_cursor_def upd_msg_def d_def)
    have ok: "kvecs_ok d" "out_bytes d = []" using empty by (simp_all add: kvecs_ok_def kvecs_left_def out_bytes_def same)
    have "wire_left env d = msg_rest c' @ footer_bytes (finished_msg env ?no ?x)"
      using ok(2) o(2) l(4) by (auto simp: wire_left_def same st finished_msg_def footer_bytes_def)
    then have "sent_bytes d @ wire_left env d = sent_bytes con @ wire_left env con"
      using l(3) left sk by (simp add: sent_bytes_def same del: append_assoc flip: append_assoc)
    then show ?thesis using w frame ok(1) same(1,2) True l(2) o(2) c(2) by (auto simp: st)
  next
    case False
    then have r: "r = 1" "msg_rest c' = []" using l(5) by auto
    let ?f = "\<lambda>x. if \<not> ?no then x\<lparr>ftr_data_crc := crc'\<rparr> else x\<lparr>ftr_flags := ftr_flags x OR CEPH_MSG_FOOTER_NOCRC\<rparr>"
    let ?con = "upd_msg m ?f (set_cursor m c' sk' con)"
    have f: "out_msg ?con = Some m" "length (out_kvec ?con) = ARRAY_SIZE_out_kvec"
      using o(1) kv by (simp_all add: set_cursor_def upd_msg_def)
    obtain d where d: "prepare_write_message_footer (con_out_kvec_reset ?con) = Inr d" "kvecs_ok d" "out_msg_done d"
        "length (out_kvec d) = ARRAY_SIZE_out_kvec"
        "out_bytes d = footer_bytes ((store ?con m)\<lparr>ftr_flags := ftr_flags (store ?con m) OR CEPH_MSG_FOOTER_COMPLETE\<rparr>)"
        "store d = (store ?con)(m := (store ?con m)\<lparr>ftr_flags := ftr_flags (store ?con m) OR CEPH_MSG_FOOTER_COMPLETE\<rparr>)"
        "out_msg d = Some m" "sock d = sock ?con" "state d = state ?con" "out_skip d = out_skip ?con" "msgr d = msgr ?con"
        "out_queue d = out_queue ?con" "out_seq d = out_seq ?con" "in_seq d = in_seq ?con" "in_seq_acked d = in_seq_acked ?con"
        "flags d = flags ?con"
      using footer_ok[OF f] by blast
    have w: "write_partial_message_data env con = Inr (1, d)"
      using o(1) c(2) l(1) r(1) d(1) by (simp add: write_partial_message_data_def Let_def)
    have crc1: "crc' = crc32c env (ftr_data_crc ?x) (crc_left (m_cursor ?x))" if "\<not> ?no"
      using l(4)[OF that] that crc crc_left_done[OF r(2)] by (simp add: crc_incremental_def)
    have "footer_bytes ((store ?con m)\<lparr>ftr_flags := ftr_flags (store ?con m) OR CEPH_MSG_FOOTER_COMPLETE\<rparr>) =
        footer_bytes (finished_msg env ?no ?x)"
      using crc1 by (auto simp: set_cursor_def upd_msg_def finished_msg_def footer_bytes_def)
    moreover have "write_frame m con d"
      using d o(1) kv by (auto simp: write_frame_def set_cursor_def upd_msg_def)
    moreover have "sent_bytes d = sent_bytes con @ msg_rest (m_cursor ?x)"
      using d(8) l(3) r(2) sk by (simp add: sent_bytes_def set_cursor_def upd_msg_def)
    ultimately show ?thesis
      using w d(2,3,5,7,8) left by (auto simp: wire_left_def set_cursor_def upd_msg_def)
  qed
qed

section \<open>The write loop\<close>

text \<open>The images of the messages of a queue, numbered from \<open>s\<close> on.\<close>

fun queue_images :: "con_env \<Rightarrow> bool \<Rightarrow> (nat \<Rightarrow> ceph_msg) \<Rightarrow> u64 \<Rightarrow> nat list \<Rightarrow> u8 list" where
  "queue_images env no_crc st s [] = []"
| "queue_images env no_crc st s (m # ms) =
    message_image env no_crc (numbered_msg s (st m)) @
    queue_images env no_crc st (if needs_out_seq (st m) then s + 1 else s) ms"

lemma queue_images_cong: "(\<And>m. m \<in> set ms \<Longrightarrow> st' m = st m) \<Longrightarrow> queue_images env b st' s ms = queue_images env b st s ms"
  by (induction ms arbitrary: s) auto

text \<open>An open connection with sendable messages and nothing to acknowledge.\<close>

definition writing :: "ceph_connection \<Rightarrow> bool" where
  "writing con \<longleftrightarrow> state con = CON_OPEN \<and> sock con \<noteq> None \<and> out_skip con = 0 \<and> length (out_kvec con) = ARRAY_SIZE_out_kvec \<and>
    kvecs_ok con \<and> distinct (out_queue con) \<and> (\<forall>x\<in>set (out_queue con). sendable (store con x)) \<and>
    in_seq con = in_seq_acked con \<and> KEEPALIVE_PENDING \<notin> flags con \<and>
    (\<forall>m. out_msg con = Some m \<longrightarrow> m \<notin> set (out_queue con) \<and>
      (\<not> out_msg_done con \<longrightarrow> msg_ok (m_cursor (store con m)) \<and> m_data (store con m) \<noteq> []))"

definition stream :: "con_env \<Rightarrow> ceph_connection \<Rightarrow> u8 list" where
  "stream env con = sent_bytes con @ wire_left env con @
    queue_images env (nocrc (msgr con)) (store con) (out_seq con) (out_queue con)"

lemma write_kvec_stream:
  assumes w: "writing con"
  shows "\<exists>r con'. write_partial_kvec con = Inr (r, con') \<and> writing con' \<and> stream env con' = stream env con \<and>
    (r = 1 \<and> out_kvec_left con' = 0 \<or> r \<le> 0) \<and> kvec_frame con con'"
proof -
  obtain sk where sk: "sock con = Some sk" using w by (auto simp: writing_def)
  have "kvecs_ok con" using w by (simp add: writing_def)
  from write_partial_kvec_ok[OF this sk] obtain r d sk' where d: "write_partial_kvec con = Inr (r, d)" "sock d = Some sk'" "kvecs_ok d"
      "sk_out sk' @ out_bytes d = sk_out sk @ out_bytes con" "r = 1 \<and> out_bytes d = [] \<and> out_kvec_left d = 0 \<or> r \<le> 0" "kvec_frame con d"
    by blast
  note f = d(6)[unfolded kvec_frame_def]
  have "writing d" using w d(2,3) f by (simp add: writing_def)
  moreover have "stream env d = stream env con"
    using d(2,4) sk f
    by (simp add: stream_def sent_bytes_def wire_left_def del: append_assoc flip: append_assoc split: option.split)
  ultimately show ?thesis using d(1,5,6) by auto
qed

lemma write_data_stream:
  assumes w: "writing con" and o: "out_msg con = Some m" "\<not> out_msg_done con" and crc: "crc_incremental env" and e: "out_kvec_left con = 0"
  shows "\<exists>r con'. write_partial_message_data env con = Inr (r, con') \<and> writing con' \<and> stream env con' = stream env con \<and>
    (r = 1 \<and> out_msg_done con' \<or> r \<le> 0) \<and> out_queue con' = out_queue con \<and> flags con' = flags con"
proof -
  obtain sk where sk: "sock con = Some sk" using w by (auto simp: writing_def)
  have c: "msg_ok (m_cursor (store con m))" "m_data (store con m) \<noteq> []" "length (out_kvec con) = ARRAY_SIZE_out_kvec" "kvecs_ok con"
      "m \<notin> set (out_queue con)"
    using w o by (auto simp: writing_def)
  obtain r d where d: "write_partial_message_data env con = Inr (r, d)" "sock d \<noteq> None" "kvecs_ok d" "write_frame m con d"
      "sent_bytes d @ wire_left env d = sent_bytes con @ wire_left env con"
      "r = 1 \<and> out_msg_done d \<or> r \<le> 0 \<and> \<not> out_msg_done d \<and> msg_ok (m_cursor (store d m)) \<and> m_data (store d m) \<noteq> []"
    using write_data_ok[OF o c(1,2) sk crc c(3,4) e] by blast
  note f = d(4)[unfolded write_frame_def]
  have others: "x \<in> set (out_queue con) \<Longrightarrow> store d x = store con x" for x using f c(5) by metis
  have "writing d" using w d(2,3,6) f o(1) others by (auto simp: writing_def)
  moreover have "stream env d = stream env con"
    using d(5) f queue_images_cong[OF others] by (simp add: stream_def del: append_assoc flip: append_assoc)
  ultimately show ?thesis using d(1,6) f by auto
qed

lemma write_next_stream:
  assumes w: "writing con" and q: "out_queue con = m # queue" and o: "out_msg con = None" and e: "out_kvec_left con = 0"
  shows "\<exists>con'. prepare_next env con = Inr (Some con') \<and> writing con' \<and> stream env con' = stream env con \<and> out_queue con' = queue \<and>
    flags con' - {WRITE_PENDING} = flags con - {WRITE_PENDING} \<and> WRITE_PENDING \<in> flags con'"
proof -
  have kv: "length (out_kvec con) = ARRAY_SIZE_out_kvec" and sx: "sendable (store con m)" using w q by (auto simp: writing_def)
  from prepare_image[OF kv q sx, of env] obtain d where d: "prepare_write_message env con = Inr d" "kvecs_ok d"
      "length (out_kvec d) = ARRAY_SIZE_out_kvec" "out_msg d = Some m" "out_queue d = queue"
      "out_seq d = (if needs_out_seq (store con m) then out_seq con + 1 else out_seq con)"
      "wire_left env d = ack_image con @ message_image env (nocrc (msgr con)) (numbered_msg (out_seq con) (store con m))"
      "\<not> out_msg_done d \<longrightarrow> msg_ok (m_cursor (store d m)) \<and> m_data (store d m) \<noteq> []" "\<forall>x. x \<noteq> m \<longrightarrow> store d x = store con x"
      "in_seq_acked d = (if in_seq_acked con < in_seq con then in_seq con else in_seq_acked con)" "send_frame con d"
    by blast
  note f = d(11)[unfolded send_frame_def]
  have m: "m \<notin> set queue" "distinct queue" using w q by (auto simp: writing_def)
  then have others: "x \<in> set queue \<Longrightarrow> store d x = store con x" for x using d(9) by metis
  have flag: "KEEPALIVE_PENDING \<notin> flags d" "WRITE_PENDING \<in> flags d"
  proof -
    show "KEEPALIVE_PENDING \<notin> flags d" using f w by (auto simp: writing_def)
    show "WRITE_PENDING \<in> flags d" using d(1)
      by (auto simp: prepare_write_message_def con_flag_set_def Let_def split: list.splits option.splits if_splits)
  qed
  have "writing d" using w f q d m others flag by (auto simp: writing_def)
  moreover have "wire_left env con = []" using o e by (simp add: wire_left_def out_bytes_def)
  moreover have "ack_image con = []" using w by (simp add: ack_image_def writing_def)
  moreover have "sent_bytes d = sent_bytes con" using f by (simp add: sent_bytes_def)
  ultimately have "stream env d = stream env con"
    using d(5-7) q queue_images_cong[OF others] f by (simp add: stream_def)
  moreover have "prepare_next env con = Inr (Some d)" using d(1) q w by (simp add: prepare_next_def writing_def)
  ultimately show ?thesis using \<open>writing d\<close> d(5) f flag by auto
qed

lemma writing_done:
  assumes w: "writing con" and o: "out_msg con = Some m" "out_msg_done con" and e: "out_kvec_left con = 0"
  defines "d \<equiv> (ceph_msg_put m con)\<lparr>out_msg := None\<rparr>"
  shows "writing d" and "stream env d = stream env con" and "out_kvec_left d = 0"
proof -
  have st: "x \<noteq> m \<Longrightarrow> store d x = store con x" for x by (simp add: d_def msg_ref_defs)
  have m: "m \<notin> set (out_queue con)" using w o by (auto simp: writing_def)
  have same: "out_queue d = out_queue con" "msgr d = msgr con" "out_seq d = out_seq con" "sock d = sock con"
      "out_kvec_left d = out_kvec_left con" "out_kvec_cur d = out_kvec_cur con" "out_kvec d = out_kvec con"
      "out_kvec_bytes d = out_kvec_bytes con" "out_msg d = None"
    by (simp_all add: d_def msg_ref_defs)
  have others: "x \<in> set (out_queue con) \<Longrightarrow> store d x = store con x" for x using st m by metis
  show "out_kvec_left d = 0" using e same by simp
  have "kvecs_ok d" using w e by (simp add: writing_def kvecs_ok_def kvecs_left_def out_bytes_def same)
  then show "writing d" using w others by (simp add: writing_def same) (simp add: d_def msg_ref_defs)
  show "stream env d = stream env con"
    using o e queue_images_cong[OF others] by (simp add: stream_def sent_bytes_def wire_left_def out_bytes_def same)
qed

text \<open>Every message takes at most two rounds: one for its header and payload, one for its footer.\<close>

definition rounds_left :: "ceph_connection \<Rightarrow> nat" where
  "rounds_left con = 2 * length (out_queue con) + (if out_msg con \<noteq> None \<and> \<not> out_msg_done con then 2 else 1)"

definition write_result :: "con_env \<Rightarrow> ceph_connection \<Rightarrow> (int \<times> ceph_connection) res \<Rightarrow> bool" where
  "write_result env con res \<longleftrightarrow> (\<exists>r con'. res = Inr (r, con') \<and> r \<le> 0 \<and> writing con' \<and> stream env con' = stream env con \<and>
     (WRITE_PENDING \<in> flags con \<longrightarrow> WRITE_PENDING \<notin> flags con' \<longrightarrow> out_queue con' = [] \<and> wire_left env con' = []))"

lemma write_result_step:
  assumes "write_result env d res" and "stream env d = stream env con" and "WRITE_PENDING \<in> flags con \<Longrightarrow> WRITE_PENDING \<in> flags d"
  shows "write_result env con res"
  using assms by (auto simp: write_result_def)

lemma write_result_now: "writing d \<Longrightarrow> stream env d = stream env con \<Longrightarrow> flags d = flags con \<Longrightarrow> r \<le> 0 \<Longrightarrow> write_result env con (Inr (r, d))"
  by (auto simp: write_result_def)

lemma write_result_idle:
  assumes w: "writing con" and q: "out_queue con = []" and o: "out_msg con = None" and e: "out_kvec_left con = 0"
  shows "prepare_next env con = Inr None" and "write_result env con (Inr (0, con_flag_clear WRITE_PENDING con))"
proof -
  show "prepare_next env con = Inr None"
    using w q by (simp add: prepare_next_def writing_def con_flag_test_and_clear_def con_flag_test_def Let_def)
  let ?d = "con_flag_clear WRITE_PENDING con"
  have b: "base_bytes ?d = base_bytes con" "kvec_bytes ?d = kvec_bytes con" "kvec_fits ?d = kvec_fits con"
    by (rule base_bytes_cong; simp add: con_flag_clear_def)+
  have "writing ?d" using w by (simp add: writing_def kvecs_ok_def kvecs_left_def out_bytes_def b) (simp add: con_flag_clear_def)
  moreover have "wire_left env ?d = []" "wire_left env con = []"
    using o e by (simp_all add: wire_left_def out_bytes_def con_flag_clear_def)
  moreover have "stream env ?d = stream env con"
    using calculation by (simp add: stream_def sent_bytes_def con_flag_clear_def)
  ultimately show "write_result env con (Inr (0, ?d))"
    using q by (simp add: write_result_def) (simp add: con_flag_clear_def)
qed

lemma try_write_stream:
  assumes "writing con" and crc: "crc_incremental env" and "rounds_left con \<le> n"
  shows "write_result env con (try_write n env b con)"
  using assms(1,3)
proof (induction n arbitrary: b con)
  case 0
  then show ?case by (simp add: rounds_left_def split: if_splits)
next
  case (Suc n)
  let ?next = "\<lambda>con. bindE (prepare_next env con) (\<lambda>next. case next of Some con \<Rightarrow> try_write n env True con
      | None \<Rightarrow> Inr (0, con_flag_clear WRITE_PENDING con))"
  have nxt: "write_result env c (?next c)"
    if c: "writing c" "out_msg c = None" "out_kvec_left c = 0" "2 * length (out_queue c) \<le> n" for c
  proof (cases "out_queue c")
    case Nil
    then show ?thesis using write_result_idle[OF c(1) Nil c(2,3)] by simp
  next
    case (Cons m queue)
    from write_next_stream[OF c(1) Cons c(2,3)] obtain d where d: "prepare_next env c = Inr (Some d)" "writing d"
        "stream env d = stream env c" "out_queue d = queue" "WRITE_PENDING \<in> flags d" by blast
    have "rounds_left d \<le> n" using d(4) c(4) Cons by (simp add: rounds_left_def)
    from write_result_step[OF Suc.IH[OF d(2) this] d(3)] d(1,5) show ?thesis by simp
  qed
  have after: "write_result env c (case out_msg c of
          None \<Rightarrow> ?next c
        | Some m \<Rightarrow> if out_msg_done c then ?next ((ceph_msg_put m c)\<lparr>out_msg := None\<rparr>)
            else bindE (write_partial_message_data env c) (\<lambda>(ret, con).
              if ret = 1 then try_write n env False con else if ret \<le> 0 then Inr (ret, con) else ?next con))"
    if c: "writing c" "out_kvec_left c = 0" "rounds_left c \<le> Suc n" for c
  proof (cases "out_msg c")
    case None
    with c nxt[of c] show ?thesis by (simp add: rounds_left_def)
  next
    case (Some m)
    show ?thesis
    proof (cases "out_msg_done c")
      case True
      note d = writing_done[OF c(1) Some True c(2)]
      have "write_result env ((ceph_msg_put m c)\<lparr>out_msg := None\<rparr>) (?next ((ceph_msg_put m c)\<lparr>out_msg := None\<rparr>))"
        by (rule nxt[OF d(1) _ d(3)]) (use c(3) True in \<open>simp_all add: rounds_left_def msg_ref_defs\<close>)
      from write_result_step[OF this d(2)] show ?thesis using Some True by (simp add: msg_ref_defs)
    next
      case False
      from write_data_stream[OF c(1) Some False crc c(2)] obtain r d where d: "write_partial_message_data env c = Inr (r, d)"
          "writing d" "stream env d = stream env c" "r = 1 \<and> out_msg_done d \<or> r \<le> 0" "out_queue d = out_queue c" "flags d = flags c"
        by blast
      show ?thesis
      proof (cases "r \<le> 0")
        case True
        then show ?thesis using Some False d by (simp add: write_result_now)
      next
        case pos: False
        then have "rounds_left d \<le> n" using d(4,5) c(3) Some False by (simp add: rounds_left_def)
        from write_result_step[OF Suc.IH[OF d(2) this] d(3)] show ?thesis using Some False d pos by simp
      qed
    qed
  qed
  have opn: "state con = CON_OPEN" "out_skip con = 0" using Suc.prems(1) by (auto simp: writing_def)
  show ?case
  proof (cases "out_kvec_left con = 0")
    case True
    then show ?thesis using opn after[OF Suc.prems(1) True Suc.prems(2)] by (simp add: Let_def)
  next
    case False
    from write_kvec_stream[OF Suc.prems(1), of env] obtain r c where c: "write_partial_kvec con = Inr (r, c)" "writing c"
        "stream env c = stream env con" "r = 1 \<and> out_kvec_left c = 0 \<or> r \<le> 0" "kvec_frame con c" by blast
    have f: "flags c = flags con" "rounds_left c = rounds_left con" using c(5) by (auto simp: kvec_frame_def rounds_left_def)
    show ?thesis
    proof (cases "r \<le> 0")
      case True
      then show ?thesis using opn False c f by (simp add: write_result_now)
    next
      case pos: False
      then have e: "out_kvec_left c = 0" using c(4) by simp
      from write_result_step[OF after[OF c(2) e] c(3)] Suc.prems(2) f show ?thesis using opn False c(1) pos by (simp add: Let_def)
    qed
  qed
qed

section \<open>Properties\<close>


definition writing_con :: ceph_connection where
  "writing_con = example_con\<lparr>state := CON_OPEN, sock := Some \<lparr>sk_tx = [10, 1000], sk_rx = [], sk_out = []\<rparr>, out_queue := [7],
     flags := {WRITE_PENDING}, store := (\<lambda>_. example_msg\<lparr>m_con := True, needs_out_seq := True\<rparr>)\<rparr>"


text \<open>
  A vector of buffers is sent exactly once and in order. Whatever the socket takes of the vectors
  set up for a message, an acknowledgement or the handshake, the bytes sent so far followed by
  those still described by the vectors stay the same; the whole entries that were sent are
  passed, the one sent in part is cut, no \<open>BUG_ON\<close> fires, and the result is 1 just when nothing is left.
\<close>

theorem write_partial_kvec_exact:
  assumes "kvecs_ok con" and "sock con = Some sk"
  shows "\<exists>r con' sk'. write_partial_kvec con = Inr (r, con') \<and> sock con' = Some sk' \<and> kvecs_ok con' \<and>
    sk_out sk' @ out_bytes con' = sk_out sk @ out_bytes con \<and> (if 0 < r then r = 1 \<and> out_bytes con' = [] else True)"
  using write_partial_kvec_ok[OF assms] by fastforce

theorem write_partial_kvec_exact_witness:
  "\<exists>r con' sk'. write_partial_kvec (writing_con\<lparr>out_kvec := [(K_const [1, 2, 3], 1, 2), (K_temp_ack, 0, 8)], out_kvec_left := 2,
      out_kvec_bytes := 10\<rparr>) = Inr (r, con') \<and> sock con' = Some sk' \<and> kvecs_ok con' \<and>
    sk_out sk' @ out_bytes con' = [2, 3, 0, 0, 0, 0, 0, 0, 0, 0] \<and> (if 0 < r then r = 1 \<and> out_bytes con' = [] else True)"
proof -
  let ?c = "writing_con\<lparr>out_kvec := [(K_const [1, 2, 3], 1, 2), (K_temp_ack, 0, 8)], out_kvec_left := 2, out_kvec_bytes := 10\<rparr>"
  have b: "out_bytes ?c = [2, 3, 0, 0, 0, 0, 0, 0, 0, 0]"
    by (simp add: writing_con_def example_con_def ceph_con_init_def sock_state_defs out_bytes_def kvec_bytes_def le_bytes_numeral le_bytes_one)
  then have "kvecs_ok ?c"
    by (simp add: kvecs_ok_def) (simp add: writing_con_def example_con_def ceph_con_init_def sock_state_defs kvecs_left_def kvec_fits_def)
  moreover have "sock ?c = Some \<lparr>sk_tx = [10, 1000], sk_rx = [], sk_out = []\<rparr>" by (simp add: writing_con_def)
  ultimately show ?thesis using write_partial_kvec_exact[of ?c] b by simp
qed

end
