(* ===== verification/Messenger_Read.thy ===== *)
theory Messenger_Read
  imports Messenger_Write
begin

text \<open>
  The read path of the messenger (\<open>net/ceph/messenger.c\<close>): banner and handshake, messages in parts,
  acknowledgements, skipped messages, and the worker \<open>con_work\<close> that reads and writes and handles
  faults. What the peer sends is the receive script of the socket, cut into pieces at will.
\<close>

section \<open>Reading into a structure\<close>

lemma recvmsg_length:
  assumes "ceph_tcp_recvmsg n con = Inr (ret, bs, con')" and "\<not> ret \<le> 0"
  shows "length bs = nat ret" "0 < length bs" "length bs \<le> n"
  using assms by (auto simp: ceph_tcp_recvmsg_def kernel_recvmsg_def Let_def EAGAIN_def min_def split: list.splits if_splits)

text \<open>
  \<open>read_partial\<close> continues where the last call stopped: \<open>in_base_pos\<close> counts the bytes of all the
  structures read in a row, \<open>end\<close> is where this one of \<open>sz\<close> bytes ends. It returns the bytes of the
  structure as they are then.
\<close>

function read_partial :: "int \<Rightarrow> int \<Rightarrow> u8 list \<Rightarrow> ceph_connection \<Rightarrow> (int \<times> u8 list \<times> ceph_connection) res" where
  "read_partial end_pos sz object con =
    (if in_base_pos con < end_pos then
       let left_n = end_pos - in_base_pos con; have_n = sz - left_n in
       bindE (ceph_tcp_recvmsg (nat left_n) con) (\<lambda>(ret, bs, con1).
       if ret \<le> 0 then Inr (ret, object, con1)
       else
         bindE (put_bytes object have_n bs) (\<lambda>object1.
         read_partial end_pos sz object1 (con1\<lparr>in_base_pos := in_base_pos con + ret\<rparr>)))
     else Inr (1, object, con))"
  by pat_completeness auto
termination by (relation "measure (\<lambda>(e, n, obj, con). nat (e - in_base_pos con))") auto

declare read_partial.simps [simp del]

definition ADDR_SIZE :: int where "ADDR_SIZE = 136"

definition read_partial_banner :: "ceph_connection \<Rightarrow> (int \<times> ceph_connection) res" where
  "read_partial_banner con =
    (let sz = int (length CEPH_BANNER); end_pos = sz in
     bindE (read_partial end_pos sz (in_banner con) con) (\<lambda>(ret, buf, con).
     let con = con\<lparr>in_banner := buf\<rparr> in
     if ret \<le> 0 then Inr (ret, con)
     else
       let end_pos = end_pos + ADDR_SIZE in
       bindE (read_partial end_pos ADDR_SIZE (actual_peer_addr con) con) (\<lambda>(ret, buf, con).
       let con = con\<lparr>actual_peer_addr := buf\<rparr> in
       if ret \<le> 0 then Inr (ret, con)
       else
         let end_pos = end_pos + ADDR_SIZE in
         bindE (read_partial end_pos ADDR_SIZE (peer_addr_for_me con) con) (\<lambda>(ret, buf, con).
         Inr (ret, con\<lparr>peer_addr_for_me := buf\<rparr>)))))"

text \<open>The length of the authorizer reply is the peer's: it is taken as a signed number and added to \<open>end\<close>.\<close>

definition int32 :: "int \<Rightarrow> int" where
  "int32 i = signed_take_bit 31 i"

definition read_partial_connect :: "ceph_connection \<Rightarrow> (int \<times> ceph_connection) res" where
  "read_partial_connect con =
    bindE (read_partial 26 26 (in_reply con) con) (\<lambda>(ret, buf, con).
    let con = con\<lparr>in_reply := buf\<rparr> in
    if ret \<le> 0 then Inr (ret, con)
    else
      let sz = sint (reply_authorizer_len (in_reply con)) in
      bindE (read_partial (int32 (26 + sz)) sz (auth_reply_buf con) con) (\<lambda>(ret, buf, con).
      Inr (ret, con\<lparr>auth_reply_buf := buf\<rparr>)))"

section \<open>The banner\<close>

definition verify_hello :: "ceph_connection \<Rightarrow> int \<times> ceph_connection" where
  "verify_hello con =
    (if take (length CEPH_BANNER) (in_banner con) \<noteq> CEPH_BANNER then (- 1, con\<lparr>error_msg := ''protocol error, bad banner''\<rparr>)
     else (0, con))"

text \<open>
  An address is 136 bytes: type, nonce and a socket address. The family is in the byte order of the
  host, here little-endian, and the port in network order.
\<close>

definition AF_INET :: u16 where "AF_INET = 2"
definition AF_INET6 :: u16 where "AF_INET6 = 10"

definition addr_nonce :: "u8 list \<Rightarrow> u8 list" where "addr_nonce a = take 4 (drop 4 a)"
definition addr_family :: "u8 list \<Rightarrow> u16" where "addr_family a = le_word (take 2 (drop 8 a))"

definition set_bytes :: "nat \<Rightarrow> u8 list \<Rightarrow> u8 list \<Rightarrow> u8 list" where
  "set_bytes off bs a = take off a @ bs @ drop (off + length bs) a"

definition decode_addr :: "u8 list \<Rightarrow> u8 list" where
  "decode_addr a = set_bytes 8 (le_bytes 2 (ceph_decode_addr (addr_family a))) a"

definition encode_addr :: "u8 list \<Rightarrow> u8 list" where
  "encode_addr a = set_bytes 8 (le_bytes 2 (ceph_encode_addr (addr_family a))) a"

definition addr_is_blank :: "u8 list \<Rightarrow> bool" where
  "addr_is_blank a =
    (if addr_family a = AF_INET then take 4 (drop 12 a) = replicate 4 0
     else if addr_family a = AF_INET6 then take 16 (drop 16 a) = replicate 16 0
     else False)"

definition addr_port :: "u8 list \<Rightarrow> nat" where
  "addr_port a =
    (if addr_family a = AF_INET \<or> addr_family a = AF_INET6 then unat (a ! 10) * 256 + unat (a ! 11) else 0)"

definition addr_set_port :: "nat \<Rightarrow> u8 list \<Rightarrow> u8 list" where
  "addr_set_port p a =
    (if addr_family a = AF_INET \<or> addr_family a = AF_INET6 then set_bytes 10 [word_of_nat (p div 256), word_of_nat p] a else a)"

definition encode_my_addr :: "ceph_messenger \<Rightarrow> ceph_messenger" where
  "encode_my_addr mr = mr\<lparr>my_enc_addr := encode_addr (my_addr mr)\<rparr>"

text \<open>A new messenger: \<open>nonce\<close> are the four random bytes.\<close>

definition ceph_messenger_init :: "u8 list option \<Rightarrow> u64 \<Rightarrow> u64 \<Rightarrow> bool \<Rightarrow> u8 list \<Rightarrow> ceph_messenger \<Rightarrow> ceph_messenger" where
  "ceph_messenger_init myaddr supported required no_crc nonce mr =
    (let a = (case myaddr of Some a \<Rightarrow> a | None \<Rightarrow> my_addr mr) in
     (encode_my_addr (mr\<lparr>supported_features := supported, required_features := required,
       my_addr := set_bytes 4 nonce (set_bytes 0 [0, 0, 0, 0] a)\<rparr>))\<lparr>nocrc := no_crc, stopping := False\<rparr>)"

definition process_banner :: "ceph_connection \<Rightarrow> int \<times> ceph_connection" where
  "process_banner con =
    (let (v, con) = verify_hello con in
     if v < 0 then (- 1, con)
     else
       let con = con\<lparr>actual_peer_addr := decode_addr (actual_peer_addr con), peer_addr_for_me := decode_addr (peer_addr_for_me con)\<rparr> in
       if peer_addr con \<noteq> actual_peer_addr con \<and>
          \<not> (addr_is_blank (actual_peer_addr con) \<and> addr_nonce (actual_peer_addr con) = addr_nonce (peer_addr con))
       then (- 1, con\<lparr>error_msg := ''wrong peer at address''\<rparr>)
       else if addr_is_blank (my_addr (msgr con)) then
         let port = addr_port (my_addr (msgr con));
             a = addr_set_port port (set_bytes 8 (drop 8 (peer_addr_for_me con)) (my_addr (msgr con))) in
         (0, con\<lparr>msgr := encode_my_addr ((msgr con)\<lparr>my_addr := a\<rparr>)\<rparr>)
       else (0, con))"

definition read_partial_ack :: "ceph_connection \<Rightarrow> (int \<times> ceph_connection) res" where
  "read_partial_ack con =
    bindE (read_partial 8 8 (in_temp_ack con) con) (\<lambda>(ret, buf, con). Inr (ret, con\<lparr>in_temp_ack := buf\<rparr>))"

section \<open>Parts of a message\<close>

text \<open>
  A section has the bytes received so far and the size of its buffer; it is complete at \<open>sec_len\<close>
  bytes, and its checksum is then set.
\<close>

function read_section :: "nat \<Rightarrow> nat \<Rightarrow> u8 list \<Rightarrow> ceph_connection \<Rightarrow> (int \<times> u8 list \<times> ceph_connection) res" where
  "read_section alloc sec_len section con =
    (if length section < sec_len then
       bindE (ceph_tcp_recvmsg (sec_len - length section) con) (\<lambda>(ret, bs, con1).
       if ret \<le> 0 then Inr (ret, section, con1)
       else if alloc < length section + length bs then Inl (Fault OutOfBounds)
       else read_section alloc sec_len (section @ bs) con1)
     else Inr (1, section, con))"
  by pat_completeness auto
termination
  by (relation "measure (\<lambda>(a, n, s, con). n - length s)") (auto dest: recvmsg_length)

declare read_section.simps [simp del]

definition read_partial_message_section ::
  "con_env \<Rightarrow> nat \<Rightarrow> nat \<Rightarrow> u8 list \<Rightarrow> u32 \<Rightarrow> ceph_connection \<Rightarrow> (int \<times> u8 list \<times> u32 \<times> ceph_connection) res" where
  "read_partial_message_section env alloc sec_len section crc con =
    bindE (read_section alloc sec_len section con) (\<lambda>(ret, section, con).
    if ret \<le> 0 then Inr (ret, section, crc, con)
    else Inr (1, section, if length section = sec_len then crc32c env 0 section else crc, con))"

text \<open>The bytes of the payload go to the places the cursor names.\<close>

definition rx_left :: "ceph_connection \<Rightarrow> nat" where
  "rx_left con = (case sock con of None \<Rightarrow> 0 | Some sk \<Rightarrow> sum_list (map (\<lambda>(r, bs). length bs) (sk_rx sk)))"

lemma rx_left_less: "ceph_tcp_recvmsg n con = Inr (ret, bs, con') \<Longrightarrow> \<not> ret \<le> 0 \<Longrightarrow> rx_left con' < rx_left con"
  by (auto simp: ceph_tcp_recvmsg_def kernel_recvmsg_def rx_left_def Let_def EAGAIN_def min_def split: list.splits if_splits intro!: diff_less)

lemma rx_left_simps [simp]:
  "rx_left (upd_msg m f con) = rx_left con" "rx_left (con\<lparr>in_data := bs\<rparr>) = rx_left con"
  by (simp_all add: rx_left_def upd_msg_def)

definition ceph_tcp_recvpage :: "nat \<Rightarrow> nat \<Rightarrow> ceph_connection \<Rightarrow> (int \<times> u8 list \<times> ceph_connection) res" where
  "ceph_tcp_recvpage page_off len con =
    bindE (guardE (page_off + len \<le> PAGE_SIZE) (Fault BugOn)) (\<lambda>_. ceph_tcp_recvmsg len con)"

function recv_data :: "con_env \<Rightarrow> nat \<Rightarrow> u32 \<Rightarrow> ceph_connection \<Rightarrow> (int \<times> u32 \<times> ceph_connection) res" where
  "recv_data env m crc con =
    (let c = m_cursor (store con m) in
     if resid c \<noteq> 0 then
       bindE (ceph_msg_data_next c) (\<lambda>(page, page_off, len).
       bindE (ceph_tcp_recvpage page_off len con) (\<lambda>(ret, bs, con1).
       if ret \<le> 0 then Inr (ret, crc, con1)
       else
         let crc1 = (if \<not> nocrc (msgr con) then crc32c env crc bs else crc) in
         bindE (ceph_msg_data_advance c (nat ret)) (\<lambda>(new_piece, c').
         recv_data env m crc1 (upd_msg m (\<lambda>x. x\<lparr>m_cursor := c'\<rparr>) (con1\<lparr>in_data := in_data con1 @ bs\<rparr>)))))
     else Inr (1, crc, con))"
  by pat_completeness auto
termination
  by (relation "measure (\<lambda>(env, m, crc, con). rx_left con)") (auto simp: ceph_tcp_recvpage_def rx_left_less)

declare recv_data.simps [simp del]

definition read_partial_msg_data :: "con_env \<Rightarrow> nat \<Rightarrow> ceph_connection \<Rightarrow> (int \<times> ceph_connection) res" where
  "read_partial_msg_data env m con =
    (if m_data (store con m) = [] then Inr (- EIO_no, con)
     else
       let do_datacrc = (\<not> nocrc (msgr con)) in
       bindE (recv_data env m (if do_datacrc then in_data_crc con else 0) con) (\<lambda>(ret, crc, con).
       let con = (if do_datacrc then con\<lparr>in_data_crc := crc\<rparr> else con) in
       Inr (if ret \<le> 0 then ret else 1, con)))"

section \<open>Messages\<close>

text \<open>The fields of a header, and copying it into a message.\<close>

definition hdr_seq_of :: "u8 list \<Rightarrow> u64" where "hdr_seq_of h = le_word (take 8 h)"
definition hdr_crc_of :: "u8 list \<Rightarrow> u32" where "hdr_crc_of h = le_word (take 4 (drop 49 h))"

definition set_hdr :: "u8 list \<Rightarrow> ceph_msg \<Rightarrow> ceph_msg" where
  "set_hdr h x = x\<lparr>hdr_seq := le_word (take 8 h), hdr_tid := le_word (take 8 (drop 8 h)), hdr_type := le_word (take 2 (drop 16 h)),
     hdr_priority := le_word (take 2 (drop 18 h)), hdr_version := le_word (take 2 (drop 20 h)),
     hdr_front_len := le_word (take 4 (drop 22 h)), hdr_middle_len := le_word (take 4 (drop 26 h)),
     hdr_data_len := le_word (take 4 (drop 30 h)), hdr_data_off := le_word (take 2 (drop 34 h)),
     hdr_src := (le_word (take 1 (drop 36 h)), le_word (take 8 (drop 37 h))), hdr_reserved := le_word (take 4 (drop 45 h)),
     hdr_crc := le_word (take 4 (drop 49 h))\<rparr>"

definition set_footer :: "u8 list \<Rightarrow> ceph_msg \<Rightarrow> ceph_msg" where
  "set_footer f x = x\<lparr>ftr_front_crc := le_word (take 4 f), ftr_middle_crc := le_word (take 4 (drop 4 f)),
     ftr_data_crc := le_word (take 4 (drop 8 f)), ftr_flags := le_word (take 1 (drop 12 f))\<rparr>"

definition CEPH_MSG_MAX_FRONT_LEN :: nat where "CEPH_MSG_MAX_FRONT_LEN = 16 * 1024 * 1024"
definition CEPH_MSG_MAX_MIDDLE_LEN :: nat where "CEPH_MSG_MAX_MIDDLE_LEN = 16 * 1024 * 1024"
definition CEPH_MSG_MAX_DATA_LEN :: nat where "CEPH_MSG_MAX_DATA_LEN = 16 * 1024 * 1024"

definition ceph_alloc_middle :: "con_env \<Rightarrow> nat \<Rightarrow> ceph_connection \<Rightarrow> (int \<times> ceph_connection) res" where
  "ceph_alloc_middle env m con =
    (let middle_len = unat (hdr_middle_len (store con m)) in
     bindE (guardE (middle_len \<noteq> 0) (Fault BugOn)) (\<lambda>_.
     bindE (guardE (m_middle (store con m) = None) (Fault BugOn)) (\<lambda>_.
     case buffer_new env middle_len of
       None \<Rightarrow> Inr (- ENOMEM_no, con)
     | Some b \<Rightarrow> Inr (0, upd_msg m (\<lambda>x. x\<lparr>m_middle := Some b, middle_alloc_len := middle_len\<rparr>) con))))"

text \<open>The owner allocates the message, or says that it is to be skipped.\<close>

definition ceph_con_in_msg_alloc :: "con_env \<Rightarrow> ceph_connection \<Rightarrow> (int \<times> bool \<times> ceph_connection) res" where
  "ceph_con_in_msg_alloc env con =
    bindE (guardE (in_msg con = None) (Fault BugOn)) (\<lambda>_.
    bindE (case alloc_msg env of None \<Rightarrow> Inl (Fault BugOn) | Some f \<Rightarrow> Inr f) (\<lambda>f.
    let ((msg, skip), con) = f con in
    if state con \<noteq> CON_OPEN then
      Inr (- EAGAIN, skip, case msg of Some m \<Rightarrow> ceph_msg_put m con | None \<Rightarrow> con)
    else
      case msg of
        None \<Rightarrow>
          if skip then Inr (0, skip, con)
          else Inr (- ENOMEM_no, skip, con\<lparr>error_msg := ''error allocating memory for incoming message''\<rparr>)
      | Some m \<Rightarrow>
          bindE (guardE (\<not> skip) (Fault BugOn)) (\<lambda>_.
          case con_get con of
            None \<Rightarrow> Inl (Fault BugOn)
          | Some con \<Rightarrow>
              let con = upd_msg m (\<lambda>x. set_hdr (in_hdr con) (x\<lparr>m_con := True\<rparr>)) (con\<lparr>in_msg := Some m\<rparr>) in
              if hdr_middle_len_of (in_hdr con) \<noteq> 0 \<and> m_middle (store con m) = None then
                bindE (ceph_alloc_middle env m con) (\<lambda>(ret, con).
                Inr (ret, skip, if ret < 0 then (ceph_msg_put m con)\<lparr>in_msg := None\<rparr> else con))
              else Inr (0, skip, con))))"

text \<open>Skipping the rest of a message after its header.\<close>

definition skip_message :: "ceph_connection \<Rightarrow> ceph_connection" where
  "skip_message con = con\<lparr>
     in_base_pos := - uint (hdr_front_len_of (in_hdr con)) - uint (hdr_middle_len_of (in_hdr con)) -
       uint (hdr_data_len_of (in_hdr con)) - int FOOTER_SIZE, in_tag := TAG_READY\<rparr>"

text \<open>Allocating the message once its header is there; \<open>None\<close> when it is skipped.\<close>

definition start_message :: "con_env \<Rightarrow> ceph_connection \<Rightarrow> (int \<times> nat option \<times> ceph_connection) res" where
  "start_message env con =
    bindE (ceph_con_in_msg_alloc env con) (\<lambda>(ret, skip, con).
    if ret < 0 then Inr (ret, None, con)
    else
      bindE (guardE ((in_msg con = None) = skip) (Fault BugOn)) (\<lambda>_.
      let data_len = unat (hdr_data_len_of (in_hdr con)) in
      case in_msg con of
        None \<Rightarrow> Inr (0, None, (skip_message con)\<lparr>in_seq := in_seq con + 1\<rparr>)
      | Some m \<Rightarrow>
          if m_data_length (store con m) < data_len then
            Inr (0, None, (skip_message ((ceph_msg_put m con)\<lparr>in_msg := None\<rparr>))\<lparr>in_seq := in_seq con + 1\<rparr>)
          else
            bindE (guardE (m_con (store con m)) (Fault BugOn)) (\<lambda>_.
            let con = upd_msg m (\<lambda>x. x\<lparr>m_front := [], m_middle := map_option (\<lambda>_. []) (m_middle x)\<rparr>) (con\<lparr>in_data := []\<rparr>) in
            bindE (if data_len \<noteq> 0 then prepare_message_data m data_len con else Inr con) (\<lambda>con.
            Inr (1, Some m, con)))))"

text \<open>The parts behind the header: front, middle, payload, and the footer with the checksums.\<close>

definition read_front :: "con_env \<Rightarrow> nat \<Rightarrow> ceph_connection \<Rightarrow> (int \<times> ceph_connection) res" where
  "read_front env m con =
    bindE (read_partial_message_section env (front_alloc_len (store con m)) (unat (hdr_front_len_of (in_hdr con))) (m_front (store con m))
      (in_front_crc con) con) (\<lambda>(ret, front, crc, con).
    Inr (ret, upd_msg m (\<lambda>x. x\<lparr>m_front := front\<rparr>) (con\<lparr>in_front_crc := crc\<rparr>)))"

definition read_middle :: "con_env \<Rightarrow> nat \<Rightarrow> ceph_connection \<Rightarrow> (int \<times> ceph_connection) res" where
  "read_middle env m con =
    (case m_middle (store con m) of
       None \<Rightarrow> Inr (1, con)
     | Some b \<Rightarrow>
         bindE (read_partial_message_section env (middle_alloc_len (store con m)) (unat (hdr_middle_len_of (in_hdr con))) b
           (in_middle_crc con) con) (\<lambda>(ret, middle, crc, con).
         Inr (ret, upd_msg m (\<lambda>x. x\<lparr>m_middle := Some middle\<rparr>) (con\<lparr>in_middle_crc := crc\<rparr>))))"

definition read_data :: "con_env \<Rightarrow> nat \<Rightarrow> ceph_connection \<Rightarrow> (int \<times> ceph_connection) res" where
  "read_data env m con = (if hdr_data_len_of (in_hdr con) \<noteq> 0 then read_partial_msg_data env m con else Inr (1, con))"

definition check_crcs :: "nat \<Rightarrow> ceph_connection \<Rightarrow> int" where
  "check_crcs m con =
    (let x = store con m in
     if in_front_crc con \<noteq> ftr_front_crc x then - EBADMSG
     else if in_middle_crc con \<noteq> ftr_middle_crc x then - EBADMSG
     else if \<not> nocrc (msgr con) \<and> ftr_flags x AND CEPH_MSG_FOOTER_NOCRC = 0 \<and> in_data_crc con \<noteq> ftr_data_crc x then - EBADMSG
     else 1)"

definition read_footer :: "nat \<Rightarrow> ceph_connection \<Rightarrow> (int \<times> ceph_connection) res" where
  "read_footer m con =
    bindE (read_partial (int HEADER_SIZE + int FOOTER_SIZE) (int FOOTER_SIZE) (footer_bytes (store con m)) con) (\<lambda>(ret, buf, con).
    let con = upd_msg m (set_footer buf) con in
    Inr (if ret \<le> 0 then ret else check_crcs m con, con))"

definition and_then ::
  "(int \<times> ceph_connection) res \<Rightarrow> (ceph_connection \<Rightarrow> (int \<times> ceph_connection) res) \<Rightarrow> (int \<times> ceph_connection) res" where
  "and_then r f = bindE r (\<lambda>(ret, con). if ret \<le> 0 then Inr (ret, con) else f con)"

lemma and_then_simps [simp]: "and_then (Inr (r, con)) f = (if r \<le> 0 then Inr (r, con) else f con)" "and_then (Inl e) f = Inl e"
  by (simp_all add: and_then_def)

definition read_message_parts :: "con_env \<Rightarrow> nat \<Rightarrow> ceph_connection \<Rightarrow> (int \<times> ceph_connection) res" where
  "read_message_parts env m con =
    and_then (read_front env m con) (\<lambda>con.
    and_then (read_middle env m con) (\<lambda>con.
    and_then (read_data env m con) (read_footer m)))"

definition read_partial_message :: "con_env \<Rightarrow> ceph_connection \<Rightarrow> (int \<times> ceph_connection) res" where
  "read_partial_message env con =
    bindE (read_partial (int HEADER_SIZE) (int HEADER_SIZE) (in_hdr con) con) (\<lambda>(ret, buf, con).
    let con = con\<lparr>in_hdr := buf\<rparr>; h = in_hdr con in
    if ret \<le> 0 then Inr (ret, con)
    else if crc32c env 0 (take 49 h) \<noteq> hdr_crc_of h then Inr (- EBADMSG, con)
    else if CEPH_MSG_MAX_FRONT_LEN < unat (hdr_front_len_of h) then Inr (- EIO_no, con)
    else if CEPH_MSG_MAX_MIDDLE_LEN < unat (hdr_middle_len_of h) then Inr (- EIO_no, con)
    else if CEPH_MSG_MAX_DATA_LEN < unat (hdr_data_len_of h) then Inr (- EIO_no, con)
    else if sint (hdr_seq_of h - in_seq con) < 1 then Inr (0, skip_message con)
    else if 1 < sint (hdr_seq_of h - in_seq con) then
      Inr (- EBADMSG, con\<lparr>error_msg := ''bad message sequence # for incoming message''\<rparr>)
    else
      case in_msg con of
        Some m \<Rightarrow> read_message_parts env m con
      | None \<Rightarrow>
          bindE (start_message env con) (\<lambda>(ret, msg, con).
          case msg of None \<Rightarrow> Inr (ret, con) | Some m \<Rightarrow> read_message_parts env m con))"

definition process_message :: "con_env \<Rightarrow> ceph_connection \<Rightarrow> ceph_connection res" where
  "process_message env con =
    bindE (deref (in_msg con)) (\<lambda>m.
    bindE (guardE (m_con (store con m)) (Fault BugOn)) (\<lambda>_.
    let con = con_put ((upd_msg m (\<lambda>x. x\<lparr>m_con := False\<rparr>) con)\<lparr>in_msg := None\<rparr>);
        con = (if fst (peer_name con) = 0 then con\<lparr>peer_name := hdr_src (store con m)\<rparr> else con);
        con = con\<lparr>in_seq := in_seq con + 1\<rparr> in
    Inr (dispatch env con m)))"

section \<open>The worker\<close>

definition SKIP_BUF_SIZE :: int where "SKIP_BUF_SIZE = 1024"

text \<open>What a tag byte starts. \<open>True\<close> in the result ends the loop with the return value.\<close>

definition read_tag :: "ceph_connection \<Rightarrow> (bool \<times> int \<times> ceph_connection) res" where
  "read_tag con =
    bindE (ceph_tcp_recvmsg 1 con) (\<lambda>(ret, bs, con).
    if ret \<le> 0 then Inr (True, ret, con)
    else
      let con = con\<lparr>in_tag := hd bs\<rparr>; tag = hd bs in
      if tag = TAG_MSG then bindE (prepare_read_message con) (\<lambda>con. Inr (False, ret, con))
      else if tag = TAG_ACK then Inr (False, ret, prepare_read_ack con)
      else if tag = TAG_CLOSE then Inr (True, ret, (con_close_socket con)\<lparr>state := CON_CLOSED\<rparr>)
      else Inr (True, - 1, con\<lparr>error_msg := ''protocol error, garbage tag''\<rparr>))"

fun try_read :: "nat \<Rightarrow> con_env \<Rightarrow> ceph_connection \<Rightarrow> (int \<times> ceph_connection) res" where
  "try_read 0 env con = Inl NoFuel"
| "try_read (Suc n) env con =
    (if state con \<noteq> CON_CONNECTING \<and> state con \<noteq> CON_NEGOTIATING \<and> state con \<noteq> CON_OPEN then Inr (0, con)
     else
       bindE (guardE (sock con \<noteq> None) (Fault BugOn)) (\<lambda>_.
       if state con = CON_CONNECTING then
         bindE (read_partial_banner con) (\<lambda>(ret, con).
         if ret \<le> 0 then Inr (ret, con)
         else
           let (ret, con) = process_banner con in
           if ret < 0 then Inr (ret, con)
           else
             bindE (prepare_write_connect env (con\<lparr>state := CON_NEGOTIATING\<rparr>)) (\<lambda>(ret, con).
             if ret < 0 then Inr (ret, con) else Inr (ret, prepare_read_connect con)))
       else if state con = CON_NEGOTIATING then
         bindE (read_partial_connect con) (\<lambda>(ret, con).
         if ret \<le> 0 then Inr (ret, con)
         else
           bindE (process_connect env con) (\<lambda>(ret, con).
           if ret < 0 then Inr (ret, con) else try_read n env con))
       else
         bindE (if in_base_pos con < 0 then
                  bindE (ceph_tcp_recvmsg (nat (min SKIP_BUF_SIZE (- in_base_pos con))) con) (\<lambda>(ret, bs, con).
                  Inr (ret, if ret \<le> 0 then con else con\<lparr>in_base_pos := in_base_pos con + ret\<rparr>))
                else Inr (1, con)) (\<lambda>(ret, con).
         if ret \<le> 0 then Inr (ret, con)
         else if in_base_pos con < 0 then try_read n env con
         else
           bindE (if in_tag con = TAG_READY then read_tag con else Inr (False, 1, con)) (\<lambda>(stop, ret, con).
           if stop then Inr (ret, con)
           else if in_tag con = TAG_MSG then
             bindE (read_partial_message env con) (\<lambda>(ret, con).
             if ret \<le> 0 then
               if ret = - EBADMSG then Inr (- EIO_no, con\<lparr>error_msg := ''bad crc''\<rparr>)
               else if ret = - EIO_no then Inr (ret, con\<lparr>error_msg := ''io error''\<rparr>)
               else Inr (ret, con)
             else if in_tag con = TAG_READY then try_read n env con
             else
               bindE (process_message env con) (\<lambda>con.
               try_read n env (if state con = CON_OPEN then prepare_read_tag con else con)))
           else if in_tag con = TAG_ACK \<or> in_tag con = TAG_SEQ then
             bindE (read_partial_ack con) (\<lambda>(ret, con).
             if ret \<le> 0 then Inr (ret, con)
             else bindE (process_ack con) (try_read n env))
           else Inr (ret, con)))))"

text \<open>One round of the worker's loop: whether it goes round again, and whether there is a fault.\<close>

definition con_work_round ::
  "nat \<Rightarrow> con_env \<Rightarrow> (nat \<Rightarrow> nat) \<Rightarrow> ceph_connection \<Rightarrow> (bool \<times> bool \<times> ceph_connection) res" where
  "con_work_round n env round_jiffies_relative con =
    (let (closed, con) = con_sock_closed con in
     if closed then Inr (False, True, con)
     else
       bindE (con_backoff round_jiffies_relative con) (\<lambda>(backoff, con).
       if backoff then Inr (False, False, con)
       else if state con = CON_STANDBY then Inr (False, False, con)
       else if state con = CON_CLOSED then
         bindE (guardE (sock con = None) (Fault BugOn)) (\<lambda>_. Inr (False, False, con))
       else
         bindE (guardE (state con = CON_PREOPEN \<longrightarrow> sock con = None) (Fault BugOn)) (\<lambda>_.
         bindE (try_read n env con) (\<lambda>(ret, con).
         if ret < 0 then
           if ret = - EAGAIN then Inr (True, False, con)
           else Inr (False, True, con\<lparr>error_msg := ''socket error on read''\<rparr>)
         else
           bindE (try_write n env True con) (\<lambda>(ret, con).
           if ret < 0 then
             if ret = - EAGAIN then Inr (True, False, con)
             else Inr (False, True, con\<lparr>error_msg := ''socket error on write''\<rparr>)
           else Inr (False, False, con))))))"

fun con_work_loop :: "nat \<Rightarrow> con_env \<Rightarrow> (nat \<Rightarrow> nat) \<Rightarrow> ceph_connection \<Rightarrow> (bool \<times> ceph_connection) res" where
  "con_work_loop 0 env rj con = Inl NoFuel"
| "con_work_loop (Suc n) env rj con =
    bindE (con_work_round n env rj con) (\<lambda>(again, fault, con).
    if again then con_work_loop n env rj con else Inr (fault, con))"

definition con_work :: "nat \<Rightarrow> con_env \<Rightarrow> (nat \<Rightarrow> nat) \<Rightarrow> ceph_connection \<Rightarrow> ceph_connection res" where
  "con_work n env rj con =
    bindE (con_work_loop n env rj (con\<lparr>work := None\<rparr>)) (\<lambda>(fault, con).
    bindE (if fault then con_fault env con else Inr con) (\<lambda>con.
    let con = (if fault then con_fault_finish env con else con) in
    Inr (con_put con)))"

end
