(* ===== verification/Messenger_Receive.thy ===== *)
theory Messenger_Receive
  imports Messenger_Read
begin

text \<open>
  Receiving what the other side sends: the bytes of a message image, cut into pieces in any way,
  are put together again, and the message that is delivered is the one that was sent.
\<close>

section \<open>A stream of bytes\<close>

definition rx_bytes :: "socket \<Rightarrow> u8 list" where
  "rx_bytes sk = concat (map snd (sk_rx sk))"

text \<open>No error, and no empty piece, which would be the end of the stream.\<close>

definition flowing :: "socket \<Rightarrow> bool" where
  "flowing sk \<longleftrightarrow> list_all (\<lambda>(r, bs). 0 \<le> r \<and> bs \<noteq> []) (sk_rx sk)"

lemma recvmsg_flow:
  assumes "sock con = Some sk" and "flowing sk" and "rx_bytes sk \<noteq> []" and "0 < n"
  shows "\<exists>k sk'. ceph_tcp_recvmsg n con = Inr (int k, take k (rx_bytes sk), con\<lparr>sock := Some sk'\<rparr>) \<and> 0 < k \<and> k \<le> n \<and>
    k \<le> length (rx_bytes sk) \<and> rx_bytes sk' = drop k (rx_bytes sk) \<and> flowing sk'"
proof -
  obtain r bs rs where rx: "sk_rx sk = (r, bs) # rs" using assms(3) by (cases "sk_rx sk") (auto simp: rx_bytes_def)
  have f: "0 \<le> r" "bs \<noteq> []" "list_all (\<lambda>(r, bs). 0 \<le> r \<and> bs \<noteq> []) rs" using assms(2) rx by (auto simp: flowing_def)
  let ?k = "min n (length bs)"
  let ?sk = "sk\<lparr>sk_rx := (if ?k < length bs then (r, drop ?k bs) # rs else rs)\<rparr>"
  have b: "rx_bytes sk = bs @ concat (map snd rs)" by (simp add: rx_bytes_def rx)
  have "ceph_tcp_recvmsg n con = Inr (int ?k, take ?k bs, con\<lparr>sock := Some ?sk\<rparr>)"
    using assms(1) rx f(1) by (simp add: ceph_tcp_recvmsg_def kernel_recvmsg_def Let_def EAGAIN_def)
  moreover have "take ?k (rx_bytes sk) = take ?k bs" "rx_bytes ?sk = drop ?k (rx_bytes sk)"
    by (auto simp: rx_bytes_def rx)
  moreover have "flowing ?sk" using f by (auto simp: flowing_def)
  moreover have "0 < ?k" using f(2) assms(4) by simp
  ultimately show ?thesis by (intro exI[of _ ?k] exI[of _ ?sk]) (simp add: b)
qed

lemma read_partial_flow:
  assumes "sock con = Some sk" and "flowing sk" and "n \<le> length (rx_bytes sk)" and "in_base_pos con = end_pos - int n"
    and "sz = int (h + n)" and "length object = h + n"
  shows "\<exists>sk'. read_partial end_pos sz object con =
      Inr (1, take h object @ take n (rx_bytes sk), con\<lparr>sock := Some sk', in_base_pos := end_pos\<rparr>) \<and>
    rx_bytes sk' = drop n (rx_bytes sk) \<and> flowing sk'"
  using assms
proof (induction n arbitrary: h object con sk rule: less_induct)
  case (less n)
  show ?case
  proof (cases "n = 0")
    case True
    then have "con\<lparr>sock := Some sk, in_base_pos := end_pos\<rparr> = con" using less.prems(1,4) by simp
    with True less.prems show ?thesis by (subst read_partial.simps) (auto intro!: exI[of _ sk])
  next
    case False
    then have ne: "rx_bytes sk \<noteq> []" "0 < n" using less.prems(3) by auto
    obtain k sk1 where k: "ceph_tcp_recvmsg n con = Inr (int k, take k (rx_bytes sk), con\<lparr>sock := Some sk1\<rparr>)" "0 < k" "k \<le> n"
        "k \<le> length (rx_bytes sk)" "rx_bytes sk1 = drop k (rx_bytes sk)" "flowing sk1"
      using recvmsg_flow[OF less.prems(1,2) ne] by blast
    let ?obj = "take h object @ take k (rx_bytes sk) @ drop (h + k) object"
    let ?con = "con\<lparr>sock := Some sk1, in_base_pos := end_pos - int (n - k)\<rparr>"
    have put: "put_bytes object (int h) (take k (rx_bytes sk)) = Inr ?obj"
      using less.prems(6) k(3,4) by (simp add: put_bytes_def min_def)
    have "read_partial end_pos sz object con = read_partial end_pos sz ?obj ?con"
    proof -
      have pos: "end_pos - in_base_pos con = int n" "in_base_pos con < end_pos" "in_base_pos con + int k = end_pos - int (n - k)"
        "sz - int n = int h"
        using ne(2) less.prems(4,5) k(3) by auto
      show ?thesis using k(1,2) put by (subst read_partial.simps) (simp add: Let_def pos)
    qed
    moreover have "\<exists>sk'. read_partial end_pos sz ?obj ?con =
        Inr (1, take (h + k) ?obj @ take (n - k) (rx_bytes sk1), ?con\<lparr>sock := Some sk', in_base_pos := end_pos\<rparr>) \<and>
        rx_bytes sk' = drop (n - k) (rx_bytes sk1) \<and> flowing sk'"
      by (rule less.IH) (use less.prems k in auto)
    moreover have "take (h + k) ?obj @ take (n - k) (rx_bytes sk1) = take h object @ take n (rx_bytes sk)"
      using less.prems(6) k(3-5) by (simp add: min_def) (metis le_add_diff_inverse take_add)
    ultimately show ?thesis using k(3,5) by auto
  qed
qed

lemma read_section_flow:
  assumes "sock con = Some sk" and "flowing sk" and "n \<le> length (rx_bytes sk)" and "sec_len = length part + n" and "sec_len \<le> alloc"
  shows "\<exists>sk'. read_section alloc sec_len part con = Inr (1, part @ take n (rx_bytes sk), con\<lparr>sock := Some sk'\<rparr>) \<and>
    rx_bytes sk' = drop n (rx_bytes sk) \<and> flowing sk'"
  using assms
proof (induction n arbitrary: part con sk rule: less_induct)
  case (less n)
  show ?case
  proof (cases "n = 0")
    case True
    then have "con\<lparr>sock := Some sk\<rparr> = con" using less.prems(1) by simp
    with True less.prems show ?thesis by (subst read_section.simps) (auto intro!: exI[of _ sk])
  next
    case False
    then have ne: "rx_bytes sk \<noteq> []" "0 < n" using less.prems(3) by auto
    obtain k sk1 where k: "ceph_tcp_recvmsg n con = Inr (int k, take k (rx_bytes sk), con\<lparr>sock := Some sk1\<rparr>)" "0 < k" "k \<le> n"
        "k \<le> length (rx_bytes sk)" "rx_bytes sk1 = drop k (rx_bytes sk)" "flowing sk1"
      using recvmsg_flow[OF less.prems(1,2) ne] by blast
    have "read_section alloc sec_len part con = read_section alloc sec_len (part @ take k (rx_bytes sk)) (con\<lparr>sock := Some sk1\<rparr>)"
      using ne(2) less.prems(4,5) k(1-4) by (subst read_section.simps) (simp add: min_def)
    moreover have "\<exists>sk'. read_section alloc sec_len (part @ take k (rx_bytes sk)) (con\<lparr>sock := Some sk1\<rparr>) =
        Inr (1, (part @ take k (rx_bytes sk)) @ take (n - k) (rx_bytes sk1), (con\<lparr>sock := Some sk1\<rparr>)\<lparr>sock := Some sk'\<rparr>) \<and>
        rx_bytes sk' = drop (n - k) (rx_bytes sk1) \<and> flowing sk'"
      by (rule less.IH) (use less.prems k in \<open>auto simp: min_def\<close>)
    moreover have "(part @ take k (rx_bytes sk)) @ take (n - k) (rx_bytes sk1) = part @ take n (rx_bytes sk)"
      using k(3,5) by simp (metis le_add_diff_inverse take_add)
    ultimately show ?thesis using k(3,5) by auto
  qed
qed

lemma recv_data_flow:
  assumes "sock con = Some sk" and "flowing sk" and "msg_ok (m_cursor (store con m))"
    and "length (msg_rest (m_cursor (store con m))) \<le> length (rx_bytes sk)" and "crc_incremental env" and "\<not> nocrc (msgr con)"
  defines "n \<equiv> length (msg_rest (m_cursor (store con m)))"
  shows "\<exists>c sk'. recv_data env m crc con =
      Inr (1, crc32c env crc (take n (rx_bytes sk)), (set_cursor m c sk' con)\<lparr>in_data := in_data con @ take n (rx_bytes sk)\<rparr>) \<and>
    rx_bytes sk' = drop n (rx_bytes sk) \<and> flowing sk'"
  using assms(1-4,6) unfolding n_def
proof (induction "length (msg_rest (m_cursor (store con m)))" arbitrary: con crc sk rule: less_induct)
  case less
  let ?c = "m_cursor (store con m)" and ?n = "length (msg_rest (m_cursor (store con m)))"
  show ?case
  proof (cases "msg_rest ?c = []")
    case True
    have "(set_cursor m ?c sk con)\<lparr>in_data := in_data con\<rparr> = con" using less.prems(1) by (simp add: set_cursor_def upd_msg_def)
    moreover have "resid ?c = 0" using msg.busy_iff[OF less.prems(3)] True by simp
    ultimately show ?thesis
      using True less.prems assms(5) by (subst recv_data.simps) (auto simp: crc_incremental_def intro!: exI[of _ ?c] exI[of _ sk])
  next
    case False
    have r: "resid ?c \<noteq> 0" using msg.busy_iff[OF less.prems(3)] False by simp
    obtain page off len where p: "ceph_msg_data_next ?c = Inr (page, off, len)" "0 < len" "len \<le> ?n" "off + len \<le> PAGE_SIZE"
      using msg.nxt_piece[OF less.prems(3) False] by blast
    have ne: "rx_bytes sk \<noteq> []" using False less.prems(4) by auto
    obtain k sk1 where k: "ceph_tcp_recvmsg len con = Inr (int k, take k (rx_bytes sk), con\<lparr>sock := Some sk1\<rparr>)" "0 < k" "k \<le> len"
        "k \<le> length (rx_bytes sk)" "rx_bytes sk1 = drop k (rx_bytes sk)" "flowing sk1"
      using recvmsg_flow[OF less.prems(1,2) ne p(2)] by blast
    obtain b c1 where a: "ceph_msg_data_advance ?c k = Inr (b, c1)" "msg_ok c1" "msg_rest c1 = drop k (msg_rest ?c)"
      using msg.adv_drop[OF less.prems(3) False p(1) k(2,3)] by blast
    let ?con = "upd_msg m (\<lambda>x. x\<lparr>m_cursor := c1\<rparr>) (con\<lparr>sock := Some sk1, in_data := in_data con @ take k (rx_bytes sk)\<rparr>)"
    let ?crc = "crc32c env crc (take k (rx_bytes sk))"
    have step: "recv_data env m crc con = recv_data env m ?crc ?con"
      using r p(1,4) k(1,2) a(1) less.prems(5) by (subst recv_data.simps) (simp add: Let_def ceph_tcp_recvpage_def)
    have cur: "m_cursor (store ?con m) = c1" by (simp add: upd_msg_def)
    have n: "?n - k = length (msg_rest c1)" using a(3) by simp
    have "length (msg_rest (m_cursor (store ?con m))) < ?n" using cur a(3) k(2,3) p(3) False by simp
    moreover have "sock ?con = Some sk1" "\<not> nocrc (msgr ?con)" using less.prems(5) by (simp_all add: upd_msg_def)
    moreover have "msg_ok (m_cursor (store ?con m))" using cur a(2) by simp
    moreover have "length (msg_rest (m_cursor (store ?con m))) \<le> length (rx_bytes sk1)" using cur a(3) k(5) less.prems(4) by simp
    ultimately have "\<exists>c sk'. recv_data env m ?crc ?con =
        Inr (1, crc32c env ?crc (take (length (msg_rest c1)) (rx_bytes sk1)),
          (set_cursor m c sk' ?con)\<lparr>in_data := in_data ?con @ take (length (msg_rest c1)) (rx_bytes sk1)\<rparr>) \<and>
        rx_bytes sk' = drop (length (msg_rest c1)) (rx_bytes sk1) \<and> flowing sk'"
      using less.hyps[of ?con sk1 ?crc] k(6) unfolding cur by blast
    then obtain c sk' where IH: "recv_data env m ?crc ?con =
        Inr (1, crc32c env ?crc (take (length (msg_rest c1)) (rx_bytes sk1)),
          (set_cursor m c sk' ?con)\<lparr>in_data := in_data ?con @ take (length (msg_rest c1)) (rx_bytes sk1)\<rparr>)"
        "rx_bytes sk' = drop (length (msg_rest c1)) (rx_bytes sk1)" "flowing sk'" by blast
    have t: "take k (rx_bytes sk) @ take (length (msg_rest c1)) (rx_bytes sk1) = take ?n (rx_bytes sk)"
      using n k(3,5) p(3) by (metis le_add_diff_inverse le_trans take_add)
    have "crc32c env ?crc (take (length (msg_rest c1)) (rx_bytes sk1)) = crc32c env crc (take ?n (rx_bytes sk))"
      using assms(5) t by (simp add: crc_incremental_def)
    moreover have "(set_cursor m c sk' ?con)\<lparr>in_data := in_data ?con @ take (length (msg_rest c1)) (rx_bytes sk1)\<rparr> =
        (set_cursor m c sk' con)\<lparr>in_data := in_data con @ take ?n (rx_bytes sk)\<rparr>"
      using t by (simp add: set_cursor_def upd_msg_def flip: t)
    moreover have "rx_bytes sk' = drop ?n (rx_bytes sk)"
    proof -
      have "length (msg_rest c1) + k = ?n" using n k(3) p(3) by linarith
      then show ?thesis using IH(2) k(5) by simp
    qed
    ultimately show ?thesis unfolding step IH(1) using IH(3) by auto
  qed
qed

section \<open>Headers and footers\<close>

lemma hdr_fields [simp]:
  "hdr_seq_of (hdr_bytes y) = hdr_seq y" "hdr_front_len_of (hdr_bytes y) = hdr_front_len y"
  "hdr_middle_len_of (hdr_bytes y) = hdr_middle_len y" "hdr_data_len_of (hdr_bytes y) = hdr_data_len y"
  "hdr_crc_of (hdr_bytes y) = hdr_crc y" "take 49 (hdr_bytes y) = hdr_prefix y"
  by (simp_all add: hdr_seq_of_def hdr_front_len_of_def hdr_middle_len_of_def hdr_data_len_of_def hdr_crc_of_def
      hdr_bytes_def hdr_prefix_def)

text \<open>Two messages with the same header, footer and parts.\<close>

definition same_header :: "ceph_msg \<Rightarrow> ceph_msg \<Rightarrow> bool" where
  "same_header x y \<longleftrightarrow> hdr_seq x = hdr_seq y \<and> hdr_tid x = hdr_tid y \<and> hdr_type x = hdr_type y \<and> hdr_priority x = hdr_priority y \<and>
    hdr_version x = hdr_version y \<and> hdr_front_len x = hdr_front_len y \<and> hdr_middle_len x = hdr_middle_len y \<and>
    hdr_data_len x = hdr_data_len y \<and> hdr_data_off x = hdr_data_off y \<and> hdr_src x = hdr_src y \<and> hdr_reserved x = hdr_reserved y \<and>
    hdr_crc x = hdr_crc y"

lemma le_word_single [simp]: "le_word [b] = (b :: u8)"
  by simp

lemma set_hdr_same: "same_header (set_hdr (hdr_bytes y) x) y"
  by (simp add: same_header_def set_hdr_def hdr_bytes_def hdr_prefix_def)

lemma set_footer_bytes: "set_footer (footer_bytes y) x =
    x\<lparr>ftr_front_crc := ftr_front_crc y, ftr_middle_crc := ftr_middle_crc y, ftr_data_crc := ftr_data_crc y, ftr_flags := ftr_flags y\<rparr>"
  by (simp add: set_footer_def footer_bytes_def)

section \<open>The round trip of a message\<close>

text \<open>A message whose header says how long its parts are, within the limits of the receiver.\<close>

definition well_sized :: "ceph_msg \<Rightarrow> bool" where
  "well_sized x \<longleftrightarrow> unat (hdr_front_len x) = length (m_front x) \<and> unat (hdr_middle_len x) = length (middle_bytes x) \<and>
    unat (hdr_data_len x) = m_data_length x \<and> length (payload x) = m_data_length x \<and>
    length (m_front x) \<le> CEPH_MSG_MAX_FRONT_LEN \<and> length (middle_bytes x) \<le> CEPH_MSG_MAX_MIDDLE_LEN \<and>
    m_data_length x \<le> CEPH_MSG_MAX_DATA_LEN"

text \<open>A connection at the start of a message, whose owner gives message \<open>m\<close> with enough room.\<close>

definition ready_for :: "con_env \<Rightarrow> nat \<Rightarrow> ceph_msg \<Rightarrow> ceph_connection \<Rightarrow> bool" where
  "ready_for env m x con \<longleftrightarrow> state con = CON_OPEN \<and> in_msg con = None \<and> in_base_pos con = 0 \<and> in_front_crc con = 0 \<and>
    in_middle_crc con = 0 \<and> in_data_crc con = 0 \<and> length (in_hdr con) = HEADER_SIZE \<and> \<not> nocrc (msgr con) \<and> con_ref con \<noteq> 0 \<and>
    alloc_msg env = Some (\<lambda>c. ((Some m, False), c)) \<and> length (m_front x) \<le> front_alloc_len (store con m) \<and>
    m_middle (store con m) = None \<and> buffer_new env (length (middle_bytes x)) \<noteq> None \<and>
    m_data_length x \<le> m_data_length (store con m) \<and> covered (m_data (store con m)) (m_data_length x)"

text \<open>After the allocation, with the header in place.\<close>

definition filling :: "nat \<Rightarrow> ceph_msg \<Rightarrow> ceph_connection \<Rightarrow> bool" where
  "filling m x con \<longleftrightarrow> in_hdr con = hdr_bytes x \<and> in_msg con = Some m \<and> in_base_pos con = int HEADER_SIZE \<and> in_front_crc con = 0 \<and>
    in_middle_crc con = 0 \<and> in_data_crc con = 0 \<and> \<not> nocrc (msgr con) \<and> in_data con = [] \<and> m_front (store con m) = [] \<and>
    length (m_front x) \<le> front_alloc_len (store con m) \<and> same_header (store con m) x \<and>
    m_middle (store con m) = (if middle_bytes x = [] then None else Some []) \<and>
    (middle_bytes x \<noteq> [] \<longrightarrow> middle_alloc_len (store con m) = length (middle_bytes x)) \<and>
    (m_data_length x \<noteq> 0 \<longrightarrow> m_data (store con m) \<noteq> [] \<and> msg_ok (m_cursor (store con m)) \<and>
      length (msg_rest (m_cursor (store con m))) = m_data_length x)"

lemma unat_zero_iff: "unat (w :: 'a::len word) = n \<Longrightarrow> w = 0 \<longleftrightarrow> n = 0"
  by (metis unat_eq_0)

lemma covered_length: "covered items n \<Longrightarrow> n \<le> length (concat (map item_bytes items))"
  by (induction items n rule: covered.induct) auto

lemma cursor_ready_long:
  assumes "covered items n" and "n \<noteq> 0" and "n \<le> avail"
  shows "\<exists>c. ceph_msg_data_cursor_init items avail cursor n = Inr c \<and> msg_ok c \<and> length (msg_rest c) = n"
proof -
  have "ceph_msg_data_cursor_init items avail cursor n = ceph_msg_data_cursor_init items n cursor n"
    using assms(3) by (simp add: ceph_msg_data_cursor_init_def guardE_def)
  then show ?thesis using data_cursor_ready[OF assms(1,2), of cursor] covered_length[OF assms(1)] by (auto simp: min_def)
qed

lemma start_message_ok:
  assumes ready: "ready_for env m x con0" and w: "well_sized x"
    and con: "con = con0\<lparr>sock := s, in_base_pos := int HEADER_SIZE, in_hdr := hdr_bytes x\<rparr>"
  shows "\<exists>con'. start_message env con = Inr (1, Some m, con') \<and> filling m x con' \<and> sock con' = s \<and> in_seq con' = in_seq con0 \<and>
    state con' = CON_OPEN \<and> in_tag con' = in_tag con0 \<and> m_con (store con' m)"
proof -
  have r: "in_msg con = None" "alloc_msg env = Some (\<lambda>c. ((Some m, False), c))" "state con = CON_OPEN" "con_ref con \<noteq> 0"
    "in_hdr con = hdr_bytes x" "m_middle (store con m) = None" "sock con = s"
    using ready by (simp_all add: ready_for_def con)
  have z: "hdr_middle_len x = 0 \<longleftrightarrow> middle_bytes x = []" "unat (hdr_data_len x) = m_data_length x" "unat (hdr_middle_len x) = length (middle_bytes x)"
    using w unat_zero_iff[of "hdr_middle_len x" "length (middle_bytes x)"] by (simp_all add: well_sized_def)
  obtain b where b: "buffer_new env (length (middle_bytes x)) = Some b" using ready by (auto simp: ready_for_def)
  let ?a = "upd_msg m (\<lambda>x. set_hdr (in_hdr con) (x\<lparr>m_con := True\<rparr>)) (con\<lparr>con_ref := con_ref con + 1, in_msg := Some m\<rparr>)"
  let ?b = "if middle_bytes x = [] then ?a else upd_msg m (\<lambda>y. y\<lparr>m_middle := Some b, middle_alloc_len := length (middle_bytes x)\<rparr>) ?a"
  have mid: "m_middle (store ?a m) = None" "hdr_middle_len (store ?a m) = hdr_middle_len x"
    using r(5,6) set_hdr_same[of x] by (simp_all add: upd_msg_def set_hdr_def same_header_def)
  have alloc: "ceph_con_in_msg_alloc env con = Inr (0, False, ?b)"
    using r b z by (simp add: ceph_con_in_msg_alloc_def con_get_def Let_def ceph_alloc_middle_def upd_msg_def set_hdr_def hdr_bytes_def
        hdr_prefix_def hdr_middle_len_of_def)
  have len: "m_data_length x \<le> m_data_length (store ?b m)" "m_con (store ?b m)" "in_msg ?b = Some m" "in_hdr ?b = hdr_bytes x"
    "m_data (store ?b m) = m_data (store con0 m)" "m_data_length (store ?b m) = m_data_length (store con0 m)"
    using ready by (simp_all add: ready_for_def con upd_msg_def set_hdr_def)
  let ?c = "upd_msg m (\<lambda>x. x\<lparr>m_front := [], m_middle := map_option (\<lambda>_. []) (m_middle x)\<rparr>) (?b\<lparr>in_data := []\<rparr>)"
  have hdr: "same_header (store ?c m) x" using r(5) set_hdr_same[of x] by (simp add: upd_msg_def same_header_def)
  have fill: "filling m x ?c" if "m_data_length x = 0"
    using that ready w hdr by (simp add: ready_for_def filling_def con upd_msg_def set_hdr_def)
  show ?thesis
  proof (cases "m_data_length x = 0")
    case True
    then show ?thesis using alloc len z(2) fill r
      by (intro exI[of _ ?c]) (simp add: start_message_def Let_def con upd_msg_def)
  next
    case False
    have cov: "covered (m_data (store con0 m)) (m_data_length x)" "m_data_length x \<le> m_data_length (store con0 m)"
      using ready by (simp_all add: ready_for_def)
    obtain c where c: "ceph_msg_data_cursor_init (m_data (store con0 m)) (m_data_length (store con0 m)) (m_cursor (store ?c m))
        (m_data_length x) = Inr c" "msg_ok c" "length (msg_rest c) = m_data_length x"
      using cursor_ready_long[OF cov(1) False cov(2)] by blast
    have ne: "m_data (store con0 m) \<noteq> []" using cov False by auto
    let ?d = "upd_msg m (\<lambda>x. x\<lparr>m_cursor := c\<rparr>) ?c"
    have p: "prepare_message_data m (m_data_length x) ?c = Inr ?d"
      using c(1) False len(5,6) by (simp add: prepare_message_data_def Let_def upd_msg_def)
    have "filling m x ?d"
      using False ready w hdr c(2,3) ne by (simp add: ready_for_def filling_def con upd_msg_def set_hdr_def same_header_def)
    then show ?thesis using alloc len z(2) False p r
      by (intro exI[of _ ?d]) (simp add: start_message_def Let_def con upd_msg_def)
  qed
qed

lemma section_flow:
  assumes "sock con = Some sk" and "flowing sk" and "rx_bytes sk = bs @ rest" and "length bs \<le> alloc"
  shows "\<exists>sk'. read_partial_message_section env alloc (length bs) [] crc con =
      Inr (1, bs, crc32c env 0 bs, con\<lparr>sock := Some sk'\<rparr>) \<and> rx_bytes sk' = rest \<and> flowing sk'"
  using read_section_flow[OF assms(1,2), of "length bs" "length bs" "[]" alloc] assms(3,4)
  by (auto simp: read_partial_message_section_def)

text \<open>The message as the receiver has it.\<close>

definition received :: "nat \<Rightarrow> ceph_msg \<Rightarrow> ceph_connection \<Rightarrow> bool" where
  "received m x con \<longleftrightarrow> in_msg con = Some m \<and> same_header (store con m) x \<and> m_front (store con m) = m_front x \<and>
    middle_bytes (store con m) = middle_bytes x \<and> in_data con = payload x \<and> ftr_flags (store con m) = ftr_flags x"

lemma read_front_ok:
  assumes f: "filling m x con" and w: "well_sized x" and sk: "sock con = Some sk" "flowing sk" and rx: "rx_bytes sk = m_front x @ rest"
  shows "\<exists>sk'. read_front env m con = Inr (1, upd_msg m (\<lambda>y. y\<lparr>m_front := m_front x\<rparr>)
      (con\<lparr>sock := Some sk', in_front_crc := crc32c env 0 (m_front x)\<rparr>)) \<and> rx_bytes sk' = rest \<and> flowing sk'"
proof -
  have "length (m_front x) \<le> front_alloc_len (store con m)" using f by (simp add: filling_def)
  from section_flow[OF sk rx this, of env "in_front_crc con"] obtain sk' where
    "read_partial_message_section env (front_alloc_len (store con m)) (length (m_front x)) [] (in_front_crc con) con =
      Inr (1, m_front x, crc32c env 0 (m_front x), con\<lparr>sock := Some sk'\<rparr>)" "rx_bytes sk' = rest" "flowing sk'" by blast
  then show ?thesis using f w by (intro exI[of _ sk']) (simp add: read_front_def filling_def well_sized_def)
qed

lemma read_middle_ok:
  assumes f: "m_middle (store con m) = (if middle_bytes x = [] then None else Some [])" "in_hdr con = hdr_bytes x" "in_middle_crc con = 0"
      "middle_bytes x \<noteq> [] \<longrightarrow> middle_alloc_len (store con m) = length (middle_bytes x)"
    and w: "well_sized x" and sk: "sock con = Some sk" "flowing sk" and rx: "rx_bytes sk = middle_bytes x @ rest" and crc: "crc_incremental env"
  shows "\<exists>sk'. read_middle env m con = Inr (1, upd_msg m (\<lambda>y. y\<lparr>m_middle := (if middle_bytes x = [] then None else Some (middle_bytes x))\<rparr>)
      (con\<lparr>sock := Some sk', in_middle_crc := crc32c env 0 (middle_bytes x)\<rparr>)) \<and> rx_bytes sk' = rest \<and> flowing sk'"
proof (cases "middle_bytes x = []")
  case True
  have "(store con m)\<lparr>m_middle := None\<rparr> = store con m" using True f(1) by simp
  moreover have "con\<lparr>sock := Some sk, in_middle_crc := 0\<rparr> = con" using f(3) sk(1) by simp
  ultimately have "upd_msg m (\<lambda>y. y\<lparr>m_middle := None\<rparr>) (con\<lparr>sock := Some sk, in_middle_crc := crc32c env 0 []\<rparr>) = con"
    using crc by (simp add: upd_msg_def crc_incremental_def)
  with True f(1) rx sk(2) show ?thesis by (auto simp: read_middle_def intro!: exI[of _ sk])
next
  case False
  have "length (middle_bytes x) \<le> middle_alloc_len (store con m)" using f(4) False by simp
  from section_flow[OF sk rx this, of env "in_middle_crc con"] obtain sk' where
    "read_partial_message_section env (middle_alloc_len (store con m)) (length (middle_bytes x)) [] (in_middle_crc con) con =
      Inr (1, middle_bytes x, crc32c env 0 (middle_bytes x), con\<lparr>sock := Some sk'\<rparr>)" "rx_bytes sk' = rest" "flowing sk'" by blast
  then show ?thesis using False f(1,2) w by (intro exI[of _ sk']) (simp add: read_middle_def well_sized_def)
qed

lemma read_data_ok:
  assumes f: "in_hdr con = hdr_bytes x" "in_data_crc con = 0" "in_data con = []" "\<not> nocrc (msgr con)"
      "m_data_length x \<noteq> 0 \<longrightarrow> m_data (store con m) \<noteq> [] \<and> msg_ok (m_cursor (store con m)) \<and>
      length (msg_rest (m_cursor (store con m))) = m_data_length x"
    and w: "well_sized x" and sk: "sock con = Some sk" "flowing sk" and rx: "rx_bytes sk = payload x @ rest" and crc: "crc_incremental env"
  shows "\<exists>c sk'. read_data env m con = Inr (1, (set_cursor m c sk' con)\<lparr>in_data := payload x, in_data_crc := crc32c env 0 (payload x)\<rparr>) \<and>
      rx_bytes sk' = rest \<and> flowing sk'"
proof (cases "m_data_length x = 0")
  case True
  then have "payload x = []" "hdr_data_len x = 0" using w unat_zero_iff[of "hdr_data_len x"] by (simp_all add: well_sized_def)
  moreover have "(set_cursor m (m_cursor (store con m)) sk con)\<lparr>in_data := [], in_data_crc := 0\<rparr> = con"
    using f(2,3) sk(1) by (simp add: set_cursor_def upd_msg_def)
  ultimately show ?thesis using f(1) rx sk(2) crc by (intro exI[of _ "m_cursor (store con m)"] exI[of _ sk]) (simp add: read_data_def crc_incremental_def)
next
  case False
  then have d: "hdr_data_len x \<noteq> 0" "length (payload x) = m_data_length x" "m_data (store con m) \<noteq> []"
    using w f(5) unat_zero_iff[of "hdr_data_len x"] by (simp_all add: well_sized_def)
  from False f(5) have c: "msg_ok (m_cursor (store con m))" "length (msg_rest (m_cursor (store con m))) = length (payload x)"
    using d(2) by simp_all
  have "length (msg_rest (m_cursor (store con m))) \<le> length (rx_bytes sk)" using c(2) rx by simp
  from recv_data_flow[OF sk c(1) this crc f(4), of 0] c(2) rx obtain c' sk' where
    "recv_data env m 0 con = Inr (1, crc32c env 0 (payload x), (set_cursor m c' sk' con)\<lparr>in_data := payload x\<rparr>)"
    "rx_bytes sk' = rest" "flowing sk'" using f(3) by auto
  then show ?thesis using d f(1,2,4) by (auto simp: read_data_def read_partial_msg_data_def Let_def)
qed

lemma read_footer_ok:
  assumes pos: "in_base_pos con = int HEADER_SIZE" and sk: "sock con = Some sk" "flowing sk" and rx: "rx_bytes sk = footer_bytes y @ rest"
    and crcs: "in_front_crc con = ftr_front_crc y" "in_middle_crc con = ftr_middle_crc y" "in_data_crc con = ftr_data_crc y"
  shows "\<exists>sk'. read_footer m con = Inr (1, upd_msg m (set_footer (footer_bytes y)) (con\<lparr>sock := Some sk',
      in_base_pos := int HEADER_SIZE + int FOOTER_SIZE\<rparr>)) \<and> rx_bytes sk' = rest \<and> flowing sk'"
proof -
  have len: "length (footer_bytes z) = FOOTER_SIZE" for z by (simp add: footer_bytes_def FOOTER_SIZE_def)
  have "FOOTER_SIZE \<le> length (rx_bytes sk)" using rx len by simp
  moreover have "in_base_pos con = int HEADER_SIZE + int FOOTER_SIZE - int FOOTER_SIZE" "int FOOTER_SIZE = int (0 + FOOTER_SIZE)"
    "length (footer_bytes (store con m)) = 0 + FOOTER_SIZE" using pos len by simp_all
  ultimately obtain sk' where r: "read_partial (int HEADER_SIZE + int FOOTER_SIZE) (int FOOTER_SIZE) (footer_bytes (store con m)) con =
      Inr (1, take 0 (footer_bytes (store con m)) @ take FOOTER_SIZE (rx_bytes sk),
        con\<lparr>sock := Some sk', in_base_pos := int HEADER_SIZE + int FOOTER_SIZE\<rparr>)"
    "rx_bytes sk' = drop FOOTER_SIZE (rx_bytes sk)" "flowing sk'"
    using read_partial_flow[OF sk] by blast
  have "take FOOTER_SIZE (rx_bytes sk) = footer_bytes y" "drop FOOTER_SIZE (rx_bytes sk) = rest" using rx len[of y] by auto
  with r have r': "read_partial (int HEADER_SIZE + int FOOTER_SIZE) (int FOOTER_SIZE) (footer_bytes (store con m)) con =
      Inr (1, footer_bytes y, con\<lparr>sock := Some sk', in_base_pos := int HEADER_SIZE + int FOOTER_SIZE\<rparr>)" "rx_bytes sk' = rest" by simp_all
  have "check_crcs m (upd_msg m (set_footer (footer_bytes y))
      (con\<lparr>sock := Some sk', in_base_pos := int HEADER_SIZE + int FOOTER_SIZE\<rparr>)) = 1"
    using crcs by (simp add: check_crcs_def upd_msg_def set_footer_bytes)
  then show ?thesis using r' r(3) by (intro exI[of _ sk']) (simp add: read_footer_def Let_def)
qed

text \<open>What sealing leaves alone.\<close>

lemma sealed_parts [simp]:
  "m_front (sealed_msg env b x) = m_front x" "m_middle (sealed_msg env b x) = m_middle x" "middle_bytes (sealed_msg env b x) = middle_bytes x"
  "payload (sealed_msg env b x) = payload x" "m_data_length (sealed_msg env b x) = m_data_length x"
  "hdr_seq (sealed_msg env b x) = hdr_seq x"
  by (simp_all add: sealed_msg_def fill_crcs_def middle_bytes_def payload_def)

lemma sealed_sized [simp]: "well_sized (sealed_msg env b x) = well_sized x"
  by (simp add: well_sized_def sealed_msg_def fill_crcs_def middle_bytes_def payload_def)

lemma sealed_ready [simp]: "ready_for env m (sealed_msg env b x) con = ready_for env m x con"
  by (simp add: ready_for_def)

lemma sealed_hdr_crc: "crc32c env 0 (hdr_prefix (sealed_msg env b x)) = hdr_crc (sealed_msg env b x)"
  by (simp add: sealed_msg_def fill_crcs_def hdr_prefix_def)

lemma sealed_crcs:
  assumes "crc_incremental env" and "well_sized x"
  shows "ftr_front_crc (sealed_msg env False x) = crc32c env 0 (m_front x)" "ftr_middle_crc (sealed_msg env False x) = crc32c env 0 (middle_bytes x)"
    "ftr_data_crc (sealed_msg env False x) = crc32c env 0 (payload x)"
  using assms by (auto simp: sealed_msg_def fill_crcs_def middle_bytes_def crc_incremental_def well_sized_def split: option.split)

lemma read_parts_ok:
  assumes f: "filling m y con" and y: "y = sealed_msg env False x" and w: "well_sized x" and crc: "crc_incremental env"
    and sk: "sock con = Some sk" "flowing sk" and rx: "rx_bytes sk = m_front x @ middle_bytes x @ payload x @ footer_bytes y @ rest"
  shows "\<exists>con' sk'. read_message_parts env m con = Inr (1, con') \<and> received m y con' \<and> sock con' = Some sk' \<and> flowing sk' \<and>
    rx_bytes sk' = rest \<and> in_seq con' = in_seq con \<and> state con' = state con \<and> in_tag con' = in_tag con \<and>
    m_con (store con' m) = m_con (store con m)"
proof -
  have wy: "well_sized y" using w y by simp
  note fd = f[unfolded filling_def]
  obtain sk1 where 1: "read_front env m con = Inr (1, upd_msg m (\<lambda>z. z\<lparr>m_front := m_front x\<rparr>)
      (con\<lparr>sock := Some sk1, in_front_crc := crc32c env 0 (m_front x)\<rparr>))" (is "_ = Inr (1, ?c1)")
      "rx_bytes sk1 = middle_bytes x @ payload x @ footer_bytes y @ rest" "flowing sk1"
    using read_front_ok[OF f wy sk, of "middle_bytes x @ payload x @ footer_bytes y @ rest" env] rx y by auto
  have "m_middle (store ?c1 m) = (if middle_bytes y = [] then None else Some [])" "in_hdr ?c1 = hdr_bytes y" "in_middle_crc ?c1 = 0"
      "middle_bytes y \<noteq> [] \<longrightarrow> middle_alloc_len (store ?c1 m) = length (middle_bytes y)" "sock ?c1 = Some sk1"
      "rx_bytes sk1 = middle_bytes y @ payload x @ footer_bytes y @ rest"
    using fd y 1(2) by (simp_all add: upd_msg_def)
  from read_middle_ok[OF this(1-4) wy this(5) 1(3) this(6) crc] obtain sk2 where
    2: "read_middle env m ?c1 = Inr (1, upd_msg m (\<lambda>z. z\<lparr>m_middle := if middle_bytes y = [] then None else Some (middle_bytes y)\<rparr>)
      (?c1\<lparr>sock := Some sk2, in_middle_crc := crc32c env 0 (middle_bytes y)\<rparr>))" (is "_ = Inr (1, ?c2)")
      "rx_bytes sk2 = payload x @ footer_bytes y @ rest" "flowing sk2" by blast
  have "in_hdr ?c2 = hdr_bytes y" "in_data_crc ?c2 = 0" "in_data ?c2 = []" "\<not> nocrc (msgr ?c2)"
      "m_data_length y \<noteq> 0 \<longrightarrow> m_data (store ?c2 m) \<noteq> [] \<and> msg_ok (m_cursor (store ?c2 m)) \<and>
      length (msg_rest (m_cursor (store ?c2 m))) = m_data_length y" "sock ?c2 = Some sk2" "rx_bytes sk2 = payload y @ footer_bytes y @ rest"
    using fd y 2(2) by (simp_all add: upd_msg_def)
  from read_data_ok[OF this(1-5) wy this(6) 2(3) this(7) crc] obtain c sk3 where
    3: "read_data env m ?c2 = Inr (1, (set_cursor m c sk3 ?c2)\<lparr>in_data := payload y, in_data_crc := crc32c env 0 (payload y)\<rparr>)"
      (is "_ = Inr (1, ?c3)") "rx_bytes sk3 = footer_bytes y @ rest" "flowing sk3" by blast
  have "in_base_pos ?c3 = int HEADER_SIZE" "sock ?c3 = Some sk3" "in_front_crc ?c3 = ftr_front_crc y" "in_middle_crc ?c3 = ftr_middle_crc y"
      "in_data_crc ?c3 = ftr_data_crc y"
    using fd y sealed_crcs[OF crc w] by (simp_all add: set_cursor_def upd_msg_def)
  from read_footer_ok[OF this(1,2) 3(3,2) this(3-5), of m] obtain sk4 where
    4: "read_footer m ?c3 = Inr (1, upd_msg m (set_footer (footer_bytes y)) (?c3\<lparr>sock := Some sk4,
      in_base_pos := int HEADER_SIZE + int FOOTER_SIZE\<rparr>))" (is "_ = Inr (1, ?c4)") "rx_bytes sk4 = rest" "flowing sk4" by blast
  have "read_message_parts env m con = Inr (1, ?c4)"
    using 1(1) 2(1) 3(1) 4(1) by (simp add: read_message_parts_def)
  moreover have "received m y ?c4"
    using fd y by (simp add: received_def set_cursor_def upd_msg_def set_footer_bytes middle_bytes_def same_header_def split: option.splits)
  moreover have "sock ?c4 = Some sk4" "in_seq ?c4 = in_seq con" "state ?c4 = state con" "in_tag ?c4 = in_tag con"
      "m_con (store ?c4 m) = m_con (store con m)" by (simp_all add: set_cursor_def upd_msg_def set_footer_def)
  ultimately show ?thesis using 4(2,3) by blast
qed

lemma message_round_trip:
  assumes "ready_for env m x con" and "well_sized x" and "crc_incremental env" and "hdr_seq x = in_seq con + 1"
    and "sock con = Some sk" and "flowing sk" and "TAG_MSG # rx_bytes sk = message_image env False x @ rest"
  shows "\<exists>con' sk'. read_partial_message env con = Inr (1, con') \<and> received m (sealed_msg env False x) con' \<and>
    sock con' = Some sk' \<and> flowing sk' \<and> rx_bytes sk' = rest \<and> in_seq con' = in_seq con \<and> in_tag con' = in_tag con \<and> m_con (store con' m)"
proof -
  define y where "y = sealed_msg env False x"
  have rx: "rx_bytes sk = hdr_bytes y @ m_front x @ middle_bytes x @ payload x @ footer_bytes y @ rest"
    using assms(7) by (simp add: message_image_def Let_def y_def)
  have len: "length (hdr_bytes y) = HEADER_SIZE" by (simp add: hdr_bytes_def hdr_prefix_def HEADER_SIZE_def)
  have "HEADER_SIZE \<le> length (rx_bytes sk)" "in_base_pos con = int HEADER_SIZE - int HEADER_SIZE" "int HEADER_SIZE = int (0 + HEADER_SIZE)"
      "length (in_hdr con) = 0 + HEADER_SIZE"
    using rx len assms(1) by (simp_all add: ready_for_def)
  from read_partial_flow[OF assms(5,6) this] obtain sk1 where
    h: "read_partial (int HEADER_SIZE) (int HEADER_SIZE) (in_hdr con) con =
      Inr (1, take 0 (in_hdr con) @ take HEADER_SIZE (rx_bytes sk), con\<lparr>sock := Some sk1, in_base_pos := int HEADER_SIZE\<rparr>)"
    "rx_bytes sk1 = drop HEADER_SIZE (rx_bytes sk)" "flowing sk1" by blast
  have r1: "take HEADER_SIZE (rx_bytes sk) = hdr_bytes y" "drop HEADER_SIZE (rx_bytes sk) = m_front x @ middle_bytes x @ payload x @ footer_bytes y @ rest"
    using rx len by auto
  let ?con = "con\<lparr>sock := Some sk1, in_base_pos := int HEADER_SIZE, in_hdr := hdr_bytes y\<rparr>"
  have "ready_for env m y con" "well_sized y" using assms(1,2) by (simp_all add: y_def)
  from start_message_ok[OF this refl, of "Some sk1"] obtain con1 where
    s: "start_message env ?con = Inr (1, Some m, con1)" "filling m y con1" "sock con1 = Some sk1" "in_seq con1 = in_seq con"
      "in_tag con1 = in_tag con" "m_con (store con1 m)" by blast
  obtain con' sk' where p: "read_message_parts env m con1 = Inr (1, con')" "received m y con'" "sock con' = Some sk'" "flowing sk'"
      "rx_bytes sk' = rest" "in_seq con' = in_seq con1" "in_tag con' = in_tag con1" "m_con (store con' m)"
    using read_parts_ok[OF s(2) y_def assms(2,3) s(3) h(3)] h(2) r1(2) s(6) by metis
  have seq: "hdr_seq y - in_seq con = 1" using assms(4) by (simp add: y_def)
  have bounds: "unat (hdr_front_len y) \<le> CEPH_MSG_MAX_FRONT_LEN" "unat (hdr_middle_len y) \<le> CEPH_MSG_MAX_MIDDLE_LEN"
      "unat (hdr_data_len y) \<le> CEPH_MSG_MAX_DATA_LEN"
    using \<open>well_sized y\<close> by (simp_all add: well_sized_def)
  have im: "in_msg con = None" using assms(1) by (simp add: ready_for_def)
  have "read_partial_message env con = Inr (1, con')"
    using h(1) r1(1) s(1) p(1) bounds im sealed_hdr_crc[of env False x, folded y_def]
    by (simp add: read_partial_message_def Let_def seq not_less)
  then show ?thesis using p s(4,5) unfolding y_def by metis
qed

section \<open>What is accepted is intact\<close>

lemma recvmsg_frame: "ceph_tcp_recvmsg n con = Inr (r, bs, con') \<Longrightarrow> \<exists>s. con' = con\<lparr>sock := s\<rparr>"
  by (cases "sock con"; cases "kernel_recvmsg (the (sock con)) n") (auto simp: ceph_tcp_recvmsg_def Let_def)

lemma read_partial_frame:
  "read_partial end_pos sz object con = Inr (r, object', con') \<Longrightarrow>
    \<exists>s p. con' = con\<lparr>sock := s, in_base_pos := p\<rparr> \<and> in_base_pos con \<le> p \<and> (0 < r \<longrightarrow> end_pos \<le> p) \<and>
      (end_pos \<le> in_base_pos con \<longrightarrow> object' = object \<and> con' = con)"
proof (induction end_pos sz object con arbitrary: r object' con' rule: read_partial.induct)
  case (1 end_pos sz object con)
  show ?case
  proof (cases "in_base_pos con < end_pos")
    case False
    then have "r = 1" "object' = object" "con' = con" using 1(2)[unfolded read_partial.simps[of end_pos sz object con]] by auto
    then show ?thesis using False by (intro exI[of _ "sock con"] exI[of _ "in_base_pos con"]) simp
  next
    case True
    from 1(2)[unfolded read_partial.simps[of end_pos sz object con]] True obtain ret bs con1 where s: "ceph_tcp_recvmsg (nat (end_pos - in_base_pos con)) con = Inr (ret, bs, con1)"
      and rest: "(if ret \<le> 0 then Inr (ret, object, con1)
         else bindE (put_bytes object (sz - (end_pos - in_base_pos con)) bs) (\<lambda>object1.
           read_partial end_pos sz object1 (con1\<lparr>in_base_pos := in_base_pos con + ret\<rparr>))) = Inr (r, object', con')"
      by (auto simp only: Let_def bindE_Inr_iff if_True prod.case prod.inject split_paired_Ex)
    from recvmsg_frame[OF s] obtain s1 where c1: "con1 = con\<lparr>sock := s1\<rparr>" by blast
    show ?thesis
    proof (cases "ret \<le> 0")
      case True
      then have "r = ret" "con' = con\<lparr>sock := s1\<rparr>" using rest c1 by simp_all
      moreover have "con\<lparr>sock := s1\<rparr> = con\<lparr>sock := s1, in_base_pos := in_base_pos con\<rparr>" by simp
      ultimately show ?thesis using True \<open>in_base_pos con < end_pos\<close> by (intro exI[of _ s1] exI[of _ "in_base_pos con"]) simp
    next
      case False
      then obtain o1 where o: "put_bytes object (sz - (end_pos - in_base_pos con)) bs = Inr o1"
        "read_partial end_pos sz o1 (con1\<lparr>in_base_pos := in_base_pos con + ret\<rparr>) = Inr (r, object', con')"
        using rest by (auto simp: bindE_Inr_iff)
      from 1(1)[OF \<open>in_base_pos con < end_pos\<close> refl refl s refl refl False o] obtain s2 p2 where
        "con' = con1\<lparr>sock := s2, in_base_pos := p2\<rparr>" "in_base_pos con + ret \<le> p2" "0 < r \<longrightarrow> end_pos \<le> p2" by auto
      with False c1 \<open>in_base_pos con < end_pos\<close> show ?thesis by (intro exI[of _ s2] exI[of _ p2]) simp
    qed
  qed
qed

lemma read_section_frame:
  "read_section alloc n part con = Inr (r, part', con') \<Longrightarrow> length part \<le> n \<Longrightarrow>
    \<exists>s. con' = con\<lparr>sock := s\<rparr> \<and> length part' \<le> n \<and> (0 < r \<longrightarrow> length part' = n)"
proof (induction alloc n part con arbitrary: r part' con' rule: read_section.induct)
  case (1 alloc n part con)
  show ?case
  proof (cases "length part < n")
    case False
    then have "part' = part" "con' = con" using 1(2)[unfolded read_section.simps[of alloc n part con]] by auto
    then show ?thesis using False 1(3) by (intro exI[of _ "sock con"]) simp
  next
    case True
    from 1(2)[unfolded read_section.simps[of alloc n part con]] True obtain ret bs con1 where s: "ceph_tcp_recvmsg (n - length part) con = Inr (ret, bs, con1)"
      and rest: "(if ret \<le> 0 then Inr (ret, part, con1) else if alloc < length part + length bs then Inl (Fault OutOfBounds)
        else read_section alloc n (part @ bs) con1) = Inr (r, part', con')"
      by (auto simp only: bindE_Inr_iff if_True prod.case prod.inject split_paired_Ex)
    from recvmsg_frame[OF s] obtain s1 where c1: "con1 = con\<lparr>sock := s1\<rparr>" by blast
    show ?thesis
    proof (cases "ret \<le> 0")
      case True
      then show ?thesis using rest c1 1(3) by auto
    next
      case False
      with rest have a: "\<not> alloc < length part + length bs" "read_section alloc n (part @ bs) con1 = Inr (r, part', con')"
        by (auto split: if_splits)
      have "length (part @ bs) \<le> n" using recvmsg_length[OF s False] True by simp
      from 1(1)[OF True s refl refl False a this] c1 show ?thesis by auto
    qed
  qed
qed

lemma message_section_frame:
  assumes "read_partial_message_section env alloc n part crc con = Inr (r, part', crc', con')" and "length part \<le> n"
  shows "\<exists>s. con' = con\<lparr>sock := s\<rparr> \<and> length part' \<le> n \<and> (0 < r \<longrightarrow> length part' = n \<and> crc' = crc32c env 0 part')"
  using assms
  by (auto simp: read_partial_message_section_def bindE_Inr_iff split: if_splits dest!: read_section_frame)

text \<open>The receive state that reading the payload leaves alone.\<close>

definition data_frame :: "nat \<Rightarrow> ceph_connection \<Rightarrow> ceph_connection \<Rightarrow> bool" where
  "data_frame m con con' \<longleftrightarrow> in_hdr con' = in_hdr con \<and> in_msg con' = in_msg con \<and> in_seq con' = in_seq con \<and>
    in_base_pos con' = in_base_pos con \<and> msgr con' = msgr con \<and> in_front_crc con' = in_front_crc con \<and>
    in_middle_crc con' = in_middle_crc con \<and> m_front (store con' m) = m_front (store con m) \<and>
    m_middle (store con' m) = m_middle (store con m)"

lemma recv_data_frame:
  assumes crc: "crc_incremental env"
  shows "recv_data env m c con = Inr (r, c', con') \<Longrightarrow> c = crc32c env 0 (in_data con) \<Longrightarrow> \<not> nocrc (msgr con) \<Longrightarrow>
    data_frame m con con' \<and> in_data_crc con' = in_data_crc con \<and> c' = crc32c env 0 (in_data con')"
proof (induction "rx_left con" arbitrary: c con rule: less_induct)
  case less
  let ?c = "m_cursor (store con m)"
  show ?case
  proof (cases "resid ?c = 0")
    case True
    with less.prems(1)[unfolded recv_data.simps[of env m c con]] less.prems(2) show ?thesis by (auto simp: data_frame_def)
  next
    case False
    from less.prems(1)[unfolded recv_data.simps[of env m c con]] False obtain page off len ret bs con1 where
        p: "ceph_tcp_recvpage off len con = Inr (ret, bs, con1)"
      and rest: "(if ret \<le> 0 then Inr (ret, c, con1)
         else let crc1 = (if \<not> nocrc (msgr con) then crc32c env c bs else c) in
           bindE (ceph_msg_data_advance ?c (nat ret)) (\<lambda>(new_piece, d).
           recv_data env m crc1 (upd_msg m (\<lambda>x. x\<lparr>m_cursor := d\<rparr>) (con1\<lparr>in_data := in_data con1 @ bs\<rparr>)))) = Inr (r, c', con')"
      by (auto simp: Let_def[of "m_cursor (store con m)"] bindE_Inr_iff)
    from p have s: "ceph_tcp_recvmsg len con = Inr (ret, bs, con1)" by (auto simp: ceph_tcp_recvpage_def bindE_Inr_iff guardE_def)
    from recvmsg_frame[OF s] obtain s1 where c1: "con1 = con\<lparr>sock := s1\<rparr>" by blast
    show ?thesis
    proof (cases "ret \<le> 0")
      case True
      with rest c1 less.prems(2) show ?thesis by (auto simp: data_frame_def)
    next
      case False
      with rest obtain b d where d: "recv_data env m (crc32c env c bs) (upd_msg m (\<lambda>x. x\<lparr>m_cursor := d\<rparr>)
          (con1\<lparr>in_data := in_data con1 @ bs\<rparr>)) = Inr (r, c', con')" (is "recv_data _ _ _ ?con = _")
        using less.prems(3) by (auto simp: bindE_Inr_iff Let_def)
      have "rx_left ?con < rx_left con" using rx_left_less[OF s False] by simp
      moreover have "crc32c env c bs = crc32c env 0 (in_data ?con)"
        using crc less.prems(2) c1 by (simp add: crc_incremental_def upd_msg_def)
      moreover have "\<not> nocrc (msgr ?con)" using less.prems(3) c1 by (simp add: upd_msg_def)
      ultimately have "data_frame m ?con con' \<and> in_data_crc con' = in_data_crc ?con \<and> c' = crc32c env 0 (in_data con')"
        using less.hyps d by blast
      then show ?thesis using c1 by (simp add: data_frame_def upd_msg_def)
    qed
  qed
qed

text \<open>
  The state between two calls of the reader: nothing of a message yet, or the header is there and
  checked, no part is longer than the header says, and the checksum is that of the payload so far.
\<close>

definition midway :: "con_env \<Rightarrow> ceph_connection \<Rightarrow> bool" where
  "midway env con \<longleftrightarrow> \<not> nocrc (msgr con) \<and>
    (case in_msg con of
       None \<Rightarrow> in_data_crc con = 0
     | Some m \<Rightarrow> int HEADER_SIZE \<le> in_base_pos con \<and> crc32c env 0 (take 49 (in_hdr con)) = hdr_crc_of (in_hdr con) \<and>
         hdr_seq_of (in_hdr con) = in_seq con + 1 \<and> length (m_front (store con m)) \<le> unat (hdr_front_len_of (in_hdr con)) \<and>
         (\<forall>b. m_middle (store con m) = Some b \<longrightarrow> length b \<le> unat (hdr_middle_len_of (in_hdr con))) \<and>
         in_data_crc con = crc32c env 0 (in_data con))"

definition intact :: "con_env \<Rightarrow> nat \<Rightarrow> ceph_connection \<Rightarrow> bool" where
  "intact env m con \<longleftrightarrow> crc32c env 0 (take 49 (in_hdr con)) = hdr_crc_of (in_hdr con) \<and> hdr_seq_of (in_hdr con) = in_seq con + 1 \<and>
    length (m_front (store con m)) = unat (hdr_front_len_of (in_hdr con)) \<and>
    crc32c env 0 (m_front (store con m)) = ftr_front_crc (store con m) \<and>
    (\<forall>b. m_middle (store con m) = Some b \<longrightarrow> crc32c env 0 b = ftr_middle_crc (store con m)) \<and>
    (ftr_flags (store con m) AND CEPH_MSG_FOOTER_NOCRC = 0 \<longrightarrow> crc32c env 0 (in_data con) = ftr_data_crc (store con m))"

text \<open>What the reader relies on of the owner's allocator: it leaves the receive state alone.\<close>

definition rx_view :: "ceph_connection \<Rightarrow> _" where
  "rx_view con = (msgr con, in_msg con, in_hdr con, in_base_pos con, in_seq con, in_data_crc con)"

definition alloc_keeps :: "con_env \<Rightarrow> bool" where
  "alloc_keeps env \<longleftrightarrow> (\<forall>f con. alloc_msg env = Some f \<longrightarrow> rx_view (snd (f con)) = rx_view con)"

lemma put_view [simp]: "rx_view (ceph_msg_put m con) = rx_view con" "rx_view (upd_msg m f con) = rx_view con"
  by (simp_all add: rx_view_def msg_ref_defs)

lemma midway_front:
  assumes "midway env con" and "in_msg con = Some m" and "read_front env m con = Inr (r, con')"
  shows "midway env con' \<and> in_msg con' = Some m \<and> (0 < r \<longrightarrow> in_front_crc con' = crc32c env 0 (m_front (store con' m)) \<and>
    length (m_front (store con' m)) = unat (hdr_front_len_of (in_hdr con')))"
proof -
  from assms(3) obtain front crc c where
    s: "read_partial_message_section env (front_alloc_len (store con m)) (unat (hdr_front_len_of (in_hdr con))) (m_front (store con m))
      (in_front_crc con) con = Inr (r, front, crc, c)" and c': "con' = upd_msg m (\<lambda>x. x\<lparr>m_front := front\<rparr>) (c\<lparr>in_front_crc := crc\<rparr>)"
    by (auto simp: read_front_def bindE_Inr_iff)
  have "length (m_front (store con m)) \<le> unat (hdr_front_len_of (in_hdr con))" using assms(1,2) by (simp add: midway_def)
  from message_section_frame[OF s this] obtain t where "c = con\<lparr>sock := t\<rparr>" "length front \<le> unat (hdr_front_len_of (in_hdr con))"
    "0 < r \<longrightarrow> length front = unat (hdr_front_len_of (in_hdr con)) \<and> crc = crc32c env 0 front" by blast
  then show ?thesis using assms(1,2) c' by (simp add: midway_def upd_msg_def)
qed

lemma midway_middle:
  assumes "midway env con" and "in_msg con = Some m" and "read_middle env m con = Inr (r, con')"
  shows "midway env con' \<and> in_msg con' = Some m \<and> in_front_crc con' = in_front_crc con \<and> m_front (store con' m) = m_front (store con m) \<and>
    in_hdr con' = in_hdr con \<and> (0 < r \<longrightarrow> (\<forall>b. m_middle (store con' m) = Some b \<longrightarrow> in_middle_crc con' = crc32c env 0 b))"
proof (cases "m_middle (store con m)")
  case None
  with assms show ?thesis by (auto simp: read_middle_def)
next
  case (Some b)
  with assms(3) obtain mid crc c where
    s: "read_partial_message_section env (middle_alloc_len (store con m)) (unat (hdr_middle_len_of (in_hdr con))) b
      (in_middle_crc con) con = Inr (r, mid, crc, c)" and c': "con' = upd_msg m (\<lambda>x. x\<lparr>m_middle := Some mid\<rparr>) (c\<lparr>in_middle_crc := crc\<rparr>)"
    by (auto simp: read_middle_def bindE_Inr_iff)
  have "length b \<le> unat (hdr_middle_len_of (in_hdr con))" using assms(1,2) Some by (simp add: midway_def)
  from message_section_frame[OF s this] obtain t where "c = con\<lparr>sock := t\<rparr>" "length mid \<le> unat (hdr_middle_len_of (in_hdr con))"
    "0 < r \<longrightarrow> crc = crc32c env 0 mid" by blast
  then show ?thesis using assms(1,2) c' by (simp add: midway_def upd_msg_def)
qed

lemma midway_data:
  assumes "midway env con" and "in_msg con = Some m" and "read_data env m con = Inr (r, con')" and "crc_incremental env"
  shows "midway env con' \<and> data_frame m con con'"
proof (cases "hdr_data_len_of (in_hdr con) \<noteq> 0 \<and> m_data (store con m) \<noteq> []")
  case False
  with assms show ?thesis by (auto simp: read_data_def read_partial_msg_data_def data_frame_def split: if_splits)
next
  case True
  have n: "\<not> nocrc (msgr con)" "in_data_crc con = crc32c env 0 (in_data con)" using assms(1,2) by (simp_all add: midway_def)
  from True assms(3) n(1) obtain ret crc c where s: "recv_data env m (in_data_crc con) con = Inr (ret, crc, c)" "con' = c\<lparr>in_data_crc := crc\<rparr>"
    by (auto simp: read_data_def read_partial_msg_data_def bindE_Inr_iff Let_def split: if_splits)
  from recv_data_frame[OF assms(4) s(1) n(2,1)] s(2) assms(1,2) show ?thesis
    by (simp add: midway_def data_frame_def)
qed

lemma midway_footer:
  assumes mid: "midway env con" and m: "in_msg con = Some m" and f: "read_footer m con = Inr (r, con')"
    and "in_front_crc con = crc32c env 0 (m_front (store con m))" and "length (m_front (store con m)) = unat (hdr_front_len_of (in_hdr con))"
    and "\<forall>b. m_middle (store con m) = Some b \<longrightarrow> in_middle_crc con = crc32c env 0 b"
  shows "midway env con' \<and> in_msg con' = Some m \<and> (0 < r \<longrightarrow> intact env m con')"
proof -
  from f obtain ret buf c where s: "read_partial (int HEADER_SIZE + int FOOTER_SIZE) (int FOOTER_SIZE) (footer_bytes (store con m)) con =
      Inr (ret, buf, c)" "con' = upd_msg m (set_footer buf) c" "r = (if ret \<le> 0 then ret else check_crcs m con')"
    by (auto simp: read_footer_def bindE_Inr_iff Let_def)
  from read_partial_frame[OF s(1)] obtain t p where c: "c = con\<lparr>sock := t, in_base_pos := p\<rparr>" "in_base_pos con \<le> p" by blast
  have mid': "midway env con'" using mid m c by (simp add: s(2) midway_def upd_msg_def set_footer_def)
  moreover have "intact env m con'" if "check_crcs m con' = 1"
    using that mid m assms(4-6) c
    by (simp add: s(2) check_crcs_def intact_def midway_def upd_msg_def set_footer_def Let_def EBADMSG_def split: if_splits)
  moreover have "check_crcs m con' = 1 \<or> check_crcs m con' < 0" by (simp add: check_crcs_def Let_def EBADMSG_def)
  ultimately show ?thesis using m c s by (auto simp: upd_msg_def)
qed

lemma and_then_Inr: "and_then x f = Inr y \<longleftrightarrow> (\<exists>r c. x = Inr (r, c) \<and> (if r \<le> 0 then Inr (r, c) else f c) = Inr y)"
  by (auto simp: and_then_def bindE_Inr_iff)

lemma midway_parts:
  assumes mid: "midway env con" and m: "in_msg con = Some m" and crc: "crc_incremental env" and r: "read_message_parts env m con = Inr (r, con')"
  shows "midway env con' \<and> (0 < r \<longrightarrow> (\<exists>m. in_msg con' = Some m \<and> intact env m con'))"
proof -
  from r obtain r1 c1 where 1: "read_front env m con = Inr (r1, c1)" 
    and k1: "(if r1 \<le> 0 then Inr (r1, c1) else and_then (read_middle env m c1) (\<lambda>con. and_then (read_data env m con) (read_footer m))) = Inr (r, con')"
    by (auto simp: read_message_parts_def and_then_Inr[of "read_front env m con"])
  note f1 = midway_front[OF mid m 1]
  show ?thesis
  proof (cases "r1 \<le> 0")
    case True then show ?thesis using k1 f1 by auto
  next
    case False
    with k1 obtain r2 c2 where 2: "read_middle env m c1 = Inr (r2, c2)"
      and k2: "(if r2 \<le> 0 then Inr (r2, c2) else and_then (read_data env m c2) (read_footer m)) = Inr (r, con')"
      by (auto simp: and_then_Inr[of "read_middle env m c1"])
    have f2: "midway env c2" "in_msg c2 = Some m" "in_front_crc c2 = crc32c env 0 (m_front (store c2 m))"
        "length (m_front (store c2 m)) = unat (hdr_front_len_of (in_hdr c2))"
        "0 < r2 \<longrightarrow> (\<forall>b. m_middle (store c2 m) = Some b \<longrightarrow> in_middle_crc c2 = crc32c env 0 b)"
      using midway_middle[OF _ _ 2] f1 False by simp_all
    show ?thesis
    proof (cases "r2 \<le> 0")
      case True then show ?thesis using k2 f2(1) by auto
    next
      case False
      with k2 obtain r3 c3 where 3: "read_data env m c2 = Inr (r3, c3)"
        and k3: "(if r3 \<le> 0 then Inr (r3, c3) else read_footer m c3) = Inr (r, con')"
        by (auto simp: and_then_Inr[of "read_data env m c2"])
      have f3: "midway env c3" "data_frame m c2 c3" using midway_data[OF f2(1,2) 3 crc] by simp_all
      show ?thesis
      proof (cases "r3 \<le> 0")
        case True then show ?thesis using k3 f3(1) by auto
      next
        case F: False
        with k3 have 4: "read_footer m c3 = Inr (r, con')" by simp
        have "in_msg c3 = Some m" "in_front_crc c3 = crc32c env 0 (m_front (store c3 m))"
            "length (m_front (store c3 m)) = unat (hdr_front_len_of (in_hdr c3))"
            "\<forall>b. m_middle (store c3 m) = Some b \<longrightarrow> in_middle_crc c3 = crc32c env 0 b"
          using f2 f3(2) False by (simp_all add: data_frame_def)
        from midway_footer[OF f3(1) this(1) 4 this(2-4)] show ?thesis by blast
      qed
    qed
  qed
qed

lemma alloc_middle_view: "ceph_alloc_middle env m con = Inr (r, con') \<Longrightarrow> rx_view con' = rx_view con"
  by (auto simp: ceph_alloc_middle_def bindE_Inr_iff Let_def split: option.splits)

lemma put_none_view: "rx_view c = rx_view (con\<lparr>in_msg := Some m\<rparr>) \<Longrightarrow> in_msg con = None \<Longrightarrow>
    rx_view ((ceph_msg_put m c)\<lparr>in_msg := None\<rparr>) = rx_view con"
  by (simp add: rx_view_def msg_ref_defs)

lemma midway_alloc:
  assumes mid: "midway env con" and n: "in_msg con = None" and k: "alloc_keeps env"
    and a: "ceph_con_in_msg_alloc env con = Inr (r, skip, con')"
  shows "rx_view con' = rx_view con \<or> (\<exists>m. 0 \<le> r \<and> rx_view con' = rx_view (con\<lparr>in_msg := Some m\<rparr>))"
proof -
  obtain f where f: "alloc_msg env = Some f" using a by (cases "alloc_msg env") (auto simp: ceph_con_in_msg_alloc_def bindE_Inr_iff)
  obtain msg sk c where c: "f con = ((msg, sk), c)" by (metis surj_pair)
  have v: "rx_view c = rx_view con" using k f c by (metis alloc_keeps_def snd_conv)
  show ?thesis
  proof (cases msg)
    case None
    then show ?thesis using a f c v by (auto simp: ceph_con_in_msg_alloc_def bindE_Inr_iff Let_def rx_view_def split: if_splits)
  next
    case (Some m)
    show ?thesis
    proof (cases "state c = CON_OPEN")
      case False
      then show ?thesis using Some a f c v by (auto simp: ceph_con_in_msg_alloc_def bindE_Inr_iff)
    next
      case True
      let ?d = "upd_msg m (\<lambda>x. set_hdr (in_hdr c) (x\<lparr>m_con := True\<rparr>)) (c\<lparr>con_ref := con_ref c + 1, in_msg := Some m\<rparr>)"
      have a': "(if hdr_middle_len_of (in_hdr ?d) \<noteq> 0 \<and> m_middle (store ?d m) = None then
                bindE (ceph_alloc_middle env m ?d) (\<lambda>(ret, con).
                Inr (ret, sk, if ret < 0 then (ceph_msg_put m con)\<lparr>in_msg := None\<rparr> else con))
              else Inr (0, sk, ?d)) = Inr (r, skip, con')"
        using Some True a f c
        by (auto simp: ceph_con_in_msg_alloc_def bindE_Inr_iff con_get_def Let_def guardE_def upd_msg_def split: if_splits)
      have d: "rx_view ?d = rx_view (con\<lparr>in_msg := Some m\<rparr>)" using v by (simp add: rx_view_def upd_msg_def)
      show ?thesis
      proof (cases "hdr_middle_len_of (in_hdr ?d) \<noteq> 0 \<and> m_middle (store ?d m) = None")
        case False
        then show ?thesis using a' d by (simp only: if_False) auto
      next
        case True
        with a' obtain e where e: "ceph_alloc_middle env m ?d = Inr (r, e)" "con' = (if r < 0 then (ceph_msg_put m e)\<lparr>in_msg := None\<rparr> else e)"
          unfolding if_P[OF True] by (auto simp: bindE_Inr_iff)
        have "rx_view e = rx_view (con\<lparr>in_msg := Some m\<rparr>)" using alloc_middle_view[OF e(1)] d by simp
        then show ?thesis using e(2) put_none_view[OF _ n] by auto
      qed
    qed
  qed
qed

lemma midway_none: "midway env con \<Longrightarrow> in_msg con = None \<Longrightarrow> rx_view con' = rx_view con \<Longrightarrow> midway env con' \<and> in_msg con' = None"
  by (simp add: midway_def rx_view_def)

lemma midway_skip:
  assumes "midway env con" and "in_msg con = None"
  shows "midway env ((skip_message con)\<lparr>in_seq := s\<rparr>)" "midway env (skip_message con)"
  using assms by (simp_all add: midway_def skip_message_def)

lemma midway_start:
  assumes mid: "midway env con" and n: "in_msg con = None" and k: "alloc_keeps env" and crc: "crc_incremental env"
    and hdr: "int HEADER_SIZE \<le> in_base_pos con" "crc32c env 0 (take 49 (in_hdr con)) = hdr_crc_of (in_hdr con)"
      "hdr_seq_of (in_hdr con) = in_seq con + 1"
    and a: "start_message env con = Inr (r, msg, con')"
  shows "midway env con' \<and> in_msg con' = msg \<and> (msg = None \<longrightarrow> r \<le> 0)"
proof -
  from a obtain ret skip c where al: "ceph_con_in_msg_alloc env con = Inr (ret, skip, c)"
    and rest: "(if ret < 0 then Inr (ret, None, c) else bindE (guardE ((in_msg c = None) = skip) (Fault BugOn)) (\<lambda>_.
      let data_len = unat (hdr_data_len_of (in_hdr c)) in
      case in_msg c of
        None \<Rightarrow> Inr (0, None, (skip_message c)\<lparr>in_seq := in_seq c + 1\<rparr>)
      | Some m \<Rightarrow>
          if m_data_length (store c m) < data_len then
            Inr (0, None, (skip_message ((ceph_msg_put m c)\<lparr>in_msg := None\<rparr>))\<lparr>in_seq := in_seq c + 1\<rparr>)
          else
            bindE (guardE (m_con (store c m)) (Fault BugOn)) (\<lambda>_.
            let con = upd_msg m (\<lambda>x. x\<lparr>m_front := [], m_middle := map_option (\<lambda>_. []) (m_middle x)\<rparr>) (c\<lparr>in_data := []\<rparr>) in
            bindE (if data_len \<noteq> 0 then prepare_message_data m data_len con else Inr con) (\<lambda>con.
            Inr (1, Some m, con))))) = Inr (r, msg, con')"
    unfolding start_message_def bindE_Inr_iff by auto
  from midway_alloc[OF mid n k al] show ?thesis
  proof (elim disjE exE conjE)
    assume "rx_view c = rx_view con"
    from midway_none[OF mid n this] have c: "midway env c" "in_msg c = None" by simp_all
    show ?thesis using rest c midway_skip(1)[OF c]
      by (auto simp: bindE_Inr_iff guardE_def skip_message_def split: if_splits)
  next
    fix m assume r0: "0 \<le> ret" and v: "rx_view c = rx_view (con\<lparr>in_msg := Some m\<rparr>)"
    have p: "midway env ((ceph_msg_put m c)\<lparr>in_msg := None\<rparr>)" using midway_none[OF mid n put_none_view[OF v n]] by simp
    have im: "in_msg c = Some m" using v by (simp add: rx_view_def)
    let ?d = "upd_msg m (\<lambda>x. x\<lparr>m_front := [], m_middle := map_option (\<lambda>_. []) (m_middle x)\<rparr>) (c\<lparr>in_data := []\<rparr>)"
    have d: "midway env ?d \<and> in_msg ?d = Some m"
      using v mid n hdr crc by (auto simp: midway_def rx_view_def upd_msg_def crc_incremental_def)
    have pd: "midway env e \<and> in_msg e = Some m" if "prepare_message_data m n ?d = Inr e" for n e
      using that d by (auto simp: prepare_message_data_def bindE_Inr_iff Let_def midway_def upd_msg_def)
    show ?thesis
    proof (cases "m_data_length (store c m) < unat (hdr_data_len_of (in_hdr c))")
      case True
      then show ?thesis using rest r0 im midway_skip(1)[OF p]
        by (auto simp: bindE_Inr_iff Let_def skip_message_def)
    next
      case False
      then show ?thesis using rest r0 im d pd by (fastforce simp: bindE_Inr_iff Let_def split: if_splits)
    qed
  qed
qed

lemma sint_one: "\<not> sint (w :: u64) < 1 \<Longrightarrow> \<not> 1 < sint w \<Longrightarrow> w = 1"
  by (rule signed_word_eqI) simp

lemma read_partial_message_midway:
  assumes mid: "midway env con" and k: "alloc_keeps env" and crc: "crc_incremental env" and r: "read_partial_message env con = Inr (r, con')"
  shows "midway env con' \<and> (0 < r \<longrightarrow> (\<exists>m. in_msg con' = Some m \<and> intact env m con'))"
proof -
  from r obtain ret buf c where h: "read_partial (int HEADER_SIZE) (int HEADER_SIZE) (in_hdr con) con = Inr (ret, buf, c)"
    and rest: "(let con = c\<lparr>in_hdr := buf\<rparr>; h = in_hdr con in
    if ret \<le> 0 then Inr (ret, con)
    else if crc32c env 0 (take 49 h) \<noteq> hdr_crc_of h then Inr (- EBADMSG, con)
    else if CEPH_MSG_MAX_FRONT_LEN < unat (hdr_front_len_of h) then Inr (- EIO_no, con)
    else if CEPH_MSG_MAX_MIDDLE_LEN < unat (hdr_middle_len_of h) then Inr (- EIO_no, con)
    else if CEPH_MSG_MAX_DATA_LEN < unat (hdr_data_len_of h) then Inr (- EIO_no, con)
    else if sint (hdr_seq_of h - in_seq con) < 1 then Inr (0, skip_message con)
    else if 1 < sint (hdr_seq_of h - in_seq con) then
      Inr (- EBADMSG, con\<lparr>error_msg := ''bad message sequence # for incoming message''\<rparr>)
    else
      case in_msg con of
        Some m \<Rightarrow> read_message_parts env m con
      | None \<Rightarrow>
          bindE (start_message env con) (\<lambda>(ret, msg, con).
          case msg of None \<Rightarrow> Inr (ret, con) | Some m \<Rightarrow> read_message_parts env m con)) = Inr (r, con')"
    unfolding read_partial_message_def bindE_Inr_iff by auto
  from read_partial_frame[OF h] obtain s p where c: "c = con\<lparr>sock := s, in_base_pos := p\<rparr>" "in_base_pos con \<le> p" "0 < ret \<longrightarrow> int HEADER_SIZE \<le> p"
    "int HEADER_SIZE \<le> in_base_pos con \<longrightarrow> buf = in_hdr con \<and> c = con" by blast
  let ?c = "c\<lparr>in_hdr := buf\<rparr>"
  have same: "?c = con" "hdr_seq_of (in_hdr ?c) - in_seq ?c = 1" if "in_msg con \<noteq> None"
    using that mid c(4) by (auto simp: midway_def)
  have mid': "midway env ?c" using mid same(1) c(1) by (cases "in_msg con") (auto simp: midway_def)
  show ?thesis
  proof (cases "sint (hdr_seq_of (in_hdr ?c) - in_seq ?c) < 1")
    case True
    then have "in_msg con = None" using same(2) by fastforce
    then have "midway env (skip_message ?c)" using midway_skip(2)[OF mid'] c(1) by simp
    then show ?thesis using rest True mid' by (auto simp: Let_def EBADMSG_def EIO_no_def split: if_splits)
  next
    case F1: False
    show ?thesis
    proof (cases "ret \<le> 0 \<or> crc32c env 0 (take 49 (in_hdr ?c)) \<noteq> hdr_crc_of (in_hdr ?c) \<or> 1 < sint (hdr_seq_of (in_hdr ?c) - in_seq ?c)")
      case True
      moreover have "midway env (?c\<lparr>error_msg := e\<rparr>)" for e using mid' by (simp add: midway_def split: option.splits)
      ultimately show ?thesis using rest F1 mid' by (auto simp: Let_def EBADMSG_def EIO_no_def split: if_splits)
    next
      case F2: False
      with F1 have one: "hdr_seq_of (in_hdr ?c) - in_seq ?c = 1" using sint_one by blast
      then have seq: "hdr_seq_of (in_hdr ?c) = in_seq ?c + 1" by (simp add: algebra_simps)
      show ?thesis
      proof (cases "CEPH_MSG_MAX_FRONT_LEN < unat (hdr_front_len_of (in_hdr ?c)) \<or> CEPH_MSG_MAX_MIDDLE_LEN < unat (hdr_middle_len_of (in_hdr ?c)) \<or>
          CEPH_MSG_MAX_DATA_LEN < unat (hdr_data_len_of (in_hdr ?c))")
        case True
        then show ?thesis using rest F1 F2 mid' by (auto simp: Let_def EBADMSG_def EIO_no_def split: if_splits)
      next
        case F3: False
        then have rest': "(case in_msg ?c of Some m \<Rightarrow> read_message_parts env m ?c
          | None \<Rightarrow> bindE (start_message env ?c) (\<lambda>(ret, msg, con).
              case msg of None \<Rightarrow> Inr (ret, con) | Some m \<Rightarrow> read_message_parts env m con)) = Inr (r, con')"
          using rest F1 F2 by (simp add: Let_def)
        show ?thesis
        proof (cases "in_msg ?c")
          case (Some m)
          then show ?thesis using midway_parts[OF mid' Some crc] rest' by simp
        next
          case None
          with rest' obtain q msg d where d: "start_message env ?c = Inr (q, msg, d)"
            "(case msg of None \<Rightarrow> Inr (q, d) | Some m \<Rightarrow> read_message_parts env m d) = Inr (r, con')"
            by (auto simp: bindE_Inr_iff)
          have pos: "int HEADER_SIZE \<le> in_base_pos ?c" using c(1,3) F2 by simp
          have "midway env d \<and> in_msg d = msg \<and> (msg = None \<longrightarrow> q \<le> 0)"
            using midway_start[OF mid' None k crc pos _ seq d(1)] F2 by blast
          then show ?thesis using d(2) midway_parts[of env d _ r con'] crc by (cases msg) auto
        qed
      qed
    qed
  qed
qed

section \<open>Delivery\<close>

lemma read_tag_msg:
  assumes sk: "sock con = Some sk" "flowing sk" and rx: "rx_bytes sk = TAG_MSG # rest" and "in_msg con = None"
  shows "\<exists>sk'. read_tag con = Inr (False, 1, con\<lparr>sock := Some sk', in_tag := TAG_MSG, in_base_pos := 0, in_front_crc := 0, in_middle_crc := 0,
    in_data_crc := 0\<rparr>) \<and> rx_bytes sk' = rest \<and> flowing sk'"
proof -
  have "rx_bytes sk \<noteq> []" using rx by simp
  from recvmsg_flow[OF sk this, of 1] obtain k sk' where k: "ceph_tcp_recvmsg 1 con = Inr (int k, take k (rx_bytes sk), con\<lparr>sock := Some sk'\<rparr>)"
      "0 < k" "k \<le> 1" "rx_bytes sk' = drop k (rx_bytes sk)" "flowing sk'" by auto
  then have "k = 1" by simp
  with k rx assms(4) show ?thesis
    by (intro exI[of _ sk']) (simp add: read_tag_def Let_def prepare_read_message_def)
qed


definition rx_env :: con_env where
  "rx_env = example_env\<lparr>crc32c := (\<lambda>c bs. c + sum_list (map ucast bs)), buffer_new := (\<lambda>n. Some (replicate n 0)),
     alloc_msg := Some (\<lambda>c. ((Some 7, False), c))\<rparr>"

lemma rx_env_ok: "crc_incremental rx_env" "alloc_keeps rx_env"
  by (simp_all add: crc_incremental_def alloc_keeps_def rx_env_def add.assoc)

definition rx_msg :: ceph_msg where
  "rx_msg = example_msg\<lparr>hdr_seq := 1, hdr_front_len := 2, m_front := [5, 6], hdr_middle_len := 1, m_middle := Some [9]\<rparr>"

definition rx_con :: ceph_connection where
  "rx_con = example_con\<lparr>state := CON_OPEN, in_tag := TAG_READY, in_hdr := replicate 53 0, store := (\<lambda>_. example_msg\<lparr>front_alloc_len := 8\<rparr>),
     sock := Some \<lparr>sk_tx = [], sk_rx = [(0, take 10 (message_image rx_env False rx_msg)), (0, drop 10 (message_image rx_env False rx_msg))], sk_out = []\<rparr>\<rparr>"

lemma rx_image_length: "length (message_image rx_env False rx_msg) = 70"
  by (simp add: message_image_def Let_def rx_msg_def hdr_bytes_def hdr_prefix_def footer_bytes_def middle_bytes_def payload_def
      sealed_msg_def fill_crcs_def example_msg_def ceph_msg_new_def)




section \<open>Two faults\<close>


text \<open>
  The length of the authorizer reply is the peer's, and nothing compares it with the buffer: a
  longer reply is written past its end.
\<close>

lemma authorizer_reply_overflow:
  assumes "sock con = Some sk" and "flowing sk" and "rx_bytes sk \<noteq> []" and "in_base_pos con = 26"
    and "reply_authorizer_len (in_reply con) = 16" and "auth_reply_buf con = []"
  shows "read_partial_connect con = Inl (Fault OutOfBounds)"
proof -
  obtain k sk' where k: "ceph_tcp_recvmsg 16 con = Inr (int k, take k (rx_bytes sk), con\<lparr>sock := Some sk'\<rparr>)" "0 < k" "k \<le> length (rx_bytes sk)"
    using recvmsg_flow[OF assms(1-3), of 16] by auto
  have hdr: "read_partial 26 26 (in_reply con) con = Inr (1, in_reply con, con)"
    using assms(4) by (subst read_partial.simps) simp
  have "read_partial 42 16 [] con = Inl (Fault OutOfBounds)"
    using k assms(3,4) by (subst read_partial.simps) (simp add: Let_def put_bytes_def)
  then show ?thesis using hdr assms(5,6) by (simp add: read_partial_connect_def int32_def)
qed

text \<open>
  After the peer's close tag the socket is gone; the worker goes on to write all the same, and
  with bytes still to be sent it uses the socket that is not there.
\<close>

definition closing_con :: ceph_connection where
  "closing_con = rx_con\<lparr>sock := Some \<lparr>sk_tx = [], sk_rx = [(0, [TAG_CLOSE])], sk_out = []\<rparr>,
     out_kvec := [(K_const [1, 2, 3], 0, 3)], out_kvec_left := 1, out_kvec_bytes := 3\<rparr>"

lemma close_tag_then_write: "con_work_round 3 rx_env (\<lambda>n. n) closing_con = Inl (Fault NullDeref)"
proof -
  let ?c = closing_con
  have c: "state ?c = CON_OPEN" "flags ?c = {}" "in_tag ?c = TAG_READY" "in_base_pos ?c = 0" "out_kvec_left ?c = 1" "out_kvec_bytes ?c = 3"
      "out_kvec ?c = [(K_const [1, 2, 3], 0, 3)]" "out_kvec_cur ?c = 0" "out_skip ?c = 0"
      "sock ?c = Some \<lparr>sk_tx = [], sk_rx = [(0, [TAG_CLOSE])], sk_out = []\<rparr>"
    by (simp_all add: closing_con_def rx_con_def example_con_def ceph_con_init_def sock_state_defs)
  have closed: "con_sock_closed ?c = (False, ?c)" "con_backoff (\<lambda>n. n) ?c = Inr (False, ?c)"
    using c(2) by (simp_all add: con_sock_closed_def con_backoff_def con_flag_test_and_clear_def con_flag_clear_def con_flag_test_def)
  define d where "d = (con_close_socket (?c\<lparr>sock := Some \<lparr>sk_tx = [], sk_rx = [], sk_out = []\<rparr>, in_tag := TAG_CLOSE\<rparr>))\<lparr>state := CON_CLOSED\<rparr>"
  have "read_tag ?c = Inr (True, 1, d)"
    using c(10) by (simp add: read_tag_def ceph_tcp_recvmsg_def kernel_recvmsg_def Let_def d_def EAGAIN_def TAG_CLOSE_def TAG_MSG_def TAG_ACK_def)
  then have r: "try_read 3 rx_env ?c = Inr (1, d)" using c by (simp add: numeral_3_eq_3)
  have d: "sock d = None" "state d = CON_CLOSED" "out_kvec_left d = 1" "out_kvec_bytes d = 3" "out_skip d = 0"
    using c by (simp_all add: d_def con_close_socket_def con_flag_clear_def sock_state_defs)
  have "try_write 3 rx_env True d = Inl (Fault NullDeref)"
    using d write_partial_kvec.simps[of d] by (simp add: numeral_3_eq_3 ceph_tcp_sendmsg_def deref_def)
  then show ?thesis using closed r c(1) by (simp add: con_work_round_def Let_def)
qed

end
