(* ===== verification/Xattr.thy ===== *)
theory Xattr
  imports Osdmap Striping "HOL-Library.List_Lexorder"
begin

text \<open>
  Extended attributes of an inode (\<open>fs/ceph/xattr.c\<close>) and the buffers they are kept in
  (\<open>net/ceph/buffer.c\<close>): the blob as it comes from the metadata server, the search tree that is
  built from it on demand, setting, getting, listing and removing attributes, and the encoding of
  the tree into a new blob. The functions run under the lock of the inode and are one step each;
  the metadata server, the issued capabilities and the allocator are parameters.
\<close>

section \<open>Buffers\<close>

text \<open>The memory of a buffer has \<open>alloc_len\<close> bytes, of which \<open>iov_len\<close> are in use.\<close>

record ceph_buffer =
  iov_base :: "u8 list"
  iov_len :: nat

definition alloc_len :: "ceph_buffer \<Rightarrow> nat" where
  "alloc_len b = length (iov_base b)"

definition ceph_buffer_new :: "(nat \<Rightarrow> bool) \<Rightarrow> nat \<Rightarrow> ceph_buffer option" where
  "ceph_buffer_new alloc len =
    (if alloc 32 \<and> alloc len then Some \<lparr>iov_base = replicate len 0, iov_len = len\<rparr> else None)"

definition ceph_decode_buffer :: "(nat \<Rightarrow> bool) \<Rightarrow> u8 list \<Rightarrow> int \<Rightarrow> ceph_buffer dec" where
  "ceph_decode_buffer alloc buf en =
    bindD (ceph_decode_need en 4 (Err EINVAL)) (\<lambda>_.
    bindD (ceph_decode_32 buf) (\<lambda>len.
    bindD (ceph_decode_need en (unat len) (Err EINVAL)) (\<lambda>_.
    case ceph_buffer_new alloc (unat len) of
      None \<Rightarrow> failD (Err ENOMEM)
    | Some b \<Rightarrow> bindD (ceph_decode_copy buf (unat len)) (\<lambda>bs. retD (b\<lparr>iov_base := bs\<rparr>)))))"

section \<open>Attributes\<close>

definition ENODATA :: int where "ENODATA = 61"
definition EEXIST_no :: int where "EEXIST_no = 17"
definition ENOMEM_xn :: int where "ENOMEM_xn = 12"
definition EIO_xn :: int where "EIO_xn = 5"
definition ERANGE_no :: int where "ERANGE_no = 34"
definition EROFS :: int where "EROFS = 30"
definition EOPNOTSUPP :: int where "EOPNOTSUPP = 95"

definition XATTR_CREATE :: nat where "XATTR_CREATE = 1"
definition XATTR_REPLACE :: nat where "XATTR_REPLACE = 2"

text \<open>
  Names and values are given by the bytes that are there: \<open>val_len\<close> says how many bytes of the
  value are used, and can be more than the bytes behind the pointer.
\<close>

record ceph_inode_xattr =
  xname :: "u8 list"
  xval :: "u8 list"
  val_len :: int
  xdirty :: int
  should_free_name :: bool
  should_free_val :: bool

record ceph_inode_xattrs_info =
  blob :: "ceph_buffer option"
  prealloc_blob :: "ceph_buffer option"
  index :: "ceph_inode_xattr tree"
  x_dirty :: bool
  xcount :: int
  names_size :: int
  vals_size :: int
  version :: u64
  index_version :: u64

text \<open>The functions of the kernel's red-black trees.\<close>

record xrb_ops =
  x_color :: "ceph_inode_xattr tree \<Rightarrow> ceph_inode_xattr tree"
  x_erase :: "ceph_inode_xattr \<Rightarrow> ceph_inode_xattr tree \<Rightarrow> ceph_inode_xattr tree"

text \<open>\<open>strncmp\<close>: the end of a list is the zero byte that ends a C string.\<close>

definition char_at :: "u8 list \<Rightarrow> u8" where
  "char_at s = (case s of [] \<Rightarrow> 0 | c # cs \<Rightarrow> c)"

fun strncmp :: "u8 list \<Rightarrow> u8 list \<Rightarrow> nat \<Rightarrow> int" where
  "strncmp a b 0 = 0"
| "strncmp a b (Suc n) =
    (if char_at a \<noteq> char_at b then uint (char_at a) - uint (char_at b)
     else if char_at a = 0 then 0
     else strncmp (tl a) (tl b) n)"

text \<open>The descent of \<open>__set_xattr\<close>: names are compared up to the shorter length, then by length.\<close>

definition set_cmp :: "u8 list \<Rightarrow> ceph_inode_xattr \<Rightarrow> int" where
  "set_cmp name x =
    (let c = strncmp name (xname x) (min (length name) (length (xname x))) in
     if c \<noteq> 0 then c else int (length name) - int (length (xname x)))"

fun find_xattr :: "u8 list \<Rightarrow> ceph_inode_xattr tree \<Rightarrow> ceph_inode_xattr option" where
  "find_xattr name Leaf = None"
| "find_xattr name (Node l x r) =
    (if set_cmp name x < 0 then find_xattr name l
     else if 0 < set_cmp name x then find_xattr name r
     else Some x)"

fun link_xattr :: "ceph_inode_xattr \<Rightarrow> ceph_inode_xattr tree \<Rightarrow> ceph_inode_xattr tree" where
  "link_xattr new Leaf = Node Leaf new Leaf"
| "link_xattr new (Node l x r) =
    (if set_cmp (xname new) x < 0 then Node (link_xattr new l) x r
     else if 0 < set_cmp (xname new) x then Node l x (link_xattr new r)
     else Node l x r)"

text \<open>Writing the fields of the node the descent found.\<close>

fun update_node :: "u8 list \<Rightarrow> (ceph_inode_xattr \<Rightarrow> ceph_inode_xattr) \<Rightarrow> ceph_inode_xattr tree \<Rightarrow> ceph_inode_xattr tree" where
  "update_node name f Leaf = Leaf"
| "update_node name f (Node l x r) =
    (if set_cmp name x < 0 then Node (update_node name f l) x r
     else if 0 < set_cmp name x then Node l x (update_node name f r)
     else Node l (f x) r)"

definition remove_xattr :: "xrb_ops \<Rightarrow> ceph_inode_xattr option \<Rightarrow> ceph_inode_xattrs_info \<Rightarrow> int \<times> ceph_inode_xattrs_info" where
  "remove_xattr rb xattr ci =
    (case xattr of
       None \<Rightarrow> (- ENODATA, ci)
     | Some x \<Rightarrow>
         (0, ci\<lparr>index := x_erase rb x (index ci), names_size := names_size ci - int (length (xname x)),
              vals_size := vals_size ci - val_len x, xcount := xcount ci - 1\<rparr>))"

text \<open>
  \<open>update_xattr\<close> is 0 when the tree is built from the blob, 1 for a new value and -1 for a removal.
  \<open>val\<close> is \<open>None\<close> for a null pointer.
\<close>

definition set_xattr ::
  "xrb_ops \<Rightarrow> u8 list \<Rightarrow> u8 list option \<Rightarrow> int \<Rightarrow> nat \<Rightarrow> int \<Rightarrow> ceph_inode_xattrs_info \<Rightarrow> int \<times> ceph_inode_xattrs_info" where
  "set_xattr rb name val vlen flags update_xattr ci =
    (let xattr = find_xattr name (index ci);
         err = (if update_xattr = 0 then 0
                else if xattr \<noteq> None \<and> flags AND XATTR_CREATE \<noteq> 0 then - EEXIST_no
                else if xattr = None \<and> flags AND XATTR_REPLACE \<noteq> 0 then - ENODATA
                else 0);
         value_bytes = (case val of Some v \<Rightarrow> v | None \<Rightarrow> []);
         frees = (val \<noteq> None \<and> update_xattr \<noteq> 0) in
     if err \<noteq> 0 then (err, ci)
     else if update_xattr < 0 then
       (0, case xattr of Some x \<Rightarrow> snd (remove_xattr rb (Some x) ci) | None \<Rightarrow> ci)
     else
       case xattr of
         None \<Rightarrow>
           let x = \<lparr>xname = name, xval = value_bytes, val_len = vlen, xdirty = update_xattr, should_free_name = (update_xattr \<noteq> 0),
                    should_free_val = frees\<rparr> in
           (0, ci\<lparr>xcount := xcount ci + 1, names_size := names_size ci + int (length name), vals_size := vals_size ci + vlen,
                index := x_color rb (link_xattr x (index ci))\<rparr>)
       | Some x \<Rightarrow>
           (0, ci\<lparr>names_size := names_size ci - int (length (xname x)) + int (length name),
                vals_size := vals_size ci - val_len x + vlen,
                index := update_node name (\<lambda>x. x\<lparr>xval := value_bytes, val_len := vlen, xdirty := update_xattr, should_free_val := frees\<rparr>) (index ci)\<rparr>))"

text \<open>The descent of \<open>__get_xattr\<close> for a C string.\<close>

definition get_cmp :: "u8 list \<Rightarrow> ceph_inode_xattr \<Rightarrow> int" where
  "get_cmp name x =
    (let c = strncmp name (xname x) (length (xname x)) in
     if c = 0 \<and> length (xname x) < length name then 1 else c)"

fun get_node :: "u8 list \<Rightarrow> ceph_inode_xattr tree \<Rightarrow> ceph_inode_xattr option" where
  "get_node name Leaf = None"
| "get_node name (Node l x r) =
    (if get_cmp name x < 0 then get_node name l
     else if 0 < get_cmp name x then get_node name r
     else Some x)"

definition get_xattr :: "ceph_inode_xattrs_info \<Rightarrow> u8 list \<Rightarrow> ceph_inode_xattr option" where
  "get_xattr ci name = get_node name (index ci)"

definition remove_xattr_by_name :: "xrb_ops \<Rightarrow> u8 list \<Rightarrow> ceph_inode_xattrs_info \<Rightarrow> int \<times> ceph_inode_xattrs_info" where
  "remove_xattr_by_name rb name ci = remove_xattr rb (get_xattr ci name) ci"

definition copy_xattr_name :: "ceph_inode_xattr \<Rightarrow> u8 list \<times> int \<Rightarrow> (u8 list \<times> int) res" where
  "copy_xattr_name x = (\<lambda>(dest, p). bindE (put_bytes dest p (xname x @ [0])) (\<lambda>dest. Inr (dest, p + int (length (xname x)) + 1)))"

definition copy_xattr_names :: "ceph_inode_xattrs_info \<Rightarrow> u8 list \<Rightarrow> (u8 list \<times> int) res" where
  "copy_xattr_names ci dest = foldE copy_xattr_name (inorder (index ci)) (dest, 0)"

definition destroy_xattrs :: "ceph_inode_xattrs_info \<Rightarrow> ceph_inode_xattrs_info" where
  "destroy_xattrs ci = ci\<lparr>names_size := 0, vals_size := 0, index_version := 0, xcount := 0, index := Leaf\<rparr>"

section \<open>Building the tree from the blob\<close>

text \<open>
  The loop over the attributes of the blob: \<open>n\<close> are left, \<open>err\<close> is what the label \<open>bad\<close> would
  return. The first component of the result says that it was taken.
\<close>

fun build_loop :: "xrb_ops \<Rightarrow> u8 list \<Rightarrow> int \<Rightarrow> nat \<Rightarrow> int \<Rightarrow> int \<Rightarrow> ceph_inode_xattrs_info \<Rightarrow> (bool \<times> int \<times> ceph_inode_xattrs_info) res" where
  "build_loop rb buf en 0 p err ci = Inr (False, err, ci)"
| "build_loop rb buf en (Suc n) p err ci =
    (if \<not> ceph_has_room p en 4 then Inr (True, err, ci)
     else
       bindE (ceph_decode_32 buf p) (\<lambda>(namelen, p).
       let name = take (unat namelen) (drop (nat p) buf); p = p + uint namelen in
       if \<not> ceph_has_room p en 4 then Inr (True, err, ci)
       else
         bindE (ceph_decode_32 buf p) (\<lambda>(len, p).
         let val = take (unat len) (drop (nat p) buf);
             (err, ci) = set_xattr rb name (Some val) (sint len) 0 0 ci in
         if err < 0 then Inr (True, err, ci)
         else build_loop rb buf en n (p + uint len) err ci)))"

definition build_xattrs :: "xrb_ops \<Rightarrow> (nat \<Rightarrow> bool) \<Rightarrow> ceph_inode_xattrs_info \<Rightarrow> (int \<times> ceph_inode_xattrs_info) res" where
  "build_xattrs rb alloc ci =
    (if version ci \<le> index_version ci then Inr (0, ci)
     else
       let ci = destroy_xattrs ci;
           built = (\<lambda>err ci. Inr (err, ci\<lparr>index_version := version ci, x_dirty := False\<rparr>));
           bad = (\<lambda>err ci. Inr (err, ci\<lparr>names_size := 0\<rparr>)) in
       case blob ci of
         None \<Rightarrow> built 0 ci
       | Some b \<Rightarrow>
           if iov_len b \<le> 4 then built 0 ci
           else
             let buf = take (iov_len b) (iov_base b); en = int (iov_len b) in
             if \<not> ceph_has_room 0 en 4 then bad 0 ci
             else
               bindE (ceph_decode_32 buf 0) (\<lambda>(numattr, p).
               if \<not> (alloc (unat numattr * 8) \<and> (numattr = 0 \<or> alloc 64)) then bad (- ENOMEM_xn) ci
               else
                 bindE (build_loop rb buf en (unat numattr) p (- EIO_xn) ci) (\<lambda>(failed, err, ci).
                 if failed then bad err ci else built err ci)))"

section \<open>Encoding the tree\<close>

definition get_required_blob_size :: "ceph_inode_xattrs_info \<Rightarrow> int \<Rightarrow> int \<Rightarrow> int" where
  "get_required_blob_size ci name_size val_size =
    (let size = 4 + xcount ci * (4 + 4) + names_size ci + vals_size ci in
     if name_size \<noteq> 0 then size + 4 + 4 + name_size + val_size else size)"

definition encode_xattr :: "ceph_inode_xattr \<Rightarrow> u8 list \<times> int \<Rightarrow> (u8 list \<times> int) res" where
  "encode_xattr x = (\<lambda>(buf, p).
    bindE (ceph_encode_32 buf p (word_of_nat (length (xname x)))) (\<lambda>(buf, p).
    bindE (ceph_encode_copy buf p (xname x)) (\<lambda>(buf, p).
    bindE (ceph_encode_32 buf p (word_of_int (val_len x))) (\<lambda>(buf, p).
    bindE (get_bytes (xval x) (unat (word_of_int (val_len x) :: u64)) 0) (\<lambda>v.
    ceph_encode_copy buf p v)))))"

definition build_xattrs_blob :: "ceph_inode_xattrs_info \<Rightarrow> ceph_inode_xattrs_info res" where
  "build_xattrs_blob ci =
    (if \<not> x_dirty ci then Inr ci
     else
       let need = get_required_blob_size ci 0 0 in
       bindE (deref (prealloc_blob ci)) (\<lambda>b.
       bindE (guardE (need \<le> int (alloc_len b)) (Fault BugOn)) (\<lambda>_.
       bindE (ceph_encode_32 (iov_base b) 0 (word_of_int (xcount ci))) (\<lambda>(buf, p).
       bindE (foldE encode_xattr (inorder (index ci)) (buf, p)) (\<lambda>(buf, p).
       Inr (ci\<lparr>blob := Some \<lparr>iov_base = buf, iov_len = nat p\<rparr>, prealloc_blob := None, x_dirty := False,
              version := version ci + 1\<rparr>))))))"

section \<open>Virtual attributes\<close>

text \<open>The fields of an inode that the attributes show.\<close>

datatype file_kind = Dir_file | Regular_file | Other_file

record ceph_inode_info =
  i_kind :: file_kind
  i_snapped :: bool
  i_layout :: ceph_file_layout
  i_files :: u64
  i_subdirs :: u64
  i_rfiles :: u64
  i_rsubdirs :: u64
  i_rbytes :: u64
  i_rctime :: "int \<times> int"
  i_xattrs :: ceph_inode_xattrs_info

definition bytes_of :: "string \<Rightarrow> u8 list" where
  "bytes_of s = map of_char s"

fun decimal :: "nat \<Rightarrow> u8 list" where
  "decimal n = (if n < 10 then [word_of_nat (48 + n)] else decimal (n div 10) @ [word_of_nat (48 + n mod 10)])"

declare decimal.simps [simp del]

definition fmt_lld :: "u64 \<Rightarrow> u8 list" where
  "fmt_lld w = (if sint w < 0 then 45 # decimal (nat (- sint w)) else decimal (nat (sint w)))"

text \<open>\<open>snprintf\<close> returns the length the text has and writes what fits before a final zero byte.\<close>

definition snprintf :: "nat \<Rightarrow> u8 list \<Rightarrow> int \<times> u8 list" where
  "snprintf sz text = (int (length text), if sz = 0 then [] else take (sz - 1) text @ [0])"

definition layout_words :: "ceph_file_layout \<Rightarrow> u32 list" where
  "layout_words l = [fl_stripe_unit l, fl_stripe_count l, fl_object_size l, fl_cas_hash l, fl_object_stripe_unit l, fl_unused l, fl_pg_pool l]"

definition ceph_vxattrcb_layout_exists :: "ceph_inode_info \<Rightarrow> bool" where
  "ceph_vxattrcb_layout_exists ci \<longleftrightarrow> list_ex (\<lambda>b. b \<noteq> 0) (concat (map (le_bytes 4) (layout_words (i_layout ci))))"

definition lld_of_int :: "int \<Rightarrow> u8 list" where
  "lld_of_int i = fmt_lld (word_of_int i)"

definition layout_pool :: "ceph_inode_info \<Rightarrow> u64" where
  "layout_pool ci = word_of_int (ceph_file_layout_pg_pool (i_layout ci))"

definition ceph_vxattrcb_layout :: "ceph_osdmap \<Rightarrow> ceph_inode_info \<Rightarrow> nat \<Rightarrow> int \<times> u8 list" where
  "ceph_vxattrcb_layout om ci sz =
    (let l = i_layout ci;
         buf = bytes_of ''stripe_unit='' @ lld_of_int (ceph_file_layout_su l) @ bytes_of '' stripe_count='' @
           lld_of_int (ceph_file_layout_stripe_count l) @ bytes_of '' object_size='' @ lld_of_int (ceph_file_layout_object_size l) @
           bytes_of '' pool='' in
     case ceph_pg_pool_name_by_id om (layout_pool ci) of
       Some pool_name \<Rightarrow>
         let ret = length buf; len = length pool_name in
         if sz = 0 then (int (ret + len), [])
         else if sz < ret + len then (- ERANGE_no, [])
         else (int (ret + len), buf @ pool_name)
     | None \<Rightarrow>
         let buf = buf @ fmt_lld (layout_pool ci); ret = length buf in
         if sz = 0 then (int ret, [])
         else if ret \<le> sz then (int ret, buf) else (- ERANGE_no, []))"

definition ceph_vxattrcb_layout_stripe_unit :: "ceph_inode_info \<Rightarrow> nat \<Rightarrow> int \<times> u8 list" where
  "ceph_vxattrcb_layout_stripe_unit ci sz = snprintf sz (lld_of_int (ceph_file_layout_su (i_layout ci)))"
definition ceph_vxattrcb_layout_stripe_count :: "ceph_inode_info \<Rightarrow> nat \<Rightarrow> int \<times> u8 list" where
  "ceph_vxattrcb_layout_stripe_count ci sz = snprintf sz (lld_of_int (ceph_file_layout_stripe_count (i_layout ci)))"
definition ceph_vxattrcb_layout_object_size :: "ceph_inode_info \<Rightarrow> nat \<Rightarrow> int \<times> u8 list" where
  "ceph_vxattrcb_layout_object_size ci sz = snprintf sz (lld_of_int (ceph_file_layout_object_size (i_layout ci)))"

definition ceph_vxattrcb_layout_pool :: "ceph_osdmap \<Rightarrow> ceph_inode_info \<Rightarrow> nat \<Rightarrow> int \<times> u8 list" where
  "ceph_vxattrcb_layout_pool om ci sz =
    (case ceph_pg_pool_name_by_id om (layout_pool ci) of
       Some pool_name \<Rightarrow> snprintf sz pool_name
     | None \<Rightarrow> snprintf sz (fmt_lld (layout_pool ci)))"

definition ceph_vxattrcb_dir_entries :: "ceph_inode_info \<Rightarrow> nat \<Rightarrow> int \<times> u8 list" where
  "ceph_vxattrcb_dir_entries ci sz = snprintf sz (fmt_lld (i_files ci + i_subdirs ci))"
definition ceph_vxattrcb_dir_files :: "ceph_inode_info \<Rightarrow> nat \<Rightarrow> int \<times> u8 list" where
  "ceph_vxattrcb_dir_files ci sz = snprintf sz (fmt_lld (i_files ci))"
definition ceph_vxattrcb_dir_subdirs :: "ceph_inode_info \<Rightarrow> nat \<Rightarrow> int \<times> u8 list" where
  "ceph_vxattrcb_dir_subdirs ci sz = snprintf sz (fmt_lld (i_subdirs ci))"
definition ceph_vxattrcb_dir_rentries :: "ceph_inode_info \<Rightarrow> nat \<Rightarrow> int \<times> u8 list" where
  "ceph_vxattrcb_dir_rentries ci sz = snprintf sz (fmt_lld (i_rfiles ci + i_rsubdirs ci))"
definition ceph_vxattrcb_dir_rfiles :: "ceph_inode_info \<Rightarrow> nat \<Rightarrow> int \<times> u8 list" where
  "ceph_vxattrcb_dir_rfiles ci sz = snprintf sz (fmt_lld (i_rfiles ci))"
definition ceph_vxattrcb_dir_rsubdirs :: "ceph_inode_info \<Rightarrow> nat \<Rightarrow> int \<times> u8 list" where
  "ceph_vxattrcb_dir_rsubdirs ci sz = snprintf sz (fmt_lld (i_rsubdirs ci))"
definition ceph_vxattrcb_dir_rbytes :: "ceph_inode_info \<Rightarrow> nat \<Rightarrow> int \<times> u8 list" where
  "ceph_vxattrcb_dir_rbytes ci sz = snprintf sz (fmt_lld (i_rbytes ci))"

text \<open>The format is \<open>%ld.09%ld\<close>: the digits 09 are text.\<close>

definition ceph_vxattrcb_dir_rctime :: "ceph_inode_info \<Rightarrow> nat \<Rightarrow> int \<times> u8 list" where
  "ceph_vxattrcb_dir_rctime ci sz = snprintf sz (lld_of_int (fst (i_rctime ci)) @ bytes_of ''.09'' @ lld_of_int (snd (i_rctime ci)))"

record ceph_vxattr =
  vx_name :: string
  getxattr_cb :: "ceph_inode_info \<Rightarrow> nat \<Rightarrow> int \<times> u8 list"
  readonly :: bool
  hidden :: bool
  exists_cb :: "(ceph_inode_info \<Rightarrow> bool) option"

definition XATTR_NAME_CEPH :: "string \<Rightarrow> (ceph_inode_info \<Rightarrow> nat \<Rightarrow> int \<times> u8 list) \<Rightarrow> ceph_vxattr" where
  "XATTR_NAME_CEPH name cb = \<lparr>vx_name = name, getxattr_cb = cb, readonly = True, hidden = False, exists_cb = None\<rparr>"

definition XATTR_LAYOUT_FIELD :: "string \<Rightarrow> (ceph_inode_info \<Rightarrow> nat \<Rightarrow> int \<times> u8 list) \<Rightarrow> ceph_vxattr" where
  "XATTR_LAYOUT_FIELD name cb =
    \<lparr>vx_name = name, getxattr_cb = cb, readonly = False, hidden = True, exists_cb = Some ceph_vxattrcb_layout_exists\<rparr>"

definition ceph_dir_vxattrs :: "ceph_osdmap \<Rightarrow> ceph_vxattr list" where
  "ceph_dir_vxattrs om =
    [XATTR_LAYOUT_FIELD ''ceph.dir.layout'' (ceph_vxattrcb_layout om),
     XATTR_LAYOUT_FIELD ''ceph.dir.layout.stripe_unit'' ceph_vxattrcb_layout_stripe_unit,
     XATTR_LAYOUT_FIELD ''ceph.dir.layout.stripe_count'' ceph_vxattrcb_layout_stripe_count,
     XATTR_LAYOUT_FIELD ''ceph.dir.layout.object_size'' ceph_vxattrcb_layout_object_size,
     XATTR_LAYOUT_FIELD ''ceph.dir.layout.pool'' (ceph_vxattrcb_layout_pool om),
     XATTR_NAME_CEPH ''ceph.dir.entries'' ceph_vxattrcb_dir_entries,
     XATTR_NAME_CEPH ''ceph.dir.files'' ceph_vxattrcb_dir_files,
     XATTR_NAME_CEPH ''ceph.dir.subdirs'' ceph_vxattrcb_dir_subdirs,
     XATTR_NAME_CEPH ''ceph.dir.rentries'' ceph_vxattrcb_dir_rentries,
     XATTR_NAME_CEPH ''ceph.dir.rfiles'' ceph_vxattrcb_dir_rfiles,
     XATTR_NAME_CEPH ''ceph.dir.rsubdirs'' ceph_vxattrcb_dir_rsubdirs,
     XATTR_NAME_CEPH ''ceph.dir.rbytes'' ceph_vxattrcb_dir_rbytes,
     XATTR_NAME_CEPH ''ceph.dir.rctime'' ceph_vxattrcb_dir_rctime]"

definition ceph_file_vxattrs :: "ceph_osdmap \<Rightarrow> ceph_vxattr list" where
  "ceph_file_vxattrs om =
    [XATTR_LAYOUT_FIELD ''ceph.file.layout'' (ceph_vxattrcb_layout om),
     XATTR_LAYOUT_FIELD ''ceph.file.layout.stripe_unit'' ceph_vxattrcb_layout_stripe_unit,
     XATTR_LAYOUT_FIELD ''ceph.file.layout.stripe_count'' ceph_vxattrcb_layout_stripe_count,
     XATTR_LAYOUT_FIELD ''ceph.file.layout.object_size'' ceph_vxattrcb_layout_object_size,
     XATTR_LAYOUT_FIELD ''ceph.file.layout.pool'' (ceph_vxattrcb_layout_pool om)]"

definition ceph_inode_vxattrs :: "ceph_osdmap \<Rightarrow> ceph_inode_info \<Rightarrow> ceph_vxattr list" where
  "ceph_inode_vxattrs om ci =
    (case i_kind ci of Dir_file \<Rightarrow> ceph_dir_vxattrs om | Regular_file \<Rightarrow> ceph_file_vxattrs om | Other_file \<Rightarrow> [])"

definition vxattrs_name_size :: "ceph_vxattr list \<Rightarrow> nat" where
  "vxattrs_name_size vs = sum_list (map (\<lambda>v. if hidden v then 0 else length (vx_name v) + 1) vs)"

definition ceph_match_vxattr :: "ceph_osdmap \<Rightarrow> ceph_inode_info \<Rightarrow> u8 list \<Rightarrow> ceph_vxattr option" where
  "ceph_match_vxattr om ci name = find (\<lambda>v. bytes_of (vx_name v) = name) (ceph_inode_vxattrs om ci)"

definition vx_exists :: "ceph_inode_info \<Rightarrow> ceph_vxattr \<Rightarrow> bool" where
  "vx_exists ci v \<longleftrightarrow> (case exists_cb v of None \<Rightarrow> True | Some f \<Rightarrow> f ci)"

section \<open>The operations of an inode\<close>

definition has_prefix :: "string \<Rightarrow> u8 list \<Rightarrow> bool" where
  "has_prefix pre name \<longleftrightarrow> strncmp name (bytes_of pre) (length pre) = 0"

definition ceph_is_valid_xattr :: "u8 list \<Rightarrow> bool" where
  "ceph_is_valid_xattr name \<longleftrightarrow> has_prefix ''ceph.'' name \<or> has_prefix ''security.'' name \<or> has_prefix ''trusted.'' name \<or>
    has_prefix ''user.'' name"

text \<open>
  What the attributes need of their surroundings: the trees, the allocator, the OSD map for the
  names of pools, the capabilities that are issued, and the requests to the metadata server.
\<close>

record xattr_env =
  xe_rb :: xrb_ops
  xe_alloc :: "nat \<Rightarrow> bool"
  xe_osdmap :: ceph_osdmap
  xe_shared :: bool
  xe_excl :: bool
  do_getattr :: "ceph_inode_info \<Rightarrow> int \<times> ceph_inode_info"
  sync_setxattr :: "u8 list \<Rightarrow> u8 list option \<Rightarrow> nat \<Rightarrow> ceph_inode_info \<Rightarrow> int \<times> ceph_inode_info"
  send_removexattr :: "u8 list \<Rightarrow> ceph_inode_info \<Rightarrow> int \<times> ceph_inode_info"

definition fetch_xattrs :: "xattr_env \<Rightarrow> ceph_inode_info \<Rightarrow> int \<times> ceph_inode_info" where
  "fetch_xattrs env ci =
    (if version (i_xattrs ci) = 0 \<or> \<not> xe_shared env then do_getattr env ci else (0, ci))"

definition build_inode_xattrs :: "xattr_env \<Rightarrow> ceph_inode_info \<Rightarrow> (int \<times> ceph_inode_info) res" where
  "build_inode_xattrs env ci =
    bindE (build_xattrs (xe_rb env) (xe_alloc env) (i_xattrs ci)) (\<lambda>(err, xs). Inr (err, ci\<lparr>i_xattrs := xs\<rparr>))"

definition ceph_getxattr :: "xattr_env \<Rightarrow> u8 list \<Rightarrow> nat \<Rightarrow> ceph_inode_info \<Rightarrow> (int \<times> u8 list \<times> ceph_inode_info) res" where
  "ceph_getxattr env name sz ci =
    (if \<not> ceph_is_valid_xattr name then Inr (- ENODATA, [], ci)
     else
       case find (vx_exists ci) (case ceph_match_vxattr (xe_osdmap env) ci name of None \<Rightarrow> [] | Some v \<Rightarrow> [v]) of
         Some v \<Rightarrow> (case getxattr_cb v ci sz of (err, bs) \<Rightarrow> Inr (err, bs, ci))
       | None \<Rightarrow>
           let (err, ci) = fetch_xattrs env ci in
           if err \<noteq> 0 then Inr (err, [], ci)
           else
             bindE (build_inode_xattrs env ci) (\<lambda>(err, ci).
             if err < 0 then Inr (err, [], ci)
             else
               case get_xattr (i_xattrs ci) name of
                 None \<Rightarrow> Inr (- ENODATA, [], ci)
               | Some x \<Rightarrow>
                   let vl = unat (word_of_int (val_len x) :: u64) in
                   if sz \<noteq> 0 \<and> sz < vl then Inr (- ERANGE_no, [], ci)
                   else if sz = 0 then Inr (val_len x, [], ci)
                   else bindE (get_bytes (xval x) vl 0) (\<lambda>bs. Inr (val_len x, bs, ci))))"

definition list_vxattr :: "ceph_inode_info \<Rightarrow> ceph_vxattr \<Rightarrow> u8 list \<times> int \<times> int \<Rightarrow> (u8 list \<times> int \<times> int) res" where
  "list_vxattr ci v = (\<lambda>(dest, p, err).
    if \<not> hidden v \<and> vx_exists ci v then
      let len = int (length (vx_name v)) in
      bindE (put_bytes dest p (bytes_of (vx_name v) @ [0])) (\<lambda>dest. Inr (dest, p + len + 1, err + len + 1))
    else Inr (dest, p, err))"

text \<open>\<open>names\<close> is the caller's buffer of \<open>sz\<close> bytes.\<close>

definition ceph_listxattr :: "xattr_env \<Rightarrow> u8 list \<Rightarrow> ceph_inode_info \<Rightarrow> (int \<times> u8 list \<times> ceph_inode_info) res" where
  "ceph_listxattr env names ci =
    (let vxattrs = ceph_inode_vxattrs (xe_osdmap env) ci; sz = length names; (err, ci) = fetch_xattrs env ci in
     if err \<noteq> 0 then Inr (err, names, ci)
     else
       bindE (build_inode_xattrs env ci) (\<lambda>(err, ci).
       if err < 0 then Inr (err, names, ci)
       else
         let vir_namelen = int (vxattrs_name_size vxattrs);
             namelen = names_size (i_xattrs ci) + xcount (i_xattrs ci) in
         if sz \<noteq> 0 \<and> int sz < vir_namelen + namelen then Inr (- ERANGE_no, names, ci)
         else if sz = 0 then Inr (namelen + vir_namelen, names, ci)
         else
           bindE (copy_xattr_names (i_xattrs ci) names) (\<lambda>(names, p).
           bindE (foldE (list_vxattr ci) vxattrs (names, p, namelen)) (\<lambda>(names, p, err).
           Inr (err, names, ci)))))"

text \<open>
  Making sure that the preallocated blob is large enough for the attributes and one more: the
  loop \<open>retry\<close> allocates it and starts again. \<open>False\<close> when there is no memory.
\<close>

fun prepare_blob :: "nat \<Rightarrow> xattr_env \<Rightarrow> int \<Rightarrow> int \<Rightarrow> ceph_inode_info \<Rightarrow> (bool \<times> ceph_inode_info) res" where
  "prepare_blob 0 env name_len vlen ci = Inl NoFuel"
| "prepare_blob (Suc n) env name_len vlen ci =
    bindE (build_inode_xattrs env ci) (\<lambda>(err, ci).
    let required = get_required_blob_size (i_xattrs ci) name_len vlen in
    if prealloc_blob (i_xattrs ci) = None \<or> int (alloc_len (the (prealloc_blob (i_xattrs ci)))) < required then
      case ceph_buffer_new (xe_alloc env) (nat required) of
        None \<Rightarrow> Inr (False, ci)
      | Some b \<Rightarrow> prepare_blob n env name_len vlen (ci\<lparr>i_xattrs := (i_xattrs ci)\<lparr>prealloc_blob := Some b\<rparr>\<rparr>)
    else Inr (True, ci))"

text \<open>What \<open>setxattr\<close> and \<open>removexattr\<close> check first: an error, or whether the server does the work.\<close>

definition xattr_checks :: "xattr_env \<Rightarrow> u8 list \<Rightarrow> ceph_inode_info \<Rightarrow> int \<times> bool" where
  "xattr_checks env name ci =
    (if i_snapped ci then (- EROFS, False)
     else if \<not> ceph_is_valid_xattr name then (- EOPNOTSUPP, False)
     else
       case ceph_match_vxattr (xe_osdmap env) ci name of
         Some v \<Rightarrow> if readonly v then (- EOPNOTSUPP, False) else (0, has_prefix ''ceph.'' name)
       | None \<Rightarrow> (0, has_prefix ''ceph.'' name))"

definition ceph_setxattr :: "xattr_env \<Rightarrow> u8 list \<Rightarrow> u8 list option \<Rightarrow> nat \<Rightarrow> ceph_inode_info \<Rightarrow> (int \<times> ceph_inode_info) res" where
  "ceph_setxattr env name val flags ci =
    (let (err, passed_on) = xattr_checks env name ci; vlen = (case val of None \<Rightarrow> 0 | Some v \<Rightarrow> length v) in
     if err \<noteq> 0 then Inr (err, ci)
     else if passed_on then Inr (sync_setxattr env name val flags ci)
     else if \<not> xe_alloc env (length name + 1) \<or> vlen \<noteq> 0 \<and> \<not> xe_alloc env vlen \<or> \<not> xe_alloc env 64 then Inr (- ENOMEM_xn, ci)
     else if version (i_xattrs ci) = 0 \<or> \<not> xe_excl env then Inr (sync_setxattr env name val flags ci)
     else
       bindE (prepare_blob 3 env (int (length name)) (int vlen) ci) (\<lambda>(ok, ci).
       if \<not> ok then Inr (- ENOMEM_xn, ci)
       else
         let (err, xs) = set_xattr (xe_rb env) name (if vlen = 0 then None else val) (int vlen) flags (if val = None then -1 else 1) (i_xattrs ci);
             xs = (if err = 0 then xs\<lparr>x_dirty := True\<rparr> else xs) in
         Inr (err, ci\<lparr>i_xattrs := xs\<rparr>)))"

definition ceph_removexattr :: "xattr_env \<Rightarrow> u8 list \<Rightarrow> ceph_inode_info \<Rightarrow> (int \<times> ceph_inode_info) res" where
  "ceph_removexattr env name ci =
    (let (err, passed_on) = xattr_checks env name ci in
     if err \<noteq> 0 then Inr (err, ci)
     else if passed_on then Inr (send_removexattr env name ci)
     else if version (i_xattrs ci) = 0 \<or> \<not> xe_excl env then Inr (send_removexattr env name ci)
     else
       bindE (prepare_blob 3 env 0 0 ci) (\<lambda>(ok, ci).
       if \<not> ok then Inr (- ENOMEM_xn, ci)
       else
         let (err, xs) = remove_xattr_by_name (xe_rb env) name (i_xattrs ci) in
         Inr (err, ci\<lparr>i_xattrs := xs\<lparr>x_dirty := True\<rparr>\<rparr>)))"

end
