(* ===== verification/Xattr_Map.thy ===== *)
theory Xattr_Map
  imports Xattr
begin

text \<open>
  The attributes of an inode as a map from names to values: the search tree implements it, the
  counters are exact, and the blob that is written back is read again as the same map.
\<close>

section \<open>Comparing names\<close>

text \<open>Names are C strings: no zero byte.\<close>

definition nul_free :: "u8 list \<Rightarrow> bool" where
  "nul_free s \<longleftrightarrow> 0 \<notin> set s"

lemma nul_free_simps [simp]: "nul_free []" "nul_free (c # s) \<longleftrightarrow> c \<noteq> 0 \<and> nul_free s"
  by (auto simp: nul_free_def)

lemma char_at_simps [simp]: "char_at [] = 0" "char_at (c # s) = c"
  by (simp_all add: char_at_def)

lemma uint_diff_sign: "uint (x :: u8) - uint y < 0 \<longleftrightarrow> x < y" "0 < uint y - uint (x :: u8) \<longleftrightarrow> x < y" "uint (x :: u8) - uint y = 0 \<longleftrightarrow> x = y"
    "uint (x :: u8) < uint y \<longleftrightarrow> x < y" "uint (x :: u8) = uint y \<longleftrightarrow> x = y"
  by (auto simp: word_less_def word_uint_eq_iff)

lemma strncmp_min:
  "nul_free a \<Longrightarrow> nul_free b \<Longrightarrow>
    (let c = strncmp a b (min (length a) (length b)) in
     ((if c \<noteq> 0 then c else int (length a) - int (length b)) < 0 \<longleftrightarrow> a < b) \<and>
     (0 < (if c \<noteq> 0 then c else int (length a) - int (length b)) \<longleftrightarrow> b < a))"
proof (induction a b rule: list_induct2')
  case (4 x xs y ys)
  then show ?case by (auto simp: Let_def uint_diff_sign)
qed (auto simp: Let_def)

lemma strncmp_full:
  "nul_free a \<Longrightarrow> nul_free b \<Longrightarrow>
    (let c = strncmp a b (length b); d = (if c = 0 \<and> length b < length a then 1 else c) in (d < 0 \<longleftrightarrow> a < b) \<and> (0 < d \<longleftrightarrow> b < a))"
proof (induction a b rule: list_induct2')
  case (3 y ys)
  then show ?case using uint_diff_sign(4)[of 0 y] by (auto simp: Let_def word_neq_0_conv)
next
  case (4 x xs y ys)
  then show ?case by (auto simp: Let_def uint_diff_sign)
qed (auto simp: Let_def)

lemma cmp_order:
  assumes "nul_free name" and "nul_free (xname x)"
  shows "set_cmp name x < 0 \<longleftrightarrow> name < xname x" "0 < set_cmp name x \<longleftrightarrow> xname x < name"
    "get_cmp name x < 0 \<longleftrightarrow> name < xname x" "0 < get_cmp name x \<longleftrightarrow> xname x < name"
  using strncmp_min[OF assms] strncmp_full[OF assms] by (simp_all add: set_cmp_def get_cmp_def Let_def)


section \<open>The search tree\<close>

abbreviation names_ok :: "ceph_inode_xattr tree \<Rightarrow> bool" where
  "names_ok t \<equiv> \<forall>x\<in>set_tree t. nul_free (xname x)"

lemma get_node_find:
  "ordered xname t \<Longrightarrow> names_ok t \<Longrightarrow> nul_free k \<Longrightarrow> get_node k t = find (\<lambda>x. xname x = k) (inorder t)"
proof (induction t)
  case (Node l x r)
  then show ?case unfolding find_inorder_Node[OF Node.prems(1)] by (auto simp: cmp_order)
qed simp

lemma find_xattr_find:
  "ordered xname t \<Longrightarrow> names_ok t \<Longrightarrow> nul_free k \<Longrightarrow> find_xattr k t = find (\<lambda>x. xname x = k) (inorder t)"
proof (induction t)
  case (Node l x r)
  then show ?case unfolding find_inorder_Node[OF Node.prems(1)] by (auto simp: cmp_order)
qed simp

lemma link_xattr_new:
  "ordered xname t \<Longrightarrow> names_ok t \<Longrightarrow> nul_free (xname x) \<Longrightarrow> \<forall>y\<in>set_tree t. xname y \<noteq> xname x \<Longrightarrow>
    ordered xname (link_xattr x t) \<and> set_tree (link_xattr x t) = insert x (set_tree t)"
proof (induction t)
  case (Node l y r)
  then have "xname y \<noteq> xname x" by simp
  then show ?case using Node by (auto simp: cmp_order)
qed simp

text \<open>The insertion of a new name, as the contract of search trees has it.\<close>

definition insert_xattr :: "(ceph_inode_xattr tree \<Rightarrow> ceph_inode_xattr tree) \<Rightarrow> ceph_inode_xattr \<Rightarrow> ceph_inode_xattr tree \<Rightarrow> ceph_inode_xattr tree res" where
  "insert_xattr color x t = (if find_xattr (xname x) t = None then Inr (color (link_xattr x t)) else Inl (Err EEXIST))"

interpretation xt: search_tree xname nul_free "\<lambda>t k. get_node k t" insert_xattr
proof
  show "get_node k t = find (\<lambda>x. xname x = k) (inorder t)" if "ordered xname t" "names_ok t" "nul_free k" for t k
    using that by (rule get_node_find)
  show "\<exists>t'. insert_xattr color x t = Inr t' \<and> ordered xname t' \<and> set_tree t' = insert x (set_tree t)"
    if "ordered xname t" "keeps_inorder color" "\<forall>y\<in>set_tree t. xname y \<noteq> xname x" "names_ok t" "nul_free (xname x)" for t color x
    using link_xattr_new[OF that(1,4,5,3)] that(2,3) find_xattr_find[OF that(1,4,5)]
    by (auto simp: insert_xattr_def ordered_color set_tree_color find_None_iff)
  show "insert_xattr color x t = Inl (Err EEXIST)"
    if "ordered xname t" "y \<in> set_tree t" "xname y = xname x" "names_ok t" "nul_free (xname x)" for t color x y
    using find_xattr_find[OF that(1,4,5)] that(2,3) by (auto simp: insert_xattr_def find_None_iff)
qed

lemma find_get: "xt.valid t \<Longrightarrow> nul_free k \<Longrightarrow> find_xattr k t = get_node k t"
  by (simp add: xt.valid_def find_xattr_find get_node_find)

lemma update_node_spec:
  assumes "ordered xname t" and "names_ok t" and "nul_free k" and "\<And>x. xname (f x) = xname x"
  shows "inorder (update_node k f t) = map (\<lambda>x. if xname x = k then f x else x) (inorder t)"
  using assms(1,2)
proof (induction t)
  case (Node l x r)
  have l: "map (\<lambda>x. if xname x = k then f x else x) (inorder l) = inorder l" if "\<not> k < xname x"
    using that Node.prems by (intro map_idI) auto
  have r: "map (\<lambda>x. if xname x = k then f x else x) (inorder r) = inorder r" if "\<not> xname x < k"
    using that Node.prems by (intro map_idI) auto
  show ?case using Node assms(3) l r by (auto simp: cmp_order)
qed simp

section \<open>The map\<close>

definition attrs :: "ceph_inode_xattrs_info \<Rightarrow> u8 list \<Rightarrow> u8 list option" where
  "attrs ci = map_of (map (\<lambda>x. (xname x, xval x)) (inorder (index ci)))"

definition xattrs_ok :: "ceph_inode_xattrs_info \<Rightarrow> bool" where
  "xattrs_ok ci \<longleftrightarrow> xt.valid (index ci) \<and> xcount ci = int (length (inorder (index ci))) \<and>
    names_size ci = int (sum_list (map (length \<circ> xname) (inorder (index ci)))) \<and>
    vals_size ci = int (sum_list (map (length \<circ> xval) (inorder (index ci)))) \<and>
    (\<forall>x\<in>set_tree (index ci). val_len x = int (length (xval x)))"

definition xrb_good :: "xrb_ops \<Rightarrow> bool" where
  "xrb_good rb \<longleftrightarrow> keeps_inorder (x_color rb) \<and> erases_node (x_erase rb)"

lemma map_of_find: "map_of (map (\<lambda>x. (xname x, xval x)) xs) k = map_option xval (find (\<lambda>x. xname x = k) xs)"
  by (induction xs) auto

lemma attrs_get: "xt.valid (index ci) \<Longrightarrow> nul_free k \<Longrightarrow> attrs ci k = map_option xval (get_xattr ci k)"
  by (simp add: attrs_def map_of_find get_xattr_def xt.valid_def get_node_find)

lemma attrs_None: "xt.valid (index ci) \<Longrightarrow> \<not> nul_free k \<Longrightarrow> attrs ci k = None"
  by (auto simp: attrs_def map_of_eq_None_iff xt.valid_def)

lemma attrs_eqI:
  assumes "xt.valid (index ci)" and "\<And>k. nul_free k \<Longrightarrow> map_option xval (get_xattr ci k) = m k" and "\<And>k. \<not> nul_free k \<Longrightarrow> m k = None"
  shows "attrs ci = m"
  using assms attrs_get[OF assms(1)] attrs_None[OF assms(1)] by (intro ext) metis

section \<open>Setting and removing\<close>

lemma sum_list_perm: "mset xs = mset ys \<Longrightarrow> sum_list (map f xs) = sum_list (map (f :: 'a \<Rightarrow> nat) ys)"
  by (metis mset_map sum_mset_sum_list)

lemma valid_mset:
  assumes "xt.valid t" and "xt.valid t'" and "set_tree t' = insert x (set_tree t)" and "x \<notin> set_tree t"
  shows "mset (inorder t') = mset (x # inorder t)"
proof -
  have "distinct (inorder t)" "distinct (inorder t')"
    using ordered_distinct assms(1,2) by (auto simp: xt.valid_def distinct_map)
  then show ?thesis using assms(3,4) by (intro set_eq_iff_mset_eq_distinct[THEN iffD1]) auto
qed

lemma set_new:
  assumes ok: "xattrs_ok ci" and rb: "xrb_good rb" and nf: "nul_free name" and none: "find_xattr name (index ci) = None"
    and x: "xname x = name" "val_len x = int (length (xval x))"
  defines "ci' \<equiv> ci\<lparr>xcount := xcount ci + 1, names_size := names_size ci + int (length name), vals_size := vals_size ci + val_len x,
    index := x_color rb (link_xattr x (index ci))\<rparr>"
  shows "xattrs_ok ci' \<and> attrs ci' = (attrs ci)(name \<mapsto> xval x)"
proof -
  let ?t = "index ci" and ?t' = "x_color rb (link_xattr x (index ci))"
  have v: "xt.valid ?t" using ok by (simp add: xattrs_ok_def)
  have none': "get_node (xname x) ?t = None" using none find_get[OF v nf] x(1) by simp
  have col: "keeps_inorder (x_color rb)" using rb by (simp add: xrb_good_def)
  have ins: "insert_xattr (x_color rb) x ?t = Inr ?t'" using none x(1) by (simp add: insert_xattr_def)
  have v': "xt.valid ?t'" and look: "\<And>k. nul_free k \<Longrightarrow> get_node k ?t' = (if k = name then Some x else get_node k ?t)"
    using xt.ins_look[OF v col _ _ none'] nf x(1) ins by auto
  have notin: "x \<notin> set_tree ?t" using none' xt.look_None_iff[OF v, of "xname x"] nf x(1) by auto
  have st: "set_tree ?t' = insert x (set_tree ?t)"
    using link_xattr_new[of ?t x] v nf x(1) xt.look_None_iff[OF v, of "xname x"] none' by (simp add: xt.valid_def set_tree_color[OF col])
  note ms = valid_mset[OF v v' st notin]
  have cnt: "length (inorder ?t') = Suc (length (inorder ?t))" using mset_eq_length[OF ms] by simp
  have sums: "sum_list (map f (inorder ?t')) = f x + sum_list (map f (inorder ?t))" for f :: "_ \<Rightarrow> nat" using sum_list_perm[OF ms] by simp
  have "xattrs_ok ci'"
    using ok v' st cnt sums[of "length \<circ> xname"] sums[of "length \<circ> xval"] x by (simp add: xattrs_ok_def ci'_def)
  moreover have "attrs ci' = (attrs ci)(name \<mapsto> xval x)"
    using v' look nf attrs_get[OF v] attrs_None[OF v] by (intro attrs_eqI) (auto simp: ci'_def get_xattr_def)
  ultimately show ?thesis by simp
qed

lemma set_old:
  assumes ok: "xattrs_ok ci" and nf: "nul_free name" and some: "find_xattr name (index ci) = Some x"
    and f: "\<And>y. xname (f y) = xname y" "\<And>y. xval (f y) = v" "\<And>y. val_len (f y) = int (length v)"
  defines "ci' \<equiv> ci\<lparr>names_size := names_size ci - int (length (xname x)) + int (length name),
    vals_size := vals_size ci - val_len x + int (length v), index := update_node name f (index ci)\<rparr>"
  shows "xattrs_ok ci' \<and> attrs ci' = (attrs ci)(name \<mapsto> v)"
proof -
  let ?t = "index ci" and ?t' = "update_node name f (index ci)" and ?g = "\<lambda>y. if xname y = name then f y else y"
  have v: "xt.valid ?t" using ok by (simp add: xattrs_ok_def)
  then have o: "ordered xname ?t" "names_ok ?t" by (simp_all add: xt.valid_def)
  have x: "x \<in> set_tree ?t" "xname x = name" using xt.look_Some_iff[OF v nf, of x] some find_get[OF v nf] by simp_all
  have i: "inorder ?t' = map ?g (inorder ?t)" using update_node_spec[OF o nf f(1)] .
  have st: "set_tree ?t' = ?g ` set_tree ?t" unfolding set_inorder[symmetric] i by simp
  have key: "map xname (inorder ?t') = map xname (inorder ?t)" using i f(1) by simp
  have v': "xt.valid ?t'" unfolding xt.valid_def ordered_def key using v st f(1) by (auto simp: xt.valid_def ordered_def)
  have names: "sum_list (map (length \<circ> xname) (inorder ?t')) = sum_list (map (length \<circ> xname) (inorder ?t))"
    using key by (metis map_map)
  have split: "inorder ?t = us @ x # ws \<Longrightarrow> (\<forall>y\<in>set us \<union> set ws. xname y \<noteq> name)" for us ws
    using ordered_distinct[OF o(1)] x(2) by (auto simp: image_iff)
  obtain us ws where uw: "inorder ?t = us @ x # ws" using x(1) by (metis set_inorder split_list)
  have id: "map ?g us = us" "map ?g ws = ws" using split[OF uw] by (auto intro!: map_idI)
  have i': "inorder ?t' = us @ f x # ws" using i id x(2) by (simp add: uw)
  have vx: "val_len x = int (length (xval x))" using ok x(1) by (simp add: xattrs_ok_def)
  have "xattrs_ok ci'"
    using ok v' names st f i' uw vx x(2) by (auto simp: xattrs_ok_def ci'_def)
  moreover have "attrs ci' = (attrs ci)(name \<mapsto> v)"
  proof
    fix k
    have "find (\<lambda>y. xname y = k) us = None" if "k = name" using split[OF uw] that by (auto simp: find_None_iff)
    then show "attrs ci' k = ((attrs ci)(name \<mapsto> v)) k"
      using f x(2) unfolding attrs_def fun_upd_def map_of_find by (auto simp: ci'_def i' uw find_append split: option.split)
  qed
  ultimately show ?thesis by simp
qed

lemma remove_ok:
  assumes ok: "xattrs_ok ci" and rb: "xrb_good rb" and nf: "nul_free name" and some: "get_xattr ci name = Some x"
  shows "xattrs_ok (snd (remove_xattr rb (Some x) ci)) \<and> attrs (snd (remove_xattr rb (Some x) ci)) = (attrs ci)(name := None)"
proof -
  let ?t = "index ci" and ?t' = "x_erase rb x (index ci)"
  have v: "xt.valid ?t" using ok by (simp add: xattrs_ok_def)
  have x: "x \<in> set_tree ?t" "xname x = name" using xt.look_Some_iff[OF v nf, of x] some by (simp_all add: get_xattr_def)
  have er: "erases_node (x_erase rb)" using rb by (simp add: xrb_good_def)
  have v': "xt.valid ?t'" and look: "\<And>k. nul_free k \<Longrightarrow> get_node k ?t' = (if k = name then None else get_node k ?t)"
    using xt.erase_look[OF v er _ x(1)] nf x(2) by auto
  have i: "inorder ?t' = remove1 x (inorder ?t)" using er x(1) by (simp add: erases_node_def)
  have ms: "mset (inorder ?t) = mset (x # inorder ?t')" using i x(1) by (simp add: in_multiset_in_set)
  have sums: "sum_list (map f (inorder ?t)) = f x + sum_list (map f (inorder ?t'))" for f :: "_ \<Rightarrow> nat"
    using sum_list_perm[OF ms] by simp
  have sub: "set_tree ?t' \<subseteq> set_tree ?t" by (metis i set_inorder set_remove1_subset)
  have cnt: "length (inorder ?t) = Suc (length (inorder ?t'))" using mset_eq_length[OF ms] by simp
  have "xattrs_ok (snd (remove_xattr rb (Some x) ci))"
    using ok v' cnt sums[of "length \<circ> xname"] sums[of "length \<circ> xval"] sub x(1)
    by (auto simp: xattrs_ok_def remove_xattr_def)
  moreover have "attrs (snd (remove_xattr rb (Some x) ci)) = (attrs ci)(name := None)"
    using v' look nf attrs_get[OF v] attrs_None[OF v] by (intro attrs_eqI) (auto simp: remove_xattr_def get_xattr_def)
  ultimately show ?thesis by simp
qed

lemma set_xattr_spec:
  assumes ok: "xattrs_ok ci" and rb: "xrb_good rb" and nf: "nul_free name" and vl: "vlen = int (length (case val of Some v \<Rightarrow> v | None \<Rightarrow> []))"
  defines "present \<equiv> name \<in> dom (attrs ci)"
  shows "if update \<noteq> 0 \<and> present \<and> flags AND XATTR_CREATE \<noteq> 0 then set_xattr rb name val vlen flags update ci = (- EEXIST_no, ci)
    else if update \<noteq> 0 \<and> \<not> present \<and> flags AND XATTR_REPLACE \<noteq> 0 then set_xattr rb name val vlen flags update ci = (- ENODATA, ci)
    else \<exists>ci'. set_xattr rb name val vlen flags update ci = (0, ci') \<and> xattrs_ok ci' \<and>
      attrs ci' = (attrs ci)(name := if update < 0 then None else Some (case val of Some v \<Rightarrow> v | None \<Rightarrow> []))"
proof -
  have v: "xt.valid (index ci)" using ok by (simp add: xattrs_ok_def)
  have fg: "find_xattr name (index ci) = get_xattr ci name" using find_get[OF v nf] by (simp add: get_xattr_def)
  have p: "present \<longleftrightarrow> get_xattr ci name \<noteq> None" using attrs_get[OF v nf] by (cases "get_xattr ci name") (auto simp: present_def)
  let ?v = "case val of Some v \<Rightarrow> v | None \<Rightarrow> []" and ?frees = "val \<noteq> None \<and> update \<noteq> 0"
  show ?thesis
  proof (cases "get_xattr ci name")
    case None
    then have none: "find_xattr name (index ci) = None" and "attrs ci name = None" using fg attrs_get[OF v nf] by simp_all
    then have same: "(attrs ci)(name := None) = attrs ci" by auto
    let ?x = "\<lparr>xname = name, xval = ?v, val_len = vlen, xdirty = update, should_free_name = (update \<noteq> 0), should_free_val = ?frees\<rparr>"
    from set_new[OF ok rb nf none, of ?x] vl None p same ok fg show ?thesis by (auto simp: set_xattr_def Let_def EEXIST_no_def ENODATA_def)
  next
    case (Some x)
    then have some: "find_xattr name (index ci) = Some x" using fg by simp
    from set_old[OF ok nf some, of "\<lambda>y. y\<lparr>xval := ?v, val_len := vlen, xdirty := update, should_free_val := ?frees\<rparr>" ?v] vl
      remove_ok[OF ok rb nf Some] Some p some
    show ?thesis by (auto simp: set_xattr_def Let_def EEXIST_no_def ENODATA_def)
  qed
qed

text \<open>
  C17: the tree of extended attributes implements a map from names to values. Setting a name
  honours the create and replace flags (and then changes nothing when it fails), otherwise the
  name has the new value, or none for a removal, and no other attribute changes; the counters of
  attributes and bytes stay exact and the tree stays a search tree.
\<close>

theorem set_xattr_refines:
  assumes "xattrs_ok ci" and "xrb_good rb" and "nul_free name" and "vlen = int (length (case val of Some v \<Rightarrow> v | None \<Rightarrow> []))" and "update \<in> {-1, 1}"
  shows "(if name \<in> dom (attrs ci) \<and> flags AND XATTR_CREATE \<noteq> 0 then set_xattr rb name val vlen flags update ci = (- EEXIST_no, ci)
    else if name \<notin> dom (attrs ci) \<and> flags AND XATTR_REPLACE \<noteq> 0 then set_xattr rb name val vlen flags update ci = (- ENODATA, ci)
    else \<exists>ci'. set_xattr rb name val vlen flags update ci = (0, ci') \<and> xattrs_ok ci' \<and>
      attrs ci' = (attrs ci)(name := if update < 0 then None else Some (case val of Some v \<Rightarrow> v | None \<Rightarrow> [])))"
proof -
  have "update \<noteq> 0" using assms(5) by auto
  then have nz: "(update \<noteq> 0 \<and> Q) = Q" for Q by simp
  show ?thesis using set_xattr_spec[OF assms(1-4), of update flags] unfolding nz .
qed

definition example_xrb :: xrb_ops where
  "example_xrb = \<lparr>x_color = (\<lambda>t. t), x_erase = (\<lambda>x t. foldr (\<lambda>y t. Node Leaf y t) (remove1 x (inorder t)) Leaf)\<rparr>"

lemma spine_inorder: "inorder (foldr (\<lambda>y t. Node Leaf y t) xs Leaf) = xs"
  by (induction xs) auto

lemma example_xrb_good: "xrb_good example_xrb"
  by (simp add: xrb_good_def keeps_inorder_def erases_node_def example_xrb_def spine_inorder)

definition no_xattrs :: ceph_inode_xattrs_info where
  "no_xattrs = \<lparr>blob = None, prealloc_blob = Some \<lparr>iov_base = replicate 64 0, iov_len = 64\<rparr>, index = Leaf, x_dirty = False, xcount = 0, names_size = 0,
     vals_size = 0, version = 1, index_version = 1\<rparr>"

lemma no_xattrs_ok: "xattrs_ok no_xattrs" and no_xattrs_empty: "attrs no_xattrs = Map.empty"
  by (simp_all add: xattrs_ok_def no_xattrs_def attrs_def xt.valid_def)

theorem set_xattr_refines_witness:
  "\<exists>ci'. set_xattr example_xrb [117, 46, 97] (Some [1, 2]) 2 0 1 no_xattrs = (0, ci') \<and> xattrs_ok ci' \<and>
    attrs ci' = [[117, 46, 97] \<mapsto> [1, 2]]"
  using set_xattr_refines[OF no_xattrs_ok example_xrb_good, of "[117, 46, 97]" 2 "Some [1, 2]" 1 0] by (simp add: no_xattrs_empty)

section \<open>Writing the blob and reading it back\<close>

definition enc :: "ceph_inode_xattr \<Rightarrow> u8 list" where
  "enc x = le_bytes 4 (word_of_nat (length (xname x)) :: u32) @ xname x @ le_bytes 4 (word_of_nat (length (xval x)) :: u32) @ xval x"

lemma enc_length [simp]: "length (enc x) = 8 + length (xname x) + length (xval x)"
  by (simp add: enc_def)

lemma encode_xattr_ok:
  assumes "length (enc x) \<le> length junk" and "val_len x = int (length (xval x))" and "length (xval x) < 2 ^ 31"
  shows "encode_xattr x (pre @ junk, int (length pre)) = Inr ((pre @ enc x) @ drop (length (enc x)) junk, int (length (pre @ enc x)))"
proof -
  have vl1: "unat (word_of_int (val_len x) :: u64) = length (xval x)"
    using assms(2,3) by (simp add: unsigned_of_nat take_bit_nat_eq_self)
  have vl2: "word_of_int (val_len x) = (word_of_nat (length (xval x)) :: u32)" using assms(2) by simp
  have lens: "4 + length (xname x) + 4 + length (xval x) \<le> length junk" using assms(1) by simp
  let ?n = "le_bytes 4 (word_of_nat (length (xname x)) :: u32)" and ?v = "le_bytes 4 (word_of_nat (length (xval x)) :: u32)"
  have 1: "put_bytes (pre @ junk) (int (length pre)) ?n = Inr ((pre @ ?n) @ drop 4 junk)" using lens by (subst put_at') simp_all
  have 2: "put_bytes ((pre @ ?n) @ drop 4 junk) (int (length pre) + 4) (xname x) =
      Inr ((pre @ ?n @ xname x) @ drop (4 + length (xname x)) junk)" using lens by (subst put_at') (simp_all add: add.commute)
  have 3: "put_bytes ((pre @ ?n @ xname x) @ drop (4 + length (xname x)) junk) (int (length pre) + 4 + int (length (xname x))) ?v =
      Inr ((pre @ ?n @ xname x @ ?v) @ drop (8 + length (xname x)) junk)" using lens by (subst put_at') (simp_all add: add.commute)
  have 4: "put_bytes ((pre @ ?n @ xname x @ ?v) @ drop (8 + length (xname x)) junk) (int (length pre) + 4 + int (length (xname x)) + 4) (xval x) =
      Inr ((pre @ enc x) @ drop (length (enc x)) junk)" using lens by (subst put_at') (simp_all add: enc_def ac_simps)
  show ?thesis
    unfolding encode_xattr_def ceph_encode_32_def ceph_encode_copy_def vl2
    using 1 2 3 4 vl1 by (simp add: get_bytes_def)
qed

lemma encode_all_ok:
  "length (concat (map enc xs)) \<le> length junk \<Longrightarrow> \<forall>x\<in>set xs. val_len x = int (length (xval x)) \<and> length (xval x) < 2 ^ 31 \<Longrightarrow>
    foldE encode_xattr xs (pre @ junk, int (length pre)) =
      Inr ((pre @ concat (map enc xs)) @ drop (length (concat (map enc xs))) junk, int (length (pre @ concat (map enc xs))))"
proof (induction xs arbitrary: pre junk)
  case (Cons x xs)
  have "length (concat (map enc xs)) \<le> length (drop (length (enc x)) junk)" using Cons.prems(1) by simp
  from Cons.IH[OF this, of "pre @ enc x"] Cons.prems encode_xattr_ok[of x junk pre] show ?case
    by (simp add: add.assoc add.commute del: enc_length)
qed simp

lemma foldl_attrs: "distinct (map xname xs) \<Longrightarrow>
    foldl (\<lambda>m x. m(xname x \<mapsto> xval x)) m xs = m ++ map_of (map (\<lambda>x. (xname x, xval x)) xs)"
proof (induction xs arbitrary: m)
  case (Cons x xs)
  have "map_of (map (\<lambda>x. (xname x, xval x)) xs) (xname x) = None" using Cons.prems by (auto simp: map_of_eq_None_iff)
  then show ?case using Cons by (auto simp: map_add_def fun_eq_iff split: option.split)
qed simp

lemma decode_len:
  assumes "n < 2 ^ 31"
  shows "ceph_decode_32 (pre @ le_bytes 4 (word_of_nat n :: u32) @ rest) (int (length pre)) = Inr (word_of_nat n, int (length pre) + 4)"
    "unat (word_of_nat n :: u32) = n" "uint (word_of_nat n :: u32) = int n" "sint (word_of_nat n :: u32) = int n"
  using assms by (simp_all add: ceph_decode_32_def get_bytes_def le_word_bytes_full unsigned_of_nat take_bit_nat_eq_self
      signed_take_bit_int_eq_self sint_sbintrunc' signed_of_nat)

lemma build_loop_ok:
  assumes rb: "xrb_good rb"
  shows "xattrs_ok ci \<Longrightarrow> \<forall>x\<in>set xs. nul_free (xname x) \<and> length (xname x) < 2 ^ 31 \<and> length (xval x) < 2 ^ 31 \<Longrightarrow>
    \<exists>ci'. build_loop rb (pre @ concat (map enc xs)) (int (length (pre @ concat (map enc xs)))) (length xs) (int (length pre)) err ci =
        Inr (False, if xs = [] then err else 0, ci') \<and> xattrs_ok ci' \<and> attrs ci' = foldl (\<lambda>m x. m(xname x \<mapsto> xval x)) (attrs ci) xs"
proof (induction xs arbitrary: pre err ci)
  case (Cons x xs)
  let ?nl = "word_of_nat (length (xname x)) :: u32" and ?vl = "word_of_nat (length (xval x)) :: u32" and ?rest = "concat (map enc xs)"
  let ?buf = "pre @ enc x @ ?rest"
  let ?en = "int (length ?buf)"
  have small: "length (xname x) < 2 ^ 31" "length (xval x) < 2 ^ 31" "nul_free (xname x)" using Cons.prems(2) by simp_all
  note n = decode_len[OF small(1)] and v = decode_len[OF small(2)]
  have b1: "?buf = pre @ le_bytes 4 ?nl @ (xname x @ le_bytes 4 ?vl @ xval x @ ?rest)"
    and b2: "?buf = (pre @ le_bytes 4 ?nl @ xname x) @ le_bytes 4 ?vl @ (xval x @ ?rest)" by (simp_all add: enc_def)
  have d1: "ceph_decode_32 ?buf (int (length pre)) = Inr (?nl, int (length pre) + 4)" unfolding b1 by (rule n(1))
  have d2: "ceph_decode_32 ?buf (int (length pre) + 4 + int (length (xname x))) = Inr (?vl, int (length pre) + 8 + int (length (xname x)))"
    using v(1)[of "pre @ le_bytes 4 ?nl @ xname x" "xval x @ ?rest"] unfolding b2[symmetric] by (simp add: ac_simps)
  have room: "ceph_has_room (int (length pre)) ?en 4" "ceph_has_room (int (length pre) + 4 + int (length (xname x))) ?en 4"
    by (simp_all add: ceph_has_room_def)
  have name: "take (unat ?nl) (drop (nat (int (length pre) + 4)) ?buf) = xname x"
    unfolding b1 n(2) by (simp add: nat_add_distrib)
  have pos: "nat (int (length pre) + 8 + int (length (xname x))) = length (pre @ le_bytes 4 ?nl @ xname x @ le_bytes 4 ?vl)" by simp
  have val: "take (unat ?vl) (drop (nat (int (length pre) + 8 + int (length (xname x)))) ?buf) = xval x"
    unfolding pos v(2) by (simp add: enc_def)
  obtain ci1 where s: "set_xattr rb (xname x) (Some (xval x)) (int (length (xval x))) 0 0 ci = (0, ci1)" "xattrs_ok ci1"
      "attrs ci1 = (attrs ci)(xname x \<mapsto> xval x)"
    using set_xattr_spec[OF Cons.prems(1) rb small(3), of "int (length (xval x))" "Some (xval x)" 0 0] by auto
  have step: "build_loop rb ?buf ?en (length (x # xs)) (int (length pre)) err ci =
      build_loop rb ?buf ?en (length xs) (int (length (pre @ enc x))) 0 ci1"
    using room d1 d2 name val s(1) by (simp add: Let_def n(3) v(3,4) ac_simps del: enc_length) (simp add: ac_simps)
  have "\<forall>x\<in>set xs. nul_free (xname x) \<and> length (xname x) < 2 ^ 31 \<and> length (xval x) < 2 ^ 31" using Cons.prems(2) by simp
  from Cons.IH[OF s(2) this, of "pre @ enc x" 0] obtain ci' where
    "build_loop rb ((pre @ enc x) @ ?rest) (int (length ((pre @ enc x) @ ?rest))) (length xs) (int (length (pre @ enc x))) 0 ci1 =
        Inr (False, if xs = [] then 0 else 0, ci')" "xattrs_ok ci'" "attrs ci' = foldl (\<lambda>m x. m(xname x \<mapsto> xval x)) (attrs ci1) xs" by blast
  moreover have buf: "pre @ concat (map enc (x # xs)) = ?buf" by simp
  ultimately show ?case unfolding buf step using s(3) by (intro exI[of _ ci']) (simp add: fun_upd_def)
qed simp

lemma sum_enc: "length (concat (map enc xs)) = 8 * length xs + sum_list (map (length \<circ> xname) xs) + sum_list (map (length \<circ> xval) xs)"
  by (induction xs) auto

lemma part_le: "x \<in> set xs \<Longrightarrow> length (enc x) \<le> length (concat (map enc xs))"
  by (induction xs) auto

lemma build_blob_ok:
  assumes ok: "xattrs_ok ci" and d: "x_dirty ci" and b: "prealloc_blob ci = Some b" and fits: "get_required_blob_size ci 0 0 \<le> int (alloc_len b)"
    and small: "alloc_len b < 2 ^ 31"
  defines "img \<equiv> le_bytes 4 (word_of_nat (length (inorder (index ci))) :: u32) @ concat (map enc (inorder (index ci)))"
  shows "\<exists>junk. build_xattrs_blob ci = Inr (ci\<lparr>blob := Some \<lparr>iov_base = img @ junk, iov_len = length img\<rparr>, prealloc_blob := None, x_dirty := False,
      version := version ci + 1\<rparr>) \<and> length img < 2 ^ 31"
proof -
  let ?xs = "inorder (index ci)"
  have c: "xcount ci = int (length ?xs)" using ok by (simp add: xattrs_ok_def)
  have need: "get_required_blob_size ci 0 0 = int (length img)"
    using ok by (simp add: get_required_blob_size_def xattrs_ok_def img_def sum_enc)
  then have len: "length img \<le> length (iov_base b)" "length img < 2 ^ 31" using fits small by (simp_all add: alloc_len_def)
  let ?c = "le_bytes 4 (word_of_nat (length ?xs) :: u32)"
  have p: "put_bytes (iov_base b) 0 ?c = Inr (?c @ drop 4 (iov_base b))"
    using len(1) put_at[of ?c "iov_base b" "[]"] by (simp add: img_def)
  have "\<forall>x\<in>set ?xs. val_len x = int (length (xval x)) \<and> length (xval x) < 2 ^ 31"
  proof
    fix x assume "x \<in> set ?xs"
    then show "val_len x = int (length (xval x)) \<and> length (xval x) < 2 ^ 31"
      using ok len(2) part_le[of x ?xs] by (auto simp: xattrs_ok_def img_def)
  qed
  from encode_all_ok[OF _ this, of "drop 4 (iov_base b)" ?c] len(1)
  have "foldE encode_xattr ?xs (?c @ drop 4 (iov_base b), 4) =
      Inr (img @ drop (length (concat (map enc ?xs))) (drop 4 (iov_base b)), int (length img))"
    by (simp add: img_def)
  then show ?thesis
    using d b fits p c len(2) by (auto simp: build_xattrs_blob_def ceph_encode_32_def alloc_len_def)
qed

lemma build_xattrs_ok:
  assumes rb: "xrb_good rb" and b: "blob ci = Some b" and base: "take (iov_len b) (iov_base b) = img"
    and img: "img = le_bytes 4 (word_of_nat (length xs) :: u32) @ concat (map enc xs)" "length img < 2 ^ 31" and len: "iov_len b = length img"
    and names: "\<forall>x\<in>set xs. nul_free (xname x)" "distinct (map xname xs)" and old: "index_version ci < version ci"
    and mem: "alloc (length xs * 8)" "alloc 64"
  shows "\<exists>ci'. build_xattrs rb alloc ci = Inr (0, ci') \<and> xattrs_ok ci' \<and> attrs ci' = map_of (map (\<lambda>x. (xname x, xval x)) xs)"
proof -
  let ?ci = "destroy_xattrs ci"
  have e: "xattrs_ok ?ci" "attrs ?ci = Map.empty" "blob ?ci = Some b" using b by (simp_all add: destroy_xattrs_def xattrs_ok_def attrs_def xt.valid_def)
  have no: "\<not> version ci \<le> index_version ci" using old by simp
  have fin: "xattrs_ok (c\<lparr>index_version := i, x_dirty := d\<rparr>) = xattrs_ok c" "attrs (c\<lparr>index_version := i, x_dirty := d\<rparr>) = attrs c" for c i d
    by (simp_all add: xattrs_ok_def attrs_def)
  show ?thesis
  proof (cases "xs = []")
    case True
    then have "iov_len b = 4" using img len by simp
    with True no e show ?thesis by (simp add: build_xattrs_def Let_def fin)
  next
    case False
    have "\<forall>x\<in>set xs. nul_free (xname x) \<and> length (xname x) < 2 ^ 31 \<and> length (xval x) < 2 ^ 31"
    proof
      fix x assume "x \<in> set xs"
      then show "nul_free (xname x) \<and> length (xname x) < 2 ^ 31 \<and> length (xval x) < 2 ^ 31"
        using names(1) part_le[of x xs] img by auto
    qed
    from build_loop_ok[OF rb e(1) this, of "le_bytes 4 (word_of_nat (length xs) :: u32)" "- EIO_xn"] False obtain c where
      c: "build_loop rb img (int (length img)) (length xs) 4 (- EIO_xn) ?ci = Inr (False, 0, c)" "xattrs_ok c"
        "attrs c = foldl (\<lambda>m x. m(xname x \<mapsto> xval x)) Map.empty xs" unfolding img(1)[symmetric] e(2) by auto
    have "length xs \<le> length img" using sum_enc[of xs] img(1) by simp
    then have n: "length xs < 2 ^ 31" using img(2) by simp
    have big: "4 < iov_len b" "ceph_has_room 0 (int (iov_len b)) 4" using False len img(1) by (cases xs; simp add: ceph_has_room_def)+
    have "ceph_decode_32 img 0 = Inr (word_of_nat (length xs), 4)" using decode_len(1)[OF n, of "[]" "concat (map enc xs)"] img(1) by simp
    then have "build_xattrs rb alloc ci = Inr (0, c\<lparr>index_version := version c, x_dirty := False\<rparr>)"
      using no e(3) big base len c(1) mem decode_len(2)[OF n] by (simp add: build_xattrs_def Let_def)
    then show ?thesis using c(2,3) fin foldl_attrs[OF names(2), of Map.empty] by simp
  qed
qed


definition one_xattr :: ceph_inode_xattrs_info where
  "one_xattr = (snd (set_xattr example_xrb [117, 46, 97] (Some [1, 2]) 2 0 1 no_xattrs))\<lparr>x_dirty := True\<rparr>"

lemma one_xattr_ok: "xattrs_ok one_xattr \<and> attrs one_xattr = [[117, 46, 97] \<mapsto> [1, 2]]"
proof -
  obtain c where "set_xattr example_xrb [117, 46, 97] (Some [1, 2]) 2 0 1 no_xattrs = (0, c)" "xattrs_ok c" "attrs c = [[117, 46, 97] \<mapsto> [1, 2]]"
    using set_xattr_spec[OF no_xattrs_ok example_xrb_good, of "[117, 46, 97]" 2 "Some [1, 2]" 1 0] by (auto simp: no_xattrs_empty)
  then show ?thesis by (simp add: one_xattr_def xattrs_ok_def attrs_def)
qed



section \<open>Setting an attribute and getting it back\<close>

lemma strncmp_same: "strncmp (a @ b) a (length a) = 0"
  by (induction a) auto

lemma vx_names:
  assumes "v \<in> set (ceph_inode_vxattrs om ci)"
  shows "has_prefix ''ceph.'' (bytes_of (vx_name v))"
proof -
  have t: "take 5 (vx_name v) = ''ceph.''"
    using assms by (cases "i_kind ci") (auto simp: ceph_inode_vxattrs_def ceph_dir_vxattrs_def ceph_file_vxattrs_def XATTR_LAYOUT_FIELD_def
      XATTR_NAME_CEPH_def)
  have "bytes_of (vx_name v) = bytes_of ''ceph.'' @ bytes_of (drop 5 (vx_name v))"
    unfolding bytes_of_def map_append[symmetric] t[symmetric] by simp
  then show ?thesis using strncmp_same[of "bytes_of ''ceph.''"] by (simp add: has_prefix_def bytes_of_def)
qed

lemma no_vxattr: "\<not> has_prefix ''ceph.'' name \<Longrightarrow> ceph_match_vxattr om ci name = None"
  using vx_names by (auto simp: ceph_match_vxattr_def find_None_iff)

lemma build_done: "version (i_xattrs ci) \<le> index_version (i_xattrs ci) \<Longrightarrow> build_inode_xattrs env ci = Inr (0, ci)"
  by (simp add: build_inode_xattrs_def build_xattrs_def)

lemma required_nonneg: "xattrs_ok ci \<Longrightarrow> 0 \<le> get_required_blob_size ci (int n) (int v)"
  by (simp add: xattrs_ok_def get_required_blob_size_def Let_def)

text \<open>A built tree, with memory for everything: the blob is preallocated in at most one retry.\<close>

lemma prepare_blob_ok:
  assumes b: "version (i_xattrs ci) \<le> index_version (i_xattrs ci)" and ok: "xattrs_ok (i_xattrs ci)" and mem: "\<And>n. xe_alloc env n"
  shows "\<exists>b. prepare_blob 3 env (int n) (int v) ci = Inr (True, ci\<lparr>i_xattrs := (i_xattrs ci)\<lparr>prealloc_blob := Some b\<rparr>\<rparr>) \<and>
    get_required_blob_size (i_xattrs ci) (int n) (int v) \<le> int (alloc_len b)"
proof -
  let ?r = "get_required_blob_size (i_xattrs ci) (int n) (int v)"
  let ?b = "\<lparr>iov_base = replicate (nat ?r) 0, iov_len = nat ?r\<rparr> :: ceph_buffer"
  let ?ci = "ci\<lparr>i_xattrs := (i_xattrs ci)\<lparr>prealloc_blob := Some ?b\<rparr>\<rparr>"
  have n: "prepare_blob (Suc k) env (int n) (int v) c = (
      let required = get_required_blob_size (i_xattrs c) (int n) (int v) in
      if prealloc_blob (i_xattrs c) = None \<or> int (alloc_len (the (prealloc_blob (i_xattrs c)))) < required then
        prepare_blob k env (int n) (int v) (c\<lparr>i_xattrs := (i_xattrs c)\<lparr>prealloc_blob := Some \<lparr>iov_base = replicate (nat required) 0,
          iov_len = nat required\<rparr>\<rparr>\<rparr>)
      else Inr (True, c))" if "version (i_xattrs c) \<le> index_version (i_xattrs c)" for k c
    using that mem by (simp add: build_done ceph_buffer_new_def Let_def)
  have r: "get_required_blob_size (i_xattrs ?ci) (int n) (int v) = ?r" by (simp add: get_required_blob_size_def)
  have al: "int (alloc_len ?b) = ?r" using required_nonneg[OF ok] by (simp add: alloc_len_def)
  have fin: "prepare_blob (Suc k) env (int n) (int v) ?ci = Inr (True, ?ci)" for k
    using b r al by (simp add: build_done Let_def)
  show ?thesis
  proof (cases "prealloc_blob (i_xattrs ci) = None \<or> int (alloc_len (the (prealloc_blob (i_xattrs ci)))) < ?r")
    case True
    then have "prepare_blob (Suc 2) env (int n) (int v) ci = Inr (True, ?ci)"
      unfolding n[OF b] using fin[of 1] by (simp add: Let_def numeral_2_eq_2 del: prepare_blob.simps)
    then have "prepare_blob 3 env (int n) (int v) ci = Inr (True, ?ci)" by (simp del: prepare_blob.simps add: numeral_3_eq_3 numeral_2_eq_2)
    then show ?thesis using al by (intro exI[of _ ?b]) simp
  next
    case False
    then obtain b0 where b0: "prealloc_blob (i_xattrs ci) = Some b0" "?r \<le> int (alloc_len b0)" by auto
    have "ci\<lparr>i_xattrs := (i_xattrs ci)\<lparr>prealloc_blob := Some b0\<rparr>\<rparr> = ci" using b0(1) by simp
    moreover have "prepare_blob (Suc 2) env (int n) (int v) ci = Inr (True, ci)" unfolding n[OF b] using b0 by (simp add: Let_def)
    then have "prepare_blob 3 env (int n) (int v) ci = Inr (True, ci)" by (simp del: prepare_blob.simps add: numeral_3_eq_3 numeral_2_eq_2)
    ultimately show ?thesis using b0(2) by (intro exI[of _ b0]) simp
  qed
qed

lemma set_sizes:
  assumes "xattrs_ok ci" and "set_xattr rb name val vlen 0 1 ci = (0, ci')" and "0 \<le> vlen" and "name \<noteq> []" and "nul_free name"
  shows "get_required_blob_size ci' 0 0 \<le> get_required_blob_size ci (int (length name)) vlen" "prealloc_blob ci' = prealloc_blob ci"
    "version ci' = version ci" "index_version ci' = index_version ci"
proof -
  have v: "xt.valid (index ci)" using assms(1) by (simp add: xattrs_ok_def)
  have old: "0 \<le> val_len x \<and> xname x = name" if "find_xattr name (index ci) = Some x" for x
    using that find_get[OF v assms(5)] xt.look_Some_iff[OF v assms(5), of x] assms(1) by (auto simp: xattrs_ok_def)
  show "get_required_blob_size ci' 0 0 \<le> get_required_blob_size ci (int (length name)) vlen"
    using assms(2-4) old by (cases "find_xattr name (index ci)") (auto simp: set_xattr_def Let_def get_required_blob_size_def)
  show "prealloc_blob ci' = prealloc_blob ci" "version ci' = version ci" "index_version ci' = index_version ci"
    using assms(2) by (auto simp: set_xattr_def Let_def split: option.splits)
qed

text \<open>
  C19: an attribute that is set locally can be read back. With the exclusive capability, a built
  tree and enough memory, setting an attribute outside the \<open>ceph.\<close> name space succeeds, getting it then returns exactly
  the value and its length when the buffer is large enough (and \<open>-ERANGE\<close> when it is too small), other attributes are
  unchanged, and the blob that was preallocated is large enough for the later write-back.
\<close>

theorem setxattr_getxattr:
  assumes ok: "xattrs_ok (i_xattrs ci)" and built: "version (i_xattrs ci) \<le> index_version (i_xattrs ci)" "version (i_xattrs ci) \<noteq> 0"
    and env: "xe_shared env" "xe_excl env" "\<forall>n. xe_alloc env n" "xrb_good (xe_rb env)"
    and name: "nul_free name" "ceph_is_valid_xattr name" "\<not> has_prefix ''ceph.'' name" and live: "\<not> i_snapped ci" and len: "length v < 2 ^ 31"
  shows "\<exists>ci'. ceph_setxattr env name (Some v) 0 ci = Inr (0, ci') \<and> xattrs_ok (i_xattrs ci') \<and>
    attrs (i_xattrs ci') = (attrs (i_xattrs ci))(name \<mapsto> v) \<and>
    ceph_getxattr env name sz ci' = Inr (if sz = 0 then (int (length v), [], ci') else if sz < length v then (- ERANGE_no, [], ci') else (int (length v), v, ci')) \<and>
    (\<exists>b. prealloc_blob (i_xattrs ci') = Some b \<and> get_required_blob_size (i_xattrs ci') 0 0 \<le> int (alloc_len b))"
proof -
  let ?xs = "i_xattrs ci" and ?val = "if length v = 0 then None else Some v"
  have ne: "name \<noteq> []"
    using name(2) by (auto simp: ceph_is_valid_xattr_def has_prefix_def bytes_of_def)
  have chk: "xattr_checks env name ci = (0, False)" using live name(2,3) no_vxattr[OF name(3)] by (simp add: xattr_checks_def)
  have mem: "\<And>n. xe_alloc env n" using env(3) by simp
  obtain b where b: "prepare_blob 3 env (int (length name)) (int (length v)) ci = Inr (True, ci\<lparr>i_xattrs := ?xs\<lparr>prealloc_blob := Some b\<rparr>\<rparr>)"
      "get_required_blob_size ?xs (int (length name)) (int (length v)) \<le> int (alloc_len b)"
    using prepare_blob_ok[OF built(1) ok mem] by blast
  let ?xb = "?xs\<lparr>prealloc_blob := Some b\<rparr>"
  have okb: "xattrs_ok ?xb" "attrs ?xb = attrs ?xs" "get_required_blob_size ?xb = get_required_blob_size ?xs"
    using ok by (simp_all add: xattrs_ok_def attrs_def get_required_blob_size_def fun_eq_iff)
  have vv: "(case ?val of Some v \<Rightarrow> v | None \<Rightarrow> []) = v" by simp
  obtain x1 where x1: "set_xattr (xe_rb env) name ?val (int (length v)) 0 1 ?xb = (0, x1)" "xattrs_ok x1" "attrs x1 = (attrs ?xs)(name \<mapsto> v)"
    using set_xattr_spec[OF okb(1) env(4) name(1), of "int (length v)" ?val 1 0] okb(2) vv by (auto split del: if_split)
  note sizes = set_sizes[OF okb(1) x1(1) _ ne name(1)]
  let ?x = "x1\<lparr>x_dirty := True\<rparr>"
  let ?ci = "ci\<lparr>i_xattrs := ?x\<rparr>"
  have okx: "xattrs_ok ?x" "attrs ?x = (attrs ?xs)(name \<mapsto> v)" using x1(2,3) by (simp_all add: xattrs_ok_def attrs_def)
  have set: "ceph_setxattr env name (Some v) 0 ci = Inr (0, ?ci)"
    using chk mem built(2) env(2) b(1) x1(1) by (simp add: ceph_setxattr_def Let_def split del: if_split)
  have vx: "xt.valid (index ?x)" using okx(1) by (simp add: xattrs_ok_def)
  then obtain y where y: "get_xattr ?x name = Some y" "xval y = v"
    using attrs_get[OF vx name(1)] okx(2) by (cases "get_xattr ?x name") auto
  have "y \<in> set_tree (index ?x)" using xt.look_Some_iff[OF vx name(1), of y] y(1) by (simp add: get_xattr_def)
  then have vy: "val_len y = int (length v)" using okx(1) y(2) by (auto simp: xattrs_ok_def)
  have vl: "unat (word_of_int (val_len y) :: u64) = length v" using vy len by (simp add: unsigned_of_nat take_bit_nat_eq_self)
  have bd: "build_inode_xattrs env ?ci = Inr (0, ?ci)" using sizes(3,4) built(1) by (intro build_done) simp
  have get: "ceph_getxattr env name sz ?ci =
      Inr (if sz = 0 then (int (length v), [], ?ci) else if sz < length v then (- ERANGE_no, [], ?ci) else (int (length v), v, ?ci))"
    using name(2) no_vxattr[OF name(3)] env(1) built(2) sizes(3) bd y vy vl
    by (auto simp: ceph_getxattr_def fetch_xattrs_def Let_def get_bytes_def)
  have "get_required_blob_size ?x 0 0 \<le> int (alloc_len b)" using sizes(1) b(2) okb(3) by (simp add: get_required_blob_size_def)
  moreover have "prealloc_blob ?x = Some b" using sizes(2) by simp
  ultimately show ?thesis using set get okx by (intro exI[of _ ?ci]) simp
qed

definition example_osdmap0 :: ceph_osdmap where
  "example_osdmap0 = \<lparr>fsid = replicate 16 0, epoch = 1, created = replicate 8 0, modified = replicate 8 0, om_flags = 0,
     max_osd = 0, osd_state = [], osd_weight = [], osd_addr = [], pg_temp = Leaf, primary_temp = Leaf,
     osd_primary_affinity = None, pg_pools = Leaf, pool_max = 0, om_crush = None\<rparr>"

definition example_xenv :: xattr_env where
  "example_xenv = \<lparr>xe_rb = example_xrb, xe_alloc = (\<lambda>n. True), xe_osdmap = example_osdmap0, xe_shared = True, xe_excl = True,
     do_getattr = (\<lambda>ci. (0, ci)), sync_setxattr = (\<lambda>n v f ci. (0, ci)), send_removexattr = (\<lambda>n ci. (0, ci))\<rparr>"

definition example_inode :: ceph_inode_info where
  "example_inode = \<lparr>i_kind = Regular_file, i_snapped = False, i_layout = \<lparr>fl_stripe_unit = 65536, fl_stripe_count = 1, fl_object_size = 65536,
     fl_cas_hash = 0, fl_object_stripe_unit = 0, fl_unused = 0, fl_pg_pool = 1\<rparr>, i_files = 10, i_subdirs = 0, i_rfiles = 0, i_rsubdirs = 0,
     i_rbytes = 0, i_rctime = (0, 0), i_xattrs = no_xattrs\<rparr>"

theorem setxattr_getxattr_witness:
  "\<exists>ci'. ceph_setxattr example_xenv (bytes_of ''user.a'') (Some [7, 8]) 0 example_inode = Inr (0, ci') \<and>
    ceph_getxattr example_xenv (bytes_of ''user.a'') 16 ci' = Inr (2, [7, 8], ci')"
proof -
  have "xattrs_ok (i_xattrs example_inode)" "version (i_xattrs example_inode) \<le> index_version (i_xattrs example_inode)"
      "version (i_xattrs example_inode) \<noteq> 0" "\<not> i_snapped example_inode"
    using no_xattrs_ok by (simp_all add: example_inode_def no_xattrs_def)
  moreover have "xe_shared example_xenv" "xe_excl example_xenv" "\<forall>n. xe_alloc example_xenv n" "xrb_good (xe_rb example_xenv)"
    using example_xrb_good by (simp_all add: example_xenv_def)
  moreover have "nul_free (bytes_of ''user.a'')" "ceph_is_valid_xattr (bytes_of ''user.a'')" "\<not> has_prefix ''ceph.'' (bytes_of ''user.a'')"
    by (simp_all add: ceph_is_valid_xattr_def has_prefix_def bytes_of_def)
  ultimately show ?thesis
    using setxattr_getxattr[of example_inode example_xenv "bytes_of ''user.a''" "[7, 8]" 16] by auto
qed

section \<open>Faults of the code\<close>

text \<open>
  A blob that ends behind the first of two attributes: building the tree returns 0, as \<open>err\<close>
  holds the result of the last insertion, and leaves one attribute in the tree with \<open>names_size\<close> 0.
\<close>

definition truncated_blob :: "u8 list" where
  "truncated_blob = [2, 0, 0, 0, 6, 0, 0, 0, 117, 115, 101, 114, 46, 97, 1, 0, 0, 0, 7]"

definition truncated_xattrs :: ceph_inode_xattrs_info where
  "truncated_xattrs = no_xattrs\<lparr>version := 2, blob := Some \<lparr>iov_base = truncated_blob, iov_len = 19\<rparr>\<rparr>"

lemma truncated_blob_accepted:
  "case build_xattrs example_xrb (\<lambda>n. True) truncated_xattrs of
     Inr (r, ci) \<Rightarrow> r = 0 \<and> names_size ci = 0 \<and> map xname (inorder (index ci)) = [[117, 115, 101, 114, 46, 97]]
   | Inl e \<Rightarrow> False"
  by code_simp

text \<open>Listing the names then checks the size of the caller's buffer against the wrong sum and writes past its end.\<close>

lemma listxattr_overflow:
  "ceph_listxattr example_xenv [0] (example_inode\<lparr>i_xattrs := truncated_xattrs\<rparr>) = Inl (Fault OutOfBounds)"
  by code_simp

text \<open>The length of a value is not compared with the end of the blob: a value can reach past it.\<close>

lemma value_past_blob:
  "ceph_getxattr example_xenv [117, 115, 101, 114, 46, 97] 100 (example_inode\<lparr>i_xattrs := no_xattrs\<lparr>version := 2,
     blob := Some \<lparr>iov_base = [1, 0, 0, 0, 6, 0, 0, 0, 117, 115, 101, 114, 46, 97, 9, 0, 0, 0, 7], iov_len = 19\<rparr>\<rparr>\<rparr>) = Inl (Fault OutOfBounds)"
  by code_simp

text \<open>
  A virtual attribute that does not fit is cut, but the number returned is the length it would
  have had: larger than the caller's buffer, and not \<open>-ERANGE\<close>.
\<close>

lemma vxattr_length_past_buffer:
  assumes "sz < length (fmt_lld (i_rbytes ci))" and "0 < sz"
  shows "int sz < fst (ceph_vxattrcb_dir_rbytes ci sz) \<and> length (snd (ceph_vxattrcb_dir_rbytes ci sz)) = sz"
  using assms by (simp add: ceph_vxattrcb_dir_rbytes_def snprintf_def)

end
