(* ===== verification/Osd_Request.thy ===== *)
theory Osd_Request
  imports Striping Osdmap_Decode Messenger
begin

text \<open>
  Requests of the OSD client (\<open>net/ceph/osd_client.c\<close>, \<open>include/linux/ceph/osd_client.h\<close>,
  \<open>rados.h\<close>): the operations of a request and their data, a request for an extent of a file, and
  the message that carries a request. Allocations are parameters; a message buffer is its bytes, and
  every write is checked against it.
\<close>

section \<open>Operation codes and flags\<close>

text \<open>The modes and types of an operation code; the codes the client uses have names.\<close>

definition CEPH_OSD_OP_MODE_RD :: u16 where "CEPH_OSD_OP_MODE_RD = 0x1000"
definition CEPH_OSD_OP_MODE_WR :: u16 where "CEPH_OSD_OP_MODE_WR = 0x2000"
definition CEPH_OSD_OP_MODE_RMW :: u16 where "CEPH_OSD_OP_MODE_RMW = 0x3000"
definition CEPH_OSD_OP_MODE_SUB :: u16 where "CEPH_OSD_OP_MODE_SUB = 0x4000"
definition CEPH_OSD_OP_MODE_CACHE :: u16 where "CEPH_OSD_OP_MODE_CACHE = 0x8000"

definition CEPH_OSD_OP_TYPE_LOCK :: u16 where "CEPH_OSD_OP_TYPE_LOCK = 0x100"
definition CEPH_OSD_OP_TYPE_DATA :: u16 where "CEPH_OSD_OP_TYPE_DATA = 0x200"
definition CEPH_OSD_OP_TYPE_ATTR :: u16 where "CEPH_OSD_OP_TYPE_ATTR = 0x300"
definition CEPH_OSD_OP_TYPE_EXEC :: u16 where "CEPH_OSD_OP_TYPE_EXEC = 0x400"
definition CEPH_OSD_OP_TYPE_PG :: u16 where "CEPH_OSD_OP_TYPE_PG = 0x500"
definition CEPH_OSD_OP_TYPE_MULTI :: u16 where "CEPH_OSD_OP_TYPE_MULTI = 0x600"

definition CEPH_OSD_OP :: "u16 \<Rightarrow> u16 \<Rightarrow> u16 \<Rightarrow> u16" where
  "CEPH_OSD_OP mode type nr = mode OR type OR nr"

definition CEPH_OSD_OP_READ :: u16 where "CEPH_OSD_OP_READ = 0x1201"
definition CEPH_OSD_OP_STAT :: u16 where "CEPH_OSD_OP_STAT = 0x1202"
definition CEPH_OSD_OP_NOTIFY_ACK :: u16 where "CEPH_OSD_OP_NOTIFY_ACK = 0x1207"
definition CEPH_OSD_OP_WRITE :: u16 where "CEPH_OSD_OP_WRITE = 0x2201"
definition CEPH_OSD_OP_TRUNCATE :: u16 where "CEPH_OSD_OP_TRUNCATE = 0x2203"
definition CEPH_OSD_OP_ZERO :: u16 where "CEPH_OSD_OP_ZERO = 0x2204"
definition CEPH_OSD_OP_DELETE :: u16 where "CEPH_OSD_OP_DELETE = 0x2205"
definition CEPH_OSD_OP_STARTSYNC :: u16 where "CEPH_OSD_OP_STARTSYNC = 0x2207"
definition CEPH_OSD_OP_WATCH :: u16 where "CEPH_OSD_OP_WATCH = 0x220f"
definition CEPH_OSD_OP_SETALLOCHINT :: u16 where "CEPH_OSD_OP_SETALLOCHINT = 0x2223"
definition CEPH_OSD_OP_CALL :: u16 where "CEPH_OSD_OP_CALL = 0x1401"

lemmas opcode_defs = CEPH_OSD_OP_READ_def CEPH_OSD_OP_STAT_def CEPH_OSD_OP_NOTIFY_ACK_def CEPH_OSD_OP_WRITE_def
  CEPH_OSD_OP_TRUNCATE_def CEPH_OSD_OP_ZERO_def CEPH_OSD_OP_DELETE_def CEPH_OSD_OP_STARTSYNC_def
  CEPH_OSD_OP_WATCH_def CEPH_OSD_OP_SETALLOCHINT_def CEPH_OSD_OP_CALL_def

text \<open>All operation codes, in the order of the table of \<open>rados.h\<close>.\<close>

definition osd_opcodes :: "u16 list" where
  "osd_opcodes =
    map (CEPH_OSD_OP CEPH_OSD_OP_MODE_RD CEPH_OSD_OP_TYPE_DATA) [1, 2, 3, 4, 5, 6, 7, 8, 9, 10, 11] @
    map (CEPH_OSD_OP CEPH_OSD_OP_MODE_WR CEPH_OSD_OP_TYPE_DATA) [1, 2, 3, 4, 5, 6, 7, 8, 9] @
    [CEPH_OSD_OP CEPH_OSD_OP_MODE_RMW CEPH_OSD_OP_TYPE_DATA 10, CEPH_OSD_OP CEPH_OSD_OP_MODE_WR CEPH_OSD_OP_TYPE_DATA 11,
     CEPH_OSD_OP CEPH_OSD_OP_MODE_RD CEPH_OSD_OP_TYPE_DATA 12] @
    map (CEPH_OSD_OP CEPH_OSD_OP_MODE_WR CEPH_OSD_OP_TYPE_DATA) [13, 14, 15] @
    map (CEPH_OSD_OP CEPH_OSD_OP_MODE_RD CEPH_OSD_OP_TYPE_DATA) [17, 18, 19, 20] @
    map (CEPH_OSD_OP CEPH_OSD_OP_MODE_WR CEPH_OSD_OP_TYPE_DATA) [21, 22, 23, 24] @
    [CEPH_OSD_OP CEPH_OSD_OP_MODE_RD CEPH_OSD_OP_TYPE_DATA 25, CEPH_OSD_OP CEPH_OSD_OP_MODE_WR CEPH_OSD_OP_TYPE_DATA 26,
     CEPH_OSD_OP CEPH_OSD_OP_MODE_RD CEPH_OSD_OP_TYPE_DATA 27, CEPH_OSD_OP CEPH_OSD_OP_MODE_WR CEPH_OSD_OP_TYPE_DATA 28] @
    map (CEPH_OSD_OP CEPH_OSD_OP_MODE_RD CEPH_OSD_OP_TYPE_DATA) [29, 30] @
    map (CEPH_OSD_OP CEPH_OSD_OP_MODE_CACHE CEPH_OSD_OP_TYPE_DATA) [31, 32, 33] @
    [CEPH_OSD_OP CEPH_OSD_OP_MODE_RMW CEPH_OSD_OP_TYPE_DATA 34, CEPH_OSD_OP CEPH_OSD_OP_MODE_WR CEPH_OSD_OP_TYPE_DATA 35,
     CEPH_OSD_OP CEPH_OSD_OP_MODE_WR CEPH_OSD_OP_TYPE_MULTI 1] @
    map (CEPH_OSD_OP CEPH_OSD_OP_MODE_RD CEPH_OSD_OP_TYPE_MULTI) [2, 3] @
    map (CEPH_OSD_OP CEPH_OSD_OP_MODE_RD CEPH_OSD_OP_TYPE_ATTR) [1, 2, 3] @
    map (CEPH_OSD_OP CEPH_OSD_OP_MODE_WR CEPH_OSD_OP_TYPE_ATTR) [1, 2, 3, 4] @
    map (\<lambda>nr. CEPH_OSD_OP_MODE_SUB OR nr) [1, 2, 3, 4, 5, 6, 7, 8, 9] @
    map (CEPH_OSD_OP CEPH_OSD_OP_MODE_WR CEPH_OSD_OP_TYPE_LOCK) [1, 2, 3, 4, 5, 6] @
    [CEPH_OSD_OP CEPH_OSD_OP_MODE_RD CEPH_OSD_OP_TYPE_EXEC 1] @
    map (CEPH_OSD_OP CEPH_OSD_OP_MODE_RD CEPH_OSD_OP_TYPE_PG) [1, 2, 3, 4]"

definition osd_req_opcode_valid :: "u16 \<Rightarrow> bool" where
  "osd_req_opcode_valid opcode \<longleftrightarrow> opcode \<in> set osd_opcodes"

definition CEPH_OSD_FLAG_ACK :: u32 where "CEPH_OSD_FLAG_ACK = 1"
definition CEPH_OSD_FLAG_ONDISK :: u32 where "CEPH_OSD_FLAG_ONDISK = 4"
definition CEPH_OSD_FLAG_RETRY :: u32 where "CEPH_OSD_FLAG_RETRY = 8"
definition CEPH_OSD_FLAG_READ :: u32 where "CEPH_OSD_FLAG_READ = 0x10"
definition CEPH_OSD_FLAG_WRITE :: u32 where "CEPH_OSD_FLAG_WRITE = 0x20"
definition CEPH_OSD_FLAG_IGNORE_OVERLAY :: u32 where "CEPH_OSD_FLAG_IGNORE_OVERLAY = 0x20000"

definition CEPH_OSD_OP_FLAG_FAILOK :: u32 where "CEPH_OSD_OP_FLAG_FAILOK = 2"

definition CEPH_OSD_MAX_OP :: nat where "CEPH_OSD_MAX_OP = 3"
definition CEPH_MAX_OID_NAME_LEN :: nat where "CEPH_MAX_OID_NAME_LEN = 100"
definition OSD_OP_FRONT_LEN :: nat where "OSD_OP_FRONT_LEN = 4096"
definition OSD_OPREPLY_FRONT_LEN :: nat where "OSD_OPREPLY_FRONT_LEN = 512"
definition CEPH_MSG_OSD_MAP :: u16 where "CEPH_MSG_OSD_MAP = 41"
definition CEPH_MSG_OSD_OP :: u16 where "CEPH_MSG_OSD_OP = 42"
definition CEPH_MSG_OSD_OPREPLY :: u16 where "CEPH_MSG_OSD_OPREPLY = 43"
definition CEPH_MSG_WATCH_NOTIFY :: u16 where "CEPH_MSG_WATCH_NOTIFY = 44"
definition CEPH_NOSNAP :: u64 where "CEPH_NOSNAP = -2"

text \<open>The size of the packed \<open>struct ceph_osd_op\<close>: code, flags, the union of 28 bytes, payload length.\<close>

definition OSD_OP_SIZE :: nat where "OSD_OP_SIZE = 38"

section \<open>Operation data\<close>

text \<open>A null page vector is \<open>None\<close>.\<close>

datatype ceph_osd_data =
    Osd_data_none
  | Osd_data_pages (osd_pages: "u8 list list option") (osd_length: u64) (osd_alignment: u32) (pages_from_pool: bool) (own_pages: bool)
  | Osd_data_pagelist ceph_pagelist
  | Osd_data_bio "bio list" u64

definition ceph_osd_data_init :: ceph_osd_data where
  "ceph_osd_data_init = Osd_data_none"

definition ceph_osd_data_pages_init ::
  "u8 list list option \<Rightarrow> u64 \<Rightarrow> u32 \<Rightarrow> bool \<Rightarrow> bool \<Rightarrow> ceph_osd_data" where
  "ceph_osd_data_pages_init pages len alignment from_pool own = Osd_data_pages pages len alignment from_pool own"

definition ceph_osd_data_pagelist_init :: "ceph_pagelist \<Rightarrow> ceph_osd_data" where
  "ceph_osd_data_pagelist_init pagelist = Osd_data_pagelist pagelist"

definition ceph_osd_data_bio_init :: "bio list \<Rightarrow> u64 \<Rightarrow> ceph_osd_data" where
  "ceph_osd_data_bio_init bio len = Osd_data_bio bio len"

fun ceph_osd_data_length :: "ceph_osd_data \<Rightarrow> u64" where
  "ceph_osd_data_length Osd_data_none = 0"
| "ceph_osd_data_length (Osd_data_pages pages len alignment from_pool own) = len"
| "ceph_osd_data_length (Osd_data_pagelist pl) = word_of_nat (pl_length pl)"
| "ceph_osd_data_length (Osd_data_bio bio len) = len"

text \<open>
  The union of an operation by its last use; \<open>Op_zero\<close> is the zeroed union. Zero bytes read as any
  member are zero, so a member of \<open>Op_zero\<close> is its zero value.
\<close>

datatype op_union =
    Op_zero
  | Op_raw ceph_osd_data
  | Op_extent (x_offset: u64) (x_length: u64) (x_truncate_size: u64) (x_truncate_seq: u32) (x_osd_data: ceph_osd_data)
  | Op_cls (class_name: "u8 list") (method_name: "u8 list") (request_info: ceph_osd_data) (request_data: ceph_osd_data)
      (response_data: ceph_osd_data) (class_len: u8) (method_len: u8)
  | Op_watch (w_cookie: u64) (w_ver: u64) (w_flag: u8)
  | Op_alloc_hint (expected_object_size: u64) (expected_write_size: u64)

record ceph_osd_req_op =
  op_code :: u16
  op_flags :: u32
  op_payload_len :: u32
  op_u :: op_union

record ceph_snap_context =
  sc_seq :: u64
  sc_snaps :: "u64 list"

definition ceph_create_snap_context :: "(nat \<Rightarrow> bool) \<Rightarrow> u32 \<Rightarrow> ceph_snap_context option" where
  "ceph_create_snap_context alloc snap_count =
    (if alloc (24 + unat snap_count * 8) then Some \<lparr>sc_seq = 0, sc_snaps = replicate (unat snap_count) 0\<rparr> else None)"

section \<open>Requests\<close>

text \<open>
  \<open>r_osd\<close> is the address of the OSD session. The pointers into the request message are offsets in its
  front. \<open>r_front_spare\<close> are the bytes of the front buffer behind the part in use. The membership of
  the request in trees and lists is part of the state of the client. \<open>r_callback\<close> and
  \<open>r_unsafe_callback\<close> say whether there is one.
\<close>

record ceph_osd_request =
  r_tid :: u64
  r_osd :: "nat option"
  r_pgid :: ceph_pg
  r_pg_osds :: "int list"
  r_num_pg_osds :: nat
  r_request :: ceph_msg
  r_front_spare :: "u8 list"
  r_reply :: ceph_msg
  r_flags :: u32
  r_sent :: u32
  r_num_ops :: nat
  r_ops :: "ceph_osd_req_op list"
  r_request_osdmap_epoch :: int
  r_request_flags :: int
  r_request_pool :: int
  r_request_pgid :: int
  r_request_attempts :: int
  r_paused :: bool
  r_request_reassert_version :: int
  r_result :: int
  r_reply_op_len :: "int list"
  r_reply_op_result :: "int list"
  r_got_reply :: bool
  r_linger :: bool
  r_completion :: bool
  r_safe_completion :: bool
  r_callback :: bool
  r_unsafe_callback :: bool
  r_reassert_version :: "u32 \<times> u64"
  r_base_oloc :: int
  r_base_oid :: ceph_object_id
  r_target_oloc :: int
  r_target_oid :: ceph_object_id
  r_snapid :: u64
  r_stamp :: u64
  r_snapc :: "ceph_snap_context option"

definition zero_op :: ceph_osd_req_op where
  "zero_op = \<lparr>op_code = 0, op_flags = 0, op_payload_len = 0, op_u = Op_zero\<rparr>"

definition zero_oid :: ceph_object_id where
  "zero_oid = \<lparr>oid_name = replicate CEPH_MAX_OID_NAME_LEN 0, oid_name_len = 0\<rparr>"

text \<open>A message of a pool (\<open>msgpool.c\<close>) has a front of the size of the pool.\<close>

definition ceph_msgpool_get ::
  "u16 \<Rightarrow> nat \<Rightarrow> nat \<Rightarrow> ceph_msg_data_cursor \<Rightarrow> u8 list option \<Rightarrow> ceph_msg option" where
  "ceph_msgpool_get type pool_front_len front_len cursor mem =
    (if pool_front_len < front_len then ceph_msg_new type front_len cursor mem
     else ceph_msg_new type pool_front_len cursor mem)"

text \<open>
  What the allocators give for a request: whether there is memory for the request itself and the
  memory for the fronts of its messages, with the bytes that are in it, by the size that is asked for.
\<close>

record osd_alloc =
  oa_req :: bool
  oa_front :: "nat \<Rightarrow> u8 list option"
  oa_cursor :: ceph_msg_data_cursor

definition osd_request_size :: "ceph_snap_context option \<Rightarrow> nat \<Rightarrow> nat" where
  "osd_request_size snapc num_ops =
    (4 + 4 + 8 + 8 + 4 + 8) + (2 + 4 + 8 + 4 + 4) + (1 + 8 + 4 + 4) + (4 + CEPH_MAX_OID_NAME_LEN) +
    (2 + num_ops * OSD_OP_SIZE) + 8 + 8 + 8 * (case snapc of None \<Rightarrow> 0 | Some sc \<Rightarrow> length (sc_snaps sc)) + 4"

definition ceph_osdc_alloc_request ::
  "osd_alloc \<Rightarrow> ceph_snap_context option \<Rightarrow> nat \<Rightarrow> bool \<Rightarrow> ceph_osd_request option res" where
  "ceph_osdc_alloc_request oa snapc num_ops use_mempool =
    bindE (guardE (num_ops \<le> CEPH_OSD_MAX_OP) (Fault BugOn)) (\<lambda>_.
    if \<not> oa_req oa then Inr None
    else
      case (if use_mempool then ceph_msgpool_get CEPH_MSG_OSD_OPREPLY OSD_OPREPLY_FRONT_LEN 0 (oa_cursor oa) (oa_front oa OSD_OPREPLY_FRONT_LEN)
            else ceph_msg_new CEPH_MSG_OSD_OPREPLY OSD_OPREPLY_FRONT_LEN (oa_cursor oa) (oa_front oa OSD_OPREPLY_FRONT_LEN)) of
        None \<Rightarrow> Inr None
      | Some reply \<Rightarrow>
          (let size = osd_request_size snapc num_ops in
           case (if use_mempool then ceph_msgpool_get CEPH_MSG_OSD_OP OSD_OP_FRONT_LEN 0 (oa_cursor oa) (oa_front oa OSD_OP_FRONT_LEN)
                 else ceph_msg_new CEPH_MSG_OSD_OP size (oa_cursor oa) (oa_front oa size)) of
             None \<Rightarrow> Inr None
           | Some msg \<Rightarrow>
               Inr (Some \<lparr>r_tid = 0, r_osd = None, r_pgid = Ceph_pg 0 0, r_pg_osds = replicate CEPH_PG_MAX_SIZE 0,
                 r_num_pg_osds = 0, r_request = msg\<lparr>m_front := replicate (length (m_front msg)) 0\<rparr>, r_front_spare = [],
                 r_reply = reply, r_flags = 0, r_sent = 0, r_num_ops = num_ops, r_ops = replicate CEPH_OSD_MAX_OP zero_op,
                 r_request_osdmap_epoch = 0, r_request_flags = 0, r_request_pool = 0, r_request_pgid = 0,
                 r_request_attempts = 0, r_paused = False, r_request_reassert_version = 0, r_result = 0,
                 r_reply_op_len = replicate CEPH_OSD_MAX_OP 0, r_reply_op_result = replicate CEPH_OSD_MAX_OP 0,
                 r_got_reply = False, r_linger = False, r_completion = False, r_safe_completion = False,
                 r_callback = False, r_unsafe_callback = False, r_reassert_version = (0, 0), r_base_oloc = -1,
                 r_base_oid = zero_oid, r_target_oloc = -1, r_target_oid = zero_oid, r_snapid = 0, r_stamp = 0,
                 r_snapc = None\<rparr>)))"

section \<open>The operations of a request\<close>

definition get_op :: "ceph_osd_request \<Rightarrow> nat \<Rightarrow> ceph_osd_req_op res" where
  "get_op req which =
    bindE (guardE (which < r_num_ops req) (Fault BugOn)) (\<lambda>_. rd (r_ops req) which)"

definition set_op :: "ceph_osd_request \<Rightarrow> nat \<Rightarrow> ceph_osd_req_op \<Rightarrow> ceph_osd_request" where
  "set_op req which x = req\<lparr>r_ops := (r_ops req)[which := x]\<rparr>"

definition osd_req_op_init :: "ceph_osd_request \<Rightarrow> nat \<Rightarrow> u16 \<Rightarrow> ceph_osd_request res" where
  "osd_req_op_init req which opcode =
    bindE (get_op req which) (\<lambda>_.
    bindE (guardE (osd_req_opcode_valid opcode) (Fault BugOn)) (\<lambda>_.
    Inr (set_op req which (zero_op\<lparr>op_code := opcode\<rparr>))))"

definition is_extent_opcode :: "u16 \<Rightarrow> bool" where
  "is_extent_opcode opcode \<longleftrightarrow>
    opcode = CEPH_OSD_OP_READ \<or> opcode = CEPH_OSD_OP_WRITE \<or> opcode = CEPH_OSD_OP_DELETE \<or>
    opcode = CEPH_OSD_OP_ZERO \<or> opcode = CEPH_OSD_OP_TRUNCATE"

definition osd_req_op_extent_init ::
  "ceph_osd_request \<Rightarrow> nat \<Rightarrow> u16 \<Rightarrow> u64 \<Rightarrow> u64 \<Rightarrow> u64 \<Rightarrow> u32 \<Rightarrow> ceph_osd_request res" where
  "osd_req_op_extent_init req which opcode off len truncate_size truncate_seq =
    bindE (osd_req_op_init req which opcode) (\<lambda>req.
    bindE (guardE (is_extent_opcode opcode) (Fault BugOn)) (\<lambda>_.
    bindE (get_op req which) (\<lambda>op.
    Inr (set_op req which (op\<lparr>op_u := Op_extent off len truncate_size truncate_seq Osd_data_none,
      op_payload_len := (if opcode = CEPH_OSD_OP_WRITE then ucast len else 0)\<rparr>)))))"

text \<open>The extent of an operation: zero bytes are an empty extent, another member is not an extent.\<close>

definition extent_of :: "op_union \<Rightarrow> (u64 \<times> u64 \<times> u64 \<times> u32 \<times> ceph_osd_data) res" where
  "extent_of u =
    (case u of
       Op_extent off len ts sq d \<Rightarrow> Inr (off, len, ts, sq, d)
     | Op_zero \<Rightarrow> Inr (0, 0, 0, 0, Osd_data_none)
     | _ \<Rightarrow> Inl (Fault TypeConfusion))"

definition osd_req_op_extent_update :: "ceph_osd_request \<Rightarrow> nat \<Rightarrow> u64 \<Rightarrow> ceph_osd_request res" where
  "osd_req_op_extent_update req which len =
    bindE (get_op req which) (\<lambda>op.
    bindE (extent_of (op_u op)) (\<lambda>(off, previous, ts, sq, d).
    if len = previous then Inr req
    else
      bindE (guardE (len \<le> previous) (Fault BugOn)) (\<lambda>_.
      Inr (set_op req which (op\<lparr>op_u := Op_extent off len ts sq d,
        op_payload_len := op_payload_len op - ucast (previous - len)\<rparr>)))))"

text \<open>
  The results of the two appends of \<open>osd_req_op_cls_init\<close> are not looked at: what they stored is taken.
  \<open>mem\<close> is the address of the page list, \<open>None\<close> when there is no memory for it.
\<close>

definition osd_req_op_cls_init ::
  "(ceph_pagelist \<Rightarrow> page option) \<Rightarrow> nat option \<Rightarrow> ceph_osd_request \<Rightarrow> nat \<Rightarrow> u16 \<Rightarrow> u8 list \<Rightarrow> u8 list \<Rightarrow>
   ceph_osd_request res" where
  "osd_req_op_cls_init palloc mem req which opcode cls method =
    bindE (osd_req_op_init req which opcode) (\<lambda>req.
    bindE (guardE (opcode = CEPH_OSD_OP_CALL) (Fault BugOn)) (\<lambda>_.
    case mem of
      None \<Rightarrow> Inl (Fault BugOn)
    | Some a \<Rightarrow>
        bindE (guardE (length cls \<le> 255) (Fault BugOn)) (\<lambda>_.
        let pl = snd (ceph_pagelist_append palloc (ceph_pagelist_init a) cls) in
        bindE (guardE (length method \<le> 255) (Fault BugOn)) (\<lambda>_.
        let pl = snd (ceph_pagelist_append palloc pl method) in
        bindE (get_op req which) (\<lambda>op.
        Inr (set_op req which (op\<lparr>
          op_u := Op_cls cls method (ceph_osd_data_pagelist_init pl) Osd_data_none Osd_data_none
            (word_of_nat (length cls)) (word_of_nat (length method)),
          op_payload_len := word_of_nat (length cls + length method)\<rparr>)))))))"

definition osd_req_op_watch_init ::
  "ceph_osd_request \<Rightarrow> nat \<Rightarrow> u16 \<Rightarrow> u64 \<Rightarrow> u64 \<Rightarrow> bool \<Rightarrow> ceph_osd_request res" where
  "osd_req_op_watch_init req which opcode cookie ver flag =
    bindE (osd_req_op_init req which opcode) (\<lambda>req.
    bindE (guardE (opcode = CEPH_OSD_OP_NOTIFY_ACK \<or> opcode = CEPH_OSD_OP_WATCH) (Fault BugOn)) (\<lambda>_.
    bindE (get_op req which) (\<lambda>op.
    Inr (set_op req which (op\<lparr>op_u := Op_watch cookie ver
      (if opcode = CEPH_OSD_OP_WATCH \<and> flag then 1 else 0)\<rparr>)))))"

definition osd_req_op_alloc_hint_init ::
  "ceph_osd_request \<Rightarrow> nat \<Rightarrow> u64 \<Rightarrow> u64 \<Rightarrow> ceph_osd_request res" where
  "osd_req_op_alloc_hint_init req which object_size write_size =
    bindE (osd_req_op_init req which CEPH_OSD_OP_SETALLOCHINT) (\<lambda>req.
    bindE (get_op req which) (\<lambda>op.
    Inr (set_op req which (op\<lparr>op_u := Op_alloc_hint object_size write_size,
      op_flags := op_flags op OR CEPH_OSD_OP_FLAG_FAILOK\<rparr>))))"

subsection \<open>Attaching data\<close>

text \<open>Where the data of an operation is kept; a member of the zeroed union can be set.\<close>

definition set_raw_data :: "ceph_osd_data \<Rightarrow> op_union \<Rightarrow> op_union res" where
  "set_raw_data d u = (case u of Op_zero \<Rightarrow> Inr (Op_raw d) | Op_raw _ \<Rightarrow> Inr (Op_raw d) | _ \<Rightarrow> Inl (Fault TypeConfusion))"

definition set_extent_data :: "ceph_osd_data \<Rightarrow> op_union \<Rightarrow> op_union res" where
  "set_extent_data d u = bindE (extent_of u) (\<lambda>(off, len, ts, sq, _). Inr (Op_extent off len ts sq d))"

definition set_cls_request_data :: "ceph_osd_data \<Rightarrow> op_union \<Rightarrow> op_union res" where
  "set_cls_request_data d u =
    (case u of Op_cls c m i q r cl ml \<Rightarrow> Inr (Op_cls c m i d r cl ml) | _ \<Rightarrow> Inl (Fault TypeConfusion))"

definition set_cls_response_data :: "ceph_osd_data \<Rightarrow> op_union \<Rightarrow> op_union res" where
  "set_cls_response_data d u =
    (case u of Op_cls c m i q r cl ml \<Rightarrow> Inr (Op_cls c m i q d cl ml) | _ \<Rightarrow> Inl (Fault TypeConfusion))"

definition osd_req_op_data ::
  "(ceph_osd_data \<Rightarrow> op_union \<Rightarrow> op_union res) \<Rightarrow> ceph_osd_data \<Rightarrow> ceph_osd_request \<Rightarrow> nat \<Rightarrow> ceph_osd_request res" where
  "osd_req_op_data setter d req which =
    bindE (get_op req which) (\<lambda>op.
    bindE (setter d (op_u op)) (\<lambda>u. Inr (set_op req which (op\<lparr>op_u := u\<rparr>))))"

definition osd_req_op_raw_data_in_pages where
  "osd_req_op_raw_data_in_pages req which pages len alignment from_pool own =
    osd_req_op_data set_raw_data (ceph_osd_data_pages_init pages len alignment from_pool own) req which"

definition osd_req_op_extent_osd_data_pages where
  "osd_req_op_extent_osd_data_pages req which pages len alignment from_pool own =
    osd_req_op_data set_extent_data (ceph_osd_data_pages_init pages len alignment from_pool own) req which"

definition osd_req_op_extent_osd_data_pagelist where
  "osd_req_op_extent_osd_data_pagelist req which pagelist =
    osd_req_op_data set_extent_data (ceph_osd_data_pagelist_init pagelist) req which"

definition osd_req_op_extent_osd_data_bio where
  "osd_req_op_extent_osd_data_bio req which bio len =
    osd_req_op_data set_extent_data (ceph_osd_data_bio_init bio len) req which"

definition osd_req_op_cls_request_data_pagelist where
  "osd_req_op_cls_request_data_pagelist req which pagelist =
    osd_req_op_data set_cls_request_data (ceph_osd_data_pagelist_init pagelist) req which"

definition osd_req_op_cls_request_data_pages where
  "osd_req_op_cls_request_data_pages req which pages len alignment from_pool own =
    osd_req_op_data set_cls_request_data (ceph_osd_data_pages_init pages len alignment from_pool own) req which"

definition osd_req_op_cls_response_data_pages where
  "osd_req_op_cls_response_data_pages req which pages len alignment from_pool own =
    osd_req_op_data set_cls_response_data (ceph_osd_data_pages_init pages len alignment from_pool own) req which"

text \<open>
  Releasing an operation gives back the pages it owns, counted by \<open>calc_pages_for\<close>, and clears the data.
\<close>

definition calc_pages_for :: "u64 \<Rightarrow> u64 \<Rightarrow> int" where
  "calc_pages_for off len = sint (ucast (drop_bit 12 (off + len + 4096 - 1) - drop_bit 12 off) :: u32)"

definition ceph_osd_data_release :: "ceph_osd_data \<Rightarrow> int \<times> ceph_osd_data" where
  "ceph_osd_data_release d =
    (case d of
       Osd_data_pages pages len alignment from_pool own \<Rightarrow>
         (if own then calc_pages_for (ucast alignment) len else 0, ceph_osd_data_init)
     | _ \<Rightarrow> (0, ceph_osd_data_init))"

definition osd_req_op_data_release :: "ceph_osd_request \<Rightarrow> nat \<Rightarrow> (int \<times> ceph_osd_request) res" where
  "osd_req_op_data_release req which =
    bindE (get_op req which) (\<lambda>op.
    if op_code op = CEPH_OSD_OP_READ \<or> op_code op = CEPH_OSD_OP_WRITE then
      bindE (extent_of (op_u op)) (\<lambda>(off, len, ts, sq, d).
      let (n, d) = ceph_osd_data_release d in
      Inr (n, set_op req which (op\<lparr>op_u := Op_extent off len ts sq d\<rparr>)))
    else if op_code op = CEPH_OSD_OP_CALL then
      (case op_u op of
         Op_cls c m i q r cl ml \<Rightarrow>
           (let (n1, i) = ceph_osd_data_release i; (n2, q) = ceph_osd_data_release q; (n3, r) = ceph_osd_data_release r in
            Inr (n1 + n2 + n3, set_op req which (op\<lparr>op_u := Op_cls c m i q r cl ml\<rparr>)))
       | Op_zero \<Rightarrow> Inr (0, req)
       | _ \<Rightarrow> Inl (Fault TypeConfusion))
    else Inr (0, req))"

section \<open>Encoding the operations\<close>

definition ceph_osdc_msg_data_add :: "ceph_osd_data \<Rightarrow> ceph_msg \<Rightarrow> ceph_msg res" where
  "ceph_osdc_msg_data_add d msg =
    (case d of
       Osd_data_none \<Rightarrow> Inr msg
     | Osd_data_pages pages len alignment from_pool own \<Rightarrow>
         (if len = 0 then Inr msg
          else case pages of
            None \<Rightarrow> Inl (Fault BugOn)
          | Some ps \<Rightarrow> ceph_msg_data_add_pages ps (unat len) (unat alignment) msg)
     | Osd_data_pagelist pl \<Rightarrow>
         bindE (guardE (ceph_osd_data_length d \<noteq> 0) (Fault BugOn)) (\<lambda>_. ceph_msg_data_add_pagelist pl msg)
     | Osd_data_bio bio len \<Rightarrow> ceph_msg_data_add_bio bio (unat len) msg)"

text \<open>Fields of a structure at \<open>p\<close>: pairs of an offset and the bytes stored there.\<close>

definition put_fields :: "int \<Rightarrow> (nat \<times> u8 list) list \<Rightarrow> u8 list \<Rightarrow> u8 list res" where
  "put_fields p fs buf = foldE (\<lambda>(off, bs) buf. put_bytes buf (p + int off) bs) fs buf"

definition add_request_data :: "ceph_osd_data \<Rightarrow> ceph_osd_request \<Rightarrow> ceph_osd_request res" where
  "add_request_data d req = bindE (ceph_osdc_msg_data_add d (r_request req)) (\<lambda>m. Inr (req\<lparr>r_request := m\<rparr>))"

definition add_reply_data :: "ceph_osd_data \<Rightarrow> ceph_osd_request \<Rightarrow> ceph_osd_request res" where
  "add_reply_data d req = bindE (ceph_osdc_msg_data_add d (r_reply req)) (\<lambda>m. Inr (req\<lparr>r_reply := m\<rparr>))"

definition encode_extent ::
  "ceph_osd_req_op \<Rightarrow> ceph_osd_request \<Rightarrow> ((nat \<times> u8 list) list \<times> u64 \<times> u32 \<times> ceph_osd_request) res" where
  "encode_extent src req =
    bindE (extent_of (op_u src)) (\<lambda>(off, len, ts, sq, d).
    bindE ((if op_code src = CEPH_OSD_OP_WRITE then add_request_data else add_reply_data) d req) (\<lambda>req.
    Inr ([(6, le_bytes 8 off), (14, le_bytes 8 len), (22, le_bytes 8 ts), (30, le_bytes 4 sq)],
      if op_code src = CEPH_OSD_OP_WRITE then len else 0, op_payload_len src, req)))"

definition encode_cls ::
  "ceph_osd_req_op \<Rightarrow> ceph_osd_request \<Rightarrow> ((nat \<times> u8 list) list \<times> u64 \<times> u32 \<times> ceph_osd_request) res" where
  "encode_cls src req =
    (case op_u src of
       Op_cls c m info data resp cl ml \<Rightarrow>
         bindE (add_request_data info req) (\<lambda>req.
         case info of
           Osd_data_pagelist pl \<Rightarrow>
             (let dl = ceph_osd_data_length data in
              bindE (if dl = 0 then Inr req else add_request_data data req) (\<lambda>req.
              bindE (add_reply_data resp req) (\<lambda>req.
              Inr ([(6, [cl]), (7, [ml])] @ (if dl = 0 then [] else [(9, le_bytes 4 (ucast dl :: u32))]),
                word_of_nat (pl_length pl) + dl, op_payload_len src + ucast dl, req))))
         | _ \<Rightarrow> Inl (Fault BugOn))
     | Op_zero \<Rightarrow> Inl (Fault BugOn)
     | _ \<Rightarrow> Inl (Fault TypeConfusion))"

text \<open>
  The fields of the union by the code of the operation, the length of the data it sends and its payload
  length; \<open>None\<close> for the codes the client does not send.
\<close>

definition encode_union ::
  "ceph_osd_req_op \<Rightarrow> ceph_osd_request \<Rightarrow> ((nat \<times> u8 list) list \<times> u64 \<times> u32 \<times> ceph_osd_request) option res" where
  "encode_union src req =
    (if op_code src = CEPH_OSD_OP_STAT then
       bindE (case op_u src of Op_raw d \<Rightarrow> add_reply_data d req | Op_zero \<Rightarrow> Inr req | _ \<Rightarrow> Inl (Fault TypeConfusion))
         (\<lambda>req. Inr (Some ([], 0, op_payload_len src, req)))
     else if is_extent_opcode (op_code src) then bindE (encode_extent src req) (\<lambda>r. Inr (Some r))
     else if op_code src = CEPH_OSD_OP_CALL then bindE (encode_cls src req) (\<lambda>r. Inr (Some r))
     else if op_code src = CEPH_OSD_OP_STARTSYNC then Inr (Some ([], 0, op_payload_len src, req))
     else if op_code src = CEPH_OSD_OP_NOTIFY_ACK \<or> op_code src = CEPH_OSD_OP_WATCH then
       (case op_u src of
          Op_watch cookie ver flag \<Rightarrow>
            Inr (Some ([(6, le_bytes 8 cookie), (14, le_bytes 8 ver), (22, [flag])], 0, op_payload_len src, req))
        | Op_zero \<Rightarrow> Inr (Some ([(6, replicate 8 0), (14, replicate 8 0), (22, [0])], 0, op_payload_len src, req))
        | _ \<Rightarrow> Inl (Fault TypeConfusion))
     else if op_code src = CEPH_OSD_OP_SETALLOCHINT then
       (case op_u src of
          Op_alloc_hint os ws \<Rightarrow> Inr (Some ([(6, le_bytes 8 os), (14, le_bytes 8 ws)], 0, op_payload_len src, req))
        | Op_zero \<Rightarrow> Inr (Some ([(6, replicate 8 0), (14, replicate 8 0)], 0, op_payload_len src, req))
        | _ \<Rightarrow> Inl (Fault TypeConfusion))
     else Inr None)"

definition osd_req_encode_op ::
  "ceph_osd_request \<Rightarrow> u8 list \<Rightarrow> int \<Rightarrow> nat \<Rightarrow> (u64 \<times> ceph_osd_request \<times> u8 list) res" where
  "osd_req_encode_op req buf p which =
    bindE (get_op req which) (\<lambda>src.
    if \<not> osd_req_opcode_valid (op_code src) then Inr (0, req, buf)
    else
      bindE (encode_union src req) (\<lambda>r.
      case r of
        None \<Rightarrow> Inr (0, req, buf)
      | Some (fs, request_data_len, payload, req) \<Rightarrow>
          bindE (put_fields p (fs @ [(0, le_bytes 2 (op_code src)), (2, le_bytes 4 (op_flags src)), (34, le_bytes 4 payload)]) buf)
            (\<lambda>buf. Inr (request_data_len, set_op req which (src\<lparr>op_payload_len := payload\<rparr>), buf))))"

section \<open>A request for a file extent\<close>

definition calc_layout :: "ceph_file_layout \<Rightarrow> u64 \<Rightarrow> u64 \<Rightarrow> (u64 \<times> u64 \<times> u64 \<times> u64) res" where
  "calc_layout layout off plen =
    (case ceph_calc_file_object_mapping layout off plen of
       (Some e, _) \<Rightarrow> Inl (Err e)
     | (None, objnum, objoff, objlen) \<Rightarrow> Inr (if objlen < plen then objlen else plen, objnum, objoff, objlen))"

text \<open>Digits of a number in base 16, as \<open>%llx\<close> and \<open>%08llx\<close> print it.\<close>

definition hex_digit :: "nat \<Rightarrow> u8" where
  "hex_digit d = word_of_nat (if d < 10 then 48 + d else 87 + d)"

fun hex :: "nat \<Rightarrow> u8 list" where
  "hex n = (if n < 16 then [hex_digit n] else hex (n div 16) @ [hex_digit (n mod 16)])"

declare hex.simps [simp del]

definition fmt_llx :: "u64 \<Rightarrow> u8 list" where
  "fmt_llx w = hex (unat w)"

definition fmt_08llx :: "u64 \<Rightarrow> u8 list" where
  "fmt_08llx w = replicate (8 - length (hex (unat w))) 48 @ hex (unat w)"

definition object_name :: "u64 \<Rightarrow> u64 \<Rightarrow> u8 list" where
  "object_name ino objnum = fmt_llx ino @ [46] @ fmt_08llx objnum"

text \<open>\<open>snprintf\<close> into the name: at most 99 bytes and the final zero.\<close>

definition set_oid_text :: "u8 list \<Rightarrow> ceph_object_id \<Rightarrow> ceph_object_id" where
  "set_oid_text text oid =
    (let s = take (CEPH_MAX_OID_NAME_LEN - 1) text in
     oid\<lparr>oid_name := s @ [0] @ drop (length s + 1) (oid_name oid), oid_name_len := length s\<rparr>)"

definition object_truncate_size :: "u64 \<Rightarrow> u64 \<Rightarrow> u32 \<Rightarrow> u32 \<Rightarrow> u64 \<Rightarrow> u64" where
  "object_truncate_size off objoff object_size truncate_seq truncate_size =
    (let object_base = off - objoff in
     if truncate_seq = 1 \<and> truncate_size = -1 then truncate_size
     else if truncate_size \<le> object_base then 0
     else min (truncate_size - object_base) (ucast object_size))"

definition ceph_osdc_new_request ::
  "osd_alloc \<Rightarrow> ceph_file_layout \<Rightarrow> u64 \<Rightarrow> u64 \<Rightarrow> u64 \<Rightarrow> nat \<Rightarrow> u16 \<Rightarrow> u32 \<Rightarrow> ceph_snap_context option \<Rightarrow>
   u32 \<Rightarrow> u64 \<Rightarrow> bool \<Rightarrow> (ceph_osd_request \<times> u64) res" where
  "ceph_osdc_new_request oa layout ino off plen num_ops opcode fl snapc truncate_seq truncate_size use_mempool =
    bindE (guardE (is_extent_opcode opcode) (Fault BugOn)) (\<lambda>_.
    bindE (ceph_osdc_alloc_request oa snapc num_ops use_mempool) (\<lambda>r.
    case r of
      None \<Rightarrow> Inl (Err ENOMEM)
    | Some req \<Rightarrow>
        (let req = req\<lparr>r_flags := fl\<rparr> in
         bindE (calc_layout layout off plen) (\<lambda>(plen, objnum, objoff, objlen).
         bindE (osd_req_op_extent_init req 0 opcode objoff objlen
                 (object_truncate_size off objoff (fl_object_size layout) truncate_seq truncate_size) truncate_seq) (\<lambda>req.
         bindE (if 1 < num_ops then osd_req_op_init req 1 CEPH_OSD_OP_STARTSYNC else Inr req) (\<lambda>req.
         Inr (req\<lparr>r_base_oloc := ceph_file_layout_pg_pool layout,
                  r_base_oid := set_oid_text (object_name ino objnum) (r_base_oid req)\<rparr>, plen)))))))"

section \<open>Building the message\<close>

text \<open>
  The encoder runs over a buffer and a position. \<open>ops_loop\<close> encodes the operations from number \<open>i\<close>,
  adding up the data length.
\<close>

type_synonym encoder = "u8 list \<times> int \<Rightarrow> (u8 list \<times> int) res"

definition enc_put :: "u8 list \<Rightarrow> encoder" where
  "enc_put bs = (\<lambda>(buf, p). ceph_encode_copy buf p bs)"

definition enc_skip :: "nat \<Rightarrow> encoder" where
  "enc_skip n = (\<lambda>(buf, p). Inr (buf, p + int n))"

abbreviation (input) enc_8 where "enc_8 v \<equiv> (\<lambda>(buf, p). ceph_encode_8 buf p v)"
abbreviation (input) enc_16 where "enc_16 v \<equiv> (\<lambda>(buf, p). ceph_encode_16 buf p v)"
abbreviation (input) enc_32 where "enc_32 v \<equiv> (\<lambda>(buf, p). ceph_encode_32 buf p v)"
abbreviation (input) enc_64 where "enc_64 v \<equiv> (\<lambda>(buf, p). ceph_encode_64 buf p v)"

definition enc_all :: "encoder list \<Rightarrow> encoder" where
  "enc_all es = foldE (\<lambda>e s. e s) es"

fun ops_loop :: "nat list \<Rightarrow> ceph_osd_request \<Rightarrow> u64 \<Rightarrow> u8 list \<times> int \<Rightarrow> (ceph_osd_request \<times> u64 \<times> u8 list \<times> int) res" where
  "ops_loop [] req data_len (buf, p) = Inr (req, data_len, buf, p)"
| "ops_loop (i # is) req data_len (buf, p) =
    bindE (osd_req_encode_op req buf p i) (\<lambda>(n, req, buf).
    ops_loop is req (data_len + n) (buf, p + int OSD_OP_SIZE))"

text \<open>The time stamp is written for writes only; \<open>mtime\<close> is null otherwise.\<close>

definition encode_mtime :: "u32 \<Rightarrow> (int \<times> int) option \<Rightarrow> encoder" where
  "encode_mtime fl mtime = (\<lambda>(buf, p).
    if fl AND CEPH_OSD_FLAG_WRITE \<noteq> 0 then
      bindE (deref mtime) (\<lambda>ts.
      bindE (put_bytes buf p (le_bytes 4 (fst (ceph_encode_timespec ts)) @ le_bytes 4 (snd (ceph_encode_timespec ts)))) (\<lambda>buf.
      Inr (buf, p + 8)))
    else Inr (buf, p + 8))"

definition request_head :: "ceph_osd_request \<Rightarrow> (int \<times> int) option \<Rightarrow> encoder list" where
  "request_head req mtime =
    [enc_32 1, enc_skip 4, enc_skip 4, encode_mtime (r_flags req) mtime, enc_skip 12,
     enc_8 4, enc_8 4, enc_32 (8 + 4 + 4), enc_skip 8, enc_32 (-1), enc_32 0,
     enc_8 1, enc_skip (8 + 4), enc_32 (-1),
     enc_32 (word_of_nat (oid_name_len (r_base_oid req))),
     enc_put (take (oid_name_len (r_base_oid req)) (oid_name (r_base_oid req))),
     enc_16 (word_of_nat (r_num_ops req))]"

definition request_snaps :: "u64 \<Rightarrow> ceph_snap_context option \<Rightarrow> encoder list" where
  "request_snaps snapid snapc =
    [enc_64 snapid] @
    (case snapc of
       None \<Rightarrow> [enc_64 0, enc_32 0]
     | Some sc \<Rightarrow> [enc_64 (sc_seq sc), enc_32 (word_of_nat (length (sc_snaps sc)))] @ map (\<lambda>s. enc_64 s) (sc_snaps sc))"

definition ceph_osdc_build_request ::
  "ceph_osd_request \<Rightarrow> u64 \<Rightarrow> ceph_snap_context option \<Rightarrow> u64 \<Rightarrow> (int \<times> int) option \<Rightarrow> ceph_osd_request res" where
  "ceph_osdc_build_request req off snapc snap_id mtime =
    (let fl = r_flags req;
         req = req\<lparr>r_snapid := snap_id, r_snapc := snapc, r_request := (r_request req)\<lparr>hdr_version := 4\<rparr>,
           r_request_osdmap_epoch := 4, r_request_flags := 8, r_request_reassert_version := 20,
           r_request_pool := 38, r_request_pgid := 55\<rparr> in
     bindE (enc_all (request_head req mtime) (m_front (r_request req), 0)) (\<lambda>s.
     bindE (ops_loop [0..<r_num_ops req] req 0 s) (\<lambda>(req, data_len, s).
     bindE (enc_all (request_snaps snap_id snapc) s) (\<lambda>(buf, p).
     let req = req\<lparr>r_request_attempts := p\<rparr>; p = p + 4; msg = r_request req;
         msg = (if fl AND CEPH_OSD_FLAG_WRITE \<noteq> 0 then msg\<lparr>hdr_data_off := ucast (off AND 0xffff)\<rparr> else msg);
         msg = msg\<lparr>hdr_data_len := ucast data_len\<rparr> in
     bindE (guardE (p \<le> int (length buf)) (Fault BugOn)) (\<lambda>_.
     Inr (req\<lparr>r_request := msg\<lparr>m_front := take (nat p) buf, hdr_front_len := word_of_int p\<rparr>,
             r_front_spare := drop (nat p) buf\<rparr>))))))"

end
