(* ===== verification/Osd_Client.thy ===== *)
theory Osd_Client
  imports Osd_Request
begin

text \<open>
  The OSD client (\<open>net/ceph/osd_client.c\<close>): the pending requests, the sessions with the OSDs, the queues
  that connect them, and every operation on them. Requests and sessions are referred to by their
  addresses and live in stores; the trees hold addresses.

  A list node can be on one list at a time: \<open>r_req_lru_item\<close> on \<open>req_lru\<close>, \<open>req_unsent\<close> or \<open>req_notarget\<close>,
  \<open>r_osd_item\<close> and \<open>r_linger_osd_item\<close> on the lists of the session \<open>r_osd\<close>, \<open>r_linger_item\<close> on
  \<open>req_linger\<close>, \<open>o_osd_lru\<close> on \<open>osd_lru\<close>. Removing a node is removing the address from these lists,
  a node is empty when the address is not on them.

  Calls of the messenger, the monitor client, the timers and the callbacks of the users are recorded
  in the order they are made, in \<open>acts\<close>. The semaphore and the mutex make each operation a step.
\<close>

section \<open>Sessions, events and the client\<close>

record ceph_osd =
  o_osd :: int
  o_incarnation :: u32
  o_peer_addr :: "u8 list"
  o_requests :: "nat list"
  o_linger_requests :: "nat list"
  lru_ttl :: u64

record ceph_osd_event =
  ev_cookie :: u64
  ev_one_shot :: bool

datatype action =
    Con_open nat int "u8 list"
  | Con_close nat
  | Con_send nat nat ceph_msg
  | Con_keepalive nat
  | Msg_revoke nat
  | Msg_revoke_incoming nat
  | Request_next_osdmap
  | Got_osdmap u32
  | Schedule_timeout
  | Cancel_timeout
  | Callback nat
  | Unsafe_callback nat bool
  | Event_work u64 u64 u64 u8

record ceph_osd_client =
  client_fsid :: "u8 list"
  have_fsid :: bool
  oc_map :: "ceph_osdmap option"
  osds :: "nat tree"
  osd_lru :: "nat list"
  last_tid :: u64
  requests :: "nat tree"
  req_lru :: "nat list"
  req_unsent :: "nat list"
  req_notarget :: "nat list"
  req_linger :: "nat list"
  num_requests :: int
  event_tree :: "ceph_osd_event tree"
  event_count :: u64
  req_of :: "nat \<Rightarrow> ceph_osd_request"
  osd_of :: "nat \<Rightarrow> ceph_osd"
  osd_next :: nat
  acts :: "action list"

text \<open>
  What an operation depends on besides the client: the time, whether the connection of a session has
  ever been open, the options, the tree library, and memory.
\<close>

record osdc_env =
  jiffies :: u64
  con_opened :: "nat \<Rightarrow> bool"
  idle_ttl :: u64
  keepalive_ticks :: u64
  oe_fuel :: nat
  oe_alloc :: "nat \<Rightarrow> bool"
  oe_rb :: rb_ops
  oe_color :: "nat tree \<Rightarrow> nat tree"
  oe_erase :: "nat \<Rightarrow> nat tree \<Rightarrow> nat tree"
  ev_color :: "ceph_osd_event tree \<Rightarrow> ceph_osd_event tree"
  ev_erase :: "ceph_osd_event \<Rightarrow> ceph_osd_event tree \<Rightarrow> ceph_osd_event tree"
  can_create :: "nat \<Rightarrow> bool"

definition ENODEV :: int where "ENODEV = 19"

fun errno_no :: "errno \<Rightarrow> int" where
  "errno_no EINVAL = 22" | "errno_no ENOMEM = 12" | "errno_no ENOENT = 2" | "errno_no EEXIST = 17"
| "errno_no EIO = 5" | "errno_no ERANGE = 34"

definition CEPH_OSDMAP_FULL :: u32 where "CEPH_OSDMAP_FULL = 2"
definition CEPH_OSDMAP_PAUSERD :: u32 where "CEPH_OSDMAP_PAUSERD = 4"
definition CEPH_OSDMAP_PAUSEWR :: u32 where "CEPH_OSDMAP_PAUSEWR = 8"

text \<open>\<open>time_before\<close> of the kernel: the difference as a signed number.\<close>

definition time_before :: "u64 \<Rightarrow> u64 \<Rightarrow> bool" where
  "time_before a b \<longleftrightarrow> sint (a - b) < 0"

definition upd_req :: "nat \<Rightarrow> (ceph_osd_request \<Rightarrow> ceph_osd_request) \<Rightarrow> ceph_osd_client \<Rightarrow> ceph_osd_client" where
  "upd_req r f c = c\<lparr>req_of := (req_of c)(r := f (req_of c r))\<rparr>"

definition upd_osd :: "nat \<Rightarrow> (ceph_osd \<Rightarrow> ceph_osd) \<Rightarrow> ceph_osd_client \<Rightarrow> ceph_osd_client" where
  "upd_osd o' f c = c\<lparr>osd_of := (osd_of c)(o' := f (osd_of c o'))\<rparr>"

definition act :: "action \<Rightarrow> ceph_osd_client \<Rightarrow> ceph_osd_client" where
  "act a c = c\<lparr>acts := acts c @ [a]\<rparr>"

section \<open>The trees\<close>

text \<open>The descents by a key; \<open>link_by\<close> finds no place when the key is there.\<close>

fun link_by :: "('a \<Rightarrow> 'k :: linorder) \<Rightarrow> 'a \<Rightarrow> 'a tree \<Rightarrow> 'a tree option" where
  "link_by key new Leaf = Some (Node Leaf new Leaf)"
| "link_by key new (Node l x r) =
    (if key new < key x then map_option (\<lambda>l. Node l x r) (link_by key new l)
     else if key x < key new then map_option (\<lambda>r. Node l x r) (link_by key new r)
     else None)"

definition insert_by :: "('a \<Rightarrow> 'k :: linorder) \<Rightarrow> ('a tree \<Rightarrow> 'a tree) \<Rightarrow> 'a \<Rightarrow> 'a tree \<Rightarrow> 'a tree res" where
  "insert_by key color new t = (case link_by key new t of None \<Rightarrow> Inl (Err EEXIST) | Some t' \<Rightarrow> Inr (color t'))"

fun lookup_by :: "('a \<Rightarrow> 'k :: linorder) \<Rightarrow> 'a tree \<Rightarrow> 'k \<Rightarrow> 'a option" where
  "lookup_by key Leaf k = None"
| "lookup_by key (Node l x r) k =
    (if k < key x then lookup_by key l k else if key x < k then lookup_by key r k else Some x)"

definition bug_if_exists :: "'a res \<Rightarrow> 'a res" where
  "bug_if_exists m = (case m of Inl (Err e) \<Rightarrow> Inl (Fault BugOn) | _ \<Rightarrow> m)"

abbreviation (input) tid_of :: "ceph_osd_client \<Rightarrow> nat \<Rightarrow> u64" where
  "tid_of c r \<equiv> r_tid (req_of c r)"

abbreviation (input) osd_no :: "ceph_osd_client \<Rightarrow> nat \<Rightarrow> int" where
  "osd_no c o' \<equiv> o_osd (osd_of c o')"

definition insert_request :: "osdc_env \<Rightarrow> nat \<Rightarrow> ceph_osd_client \<Rightarrow> ceph_osd_client res" where
  "insert_request env r c =
    bindE (bug_if_exists (insert_by (tid_of c) (oe_color env) r (requests c))) (\<lambda>t. Inr (c\<lparr>requests := t\<rparr>))"

definition lookup_request :: "ceph_osd_client \<Rightarrow> u64 \<Rightarrow> nat option" where
  "lookup_request c tid = lookup_by (tid_of c) (requests c) tid"

fun lookup_ge :: "('a \<Rightarrow> 'k :: linorder) \<Rightarrow> 'a tree \<Rightarrow> 'k \<Rightarrow> 'a option" where
  "lookup_ge key Leaf k = None"
| "lookup_ge key (Node l x r) k =
    (if k < key x then (if l = Leaf then Some x else lookup_ge key l k)
     else if key x < k then lookup_ge key r k else Some x)"

definition lookup_request_ge :: "ceph_osd_client \<Rightarrow> u64 \<Rightarrow> nat option" where
  "lookup_request_ge c tid = lookup_ge (tid_of c) (requests c) tid"

definition insert_osd :: "osdc_env \<Rightarrow> nat \<Rightarrow> ceph_osd_client \<Rightarrow> ceph_osd_client res" where
  "insert_osd env o' c =
    bindE (bug_if_exists (insert_by (osd_no c) (oe_color env) o' (osds c))) (\<lambda>t. Inr (c\<lparr>osds := t\<rparr>))"

definition lookup_osd :: "ceph_osd_client \<Rightarrow> int \<Rightarrow> nat option" where
  "lookup_osd c n = lookup_by (osd_no c) (osds c) n"

text \<open>Erasing a node that is not linked is a memory error.\<close>

definition rb_erase :: "('a \<Rightarrow> 'a tree \<Rightarrow> 'a tree) \<Rightarrow> 'a \<Rightarrow> 'a tree \<Rightarrow> 'a tree res" where
  "rb_erase erase x t = (if x \<in> set_tree t then Inr (erase x t) else Inl (Fault OutOfBounds))"

section \<open>Sessions\<close>

definition create_osd :: "osdc_env \<Rightarrow> int \<Rightarrow> ceph_osd_client \<Rightarrow> nat option \<times> ceph_osd_client" where
  "create_osd env onum c =
    (if \<not> can_create env (osd_next c) then (None, c)
     else
       (Some (osd_next c),
        c\<lparr>osd_of := (osd_of c)(osd_next c := \<lparr>o_osd = onum, o_incarnation = 1, o_peer_addr = replicate 136 0,
            o_requests = [], o_linger_requests = [], lru_ttl = 0\<rparr>),
          osd_next := osd_next c + 1\<rparr>))"

definition remove_osd :: "osdc_env \<Rightarrow> nat \<Rightarrow> ceph_osd_client \<Rightarrow> ceph_osd_client res" where
  "remove_osd env o' c =
    bindE (rb_erase (oe_erase env) o' (osds c)) (\<lambda>t.
    Inr (act (Con_close o') (c\<lparr>osds := t, osd_lru := remove1 o' (osd_lru c)\<rparr>)))"

definition remove_all_osds :: "osdc_env \<Rightarrow> ceph_osd_client \<Rightarrow> ceph_osd_client res" where
  "remove_all_osds env c = foldE (remove_osd env) (inorder (osds c)) c"

definition osd_idle :: "ceph_osd \<Rightarrow> bool" where
  "osd_idle x \<longleftrightarrow> o_requests x = [] \<and> o_linger_requests x = []"

definition move_osd_to_lru :: "osdc_env \<Rightarrow> nat \<Rightarrow> ceph_osd_client \<Rightarrow> ceph_osd_client res" where
  "move_osd_to_lru env o' c =
    bindE (guardE (o' \<notin> set (osd_lru c)) (Fault BugOn)) (\<lambda>_.
    Inr (upd_osd o' (\<lambda>x. x\<lparr>lru_ttl := jiffies env + idle_ttl env\<rparr>) (c\<lparr>osd_lru := osd_lru c @ [o']\<rparr>)))"

definition maybe_move_osd_to_lru :: "osdc_env \<Rightarrow> nat \<Rightarrow> ceph_osd_client \<Rightarrow> ceph_osd_client res" where
  "maybe_move_osd_to_lru env o' c = (if osd_idle (osd_of c o') then move_osd_to_lru env o' c else Inr c)"

definition remove_osd_from_lru :: "nat \<Rightarrow> ceph_osd_client \<Rightarrow> ceph_osd_client" where
  "remove_osd_from_lru o' c = c\<lparr>osd_lru := remove1 o' (osd_lru c)\<rparr>"

fun remove_old_loop :: "osdc_env \<Rightarrow> nat list \<Rightarrow> ceph_osd_client \<Rightarrow> ceph_osd_client res" where
  "remove_old_loop env [] c = Inr c"
| "remove_old_loop env (x # xs) c =
    (if time_before (jiffies env) (lru_ttl (osd_of c x)) then Inr c
     else bindE (remove_osd env x c) (remove_old_loop env xs))"

definition remove_old_osds :: "osdc_env \<Rightarrow> ceph_osd_client \<Rightarrow> ceph_osd_client res" where
  "remove_old_osds env c = remove_old_loop env (osd_lru c) c"

definition stamp_requests :: "u64 \<Rightarrow> nat list \<Rightarrow> ceph_osd_client \<Rightarrow> ceph_osd_client" where
  "stamp_requests t rs c = fold (\<lambda>r. upd_req r (\<lambda>x. x\<lparr>r_stamp := t\<rparr>)) rs c"

definition reset_osd :: "osdc_env \<Rightarrow> nat \<Rightarrow> ceph_osd_client \<Rightarrow> (int \<times> ceph_osd_client) res" where
  "reset_osd env o' c =
    (if osd_idle (osd_of c o') then bindE (remove_osd env o' c) (\<lambda>c. Inr (- ENODEV, c))
     else
       bindE (deref (oc_map c)) (\<lambda>om.
       bindE (rdi (osd_addr om) (osd_no c o')) (\<lambda>peer_addr.
       if peer_addr = o_peer_addr (osd_of c o') \<and> \<not> con_opened env o' then
         Inr (- EAGAIN, stamp_requests (jiffies env) (o_requests (osd_of c o')) c)
       else
         Inr (0, upd_osd o' (\<lambda>x. x\<lparr>o_peer_addr := peer_addr, o_incarnation := o_incarnation x + 1\<rparr>)
                (act (Con_open o' (osd_no c o') peer_addr) (act (Con_close o') c))))))"

section \<open>Registration of requests\<close>

text \<open>\<open>list_del_init(&req->r_req_lru_item)\<close>\<close>

definition lru_del :: "nat \<Rightarrow> ceph_osd_client \<Rightarrow> ceph_osd_client" where
  "lru_del r c = c\<lparr>req_lru := remove1 r (req_lru c), req_unsent := remove1 r (req_unsent c),
     req_notarget := remove1 r (req_notarget c)\<rparr>"

definition register_request :: "osdc_env \<Rightarrow> nat \<Rightarrow> ceph_osd_client \<Rightarrow> ceph_osd_client res" where
  "register_request env r c =
    (let tid = last_tid c + 1;
         c = upd_req r (\<lambda>x. x\<lparr>r_tid := tid, r_request := (r_request x)\<lparr>hdr_tid := tid\<rparr>\<rparr>) (c\<lparr>last_tid := tid\<rparr>) in
     bindE (insert_request env r c) (\<lambda>c.
     let c = c\<lparr>num_requests := num_requests c + 1\<rparr> in
     Inr (if num_requests c = 1 then act Schedule_timeout c else c)))"

definition unregister_request :: "osdc_env \<Rightarrow> nat \<Rightarrow> ceph_osd_client \<Rightarrow> ceph_osd_client res" where
  "unregister_request env r c =
    (if r \<notin> set_tree (requests c) then Inr c
     else
       let c = c\<lparr>requests := oe_erase env r (requests c), num_requests := num_requests c - 1\<rparr> in
       bindE (case r_osd (req_of c r) of
                None \<Rightarrow> Inr c
              | Some o' \<Rightarrow>
                  bindE (maybe_move_osd_to_lru env o'
                          (upd_osd o' (\<lambda>x. x\<lparr>o_requests := remove1 r (o_requests x)\<rparr>) (act (Msg_revoke r) c))) (\<lambda>c.
                  Inr (if r \<notin> set (o_linger_requests (osd_of c o')) then upd_req r (\<lambda>x. x\<lparr>r_osd := None\<rparr>) c else c)))
         (\<lambda>c. let c = lru_del r c in
           Inr (if num_requests c = 0 then act Cancel_timeout c else c)))"

definition cancel_request :: "nat \<Rightarrow> ceph_osd_client \<Rightarrow> ceph_osd_client" where
  "cancel_request r c =
    (if r_sent (req_of c r) \<noteq> 0 \<and> r_osd (req_of c r) \<noteq> None
     then upd_req r (\<lambda>x. x\<lparr>r_sent := 0\<rparr>) (act (Msg_revoke r) c) else c)"

definition register_linger_request :: "nat \<Rightarrow> ceph_osd_client \<Rightarrow> ceph_osd_client" where
  "register_linger_request r c =
    (let c = c\<lparr>req_linger := req_linger c @ [r]\<rparr> in
     case r_osd (req_of c r) of
       None \<Rightarrow> c
     | Some o' \<Rightarrow> upd_osd o' (\<lambda>x. x\<lparr>o_linger_requests := o_linger_requests x @ [r]\<rparr>) c)"

definition unregister_linger_request :: "osdc_env \<Rightarrow> nat \<Rightarrow> ceph_osd_client \<Rightarrow> ceph_osd_client res" where
  "unregister_linger_request env r c =
    (if r \<notin> set (req_linger c) then Inr c
     else
       let c = c\<lparr>req_linger := remove1 r (req_linger c)\<rparr> in
       bindE (case r_osd (req_of c r) of
                None \<Rightarrow> Inr c
              | Some o' \<Rightarrow>
                  bindE (maybe_move_osd_to_lru env o'
                          (upd_osd o' (\<lambda>x. x\<lparr>o_linger_requests := remove1 r (o_linger_requests x)\<rparr>) c)) (\<lambda>c.
                  Inr (if r \<notin> set (o_requests (osd_of c o')) then upd_req r (\<lambda>x. x\<lparr>r_osd := None\<rparr>) c else c)))
         (\<lambda>c. Inr (lru_del r c)))"

definition ceph_osdc_set_request_linger :: "nat \<Rightarrow> ceph_osd_client \<Rightarrow> ceph_osd_client" where
  "ceph_osdc_set_request_linger r c =
    (if \<not> r_linger (req_of c r) then upd_req r (\<lambda>x. x\<lparr>r_linger := True\<rparr>) c else c)"

section \<open>Mapping a request to an OSD\<close>

definition req_should_be_paused :: "ceph_osd_client \<Rightarrow> ceph_osd_request \<Rightarrow> bool" where
  "req_should_be_paused c req =
    (let pauserd = ceph_osdmap_flag (oc_map c) CEPH_OSDMAP_PAUSERD;
         pausewr = ceph_osdmap_flag (oc_map c) CEPH_OSDMAP_PAUSEWR \<or> ceph_osdmap_flag (oc_map c) CEPH_OSDMAP_FULL in
     r_flags req AND CEPH_OSD_FLAG_READ \<noteq> 0 \<and> pauserd \<or> r_flags req AND CEPH_OSD_FLAG_WRITE \<noteq> 0 \<and> pausewr)"

text \<open>The locator and the name of the target, with the tier of the pool where that applies.\<close>

definition calc_request_target :: "ceph_osdmap \<Rightarrow> ceph_osd_request \<Rightarrow> ceph_osd_request res" where
  "calc_request_target om req =
    (let by_loc = r_target_oloc req = -1;
         req = (if by_loc then req\<lparr>r_target_oloc := r_base_oloc req\<rparr> else req);
         by_name = oid_name_len (r_target_oid req) = 0 in
     bindE (if by_name then bindE (ceph_oid_copy (r_target_oid req) (r_base_oid req)) (\<lambda>oid. Inr (req\<lparr>r_target_oid := oid\<rparr>))
            else Inr req) (\<lambda>req.
     Inr (if (by_loc \<or> by_name) \<and> r_flags req AND CEPH_OSD_FLAG_IGNORE_OVERLAY = 0 then
            (case ceph_pg_pool_by_id om (word_of_int (r_target_oloc req)) of
               None \<Rightarrow> req
             | Some pi \<Rightarrow>
                 let req = (if r_flags req AND CEPH_OSD_FLAG_READ \<noteq> 0 \<and> 0 \<le> read_tier pi
                            then req\<lparr>r_target_oloc := read_tier pi\<rparr> else req) in
                 if r_flags req AND CEPH_OSD_FLAG_WRITE \<noteq> 0 \<and> 0 \<le> write_tier pi
                 then req\<lparr>r_target_oloc := write_tier pi\<rparr> else req)
          else req)))"

definition enqueue_request :: "nat \<Rightarrow> ceph_osd_client \<Rightarrow> ceph_osd_client" where
  "enqueue_request r c =
    (case r_osd (req_of c r) of
       Some o' \<Rightarrow>
         let c = remove_osd_from_lru o' c;
             c = upd_osd o' (\<lambda>x. x\<lparr>o_requests := o_requests x @ [r]\<rparr>) c;
             c = lru_del r c in c\<lparr>req_unsent := req_unsent c @ [r]\<rparr>
     | None \<Rightarrow> let c = lru_del r c in c\<lparr>req_notarget := req_notarget c @ [r]\<rparr>)"

text \<open>\<open>list_move(&req->r_req_lru_item, &osdc->req_notarget)\<close>: to the front.\<close>

definition move_notarget :: "nat \<Rightarrow> ceph_osd_client \<Rightarrow> ceph_osd_client" where
  "move_notarget r c = (let c = lru_del r c in c\<lparr>req_notarget := r # req_notarget c\<rparr>)"

text \<open>An error of \<open>ceph_calc_pg_acting\<close> leaves an empty set and no primary.\<close>

definition calc_acting :: "osdc_env \<Rightarrow> ceph_osdmap \<Rightarrow> ceph_pg \<Rightarrow> (int list \<times> nat \<times> int \<times> ceph_osdmap) res" where
  "calc_acting env om pgid =
    (case ceph_calc_pg_acting (oe_fuel env) om pgid (replicate CEPH_PG_MAX_SIZE 0) of
       Inl (Err e) \<Rightarrow> Inr ([], 0, -1, om)
     | r \<Rightarrow> r)"

definition req_unchanged :: "ceph_osd_client \<Rightarrow> nat \<Rightarrow> bool \<Rightarrow> int list \<Rightarrow> nat \<Rightarrow> int \<Rightarrow> bool" where
  "req_unchanged c r force_resend acting num o' \<longleftrightarrow>
    (\<not> force_resend \<and>
     (case r_osd (req_of c r) of
        None \<Rightarrow> False
      | Some x \<Rightarrow> osd_no c x = o' \<and> o_incarnation (osd_of c x) \<le> r_sent (req_of c r) \<and>
          r_num_pg_osds (req_of c r) = num \<and> take num (r_pg_osds (req_of c r)) = take num acting)) \<or>
    (r_osd (req_of c r) = None \<and> o' = -1) \<or> r_paused (req_of c r)"

definition detach_osd :: "nat \<Rightarrow> ceph_osd_client \<Rightarrow> ceph_osd_client" where
  "detach_osd r c =
    (case r_osd (req_of c r) of
       None \<Rightarrow> c
     | Some x \<Rightarrow>
         let c = cancel_request r c;
             c = upd_osd x (\<lambda>y. y\<lparr>o_requests := remove1 r (o_requests y), o_linger_requests := remove1 r (o_linger_requests y)\<rparr>) c in
         upd_req r (\<lambda>y. y\<lparr>r_osd := None\<rparr>) c)"

text \<open>Choosing the session: the one there is, or a new one with a connection to the OSD.\<close>

definition attach_osd :: "osdc_env \<Rightarrow> nat \<Rightarrow> int \<Rightarrow> ceph_osd_client \<Rightarrow> (bool \<times> ceph_osd_client) res" where
  "attach_osd env r n c =
    (case lookup_osd c n of
       Some x \<Rightarrow> Inr (True, upd_req r (\<lambda>y. y\<lparr>r_osd := Some x\<rparr>) c)
     | None \<Rightarrow>
         if 0 \<le> n then
           (case create_osd env n c of
              (None, c) \<Rightarrow> Inr (False, c)
            | (Some x, c) \<Rightarrow>
                bindE (insert_osd env x (upd_req r (\<lambda>y. y\<lparr>r_osd := Some x\<rparr>) c)) (\<lambda>c.
                bindE (deref (oc_map c)) (\<lambda>om.
                bindE (rdi (osd_addr om) n) (\<lambda>addr.
                Inr (True, upd_osd x (\<lambda>y. y\<lparr>o_peer_addr := addr\<rparr>) (act (Con_open x n addr) c))))))
         else Inr (True, c))"

definition map_request :: "osdc_env \<Rightarrow> nat \<Rightarrow> bool \<Rightarrow> ceph_osd_client \<Rightarrow> (int \<times> ceph_osd_client) res" where
  "map_request env r force_resend c =
    bindE (deref (oc_map c)) (\<lambda>om.
    bindE (calc_request_target om (req_of c r)) (\<lambda>req.
    let c = upd_req r (\<lambda>_. req) c in
    case ceph_oloc_oid_to_pg om (r_target_oloc req) (r_target_oid req) of
      Inl (Err e) \<Rightarrow> Inr (- errno_no e, move_notarget r c)
    | Inl s \<Rightarrow> Inl s
    | Inr pgid \<Rightarrow>
        let c = upd_req r (\<lambda>y. y\<lparr>r_pgid := pgid\<rparr>) c in
        bindE (calc_acting env om pgid) (\<lambda>(acting, num, n, om).
        let c = c\<lparr>oc_map := Some om\<rparr>;
            was_paused = r_paused (req_of c r);
            paused = req_should_be_paused c (req_of c r);
            c = upd_req r (\<lambda>y. y\<lparr>r_paused := paused\<rparr>) c;
            force_resend = (force_resend \<or> was_paused \<and> \<not> paused) in
        if req_unchanged c r force_resend acting num n then Inr (0, c)
        else
          let c = upd_req r (\<lambda>y. y\<lparr>r_pg_osds := take num acting @ drop num (r_pg_osds y), r_num_pg_osds := num\<rparr>) c;
              c = detach_osd r c in
          bindE (attach_osd env r n c) (\<lambda>(ok, c).
          if ok then Inr (1, enqueue_request r c) else Inr (- ENOMEM_no, move_notarget r c)))))"

section \<open>Sending\<close>

text \<open>
  The fields that change with each attempt. The number of attempts has four bytes in the message and is
  written with eight.
\<close>

definition fill_request :: "ceph_osdmap \<Rightarrow> ceph_osd_request \<Rightarrow> ceph_osd_request res" where
  "fill_request om req =
    (let n = length (m_front (r_request req)) in
     bindE (put_fields 0
       [(nat (r_request_osdmap_epoch req), le_bytes 4 (epoch om)),
        (nat (r_request_flags req), le_bytes 4 (r_flags req)),
        (nat (r_request_pool req), le_bytes 8 (word_of_int (r_target_oloc req) :: u64)),
        (nat (r_request_pgid req), le_bytes 8 (pg_pool (r_pgid req)) @ le_bytes 4 (pg_seed (r_pgid req))),
        (nat (r_request_attempts req), le_bytes 8 (1 :: u64)),
        (nat (r_request_reassert_version req),
         le_bytes 4 (fst (r_reassert_version req)) @ le_bytes 8 (snd (r_reassert_version req)))]
       (m_front (r_request req) @ r_front_spare req)) (\<lambda>buf.
     Inr (req\<lparr>r_request := (r_request req)\<lparr>m_front := take n buf\<rparr>, r_front_spare := drop n buf\<rparr>)))"

definition send_request :: "osdc_env \<Rightarrow> nat \<Rightarrow> ceph_osd_client \<Rightarrow> ceph_osd_client res" where
  "send_request env r c =
    bindE (deref (r_osd (req_of c r))) (\<lambda>o'.
    bindE (deref (oc_map c)) (\<lambda>om.
    bindE (fill_request om (req_of c r)) (\<lambda>req.
    let c = upd_req r (\<lambda>_. req\<lparr>r_stamp := jiffies env, r_sent := o_incarnation (osd_of c o')\<rparr>) c;
        c = lru_del r c;
        c = c\<lparr>req_lru := req_lru c @ [r]\<rparr> in
    Inr (act (Con_send o' r (r_request (req_of c r))) c))))"

definition send_queued :: "osdc_env \<Rightarrow> ceph_osd_client \<Rightarrow> ceph_osd_client res" where
  "send_queued env c = foldE (send_request env) (req_unsent c) c"

definition start_request :: "osdc_env \<Rightarrow> nat \<Rightarrow> bool \<Rightarrow> ceph_osd_client \<Rightarrow> (int \<times> ceph_osd_client) res" where
  "start_request env r nofail c =
    bindE (register_request env r c) (\<lambda>c.
    let c = upd_req r (\<lambda>x. x\<lparr>r_sent := 0, r_got_reply := False\<rparr>) c in
    bindE (map_request env r False c) (\<lambda>(rc, c).
    if rc < 0 then
      (if nofail then Inr (0, c) else bindE (unregister_request env r c) (\<lambda>c. Inr (rc, c)))
    else if r_osd (req_of c r) = None then Inr (0, act Request_next_osdmap c)
    else bindE (send_queued env c) (\<lambda>c. Inr (0, c))))"

section \<open>Resending\<close>

definition kick_linger_request :: "osdc_env \<Rightarrow> nat \<Rightarrow> ceph_osd_client \<Rightarrow> ceph_osd_client res" where
  "kick_linger_request env r c =
    (let o' = r_osd (req_of c r) in
     bindE (if r \<in> set (req_linger c) then unregister_linger_request env r c else unregister_request env r c) (\<lambda>c.
     bindE (register_request env r c) (\<lambda>c.
     Inr (enqueue_request r (upd_req r (\<lambda>x. x\<lparr>r_osd := o'\<rparr>) c)))))"

text \<open>The loop over the requests of a session, up to the first one that was not sent.\<close>

fun collect_sent :: "nat list \<Rightarrow> nat list \<times> nat list \<times> ceph_osd_client \<Rightarrow> nat list \<times> nat list \<times> ceph_osd_client" where
  "collect_sent [] s = s"
| "collect_sent (r # rs) (resend, resend_linger, c) =
    (if r_sent (req_of c r) = 0 then (resend, resend_linger, c)
     else if \<not> r_linger (req_of c r) then
       collect_sent rs (resend @ [r], resend_linger,
         upd_req r (\<lambda>x. x\<lparr>r_flags := r_flags x OR CEPH_OSD_FLAG_RETRY\<rparr>) (lru_del r c))
     else collect_sent rs (resend, resend_linger @ [r], lru_del r c))"

definition kick_osd_requests :: "osdc_env \<Rightarrow> nat \<Rightarrow> ceph_osd_client \<Rightarrow> ceph_osd_client res" where
  "kick_osd_requests env o' c =
    bindE (reset_osd env o' c) (\<lambda>(err, c).
    if err \<noteq> 0 then Inr c
    else
      case collect_sent (o_requests (osd_of c o')) ([], [], c) of
        (resend, resend_linger, c) \<Rightarrow>
          let c = c\<lparr>req_unsent := resend @ req_unsent c\<rparr> in
          bindE (foldE (kick_linger_request env) (o_linger_requests (osd_of c o')) c) (\<lambda>c.
          foldE (kick_linger_request env) resend_linger c))"

definition osd_reset :: "osdc_env \<Rightarrow> nat \<Rightarrow> ceph_osd_client \<Rightarrow> ceph_osd_client res" where
  "osd_reset env o' c = bindE (kick_osd_requests env o' c) (send_queued env)"

definition reset_changed_osd :: "osdc_env \<Rightarrow> nat \<Rightarrow> ceph_osd_client \<Rightarrow> ceph_osd_client res" where
  "reset_changed_osd env o' c =
    bindE (deref (oc_map c)) (\<lambda>om.
    bindE (ceph_osd_is_up om (osd_no c o')) (\<lambda>up.
    bindE (if up then bindE (ceph_osd_addr om (osd_no c o')) (\<lambda>a. bindE (deref a) (\<lambda>a. Inr (o_peer_addr (osd_of c o') \<noteq> a)))
           else Inr True) (\<lambda>changed.
    if changed then bindE (reset_osd env o' c) (\<lambda>(err, c). Inr c) else Inr c)))"

definition reset_changed_osds :: "osdc_env \<Rightarrow> ceph_osd_client \<Rightarrow> ceph_osd_client res" where
  "reset_changed_osds env c = foldE (reset_changed_osd env) (inorder (osds c)) c"

text \<open>The two loops of \<open>kick_requests\<close>; they count the requests that map to no OSD.\<close>

definition kick_request :: "osdc_env \<Rightarrow> bool \<Rightarrow> bool \<Rightarrow> nat \<Rightarrow> nat \<times> ceph_osd_client \<Rightarrow> (nat \<times> ceph_osd_client) res" where
  "kick_request env force_resend force_resend_writes r = (\<lambda>(needmap, c).
    if r_linger (req_of c r) \<and> r \<notin> set (req_linger c) then
      bindE (unregister_request env r c) (\<lambda>c. Inr (needmap, register_linger_request r c))
    else
      bindE (map_request env r (force_resend \<or> force_resend_writes \<and> r_flags (req_of c r) AND CEPH_OSD_FLAG_WRITE \<noteq> 0) c) (\<lambda>(err, c).
      if err < 0 then Inr (needmap, c)
      else if r_osd (req_of c r) = None then Inr (needmap + 1, c)
      else if 0 < err \<and> \<not> r_linger (req_of c r) then
        Inr (needmap, upd_req r (\<lambda>x. x\<lparr>r_flags := r_flags x OR CEPH_OSD_FLAG_RETRY\<rparr>) c)
      else Inr (needmap, c)))"

definition kick_linger :: "osdc_env \<Rightarrow> bool \<Rightarrow> nat \<Rightarrow> nat \<times> ceph_osd_client \<Rightarrow> (nat \<times> ceph_osd_client) res" where
  "kick_linger env force_resend r = (\<lambda>(needmap, c).
    bindE (map_request env r force_resend c) (\<lambda>(err, c).
    if err \<le> 0 then Inr (needmap, c)
    else if r_osd (req_of c r) = None then Inr (needmap + 1, c)
    else
      bindE (register_request env r c) (\<lambda>c.
      bindE (unregister_linger_request env r c) (\<lambda>c. Inr (needmap, c)))))"

definition kick_requests :: "osdc_env \<Rightarrow> bool \<Rightarrow> bool \<Rightarrow> ceph_osd_client \<Rightarrow> ceph_osd_client res" where
  "kick_requests env force_resend force_resend_writes c =
    bindE (foldE (kick_request env force_resend force_resend_writes) (inorder (requests c)) (0, c)) (\<lambda>(needmap, c).
    bindE (foldE (kick_linger env (force_resend \<or> force_resend_writes)) (req_linger c) (needmap, c)) (\<lambda>(needmap, c).
    bindE (reset_changed_osds env c) (\<lambda>c.
    Inr (if needmap \<noteq> 0 then act Request_next_osdmap c else c))))"

end
