(* ===== verification/Crypto.thy ===== *)
theory Crypto
  imports Osd_Client Armor Xattr
begin

text \<open>
  Secret keys and encryption (\<open>net/ceph/crypto.c\<close>): the encoding of keys, padding, and the calls of the
  block cipher of the kernel. The cipher is a parameter: CBC encryption and decryption of a byte string under a
  key and an initial vector, with an error number or the result. Functions return the error number of the C code,
  0 for success, beside what they store through their pointers.
\<close>

section \<open>Error numbers as results\<close>

definition EPERM :: int where "EPERM = 1"

text \<open>The jump to a label for an error: \<open>bad\<close> gets the negative error number.\<close>

definition catchE :: "'a res \<Rightarrow> (int \<Rightarrow> 'b res) \<Rightarrow> ('a \<Rightarrow> 'b res) \<Rightarrow> 'b res" where
  "catchE m bad ok =
    (case m of Inl (Err e) \<Rightarrow> bad (- errno_no e) | Inl s \<Rightarrow> Inl s | Inr x \<Rightarrow> ok x)"

lemma catchE_simps [simp]:
  "catchE (Inl (Err e)) bad ok = bad (- errno_no e)" "catchE (Inl (Fault f)) bad ok = Inl (Fault f)"
  "catchE (Inl Err0) bad ok = Inl Err0" "catchE (Inl NoFuel) bad ok = Inl NoFuel" "catchE (Inr x) bad ok = ok x"
  by (simp_all add: catchE_def)

section \<open>Keys\<close>

record ceph_crypto_key =
  k_type :: int
  k_created :: "u8 list"
  k_len :: int
  k_key :: "u8 list"

definition CEPH_CRYPTO_NONE :: int where "CEPH_CRYPTO_NONE = 0"
definition CEPH_CRYPTO_AES :: int where "CEPH_CRYPTO_AES = 1"

definition ceph_crypto_key_clone :: "(nat \<Rightarrow> bool) \<Rightarrow> ceph_crypto_key \<Rightarrow> int \<times> ceph_crypto_key option" where
  "ceph_crypto_key_clone alloc src = (if alloc (nat (k_len src)) then (0, Some src) else (- ENOMEM_no, None))"

definition ceph_crypto_key_encode :: "ceph_crypto_key \<Rightarrow> u8 list \<Rightarrow> int \<Rightarrow> int \<Rightarrow> (int \<times> u8 list \<times> int) res" where
  "ceph_crypto_key_encode key buf en p =
    (if en < p + 2 + 8 + 2 + k_len key then Inr (- ERANGE_no, buf, p)
     else
       bindE (ceph_encode_16 buf p (word_of_int (k_type key))) (\<lambda>(buf, p).
       bindE (ceph_encode_copy buf p (k_created key)) (\<lambda>(buf, p).
       bindE (ceph_encode_16 buf p (word_of_int (k_len key))) (\<lambda>(buf, p).
       bindE (get_bytes (k_key key) (nat (k_len key)) 0) (\<lambda>k.
       bindE (ceph_encode_copy buf p k) (\<lambda>(buf, p). Inr (0, buf, p)))))))"

definition ceph_crypto_key_decode :: "(nat \<Rightarrow> bool) \<Rightarrow> u8 list \<Rightarrow> int \<Rightarrow> ceph_crypto_key dec" where
  "ceph_crypto_key_decode alloc buf en =
    bindD (ceph_decode_need en (2 * 2 + 8) (Err EINVAL)) (\<lambda>_.
    bindD (ceph_decode_16 buf) (\<lambda>type.
    bindD (ceph_decode_copy buf 8) (\<lambda>created.
    bindD (ceph_decode_16 buf) (\<lambda>len.
    bindD (ceph_decode_need en (unat len) (Err EINVAL)) (\<lambda>_.
    if \<not> alloc (unat len) then failD (Err ENOMEM)
    else
      bindD (ceph_decode_copy buf (unat len)) (\<lambda>key.
      retD \<lparr>k_type = uint type, k_created = created, k_len = uint len, k_key = key\<rparr>))))))"

text \<open>The text is decoded into a buffer of three quarters of its length.\<close>

definition ceph_crypto_key_unarmor :: "(nat \<Rightarrow> bool) \<Rightarrow> u8 list \<Rightarrow> (int \<times> ceph_crypto_key option) res" where
  "ceph_crypto_key_unarmor alloc inkey =
    (let blen = length inkey * 3 div 4 in
     if \<not> alloc blen then Inr (- ENOMEM_no, None)
     else
       catchE (ceph_unarmor inkey) (\<lambda>e. Inr (e, None)) (\<lambda>(bytes, n).
       bindE (guardE (length bytes \<le> blen) (Fault OutOfBounds)) (\<lambda>_.
       catchE (ceph_crypto_key_decode alloc bytes (int n) 0) (\<lambda>e. Inr (e, None)) (\<lambda>(key, p). Inr (0, Some key)))))"

definition ceph_key_instantiate :: "(nat \<Rightarrow> bool) \<Rightarrow> (nat \<Rightarrow> int) \<Rightarrow> u8 list option \<Rightarrow> (int \<times> ceph_crypto_key option) res" where
  "ceph_key_instantiate alloc key_payload_reserve data =
    (case data of
       None \<Rightarrow> Inr (- EINVAL_no, None)
     | Some d \<Rightarrow>
         if length d = 0 \<or> 32767 < length d then Inr (- EINVAL_no, None)
         else if key_payload_reserve (length d) < 0 then Inr (key_payload_reserve (length d), None)
         else if \<not> alloc 32 then Inr (- ENOMEM_no, None)
         else catchE (ceph_crypto_key_decode alloc d (int (length d)) 0) (\<lambda>e. Inr (e, None)) (\<lambda>(key, p). Inr (0, Some key)))"

section \<open>The cipher\<close>

text \<open>
  The crypto library of the kernel and the buffer at hand: an error of \<open>crypto_alloc_blkcipher\<close>, the cipher, the
  result of \<open>sg_alloc_table\<close>, and where the buffer lies.
\<close>

record crypto_api =
  alloc_cipher :: "int option"
  cbc_encrypt :: "u8 list \<Rightarrow> u8 list \<Rightarrow> u8 list \<Rightarrow> int + u8 list"
  cbc_decrypt :: "u8 list \<Rightarrow> u8 list \<Rightarrow> u8 list \<Rightarrow> int + u8 list"
  sg_alloc :: "u32 \<Rightarrow> int"
  is_vmalloc :: bool
  offset_in_page :: u32

definition ceph_crypto_alloc_cipher :: "crypto_api \<Rightarrow> int option" where
  "ceph_crypto_alloc_cipher ca = alloc_cipher ca"

text \<open>\<open>cephsageyudagreg\<close>\<close>

definition aes_iv :: "u8 list" where
  "aes_iv = [0x63, 0x65, 0x70, 0x68, 0x73, 0x61, 0x67, 0x65, 0x79, 0x75, 0x64, 0x61, 0x67, 0x72, 0x65, 0x67]"

text \<open>The pieces of a buffer, each with its length and its offset in its page.\<close>

fun sg_chunks :: "nat \<Rightarrow> u32 \<Rightarrow> u32 \<Rightarrow> u32 \<Rightarrow> (u32 \<times> u32) list" where
  "sg_chunks 0 chunk_len off buf_len = []"
| "sg_chunks (Suc n) chunk_len off buf_len =
    (let len = min (chunk_len - off) buf_len in (len, off) # sg_chunks n chunk_len 0 (buf_len - len))"

definition setup_sgtable :: "crypto_api \<Rightarrow> u32 \<Rightarrow> int + (u32 \<times> u32) list" where
  "setup_sgtable ca buf_len =
    (let off = offset_in_page ca; chunk_len = (off + buf_len + 4095) AND NOT 4095 in
     if buf_len = 0 then Inl (- EINVAL_no)
     else
       let (chunk_cnt, chunk_len) = (if is_vmalloc ca then (drop_bit 12 chunk_len, 4096) else (1, chunk_len)) in
       if 1 < chunk_cnt then
         (if sg_alloc ca chunk_cnt \<noteq> 0 then Inl (sg_alloc ca chunk_cnt) else Inr (sg_chunks (unat chunk_cnt) chunk_len off buf_len))
       else Inr (sg_chunks 1 chunk_len off buf_len))"

text \<open>
  Encryption of one and of two pieces. The result, the destination buffer and the length stored in \<open>dst_len\<close>.
  The destination length is not checked.
\<close>

definition ceph_aes_encrypt :: "crypto_api \<Rightarrow> u8 list \<Rightarrow> u8 list \<Rightarrow> int \<Rightarrow> nat \<Rightarrow> u8 list \<Rightarrow> (int \<times> u8 list \<times> nat) res" where
  "ceph_aes_encrypt ca key dst p dst_len src =
    (case ceph_crypto_alloc_cipher ca of
       Some e \<Rightarrow> Inr (e, dst, dst_len)
     | None \<Rightarrow>
         let zero_padding = 0x10 - length src mod 16; n = length src + zero_padding in
         case setup_sgtable ca (word_of_nat n) of
           Inl e \<Rightarrow> Inr (e, dst, n)
         | Inr _ \<Rightarrow>
             (case cbc_encrypt ca key aes_iv (src @ replicate zero_padding (word_of_nat zero_padding)) of
                Inl e \<Rightarrow> Inr (e, dst, n)
              | Inr bs \<Rightarrow> bindE (put_bytes dst p bs) (\<lambda>dst. Inr (0, dst, n))))"

definition ceph_aes_encrypt2 ::
  "crypto_api \<Rightarrow> u8 list \<Rightarrow> u8 list \<Rightarrow> int \<Rightarrow> nat \<Rightarrow> u8 list \<Rightarrow> u8 list \<Rightarrow> (int \<times> u8 list \<times> nat) res" where
  "ceph_aes_encrypt2 ca key dst p dst_len src1 src2 =
    (case ceph_crypto_alloc_cipher ca of
       Some e \<Rightarrow> Inr (e, dst, dst_len)
     | None \<Rightarrow>
         let zero_padding = 0x10 - (length src1 + length src2) mod 16; n = length src1 + length src2 + zero_padding in
         case setup_sgtable ca (word_of_nat n) of
           Inl e \<Rightarrow> Inr (e, dst, n)
         | Inr _ \<Rightarrow>
             (case cbc_encrypt ca key aes_iv (src1 @ src2 @ replicate zero_padding (word_of_nat zero_padding)) of
                Inl e \<Rightarrow> Inr (e, dst, n)
              | Inr bs \<Rightarrow> bindE (put_bytes dst p bs) (\<lambda>dst. Inr (0, dst, n))))"

text \<open>
  Decryption into one or two buffers, given with their contents, followed by room for one block of padding. The last
  byte is a signed \<open>char\<close>, compared as an \<open>int\<close> with 16 and as a \<open>size_t\<close> with the length. The
  result, and the buffers with the lengths stored for them.
\<close>

definition bad_padding :: "u8 \<Rightarrow> nat \<Rightarrow> bool" where
  "bad_padding b n \<longleftrightarrow> \<not> (sint b \<le> 16 \<and> unat (word_of_int (sint b) :: u64) \<le> n)"

text \<open>Writing the output over the buffers in sequence.\<close>

definition scatter :: "u8 list \<Rightarrow> u8 list \<Rightarrow> u8 list" where
  "scatter out bufs = out @ drop (length out) bufs"

definition ceph_aes_decrypt :: "crypto_api \<Rightarrow> u8 list \<Rightarrow> u8 list \<Rightarrow> u8 list \<Rightarrow> (int \<times> u8 list \<times> nat) res" where
  "ceph_aes_decrypt ca key dst src =
    (let src_len = length src; dst_len = length dst in
     case ceph_crypto_alloc_cipher ca of
       Some e \<Rightarrow> Inr (e, dst, dst_len)
     | None \<Rightarrow>
         (case setup_sgtable ca (word_of_nat src_len) of
            Inl e \<Rightarrow> Inr (e, dst, dst_len)
          | Inr _ \<Rightarrow>
              bindE (guardE (src_len \<le> dst_len + 16) (Fault OutOfBounds)) (\<lambda>_.
              case cbc_decrypt ca key aes_iv src of
                Inl e \<Rightarrow> Inr (e, dst, dst_len)
              | Inr out \<Rightarrow>
                  let mem = scatter out (dst @ replicate 16 0); dst = take dst_len mem in
                  bindE (rd mem (src_len - 1)) (\<lambda>last_byte.
                  if bad_padding last_byte src_len then Inr (- EPERM, dst, dst_len)
                  else Inr (0, dst, src_len - unat last_byte)))))"

definition ceph_aes_decrypt2 ::
  "crypto_api \<Rightarrow> u8 list \<Rightarrow> u8 list \<Rightarrow> u8 list \<Rightarrow> u8 list \<Rightarrow> (int \<times> (u8 list \<times> nat) \<times> (u8 list \<times> nat)) res" where
  "ceph_aes_decrypt2 ca key dst1 dst2 src =
    (let src_len = length src; dst1_len = length dst1; dst2_len = length dst2 in
     case ceph_crypto_alloc_cipher ca of
       Some e \<Rightarrow> Inr (e, (dst1, dst1_len), (dst2, dst2_len))
     | None \<Rightarrow>
         (case setup_sgtable ca (word_of_nat src_len) of
            Inl e \<Rightarrow> Inr (e, (dst1, dst1_len), (dst2, dst2_len))
          | Inr _ \<Rightarrow>
              bindE (guardE (src_len \<le> dst1_len + dst2_len + 16) (Fault OutOfBounds)) (\<lambda>_.
              case cbc_decrypt ca key aes_iv src of
                Inl e \<Rightarrow> Inr (e, (dst1, dst1_len), (dst2, dst2_len))
              | Inr out \<Rightarrow>
                  let mem = scatter out (dst1 @ dst2 @ replicate 16 0);
                      dst1 = take dst1_len mem; dst2 = take dst2_len (drop dst1_len mem) in
                  bindE (rd mem (src_len - 1)) (\<lambda>last_byte.
                  if bad_padding last_byte src_len then Inr (- EPERM, (dst1, dst1_len), (dst2, dst2_len))
                  else
                    let src_len = src_len - unat last_byte in
                    if src_len < dst1_len then Inr (0, (dst1, src_len), (dst2, 0))
                    else Inr (0, (dst1, dst1_len), (dst2, src_len - dst1_len))))))"

section \<open>By the type of the key\<close>

definition ceph_decrypt :: "crypto_api \<Rightarrow> ceph_crypto_key \<Rightarrow> u8 list \<Rightarrow> u8 list \<Rightarrow> (int \<times> u8 list \<times> nat) res" where
  "ceph_decrypt ca secret dst src =
    (if k_type secret = CEPH_CRYPTO_NONE then
       (if length dst < length src then Inr (- ERANGE_no, dst, length dst) else Inr (0, scatter src dst, length src))
     else if k_type secret = CEPH_CRYPTO_AES then ceph_aes_decrypt ca (take (nat (k_len secret)) (k_key secret)) dst src
     else Inr (- EINVAL_no, dst, length dst))"

definition ceph_decrypt2 ::
  "crypto_api \<Rightarrow> ceph_crypto_key \<Rightarrow> u8 list \<Rightarrow> u8 list \<Rightarrow> u8 list \<Rightarrow> (int \<times> (u8 list \<times> nat) \<times> (u8 list \<times> nat)) res" where
  "ceph_decrypt2 ca secret dst1 dst2 src =
    (if k_type secret = CEPH_CRYPTO_NONE then
       (if length dst1 + length dst2 < length src then Inr (- ERANGE_no, (dst1, length dst1), (dst2, length dst2))
        else
          let t = min (length dst1) (length src); rest = drop t src in
          Inr (0, (scatter (take t src) dst1, t),
            (if rest \<noteq> [] then (scatter rest dst2, min (length dst2) (length rest)) else (dst2, length dst2))))
     else if k_type secret = CEPH_CRYPTO_AES then ceph_aes_decrypt2 ca (take (nat (k_len secret)) (k_key secret)) dst1 dst2 src
     else Inr (- EINVAL_no, (dst1, length dst1), (dst2, length dst2)))"

definition ceph_encrypt :: "crypto_api \<Rightarrow> ceph_crypto_key \<Rightarrow> u8 list \<Rightarrow> int \<Rightarrow> nat \<Rightarrow> u8 list \<Rightarrow> (int \<times> u8 list \<times> nat) res" where
  "ceph_encrypt ca secret dst p dst_len src =
    (if k_type secret = CEPH_CRYPTO_NONE then
       (if dst_len < length src then Inr (- ERANGE_no, dst, dst_len)
        else bindE (put_bytes dst p src) (\<lambda>dst. Inr (0, dst, length src)))
     else if k_type secret = CEPH_CRYPTO_AES then ceph_aes_encrypt ca (take (nat (k_len secret)) (k_key secret)) dst p dst_len src
     else Inr (- EINVAL_no, dst, dst_len))"

definition ceph_encrypt2 ::
  "crypto_api \<Rightarrow> ceph_crypto_key \<Rightarrow> u8 list \<Rightarrow> int \<Rightarrow> nat \<Rightarrow> u8 list \<Rightarrow> u8 list \<Rightarrow> (int \<times> u8 list \<times> nat) res" where
  "ceph_encrypt2 ca secret dst p dst_len src1 src2 =
    (if k_type secret = CEPH_CRYPTO_NONE then
       (if dst_len < length src1 + length src2 then Inr (- ERANGE_no, dst, dst_len)
        else
          bindE (put_bytes dst p src1) (\<lambda>dst.
          bindE (put_bytes dst (p + int (length src1)) src2) (\<lambda>dst. Inr (0, dst, length src1 + length src2))))
     else if k_type secret = CEPH_CRYPTO_AES then
       ceph_aes_encrypt2 ca (take (nat (k_len secret)) (k_key secret)) dst p dst_len src1 src2
     else Inr (- EINVAL_no, dst, dst_len))"

section \<open>Keys: safety and round trip\<close>

lemma unarmor_loop_room: "unarmor_loop src dst n = Inr (out, m) \<Longrightarrow> 4 * length out \<le> 4 * length dst + 3 * length src"
proof (induction src dst n rule: unarmor_loop.induct)
  case (2 s0 src dst olen)
  show ?case
  proof (cases "s0 = 10")
    case True
    then show ?thesis using 2(1)[OF True] 2(3) by simp
  next
    case False
    then obtain s1 s2 s3 src' a b c d where src: "src = s1 # s2 # s3 # src'"
      and bits: "decode_bits s0 = Some a" "decode_bits s1 = Some b" "decode_bits s2 = Some c" "decode_bits s3 = Some d"
      using 2(3) by (auto split: list.splits option.splits)
    note IH = 2(2)[OF False src refl refl refl bits(1) refl bits(2) refl bits(3,4) refl _ refl]
    consider "s2 = 61" | "s2 \<noteq> 61" "s3 = 61" | "s2 \<noteq> 61" "s3 \<noteq> 61" by blast
    then show ?thesis using 2(3) False by cases (auto simp: src bits Let_def dest!: IH)
  qed
qed simp

text \<open>The image of a key.\<close>

definition key_image :: "ceph_crypto_key \<Rightarrow> u8 list" where
  "key_image key = le_bytes 2 (word_of_int (k_type key) :: u16) @ k_created key @ le_bytes 2 (word_of_int (k_len key) :: u16) @ k_key key"

definition key_ok :: "ceph_crypto_key \<Rightarrow> bool" where
  "key_ok key \<longleftrightarrow> 0 \<le> k_type key \<and> k_type key < 2 ^ 16 \<and> length (k_created key) = 8 \<and> k_len key = int (length (k_key key)) \<and> length (k_key key) < 2 ^ 16"

lemma get_bytes_mid: "p = int (length a) \<Longrightarrow> n = length b \<Longrightarrow> get_bytes (a @ b @ c) n p = Inr b"
  by (simp add: get_bytes_def)

lemma uint_word_of_int16: "0 \<le> x \<Longrightarrow> x < 2 ^ 16 \<Longrightarrow> uint (word_of_int x :: u16) = x"
  by (simp add: uint_word_of_int)

lemma key_decode_image:
  assumes "key_ok key" and "alloc (length (k_key key))"
  shows "ceph_crypto_key_decode alloc (key_image key) (int (length (key_image key))) 0 = Inr (key, int (length (key_image key)))"
proof -
  let ?t = "le_bytes 2 (word_of_int (k_type key) :: u16)" and ?l = "le_bytes 2 (word_of_int (k_len key) :: u16)"
  have k: "length (k_created key) = 8" "k_len key = int (length (k_key key))" "length (k_key key) < 2 ^ 16"
    "uint (word_of_int (k_type key) :: u16) = k_type key" "uint (word_of_int (k_len key) :: u16) = k_len key"
    using assms(1) uint_word_of_int16[of "k_type key"] uint_word_of_int16[of "k_len key"] by (auto simp: key_ok_def)
  have len: "unat (word_of_nat (length (k_key key)) :: u16) = length (k_key key)" using k(3) by (simp add: unat_of_nat)
  have eq: "\<lparr>k_type = k_type key, k_created = k_created key, k_len = int (length (k_key key)), k_key = k_key key\<rparr> = key"
    using k(2) by (cases key) simp
  have g1: "get_bytes (key_image key) 2 0 = Inr ?t" using get_bytes_mid[of 0 "[]" 2 ?t] by (simp add: key_image_def)
  have g2: "get_bytes (key_image key) 8 2 = Inr (k_created key)" using get_bytes_mid[of 2 ?t 8 "k_created key"] k(1) by (simp add: key_image_def)
  have g3: "get_bytes (key_image key) 2 10 = Inr ?l"
    using get_bytes_mid[of 10 "?t @ k_created key" 2 ?l] k(1) by (simp add: key_image_def)
  have g4: "get_bytes (key_image key) (length (k_key key)) 12 = Inr (k_key key)"
    using get_bytes_mid[of 12 "?t @ k_created key @ ?l" _ "k_key key" "[]"] k(1) by (simp add: key_image_def)
  have n: "length (key_image key) = 12 + length (k_key key)" using k(1) by (simp add: key_image_def)
  have w: "le_word ?t = (word_of_int (k_type key) :: u16)" "le_word ?l = (word_of_int (k_len key) :: u16)" by simp_all
  show ?thesis
    using assms(2) k(2,4,5) by (simp add: ceph_crypto_key_decode_def ceph_decode_need_def ceph_has_room_def bindD_def retD_def ceph_decode_16_def ceph_decode_copy_def g1 g2 g3 g4 len n w eq)
qed

lemma key_unarmor_image:
  assumes "key_ok key" and "\<And>n. alloc n"
  shows "ceph_crypto_key_unarmor alloc (fst (ceph_armor (key_image key))) = Inr (0, Some key)"
proof -
  have u: "ceph_unarmor (fst (ceph_armor (key_image key))) = Inr (key_image key, length (key_image key))"
    by (simp add: ceph_armor_def ceph_unarmor_def armor_loop_length armor_round_trip_loop)
  have "4 * length (key_image key) \<le> 3 * length (fst (ceph_armor (key_image key)))"
    using unarmor_loop_room[OF u[unfolded ceph_unarmor_def]] by simp
  then show ?thesis using u assms by (simp add: ceph_crypto_key_unarmor_def key_decode_image guardE_def)
qed

section \<open>Encryption and decryption\<close>

text \<open>What the code relies on of the cipher: it works on whole blocks, keeps the length, and decryption is its inverse.\<close>

definition good_cipher :: "crypto_api \<Rightarrow> bool" where
  "good_cipher ca \<longleftrightarrow> alloc_cipher ca = None \<and> (\<forall>n. sg_alloc ca n = 0) \<and>
    (\<forall>key x. length x mod 16 = 0 \<longrightarrow> (\<exists>y. cbc_encrypt ca key aes_iv x = Inr y \<and> length y = length x \<and> cbc_decrypt ca key aes_iv y = Inr x))"

lemma setup_sgtable_ok: "good_cipher ca \<Longrightarrow> n \<noteq> 0 \<Longrightarrow> \<exists>cs. setup_sgtable ca n = Inr cs"
  by (simp add: setup_sgtable_def good_cipher_def Let_def)

lemma small_bytes: "list_all (\<lambda>n. sint (word_of_nat n :: u8) = int n \<and> unat (word_of_nat n :: u8) = n \<and> unat (word_of_int (int n) :: u64) = n) [1..<17]"
  by code_simp

lemma padding_good:
  assumes "1 \<le> n" and "n \<le> 16" and "n \<le> m"
  shows "\<not> bad_padding (word_of_nat n) m" "unat (word_of_nat n :: u8) = n"
  using small_bytes assms by (auto simp: list_all_iff bad_padding_def)

lemma padded_length: "(n + (16 - n mod 16)) mod 16 = (0 :: nat)" "1 \<le> 16 - n mod (16 :: nat)" "16 - n mod (16 :: nat) \<le> 16"
  by presburger+

text \<open>
  What is encrypted is decrypted again, in two pieces, with a key of either type.
\<close>

lemma aes_round_trip:
  assumes "good_cipher ca" and "length src1 + length src2 + 16 < 2 ^ 32" and "0 \<le> p"
    and "p + int (length src1 + length src2 + 16) \<le> int (length dst)"
  shows "\<exists>dst' c. ceph_aes_encrypt2 ca key dst p dst_len src1 src2 = Inr (0, dst', length c) \<and> put_bytes dst p c = Inr dst' \<and>
    length c \<le> length src1 + length src2 + 16 \<and>
    (\<forall>d1 d2. length d1 = length src1 \<longrightarrow> length src2 \<le> length d2 \<longrightarrow>
      (\<exists>d2'. ceph_aes_decrypt2 ca key d1 d2 c = Inr (0, (src1, length src1), (d2', length src2)) \<and> take (length src2) d2' = src2))"
proof -
  define pad where "pad = 16 - (length src1 + length src2) mod 16"
  define n where "n = length src1 + length src2 + pad"
  have pad: "1 \<le> pad" "pad \<le> 16" "n mod 16 = 0" using padded_length[of "length src1 + length src2"] by (simp_all add: n_def pad_def)
  define msg where "msg = src1 @ src2 @ replicate pad (word_of_nat pad :: u8)"
  have msg: "length msg = n" by (simp add: msg_def n_def)
  obtain c where c: "cbc_encrypt ca key aes_iv msg = Inr c" "length c = n" "cbc_decrypt ca key aes_iv c = Inr msg"
    using assms(1) pad(3) msg unfolding good_cipher_def by metis
  have "n < 2 ^ 32" "0 < n" using assms(2) pad by (simp_all add: n_def)
  then have "unat (word_of_nat n :: u32) = n" by (simp add: unat_of_nat)
  then have "(word_of_nat n :: u32) \<noteq> 0" using \<open>0 < n\<close> by (metis less_numeral_extra(3) unsigned_0)
  then obtain cs where cs: "setup_sgtable ca (word_of_nat n) = Inr cs" using setup_sgtable_ok[OF assms(1)] by blast
  have ac: "ceph_crypto_alloc_cipher ca = None" using assms(1) by (simp add: good_cipher_def ceph_crypto_alloc_cipher_def)
  have room: "p + int n \<le> int (length dst)" using assms(4) pad(2) by (simp add: n_def)
  then obtain dst' where dst': "put_bytes dst p c = Inr dst'" using assms(3) c(2) by (simp add: put_bytes_def)
  have e: "ceph_aes_encrypt2 ca key dst p dst_len src1 src2 = Inr (0, dst', n)"
    unfolding ceph_aes_encrypt2_def Let_def pad_def[symmetric] n_def[symmetric] msg_def[symmetric] ac option.case cs sum.case c(1) by (simp add: dst')
  have "\<exists>d2'. ceph_aes_decrypt2 ca key d1 d2 c = Inr (0, (src1, length src1), (d2', length src2)) \<and> take (length src2) d2' = src2"
    if d: "length d1 = length src1" "length src2 \<le> length d2" for d1 d2
  proof -
    define mem where "mem = scatter msg (d1 @ d2 @ replicate 16 0)"
    have mem: "take (length src1) mem = src1" "take (length src2) (take (length d2) (drop (length src1) mem)) = src2" "mem ! (n - 1) = word_of_nat pad" "n - 1 < length mem"
      using d(2) pad by (auto simp: mem_def scatter_def msg_def n_def nth_append min_def)
    have "rd mem (n - 1) = Inr (word_of_nat pad)" using mem(3,4) by simp
    moreover have "\<not> bad_padding (word_of_nat pad) n" "unat (word_of_nat pad :: u8) = pad" using padding_good[of pad n] pad by (simp_all add: n_def)
    ultimately have "ceph_aes_decrypt2 ca key d1 d2 c = Inr (0, (src1, length src1), (take (length d2) (drop (length src1) mem), length src2))"
      using ac cs c(2,3) d pad mem(1) unfolding ceph_aes_decrypt2_def Let_def
      by (simp add: mem_def[symmetric] guardE_def n_def)
    then show ?thesis using mem(2) by blast
  qed
  then show ?thesis using e dst' c(2) pad(2) by (intro exI[of _ dst'] exI[of _ c]) (simp add: n_def)
qed

lemma encrypt2_spec:
  assumes "good_cipher ca" and "k_type key = CEPH_CRYPTO_NONE \<or> k_type key = CEPH_CRYPTO_AES"
    and "length src1 + length src2 + 16 < 2 ^ 32" and "0 \<le> p" and "p + int (length src1 + length src2 + 16) \<le> int (length dst)"
    and "length src1 + length src2 \<le> dst_len \<or> k_type key = CEPH_CRYPTO_AES" and "src2 \<noteq> []"
  shows "\<exists>dst' c. ceph_encrypt2 ca key dst p dst_len src1 src2 = Inr (0, dst', length c) \<and> put_bytes dst p c = Inr dst' \<and>
    length c \<le> length src1 + length src2 + 16 \<and>
    (\<forall>d1 d2. length d1 = length src1 \<longrightarrow> length src2 \<le> length d2 \<longrightarrow>
      (\<exists>d2'. ceph_decrypt2 ca key d1 d2 c = Inr (0, (src1, length src1), (d2', length src2)) \<and> take (length src2) d2' = src2))"
proof (cases "k_type key = CEPH_CRYPTO_AES")
  case True
  then show ?thesis
    using aes_round_trip[OF assms(1,3-5), of "take (nat (k_len key)) (k_key key)" dst_len]
    by (simp add: ceph_encrypt2_def ceph_decrypt2_def CEPH_CRYPTO_AES_def CEPH_CRYPTO_NONE_def)
next
  case False
  then have none: "k_type key = CEPH_CRYPTO_NONE" using assms(2) by simp
  obtain q where q: "p = int q" "q + (length src1 + length src2) \<le> length dst" using assms(4,5) nonneg_int_cases[of p] by force
  define dst' where "dst' = take q dst @ src1 @ src2 @ drop (q + (length src1 + length src2)) dst"
  have 1: "put_bytes dst p src1 = Inr (take q dst @ src1 @ drop (q + length src1) dst)"
    using q by (simp add: put_bytes_def)
  have 2: "put_bytes (take q dst @ src1 @ drop (q + length src1) dst) (p + int (length src1)) src2 = Inr dst'"
    using q by (simp add: put_bytes_def dst'_def nat_add_distrib ac_simps)
  have 3: "put_bytes dst p (src1 @ src2) = Inr dst'" using q by (simp add: put_bytes_def dst'_def)
  have 4: "ceph_decrypt2 ca key d1 d2 (src1 @ src2) = Inr (0, (src1, length src1), (scatter src2 d2, length src2))"
    if "length d1 = length src1" "length src2 \<le> length d2" for d1 d2
    using none that assms(7) by (simp add: ceph_decrypt2_def scatter_def Let_def)
  have "ceph_encrypt2 ca key dst p dst_len src1 src2 = Inr (0, dst', length src1 + length src2)"
    using none assms(6) False 1 2 by (simp add: ceph_encrypt2_def)
  then show ?thesis using 3 4 by (intro exI[of _ dst'] exI[of _ "src1 @ src2"]) (auto simp: scatter_def)
qed

lemma unat_min: "unat (min a b :: u32) = min (unat a) (unat b)"
  by (simp add: min_def word_le_nat_alt)

lemma sg_chunks_cover:
  "off \<le> c \<Longrightarrow> unat off + unat b \<le> n * unat c \<Longrightarrow>
    sum_list (map (\<lambda>(len, off). unat len) (sg_chunks n c off b)) = unat b \<and> (\<forall>(len, off)\<in>set (sg_chunks n c off b). unat off + unat len \<le> unat c)"
proof (induction n arbitrary: off b)
  case (Suc n)
  define len where "len = min (c - off) b"
  have u: "unat len = min (unat c - unat off) (unat b)" using Suc.prems(1) by (simp add: len_def unat_min unat_sub)
  have "unat (b - len) = unat b - unat len" by (rule unat_sub) (simp add: len_def)
  moreover from this have "unat (0 :: u32) + unat (b - len) \<le> n * unat c" using Suc.prems u by (simp add: min_def word_le_nat_alt split: if_splits)
  ultimately show ?case using Suc.IH[of 0 "b - len"] u Suc.prems(1)
    by (auto simp: Let_def len_def[symmetric] word_le_nat_alt) (auto simp: min_def)
qed simp

lemma align_bits: "(y :: u32) AND NOT 4095 = push_bit 12 (drop_bit 12 y)"
proof -
  have "(4095 :: u32) = mask 12" by (simp add: mask_eq_exp_minus_1)
  then have "y AND NOT 4095 = y AND NOT (mask 12)" by (rule arg_cong)
  also have "\<dots> = push_bit 12 (drop_bit 12 y)" by (rule bit_word_eqI) (auto simp: bit_simps)
  finally show ?thesis .
qed

lemma round_up: "x \<le> (x + 4095) div 4096 * (4096 :: nat)"
proof -
  have "x + 4095 = (x + 4095) div 4096 * 4096 + (x + 4095) mod 4096" by simp
  moreover have "(x + 4095) mod 4096 < 4096" by simp
  ultimately show ?thesis by linarith
qed

lemma page_align:
  fixes x :: u32
  assumes "unat x + 4095 < 2 ^ 32"
  shows "unat ((x + 4095) AND NOT 4095) = (unat x + 4095) div 4096 * 4096" "unat (drop_bit 12 ((x + 4095) AND NOT 4095)) = (unat x + 4095) div 4096"
proof -
  have u: "unat (x + 4095) = unat x + 4095" using assms by (simp add: unat_word_ariths)
  note m = align_bits[of "x + 4095"]
  have d: "unat (drop_bit 12 (x + 4095)) = (unat x + 4095) div 4096" using unat_div[of "x + 4095" 4096] u by (simp add: drop_bit_eq_div)
  have l: "(unat x + 4095) div 4096 * 4096 < 2 ^ 32" using assms by (metis div_mult_mod_eq le_add1 order_le_less_trans)
  show "unat ((x + 4095) AND NOT 4095) = (unat x + 4095) div 4096 * 4096"
    unfolding m using d l by (simp add: push_bit_eq_mult unat_word_ariths)
  have "drop_bit 12 ((x + 4095) AND NOT 4095) = drop_bit 12 (x + 4095)" unfolding m by (rule bit_word_eqI) (auto simp: bit_simps dest: bit_imp_le_length)
  then show "unat (drop_bit 12 ((x + 4095) AND NOT 4095)) = (unat x + 4095) div 4096" using d by simp
qed

section \<open>Properties\<close>

text \<open>The scatter list of a buffer covers it exactly, and each piece of a buffer that is mapped page by page stays in its page.\<close>

theorem sgtable_covers:
  assumes "0 < n" and "unat (offset_in_page ca) < 4096" and "unat (offset_in_page ca) + unat n + 4095 < 2 ^ 32" and "\<forall>k. sg_alloc ca k = 0"
  shows "\<exists>cs. setup_sgtable ca n = Inr cs \<and> sum_list (map (\<lambda>(len, off). unat len) cs) = unat n \<and>
    (is_vmalloc ca \<longrightarrow> (\<forall>(len, off)\<in>set cs. unat off + unat len \<le> 4096))"
proof -
  let ?off = "offset_in_page ca"
  have x: "unat (?off + n) = unat ?off + unat n" using assms(3) by (simp add: unat_word_ariths)
  define k where "k = (unat ?off + unat n + 4095) div 4096"
  define w where "w = (?off + n + 4095) AND NOT 4095"
  have al: "unat w = k * 4096" "unat (drop_bit 12 w) = k"
    using page_align[of "?off + n"] assms(3) x unfolding w_def k_def by simp_all
  have k1: "unat ?off + unat n \<le> k * 4096" unfolding k_def by (rule round_up)
  have "0 < unat n" using assms(1) by (simp add: word_less_nat_alt)
  then have k: "unat ?off + unat n \<le> k * 4096" "1 \<le> k" using k1 by (simp, cases k) simp_all
  have o: "?off \<le> 4096" "?off \<le> w" using assms(2) k al(1) by (simp_all add: word_le_nat_alt)
  show ?thesis
  proof (cases "is_vmalloc ca")
    case True
    have c: "(1 < drop_bit 12 w) = (1 < k)" using al(2) by (simp add: word_less_nat_alt)
    have "setup_sgtable ca n = Inr (sg_chunks k 4096 ?off n)"
    proof (cases "1 < k")
      case many: True
      then show ?thesis using True assms(1,4) c unfolding setup_sgtable_def Let_def w_def[symmetric] by (simp add: word_gt_0 al(2))
    next
      case False
      then have "k = 1" using k(2) by simp
      then show ?thesis using True assms(1,4) c unfolding setup_sgtable_def Let_def w_def[symmetric] by (simp add: word_gt_0)
    qed
    then show ?thesis using sg_chunks_cover[OF o(1), of n k] k(1) by simp
  next
    case False
    then have "setup_sgtable ca n = Inr (sg_chunks 1 w ?off n)" using assms(1) unfolding setup_sgtable_def Let_def w_def[symmetric] by (simp add: word_gt_0)
    then show ?thesis using sg_chunks_cover[OF o(2), of n 1] al(1) k(1) False by simp
  qed
qed

definition example_crypto :: crypto_api where
  "example_crypto = \<lparr>alloc_cipher = None, cbc_encrypt = (\<lambda>k iv x. Inr (rev x)), cbc_decrypt = (\<lambda>k iv x. Inr (rev x)), sg_alloc = (\<lambda>_. 0),
     is_vmalloc = True, offset_in_page = 100\<rparr>"

lemma example_crypto_good: "good_cipher example_crypto"
  by (simp add: good_cipher_def example_crypto_def)

theorem sgtable_covers_witness:
  "\<exists>cs. setup_sgtable example_crypto 5000 = Inr cs \<and> sum_list (map (\<lambda>(len, off). unat len) cs) = 5000"
  using sgtable_covers[of 5000 example_crypto] by (auto simp: example_crypto_def)



text \<open>C36: A secret key that is written in its text form, as in the options of a mount, is read back as it was; the decoded bytes fit the buffer
  that is allocated for them.\<close>

theorem key_armor_round_trip:
  assumes "key_ok key" and "\<forall>n. alloc n"
  shows "ceph_crypto_key_unarmor alloc (fst (ceph_armor (key_image key))) = Inr (0, Some key)"
  using key_unarmor_image[OF assms(1)] assms(2) by blast

theorem key_armor_round_trip_witness:
  "ceph_crypto_key_unarmor (\<lambda>_. True) (fst (ceph_armor (key_image \<lparr>k_type = 1, k_created = replicate 8 3, k_len = 2, k_key = [7, 8]\<rparr>))) =
    Inr (0, Some \<lparr>k_type = 1, k_created = replicate 8 3, k_len = 2, k_key = [7, 8]\<rparr>)"
  by (rule key_armor_round_trip) (simp_all add: key_ok_def)

end
