(* ===== verification/Auth_X.thy ===== *)
theory Auth_X
  imports Crypto
begin

text \<open>
  Authentication (\<open>net/ceph/auth_x.c\<close>, \<open>net/ceph/auth_none.c\<close>): the tickets of the cephx protocol, its requests to the monitor, and the
  authorizers shown to other servers; and the protocol without security. The functions get the client they belong to and the
  private state of the protocol, and return the error number of the C code beside the new state.
\<close>

section \<open>State\<close>

record ceph_x_ticket_handler =
  th_service :: u32
  th_session_key :: ceph_crypto_key
  th_validity :: "u8 list"
  th_secret_id :: u64
  th_ticket_blob :: "ceph_buffer option"
  th_renew_after :: u64
  th_expires :: u64

record ceph_x_authorizer =
  au_buf :: "ceph_buffer option"
  au_service :: u32
  au_nonce :: u64
  au_secret_id :: u64
  au_reply_buf :: "u8 list"

record ceph_x_info =
  xi_secret :: ceph_crypto_key
  xi_starting :: bool
  server_challenge :: u64
  have_keys :: u32
  ticket_handlers :: "ceph_x_ticket_handler tree"
  auth_authorizer :: ceph_x_authorizer

record ceph_auth_none_info =
  ni_starting :: bool
  built_authorizer :: bool
  na_buf :: "u8 list"
  na_buf_len :: nat

text \<open>The pointer to the private state, and the table of operations.\<close>

datatype auth_private = Private_null | Private_none ceph_auth_none_info | Private_x ceph_x_info

datatype auth_ops = Ceph_auth_none_ops | Ceph_x_ops

record ceph_auth_client =
  protocol :: u32
  ac_private :: auth_private
  ac_ops :: "auth_ops option"
  negotiating :: bool
  ac_name :: "u8 list"
  global_id :: u64
  ac_key :: "ceph_crypto_key option"
  want_keys :: u32

text \<open>
  What the operations depend on: memory, with the contents of fresh memory, the time in seconds, the next random number, the cipher, and the
  balancing of the tree of tickets.
\<close>

record auth_env =
  ae_alloc :: "nat \<Rightarrow> bool"
  fresh_mem :: "nat \<Rightarrow> u8 list"
  get_seconds :: u64
  random64 :: u64
  ae_crypto :: crypto_api
  th_color :: "ceph_x_ticket_handler tree \<Rightarrow> ceph_x_ticket_handler tree"

definition CEPH_ENTITY_TYPE_AUTH :: u32 where "CEPH_ENTITY_TYPE_AUTH = 0x20"
definition CEPHX_ENC_MAGIC :: u64 where "CEPHX_ENC_MAGIC = 0xff009cad8826aa55"
definition CEPHX_GET_AUTH_SESSION_KEY :: u16 where "CEPHX_GET_AUTH_SESSION_KEY = 0x0100"
definition CEPHX_GET_PRINCIPAL_SESSION_KEY :: u16 where "CEPHX_GET_PRINCIPAL_SESSION_KEY = 0x0200"

definition zero_key :: ceph_crypto_key where
  "zero_key = \<lparr>k_type = 0, k_created = replicate 8 0, k_len = 0, k_key = []\<rparr>"

definition zero_authorizer :: ceph_x_authorizer where
  "zero_authorizer = \<lparr>au_buf = None, au_service = 0, au_nonce = 0, au_secret_id = 0, au_reply_buf = replicate 128 0\<rparr>"

section \<open>Encryption with a header\<close>

definition encrypt_header :: "u8 list" where
  "encrypt_header = 1 # le_bytes 8 CEPHX_ENC_MAGIC"

definition ceph_x_encrypt_buflen :: "int \<Rightarrow> int" where
  "ceph_x_encrypt_buflen ilen = 9 + ilen + 16 + 4"

definition ceph_x_encrypt :: "crypto_api \<Rightarrow> ceph_crypto_key \<Rightarrow> u8 list \<Rightarrow> u8 list \<Rightarrow> int \<Rightarrow> u64 \<Rightarrow> (int \<times> u8 list) res" where
  "ceph_x_encrypt ca secret ibuf obuf p olen =
    bindE (ceph_encrypt2 ca secret obuf (p + 4) (unat (olen - 4)) encrypt_header ibuf) (\<lambda>(ret, obuf, len).
    if ret \<noteq> 0 then Inr (ret, obuf)
    else bindE (ceph_encode_32 obuf p (word_of_nat len)) (\<lambda>(obuf, q). Inr (int len + 4, obuf)))"

text \<open>
  The result, the position, and the output buffer, which is allocated when there is none. A negative length becomes
  a very large size.
\<close>

definition ceph_x_decrypt ::
  "auth_env \<Rightarrow> ceph_crypto_key \<Rightarrow> u8 list \<Rightarrow> int \<Rightarrow> int \<Rightarrow> u8 list option \<Rightarrow> (int \<times> int \<times> u8 list option) res" where
  "ceph_x_decrypt env secret buf en p obuf =
    bindE (ceph_decode_32 buf p) (\<lambda>(len, p).
    let n = unat (scast len :: u64) in
    if en < p + sint len then Inr (- EINVAL_no, p, obuf)
    else if obuf = None \<and> \<not> ae_alloc env n then Inr (- ENOMEM_no, p, None)
    else
      let mem = (case obuf of None \<Rightarrow> fresh_mem env n | Some b \<Rightarrow> b) in
      bindE (get_bytes buf n p) (\<lambda>src.
      bindE (ceph_decrypt2 (ae_crypto env) secret (fresh_mem env 9) mem src) (\<lambda>(ret, (head, head_len), (mem, olen)).
      if ret \<noteq> 0 then Inr (ret, p, Some mem)
      else if head \<noteq> encrypt_header then Inr (- EPERM, p, Some mem)
      else Inr (int olen, p + sint len, Some mem))))"

section \<open>Tickets\<close>

definition zero_handler :: "u32 \<Rightarrow> ceph_x_ticket_handler" where
  "zero_handler service = \<lparr>th_service = service, th_session_key = zero_key, th_validity = replicate 8 0, th_secret_id = 0,
     th_ticket_blob = None, th_renew_after = 0, th_expires = 0\<rparr>"

text \<open>The handler, and the state with the handler in it; nothing when memory is short.\<close>

definition get_ticket_handler :: "auth_env \<Rightarrow> u32 \<Rightarrow> ceph_x_info \<Rightarrow> (ceph_x_ticket_handler \<times> ceph_x_info) option" where
  "get_ticket_handler env service xi =
    (case lookup_by th_service (ticket_handlers xi) service of
       Some th \<Rightarrow> Some (th, xi)
     | None \<Rightarrow>
         if \<not> ae_alloc env 120 then None
         else
           case link_by th_service (zero_handler service) (ticket_handlers xi) of
             None \<Rightarrow> None
           | Some t \<Rightarrow> Some (zero_handler service, xi\<lparr>ticket_handlers := th_color env t\<rparr>))"

text \<open>Storing into the handler of a service.\<close>

definition upd_handler :: "u32 \<Rightarrow> (ceph_x_ticket_handler \<Rightarrow> ceph_x_ticket_handler) \<Rightarrow> ceph_x_info \<Rightarrow> ceph_x_info" where
  "upd_handler service f xi =
    xi\<lparr>ticket_handlers := map_tree (\<lambda>th. if th_service th = service then f th else th) (ticket_handlers xi)\<rparr>"

text \<open>The secret of a reply is a pointer: to the key of the client, or to the session key of a handler, which the reply may change.\<close>

datatype x_secret = Own_secret | Session_key_of u32

definition secret_of :: "x_secret \<Rightarrow> ceph_x_info \<Rightarrow> ceph_crypto_key" where
  "secret_of s xi =
    (case s of
       Own_secret \<Rightarrow> xi_secret xi
     | Session_key_of service \<Rightarrow>
         (case lookup_by th_service (ticket_handlers xi) service of None \<Rightarrow> zero_key | Some th \<Rightarrow> th_session_key th))"

text \<open>The part of a ticket that may be encrypted: the secret number and the blob for the service.\<close>

definition decode_ticket_blob :: "(nat \<Rightarrow> bool) \<Rightarrow> u8 list \<Rightarrow> int \<Rightarrow> (u64 \<times> ceph_buffer) dec" where
  "decode_ticket_blob alloc buf en =
    bindD (ceph_decode_32_safe buf en (Err EINVAL)) (\<lambda>dlen.
    bindD (ceph_decode_need en (1 + 8) (Err EINVAL)) (\<lambda>_.
    bindD (ceph_decode_8 buf) (\<lambda>blob_struct_v.
    bindD (ceph_decode_64 buf) (\<lambda>new_secret_id.
    bindD (ceph_decode_buffer alloc buf en) (\<lambda>new_ticket_blob.
    retD (new_secret_id, new_ticket_blob))))))"

text \<open>The blob for the client, decrypted: the session key and how long it is valid. The validity is read without a check.\<close>

definition decode_session :: "(nat \<Rightarrow> bool) \<Rightarrow> u8 list \<Rightarrow> int \<Rightarrow> (ceph_crypto_key \<times> u8 list) dec" where
  "decode_session alloc dbuf dend =
    bindD (ceph_decode_8 dbuf) (\<lambda>tkt_struct_v.
    if tkt_struct_v \<noteq> 1 then failD (Err EINVAL)
    else
      bindD (ceph_crypto_key_decode alloc dbuf dend) (\<lambda>new_session_key.
      bindD (ceph_decode_copy dbuf 8) (\<lambda>new_validity.
      retD (new_session_key, new_validity))))"

definition store_ticket ::
  "auth_env \<Rightarrow> u32 \<Rightarrow> ceph_crypto_key \<Rightarrow> u8 list \<Rightarrow> u64 \<Rightarrow> ceph_buffer \<Rightarrow> ceph_x_info \<Rightarrow> ceph_x_info" where
  "store_ticket env type new_session_key new_validity new_secret_id new_ticket_blob xi =
    (let tv_sec = ucast (le_word (take 4 new_validity) :: u32) :: u64;
         new_expires = get_seconds env + tv_sec;
         new_renew_after = new_expires - tv_sec div 4;
         xi = upd_handler type (\<lambda>th. th\<lparr>th_session_key := new_session_key, th_ticket_blob := Some new_ticket_blob, th_validity := new_validity,
                th_secret_id := new_secret_id, th_expires := new_expires, th_renew_after := new_renew_after\<rparr>) xi in
     xi\<lparr>have_keys := have_keys xi OR type\<rparr>)"

definition process_one_ticket ::
  "auth_env \<Rightarrow> x_secret \<Rightarrow> u8 list \<Rightarrow> int \<Rightarrow> int \<Rightarrow> ceph_x_info \<Rightarrow> (int \<times> int \<times> ceph_x_info) res" where
  "process_one_ticket env secret buf en p xi =
    catchE (bindD (ceph_decode_need en (4 + 1) (Err EINVAL)) (\<lambda>_.
            bindD (ceph_decode_32 buf) (\<lambda>type.
            bindD (ceph_decode_8 buf) (\<lambda>tkt_struct_v.
            if tkt_struct_v \<noteq> 1 then failD (Err EINVAL) else retD type))) p) (\<lambda>e. Inr (e, p, xi)) (\<lambda>(type, p).
    case get_ticket_handler env type xi of
      None \<Rightarrow> Inr (- ENOMEM_no, p, xi)
    | Some (th, xi) \<Rightarrow>
        bindE (ceph_x_decrypt env (secret_of secret xi) buf en p None) (\<lambda>(dlen, p, dbuf).
        if dlen \<le> 0 then Inr (dlen, p, xi)
        else
          let old_key = th_session_key th in
          catchE (decode_session (ae_alloc env) (case dbuf of None \<Rightarrow> [] | Some b \<Rightarrow> b) dlen 0) (\<lambda>e. Inr (e, p, xi)) (\<lambda>((new_session_key, new_validity), dp).
          catchE (ceph_decode_8_safe buf en (Err EINVAL) p) (\<lambda>e. Inr (e, p, xi)) (\<lambda>(is_enc, p).
          if is_enc \<noteq> 0 then
            bindE (ceph_x_decrypt env old_key buf en p None) (\<lambda>(dlen, p, ticket_buf).
            if dlen < 0 then Inr (dlen, p, xi)
            else
              catchE (decode_ticket_blob (ae_alloc env) (case ticket_buf of None \<Rightarrow> [] | Some b \<Rightarrow> b) dlen 0) (\<lambda>e. Inr (e, p, xi)) (\<lambda>((sid, tb), tp).
              Inr (0, p, store_ticket env type new_session_key new_validity sid tb xi)))
          else
            catchE (decode_ticket_blob (ae_alloc env) buf en p) (\<lambda>e. Inr (e, p, xi)) (\<lambda>((sid, tb), p).
            Inr (0, p, store_ticket env type new_session_key new_validity sid tb xi))))))"

fun ticket_loop :: "auth_env \<Rightarrow> x_secret \<Rightarrow> u8 list \<Rightarrow> int \<Rightarrow> nat \<Rightarrow> int \<Rightarrow> ceph_x_info \<Rightarrow> (int \<times> ceph_x_info) res" where
  "ticket_loop env secret buf en 0 p xi = Inr (0, xi)"
| "ticket_loop env secret buf en (Suc num) p xi =
    bindE (process_one_ticket env secret buf en p xi) (\<lambda>(ret, p, xi).
    if ret \<noteq> 0 then Inr (ret, xi) else ticket_loop env secret buf en num p xi)"

definition ceph_x_proc_ticket_reply ::
  "auth_env \<Rightarrow> x_secret \<Rightarrow> u8 list \<Rightarrow> int \<Rightarrow> int \<Rightarrow> ceph_x_info \<Rightarrow> (int \<times> ceph_x_info) res" where
  "ceph_x_proc_ticket_reply env secret buf en p xi =
    catchE (bindD (ceph_decode_8_safe buf en (Err EINVAL)) (\<lambda>reply_struct_v.
            if reply_struct_v \<noteq> 1 then failD (Err EINVAL) else ceph_decode_32_safe buf en (Err EINVAL)) p)
      (\<lambda>e. Inr (e, xi)) (\<lambda>(num, p). ticket_loop env secret buf en (unat num) p xi)"

text \<open>The services that are wanted, one bit each; wanted bits are below \<open>2^30\<close>.\<close>

definition services :: "u32 \<Rightarrow> u32 list" where
  "services want = takeWhile (\<lambda>s. sint s \<le> sint want) (map (\<lambda>i. push_bit i 1) [0..<31])"

definition validate_ticket :: "auth_env \<Rightarrow> u32 \<Rightarrow> u32 \<Rightarrow> u32 \<times> ceph_x_info \<Rightarrow> u32 \<times> ceph_x_info" where
  "validate_ticket env want service = (\<lambda>(needed, xi).
    if want AND service = 0 then (needed, xi)
    else if needed AND service \<noteq> 0 then (needed, xi)
    else
      case get_ticket_handler env service xi of
        None \<Rightarrow> (needed OR service, xi)
      | Some (th, xi) \<Rightarrow>
          (if th_renew_after th \<le> get_seconds env then needed OR service else needed,
           if th_expires th \<le> get_seconds env then xi\<lparr>have_keys := have_keys xi AND NOT service\<rparr> else xi))"

definition ceph_x_validate_tickets :: "auth_env \<Rightarrow> ceph_auth_client \<Rightarrow> ceph_x_info \<Rightarrow> u32 \<times> ceph_x_info" where
  "ceph_x_validate_tickets env ac xi =
    fold (validate_ticket env (want_keys ac)) (services (want_keys ac)) (want_keys ac AND NOT (have_keys xi), xi)"

definition ceph_x_is_authenticated :: "auth_env \<Rightarrow> ceph_auth_client \<Rightarrow> ceph_x_info \<Rightarrow> bool \<times> ceph_x_info" where
  "ceph_x_is_authenticated env ac xi =
    (case ceph_x_validate_tickets env ac xi of (needed, xi) \<Rightarrow> (want_keys ac AND have_keys xi = want_keys ac, xi))"

definition ceph_x_should_authenticate :: "auth_env \<Rightarrow> ceph_auth_client \<Rightarrow> ceph_x_info \<Rightarrow> bool \<times> ceph_x_info" where
  "ceph_x_should_authenticate env ac xi = (case ceph_x_validate_tickets env ac xi of (needed, xi) \<Rightarrow> (needed \<noteq> 0, xi))"

section \<open>Authorizers\<close>

definition authorize_a :: "ceph_auth_client \<Rightarrow> ceph_x_ticket_handler \<Rightarrow> u8 list" where
  "authorize_a ac th =
    [1] @ le_bytes 8 (global_id ac) @ le_bytes 4 (th_service th) @ [1] @ le_bytes 8 (th_secret_id th) @
    (case th_ticket_blob th of None \<Rightarrow> le_bytes 4 (0 :: u32) | Some b \<Rightarrow> le_bytes 4 (word_of_nat (iov_len b) :: u32) @ take (iov_len b) (iov_base b))"

definition ceph_x_build_authorizer ::
  "auth_env \<Rightarrow> ceph_auth_client \<Rightarrow> ceph_x_ticket_handler \<Rightarrow> ceph_x_authorizer \<Rightarrow> (int \<times> ceph_x_authorizer) res" where
  "ceph_x_build_authorizer env ac th au =
    (let ticket_blob_len = (case th_ticket_blob th of None \<Rightarrow> 0 | Some b \<Rightarrow> int (iov_len b));
         maxlen = 26 + 9 + ceph_x_encrypt_buflen ticket_blob_len;
         au = (case au_buf au of None \<Rightarrow> au | Some b \<Rightarrow> if int (alloc_len b) < maxlen then au\<lparr>au_buf := None\<rparr> else au) in
     case (case au_buf au of None \<Rightarrow> ceph_buffer_new (ae_alloc env) (nat maxlen) | Some b \<Rightarrow> Some b) of
       None \<Rightarrow> Inr (- ENOMEM_no, au)
     | Some b \<Rightarrow>
         let au = au\<lparr>au_buf := Some b, au_service := th_service th, au_secret_id := th_secret_id th\<rparr> in
         bindE (put_bytes (iov_base b) 0 (authorize_a ac th)) (\<lambda>base.
         let p = 26 + ticket_blob_len; en = int (iov_len b);
             au = au\<lparr>au_nonce := random64 env\<rparr> in
         bindE (ceph_x_encrypt (ae_crypto env) (th_session_key th) (1 # le_bytes 8 (au_nonce au)) base p (word_of_int (en - p))) (\<lambda>(ret, base).
         if ret < 0 then Inr (ret, au\<lparr>au_buf := None\<rparr>)
         else
           bindE (guardE (p + ret \<le> maxlen) (Fault BugOn)) (\<lambda>_.
           Inr (0, au\<lparr>au_buf := Some \<lparr>iov_base = base, iov_len = nat (p + ret)\<rparr>\<rparr>)))))"

definition ceph_x_encode_ticket :: "ceph_x_ticket_handler \<Rightarrow> u8 list \<Rightarrow> int \<Rightarrow> int \<Rightarrow> (int \<times> u8 list \<times> int) res" where
  "ceph_x_encode_ticket th buf en p =
    (if \<not> ceph_has_room p en (1 + 8) then Inr (- ERANGE_no, buf, p)
     else
       bindE (ceph_encode_8 buf p 1) (\<lambda>(buf, p).
       bindE (ceph_encode_64 buf p (th_secret_id th)) (\<lambda>(buf, p).
       if \<not> ceph_has_room p en 4 then Inr (- ERANGE_no, buf, p)
       else
         case th_ticket_blob th of
           Some b \<Rightarrow>
             bindE (ceph_encode_32 buf p (word_of_nat (iov_len b))) (\<lambda>(buf, p).
             if \<not> ceph_has_room p en (iov_len b) then Inr (- ERANGE_no, buf, p)
             else bindE (ceph_encode_copy buf p (take (iov_len b) (iov_base b))) (\<lambda>(buf, p). Inr (0, buf, p)))
         | None \<Rightarrow> bindE (ceph_encode_32 buf p 0) (\<lambda>(buf, p). Inr (0, buf, p)))))"

section \<open>Requests and replies\<close>

text \<open>The exclusive or of the whole words of eight bytes.\<close>

function xor_words :: "u8 list \<Rightarrow> u64" where
  "xor_words bs = (if length bs < 8 then 0 else le_word (take 8 bs) XOR xor_words (drop 8 bs))"
  by pat_completeness auto
termination by (relation "measure length") auto

declare xor_words.simps [simp del]

definition build_authenticate ::
  "auth_env \<Rightarrow> ceph_x_ticket_handler \<Rightarrow> u8 list \<Rightarrow> int \<Rightarrow> int \<Rightarrow> ceph_x_info \<Rightarrow> (int \<times> u8 list) res" where
  "build_authenticate env th buf en p xi =
    (let q = p + 2 + 17 in
     if en < q then Inr (- ERANGE_no, buf)
     else
       let client_challenge = random64 env in
       bindE (put_bytes buf p (le_bytes 2 CEPHX_GET_AUTH_SESSION_KEY)) (\<lambda>buf.
       bindE (put_bytes buf (p + 2 + 1) (le_bytes 8 client_challenge)) (\<lambda>buf.
       bindE (ceph_x_encrypt (ae_crypto env) (xi_secret xi) (le_bytes 8 (server_challenge xi) @ le_bytes 8 client_challenge)
                (fresh_mem env 40) 0 40) (\<lambda>(ret, tmp_enc).
       if ret < 0 then Inr (ret, buf)
       else
         bindE (put_bytes buf (p + 2) [1]) (\<lambda>buf.
         bindE (put_bytes buf (p + 2 + 9) (le_bytes 8 (xor_words (take (nat ret) tmp_enc)))) (\<lambda>buf.
         bindE (ceph_x_encode_ticket th buf en q) (\<lambda>(ret, buf, q).
         if ret < 0 then Inr (ret, buf) else Inr (q - p, buf))))))))"

text \<open>The authorizer is copied behind the header without a look at the end; one byte of the request is left as it was.\<close>

definition build_ticket_request ::
  "auth_env \<Rightarrow> ceph_auth_client \<Rightarrow> ceph_x_ticket_handler \<Rightarrow> u32 \<Rightarrow> u8 list \<Rightarrow> int \<Rightarrow> int \<Rightarrow> ceph_x_info \<Rightarrow> (int \<times> u8 list \<times> ceph_x_info) res" where
  "build_ticket_request env ac th needed buf en p xi =
    (let q = p + 2 in
     if en < q then Inr (- ERANGE_no, buf, xi)
     else
       bindE (put_bytes buf p (le_bytes 2 CEPHX_GET_PRINCIPAL_SESSION_KEY)) (\<lambda>buf.
       bindE (ceph_x_build_authorizer env ac th (auth_authorizer xi)) (\<lambda>(ret, au).
       let xi = xi\<lparr>auth_authorizer := au\<rparr> in
       if ret \<noteq> 0 then Inr (ret, buf, xi)
       else
         bindE (deref (au_buf au)) (\<lambda>b.
         bindE (ceph_encode_copy buf q (take (iov_len b) (iov_base b))) (\<lambda>(buf, q).
         bindE (put_bytes buf (q + 1) (le_bytes 4 needed)) (\<lambda>buf.
         Inr (q + 5 - p, buf, xi)))))))"

definition ceph_x_build_request ::
  "auth_env \<Rightarrow> ceph_auth_client \<Rightarrow> u8 list \<Rightarrow> int \<Rightarrow> int \<Rightarrow> ceph_x_info \<Rightarrow> (int \<times> u8 list \<times> ceph_x_info) res" where
  "ceph_x_build_request env ac buf en p xi =
    (case get_ticket_handler env CEPH_ENTITY_TYPE_AUTH xi of
       None \<Rightarrow> Inr (- ENOMEM_no, buf, xi)
     | Some (th, xi) \<Rightarrow>
         (case ceph_x_validate_tickets env ac xi of
            (needed, xi) \<Rightarrow>
              if needed AND CEPH_ENTITY_TYPE_AUTH \<noteq> 0 then
                bindE (build_authenticate env th buf en p xi) (\<lambda>(ret, buf). Inr (ret, buf, xi))
              else if needed \<noteq> 0 then build_ticket_request env ac th needed buf en p xi
              else Inr (0, buf, xi)))"

definition ceph_x_handle_reply ::
  "auth_env \<Rightarrow> ceph_auth_client \<Rightarrow> int \<Rightarrow> u8 list \<Rightarrow> int \<Rightarrow> int \<Rightarrow> ceph_x_info \<Rightarrow> (int \<times> ceph_x_info) res" where
  "ceph_x_handle_reply env ac result buf en p xi =
    (if result \<noteq> 0 then Inr (result, xi)
     else if xi_starting xi then
       (if en - p \<noteq> 9 then Inr (- EINVAL_no, xi)
        else
          bindE (get_bytes buf 8 (p + 1)) (\<lambda>sc.
          Inr (- EAGAIN, xi\<lparr>server_challenge := le_word sc, xi_starting := False,
                            have_keys := have_keys xi AND NOT CEPH_ENTITY_TYPE_AUTH\<rparr>)))
     else
       bindE (get_bytes buf 2 p) (\<lambda>opb.
       bindE (get_bytes buf 4 (p + 2)) (\<lambda>resb.
       bindE (if le_word opb = CEPHX_GET_AUTH_SESSION_KEY then ceph_x_proc_ticket_reply env Own_secret buf en (p + 6) xi
              else if le_word opb = CEPHX_GET_PRINCIPAL_SESSION_KEY then
                (case get_ticket_handler env CEPH_ENTITY_TYPE_AUTH xi of
                   None \<Rightarrow> Inr (- ENOMEM_no, xi)
                 | Some (th, xi) \<Rightarrow> ceph_x_proc_ticket_reply env (Session_key_of CEPH_ENTITY_TYPE_AUTH) buf en (p + 6) xi)
              else Inr (- EINVAL_no, xi)) (\<lambda>(ret, xi).
       if ret \<noteq> 0 then Inr (ret, xi)
       else if want_keys ac = have_keys xi then Inr (0, xi)
       else Inr (- EAGAIN, xi)))))"

section \<open>Connecting to other servers\<close>

text \<open>
  The handshake of a connection: the authorizer, and the buffer and length the messenger uses, which point into it. Building a larger
  authorizer replaces the buffer, and the pointer of the handshake is left behind.
\<close>

datatype ceph_authorizer = None_authorizer | X_authorizer ceph_x_authorizer

record ceph_auth_handshake =
  hs_authorizer :: ceph_authorizer
  hs_buf_valid :: bool
  hs_buf_len :: nat
  hs_reply_buf_len :: nat

definition ceph_x_create_authorizer ::
  "auth_env \<Rightarrow> ceph_auth_client \<Rightarrow> u32 \<Rightarrow> ceph_x_info \<Rightarrow> (int \<times> ceph_auth_handshake option \<times> ceph_x_info) res" where
  "ceph_x_create_authorizer env ac peer_type xi =
    (case get_ticket_handler env peer_type xi of
       None \<Rightarrow> Inr (- ENOMEM_no, None, xi)
     | Some (th, xi) \<Rightarrow>
         if \<not> ae_alloc env 168 then Inr (- ENOMEM_no, None, xi)
         else
           bindE (ceph_x_build_authorizer env ac th zero_authorizer) (\<lambda>(ret, au).
           if ret \<noteq> 0 then Inr (ret, None, xi)
           else
             bindE (deref (au_buf au)) (\<lambda>b.
             Inr (0, Some \<lparr>hs_authorizer = X_authorizer au, hs_buf_valid = True, hs_buf_len = iov_len b, hs_reply_buf_len = 128\<rparr>, xi))))"

definition ceph_x_update_authorizer ::
  "auth_env \<Rightarrow> ceph_auth_client \<Rightarrow> u32 \<Rightarrow> ceph_auth_handshake \<Rightarrow> ceph_x_info \<Rightarrow> (int \<times> ceph_auth_handshake \<times> ceph_x_info) res" where
  "ceph_x_update_authorizer env ac peer_type auth xi =
    (case get_ticket_handler env peer_type xi of
       None \<Rightarrow> Inr (- ENOMEM_no, auth, xi)
     | Some (th, xi) \<Rightarrow>
         (case hs_authorizer auth of
            None_authorizer \<Rightarrow> Inl (Fault TypeConfusion)
          | X_authorizer au \<Rightarrow>
              if au_secret_id au < th_secret_id th then
                bindE (ceph_x_build_authorizer env ac th au) (\<lambda>(ret, au').
                Inr (ret, auth\<lparr>hs_authorizer := X_authorizer au',
                    hs_buf_valid := hs_buf_valid auth \<and> map_option alloc_len (au_buf au') = map_option alloc_len (au_buf au)\<rparr>, xi))
              else Inr (0, auth, xi)))"

definition ceph_x_verify_authorizer_reply ::
  "auth_env \<Rightarrow> ceph_x_authorizer \<Rightarrow> ceph_x_info \<Rightarrow> (int \<times> ceph_x_info) res" where
  "ceph_x_verify_authorizer_reply env au xi =
    (case get_ticket_handler env (au_service au) xi of
       None \<Rightarrow> Inr (- ENOMEM_no, xi)
     | Some (th, xi) \<Rightarrow>
         bindE (ceph_x_decrypt env (th_session_key th) (au_reply_buf au) (int (length (au_reply_buf au))) 0 (Some (fresh_mem env 9))) (\<lambda>(ret, p, reply).
         if ret < 0 then Inr (ret, xi)
         else if ret \<noteq> 9 then Inr (- EPERM, xi)
         else
           bindE (get_bytes (case reply of None \<Rightarrow> [] | Some r \<Rightarrow> r) 8 1) (\<lambda>n.
           Inr (if au_nonce au + 1 \<noteq> le_word n then - EPERM else 0, xi))))"

definition ceph_x_reset :: "ceph_x_info \<Rightarrow> ceph_x_info" where
  "ceph_x_reset xi = xi\<lparr>xi_starting := True, server_challenge := 0\<rparr>"

definition ceph_x_invalidate_authorizer :: "auth_env \<Rightarrow> u32 \<Rightarrow> ceph_x_info \<Rightarrow> ceph_x_info" where
  "ceph_x_invalidate_authorizer env peer_type xi =
    (case get_ticket_handler env peer_type xi of
       None \<Rightarrow> xi
     | Some (th, xi) \<Rightarrow> upd_handler peer_type (\<lambda>th. th\<lparr>th_validity := replicate 8 0\<rparr>) xi)"

definition ceph_x_init :: "auth_env \<Rightarrow> ceph_auth_client \<Rightarrow> int \<times> ceph_auth_client" where
  "ceph_x_init env ac =
    (if \<not> ae_alloc env 240 then (- ENOMEM_no, ac)
     else
       case ac_key ac of
         None \<Rightarrow> (- EINVAL_no, ac)
       | Some key \<Rightarrow>
           (case ceph_crypto_key_clone (ae_alloc env) key of
              (ret, None) \<Rightarrow> (ret, ac)
            | (ret, Some secret) \<Rightarrow>
                (0, ac\<lparr>protocol := 2, ac_ops := Some Ceph_x_ops,
                  ac_private := Private_x \<lparr>xi_secret = secret, xi_starting = True, server_challenge = 0, have_keys = 0,
                    ticket_handlers = Leaf, auth_authorizer = zero_authorizer\<rparr>\<rparr>)))"

text \<open>The keys, tickets and buffers are released; what stays is the cleared pointer.\<close>

definition ceph_x_destroy :: "ceph_auth_client \<Rightarrow> ceph_auth_client" where
  "ceph_x_destroy ac = ac\<lparr>ac_private := Private_null\<rparr>"

section \<open>No security\<close>

definition ceph_entity_name_encode :: "u8 list \<Rightarrow> u8 list \<Rightarrow> int \<Rightarrow> int \<Rightarrow> (int \<times> u8 list \<times> int) res" where
  "ceph_entity_name_encode name buf en p =
    (if en < p + 2 * 4 + int (length name) then Inr (- ERANGE_no, buf, p)
     else
       bindE (ceph_encode_32 buf p 8) (\<lambda>(buf, p).
       bindE (ceph_encode_32 buf p (word_of_nat (length name))) (\<lambda>(buf, p).
       bindE (ceph_encode_copy buf p name) (\<lambda>(buf, p). Inr (0, buf, p)))))"

definition none_reset :: "ceph_auth_none_info \<Rightarrow> ceph_auth_none_info" where
  "none_reset xi = xi\<lparr>ni_starting := True, built_authorizer := False\<rparr>"

definition none_destroy :: "ceph_auth_client \<Rightarrow> ceph_auth_client" where
  "none_destroy ac = ac\<lparr>ac_private := Private_null\<rparr>"

definition none_is_authenticated :: "ceph_auth_none_info \<Rightarrow> bool" where
  "none_is_authenticated xi \<longleftrightarrow> \<not> ni_starting xi"

definition none_should_authenticate :: "ceph_auth_none_info \<Rightarrow> bool" where
  "none_should_authenticate xi \<longleftrightarrow> ni_starting xi"

definition none_handle_reply :: "int \<Rightarrow> ceph_auth_none_info \<Rightarrow> int \<times> ceph_auth_none_info" where
  "none_handle_reply result xi = (result, xi\<lparr>ni_starting := False\<rparr>)"

definition ceph_auth_none_create_authorizer ::
  "ceph_auth_client \<Rightarrow> ceph_auth_none_info \<Rightarrow> (int \<times> ceph_auth_handshake option \<times> ceph_auth_none_info) res" where
  "ceph_auth_none_create_authorizer ac ai =
    (let fin = (\<lambda>ai. Inr (0, Some \<lparr>hs_authorizer = None_authorizer, hs_buf_valid = True, hs_buf_len = na_buf_len ai, hs_reply_buf_len = 0\<rparr>, ai)) in
     if built_authorizer ai then fin ai
     else
       bindE (ceph_encode_8 (na_buf ai) 0 1) (\<lambda>(buf, p).
       bindE (ceph_entity_name_encode (ac_name ac) buf (128 - 8) p) (\<lambda>(ret, buf, p).
       if ret < 0 then Inr (ret, None, ai\<lparr>na_buf := buf\<rparr>)
       else if \<not> ceph_has_room p 128 8 then Inr (- ERANGE_no, None, ai\<lparr>na_buf := buf\<rparr>)
       else
         bindE (ceph_encode_64 buf p (global_id ac)) (\<lambda>(buf, p).
         fin (ai\<lparr>na_buf := buf, na_buf_len := nat p, built_authorizer := True\<rparr>)))))"

definition ceph_auth_none_init :: "auth_env \<Rightarrow> ceph_auth_client \<Rightarrow> int \<times> ceph_auth_client" where
  "ceph_auth_none_init env ac =
    (if \<not> ae_alloc env 136 then (- ENOMEM_no, ac)
     else (0, ac\<lparr>protocol := 1, ac_ops := Some Ceph_auth_none_ops,
       ac_private := Private_none \<lparr>ni_starting = True, built_authorizer = False, na_buf = replicate 128 0, na_buf_len = 0\<rparr>\<rparr>))"

end
