(* ===== verification/Osd_Reply.thy ===== *)
theory Osd_Reply
  imports Osd_Client
begin

text \<open>
  The entry points of the OSD client (\<open>net/ceph/osd_client.c\<close>): replies, new OSD maps, watch
  notifications, time-outs, and the interface for its users. A received message is its header and its front;
  a read behind the end of the front is a fault. A jump to \<open>bad\<close> leaves the client as it is.
\<close>

section \<open>Time-outs\<close>

text \<open>The loop over the requests in flight, oldest first: sessions to ping, each once, the latest mention counts.\<close>

fun slow_sessions :: "osdc_env \<Rightarrow> ceph_osd_client \<Rightarrow> nat list \<Rightarrow> nat list \<Rightarrow> nat list res" where
  "slow_sessions env c [] slow = Inr slow"
| "slow_sessions env c (r # rs) slow =
    (if time_before (jiffies env) (r_stamp (req_of c r) + keepalive_ticks env) then Inr slow
     else case r_osd (req_of c r) of
       None \<Rightarrow> Inl (Fault BugOn)
     | Some x \<Rightarrow> slow_sessions env c rs (remove1 x slow @ [x]))"

definition handle_timeout :: "osdc_env \<Rightarrow> ceph_osd_client \<Rightarrow> ceph_osd_client res" where
  "handle_timeout env c =
    (let c = act Request_next_osdmap c in
     bindE (slow_sessions env c (req_lru c) []) (\<lambda>slow.
     send_queued env (act Schedule_timeout (fold (\<lambda>x. act (Con_keepalive x)) slow c))))"

definition handle_osds_timeout :: "osdc_env \<Rightarrow> ceph_osd_client \<Rightarrow> ceph_osd_client res" where
  "handle_osds_timeout env c = remove_old_osds env c"

section \<open>Redirects\<close>

definition ceph_oloc_decode :: "u8 list \<Rightarrow> int \<Rightarrow> int dec" where
  "ceph_oloc_decode buf en =
    bindD (ceph_decode_need en 6 (Err EINVAL)) (\<lambda>_.
    bindD (ceph_decode_8 buf) (\<lambda>struct_v.
    bindD (ceph_decode_8 buf) (\<lambda>struct_cv.
    if struct_v < 3 then failD (Err EINVAL)
    else if 6 < struct_cv then failD (Err EINVAL)
    else
      bindD (ceph_decode_32 buf) (\<lambda>len.
      bindD (ceph_decode_need en (unat len) (Err EINVAL)) (\<lambda>_.
      bindD posD (\<lambda>start.
      bindD (ceph_decode_64 buf) (\<lambda>pool.
      bindD (skipD 4) (\<lambda>_.
      bindD (ceph_decode_32 buf) (\<lambda>klen.
      if 0 < klen then failD (Err EINVAL)
      else
        bindD (if 5 \<le> struct_v then ceph_decode_32 buf else retD 0) (\<lambda>nlen.
        if 0 < nlen then failD (Err EINVAL)
        else
          bindD (if 6 \<le> struct_v then ceph_decode_64 buf else retD (-1)) (\<lambda>hash.
          if hash \<noteq> -1 then failD (Err EINVAL)
          else bindD (seekD (start + uint len)) (\<lambda>_. retD (sint pool)))))))))))))"

definition ceph_redirect_decode :: "u8 list \<Rightarrow> int \<Rightarrow> int dec" where
  "ceph_redirect_decode buf en =
    bindD (ceph_decode_need en 6 (Err EINVAL)) (\<lambda>_.
    bindD (ceph_decode_8 buf) (\<lambda>struct_v.
    bindD (ceph_decode_8 buf) (\<lambda>struct_cv.
    if 1 < struct_cv then failD (Err EINVAL)
    else
      bindD (ceph_decode_32 buf) (\<lambda>len.
      bindD (ceph_decode_need en (unat len) (Err EINVAL)) (\<lambda>_.
      bindD posD (\<lambda>start.
      bindD (ceph_oloc_decode buf en) (\<lambda>pool.
      bindD (ceph_decode_32 buf) (\<lambda>nlen.
      if 0 < nlen then failD (Err EINVAL)
      else
        bindD (ceph_decode_32 buf) (\<lambda>ilen.
        bindD (skipD (uint ilen)) (\<lambda>_.
        bindD (seekD (start + uint len)) (\<lambda>_. retD pool)))))))))))"

section \<open>Replies\<close>

record osd_reply =
  rp_flags :: u32
  rp_result :: int
  rp_epoch :: u32
  rp_version :: u64

definition decode_reply_head :: "u8 list \<Rightarrow> int \<Rightarrow> osd_reply dec" where
  "decode_reply_head buf en =
    bindD (ceph_decode_need en 4 (Err EINVAL)) (\<lambda>_.
    bindD (ceph_decode_32 buf) (\<lambda>object_len.
    bindD (if sint object_len < 0 then failD (Err EINVAL) else ceph_decode_need en (unat object_len) (Err EINVAL)) (\<lambda>_.
    bindD (skipD (sint object_len)) (\<lambda>_.
    bindD (ceph_decode_pgid buf en) (\<lambda>pg.
    bindD (ceph_decode_need en 28 (Err EINVAL)) (\<lambda>_.
    bindD (ceph_decode_64 buf) (\<lambda>fl.
    bindD (ceph_decode_32 buf) (\<lambda>result.
    bindD (ceph_decode_32 buf) (\<lambda>ep.
    bindD (ceph_decode_64 buf) (\<lambda>ver.
    bindD (ceph_decode_32 buf) (\<lambda>map_epoch.
    retD \<lparr>rp_flags = ucast fl, rp_result = sint result, rp_epoch = ep, rp_version = ver\<rparr>)))))))))))"

definition decode_op_lens :: "u8 list \<Rightarrow> nat \<Rightarrow> int \<Rightarrow> (u32 list) dec" where
  "decode_op_lens buf numops en =
    bindD (ceph_decode_need en (numops * OSD_OP_SIZE) (Err EINVAL)) (\<lambda>_.
    decode_array (bindD (skipD 34) (\<lambda>_. ceph_decode_32 buf)) numops)"

definition decode_numops :: "u8 list \<Rightarrow> nat \<Rightarrow> int \<Rightarrow> nat dec" where
  "decode_numops buf num_ops en =
    bindD (ceph_decode_need en 4 (Err EINVAL)) (\<lambda>_.
    bindD (ceph_decode_32 buf) (\<lambda>n.
    if CEPH_OSD_MAX_OP < unat n then failD (Err EINVAL)
    else if unat n \<noteq> num_ops then failD (Err EINVAL)
    else retD (unat n)))"

definition decode_op_results :: "u8 list \<Rightarrow> nat \<Rightarrow> int \<Rightarrow> (u32 list) dec" where
  "decode_op_results buf numops en =
    bindD (ceph_decode_need en (4 + numops * 4) (Err EINVAL)) (\<lambda>_.
    bindD (ceph_decode_32 buf) (\<lambda>retry_attempt.
    decode_array (ceph_decode_32 buf) numops))"

text \<open>The pool of a redirect, -1 when there is none.\<close>

definition decode_redirect :: "u8 list \<Rightarrow> u16 \<Rightarrow> int \<Rightarrow> int dec" where
  "decode_redirect buf ver en =
    (if 6 \<le> ver then bindD (skipD 12) (\<lambda>_. bindD (skipD 8) (\<lambda>_. ceph_redirect_decode buf en)) else retD (-1))"

text \<open>Storing \<open>vs\<close> in the first entries of an array.\<close>

definition put_array :: "'a list \<Rightarrow> 'a list \<Rightarrow> 'a list" where
  "put_array vs xs = vs @ drop (length vs) xs"

text \<open>
  The part of the reply that is decoded with the request at hand: what it stores in the request, and
  the pool of the redirect, or \<open>None\<close> for a jump to \<open>bad_put\<close>.
\<close>

definition decode_reply_body ::
  "ceph_msg \<Rightarrow> int \<Rightarrow> ceph_osd_request \<Rightarrow> (int option \<times> ceph_osd_request) res" where
  "decode_reply_body msg p req =
    (let buf = m_front msg; en = int (length buf) in
     case decode_numops buf (r_num_ops req) en p of
       Inl (Err e) \<Rightarrow> Inr (None, req)
     | Inl s \<Rightarrow> Inl s
     | Inr (numops, p) \<Rightarrow>
         (case decode_op_lens buf numops en p of
            Inl (Err e) \<Rightarrow> Inr (None, req)
          | Inl s \<Rightarrow> Inl s
          | Inr (lens, p) \<Rightarrow>
              let req = req\<lparr>r_reply_op_len := put_array (map sint lens) (r_reply_op_len req)\<rparr> in
              if sum_list lens \<noteq> hdr_data_len msg then Inr (None, req)
              else
                case decode_op_results buf numops en p of
                  Inl (Err e) \<Rightarrow> Inr (None, req)
                | Inl s \<Rightarrow> Inl s
                | Inr (results, p) \<Rightarrow>
                    let req = req\<lparr>r_reply_op_result := put_array (map sint results) (r_reply_op_result req)\<rparr> in
                    case decode_redirect buf (hdr_version msg) en p of
                      Inl (Err e) \<Rightarrow> Inr (None, req)
                    | Inl s \<Rightarrow> Inl s
                    | Inr (pool, p) \<Rightarrow> Inr (Some pool, req)))"

text \<open>The callback of the user, or waking those who wait.\<close>

definition finish_request :: "nat \<Rightarrow> ceph_osd_client \<Rightarrow> ceph_osd_client" where
  "finish_request r c =
    (if r_callback (req_of c r) then act (Callback r) c else upd_req r (\<lambda>x. x\<lparr>r_completion := True\<rparr>) c)"

definition complete_request :: "nat \<Rightarrow> ceph_osd_client \<Rightarrow> ceph_osd_client" where
  "complete_request r c = upd_req r (\<lambda>x. x\<lparr>r_safe_completion := True\<rparr>) c"

definition reply_bad_put :: "osdc_env \<Rightarrow> nat \<Rightarrow> ceph_osd_client \<Rightarrow> ceph_osd_client res" where
  "reply_bad_put env r c =
    bindE (unregister_request env r (upd_req r (\<lambda>x. x\<lparr>r_result := - EIO_no\<rparr>) c)) (\<lambda>c.
    Inr (complete_request r (finish_request r c)))"

definition reply_redirect :: "osdc_env \<Rightarrow> nat \<Rightarrow> int \<Rightarrow> ceph_osd_client \<Rightarrow> ceph_osd_client res" where
  "reply_redirect env r pool c =
    bindE (unregister_request env r c) (\<lambda>c.
    bindE (start_request env r True (upd_req r (\<lambda>x. x\<lparr>r_target_oloc := pool\<rparr>) c)) (\<lambda>(err, c).
    bindE (guardE (err = 0) (Fault BugOn)) (\<lambda>_. Inr c)))"

definition reply_callbacks :: "nat \<Rightarrow> osd_reply \<Rightarrow> bool \<Rightarrow> ceph_osd_client \<Rightarrow> ceph_osd_client" where
  "reply_callbacks r rp already_completed c =
    (let ondisk = rp_flags rp AND CEPH_OSD_FLAG_ONDISK \<noteq> 0;
         c = (if \<not> already_completed then
                let c = (if r_unsafe_callback (req_of c r) \<and> 0 \<le> rp_result rp \<and> \<not> ondisk
                         then act (Unsafe_callback r True) c else c) in
                finish_request r c
              else c) in
     if ondisk then
       complete_request r (if r_unsafe_callback (req_of c r) \<and> already_completed then act (Unsafe_callback r False) c else c)
     else c)"

definition reply_complete :: "osdc_env \<Rightarrow> nat \<Rightarrow> osd_reply \<Rightarrow> u32 \<Rightarrow> ceph_osd_client \<Rightarrow> ceph_osd_client res" where
  "reply_complete env r rp bytes c =
    (let already_completed = r_got_reply (req_of c r);
         ondisk = rp_flags rp AND CEPH_OSD_FLAG_ONDISK \<noteq> 0 in
     if already_completed \<and> \<not> ondisk then Inr c
     else
       let c = (if already_completed then c
                else upd_req r (\<lambda>x. x\<lparr>r_result := (if rp_result rp = 0 then sint bytes else rp_result rp),
                       r_reassert_version := (rp_epoch rp, rp_version rp), r_got_reply := True\<rparr>) c);
           c = (if r_linger (req_of c r) \<and> ondisk then register_linger_request r c else c) in
       bindE (if rp_result rp < 0 \<or> ondisk \<or> rp_flags rp AND CEPH_OSD_FLAG_WRITE = 0 then unregister_request env r c else Inr c) (\<lambda>c.
       Inr (reply_callbacks r rp already_completed c)))"

definition handle_reply :: "osdc_env \<Rightarrow> ceph_msg \<Rightarrow> ceph_osd_client \<Rightarrow> ceph_osd_client res" where
  "handle_reply env msg c =
    (case decode_reply_head (m_front msg) (int (length (m_front msg))) 0 of
       Inl (Err e) \<Rightarrow> Inr c
     | Inl s \<Rightarrow> Inl s
     | Inr (rp, p) \<Rightarrow>
         (case lookup_request c (hdr_tid msg) of
            None \<Rightarrow> Inr c
          | Some r \<Rightarrow>
              bindE (decode_reply_body msg p (req_of c r)) (\<lambda>(redir, req).
              let c = upd_req r (\<lambda>_. req) c in
              case redir of
                None \<Rightarrow> reply_bad_put env r c
              | Some pool \<Rightarrow>
                  if pool \<noteq> -1 then reply_redirect env r pool c else reply_complete env r rp (hdr_data_len msg) c)))"

section \<open>New OSD maps\<close>

definition ceph_check_fsid :: "u8 list \<Rightarrow> ceph_osd_client \<Rightarrow> bool \<times> ceph_osd_client" where
  "ceph_check_fsid fs c =
    (if have_fsid c then (client_fsid c = fs, c) else (True, c\<lparr>client_fsid := fs\<rparr>))"

text \<open>
  How a loop over maps ends: with a jump to \<open>bad\<close>, or with the position, whether a map was full, and
  whether there was a new map.
\<close>

datatype map_status = Map_bad | Map_ok int bool bool

text \<open>The epoch and the length of an entry.\<close>

definition decode_map_entry :: "u8 list \<Rightarrow> int \<Rightarrow> (u32 \<times> nat) dec" where
  "decode_map_entry buf en =
    bindD (ceph_decode_need en 8 (Err EINVAL)) (\<lambda>_.
    bindD (ceph_decode_32 buf) (\<lambda>ep.
    bindD (ceph_decode_32 buf) (\<lambda>len.
    bindD (ceph_decode_need en (unat len) (Err EINVAL)) (\<lambda>_.
    retD (ep, unat len)))))"

definition new_map :: "osdc_env \<Rightarrow> bool \<Rightarrow> bool \<Rightarrow> ceph_osdmap \<Rightarrow> ceph_osd_client \<Rightarrow> (bool \<times> ceph_osd_client) res" where
  "new_map env skipped_map was_full om c =
    (let c = c\<lparr>oc_map := Some om\<rparr>;
         was_full = (was_full \<or> ceph_osdmap_flag (oc_map c) CEPH_OSDMAP_FULL) in
     bindE (kick_requests env skipped_map was_full c) (\<lambda>c. Inr (was_full, c)))"

text \<open>An error code 0 makes a null map, which is caught by \<open>BUG_ON\<close>.\<close>

fun inc_maps ::
  "osdc_env \<Rightarrow> u8 list \<Rightarrow> int \<Rightarrow> nat \<Rightarrow> int \<Rightarrow> bool \<Rightarrow> bool \<Rightarrow> ceph_osd_client \<Rightarrow> (map_status \<times> ceph_osd_client) res" where
  "inc_maps env buf en 0 p was_full newmap c = Inr (Map_ok p was_full newmap, c)"
| "inc_maps env buf en (Suc n) p was_full newmap c =
    (case decode_map_entry buf en p of
       Inl (Err e) \<Rightarrow> Inr (Map_bad, c)
     | Inl s \<Rightarrow> Inl s
     | Inr ((ep, maplen), p) \<Rightarrow>
         (case oc_map c of
            Some om \<Rightarrow>
              if epoch om + 1 = ep then
                (case osdmap_apply_incremental (oe_alloc env) (oe_rb env) buf (p + int maplen) om p of
                   (Inl (Err e), om', q) \<Rightarrow> Inr (Map_bad, c\<lparr>oc_map := Some om'\<rparr>)
                 | (Inl Err0, om', q) \<Rightarrow> Inl (Fault BugOn)
                 | (Inl s, om', q) \<Rightarrow> Inl s
                 | (Inr Same_map, om', q) \<Rightarrow>
                     bindE (new_map env False was_full om' c) (\<lambda>(was_full, c).
                     inc_maps env buf en n (p + int maplen) was_full True c)
                 | (Inr (New_map m), om', q) \<Rightarrow>
                     bindE (new_map env False was_full m c) (\<lambda>(was_full, c).
                     inc_maps env buf en n (p + int maplen) was_full True c))
              else inc_maps env buf en n (p + int maplen) was_full newmap c
          | None \<Rightarrow> inc_maps env buf en n (p + int maplen) was_full newmap c))"

fun full_maps ::
  "osdc_env \<Rightarrow> u8 list \<Rightarrow> int \<Rightarrow> nat \<Rightarrow> int \<Rightarrow> bool \<Rightarrow> ceph_osd_client \<Rightarrow> (map_status \<times> ceph_osd_client) res" where
  "full_maps env buf en 0 p was_full c = Inr (Map_ok p was_full False, c)"
| "full_maps env buf en (Suc n) p was_full c =
    (case decode_map_entry buf en p of
       Inl (Err e) \<Rightarrow> Inr (Map_bad, c)
     | Inl s \<Rightarrow> Inl s
     | Inr ((ep, maplen), p) \<Rightarrow>
         if n \<noteq> 0 then full_maps env buf en n (p + int maplen) was_full c
         else if (case oc_map c of None \<Rightarrow> False | Some om \<Rightarrow> ep \<le> epoch om) then full_maps env buf en n (p + int maplen) was_full c
         else
           (case ceph_osdmap_decode (oe_alloc env) (oe_rb env) buf (p + int maplen) p of
              Inl (Err e) \<Rightarrow> Inr (Map_bad, c)
            | Inl Err0 \<Rightarrow> Inl (Fault BugOn)
            | Inl s \<Rightarrow> Inl s
            | Inr (m, q) \<Rightarrow>
                let skipped_map = (case oc_map c of None \<Rightarrow> False | Some om \<Rightarrow> epoch om + 1 < epoch m) in
                bindE (new_map env skipped_map was_full m c) (\<lambda>(was_full, c).
                full_maps env buf en n (q + int maplen) was_full c)))"

definition map_done :: "osdc_env \<Rightarrow> ceph_osd_client \<Rightarrow> ceph_osd_client res" where
  "map_done env c =
    bindE (deref (oc_map c)) (\<lambda>om.
    let c = act (Got_osdmap (epoch om)) c;
        c = (if ceph_osdmap_flag (oc_map c) CEPH_OSDMAP_FULL \<or> ceph_osdmap_flag (oc_map c) CEPH_OSDMAP_PAUSERD \<or>
               ceph_osdmap_flag (oc_map c) CEPH_OSDMAP_PAUSEWR then act Request_next_osdmap c else c) in
    send_queued env c)"

definition handle_maps :: "osdc_env \<Rightarrow> u8 list \<Rightarrow> int \<Rightarrow> ceph_osd_client \<Rightarrow> ceph_osd_client res" where
  "handle_maps env buf p c =
    (let en = int (length buf); was_full = ceph_osdmap_flag (oc_map c) CEPH_OSDMAP_FULL in
     case ceph_decode_32_safe buf en (Err EINVAL) p of
       Inl (Err e) \<Rightarrow> Inr c
     | Inl s \<Rightarrow> Inl s
     | Inr (nr_maps, p) \<Rightarrow>
         bindE (inc_maps env buf en (unat nr_maps) p was_full False c) (\<lambda>(st, c).
         case st of
           Map_bad \<Rightarrow> Inr c
         | Map_ok p was_full newmap \<Rightarrow>
             if newmap then map_done env c
             else
               (case ceph_decode_32_safe buf en (Err EINVAL) p of
                  Inl (Err e) \<Rightarrow> Inr c
                | Inl s \<Rightarrow> Inl s
                | Inr (nr_maps, p) \<Rightarrow>
                    bindE (full_maps env buf en (unat nr_maps) p was_full c) (\<lambda>(st, c).
                    case st of
                      Map_bad \<Rightarrow> Inr c
                    | Map_ok p was_full newmap \<Rightarrow> if oc_map c = None then Inr c else map_done env c))))"

definition ceph_osdc_handle_map :: "osdc_env \<Rightarrow> ceph_msg \<Rightarrow> ceph_osd_client \<Rightarrow> ceph_osd_client res" where
  "ceph_osdc_handle_map env msg c =
    (let buf = m_front msg in
     case ceph_decode_copy_safe buf (int (length buf)) 16 (Err EINVAL) 0 of
       Inl (Err e) \<Rightarrow> Inr c
     | Inl s \<Rightarrow> Inl s
     | Inr (fs, p) \<Rightarrow>
         (case ceph_check_fsid fs c of
            (ok, c) \<Rightarrow> if ok then handle_maps env buf p c else Inr c))"

section \<open>Watch events\<close>

definition insert_event :: "osdc_env \<Rightarrow> ceph_osd_event \<Rightarrow> ceph_osd_client \<Rightarrow> ceph_osd_client res" where
  "insert_event env ev c =
    bindE (bug_if_exists (insert_by ev_cookie (ev_color env) ev (event_tree c))) (\<lambda>t. Inr (c\<lparr>event_tree := t\<rparr>))"

definition find_event :: "ceph_osd_client \<Rightarrow> u64 \<Rightarrow> ceph_osd_event option" where
  "find_event c cookie = lookup_by ev_cookie (event_tree c) cookie"

definition ceph_osdc_create_event :: "osdc_env \<Rightarrow> ceph_osd_client \<Rightarrow> (ceph_osd_event option \<times> ceph_osd_client) res" where
  "ceph_osdc_create_event env c =
    (if \<not> oe_alloc env 88 then Inr (None, c)
     else
       let cookie = event_count c + 1; ev = \<lparr>ev_cookie = cookie, ev_one_shot = False\<rparr> in
       bindE (insert_event env ev (c\<lparr>event_count := cookie\<rparr>)) (\<lambda>c. Inr (Some ev, c)))"

text \<open>An event node is not cleared when it is erased, so the node of an event that was created is never empty.\<close>

definition remove_event :: "osdc_env \<Rightarrow> ceph_osd_event \<Rightarrow> ceph_osd_client \<Rightarrow> ceph_osd_client res" where
  "remove_event env ev c = bindE (rb_erase (ev_erase env) ev (event_tree c)) (\<lambda>t. Inr (c\<lparr>event_tree := t\<rparr>))"

definition ceph_osdc_cancel_event :: "osdc_env \<Rightarrow> ceph_osd_event \<Rightarrow> ceph_osd_client \<Rightarrow> ceph_osd_client res" where
  "ceph_osdc_cancel_event env ev c = remove_event env ev c"

definition decode_notify :: "u8 list \<Rightarrow> int \<Rightarrow> (u8 \<times> u64 \<times> u64 \<times> u64) dec" where
  "decode_notify buf en =
    bindD (ceph_decode_8_safe buf en (Err EINVAL)) (\<lambda>proto_ver.
    bindD (ceph_decode_8_safe buf en (Err EINVAL)) (\<lambda>opcode.
    bindD (ceph_decode_64_safe buf en (Err EINVAL)) (\<lambda>cookie.
    bindD (ceph_decode_64_safe buf en (Err EINVAL)) (\<lambda>ver.
    bindD (ceph_decode_64_safe buf en (Err EINVAL)) (\<lambda>notify_id.
    retD (opcode, cookie, ver, notify_id))))))"

definition handle_watch_notify :: "osdc_env \<Rightarrow> ceph_msg \<Rightarrow> ceph_osd_client \<Rightarrow> ceph_osd_client res" where
  "handle_watch_notify env msg c =
    (case decode_notify (m_front msg) (int (length (m_front msg))) 0 of
       Inl (Err e) \<Rightarrow> Inr c
     | Inl s \<Rightarrow> Inl s
     | Inr ((opcode, cookie, ver, notify_id), p) \<Rightarrow>
         (case find_event c cookie of
            None \<Rightarrow> Inr c
          | Some ev \<Rightarrow>
              bindE (guardE (\<not> ev_one_shot ev) (Fault BugOn)) (\<lambda>_.
              Inr (if oe_alloc env 64 then act (Event_work cookie ver notify_id opcode) c else c))))"

section \<open>The interface of the client\<close>

definition ceph_osdc_start_request :: "osdc_env \<Rightarrow> nat \<Rightarrow> bool \<Rightarrow> ceph_osd_client \<Rightarrow> (int \<times> ceph_osd_client) res" where
  "ceph_osdc_start_request env r nofail c = start_request env r nofail c"

definition ceph_osdc_cancel_request :: "osdc_env \<Rightarrow> nat \<Rightarrow> ceph_osd_client \<Rightarrow> ceph_osd_client res" where
  "ceph_osdc_cancel_request env r c =
    bindE (if r_linger (req_of c r) then unregister_linger_request env r c else Inr c) (unregister_request env r)"

text \<open>\<open>rc\<close> is the result of waiting, negative when it is interrupted.\<close>

definition ceph_osdc_wait_request :: "osdc_env \<Rightarrow> nat \<Rightarrow> int \<Rightarrow> ceph_osd_client \<Rightarrow> (int \<times> ceph_osd_client) res" where
  "ceph_osdc_wait_request env r rc c =
    (if rc < 0 then bindE (ceph_osdc_cancel_request env r c) (\<lambda>c. Inr (rc, complete_request r c))
     else Inr (r_result (req_of c r), c))"

text \<open>
  \<open>ceph_osdc_sync\<close> lets go of the mutex while it waits: \<open>world i\<close> is the client when it has taken the mutex for the
  \<open>i\<close>-th time. The result are the requests it waited for; \<open>None\<close> when \<open>fuel\<close> rounds were not enough.
\<close>

fun sync_loop :: "(nat \<Rightarrow> ceph_osd_client) \<Rightarrow> u64 \<Rightarrow> nat \<Rightarrow> nat \<Rightarrow> u64 \<Rightarrow> nat list option" where
  "sync_loop world lt 0 i next_tid = None"
| "sync_loop world lt (Suc fuel) i next_tid =
    (let c = world i in
     case lookup_request_ge c next_tid of
       None \<Rightarrow> Some []
     | Some r \<Rightarrow>
         if lt < tid_of c r then Some []
         else if r_flags (req_of c r) AND CEPH_OSD_FLAG_WRITE = 0 then sync_loop world lt fuel i (tid_of c r + 1)
         else map_option (\<lambda>rs. r # rs) (sync_loop world lt fuel (i + 1) (tid_of c r + 1)))"

definition ceph_osdc_sync :: "(nat \<Rightarrow> ceph_osd_client) \<Rightarrow> nat \<Rightarrow> nat list option" where
  "ceph_osdc_sync world fuel = sync_loop world (last_tid (world 0)) fuel 0 0"

definition ceph_osdc_init :: "(nat \<Rightarrow> ceph_osd_request) \<Rightarrow> (nat \<Rightarrow> ceph_osd) \<Rightarrow> ceph_osd_client" where
  "ceph_osdc_init reqs os =
    \<lparr>client_fsid = replicate 16 0, have_fsid = False, oc_map = None, osds = Leaf, osd_lru = [], last_tid = 0, requests = Leaf,
     req_lru = [], req_unsent = [], req_notarget = [], req_linger = [], num_requests = 0, event_tree = Leaf, event_count = 0,
     req_of = reqs, osd_of = os, osd_next = 0, acts = []\<rparr>"

definition ceph_osdc_stop :: "osdc_env \<Rightarrow> ceph_osd_client \<Rightarrow> ceph_osd_client res" where
  "ceph_osdc_stop env c = remove_all_osds env (c\<lparr>oc_map := None\<rparr>)"

text \<open>
  Reading and writing pages: a new request is given the address \<open>r\<close>; \<open>wait\<close> is what happens to the client
  while the caller waits, with the result of waiting.
\<close>

definition submit :: "osdc_env \<Rightarrow> nat \<Rightarrow> ceph_osd_request \<Rightarrow> bool \<Rightarrow> (ceph_osd_client \<Rightarrow> int \<times> ceph_osd_client) \<Rightarrow>
    ceph_osd_client \<Rightarrow> (int \<times> ceph_osd_client) res" where
  "submit env r req nofail wait c =
    bindE (ceph_osdc_start_request env r nofail (upd_req r (\<lambda>_. req) c)) (\<lambda>(rc, c).
    if rc = 0 then (case wait c of (w, c) \<Rightarrow> ceph_osdc_wait_request env r w c) else Inr (rc, c))"

definition ceph_osdc_readpages ::
  "osdc_env \<Rightarrow> osd_alloc \<Rightarrow> nat \<Rightarrow> ceph_file_layout \<Rightarrow> u64 \<Rightarrow> u64 \<Rightarrow> u64 \<Rightarrow> u64 \<Rightarrow> u32 \<Rightarrow> u64 \<Rightarrow> u8 list list \<Rightarrow> u32 \<Rightarrow>
   (ceph_osd_client \<Rightarrow> int \<times> ceph_osd_client) \<Rightarrow> ceph_osd_client \<Rightarrow> (int \<times> u64 \<times> ceph_osd_client) res" where
  "ceph_osdc_readpages env oa r layout ino snap off plen truncate_seq truncate_size pages page_align wait c =
    (case ceph_osdc_new_request oa layout ino off plen 1 CEPH_OSD_OP_READ CEPH_OSD_FLAG_READ None truncate_seq truncate_size False of
       Inl (Err e) \<Rightarrow> Inr (- errno_no e, plen, c)
     | Inl s \<Rightarrow> Inl s
     | Inr (req, plen) \<Rightarrow>
         bindE (osd_req_op_extent_osd_data_pages req 0 (Some pages) plen page_align False False) (\<lambda>req.
         bindE (ceph_osdc_build_request req off None snap None) (\<lambda>req.
         bindE (submit env r req False wait c) (\<lambda>(rc, c). Inr (rc, plen, c)))))"

definition ceph_osdc_writepages ::
  "osdc_env \<Rightarrow> osd_alloc \<Rightarrow> nat \<Rightarrow> ceph_file_layout \<Rightarrow> u64 \<Rightarrow> u64 \<Rightarrow> ceph_snap_context option \<Rightarrow> u64 \<Rightarrow> u64 \<Rightarrow> u32 \<Rightarrow> u64 \<Rightarrow>
   int \<times> int \<Rightarrow> u8 list list \<Rightarrow> (ceph_osd_client \<Rightarrow> int \<times> ceph_osd_client) \<Rightarrow> ceph_osd_client \<Rightarrow> (int \<times> ceph_osd_client) res" where
  "ceph_osdc_writepages env oa r layout ino snap snapc off len truncate_seq truncate_size mtime pages wait c =
    bindE (guardE (snap = CEPH_NOSNAP) (Fault BugOn)) (\<lambda>_.
    case ceph_osdc_new_request oa layout ino off len 1 CEPH_OSD_OP_WRITE (CEPH_OSD_FLAG_ONDISK OR CEPH_OSD_FLAG_WRITE) snapc
           truncate_seq truncate_size True of
      Inl (Err e) \<Rightarrow> Inr (- errno_no e, c)
    | Inl s \<Rightarrow> Inl s
    | Inr (req, len) \<Rightarrow>
        bindE (osd_req_op_extent_osd_data_pages req 0 (Some pages) len (ucast (off AND 4095)) False False) (\<lambda>req.
        bindE (ceph_osdc_build_request req off snapc CEPH_NOSNAP (Some mtime)) (\<lambda>req.
        bindE (submit env r req True wait c) (\<lambda>(rc, c).
        Inr (if rc = 0 then sint (ucast len :: u32) else rc, c)))))"

section \<open>Callbacks of the connection\<close>

definition osd_dispatch :: "osdc_env \<Rightarrow> ceph_msg \<Rightarrow> ceph_osd_client \<Rightarrow> ceph_osd_client res" where
  "osd_dispatch env msg c =
    (if hdr_type msg = CEPH_MSG_OSD_MAP then ceph_osdc_handle_map env msg c
     else if hdr_type msg = CEPH_MSG_OSD_OPREPLY then handle_reply env msg c
     else if hdr_type msg = CEPH_MSG_WATCH_NOTIFY then handle_watch_notify env msg c
     else Inr c)"

text \<open>
  The data of the extent of an operation, read through the union whatever its last use: behind the
  first 32 bytes, where the other members have padding, zero bytes, or the unused part of the
  request information of a class call when that is a page list.
\<close>

definition union_extent_data :: "op_union \<Rightarrow> ceph_osd_data res" where
  "union_extent_data u =
    (case u of
       Op_extent off len ts sq d \<Rightarrow> Inr d
     | Op_cls cn mn (Osd_data_pages ps len al fp own) q r cl ml \<Rightarrow> Inl (Fault TypeConfusion)
     | Op_cls cn mn (Osd_data_bio b len) q r cl ml \<Rightarrow> Inl (Fault TypeConfusion)
     | _ \<Rightarrow> Inr Osd_data_none)"

definition get_reply ::
  "osd_alloc \<Rightarrow> ceph_msg \<Rightarrow> ceph_osd_client \<Rightarrow> (ceph_msg option \<times> bool \<times> ceph_osd_client) res" where
  "get_reply oa hdr c =
    (case lookup_request c (hdr_tid hdr) of
       None \<Rightarrow> Inr (None, True, c)
     | Some r \<Rightarrow>
         let c = act (Msg_revoke_incoming r) c; front_len = sint (hdr_front_len hdr); data_len = sint (hdr_data_len hdr) in
         case (if int (front_alloc_len (r_reply (req_of c r))) < front_len
               then map_option (\<lambda>m. upd_req r (\<lambda>x. x\<lparr>r_reply := m\<rparr>) c)
                      (ceph_msg_new CEPH_MSG_OSD_OPREPLY (nat front_len) (oa_cursor oa) (oa_front oa (nat front_len)))
               else Some c) of
           None \<Rightarrow> Inr (None, False, c)
         | Some c \<Rightarrow>
             if 0 < data_len then
               bindE (get_op (req_of c r) 0) (\<lambda>x.
               bindE (union_extent_data (op_u x)) (\<lambda>d.
               case d of
                 Osd_data_pages pages len al fp own \<Rightarrow>
                   if pages \<noteq> None \<and> len < word_of_int data_len then Inr (None, True, c)
                   else Inr (Some (r_reply (req_of c r)), False, c)
               | _ \<Rightarrow> Inr (Some (r_reply (req_of c r)), False, c)))
             else Inr (Some (r_reply (req_of c r)), False, c))"

definition osd_alloc_msg ::
  "osd_alloc \<Rightarrow> ceph_msg \<Rightarrow> ceph_osd_client \<Rightarrow> (ceph_msg option \<times> bool \<times> ceph_osd_client) res" where
  "osd_alloc_msg oa hdr c =
    (if hdr_type hdr = CEPH_MSG_OSD_MAP \<or> hdr_type hdr = CEPH_MSG_WATCH_NOTIFY then
       Inr (ceph_msg_new (hdr_type hdr) (unat (hdr_front_len hdr)) (oa_cursor oa) (oa_front oa (unat (hdr_front_len hdr))), False, c)
     else if hdr_type hdr = CEPH_MSG_OSD_OPREPLY then get_reply oa hdr c
     else Inr (None, True, c))"

end
