(* ===== verification/Osd_Queues.thy ===== *)
theory Osd_Queues
  imports Osd_Reply
begin

text \<open>
  The invariant of the OSD client: the tree of requests, the lists of the sessions and the queues
  agree. It is kept by every operation. During an operation a request may be in transit between
  lists: the invariant is relative to a set of such requests.
\<close>

section \<open>The trees keep the search tree contract\<close>

lemma link_by_new:
  "\<forall>y\<in>set_tree t. key y \<noteq> key x \<Longrightarrow> ordered key t \<Longrightarrow>
    \<exists>t'. link_by key x t = Some t' \<and> ordered key t' \<and> set_tree t' = insert x (set_tree t)"
proof (induction t)
  case (Node l y r)
  consider "key x < key y" | "key y < key x" using Node.prems by fastforce
  then show ?case using Node by cases (auto dest: order.asym)
qed simp

lemma link_by_dup: "y \<in> set_tree t \<Longrightarrow> key y = key x \<Longrightarrow> ordered key t \<Longrightarrow> link_by key x t = None"
proof (induction t)
  case (Node l z r)
  then show ?case by (auto dest: order.asym)
qed simp

lemma lookup_by_spec: "ordered key t \<Longrightarrow> lookup_by key t k = find (\<lambda>x. key x = k) (inorder t)"
proof (induction t)
  case (Node l y r)
  then have "ordered key l" "ordered key r" by simp_all
  with Node show ?case by (simp only: find_inorder_Node[OF Node.prems] lookup_by.simps)
qed simp

interpretation by_key: search_tree key "\<lambda>_. True" "lookup_by key" "insert_by key"
  for key :: "'a \<Rightarrow> 'k :: linorder"
proof
  fix t :: "'a tree" and color :: "'a tree \<Rightarrow> 'a tree" and x y :: 'a and k :: 'k
  show "lookup_by key t k = find (\<lambda>x. key x = k) (inorder t)" if "ordered key t"
    using lookup_by_spec[OF that] .
  show "\<exists>t'. insert_by key color x t = Inr t' \<and> ordered key t' \<and> set_tree t' = insert x (set_tree t)"
    if "ordered key t" "keeps_inorder color" "\<forall>y\<in>set_tree t. key y \<noteq> key x"
    using link_by_new[OF that(3,1)] that(2) by (auto simp: insert_by_def ordered_color set_tree_color)
  show "insert_by key color x t = Inl (Err EEXIST)" if "ordered key t" "y \<in> set_tree t" "key y = key x"
    using link_by_dup[OF that(2,3,1)] by (simp add: insert_by_def)
qed

lemma lookup_by_mem: "ordered key t \<Longrightarrow> lookup_by key t k = Some x \<Longrightarrow> x \<in> set_tree t"
  and lookup_by_key: "ordered key t \<Longrightarrow> lookup_by key t k = Some x \<Longrightarrow> key x = k"
  using find_SomeD[of "\<lambda>x. key x = k" "inorder t" x] by (auto simp: lookup_by_spec)

definition env_ok :: "osdc_env \<Rightarrow> bool" where
  "env_ok env \<longleftrightarrow> keeps_inorder (oe_color env) \<and> erases_node (oe_erase env)"

lemma bug_insert_ok:
  assumes "ordered key t" and "keeps_inorder color" and "bug_if_exists (insert_by key color x t) = Inr t'"
  shows "ordered key t'" and "set_tree t' = insert x (set_tree t)" and "\<forall>y\<in>set_tree t. key y \<noteq> key x"
proof -
  have new: "\<forall>y\<in>set_tree t. key y \<noteq> key x"
    using by_key.ins_dup[OF assms(1), of _ x color] assms(3) by (auto simp: bug_if_exists_def)
  then obtain t2 where "insert_by key color x t = Inr t2" "ordered key t2" "set_tree t2 = insert x (set_tree t)"
    using by_key.ins_new[OF assms(1,2)] by blast
  with assms(3) show "ordered key t'" "set_tree t' = insert x (set_tree t)" by (simp_all add: bug_if_exists_def)
  show "\<forall>y\<in>set_tree t. key y \<noteq> key x" by (rule new)
qed

lemma erase_set:
  assumes "ordered key t" and "erases_node erase" and "x \<in> set_tree t"
  shows "set_tree (erase x t) = set_tree t - {x}"
  using assms(2,3) ordered_distinct[OF assms(1)] set_remove1_eq[of "inorder t" x]
  by (metis distinct_map erases_node_def set_inorder)

lemma ordered_cong: "(\<And>x. x \<in> set_tree t \<Longrightarrow> f x = g x) \<Longrightarrow> ordered f t = ordered g t"
proof -
  assume a: "\<And>x. x \<in> set_tree t \<Longrightarrow> f x = g x"
  then have "map f (inorder t) = map g (inorder t)" by (simp cong: map_cong)
  then show ?thesis unfolding ordered_def by (rule arg_cong)
qed

section \<open>The invariant\<close>

text \<open>What the lists and trees say about one request.\<close>

record profile =
  p_reg :: bool
  p_ling :: bool
  p_queued :: bool
  p_nt :: bool
  p_osd :: "nat option"
  p_flag :: bool
  p_sess :: "nat set"
  p_lsess :: "nat set"

definition profile :: "ceph_osd_client \<Rightarrow> nat \<Rightarrow> profile" where
  "profile c r = \<lparr>p_reg = (r \<in> set_tree (requests c)), p_ling = (r \<in> set (req_linger c)),
     p_queued = (r \<in> set (req_unsent c) \<union> set (req_lru c)), p_nt = (r \<in> set (req_notarget c)),
     p_osd = r_osd (req_of c r), p_flag = r_linger (req_of c r),
     p_sess = {x \<in> set_tree (osds c). r \<in> set (o_requests (osd_of c x))},
     p_lsess = {x \<in> set_tree (osds c). r \<in> set (o_linger_requests (osd_of c x))}\<rparr>"

text \<open>
  A request on a list of a session points back to the session. Then, for a request that is not being moved: it is
  registered when a session lists it; registered with a session, that session lists it; a request
  to be sent or in flight is registered and has a session; it is not registered both ways; only a
  linger request is registered as one; and a
  registered request with a session that is not a linger request is on one of the queues: it is not forgotten.
\<close>

definition points_back :: "profile \<Rightarrow> bool" where
  "points_back p \<longleftrightarrow> p_sess p \<subseteq> set_option (p_osd p) \<and> p_lsess p \<subseteq> set_option (p_osd p) \<and> (p_lsess p \<noteq> {} \<longrightarrow> p_ling p)"

definition settled :: "profile \<Rightarrow> bool" where
  "settled p \<longleftrightarrow> points_back p \<and> (p_sess p \<noteq> {} \<longrightarrow> p_reg p) \<and>
     (p_reg p \<longrightarrow> p_sess p = set_option (p_osd p)) \<and> (p_ling p \<longrightarrow> p_lsess p = set_option (p_osd p)) \<and>
     (p_queued p \<longrightarrow> p_reg p \<and> p_osd p \<noteq> None) \<and> (p_nt p \<longrightarrow> p_reg p \<or> p_ling p) \<and>
     \<not> (p_reg p \<and> p_ling p) \<and> (p_ling p \<longrightarrow> p_flag p) \<and>
     (p_reg p \<longrightarrow> p_osd p \<noteq> None \<longrightarrow> \<not> p_flag p \<longrightarrow> p_queued p \<or> p_nt p)"

text \<open>What does not depend on single requests.\<close>

definition trees_inv :: "ceph_osd_client \<Rightarrow> bool" where
  "trees_inv c \<longleftrightarrow> ordered (tid_of c) (requests c) \<and> ordered (osd_no c) (osds c) \<and>
    num_requests c = int (card (set_tree (requests c))) \<and> (\<forall>x\<in>set_tree (osds c). x < osd_next c)"

definition lists_inv :: "ceph_osd_client \<Rightarrow> bool" where
  "lists_inv c \<longleftrightarrow> distinct (req_lru c @ req_unsent c @ req_notarget c) \<and> distinct (req_linger c) \<and> distinct (osd_lru c) \<and>
    (\<forall>x\<in>set_tree (osds c). distinct (o_requests (osd_of c x)) \<and> distinct (o_linger_requests (osd_of c x)))"

definition lru_inv :: "ceph_osd_client \<Rightarrow> bool" where
  "lru_inv c \<longleftrightarrow> (\<forall>x\<in>set (osd_lru c). x \<in> set_tree (osds c) \<and> osd_idle (osd_of c x))"

definition glob_inv :: "ceph_osd_client \<Rightarrow> bool" where
  "glob_inv c \<longleftrightarrow> trees_inv c \<and> lists_inv c \<and> lru_inv c"

definition osdc_inv :: "ceph_osd_client \<Rightarrow> bool" where
  "osdc_inv c \<longleftrightarrow> glob_inv c \<and> (\<forall>r. settled (profile c r))"

lemmas glob_defs = glob_inv_def trees_inv_def lists_inv_def lru_inv_def

lemmas osdc_upd_defs = upd_req_def upd_osd_def act_def lru_del_def

text \<open>An operation on request \<open>r\<close> keeps the global part and the profiles of all other requests.\<close>

definition moves :: "nat \<Rightarrow> ceph_osd_client \<Rightarrow> ceph_osd_client \<Rightarrow> bool" where
  "moves r c c' \<longleftrightarrow> glob_inv c' \<and> (\<forall>q. q \<noteq> r \<longrightarrow> profile c' q = profile c q)"

lemma moves_refl: "glob_inv c \<Longrightarrow> moves r c c"
  by (simp add: moves_def)

lemma moves_trans: "moves r a b \<Longrightarrow> moves r b c \<Longrightarrow> moves r a c"
  by (simp add: moves_def)

lemma moves_inv: "osdc_inv c \<Longrightarrow> moves r c c' \<Longrightarrow> settled (profile c' r) \<Longrightarrow> osdc_inv c'"
  unfolding osdc_inv_def moves_def by (metis)

section \<open>Elementary moves\<close>

named_theorems moves_glob \<open>the global part is kept\<close>

named_theorems moves_profile \<open>profiles after elementary moves\<close>

lemma glob_act [moves_glob]: "glob_inv (act a c) = glob_inv c"
  by (simp add: glob_defs act_def)

lemma profile_act [moves_profile]: "profile (act a c) = profile c"
  by (simp add: profile_def act_def fun_eq_iff)

lemma glob_map [moves_glob]: "glob_inv (c\<lparr>oc_map := m\<rparr>) = glob_inv c"
  by (simp add: glob_defs)

lemma profile_map [moves_profile]: "profile (c\<lparr>oc_map := m\<rparr>) = profile c"
  by (simp add: profile_def fun_eq_iff)

lemma glob_upd_req [moves_glob]:
  "r_tid (f (req_of c r)) = r_tid (req_of c r) \<or> r \<notin> set_tree (requests c) \<Longrightarrow> glob_inv (upd_req r f c) = glob_inv c"
proof -
  assume "r_tid (f (req_of c r)) = r_tid (req_of c r) \<or> r \<notin> set_tree (requests c)"
  then have "ordered (tid_of (upd_req r f c)) (requests c) = ordered (tid_of c) (requests c)"
    by (intro ordered_cong) (auto simp: upd_req_def)
  moreover have "osd_of (upd_req r f c) = osd_of c" by (simp add: upd_req_def)
  ultimately show ?thesis by (simp add: glob_defs) (simp add: upd_req_def)
qed

lemma profile_upd_osd [moves_profile]:
  "profile (upd_req r (\<lambda>x. x\<lparr>r_osd := v\<rparr>) c) q = (if q = r then (profile c r)\<lparr>p_osd := v\<rparr> else profile c q)"
  by (simp add: profile_def upd_req_def)

text \<open>Changes of a request that keep its session and its linger flag.\<close>

lemma profile_upd_req [moves_profile]:
  "r_osd (f (req_of c r)) = r_osd (req_of c r) \<Longrightarrow> r_linger (f (req_of c r)) = r_linger (req_of c r) \<Longrightarrow>
    profile (upd_req r f c) = profile c"
  by (simp add: profile_def upd_req_def fun_eq_iff)

lemma glob_lru_del [moves_glob]: "glob_inv c \<Longrightarrow> glob_inv (lru_del r c)"
  by (auto simp: glob_defs lru_del_def set_remove1_eq)

lemma profile_lru_del [moves_profile]:
  "glob_inv c \<Longrightarrow> profile (lru_del r c) q = (if q = r then (profile c r)\<lparr>p_queued := False, p_nt := False\<rparr> else profile c q)"
  by (auto simp: glob_defs lru_del_def set_remove1_eq profile_def)

text \<open>The queues of the client.\<close>

lemma not_queued_lists:
  "\<not> p_queued (profile c r) \<Longrightarrow> r \<notin> set (req_unsent c)" "\<not> p_queued (profile c r) \<Longrightarrow> r \<notin> set (req_lru c)"
  "\<not> p_nt (profile c r) \<Longrightarrow> r \<notin> set (req_notarget c)"
  by (simp_all add: profile_def)

lemma glob_queue [moves_glob]:
  assumes "glob_inv c" and "\<not> p_queued (profile c r)" and "\<not> p_nt (profile c r)"
  shows "glob_inv (c\<lparr>req_unsent := req_unsent c @ [r]\<rparr>)" "glob_inv (c\<lparr>req_notarget := req_notarget c @ [r]\<rparr>)"
    "glob_inv (c\<lparr>req_notarget := r # req_notarget c\<rparr>)" "glob_inv (c\<lparr>req_lru := req_lru c @ [r]\<rparr>)"
  using assms not_queued_lists[of c r] by (auto simp: glob_defs)

lemma profile_queue [moves_profile]:
  "profile (c\<lparr>req_unsent := req_unsent c @ [r]\<rparr>) q = (if q = r then (profile c r)\<lparr>p_queued := True\<rparr> else profile c q)"
  "profile (c\<lparr>req_notarget := req_notarget c @ [r]\<rparr>) q = (if q = r then (profile c r)\<lparr>p_nt := True\<rparr> else profile c q)"
  "profile (c\<lparr>req_notarget := r # req_notarget c\<rparr>) q = (if q = r then (profile c r)\<lparr>p_nt := True\<rparr> else profile c q)"
  "profile (c\<lparr>req_lru := req_lru c @ [r]\<rparr>) q = (if q = r then (profile c r)\<lparr>p_queued := True\<rparr> else profile c q)"
  by (auto simp: profile_def)

lemma glob_linger [moves_glob]:
  "glob_inv c \<Longrightarrow> \<not> p_ling (profile c r) \<Longrightarrow> glob_inv (c\<lparr>req_linger := req_linger c @ [r]\<rparr>)"
  "glob_inv c \<Longrightarrow> glob_inv (c\<lparr>req_linger := remove1 r (req_linger c)\<rparr>)"
  by (auto simp: glob_defs profile_def)

lemma profile_linger [moves_profile]:
  "profile (c\<lparr>req_linger := req_linger c @ [r]\<rparr>) q = (if q = r then (profile c r)\<lparr>p_ling := True\<rparr> else profile c q)"
  "glob_inv c \<Longrightarrow> profile (c\<lparr>req_linger := remove1 r (req_linger c)\<rparr>) q =
    (if q = r then (profile c r)\<lparr>p_ling := False\<rparr> else profile c q)"
  by (auto simp: profile_def glob_defs set_remove1_eq)

text \<open>The lists of a session.\<close>

lemma osd_no_upd: "o_osd (f (osd_of c x)) = o_osd (osd_of c x) \<Longrightarrow> ordered (osd_no (upd_osd x f c)) t = ordered (osd_no c) t"
  by (rule ordered_cong) (simp add: upd_osd_def)

lemma glob_upd_osd:
  assumes "glob_inv c" and "o_osd (f (osd_of c x)) = o_osd (osd_of c x)"
    and "x \<in> set_tree (osds c) \<Longrightarrow> distinct (o_requests (f (osd_of c x))) \<and> distinct (o_linger_requests (f (osd_of c x)))"
    and "x \<in> set (osd_lru c) \<Longrightarrow> osd_idle (f (osd_of c x))"
  shows "glob_inv (upd_osd x f c)"
proof -
  have "trees_inv (upd_osd x f c)"
    using assms(1) osd_no_upd[of f c x, OF assms(2)] by (simp add: glob_inv_def trees_inv_def) (simp add: upd_osd_def)
  with assms show ?thesis by (auto simp: glob_inv_def lists_inv_def lru_inv_def upd_osd_def)
qed

lemma glob_sess [moves_glob]:
  assumes "glob_inv c"
  shows "glob_inv (upd_osd x (\<lambda>y. y\<lparr>o_requests := remove1 r (o_requests y)\<rparr>) c)"
    "glob_inv (upd_osd x (\<lambda>y. y\<lparr>o_linger_requests := remove1 r (o_linger_requests y)\<rparr>) c)"
    "glob_inv (upd_osd x (\<lambda>y. y\<lparr>o_requests := remove1 r (o_requests y), o_linger_requests := remove1 r (o_linger_requests y)\<rparr>) c)"
    "glob_inv (upd_osd x (\<lambda>y. y\<lparr>lru_ttl := ttl\<rparr>) c)" "glob_inv (upd_osd x (\<lambda>y. y\<lparr>o_peer_addr := addr\<rparr>) c)"
    "glob_inv (upd_osd x (\<lambda>y. y\<lparr>o_peer_addr := addr, o_incarnation := o_incarnation y + 1\<rparr>) c)"
    "x \<notin> p_sess (profile c r) \<Longrightarrow> x \<notin> set (osd_lru c) \<Longrightarrow> glob_inv (upd_osd x (\<lambda>y. y\<lparr>o_requests := o_requests y @ [r]\<rparr>) c)"
    "x \<notin> p_lsess (profile c r) \<Longrightarrow> x \<notin> set (osd_lru c) \<Longrightarrow> glob_inv (upd_osd x (\<lambda>y. y\<lparr>o_linger_requests := o_linger_requests y @ [r]\<rparr>) c)"
  by (rule glob_upd_osd; use assms in \<open>auto simp: glob_inv_def lists_inv_def lru_inv_def osd_idle_def profile_def\<close>)+

lemma profile_sess_same [moves_profile]:
  "profile (upd_osd x (\<lambda>y. y\<lparr>lru_ttl := ttl\<rparr>) c) = profile c" "profile (upd_osd x (\<lambda>y. y\<lparr>o_peer_addr := addr\<rparr>) c) = profile c"
  "profile (upd_osd x (\<lambda>y. y\<lparr>o_peer_addr := addr, o_incarnation := o_incarnation y + 1\<rparr>) c) = profile c"
  by (auto simp: profile_def upd_osd_def fun_eq_iff)

lemma profile_sess [moves_profile]:
  assumes "glob_inv c"
  shows "profile (upd_osd x (\<lambda>y. y\<lparr>o_requests := remove1 r (o_requests y)\<rparr>) c) q =
      (if q = r then (profile c r)\<lparr>p_sess := p_sess (profile c r) - {x}\<rparr> else profile c q)"
    "profile (upd_osd x (\<lambda>y. y\<lparr>o_linger_requests := remove1 r (o_linger_requests y)\<rparr>) c) q =
      (if q = r then (profile c r)\<lparr>p_lsess := p_lsess (profile c r) - {x}\<rparr> else profile c q)"
    "profile (upd_osd x (\<lambda>y. y\<lparr>o_requests := remove1 r (o_requests y), o_linger_requests := remove1 r (o_linger_requests y)\<rparr>) c) q =
      (if q = r then (profile c r)\<lparr>p_sess := p_sess (profile c r) - {x}, p_lsess := p_lsess (profile c r) - {x}\<rparr> else profile c q)"
  using assms by (auto simp: profile_def upd_osd_def glob_defs set_remove1_eq)

lemma profile_sess_add [moves_profile]:
  assumes "x \<in> set_tree (osds c)"
  shows "profile (upd_osd x (\<lambda>y. y\<lparr>o_requests := o_requests y @ [r]\<rparr>) c) q =
      (if q = r then (profile c r)\<lparr>p_sess := insert x (p_sess (profile c r))\<rparr> else profile c q)"
    "profile (upd_osd x (\<lambda>y. y\<lparr>o_linger_requests := o_linger_requests y @ [r]\<rparr>) c) q =
      (if q = r then (profile c r)\<lparr>p_lsess := insert x (p_lsess (profile c r))\<rparr> else profile c q)"
  using assms by (auto simp: profile_def upd_osd_def)

text \<open>The idle sessions.\<close>

lemma glob_osd_lru [moves_glob]:
  "glob_inv c \<Longrightarrow> glob_inv (c\<lparr>osd_lru := remove1 x (osd_lru c)\<rparr>)"
  "glob_inv c \<Longrightarrow> x \<notin> set (osd_lru c) \<Longrightarrow> x \<in> set_tree (osds c) \<Longrightarrow> osd_idle (osd_of c x) \<Longrightarrow> glob_inv (c\<lparr>osd_lru := osd_lru c @ [x]\<rparr>)"
  by (auto simp: glob_defs dest: notin_set_remove1[rotated])

lemma profile_osd_lru [moves_profile]: "profile (c\<lparr>osd_lru := xs\<rparr>) = profile c"
  by (simp add: profile_def fun_eq_iff)

section \<open>Registering and unregistering\<close>

lemma profile_simps [simp]:
  "p_reg (profile c r) = (r \<in> set_tree (requests c))" "p_ling (profile c r) = (r \<in> set (req_linger c))"
  "p_osd (profile c r) = r_osd (req_of c r)" "p_flag (profile c r) = r_linger (req_of c r)"
  by (simp_all add: profile_def)

text \<open>What the operations on requests leave alone.\<close>

definition same_sessions :: "ceph_osd_client \<Rightarrow> ceph_osd_client \<Rightarrow> bool" where
  "same_sessions c c' \<longleftrightarrow> osds c' = osds c \<and> oc_map c' = oc_map c"

lemma same_sessions_refl: "same_sessions c c"
  by (simp add: same_sessions_def)

lemma same_sessions_trans: "same_sessions a b \<Longrightarrow> same_sessions b c \<Longrightarrow> same_sessions a c"
  by (simp add: same_sessions_def)

lemma register_ok:
  assumes "env_ok env" and "glob_inv c" and "r \<notin> set_tree (requests c)" and "register_request env r c = Inr c'"
  shows "moves r c c'" and "profile c' r = (profile c r)\<lparr>p_reg := True\<rparr>" and "same_sessions c c'"
proof -
  let ?tid = "last_tid c + 1"
  define c1 where "c1 = upd_req r (\<lambda>x. x\<lparr>r_tid := ?tid, r_request := (r_request x)\<lparr>hdr_tid := ?tid\<rparr>\<rparr>) (c\<lparr>last_tid := ?tid\<rparr>)"
  obtain t where t: "bug_if_exists (insert_by (tid_of c1) (oe_color env) r (requests c1)) = Inr t"
    and c': "c' = (let c = c1\<lparr>requests := t, num_requests := num_requests c1 + 1\<rparr> in if num_requests c = 1 then act Schedule_timeout c else c)"
    using assms(4) unfolding register_request_def Let_def c1_def[symmetric] insert_request_def by (auto simp: Let_def)
  have g0: "glob_inv (c\<lparr>last_tid := ?tid\<rparr>)" "profile (c\<lparr>last_tid := ?tid\<rparr>) = profile c"
    using assms(2) by (simp_all add: glob_defs profile_def fun_eq_iff)
  have g1: "glob_inv c1" and p1: "profile c1 = profile c"
    using g0 assms(3) by (simp_all add: c1_def moves_glob fun_eq_iff moves_profile)
  have rq: "requests c1 = requests c" "osds c1 = osds c" "oc_map c1 = oc_map c" by (simp_all add: c1_def upd_req_def)
  note ins = bug_insert_ok[OF _ _ t]
  have o: "ordered (tid_of c1) (requests c1)" "keeps_inorder (oe_color env)" using g1 assms(1) by (simp_all add: glob_defs env_ok_def)
  have "card (set_tree t) = card (set_tree (requests c1)) + 1" using ins(2)[OF o] assms(3) rq by simp
  then have g2: "glob_inv (c1\<lparr>requests := t, num_requests := num_requests c1 + 1\<rparr>)"
    using g1 ins(1)[OF o] by (simp add: glob_defs)
  have p2: "profile (c1\<lparr>requests := t, num_requests := num_requests c1 + 1\<rparr>) q = (if q = r then (profile c r)\<lparr>p_reg := True\<rparr> else profile c q)" for q
    using ins(2)[OF o] rq unfolding p1[symmetric] by (auto simp: profile_def)
  define c2 where "c2 = c1\<lparr>requests := t, num_requests := num_requests c1 + 1\<rparr>"
  have c2: "c' = (if num_requests c2 = 1 then act Schedule_timeout c2 else c2)" "osds c2 = osds c" "oc_map c2 = oc_map c"
    using c' rq by (simp_all add: c2_def Let_def)
  show "moves r c c'" "profile c' r = (profile c r)\<lparr>p_reg := True\<rparr>" "same_sessions c c'"
    using g2 p2 c2(2,3) unfolding c2_def[symmetric] c2(1)
    by (simp_all add: moves_def moves_glob moves_profile same_sessions_def) (simp_all add: act_def)
qed

text \<open>A session that loses its last request goes to the idle list; it was not there.\<close>

lemma maybe_move_ok:
  assumes "glob_inv c" and "x \<in> set_tree (osds c)" and "x \<notin> set (osd_lru c)"
  shows "\<exists>c'. maybe_move_osd_to_lru env x c = Inr c' \<and> glob_inv c' \<and> profile c' = profile c \<and> same_sessions c c' \<and>
    req_of c' = req_of c \<and> requests c' = requests c \<and> num_requests c' = num_requests c \<and> (\<forall>y. o_linger_requests (osd_of c' y) = o_linger_requests (osd_of c y)) \<and>
    (\<forall>y. o_requests (osd_of c' y) = o_requests (osd_of c y))"
  using assms
  by (simp add: maybe_move_osd_to_lru_def move_osd_to_lru_def moves_glob moves_profile same_sessions_def)
    (auto simp: upd_osd_def)

lemma unregister_ok:
  assumes env: "env_ok env" and g: "glob_inv c" and pb: "points_back (profile c r)"
    and sess: "r \<in> set_tree (requests c) \<Longrightarrow> p_sess (profile c r) = set_option (r_osd (req_of c r))"
  shows "\<exists>c'. unregister_request env r c = Inr c' \<and> moves r c c' \<and> same_sessions c c' \<and>
    profile c' r = (if r \<in> set_tree (requests c)
      then (profile c r)\<lparr>p_reg := False, p_queued := False, p_nt := False, p_sess := {},
        p_osd := (if p_lsess (profile c r) = {} then None else r_osd (req_of c r))\<rparr>
      else profile c r)"
proof (cases "r \<in> set_tree (requests c)")
  case False
  then show ?thesis using g by (auto simp: unregister_request_def moves_def same_sessions_def)
next
  case reg: True
  define c1 where "c1 = c\<lparr>requests := oe_erase env r (requests c), num_requests := num_requests c - 1\<rparr>"
  have o: "ordered (tid_of c) (requests c)" "erases_node (oe_erase env)" using g env by (simp_all add: glob_defs env_ok_def)
  have t: "set_tree (oe_erase env r (requests c)) = set_tree (requests c) - {r}" by (rule erase_set[OF o reg])
  have "0 < card (set_tree (requests c))" using reg by (auto simp: card_gt_0_iff)
  then have g1: "glob_inv c1" using g t map_key_remove1[OF o(1) reg o(2)] reg
    by (simp add: c1_def glob_defs of_nat_diff)
  have p1: "profile c1 q = (if q = r then (profile c r)\<lparr>p_reg := False\<rparr> else profile c q)" for q
    using t by (auto simp: c1_def profile_def)
  have s1: "osds c1 = osds c" "oc_map c1 = oc_map c" "req_of c1 = req_of c" by (simp_all add: c1_def)
  have fin: "moves r c (let c = lru_del r d in if num_requests c = 0 then act Cancel_timeout c else c)"
    "same_sessions c (let c = lru_del r d in if num_requests c = 0 then act Cancel_timeout c else c)"
    "profile (let c = lru_del r d in if num_requests c = 0 then act Cancel_timeout c else c) r =
      (profile d r)\<lparr>p_queued := False, p_nt := False\<rparr>"
    if "glob_inv d" "\<forall>q. q \<noteq> r \<longrightarrow> profile d q = profile c q" "same_sessions c d" for d
    using that by (simp_all add: Let_def moves_def moves_glob moves_profile same_sessions_def) (simp_all add: act_def lru_del_def)
  show ?thesis
  proof (cases "r_osd (req_of c r)")
    case None
    then have "p_lsess (profile c r) = {}" "p_sess (profile c r) = {}" using pb by (simp_all add: points_back_def)
    with fin[of c1] g1 p1 s1 None reg show ?thesis
      unfolding unregister_request_def Let_def c1_def[symmetric]
      by (simp add: same_sessions_def Let_def)
  next
    case (Some x)
    have x: "x \<in> set_tree (osds c)" "r \<in> set (o_requests (osd_of c x))" using sess[OF reg] Some by (auto simp: profile_def)
    have nl: "x \<notin> set (osd_lru c)" using g x(2) by (auto simp: glob_defs osd_idle_def)
    define c2 where "c2 = upd_osd x (\<lambda>x. x\<lparr>o_requests := remove1 r (o_requests x)\<rparr>) (act (Msg_revoke r) c1)"
    have g2: "glob_inv c2" and p2: "profile c2 q = (if q = r then (profile c r)\<lparr>p_reg := False, p_sess := {}\<rparr> else profile c q)" for q
      using g1 p1 sess[OF reg] Some by (simp_all add: c2_def moves_glob moves_profile)
    have s2: "osds c2 = osds c" "oc_map c2 = oc_map c" "req_of c2 = req_of c" "osd_lru c2 = osd_lru c"
      "o_linger_requests (osd_of c2 x) = o_linger_requests (osd_of c x)"
      by (simp_all add: c2_def c1_def upd_osd_def act_def)
    obtain c3 where c3: "maybe_move_osd_to_lru env x c2 = Inr c3" "glob_inv c3" "profile c3 = profile c2" "same_sessions c2 c3"
      "req_of c3 = req_of c2" "\<forall>y. o_linger_requests (osd_of c3 y) = o_linger_requests (osd_of c2 y)"
      using maybe_move_ok[OF g2, of x env] x(1) nl s2 by auto
    define c4 where "c4 = (if r \<notin> set (o_linger_requests (osd_of c3 x)) then upd_req r (\<lambda>x. x\<lparr>r_osd := None\<rparr>) c3 else c3)"
    have ls: "r \<notin> set (o_linger_requests (osd_of c3 x)) \<longleftrightarrow> p_lsess (profile c r) = {}"
      using pb Some x(1) s2(5) c3(6) by (auto simp: points_back_def profile_def)
    have same: "(profile c r)\<lparr>p_reg := False, p_sess := {}, p_osd := Some x\<rparr> = (profile c r)\<lparr>p_reg := False, p_sess := {}\<rparr>"
      using Some by (simp add: profile_def)
    have g4: "glob_inv c4" and p4: "profile c4 q = (if q = r then (profile c r)\<lparr>p_reg := False, p_sess := {},
        p_osd := (if p_lsess (profile c r) = {} then None else Some x)\<rparr> else profile c q)" for q
      using c3(2,3) p2 by (simp_all add: c4_def ls moves_glob moves_profile, simp_all add: same)
    have s4: "same_sessions c c4" using c3(4) s2 by (simp add: c4_def same_sessions_def upd_req_def)
    have "unregister_request env r c = Inr (let c = lru_del r c4 in if num_requests c = 0 then act Cancel_timeout c else c)"
      unfolding unregister_request_def Let_def c1_def[symmetric] using reg Some s1(3) c3(1) by (simp add: c2_def c4_def)
    with fin[OF g4 _ s4] p4 Some reg show ?thesis by simp
  qed
qed

lemma unregister_linger_ok:
  assumes g: "glob_inv c" and pb: "points_back (profile c r)"
    and sess: "set_option (r_osd (req_of c r)) \<subseteq> p_sess (profile c r) \<union> p_lsess (profile c r)"
  shows "\<exists>c'. unregister_linger_request env r c = Inr c' \<and> moves r c c' \<and> same_sessions c c' \<and>
    profile c' r = (if r \<in> set (req_linger c)
      then (profile c r)\<lparr>p_ling := False, p_queued := False, p_nt := False, p_lsess := {},
        p_osd := (if p_sess (profile c r) = {} then None else r_osd (req_of c r))\<rparr>
      else profile c r)"
proof (cases "r \<in> set (req_linger c)")
  case False
  then show ?thesis using g by (auto simp: unregister_linger_request_def moves_def same_sessions_def)
next
  case ling: True
  define c1 where "c1 = c\<lparr>req_linger := remove1 r (req_linger c)\<rparr>"
  have g1: "glob_inv c1" and p1: "profile c1 q = (if q = r then (profile c r)\<lparr>p_ling := False\<rparr> else profile c q)" for q
    using g by (simp_all add: c1_def moves_glob moves_profile)
  have s1: "osds c1 = osds c" "oc_map c1 = oc_map c" "req_of c1 = req_of c" by (simp_all add: c1_def)
  have fin: "moves r c (lru_del r d)" "same_sessions c (lru_del r d)"
    "profile (lru_del r d) r = (profile d r)\<lparr>p_queued := False, p_nt := False\<rparr>"
    if "glob_inv d" "\<forall>q. q \<noteq> r \<longrightarrow> profile d q = profile c q" "same_sessions c d" for d
    using that by (simp_all add: moves_def moves_glob moves_profile same_sessions_def) (simp_all add: lru_del_def)
  show ?thesis
  proof (cases "r_osd (req_of c r)")
    case None
    then have "p_lsess (profile c r) = {}" "p_sess (profile c r) = {}" using pb by (simp_all add: points_back_def)
    with fin[of c1] g1 p1 s1 None ling show ?thesis
      unfolding unregister_linger_request_def Let_def c1_def[symmetric]
      by (simp add: same_sessions_def)
  next
    case (Some x)
    have x: "x \<in> set_tree (osds c)" "\<not> osd_idle (osd_of c x)" using sess Some by (auto simp: profile_def osd_idle_def)
    have nl: "x \<notin> set (osd_lru c)" using g x(2) by (auto simp: glob_defs)
    define c2 where "c2 = upd_osd x (\<lambda>x. x\<lparr>o_linger_requests := remove1 r (o_linger_requests x)\<rparr>) c1"
    have "p_lsess (profile c r) - {x} = {}" using pb Some by (auto simp: points_back_def)
    then have g2: "glob_inv c2" and p2: "profile c2 q = (if q = r then (profile c r)\<lparr>p_ling := False, p_lsess := {}\<rparr> else profile c q)" for q
      using g1 p1 by (simp_all add: c2_def moves_glob moves_profile)
    have s2: "osds c2 = osds c" "oc_map c2 = oc_map c" "req_of c2 = req_of c" "osd_lru c2 = osd_lru c"
      "o_requests (osd_of c2 x) = o_requests (osd_of c x)"
      by (simp_all add: c2_def c1_def upd_osd_def act_def)
    obtain c3 where c3: "maybe_move_osd_to_lru env x c2 = Inr c3" "glob_inv c3" "profile c3 = profile c2" "same_sessions c2 c3"
      "req_of c3 = req_of c2" "\<forall>y. o_requests (osd_of c3 y) = o_requests (osd_of c2 y)"
      using maybe_move_ok[OF g2, of x env] x(1) nl s2 by auto
    define c4 where "c4 = (if r \<notin> set (o_requests (osd_of c3 x)) then upd_req r (\<lambda>x. x\<lparr>r_osd := None\<rparr>) c3 else c3)"
    have ls: "r \<notin> set (o_requests (osd_of c3 x)) \<longleftrightarrow> p_sess (profile c r) = {}"
      using pb Some x(1) s2(5) c3(6) by (auto simp: points_back_def profile_def)
    have same: "(profile c r)\<lparr>p_ling := False, p_lsess := {}, p_osd := Some x\<rparr> = (profile c r)\<lparr>p_ling := False, p_lsess := {}\<rparr>"
      using Some by (simp add: profile_def)
    have g4: "glob_inv c4" and p4: "profile c4 q = (if q = r then (profile c r)\<lparr>p_ling := False, p_lsess := {},
        p_osd := (if p_sess (profile c r) = {} then None else Some x)\<rparr> else profile c q)" for q
      using c3(2,3) p2 by (simp_all add: c4_def ls moves_glob moves_profile, simp_all add: same)
    have s4: "same_sessions c c4" using c3(4) s2 by (simp add: c4_def same_sessions_def upd_req_def)
    have "unregister_linger_request env r c = Inr (lru_del r c4)"
      unfolding unregister_linger_request_def Let_def c1_def[symmetric] using ling Some s1(3) c3(1) by (simp add: c2_def c4_def)
    with fin[OF g4 _ s4] p4 Some ling show ?thesis by simp
  qed
qed

text \<open>With the invariant, both kinds of unregistering succeed and keep it.\<close>

lemma settled_points_back: "settled p \<Longrightarrow> points_back p"
  by (simp add: settled_def)

lemma inv_settled: "osdc_inv c \<Longrightarrow> settled (profile c r)" and inv_glob: "osdc_inv c \<Longrightarrow> glob_inv c"
  by (simp_all add: osdc_inv_def)

text \<open>A request the client does not know.\<close>

definition free :: "profile \<Rightarrow> bool" where
  "free p \<longleftrightarrow> \<not> p_reg p \<and> \<not> p_ling p \<and> \<not> p_queued p \<and> \<not> p_nt p \<and> p_sess p = {} \<and> p_lsess p = {} \<and> p_osd p = None"

lemma free_settled: "free p \<Longrightarrow> settled p"
  by (simp add: free_def settled_def points_back_def)

lemma unregister_inv:
  assumes "env_ok env" and "osdc_inv c"
  shows "\<exists>c'. unregister_request env r c = Inr c' \<and> osdc_inv c' \<and> moves r c c' \<and> same_sessions c c' \<and>
    r_linger (req_of c' r) = r_linger (req_of c r) \<and> (r \<in> set_tree (requests c) \<longrightarrow> free (profile c' r)) \<and> (r \<notin> set_tree (requests c) \<longrightarrow> c' = c)"
proof (cases "r \<in> set_tree (requests c)")
  case False
  then show ?thesis using assms(2) inv_glob[OF assms(2)]
    by (simp add: unregister_request_def moves_refl same_sessions_refl)
next
  case True
  note st = inv_settled[OF assms(2), of r]
  then have s: "p_sess (profile c r) = set_option (r_osd (req_of c r))" "p_lsess (profile c r) = {}" "r \<notin> set (req_linger c)"
    using True by (auto simp: settled_def points_back_def)
  obtain c' where c': "unregister_request env r c = Inr c'" "moves r c c'" "same_sessions c c'"
    "profile c' r = (profile c r)\<lparr>p_reg := False, p_queued := False, p_nt := False, p_sess := {}, p_osd := None\<rparr>"
    using unregister_ok[OF assms(1) inv_glob[OF assms(2)] settled_points_back[OF st]] s True by auto
  have "free (profile c' r)" unfolding c'(4) free_def using s by simp
  moreover have "r_linger (req_of c' r) = r_linger (req_of c r)" using arg_cong[OF c'(4), of p_flag] by simp
  ultimately show ?thesis using c' moves_inv[OF assms(2) c'(2) free_settled] True by auto
qed

lemma unregister_linger_inv:
  assumes "osdc_inv c"
  shows "\<exists>c'. unregister_linger_request env r c = Inr c' \<and> osdc_inv c' \<and> moves r c c' \<and> same_sessions c c' \<and>
    (r \<in> set (req_linger c) \<longrightarrow> free (profile c' r)) \<and> (r \<notin> set (req_linger c) \<longrightarrow> c' = c)"
proof (cases "r \<in> set (req_linger c)")
  case False
  then show ?thesis using assms inv_glob[OF assms]
    by (simp add: unregister_linger_request_def moves_refl same_sessions_refl)
next
  case True
  note st = inv_settled[OF assms, of r]
  then have s: "p_lsess (profile c r) = set_option (r_osd (req_of c r))" "p_sess (profile c r) = {}" "r \<notin> set_tree (requests c)"
    using True by (auto simp: settled_def points_back_def)
  obtain c' where c': "unregister_linger_request env r c = Inr c'" "moves r c c'" "same_sessions c c'"
    "profile c' r = (profile c r)\<lparr>p_ling := False, p_queued := False, p_nt := False, p_lsess := {}, p_osd := None\<rparr>"
    using unregister_linger_ok[OF inv_glob[OF assms] settled_points_back[OF st], of env] s True by auto
  have "free (profile c' r)" unfolding c'(4) free_def using s by simp
  with c' moves_inv[OF assms c'(2) free_settled] True show ?thesis by auto
qed

lemma register_inv:
  assumes "env_ok env" and "osdc_inv c" and "free (profile c r)" and "register_request env r c = Inr c'"
  shows "osdc_inv c'" "moves r c c'" "same_sessions c c'" "profile c' r = (profile c r)\<lparr>p_reg := True\<rparr>"
proof -
  have "r \<notin> set_tree (requests c)" using assms(3) by (simp add: free_def)
  note r = register_ok[OF assms(1) inv_glob[OF assms(2)] this assms(4)]
  show "moves r c c'" "same_sessions c c'" "profile c' r = (profile c r)\<lparr>p_reg := True\<rparr>" by (rule r)+
  have "settled (profile c' r)" unfolding r(2) using assms(3) by (simp add: settled_def points_back_def free_def del: profile_simps)
  then show "osdc_inv c'" by (rule moves_inv[OF assms(2) r(1)])
qed

text \<open>A registered request becomes a linger request: it is on the list of its session.\<close>

lemma register_linger_ok:
  assumes "osdc_inv c" and "r \<notin> set (req_linger c)" and "r \<in> set_tree (requests c) \<or> r_osd (req_of c r) = None"
  shows "moves r c (register_linger_request r c)" "same_sessions c (register_linger_request r c)"
    "profile (register_linger_request r c) r = (profile c r)\<lparr>p_ling := True, p_lsess := set_option (r_osd (req_of c r))\<rparr>"
proof -
  note g = inv_glob[OF assms(1)] and st = inv_settled[OF assms(1), of r]
  define c1 where "c1 = c\<lparr>req_linger := req_linger c @ [r]\<rparr>"
  have g1: "glob_inv c1" and p1: "profile c1 q = (if q = r then (profile c r)\<lparr>p_ling := True\<rparr> else profile c q)" for q
    using g assms(2) by (simp_all add: c1_def moves_glob moves_profile)
  have s1: "osds c1 = osds c" "oc_map c1 = oc_map c" "req_of c1 = req_of c" "osd_lru c1 = osd_lru c" by (simp_all add: c1_def)
  have ls: "p_lsess (profile c r) = {}" using st assms(2) by (auto simp: settled_def points_back_def)
  have "moves r c (register_linger_request r c) \<and> same_sessions c (register_linger_request r c) \<and>
    profile (register_linger_request r c) r = (profile c r)\<lparr>p_ling := True, p_lsess := set_option (r_osd (req_of c r))\<rparr>"
  proof (cases "r_osd (req_of c r)")
    case None
    then have "register_linger_request r c = c1" by (simp add: register_linger_request_def c1_def Let_def)
    moreover have "(profile c r)\<lparr>p_ling := True, p_lsess := {}\<rparr> = (profile c r)\<lparr>p_ling := True\<rparr>" using ls by (simp add: profile_def)
    ultimately show ?thesis using g1 p1 s1 None by (simp add: moves_def same_sessions_def)
  next
    case (Some x)
    with assms(3) st have x: "x \<in> p_sess (profile c r)" by (auto simp: settled_def)
    then have x': "x \<in> set_tree (osds c)" "x \<notin> set (osd_lru c)" using g by (auto simp: profile_def glob_defs osd_idle_def)
    have "register_linger_request r c = upd_osd x (\<lambda>x. x\<lparr>o_linger_requests := o_linger_requests x @ [r]\<rparr>) c1"
      using Some by (simp add: register_linger_request_def c1_def Let_def)
    moreover have "x \<notin> p_lsess (profile c1 r)" using p1[of r] ls by (simp del: profile_simps)
    ultimately show ?thesis using g1 p1 s1 x' Some ls
      by (simp add: moves_def same_sessions_def moves_glob moves_profile) (simp add: upd_osd_def)
  qed
  then show "moves r c (register_linger_request r c)" "same_sessions c (register_linger_request r c)"
    "profile (register_linger_request r c) r = (profile c r)\<lparr>p_ling := True, p_lsess := set_option (r_osd (req_of c r))\<rparr>" by blast+
qed

section \<open>Queueing and sending\<close>

lemma enqueue_ok:
  assumes g: "glob_inv c" and s: "p_sess (profile c r) = {}" and x: "\<forall>x. r_osd (req_of c r) = Some x \<longrightarrow> x \<in> set_tree (osds c)"
  shows "moves r c (enqueue_request r c)" "same_sessions c (enqueue_request r c)"
    "profile (enqueue_request r c) r = (profile c r)\<lparr>p_queued := (r_osd (req_of c r) \<noteq> None), p_nt := (r_osd (req_of c r) = None),
       p_sess := set_option (r_osd (req_of c r))\<rparr>"
proof -
  have "moves r c (enqueue_request r c) \<and> same_sessions c (enqueue_request r c) \<and>
    profile (enqueue_request r c) r = (profile c r)\<lparr>p_queued := (r_osd (req_of c r) \<noteq> None), p_nt := (r_osd (req_of c r) = None),
       p_sess := set_option (r_osd (req_of c r))\<rparr>"
  proof (cases "r_osd (req_of c r)")
    case None
    have same: "(profile c r)\<lparr>p_queued := False, p_nt := True, p_sess := {}\<rparr> = (profile c r)\<lparr>p_queued := False, p_nt := True\<rparr>"
      using s by (simp add: profile_def)
    show ?thesis using None g
      by (simp add: enqueue_request_def Let_def moves_def moves_glob moves_profile same_sessions_def same) (simp add: lru_del_def)
  next
    case (Some x)
    with assms(3) have x: "x \<in> set_tree (osds c)" by simp
    define c1 where "c1 = remove_osd_from_lru x c"
    have g1: "glob_inv c1" and p1: "profile c1 = profile c" and s1: "osds c1 = osds c" "oc_map c1 = oc_map c" "x \<notin> set (osd_lru c1)"
      using g by (simp_all add: c1_def remove_osd_from_lru_def moves_glob moves_profile) (simp add: glob_defs)
    show ?thesis using Some g1 p1 s1 x s unfolding enqueue_request_def c1_def[symmetric]
      by (simp add: Let_def c1_def[symmetric] moves_def moves_glob moves_profile same_sessions_def) (simp add: lru_del_def upd_osd_def)
  qed
  then show "moves r c (enqueue_request r c)" "same_sessions c (enqueue_request r c)"
    "profile (enqueue_request r c) r = (profile c r)\<lparr>p_queued := (r_osd (req_of c r) \<noteq> None), p_nt := (r_osd (req_of c r) = None),
       p_sess := set_option (r_osd (req_of c r))\<rparr>" by blast+
qed

lemma move_notarget_ok:
  assumes "glob_inv c"
  shows "moves r c (move_notarget r c)" "profile (move_notarget r c) r = (profile c r)\<lparr>p_queued := False, p_nt := True\<rparr>"
  using assms by (simp_all add: move_notarget_def Let_def moves_def moves_glob moves_profile)

lemma cancel_request_ok:
  assumes "glob_inv c"
  shows "glob_inv (cancel_request r c)" "profile (cancel_request r c) = profile c" "osds (cancel_request r c) = osds c"
  using assms by (simp_all add: cancel_request_def moves_glob moves_profile, simp add: upd_req_def act_def)

lemma detach_ok:
  assumes g: "glob_inv c" and pb: "points_back (profile c r)"
  shows "moves r c (detach_osd r c)" "osds (detach_osd r c) = osds c"
    "profile (detach_osd r c) r = (profile c r)\<lparr>p_sess := {}, p_lsess := {}, p_osd := None\<rparr>"
proof -
  have "moves r c (detach_osd r c) \<and> osds (detach_osd r c) = osds c \<and>
    profile (detach_osd r c) r = (profile c r)\<lparr>p_sess := {}, p_lsess := {}, p_osd := None\<rparr>"
  proof (cases "r_osd (req_of c r)")
    case None
    then have "(profile c r)\<lparr>p_sess := {}, p_lsess := {}, p_osd := None\<rparr> = profile c r"
      using pb by (simp add: points_back_def profile_def)
    with None g show ?thesis by (simp add: detach_osd_def moves_def)
  next
    case (Some x)
    then have e: "p_sess (profile c r) - {x} = {}" "p_lsess (profile c r) - {x} = {}" using pb by (auto simp: points_back_def)
    define c1 where "c1 = cancel_request r c"
    have c1: "glob_inv c1" "profile c1 = profile c" "osds c1 = osds c" using cancel_request_ok[OF g, of r] by (simp_all add: c1_def)
    show ?thesis unfolding detach_osd_def Some option.case Let_def c1_def[symmetric]
      using c1 e by (simp add: moves_def moves_glob moves_profile) (simp add: upd_req_def upd_osd_def)
  qed
  then show "moves r c (detach_osd r c)" "osds (detach_osd r c) = osds c"
    "profile (detach_osd r c) r = (profile c r)\<lparr>p_sess := {}, p_lsess := {}, p_osd := None\<rparr>" by blast+
qed

lemma create_osd_ok:
  assumes g: "glob_inv c" and cr: "create_osd env n c = (Some x, c')"
  shows "glob_inv c'" "profile c' = profile c" "osds c' = osds c" "x \<notin> set_tree (osds c)" "osd_no c' x = n"
    "o_requests (osd_of c' x) = []" "o_linger_requests (osd_of c' x) = []" "x < osd_next c'" "x \<notin> set (osd_lru c')"
proof -
  have x: "x = osd_next c" using cr by (auto simp: create_osd_def split: if_splits)
  then show nx: "x \<notin> set_tree (osds c)" using g by (auto simp: glob_defs)
  have c': "osds c' = osds c" "osd_lru c' = osd_lru c" "osd_next c' = osd_next c + 1" "\<And>y. y \<noteq> x \<Longrightarrow> osd_of c' y = osd_of c y"
    "requests c' = requests c" "req_of c' = req_of c" "num_requests c' = num_requests c" "req_lru c' = req_lru c" "req_unsent c' = req_unsent c"
    "req_notarget c' = req_notarget c" "req_linger c' = req_linger c"
    using cr x by (auto simp: create_osd_def split: if_splits)
  show "osds c' = osds c" "osd_no c' x = n" "o_requests (osd_of c' x) = []" "o_linger_requests (osd_of c' x) = []" "x < osd_next c'"
    using cr x by (auto simp: create_osd_def split: if_splits)
  have eq: "osd_of c' y = osd_of c y" if "y \<in> set_tree (osds c)" for y using c'(4) nx that by metis
  have "ordered (osd_no c') (osds c) = ordered (osd_no c) (osds c)" by (rule ordered_cong) (simp add: eq)
  moreover have l: "y \<in> set_tree (osds c)" if "y \<in> set (osd_lru c)" for y using g that by (simp add: glob_defs)
  ultimately show "glob_inv c'" using g eq by (auto simp: glob_defs c')
  show "x \<notin> set (osd_lru c')" using l nx by (auto simp: c')
  show "profile c' = profile c" using eq by (auto simp: profile_def fun_eq_iff c')
qed

lemma insert_osd_ok:
  assumes "env_ok env" and "glob_inv c" and "insert_osd env x c = Inr c'" and "x < osd_next c"
    and "o_requests (osd_of c x) = []" "o_linger_requests (osd_of c x) = []"
  shows "glob_inv c'" "profile c' = profile c" "set_tree (osds c') = insert x (set_tree (osds c))" "oc_map c' = oc_map c" "osd_of c' = osd_of c"
    "osd_lru c' = osd_lru c"
proof -
  obtain t where t: "bug_if_exists (insert_by (osd_no c) (oe_color env) x (osds c)) = Inr t" and c': "c' = c\<lparr>osds := t\<rparr>"
    using assms(3) by (auto simp: insert_osd_def)
  have o: "ordered (osd_no c) (osds c)" "keeps_inorder (oe_color env)" using assms(1,2) by (simp_all add: glob_defs env_ok_def)
  note ins = bug_insert_ok[OF o t]
  show "glob_inv c'" using assms(2,4-) ins(1,2) by (auto simp: glob_defs c')
  show "profile c' = profile c" using assms(5,6) ins(2) by (auto simp: profile_def c' fun_eq_iff)
  show "set_tree (osds c') = insert x (set_tree (osds c))" "oc_map c' = oc_map c" "osd_of c' = osd_of c" "osd_lru c' = osd_lru c"
    using ins(2) by (simp_all add: c')
qed

lemma attach_ok:
  assumes env: "env_ok env" and g: "glob_inv c" and at: "attach_osd env r n c = Inr (ok, c')" and none: "r_osd (req_of c r) = None"
  shows "\<exists>v. moves r c c' \<and> profile c' r = (profile c r)\<lparr>p_osd := v\<rparr> \<and> (\<forall>x. v = Some x \<longrightarrow> x \<in> set_tree (osds c')) \<and>
    (\<not> ok \<longrightarrow> v = None)"
proof (cases "lookup_osd c n")
  case (Some x)
  have "x \<in> set_tree (osds c)" using lookup_by_mem[OF _ Some[unfolded lookup_osd_def]] g by (simp add: glob_defs)
  then show ?thesis using at Some g
    by (intro exI[of _ "Some x"]) (auto simp: attach_osd_def moves_def moves_glob moves_profile, simp add: upd_req_def)
next
  case None
  have same: "(profile c r)\<lparr>p_osd := None\<rparr> = profile c r" using none by (simp add: profile_def)
  show ?thesis
  proof (cases "0 \<le> n")
    case False
    then show ?thesis using None at g same by (intro exI[of _ None]) (simp add: attach_osd_def moves_def)
  next
    case pos: True
    show ?thesis
    proof (cases "create_osd env n c")
      case (Pair x' c1)
      show ?thesis
      proof (cases x')
        case no: None
        then have "c1 = c" using Pair by (auto simp: create_osd_def split: if_splits)
        with no Pair None pos at g same show ?thesis by (intro exI[of _ None]) (simp add: attach_osd_def moves_def)
      next
        case (Some x)
        note cr = create_osd_ok[OF g Pair[unfolded Some]]
        define c2 where "c2 = upd_req r (\<lambda>y. y\<lparr>r_osd := Some x\<rparr>) c1"
        have c2: "glob_inv c2" "profile c2 q = (if q = r then (profile c r)\<lparr>p_osd := Some x\<rparr> else profile c q)"
          "osds c2 = osds c" "osd_of c2 = osd_of c1" "osd_next c2 = osd_next c1" for q
          using cr by (simp_all add: c2_def moves_glob moves_profile) (simp_all add: upd_req_def)
        from at None pos Pair Some obtain c3 om addr where c3: "insert_osd env x c2 = Inr c3"
          and c': "ok" "c' = upd_osd x (\<lambda>y. y\<lparr>o_peer_addr := addr\<rparr>) (act (Con_open x n addr) c3)"
          by (auto simp: attach_osd_def c2_def)
        note ins = insert_osd_ok[OF env c2(1) c3, unfolded c2(4,5), OF cr(8,6,7)]
        show ?thesis using ins c2(2) c' by (intro exI[of _ "Some x"])
          (simp add: moves_def moves_glob moves_profile, simp add: upd_osd_def act_def)
      qed
    qed
  qed
qed

lemma calc_request_target_frame:
  assumes "calc_request_target om req = Inr req'"
  shows "r_osd req' = r_osd req" "r_linger req' = r_linger req" "r_tid req' = r_tid req"
  using assms by (auto simp: calc_request_target_def Let_def split: if_splits option.splits)

end
