(* ===== verification/Auth_Ticket.thy ===== *)
theory Auth_Ticket
  imports Auth_X Osd_Queues
begin

text \<open>
  What the cephx protocol promises its client: encryption with a header is undone by decryption, an authorizer is always built
  within its buffer and carries a fresh nonce under the session key, the proper answer of a server is accepted, and the client
  counts as authenticated only with tickets that have not expired.
\<close>

section \<open>Encryption with a header\<close>

lemma encrypt_header_length [simp]: "length encrypt_header = 9"
  by (simp add: encrypt_header_def)

lemma sint_of_small: "n < 2 ^ 31 \<Longrightarrow> sint (word_of_nat n :: u32) = int n"
proof -
  assume "n < 2 ^ 31"
  then have "int n < 2 ^ 31" by simp
  then have "signed_take_bit 31 (int n) = int n" by (intro signed_take_bit_int_eq_self) auto
  then show ?thesis by (simp add: signed_of_nat)
qed

lemma scast_small: "n < 2 ^ 31 \<Longrightarrow> unat (scast (word_of_nat n :: u32) :: u64) = n"
proof -
  assume a: "n < 2 ^ 31"
  have "(scast (word_of_nat n :: u32) :: u64) = word_of_int (sint (word_of_nat n :: u32))" by (rule scast_eq)
  also have "\<dots> = word_of_nat n" by (simp add: sint_of_small[OF a])
  finally show ?thesis using a by (simp add: unat_of_nat)
qed

lemma x_round_trip:
  assumes "good_cipher ca" and "k_type key = CEPH_CRYPTO_NONE \<or> k_type key = CEPH_CRYPTO_AES"
    and "length ibuf + 25 < 2 ^ 31" and "0 \<le> p" and "p + 4 + int (length ibuf + 25) \<le> int (length obuf)"
    and "9 + length ibuf \<le> unat (olen - 4) \<or> k_type key = CEPH_CRYPTO_AES" and "ibuf \<noteq> []"
  shows "\<exists>obuf' c. ceph_x_encrypt ca key ibuf obuf p olen = Inr (4 + int (length c), obuf') \<and> length c \<le> length ibuf + 25 \<and>
    put_bytes obuf p (le_bytes 4 (word_of_nat (length c) :: u32) @ c) = Inr obuf' \<and>
    (\<forall>env buf en q mem. ae_crypto env = ca \<longrightarrow> length (fresh_mem env 9) = 9 \<longrightarrow>
      get_bytes buf (4 + length c) q = Inr (le_bytes 4 (word_of_nat (length c) :: u32) @ c) \<longrightarrow> q + 4 + int (length c) \<le> en \<longrightarrow> length ibuf \<le> length mem \<longrightarrow>
      (\<exists>mem'. ceph_x_decrypt env key buf en q (Some mem) = Inr (int (length ibuf), q + 4 + int (length c), Some mem') \<and> take (length ibuf) mem' = ibuf))"
proof -
  obtain dst c where e: "ceph_encrypt2 ca key obuf (p + 4) (unat (olen - 4)) encrypt_header ibuf = Inr (0, dst, length c)"
    "put_bytes obuf (p + 4) c = Inr dst" "length c \<le> length ibuf + 25"
    and d: "\<And>d1 d2. length d1 = 9 \<Longrightarrow> length ibuf \<le> length d2 \<Longrightarrow>
      \<exists>d2'. ceph_decrypt2 ca key d1 d2 c = Inr (0, (encrypt_header, 9), (d2', length ibuf)) \<and> take (length ibuf) d2' = ibuf"
    using encrypt2_spec[OF assms(1,2), of encrypt_header ibuf "p + 4" obuf "unat (olen - 4)"] assms(3-7) by auto
  define lb where "lb = le_bytes 4 (word_of_nat (length c) :: u32)"
  have lb: "length lb = 4" by (simp add: lb_def)
  obtain obuf' where o1: "put_bytes dst p lb = Inr obuf'" using assms(4,5) put_bytes_length[OF e(2)] lb by (simp add: put_bytes_def)
  have o2: "put_bytes obuf p (lb @ c) = Inr obuf'"
  proof -
    obtain q where q: "p = int q" using assms(4) nonneg_int_cases by blast
    have n: "q + (4 + length c) \<le> length obuf" using assms(5) e(3) q by simp
    have "dst = take (q + 4) obuf @ c @ drop (q + 4 + length c) obuf" using e(2) q by (simp add: put_bytes_Inr_iff nat_add_distrib)
    then have "obuf' = take q obuf @ lb @ c @ drop (q + 4 + length c) obuf" using o1 q n lb by (simp add: put_bytes_Inr_iff min_def)
    then show ?thesis using q n lb by (simp add: put_bytes_Inr_iff add.assoc)
  qed
  have "ceph_x_encrypt ca key ibuf obuf p olen = Inr (4 + int (length c), obuf')"
    using e(1) o1 by (simp add: ceph_x_encrypt_def ceph_encode_32_def lb_def)
  moreover have "\<exists>mem'. ceph_x_decrypt env key buf en q (Some mem) = Inr (int (length ibuf), q + 4 + int (length c), Some mem') \<and> take (length ibuf) mem' = ibuf"
    if h: "ae_crypto env = ca" "length (fresh_mem env 9) = 9" "get_bytes buf (4 + length c) q = Inr (lb @ c)" "q + 4 + int (length c) \<le> en" "length ibuf \<le> length mem" for env buf en q mem
  proof -
    have small: "length c < 2 ^ 31" using e(3) assms(3) by simp
    have len: "sint (word_of_nat (length c) :: u32) = int (length c)" "unat (scast (word_of_nat (length c) :: u32) :: u64) = length c"
      using sint_of_small[OF small] scast_small[OF small] by simp_all
    have g: "0 \<le> q" "q + 4 + int (length c) \<le> int (length buf)" "take (4 + length c) (drop (nat q) buf) = lb @ c"
      using h(3) by (auto simp: get_bytes_Inr_iff)
    have g1: "get_bytes buf 4 q = Inr lb" using g(1,2) arg_cong[OF g(3), of "take 4"] lb by (simp add: get_bytes_Inr_iff)
    have g2: "get_bytes buf (length c) (q + 4) = Inr c"
      using g(1,2) arg_cong[OF g(3), of "drop 4"] lb by (simp add: get_bytes_Inr_iff nat_add_distrib drop_take add.commute)
    have dec: "ceph_decode_32 buf q = Inr (word_of_nat (length c), q + 4)" using g1 by (simp add: ceph_decode_32_def lb_def)
    obtain mem' where m: "ceph_decrypt2 ca key (fresh_mem env 9) mem c = Inr (0, (encrypt_header, 9), (mem', length ibuf))" "take (length ibuf) mem' = ibuf"
      using d[OF h(2,5)] by blast
    show ?thesis using h(1,4) g2 m by (simp add: ceph_x_decrypt_def dec len Let_def)
  qed
  ultimately show ?thesis using o2 e(3) by (intro exI[of _ obuf'] exI[of _ c]) (simp add: lb_def)
qed

section \<open>Authorizers\<close>

definition blob_ok :: "ceph_x_ticket_handler \<Rightarrow> bool" where
  "blob_ok th \<longleftrightarrow> (case th_ticket_blob th of None \<Rightarrow> True | Some b \<Rightarrow> iov_len b \<le> length (iov_base b) \<and> iov_len b < 2 ^ 30)"

definition blob_len :: "ceph_x_ticket_handler \<Rightarrow> nat" where
  "blob_len th = (case th_ticket_blob th of None \<Rightarrow> 0 | Some b \<Rightarrow> iov_len b)"

lemma authorize_a_length: "blob_ok th \<Longrightarrow> length (authorize_a ac th) = 26 + blob_len th"
  by (auto simp: authorize_a_def blob_ok_def blob_len_def split: option.splits)

text \<open>The buffer an authorizer is built in: the old one when it is large enough.\<close>

lemma authorizer_built_lemma:
  assumes "good_cipher (ae_crypto env)" and "k_type (th_session_key th) = CEPH_CRYPTO_AES" and "blob_ok th" and "\<forall>n. ae_alloc env n"
  shows "\<exists>au' b c. ceph_x_build_authorizer env ac th au = Inr (0, au') \<and> au_buf au' = Some b \<and> au_nonce au' = random64 env \<and>
    iov_len b \<le> alloc_len b \<and> take (iov_len b) (iov_base b) = authorize_a ac th @ le_bytes 4 (word_of_nat (length c) :: u32) @ c \<and>
    (\<forall>senv mem. ae_crypto senv = ae_crypto env \<longrightarrow> length (fresh_mem senv 9) = 9 \<longrightarrow> 9 \<le> length mem \<longrightarrow>
      (\<exists>mem'. ceph_x_decrypt senv (th_session_key th) (take (iov_len b) (iov_base b)) (int (iov_len b)) (int (26 + blob_len th)) (Some mem) =
        Inr (9, int (iov_len b), Some mem') \<and> take 9 mem' = 1 # le_bytes 8 (random64 env)))"
proof -
  define tl where "tl = blob_len th"
  define maxlen where "maxlen = 26 + 9 + ceph_x_encrypt_buflen (int tl)"
  have tl: "(case th_ticket_blob th of None \<Rightarrow> 0 | Some b \<Rightarrow> int (iov_len b)) = int tl" "tl < 2 ^ 30"
    using assms(3) by (auto simp: tl_def blob_len_def blob_ok_def split: option.splits)
  have ml: "maxlen = int (64 + tl)" by (simp add: maxlen_def ceph_x_encrypt_buflen_def)
  define au0 where "au0 = (case au_buf au of None \<Rightarrow> au | Some b \<Rightarrow> if int (alloc_len b) < maxlen then au\<lparr>au_buf := None\<rparr> else au)"
  have "64 + tl \<le> length (iov_base b0)" if "au_buf au0 = Some b0" for b0
    using that ml by (auto simp: au0_def alloc_len_def split: option.splits if_splits)
  moreover have "ceph_buffer_new (ae_alloc env) (nat maxlen) = Some \<lparr>iov_base = replicate (64 + tl) 0, iov_len = 64 + tl\<rparr>"
    using assms(4) unfolding ml by (simp add: ceph_buffer_new_def del: of_nat_add)
  ultimately obtain b0 where b0: "(case au_buf au0 of None \<Rightarrow> ceph_buffer_new (ae_alloc env) (nat maxlen) | Some b \<Rightarrow> Some b) = Some b0" "64 + tl \<le> length (iov_base b0)"
    by (cases "au_buf au0") auto
  define a where "a = authorize_a ac th"
  have a: "length a = 26 + tl" using authorize_a_length[OF assms(3)] by (simp add: a_def tl_def)
  define base where "base = a @ drop (length a) (iov_base b0)"
  have base: "put_bytes (iov_base b0) 0 a = Inr base" "length base = length (iov_base b0)" using b0(2) a by (simp_all add: put_bytes_def base_def)
  define nonce where "nonce = (1 :: u8) # le_bytes 8 (random64 env)"
  have n9: "length nonce = 9" "nonce \<noteq> []" by (simp_all add: nonce_def)
  have room: "int (26 + tl) + 4 + int (length nonce + 25) \<le> int (length base)" using b0(2) base(2) n9 by simp
  obtain base' c where e: "ceph_x_encrypt (ae_crypto env) (th_session_key th) nonce base (int (26 + tl)) (word_of_int (int (iov_len b0) - int (26 + tl))) = Inr (4 + int (length c), base')"
    "length c \<le> 34" "put_bytes base (int (26 + tl)) (le_bytes 4 (word_of_nat (length c) :: u32) @ c) = Inr base'"
    and d: "\<And>senv buf en q mem. ae_crypto senv = ae_crypto env \<Longrightarrow> length (fresh_mem senv 9) = 9 \<Longrightarrow>
      get_bytes buf (4 + length c) q = Inr (le_bytes 4 (word_of_nat (length c) :: u32) @ c) \<Longrightarrow> q + 4 + int (length c) \<le> en \<Longrightarrow> 9 \<le> length mem \<Longrightarrow>
      (\<exists>mem'. ceph_x_decrypt senv (th_session_key th) buf en q (Some mem) = Inr (9, q + 4 + int (length c), Some mem') \<and> take 9 mem' = nonce)"
    using x_round_trip[OF assms(1) disjI2[OF assms(2)] _ _ room disjI2[OF assms(2)] n9(2), of "word_of_int (int (iov_len b0) - int (26 + tl))"] n9(1) by auto
  define b where "b = \<lparr>iov_base = base', iov_len = 26 + tl + (4 + length c)\<rparr>"
  define au' where "au' = au0\<lparr>au_buf := Some b, au_service := th_service th, au_secret_id := th_secret_id th, au_nonce := random64 env\<rparr>"
  have bm: "base' = a @ (le_bytes 4 (word_of_nat (length c) :: u32) @ c) @ drop (4 + length c) (drop (length a) (iov_base b0))"
    using e(3) a put_at[of "le_bytes 4 (word_of_nat (length c) :: u32) @ c" "drop (length a) (iov_base b0)" a] b0(2) e(2) by (simp add: base_def)
  have "ceph_x_build_authorizer env ac th au = Inr (0, au')"
    unfolding ceph_x_build_authorizer_def Let_def tl(1) maxlen_def[symmetric] au0_def[symmetric] b0(1) option.case a_def[symmetric] base(1) bindE_simps
    using e(1,2) ml unfolding nonce_def by (simp add: au'_def b_def guardE_def nat_add_distrib add.assoc)
  moreover have "take (iov_len b) (iov_base b) = a @ le_bytes 4 (word_of_nat (length c) :: u32) @ c" using a by (simp add: b_def bm)
  moreover have "iov_len b \<le> alloc_len b" using a b0(2) e(2) by (simp add: b_def alloc_len_def bm)
  moreover have "\<exists>mem'. ceph_x_decrypt senv (th_session_key th) (take (iov_len b) (iov_base b)) (int (iov_len b)) (int (26 + tl)) (Some mem) =
        Inr (9, int (iov_len b), Some mem') \<and> take 9 mem' = nonce"
    if "ae_crypto senv = ae_crypto env" "length (fresh_mem senv 9) = 9" "9 \<le> length mem" for senv mem
  proof -
    have "get_bytes (a @ (le_bytes 4 (word_of_nat (length c) :: u32) @ c) @ []) (4 + length c) (int (26 + tl)) = Inr (le_bytes 4 (word_of_nat (length c) :: u32) @ c)"
      by (rule get_bytes_mid) (simp_all add: a)
    then have g: "get_bytes (take (iov_len b) (iov_base b)) (4 + length c) (int (26 + tl)) = Inr (le_bytes 4 (word_of_nat (length c) :: u32) @ c)"
      using calculation(2) by simp
    have "int (26 + tl) + 4 + int (length c) = int (iov_len b)" by (simp add: b_def)
    with d[OF that(1,2) g _ that(3), of "int (iov_len b)"] show ?thesis by simp
  qed
  moreover have "au_buf au' = Some b" "au_nonce au' = random64 env" by (simp_all add: au'_def)
  ultimately show ?thesis unfolding a_def nonce_def tl_def by blast
qed

section \<open>Tickets\<close>

lemma get_handler_ok:
  assumes "ordered th_service (ticket_handlers xi)" and "keeps_inorder (th_color env)" and "ae_alloc env 120"
  shows "\<exists>th xi'. get_ticket_handler env s xi = Some (th, xi') \<and> th_service th = s \<and> th \<in> set_tree (ticket_handlers xi') \<and>
    set_tree (ticket_handlers xi) \<subseteq> set_tree (ticket_handlers xi') \<and> ordered th_service (ticket_handlers xi') \<and> have_keys xi' = have_keys xi"
proof (cases "lookup_by th_service (ticket_handlers xi) s")
  case (Some th)
  then show ?thesis using lookup_by_mem[OF assms(1) Some] lookup_by_key[OF assms(1) Some] assms(1) by (simp add: get_ticket_handler_def)
next
  case None
  have "\<forall>y\<in>set_tree (ticket_handlers xi). th_service y \<noteq> th_service (zero_handler s)"
    using None lookup_by_spec[OF assms(1), of s] by (auto simp: find_None_iff zero_handler_def)
  from link_by_new[OF this assms(1)] obtain t where t: "link_by th_service (zero_handler s) (ticket_handlers xi) = Some t" "ordered th_service t"
    "set_tree t = insert (zero_handler s) (set_tree (ticket_handlers xi))" by blast
  then show ?thesis using None assms(2,3) by (auto simp: get_ticket_handler_def ordered_color set_tree_color zero_handler_def)
qed

lemma and_bit: "i < 32 \<Longrightarrow> (w AND 2 ^ i = 0) = (\<not> bit (w :: u32) i)"
  by (simp add: and_exp_eq_0_iff_not_bit)

text \<open>What the loop has established for the first \<open>i\<close> services, and what it keeps for the others.\<close>

definition checked :: "auth_env \<Rightarrow> u32 \<Rightarrow> nat \<Rightarrow> u32 \<times> ceph_x_info \<Rightarrow> bool" where
  "checked env want i = (\<lambda>(needed, xi). ordered th_service (ticket_handlers xi) \<and>
    (\<forall>j<i. bit want j \<longrightarrow> bit (have_keys xi) j \<longrightarrow> (\<exists>th\<in>set_tree (ticket_handlers xi). th_service th = 2 ^ j \<and> get_seconds env < th_expires th)) \<and>
    (\<forall>j. i \<le> j \<longrightarrow> bit needed j \<longrightarrow> \<not> bit (have_keys xi) j))"

lemma checked_step:
  assumes "checked env want i s" and "i < 31" and "keeps_inorder (th_color env)" and "ae_alloc env 120"
  shows "checked env want (Suc i) (validate_ticket env want (2 ^ i) s)"
proof -
  obtain needed xi where s: "s = (needed, xi)" by fastforce
  have a: "(want AND 2 ^ i = 0) = (\<not> bit want i)" "(needed AND 2 ^ i = 0) = (\<not> bit needed i)" using assms(2) by (simp_all add: and_bit)
  consider "\<not> bit want i" | "bit want i" "bit needed i" | "bit want i" "\<not> bit needed i" by blast
  then show ?thesis
  proof cases
    case 3
    have o: "ordered th_service (ticket_handlers xi)" using assms(1) by (simp add: s checked_def)
    obtain th xi' where g: "get_ticket_handler env (2 ^ i) xi = Some (th, xi')" "th_service th = 2 ^ i" "th \<in> set_tree (ticket_handlers xi')"
      "set_tree (ticket_handlers xi) \<subseteq> set_tree (ticket_handlers xi')" "ordered th_service (ticket_handlers xi')" "have_keys xi' = have_keys xi"
      using get_handler_ok[OF o assms(3,4), of "2 ^ i"] by blast
    have b: "bit (needed OR 2 ^ i) j = bit needed j" "bit (have_keys xi AND NOT (2 ^ i)) j = bit (have_keys xi) j" if "j \<noteq> i" for j
      using that by (auto simp: bit_simps bit_exp_iff dest: bit_imp_le_length)
    have c: "\<not> bit (have_keys xi AND NOT (2 ^ i)) i" by (auto simp: bit_simps)
    have v: "validate_ticket env want (2 ^ i) s =
      (if th_renew_after th \<le> get_seconds env then needed OR 2 ^ i else needed,
       if th_expires th \<le> get_seconds env then xi'\<lparr>have_keys := have_keys xi AND NOT (2 ^ i)\<rparr> else xi')"
      using 3 g(1,6) a by (simp add: s validate_ticket_def)
    define xi2 where "xi2 = (if th_expires th \<le> get_seconds env then xi'\<lparr>have_keys := have_keys xi AND NOT (2 ^ i)\<rparr> else xi')"
    define n2 where "n2 = (if th_renew_after th \<le> get_seconds env then needed OR 2 ^ i else needed)"
    have t: "ticket_handlers xi2 = ticket_handlers xi'" by (simp add: xi2_def)
    have h: "bit (have_keys xi2) j = bit (have_keys xi) j" "bit n2 j = bit needed j" if "j \<noteq> i" for j
      using b[OF that] g(6) by (simp_all add: xi2_def n2_def)
    have hi: "get_seconds env < th_expires th" if "bit (have_keys xi2) i" using that c by (auto simp: xi2_def split: if_splits)
    have "\<exists>th\<in>set_tree (ticket_handlers xi2). th_service th = 2 ^ j \<and> get_seconds env < th_expires th"
      if j: "j < Suc i" "bit want j" "bit (have_keys xi2) j" for j
    proof (cases "j = i")
      case True
      then show ?thesis using hi j(3) g(2,3) t by auto
    next
      case False
      then have "bit (have_keys xi) j" "j < i" using h(1) j by auto
      then obtain th' where "th' \<in> set_tree (ticket_handlers xi)" "th_service th' = 2 ^ j" "get_seconds env < th_expires th'"
        using assms(1) j(2) unfolding checked_def s by auto
      then show ?thesis using g(4) t by auto
    qed
    moreover have "\<not> bit (have_keys xi2) j" if "Suc i \<le> j" "bit n2 j" for j
      using assms(1) that h[of j] unfolding checked_def s by auto
    ultimately have "checked env want (Suc i) (n2, xi2)" using g(5) t by (simp add: checked_def)
    then show ?thesis using v by (simp add: n2_def xi2_def)
  next
    case 2
    then show ?thesis using assms(1) a by (auto simp: s validate_ticket_def checked_def less_Suc_eq)
  next
    case 1
    then show ?thesis using assms(1) a by (auto simp: s validate_ticket_def checked_def less_Suc_eq)
  qed
qed

lemma checked_fold:
  assumes "checked env want 0 s" and "keeps_inorder (th_color env)" and "ae_alloc env 120"
  shows "k \<le> 31 \<Longrightarrow> checked env want k (fold (validate_ticket env want) (map (\<lambda>i. 2 ^ i) [0..<k]) s)"
  by (induction k) (use assms checked_step in auto)

lemma services_upto: "\<exists>k\<le>31. services want = map (\<lambda>i. 2 ^ i) [0..<k]"
proof -
  obtain k where "takeWhile ((\<lambda>s :: u32. sint s \<le> sint want) \<circ> (\<lambda>i. 2 ^ i)) [0..<31] = take k [0..<31]" by (metis takeWhile_eq_take)
  then show ?thesis by (intro exI[of _ "min k 31"]) (simp add: services_def takeWhile_map take_map comp_def min_def)
qed

section \<open>Properties\<close>

text \<open>C31: A client that counts as authenticated with cephx holds, for every service it wants, a ticket that has not expired.\<close>

theorem authenticated_tickets_valid:
  assumes "ordered th_service (ticket_handlers xi)" and "keeps_inorder (th_color env)" and "ae_alloc env 120"
    and "ceph_x_is_authenticated env ac xi = (True, xi')" and "s \<in> set (services (want_keys ac))" and "want_keys ac AND s \<noteq> 0"
  shows "\<exists>th\<in>set_tree (ticket_handlers xi'). th_service th = s \<and> get_seconds env < th_expires th"
proof -
  let ?w = "want_keys ac"
  have "checked env ?w 0 (?w AND NOT (have_keys xi), xi)" using assms(1) by (simp add: checked_def bit_simps)
  note f = checked_fold[OF this assms(2,3)]
  obtain k where k: "k \<le> 31" "services ?w = map (\<lambda>i. 2 ^ i) [0..<k]" using services_upto by blast
  obtain needed where v: "ceph_x_validate_tickets env ac xi = (needed, xi')" "?w AND have_keys xi' = ?w"
    using assms(4) by (auto simp: ceph_x_is_authenticated_def split: prod.splits)
  have c: "checked env ?w k (needed, xi')" using f[OF k(1)] v(1) by (simp add: ceph_x_validate_tickets_def k(2))
  obtain j where j: "j < k" "s = 2 ^ j" using assms(5) k(2) by auto
  have b: "bit ?w j" using assms(6) j k(1) and_bit[of j ?w] by simp
  then have "bit (have_keys xi') j" using arg_cong[OF v(2), of "\<lambda>w. bit w j"] by (simp add: bit_and_iff)
  then show ?thesis using c j b by (simp add: checked_def)
qed

definition example_auth_env :: auth_env where
  "example_auth_env = \<lparr>ae_alloc = (\<lambda>_. True), fresh_mem = (\<lambda>n. replicate n 0), get_seconds = 1000, random64 = 77, ae_crypto = example_crypto, th_color = (\<lambda>t. t)\<rparr>"

definition example_session_key :: ceph_crypto_key where
  "example_session_key = \<lparr>k_type = 1, k_created = replicate 8 0, k_len = 2, k_key = [7, 8]\<rparr>"

definition example_handler :: ceph_x_ticket_handler where
  "example_handler = (zero_handler 1)\<lparr>th_session_key := example_session_key, th_secret_id := 5, th_ticket_blob := Some \<lparr>iov_base = [1, 2, 3], iov_len = 3\<rparr>,
     th_expires := 2000, th_renew_after := 1800\<rparr>"

definition example_x_info :: ceph_x_info where
  "example_x_info = \<lparr>xi_secret = example_session_key, xi_starting = False, server_challenge = 0, have_keys = 1, ticket_handlers = Node Leaf example_handler Leaf,
     auth_authorizer = zero_authorizer\<rparr>"

definition example_auth_client :: ceph_auth_client where
  "example_auth_client = \<lparr>protocol = 2, ac_private = Private_x example_x_info, ac_ops = Some Ceph_x_ops, negotiating = False, ac_name = [99],
     global_id = 4, ac_key = Some example_session_key, want_keys = 1\<rparr>"

theorem authenticated_tickets_valid_witness:
  "ceph_x_is_authenticated example_auth_env example_auth_client example_x_info = (True, example_x_info) \<and>
    (\<exists>th\<in>set_tree (ticket_handlers example_x_info). th_service th = 1 \<and> 1000 < th_expires th)"
proof -
  have s: "services 1 = [1]" by code_simp
  have a: "ceph_x_is_authenticated example_auth_env example_auth_client example_x_info = (True, example_x_info)"
    by (simp add: ceph_x_is_authenticated_def ceph_x_validate_tickets_def example_auth_client_def s validate_ticket_def get_ticket_handler_def
        example_x_info_def example_handler_def zero_handler_def example_auth_env_def)
  moreover have "\<exists>th\<in>set_tree (ticket_handlers example_x_info). th_service th = 1 \<and> get_seconds example_auth_env < th_expires th"
    by (rule authenticated_tickets_valid[OF _ _ _ a]) (simp_all add: example_auth_client_def s example_x_info_def ordered_def keeps_inorder_def example_auth_env_def)
  ultimately show ?thesis by (simp add: example_auth_env_def)
qed

text \<open>C32: With an AES session key an authorizer is always built: the assertion on its length holds, nothing is written outside its buffer, also when an old
  buffer is used again, and the server that has the session key finds the fresh nonce of the client behind the ticket.\<close>

theorem authorizer_built:
  assumes "good_cipher (ae_crypto env)" and "k_type (th_session_key th) = CEPH_CRYPTO_AES" and "blob_ok th" and "\<forall>n. ae_alloc env n"
    and "length (fresh_mem env 9) = 9"
  shows "\<exists>au' b mem. ceph_x_build_authorizer env ac th au = Inr (0, au') \<and> au_buf au' = Some b \<and> iov_len b \<le> alloc_len b \<and>
    take (26 + blob_len th) (iov_base b) = authorize_a ac th \<and>
    ceph_x_decrypt env (th_session_key th) (take (iov_len b) (iov_base b)) (int (iov_len b)) (int (26 + blob_len th)) (Some (fresh_mem env 9)) =
      Inr (9, int (iov_len b), Some mem) \<and> take 9 mem = 1 # le_bytes 8 (au_nonce au')"
proof -
  obtain au' b c where h: "ceph_x_build_authorizer env ac th au = Inr (0, au')" "au_buf au' = Some b" "au_nonce au' = random64 env"
    "iov_len b \<le> alloc_len b" "take (iov_len b) (iov_base b) = authorize_a ac th @ le_bytes 4 (word_of_nat (length c) :: u32) @ c"
    and d: "\<And>senv mem. ae_crypto senv = ae_crypto env \<Longrightarrow> length (fresh_mem senv 9) = 9 \<Longrightarrow> 9 \<le> length mem \<Longrightarrow>
      \<exists>mem'. ceph_x_decrypt senv (th_session_key th) (take (iov_len b) (iov_base b)) (int (iov_len b)) (int (26 + blob_len th)) (Some mem) =
        Inr (9, int (iov_len b), Some mem') \<and> take 9 mem' = 1 # le_bytes 8 (random64 env)"
    using authorizer_built_lemma[OF assms(1-4), of ac au] by blast
  have l: "length (authorize_a ac th) = 26 + blob_len th" by (rule authorize_a_length[OF assms(3)])
  have "26 + blob_len th \<le> iov_len b" using arg_cong[OF h(5), of length] h(4) l by (simp add: alloc_len_def)
  then have "take (26 + blob_len th) (iov_base b) = take (26 + blob_len th) (take (iov_len b) (iov_base b))" by (simp add: min_def)
  also have "\<dots> = authorize_a ac th" unfolding h(5) using l by simp
  finally show ?thesis using h(1-4) d[of env "fresh_mem env 9"] assms(5) by auto
qed

theorem authorizer_built_witness:
  "\<exists>au' b. ceph_x_build_authorizer example_auth_env example_auth_client example_handler zero_authorizer = Inr (0, au') \<and> au_buf au' = Some b \<and>
    take 29 (iov_base b) = authorize_a example_auth_client example_handler"
  using authorizer_built[of example_auth_env example_handler example_auth_client zero_authorizer] example_crypto_good
  by (auto simp: example_auth_env_def example_handler_def example_session_key_def zero_handler_def CEPH_CRYPTO_AES_def blob_ok_def blob_len_def)

text \<open>C33: The answer a server owes is accepted: the nonce of the authorizer plus one, encrypted under the session key.\<close>

theorem server_reply_accepted:
  assumes "good_cipher (ae_crypto env)" and "k_type (th_session_key th) = CEPH_CRYPTO_AES" and "length (fresh_mem env 9) = 9"
    and "lookup_by th_service (ticket_handlers xi) (au_service au) = Some th" and "length mem = 128"
    and "ceph_x_encrypt (ae_crypto env) (th_session_key th) (1 # le_bytes 8 (au_nonce au + 1)) mem 0 128 = Inr (n, reply)"
  shows "ceph_x_verify_authorizer_reply env (au\<lparr>au_reply_buf := reply\<rparr>) xi = Inr (0, xi)"
proof -
  let ?i = "(1 :: u8) # le_bytes 8 (au_nonce au + 1)"
  obtain c where c: "put_bytes mem 0 (le_bytes 4 (word_of_nat (length c) :: u32) @ c) = Inr reply" "length c \<le> 34"
    and d: "\<And>buf en q mem. get_bytes buf (4 + length c) q = Inr (le_bytes 4 (word_of_nat (length c) :: u32) @ c) \<Longrightarrow> q + 4 + int (length c) \<le> en \<Longrightarrow> 9 \<le> length mem \<Longrightarrow>
      \<exists>mem'. ceph_x_decrypt env (th_session_key th) buf en q (Some mem) = Inr (9, q + 4 + int (length c), Some mem') \<and> take 9 mem' = ?i"
    using x_round_trip[OF assms(1) disjI2[OF assms(2)], of ?i 0 mem 128] assms(2,3,5,6) by auto
  have "get_bytes reply (4 + length c) 0 = Inr (le_bytes 4 (word_of_nat (length c) :: u32) @ c)" using get_put_same[OF c(1)] by (simp add: add.commute)
  moreover have "length reply = 128" using put_bytes_length[OF c(1)] assms(5) by simp
  ultimately obtain m where m: "ceph_x_decrypt env (th_session_key th) reply 128 0 (Some (fresh_mem env 9)) = Inr (9, 4 + int (length c), Some m)" "take 9 m = ?i"
    using d[of reply 0 128 "fresh_mem env 9"] assms(3) c(2) by auto
  have "take 8 (drop 1 m) = le_bytes 8 (au_nonce au + 1)" using arg_cong[OF m(2), of "drop 1"] by (simp add: drop_take)
  moreover have "9 \<le> length m" using arg_cong[OF m(2), of length] by simp
  ultimately have "get_bytes m 8 1 = Inr (le_bytes 8 (au_nonce au + 1))" by (simp add: get_bytes_def)
  then show ?thesis using assms(4) m(1) \<open>length reply = 128\<close>
    by (simp add: ceph_x_verify_authorizer_reply_def get_ticket_handler_def)
qed

theorem server_reply_accepted_witness:
  "\<exists>n reply. ceph_x_encrypt example_crypto example_session_key (1 # le_bytes 8 (78 :: u64)) (replicate 128 0) 0 128 = Inr (n, reply) \<and>
    ceph_x_verify_authorizer_reply example_auth_env (zero_authorizer\<lparr>au_service := 1, au_nonce := 77, au_reply_buf := reply\<rparr>) example_x_info = Inr (0, example_x_info)"
proof -
  obtain n reply where e: "ceph_x_encrypt example_crypto example_session_key (1 # le_bytes 8 (78 :: u64)) (replicate 128 0) 0 128 = Inr (n, reply)"
    using x_round_trip[OF example_crypto_good, of example_session_key "1 # le_bytes 8 (78 :: u64)" 0 "replicate 128 0" 128]
    by (auto simp: example_session_key_def CEPH_CRYPTO_AES_def)
  have "ceph_x_verify_authorizer_reply example_auth_env (zero_authorizer\<lparr>au_service := 1, au_nonce := 77, au_reply_buf := reply\<rparr>) example_x_info = Inr (0, example_x_info)"
    using server_reply_accepted[of example_auth_env example_handler example_x_info "zero_authorizer\<lparr>au_service := 1, au_nonce := 77\<rparr>" "replicate 128 0" n reply] e example_crypto_good
    by (simp add: example_auth_env_def example_handler_def example_x_info_def zero_handler_def example_session_key_def CEPH_CRYPTO_AES_def)
  with e show ?thesis by blast
qed

end
