(* ===== verification/Auth.thy ===== *)
theory Auth
  imports Auth_Ticket
begin

text \<open>
  The authentication client (\<open>net/ceph/auth.c\<close>): negotiation of a protocol with the monitor, requests and replies, and the calls of the
  messenger for authorizers, each through the table of operations of the protocol. The mutex makes an operation a step;
  where an operation takes it twice the task waits for itself.
\<close>

section \<open>The table of operations\<close>

definition CEPH_AUTH_NONE :: u32 where "CEPH_AUTH_NONE = 1"
definition CEPH_AUTH_CEPHX :: u32 where "CEPH_AUTH_CEPHX = 2"

definition supported_protocols :: "u32 list" where
  "supported_protocols = [CEPH_AUTH_NONE, CEPH_AUTH_CEPHX]"

text \<open>A function of a protocol reads the private state as its own.\<close>

definition with_x :: "ceph_auth_client \<Rightarrow> (ceph_x_info \<Rightarrow> 'a res) \<Rightarrow> 'a res" where
  "with_x ac f =
    (case ac_private ac of
       Private_null \<Rightarrow> Inl (Fault NullDeref) | Private_none ai \<Rightarrow> Inl (Fault TypeConfusion) | Private_x xi \<Rightarrow> f xi)"

definition with_none :: "ceph_auth_client \<Rightarrow> (ceph_auth_none_info \<Rightarrow> 'a res) \<Rightarrow> 'a res" where
  "with_none ac f =
    (case ac_private ac of
       Private_null \<Rightarrow> Inl (Fault NullDeref) | Private_none ai \<Rightarrow> f ai | Private_x xi \<Rightarrow> Inl (Fault TypeConfusion))"

abbreviation (input) set_x :: "ceph_auth_client \<Rightarrow> ceph_x_info \<Rightarrow> ceph_auth_client" where
  "set_x ac xi \<equiv> ac\<lparr>ac_private := Private_x xi\<rparr>"

abbreviation (input) set_none :: "ceph_auth_client \<Rightarrow> ceph_auth_none_info \<Rightarrow> ceph_auth_client" where
  "set_none ac ai \<equiv> ac\<lparr>ac_private := Private_none ai\<rparr>"

definition ops_is_authenticated :: "auth_env \<Rightarrow> auth_ops \<Rightarrow> ceph_auth_client \<Rightarrow> (bool \<times> ceph_auth_client) res" where
  "ops_is_authenticated env ops ac =
    (case ops of
       Ceph_auth_none_ops \<Rightarrow> with_none ac (\<lambda>ai. Inr (none_is_authenticated ai, ac))
     | Ceph_x_ops \<Rightarrow> with_x ac (\<lambda>xi. case ceph_x_is_authenticated env ac xi of (r, xi) \<Rightarrow> Inr (r, set_x ac xi)))"

definition ops_should_authenticate :: "auth_env \<Rightarrow> auth_ops \<Rightarrow> ceph_auth_client \<Rightarrow> (bool \<times> ceph_auth_client) res" where
  "ops_should_authenticate env ops ac =
    (case ops of
       Ceph_auth_none_ops \<Rightarrow> with_none ac (\<lambda>ai. Inr (none_should_authenticate ai, ac))
     | Ceph_x_ops \<Rightarrow> with_x ac (\<lambda>xi. case ceph_x_should_authenticate env ac xi of (r, xi) \<Rightarrow> Inr (r, set_x ac xi)))"

definition ops_build_request ::
  "auth_env \<Rightarrow> auth_ops \<Rightarrow> u8 list \<Rightarrow> int \<Rightarrow> int \<Rightarrow> ceph_auth_client \<Rightarrow> (int \<times> u8 list \<times> ceph_auth_client) res" where
  "ops_build_request env ops buf en p ac =
    (case ops of
       Ceph_auth_none_ops \<Rightarrow> Inr (0, buf, ac)
     | Ceph_x_ops \<Rightarrow> with_x ac (\<lambda>xi. bindE (ceph_x_build_request env ac buf en p xi) (\<lambda>(r, buf, xi). Inr (r, buf, set_x ac xi))))"

definition ops_handle_reply ::
  "auth_env \<Rightarrow> auth_ops \<Rightarrow> int \<Rightarrow> u8 list \<Rightarrow> int \<Rightarrow> int \<Rightarrow> ceph_auth_client \<Rightarrow> (int \<times> ceph_auth_client) res" where
  "ops_handle_reply env ops result buf en p ac =
    (case ops of
       Ceph_auth_none_ops \<Rightarrow> with_none ac (\<lambda>ai. case none_handle_reply result ai of (r, ai) \<Rightarrow> Inr (r, set_none ac ai))
     | Ceph_x_ops \<Rightarrow> with_x ac (\<lambda>xi. bindE (ceph_x_handle_reply env ac result buf en p xi) (\<lambda>(r, xi). Inr (r, set_x ac xi))))"

definition ops_reset :: "auth_ops \<Rightarrow> ceph_auth_client \<Rightarrow> ceph_auth_client res" where
  "ops_reset ops ac =
    (case ops of
       Ceph_auth_none_ops \<Rightarrow> with_none ac (\<lambda>ai. Inr (set_none ac (none_reset ai)))
     | Ceph_x_ops \<Rightarrow> with_x ac (\<lambda>xi. Inr (set_x ac (ceph_x_reset xi))))"

definition ops_destroy :: "auth_ops \<Rightarrow> ceph_auth_client \<Rightarrow> ceph_auth_client res" where
  "ops_destroy ops ac =
    (case ops of
       Ceph_auth_none_ops \<Rightarrow> Inr (none_destroy ac)
     | Ceph_x_ops \<Rightarrow> with_x ac (\<lambda>xi. Inr (ceph_x_destroy ac)))"

section \<open>Setup\<close>

definition ceph_auth_init_protocol :: "auth_env \<Rightarrow> u32 \<Rightarrow> ceph_auth_client \<Rightarrow> int \<times> ceph_auth_client" where
  "ceph_auth_init_protocol env proto ac =
    (if proto = CEPH_AUTH_NONE then ceph_auth_none_init env ac
     else if proto = CEPH_AUTH_CEPHX then ceph_x_init env ac
     else (- ENOENT_no, ac))"

text \<open>\<open>guest\<close>\<close>

definition CEPH_AUTH_NAME_DEFAULT :: "u8 list" where
  "CEPH_AUTH_NAME_DEFAULT = [0x67, 0x75, 0x65, 0x73, 0x74]"

definition ceph_auth_init :: "auth_env \<Rightarrow> u8 list option \<Rightarrow> ceph_crypto_key option \<Rightarrow> ceph_auth_client option" where
  "ceph_auth_init env name key =
    (if \<not> ae_alloc env 80 then None
     else Some \<lparr>protocol = 0, ac_private = Private_null, ac_ops = None, negotiating = True,
       ac_name = (case name of Some n \<Rightarrow> n | None \<Rightarrow> CEPH_AUTH_NAME_DEFAULT), global_id = 0, ac_key = key, want_keys = 0\<rparr>)"

definition ceph_auth_reset :: "ceph_auth_client \<Rightarrow> ceph_auth_client res" where
  "ceph_auth_reset ac =
    bindE (case ac_ops ac of Some ops \<Rightarrow> if \<not> negotiating ac then ops_reset ops ac else Inr ac | None \<Rightarrow> Inr ac) (\<lambda>ac.
    Inr (ac\<lparr>negotiating := True\<rparr>))"

section \<open>Requests to the monitor\<close>

text \<open>The header of every request: no version, no session.\<close>

definition monhdr_image :: "u8 list" where
  "monhdr_image = le_bytes 8 (0 :: u64) @ le_bytes 2 (-1 :: u16) @ le_bytes 8 (0 :: u64)"

text \<open>The number of bytes or an error; the length is written over its place at the end.\<close>

definition ceph_auth_build_hello :: "ceph_auth_client \<Rightarrow> u8 list \<Rightarrow> nat \<Rightarrow> (int \<times> u8 list) res" where
  "ceph_auth_build_hello ac buf len =
    (let en = int len; num = length supported_protocols in
     bindE (put_bytes buf 0 monhdr_image) (\<lambda>buf.
     bindE (ceph_encode_32 buf 18 0) (\<lambda>(buf, lenp).
     let p = lenp + 4 in
     if \<not> ceph_has_room p en (1 + 4) then Inr (- ERANGE_no, buf)
     else
       bindE (ceph_encode_8 buf p 1) (\<lambda>(buf, p).
       bindE (ceph_encode_32 buf p (word_of_nat num)) (\<lambda>(buf, p).
       if \<not> ceph_has_room p en (num * 4) then Inr (- ERANGE_no, buf)
       else
         bindE (foldE (\<lambda>proto (buf, p). ceph_encode_32 buf p proto) supported_protocols (buf, p)) (\<lambda>(buf, p).
         bindE (ceph_entity_name_encode (ac_name ac) buf en p) (\<lambda>(ret, buf, p).
         if ret < 0 then Inr (ret, buf)
         else if \<not> ceph_has_room p en 8 then Inr (- ERANGE_no, buf)
         else
           bindE (ceph_encode_64 buf p (global_id ac)) (\<lambda>(buf, p).
           bindE (ceph_encode_32 buf lenp (word_of_int (p - lenp - 4))) (\<lambda>(buf, lenp).
           Inr (p, buf))))))))))"

definition ceph_build_auth_request :: "auth_env \<Rightarrow> u8 list \<Rightarrow> nat \<Rightarrow> ceph_auth_client \<Rightarrow> (int \<times> u8 list \<times> ceph_auth_client) res" where
  "ceph_build_auth_request env msg_buf msg_len ac =
    bindE (put_bytes msg_buf 0 monhdr_image) (\<lambda>buf.
    bindE (ceph_encode_32 buf 18 (protocol ac)) (\<lambda>(buf, p).
    bindE (deref (ac_ops ac)) (\<lambda>ops.
    bindE (ops_build_request env ops buf (int msg_len) (p + 4) ac) (\<lambda>(ret, buf, ac).
    if ret < 0 then Inr (ret, buf, ac)
    else bindE (ceph_encode_32 buf p (word_of_int ret)) (\<lambda>(buf, p). Inr (p + ret, buf, ac))))))"

section \<open>Replies\<close>

record auth_reply =
  ar_protocol :: u32
  ar_result :: int
  ar_global_id :: u64
  ar_payload :: int
  ar_payload_end :: int

text \<open>The two lengths are signed and move the position as they are.\<close>

definition decode_auth_reply :: "u8 list \<Rightarrow> int \<Rightarrow> auth_reply dec" where
  "decode_auth_reply buf en =
    bindD (ceph_decode_need en (4 * 3 + 8) (Err EINVAL)) (\<lambda>_.
    bindD (ceph_decode_32 buf) (\<lambda>proto.
    bindD (ceph_decode_32 buf) (\<lambda>result.
    bindD (ceph_decode_64 buf) (\<lambda>gid.
    bindD (ceph_decode_32 buf) (\<lambda>payload_len.
    bindD (\<lambda>p. Inr (p, p + sint payload_len)) (\<lambda>payload.
    bindD (ceph_decode_need en 4 (Err EINVAL)) (\<lambda>_.
    bindD (ceph_decode_32 buf) (\<lambda>result_msg_len p.
    if p + sint result_msg_len \<noteq> en then Inl (Err EINVAL)
    else
      Inr (\<lparr>ar_protocol = proto, ar_result = sint result, ar_global_id = gid,
        ar_payload = payload, ar_payload_end = payload + sint payload_len\<rparr>, en)))))))))"

text \<open>Setting up the protocol the monitor chose: the error, 0 to go on, and whether to leave.\<close>

definition negotiate :: "auth_env \<Rightarrow> u32 \<Rightarrow> int \<Rightarrow> ceph_auth_client \<Rightarrow> (bool \<times> int \<times> ceph_auth_client) res" where
  "negotiate env proto result ac =
    (if proto = 0 \<and> result < 0 then Inr (True, result, ac)
     else
       bindE (if protocol ac \<noteq> 0 \<and> protocol ac \<noteq> proto then
                bindE (deref (ac_ops ac)) (\<lambda>ops.
                bindE (ops_destroy ops ac) (\<lambda>ac. Inr (ac\<lparr>protocol := 0, ac_ops := None\<rparr>)))
              else Inr ac) (\<lambda>ac.
       case (if protocol ac \<noteq> proto then ceph_auth_init_protocol env proto ac else (0, ac)) of
         (ret, ac) \<Rightarrow> if ret \<noteq> 0 then Inr (True, ret, ac) else Inr (False, 0, ac\<lparr>negotiating := False\<rparr>)))"

definition ceph_handle_auth_reply ::
  "auth_env \<Rightarrow> u8 list \<Rightarrow> int \<Rightarrow> u8 list \<Rightarrow> nat \<Rightarrow> ceph_auth_client \<Rightarrow> (int \<times> u8 list \<times> ceph_auth_client) res" where
  "ceph_handle_auth_reply env buf len reply_buf reply_len ac =
    catchE (decode_auth_reply buf len 0) (\<lambda>e. Inr (- EINVAL_no, reply_buf, ac)) (\<lambda>(r, p).
    let ac = (if ar_global_id r \<noteq> 0 \<and> global_id ac \<noteq> ar_global_id r then ac\<lparr>global_id := ar_global_id r\<rparr> else ac) in
    bindE (if negotiating ac then negotiate env (ar_protocol r) (ar_result r) ac else Inr (False, 0, ac)) (\<lambda>(leave, ret, ac).
    if leave then Inr (ret, reply_buf, ac)
    else
      bindE (deref (ac_ops ac)) (\<lambda>ops.
      bindE (ops_handle_reply env ops (ar_result r) buf (ar_payload_end r) (ar_payload r) ac) (\<lambda>(ret, ac).
      if ret = - EAGAIN then ceph_build_auth_request env reply_buf reply_len ac else Inr (ret, reply_buf, ac)))))"

text \<open>Without a protocol the hello takes the mutex that is held.\<close>

definition ceph_build_auth :: "auth_env \<Rightarrow> u8 list \<Rightarrow> nat \<Rightarrow> ceph_auth_client \<Rightarrow> (int \<times> u8 list \<times> ceph_auth_client) res" where
  "ceph_build_auth env msg_buf msg_len ac =
    (if protocol ac = 0 then Inl (Fault Deadlock)
     else
       bindE (deref (ac_ops ac)) (\<lambda>ops.
       bindE (ops_should_authenticate env ops ac) (\<lambda>(should, ac).
       if should then ceph_build_auth_request env msg_buf msg_len ac else Inr (0, msg_buf, ac))))"

section \<open>Calls of the messenger\<close>

definition ceph_auth_is_authenticated :: "auth_env \<Rightarrow> ceph_auth_client \<Rightarrow> (bool \<times> ceph_auth_client) res" where
  "ceph_auth_is_authenticated env ac =
    (case ac_ops ac of None \<Rightarrow> Inr (False, ac) | Some ops \<Rightarrow> ops_is_authenticated env ops ac)"

definition ceph_auth_create_authorizer ::
  "auth_env \<Rightarrow> u32 \<Rightarrow> ceph_auth_client \<Rightarrow> (int \<times> ceph_auth_handshake option \<times> ceph_auth_client) res" where
  "ceph_auth_create_authorizer env peer_type ac =
    (case ac_ops ac of
       None \<Rightarrow> Inr (0, None, ac)
     | Some Ceph_auth_none_ops \<Rightarrow>
         with_none ac (\<lambda>ai. bindE (ceph_auth_none_create_authorizer ac ai) (\<lambda>(ret, hs, ai). Inr (ret, hs, set_none ac ai)))
     | Some Ceph_x_ops \<Rightarrow>
         with_x ac (\<lambda>xi. bindE (ceph_x_create_authorizer env ac peer_type xi) (\<lambda>(ret, hs, xi). Inr (ret, hs, set_x ac xi))))"

text \<open>Only cephx updates, verifies and invalidates authorizers.\<close>

definition ceph_auth_update_authorizer ::
  "auth_env \<Rightarrow> u32 \<Rightarrow> ceph_auth_handshake \<Rightarrow> ceph_auth_client \<Rightarrow> (int \<times> ceph_auth_handshake \<times> ceph_auth_client) res" where
  "ceph_auth_update_authorizer env peer_type hs ac =
    (if ac_ops ac = Some Ceph_x_ops then
       with_x ac (\<lambda>xi. bindE (ceph_x_update_authorizer env ac peer_type hs xi) (\<lambda>(ret, hs, xi). Inr (ret, hs, set_x ac xi)))
     else Inr (0, hs, ac))"

definition ceph_auth_verify_authorizer_reply :: "auth_env \<Rightarrow> ceph_authorizer \<Rightarrow> ceph_auth_client \<Rightarrow> (int \<times> ceph_auth_client) res" where
  "ceph_auth_verify_authorizer_reply env a ac =
    (if ac_ops ac = Some Ceph_x_ops then
       with_x ac (\<lambda>xi.
       case a of
         None_authorizer \<Rightarrow> Inl (Fault TypeConfusion)
       | X_authorizer au \<Rightarrow> bindE (ceph_x_verify_authorizer_reply env au xi) (\<lambda>(ret, xi). Inr (ret, set_x ac xi)))
     else Inr (0, ac))"

definition ceph_auth_invalidate_authorizer :: "auth_env \<Rightarrow> u32 \<Rightarrow> ceph_auth_client \<Rightarrow> ceph_auth_client res" where
  "ceph_auth_invalidate_authorizer env peer_type ac =
    (if ac_ops ac = Some Ceph_x_ops then with_x ac (\<lambda>xi. Inr (set_x ac (ceph_x_invalidate_authorizer env peer_type xi))) else Inr ac)"

section \<open>The table matches the state\<close>

text \<open>The table of operations is absent exactly when there is no protocol, and otherwise it is the one whose functions the private state belongs to.\<close>

definition auth_typed :: "ceph_auth_client \<Rightarrow> bool" where
  "auth_typed ac =
    (case ac_ops ac of
       None \<Rightarrow> protocol ac = 0 \<and> ac_private ac = Private_null \<and> negotiating ac
     | Some Ceph_auth_none_ops \<Rightarrow> protocol ac = CEPH_AUTH_NONE \<and> (case ac_private ac of Private_none ai \<Rightarrow> True | _ \<Rightarrow> False)
     | Some Ceph_x_ops \<Rightarrow> protocol ac = CEPH_AUTH_CEPHX \<and> (case ac_private ac of Private_x xi \<Rightarrow> True | _ \<Rightarrow> False))"

lemmas auth_splits = option.splits auth_ops.splits auth_private.splits prod.splits if_splits

lemma ops_typed:
  assumes "auth_typed ac" and "ac_ops ac = Some ops"
  shows "ops_is_authenticated env ops ac = Inr (b, ac1) \<Longrightarrow> auth_typed ac1 \<and> ac_ops ac1 = Some ops"
    "ops_should_authenticate env ops ac = Inr (b, ac2) \<Longrightarrow> auth_typed ac2 \<and> ac_ops ac2 = Some ops"
    "ops_build_request env ops buf en p ac = Inr (r, buf', ac3) \<Longrightarrow> auth_typed ac3"
    "ops_handle_reply env ops res buf en p ac = Inr (r', ac4) \<Longrightarrow> auth_typed ac4 \<and> ac_ops ac4 = Some ops"
    "ops_reset ops ac = Inr ac5 \<Longrightarrow> auth_typed ac5 \<and> ac_ops ac5 = Some ops"
  using assms
  by (auto simp: auth_typed_def ops_is_authenticated_def ops_should_authenticate_def ops_build_request_def ops_handle_reply_def ops_reset_def
      with_x_def with_none_def bindE_Inr_iff split: auth_splits)

lemma negotiate_typed:
  assumes "auth_typed ac" and "negotiate env proto result ac = Inr (leave, ret, ac')" and "ac_ops ac' \<noteq> None \<or> leave"
    and "negotiating ac"
  shows "auth_typed ac'"
  using assms
  by (auto simp: auth_typed_def negotiate_def ops_destroy_def deref_def none_destroy_def ceph_x_destroy_def with_x_def ceph_auth_init_protocol_def
      ceph_auth_none_init_def ceph_x_init_def CEPH_AUTH_NONE_def CEPH_AUTH_CEPHX_def bindE_Inr_iff split: auth_splits)

lemma set_global_id_typed [simp]: "auth_typed (ac\<lparr>global_id := g\<rparr>) = auth_typed ac"
  by (auto simp: auth_typed_def split: auth_splits)

lemma build_request_typed:
  assumes "auth_typed ac" and "ceph_build_auth_request env buf len ac = Inr (r, buf', ac')"
  shows "auth_typed ac'"
  using assms by (auto simp: ceph_build_auth_request_def deref_def dest: ops_typed(3) split: auth_splits)

lemma handle_reply_typed:
  assumes "auth_typed ac" and "ceph_handle_auth_reply env buf len rbuf rlen ac = Inr (r, rbuf', ac')"
  shows "auth_typed ac'"
proof (cases "decode_auth_reply buf len 0")
  case (Inl e)
  then show ?thesis using assms by (cases e) (auto simp: ceph_handle_auth_reply_def)
next
  case (Inr rp)
  obtain ar p where rp: "rp = (ar, p)" by force
  let ?ac = "if ar_global_id ar \<noteq> 0 \<and> global_id ac \<noteq> ar_global_id ar then ac\<lparr>global_id := ar_global_id ar\<rparr> else ac"
  have t: "auth_typed ?ac" using assms(1) by simp
  obtain leave ret ac1 where n: "(if negotiating ?ac then negotiate env (ar_protocol ar) (ar_result ar) ?ac else Inr (False, 0, ?ac)) = Inr (leave, ret, ac1)"
    and rest: "(if leave then Inr (ret, rbuf, ac1) else
      bindE (deref (ac_ops ac1)) (\<lambda>ops. bindE (ops_handle_reply env ops (ar_result ar) buf (ar_payload_end ar) (ar_payload ar) ac1) (\<lambda>(ret, ac).
      if ret = - EAGAIN then ceph_build_auth_request env rbuf rlen ac else Inr (ret, rbuf, ac)))) = Inr (r, rbuf', ac')"
    using assms(2) unfolding ceph_handle_auth_reply_def Inr rp Let_def by (auto simp: bindE_Inr_iff simp del: if_split)
  have t1: "auth_typed ac1" if "ac_ops ac1 \<noteq> None \<or> leave"
  proof (cases "negotiating ?ac")
    case True
    then show ?thesis using negotiate_typed[OF t _ that True] n by simp
  next
    case False
    then show ?thesis using n t by simp
  qed
  show ?thesis
  proof (cases leave)
    case True
    then show ?thesis using t1 rest by simp
  next
    case False
    then obtain ops ret2 ac2 where o: "ac_ops ac1 = Some ops"
      "ops_handle_reply env ops (ar_result ar) buf (ar_payload_end ar) (ar_payload ar) ac1 = Inr (ret2, ac2)"
      and e: "(if ret2 = - EAGAIN then ceph_build_auth_request env rbuf rlen ac2 else Inr (ret2, rbuf, ac2)) = Inr (r, rbuf', ac')"
      using rest by (auto simp: deref_def bindE_Inr_iff split: option.splits)
    have "auth_typed ac2" using ops_typed(4)[OF _ o] t1 o(1) by auto
    then show ?thesis using e build_request_typed by (auto split: if_splits)
  qed
qed

text \<open>The states of a client: it is set up, and then its operations are called in any order, as they return.\<close>

inductive auth_reach :: "ceph_auth_client \<Rightarrow> bool" where
  reach_init: "ceph_auth_init env name key = Some ac \<Longrightarrow> auth_reach (ac\<lparr>want_keys := keys\<rparr>)"
| reach_reset: "auth_reach ac \<Longrightarrow> ceph_auth_reset ac = Inr ac' \<Longrightarrow> auth_reach ac'"
| reach_reply: "auth_reach ac \<Longrightarrow> ceph_handle_auth_reply env buf len rbuf rlen ac = Inr (r, rbuf', ac') \<Longrightarrow> auth_reach ac'"
| reach_build: "auth_reach ac \<Longrightarrow> ceph_build_auth env buf len ac = Inr (r, buf', ac') \<Longrightarrow> auth_reach ac'"
| reach_query: "auth_reach ac \<Longrightarrow> ceph_auth_is_authenticated env ac = Inr (b, ac') \<Longrightarrow> auth_reach ac'"
| reach_create: "auth_reach ac \<Longrightarrow> ceph_auth_create_authorizer env t ac = Inr (r, hs, ac') \<Longrightarrow> auth_reach ac'"
| reach_update: "auth_reach ac \<Longrightarrow> ceph_auth_update_authorizer env t hs ac = Inr (r, hs', ac') \<Longrightarrow> auth_reach ac'"
| reach_verify: "auth_reach ac \<Longrightarrow> ceph_auth_verify_authorizer_reply env a ac = Inr (r, ac') \<Longrightarrow> auth_reach ac'"
| reach_invalidate: "auth_reach ac \<Longrightarrow> ceph_auth_invalidate_authorizer env t ac = Inr ac' \<Longrightarrow> auth_reach ac'"

lemma build_typed: "auth_typed ac \<Longrightarrow> ceph_build_auth env buf len ac = Inr (r, buf', ac') \<Longrightarrow> auth_typed ac'"
  by (auto simp: ceph_build_auth_def deref_def split: option.splits if_splits) (metis ops_typed(2) build_request_typed)+

lemma messenger_typed:
  assumes "auth_typed ac"
  shows "ceph_auth_create_authorizer env t ac = Inr (r, hs, ac1) \<Longrightarrow> auth_typed ac1"
    "ceph_auth_update_authorizer env t hs0 ac = Inr (r, hs1, ac2) \<Longrightarrow> auth_typed ac2"
    "ceph_auth_verify_authorizer_reply env a ac = Inr (r, ac3) \<Longrightarrow> auth_typed ac3"
    "ceph_auth_invalidate_authorizer env t ac = Inr ac4 \<Longrightarrow> auth_typed ac4"
  using assms
  by (auto simp: auth_typed_def ceph_auth_create_authorizer_def ceph_auth_update_authorizer_def ceph_auth_verify_authorizer_reply_def
      ceph_auth_invalidate_authorizer_def with_x_def with_none_def bindE_Inr_iff split: auth_splits ceph_authorizer.splits)

lemma reset_typed: "auth_typed ac \<Longrightarrow> ceph_auth_reset ac = Inr ac' \<Longrightarrow> auth_typed ac'"
  by (auto simp: ceph_auth_reset_def auth_typed_def ops_reset_def with_x_def with_none_def bindE_Inr_iff split: auth_splits)

lemma query_typed: "auth_typed ac \<Longrightarrow> ceph_auth_is_authenticated env ac = Inr (b, ac') \<Longrightarrow> auth_typed ac'"
  by (auto simp: ceph_auth_is_authenticated_def dest: ops_typed(1) split: auth_splits)

lemma reach_typed: "auth_reach ac \<Longrightarrow> auth_typed ac"
proof (induction rule: auth_reach.induct)
  case (reach_init env name key ac keys)
  then show ?case by (auto simp: ceph_auth_init_def auth_typed_def split: if_splits)
qed (blast intro: reset_typed handle_reply_typed build_typed query_typed messenger_typed)+

text \<open>C34: Whatever order the operations are called in, the table of operations is absent exactly when there is no protocol, and otherwise the private state belongs to
  the functions of the table; so resetting, asking and invalidating never read it as something else.\<close>

theorem auth_client_typed:
  assumes "auth_reach ac"
  shows "(ac_ops ac = None \<longleftrightarrow> protocol ac = 0) \<and> auth_typed ac \<and> (\<exists>ac'. ceph_auth_reset ac = Inr ac') \<and>
    (\<exists>b ac'. ceph_auth_is_authenticated env ac = Inr (b, ac')) \<and> (\<exists>ac'. ceph_auth_invalidate_authorizer env t ac = Inr ac')"
  using reach_typed[OF assms]
  by (auto simp: auth_typed_def ceph_auth_reset_def ceph_auth_is_authenticated_def ceph_auth_invalidate_authorizer_def ops_reset_def ops_is_authenticated_def
      with_x_def with_none_def CEPH_AUTH_NONE_def CEPH_AUTH_CEPHX_def split: auth_splits)

theorem auth_client_typed_witness:
  "\<exists>ac. ceph_auth_init example_auth_env None None = Some ac \<and> auth_typed ac \<and> ceph_auth_is_authenticated example_auth_env ac = Inr (False, ac)"
proof -
  obtain ac where ac: "ceph_auth_init example_auth_env None None = Some ac" "ac = ac\<lparr>want_keys := 0\<rparr>" "ac_ops ac = None"
    by (simp add: ceph_auth_init_def example_auth_env_def)
  have "auth_reach ac" using reach_init[OF ac(1), of 0] ac(2) by simp
  then show ?thesis using auth_client_typed[of ac] ac(1,3) by (auto simp: ceph_auth_is_authenticated_def)
qed

section \<open>The first messages of a session\<close>

text \<open>What the monitor reads: the protocols, the name of the client and its number.\<close>

definition hello_payload :: "ceph_auth_client \<Rightarrow> u8 list" where
  "hello_payload ac =
    1 # le_bytes 4 (2 :: u32) @ le_bytes 4 CEPH_AUTH_NONE @ le_bytes 4 CEPH_AUTH_CEPHX @
    le_bytes 4 (8 :: u32) @ le_bytes 4 (word_of_nat (length (ac_name ac)) :: u32) @ ac_name ac @ le_bytes 8 (global_id ac)"

lemma hello_payload_length [simp]: "length (hello_payload ac) = 29 + length (ac_name ac)"
  by (simp add: hello_payload_def)

lemma monhdr_length [simp]: "length monhdr_image = 18"
  by (simp add: monhdr_image_def)

lemma encode_at:
  assumes "p = int (length pre)" and "buf = pre @ junk"
  shows "1 \<le> length junk \<Longrightarrow> q = p + 1 \<Longrightarrow> buf' = pre @ v8 # drop 1 junk \<Longrightarrow> ceph_encode_8 buf p v8 = Inr (buf', q)"
    "4 \<le> length junk \<Longrightarrow> q = p + 4 \<Longrightarrow> buf' = pre @ le_bytes 4 v32 @ drop 4 junk \<Longrightarrow> ceph_encode_32 buf p v32 = Inr (buf', q)"
    "8 \<le> length junk \<Longrightarrow> q = p + 8 \<Longrightarrow> buf' = pre @ le_bytes 8 v64 @ drop 8 junk \<Longrightarrow> ceph_encode_64 buf p v64 = Inr (buf', q)"
    "length bs \<le> length junk \<Longrightarrow> q = p + int (length bs) \<Longrightarrow> buf' = pre @ bs @ drop (length bs) junk \<Longrightarrow> ceph_encode_copy buf p bs = Inr (buf', q)"
  using assms by (simp_all add: ceph_encode_8_def ceph_encode_32_def ceph_encode_64_def ceph_encode_copy_def put_at)

lemma put_mid: "p = int (length a) \<Longrightarrow> length b = length bs \<Longrightarrow> put_bytes (a @ b @ c) p bs = Inr (a @ bs @ c)"
  by (simp add: put_at)

definition name_image :: "u8 list \<Rightarrow> u8 list" where
  "name_image name = le_bytes 4 (8 :: u32) @ le_bytes 4 (word_of_nat (length name) :: u32) @ name"

lemma name_image_length [simp]: "length (name_image name) = 8 + length name"
  by (simp add: name_image_def)

lemma name_encode_at:
  assumes "p = int (length pre)" and "buf = pre @ junk" and "p + 8 + int (length name) \<le> en" and "8 + length name \<le> length junk"
    and "q = p + 8 + int (length name)" and "buf' = pre @ name_image name @ drop (8 + length name) junk"
  shows "ceph_entity_name_encode name buf en p = Inr (0, buf', q)"
proof -
  let ?a = "le_bytes 4 (8 :: u32)" and ?b = "le_bytes 4 (word_of_nat (length name) :: u32)"
  have 1: "ceph_encode_32 buf p 8 = Inr (pre @ ?a @ drop 4 junk, p + 4)" by (rule encode_at(2)[OF assms(1,2)]) (use assms in simp_all)
  have 2: "ceph_encode_32 (pre @ ?a @ drop 4 junk) (p + 4) (word_of_nat (length name)) = Inr (pre @ ?a @ ?b @ drop 8 junk, p + 8)"
    by (rule encode_at(2)[where pre = "pre @ ?a" and junk = "drop 4 junk"]) (use assms in simp_all)
  have 3: "ceph_encode_copy (pre @ ?a @ ?b @ drop 8 junk) (p + 8) name = Inr (buf', q)"
    by (rule encode_at(4)[where pre = "pre @ ?a @ ?b" and junk = "drop 8 junk"]) (use assms in \<open>simp_all add: name_image_def add.commute\<close>)
  have "\<not> en < p + 2 * 4 + int (length name)" using assms(3) by simp
  then show ?thesis by (simp add: ceph_entity_name_encode_def 1 2 3)
qed

text \<open>The hello of a client whose name fits the buffer is the header, no protocol, and the length of the rest, which is the list of protocols, the name and
  the number of the client; the result is its length.\<close>

lemma hello_image_lemma:
  assumes "length buf = len" and "55 + length (ac_name ac) \<le> len"
  shows "\<exists>rest. ceph_auth_build_hello ac buf len =
    Inr (int (55 + length (ac_name ac)), (monhdr_image @ le_bytes 4 (0 :: u32) @ le_bytes 4 (word_of_nat (length (hello_payload ac)) :: u32) @ hello_payload ac) @ rest)"
proof -
  let ?n = "length (ac_name ac)"
  define A where "A = monhdr_image @ le_bytes 4 (0 :: u32)"
  define L where "L = take 4 (drop 22 buf)"
  define J where "J = drop 26 buf"
  have len: "length A = 22" "length L = 4" "length J = len - 26" using assms by (simp_all add: A_def L_def J_def)
  have LJ: "drop 22 buf = L @ J" using append_take_drop_id[of 4 "drop 22 buf"] by (simp add: L_def J_def)
  have 1: "put_bytes buf 0 monhdr_image = Inr (monhdr_image @ drop 18 buf)" using put_at[of monhdr_image buf "[]"] assms by simp
  have 2: "ceph_encode_32 (monhdr_image @ drop 18 buf) 18 0 = Inr (A @ L @ J, 22)"
    by (rule encode_at(2)[where pre = monhdr_image and junk = "drop 18 buf"]) (use assms LJ in \<open>simp_all add: A_def\<close>)
  let ?v = "le_bytes 4 (2 :: u32)" and ?a = "le_bytes 4 CEPH_AUTH_NONE" and ?b = "le_bytes 4 CEPH_AUTH_CEPHX" and ?g = "le_bytes 8 (global_id ac)"
  have 3: "ceph_encode_8 (A @ L @ J) 26 1 = Inr (A @ L @ 1 # drop 1 J, 27)"
    by (rule encode_at(1)[where pre = "A @ L" and junk = J]) (use len assms in simp_all)
  have 4: "ceph_encode_32 (A @ L @ 1 # drop 1 J) 27 2 = Inr (A @ L @ 1 # ?v @ drop 5 J, 31)"
    by (rule encode_at(2)[where pre = "A @ L @ [1]" and junk = "drop 1 J"]) (use len assms in simp_all)
  have 5: "ceph_encode_32 (A @ L @ 1 # ?v @ drop 5 J) 31 CEPH_AUTH_NONE = Inr (A @ L @ 1 # ?v @ ?a @ drop 9 J, 35)"
    by (rule encode_at(2)[where pre = "A @ L @ 1 # ?v" and junk = "drop 5 J"]) (use len assms in simp_all)
  have 6: "ceph_encode_32 (A @ L @ 1 # ?v @ ?a @ drop 9 J) 35 CEPH_AUTH_CEPHX = Inr (A @ L @ 1 # ?v @ ?a @ ?b @ drop 13 J, 39)"
    by (rule encode_at(2)[where pre = "A @ L @ 1 # ?v @ ?a" and junk = "drop 9 J"]) (use len assms in simp_all)
  have 7: "ceph_entity_name_encode (ac_name ac) (A @ L @ 1 # ?v @ ?a @ ?b @ drop 13 J) (int len) 39 =
      Inr (0, A @ L @ 1 # ?v @ ?a @ ?b @ name_image (ac_name ac) @ drop (21 + ?n) J, 47 + int ?n)"
    by (rule name_encode_at[where pre = "A @ L @ 1 # ?v @ ?a @ ?b" and junk = "drop 13 J"]) (use len assms in \<open>simp_all add: add.commute\<close>)
  have 8: "ceph_encode_64 (A @ L @ 1 # ?v @ ?a @ ?b @ name_image (ac_name ac) @ drop (21 + ?n) J) (47 + int ?n) (global_id ac) =
      Inr (A @ L @ hello_payload ac @ drop (29 + ?n) J, 55 + int ?n)"
    by (rule encode_at(3)[where pre = "A @ L @ 1 # ?v @ ?a @ ?b @ name_image (ac_name ac)" and junk = "drop (21 + ?n) J"])
      (use len assms in \<open>simp_all add: add.commute hello_payload_def name_image_def\<close>)
  have w: "(word_of_int (29 + int ?n) :: u32) = word_of_nat (29 + ?n)" by simp
  have 9: "ceph_encode_32 (A @ L @ hello_payload ac @ drop (29 + ?n) J) 22 (word_of_int (29 + int ?n)) =
      Inr (A @ le_bytes 4 (word_of_nat (29 + ?n) :: u32) @ hello_payload ac @ drop (29 + ?n) J, 26)"
    unfolding w using len put_mid[of 22 A L "le_bytes 4 (word_of_nat (29 + ?n) :: u32)" "hello_payload ac @ drop (29 + ?n) J"]
    by (simp add: ceph_encode_32_def del: of_nat_add)
  have room: "ceph_has_room 26 (int len) 5" "ceph_has_room 31 (int len) 8" "ceph_has_room (47 + int ?n) (int len) 8"
    using assms by (simp_all add: ceph_has_room_def)
  have "ceph_auth_build_hello ac buf len = Inr (55 + int ?n, A @ le_bytes 4 (word_of_nat (29 + ?n) :: u32) @ hello_payload ac @ drop (29 + ?n) J)"
    unfolding ceph_auth_build_hello_def Let_def 1 supported_protocols_def using 2 3 4 5 6 7 8 9 room by simp
  then show ?thesis by (simp add: A_def)
qed

end
