(* ===== verification/Mon_Client.thy ===== *)
theory Mon_Client
  imports Auth Osd_Reply Messenger_Read
begin

text \<open>
  The monitor client (\<open>net/ceph/mon_client.c\<close>): the monitor map, the session with one monitor and its authentication, subscriptions to maps,
  and requests that wait for an answer. Generic requests are referred to by their addresses and live in a store, as the requests of the OSD client do. Calls of the
  messenger and of the kernel are recorded in the order they are made. A message is kept with the bytes of its front; the two messages that are
  filled again and again are kept with the memory of their fronts, of which \<open>iov_len\<close> bytes are sent.
\<close>

section \<open>The monitor map\<close>

record ceph_entity_inst =
  inst_name :: "u8 \<times> u64"
  inst_addr :: "u8 list"

record ceph_monmap =
  mm_fsid :: "u8 list"
  mm_epoch :: u32
  mon_inst :: "ceph_entity_inst list"

definition CEPH_MAX_MON :: u32 where "CEPH_MAX_MON = 31"
definition ENTITY_INST_SIZE :: nat where "ENTITY_INST_SIZE = 9 + 136"

definition num_mon :: "ceph_monmap \<Rightarrow> u32" where
  "num_mon m = word_of_nat (length (mon_inst m))"

text \<open>An instance of the wire, with the address family in host order.\<close>

definition entity_inst :: "u8 list \<Rightarrow> ceph_entity_inst" where
  "entity_inst bs = \<lparr>inst_name = (le_word (take 1 bs), le_word (take 8 (drop 1 bs))), inst_addr = decode_addr (drop 9 bs)\<rparr>"

fun entity_insts :: "nat \<Rightarrow> u8 list \<Rightarrow> ceph_entity_inst list" where
  "entity_insts 0 bs = []"
| "entity_insts (Suc n) bs = entity_inst (take ENTITY_INST_SIZE bs) # entity_insts n (drop ENTITY_INST_SIZE bs)"

definition ceph_monmap_decode :: "(nat \<Rightarrow> bool) \<Rightarrow> u8 list \<Rightarrow> int \<Rightarrow> ceph_monmap dec" where
  "ceph_monmap_decode alloc buf en =
    bindD (ceph_decode_32_safe buf en (Err EINVAL)) (\<lambda>len.
    bindD (ceph_decode_need en (unat len) (Err EINVAL)) (\<lambda>_.
    bindD (ceph_decode_16_safe buf en (Err EINVAL)) (\<lambda>vers.
    bindD (ceph_decode_need en (16 + 2 * 4) (Err EINVAL)) (\<lambda>_.
    bindD (ceph_decode_copy buf 16) (\<lambda>fsid.
    bindD (ceph_decode_32 buf) (\<lambda>ep.
    bindD (ceph_decode_32 buf) (\<lambda>num.
    bindD (ceph_decode_need en (unat num * ENTITY_INST_SIZE) (Err EINVAL)) (\<lambda>_.
    if CEPH_MAX_MON \<le> num then failD (Err EINVAL)
    else if \<not> alloc (24 + ENTITY_INST_SIZE * unat num) then failD (Err ENOMEM)
    else
      bindD (ceph_decode_copy buf (unat num * ENTITY_INST_SIZE)) (\<lambda>bs.
      retD \<lparr>mm_fsid = fsid, mm_epoch = ep, mon_inst = entity_insts (unat num) bs\<rparr>)))))))))"

definition ceph_monmap_contains :: "ceph_monmap \<Rightarrow> u8 list \<Rightarrow> bool" where
  "ceph_monmap_contains m addr = list_ex (\<lambda>i. addr = inst_addr i) (mon_inst m)"

section \<open>The client\<close>

record ceph_mon_generic_request =
  gr_tid :: u64
  gr_result :: int
  gr_buf :: "u8 list option"
  gr_buf_len :: int
  gr_completed :: bool
  gr_request :: ceph_msg
  gr_reply :: ceph_msg

datatype mon_action =
    Mon_open int "u8 list"
  | Mon_close
  | Mon_send ceph_msg
  | Mon_keepalive
  | Mon_revoke ceph_msg
  | Mon_revoke_incoming ceph_msg
  | Schedule_delayed u64
  | Wake_auth
  | Complete_generic nat
  | Debugfs_client_init

record ceph_mon_client =
  monmap :: "ceph_monmap option"
  mc_auth :: ceph_auth_client
  m_auth :: ceph_msg
  m_auth_mem :: "u8 list"
  m_auth_reply :: ceph_msg
  m_subscribe :: ceph_msg
  m_subscribe_mem :: "u8 list"
  m_subscribe_ack :: ceph_msg
  pending_auth :: bool
  hunting :: bool
  cur_mon :: int
  sub_sent :: u64
  sub_renew_after :: u64
  generic_request_tree :: "nat tree"
  num_generic_requests :: int
  mc_last_tid :: u64
  gr_of :: "nat \<Rightarrow> ceph_mon_generic_request"
  gr_next :: nat
  want_mdsmap :: int
  want_next_osdmap :: int
  have_osdmap :: u32
  have_mdsmap :: u32
  auth_err :: int
  msgr_name :: "u8 \<times> u64"
  mon_acts :: "mon_action list"

text \<open>The clients of one mount; the identity of the cluster is kept with the OSD client.\<close>

record ceph_client =
  monc :: ceph_mon_client
  osdc :: ceph_osd_client

text \<open>What an operation depends on: the time, a random byte, memory, authentication, and the tree library.\<close>

record mon_env =
  me_jiffies :: u64
  HZ :: u32
  random_byte :: u8
  me_auth :: auth_env
  me_alloc :: osd_alloc
  me_color :: "nat tree \<Rightarrow> nat tree"
  me_erase :: "nat \<Rightarrow> nat tree \<Rightarrow> nat tree"

definition ETIMEDOUT :: int where "ETIMEDOUT = 110"
definition CEPH_MSG_MON_MAP :: u16 where "CEPH_MSG_MON_MAP = 4"
definition CEPH_MSG_STATFS :: u16 where "CEPH_MSG_STATFS = 13"
definition CEPH_MSG_STATFS_REPLY :: u16 where "CEPH_MSG_STATFS_REPLY = 14"
definition CEPH_MSG_MON_SUBSCRIBE :: u16 where "CEPH_MSG_MON_SUBSCRIBE = 15"
definition CEPH_MSG_MON_SUBSCRIBE_ACK :: u16 where "CEPH_MSG_MON_SUBSCRIBE_ACK = 16"
definition CEPH_MSG_AUTH :: u16 where "CEPH_MSG_AUTH = 17"
definition CEPH_MSG_AUTH_REPLY :: u16 where "CEPH_MSG_AUTH_REPLY = 18"
definition CEPH_MSG_MON_GET_VERSION :: u16 where "CEPH_MSG_MON_GET_VERSION = 19"
definition CEPH_MSG_MON_GET_VERSION_REPLY :: u16 where "CEPH_MSG_MON_GET_VERSION_REPLY = 20"
definition CEPH_MSG_MDS_MAP :: u16 where "CEPH_MSG_MDS_MAP = 21"
definition CEPH_MSG_POOLOP_REPLY :: u16 where "CEPH_MSG_POOLOP_REPLY = 48"
definition CEPH_MSG_POOLOP :: u16 where "CEPH_MSG_POOLOP = 49"
definition POOL_OP_CREATE_UNMANAGED_SNAP :: u32 where "POOL_OP_CREATE_UNMANAGED_SNAP = 0x21"
definition CEPH_ENTITY_TYPE_MON :: u32 where "CEPH_ENTITY_TYPE_MON = 0x01"
definition CEPH_ENTITY_TYPE_MDS :: u32 where "CEPH_ENTITY_TYPE_MDS = 0x02"
definition CEPH_ENTITY_TYPE_OSD :: u32 where "CEPH_ENTITY_TYPE_OSD = 0x04"

definition mon_act :: "mon_action \<Rightarrow> ceph_mon_client \<Rightarrow> ceph_mon_client" where
  "mon_act a m = m\<lparr>mon_acts := mon_acts m @ [a]\<rparr>"

definition upd_gr :: "nat \<Rightarrow> (ceph_mon_generic_request \<Rightarrow> ceph_mon_generic_request) \<Rightarrow> ceph_mon_client \<Rightarrow> ceph_mon_client" where
  "upd_gr r f m = m\<lparr>gr_of := (gr_of m)(r := f (gr_of m r))\<rparr>"

section \<open>The session\<close>

text \<open>A negative length becomes a very large one, of which the front has not that many bytes.\<close>

definition send_prepared_auth_request :: "int \<Rightarrow> ceph_mon_client \<Rightarrow> ceph_mon_client res" where
  "send_prepared_auth_request len m =
    bindE (get_bytes (m_auth_mem m) (unat (word_of_int len :: u64)) 0) (\<lambda>front.
    let m = m\<lparr>pending_auth := True, m_auth := (m_auth m)\<lparr>m_front := front, hdr_front_len := word_of_int len\<rparr>\<rparr> in
    Inr (mon_act (Mon_send (m_auth m)) (mon_act (Mon_revoke (m_auth m)) m)))"

definition close_session :: "ceph_mon_client \<Rightarrow> ceph_mon_client res" where
  "close_session m =
    (let m = fold mon_act [Mon_revoke (m_auth m), Mon_revoke_incoming (m_auth_reply m), Mon_revoke (m_subscribe m),
               Mon_revoke_incoming (m_subscribe_ack m), Mon_close] m;
         m = m\<lparr>cur_mon := -1, pending_auth := False\<rparr> in
     bindE (ceph_auth_reset (mc_auth m)) (\<lambda>ac. Inr (m\<lparr>mc_auth := ac\<rparr>)))"

text \<open>The random byte is a signed \<open>char\<close>; the remainder is taken of unsigned numbers.\<close>

definition open_session :: "mon_env \<Rightarrow> ceph_mon_client \<Rightarrow> ceph_mon_client res" where
  "open_session env m =
    (if cur_mon m < 0 then
       bindE (deref (monmap m)) (\<lambda>mp.
       bindE (guardE (num_mon mp \<noteq> 0) (Fault DivZero)) (\<lambda>_.
       let m = m\<lparr>cur_mon := sint ((word_of_int (sint (random_byte env)) :: u32) mod num_mon mp), sub_sent := 0,
                 sub_renew_after := me_jiffies env, want_next_osdmap := (if want_next_osdmap m \<noteq> 0 then 1 else 0)\<rparr> in
       bindE (rdi (mon_inst mp) (cur_mon m)) (\<lambda>inst.
       let m = mon_act (Mon_open (cur_mon m) (inst_addr inst)) m in
       bindE (ceph_auth_build_hello (mc_auth m) (m_auth_mem m) (front_alloc_len (m_auth m))) (\<lambda>(ret, mem).
       send_prepared_auth_request ret (m\<lparr>m_auth_mem := mem\<rparr>)))))
     else Inr m)"

definition sub_expired :: "mon_env \<Rightarrow> ceph_mon_client \<Rightarrow> bool" where
  "sub_expired env m \<longleftrightarrow> \<not> time_before (me_jiffies env) (sub_renew_after m)"

definition schedule_delayed :: "mon_env \<Rightarrow> ceph_mon_client \<Rightarrow> ceph_mon_client" where
  "schedule_delayed env m =
    mon_act (Schedule_delayed (ucast (if cur_mon m < 0 \<or> sub_expired env m then 10 * HZ env else 20 * HZ env))) m"

section \<open>Subscriptions\<close>

text \<open>\<open>osdmap\<close>, \<open>mdsmap\<close>, \<open>monmap\<close>\<close>

definition s_osdmap :: "u8 list" where "s_osdmap = [0x6f, 0x73, 0x64, 0x6d, 0x61, 0x70]"
definition s_mdsmap :: "u8 list" where "s_mdsmap = [0x6d, 0x64, 0x73, 0x6d, 0x61, 0x70]"
definition s_monmap :: "u8 list" where "s_monmap = [0x6d, 0x6f, 0x6e, 0x6d, 0x61, 0x70]"

text \<open>One item: the name, and the two fields that are set; the first eight bytes behind the name are left as they were.\<close>

definition subscribe_item :: "u8 list \<Rightarrow> u64 \<Rightarrow> u8 \<Rightarrow> int \<Rightarrow> u8 list \<times> int \<Rightarrow> (u8 list \<times> int) res" where
  "subscribe_item what have onetime en = (\<lambda>(buf, p).
    bindE (ceph_encode_string buf en p what 6) (\<lambda>(buf, p).
    bindE (put_bytes buf (p + 8) (le_bytes 8 have)) (\<lambda>buf.
    bindE (put_bytes buf (p + 16) [onetime]) (\<lambda>buf.
    Inr (buf, p + 17)))))"

definition send_subscribe :: "mon_env \<Rightarrow> ceph_mon_client \<Rightarrow> ceph_mon_client res" where
  "send_subscribe env m =
    (if sub_expired env m \<and> sub_sent m = 0 \<or> want_next_osdmap m = 1 then
       let en = int (front_alloc_len (m_subscribe m));
           num = 1 + (if want_next_osdmap m \<noteq> 0 then 1 else 0) + (if want_mdsmap m \<noteq> 0 then 1 else 0) in
       bindE (ceph_encode_32 (m_subscribe_mem m) 0 num) (\<lambda>(buf, p).
       bindE (if want_next_osdmap m \<noteq> 0 then subscribe_item s_osdmap (ucast (have_osdmap m)) 1 en (buf, p) else Inr (buf, p)) (\<lambda>(buf, p).
       bindE (if want_mdsmap m \<noteq> 0 then subscribe_item s_mdsmap (ucast (have_mdsmap m)) 0 en (buf, p) else Inr (buf, p)) (\<lambda>(buf, p).
       bindE (subscribe_item s_monmap 0 0 en (buf, p)) (\<lambda>(buf, p).
       let m = m\<lparr>want_next_osdmap := (if want_next_osdmap m \<noteq> 0 then 2 else want_next_osdmap m), m_subscribe_mem := buf,
                 m_subscribe := (m_subscribe m)\<lparr>m_front := take (nat p) buf, hdr_front_len := word_of_int p\<rparr>\<rparr>;
           m = mon_act (Mon_send (m_subscribe m)) (mon_act (Mon_revoke (m_subscribe m)) m) in
       Inr (m\<lparr>sub_sent := me_jiffies env OR 1\<rparr>)))))
     else Inr m)"

definition handle_subscribe_ack :: "mon_env \<Rightarrow> ceph_msg \<Rightarrow> ceph_mon_client \<Rightarrow> ceph_mon_client res" where
  "handle_subscribe_ack env msg m =
    (if length (m_front msg) < 20 then Inr m
     else
       bindE (get_bytes (m_front msg) 4 0) (\<lambda>d.
       let seconds = le_word d :: u32; m = m\<lparr>hunting := False\<rparr> in
       Inr (m\<lparr>sub_renew_after := sub_sent m + ucast (drop_bit 1 seconds * HZ env) - 1, sub_sent := 0\<rparr>)))"

definition ceph_monc_got_mdsmap :: "u32 \<Rightarrow> ceph_mon_client \<Rightarrow> ceph_mon_client" where
  "ceph_monc_got_mdsmap got m = m\<lparr>have_mdsmap := got\<rparr>"

definition ceph_monc_got_osdmap :: "u32 \<Rightarrow> ceph_mon_client \<Rightarrow> ceph_mon_client" where
  "ceph_monc_got_osdmap got m = m\<lparr>have_osdmap := got, want_next_osdmap := 0\<rparr>"

definition ceph_monc_request_next_osdmap :: "mon_env \<Rightarrow> ceph_mon_client \<Rightarrow> ceph_mon_client res" where
  "ceph_monc_request_next_osdmap env m =
    (let m = (if want_next_osdmap m = 0 then m\<lparr>want_next_osdmap := 1\<rparr> else m) in
     if want_next_osdmap m < 2 then send_subscribe env m else Inr m)"

text \<open>
  Waiting for a map: what the task sees each time round, the epoch of the map, the time and the result of the wait. Nothing when what
  it sees ends before the wait does.
\<close>

fun wait_osdmap_loop :: "u32 \<Rightarrow> u64 \<Rightarrow> u64 \<Rightarrow> (u32 \<times> u64 \<times> int) list \<Rightarrow> int option" where
  "wait_osdmap_loop want timeout started [] = None"
| "wait_osdmap_loop want timeout started ((have, now, ret) # rest) =
    (if \<not> have < want then Some 0
     else if timeout \<noteq> 0 \<and> \<not> time_before now (started + timeout) then Some (- ETIMEDOUT)
     else if ret < 0 then Some ret
     else wait_osdmap_loop want timeout started rest)"

definition ceph_monc_wait_osdmap :: "u32 \<Rightarrow> u64 \<Rightarrow> u64 \<Rightarrow> (u32 \<times> u64 \<times> int) list \<Rightarrow> int option" where
  "ceph_monc_wait_osdmap want timeout started sees = wait_osdmap_loop want timeout started sees"

definition ceph_monc_open_session :: "mon_env \<Rightarrow> ceph_mon_client \<Rightarrow> ceph_mon_client res" where
  "ceph_monc_open_session env m = bindE (open_session env m) (\<lambda>m. Inr (schedule_delayed env m))"

section \<open>The map and the authentication of the session\<close>

definition have_debugfs_info :: "ceph_client \<Rightarrow> bool" where
  "have_debugfs_info cl \<longleftrightarrow> have_fsid (osdc cl) \<and> 0 < global_id (mc_auth (monc cl))"

definition upd_monc :: "(ceph_mon_client \<Rightarrow> ceph_mon_client) \<Rightarrow> ceph_client \<Rightarrow> ceph_client" where
  "upd_monc f cl = cl\<lparr>monc := f (monc cl)\<rparr>"

definition ceph_monc_handle_map :: "mon_env \<Rightarrow> ceph_msg \<Rightarrow> ceph_client \<Rightarrow> ceph_client res" where
  "ceph_monc_handle_map env msg cl =
    (let had_debugfs_info = have_debugfs_info cl; buf = m_front msg in
     catchE (ceph_monmap_decode (ae_alloc (me_auth env)) buf (int (length buf)) 0) (\<lambda>e. Inr (upd_monc (mon_act Wake_auth) cl)) (\<lambda>(mp, p).
     case ceph_check_fsid (mm_fsid mp) (osdc cl) of
       (ok, oc) \<Rightarrow>
         let cl = cl\<lparr>osdc := oc\<rparr> in
         if \<not> ok then Inr (upd_monc (mon_act Wake_auth) cl)
         else
           let cl = upd_monc (\<lambda>m. m\<lparr>monmap := Some mp\<rparr>) cl in
           if \<not> have_fsid (osdc cl) then
             let cl = cl\<lparr>osdc := (osdc cl)\<lparr>have_fsid := True\<rparr>\<rparr>;
                 cl = (if \<not> had_debugfs_info \<and> have_debugfs_info cl then upd_monc (mon_act Debugfs_client_init) cl else cl) in
             Inr (upd_monc (mon_act Wake_auth) cl)
           else Inr (upd_monc (mon_act Wake_auth) cl)))"

section \<open>Generic requests\<close>

definition lookup_generic_req :: "ceph_mon_client \<Rightarrow> u64 \<Rightarrow> nat option" where
  "lookup_generic_req m tid = lookup_by (\<lambda>r. gr_tid (gr_of m r)) (generic_request_tree m) tid"

definition insert_generic_request :: "mon_env \<Rightarrow> nat \<Rightarrow> ceph_mon_client \<Rightarrow> ceph_mon_client res" where
  "insert_generic_request env r m =
    bindE (bug_if_exists (insert_by (\<lambda>r. gr_tid (gr_of m r)) (me_color env) r (generic_request_tree m))) (\<lambda>t.
    Inr (m\<lparr>generic_request_tree := t\<rparr>))"

text \<open>The reply to read into, and whether to skip the message.\<close>

definition get_generic_reply :: "ceph_msg \<Rightarrow> ceph_mon_client \<Rightarrow> ceph_msg option \<times> bool" where
  "get_generic_reply hdr m =
    (case lookup_generic_req m (hdr_tid hdr) of None \<Rightarrow> (None, True) | Some r \<Rightarrow> (Some (gr_reply (gr_of m r)), False))"

text \<open>A request is registered and sent; the task then waits. When it goes on, the request is taken off the tree.\<close>

definition do_generic_request :: "mon_env \<Rightarrow> u64 \<Rightarrow> nat \<Rightarrow> ceph_mon_client \<Rightarrow> ceph_mon_client res" where
  "do_generic_request env tid r m =
    (let m = (if tid \<noteq> 0 then m else m\<lparr>mc_last_tid := mc_last_tid m + 1\<rparr>);
         tid = (if tid \<noteq> 0 then tid else mc_last_tid m);
         m = upd_gr r (\<lambda>x. x\<lparr>gr_tid := tid, gr_request := (gr_request x)\<lparr>hdr_tid := tid\<rparr>\<rparr>) m in
     bindE (insert_generic_request env r m) (\<lambda>m.
     Inr (mon_act (Mon_send (gr_request (gr_of m r))) (m\<lparr>num_generic_requests := num_generic_requests m + 1\<rparr>))))"

definition finish_generic_request :: "mon_env \<Rightarrow> int \<Rightarrow> nat \<Rightarrow> ceph_mon_client \<Rightarrow> (int \<times> ceph_mon_client) res" where
  "finish_generic_request env err r m =
    bindE (rb_erase (me_erase env) r (generic_request_tree m)) (\<lambda>t.
    Inr (if err \<noteq> 0 then err else gr_result (gr_of m r),
         m\<lparr>generic_request_tree := t, num_generic_requests := num_generic_requests m - 1\<rparr>))"

text \<open>What is stored through the buffer of a request, and the completion.\<close>

definition store_result :: "nat \<Rightarrow> u8 list \<Rightarrow> int \<Rightarrow> ceph_mon_client \<Rightarrow> ceph_mon_client res" where
  "store_result r bs result m =
    bindE (deref (gr_buf (gr_of m r))) (\<lambda>buf.
    bindE (put_bytes buf 0 bs) (\<lambda>buf.
    Inr (mon_act (Complete_generic r) (upd_gr r (\<lambda>x. x\<lparr>gr_buf := Some buf, gr_result := result, gr_completed := True\<rparr>) m))))"

definition handle_statfs_reply :: "ceph_msg \<Rightarrow> ceph_mon_client \<Rightarrow> ceph_mon_client res" where
  "handle_statfs_reply msg m =
    (if length (m_front msg) \<noteq> 56 then Inr m
     else
       case lookup_generic_req m (hdr_tid msg) of
         None \<Rightarrow> Inr m
       | Some r \<Rightarrow> store_result r (drop 24 (m_front msg)) 0 m)"

text \<open>The new request, for which there is memory, with its two messages; nothing when memory is short.\<close>

definition new_generic_request ::
  "mon_env \<Rightarrow> u16 \<Rightarrow> nat \<Rightarrow> u16 \<Rightarrow> u8 list option \<Rightarrow> int \<Rightarrow> ceph_mon_client \<Rightarrow> (nat \<times> ceph_mon_client) option" where
  "new_generic_request env type len reply_type buf buf_len m =
    (let oa = me_alloc env in
     if \<not> oa_req oa then None
     else
       case ceph_msg_new type len (oa_cursor oa) (oa_front oa len) of
         None \<Rightarrow> None
       | Some request \<Rightarrow>
           (case ceph_msg_new reply_type 1024 (oa_cursor oa) (oa_front oa 1024) of
              None \<Rightarrow> None
            | Some reply \<Rightarrow>
                Some (gr_next m, m\<lparr>gr_next := gr_next m + 1, gr_of := (gr_of m)(gr_next m :=
                  \<lparr>gr_tid = 0, gr_result = 0, gr_buf = buf, gr_buf_len = buf_len, gr_completed = False, gr_request = request, gr_reply = reply\<rparr>)\<rparr>)))"

definition fill_generic :: "nat \<Rightarrow> u8 list \<Rightarrow> ceph_mon_client \<Rightarrow> ceph_mon_client res" where
  "fill_generic r bs m =
    bindE (put_bytes (m_front (gr_request (gr_of m r))) 0 bs) (\<lambda>front.
    Inr (upd_gr r (\<lambda>x. x\<lparr>gr_request := (gr_request x)\<lparr>m_front := front\<rparr>\<rparr>) m))"

text \<open>The operations that wait for an answer return an error at once, or the request they wait for.\<close>

definition ceph_monc_do_statfs :: "mon_env \<Rightarrow> u8 list \<Rightarrow> ceph_mon_client \<Rightarrow> ((int + nat) \<times> ceph_mon_client) res" where
  "ceph_monc_do_statfs env buf m =
    (case new_generic_request env CEPH_MSG_STATFS (18 + 16) CEPH_MSG_STATFS_REPLY (Some buf) 32 m of
       None \<Rightarrow> Inr (Inl (- ENOMEM_no), m)
     | Some (r, m) \<Rightarrow>
         bindE (deref (monmap m)) (\<lambda>mp.
         bindE (fill_generic r (monhdr_image @ mm_fsid mp) m) (\<lambda>m.
         bindE (do_generic_request env 0 r m) (\<lambda>m. Inr (Inr r, m)))))"

text \<open>The end of the reply is taken from the memory of the message, not from its length.\<close>

definition handle_get_version_reply :: "ceph_msg \<Rightarrow> u8 list \<Rightarrow> ceph_mon_client \<Rightarrow> ceph_mon_client res" where
  "handle_get_version_reply msg mem m =
    catchE (bindD (ceph_decode_need (int (front_alloc_len msg)) (2 * 8) (Err EINVAL)) (\<lambda>_. ceph_decode_64 mem) 0) (\<lambda>e. Inr m) (\<lambda>(handle, p).
    if hdr_tid msg \<noteq> 0 \<and> hdr_tid msg \<noteq> handle then Inr m
    else
      case lookup_generic_req m handle of
        None \<Rightarrow> Inr m
      | Some r \<Rightarrow> bindE (ceph_decode_64 mem p) (\<lambda>(v, p). store_result r (le_bytes 8 v) 0 m))"

definition ceph_monc_do_get_version :: "mon_env \<Rightarrow> u8 list \<Rightarrow> u8 list \<Rightarrow> ceph_mon_client \<Rightarrow> ((int + nat) \<times> ceph_mon_client) res" where
  "ceph_monc_do_get_version env what newest m =
    (case new_generic_request env CEPH_MSG_MON_GET_VERSION (8 + 4 + length what) CEPH_MSG_MON_GET_VERSION_REPLY (Some newest) 8 m of
       None \<Rightarrow> Inr (Inl (- ENOMEM_no), m)
     | Some (r, m) \<Rightarrow>
         let tid = mc_last_tid m + 1; m = m\<lparr>mc_last_tid := tid\<rparr>; x = gr_request (gr_of m r) in
         bindE (ceph_encode_64 (m_front x) 0 tid) (\<lambda>(front, p).
         bindE (ceph_encode_string front (int (front_alloc_len x)) p what (word_of_nat (length what))) (\<lambda>(front, p).
         bindE (do_generic_request env tid r (upd_gr r (\<lambda>x. x\<lparr>gr_request := (gr_request x)\<lparr>m_front := front\<rparr>\<rparr>) m)) (\<lambda>m.
         Inr (Inr r, m)))))"

definition get_poolop_reply_buf :: "u8 list \<Rightarrow> nat \<Rightarrow> u8 list option" where
  "get_poolop_reply_buf src dst_len =
    (if length src \<noteq> 4 + dst_len then None
     else if le_word (take 4 src) \<noteq> (word_of_nat dst_len :: u32) then None
     else Some (drop 4 src))"

definition handle_poolop_reply :: "ceph_msg \<Rightarrow> ceph_mon_client \<Rightarrow> ceph_mon_client res" where
  "handle_poolop_reply msg m =
    (let front = m_front msg in
     if length front < 43 then Inr m
     else
       case lookup_generic_req m (hdr_tid msg) of
         None \<Rightarrow> Inr m
       | Some r \<Rightarrow>
           let result = sint (le_word (take 4 (drop 34 front)) :: u32) in
           if gr_buf_len (gr_of m r) \<noteq> 0 then
             (case get_poolop_reply_buf (drop 43 front) (nat (gr_buf_len (gr_of m r))) of
                None \<Rightarrow> Inr m
              | Some bs \<Rightarrow> store_result r bs result m)
           else Inr (mon_act (Complete_generic r) (upd_gr r (\<lambda>x. x\<lparr>gr_result := result, gr_completed := True\<rparr>) m)))"

definition poolop_image :: "u8 list \<Rightarrow> u32 \<Rightarrow> u32 \<Rightarrow> u64 \<Rightarrow> u8 list" where
  "poolop_image fs pool oper snapid =
    monhdr_image @ fs @ le_bytes 4 pool @ le_bytes 4 oper @ le_bytes 8 (0 :: u64) @ le_bytes 8 snapid @ le_bytes 4 (0 :: u32)"

definition do_poolop ::
  "mon_env \<Rightarrow> u32 \<Rightarrow> u32 \<Rightarrow> u64 \<Rightarrow> u8 list option \<Rightarrow> int \<Rightarrow> ceph_mon_client \<Rightarrow> ((int + nat) \<times> ceph_mon_client) res" where
  "do_poolop env oper pool snapid buf len m =
    (case new_generic_request env CEPH_MSG_POOLOP 62 CEPH_MSG_POOLOP_REPLY buf len m of
       None \<Rightarrow> Inr (Inl (- ENOMEM_no), m)
     | Some (r, m) \<Rightarrow>
         let m = upd_gr r (\<lambda>x. x\<lparr>gr_request := (gr_request x)\<lparr>hdr_version := 2\<rparr>\<rparr>) m in
         bindE (deref (monmap m)) (\<lambda>mp.
         bindE (fill_generic r (poolop_image (mm_fsid mp) pool oper snapid) m) (\<lambda>m.
         bindE (do_generic_request env 0 r m) (\<lambda>m. Inr (Inr r, m)))))"

definition ceph_monc_create_snapid :: "mon_env \<Rightarrow> u32 \<Rightarrow> u8 list \<Rightarrow> ceph_mon_client \<Rightarrow> ((int + nat) \<times> ceph_mon_client) res" where
  "ceph_monc_create_snapid env pool snapid m = do_poolop env POOL_OP_CREATE_UNMANAGED_SNAP pool 0 (Some snapid) 8 m"

definition ceph_monc_delete_snapid :: "mon_env \<Rightarrow> u32 \<Rightarrow> u64 \<Rightarrow> ceph_mon_client \<Rightarrow> ((int + nat) \<times> ceph_mon_client) res" where
  "ceph_monc_delete_snapid env pool snapid m = do_poolop env POOL_OP_CREATE_UNMANAGED_SNAP pool snapid None 0 m"

definition resend_generic_request :: "ceph_mon_client \<Rightarrow> ceph_mon_client" where
  "resend_generic_request m =
    fold (\<lambda>r m. fold mon_act [Mon_revoke (gr_request (gr_of m r)), Mon_revoke_incoming (gr_reply (gr_of m r)), Mon_send (gr_request (gr_of m r))] m)
      (inorder (generic_request_tree m)) m"

section \<open>Time, setup and replies\<close>

definition validate_auth :: "mon_env \<Rightarrow> ceph_mon_client \<Rightarrow> (int \<times> ceph_mon_client) res" where
  "validate_auth env m =
    (if pending_auth m then Inr (0, m)
     else
       bindE (ceph_build_auth (me_auth env) (m_auth_mem m) (front_alloc_len (m_auth m)) (mc_auth m)) (\<lambda>(ret, mem, ac).
       let m = m\<lparr>m_auth_mem := mem, mc_auth := ac\<rparr> in
       if ret \<le> 0 then Inr (ret, m) else bindE (send_prepared_auth_request ret m) (\<lambda>m. Inr (0, m))))"

definition delayed_work :: "mon_env \<Rightarrow> ceph_mon_client \<Rightarrow> ceph_mon_client res" where
  "delayed_work env m =
    bindE (if hunting m then bindE (close_session m) (open_session env)
           else
             bindE (validate_auth env (mon_act Mon_keepalive m)) (\<lambda>(ret, m).
             bindE (ceph_auth_is_authenticated (me_auth env) (mc_auth m)) (\<lambda>(ok, ac).
             let m = m\<lparr>mc_auth := ac\<rparr> in
             if ok then send_subscribe env m else Inr m))) (\<lambda>m.
    Inr (schedule_delayed env m))"

text \<open>The address with its nonce cleared.\<close>

definition initial_inst :: "nat \<Rightarrow> u8 list \<Rightarrow> ceph_entity_inst" where
  "initial_inst i addr = \<lparr>inst_name = (ucast CEPH_ENTITY_TYPE_MON, word_of_nat i), inst_addr = set_bytes 4 (replicate 4 0) addr\<rparr>"

definition build_initial_monmap :: "mon_env \<Rightarrow> u8 list list \<Rightarrow> ceph_monmap option" where
  "build_initial_monmap env mon_addr =
    (if \<not> ae_alloc (me_auth env) (24 + length mon_addr * ENTITY_INST_SIZE) then None
     else Some \<lparr>mm_fsid = replicate 16 0, mm_epoch = 0, mon_inst = map (\<lambda>i. initial_inst i (mon_addr ! i)) [0..<length mon_addr]\<rparr>)"

definition mon_msg_new :: "mon_env \<Rightarrow> u16 \<Rightarrow> nat \<Rightarrow> ceph_msg option" where
  "mon_msg_new env type len = ceph_msg_new type len (oa_cursor (me_alloc env)) (oa_front (me_alloc env) len)"

definition ceph_monc_init ::
  "mon_env \<Rightarrow> u8 list option \<Rightarrow> ceph_crypto_key option \<Rightarrow> u8 list list \<Rightarrow> (nat \<Rightarrow> ceph_mon_generic_request) \<Rightarrow> int + ceph_mon_client" where
  "ceph_monc_init env name key mon_addr gr0 =
    (case build_initial_monmap env mon_addr of
       None \<Rightarrow> Inl (- ENOMEM_no)
     | Some mp \<Rightarrow>
         (case ceph_auth_init (me_auth env) name key of
            None \<Rightarrow> Inl (- ENOMEM_no)
          | Some ac \<Rightarrow>
              let ac = ac\<lparr>want_keys := CEPH_ENTITY_TYPE_AUTH OR CEPH_ENTITY_TYPE_MON OR CEPH_ENTITY_TYPE_OSD OR CEPH_ENTITY_TYPE_MDS\<rparr> in
              case (mon_msg_new env CEPH_MSG_MON_SUBSCRIBE_ACK 20, mon_msg_new env CEPH_MSG_MON_SUBSCRIBE 96,
                    mon_msg_new env CEPH_MSG_AUTH_REPLY 4096, mon_msg_new env CEPH_MSG_AUTH 4096) of
                (Some ack, Some sub, Some areply, Some auth) \<Rightarrow>
                  Inr \<lparr>monmap = Some mp, mc_auth = ac, m_auth = auth, m_auth_mem = m_front auth, m_auth_reply = areply,
                    m_subscribe = sub, m_subscribe_mem = m_front sub, m_subscribe_ack = ack, pending_auth = False, hunting = True,
                    cur_mon = -1, sub_sent = 0, sub_renew_after = me_jiffies env, generic_request_tree = Leaf, num_generic_requests = 0,
                    mc_last_tid = 0, gr_of = gr0, gr_next = 0, want_mdsmap = 0, want_next_osdmap = 1, have_osdmap = 0, have_mdsmap = 0,
                    auth_err = 0, msgr_name = (0, 0), mon_acts = []\<rparr>
              | _ \<Rightarrow> Inl (- ENOMEM_no)))"

definition ceph_monc_stop :: "ceph_mon_client \<Rightarrow> ceph_mon_client res" where
  "ceph_monc_stop m =
    bindE (close_session m) (\<lambda>m.
    bindE (case ac_ops (mc_auth m) of None \<Rightarrow> Inr (mc_auth m) | Some ops \<Rightarrow> ops_destroy ops (mc_auth m)) (\<lambda>ac.
    Inr (m\<lparr>mc_auth := ac, monmap := None\<rparr>)))"

definition handle_auth_reply :: "mon_env \<Rightarrow> ceph_msg \<Rightarrow> ceph_client \<Rightarrow> ceph_client res" where
  "handle_auth_reply env msg cl =
    (let had_debugfs_info = have_debugfs_info cl; ae = me_auth env; m = monc cl; buf = m_front msg in
     bindE (ceph_auth_is_authenticated ae (mc_auth m)) (\<lambda>(was_auth, ac).
     bindE (ceph_handle_auth_reply ae buf (int (length buf)) (m_auth_mem m) (front_alloc_len (m_auth m)) ac) (\<lambda>(ret, mem, ac).
     let m = m\<lparr>pending_auth := False, mc_auth := ac, m_auth_mem := mem\<rparr> in
     bindE (if ret < 0 then Inr (mon_act Wake_auth (m\<lparr>auth_err := ret\<rparr>))
            else if 0 < ret then send_prepared_auth_request ret m
            else if \<not> was_auth then
              bindE (ceph_auth_is_authenticated ae (mc_auth m)) (\<lambda>(ok, ac).
              let m = m\<lparr>mc_auth := ac\<rparr> in
              if ok then
                bindE (send_subscribe env (m\<lparr>msgr_name := (8, global_id ac)\<rparr>)) (\<lambda>m. Inr (resend_generic_request m))
              else Inr m)
            else Inr m) (\<lambda>m.
     let cl = cl\<lparr>monc := m\<rparr> in
     Inr (if \<not> had_debugfs_info \<and> have_debugfs_info cl then upd_monc (mon_act Debugfs_client_init) cl else cl)))))"

definition ceph_monc_validate_auth :: "mon_env \<Rightarrow> ceph_mon_client \<Rightarrow> (int \<times> ceph_mon_client) res" where
  "ceph_monc_validate_auth env m = validate_auth env m"

section \<open>Messages\<close>

text \<open>What the OSD client asks of the monitor client while it handles a map.\<close>

fun mon_request :: "mon_env \<Rightarrow> action \<Rightarrow> ceph_mon_client \<Rightarrow> ceph_mon_client res" where
  "mon_request env Request_next_osdmap m = ceph_monc_request_next_osdmap env m"
| "mon_request env (Got_osdmap e) m = Inr (ceph_monc_got_osdmap e m)"
| "mon_request env _ m = Inr m"

definition dispatch_osd_map :: "osdc_env \<Rightarrow> mon_env \<Rightarrow> ceph_msg \<Rightarrow> ceph_client \<Rightarrow> ceph_client res" where
  "dispatch_osd_map oenv env msg cl =
    bindE (ceph_osdc_handle_map oenv msg (osdc cl)) (\<lambda>oc.
    bindE (foldE (mon_request env) (drop (length (acts (osdc cl))) (acts oc)) (monc cl)) (\<lambda>m.
    Inr (cl\<lparr>osdc := oc, monc := m\<rparr>)))"

text \<open>A message with the memory of its front; \<open>extra\<close> is the handler of another user of the monitors, if there is one.\<close>

definition mon_dispatch ::
  "osdc_env \<Rightarrow> mon_env \<Rightarrow> (ceph_msg \<Rightarrow> ceph_client \<Rightarrow> int \<times> ceph_client) option \<Rightarrow> ceph_msg \<Rightarrow> u8 list \<Rightarrow> ceph_client \<Rightarrow> ceph_client res" where
  "mon_dispatch oenv env extra msg mem cl =
    (let type = hdr_type msg; lift = (\<lambda>f. bindE (f (monc cl)) (\<lambda>m. Inr (cl\<lparr>monc := m\<rparr>))) in
     if type = CEPH_MSG_AUTH_REPLY then handle_auth_reply env msg cl
     else if type = CEPH_MSG_MON_SUBSCRIBE_ACK then lift (handle_subscribe_ack env msg)
     else if type = CEPH_MSG_STATFS_REPLY then lift (handle_statfs_reply msg)
     else if type = CEPH_MSG_MON_GET_VERSION_REPLY then lift (handle_get_version_reply msg mem)
     else if type = CEPH_MSG_POOLOP_REPLY then lift (handle_poolop_reply msg)
     else if type = CEPH_MSG_MON_MAP then ceph_monc_handle_map env msg cl
     else if type = CEPH_MSG_OSD_MAP then dispatch_osd_map oenv env msg cl
     else (case extra of None \<Rightarrow> Inr cl | Some f \<Rightarrow> Inr (snd (f msg cl))))"

text \<open>The message to read into, if there is one, and whether to skip what arrives.\<close>

definition mon_alloc_msg :: "mon_env \<Rightarrow> ceph_msg \<Rightarrow> ceph_mon_client \<Rightarrow> ceph_msg option \<times> bool" where
  "mon_alloc_msg env hdr m =
    (let type = hdr_type hdr; front_len = sint (hdr_front_len hdr);
         prealloc = (\<lambda>x. if int (front_alloc_len x) < front_len then (mon_msg_new env type (nat front_len), False) else (Some x, False));
         fresh = (case mon_msg_new env type (nat front_len) of None \<Rightarrow> (None, False) | Some x \<Rightarrow> prealloc x) in
     if type = CEPH_MSG_MON_SUBSCRIBE_ACK then prealloc (m_subscribe_ack m)
     else if type = CEPH_MSG_POOLOP_REPLY \<or> type = CEPH_MSG_STATFS_REPLY then get_generic_reply hdr m
     else if type = CEPH_MSG_AUTH_REPLY then prealloc (m_auth_reply m)
     else if type = CEPH_MSG_MON_GET_VERSION_REPLY then (if hdr_tid hdr \<noteq> 0 then get_generic_reply hdr m else fresh)
     else if type = CEPH_MSG_MON_MAP \<or> type = CEPH_MSG_MDS_MAP \<or> type = CEPH_MSG_OSD_MAP then fresh
     else (None, True))"

definition mon_fault :: "mon_env \<Rightarrow> ceph_mon_client \<Rightarrow> ceph_mon_client res" where
  "mon_fault env m =
    bindE (close_session m) (\<lambda>m.
    if \<not> hunting m then open_session env (m\<lparr>hunting := True\<rparr>) else Inr (schedule_delayed env m))"

end
