(* ===== verification/Osd_Inv.thy ===== *)
theory Osd_Inv
  imports Osd_Queues
begin

text \<open>
  Every operation of the OSD client keeps the invariant of \<open>Osd_Queues\<close>: mapping a request to a session, sending, resending after a lost
  connection, dropping idle sessions, and looking at all requests again when a new map arrives. An operation
  is first described by what it does to the profile of the request it works on.
\<close>

section \<open>Mapping\<close>

text \<open>
  Mapping a request: on an error it is moved to the list of requests without a target, it stays as it
  is, or it is queued on the session of its new OSD, if there is one.
\<close>

definition mapped_profile :: "int \<Rightarrow> profile \<Rightarrow> profile \<Rightarrow> bool" where
  "mapped_profile err p p' \<longleftrightarrow>
    (err < 0 \<and> (p' = p\<lparr>p_queued := False, p_nt := True\<rparr> \<or>
       p' = p\<lparr>p_sess := {}, p_lsess := {}, p_osd := None, p_queued := False, p_nt := True\<rparr>)) \<or>
    (err = 0 \<and> p' = p) \<or>
    (err = 1 \<and> (\<exists>v. p' = p\<lparr>p_sess := set_option v, p_lsess := {}, p_osd := v, p_queued := (v \<noteq> None), p_nt := (v = None)\<rparr>))"

lemma errno_pos: "0 < errno_no e"
  by (cases e) auto

lemma map_request_ok:
  assumes env: "env_ok env" and g: "glob_inv c" and pb: "points_back (profile c r)" and mp: "map_request env r force c = Inr (err, c')"
  shows "moves r c c'" "mapped_profile err (profile c r) (profile c' r)"
proof -
  from mp obtain om req where om: "oc_map c = Some om" and req: "calc_request_target om (req_of c r) = Inr req"
    by (auto simp: map_request_def)
  define c1 where "c1 = upd_req r (\<lambda>_. req) c"
  note fr = calc_request_target_frame[OF req]
  have c1: "glob_inv c1" "profile c1 = profile c" using g fr by (simp_all add: c1_def moves_glob moves_profile)
  have "moves r c c' \<and> mapped_profile err (profile c r) (profile c' r)"
  proof (cases "ceph_oloc_oid_to_pg om (r_target_oloc req) (r_target_oid req)")
    case (Inl e)
    with mp om req obtain e' where "err = - errno_no e'" "c' = move_notarget r c1"
      by (auto simp: map_request_def c1_def split: stop.splits)
    then show ?thesis using move_notarget_ok[OF c1(1), of r] c1(2) errno_pos[of e'] by (simp add: mapped_profile_def moves_def)
  next
    case (Inr pgid)
    define c2 where "c2 = upd_req r (\<lambda>y. y\<lparr>r_pgid := pgid\<rparr>) c1"
    have c2: "glob_inv c2" "profile c2 = profile c" using c1 by (simp_all add: c2_def moves_glob moves_profile)
    from mp om req Inr obtain acting num n om' where ac: "calc_acting env om pgid = Inr (acting, num, n, om')"
      by (fastforce simp: map_request_def Let_def)
    define c3 where "c3 = upd_req r (\<lambda>y. y\<lparr>r_paused := req_should_be_paused (c2\<lparr>oc_map := Some om'\<rparr>) (req_of (c2\<lparr>oc_map := Some om'\<rparr>) r)\<rparr>) (c2\<lparr>oc_map := Some om'\<rparr>)"
    have c3: "glob_inv c3" "profile c3 = profile c" using c2 by (simp_all add: c3_def moves_glob moves_profile)
    define c4 where "c4 = upd_req r (\<lambda>y. y\<lparr>r_pg_osds := take num acting @ drop num (r_pg_osds y), r_num_pg_osds := num\<rparr>) c3"
    have c4: "glob_inv c4" "profile c4 = profile c" using c3 by (simp_all add: c4_def moves_glob moves_profile)
    define F where "F \<longleftrightarrow> force \<or> r_paused (req_of (c2\<lparr>oc_map := Some om'\<rparr>) r) \<and> \<not> req_should_be_paused (c2\<lparr>oc_map := Some om'\<rparr>) (req_of (c2\<lparr>oc_map := Some om'\<rparr>) r)"
    have rest: "(if req_unchanged c3 r F acting num n then Inr (0, c3)
        else bindE (attach_osd env r n (detach_osd r c4)) (\<lambda>(ok, c).
          if ok then Inr (1, enqueue_request r c) else Inr (- ENOMEM_no, move_notarget r c))) = Inr (err, c')"
      using mp unfolding map_request_def Let_def om deref_def option.case bindE_simps req c1_def[symmetric] Inr sum.case c2_def[symmetric] ac prod.case
        c3_def[symmetric] F_def[symmetric] c4_def[symmetric] .
    show ?thesis
    proof (cases "req_unchanged c3 r F acting num n")
      case True
      with rest c3 show ?thesis by (auto simp: moves_def mapped_profile_def)
    next
      case False
      define c5 where "c5 = detach_osd r c4"
      from detach_ok[OF c4(1), of r] pb c4(2) have c5: "moves r c4 c5"
        "profile c5 r = (profile c r)\<lparr>p_sess := {}, p_lsess := {}, p_osd := None\<rparr>" by (simp_all add: c5_def)
      from rest[unfolded if_not_P[OF False] c5_def[symmetric]] obtain ok c6 where at: "attach_osd env r n c5 = Inr (ok, c6)"
        and fin: "(if ok then Inr (1, enqueue_request r c6) else Inr (- ENOMEM_no, move_notarget r c6)) = (Inr (err, c') :: (int \<times> ceph_osd_client) res)"
        by (elim bindE_InrE) (auto simp only: prod.case)
      have g5: "glob_inv c5" using c5(1) by (simp add: moves_def)
      have n5: "r_osd (req_of c5 r) = None" using arg_cong[OF c5(2), of p_osd] by simp
      obtain v where v: "moves r c5 c6" "profile c6 r = (profile c5 r)\<lparr>p_osd := v\<rparr>" "\<forall>x. v = Some x \<longrightarrow> x \<in> set_tree (osds c6)"
        "\<not> ok \<longrightarrow> v = None" using attach_ok[OF env g5 at n5] by blast
      have o6: "r_osd (req_of c6 r) = v" using arg_cong[OF v(2), of p_osd] by simp
      have "moves r c c4" using c4 by (simp add: moves_def)
      then have mv6: "moves r c c6" using c5(1) v(1) moves_trans by blast
      show ?thesis
      proof (cases ok)
        case True
        then have fin': "err = 1" "c' = enqueue_request r c6" using fin by simp_all
        have "p_sess (profile c6 r) = {}" using v(2) c5(2) by (simp del: profile_simps)
        with enqueue_ok[of c6 r] v(1,3) o6 have e: "moves r c6 c'"
          "profile c' r = (profile c6 r)\<lparr>p_queued := (v \<noteq> None), p_nt := (v = None), p_sess := set_option v\<rparr>"
          by (simp_all add: fin' moves_def)
        have "profile c' r =
          (profile c r)\<lparr>p_sess := set_option v, p_lsess := {}, p_osd := v, p_queued := (v \<noteq> None), p_nt := (v = None)\<rparr>"
          unfolding e(2) v(2) c5(2) by simp
        then show ?thesis unfolding mapped_profile_def using moves_trans[OF mv6 e(1)] fin'(1) by blast
      next
        case False
        then have fin': "err = - ENOMEM_no" "c' = move_notarget r c6" "v = None" using fin v(4) by simp_all
        have "glob_inv c6" using v(1) by (simp add: moves_def)
        note nt = move_notarget_ok[OF this, of r, folded fin'(2)]
        have "profile c' r = (profile c r)\<lparr>p_sess := {}, p_lsess := {}, p_osd := None, p_queued := False, p_nt := True\<rparr>"
          unfolding nt(2) v(2) c5(2) using fin'(3) by simp
        then show ?thesis using moves_trans[OF mv6 nt(1)] fin'(1) by (simp add: mapped_profile_def ENOMEM_no_def)
      qed
    qed
  qed
  then show "moves r c c'" "mapped_profile err (profile c r) (profile c' r)" by blast+
qed

section \<open>Operations keep the invariant\<close>

lemma foldE_rest:
  assumes "Q xs s" and "foldE f xs s = Inr s'" and "\<And>x xs s s'. Q (x # xs) s \<Longrightarrow> f x s = Inr s' \<Longrightarrow> Q xs s'"
  shows "Q [] s'"
  using assms(1,2) by (induction xs arbitrary: s) (auto dest: assms(3))

text \<open>Changes that do not touch the lists.\<close>

lemma inv_same: "osdc_inv c \<Longrightarrow> glob_inv c' \<Longrightarrow> profile c' = profile c \<Longrightarrow> osdc_inv c'"
  by (simp add: osdc_inv_def)

lemma inv_act [simp]: "osdc_inv (act a c) = osdc_inv c"
  by (simp add: osdc_inv_def moves_glob moves_profile)

lemma inv_map [simp]: "osdc_inv (c\<lparr>oc_map := m\<rparr>) = osdc_inv c"
  by (simp add: osdc_inv_def moves_glob moves_profile)

lemma inv_upd_req:
  "osdc_inv c \<Longrightarrow> r_tid (f (req_of c r)) = r_tid (req_of c r) \<Longrightarrow> r_osd (f (req_of c r)) = r_osd (req_of c r) \<Longrightarrow>
    r_linger (f (req_of c r)) = r_linger (req_of c r) \<Longrightarrow> osdc_inv (upd_req r f c)"
  by (simp add: osdc_inv_def moves_glob moves_profile)

lemma inv_fold_act: "osdc_inv (fold (\<lambda>x. act (f x)) xs c) = osdc_inv c"
  by (induction xs arbitrary: c) simp_all

lemma map_request_inv:
  assumes "env_ok env" and "osdc_inv c" and "r \<in> set_tree (requests c)" and "map_request env r force c = Inr (err, c')"
  shows "osdc_inv c'" "moves r c c'" "r \<in> set_tree (requests c')"
proof -
  note st = inv_settled[OF assms(2), of r]
  note mp = map_request_ok[OF assms(1) inv_glob[OF assms(2)] settled_points_back[OF st] assms(4)]
  show "moves r c c'" by (rule mp)
  have reg: "p_reg (profile c r)" using assms(3) by simp
  from mp(2) st reg have "settled (profile c' r) \<and> p_reg (profile c' r)"
    unfolding mapped_profile_def settled_def points_back_def by (elim disjE conjE exE) (simp_all del: profile_simps)
  then show "osdc_inv c'" "r \<in> set_tree (requests c')" using moves_inv[OF assms(2) mp(1)] by simp_all
qed

text \<open>Sending moves a request to the end of the list of those in flight.\<close>

lemma send_request_ok:
  assumes "glob_inv c" and "send_request env r c = Inr c'"
  shows "moves r c c'" "profile c' r = (profile c r)\<lparr>p_queued := True, p_nt := False\<rparr>" "r_osd (req_of c r) \<noteq> None"
proof -
  obtain x om req where x: "r_osd (req_of c r) = Some x" and req: "fill_request om (req_of c r) = Inr req"
    and c': "c' = (let d = lru_del r (upd_req r (\<lambda>_. req\<lparr>r_stamp := jiffies env, r_sent := o_incarnation (osd_of c x)\<rparr>) c);
       d = d\<lparr>req_lru := req_lru d @ [r]\<rparr> in act (Con_send x r (r_request (req_of d r))) d)"
    using assms(2) by (auto simp: send_request_def Let_def deref_def split: option.splits)
  define c1 where "c1 = upd_req r (\<lambda>_. req\<lparr>r_stamp := jiffies env, r_sent := o_incarnation (osd_of c x)\<rparr>) c"
  have "r_osd req = r_osd (req_of c r)" "r_linger req = r_linger (req_of c r)" "r_tid req = r_tid (req_of c r)"
    using req by (auto simp: fill_request_def Let_def)
  then have "glob_inv c1" "profile c1 = profile c" using assms(1) by (simp_all add: c1_def moves_glob moves_profile)
  then show "moves r c c'" "profile c' r = (profile c r)\<lparr>p_queued := True, p_nt := False\<rparr>"
    by (simp_all add: c' Let_def c1_def[symmetric] moves_def moves_glob moves_profile)
  show "r_osd (req_of c r) \<noteq> None" by (simp add: x)
qed

lemma send_queued_inv:
  assumes "osdc_inv c" and "send_queued env c = Inr c'"
  shows "osdc_inv c'"
proof -
  let ?Q = "\<lambda>rs c. osdc_inv c \<and> (\<forall>r\<in>set rs. p_queued (profile c r))"
  have "?Q [] c'"
  proof (rule foldE_rest[of ?Q])
    show "?Q (req_unsent c) c" using assms(1) by (simp add: profile_def)
    show "foldE (send_request env) (req_unsent c) c = Inr c'" using assms(2) by (simp add: send_queued_def)
    fix r rs d d' assume q: "?Q (r # rs) d" and s: "send_request env r d = Inr d'"
    note ok = send_request_ok[OF inv_glob[of d] s]
    have "settled (profile d' r)"
      unfolding ok(2)[OF conjunct1[OF q]] using q inv_settled[of d r] by (simp add: settled_def points_back_def del: profile_simps)
    moreover have "p_queued (profile d' t)" if "t \<in> set rs" for t
      using ok(1,2) q that by (cases "t = r") (simp_all add: moves_def)
    ultimately show "?Q rs d'" using q moves_inv[of d r d'] ok(1) by blast
  qed
  then show ?thesis by simp
qed

lemma start_request_inv:
  assumes "env_ok env" and "osdc_inv c" and "free (profile c r)" and "start_request env r nofail c = Inr (rc, c')"
  shows "osdc_inv c'"
proof -
  obtain c1 where c1: "register_request env r c = Inr c1" using assms(4) by (auto simp: start_request_def)
  define c2 where "c2 = upd_req r (\<lambda>x. x\<lparr>r_sent := 0, r_got_reply := False\<rparr>) c1"
  note reg = register_inv[OF assms(1-3) c1]
  have "r \<in> set_tree (requests c1)" using arg_cong[OF reg(4), of p_reg] by simp
  then have c2: "osdc_inv c2" "r \<in> set_tree (requests c2)" using reg(1) by (simp_all add: c2_def inv_upd_req) (simp add: upd_req_def)
  obtain e c3 where c3: "map_request env r False c2 = Inr (e, c3)" using assms(4) c1 by (auto simp: start_request_def c2_def)
  note mp = map_request_inv[OF assms(1) c2 c3]
  from assms(4) c1 c3 show ?thesis
    using mp(1) unregister_inv[OF assms(1) mp(1), of r] send_queued_inv[OF mp(1)]
    by (auto simp: start_request_def c2_def[symmetric] split: if_splits)
qed

section \<open>Resending\<close>

text \<open>A linger request is registered anew and queued on the session it had.\<close>

lemma kick_linger_request_inv:
  assumes "env_ok env" and "osdc_inv c" and "r \<in> set_tree (requests c) \<or> r \<in> set (req_linger c)" and "kick_linger_request env r c = Inr c'"
  shows "osdc_inv c'" "moves r c c'"
proof -
  define v where "v = r_osd (req_of c r)"
  obtain c1 where c1: "(if r \<in> set (req_linger c) then unregister_linger_request env r c else unregister_request env r c) = Inr c1"
    using assms(4) by (auto simp: kick_linger_request_def Let_def)
  have u: "osdc_inv c1" "moves r c c1" "same_sessions c c1" "free (profile c1 r)"
    using c1 assms(3) unregister_inv[OF assms(1,2), of r] unregister_linger_inv[OF assms(2), of env r] by (auto split: if_splits)
  obtain c2 where c2: "register_request env r c1 = Inr c2" and c': "c' = enqueue_request r (upd_req r (\<lambda>x. x\<lparr>r_osd := v\<rparr>) c2)"
    using assms(4) c1 by (auto simp: kick_linger_request_def Let_def v_def)
  note reg = register_inv[OF assms(1) u(1,4) c2]
  define c3 where "c3 = upd_req r (\<lambda>x. x\<lparr>r_osd := v\<rparr>) c2"
  have c3: "moves r c2 c3" "profile c3 r = (profile c1 r)\<lparr>p_reg := True, p_osd := v\<rparr>" "osds c3 = osds c2" "r_osd (req_of c3 r) = v"
    using inv_glob[OF reg(1)] reg(4) by (simp_all add: c3_def moves_def moves_glob moves_profile) (simp_all add: upd_req_def)
  have "x \<in> set_tree (osds c)" if "v = Some x" for x
    using inv_settled[OF assms(2), of r] assms(3) that by (auto simp: settled_def v_def profile_def)
  then have "\<forall>x. r_osd (req_of c3 r) = Some x \<longrightarrow> x \<in> set_tree (osds c3)" using c3(3,4) u(3) reg(3) by (simp add: same_sessions_def)
  moreover have "p_sess (profile c3 r) = {}" using c3(2) u(4) by (simp add: free_def del: profile_simps)
  moreover have "glob_inv c3" using c3(1) by (simp add: moves_def)
  ultimately have e: "moves r c3 c'" "profile c' r = (profile c3 r)\<lparr>p_queued := (v \<noteq> None), p_nt := (v = None), p_sess := set_option v\<rparr>"
    using enqueue_ok[of c3 r] c3(4) by (simp_all add: c' c3_def)
  show m: "moves r c c'" using u(2) reg(2) c3(1) e(1) moves_trans by blast
  have "settled (profile c' r)" unfolding e(2) c3(2) using u(4)
    by (auto simp: settled_def points_back_def free_def simp del: profile_simps)
  then show "osdc_inv c'" by (rule moves_inv[OF assms(2) m])
qed

lemma kick_lingers_inv:
  assumes "env_ok env" and "osdc_inv c" and "distinct rs" and "\<forall>r\<in>set rs. r \<in> set_tree (requests c) \<or> r \<in> set (req_linger c)"
    and "foldE (kick_linger_request env) rs c = Inr c'"
  shows "osdc_inv c'" "\<forall>q. q \<notin> set rs \<longrightarrow> profile c' q = profile c q"
proof -
  let ?Q = "\<lambda>ts d. osdc_inv d \<and> distinct ts \<and> set ts \<subseteq> set rs \<and> (\<forall>r\<in>set ts. p_reg (profile d r) \<or> p_ling (profile d r)) \<and>
    (\<forall>q. q \<notin> set rs \<longrightarrow> profile d q = profile c q)"
  have "?Q [] c'"
  proof (rule foldE_rest[of ?Q])
    show "?Q rs c" using assms by simp
    show "foldE (kick_linger_request env) rs c = Inr c'" by (rule assms)
    fix r ts d d' assume q: "?Q (r # ts) d" and k: "kick_linger_request env r d = Inr d'"
    then have "r \<in> set_tree (requests d) \<or> r \<in> set (req_linger d)" by simp
    note ok = kick_linger_request_inv[OF assms(1) conjunct1[OF q] this k]
    have same: "profile d' t = profile d t" if "t \<noteq> r" for t using ok(2) that by (simp add: moves_def)
    then have "\<forall>t\<in>set ts. p_reg (profile d' t) \<or> p_ling (profile d' t)" using q by (metis distinct.simps(2) list.set_intros(2))
    moreover have "\<forall>t. t \<notin> set rs \<longrightarrow> profile d' t = profile c t" using q same by (metis insert_subset list.simps(15))
    ultimately show "?Q ts d'" using q ok(1) by simp
  qed
  then show "osdc_inv c'" "\<forall>q. q \<notin> set rs \<longrightarrow> profile c' q = profile c q" by simp_all
qed

text \<open>The requests of a session that were sent are taken off the queues.\<close>

lemma collect_sent_ok:
  assumes "glob_inv c" and "distinct rs" and "collect_sent rs (a, b, c) = (a', b', c')"
  shows "\<exists>as bs. a' = a @ as \<and> b' = b @ bs \<and> distinct as \<and> distinct bs \<and> set as \<subseteq> set rs \<and> set bs \<subseteq> set rs \<and>
    (\<forall>r\<in>set as. \<not> p_flag (profile c r)) \<and> (\<forall>r\<in>set bs. p_flag (profile c r)) \<and> glob_inv c' \<and> osd_of c' = osd_of c \<and> osds c' = osds c \<and>
    (\<forall>q. profile c' q = (if q \<in> set as \<union> set bs then (profile c q)\<lparr>p_queued := False, p_nt := False\<rparr> else profile c q))"
  using assms
proof (induction rs arbitrary: a b c)
  case (Cons r rs)
  define d where "d = (if r_linger (req_of c r) then lru_del r c
    else upd_req r (\<lambda>x. x\<lparr>r_flags := r_flags x OR CEPH_OSD_FLAG_RETRY\<rparr>) (lru_del r c))"
  have d: "glob_inv d" "osd_of d = osd_of c" "osds d = osds c"
    "\<And>q. profile d q = (if q = r then (profile c r)\<lparr>p_queued := False, p_nt := False\<rparr> else profile c q)"
    using Cons.prems(1) by (simp_all add: d_def moves_glob moves_profile) (simp_all add: lru_del_def upd_req_def)
  have r: "r \<notin> set rs" "distinct rs" using Cons.prems(2) by simp_all
  have fl: "r_linger (req_of d q) = r_linger (req_of c q)" for q by (simp add: d_def lru_del_def upd_req_def)
  show ?case
  proof (cases "r_sent (req_of c r) = 0")
    case True
    with Cons.prems show ?thesis by simp
  next
    case sent: False
    show ?thesis
    proof (cases "r_linger (req_of c r)")
      case True
      with sent Cons.prems(3) have "collect_sent rs (a, b @ [r], d) = (a', b', c')" by (simp add: d_def)
      from Cons.IH[OF d(1) r(2) this] obtain as bs where "a' = a @ as" "b' = b @ r # bs" and
        i: "distinct as" "distinct bs" "set as \<subseteq> set rs" "set bs \<subseteq> set rs" "\<forall>t\<in>set as. \<not> p_flag (profile d t)" "\<forall>t\<in>set bs. p_flag (profile d t)"
          "glob_inv c'" "osd_of c' = osd_of d" "osds c' = osds d"
          "\<forall>q. profile c' q = (if q \<in> set as \<union> set bs then (profile d q)\<lparr>p_queued := False, p_nt := False\<rparr> else profile d q)"
        by auto
      moreover have "\<forall>t\<in>set as. \<not> p_flag (profile c t)" "\<forall>t\<in>set (r # bs). p_flag (profile c t)" "r \<notin> set as" "r \<notin> set bs"
        using i(3-6) r(1) True by (auto simp: fl)
      ultimately show ?thesis using d by (intro exI[of _ as] exI[of _ "r # bs"]) auto
    next
      case False
      with sent Cons.prems(3) have "collect_sent rs (a @ [r], b, d) = (a', b', c')" by (simp add: d_def)
      from Cons.IH[OF d(1) r(2) this] obtain as bs where "a' = a @ r # as" "b' = b @ bs" and
        i: "distinct as" "distinct bs" "set as \<subseteq> set rs" "set bs \<subseteq> set rs" "\<forall>t\<in>set as. \<not> p_flag (profile d t)" "\<forall>t\<in>set bs. p_flag (profile d t)"
          "glob_inv c'" "osd_of c' = osd_of d" "osds c' = osds d"
          "\<forall>q. profile c' q = (if q \<in> set as \<union> set bs then (profile d q)\<lparr>p_queued := False, p_nt := False\<rparr> else profile d q)"
        by auto
      moreover have "\<forall>t\<in>set (r # as). \<not> p_flag (profile c t)" "\<forall>t\<in>set bs. p_flag (profile c t)" "r \<notin> set as" "r \<notin> set bs"
        using i(3-6) r(1) False by (auto simp: fl)
      ultimately show ?thesis using d by (intro exI[of _ "r # as"] exI[of _ bs]) auto
    qed
  qed
qed simp

section \<open>Sessions\<close>

lemma remove_osd_inv:
  assumes "env_ok env" and "osdc_inv c" and "osd_idle (osd_of c x)" and "remove_osd env x c = Inr c'"
  shows "osdc_inv c'" "osd_lru c' = remove1 x (osd_lru c)" "osd_of c' = osd_of c"
proof -
  from assms(4) have x: "x \<in> set_tree (osds c)"
    and c': "c' = act (Con_close x) (c\<lparr>osds := oe_erase env x (osds c), osd_lru := remove1 x (osd_lru c)\<rparr>)"
    by (auto simp: remove_osd_def rb_erase_def split: if_splits)
  note g = inv_glob[OF assms(2)]
  have o: "ordered (osd_no c) (osds c)" "erases_node (oe_erase env)" using g assms(1) by (simp_all add: glob_defs env_ok_def)
  have t: "set_tree (oe_erase env x (osds c)) = set_tree (osds c) - {x}" by (rule erase_set[OF o x])
  have "glob_inv (c\<lparr>osds := oe_erase env x (osds c), osd_lru := remove1 x (osd_lru c)\<rparr>)"
    using g t map_key_remove1[OF o(1) x o(2)] set_remove1_eq[of "osd_lru c" x] by (simp add: glob_defs)
  moreover have "profile (c\<lparr>osds := oe_erase env x (osds c), osd_lru := remove1 x (osd_lru c)\<rparr>) = profile c"
  proof
    fix q
    have "q \<notin> set (o_requests (osd_of c x))" "q \<notin> set (o_linger_requests (osd_of c x))" using assms(3) by (simp_all add: osd_idle_def)
    then show "profile (c\<lparr>osds := oe_erase env x (osds c), osd_lru := remove1 x (osd_lru c)\<rparr>) q = profile c q"
      by (simp add: profile_def t) auto
  qed
  ultimately show "osdc_inv c'" using assms(2) by (simp add: c' inv_same)
  show "osd_lru c' = remove1 x (osd_lru c)" "osd_of c' = osd_of c" by (simp_all add: c' act_def)
qed

lemma remove_old_inv:
  "env_ok env \<Longrightarrow> osdc_inv c \<Longrightarrow> distinct xs \<Longrightarrow> set xs \<subseteq> set (osd_lru c) \<Longrightarrow> remove_old_loop env xs c = Inr c' \<Longrightarrow> osdc_inv c'"
proof (induction xs arbitrary: c)
  case (Cons x xs)
  show ?case
  proof (cases "time_before (jiffies env) (lru_ttl (osd_of c x))")
    case False
    with Cons.prems obtain d where d: "remove_osd env x c = Inr d" "remove_old_loop env xs d = Inr c'" by auto
    have "osd_idle (osd_of c x)" using Cons.prems(2,4) by (auto simp: osdc_inv_def glob_defs)
    note r = remove_osd_inv[OF Cons.prems(1,2) this d(1)]
    have "set xs \<subseteq> set (osd_lru d)" using Cons.prems(3,4) unfolding r(2) by (metis distinct.simps(2) in_set_remove1 set_subset_Cons subset_code(1))
    then show ?thesis using Cons.IH[OF Cons.prems(1) r(1) _ _ d(2)] Cons.prems(3) by simp
  qed (use Cons.prems in simp)
qed simp

lemma stamp_same: "glob_inv c \<Longrightarrow> glob_inv (stamp_requests t rs c) \<and> profile (stamp_requests t rs c) = profile c"
  unfolding stamp_requests_def by (induction rs arbitrary: c) (simp_all add: moves_glob moves_profile)

lemma reset_osd_inv:
  assumes "env_ok env" and "osdc_inv c" and "reset_osd env x c = Inr (err, c')"
  shows "osdc_inv c'" "err = 0 \<Longrightarrow> osds c' = osds c"
proof -
  show "osdc_inv c'"
  proof (cases "osd_idle (osd_of c x)")
    case True
    then show ?thesis using assms remove_osd_inv(1)[OF assms(1,2) True] by (auto simp: reset_osd_def)
  next
    case False
    then show ?thesis using assms(2,3) inv_glob[OF assms(2)] stamp_same[OF inv_glob[OF assms(2)]]
      by (auto simp: reset_osd_def split: if_splits intro!: inv_same[OF assms(2)] simp: moves_glob moves_profile)
  qed
  show "osds c' = osds c" if "err = 0"
    using that assms(3) by (auto simp: reset_osd_def ENODEV_def EAGAIN_def upd_osd_def act_def split: if_splits)
qed

lemma reset_changed_osd_inv: "env_ok env \<Longrightarrow> osdc_inv c \<Longrightarrow> reset_changed_osd env x c = Inr c' \<Longrightarrow> osdc_inv c'"
  using reset_osd_inv(1) by (auto simp: reset_changed_osd_def split: if_splits)

lemma reset_changed_osds_inv:
  assumes "env_ok env" and "osdc_inv c" and "reset_changed_osds env c = Inr c'"
  shows "osdc_inv c'"
  using foldE_rest[of "\<lambda>_ d. osdc_inv d", OF assms(2) assms(3)[unfolded reset_changed_osds_def]] reset_changed_osd_inv[OF assms(1)] by blast

text \<open>Losing the connection: the requests that were sent go to the front of the queue, in order.\<close>

lemma resend_glob:
  assumes "glob_inv c" and "distinct as" and "\<forall>r\<in>set as. \<not> p_queued (profile c r) \<and> \<not> p_nt (profile c r)"
  shows "glob_inv (c\<lparr>req_unsent := as @ req_unsent c\<rparr>)"
    "profile (c\<lparr>req_unsent := as @ req_unsent c\<rparr>) q = (if q \<in> set as then (profile c q)\<lparr>p_queued := True\<rparr> else profile c q)"
proof -
  have "r \<notin> set (req_unsent c) \<and> r \<notin> set (req_lru c) \<and> r \<notin> set (req_notarget c)" if "r \<in> set as" for r
    using assms(3) not_queued_lists that by blast
  then show "glob_inv (c\<lparr>req_unsent := as @ req_unsent c\<rparr>)" using assms(1,2) by (auto simp: glob_defs)
  show "profile (c\<lparr>req_unsent := as @ req_unsent c\<rparr>) q = (if q \<in> set as then (profile c q)\<lparr>p_queued := True\<rparr> else profile c q)"
    by (simp add: profile_def)
qed

lemma settled_queued: "settled p \<Longrightarrow> p_reg p \<Longrightarrow> p_osd p \<noteq> None \<Longrightarrow> settled (p\<lparr>p_queued := True, p_nt := False\<rparr>)"
  and settled_unqueued: "settled p \<Longrightarrow> p_flag p \<Longrightarrow> settled (p\<lparr>p_queued := False, p_nt := False\<rparr>)"
  by (auto simp: settled_def points_back_def)

lemma kick_osd_requests_inv:
  assumes "env_ok env" and "osdc_inv c" and "x \<in> set_tree (osds c)" and "kick_osd_requests env x c = Inr c'"
  shows "osdc_inv c'"
proof -
  obtain err c1 where c1: "reset_osd env x c = Inr (err, c1)" using assms(4) by (auto simp: kick_osd_requests_def)
  note r = reset_osd_inv[OF assms(1,2) c1]
  show ?thesis
  proof (cases "err = 0")
    case False
    then show ?thesis using assms(4) c1 r(1) by (auto simp: kick_osd_requests_def)
  next
    case True
    with r(2) assms(3) have x: "x \<in> set_tree (osds c1)" by simp
    note g = inv_glob[OF r(1)]
    obtain as bs c2 where cs: "collect_sent (o_requests (osd_of c1 x)) ([], [], c1) = (as, bs, c2)" by (metis prod_cases3)
    have dis: "distinct (o_requests (osd_of c1 x))" "distinct (o_linger_requests (osd_of c1 x))" using g x by (simp_all add: glob_defs)
    from collect_sent_ok[OF g dis(1) cs]
    have a: "distinct as" "distinct bs" "set as \<subseteq> set (o_requests (osd_of c1 x))" "set bs \<subseteq> set (o_requests (osd_of c1 x))"
      "\<forall>r\<in>set as. \<not> p_flag (profile c1 r)" "\<forall>r\<in>set bs. p_flag (profile c1 r)" "glob_inv c2" "osd_of c2 = osd_of c1" "osds c2 = osds c1"
      "\<And>q. profile c2 q = (if q \<in> set as \<union> set bs then (profile c1 q)\<lparr>p_queued := False, p_nt := False\<rparr> else profile c1 q)" by simp_all
    define c3 where "c3 = c2\<lparr>req_unsent := as @ req_unsent c2\<rparr>"
    have "\<forall>r\<in>set as. \<not> p_queued (profile c2 r) \<and> \<not> p_nt (profile c2 r)" using a(10) by simp
    note rg = resend_glob[OF a(7) a(1) this, folded c3_def]
    have disj: "set as \<inter> set bs = {}" using a(5,6) by auto
    have sess: "x \<in> p_sess (profile c1 q)" if "q \<in> set (o_requests (osd_of c1 x))" for q using x that by (simp add: profile_def)
    have p3: "profile c3 q = (if q \<in> set as then (profile c1 q)\<lparr>p_queued := True, p_nt := False\<rparr>
        else if q \<in> set bs then (profile c1 q)\<lparr>p_queued := False, p_nt := False\<rparr> else profile c1 q)" for q
      unfolding rg(2) a(10) by simp
    have "settled (profile c3 q)" for q
    proof -
      have st: "p_reg (profile c1 q)" "p_osd (profile c1 q) \<noteq> None" if "q \<in> set (o_requests (osd_of c1 x))"
        using inv_settled[OF r(1), of q] sess[OF that] by (auto simp: settled_def simp del: profile_simps)
      then show ?thesis
        using inv_settled[OF r(1), of q] a(3,4,6) settled_queued[of "profile c1 q"] settled_unqueued[of "profile c1 q"] unfolding p3[of q]
        by (auto simp del: profile_simps)
    qed
    then have inv3: "osdc_inv c3" using rg(1) by (simp add: osdc_inv_def)
    have o3: "osd_of c3 = osd_of c1" "osds c3 = osds c1" using a(8,9) by (simp_all add: c3_def)
    obtain c4 where c4: "foldE (kick_linger_request env) (o_linger_requests (osd_of c3 x)) c3 = Inr c4"
      and c5: "foldE (kick_linger_request env) bs c4 = Inr c'"
      using assms(4) c1 True cs by (auto simp: kick_osd_requests_def c3_def Let_def)
    have ling: "p_ling (profile c3 q)" if "q \<in> set (o_linger_requests (osd_of c3 x))" for q
    proof -
      have "x \<in> p_lsess (profile c3 q)" using x o3 that by (simp add: profile_def)
      then show ?thesis using inv_settled[OF inv3, of q] by (auto simp: settled_def points_back_def simp del: profile_simps)
    qed
    have reg: "p_reg (profile c3 q)" if "q \<in> set bs" for q
      using inv_settled[OF r(1), of q] sess[of q] a(4) p3[of q] that by (auto simp: settled_def simp del: profile_simps)
    have no: "q \<notin> set (o_linger_requests (osd_of c3 x))" if "q \<in> set bs" for q
      using ling reg that inv_settled[OF inv3, of q] by (auto simp: settled_def)
    note k = kick_lingers_inv[OF assms(1) inv3 _ _ c4]
    have k4: "osdc_inv c4" "\<forall>q\<in>set bs. profile c4 q = profile c3 q" using k dis(2) o3(1) ling no by auto
    then have "\<forall>q\<in>set bs. q \<in> set_tree (requests c4) \<or> q \<in> set (req_linger c4)" using reg profile_simps(1) by metis
    then show ?thesis using kick_lingers_inv(1)[OF assms(1) k4(1) a(2) _ c5] by blast
  qed
qed

lemma osd_reset_inv: "env_ok env \<Longrightarrow> osdc_inv c \<Longrightarrow> x \<in> set_tree (osds c) \<Longrightarrow> osd_reset env x c = Inr c' \<Longrightarrow> osdc_inv c'"
  unfolding osd_reset_def by (elim bindE_InrE) (rule send_queued_inv[OF kick_osd_requests_inv])

section \<open>A new map\<close>

text \<open>
  The loops visit every request that was registered when they started; a request that changes its way of being
  registered does not disturb the others.
\<close>

lemma kick_request_inv:
  assumes "env_ok env" and "osdc_inv c" and "r \<in> set_tree (requests c)" and "kick_request env f w r (n, c) = Inr (n', c')"
  shows "osdc_inv c'" "moves r c c'"
proof -
  have nl: "r \<notin> set (req_linger c)" using inv_settled[OF assms(2), of r] assms(3) by (auto simp: settled_def)
  have "osdc_inv c' \<and> moves r c c'"
  proof (cases "r_linger (req_of c r)")
    case True
    obtain c1 where c1: "unregister_request env r c = Inr c1" "osdc_inv c1" "moves r c c1" "free (profile c1 r)"
      "r_linger (req_of c1 r) = r_linger (req_of c r)"
      using unregister_inv[OF assms(1,2), of r] assms(3) by blast
    have c': "c' = register_linger_request r c1" using assms(4) True nl c1(1) by (auto simp: kick_request_def)
    have fr: "r \<notin> set (req_linger c1)" "r_osd (req_of c1 r) = None" using c1(4) by (simp_all add: free_def)
    note rl = register_linger_ok[OF c1(2) fr(1) disjI2[OF fr(2)], folded c']
    have "p_flag (profile c1 r)" using c1(5) True by simp
    then have "settled (profile c' r)" unfolding rl(3) using c1(4) fr(2) by (simp add: settled_def points_back_def free_def del: profile_simps)
    then show ?thesis using moves_inv[OF c1(2) rl(1)] moves_trans[OF c1(3) rl(1)] by blast
  next
    case False
    then obtain err c1 where mp: "map_request env r (f \<or> w \<and> r_flags (req_of c r) AND CEPH_OSD_FLAG_WRITE \<noteq> 0) c = Inr (err, c1)"
      and c': "c' = c1 \<or> c' = upd_req r (\<lambda>x. x\<lparr>r_flags := r_flags x OR CEPH_OSD_FLAG_RETRY\<rparr>) c1"
      using assms(4) by (auto simp: kick_request_def split: if_splits)
    note m = map_request_inv[OF assms(1-3) mp]
    have "moves r c1 (upd_req r (\<lambda>x. x\<lparr>r_flags := r_flags x OR CEPH_OSD_FLAG_RETRY\<rparr>) c1)"
      using inv_glob[OF m(1)] by (simp add: moves_def moves_glob moves_profile)
    then show ?thesis using c' m(1,2) inv_upd_req[OF m(1), of "\<lambda>x. x\<lparr>r_flags := r_flags x OR CEPH_OSD_FLAG_RETRY\<rparr>" r] moves_trans by auto
  qed
  then show "osdc_inv c'" "moves r c c'" by blast+
qed

lemma kick_linger_inv:
  assumes "env_ok env" and "osdc_inv c" and "r \<in> set (req_linger c)" and "kick_linger env f r (n, c) = Inr (n', c')"
  shows "osdc_inv c'" "moves r c c'" "r \<in> set_tree (requests c') \<Longrightarrow> \<not> p_queued (profile c' r) \<and> \<not> p_nt (profile c' r)"
proof -
  obtain err c1 where mp: "map_request env r f c = Inr (err, c1)" using assms(4) by (auto simp: kick_linger_def)
  note st = inv_settled[OF assms(2), of r]
  have p: "p_ling (profile c r)" "\<not> p_reg (profile c r)" "p_flag (profile c r)" using st assms(3) by (auto simp: settled_def)
  note m = map_request_ok[OF assms(1) inv_glob[OF assms(2)] settled_points_back[OF st] mp]
  have "osdc_inv c' \<and> moves r c c' \<and> (p_reg (profile c' r) \<longrightarrow> \<not> p_queued (profile c' r) \<and> \<not> p_nt (profile c' r))"
  proof (cases "err = 1 \<and> r_osd (req_of c1 r) \<noteq> None")
    case False
    have "c' = c1" using assms(4) mp False m(2) by (auto simp: kick_linger_def mapped_profile_def split: if_splits)
    moreover have "settled (profile c1 r)" using m(2) p st False profile_simps(3)[of c1 r]
      by (auto simp: mapped_profile_def settled_def points_back_def simp del: profile_simps)
    moreover have "\<not> p_reg (profile c1 r)" using m(2) p(2) by (auto simp: mapped_profile_def simp del: profile_simps)
    ultimately show ?thesis using m(1) moves_inv[OF assms(2) m(1)] by blast
  next
    case True
    then obtain v where p1: "profile c1 r = (profile c r)\<lparr>p_sess := set_option v, p_lsess := {}, p_osd := v, p_queued := (v \<noteq> None), p_nt := (v = None)\<rparr>"
      using m(2) by (auto simp: mapped_profile_def)
    have v: "r_osd (req_of c1 r) = v" "v \<noteq> None" "r \<notin> set_tree (requests c1)"
      using arg_cong[OF p1, of p_osd] arg_cong[OF p1, of p_reg] True p(2) by simp_all
    obtain c2 where c2: "register_request env r c1 = Inr c2" and un: "unregister_linger_request env r c2 = Inr c'"
      using assms(4) mp True by (auto simp: kick_linger_def)
    have g1: "glob_inv c1" using m(1) by (simp add: moves_def)
    note rg = register_ok[OF assms(1) g1 v(3) c2]
    have p2: "p_ling (profile c2 r)" "p_sess (profile c2 r) = set_option v" "p_lsess (profile c2 r) = {}" "p_osd (profile c2 r) = v"
      unfolding rg(2) p1 using p(1) by simp_all
    then have "points_back (profile c2 r)" by (simp add: points_back_def del: profile_simps)
    moreover have "r_osd (req_of c2 r) = v" "r \<in> set (req_linger c2)" using p2 by simp_all
    moreover have "glob_inv c2" using rg(1) by (simp add: moves_def)
    ultimately have u: "moves r c2 c'" "profile c' r = (profile c2 r)\<lparr>p_ling := False, p_queued := False, p_nt := False, p_lsess := {}, p_osd := v\<rparr>"
      using unregister_linger_ok[of c2 r env] p2 v(2) un by (auto simp del: profile_simps)
    have mv: "moves r c c'" using m(1) rg(1) u(1) moves_trans by blast
    have "settled (profile c' r)" unfolding u(2) rg(2) p1 using p v(2) by (simp add: settled_def points_back_def del: profile_simps)
    moreover have "\<not> p_queued (profile c' r) \<and> \<not> p_nt (profile c' r)" unfolding u(2) by simp
    ultimately show ?thesis using moves_inv[OF assms(2) mv] mv by blast
  qed
  then show "osdc_inv c'" "moves r c c'" "r \<in> set_tree (requests c') \<Longrightarrow> \<not> p_queued (profile c' r) \<and> \<not> p_nt (profile c' r)"
    by simp_all
qed

text \<open>A loop whose body moves one request at a time reaches every request of the list as it was.\<close>

lemma moves_loop:
  assumes "osdc_inv c" and "distinct rs" and "\<forall>r\<in>set rs. K (profile c r)" and "foldE f rs (n, c) = Inr (n', c')"
    and "\<And>r n d n' d'. osdc_inv d \<Longrightarrow> K (profile d r) \<Longrightarrow> f r (n, d) = Inr (n', d') \<Longrightarrow> osdc_inv d' \<and> moves r d d'"
  shows "osdc_inv c'"
proof -
  let ?Q = "\<lambda>ts s. osdc_inv (snd s) \<and> distinct ts \<and> (\<forall>r\<in>set ts. K (profile (snd s) r))"
  have "?Q [] (n', c')"
  proof (rule foldE_rest[of ?Q])
    show "?Q rs (n, c)" using assms by simp
    show "foldE f rs (n, c) = Inr (n', c')" by (rule assms)
    fix r ts and s s' :: "'a \<times> ceph_osd_client" assume q: "?Q (r # ts) s" and k: "f r s = Inr s'"
    have ok: "osdc_inv (snd s')" "moves r (snd s) (snd s')" using assms(5)[of "snd s" r "fst s" "fst s'" "snd s'"] q k by auto
    have "profile (snd s') t = profile (snd s) t" if "t \<in> set ts" for t using ok(2) q that by (auto simp: moves_def)
    then show "?Q ts s'" using q ok(1) by auto
  qed
  then show ?thesis by simp
qed

lemma kick_requests_inv:
  assumes "env_ok env" and "osdc_inv c" and "kick_requests env f w c = Inr c'"
  shows "osdc_inv c'"
proof -
  obtain n c1 m c2 c3 where k1: "foldE (kick_request env f w) (inorder (requests c)) (0, c) = Inr (n, c1)"
    and k2: "foldE (kick_linger env (f \<or> w)) (req_linger c1) (n, c1) = Inr (m, c2)"
    and k3: "reset_changed_osds env c2 = Inr c3" and c': "c' = (if m \<noteq> 0 then act Request_next_osdmap c3 else c3)"
    using assms(3) unfolding kick_requests_def by (elim bindE_InrE) (auto simp only: prod.case elim!: bindE_InrE)
  have "distinct (inorder (requests c))" using inv_glob[OF assms(2)] ordered_distinct distinct_map by (metis glob_inv_def trees_inv_def)
  then have i1: "osdc_inv c1"
    using moves_loop[OF assms(2) _ _ k1, of p_reg] kick_request_inv[OF assms(1)] by simp
  have "distinct (req_linger c1)" using inv_glob[OF i1] by (simp add: glob_defs)
  then have i2: "osdc_inv c2"
    using moves_loop[OF i1 _ _ k2, of p_ling] kick_linger_inv[OF assms(1)] by simp
  then show ?thesis using reset_changed_osds_inv[OF assms(1) _ k3] c' by simp
qed

end
