(* ===== verification/Osd_Message.thy ===== *)
theory Osd_Message
  imports Osd_Request
begin

text \<open>
  What the message of an OSD request contains. \<open>request_image\<close> is the layout of the front as a
  concatenation of fields; \<open>ceph_osdc_build_request\<close> produces it, and the buffer that
  \<open>ceph_osdc_alloc_request\<close> allocates is large enough for it.
\<close>

section \<open>Writing into a zeroed buffer\<close>

text \<open>An encoder emits \<open>bs\<close> when it stores them at the position, where the buffer is still zero.\<close>

definition emits :: "encoder \<Rightarrow> u8 list \<Rightarrow> bool" where
  "emits e bs \<longleftrightarrow> (\<forall>img k. length bs \<le> k \<longrightarrow>
     e (img @ replicate k 0, int (length img)) =
       Inr ((img @ bs) @ replicate (k - length bs) 0, int (length (img @ bs))))"

named_theorems emits_intros \<open>what the encoders emit\<close>

lemma emits_put [emits_intros]: "emits (enc_put bs) bs"
  by (simp add: emits_def enc_put_def ceph_encode_copy_def put_at)

lemma emits_ints [emits_intros]:
  "emits (\<lambda>(buf, p). ceph_encode_8 buf p v8) (le_bytes 1 v8)"
  "emits (\<lambda>(buf, p). ceph_encode_16 buf p v16) (le_bytes 2 v16)"
  "emits (\<lambda>(buf, p). ceph_encode_32 buf p v32) (le_bytes 4 v32)"
  "emits (\<lambda>(buf, p). ceph_encode_64 buf p v64) (le_bytes 8 v64)"
  by (simp_all add: emits_def ceph_encode_8_def ceph_encode_16_def ceph_encode_32_def ceph_encode_64_def put_at
      del: le_bytes.simps)

lemma emits_skip [emits_intros]: "emits (enc_skip n) (replicate n 0)"
  by (auto simp: emits_def enc_skip_def replicate_add[symmetric])

lemma emits_all:
  assumes "list_all2 emits es bss"
  shows "emits (enc_all es) (concat bss)"
  unfolding emits_def
proof (intro allI impI)
  fix img :: "u8 list" and k
  assume "length (concat bss) \<le> k"
  with assms show "enc_all es (img @ replicate k 0, int (length img)) =
    Inr ((img @ concat bss) @ replicate (k - length (concat bss)) 0, int (length (img @ concat bss)))"
  proof (induction es bss arbitrary: img k rule: list_all2_induct)
    case Nil
    then show ?case by (simp add: enc_all_def)
  next
    case (Cons e es bs bss)
    from Cons.hyps(1) Cons.prems have
      "e (img @ replicate k 0, int (length img)) = Inr ((img @ bs) @ replicate (k - length bs) 0, int (length (img @ bs)))"
      unfolding emits_def by auto
    moreover have "enc_all es ((img @ bs) @ replicate (k - length bs) 0, int (length (img @ bs))) =
      Inr (((img @ bs) @ concat bss) @ replicate (k - length bs - length (concat bss)) 0,
        int (length ((img @ bs) @ concat bss)))"
      using Cons.prems by (intro Cons.IH) auto
    ultimately show ?case by (simp add: enc_all_def algebra_simps)
  qed
qed

section \<open>The image of an operation\<close>

definition union_image :: "ceph_osd_req_op \<Rightarrow> u8 list" where
  "union_image x =
    (if is_extent_opcode (op_code x) then
       (case op_u x of
          Op_extent off len ts sq d \<Rightarrow> le_bytes 8 off @ le_bytes 8 len @ le_bytes 8 ts @ le_bytes 4 sq
        | _ \<Rightarrow> replicate 28 0)
     else if op_code x = CEPH_OSD_OP_CALL then
       (case op_u x of
          Op_cls c m i q r cl ml \<Rightarrow> [cl, ml, 0] @ le_bytes 4 (ucast (ceph_osd_data_length q) :: u32) @ replicate 21 0
        | _ \<Rightarrow> replicate 28 0)
     else if op_code x = CEPH_OSD_OP_NOTIFY_ACK \<or> op_code x = CEPH_OSD_OP_WATCH then
       (case op_u x of Op_watch cookie ver flag \<Rightarrow> le_bytes 8 cookie @ le_bytes 8 ver @ [flag] @ replicate 11 0
        | _ \<Rightarrow> replicate 28 0)
     else if op_code x = CEPH_OSD_OP_SETALLOCHINT then
       (case op_u x of Op_alloc_hint os ws \<Rightarrow> le_bytes 8 os @ le_bytes 8 ws @ replicate 12 0 | _ \<Rightarrow> replicate 28 0)
     else replicate 28 0)"

text \<open>The payload of a class call grows by its input data when it is encoded.\<close>

definition sent_payload :: "ceph_osd_req_op \<Rightarrow> u32" where
  "sent_payload x =
    (if op_code x = CEPH_OSD_OP_CALL then
       op_payload_len x + (case op_u x of Op_cls c m i q r cl ml \<Rightarrow> ucast (ceph_osd_data_length q) | _ \<Rightarrow> 0)
     else op_payload_len x)"

definition op_image :: "ceph_osd_req_op \<Rightarrow> u8 list" where
  "op_image x = le_bytes 2 (op_code x) @ le_bytes 4 (op_flags x) @ union_image x @ le_bytes 4 (sent_payload x)"

text \<open>How many bytes of data an operation adds to the request.\<close>

definition op_data_len :: "ceph_osd_req_op \<Rightarrow> u64" where
  "op_data_len x =
    (case op_u x of
       Op_extent off len ts sq d \<Rightarrow> (if op_code x = CEPH_OSD_OP_WRITE then len else 0)
     | Op_cls c m i q r cl ml \<Rightarrow> (if op_code x = CEPH_OSD_OP_CALL then ceph_osd_data_length i + ceph_osd_data_length q else 0)
     | _ \<Rightarrow> 0)"

text \<open>Data that can be attached to a message, and operations that can be sent.\<close>

definition data_ready :: "ceph_osd_data \<Rightarrow> bool" where
  "data_ready d =
    (case d of
       Osd_data_none \<Rightarrow> True
     | Osd_data_pages pages len alignment from_pool own \<Rightarrow> len = 0 \<or> pages \<noteq> None
     | Osd_data_pagelist pl \<Rightarrow> (word_of_nat (pl_length pl) :: u64) \<noteq> 0
     | Osd_data_bio bio len \<Rightarrow> bio \<noteq> [])"

definition op_ready :: "ceph_osd_req_op \<Rightarrow> bool" where
  "op_ready x \<longleftrightarrow> osd_req_opcode_valid (op_code x) \<and>
    (case op_u x of
       Op_zero \<Rightarrow> op_code x = CEPH_OSD_OP_STARTSYNC \<or> op_code x = CEPH_OSD_OP_STAT
     | Op_raw d \<Rightarrow> op_code x = CEPH_OSD_OP_STAT \<and> data_ready d
     | Op_extent off len ts sq d \<Rightarrow> is_extent_opcode (op_code x) \<and> data_ready d
     | Op_cls c m i q r cl ml \<Rightarrow> op_code x = CEPH_OSD_OP_CALL \<and> (\<exists>pl. i = Osd_data_pagelist pl) \<and> data_ready i \<and>
         data_ready q \<and> data_ready r
     | Op_watch cookie ver flag \<Rightarrow> op_code x = CEPH_OSD_OP_NOTIFY_ACK \<or> op_code x = CEPH_OSD_OP_WATCH
     | Op_alloc_hint os ws \<Rightarrow> op_code x = CEPH_OSD_OP_SETALLOCHINT)"

lemma length_union_image [simp]: "length (union_image x) = 28"
  by (simp add: union_image_def split: op_union.split)

lemma length_op_image [simp]: "length (op_image x) = OSD_OP_SIZE"
  by (simp add: op_image_def OSD_OP_SIZE_def)

lemma data_add_ready:
  assumes "data_ready d"
  shows "\<exists>dl n. ceph_osdc_msg_data_add d m = Inr (m\<lparr>m_data := m_data m @ dl, m_data_length := n\<rparr>)"
proof (cases d)
  case Osd_data_none
  then show ?thesis by (auto simp: ceph_osdc_msg_data_add_def intro!: exI[of _ "[]"] exI[of _ "m_data_length m"])
next
  case (Osd_data_pages pages len al fp own)
  show ?thesis
  proof (cases "len = 0")
    case True
    with Osd_data_pages show ?thesis
      by (auto simp: ceph_osdc_msg_data_add_def intro!: exI[of _ "[]"] exI[of _ "m_data_length m"])
  next
    case False
    with Osd_data_pages assms obtain ps where "pages = Some ps" by (auto simp: data_ready_def)
    with False Osd_data_pages show ?thesis
      by (auto simp: ceph_osdc_msg_data_add_def ceph_msg_data_add_pages_def unat_eq_zero)
  qed
next
  case (Osd_data_pagelist pl)
  moreover from this assms have "pl_length pl \<noteq> 0" by (cases "pl_length pl = 0") (auto simp: data_ready_def)
  ultimately show ?thesis using assms
    by (auto simp: ceph_osdc_msg_data_add_def ceph_msg_data_add_pagelist_def data_ready_def)
next
  case (Osd_data_bio b len)
  with assms show ?thesis by (auto simp: ceph_osdc_msg_data_add_def ceph_msg_data_add_bio_def data_ready_def)
qed

text \<open>What encoding the operations leaves as it is: all but the payload data and the payload lengths.\<close>

definition only_data_changed :: "ceph_osd_request \<Rightarrow> ceph_osd_request \<Rightarrow> bool" where
  "only_data_changed req req' \<longleftrightarrow>
    (\<exists>dl n dl' n' os. req' = req\<lparr>r_request := (r_request req)\<lparr>m_data := dl, m_data_length := n\<rparr>,
        r_reply := (r_reply req)\<lparr>m_data := dl', m_data_length := n'\<rparr>, r_ops := os\<rparr> \<and> length os = length (r_ops req))"

lemma only_data_refl: "only_data_changed req req"
  unfolding only_data_changed_def
  by (rule exI[of _ "m_data (r_request req)"], rule exI[of _ "m_data_length (r_request req)"],
      rule exI[of _ "m_data (r_reply req)"], rule exI[of _ "m_data_length (r_reply req)"],
      rule exI[of _ "r_ops req"]) simp

lemma only_data_trans: "only_data_changed a b \<Longrightarrow> only_data_changed b c \<Longrightarrow> only_data_changed a c"
  unfolding only_data_changed_def by (elim exE conjE) (simp, metis)

lemma only_data_fields:
  assumes "only_data_changed req req'"
  shows "r_num_ops req' = r_num_ops req" "length (r_ops req') = length (r_ops req)" "r_flags req' = r_flags req"
    "r_request_osdmap_epoch req' = r_request_osdmap_epoch req" "r_request_flags req' = r_request_flags req"
    "m_front (r_request req') = m_front (r_request req)" "hdr_version (r_request req') = hdr_version (r_request req)"
  using assms by (auto simp: only_data_changed_def)

lemma add_data_ready:
  assumes "data_ready d"
  shows "\<exists>req'. add_request_data d req = Inr req' \<and> only_data_changed req req' \<and> r_ops req' = r_ops req"
    and "\<exists>req'. add_reply_data d req = Inr req' \<and> only_data_changed req req' \<and> r_ops req' = r_ops req"
proof -
  obtain dl n where 1: "ceph_osdc_msg_data_add d (r_request req) =
      Inr ((r_request req)\<lparr>m_data := m_data (r_request req) @ dl, m_data_length := n\<rparr>)"
    using data_add_ready[OF assms] by blast
  obtain dl' n' where 2: "ceph_osdc_msg_data_add d (r_reply req) =
      Inr ((r_reply req)\<lparr>m_data := m_data (r_reply req) @ dl', m_data_length := n'\<rparr>)"
    using data_add_ready[OF assms] by blast
  have "only_data_changed req (req\<lparr>r_request := (r_request req)\<lparr>m_data := m_data (r_request req) @ dl, m_data_length := n\<rparr>\<rparr>)"
    unfolding only_data_changed_def
    by (rule exI[of _ "m_data (r_request req) @ dl"], rule exI[of _ n],
      rule exI[of _ "m_data (r_reply req)"], rule exI[of _ "m_data_length (r_reply req)"], rule exI[of _ "r_ops req"]) simp
  with 1 show "\<exists>req'. add_request_data d req = Inr req' \<and> only_data_changed req req' \<and> r_ops req' = r_ops req"
    by (simp add: add_request_data_def)
  have "only_data_changed req (req\<lparr>r_reply := (r_reply req)\<lparr>m_data := m_data (r_reply req) @ dl', m_data_length := n'\<rparr>\<rparr>)"
    unfolding only_data_changed_def
    by (rule exI[of _ "m_data (r_request req)"], rule exI[of _ "m_data_length (r_request req)"],
      rule exI[of _ "m_data (r_reply req) @ dl'"], rule exI[of _ n'], rule exI[of _ "r_ops req"]) simp
  with 2 show "\<exists>req'. add_reply_data d req = Inr req' \<and> only_data_changed req req' \<and> r_ops req' = r_ops req"
    by (simp add: add_reply_data_def)
qed

text \<open>Storing a field into a block that starts at the position.\<close>

lemma put_in_block:
  assumes "off + length bs \<le> length blk"
  shows "put_bytes (img @ blk @ rest) (int (length img) + int off) bs =
    Inr (img @ (take off blk @ bs @ drop (off + length bs) blk) @ rest)"
  using assms by (simp add: put_bytes_def nat_add_distrib)

lemma put_fields_simps:
  "put_fields p [] buf = Inr buf"
  "put_fields p ((off, bs) # fs) buf = bindE (put_bytes buf (p + int off) bs) (put_fields p fs)"
  by (simp_all add: put_fields_def [abs_def])

lemma put_in_block0:
  "length bs \<le> length blk \<Longrightarrow> put_bytes (img @ blk @ rest) (int (length img)) bs = Inr (img @ (bs @ drop (length bs) blk) @ rest)"
  using put_in_block[of 0 bs blk img rest] by simp

lemmas put_steps = put_fields_simps put_in_block put_in_block0 replicate_append_same

text \<open>The fields of an operation fill its zeroed block with its image.\<close>

lemma encode_union_image:
  assumes "op_ready x"
  shows "\<exists>fs req'. encode_union x req = Inr (Some (fs, op_data_len x, sent_payload x, req')) \<and>
    only_data_changed req req' \<and> r_ops req' = r_ops req \<and>
    put_fields (int (length img)) (fs @ [(0, le_bytes 2 (op_code x)), (2, le_bytes 4 (op_flags x)), (34, le_bytes 4 (sent_payload x))])
      (img @ replicate 38 0 @ rest) = Inr (img @ op_image x @ rest)"
proof (cases "op_u x")
  case Op_zero
  with assms show ?thesis
    by (auto simp: op_ready_def encode_union_def op_data_len_def sent_payload_def op_image_def union_image_def opcode_defs
        is_extent_opcode_def only_data_refl put_steps simp del: append_assoc of_nat_numeral)
next
  case (Op_raw d)
  with assms have d: "data_ready d" and c: "op_code x = CEPH_OSD_OP_STAT" by (auto simp: op_ready_def)
  from add_data_ready(2)[OF d, of req] obtain req' where "add_reply_data d req = Inr req'" "only_data_changed req req'" "r_ops req' = r_ops req"
    by blast
  with Op_raw c show ?thesis
    by (auto simp: encode_union_def op_data_len_def sent_payload_def op_image_def union_image_def opcode_defs
        is_extent_opcode_def put_steps simp del: append_assoc of_nat_numeral)
next
  case (Op_extent off len ts sq d)
  with assms have d: "data_ready d" and c: "is_extent_opcode (op_code x)" by (auto simp: op_ready_def)
  have c': "op_code x \<noteq> CEPH_OSD_OP_STAT" "op_code x \<noteq> CEPH_OSD_OP_CALL" using c by (auto simp: is_extent_opcode_def opcode_defs)
  from add_data_ready[OF d, of req] obtain req' where
    "(if op_code x = CEPH_OSD_OP_WRITE then add_request_data else add_reply_data) d req = Inr req'"
    "only_data_changed req req'" "r_ops req' = r_ops req" by (cases "op_code x = CEPH_OSD_OP_WRITE") auto
  with Op_extent c c' show ?thesis
    by (auto simp: encode_union_def encode_extent_def extent_of_def op_data_len_def sent_payload_def op_image_def union_image_def
        put_steps simp del: append_assoc of_nat_numeral)
next
  case (Op_cls c m i q r cl ml)
  with assms obtain pl where d: "data_ready i" "data_ready q" "data_ready r" and c: "op_code x = CEPH_OSD_OP_CALL"
    and i: "i = Osd_data_pagelist pl" by (auto simp: op_ready_def)
  from add_data_ready(1)[OF d(1), of req] obtain r1 where 1: "add_request_data i req = Inr r1" "only_data_changed req r1" "r_ops r1 = r_ops req"
    by blast
  from add_data_ready(1)[OF d(2), of r1] obtain r2 where 2:
    "(if ceph_osd_data_length q = 0 then Inr r1 else add_request_data q r1) = Inr r2" "only_data_changed r1 r2" "r_ops r2 = r_ops r1"
    by (cases "ceph_osd_data_length q = 0") (auto simp: only_data_refl)
  from add_data_ready(2)[OF d(3), of r2] obtain r3 where 3: "add_reply_data r r2 = Inr r3" "only_data_changed r2 r3" "r_ops r3 = r_ops r2"
    by blast
  have ch: "only_data_changed req r3" "r_ops r3 = r_ops req" using 1 2 3 only_data_trans by (metis, simp)
  have nc: "\<not> is_extent_opcode CEPH_OSD_OP_CALL" "CEPH_OSD_OP_CALL \<noteq> CEPH_OSD_OP_STAT" by (auto simp: is_extent_opcode_def opcode_defs)
  show ?thesis
  proof (cases "ceph_osd_data_length q = 0")
    case True
    have z: "le_bytes 4 (0 :: u32) = replicate 4 0" by (simp add: numeral_eq_Suc)
    show ?thesis using Op_cls c i 1 2 3 ch nc True z
      by (auto simp: encode_union_def encode_cls_def op_data_len_def sent_payload_def op_image_def union_image_def
          put_steps simp del: append_assoc of_nat_numeral) (simp add: numeral_eq_Suc)
  next
    case False
    then show ?thesis using Op_cls c i 1 2 3 ch nc
      by (auto simp: Let_def encode_union_def encode_cls_def op_data_len_def sent_payload_def op_image_def union_image_def
          put_steps simp del: append_assoc of_nat_numeral)
  qed
next
  case (Op_watch ck v f)
  with assms show ?thesis
    by (auto simp: op_ready_def encode_union_def op_data_len_def sent_payload_def op_image_def union_image_def opcode_defs
        is_extent_opcode_def only_data_refl put_steps simp del: append_assoc of_nat_numeral)
next
  case (Op_alloc_hint os ws)
  with assms show ?thesis
    by (auto simp: op_ready_def encode_union_def op_data_len_def sent_payload_def op_image_def union_image_def opcode_defs
        is_extent_opcode_def only_data_refl put_steps simp del: append_assoc of_nat_numeral)
qed

lemma encode_op_image:
  assumes "op_ready (r_ops req ! i)" and "i < r_num_ops req" and "i < length (r_ops req)"
  shows "\<exists>req'. osd_req_encode_op req (img @ replicate OSD_OP_SIZE 0 @ rest) (int (length img)) i =
      Inr (op_data_len (r_ops req ! i), req', img @ op_image (r_ops req ! i) @ rest) \<and>
    only_data_changed req req' \<and> (\<forall>j. j \<noteq> i \<longrightarrow> r_ops req' ! j = r_ops req ! j)"
proof -
  let ?x = "r_ops req ! i"
  obtain fs r' where u: "encode_union ?x req = Inr (Some (fs, op_data_len ?x, sent_payload ?x, r'))"
    "only_data_changed req r'" "r_ops r' = r_ops req"
    "put_fields (int (length img)) (fs @ [(0, le_bytes 2 (op_code ?x)), (2, le_bytes 4 (op_flags ?x)), (34, le_bytes 4 (sent_payload ?x))])
      (img @ replicate 38 0 @ rest) = Inr (img @ op_image ?x @ rest)"
    using encode_union_image[OF assms(1), of req img rest] by blast
  have "only_data_changed r' (set_op r' i (?x\<lparr>op_payload_len := sent_payload ?x\<rparr>))"
    unfolding only_data_changed_def set_op_def
    by (rule exI[of _ "m_data (r_request r')"], rule exI[of _ "m_data_length (r_request r')"],
      rule exI[of _ "m_data (r_reply r')"], rule exI[of _ "m_data_length (r_reply r')"],
      rule exI[of _ "(r_ops r')[i := ?x\<lparr>op_payload_len := sent_payload ?x\<rparr>]"]) simp
  with u(2) have "only_data_changed req (set_op r' i (?x\<lparr>op_payload_len := sent_payload ?x\<rparr>))" by (rule only_data_trans)
  with u assms show ?thesis
    by (auto simp: osd_req_encode_op_def get_op_def op_ready_def OSD_OP_SIZE_def set_op_def)
qed

lemma ops_loop_image:
  assumes "\<forall>i\<in>set is. op_ready (r_ops req ! i) \<and> i < r_num_ops req \<and> i < length (r_ops req)" and "distinct is"
    and "OSD_OP_SIZE * length is \<le> k"
  shows "\<exists>req'. ops_loop is req dl (img @ replicate k 0, int (length img)) =
      Inr (req', dl + sum_list (map (\<lambda>i. op_data_len (r_ops req ! i)) is),
        (img @ concat (map (\<lambda>i. op_image (r_ops req ! i)) is)) @ replicate (k - OSD_OP_SIZE * length is) 0,
        int (length img + OSD_OP_SIZE * length is)) \<and> only_data_changed req req'"
  using assms
proof (induction "is" arbitrary: req dl img k)
  case Nil
  then show ?case by (simp add: only_data_refl)
next
  case (Cons i "is")
  have k: "replicate k 0 = replicate OSD_OP_SIZE 0 @ replicate (k - OSD_OP_SIZE) (0 :: u8)"
    using Cons.prems(3) by (simp add: replicate_add[symmetric])
  obtain r1 where e: "osd_req_encode_op req (img @ replicate k 0) (int (length img)) i =
      Inr (op_data_len (r_ops req ! i), r1, img @ op_image (r_ops req ! i) @ replicate (k - OSD_OP_SIZE) 0)"
    and ch: "only_data_changed req r1" and same: "\<forall>j. j \<noteq> i \<longrightarrow> r_ops r1 ! j = r_ops req ! j"
    using encode_op_image[of req i img "replicate (k - OSD_OP_SIZE) 0"] Cons.prems(1) unfolding k by auto
  have room: "OSD_OP_SIZE * length is \<le> k - OSD_OP_SIZE" using Cons.prems(3) by simp
  have ne: "\<forall>j\<in>set is. r_ops r1 ! j = r_ops req ! j" using same Cons.prems(2) by auto
  obtain r2 where l: "ops_loop is r1 (dl + op_data_len (r_ops req ! i))
      ((img @ op_image (r_ops req ! i)) @ replicate (k - OSD_OP_SIZE) 0, int (length (img @ op_image (r_ops req ! i)))) =
      Inr (r2, (dl + op_data_len (r_ops req ! i)) + sum_list (map (\<lambda>i. op_data_len (r_ops r1 ! i)) is),
        ((img @ op_image (r_ops req ! i)) @ concat (map (\<lambda>i. op_image (r_ops r1 ! i)) is)) @
        replicate (k - OSD_OP_SIZE - OSD_OP_SIZE * length is) 0,
        int (length (img @ op_image (r_ops req ! i)) + OSD_OP_SIZE * length is))" and ch2: "only_data_changed r1 r2"
    using Cons.IH[of r1 "k - OSD_OP_SIZE" "dl + op_data_len (r_ops req ! i)" "img @ op_image (r_ops req ! i)"]
      Cons.prems room ne only_data_fields(1,2)[OF ch] by auto
  have m: "map (\<lambda>i. op_data_len (r_ops r1 ! i)) is = map (\<lambda>i. op_data_len (r_ops req ! i)) is"
    "map (\<lambda>i. op_image (r_ops r1 ! i)) is = map (\<lambda>i. op_image (r_ops req ! i)) is" using ne by simp_all
  show ?case using e l only_data_trans[OF ch ch2] by (simp add: m algebra_simps)
qed

section \<open>The image of a request\<close>

definition mtime_image :: "u32 \<Rightarrow> (int \<times> int) option \<Rightarrow> u8 list" where
  "mtime_image fl mtime =
    (if fl AND CEPH_OSD_FLAG_WRITE \<noteq> 0 then
       (case mtime of None \<Rightarrow> [] | Some ts \<Rightarrow> le_bytes 4 (word_of_int (fst ts) :: u32) @ le_bytes 4 (word_of_int (snd ts) :: u32))
     else replicate 8 0)"

definition snaps_image :: "ceph_snap_context option \<Rightarrow> u8 list" where
  "snaps_image snapc =
    (case snapc of
       None \<Rightarrow> le_bytes 8 (0 :: u64) @ le_bytes 4 (0 :: u32)
     | Some sc \<Rightarrow> le_bytes 8 (sc_seq sc) @ le_bytes 4 (word_of_nat (length (sc_snaps sc)) :: u32) @
         concat (map (le_bytes 8) (sc_snaps sc)))"

text \<open>
  The head: client incarnation, map epoch, flags, time stamp, version to reassert; the object locator with
  its version, length, pool, preferred OSD and key length; the placement group with its version, pool,
  seed and preferred OSD; the object name; the number of operations. Zero bytes stand for what
  is filled in when the request is sent.
\<close>

definition head_image :: "ceph_osd_request \<Rightarrow> (int \<times> int) option \<Rightarrow> u8 list" where
  "head_image req mtime =
    concat [le_bytes 4 (1 :: u32), replicate 4 0, replicate 4 0, mtime_image (r_flags req) mtime, replicate 12 0,
      le_bytes 1 (4 :: u8), le_bytes 1 (4 :: u8), le_bytes 4 (8 + 4 + 4 :: u32), replicate 8 0, le_bytes 4 (-1 :: u32), le_bytes 4 (0 :: u32),
      le_bytes 1 (1 :: u8), replicate (8 + 4) 0, le_bytes 4 (-1 :: u32),
      le_bytes 4 (word_of_nat (oid_name_len (r_base_oid req)) :: u32),
      take (oid_name_len (r_base_oid req)) (oid_name (r_base_oid req)),
      le_bytes 2 (word_of_nat (r_num_ops req) :: u16)]"

definition request_image :: "ceph_osd_request \<Rightarrow> ceph_snap_context option \<Rightarrow> u64 \<Rightarrow> (int \<times> int) option \<Rightarrow> u8 list" where
  "request_image req snapc snap_id mtime =
    head_image req mtime @ concat (map op_image (take (r_num_ops req) (r_ops req))) @
    le_bytes 8 snap_id @ snaps_image snapc @ replicate 4 0"

lemma emits_mtime [emits_intros]:
  assumes "fl AND CEPH_OSD_FLAG_WRITE \<noteq> 0 \<Longrightarrow> mtime \<noteq> None"
  shows "emits (encode_mtime fl mtime) (mtime_image fl mtime)"
  using assms
  by (auto simp: emits_def encode_mtime_def mtime_image_def ceph_encode_timespec_def put_at replicate_add[symmetric])

lemma emits_image: "emits e bs \<Longrightarrow> length bs \<le> k \<Longrightarrow>
  e (img @ replicate k 0, int (length img)) = Inr ((img @ bs) @ replicate (k - length bs) 0, int (length (img @ bs)))"
  by (simp add: emits_def)

lemma emits_head:
  assumes "r_flags req AND CEPH_OSD_FLAG_WRITE \<noteq> 0 \<Longrightarrow> mtime \<noteq> None"
  shows "emits (enc_all (request_head req mtime)) (head_image req mtime)"
  unfolding request_head_def head_image_def
  by (rule emits_all) (simp add: emits_intros assms del: le_bytes.simps One_nat_def)

lemma emits_snaps:
  "emits (enc_all (request_snaps snap_id snapc)) (le_bytes 8 snap_id @ snaps_image snapc)"
proof (cases snapc)
  case None
  have "list_all2 emits (request_snaps snap_id snapc) [le_bytes 8 snap_id, le_bytes 8 (0 :: u64), le_bytes 4 (0 :: u32)]"
    using None by (simp add: request_snaps_def emits_intros)
  from emits_all[OF this] None show ?thesis by (simp add: snaps_image_def)
next
  case (Some sc)
  have "list_all2 emits (request_snaps snap_id snapc)
    ([le_bytes 8 snap_id, le_bytes 8 (sc_seq sc), le_bytes 4 (word_of_nat (length (sc_snaps sc)) :: u32)] @ map (le_bytes 8) (sc_snaps sc))"
    using Some by (simp add: request_snaps_def emits_intros list_all2_map1 list_all2_map2 list_all2_refl)
  from emits_all[OF this] Some show ?thesis by (simp add: snaps_image_def)
qed

lemma take_ops: "n \<le> length xs \<Longrightarrow> take n xs = map ((!) xs) [0..<n]"
  by (rule nth_equalityI) auto

lemma take_pad: "4 \<le> k \<Longrightarrow> take (nat (int (length m) + 4)) (m @ replicate k 0) = m @ replicate 4 (0 :: u8)"
  and drop_pad: "drop (nat (int (length m) + 4)) (m @ replicate k 0) = replicate (k - 4) (0 :: u8)"
  and room_pad: "4 \<le> k \<Longrightarrow> int (length m) + 4 \<le> int (length (m @ replicate k (0 :: u8)))"
  by (simp_all add: nat_add_distrib min_def)

lemma build_request_ok:
  assumes front: "m_front (r_request req) = replicate k 0" and ops: "r_num_ops req \<le> length (r_ops req)"
    and ready: "\<forall>x\<in>set (take (r_num_ops req) (r_ops req)). op_ready x"
    and mt: "r_flags req AND CEPH_OSD_FLAG_WRITE \<noteq> 0 \<Longrightarrow> mtime \<noteq> None"
    and fits: "length (request_image req snapc snap_id mtime) \<le> k"
  shows "\<exists>req'. ceph_osdc_build_request req off snapc snap_id mtime = Inr req' \<and>
    m_front (r_request req') = request_image req snapc snap_id mtime \<and>
    r_front_spare req' = replicate (k - length (request_image req snapc snap_id mtime)) 0 \<and>
    hdr_front_len (r_request req') = word_of_nat (length (request_image req snapc snap_id mtime)) \<and>
    hdr_data_len (r_request req') = ucast (sum_list (map op_data_len (take (r_num_ops req) (r_ops req)))) \<and>
    r_request_attempts req' + 4 = int (length (request_image req snapc snap_id mtime))"
proof -
  define r0 where "r0 = req\<lparr>r_snapid := snap_id, r_snapc := snapc, r_request := (r_request req)\<lparr>hdr_version := 4\<rparr>,
           r_request_osdmap_epoch := 4, r_request_flags := 8, r_request_reassert_version := 20,
           r_request_pool := 38, r_request_pgid := 55\<rparr>"
  let ?n = "r_num_ops req" and ?ops = "concat (map (\<lambda>i. op_image (r_ops r0 ! i)) [0..<r_num_ops req])"
  let ?h = "head_image r0 mtime" and ?s = "le_bytes 8 snap_id @ snaps_image snapc"
  have r0: "r_num_ops r0 = ?n" "r_ops r0 = r_ops req" "r_flags r0 = r_flags req" "m_front (r_request r0) = replicate k 0"
    using front by (simp_all add: r0_def)
  have h: "?h = head_image req mtime" by (simp add: head_image_def r0_def)
  have o: "?ops = concat (map op_image (take ?n (r_ops req)))" "length ?ops = OSD_OP_SIZE * ?n"
    using ops by (simp_all add: take_ops r0 comp_def length_concat sum_list_triv)
  have img: "request_image req snapc snap_id mtime = ((?h @ ?ops) @ ?s) @ replicate 4 0"
    by (simp add: request_image_def h o)
  have len: "length ?h + (OSD_OP_SIZE * ?n + (length ?s + 4)) \<le> k" using fits unfolding img by (simp add: o(2) del: length_concat)
  have 1: "enc_all (request_head r0 mtime) (replicate k 0, 0) = Inr (?h @ replicate (k - length ?h) 0, int (length ?h))"
    using emits_image[OF emits_head[of r0 mtime], of k "[]"] mt len r0(3) by simp
  obtain r1 where 2: "ops_loop [0..<?n] r0 0 (?h @ replicate (k - length ?h) 0, int (length ?h)) =
      Inr (r1, sum_list (map (\<lambda>i. op_data_len (r_ops r0 ! i)) [0..<?n]),
        (?h @ ?ops) @ replicate (k - length ?h - OSD_OP_SIZE * ?n) 0, int (length ?h + OSD_OP_SIZE * ?n))"
    and ch: "only_data_changed r0 r1"
    using ops_loop_image[of "[0..<?n]" r0 "k - length ?h" 0 ?h] ops ready len r0 by (fastforce simp: take_ops)
  have 3: "enc_all (request_snaps snap_id snapc) ((?h @ ?ops) @ replicate (k - length ?h - OSD_OP_SIZE * ?n) 0, int (length ?h + OSD_OP_SIZE * ?n)) =
      Inr (((?h @ ?ops) @ ?s) @ replicate (k - length ?h - OSD_OP_SIZE * ?n - length ?s) 0, int (length ((?h @ ?ops) @ ?s)))"
    using emits_image[OF emits_snaps[of snap_id snapc], of "k - length ?h - OSD_OP_SIZE * ?n" "?h @ ?ops"] len o(2)
    by (simp del: length_concat)
  define m where "m = (?h @ ?ops) @ ?s"
  define kk where "kk = k - length ?h - OSD_OP_SIZE * ?n - length ?s"
  have lm: "length m = length ?h + OSD_OP_SIZE * ?n + length ?s" using o(2) by (simp add: m_def del: length_concat)
  have k4: "4 \<le> kk" and km: "k - length (m @ replicate 4 (0 :: u8)) = kk - 4" using len lm by (simp_all add: kk_def)
  have dl: "map (\<lambda>i. op_data_len (r_ops r0 ! i)) [0..<?n] = map op_data_len (take ?n (r_ops req))"
    using ops by (simp add: take_ops r0)
  have img': "request_image req snapc snap_id mtime = m @ replicate 4 0" by (simp add: img m_def)
  show ?thesis
    unfolding ceph_osdc_build_request_def Let_def r0_def[symmetric] r0(4) 1 bindE_simps r0(1) 2 split_conv
      3[folded m_def kk_def] img'
    using room_pad[OF k4, of m] take_pad[OF k4, of m] drop_pad[of m kk] km
    by (simp add: dl nat_add_distrib)
qed

section \<open>Allocated requests\<close>

text \<open>The allocator gives as much memory as it is asked for.\<close>

definition exact_fronts :: "osd_alloc \<Rightarrow> bool" where
  "exact_fronts oa \<longleftrightarrow> (\<forall>k mem. oa_front oa k = Some mem \<longrightarrow> length mem = k)"

lemma alloc_request_fresh:
  assumes "ceph_osdc_alloc_request oa snapc n False = Inr (Some req)" and "exact_fronts oa"
  shows "m_front (r_request req) = replicate (osd_request_size snapc n) 0" "r_num_ops req = n" "n \<le> CEPH_OSD_MAX_OP"
    "r_ops req = replicate CEPH_OSD_MAX_OP zero_op" "r_base_oid req = zero_oid"
    "r_flags req = 0"
  using assms
  by (auto simp: ceph_osdc_alloc_request_def ceph_msg_new_def exact_fronts_def Let_def split: if_splits option.splits)

lemma length_mtime_image: "(fl AND CEPH_OSD_FLAG_WRITE \<noteq> 0 \<Longrightarrow> mtime \<noteq> None) \<Longrightarrow> length (mtime_image fl mtime) = 8"
  by (auto simp: mtime_image_def)

lemma length_snaps_image: "length (snaps_image snapc) = 12 + 8 * (case snapc of None \<Rightarrow> 0 | Some sc \<Rightarrow> length (sc_snaps sc))"
  by (auto simp: snaps_image_def length_concat comp_def sum_list_triv split: option.split)

lemma request_image_fits:
  assumes "r_num_ops req \<le> length (r_ops req)" and "oid_name_len (r_base_oid req) \<le> CEPH_MAX_OID_NAME_LEN"
    and "r_flags req AND CEPH_OSD_FLAG_WRITE \<noteq> 0 \<Longrightarrow> mtime \<noteq> None"
  shows "length (request_image req snapc snap_id mtime) \<le> osd_request_size snapc (r_num_ops req)"
proof -
  have "length (concat (map op_image (take (r_num_ops req) (r_ops req)))) = OSD_OP_SIZE * r_num_ops req"
    using assms(1) by (simp add: length_concat comp_def sum_list_triv)
  with assms(2,3) show ?thesis
    by (simp add: request_image_def head_image_def length_mtime_image length_snaps_image osd_request_size_def del: length_concat)
qed


definition example_osd_alloc :: osd_alloc where
  "example_osd_alloc = \<lparr>oa_req = True, oa_front = (\<lambda>k. Some (replicate k 0)),
     oa_cursor = example_cursor\<rparr>"

lemma opcodes_valid:
  "osd_req_opcode_valid CEPH_OSD_OP_READ" "osd_req_opcode_valid CEPH_OSD_OP_STAT" "osd_req_opcode_valid CEPH_OSD_OP_NOTIFY_ACK"
  "osd_req_opcode_valid CEPH_OSD_OP_WRITE" "osd_req_opcode_valid CEPH_OSD_OP_TRUNCATE" "osd_req_opcode_valid CEPH_OSD_OP_ZERO"
  "osd_req_opcode_valid CEPH_OSD_OP_DELETE" "osd_req_opcode_valid CEPH_OSD_OP_STARTSYNC" "osd_req_opcode_valid CEPH_OSD_OP_WATCH"
  "osd_req_opcode_valid CEPH_OSD_OP_SETALLOCHINT" "osd_req_opcode_valid CEPH_OSD_OP_CALL" "\<not> osd_req_opcode_valid 0"
  by code_simp+

definition example_request :: ceph_osd_request where
  "example_request = (case ceph_osdc_alloc_request example_osd_alloc None 1 False of Inr (Some req) \<Rightarrow> req)"

lemma example_request_alloc: "ceph_osdc_alloc_request example_osd_alloc None 1 False = Inr (Some example_request)"
  by (simp add: example_request_def ceph_osdc_alloc_request_def example_osd_alloc_def CEPH_OSD_MAX_OP_def ceph_msg_new_def Let_def)

lemma example_exact: "exact_fronts example_osd_alloc"
  by (simp add: exact_fronts_def example_osd_alloc_def)


text \<open>
  The buffers of the message pool have a fixed size: a snapshot context with more snapshots than
  fit is written past the end of the buffer, before the check at the end of the function.
\<close>

lemma snaps_overflow:
  "k < 8 * length ss \<Longrightarrow> enc_all (map (\<lambda>s (buf, p). ceph_encode_64 buf p s) ss) (img @ replicate k 0, int (length img)) = Inl (Fault OutOfBounds)"
proof (induction ss arbitrary: img k)
  case (Cons s ss)
  show ?case
  proof (cases "k < 8")
    case True
    then show ?thesis by (simp add: enc_all_def ceph_encode_64_def put_bytes_def del: le_bytes.simps)
  next
    case False
    then have "ceph_encode_64 (img @ replicate k 0) (int (length img)) s = Inr ((img @ le_bytes 8 s) @ replicate (k - 8) 0, int (length (img @ le_bytes 8 s)))"
      using emits_image[OF emits_ints(4)[of s], of k img] by (simp del: le_bytes.simps)
    with Cons.IH[of "k - 8" "img @ le_bytes 8 s"] Cons.prems False show ?thesis by (simp add: enc_all_def)
  qed
qed simp

section \<open>Object names\<close>

definition unhex_digit :: "u8 \<Rightarrow> nat" where
  "unhex_digit c = (if unat c < 58 then unat c - 48 else unat c - 87)"

definition unhex :: "u8 list \<Rightarrow> nat" where
  "unhex s = foldl (\<lambda>n c. n * 16 + unhex_digit c) 0 s"

lemma unat_hex_digit: "d < 16 \<Longrightarrow> unat (hex_digit d) = (if d < 10 then 48 + d else 87 + d)"
  by (simp add: hex_digit_def unat_of_nat)

lemma hex_digit_ok: "d < 16 \<Longrightarrow> unhex_digit (hex_digit d) = d" "d < 16 \<Longrightarrow> hex_digit d \<noteq> 46"
  using unat_hex_digit[of d] by (auto simp: unhex_digit_def split: if_splits)

lemma unhex_hex: "unhex (hex n) = n"
proof (induction n rule: hex.induct)
  case (1 n)
  then show ?case by (cases "n < 16") (simp_all add: hex.simps[of n] unhex_def hex_digit_ok)
qed

lemma unhex_pad: "unhex (replicate k 48 @ s) = unhex s"
  by (induction k) (simp_all add: unhex_def unhex_digit_def)

lemma hex_no_dot: "46 \<notin> set (hex n)"
proof (induction n rule: hex.induct)
  case (1 n)
  then show ?case using hex_digit_ok(2)[of n] hex_digit_ok(2)[of "n mod 16"]
    by (cases "n < 16") (auto simp: hex.simps[of n])
qed

lemma length_hex: "n < 16 ^ Suc k \<Longrightarrow> length (hex n) \<le> Suc k"
proof (induction k arbitrary: n)
  case (Suc k)
  then have "n div 16 < 16 ^ Suc k" by (simp add: less_mult_imp_div_less)
  with Suc.IH show ?case by (cases "n < 16") (auto simp: hex.simps[of n])
qed (simp add: hex.simps)

lemma length_object_name: "length (object_name ino objnum) \<le> 33"
proof -
  have "length (hex (unat (w :: u64))) \<le> 16" for w using length_hex[of "unat w" 15] unsigned_less[of w, where 'a = nat] by simp
  from this[of ino] this[of objnum] show ?thesis by (simp add: object_name_def fmt_llx_def fmt_08llx_def)
qed

text \<open>
  The objects of files have distinct names: the name \<open>ceph_osdc_new_request\<close> prints determines the inode and the object number.
\<close>

theorem object_name_inj:
  assumes "object_name ino1 objnum1 = object_name ino2 objnum2"
  shows "ino1 = ino2 \<and> objnum1 = objnum2"
proof -
  have "takeWhile ((\<noteq>) 46) (object_name ino n) = hex (unat ino)"
    and "tl (dropWhile ((\<noteq>) 46) (object_name ino n)) = fmt_08llx n" for ino n
    using hex_no_dot[of "unat ino"] by (auto simp: object_name_def fmt_llx_def takeWhile_append dropWhile_append takeWhile_eq_all_conv dropWhile_eq_Nil_conv)
  with assms have "hex (unat ino1) = hex (unat ino2)" "fmt_08llx objnum1 = fmt_08llx objnum2" by metis+
  then have "unhex (hex (unat ino1)) = unhex (hex (unat ino2))" "unhex (fmt_08llx objnum1) = unhex (fmt_08llx objnum2)" by simp_all
  then show ?thesis by (simp add: unhex_hex fmt_08llx_def unhex_pad word_unat_eq_iff)
qed

theorem object_name_inj_witness: "object_name 0x10000000000 7 = object_name 0x10000000000 7 \<and> (0x10000000000 :: u64) = 0x10000000000"
  using object_name_inj[of "0x10000000000" "7" "0x10000000000" "7"] by simp

section \<open>Requests for file extents\<close>

lemma calc_layout_ok:
  assumes "mappable l" and "unat off div unat (fl_stripe_unit l) < 2 ^ 32"
  shows "\<exists>ono oxoff oxlen. calc_layout l off plen = Inr (oxlen, ono, oxoff, oxlen) \<and>
    (unat ono, unat oxoff) = file_to_object (unat (fl_stripe_unit l)) (unat (fl_stripe_count l))
      (unat (fl_object_size l) div unat (fl_stripe_unit l)) (unat off) \<and>
    oxlen = min plen (ucast (fl_stripe_unit l) - off mod ucast (fl_stripe_unit l))"
  using mapping_spec[OF assms, of plen] by (fastforce simp: calc_layout_def min_def)

lemma set_oid_text_ok:
  "length s < CEPH_MAX_OID_NAME_LEN \<Longrightarrow> oid_name_len (set_oid_text s oid) = length s \<and> take (length s) (oid_name (set_oid_text s oid)) = s"
  by (simp add: set_oid_text_def Let_def)



end
