(* ===== verification/Osd_Steps.thy ===== *)
theory Osd_Steps
  imports Osd_Inv Osd_Message Osdmap_Invariant
begin

text \<open>
  The entry points of the OSD client as steps: replies, maps, lost connections, time-outs, and the
  calls of its users, in any order. Every state that can be reached satisfies the invariant; what
  follows for the requests and for the assertions of the code.
\<close>

section \<open>Entry points keep the invariant\<close>

lemma inv_finish: "osdc_inv c \<Longrightarrow> osdc_inv (finish_request r c)"
  and inv_complete: "osdc_inv c \<Longrightarrow> osdc_inv (complete_request r c)"
  by (simp_all add: finish_request_def complete_request_def inv_upd_req)

lemma decode_reply_body_frame:
  assumes "decode_reply_body msg p req = Inr (redir, req')"
  shows "r_tid req' = r_tid req" "r_osd req' = r_osd req" "r_linger req' = r_linger req"
  using assms by (auto simp: decode_reply_body_def Let_def split: sum.splits stop.splits if_splits)

lemma reply_bad_put_inv:
  assumes "env_ok env" and "osdc_inv c" and "reply_bad_put env r c = Inr c'"
  shows "osdc_inv c'"
proof -
  have i: "osdc_inv (upd_req r (\<lambda>x. x\<lparr>r_result := - EIO_no\<rparr>) c)" using assms(2) by (simp add: inv_upd_req)
  show ?thesis using assms(3) unregister_inv[OF assms(1) i, of r] by (auto simp: reply_bad_put_def inv_finish inv_complete)
qed

lemma free_upd_req:
  "r_osd (f (req_of c r)) = r_osd (req_of c r) \<Longrightarrow> r_linger (f (req_of c r)) = r_linger (req_of c r) \<Longrightarrow>
    free (profile (upd_req r f c) r) = free (profile c r)"
  by (simp add: moves_profile)

lemma reply_redirect_inv:
  assumes "env_ok env" and "osdc_inv c" and "r \<in> set_tree (requests c)" and "reply_redirect env r pool c = Inr c'"
  shows "osdc_inv c'"
proof -
  obtain c1 where c1: "unregister_request env r c = Inr c1" "osdc_inv c1" "free (profile c1 r)"
    using unregister_inv[OF assms(1,2), of r] assms(3) by blast
  define c2 where "c2 = upd_req r (\<lambda>x. x\<lparr>r_target_oloc := pool\<rparr>) c1"
  have c2: "osdc_inv c2" "free (profile c2 r)" using c1(2,3) by (simp_all add: c2_def inv_upd_req free_upd_req)
  obtain err where "start_request env r True c2 = Inr (err, c')"
    using assms(4) c1(1) by (auto simp: reply_redirect_def c2_def guardE_def split: if_splits)
  then show ?thesis by (rule start_request_inv[OF assms(1) c2])
qed

lemma inv_reply_callbacks: "osdc_inv c \<Longrightarrow> osdc_inv (reply_callbacks r rp b c)"
  by (simp add: reply_callbacks_def Let_def inv_finish inv_complete)

text \<open>A linger request whose reply is on disk stays with the client, registered as a linger request.\<close>

lemma register_linger_unregister:
  assumes "env_ok env" and "osdc_inv c" and "r \<in> set_tree (requests c)" and "r_linger (req_of c r)"
  shows "\<exists>c'. unregister_request env r (register_linger_request r c) = Inr c' \<and> osdc_inv c'"
proof -
  note st = inv_settled[OF assms(2), of r]
  have nl: "r \<notin> set (req_linger c)" using st assms(3) by (auto simp: settled_def)
  define c1 where "c1 = register_linger_request r c"
  note rl = register_linger_ok[OF assms(2) nl disjI1[OF assms(3)], folded c1_def]
  have reg: "r \<in> set_tree (requests c1)" "r_osd (req_of c1 r) = r_osd (req_of c r)" using arg_cong[OF rl(3), of p_reg] arg_cong[OF rl(3), of p_osd] assms(3) by simp_all
  have se: "p_sess (profile c1 r) = set_option (r_osd (req_of c1 r))" unfolding rl(3) reg(2) using st assms(3) by (simp add: settled_def)
  have pb: "points_back (profile c1 r)" unfolding rl(3) using st assms(3) by (simp add: settled_def points_back_def)
  have "glob_inv c1" using rl(1) by (simp add: moves_def)
  from unregister_ok[OF assms(1) this pb] se reg obtain c' where c': "unregister_request env r c1 = Inr c'" "moves r c1 c'"
    "profile c' r = (profile c1 r)\<lparr>p_reg := False, p_queued := False, p_nt := False, p_sess := {},
        p_osd := (if p_lsess (profile c1 r) = {} then None else r_osd (req_of c1 r))\<rparr>" by auto
  have "settled (profile c' r)" unfolding c'(3) rl(3) reg(2) using assms(4) by (simp add: settled_def points_back_def)
  then show ?thesis using c'(1) moves_inv[OF assms(2) moves_trans[OF rl(1) c'(2)]] by (auto simp: c1_def)
qed

lemma reply_complete_inv:
  assumes "env_ok env" and "osdc_inv c" and "r \<in> set_tree (requests c)" and "reply_complete env r rp bytes c = Inr c'"
  shows "osdc_inv c'"
proof -
  define c1 where "c1 = (if r_got_reply (req_of c r) then c
                else upd_req r (\<lambda>x. x\<lparr>r_result := (if rp_result rp = 0 then sint bytes else rp_result rp),
                       r_reassert_version := (rp_epoch rp, rp_version rp), r_got_reply := True\<rparr>) c)"
  have c1: "osdc_inv c1" "r \<in> set_tree (requests c1)" using assms(2,3) by (simp_all add: c1_def inv_upd_req) (simp add: upd_req_def)
  define disk where "disk \<longleftrightarrow> rp_flags rp AND CEPH_OSD_FLAG_ONDISK \<noteq> 0"
  show ?thesis
  proof (cases "r_got_reply (req_of c r) \<and> \<not> disk")
    case True
    then show ?thesis using assms(2,4) by (simp add: reply_complete_def disk_def)
  next
    case False
    have "bindE (if rp_result rp < 0 \<or> disk \<or> rp_flags rp AND CEPH_OSD_FLAG_WRITE = 0
          then unregister_request env r (if r_linger (req_of c1 r) \<and> disk then register_linger_request r c1 else c1)
          else Inr (if r_linger (req_of c1 r) \<and> disk then register_linger_request r c1 else c1)) (\<lambda>c2.
        Inr (reply_callbacks r rp (r_got_reply (req_of c r)) c2)) = Inr c'"
      using assms(4) unfolding reply_complete_def Let_def disk_def[symmetric] c1_def[symmetric] if_not_P[OF False] .
    then show ?thesis
      using unregister_inv[OF assms(1) c1(1), of r] register_linger_unregister[OF assms(1) c1] c1(1)
      by (auto split: if_splits simp: inv_reply_callbacks)
  qed
qed

lemma lookup_request_mem: "osdc_inv c \<Longrightarrow> lookup_request c tid = Some r \<Longrightarrow> r \<in> set_tree (requests c)"
  using lookup_by_mem[of "tid_of c" "requests c" tid r] by (simp add: lookup_request_def osdc_inv_def glob_defs)

lemma handle_reply_inv:
  assumes "env_ok env" and "osdc_inv c" and "handle_reply env msg c = Inr c'"
  shows "osdc_inv c'"
proof (cases "c' = c")
  case False
  then obtain rp p r where r: "lookup_request c (hdr_tid msg) = Some r"
    and *: "bindE (decode_reply_body msg p (req_of c r)) (\<lambda>(redir, req).
              let c = upd_req r (\<lambda>_. req) c in
              case redir of
                None \<Rightarrow> reply_bad_put env r c
              | Some pool \<Rightarrow>
                  if pool \<noteq> -1 then reply_redirect env r pool c else reply_complete env r rp (hdr_data_len msg) c) = Inr c'"
    using assms(3) unfolding handle_reply_def by (auto split: sum.splits stop.splits option.splits prod.splits)
  from * obtain redir req where d: "decode_reply_body msg p (req_of c r) = Inr (redir, req)" by auto
  define c1 where "c1 = upd_req r (\<lambda>_. req) c"
  have c1: "osdc_inv c1" "r \<in> set_tree (requests c1)"
    using decode_reply_body_frame[OF d] assms(2) lookup_request_mem[OF assms(2) r] by (simp_all add: c1_def inv_upd_req) (simp add: upd_req_def)
  show ?thesis
    using *[unfolded d bindE_simps prod.case Let_def c1_def[symmetric]]
      reply_bad_put_inv[OF assms(1) c1(1)] reply_redirect_inv[OF assms(1) c1] reply_complete_inv[OF assms(1) c1]
    by (simp split: option.splits if_splits)
qed (use assms in simp)

section \<open>Maps\<close>

lemma new_map_inv: "env_ok env \<Longrightarrow> osdc_inv c \<Longrightarrow> new_map env s w om c = Inr (w', c') \<Longrightarrow> osdc_inv c'"
  using kick_requests_inv[of env "c\<lparr>oc_map := Some om\<rparr>"] by (auto simp: new_map_def Let_def)

lemma inc_maps_inv:
  "env_ok env \<Longrightarrow> osdc_inv c \<Longrightarrow> inc_maps env buf en n p w m c = Inr (st, c') \<Longrightarrow> osdc_inv c'"
proof (induction n arbitrary: p w m c)
  case (Suc n)
  then show ?case
    by (auto split: sum.splits stop.splits option.splits if_splits prod.splits inc_result.splits dest!: new_map_inv[OF Suc.prems(1,2)])
qed simp

lemma full_maps_inv:
  "env_ok env \<Longrightarrow> osdc_inv c \<Longrightarrow> full_maps env buf en n p w c = Inr (st, c') \<Longrightarrow> osdc_inv c'"
proof (induction n arbitrary: p w c)
  case (Suc n)
  then show ?case
    by (auto split: sum.splits stop.splits option.splits if_splits prod.splits simp: Let_def dest!: new_map_inv[OF Suc.prems(1,2)])
qed simp

lemma map_done_inv: "osdc_inv c \<Longrightarrow> map_done env c = Inr c' \<Longrightarrow> osdc_inv c'"
  by (auto simp: map_done_def Let_def intro: send_queued_inv[rotated] split: if_splits)

lemma handle_maps_inv: "env_ok env \<Longrightarrow> osdc_inv c \<Longrightarrow> handle_maps env buf p c = Inr c' \<Longrightarrow> osdc_inv c'"
  by (auto simp: handle_maps_def Let_def split: sum.splits stop.splits map_status.splits if_splits)
    (metis inc_maps_inv full_maps_inv map_done_inv)+

lemma inv_fsid: "osdc_inv (c\<lparr>client_fsid := fs\<rparr>) = osdc_inv c"
  by (simp add: osdc_inv_def profile_def glob_defs)

lemma handle_map_inv: "env_ok env \<Longrightarrow> osdc_inv c \<Longrightarrow> ceph_osdc_handle_map env msg c = Inr c' \<Longrightarrow> osdc_inv c'"
  by (auto simp: ceph_osdc_handle_map_def ceph_check_fsid_def Let_def inv_fsid split: sum.splits stop.splits if_splits)
    (use handle_maps_inv inv_fsid in blast)+

section \<open>Events, time-outs and cancelling\<close>

lemma inv_events: "osdc_inv (c\<lparr>event_tree := t\<rparr>) = osdc_inv c" "osdc_inv (c\<lparr>event_count := n\<rparr>) = osdc_inv c"
  by (simp_all add: osdc_inv_def profile_def glob_defs)

lemma watch_notify_inv: "osdc_inv c \<Longrightarrow> handle_watch_notify env msg c = Inr c' \<Longrightarrow> osdc_inv c'"
  by (auto simp: handle_watch_notify_def split: sum.splits stop.splits option.splits prod.splits if_splits)

lemma create_event_inv: "osdc_inv c \<Longrightarrow> ceph_osdc_create_event env c = Inr (ev, c') \<Longrightarrow> osdc_inv c'"
  by (auto simp: ceph_osdc_create_event_def insert_event_def Let_def inv_events split: if_splits)

lemma cancel_event_inv: "osdc_inv c \<Longrightarrow> ceph_osdc_cancel_event env ev c = Inr c' \<Longrightarrow> osdc_inv c'"
  by (auto simp: ceph_osdc_cancel_event_def remove_event_def inv_events)

lemma dispatch_inv: "env_ok env \<Longrightarrow> osdc_inv c \<Longrightarrow> osd_dispatch env msg c = Inr c' \<Longrightarrow> osdc_inv c'"
  unfolding osd_dispatch_def using handle_map_inv handle_reply_inv watch_notify_inv by (metis Inr_inject)

lemma timeout_inv: "osdc_inv c \<Longrightarrow> handle_timeout env c = Inr c' \<Longrightarrow> osdc_inv c'"
  by (auto simp: handle_timeout_def Let_def inv_fold_act intro: send_queued_inv[rotated])

lemma osds_timeout_inv: "env_ok env \<Longrightarrow> osdc_inv c \<Longrightarrow> handle_osds_timeout env c = Inr c' \<Longrightarrow> osdc_inv c'"
  unfolding handle_osds_timeout_def remove_old_osds_def
  by (rule remove_old_inv) (simp_all add: osdc_inv_def glob_defs)

text \<open>Cancelling always succeeds, and the client does not know the request any more.\<close>

lemma cancel_request_inv:
  assumes "env_ok env" and "osdc_inv c" and "r_linger (req_of c r) \<or> r \<notin> set (req_linger c)"
  shows "\<exists>c'. ceph_osdc_cancel_request env r c = Inr c' \<and> osdc_inv c' \<and> r \<notin> set_tree (requests c') \<and> r \<notin> set (req_linger c')"
proof -
  obtain c1 where c1: "(if r_linger (req_of c r) then unregister_linger_request env r c else Inr c) = Inr c1" "osdc_inv c1" "r \<notin> set (req_linger c1)"
    using unregister_linger_inv[OF assms(2), of env r] assms(2,3) by (auto simp: free_def split: if_splits)
  from unregister_inv[OF assms(1) c1(2), of r] c1(3) obtain c2 where c2: "unregister_request env r c1 = Inr c2" "osdc_inv c2"
    "r \<notin> set_tree (requests c2)" "r \<notin> set (req_linger c2)" by (auto simp: free_def)
  then show ?thesis using c1(1) by (simp add: ceph_osdc_cancel_request_def)
qed

lemma wait_request_inv:
  assumes "env_ok env" and "osdc_inv c" and "ceph_osdc_wait_request env r rc c = Inr (rc', c')"
  shows "osdc_inv c'"
proof -
  have "r_linger (req_of c r) \<or> r \<notin> set (req_linger c)" using inv_settled[OF assms(2), of r] by (auto simp: settled_def)
  from cancel_request_inv[OF assms(1,2) this] show ?thesis
    using assms(2,3) by (auto simp: ceph_osdc_wait_request_def inv_complete split: if_splits)
qed

lemma settled_flag: "settled p \<Longrightarrow> settled (p\<lparr>p_flag := True\<rparr>)"
  by (auto simp: settled_def points_back_def)

lemma set_linger_inv: "osdc_inv c \<Longrightarrow> osdc_inv (ceph_osdc_set_request_linger r c)"
proof (cases "r_linger (req_of c r)")
  case False
  assume inv: "osdc_inv c"
  let ?c = "upd_req r (\<lambda>x. x\<lparr>r_linger := True\<rparr>) c"
  have g: "glob_inv ?c" using inv_glob[OF inv] by (simp add: moves_glob)
  have p: "profile ?c q = (if q = r then (profile c r)\<lparr>p_flag := True\<rparr> else profile c q)" for q
    by (simp add: profile_def upd_req_def)
  have "settled ((profile c r)\<lparr>p_flag := True\<rparr>)" by (rule settled_flag[OF inv_settled[OF inv]])
  then have "osdc_inv ?c" using moves_inv[OF inv, of r ?c] g p by (simp add: moves_def)
  then show ?thesis using False by (simp add: ceph_osdc_set_request_linger_def)
qed (simp add: ceph_osdc_set_request_linger_def)

lemma get_reply_inv: "osdc_inv c \<Longrightarrow> get_reply oa hdr c = Inr (m, skip, c') \<Longrightarrow> osdc_inv c'"
  by (auto simp: get_reply_def Let_def inv_upd_req split: option.splits if_splits ceph_osd_data.splits)

section \<open>Reachable states\<close>

text \<open>
  One rule per entry point. A new request is stored at an address the client does not know; the
  caller starts a request the client does not know; a connection is lost for a session in the tree.
\<close>

inductive osdc_step :: "ceph_osd_client \<Rightarrow> ceph_osd_client \<Rightarrow> bool" where
  Dispatch: "env_ok env \<Longrightarrow> osd_dispatch env msg c = Inr c' \<Longrightarrow> osdc_step c c'"
| Alloc_msg: "osd_alloc_msg oa hdr c = Inr (m, skip, c') \<Longrightarrow> osdc_step c c'"
| Fault: "env_ok env \<Longrightarrow> x \<in> set_tree (osds c) \<Longrightarrow> osd_reset env x c = Inr c' \<Longrightarrow> osdc_step c c'"
| Timeout: "handle_timeout env c = Inr c' \<Longrightarrow> osdc_step c c'"
| Osds_timeout: "env_ok env \<Longrightarrow> handle_osds_timeout env c = Inr c' \<Longrightarrow> osdc_step c c'"
| New: "free (profile c r) \<Longrightarrow> r_osd req = None \<Longrightarrow> osdc_step c (upd_req r (\<lambda>_. req) c)"
| Set_linger: "osdc_step c (ceph_osdc_set_request_linger r c)"
| Start: "env_ok env \<Longrightarrow> free (profile c r) \<Longrightarrow> ceph_osdc_start_request env r nofail c = Inr (rc, c') \<Longrightarrow> osdc_step c c'"
| Cancel: "env_ok env \<Longrightarrow> ceph_osdc_cancel_request env r c = Inr c' \<Longrightarrow> osdc_step c c'"
| Wait: "env_ok env \<Longrightarrow> ceph_osdc_wait_request env r rc c = Inr (rc', c') \<Longrightarrow> osdc_step c c'"
| Create_event: "ceph_osdc_create_event env c = Inr (ev, c') \<Longrightarrow> osdc_step c c'"
| Cancel_event: "ceph_osdc_cancel_event env ev c = Inr c' \<Longrightarrow> osdc_step c c'"

inductive osdc_reach :: "ceph_osd_client \<Rightarrow> bool" where
  Init: "(\<And>r. r_osd (reqs r) = None) \<Longrightarrow> osdc_reach (ceph_osdc_init reqs os)"
| Step: "osdc_reach c \<Longrightarrow> osdc_step c c' \<Longrightarrow> osdc_reach c'"

lemma init_inv: "(\<And>r. r_osd (reqs r) = None) \<Longrightarrow> osdc_inv (ceph_osdc_init reqs os)"
  by (simp add: osdc_inv_def glob_defs ceph_osdc_init_def profile_def settled_def points_back_def ordered_def)

lemma new_inv: "osdc_inv c \<Longrightarrow> free (profile c r) \<Longrightarrow> r_osd req = None \<Longrightarrow> osdc_inv (upd_req r (\<lambda>_. req) c)"
proof -
  assume inv: "osdc_inv c" and f: "free (profile c r)" and n: "r_osd req = None"
  let ?c = "upd_req r (\<lambda>_. req) c"
  have g: "glob_inv ?c" using inv_glob[OF inv] f by (simp add: moves_glob free_def)
  have p: "profile ?c q = (if q = r then (profile c r)\<lparr>p_osd := None, p_flag := r_linger req\<rparr> else profile c q)" for q
    using n by (simp add: profile_def upd_req_def)
  have "free ((profile c r)\<lparr>p_osd := None, p_flag := r_linger req\<rparr>)" using f by (simp add: free_def del: profile_simps)
  then show ?thesis using moves_inv[OF inv, of r ?c] g p free_settled by (simp add: moves_def)
qed

lemma step_inv: "osdc_step c c' \<Longrightarrow> osdc_inv c \<Longrightarrow> osdc_inv c'"
proof (induction rule: osdc_step.induct)
  case (Alloc_msg oa hdr c m skip c')
  then show ?case using get_reply_inv[of c oa hdr] by (auto simp: osd_alloc_msg_def split: if_splits)
next
  case (Start env c r nofail rc c')
  then show ?case using start_request_inv by (simp add: ceph_osdc_start_request_def)
next
  case (Cancel env r c c')
  have "r_linger (req_of c r) \<or> r \<notin> set (req_linger c)" using inv_settled[OF Cancel.prems, of r] by (auto simp: settled_def)
  from cancel_request_inv[OF Cancel.hyps(1) Cancel.prems this] show ?case using Cancel.hyps(2) by auto
qed (auto intro: dispatch_inv osd_reset_inv timeout_inv osds_timeout_inv new_inv set_linger_inv wait_request_inv create_event_inv cancel_event_inv)

lemma reach_inv: "osdc_reach c \<Longrightarrow> osdc_inv c"
  by (induction rule: osdc_reach.induct) (auto intro: init_inv step_inv)

section \<open>Resending in order\<close>

lemma collect_sent_unsent:
  assumes "\<forall>r\<in>set rs. \<not> r_linger (req_of c r)"
  shows "\<exists>c'. collect_sent rs (a, b, c) = (a @ takeWhile (\<lambda>r. r_sent (req_of c r) \<noteq> 0) rs, b, c') \<and>
    req_unsent c' = fold remove1 (takeWhile (\<lambda>r. r_sent (req_of c r) \<noteq> 0) rs) (req_unsent c) \<and> osd_of c' = osd_of c"
  using assms
proof (induction rs arbitrary: a c)
  case (Cons r rs)
  define d where "d = upd_req r (\<lambda>x. x\<lparr>r_flags := r_flags x OR CEPH_OSD_FLAG_RETRY\<rparr>) (lru_del r c)"
  have d: "r_sent (req_of d q) = r_sent (req_of c q)" "r_linger (req_of d q) = r_linger (req_of c q)"
    "req_unsent d = remove1 r (req_unsent c)" "osd_of d = osd_of c" for q
    by (simp_all add: d_def upd_req_def lru_del_def)
  from Cons.IH[of d "a @ [r]"] Cons.prems show ?case by (auto simp: d d_def[symmetric])
qed simp

lemma fold_remove1_distinct: "distinct ys \<Longrightarrow> fold remove1 xs ys = filter (\<lambda>y. y \<notin> set xs) ys"
proof (induction xs arbitrary: ys)
  case (Cons x xs)
  from Cons.prems show ?case by (simp add: Cons.IH distinct_remove1_removeAll removeAll_filter_not_eq filter_filter)
    (rule filter_cong; auto)
qed simp

lemma reset_osd_frame:
  assumes "reset_osd env x c = Inr (0, c1)"
  shows "req_of c1 = req_of c" "req_unsent c1 = req_unsent c" "o_requests (osd_of c1 x) = o_requests (osd_of c x)"
    "o_linger_requests (osd_of c1 x) = o_linger_requests (osd_of c x)"
  using assms by (auto simp: reset_osd_def ENODEV_def EAGAIN_def upd_osd_def act_def split: if_splits)

section \<open>Two surprises\<close>

text \<open>
  A linger request that a new map moves to another OSD is queued by \<open>map_request\<close> and taken off the queue by
  \<open>unregister_linger_request\<close>: it is registered, and nothing sends it.
\<close>

lemma kicked_linger_not_sent:
  assumes "env_ok env" and "osdc_inv c" and "r \<in> set (req_linger c)" and "kick_linger env f r (n, c) = Inr (n', c')" and "r \<in> set_tree (requests c')"
  shows "r \<notin> set (req_unsent c')" "r \<notin> set (req_lru c')" "r \<notin> set (req_notarget c')"
  using kick_linger_inv(3)[OF assms] not_queued_lists[of c' r] by simp_all

text \<open>The search for the next request at or above a number fails when the left subtree has only smaller ones.\<close>

lemma lookup_ge_misses:
  "ordered (\<lambda>x. x) (Node (Node Leaf 1 Leaf) 5 Leaf :: u64 tree) \<and> lookup_ge (\<lambda>x. x) (Node (Node Leaf 1 Leaf) 5 Leaf) (3 :: u64) = None"
  by (simp add: ordered_def)

section \<open>An example\<close>

text \<open>Two requests of the session with OSD 5: request 1 was sent, request 2 waits to be sent.\<close>

definition example_client :: ceph_osd_client where
  "example_client =
    (ceph_osdc_init
       (\<lambda>r. if r = 1 then example_request\<lparr>r_tid := 1, r_osd := Some 0, r_sent := 1, r_linger := False\<rparr>
            else if r = 2 then example_request\<lparr>r_tid := 2, r_osd := Some 0, r_sent := 0, r_linger := False\<rparr> else example_request\<lparr>r_osd := None\<rparr>)
       (\<lambda>_. \<lparr>o_osd = 5, o_incarnation = 1, o_peer_addr = [], o_requests = [1, 2], o_linger_requests = [], lru_ttl = 0\<rparr>))
     \<lparr>osds := Node Leaf 0 Leaf, osd_next := 1, requests := Node Leaf 1 (Node Leaf 2 Leaf), num_requests := 2, last_tid := 2,
      req_lru := [1], req_unsent := [2]\<rparr>"

lemma example_client_inv: "osdc_inv example_client"
proof -
  have "glob_inv example_client"
    by (simp add: glob_defs example_client_def ceph_osdc_init_def ordered_def)
  moreover have "settled (profile example_client r)" for r
    by (cases "r = 1"; cases "r = 2") (auto simp: profile_def settled_def points_back_def example_client_def ceph_osdc_init_def)
  ultimately show ?thesis by (simp add: osdc_inv_def)
qed

definition example_env :: osdc_env where
  "example_env = \<lparr>jiffies = 100, con_opened = (\<lambda>_. True), idle_ttl = 60, keepalive_ticks = 5, oe_fuel = 0, oe_alloc = (\<lambda>_. True),
     oe_rb = example_rb, oe_color = (\<lambda>t. t), oe_erase = (\<lambda>x t. foldr (\<lambda>y u. Node Leaf y u) (remove1 x (inorder t)) Leaf),
     ev_color = (\<lambda>t. t), ev_erase = (\<lambda>x t. foldr (\<lambda>y u. Node Leaf y u) (remove1 x (inorder t)) Leaf), can_create = (\<lambda>_. True)\<rparr>"

lemma example_env_ok: "env_ok example_env"
proof -
  have io: "inorder (foldr (\<lambda>y u. Node Leaf y u) xs Leaf) = xs" for xs :: "nat list" by (induction xs) simp_all
  show ?thesis by (simp add: env_ok_def example_env_def keeps_inorder_def erases_node_def io)
qed

lemma count_list_distinct: "distinct xs \<Longrightarrow> count_list xs x = (if x \<in> set xs then 1 else 0)"
  by (induction xs) auto

section \<open>Properties\<close>

text \<open>C20: In every state the OSD client can reach, its invariant holds: the tree of requests is ordered by transaction
  number and has as many nodes as are counted; every list is free of duplicates and a request is on one queue at most; a session lists
  exactly the registered requests that point to it; a queued request is registered and has a session; idle sessions have no requests.\<close>

theorem osd_client_invariant: "osdc_reach c \<Longrightarrow> osdc_inv c"
  by (rule reach_inv)

theorem osd_client_invariant_witness:
  "osdc_inv (ceph_osdc_set_request_linger 3 (upd_req 7 (\<lambda>_. example_request\<lparr>r_osd := None, r_tid := 9\<rparr>)
     (ceph_osdc_init (\<lambda>_. example_request\<lparr>r_osd := None\<rparr>) (\<lambda>_. osd_of example_client 0))))"
proof (rule osd_client_invariant, rule osdc_reach.Step, rule osdc_reach.Step)
  let ?c = "ceph_osdc_init (\<lambda>_. example_request\<lparr>r_osd := None\<rparr>) (\<lambda>_. osd_of example_client 0)"
  show "osdc_reach ?c" by (rule osdc_reach.Init) simp
  show "osdc_step ?c (upd_req 7 (\<lambda>_. example_request\<lparr>r_osd := None, r_tid := 9\<rparr>) ?c)"
    by (rule osdc_step.New) (simp_all add: free_def profile_def ceph_osdc_init_def)
qed (rule osdc_step.Set_linger)

text \<open>C21: No step of the OSD client loses a request: afterwards, a registered request that has a session and is not a linger request is on the
  list of that session, which is in the tree of sessions, and on exactly one of the queues of requests in flight, to be sent, or without a target.\<close>

theorem request_not_lost:
  assumes "osdc_inv c" and "osdc_step c c'" and "r \<in> set_tree (requests c')" and "r_osd (req_of c' r) = Some x" and "\<not> r_linger (req_of c' r)"
  shows "x \<in> set_tree (osds c') \<and> r \<in> set (o_requests (osd_of c' x)) \<and>
    count_list (req_lru c' @ req_unsent c' @ req_notarget c') r = 1"
proof -
  have inv: "osdc_inv c'" by (rule step_inv[OF assms(2,1)])
  note st = inv_settled[OF inv, of r]
  have "x \<in> p_sess (profile c' r)" using st assms(3,4) by (simp add: settled_def)
  moreover have "p_queued (profile c' r) \<or> p_nt (profile c' r)" using st assms(3-5) by (simp add: settled_def)
  then have "r \<in> set (req_lru c' @ req_unsent c' @ req_notarget c')" by (auto simp: profile_def)
  moreover have "distinct (req_lru c' @ req_unsent c' @ req_notarget c')" using inv_glob[OF inv] by (simp add: glob_defs)
  ultimately show ?thesis using count_list_distinct[of "req_lru c' @ req_unsent c' @ req_notarget c'" r] by (simp add: profile_def)
qed

theorem request_not_lost_witness:
  "0 \<in> set_tree (osds example_client) \<and> 1 \<in> set (o_requests (osd_of example_client 0)) \<and>
    count_list (req_lru example_client @ req_unsent example_client @ req_notarget example_client) 1 = 1"
proof -
  have "ceph_osdc_wait_request example_env 1 0 example_client = Inr (r_result (req_of example_client 1), example_client)"
    by (simp add: ceph_osdc_wait_request_def)
  then have "osdc_step example_client example_client" by (rule osdc_step.Wait[OF example_env_ok])
  from request_not_lost[OF example_client_inv this, of 1 0] show ?thesis
    by (simp add: example_client_def ceph_osdc_init_def)
qed

text \<open>C22: Cancelling a request always returns (the assertion that an idle session is not yet on the idle list holds), keeps the invariant,
  and leaves the request on no list and in no tree of the client.\<close>

theorem cancel_forgets:
  assumes "env_ok env" and "osdc_inv c"
  shows "\<exists>c'. ceph_osdc_cancel_request env r c = Inr c' \<and> osdc_inv c' \<and>
    r \<notin> set_tree (requests c') \<union> set (req_linger c') \<union> set (req_lru c') \<union> set (req_unsent c') \<union> set (req_notarget c') \<and>
    (\<forall>x. x \<in> set_tree (osds c') \<longrightarrow> r \<notin> set (o_requests (osd_of c' x)) \<union> set (o_linger_requests (osd_of c' x)))"
proof -
  have "r_linger (req_of c r) \<or> r \<notin> set (req_linger c)" using inv_settled[OF assms(2), of r] by (auto simp: settled_def)
  then obtain c' where c': "ceph_osdc_cancel_request env r c = Inr c'" "osdc_inv c'" "r \<notin> set_tree (requests c')" "r \<notin> set (req_linger c')"
    using cancel_request_inv[OF assms] by blast
  then have "\<not> p_queued (profile c' r)" "\<not> p_nt (profile c' r)" "p_sess (profile c' r) = {}" "p_lsess (profile c' r) = {}"
    using inv_settled[OF c'(2), of r] by (auto simp: settled_def points_back_def)
  then show ?thesis using c' by (auto simp: profile_def)
qed

theorem cancel_forgets_witness:
  "\<exists>c'. ceph_osdc_cancel_request example_env 1 example_client = Inr c' \<and> 1 \<in> set (req_lru example_client) \<and> 1 \<notin> set (req_lru c')"
  using cancel_forgets[OF example_env_ok example_client_inv, of 1] by (auto simp: example_client_def)

text \<open>The keep-alive timer never hits its assertion: every request in flight has a session, and the sessions that are pinged
  are in the tree of sessions.\<close>

theorem slow_sessions_safe:
  assumes "osdc_inv c"
  shows "\<exists>slow. slow_sessions env c (req_lru c) [] = Inr slow \<and> set slow \<subseteq> set_tree (osds c)"
proof -
  have "x \<in> set_tree (osds c)" if "r_osd (req_of c r) = Some x" "r \<in> set (req_lru c)" for r x
    using inv_settled[OF assms, of r] that by (auto simp: settled_def profile_def)
  moreover have "r_osd (req_of c r) \<noteq> None" if "r \<in> set (req_lru c)" for r
    using inv_settled[OF assms, of r] that by (auto simp: settled_def profile_def)
  ultimately have "\<exists>slow'. slow_sessions env c rs slow = Inr slow' \<and> set slow' \<subseteq> set_tree (osds c)"
    if "set rs \<subseteq> set (req_lru c)" "set slow \<subseteq> set_tree (osds c)" for rs slow
    using that
  proof (induction rs arbitrary: slow)
    case (Cons r rs)
    then obtain x where "r_osd (req_of c r) = Some x" "x \<in> set_tree (osds c)" by fastforce
    with Cons show ?case using set_remove1_subset[of x slow] by auto
  qed simp
  then show ?thesis by simp
qed

theorem slow_sessions_safe_witness: "\<exists>slow. slow_sessions example_env example_client (req_lru example_client) [] = Inr slow \<and> set slow \<subseteq> {0}"
  using slow_sessions_safe[OF example_client_inv, of example_env] by (simp add: example_client_def)



end
