(* ===== verification/Mon_Session.thy ===== *)
theory Mon_Session
  imports Mon_Client Osd_Steps
begin

text \<open>
  The invariant of the monitor client, what its messages contain, and that an answer reaches the request it is for.
\<close>

section \<open>Buffers keep their size\<close>

lemma encode_length:
  "ceph_encode_8 buf p v8 = Inr (buf', q) \<Longrightarrow> length buf' = length buf"
  "ceph_encode_32 buf p v32 = Inr (buf', q) \<Longrightarrow> length buf' = length buf"
  "ceph_encode_64 buf p v64 = Inr (buf', q) \<Longrightarrow> length buf' = length buf"
  "ceph_encode_copy buf p bs = Inr (buf', q) \<Longrightarrow> length buf' = length buf"
  "ceph_entity_name_encode name buf en p = Inr (r, buf', q) \<Longrightarrow> length buf' = length buf"
  by (auto simp: ceph_encode_8_def ceph_encode_32_def ceph_encode_64_def ceph_encode_copy_def ceph_entity_name_encode_def
      dest!: put_bytes_length split: if_splits prod.splits)

lemma encode_string_length: "ceph_encode_string buf en p s n = Inr (buf', q) \<Longrightarrow> length buf' = length buf"
  by (auto simp: ceph_encode_string_def dest!: encode_length)

lemma encode_ticket_length: "ceph_x_encode_ticket th buf en p = Inr (r, buf', q) \<Longrightarrow> length buf' = length buf"
  by (auto simp: ceph_x_encode_ticket_def dest!: encode_length split: if_splits option.splits)

lemma authenticate_length: "build_authenticate env th buf en p xi = Inr (r, buf') \<Longrightarrow> length buf' = length buf"
  by (auto simp: build_authenticate_def Let_def dest!: encode_ticket_length put_bytes_length split: if_splits)

lemma ticket_request_length: "build_ticket_request env ac th n buf en p xi = Inr (r, buf', xi') \<Longrightarrow> length buf' = length buf"
  by (auto simp: build_ticket_request_def Let_def dest!: encode_length put_bytes_length split: if_splits)

lemma x_request_length: "ceph_x_build_request env ac buf en p xi = Inr (r, buf', xi') \<Longrightarrow> length buf' = length buf"
  by (auto simp: ceph_x_build_request_def dest: authenticate_length ticket_request_length split: if_splits option.splits prod.splits)

lemma auth_request_length: "ceph_build_auth_request env buf n ac = Inr (r, buf', ac') \<Longrightarrow> length buf' = length buf"
  by (auto simp: ceph_build_auth_request_def ops_build_request_def with_x_def dest!: encode_length put_bytes_length x_request_length
      split: if_splits auth_ops.splits auth_private.splits)

lemma handle_auth_reply_length: "ceph_handle_auth_reply env buf len rbuf n ac = Inr (r, rbuf', ac') \<Longrightarrow> length rbuf' = length rbuf"
  unfolding ceph_handle_auth_reply_def catchE_def
  by (auto simp: Let_def dest!: auth_request_length split: if_splits sum.splits stop.splits)

lemma build_auth_length: "ceph_build_auth env buf n ac = Inr (r, buf', ac') \<Longrightarrow> length buf' = length buf"
  by (auto simp: ceph_build_auth_def dest: auth_request_length split: if_splits)

lemma hello_length: "ceph_auth_build_hello ac buf n = Inr (r, buf') \<Longrightarrow> length buf' = length buf"
  by (auto simp: ceph_auth_build_hello_def Let_def supported_protocols_def dest!: encode_length put_bytes_length split: if_splits)

section \<open>The invariant\<close>

text \<open>
  The two messages that are filled in place have the fronts they were made with; the authentication client is well typed; there is a monitor map; a
  subscription is not wanted, wanted or asked for; and the tree of generic requests is ordered, counted, and holds requests that were made.
\<close>

definition bufs_ok :: "ceph_mon_client \<Rightarrow> bool" where
  "bufs_ok m \<longleftrightarrow> length (m_auth_mem m) = 4096 \<and> front_alloc_len (m_auth m) = 4096 \<and>
     length (m_subscribe_mem m) = 96 \<and> front_alloc_len (m_subscribe m) = 96"

definition generic_ok :: "ceph_mon_client \<Rightarrow> bool" where
  "generic_ok m \<longleftrightarrow> ordered (\<lambda>r. gr_tid (gr_of m r)) (generic_request_tree m) \<and>
     num_generic_requests m = int (card (set_tree (generic_request_tree m))) \<and> (\<forall>r\<in>set_tree (generic_request_tree m). r < gr_next m)"

definition mon_ok :: "ceph_mon_client \<Rightarrow> bool" where
  "mon_ok m \<longleftrightarrow> bufs_ok m \<and> auth_typed (mc_auth m) \<and> monmap m \<noteq> None \<and> want_next_osdmap m \<in> {0, 1, 2} \<and> generic_ok m"

lemmas mon_defs = mon_ok_def bufs_ok_def generic_ok_def

lemma act_ok [simp]: "mon_ok (mon_act a m) = mon_ok m" "mc_auth (mon_act a m) = mc_auth m" "hunting (mon_act a m) = hunting m"
  "gr_of (mon_act a m) = gr_of m" "generic_request_tree (mon_act a m) = generic_request_tree m"
  by (simp_all add: mon_act_def mon_defs)

lemma send_prepared_ok: "mon_ok m \<Longrightarrow> send_prepared_auth_request len m = Inr m' \<Longrightarrow> mon_ok m'"
  by (auto simp: send_prepared_auth_request_def Let_def mon_defs mon_act_def)

lemma close_session_ok: "mon_ok m \<Longrightarrow> close_session m = Inr m' \<Longrightarrow> mon_ok m'"
  by (auto simp: close_session_def Let_def mon_defs mon_act_def dest: reset_typed)

lemma open_session_ok:
  assumes "mon_ok m" and "open_session env m = Inr m'"
  shows "mon_ok m'"
proof (cases "cur_mon m < 0")
  case True
  define opened where "opened n addr = mon_act (Mon_open n addr) (m\<lparr>cur_mon := n, sub_sent := 0, sub_renew_after := me_jiffies env,
    want_next_osdmap := (if want_next_osdmap m \<noteq> 0 then 1 else 0)\<rparr>)" for n addr
  obtain n addr ret mem where h: "ceph_auth_build_hello (mc_auth m) (m_auth_mem m) (front_alloc_len (m_auth m)) = Inr (ret, mem)"
      "send_prepared_auth_request ret ((opened n addr)\<lparr>m_auth_mem := mem\<rparr>) = Inr m'"
    using assms(2) True by (auto simp: open_session_def Let_def opened_def mon_act_def)
  have "mon_ok ((opened n addr)\<lparr>m_auth_mem := mem\<rparr>)" using assms(1) hello_length[OF h(1)] by (simp add: opened_def mon_act_def mon_defs)
  then show ?thesis using send_prepared_ok h(2) by blast
next
  case False
  then show ?thesis using assms by (simp add: open_session_def)
qed

lemma subscribe_item_length: "subscribe_item what hv once en (buf, p) = Inr (buf', q) \<Longrightarrow> length buf' = length buf"
  by (auto simp: subscribe_item_def dest!: encode_string_length put_bytes_length)

lemma send_subscribe_ok: "mon_ok m \<Longrightarrow> send_subscribe env m = Inr m' \<Longrightarrow> mon_ok m'"
  by (auto simp: send_subscribe_def Let_def mon_defs mon_act_def dest!: encode_length subscribe_item_length split: if_splits)

lemma subscribe_ack_ok: "mon_ok m \<Longrightarrow> handle_subscribe_ack env msg m = Inr m' \<Longrightarrow> mon_ok m'"
  by (auto simp: handle_subscribe_ack_def Let_def mon_defs split: if_splits)

lemma got_maps_ok [simp]: "mon_ok m \<Longrightarrow> mon_ok (ceph_monc_got_mdsmap e m)" "mon_ok m \<Longrightarrow> mon_ok (ceph_monc_got_osdmap e m)"
  by (simp_all add: ceph_monc_got_mdsmap_def ceph_monc_got_osdmap_def mon_defs)

lemma request_next_ok: "mon_ok m \<Longrightarrow> ceph_monc_request_next_osdmap env m = Inr m' \<Longrightarrow> mon_ok m'"
  using send_subscribe_ok[of "m\<lparr>want_next_osdmap := 1\<rparr>" env m'] send_subscribe_ok[of m env m']
  by (auto simp: ceph_monc_request_next_osdmap_def Let_def mon_defs split: if_splits)

lemma schedule_ok [simp]: "mon_ok (schedule_delayed env m) = mon_ok m"
  by (simp add: schedule_delayed_def)

lemma handle_map_ok: "mon_ok (monc cl) \<Longrightarrow> ceph_monc_handle_map env msg cl = Inr cl' \<Longrightarrow> mon_ok (monc cl')"
  unfolding ceph_monc_handle_map_def catchE_def
  by (auto simp: Let_def upd_monc_def split: if_splits sum.splits stop.splits prod.splits) (auto simp: mon_defs)

section \<open>Generic requests keep the invariant\<close>

definition mon_env_ok :: "mon_env \<Rightarrow> bool" where
  "mon_env_ok env \<longleftrightarrow> keeps_inorder (me_color env) \<and> erases_node (me_erase env)"

lemma upd_gr_ok:
  assumes "mon_ok m" and "r \<notin> set_tree (generic_request_tree m) \<or> (\<forall>x. gr_tid (f x) = gr_tid x)"
  shows "mon_ok (upd_gr r f m)"
proof -
  have "ordered (\<lambda>x. gr_tid (gr_of (upd_gr r f m) x)) (generic_request_tree m) = ordered (\<lambda>x. gr_tid (gr_of m x)) (generic_request_tree m)"
    using assms(2) by (intro ordered_cong) (auto simp: upd_gr_def)
  then show ?thesis using assms(1) by (simp add: mon_defs upd_gr_def)
qed

lemma new_generic_ok:
  assumes "mon_ok m" and "new_generic_request env type len rtype buf blen m = Some (r, m')"
  shows "mon_ok m'" "r \<notin> set_tree (generic_request_tree m')" "r < gr_next m'" "r = gr_next m"
proof -
  have r: "r = gr_next m" "gr_next m' = r + 1" "generic_request_tree m' = generic_request_tree m"
    using assms(2) by (auto simp: new_generic_request_def Let_def split: if_splits option.splits)
  have n: "x < gr_next m" if "x \<in> set_tree (generic_request_tree m)" for x using assms(1) that by (simp add: mon_defs)
  have "ordered (\<lambda>x. gr_tid (gr_of m' x)) (generic_request_tree m) = ordered (\<lambda>x. gr_tid (gr_of m x)) (generic_request_tree m)"
    using n assms(2) by (intro ordered_cong) (fastforce simp: new_generic_request_def Let_def split: if_splits option.splits)
  then show "mon_ok m'" using assms n
    by (auto simp: new_generic_request_def Let_def mon_defs less_Suc_eq split: if_splits option.splits)
  show "r \<notin> set_tree (generic_request_tree m')" "r < gr_next m'" "r = gr_next m" using r n by auto
qed

lemma do_generic_ok:
  assumes "mon_ok m" and "r \<notin> set_tree (generic_request_tree m)" and "r < gr_next m" and "mon_env_ok env" and "do_generic_request env tid r m = Inr m'"
  shows "mon_ok m'" "set_tree (generic_request_tree m') = insert r (set_tree (generic_request_tree m))"
proof -
  define m1 where "m1 = (if tid \<noteq> 0 then m else m\<lparr>mc_last_tid := mc_last_tid m + 1\<rparr>)"
  define t1 where "t1 = (if tid \<noteq> 0 then tid else mc_last_tid m1)"
  define m2 where "m2 = upd_gr r (\<lambda>x. x\<lparr>gr_tid := t1, gr_request := (gr_request x)\<lparr>hdr_tid := t1\<rparr>\<rparr>) m1"
  have "mon_ok m1" using assms(1) by (simp add: m1_def mon_defs)
  then have ok: "mon_ok m2" unfolding m2_def using assms(2) by (intro upd_gr_ok) (simp_all add: m1_def)
  have tr: "generic_request_tree m2 = generic_request_tree m" "gr_next m2 = gr_next m" by (simp_all add: m2_def upd_gr_def m1_def)
  obtain t where t: "bug_if_exists (insert_by (\<lambda>r. gr_tid (gr_of m2 r)) (me_color env) r (generic_request_tree m2)) = Inr t"
    and m': "m' = mon_act (Mon_send (gr_request (gr_of m2 r))) (m2\<lparr>generic_request_tree := t, num_generic_requests := num_generic_requests m2 + 1\<rparr>)"
    using assms(5) unfolding do_generic_request_def Let_def m1_def[symmetric] t1_def[symmetric] m2_def[symmetric]
    by (auto simp: insert_generic_request_def)
  have o: "ordered (\<lambda>r. gr_tid (gr_of m2 r)) (generic_request_tree m2)" using ok by (simp add: mon_defs)
  note ins = bug_insert_ok[OF o _ t]
  have k: "keeps_inorder (me_color env)" using assms(4) by (simp add: mon_env_ok_def)
  show "mon_ok m'" using ok ins[OF k] assms(2,3) tr by (auto simp: m' mon_defs mon_act_def)
  show "set_tree (generic_request_tree m') = insert r (set_tree (generic_request_tree m))" using ins(2)[OF k] tr by (simp add: m')
qed

lemma fill_generic_ok:
  assumes "mon_ok m" and "fill_generic r bs m = Inr m'"
  shows "mon_ok m'" "generic_request_tree m' = generic_request_tree m" "gr_next m' = gr_next m"
  using assms upd_gr_ok[OF assms(1), of r] by (auto simp: fill_generic_def) (auto simp: upd_gr_def)

lemma statfs_ok:
  assumes "mon_ok m" and "mon_env_ok env" and "ceph_monc_do_statfs env buf m = Inr (x, m')"
  shows "mon_ok m'"
proof (cases "new_generic_request env CEPH_MSG_STATFS (18 + 16) CEPH_MSG_STATFS_REPLY (Some buf) 32 m")
  case None
  then show ?thesis using assms by (simp add: ceph_monc_do_statfs_def)
next
  case (Some p)
  obtain r m1 where p: "p = (r, m1)" by force
  note n = new_generic_ok[OF assms(1) Some[unfolded p]]
  obtain m2 bs where m2: "fill_generic r bs m1 = Inr m2" "do_generic_request env 0 r m2 = Inr m'"
    using assms(3) Some by (auto simp: ceph_monc_do_statfs_def p)
  note f = fill_generic_ok[OF n(1) m2(1)]
  show ?thesis using do_generic_ok[OF f(1) _ _ assms(2) m2(2)] n f by simp
qed

lemma get_version_ok:
  assumes "mon_ok m" and "mon_env_ok env" and "ceph_monc_do_get_version env what newest m = Inr (x, m')"
  shows "mon_ok m'"
proof (cases "new_generic_request env CEPH_MSG_MON_GET_VERSION (8 + 4 + length what) CEPH_MSG_MON_GET_VERSION_REPLY (Some newest) 8 m")
  case None
  then show ?thesis using assms by (simp add: ceph_monc_do_get_version_def)
next
  case (Some p)
  obtain r m1 where p: "p = (r, m1)" by force
  note n = new_generic_ok[OF assms(1) Some[unfolded p]]
  obtain front where g: "do_generic_request env (mc_last_tid m1 + 1) r
      (upd_gr r (\<lambda>x. x\<lparr>gr_request := (gr_request x)\<lparr>m_front := front\<rparr>\<rparr>) (m1\<lparr>mc_last_tid := mc_last_tid m1 + 1\<rparr>)) = Inr m'"
    using assms(3) Some by (auto simp: ceph_monc_do_get_version_def p Let_def)
  have "mon_ok (m1\<lparr>mc_last_tid := mc_last_tid m1 + 1\<rparr>)" using n(1) by (simp add: mon_defs)
  then have "mon_ok (upd_gr r (\<lambda>x. x\<lparr>gr_request := (gr_request x)\<lparr>m_front := front\<rparr>\<rparr>) (m1\<lparr>mc_last_tid := mc_last_tid m1 + 1\<rparr>))"
    by (rule upd_gr_ok) simp
  then show ?thesis using do_generic_ok[OF _ _ _ assms(2) g] n by (simp add: upd_gr_def)
qed

lemma poolop_ok:
  assumes "mon_ok m" and "mon_env_ok env" and "do_poolop env oper pool snapid buf len m = Inr (x, m')"
  shows "mon_ok m'"
proof (cases "new_generic_request env CEPH_MSG_POOLOP 62 CEPH_MSG_POOLOP_REPLY buf len m")
  case None
  then show ?thesis using assms by (simp add: do_poolop_def)
next
  case (Some p)
  obtain r m1 where p: "p = (r, m1)" by force
  note n = new_generic_ok[OF assms(1) Some[unfolded p]]
  let ?m = "upd_gr r (\<lambda>x. x\<lparr>gr_request := (gr_request x)\<lparr>hdr_version := 2\<rparr>\<rparr>) m1"
  obtain m2 bs where m2: "fill_generic r bs ?m = Inr m2" "do_generic_request env 0 r m2 = Inr m'"
    using assms(3) Some by (auto simp: do_poolop_def p Let_def)
  have "mon_ok ?m" using n(1) by (rule upd_gr_ok) simp
  note f = fill_generic_ok[OF this m2(1)]
  show ?thesis using do_generic_ok[OF f(1) _ _ assms(2) m2(2)] n f by (simp add: upd_gr_def)
qed

lemma finish_ok:
  assumes "mon_ok m" and "mon_env_ok env" and "finish_generic_request env err r m = Inr (x, m')"
  shows "mon_ok m'"
proof -
  have r: "r \<in> set_tree (generic_request_tree m)" and m': "m' = m\<lparr>generic_request_tree := me_erase env r (generic_request_tree m),
      num_generic_requests := num_generic_requests m - 1\<rparr>"
    using assms(3) by (auto simp: finish_generic_request_def rb_erase_def split: if_splits)
  have o: "ordered (\<lambda>r. gr_tid (gr_of m r)) (generic_request_tree m)" and e: "erases_node (me_erase env)"
    using assms(1,2) by (simp_all add: mon_defs mon_env_ok_def)
  have "ordered (\<lambda>r. gr_tid (gr_of m r)) (me_erase env r (generic_request_tree m))" using map_key_remove1[OF o r e] .
  moreover have "int (card (set_tree (generic_request_tree m) - {r})) = int (card (set_tree (generic_request_tree m))) - 1"
    using r card_Suc_Diff1[of "set_tree (generic_request_tree m)" r] by simp
  ultimately show ?thesis using assms(1) erase_set[OF o e r] by (auto simp: m' mon_defs)
qed

lemma store_result_ok: "mon_ok m \<Longrightarrow> store_result r bs res m = Inr m' \<Longrightarrow> mon_ok m'"
  by (auto simp: store_result_def intro!: upd_gr_ok)

lemma replies_ok:
  assumes "mon_ok m"
  shows "handle_statfs_reply msg m = Inr m1 \<Longrightarrow> mon_ok m1" "handle_get_version_reply msg mem m = Inr m2 \<Longrightarrow> mon_ok m2"
    "handle_poolop_reply msg m = Inr m3 \<Longrightarrow> mon_ok m3"
  using assms unfolding handle_statfs_reply_def handle_get_version_reply_def handle_poolop_reply_def catchE_def Let_def
  by (auto intro: store_result_ok intro!: upd_gr_ok split: if_splits option.splits sum.splits stop.splits prod.splits)

lemma resend_ok: "mon_ok (resend_generic_request m) = mon_ok m"
proof -
  have "mon_ok (fold (\<lambda>r m. fold mon_act [Mon_revoke (gr_request (gr_of m r)), Mon_revoke_incoming (gr_reply (gr_of m r)), Mon_send (gr_request (gr_of m r))] m) rs m) = mon_ok m" for rs m
    by (induction rs arbitrary: m) simp_all
  then show ?thesis by (simp only: resend_generic_request_def)
qed

section \<open>The invariant of every state\<close>

lemma validate_auth_ok:
  assumes "mon_ok m" and "validate_auth env m = Inr (x, m')"
  shows "mon_ok m'"
proof (cases "pending_auth m")
  case True
  then show ?thesis using assms by (simp add: validate_auth_def)
next
  case False
  then obtain ret mem ac where b: "ceph_build_auth (me_auth env) (m_auth_mem m) (front_alloc_len (m_auth m)) (mc_auth m) = Inr (ret, mem, ac)"
    and r: "m' = m\<lparr>m_auth_mem := mem, mc_auth := ac\<rparr> \<or> send_prepared_auth_request ret (m\<lparr>m_auth_mem := mem, mc_auth := ac\<rparr>) = Inr m'"
    using assms(2) by (auto simp: validate_auth_def Let_def split: if_splits)
  have "mon_ok (m\<lparr>m_auth_mem := mem, mc_auth := ac\<rparr>)"
    using assms(1) build_auth_length[OF b] build_typed[OF _ b] by (simp add: mon_defs)
  then show ?thesis using r send_prepared_ok by blast
qed

lemma set_auth_ok: "mon_ok m \<Longrightarrow> auth_typed ac \<Longrightarrow> mon_ok (m\<lparr>mc_auth := ac\<rparr>)"
  by (simp add: mon_defs)

lemma mon_ok_auth: "mon_ok m \<Longrightarrow> auth_typed (mc_auth m)"
  by (simp add: mon_ok_def)

lemma delayed_work_ok:
  assumes "mon_ok m" and "delayed_work env m = Inr m'"
  shows "mon_ok m'"
proof (cases "hunting m")
  case True
  then obtain m1 m2 where "close_session m = Inr m1" "open_session env m1 = Inr m2" "m' = schedule_delayed env m2"
    using assms(2) by (auto simp: delayed_work_def)
  then show ?thesis using open_session_ok[OF close_session_ok[OF assms(1)]] by simp
next
  case False
  then obtain x m1 ok ac m2 where v: "validate_auth env (mon_act Mon_keepalive m) = Inr (x, m1)" "ceph_auth_is_authenticated (me_auth env) (mc_auth m1) = Inr (ok, ac)"
    and r: "m' = schedule_delayed env m2" "(if ok then send_subscribe env (m1\<lparr>mc_auth := ac\<rparr>) else Inr (m1\<lparr>mc_auth := ac\<rparr>)) = Inr m2"
    using assms(2) by (auto simp: delayed_work_def Let_def simp del: if_split)
  have m1: "mon_ok m1" using validate_auth_ok[OF _ v(1)] assms(1) by simp
  then have "mon_ok (m1\<lparr>mc_auth := ac\<rparr>)" by (intro set_auth_ok query_typed[OF mon_ok_auth v(2)])
  then show ?thesis using r send_subscribe_ok by (auto split: if_splits)
qed

lemma handle_auth_reply_ok:
  assumes "mon_ok (monc cl)" and "handle_auth_reply env msg cl = Inr cl'"
  shows "mon_ok (monc cl')"
proof -
  let ?m = "monc cl" and ?ae = "me_auth env"
  obtain was ac0 ret mem ac m2 where a: "ceph_auth_is_authenticated ?ae (mc_auth ?m) = Inr (was, ac0)"
      "ceph_handle_auth_reply ?ae (m_front msg) (int (length (m_front msg))) (m_auth_mem ?m) (front_alloc_len (m_auth ?m)) ac0 = Inr (ret, mem, ac)"
    and m2: "(let m = ?m\<lparr>pending_auth := False, mc_auth := ac, m_auth_mem := mem\<rparr> in
       if ret < 0 then Inr (mon_act Wake_auth (m\<lparr>auth_err := ret\<rparr>))
       else if 0 < ret then send_prepared_auth_request ret m
       else if \<not> was then bindE (ceph_auth_is_authenticated ?ae (mc_auth m)) (\<lambda>(ok, ac). let m = m\<lparr>mc_auth := ac\<rparr> in
          if ok then bindE (send_subscribe env (m\<lparr>msgr_name := (8, global_id ac)\<rparr>)) (\<lambda>m. Inr (resend_generic_request m)) else Inr m)
       else Inr m) = Inr m2"
    and cl': "monc cl' = m2 \<or> monc cl' = mon_act Debugfs_client_init m2"
    using assms(2) unfolding handle_auth_reply_def Let_def by (auto simp: upd_monc_def simp del: if_split split: if_splits)
  have t: "auth_typed ac" using handle_reply_typed[OF query_typed[OF mon_ok_auth[OF assms(1)] a(1)] a(2)] .
  define m where "m = ?m\<lparr>pending_auth := False, mc_auth := ac, m_auth_mem := mem\<rparr>"
  have m: "mon_ok m" using assms(1) t handle_auth_reply_length[OF a(2)] by (simp add: m_def mon_defs)
  have e: "mon_ok (m\<lparr>auth_err := ret\<rparr>)" using m by (simp add: mon_defs)
  have s: "mon_ok m3" if "ceph_auth_is_authenticated ?ae ac = Inr (ok, ac2)"
    "m3 = m\<lparr>mc_auth := ac2\<rparr> \<or> (\<exists>m4. send_subscribe env (m\<lparr>mc_auth := ac2, msgr_name := (8, global_id ac2)\<rparr>) = Inr m4 \<and> m3 = resend_generic_request m4)" for ok ac2 m3
  proof -
    have "mon_ok (m\<lparr>mc_auth := ac2\<rparr>)" by (intro set_auth_ok m query_typed[OF t that(1)])
    moreover from this have "mon_ok (m\<lparr>mc_auth := ac2, msgr_name := (8, global_id ac2)\<rparr>)" by (simp add: mon_defs)
    ultimately show ?thesis using that(2) send_subscribe_ok by (auto simp: resend_ok)
  qed
  have "mc_auth m = ac" by (simp add: m_def)
  then have "mon_ok m2" using m2 m e s send_prepared_ok[OF m] unfolding m_def[symmetric] Let_def
    by (auto split: if_splits)
  then show ?thesis using cl' by auto
qed

lemma mon_fault_ok: "mon_ok m \<Longrightarrow> mon_fault env m = Inr m' \<Longrightarrow> mon_ok m'"
proof -
  assume m: "mon_ok m" and f: "mon_fault env m = Inr m'"
  then obtain m1 where c: "close_session m = Inr m1" and r: "(if \<not> hunting m1 then open_session env (m1\<lparr>hunting := True\<rparr>) else Inr (schedule_delayed env m1)) = Inr m'"
    by (auto simp: mon_fault_def)
  have "mon_ok m1" using close_session_ok[OF m c] .
  moreover from this have "mon_ok (m1\<lparr>hunting := True\<rparr>)" by (simp add: mon_defs)
  ultimately show ?thesis using r open_session_ok by (auto split: if_splits)
qed

lemma mon_request_ok: "mon_ok m \<Longrightarrow> mon_request env a m = Inr m' \<Longrightarrow> mon_ok m'"
  by (cases a) (auto dest: request_next_ok)

lemma mon_requests_ok: "mon_ok m \<Longrightarrow> foldE (mon_request env) as m = Inr m' \<Longrightarrow> mon_ok m'"
  by (induction as arbitrary: m) (auto dest: mon_request_ok)

lemma dispatch_ok:
  assumes "mon_ok (monc cl)" and "\<And>f c. extra = Some f \<Longrightarrow> mon_ok (monc c) \<Longrightarrow> mon_ok (monc (snd (f msg c)))"
    and "mon_dispatch oenv env extra msg mem cl = Inr cl'"
  shows "mon_ok (monc cl')"
  using assms unfolding mon_dispatch_def Let_def
  by (auto simp: dispatch_osd_map_def dest: handle_auth_reply_ok subscribe_ack_ok replies_ok handle_map_ok mon_requests_ok split: if_splits option.splits)

text \<open>The states of the clients: the monitor client is set up, and then messages arrive, timers run, the connection fails and users call, in any order.\<close>

definition fronts_ok :: "mon_env \<Rightarrow> bool" where
  "fronts_ok env \<longleftrightarrow> (\<forall>n mem. oa_front (me_alloc env) n = Some mem \<longrightarrow> length mem = n)"

inductive mon_reach :: "ceph_client \<Rightarrow> bool" where
  mon_init: "ceph_monc_init env name key addrs gr = Inr m \<Longrightarrow> fronts_ok env \<Longrightarrow> mon_reach \<lparr>monc = m, osdc = oc\<rparr>"
| mon_open: "mon_reach cl \<Longrightarrow> ceph_monc_open_session env (monc cl) = Inr m \<Longrightarrow> mon_reach (cl\<lparr>monc := m\<rparr>)"
| mon_message: "mon_reach cl \<Longrightarrow> (\<And>f c. extra = Some f \<Longrightarrow> mon_ok (monc c) \<Longrightarrow> mon_ok (monc (snd (f msg c)))) \<Longrightarrow>
    mon_dispatch oenv env extra msg mem cl = Inr cl' \<Longrightarrow> mon_reach cl'"
| mon_lost: "mon_reach cl \<Longrightarrow> mon_fault env (monc cl) = Inr m \<Longrightarrow> mon_reach (cl\<lparr>monc := m\<rparr>)"
| mon_timer: "mon_reach cl \<Longrightarrow> delayed_work env (monc cl) = Inr m \<Longrightarrow> mon_reach (cl\<lparr>monc := m\<rparr>)"
| mon_validate: "mon_reach cl \<Longrightarrow> ceph_monc_validate_auth env (monc cl) = Inr (r, m) \<Longrightarrow> mon_reach (cl\<lparr>monc := m\<rparr>)"
| mon_next_map: "mon_reach cl \<Longrightarrow> ceph_monc_request_next_osdmap env (monc cl) = Inr m \<Longrightarrow> mon_reach (cl\<lparr>monc := m\<rparr>)"
| mon_mdsmap: "mon_reach cl \<Longrightarrow> mon_reach (cl\<lparr>monc := ceph_monc_got_mdsmap e ((monc cl)\<lparr>want_mdsmap := w\<rparr>)\<rparr>)"
| mon_statfs: "mon_reach cl \<Longrightarrow> mon_env_ok env \<Longrightarrow> ceph_monc_do_statfs env buf (monc cl) = Inr (r', m) \<Longrightarrow> mon_reach (cl\<lparr>monc := m\<rparr>)"
| mon_version: "mon_reach cl \<Longrightarrow> mon_env_ok env \<Longrightarrow> ceph_monc_do_get_version env what buf (monc cl) = Inr (r', m) \<Longrightarrow> mon_reach (cl\<lparr>monc := m\<rparr>)"
| mon_poolop: "mon_reach cl \<Longrightarrow> mon_env_ok env \<Longrightarrow> do_poolop env oper pool sid pbuf len (monc cl) = Inr (r', m) \<Longrightarrow> mon_reach (cl\<lparr>monc := m\<rparr>)"
| mon_done: "mon_reach cl \<Longrightarrow> mon_env_ok env \<Longrightarrow> finish_generic_request env err r (monc cl) = Inr (e', m) \<Longrightarrow> mon_reach (cl\<lparr>monc := m\<rparr>)"
| mon_osdc: "mon_reach cl \<Longrightarrow> mon_reach (cl\<lparr>osdc := oc\<rparr>)"

lemma monc_init_ok: "ceph_monc_init env name key addrs gr = Inr m \<Longrightarrow> fronts_ok env \<Longrightarrow> mon_ok m"
  unfolding ceph_monc_init_def fronts_ok_def mon_msg_new_def ceph_msg_new_def
  by (auto simp: Let_def mon_defs ordered_def auth_typed_def ceph_auth_init_def split: option.splits if_splits prod.splits)

lemma reach_mon_ok: "mon_reach cl \<Longrightarrow> mon_ok (monc cl)"
proof (induction rule: mon_reach.induct)
  case (mon_init env name key addrs gr m oc)
  then show ?case using monc_init_ok by simp
next
  case (mon_open cl env m)
  then show ?case by (auto simp: ceph_monc_open_session_def dest: open_session_ok)
next
  case (mon_message cl extra msg oenv env mem cl')
  then show ?case using dispatch_ok by blast
next
  case (mon_mdsmap cl e w)
  then have "mon_ok ((monc cl)\<lparr>want_mdsmap := w\<rparr>)" by (simp add: mon_defs)
  then show ?case by simp
next
  case (mon_validate cl env r m)
  then show ?case using validate_auth_ok by (simp add: ceph_monc_validate_auth_def)
qed (auto dest: mon_fault_ok delayed_work_ok request_next_ok statfs_ok get_version_ok poolop_ok finish_ok)

section \<open>The subscription\<close>

definition item_image :: "u8 list \<Rightarrow> u64 \<Rightarrow> u8 \<Rightarrow> u8 list \<Rightarrow> u8 list" where
  "item_image what hv onetime junk = le_bytes 4 (6 :: u32) @ what @ junk @ le_bytes 8 hv @ [onetime]"

lemma subscribe_item_at:
  assumes "p = int (length pre)" and "27 \<le> length junk" and "p + 10 \<le> en" and "length what = 6"
  shows "subscribe_item what hv onetime en (pre @ junk, p) =
    Inr (pre @ item_image what hv onetime (take 8 (drop 10 junk)) @ drop 27 junk, p + 27)"
proof -
  let ?n = "le_bytes 4 (6 :: u32)" and ?j = "take 8 (drop 10 junk)"
  have 1: "ceph_encode_32 (pre @ junk) p 6 = Inr (pre @ ?n @ drop 4 junk, p + 4)"
    by (rule encode_at(2)[where pre = pre and junk = junk]) (use assms in simp_all)
  have 2: "ceph_encode_copy (pre @ ?n @ drop 4 junk) (p + 4) what = Inr ((pre @ ?n @ what) @ drop 10 junk, p + 10)"
    by (rule encode_at(4)[where pre = "pre @ ?n" and junk = "drop 4 junk"]) (use assms in simp_all)
  have g: "get_bytes what 6 0 = Inr what" using assms(4) by (simp add: get_bytes_def)
  have st: "ceph_encode_string (pre @ junk) en p what 6 = Inr ((pre @ ?n @ what) @ drop 10 junk, p + 10)"
    using assms(3) 1 2 g by (simp add: ceph_encode_string_def guardE_def)
  have "drop 10 junk = ?j @ take 8 (drop 18 junk) @ take 1 (drop 26 junk) @ drop 27 junk"
    using append_take_drop_id[of 8 "drop 10 junk"] append_take_drop_id[of 8 "drop 18 junk"] append_take_drop_id[of 1 "drop 26 junk"] by simp
  then have e: "(pre @ ?n @ what) @ drop 10 junk = (pre @ ?n @ what @ ?j) @ take 8 (drop 18 junk) @ take 1 (drop 26 junk) @ drop 27 junk" by simp
  have 3: "put_bytes ((pre @ ?n @ what) @ drop 10 junk) (p + 10 + 8) (le_bytes 8 hv) =
      Inr ((pre @ ?n @ what @ ?j) @ le_bytes 8 hv @ take 1 (drop 26 junk) @ drop 27 junk)"
    unfolding e by (rule put_mid) (use assms in simp_all)
  have 4: "put_bytes ((pre @ ?n @ what @ ?j @ le_bytes 8 hv) @ take 1 (drop 26 junk) @ drop 27 junk) (p + 10 + 16) [onetime] =
      Inr ((pre @ ?n @ what @ ?j @ le_bytes 8 hv) @ [onetime] @ drop 27 junk)"
    by (rule put_mid) (use assms in simp_all)
  show ?thesis using st 3 4 by (simp add: subscribe_item_def item_image_def)
qed

text \<open>The maps that are subscribed to: the name, the version the client has, and whether one update is enough.\<close>

definition wanted_maps :: "ceph_mon_client \<Rightarrow> (u8 list \<times> u64 \<times> u8) list" where
  "wanted_maps m =
    (if want_next_osdmap m \<noteq> 0 then [(s_osdmap, ucast (have_osdmap m), 1)] else []) @
    (if want_mdsmap m \<noteq> 0 then [(s_mdsmap, ucast (have_mdsmap m), 0)] else []) @ [(s_monmap, 0, 0)]"

definition subscribe_image :: "(u8 list \<times> u64 \<times> u8) list \<Rightarrow> u8 list list \<Rightarrow> u8 list" where
  "subscribe_image items junks = le_bytes 4 (word_of_nat (length items) :: u32) @ concat (map (\<lambda>((w, h, o'), j). item_image w h o' j) (zip items junks))"

lemma s_lengths [simp]: "length s_osdmap = 6" "length s_mdsmap = 6" "length s_monmap = 6"
  by (simp_all add: s_osdmap_def s_mdsmap_def s_monmap_def)

lemma item_length [simp]: "length what = 6 \<Longrightarrow> length junk = 8 \<Longrightarrow> length (item_image what hv onetime junk) = 27"
  by (simp add: item_image_def)

text \<open>Writing the items one after the other.\<close>

lemma items_at:
  assumes "list_all (\<lambda>(w, h, o'). length w = 6) items" and "p = int (length pre)" and "27 * length items \<le> length junk"
    and "p + 27 * int (length items) \<le> en"
  shows "\<exists>js. length js = length items \<and> list_all (\<lambda>j. length j = 8) js \<and>
    foldE (\<lambda>(w, h, o'). subscribe_item w h o' en) items (pre @ junk, p) =
      Inr (pre @ concat (map (\<lambda>((w, h, o'), j). item_image w h o' j) (zip items js)) @ drop (27 * length items) junk, p + 27 * int (length items))"
  using assms
proof (induction items arbitrary: pre junk p)
  case (Cons x items)
  obtain w h o' where x: "x = (w, h, o')" by (cases x)
  let ?j = "take 8 (drop 10 junk)"
  have w: "length w = 6" using Cons.prems(1) x by simp
  have 1: "subscribe_item w h o' en (pre @ junk, p) = Inr (pre @ item_image w h o' ?j @ drop 27 junk, p + 27)"
    using Cons.prems by (intro subscribe_item_at) (simp_all add: x)
  have "length ?j = 8" using Cons.prems(3) by simp
  have pre: "p + 27 = int (length (pre @ item_image w h o' ?j))" using Cons.prems(2) item_length[OF w \<open>length ?j = 8\<close>] by simp
  have prems: "list_all (\<lambda>(w, h, o'). length w = 6) items" "27 * length items \<le> length (drop 27 junk)" "p + 27 + 27 * int (length items) \<le> en"
    using Cons.prems by (auto simp: list_all_iff split_def)
  obtain js where js: "length js = length items" "list_all (\<lambda>j. length j = 8) js"
    "foldE (\<lambda>(w, h, o'). subscribe_item w h o' en) items ((pre @ item_image w h o' ?j) @ drop 27 junk, p + 27) =
      Inr ((pre @ item_image w h o' ?j) @ concat (map (\<lambda>((w, h, o'), j). item_image w h o' j) (zip items js)) @ drop (27 * length items) (drop 27 junk), p + 27 + 27 * int (length items))"
    using Cons.IH[OF _ pre, of "drop 27 junk"] prems by blast
  show ?case using js 1 \<open>length ?j = 8\<close> by (intro exI[of _ "?j # js"]) (simp add: x ac_simps)
qed simp

lemma items_length:
  assumes "length js = length items" and "list_all (\<lambda>(w, h, o'). length w = 6) items" and "list_all (\<lambda>j. length j = 8) js"
  shows "length (concat (map (\<lambda>((w, h, o'), j). item_image w h o' j) (zip items js))) = 27 * length items"
  using assms by (induction js items rule: list_induct2) auto

lemma bindE_assoc: "bindE (bindE m f) g = bindE m (\<lambda>x. bindE (f x) g)"
  by (cases m) simp_all

lemma send_subscribe_fold:
  "send_subscribe env m =
    (if sub_expired env m \<and> sub_sent m = 0 \<or> want_next_osdmap m = 1 then
       bindE (ceph_encode_32 (m_subscribe_mem m) 0 (word_of_nat (length (wanted_maps m)))) (\<lambda>(buf, p).
       bindE (foldE (\<lambda>(w, h, o'). subscribe_item w h o' (int (front_alloc_len (m_subscribe m)))) (wanted_maps m) (buf, p)) (\<lambda>(buf, p).
       let m = m\<lparr>want_next_osdmap := (if want_next_osdmap m \<noteq> 0 then 2 else want_next_osdmap m), m_subscribe_mem := buf,
                 m_subscribe := (m_subscribe m)\<lparr>m_front := take (nat p) buf, hdr_front_len := word_of_int p\<rparr>\<rparr>;
           m = mon_act (Mon_send (m_subscribe m)) (mon_act (Mon_revoke (m_subscribe m)) m) in
       Inr (m\<lparr>sub_sent := me_jiffies env OR 1\<rparr>)))
     else Inr m)"
  by (simp add: send_subscribe_def wanted_maps_def Let_def bindE_assoc split_def)


section \<open>Opening a session\<close>

text \<open>C28: Opening a session picks one of the monitors of the map, opens the connection to its address, and sends the hello of the authentication client, after taking back what
  was queued of the message before; the name of the client has to fit the message and the map must not be empty.\<close>

theorem open_session_connects:
  assumes "mon_reach cl" and "m = monc cl" and "cur_mon m < 0" and "monmap m = Some mp" and "mon_inst mp \<noteq> []" and "length (mon_inst mp) < 2 ^ 31"
    and "length (ac_name (mc_auth m)) \<le> 4041"
  shows "\<exists>m' i. open_session env m = Inr m' \<and> i < length (mon_inst mp) \<and> cur_mon m' = int i \<and> pending_auth m' \<and>
    mon_acts m' = mon_acts m @ [Mon_open (int i) (inst_addr (mon_inst mp ! i)), Mon_revoke (m_auth m'), Mon_send (m_auth m')] \<and>
    m_front (m_auth m') = monhdr_image @ le_bytes 4 (0 :: u32) @ le_bytes 4 (word_of_nat (length (hello_payload (mc_auth m))) :: u32) @ hello_payload (mc_auth m)"
proof -
  let ?n = "length (mon_inst mp)" and ?ac = "mc_auth m"
  define i where "i = unat ((word_of_int (sint (random_byte env)) :: u32) mod num_mon mp)"
  have n: "unat (num_mon mp) = ?n" using assms(6) by (simp add: num_mon_def unat_of_nat)
  have pos: "0 < ?n" using assms(5) by simp
  then have nz: "num_mon mp \<noteq> 0" using n by (metis less_numeral_extra(3) unsigned_0)
  have i: "i < ?n" using pos n by (simp add: i_def unat_mod_distrib)
  have s: "sint ((word_of_int (sint (random_byte env)) :: u32) mod num_mon mp) = int i"
  proof -
    have "(word_of_int (sint (random_byte env)) :: u32) mod num_mon mp = word_of_nat i" by (simp add: i_def)
    moreover have "i < 2 ^ 31" using i assms(6) by simp
    ultimately show ?thesis using sint_of_small[of i] by simp
  qed
  have ok: "length (m_auth_mem m) = 4096" "front_alloc_len (m_auth m) = 4096" using reach_mon_ok[OF assms(1)] assms(2) by (simp_all add: mon_defs)
  let ?img = "monhdr_image @ le_bytes 4 (0 :: u32) @ le_bytes 4 (word_of_nat (length (hello_payload ?ac)) :: u32) @ hello_payload ?ac"
  obtain rest where h: "ceph_auth_build_hello ?ac (m_auth_mem m) 4096 = Inr (int (55 + length (ac_name ?ac)), ?img @ rest)"
    using hello_image_lemma[of "m_auth_mem m" 4096 ?ac] ok(1) assms(7) by auto
  have len: "length ?img = 55 + length (ac_name ?ac)" by simp
  have u: "unat (word_of_int (int (55 + length (ac_name ?ac))) :: u64) = 55 + length (ac_name ?ac)" using assms(7) by (simp add: unat_of_nat flip: of_nat_add)
  have g: "get_bytes (?img @ rest) (unat (word_of_int (int (55 + length (ac_name ?ac))) :: u64)) 0 = Inr ?img"
    unfolding u using len by (simp add: get_bytes_def)
  show ?thesis using assms(3,4) nz s i h g ok(2)
    by (simp add: open_session_def send_prepared_auth_request_def Let_def mon_act_def rdi_def)
qed

section \<open>Answers\<close>

text \<open>C26: In every state the monitor client can reach its invariant holds: the fronts of its two standing messages have their size, the authentication client is well typed, there is a
  monitor map, the pending requests are ordered by transaction number in their tree and counted, and the OSD map is not wanted, wanted, or asked for.\<close>

theorem mon_client_invariant:
  assumes "mon_reach cl"
  shows "let m = monc cl in
    length (m_auth_mem m) = front_alloc_len (m_auth m) \<and> length (m_subscribe_mem m) = front_alloc_len (m_subscribe m) \<and> auth_typed (mc_auth m) \<and>
    monmap m \<noteq> None \<and> want_next_osdmap m \<in> {0, 1, 2} \<and> ordered (\<lambda>r. gr_tid (gr_of m r)) (generic_request_tree m) \<and>
    num_generic_requests m = int (card (set_tree (generic_request_tree m)))"
  using reach_mon_ok[OF assms] by (simp add: mon_defs Let_def)

lemma lookup_generic:
  assumes "mon_ok m" and "r \<in> set_tree (generic_request_tree m)"
  shows "lookup_generic_req m (gr_tid (gr_of m r)) = Some r"
proof -
  have o: "ordered (\<lambda>r. gr_tid (gr_of m r)) (generic_request_tree m)" using assms(1) by (simp add: mon_defs)
  obtain x where x: "lookup_by (\<lambda>r. gr_tid (gr_of m r)) (generic_request_tree m) (gr_tid (gr_of m r)) = Some x"
    using lookup_by_spec[OF o, of "gr_tid (gr_of m r)"] assms(2) by (cases "find (\<lambda>x. gr_tid (gr_of m x) = gr_tid (gr_of m r)) (inorder (generic_request_tree m))") (auto simp: find_None_iff)
  have "x = r" using ordered_key_inj[OF o lookup_by_mem[OF o x] assms(2)] lookup_by_key[OF o x] by simp
  then show ?thesis using x by (simp add: lookup_generic_req_def)
qed

lemma statfs_start:
  assumes "mon_ok m" and "mon_env_ok env" and "fronts_ok env" and "oa_req (me_alloc env)" and "\<And>n. oa_front (me_alloc env) n \<noteq> None"
    and "monmap m = Some mp" and "length (mm_fsid mp) = 16" and "\<forall>x\<in>set_tree (generic_request_tree m). gr_tid (gr_of m x) \<noteq> mc_last_tid m + 1"
  obtains r m1 where "ceph_monc_do_statfs env buf m = Inr (Inr r, m1)" "gr_buf (gr_of m1 r) = Some buf"
    "gr_tid (gr_of m1 r) = mc_last_tid m + 1" "hdr_tid (gr_request (gr_of m1 r)) = mc_last_tid m + 1" "m_front (gr_request (gr_of m1 r)) = monhdr_image @ mm_fsid mp"
    "mon_acts m1 = mon_acts m @ [Mon_send (gr_request (gr_of m1 r))]" "set_tree (generic_request_tree m1) = insert r (set_tree (generic_request_tree m))"
    "r \<notin> set_tree (generic_request_tree m)"
proof -
  let ?r = "gr_next m" and ?t = "mc_last_tid m + 1"
  obtain mem1 mem2 where mem: "oa_front (me_alloc env) 34 = Some mem1" "oa_front (me_alloc env) 1024 = Some mem2" using assms(5) by blast
  have l: "length mem1 = 34" using assms(3) mem(1) by (simp add: fronts_ok_def)
  obtain m0 where n: "new_generic_request env CEPH_MSG_STATFS (18 + 16) CEPH_MSG_STATFS_REPLY (Some buf) 32 m = Some (?r, m0)"
    using assms(4) mem by (simp add: new_generic_request_def ceph_msg_new_def Let_def)
  note ng = new_generic_ok[OF assms(1) n]
  have m0: "monmap m0 = Some mp" "gr_buf (gr_of m0 ?r) = Some buf" "m_front (gr_request (gr_of m0 ?r)) = mem1" "generic_request_tree m0 = generic_request_tree m"
    "mon_acts m0 = mon_acts m" "mc_last_tid m0 = mc_last_tid m" "\<And>x. x \<noteq> ?r \<Longrightarrow> gr_of m0 x = gr_of m x"
    using n assms(4,6) mem l by (auto simp: new_generic_request_def ceph_msg_new_def Let_def)
  define m1 where "m1 = upd_gr ?r (\<lambda>x. x\<lparr>gr_request := (gr_request x)\<lparr>m_front := monhdr_image @ mm_fsid mp\<rparr>\<rparr>) m0"
  have f: "fill_generic ?r (monhdr_image @ mm_fsid mp) m0 = Inr m1"
    using put_at[of "monhdr_image @ mm_fsid mp" mem1 "[]"] l assms(7) m0(3) by (simp add: fill_generic_def m1_def)
  define m2 where "m2 = upd_gr ?r (\<lambda>x. x\<lparr>gr_tid := ?t, gr_request := (gr_request x)\<lparr>hdr_tid := ?t\<rparr>\<rparr>) (m1\<lparr>mc_last_tid := ?t\<rparr>)"
  have old: "gr_of m2 x = gr_of m x" if "x \<noteq> ?r" for x using that m0(7) by (simp add: m2_def m1_def upd_gr_def)
  have new: "?r \<notin> set_tree (generic_request_tree m)" using ng(2) m0(4) by simp
  then have "ordered (\<lambda>x. gr_tid (gr_of m2 x)) (generic_request_tree m) = ordered (\<lambda>x. gr_tid (gr_of m x)) (generic_request_tree m)"
    using old by (intro ordered_cong) metis
  then have o: "ordered (\<lambda>x. gr_tid (gr_of m2 x)) (generic_request_tree m)" using assms(1) by (simp add: mon_defs)
  have "gr_tid (gr_of m2 ?r) = ?t" by (simp add: m2_def upd_gr_def)
  then have "\<forall>y\<in>set_tree (generic_request_tree m). gr_tid (gr_of m2 y) \<noteq> gr_tid (gr_of m2 ?r)" using assms(8) old new by metis
  then obtain t where t: "insert_by (\<lambda>x. gr_tid (gr_of m2 x)) (me_color env) ?r (generic_request_tree m) = Inr t" "set_tree t = insert ?r (set_tree (generic_request_tree m))"
    using by_key.ins_new[OF o, of "me_color env" ?r] assms(2) by (auto simp: mon_env_ok_def)
  define m3 where "m3 = mon_act (Mon_send (gr_request (gr_of m2 ?r))) (m2\<lparr>generic_request_tree := t, num_generic_requests := num_generic_requests m2 + 1\<rparr>)"
  have lt: "mc_last_tid m1 = mc_last_tid m" "generic_request_tree m2 = generic_request_tree m" by (simp_all add: m2_def m1_def upd_gr_def m0)
  have i: "insert_generic_request env ?r m2 = Inr (m2\<lparr>generic_request_tree := t\<rparr>)"
    using t(1) lt(2) by (simp add: insert_generic_request_def bug_if_exists_def)
  have "do_generic_request env 0 ?r m1 = Inr m3" unfolding do_generic_request_def Let_def by (simp add: lt(1) m2_def[symmetric] i m3_def)
  then have "ceph_monc_do_statfs env buf m = Inr (Inr ?r, m3)" using n f m0(1) by (simp add: ceph_monc_do_statfs_def)
  then show thesis
    by (rule that) (simp_all add: m3_def m2_def m1_def upd_gr_def mon_act_def m0 t(2) new)
qed


section \<open>Monitor maps\<close>

lemma entity_insts_length [simp]: "length (entity_insts n bs) = n"
  by (induction n arbitrary: bs) simp_all

lemma entity_insts_addrs: "length bs = n * ENTITY_INST_SIZE \<Longrightarrow> \<forall>i\<in>set (entity_insts n bs). length (inst_addr i) = 136"
proof (induction n arbitrary: bs)
  case (Suc n)
  have "length (inst_addr (entity_inst (take ENTITY_INST_SIZE bs))) = 136"
    using Suc.prems by (simp add: entity_inst_def decode_addr_def set_bytes_def ENTITY_INST_SIZE_def)
  then show ?case using Suc.IH[of "drop ENTITY_INST_SIZE bs"] Suc.prems by simp
qed simp

text \<open>C30: Decoding a monitor map never reads outside the message, whatever it holds: it is refused, or gives a map of fewer than 31 monitors with an identity of 16 bytes and whole addresses.\<close>

theorem monmap_decode_bounded:
  assumes "en \<le> int (length buf)" and "0 \<le> p"
  shows "safe is_error (\<lambda>(m, q). q \<le> en \<and> length (mon_inst m) < 31 \<and> length (mm_fsid m) = 16 \<and> (\<forall>i\<in>set (mon_inst m). length (inst_addr i) = 136))
    (ceph_monmap_decode alloc buf en p)"
proof -
  have addrs: "\<forall>i\<in>set (entity_insts n (take (n * ENTITY_INST_SIZE) bs)). length (inst_addr i) = 136" if "n * ENTITY_INST_SIZE \<le> length bs" for n bs
    using that by (intro entity_insts_addrs) simp
  have room: "unat w * c \<le> length buf - nat q" if "uint w * int c \<le> en - q" "0 \<le> q" for w :: u32 and c q
  proof -
    have "int (unat w * c) + q \<le> int (length buf)" using that(1) assms(1) by simp
    then show ?thesis using that(2) by linarith
  qed
  show ?thesis using assms unfolding ceph_monmap_decode_def
    by (auto simp: bindD_def ceph_decode_32_safe_def ceph_decode_16_safe_def ceph_decode_need_def ceph_has_room_def ceph_decode_32_def ceph_decode_16_def
        ceph_decode_copy_def get_bytes_def guardE_def failD_def retD_def is_error_def CEPH_MAX_MON_def word_le_nat_alt not_le intro!: addrs room)
qed

section \<open>An example\<close>

definition example_mon_env :: mon_env where
  "example_mon_env = \<lparr>me_jiffies = 100, HZ = 250, random_byte = 200, me_auth = example_auth_env, me_alloc = example_osd_alloc,
     me_color = (\<lambda>t. t), me_erase = (\<lambda>x t. foldr (\<lambda>y u. Node Leaf y u) (remove1 x (inorder t)) Leaf)\<rparr>"

lemma example_mon_env_ok: "mon_env_ok example_mon_env" "fronts_ok example_mon_env"
proof -
  have io: "inorder (foldr (\<lambda>y u. Node Leaf y u) xs Leaf) = xs" for xs :: "nat list" by (induction xs) simp_all
  show "mon_env_ok example_mon_env" by (simp add: mon_env_ok_def example_mon_env_def keeps_inorder_def erases_node_def io)
  show "fronts_ok example_mon_env" by (simp add: fronts_ok_def example_mon_env_def example_osd_alloc_def)
qed

lemma example_mon_init:
  obtains m where "ceph_monc_init example_mon_env None None [replicate 136 1, replicate 136 2, replicate 136 3] gr = Inr m"
    "mon_reach \<lparr>monc = m, osdc = example_client\<rparr>" "want_next_osdmap m = 1" "want_mdsmap m = 0" "have_osdmap m = 0" "cur_mon m = -1" "mon_acts m = []" "mc_last_tid m = 0"
    "generic_request_tree m = Leaf" "ac_name (mc_auth m) = CEPH_AUTH_NAME_DEFAULT"
    "\<exists>mp. monmap m = Some mp \<and> length (mm_fsid mp) = 16 \<and> map inst_addr (mon_inst mp) = map (set_bytes 4 (replicate 4 0)) [replicate 136 1, replicate 136 2, replicate 136 3]"
proof -
  obtain m where m: "ceph_monc_init example_mon_env None None [replicate 136 1, replicate 136 2, replicate 136 3] gr = Inr m"
    "want_next_osdmap m = 1" "want_mdsmap m = 0" "have_osdmap m = 0" "cur_mon m = -1" "mon_acts m = []" "mc_last_tid m = 0"
    "generic_request_tree m = Leaf" "ac_name (mc_auth m) = CEPH_AUTH_NAME_DEFAULT"
    "\<exists>mp. monmap m = Some mp \<and> length (mm_fsid mp) = 16 \<and> map inst_addr (mon_inst mp) = map (set_bytes 4 (replicate 4 0)) [replicate 136 1, replicate 136 2, replicate 136 3]"
    by (simp add: ceph_monc_init_def build_initial_monmap_def initial_inst_def example_mon_env_def example_auth_env_def ceph_auth_init_def mon_msg_new_def ceph_msg_new_def
        example_osd_alloc_def Let_def)
  then show thesis using that mon_init[OF m(1) example_mon_env_ok(2)] by blast
qed

theorem mon_client_invariant_witness:
  "\<exists>m. ceph_monc_init example_mon_env None None [replicate 136 1, replicate 136 2, replicate 136 3] (\<lambda>_. undefined) = Inr m \<and>
    ordered (\<lambda>r. gr_tid (gr_of m r)) (generic_request_tree m) \<and> num_generic_requests m = int (card (set_tree (generic_request_tree m)))"
proof -
  obtain m where m: "ceph_monc_init example_mon_env None None [replicate 136 1, replicate 136 2, replicate 136 3] (\<lambda>_. undefined) = Inr m"
    "mon_reach \<lparr>monc = m, osdc = example_client\<rparr>" using example_mon_init by metis
  then show ?thesis using mon_client_invariant[OF m(2)] by (simp add: Let_def)
qed


theorem open_session_connects_witness:
  "\<exists>m m' i. ceph_monc_init example_mon_env None None [replicate 136 1, replicate 136 2, replicate 136 3] (\<lambda>_. undefined) = Inr m \<and>
    open_session example_mon_env m = Inr m' \<and> i < 3 \<and> cur_mon m' = int i"
proof -
  obtain m where m: "ceph_monc_init example_mon_env None None [replicate 136 1, replicate 136 2, replicate 136 3] (\<lambda>_. undefined) = Inr m"
    "mon_reach \<lparr>monc = m, osdc = example_client\<rparr>" "cur_mon m = -1" "ac_name (mc_auth m) = CEPH_AUTH_NAME_DEFAULT"
    "\<exists>mp. monmap m = Some mp \<and> length (mm_fsid mp) = 16 \<and> map inst_addr (mon_inst mp) = map (set_bytes 4 (replicate 4 0)) [replicate 136 1, replicate 136 2, replicate 136 3]"
    using example_mon_init by metis
  then obtain mp where mp: "monmap m = Some mp" "length (mon_inst mp) = 3" by (metis length_map length_Cons list.size(3) numeral_3_eq_3)
  show ?thesis using open_session_connects[OF m(2), of m mp example_mon_env] m(1,3,4) mp by (fastforce simp: CEPH_AUTH_NAME_DEFAULT_def)
qed


theorem monmap_decode_bounded_witness:
  "safe is_error (\<lambda>(m, q). q \<le> 30 \<and> length (mon_inst m) < 31 \<and> length (mm_fsid m) = 16 \<and> (\<forall>i\<in>set (mon_inst m). length (inst_addr i) = 136))
    (ceph_monmap_decode (\<lambda>_. True) (replicate 30 0) 30 0)"
  by (rule monmap_decode_bounded) simp_all

end
